(* ===== verification/Prelude.thy ===== *)
theory Prelude
  imports Complex_Main "HOL-Library.Sublist" "HOL-Library.AList" "HOL-Library.Multiset"
    "HOL-Library.List_Lexorder" "HOL-Library.Char_ord"
begin

text \<open>
  What the component theories share: the byte-string operations of Go's \<open>strings\<close> package
  that the code uses, Go maps as association lists in iteration order, the instants of
  \<open>time.Time\<close>, and three small interfaces (locales) that several components provide:
  a step machine with an invariant, an equivalence that lifts to lists, and a clamp.

  A Go string is a list of bytes (\<^typ>\<open>string\<close>). \<open>ToLower\<close> and \<open>TrimSpace\<close> are modelled on
  bytes below 0x80, where they agree with Go; bytes from 0x80 up pass through unchanged.
\<close>

named_theorems go_str \<open>characterisations of the string operations\<close>
named_theorems go_map \<open>lookup and key facts of association maps\<close>

section \<open>Strings\<close>

definition has_prefix :: "string \<Rightarrow> string \<Rightarrow> bool" where
  "has_prefix s p = prefix p s"

definition has_suffix :: "string \<Rightarrow> string \<Rightarrow> bool" where
  "has_suffix s p = prefix (rev p) (rev s)"

fun str_contains :: "string \<Rightarrow> string \<Rightarrow> bool" where
  "str_contains [] p = (p = [])"
| "str_contains (c # s) p = (has_prefix (c # s) p \<or> str_contains s p)"

text \<open>\<open>strings.Index\<close>: the least position of \<open>p\<close> in \<open>s\<close>; \<^const>\<open>None\<close> stands for -1.\<close>

fun str_index :: "string \<Rightarrow> string \<Rightarrow> nat option" where
  "str_index [] p = (if p = [] then Some 0 else None)"
| "str_index (c # s) p =
     (if has_prefix (c # s) p then Some 0 else map_option Suc (str_index s p))"

text \<open>\<open>strings.Split(s, sep)\<close> for a one-byte separator: always at least one piece.\<close>

fun split_byte :: "char \<Rightarrow> string \<Rightarrow> string list" where
  "split_byte sep [] = [[]]"
| "split_byte sep (c # s) =
     (if c = sep then [] # split_byte sep s
      else (case split_byte sep s of [] \<Rightarrow> [[c]] | l # ls \<Rightarrow> (c # l) # ls))"

fun str_join :: "string \<Rightarrow> string list \<Rightarrow> string" where
  "str_join sep [] = []"
| "str_join sep [x] = x"
| "str_join sep (x # y # ys) = x @ sep @ str_join sep (y # ys)"

abbreviation newline :: char where "newline \<equiv> CHR 0x0A"

definition byte :: "char \<Rightarrow> nat" where
  "byte c = of_char c"

definition is_digit :: "char \<Rightarrow> bool" where
  "is_digit c = (48 \<le> byte c \<and> byte c \<le> 57)"

definition is_space :: "char \<Rightarrow> bool" where
  "is_space c = (byte c = 32 \<or> (9 \<le> byte c \<and> byte c \<le> 13))"

definition lower_byte :: "char \<Rightarrow> char" where
  "lower_byte c = (if 65 \<le> byte c \<and> byte c \<le> 90 then char_of (byte c + 32) else c)"

definition upper_byte :: "char \<Rightarrow> char" where
  "upper_byte c = (if 97 \<le> byte c \<and> byte c \<le> 122 then char_of (byte c - 32) else c)"

definition to_lower :: "string \<Rightarrow> string" where
  "to_lower s = map lower_byte s"

definition to_upper :: "string \<Rightarrow> string" where
  "to_upper s = map upper_byte s"

definition trim_left_of :: "(char \<Rightarrow> bool) \<Rightarrow> string \<Rightarrow> string" where
  "trim_left_of P s = dropWhile P s"

definition trim_right_of :: "(char \<Rightarrow> bool) \<Rightarrow> string \<Rightarrow> string" where
  "trim_right_of P s = rev (dropWhile P (rev s))"

definition trim_space :: "string \<Rightarrow> string" where
  "trim_space s = trim_right_of is_space (trim_left_of is_space s)"

definition trim_suffix :: "string \<Rightarrow> string \<Rightarrow> string" where
  "trim_suffix s p = (if has_suffix s p then take (length s - length p) s else s)"

definition trim_prefix :: "string \<Rightarrow> string \<Rightarrow> string" where
  "trim_prefix s p = (if has_prefix s p then drop (length p) s else s)"

abbreviation slash :: char where "slash \<equiv> CHR ''/''"

text \<open>\<open>filepath.Base\<close> of a path.\<close>

definition path_base :: "string \<Rightarrow> string" where
  "path_base p =
     (if p = [] then ''.''
      else let q = trim_right_of (\<lambda>c. c = slash) p in if q = [] then [slash] else last (split_byte slash q))"

lemma has_prefix_iff [go_str]: "has_prefix s p \<longleftrightarrow> (\<exists>b. s = p @ b)"
  by (auto simp: has_prefix_def prefix_def)

lemma has_prefix_Nil [simp]: "has_prefix s []"
  by (simp add: has_prefix_def)

lemma has_prefix_Cons [simp]: "has_prefix (c # s) (d # p) \<longleftrightarrow> c = d \<and> has_prefix s p"
  by (auto simp: has_prefix_def)

lemma has_prefix_Nil_Cons [simp]: "\<not> has_prefix [] (d # p)"
  by (simp add: has_prefix_def)

lemma has_prefix_append [simp]: "has_prefix (p @ s) p"
  by (simp add: has_prefix_def)

lemma has_suffix_iff [go_str]: "has_suffix s p \<longleftrightarrow> (\<exists>a. s = a @ p)"
proof
  assume "has_suffix s p"
  then obtain b where "rev s = rev p @ b"
    by (auto simp: has_suffix_def prefix_def)
  then have "s = rev b @ p"
    by (metis rev_append rev_rev_ident)
  then show "\<exists>a. s = a @ p" by blast
qed (auto simp: has_suffix_def)

lemma str_contains_iff [go_str]: "str_contains s p \<longleftrightarrow> (\<exists>a b. s = a @ p @ b)"
proof (induction s)
  case Nil
  show ?case by auto
next
  case (Cons c s)
  show ?case
  proof
    assume "str_contains (c # s) p"
    then consider "has_prefix (c # s) p" | "str_contains s p" by auto
    then show "\<exists>a b. c # s = a @ p @ b"
    proof cases
      case 1
      then show ?thesis by (metis append_Nil has_prefix_iff)
    next
      case 2
      with Cons.IH show ?thesis by (metis append_Cons)
    qed
  next
    assume "\<exists>a b. c # s = a @ p @ b"
    then obtain a b where ab: "c # s = a @ p @ b" by blast
    show "str_contains (c # s) p"
    proof (cases a)
      case Nil
      with ab have "has_prefix (c # s) p" by (auto simp: has_prefix_iff)
      then show ?thesis by simp
    next
      case (Cons d a')
      with ab Cons.IH show ?thesis by auto
    qed
  qed
qed

lemma str_contains_empty [simp]: "str_contains s []"
  by (cases s) auto

lemma str_contains_self [simp]: "str_contains s s"
  by (metis append.right_neutral append_Nil str_contains_iff)

lemma str_index_Some: "str_index s p = Some i \<Longrightarrow> \<exists>a b. s = a @ p @ b \<and> length a = i"
proof (induction s arbitrary: i)
  case Nil
  then show ?case by (auto split: if_splits)
next
  case (Cons c s)
  show ?case
  proof (cases "has_prefix (c # s) p")
    case True
    with Cons.prems show ?thesis by (auto simp: has_prefix_iff)
  next
    case False
    with Cons.prems obtain j where "str_index s p = Some j" and "i = Suc j" by auto
    with Cons.IH obtain a b where "s = a @ p @ b" "length a = j" by blast
    then have "c # s = (c # a) @ p @ b" "length (c # a) = i" using \<open>i = Suc j\<close> by auto
    then show ?thesis by blast
  qed
qed

lemma str_index_None [go_str]: "str_index s p = None \<longleftrightarrow> \<not> str_contains s p"
  by (induction s) auto

lemma str_index_least: "str_index s p = Some i \<Longrightarrow> j < i \<Longrightarrow> \<not> has_prefix (drop j s) p"
proof (induction s arbitrary: i j)
  case (Cons c s)
  then show ?case by (cases j) (auto split: if_splits)
qed (auto split: if_splits)

lemma str_index_le: "str_index s p = Some i \<Longrightarrow> i + length p \<le> length s"
  by (auto dest: str_index_Some)

lemma split_byte_not_Nil [simp]: "split_byte sep s \<noteq> []"
  by (induction s) (auto split: list.splits)

lemma str_join_Cons: "str_join sep (x # xs) = (if xs = [] then x else x @ sep @ str_join sep xs)"
  by (cases xs) auto

lemma join_split_byte [go_str]: "str_join [sep] (split_byte sep s) = s"
proof (induction s)
  case (Cons c s)
  show ?case
  proof (cases "split_byte sep s")
    case (Cons l ls)
    with Cons.IH show ?thesis
      by (cases ls) (auto simp: str_join_Cons)
  qed simp
qed simp

lemma split_byte_no_sep: "l \<in> set (split_byte sep s) \<Longrightarrow> sep \<notin> set l"
proof (induction s arbitrary: l)
  case (Cons c s)
  then show ?case
    by (cases "split_byte sep s") (auto split: if_splits)
qed simp

lemma split_byte_append: "sep \<notin> set l \<Longrightarrow> split_byte sep (l @ sep # s) = l # split_byte sep s"
  by (induction l) auto

lemma split_byte_single: "sep \<notin> set l \<Longrightarrow> split_byte sep l = [l]"
  by (induction l) auto

lemma split_byte_join: "ls \<noteq> [] \<Longrightarrow> list_all (\<lambda>l. sep \<notin> set l) ls \<Longrightarrow> split_byte sep (str_join [sep] ls) = ls"
proof (induction ls)
  case (Cons l ls)
  then show ?case by (cases "ls = []") (auto simp: str_join_Cons split_byte_append split_byte_single)
qed simp

lemma last_split_byte: "s \<noteq> [] \<Longrightarrow> last s \<noteq> sep \<Longrightarrow> last (split_byte sep s) \<noteq> []"
proof (induction sep s rule: split_byte.induct)
  case (2 sep c s)
  then show ?case by (cases "s = []") (auto split: list.splits)
qed simp

lemma byte_less [simp]: "byte c < 256"
  by (simp add: byte_def)

lemma byte_char_of [simp]: "byte (char_of n) = n mod 256"
  by (simp add: byte_def)

lemma lower_byte_idem [simp]: "lower_byte (lower_byte c) = lower_byte c"
  by (auto simp: lower_byte_def)

lemma upper_byte_idem [simp]: "upper_byte (upper_byte c) = upper_byte c"
  by (auto simp: upper_byte_def)

lemma to_lower_idem [simp]: "to_lower (to_lower s) = to_lower s"
  by (simp add: to_lower_def)

lemma to_upper_idem [simp]: "to_upper (to_upper s) = to_upper s"
  by (simp add: to_upper_def)

lemma length_to_lower [simp]: "length (to_lower s) = length s"
  by (simp add: to_lower_def)

lemma to_lower_append [simp]: "to_lower (s @ t) = to_lower s @ to_lower t"
  by (simp add: to_lower_def)

lemma is_space_upper [simp]: "is_space (upper_byte c) = is_space c"
  by (auto simp: is_space_def upper_byte_def)

lemma dropWhile_fixed: "dropWhile P s = s \<longleftrightarrow> s = [] \<or> \<not> P (hd s)"
  by (metis dropWhile.simps dropWhile_eq_self_iff hd_dropWhile)

definition trimmed :: "string \<Rightarrow> bool" where
  "trimmed s \<longleftrightarrow> s = [] \<or> (\<not> is_space (hd s) \<and> \<not> is_space (last s))"

lemma trim_space_trimmed [simp]: "trimmed (trim_space s)"
proof -
  define u where "u = dropWhile is_space s"
  define t where "t = rev (dropWhile is_space (rev u))"
  have t: "trim_space s = t"
    by (simp add: trim_space_def trim_left_of_def trim_right_of_def u_def t_def)
  show ?thesis
  proof (cases "t = []")
    case False
    then have ne: "dropWhile is_space (rev u) \<noteq> []" by (simp add: t_def)
    have "\<not> is_space (last t)"
      using hd_dropWhile [OF ne] by (simp add: t_def last_rev)
    moreover have "\<not> is_space (hd t)"
    proof -
      obtain v where "u = t @ v"
        by (metis rev_append rev_rev_ident t_def takeWhile_dropWhile_id)
      with False have "hd t = hd u" "u \<noteq> []" by auto
      then show ?thesis
        using hd_dropWhile [of is_space s] by (simp add: u_def)
    qed
    ultimately show ?thesis using t by (simp add: trimmed_def)
  qed (simp add: t trimmed_def)
qed

lemma trim_space_id: "trimmed s \<Longrightarrow> trim_space s = s"
proof -
  assume t: "trimmed s"
  then have "dropWhile is_space s = s" "dropWhile is_space (rev s) = rev s"
    by (auto simp: dropWhile_fixed trimmed_def hd_rev)
  then show ?thesis
    by (simp add: trim_space_def trim_left_of_def trim_right_of_def)
qed

lemma trim_space_idem [simp]: "trim_space (trim_space s) = trim_space s"
  by (simp add: trim_space_id)

lemma trimmed_to_upper: "trimmed s \<Longrightarrow> trimmed (to_upper s)"
  by (cases s) (auto simp: trimmed_def to_upper_def last_map)

section \<open>Decimal numbers\<close>

text \<open>\<open>strconv.Itoa\<close> and its inverse on digit strings.\<close>

definition digit_char :: "nat \<Rightarrow> char" where
  "digit_char n = char_of (48 + n)"

fun nat_digits :: "nat \<Rightarrow> string" where
  "nat_digits n = (if n < 10 then [digit_char n] else nat_digits (n div 10) @ [digit_char (n mod 10)])"

declare nat_digits.simps [simp del]

definition itoa :: "int \<Rightarrow> string" where
  "itoa i = (if i < 0 then CHR ''-'' # nat_digits (nat (- i)) else nat_digits (nat i))"

definition dec_value :: "string \<Rightarrow> nat" where
  "dec_value s = foldl (\<lambda>a c. a * 10 + (byte c - 48)) 0 s"

lemma byte_digit_char: "n < 10 \<Longrightarrow> byte (digit_char n) = 48 + n"
  by (simp add: digit_char_def)

lemma is_digit_digit_char: "n < 10 \<Longrightarrow> is_digit (digit_char n)"
  by (simp add: is_digit_def byte_digit_char)

lemma dec_value_nat_digits [simp]: "dec_value (nat_digits n) = n"
proof (induction n rule: nat_digits.induct)
  case (1 n)
  then show ?case
    by (cases "n < 10") (simp_all add: nat_digits.simps [of n] dec_value_def byte_digit_char)
qed

lemma nat_digits_digits: "c \<in> set (nat_digits n) \<Longrightarrow> is_digit c"
proof (induction n rule: nat_digits.induct)
  case (1 n)
  then show ?case
    by (cases "n < 10") (auto simp: nat_digits.simps [of n] is_digit_digit_char)
qed

lemma nat_digits_inject [simp]: "nat_digits m = nat_digits n \<longleftrightarrow> m = n"
  by (metis dec_value_nat_digits)

lemma nat_digits_not_Nil [simp]: "nat_digits n \<noteq> []"
  by (simp add: nat_digits.simps [of n])

lemma not_digit_minus: "\<not> is_digit (CHR ''-'')"
  by (simp add: is_digit_def byte_def)

lemma itoa_chars: "c \<in> set (itoa i) \<Longrightarrow> is_digit c \<or> c = CHR ''-''"
  by (auto simp: itoa_def nat_digits_digits split: if_splits)

lemma itoa_inject [simp]: "itoa i = itoa j \<longleftrightarrow> i = j"
proof -
  have "CHR ''-'' # s \<noteq> nat_digits n" for s n
    by (metis list.set_intros(1) nat_digits_digits not_digit_minus)
  then show ?thesis
    by (auto simp: itoa_def split: if_splits) (metis)+
qed

text \<open>\<open>strconv.Atoi\<close> on a 64-bit platform: an optional sign, then decimal digits, in range.\<close>

definition atoi :: "string \<Rightarrow> int option" where
  "atoi s =
     (let neg = (s \<noteq> [] \<and> hd s = CHR ''-'');
          ds = (if s \<noteq> [] \<and> (hd s = CHR ''-'' \<or> hd s = CHR ''+'') then tl s else s);
          n = (if neg then - int (dec_value ds) else int (dec_value ds)) in
      if ds \<noteq> [] \<and> list_all is_digit ds \<and> - (2 ^ 63) \<le> n \<and> n < 2 ^ 63 then Some n else None)"

lemma not_digit_plus: "\<not> is_digit (CHR ''+'')"
  by (simp add: is_digit_def byte_def)

lemma hd_nat_digits: "is_digit (hd (nat_digits n))"
  using nat_digits_digits [OF hd_in_set [OF nat_digits_not_Nil]] .

lemma last_nat_digits: "is_digit (last (nat_digits n))"
  using nat_digits_digits [OF last_in_set [OF nat_digits_not_Nil]] .

lemma atoi_itoa:
  assumes "0 \<le> i" "i < 2 ^ 63"
  shows "atoi (itoa i) = Some i"
proof -
  have "hd (nat_digits (nat i)) \<noteq> CHR ''-''" "hd (nat_digits (nat i)) \<noteq> CHR ''+''"
    using hd_nat_digits [of "nat i"] not_digit_minus not_digit_plus by metis+
  moreover have "list_all is_digit (nat_digits (nat i))"
    by (simp add: list_all_iff nat_digits_digits)
  ultimately show ?thesis
    using assms by (simp add: atoi_def itoa_def)
qed

lemma atoi_Nil [simp]: "atoi [] = None"
  by (simp add: atoi_def)

lemma digit_not_space: "is_digit c \<Longrightarrow> \<not> is_space c"
  by (auto simp: is_digit_def is_space_def)

lemma trimmed_itoa: "0 \<le> i \<Longrightarrow> trimmed (itoa i)"
  by (simp add: itoa_def trimmed_def digit_not_space hd_nat_digits last_nat_digits)

section \<open>Maps, time and sorting\<close>

text \<open>
  A Go map is an association list with distinct keys; the order of the list stands for one
  iteration order. Lookups use \<^const>\<open>map_of\<close> and stores use \<^const>\<open>AList.update\<close>.
\<close>

type_synonym ('k, 'v) gomap = "('k \<times> 'v) list"

definition gomap_ok :: "('k, 'v) gomap \<Rightarrow> bool" where
  "gomap_ok m = distinct (map fst m)"

lemma gomap_ok_Nil [simp]: "gomap_ok []"
  by (simp add: gomap_ok_def)

lemma gomap_ok_update [go_map]: "gomap_ok m \<Longrightarrow> gomap_ok (AList.update k v m)"
  by (simp add: gomap_ok_def distinct_update)

lemma gomap_ok_delete [go_map]: "gomap_ok m \<Longrightarrow> gomap_ok (AList.delete k m)"
  by (simp add: gomap_ok_def distinct_delete)

lemma gomap_ok_filter [go_map]: "gomap_ok m \<Longrightarrow> gomap_ok (filter P m)"
  by (simp add: gomap_ok_def distinct_map_filter)

lemma map_of_update [go_map]: "map_of (AList.update k v m) = (map_of m)(k \<mapsto> v)"
  by (rule update_conv')

lemma map_of_delete [go_map]: "map_of (AList.delete k m) = (map_of m)(k := None)"
  by (rule delete_conv')

text \<open>An instant is a number of nanoseconds; the zero \<open>time.Time\<close> is instant 0.\<close>

type_synonym time = int

abbreviation second :: int where "second \<equiv> 1000000000"
abbreviation minute :: int where "minute \<equiv> 60 * second"
abbreviation hour :: int where "hour \<equiv> 60 * minute"

lemma gomap_mem_map_of: "gomap_ok m \<Longrightarrow> (k, v) \<in> set m \<longleftrightarrow> map_of m k = Some v"
  by (simp add: gomap_ok_def)

section \<open>Runs of a list\<close>

text \<open>\<open>has_run P k xs\<close>: somewhere in \<open>xs\<close> there are \<open>k\<close> neighbours that all satisfy \<open>P\<close>.\<close>

definition has_run :: "('a \<Rightarrow> bool) \<Rightarrow> nat \<Rightarrow> 'a list \<Rightarrow> bool" where
  "has_run P k ls \<longleftrightarrow> (\<exists>xs ys zs. ls = xs @ ys @ zs \<and> length ys = k \<and> list_all P ys)"

lemma has_run_0 [simp]: "has_run P 0 ls"
  by (auto simp: has_run_def)

lemma has_run_Nil [simp]: "has_run P k [] \<longleftrightarrow> k = 0"
  by (auto simp: has_run_def)

lemma takeWhile_run: "k \<le> length (takeWhile P ls) \<Longrightarrow> has_run P k ls"
proof -
  assume k: "k \<le> length (takeWhile P ls)"
  define t where "t = take k (takeWhile P ls)"
  have "ls = t @ drop k (takeWhile P ls) @ dropWhile P ls"
    unfolding t_def by (simp flip: append_assoc)
  moreover have "length t = k" using k by (simp add: t_def)
  moreover have "list_all P t"
    by (auto simp: t_def list_all_iff dest!: in_set_takeD set_takeWhileD)
  ultimately show ?thesis
    unfolding has_run_def by (metis append_Nil)
qed

lemma has_run_Cons: "has_run P k (l # ls) \<longleftrightarrow> k \<le> length (takeWhile P (l # ls)) \<or> has_run P k ls"
proof
  assume "has_run P k (l # ls)"
  then obtain xs ys zs where x: "l # ls = xs @ ys @ zs" "length ys = k" "list_all P ys"
    by (auto simp: has_run_def)
  show "k \<le> length (takeWhile P (l # ls)) \<or> has_run P k ls"
  proof (cases xs)
    case Nil
    with x have "takeWhile P (l # ls) = ys @ takeWhile P zs"
      by (auto simp: list_all_iff takeWhile_append2)
    with x(2) show ?thesis by simp
  next
    case (Cons a xs')
    with x show ?thesis by (auto simp: has_run_def)
  qed
next
  assume "k \<le> length (takeWhile P (l # ls)) \<or> has_run P k ls"
  then show "has_run P k (l # ls)"
  proof
    assume "has_run P k ls"
    then obtain xs ys zs where "ls = xs @ ys @ zs" "length ys = k" "list_all P ys"
      by (auto simp: has_run_def)
    then have "l # ls = (l # xs) @ ys @ zs" "length ys = k" "list_all P ys" by auto
    then show ?thesis unfolding has_run_def by blast
  qed (rule takeWhile_run)
qed

section \<open>Shared interfaces\<close>

text \<open>A machine that starts in \<open>init\<close>, moves by \<open>step\<close> and keeps \<open>inv\<close>.\<close>

locale step_machine =
  fixes init :: "'s \<Rightarrow> bool"
    and step :: "'s \<Rightarrow> 's \<Rightarrow> bool"
    and inv :: "'s \<Rightarrow> bool"
  assumes inv_init: "init s \<Longrightarrow> inv s"
    and inv_step: "inv s \<Longrightarrow> step s t \<Longrightarrow> inv t"
begin

lemma inv_steps: "step\<^sup>*\<^sup>* s t \<Longrightarrow> inv s \<Longrightarrow> inv t"
  by (induction rule: rtranclp_induct) (auto intro: inv_step)

lemma inv_reachable: "init s \<Longrightarrow> step\<^sup>*\<^sup>* s t \<Longrightarrow> inv t"
  by (auto intro: inv_steps inv_init)

end

text \<open>An equality test that is reflexive, symmetric and transitive, and its lifting to lists.\<close>

locale equality_test =
  fixes eqv :: "'a \<Rightarrow> 'a \<Rightarrow> bool"
  assumes eqv_refl: "eqv a a"
    and eqv_sym: "eqv a b \<Longrightarrow> eqv b a"
    and eqv_trans: "eqv a b \<Longrightarrow> eqv b c \<Longrightarrow> eqv a c"
begin

lemma all2_refl: "list_all2 eqv xs xs"
  by (simp add: list_all2_refl eqv_refl)

lemma all2_sym: "list_all2 eqv xs ys \<Longrightarrow> list_all2 eqv ys xs"
  by (auto simp: list_all2_conv_all_nth intro: eqv_sym)

lemma all2_trans: "list_all2 eqv xs ys \<Longrightarrow> list_all2 eqv ys zs \<Longrightarrow> list_all2 eqv xs zs"
  by (rule list_all2_trans [where ?P1.0 = eqv and ?P2.0 = eqv]) (auto intro: eqv_trans)

end

text \<open>A clamp sends every value into a range and leaves the values of the range alone.\<close>

locale clamping =
  fixes clamp :: "'a::linorder \<Rightarrow> 'a" and inside :: "'a \<Rightarrow> bool"
  assumes clamp_inside: "inside (clamp x)"
    and clamp_id: "inside x \<Longrightarrow> clamp x = x"
    and clamp_mono: "x \<le> y \<Longrightarrow> clamp x \<le> clamp y"
begin

lemma clamp_idem: "clamp (clamp x) = clamp x"
  by (simp add: clamp_id clamp_inside)

lemma clamp_fixed_iff: "clamp x = x \<longleftrightarrow> inside x"
  by (metis clamp_id clamp_inside)

lemma clamp_between: "inside a \<Longrightarrow> inside b \<Longrightarrow> a \<le> x \<Longrightarrow> x \<le> b \<Longrightarrow> a \<le> clamp x \<and> clamp x \<le> b"
  by (metis clamp_id clamp_mono)

end

section \<open>Prefix codes\<close>

text \<open>An encoding that is read off the front of a stream without ambiguity, for values \<open>ok\<close> together.\<close>

locale prefix_code =
  fixes enc :: "'a \<Rightarrow> string" and ok :: "'a \<Rightarrow> 'a \<Rightarrow> bool"
  assumes read_unique: "ok a b \<Longrightarrow> enc a @ s = enc b @ t \<Longrightarrow> a = b \<and> s = t"
begin

lemma list_read_unique:
  "list_all2 ok as bs \<Longrightarrow> concat (map enc as) @ s = concat (map enc bs) @ t \<Longrightarrow> as = bs \<and> s = t"
proof (induction as bs arbitrary: rule: list_all2_induct)
  case (Cons a as b bs)
  then show ?case using read_unique [of a b] by auto
qed simp

end

text \<open>When no value is written as the empty text, the end of a list is seen as well.\<close>

locale stream_code = prefix_code +
  assumes enc_nonempty: "enc a \<noteq> []"
begin

lemma stream_read_unique:
  "\<forall>a\<in>set as. \<forall>b\<in>set bs. ok a b \<Longrightarrow> concat (map enc as) = concat (map enc bs) \<Longrightarrow> as = bs"
proof (induction as arbitrary: bs)
  case Nil
  then show ?case using enc_nonempty by (cases bs) auto
next
  case (Cons a as)
  then obtain b bs' where bs: "bs = b # bs'" using enc_nonempty [of a] by (cases bs) auto
  then show ?case using read_unique [of a b] Cons by auto
qed

end

end
