(* ===== verification/Signals_Tool.thy ===== *)
theory Signals_Tool
  imports Prelude
begin

text \<open>
  Tool-call health (\<open>internal/signals/toolhealth.go\<close>): which calls count as failures, the
  longest streak of failures, retries of identical calls and churn of edits on one file.
  Each counting loop is shown equal to a declarative count over the list of calls.
\<close>

section \<open>Data\<close>

record ToolCallRow =
  ToolName :: string
  Category :: string
  InputJSON :: string
  ResultContent :: string
  MessageOrdinal :: int
  CallIndex :: int
  EventStatus :: string

record ToolHealthSignals =
  ths_FailureSignalCount :: nat
  ths_RetryCount :: nat
  ths_EditChurnCount :: nat
  ths_ConsecutiveFailureMax :: nat

section \<open>Failure detection\<close>

text \<open>The two regular expressions match anywhere in the text; a digit ends the first one.\<close>

fun goroutineRe_match :: "string \<Rightarrow> bool" where
  "goroutineRe_match [] = False"
| "goroutineRe_match (c # s) =
     ((has_prefix (c # s) ''goroutine '' \<and>
       (case drop (length ''goroutine '') (c # s) of [] \<Rightarrow> False | d # _ \<Rightarrow> is_digit d))
      \<or> goroutineRe_match s)"

definition nonzero_digit :: "char \<Rightarrow> bool" where
  "nonzero_digit c = (is_digit c \<and> byte c \<noteq> 48)"

definition exitStatus_here :: "string \<Rightarrow> string \<Rightarrow> bool" where
  "exitStatus_here word s =
     (has_prefix s word \<and>
      (case drop (length word) s of [] \<Rightarrow> False | d # _ \<Rightarrow> nonzero_digit d))"

fun exitStatusRe_match :: "string \<Rightarrow> bool" where
  "exitStatusRe_match [] = False"
| "exitStatusRe_match (c # s) =
     (exitStatus_here ''exit status '' (c # s) \<or> exitStatus_here ''exit code '' (c # s)
      \<or> exitStatusRe_match s)"

fun jsScan :: "nat \<Rightarrow> string list \<Rightarrow> bool" where
  "jsScan consecutive [] = False"
| "jsScan consecutive (line # lines) =
     (if has_prefix line ''  at ''
      then (if consecutive + 1 \<ge> 3 then True else jsScan (consecutive + 1) lines)
      else jsScan 0 lines)"

definition hasJSStackTrace :: "string \<Rightarrow> bool" where
  "hasJSStackTrace content = jsScan 0 (split_byte newline content)"

definition hasErrorCompanion :: "string \<Rightarrow> bool" where
  "hasErrorCompanion content =
     (if list_ex (str_contains content)
           [''command not found'', ''No such file'', ''Permission denied'', ''fatal:'', ''panic:'']
      then True
      else if str_contains content ''Traceback (most recent call last)'' then True
      else if goroutineRe_match content then True
      else hasJSStackTrace content)"

definition isBashFailure :: "string \<Rightarrow> bool" where
  "isBashFailure content =
     (if str_contains content ''command not found'' then True
      else if str_contains content ''Permission denied'' then True
      else if str_contains content ''Traceback (most recent call last)'' then True
      else if goroutineRe_match content then True
      else if hasJSStackTrace content then True
      else if exitStatusRe_match content then hasErrorCompanion content
      else False)"

definition isContentFailure :: "string \<Rightarrow> string \<Rightarrow> bool" where
  "isContentFailure category content =
     (if category = ''Bash'' then isBashFailure content
      else if category = ''Edit'' \<or> category = ''Write'' then str_contains content ''FAILED''
      else False)"

definition IsFailure :: "ToolCallRow \<Rightarrow> bool" where
  "IsFailure c =
     (if EventStatus c \<noteq> [] then EventStatus c = ''errored'' \<or> EventStatus c = ''cancelled''
      else isContentFailure (Category c) (ResultContent c))"

section \<open>Counting loops\<close>

fun countFailures_loop :: "nat \<Rightarrow> nat \<Rightarrow> nat \<Rightarrow> ToolCallRow list \<Rightarrow> nat \<times> nat" where
  "countFailures_loop failures maxStreak streak [] = (failures, maxStreak)"
| "countFailures_loop failures maxStreak streak (c # calls) =
     (if IsFailure c
      then countFailures_loop (failures + 1)
             (if streak + 1 > maxStreak then streak + 1 else maxStreak) (streak + 1) calls
      else countFailures_loop failures maxStreak 0 calls)"

definition countFailures :: "ToolCallRow list \<Rightarrow> nat \<times> nat" where
  "countFailures calls = countFailures_loop 0 0 0 calls"

definition same_call :: "ToolCallRow \<Rightarrow> ToolCallRow \<Rightarrow> bool" where
  "same_call a b = (ToolName b = ToolName a \<and> InputJSON b = InputJSON a)"

fun countRetries_loop :: "nat \<Rightarrow> nat \<Rightarrow> ToolCallRow \<Rightarrow> ToolCallRow list \<Rightarrow> nat" where
  "countRetries_loop acc runLen prev [] = (if runLen \<ge> 3 then acc + (runLen - 1) else acc)"
| "countRetries_loop acc runLen prev (c # calls) =
     (if same_call prev c then countRetries_loop acc (runLen + 1) c calls
      else countRetries_loop (if runLen \<ge> 3 then acc + (runLen - 1) else acc) 1 c calls)"

fun countRetries :: "ToolCallRow list \<Rightarrow> nat" where
  "countRetries [] = 0"
| "countRetries (c # calls) =
     (if length (c # calls) < 3 then 0 else countRetries_loop 0 1 c calls)"

definition extractFilePath :: "string \<Rightarrow> string" where
  "extractFilePath input =
     (let marker = ''\"file_path\":\"'' in
      case str_index input marker of
        None \<Rightarrow> []
      | Some idx \<Rightarrow>
          (let start = idx + length marker in
           case str_index (drop start input) ''\"'' of
             None \<Rightarrow> []
           | Some end \<Rightarrow> take end (drop start input)))"

text \<open>
  One window of \<open>windowSize\<close> ordinals from \<open>i\<close> on: the least and the greatest ordinal, kept
  while the inner loop runs over \<open>j\<close>.
\<close>

definition window_bounds :: "int list \<Rightarrow> nat \<Rightarrow> nat \<Rightarrow> int \<times> int" where
  "window_bounds ordinals windowSize i =
     fold (\<lambda>j (lo, hi). (if ordinals ! j < lo then ordinals ! j else lo,
                          if ordinals ! j > hi then ordinals ! j else hi))
          [i + 1..<i + windowSize] (ordinals ! i, ordinals ! i)"

definition hasChurnWindow :: "int list \<Rightarrow> nat \<Rightarrow> int \<Rightarrow> bool" where
  "hasChurnWindow ordinals windowSize maxSpan =
     (let n = length ordinals in
      if n < windowSize then False
      else list_ex (\<lambda>i. case window_bounds ordinals windowSize i of (lo, hi) \<Rightarrow> hi - lo < maxSpan)
             [0..<n - windowSize + 1])"

fun collectOrdinals :: "(string, int list) gomap \<Rightarrow> ToolCallRow list \<Rightarrow> (string, int list) gomap" where
  "collectOrdinals m [] = m"
| "collectOrdinals m (c # calls) =
     (if Category c \<noteq> ''Edit'' \<and> Category c \<noteq> ''Write'' then collectOrdinals m calls
      else if extractFilePath (InputJSON c) = [] then collectOrdinals m calls
      else (let path = extractFilePath (InputJSON c);
                old = (case map_of m path of None \<Rightarrow> [] | Some l \<Rightarrow> l)
            in collectOrdinals (AList.update path (old @ [MessageOrdinal c]) m) calls))"

definition countEditChurn :: "ToolCallRow list \<Rightarrow> nat" where
  "countEditChurn calls =
     length (filter (\<lambda>(path, ords). hasChurnWindow ords 3 10) (collectOrdinals [] calls))"

definition ComputeToolHealth :: "ToolCallRow list \<Rightarrow> ToolHealthSignals" where
  "ComputeToolHealth calls =
     \<lparr> ths_FailureSignalCount = fst (countFailures calls),
       ths_RetryCount = countRetries calls,
       ths_EditChurnCount = countEditChurn calls,
       ths_ConsecutiveFailureMax = snd (countFailures calls) \<rparr>"

section \<open>Stack traces\<close>

definition js_frame :: "string \<Rightarrow> bool" where
  "js_frame line = has_prefix line ''  at ''"

lemma jsScan_iff:
  "n < 3 \<Longrightarrow> jsScan n ls \<longleftrightarrow> 3 \<le> n + length (takeWhile js_frame ls) \<or> has_run js_frame 3 ls"
proof (induction n ls rule: jsScan.induct)
  case (2 n l ls)
  show ?case
  proof (cases "js_frame l")
    case True
    then have "has_prefix l ''  at ''" by (simp add: js_frame_def)
    then show ?thesis
      using 2 True by (cases "3 \<le> n + 1") (auto simp: has_run_Cons)
  next
    case False
    then have "\<not> has_prefix l ''  at ''" by (simp add: js_frame_def)
    then show ?thesis
      using 2 False by (auto simp: has_run_Cons takeWhile_run)
  qed
qed simp

text \<open>JS stack traces are found exactly where three neighbouring lines are frames.\<close>

theorem hasJSStackTrace_iff:
  "hasJSStackTrace content \<longleftrightarrow> has_run js_frame 3 (split_byte newline content)"
  using jsScan_iff [of 0 "split_byte newline content"] takeWhile_run [of 3 js_frame]
  by (auto simp: hasJSStackTrace_def)

section \<open>Failures and streaks\<close>

lemma countFailures_loop_fst:
  "fst (countFailures_loop f m s calls) = f + length (filter IsFailure calls)"
  by (induction f m s calls rule: countFailures_loop.induct) auto

lemma countFailures_loop_snd:
  "s \<le> m \<Longrightarrow> k \<le> snd (countFailures_loop f m s calls) \<longleftrightarrow>
     k \<le> m \<or> k \<le> s + length (takeWhile IsFailure calls) \<or> has_run IsFailure k calls"
proof (induction f m s calls rule: countFailures_loop.induct)
  case (2 f m s c calls)
  show ?case
  proof (cases "IsFailure c")
    case True
    with 2 show ?thesis by (auto simp: has_run_Cons)
  next
    case False
    with 2 show ?thesis by (auto simp: has_run_Cons takeWhile_run)
  qed
qed auto

text \<open>
  The failure count is the number of failing calls, and the streak is the length of the
  longest block of consecutive failures: \<open>k\<close> is at most the streak exactly when some
  \<open>k\<close> neighbouring calls all fail.
\<close>

theorem countFailures_correct:
  "fst (countFailures calls) = length (filter IsFailure calls)
   \<and> (\<forall>k. k \<le> snd (countFailures calls) \<longleftrightarrow> has_run IsFailure k calls)"
  using takeWhile_run [of _ IsFailure calls]
  by (auto simp: countFailures_def countFailures_loop_fst countFailures_loop_snd)

lemma streak_le_failures: "snd (countFailures calls) \<le> fst (countFailures calls)"
proof -
  have "has_run IsFailure (snd (countFailures calls)) calls"
    using countFailures_loop_snd [of 0 0 "snd (countFailures calls)" 0 calls]
      takeWhile_run [of "snd (countFailures calls)" IsFailure calls]
    by (auto simp: countFailures_def)
  then obtain xs ys zs where "calls = xs @ ys @ zs" "length ys = snd (countFailures calls)"
    "list_all IsFailure ys"
    by (auto simp: has_run_def)
  then have "snd (countFailures calls) \<le> length (filter IsFailure calls)"
    by (auto simp: list_all_iff)
  then show ?thesis
    by (simp add: countFailures_def countFailures_loop_fst)
qed

section \<open>Retries\<close>

text \<open>The reference: maximal blocks of identical neighbouring calls.\<close>

fun call_runs :: "ToolCallRow list \<Rightarrow> nat list" where
  "call_runs [] = []"
| "call_runs [c] = [1]"
| "call_runs (c # d # calls) =
     (if same_call c d
      then (case call_runs (d # calls) of [] \<Rightarrow> [] | r # rs \<Rightarrow> Suc r # rs)
      else 1 # call_runs (d # calls))"

definition run_retries :: "nat \<Rightarrow> nat" where
  "run_retries r = (if r \<ge> 3 then r - 1 else 0)"

lemma call_runs_not_Nil [simp]: "call_runs (c # calls) \<noteq> []"
  by (induction calls arbitrary: c) (auto split: list.splits)

lemma sum_call_runs: "sum_list (call_runs calls) = length calls"
  by (induction calls rule: call_runs.induct) (auto split: list.splits)

lemma countRetries_loop_eq:
  "1 \<le> r \<Longrightarrow> countRetries_loop a r c calls =
     (case call_runs (c # calls) of [] \<Rightarrow> a
      | x # xs \<Rightarrow> a + run_retries (r - 1 + x) + sum_list (map run_retries xs))"
proof (induction a r c calls rule: countRetries_loop.induct)
  case (1 a r c)
  then show ?case by (simp add: run_retries_def)
next
  case (2 a r c d calls)
  then show ?case
    by (cases "call_runs (d # calls)") (auto simp: run_retries_def)
qed

lemma small_runs: "r \<in> set (call_runs calls) \<Longrightarrow> r \<le> length calls"
  using member_le_sum_list [of r "call_runs calls"] by (simp add: sum_call_runs)

text \<open>
  The retry count is the sum, over the maximal blocks of calls with the same tool and the
  same input, of the block length minus one for the blocks of at least three calls.
\<close>

theorem countRetries_runs:
  "countRetries calls = sum_list (map run_retries (call_runs calls))"
proof (cases calls)
  case (Cons c cs)
  show ?thesis
  proof (cases "length calls < 3")
    case True
    then have "\<forall>r \<in> set (call_runs calls). run_retries r = 0"
      by (auto simp: run_retries_def dest: small_runs)
    then have "sum_list (map run_retries (call_runs calls)) = 0"
      by (simp add: sum_list_eq_0_iff)
    with True Cons show ?thesis by simp
  next
    case False
    with Cons show ?thesis
      using countRetries_loop_eq [of 1 0 c cs]
      by (cases "call_runs (c # cs)") auto
  qed
qed simp

lemma countRetries_le: "countRetries calls \<le> length calls"
proof -
  have "sum_list (map run_retries rs) \<le> sum_list rs" for rs
    by (induction rs) (auto simp: run_retries_def)
  then show ?thesis
    by (metis countRetries_runs sum_call_runs)
qed

section \<open>Edit churn\<close>

lemma fold_bounds:
  "fold (\<lambda>j (lo, hi). (if f j < lo then f j else lo, if f j > hi then f j else hi)) js (a, b) =
     (fold (\<lambda>j. min (f j)) js a, fold (\<lambda>j. max (f j)) js (b :: int))"
  by (induction js arbitrary: a b) (auto simp: min_def max_def intro!: arg_cong2 [where f = "fold _"])

lemma fold_max_ge: "fold (\<lambda>j. max (f j)) js a < c \<longleftrightarrow> a < c \<and> (\<forall>j \<in> set js. f j < (c :: int))"
  by (induction js arbitrary: a) auto

lemma fold_min_le: "c < fold (\<lambda>j. min (f j)) js a \<longleftrightarrow> c < a \<and> (\<forall>j \<in> set js. (c :: int) < f j)"
  by (induction js arbitrary: a) auto

lemma fold_max_attained: "\<exists>j \<in> insert i (set js). fold (\<lambda>j. max (f j)) js (f i) = (f j :: int)"
proof (induction js arbitrary: i)
  case (Cons k js)
  show ?case
  proof (cases "f i \<le> f k")
    case True
    then show ?thesis using Cons [of k] by (auto simp: max_def)
  next
    case False
    then show ?thesis using Cons [of i] by (auto simp: max_def)
  qed
qed simp

lemma fold_min_attained: "\<exists>j \<in> insert i (set js). fold (\<lambda>j. min (f j)) js (f i) = (f j :: int)"
proof (induction js arbitrary: i)
  case (Cons k js)
  show ?case
  proof (cases "f k \<le> f i")
    case True
    then show ?thesis using Cons [of k] by (auto simp: min_def)
  next
    case False
    then show ?thesis using Cons [of i] by (auto simp: min_def)
  qed
qed simp

lemma window_span:
  assumes "1 \<le> w"
  shows "(case window_bounds ordinals w i of (lo, hi) \<Rightarrow> hi - lo < sp) \<longleftrightarrow>
         (\<forall>j \<in> {i..<i + w}. \<forall>k \<in> {i..<i + w}. ordinals ! k - ordinals ! j < sp)"
proof -
  let ?js = "[i + 1..<i + w]" and ?f = "\<lambda>j. ordinals ! j"
  define lo where "lo = fold (\<lambda>j. min (?f j)) ?js (?f i)"
  define hi where "hi = fold (\<lambda>j. max (?f j)) ?js (?f i)"
  have set: "insert i (set ?js) = {i..<i + w}" using assms by auto
  obtain jl where jl: "jl \<in> {i..<i + w}" "lo = ?f jl"
    using fold_min_attained [of i ?js ?f] unfolding set lo_def by blast
  obtain jh where jh: "jh \<in> {i..<i + w}" "hi = ?f jh"
    using fold_max_attained [of i ?js ?f] unfolding set hi_def by blast
  have le: "lo \<le> ?f j \<and> ?f j \<le> hi" if "j \<in> {i..<i + w}" for j
  proof
    have j: "j = i \<or> j \<in> set ?js" using that by auto
    have "\<not> ?f j < lo"
      unfolding lo_def fold_min_le using j by blast
    then show "lo \<le> ?f j" by simp
    have "\<not> hi < ?f j"
      unfolding hi_def fold_max_ge using j by blast
    then show "?f j \<le> hi" by simp
  qed
  have "window_bounds ordinals w i = (lo, hi)"
    by (simp only: window_bounds_def fold_bounds lo_def hi_def)
  moreover have "hi - lo < sp \<longleftrightarrow> (\<forall>j \<in> {i..<i + w}. \<forall>k \<in> {i..<i + w}. ?f k - ?f j < sp)"
  proof
    assume small: "hi - lo < sp"
    show "\<forall>j \<in> {i..<i + w}. \<forall>k \<in> {i..<i + w}. ?f k - ?f j < sp"
    proof (intro ballI)
      fix j k assume "j \<in> {i..<i + w}" "k \<in> {i..<i + w}"
      then have "lo \<le> ?f j" "?f k \<le> hi" using le by blast+
      with small show "?f k - ?f j < sp" by linarith
    qed
  next
    assume "\<forall>j \<in> {i..<i + w}. \<forall>k \<in> {i..<i + w}. ?f k - ?f j < sp"
    then show "hi - lo < sp" unfolding jl(2) jh(2) using jl(1) jh(1) by blast
  qed
  ultimately show ?thesis by simp
qed

text \<open>
  A churn window exists exactly when some \<open>windowSize\<close> consecutive entries of the ordinal
  list lie pairwise less than \<open>maxSpan\<close> apart.
\<close>

theorem hasChurnWindow_iff:
  assumes "1 \<le> w"
  shows "hasChurnWindow ordinals w sp \<longleftrightarrow>
         (\<exists>i. i + w \<le> length ordinals \<and>
            (\<forall>j \<in> {i..<i + w}. \<forall>k \<in> {i..<i + w}. ordinals ! k - ordinals ! j < sp))"
proof (cases "length ordinals < w")
  case False
  then have "i \<in> set [0..<length ordinals - w + 1] \<longleftrightarrow> i + w \<le> length ordinals" for i by auto
  with False assms show ?thesis
    unfolding hasChurnWindow_def Let_def
    by (simp only: if_False list_ex_iff window_span) blast
qed (auto simp: hasChurnWindow_def)

theorem hasChurnWindow_iff_witness:
  "1 \<le> (3::nat) \<and> hasChurnWindow [7, 8, 40, 41, 49] 3 10"
proof -
  have "\<exists>i. i + 3 \<le> length [7, 8, 40, 41, 49 :: int] \<and>
          (\<forall>j \<in> {i..<i + 3}. \<forall>k \<in> {i..<i + 3}. [7, 8, 40, 41, 49 :: int] ! k - [7, 8, 40, 41, 49] ! j < 10)"
  proof (intro exI conjI)
    have "{2..<2 + 3} = {2, 3, 4 :: nat}" by auto
    then show "\<forall>j \<in> {2..<2 + 3}. \<forall>k \<in> {2..<2 + 3}.
        [7, 8, 40, 41, 49 :: int] ! k - [7, 8, 40, 41, 49] ! j < 10"
      by (simp add: eval_nat_numeral)
  qed simp
  then show ?thesis
    using hasChurnWindow_iff [of 3 "[7, 8, 40, 41, 49]" 10] by simp
qed

text \<open>
  When the ordinals come in message order, looking at contiguous windows only loses
  nothing: any \<open>w\<close> positions whose ordinals fit the span lead to a window.
\<close>

theorem hasChurnWindow_sorted:
  assumes "sorted ordinals" and "1 \<le> w" and "length ps = w" and "sorted_wrt (<) ps"
    and "\<forall>p \<in> set ps. p < length ordinals"
    and "ordinals ! last ps - ordinals ! hd ps < sp"
  shows "hasChurnWindow ordinals w sp"
proof -
  have gap: "hd qs + length qs \<le> last qs + 1" if "sorted_wrt (<) qs" "qs \<noteq> []" for qs :: "nat list"
    using that
  proof (induction qs)
    case (Cons q qs)
    then show ?case by (cases qs) fastforce+
  qed simp
  have ne: "ps \<noteq> []" using assms(2,3) by auto
  let ?i = "hd ps"
  have last: "last ps < length ordinals" using ne assms(5) by simp
  have fit: "?i + w \<le> last ps + 1" using gap [OF assms(4) ne] assms(3) by simp
  have "ordinals ! k - ordinals ! j < sp" if "j \<in> {?i..<?i + w}" "k \<in> {?i..<?i + w}" for j k
  proof -
    have "ordinals ! ?i \<le> ordinals ! j" "ordinals ! k \<le> ordinals ! last ps"
      using that fit last by (auto intro!: sorted_nth_mono [OF assms(1)])
    then show ?thesis using assms(6) by simp
  qed
  moreover have "?i + w \<le> length ordinals" using fit last by simp
  ultimately show ?thesis
    using hasChurnWindow_iff [OF assms(2)] by blast
qed

theorem hasChurnWindow_sorted_witness:
  "sorted [1, 2, 6, 9 :: int] \<and> hasChurnWindow [1, 2, 6, 9] 3 10"
proof -
  have "hasChurnWindow [1, 2, 6, 9] 3 10"
    by (rule hasChurnWindow_sorted [where ps = "[0, 2, 3]"]) (auto simp: eval_nat_numeral)
  then show ?thesis by simp
qed

text \<open>
  On ordinals that are not sorted the window test does not check all combinations, as its
  comment says: three ordinals within the span are missed when others stand between them.
\<close>

theorem churn_not_all_combinations:
  "\<not> hasChurnWindow [1, 50, 2, 51, 3] 3 10
   \<and> (let o1 = [1, 50, 2, 51, 3 :: int] in o1 ! 4 - o1 ! 0 < 10 \<and> o1 ! 2 - o1 ! 0 < 10 \<and> o1 ! 4 - o1 ! 2 < 10)"
  by (simp add: hasChurnWindow_def window_bounds_def upt_rec eval_nat_numeral)

section \<open>Files with churn\<close>

definition edit_of :: "string \<Rightarrow> ToolCallRow \<Rightarrow> bool" where
  "edit_of path c \<longleftrightarrow> (Category c = ''Edit'' \<or> Category c = ''Write'') \<and>
     path \<noteq> [] \<and> extractFilePath (InputJSON c) = path"

definition ordinals_of :: "string \<Rightarrow> ToolCallRow list \<Rightarrow> int list" where
  "ordinals_of path calls = map MessageOrdinal (filter (edit_of path) calls)"

lemma collectOrdinals_ok: "gomap_ok m \<Longrightarrow> gomap_ok (collectOrdinals m calls)"
  by (induction m calls rule: collectOrdinals.induct) (auto simp: Let_def go_map)

lemma collectOrdinals_lookup:
  "map_of (collectOrdinals m calls) path =
     (if ordinals_of path calls = [] then map_of m path
      else Some ((case map_of m path of None \<Rightarrow> [] | Some l \<Rightarrow> l) @ ordinals_of path calls))"
proof (induction m calls rule: collectOrdinals.induct)
  case (2 m c calls)
  then show ?case
    by (auto simp: Let_def map_of_update ordinals_of_def edit_of_def split: option.splits)
qed (simp add: ordinals_of_def)

lemma length_filter_gomap: "gomap_ok m \<Longrightarrow>
  length (filter (\<lambda>(k, v). P v) m) = card {k. \<exists>v. map_of m k = Some v \<and> P v}"
proof -
  assume ok: "gomap_ok m"
  then have d: "distinct (map fst (filter (\<lambda>(k, v). P v) m))"
    by (simp add: gomap_ok_def distinct_map_filter)
  have "fst ` set (filter (\<lambda>(k, v). P v) m) = {k. \<exists>v. map_of m k = Some v \<and> P v}"
    using gomap_mem_map_of [OF ok] by force
  then show ?thesis
    using distinct_card [OF d] by simp
qed

text \<open>
  The churn count is the number of distinct non-empty file paths whose edits, in call
  order, contain a churn window; the iteration order of the map plays no part.
\<close>

theorem countEditChurn_card:
  "countEditChurn calls = card {path. hasChurnWindow (ordinals_of path calls) 3 10}"
proof -
  have "hasChurnWindow [] 3 10 = False" by (simp add: hasChurnWindow_def)
  then have "{path. \<exists>v. map_of (collectOrdinals [] calls) path = Some v \<and> hasChurnWindow v 3 10}
      = {path. hasChurnWindow (ordinals_of path calls) 3 10}"
    by (auto simp: collectOrdinals_lookup split: if_splits)
  then show ?thesis
    using length_filter_gomap [OF collectOrdinals_ok [OF gomap_ok_Nil], of "\<lambda>v. hasChurnWindow v 3 10" calls]
    by (simp add: countEditChurn_def)
qed

text \<open>
  A path that follows the first \<open>file_path\<close> marker of the input and holds no quote is
  extracted exactly.
\<close>

theorem extractFilePath_roundtrip:
  assumes "str_index (pre @ ''\"file_path\":\"'' @ path @ ''\"'' @ rest) ''\"file_path\":\"'' = Some (length pre)"
    and "CHR 0x22 \<notin> set path"
  shows "extractFilePath (pre @ ''\"file_path\":\"'' @ path @ ''\"'' @ rest) = path"
proof -
  have "str_index (p @ CHR 0x22 # r) [CHR 0x22] = Some (length p)" if "CHR 0x22 \<notin> set p" for p r
    using that by (induction p) auto
  then show ?thesis
    using assms by (simp add: extractFilePath_def)
qed

theorem extractFilePath_roundtrip_witness:
  "extractFilePath (''{'' @ ''\"file_path\":\"'' @ ''a/b.go'' @ ''\"'' @ ''}'') = ''a/b.go''"
  by (rule extractFilePath_roundtrip) simp_all

end
