(* ===== verification/Signals_Context.thy ===== *)
theory Signals_Context
  imports Prelude
begin

text \<open>
  Context pressure and compactions (\<open>internal/signals/context.go\<close>). Token counts are exact
  integers; the float comparisons of the code (a factor 0.7, a quotient against 0.9) are
  modelled on rationals, which decide the same way for counts far below 2^46.
\<close>

record ContextTokenRow =
  ContextTokens :: int
  HasContextTokens :: bool

record ToolCallOrdinal =
  tco_MessageOrdinal :: int
  tco_ToolName :: string

record ContextPressureResult =
  cpr_CompactionCount :: nat
  cpr_PressureMax :: "rat option"

definition midTaskWindowBefore :: nat where "midTaskWindowBefore = 10"
definition midTaskWindowAfter :: nat where "midTaskWindowAfter = 5"
definition midTaskOverlapThreshold :: nat where "midTaskOverlapThreshold = 2"

section \<open>Mid-task compactions\<close>

definition toolWindowBefore :: "ToolCallOrdinal list \<Rightarrow> int \<Rightarrow> nat \<Rightarrow> string list" where
  "toolWindowBefore calls ordinal n =
     (let names = map tco_ToolName (filter (\<lambda>c. tco_MessageOrdinal c < ordinal) calls) in
      if length names > n then drop (length names - n) names else names)"

fun toolWindowAfter_loop :: "string list \<Rightarrow> ToolCallOrdinal list \<Rightarrow> int \<Rightarrow> nat \<Rightarrow> string list" where
  "toolWindowAfter_loop names [] ordinal n = names"
| "toolWindowAfter_loop names (c # calls) ordinal n =
     (if tco_MessageOrdinal c > ordinal
      then (let names' = names @ [tco_ToolName c] in
            if length names' \<ge> n then names' else toolWindowAfter_loop names' calls ordinal n)
      else toolWindowAfter_loop names calls ordinal n)"

definition toolWindowAfter :: "ToolCallOrdinal list \<Rightarrow> int \<Rightarrow> nat \<Rightarrow> string list" where
  "toolWindowAfter calls ordinal n = toolWindowAfter_loop [] calls ordinal n"

definition matchedNames :: "string list \<Rightarrow> string list \<Rightarrow> string list" where
  "matchedNames before after =
     fold (\<lambda>name m. if name \<in> set before then List.insert name m else m) after []"

fun countMidTask_loop :: "nat \<Rightarrow> int list \<Rightarrow> ToolCallOrdinal list \<Rightarrow> nat" where
  "countMidTask_loop cnt [] calls = cnt"
| "countMidTask_loop cnt (b # bs) calls =
     (let before = toolWindowBefore calls b midTaskWindowBefore;
          after = toolWindowAfter calls b midTaskWindowAfter
      in if length before = 0 \<or> length after = 0 then countMidTask_loop cnt bs calls
         else if length (matchedNames before after) \<ge> midTaskOverlapThreshold
              then countMidTask_loop (cnt + 1) bs calls
              else countMidTask_loop cnt bs calls)"

definition CountMidTaskCompactions :: "int list \<Rightarrow> ToolCallOrdinal list \<Rightarrow> nat" where
  "CountMidTaskCompactions boundaryOrdinals toolCalls =
     (if length boundaryOrdinals = 0 \<or> length toolCalls = 0 then 0
      else countMidTask_loop 0 boundaryOrdinals toolCalls)"

section \<open>Context window sizes\<close>

definition contextWindowSizes :: "(string, nat) gomap" where
  "contextWindowSizes =
     [(''claude-opus-4-6'', 1000000), (''claude-sonnet-4-6'', 200000),
      (''claude-sonnet-4-5'', 200000), (''claude-haiku-4-5'', 200000),
      (''claude-3-5-sonnet'', 200000), (''claude-3-opus'', 200000),
      (''claude-3-haiku'', 200000), (''gpt-4o-mini'', 128000), (''gpt-4o'', 128000),
      (''gpt-4-turbo'', 128000), (''o3'', 200000), (''o4-mini'', 200000),
      (''gemini-2.5-pro'', 1000000), (''gemini-2.5-flash'', 1000000),
      (''gemini-2.0-flash'', 1000000)]"

text \<open>The prefixes sorted longest first; Go's sort is not stable, this is one of its orders.\<close>

definition sortedPrefixes :: "string list" where
  "sortedPrefixes = sort_key (\<lambda>p. - int (length p)) (map fst contextWindowSizes)"

definition windowSizeOf :: "string \<Rightarrow> nat" where
  "windowSizeOf p = (case map_of contextWindowSizes p of None \<Rightarrow> 0 | Some n \<Rightarrow> n)"

definition prefix_matches :: "string \<Rightarrow> string \<Rightarrow> bool" where
  "prefix_matches model p =
     (has_prefix model p \<and> (length model = length p \<or> model ! length p = CHR ''-''))"

fun lookupPrefix :: "string list \<Rightarrow> string \<Rightarrow> nat" where
  "lookupPrefix [] model = 0"
| "lookupPrefix (p # ps) model =
     (if prefix_matches model p then windowSizeOf p else lookupPrefix ps model)"

definition lookupWindowSize :: "string \<Rightarrow> nat" where
  "lookupWindowSize model =
     (case map_of contextWindowSizes model of
        Some sz \<Rightarrow> sz
      | None \<Rightarrow> lookupPrefix sortedPrefixes model)"

definition computePressure :: "int \<Rightarrow> string \<Rightarrow> rat option" where
  "computePressure peakContextTokens model =
     (if peakContextTokens \<le> 0 \<or> model = [] then None
      else (let windowSize = lookupWindowSize model in
            if windowSize = 0 then None
            else Some (of_int peakContextTokens / of_nat windowSize)))"

section \<open>Compactions\<close>

fun countCompactions_loop :: "nat \<Rightarrow> int \<Rightarrow> ContextTokenRow list \<Rightarrow> nat" where
  "countCompactions_loop cnt prevTokens [] = cnt"
| "countCompactions_loop cnt prevTokens (t # tokens) =
     (if \<not> HasContextTokens t then countCompactions_loop cnt prevTokens tokens
      else countCompactions_loop
             (if prevTokens > 0 \<and> (of_int (ContextTokens t) :: rat) < of_int prevTokens * (7 / 10)
              then cnt + 1 else cnt)
             (ContextTokens t) tokens)"

definition countCompactions :: "ContextTokenRow list \<Rightarrow> nat" where
  "countCompactions tokens = countCompactions_loop 0 (-1) tokens"

definition ComputeContextPressure ::
  "ContextTokenRow list \<Rightarrow> int \<Rightarrow> string \<Rightarrow> ContextPressureResult" where
  "ComputeContextPressure tokens peakContextTokens model =
     \<lparr> cpr_CompactionCount = countCompactions tokens,
       cpr_PressureMax = computePressure peakContextTokens model \<rparr>"

section \<open>Facts about the windows\<close>

lemma toolWindowAfter_loop_take:
  "length names < n \<Longrightarrow> toolWindowAfter_loop names calls ordinal n =
     names @ take (n - length names) (map tco_ToolName (filter (\<lambda>c. tco_MessageOrdinal c > ordinal) calls))"
proof (induction names calls ordinal n rule: toolWindowAfter_loop.induct)
  case (2 names c calls ordinal n)
  show ?case
  proof (cases "tco_MessageOrdinal c > ordinal")
    case True
    then show ?thesis
      using 2 by (cases "n \<le> Suc (length names)") (auto simp: Let_def Suc_diff_le take_Cons')
  next
    case False
    with 2 show ?thesis by simp
  qed
qed simp

lemma toolWindowAfter_eq:
  "0 < n \<Longrightarrow> toolWindowAfter calls ordinal n =
     take n (map tco_ToolName (filter (\<lambda>c. tco_MessageOrdinal c > ordinal) calls))"
  by (simp add: toolWindowAfter_def toolWindowAfter_loop_take)

lemma matchedNames_fold:
  "distinct m \<Longrightarrow>
     distinct (fold (\<lambda>name m. if name \<in> set before then List.insert name m else m) after m)
     \<and> set (fold (\<lambda>name m. if name \<in> set before then List.insert name m else m) after m)
        = set m \<union> (set before \<inter> set after)"
  by (induction after arbitrary: m) auto

lemma length_matchedNames: "length (matchedNames before after) = card (set before \<inter> set after)"
  using matchedNames_fold [of "[]" before after] distinct_card
  by (fastforce simp: matchedNames_def)

definition mid_task_boundary :: "ToolCallOrdinal list \<Rightarrow> int \<Rightarrow> bool" where
  "mid_task_boundary calls b \<longleftrightarrow>
     2 \<le> card (set (toolWindowBefore calls b 10) \<inter> set (toolWindowAfter calls b 5))"

lemma countMidTask_loop_eq:
  "countMidTask_loop cnt bs calls = cnt + length (filter (mid_task_boundary calls) bs)"
proof (induction cnt bs calls rule: countMidTask_loop.induct)
  case (2 cnt b bs calls)
  then show ?case
    by (auto simp: Let_def length_matchedNames mid_task_boundary_def midTaskOverlapThreshold_def
        midTaskWindowBefore_def midTaskWindowAfter_def)
qed simp

text \<open>
  The mid-task count is the number of boundaries where at least two distinct tool names
  occur both among the last ten calls before and the first five calls after the boundary.
\<close>

theorem CountMidTaskCompactions_eq:
  "CountMidTaskCompactions bs calls =
     length (filter (\<lambda>b. 2 \<le> card
        (set (let names = map tco_ToolName (filter (\<lambda>c. tco_MessageOrdinal c < b) calls)
              in drop (length names - 10) names)
         \<inter> set (take 5 (map tco_ToolName (filter (\<lambda>c. tco_MessageOrdinal c > b) calls))))) bs)"
proof -
  have "mid_task_boundary calls b \<longleftrightarrow> 2 \<le> card
        (set (let names = map tco_ToolName (filter (\<lambda>c. tco_MessageOrdinal c < b) calls)
              in drop (length names - 10) names)
         \<inter> set (take 5 (map tco_ToolName (filter (\<lambda>c. tco_MessageOrdinal c > b) calls))))" for b
    by (auto simp: mid_task_boundary_def toolWindowAfter_eq toolWindowBefore_def Let_def)
  moreover have "CountMidTaskCompactions bs calls = length (filter (mid_task_boundary calls) bs)"
  proof (cases "bs = [] \<or> calls = []")
    case True
    then have "filter (mid_task_boundary calls) bs = []"
      by (auto simp: mid_task_boundary_def toolWindowBefore_def toolWindowAfter_eq)
    with True show ?thesis by (simp add: CountMidTaskCompactions_def)
  qed (simp add: CountMidTaskCompactions_def countMidTask_loop_eq)
  ultimately show ?thesis by presburger
qed

section \<open>Facts about window sizes\<close>

lemma matches_same_length:
  "prefix_matches m p \<Longrightarrow> prefix_matches m q \<Longrightarrow> length p = length q \<Longrightarrow> p = q"
  unfolding prefix_matches_def has_prefix_iff by (metis append_eq_append_conv)

lemma lookupPrefix_longest:
  assumes "sorted_wrt (\<lambda>a b. length b \<le> length a) ps"
    and "p \<in> set ps" and "prefix_matches m p"
    and "\<forall>q \<in> set ps. prefix_matches m q \<longrightarrow> length q \<le> length p"
  shows "lookupPrefix ps m = windowSizeOf p"
  using assms
proof (induction ps)
  case (Cons q ps)
  show ?case
  proof (cases "prefix_matches m q")
    case True
    have "length q = length p"
      using Cons.prems True by (auto intro: le_antisym)
    then show ?thesis
      using True matches_same_length [OF True Cons.prems(3)] by simp
  next
    case False
    with Cons show ?thesis by auto
  qed
qed simp

lemma lookupPrefix_none: "\<forall>q \<in> set ps. \<not> prefix_matches m q \<Longrightarrow> lookupPrefix ps m = 0"
  by (induction ps) auto

lemma sortedPrefixes_sorted: "sorted_wrt (\<lambda>a b. length b \<le> length a) sortedPrefixes"
proof -
  have "sorted (map (\<lambda>p. - int (length p)) sortedPrefixes)"
    by (simp add: sortedPrefixes_def)
  then show ?thesis
    by (simp add: sorted_map sorted_wrt_map)
qed

lemma set_sortedPrefixes: "set sortedPrefixes = fst ` set contextWindowSizes"
  by (simp add: sortedPrefixes_def)

lemma longest_match:
  assumes "\<exists>q \<in> set ps. prefix_matches m q"
  obtains p where "p \<in> set ps" "prefix_matches m p"
    "\<forall>q \<in> set ps. prefix_matches m q \<longrightarrow> length q \<le> length p"
proof -
  let ?S = "{q \<in> set ps. prefix_matches m q}"
  have "finite ?S" "?S \<noteq> {}" using assms by auto
  then have "Max (length ` ?S) \<in> length ` ?S" by (intro Max_in) auto
  then obtain p where p: "p \<in> ?S" "length p = Max (length ` ?S)" by fastforce
  have "length q \<le> length p" if "q \<in> ?S" for q
    unfolding p(2) using \<open>finite ?S\<close> that by (intro Max_ge) auto
  with p(1) show thesis using that by blast
qed

text \<open>
  The lookup does not depend on the order that the unstable sort gives to prefixes of the
  same length: every longest-first arrangement of the table gives the same window size.
\<close>

theorem lookupPrefix_order_independent:
  assumes "set ps = set sortedPrefixes"
    and "sorted_wrt (\<lambda>a b. length b \<le> length a) ps"
  shows "lookupPrefix ps m = lookupPrefix sortedPrefixes m"
proof (cases "\<exists>q \<in> set ps. prefix_matches m q")
  case True
  then obtain p where p: "p \<in> set ps" "prefix_matches m p"
      "\<forall>q \<in> set ps. prefix_matches m q \<longrightarrow> length q \<le> length p"
    by (rule longest_match)
  then show ?thesis
    using lookupPrefix_longest [OF assms(2) p] assms(1)
      lookupPrefix_longest [OF sortedPrefixes_sorted, of p m] by simp
next
  case False
  then show ?thesis
    using assms(1) by (metis lookupPrefix_none)
qed

theorem lookupPrefix_order_independent_witness:
  "set (rev (rev sortedPrefixes)) = set sortedPrefixes
   \<and> lookupPrefix (rev (rev sortedPrefixes)) ''gpt-4o-mini-2024''
     = lookupPrefix sortedPrefixes ''gpt-4o-mini-2024''"
  using lookupPrefix_order_independent [of "rev (rev sortedPrefixes)" "''gpt-4o-mini-2024''"]
    sortedPrefixes_sorted by simp

text \<open>
  A model gets the window of the longest table entry that is the model itself or is
  followed in it by a dash; a model no entry matches gets 0, read as unknown.
\<close>

theorem lookupWindowSize_longest:
  "(\<forall>p \<in> fst ` set contextWindowSizes.
      prefix_matches m p \<and> (\<forall>q \<in> fst ` set contextWindowSizes. prefix_matches m q \<longrightarrow> length q \<le> length p)
      \<longrightarrow> lookupWindowSize m = windowSizeOf p)
   \<and> ((\<forall>q \<in> fst ` set contextWindowSizes. \<not> prefix_matches m q) \<longrightarrow> lookupWindowSize m = 0)"
proof -
  have exact: "lookupWindowSize m = lookupPrefix sortedPrefixes m"
  proof (cases "map_of contextWindowSizes m")
    case (Some n)
    then have "m \<in> set sortedPrefixes"
      by (force simp: set_sortedPrefixes dest: map_of_SomeD)
    moreover have "prefix_matches m m" by (simp add: prefix_matches_def has_prefix_def)
    moreover have "\<forall>q \<in> set sortedPrefixes. prefix_matches m q \<longrightarrow> length q \<le> length m"
      by (auto simp: prefix_matches_def has_prefix_def dest: prefix_length_le)
    ultimately have "lookupPrefix sortedPrefixes m = windowSizeOf m"
      by (rule lookupPrefix_longest [OF sortedPrefixes_sorted])
    with Some show ?thesis by (simp add: lookupWindowSize_def windowSizeOf_def)
  qed (simp add: lookupWindowSize_def)
  show ?thesis
    unfolding exact set_sortedPrefixes [symmetric]
    using lookupPrefix_longest [OF sortedPrefixes_sorted] lookupPrefix_none by blast
qed

theorem lookupWindowSize_longest_witness:
  "''gpt-4o-mini'' \<in> fst ` set contextWindowSizes \<and> lookupWindowSize ''gpt-4o-mini-2024'' = windowSizeOf ''gpt-4o-mini''"
proof -
  let ?m = "''gpt-4o-mini-2024''" and ?p = "''gpt-4o-mini''"
  have m: "?p \<in> fst ` set contextWindowSizes"
    by (simp add: contextWindowSizes_def)
  have a: "prefix_matches ?m ?p" by (simp add: prefix_matches_def)
  have b: "\<forall>q \<in> fst ` set contextWindowSizes. prefix_matches ?m q \<longrightarrow> length q \<le> length ?p"
    by (simp add: contextWindowSizes_def prefix_matches_def)
  have "lookupWindowSize ?m = windowSizeOf ?p"
    by (rule lookupWindowSize_longest [THEN conjunct1, THEN bspec, THEN mp, OF m conjI, OF a b])
  with m show ?thesis by (rule conjI)
qed

section \<open>Facts about compactions\<close>

fun drops :: "int list \<Rightarrow> nat" where
  "drops (p # c # cs) = (if 0 < p \<and> 10 * c < 7 * p then 1 else 0) + drops (c # cs)"
| "drops _ = 0"

lemma rat_drop_iff: "(of_int c :: rat) < of_int p * (7 / 10) \<longleftrightarrow> 10 * c < 7 * p"
proof -
  have "(of_int c :: rat) < of_int p * (7 / 10) \<longleftrightarrow> (of_int (10 * c) :: rat) < of_int (7 * p)"
    by (simp add: field_simps)
  then show ?thesis by (simp only: of_int_less_iff)
qed

lemma countCompactions_loop_drops:
  "countCompactions_loop n p ts =
     n + drops (p # map ContextTokens (filter HasContextTokens ts))"
  by (induction n p ts rule: countCompactions_loop.induct) (auto simp: rat_drop_iff)

text \<open>
  The compaction count is the number of neighbours, among the rows that carry token data,
  where the later count is more than 30 percent below a positive earlier one.
\<close>

theorem countCompactions_drops:
  "countCompactions tokens = drops (map ContextTokens (filter HasContextTokens tokens))"
  by (cases "map ContextTokens (filter HasContextTokens tokens)")
    (simp_all add: countCompactions_def countCompactions_loop_drops)

lemma computePressure_Some_iff:
  "(\<exists>r. computePressure peak model = Some r) \<longleftrightarrow> 0 < peak \<and> model \<noteq> [] \<and> lookupWindowSize model \<noteq> 0"
  by (auto simp: computePressure_def Let_def)

lemma computePressure_pos: "computePressure peak model = Some r \<Longrightarrow> 0 < r"
  by (auto simp: computePressure_def Let_def split: if_splits)

end
