(* ===== verification/Signals_Score.thy ===== *)
theory Signals_Score
  imports Prelude
begin

text \<open>
  The outcome classifier (\<open>internal/signals/outcome.go\<close>) and the penalty-based health score
  (\<open>internal/signals/score.go\<close>). \<open>time.Now\<close> is an argument of the classifier; the penalty map
  is an association map, whose sum does not depend on the iteration order.
\<close>

section \<open>Outcome\<close>

definition RecencyWindow :: int where "RecencyWindow = 10 * minute"

record OutcomeInput =
  oi_IsAutomated :: bool
  oi_MessageCount :: int
  oi_EndedWithRole :: string
  oi_FinalFailureStreak :: int
  oi_LastAssistantText :: string
  oi_LastActivity :: time

record OutcomeResult =
  or_Outcome :: string
  or_Confidence :: string
  or_IsRecent :: bool

definition giveUpPatterns :: "string list" where
  "giveUpPatterns =
     [''i'' @ [CHR 0x27] @ ''m unable to'', ''i can'' @ [CHR 0x27] @ ''t proceed'',
      ''i don'' @ [CHR 0x27] @ ''t have access'', ''i cannot proceed'', ''i am unable to'']"

definition isRecent :: "time \<Rightarrow> time \<Rightarrow> bool" where
  "isRecent now t = (if t = 0 then False else now - t < RecencyWindow)"

definition hasGiveUpPattern :: "string \<Rightarrow> bool" where
  "hasGiveUpPattern txt = list_ex (str_contains (to_lower txt)) giveUpPatterns"

definition outcome :: "string \<Rightarrow> string \<Rightarrow> bool \<Rightarrow> OutcomeResult" where
  "outcome o1 conf recent = \<lparr> or_Outcome = o1, or_Confidence = conf, or_IsRecent = recent \<rparr>"

definition ClassifyOutcome :: "time \<Rightarrow> OutcomeInput \<Rightarrow> OutcomeResult" where
  "ClassifyOutcome now i =
     (if oi_IsAutomated i then outcome ''unknown'' ''low'' False
      else if oi_MessageCount i = 2 \<and> oi_EndedWithRole i = ''assistant''
        then outcome ''completed'' ''medium'' False
      else if oi_MessageCount i < 3 then outcome ''unknown'' ''low'' False
      else if isRecent now (oi_LastActivity i) then outcome ''unknown'' ''low'' True
      else if oi_EndedWithRole i = ''user''
        then outcome ''abandoned'' (if oi_MessageCount i \<ge> 10 then ''high'' else ''medium'') False
      else if oi_FinalFailureStreak i \<ge> 3 then outcome ''errored'' ''medium'' False
      else if oi_EndedWithRole i = ''assistant''
        then outcome ''completed''
               (if hasGiveUpPattern (oi_LastAssistantText i) then ''low'' else ''medium'') False
      else outcome ''unknown'' ''low'' False)"

lemmas outcome_simps = ClassifyOutcome_def outcome_def

text \<open>
  An outcome is one of the four documented ones; an automated session and a session with
  recent activity are never classified; and only a session of at least three messages can be
  abandoned or errored.
\<close>

theorem ClassifyOutcome_cases:
  "let r = ClassifyOutcome now i in
     or_Outcome r \<in> {''completed'', ''abandoned'', ''errored'', ''unknown''}
   \<and> or_Confidence r \<in> {''high'', ''medium'', ''low''}
   \<and> (or_Confidence r = ''high'') = (or_Outcome r = ''abandoned'' \<and> 10 \<le> oi_MessageCount i)
   \<and> (or_Outcome r = ''abandoned'') =
       (\<not> oi_IsAutomated i \<and> 3 \<le> oi_MessageCount i \<and> \<not> isRecent now (oi_LastActivity i)
        \<and> oi_EndedWithRole i = ''user'')
   \<and> (or_Outcome r = ''errored'') =
       (\<not> oi_IsAutomated i \<and> 3 \<le> oi_MessageCount i \<and> \<not> isRecent now (oi_LastActivity i)
        \<and> oi_EndedWithRole i \<noteq> ''user'' \<and> 3 \<le> oi_FinalFailureStreak i)
   \<and> or_IsRecent r =
       (\<not> oi_IsAutomated i \<and> 3 \<le> oi_MessageCount i \<and> isRecent now (oi_LastActivity i))"
  by (simp add: Let_def outcome_simps not_less)

section \<open>Health score\<close>

record ScoreInput =
  si_Outcome :: string
  si_OutcomeConfidence :: string
  si_HasToolCalls :: bool
  si_FailureSignalCount :: int
  si_RetryCount :: int
  si_EditChurnCount :: int
  si_ConsecutiveFailMax :: int
  si_HasContextData :: bool
  si_CompactionCount :: int
  si_MidTaskCompactionCount :: int
  si_PressureMax :: "rat option"

record ScoreResult =
  sr_Score :: "int option"
  sr_Grade :: string
  sr_Basis :: "string list"
  sr_Penalties :: "(string, int) gomap"

definition buildBasis :: "ScoreInput \<Rightarrow> string list" where
  "buildBasis i =
     [''outcome'']
     @ (if si_HasToolCalls i then [''tool_health''] else [])
     @ (if si_HasContextData i then [''context_pressure''] else [])"

definition canScore :: "ScoreInput \<Rightarrow> string list \<Rightarrow> bool" where
  "canScore i basis =
     (if si_Outcome i \<noteq> ''unknown'' \<or> si_OutcomeConfidence i \<noteq> ''low'' then True
      else length basis > 1)"

definition capPenalty :: "int \<Rightarrow> int \<Rightarrow> int" where
  "capPenalty raw mx = (if raw > mx then mx else raw)"

text \<open>\<open>if cond \<open>{ penalties[k] = v }\<close>\<close>, the shape of every penalty of the code.\<close>

definition put_if :: "bool \<Rightarrow> string \<Rightarrow> int \<Rightarrow> (string, int) gomap \<Rightarrow> (string, int) gomap" where
  "put_if b k v m = (if b then AList.update k v m else m)"

definition applyOutcomePenalty :: "string \<Rightarrow> (string, int) gomap \<Rightarrow> (string, int) gomap" where
  "applyOutcomePenalty oc m =
     (if oc = ''errored'' then AList.update ''outcome_errored'' 30 m
      else if oc = ''abandoned'' then AList.update ''outcome_abandoned'' 15 m
      else m)"

definition applyToolPenalties :: "ScoreInput \<Rightarrow> (string, int) gomap \<Rightarrow> (string, int) gomap" where
  "applyToolPenalties i m0 =
     (let p1 = capPenalty (si_FailureSignalCount i * 3) 30;
          m1 = put_if (p1 > 0) ''tool_failure_signals'' p1 m0;
          p2 = capPenalty (si_RetryCount i * 5) 25;
          m2 = put_if (p2 > 0) ''tool_retries'' p2 m1;
          p3 = capPenalty (si_EditChurnCount i * 4) 20;
          m3 = put_if (p3 > 0) ''edit_churn'' p3 m2
      in put_if (si_ConsecutiveFailMax i \<ge> 3) ''consecutive_failures'' 10 m3)"

definition applyContextPenalties :: "ScoreInput \<Rightarrow> (string, int) gomap \<Rightarrow> (string, int) gomap" where
  "applyContextPenalties i m0 =
     (let p1 = capPenalty ((si_CompactionCount i - 1) * 5) 15;
          m1 = put_if (si_CompactionCount i \<ge> 2 \<and> p1 > 0) ''compactions'' p1 m0;
          p2 = capPenalty (si_MidTaskCompactionCount i * 8) 18;
          m2 = put_if (si_MidTaskCompactionCount i > 0 \<and> p2 > 0) ''mid_task_compactions'' p2 m1
      in put_if (case si_PressureMax i of None \<Rightarrow> False | Some p \<Rightarrow> p > 9 / 10)
           ''context_pressure_high'' 10 m2)"

definition computePenalties :: "ScoreInput \<Rightarrow> (string, int) gomap" where
  "computePenalties i =
     applyContextPenalties i (applyToolPenalties i (applyOutcomePenalty (si_Outcome i) []))"

definition gradeFromScore :: "int \<Rightarrow> string" where
  "gradeFromScore score =
     (if score \<ge> 90 then ''A'' else if score \<ge> 75 then ''B'' else if score \<ge> 60 then ''C''
      else if score \<ge> 40 then ''D'' else ''F'')"

definition ComputeHealthScore :: "ScoreInput \<Rightarrow> ScoreResult" where
  "ComputeHealthScore i =
     (let basis = buildBasis i in
      if \<not> canScore i basis
      then \<lparr> sr_Score = None, sr_Grade = [], sr_Basis = [], sr_Penalties = [] \<rparr>
      else (let penalties = computePenalties i;
                score0 = fold (\<lambda>(k, p) s. s - p) penalties 100;
                score = (if score0 < 0 then 0 else score0)
            in \<lparr> sr_Score = Some score, sr_Grade = gradeFromScore score, sr_Basis = basis,
                 sr_Penalties = penalties \<rparr>))"

section \<open>The penalty map\<close>

definition fresh :: "string \<Rightarrow> (string, int) gomap \<Rightarrow> bool" where
  "fresh k m \<longleftrightarrow> k \<notin> fst ` set m"

definition penalty_sum :: "(string, int) gomap \<Rightarrow> int" where
  "penalty_sum m = sum_list (map snd m)"

lemma update_fresh: "fresh k m \<Longrightarrow> AList.update k v m = m @ [(k, v)]"
  by (induction m) (auto simp: fresh_def)

lemma fresh_Nil [simp]: "fresh k []" by (simp add: fresh_def)

lemma fresh_put_if [simp]: "k \<noteq> k' \<Longrightarrow> fresh k (put_if b k' v m) = fresh k m"
  by (auto simp: fresh_def put_if_def dom_update)

lemma sum_put_if: "fresh k m \<Longrightarrow> penalty_sum (put_if b k v m) = penalty_sum m + (if b then v else 0)"
  by (simp add: put_if_def update_fresh penalty_sum_def)

lemma ok_put_if [simp]: "gomap_ok m \<Longrightarrow> gomap_ok (put_if b k v m)"
  by (simp add: put_if_def gomap_ok_update)

lemma vals_put_if: "fresh k m \<Longrightarrow> b = (b \<and> 0 < v) \<Longrightarrow> \<forall>x \<in> snd ` set m. 0 < x \<Longrightarrow>
    \<forall>x \<in> snd ` set (put_if b k v m). 0 < x"
  by (auto simp: put_if_def update_fresh)

definition outcome_penalty :: "string \<Rightarrow> int" where
  "outcome_penalty oc = (if oc = ''errored'' then 30 else if oc = ''abandoned'' then 15 else 0)"

lemma applyOutcomePenalty_eq:
  "applyOutcomePenalty oc [] =
     put_if (oc = ''errored'') ''outcome_errored'' 30 (put_if (oc = ''abandoned'') ''outcome_abandoned'' 15 [])"
  by (auto simp: applyOutcomePenalty_def put_if_def)

lemmas penalty_defs =
  computePenalties_def applyToolPenalties_def applyContextPenalties_def Let_def applyOutcomePenalty_eq

definition at_least0 :: "int \<Rightarrow> int" where
  "at_least0 x = max 0 x"

definition total_penalty :: "ScoreInput \<Rightarrow> int" where
  "total_penalty i =
     outcome_penalty (si_Outcome i)
     + at_least0 (capPenalty (si_FailureSignalCount i * 3) 30)
     + at_least0 (capPenalty (si_RetryCount i * 5) 25)
     + at_least0 (capPenalty (si_EditChurnCount i * 4) 20)
     + (if si_ConsecutiveFailMax i \<ge> 3 then 10 else 0)
     + (if si_CompactionCount i \<ge> 2 then capPenalty ((si_CompactionCount i - 1) * 5) 15 else 0)
     + at_least0 (capPenalty (si_MidTaskCompactionCount i * 8) 18)
     + (case si_PressureMax i of None \<Rightarrow> 0 | Some p \<Rightarrow> if p > 9 / 10 then 10 else 0)"

lemma pos_if: "(if 0 < x then x else 0) = at_least0 x"
  by (simp add: at_least0_def)

lemma cap_compactions: "(if 2 \<le> c \<and> 0 < capPenalty ((c - 1) * 5) 15 then capPenalty ((c - 1) * 5) 15 else 0)
    = (if 2 \<le> c then capPenalty ((c - 1) * 5) 15 else 0)"
  by (auto simp: capPenalty_def)

lemma cap_compactions_pos: "2 \<le> c \<Longrightarrow> 0 < capPenalty (c * 5 - 5) 15"
  by (simp add: capPenalty_def)

lemma cap_mid: "(if 0 < c \<and> 0 < capPenalty (c * 8) 18 then capPenalty (c * 8) 18 else 0)
    = at_least0 (capPenalty (c * 8) 18)"
  by (auto simp: capPenalty_def at_least0_def)

lemma penalty_sum_computePenalties: "penalty_sum (computePenalties i) = total_penalty i"
proof -
  have nil: "penalty_sum [] = 0" by (simp add: penalty_sum_def)
  show ?thesis
    unfolding penalty_defs
    by (simp add: sum_put_if nil pos_if cap_compactions cap_mid)
      (auto simp: total_penalty_def outcome_penalty_def dest: cap_compactions_pos split: option.splits)
qed

lemma ok_computePenalties: "gomap_ok (computePenalties i)"
  by (simp add: penalty_defs)

lemma computePenalties_pos: "(k, v) \<in> set (computePenalties i) \<Longrightarrow> 0 < v"
proof -
  have "\<forall>x \<in> snd ` set (computePenalties i). 0 < x"
    unfolding penalty_defs by (intro vals_put_if) simp_all
  then show "(k, v) \<in> set (computePenalties i) \<Longrightarrow> 0 < v" by force
qed

lemma fold_minus: "fold (\<lambda>(k, p) s. s - p) m a = a - penalty_sum m"
  by (induction m arbitrary: a) (auto simp: penalty_sum_def)

lemma cap_range: "0 \<le> m \<Longrightarrow> 0 \<le> at_least0 (capPenalty x m) \<and> at_least0 (capPenalty x m) \<le> m"
  by (simp add: at_least0_def capPenalty_def)

lemma total_penalty_bounds: "0 \<le> total_penalty i \<and> total_penalty i \<le> 158"
proof -
  have o: "0 \<le> outcome_penalty (si_Outcome i) \<and> outcome_penalty (si_Outcome i) \<le> 30"
    by (simp add: outcome_penalty_def)
  have c: "0 \<le> (if si_CompactionCount i \<ge> 2 then capPenalty ((si_CompactionCount i - 1) * 5) 15 else 0)
      \<and> (if si_CompactionCount i \<ge> 2 then capPenalty ((si_CompactionCount i - 1) * 5) 15 else 0) \<le> 15"
    by (simp add: capPenalty_def)
  have p: "0 \<le> (case si_PressureMax i of None \<Rightarrow> 0 | Some p \<Rightarrow> if p > 9 / 10 then (10 :: int) else 0)
      \<and> (case si_PressureMax i of None \<Rightarrow> 0 | Some p \<Rightarrow> if p > 9 / 10 then (10 :: int) else 0) \<le> 10"
    by (simp split: option.split)
  have f: "0 \<le> (if si_ConsecutiveFailMax i \<ge> 3 then (10 :: int) else 0)
      \<and> (if si_ConsecutiveFailMax i \<ge> 3 then (10 :: int) else 0) \<le> 10" by simp
  show ?thesis
    unfolding total_penalty_def
    using o c p f cap_range [of 30 "si_FailureSignalCount i * 3"] cap_range [of 25 "si_RetryCount i * 5"]
      cap_range [of 20 "si_EditChurnCount i * 4"] cap_range [of 18 "si_MidTaskCompactionCount i * 8"]
    by linarith
qed

interpretation score_floor: clamping "\<lambda>x::int. if x < 0 then 0 else x" "\<lambda>x. 0 \<le> x"
  by unfold_locales auto

lemma sr_Score_eq: "sr_Score (ComputeHealthScore i) =
    (if canScore i (buildBasis i) then Some (max 0 (100 - total_penalty i)) else None)"
  by (auto simp: ComputeHealthScore_def Let_def fold_minus penalty_sum_computePenalties)

text \<open>
  A session is scored unless its outcome is unknown with low confidence and it has neither
  tool calls nor context data; a score is 100 minus the sum of the recorded penalties, floored
  at 0, so it lies between 0 and 100; the grade is the one of the score; every recorded
  penalty is positive and recorded once.
\<close>

theorem ComputeHealthScore_correct:
  "let r = ComputeHealthScore i in
     (sr_Score r = None) = (si_Outcome i = ''unknown'' \<and> si_OutcomeConfidence i = ''low''
        \<and> \<not> si_HasToolCalls i \<and> \<not> si_HasContextData i)
   \<and> (case sr_Score r of None \<Rightarrow> sr_Grade r = [] \<and> sr_Basis r = [] \<and> sr_Penalties r = []
      | Some s \<Rightarrow> s = max 0 (100 - sum_list (map snd (sr_Penalties r)))
          \<and> 0 \<le> s \<and> s \<le> 100 \<and> sr_Grade r = gradeFromScore s
          \<and> distinct (map fst (sr_Penalties r)) \<and> list_all (\<lambda>(k, v). 0 < v) (sr_Penalties r))"
proof -
  have can: "canScore i (buildBasis i) \<longleftrightarrow>
      \<not> (si_Outcome i = ''unknown'' \<and> si_OutcomeConfidence i = ''low''
        \<and> \<not> si_HasToolCalls i \<and> \<not> si_HasContextData i)"
    by (auto simp: canScore_def buildBasis_def)
  show ?thesis
  proof (cases "canScore i (buildBasis i)")
    case True
    let ?s = "max 0 (100 - total_penalty i)"
    have r: "ComputeHealthScore i = \<lparr> sr_Score = Some ?s, sr_Grade = gradeFromScore ?s,
        sr_Basis = buildBasis i, sr_Penalties = computePenalties i \<rparr>"
      using True by (auto simp: ComputeHealthScore_def Let_def fold_minus penalty_sum_computePenalties max_def)
    have "list_all (\<lambda>(k, v). 0 < v) (computePenalties i)"
      by (auto simp: list_all_iff computePenalties_pos)
    then show ?thesis
      using True can total_penalty_bounds [of i] ok_computePenalties [of i]
        penalty_sum_computePenalties [of i]
      by (simp add: r Let_def gomap_ok_def penalty_sum_def)
  next
    case False
    then show ?thesis using can by (simp add: ComputeHealthScore_def Let_def)
  qed
qed

section \<open>Monotonicity\<close>

definition healthier :: "ScoreInput \<Rightarrow> ScoreInput \<Rightarrow> bool" where
  "healthier a b \<longleftrightarrow>
     si_Outcome a = si_Outcome b
   \<and> si_FailureSignalCount a \<le> si_FailureSignalCount b \<and> si_RetryCount a \<le> si_RetryCount b
   \<and> si_EditChurnCount a \<le> si_EditChurnCount b \<and> si_ConsecutiveFailMax a \<le> si_ConsecutiveFailMax b
   \<and> si_CompactionCount a \<le> si_CompactionCount b
   \<and> si_MidTaskCompactionCount a \<le> si_MidTaskCompactionCount b
   \<and> (case si_PressureMax a of None \<Rightarrow> True
      | Some p \<Rightarrow> (case si_PressureMax b of None \<Rightarrow> p \<le> 9 / 10 | Some q \<Rightarrow> p \<le> q))"

lemma cap_mono: "0 \<le> k \<Longrightarrow> x \<le> y \<Longrightarrow> at_least0 (capPenalty (x * k) c) \<le> at_least0 (capPenalty (y * k) c)"
  using mult_right_mono [of x y k] by (auto simp: at_least0_def capPenalty_def)

lemma healthier_penalty:
  assumes "healthier a b" shows "total_penalty a \<le> total_penalty b"
proof -
  have p: "(case si_PressureMax a of None \<Rightarrow> 0 | Some p \<Rightarrow> if p > 9 / 10 then (10 :: int) else 0)
      \<le> (case si_PressureMax b of None \<Rightarrow> 0 | Some p \<Rightarrow> if p > 9 / 10 then 10 else 0)"
    using assms by (auto simp: healthier_def split: option.splits)
  have c: "(if si_CompactionCount a \<ge> 2 then capPenalty ((si_CompactionCount a - 1) * 5) 15 else 0)
      \<le> (if si_CompactionCount b \<ge> 2 then capPenalty ((si_CompactionCount b - 1) * 5) 15 else 0)"
    using assms by (auto simp: healthier_def capPenalty_def)
  have f: "(if si_ConsecutiveFailMax a \<ge> 3 then (10 :: int) else 0)
      \<le> (if si_ConsecutiveFailMax b \<ge> 3 then 10 else 0)"
    using assms by (auto simp: healthier_def)
  show ?thesis
    unfolding total_penalty_def
    using assms by (intro add_mono p c f cap_mono) (auto simp: healthier_def)
qed

text \<open>
  The score is monotone: when a session has no more failures, retries, churn, streaks,
  compactions and pressure than another with the same outcome, it is scored at least as high.
\<close>

theorem ComputeHealthScore_mono:
  assumes "healthier a b"
    and "sr_Score (ComputeHealthScore a) = Some s" and "sr_Score (ComputeHealthScore b) = Some t"
  shows "t \<le> s"
  using healthier_penalty [OF assms(1)] assms(2,3)
  by (auto simp: sr_Score_eq split: if_splits)

definition sample_input :: "int \<Rightarrow> ScoreInput" where
  "sample_input n =
     \<lparr> si_Outcome = ''completed'', si_OutcomeConfidence = ''medium'', si_HasToolCalls = True,
       si_FailureSignalCount = n, si_RetryCount = 0, si_EditChurnCount = 0, si_ConsecutiveFailMax = n,
       si_HasContextData = False, si_CompactionCount = 0, si_MidTaskCompactionCount = 0,
       si_PressureMax = None \<rparr>"

theorem ComputeHealthScore_mono_witness:
  "sr_Score (ComputeHealthScore (sample_input 1)) = Some 97
   \<and> sr_Score (ComputeHealthScore (sample_input 4)) = Some 78 \<and> (78 :: int) \<le> 97"
proof -
  have h: "healthier (sample_input 1) (sample_input 4)"
    by (simp add: healthier_def sample_input_def)
  have a: "sr_Score (ComputeHealthScore (sample_input 1)) = Some 97"
    and b: "sr_Score (ComputeHealthScore (sample_input 4)) = Some 78"
    by (simp_all add: sr_Score_eq canScore_def sample_input_def total_penalty_def outcome_penalty_def
        at_least0_def capPenalty_def)
  show ?thesis
    using a b ComputeHealthScore_mono [OF h a b] by blast
qed

end
