(* ===== verification/Message_Scope.thy ===== *)
theory Message_Scope
  imports Prelude
begin

text \<open>
  Model-scoped analytics (\<open>internal/db/messagescope.go\<close>, \<open>messagescope_reducer.go\<close>): the
  reducer that pairs user turns with the selected assistant row that answers them, and the
  statistics and timing projections of the rows it emits. \<open>emit\<close> appends to \<open>r_out\<close>. A local
  time counts nanoseconds of wall-clock time since Monday 1 January of year 1.
\<close>

section \<open>Data\<close>

record ScopeFilter =
  sf_Models :: "string list"
  sf_DayOfWeek :: "int option"
  sf_Hour :: "int option"

record MessageInput =
  mi_SessionID :: string
  mi_Ordinal :: int
  mi_Role :: string
  mi_Model :: string
  mi_IsSystem :: bool
  mi_Timestamp :: string
  mi_LocalTime :: time
  mi_HasLocalTime :: bool
  mi_HasThinking :: bool
  mi_HasToolUse :: bool
  mi_OutputTokens :: int
  mi_HasOutputTokens :: bool
  mi_ContentLength :: int
  mi_Content :: string

record ScopedMessage =
  sm_SessionID :: string
  sm_Ordinal :: int
  sm_Role :: string
  sm_Content :: string
  sm_IsSystem :: bool
  sm_HasThinking :: bool
  sm_HasToolUse :: bool
  sm_Timestamp :: string
  sm_LocalTime :: time
  sm_HasLocalTime :: bool
  sm_OutputTokens :: int
  sm_HasOutputTokens :: bool
  sm_ContentLength :: int

record MessageStats =
  ms_Messages :: int
  ms_UserMessages :: int
  ms_AssistantMessages :: int
  ms_ToolUseMessages :: int
  ms_ThinkingMessages :: int
  ms_OutputTokens :: int
  ms_HasOutputTokens :: bool

record TimingMessage =
  tm_Role :: string
  tm_Time :: time
  tm_Valid :: bool
  tm_ContentLength :: int

section \<open>The day and hour filter\<close>

definition Weekday :: "time \<Rightarrow> int" where
  "Weekday t = (t div (24 * hour) + 1) mod 7"

definition Hour :: "time \<Rightarrow> int" where
  "Hour t = t mod (24 * hour) div hour"

definition MatchesDayHour :: "ScopeFilter \<Rightarrow> time \<Rightarrow> bool \<Rightarrow> bool" where
  "MatchesDayHour f t has =
     (if sf_DayOfWeek f = None \<and> sf_Hour f = None then True
      else if \<not> has then False
      else if (case sf_DayOfWeek f of None \<Rightarrow> False | Some d \<Rightarrow> (Weekday t + 6) mod 7 \<noteq> d) then False
      else if (case sf_Hour f of None \<Rightarrow> False | Some h \<Rightarrow> Hour t \<noteq> h) then False
      else True)"

section \<open>The reducer\<close>

record ScopeReducer =
  r_filter :: ScopeFilter
  r_session :: string
  r_lastOrd :: int
  r_started :: bool
  r_pending :: "ScopedMessage list"
  r_seen :: "string list"
  r_out :: "ScopedMessage list"

datatype scope_error = OrdinalOutOfOrder string int int | SessionReappeared string

definition NewScopeReducer :: "ScopeFilter \<Rightarrow> ScopeReducer" where
  "NewScopeReducer f =
     \<lparr> r_filter = f, r_session = [], r_lastOrd = 0, r_started = False, r_pending = [],
       r_seen = [], r_out = [] \<rparr>"

definition scopedFrom :: "MessageInput \<Rightarrow> ScopedMessage" where
  "scopedFrom row =
     \<lparr> sm_SessionID = mi_SessionID row, sm_Ordinal = mi_Ordinal row, sm_Role = mi_Role row,
       sm_Content = mi_Content row, sm_IsSystem = mi_IsSystem row,
       sm_HasThinking = mi_HasThinking row, sm_HasToolUse = mi_HasToolUse row,
       sm_Timestamp = mi_Timestamp row, sm_LocalTime = mi_LocalTime row,
       sm_HasLocalTime = mi_HasLocalTime row, sm_OutputTokens = mi_OutputTokens row,
       sm_HasOutputTokens = mi_HasOutputTokens row, sm_ContentLength = mi_ContentLength row \<rparr>"

definition appendMatched :: "ScopedMessage \<Rightarrow> ScopeReducer \<Rightarrow> ScopeReducer" where
  "appendMatched row r =
     (if \<not> MatchesDayHour (r_filter r) (sm_LocalTime row) (sm_HasLocalTime row) then r
      else r\<lparr>r_out := r_out r @ [row]\<rparr>)"

definition flush :: "ScopeReducer \<Rightarrow> ScopeReducer" where
  "flush r = (fold appendMatched (r_pending r) r)\<lparr>r_pending := []\<rparr>"

definition group_check :: "MessageInput \<Rightarrow> ScopeReducer \<Rightarrow> scope_error + ScopeReducer" where
  "group_check row r =
     (if \<not> r_started r then Inr (r\<lparr>r_started := True, r_session := mi_SessionID row\<rparr>)
      else if mi_SessionID row = r_session r
        then (if mi_Ordinal row < r_lastOrd r
              then Inl (OrdinalOutOfOrder (mi_SessionID row) (mi_Ordinal row) (r_lastOrd r))
              else Inr r)
      else if mi_SessionID row \<in> set (r_seen r) then Inl (SessionReappeared (mi_SessionID row))
      else Inr (r\<lparr>r_seen := List.insert (r_session r) (r_seen r), r_session := mi_SessionID row,
                  r_pending := []\<rparr>))"

definition is_user_turn :: "MessageInput \<Rightarrow> bool" where
  "is_user_turn row = (mi_Role row = ''user'' \<and> \<not> mi_IsSystem row \<and> mi_Model row = [])"

definition push_row :: "MessageInput \<Rightarrow> ScopeReducer \<Rightarrow> ScopeReducer" where
  "push_row row r =
     (let scoped = scopedFrom row in
      if is_user_turn row then r\<lparr>r_pending := r_pending r @ [scoped]\<rparr>
      else (let selected = (mi_Model row \<in> set (sf_Models (r_filter r))) in
            if mi_Role row = ''assistant''
            then (if selected then appendMatched scoped (flush r) else r\<lparr>r_pending := []\<rparr>)
            else (if selected then appendMatched scoped r else r)))"

definition Push :: "MessageInput \<Rightarrow> ScopeReducer \<Rightarrow> scope_error + ScopeReducer" where
  "Push row r =
     (case group_check row r of
        Inl e \<Rightarrow> Inl e
      | Inr r1 \<Rightarrow> Inr (push_row row (r1\<lparr>r_lastOrd := mi_Ordinal row\<rparr>)))"

text \<open>The backends feed all candidate rows and stop at the first error.\<close>

fun push_all :: "MessageInput list \<Rightarrow> ScopeReducer \<Rightarrow> scope_error + ScopeReducer" where
  "push_all [] r = Inr r"
| "push_all (row # rows) r = (case Push row r of Inl e \<Rightarrow> Inl e | Inr r1 \<Rightarrow> push_all rows r1)"

section \<open>Projections\<close>

definition stats_step :: "ScopedMessage \<Rightarrow> MessageStats \<Rightarrow> MessageStats" where
  "stats_step row s0 =
     (let s1 = s0\<lparr>ms_Messages := ms_Messages s0 + 1\<rparr>;
          s2 = (if sm_Role row = ''user''
                then (if \<not> sm_IsSystem row then s1\<lparr>ms_UserMessages := ms_UserMessages s1 + 1\<rparr> else s1)
                else if sm_Role row = ''assistant''
                then (let s = s1\<lparr>ms_AssistantMessages := ms_AssistantMessages s1 + 1\<rparr> in
                      if sm_HasToolUse row then s\<lparr>ms_ToolUseMessages := ms_ToolUseMessages s + 1\<rparr> else s)
                else s1);
          s3 = (if sm_HasThinking row then s2\<lparr>ms_ThinkingMessages := ms_ThinkingMessages s2 + 1\<rparr> else s2)
      in if sm_HasOutputTokens row
         then s3\<lparr>ms_OutputTokens := ms_OutputTokens s3 + sm_OutputTokens row, ms_HasOutputTokens := True\<rparr>
         else s3)"

definition zero_stats :: MessageStats where
  "zero_stats = \<lparr> ms_Messages = 0, ms_UserMessages = 0, ms_AssistantMessages = 0,
     ms_ToolUseMessages = 0, ms_ThinkingMessages = 0, ms_OutputTokens = 0, ms_HasOutputTokens = False \<rparr>"

definition ScopeStats :: "ScopedMessage list \<Rightarrow> MessageStats" where
  "ScopeStats rows = fold stats_step rows zero_stats"

definition timing_of :: "ScopedMessage \<Rightarrow> TimingMessage" where
  "timing_of row = \<lparr> tm_Role = sm_Role row, tm_Time = sm_LocalTime row,
     tm_Valid = sm_HasLocalTime row, tm_ContentLength = sm_ContentLength row \<rparr>"

definition ScopeTiming :: "ScopedMessage list \<Rightarrow> TimingMessage list" where
  "ScopeTiming rows = map timing_of (sort_key sm_Ordinal rows)"

section \<open>The specification of one session\<close>

definition matches :: "ScopeFilter \<Rightarrow> ScopedMessage \<Rightarrow> bool" where
  "matches f m = MatchesDayHour f (sm_LocalTime m) (sm_HasLocalTime m)"

text \<open>
  What one session contributes: user turns wait in \<open>pend\<close>; a selected assistant row releases
  them and itself, an unselected one discards them, any other selected row passes at once.
\<close>

fun scope_session :: "ScopeFilter \<Rightarrow> ScopedMessage list \<Rightarrow> MessageInput list \<Rightarrow> ScopedMessage list" where
  "scope_session f pend [] = []"
| "scope_session f pend (row # rows) =
     (if is_user_turn row then scope_session f (pend @ [scopedFrom row]) rows
      else if mi_Role row = ''assistant''
      then (if mi_Model row \<in> set (sf_Models f)
            then filter (matches f) (pend @ [scopedFrom row]) @ scope_session f [] rows
            else scope_session f [] rows)
      else if mi_Model row \<in> set (sf_Models f)
      then filter (matches f) [scopedFrom row] @ scope_session f pend rows
      else scope_session f pend rows)"

text \<open>The maximal blocks of neighbouring rows of one session.\<close>

function sessions :: "MessageInput list \<Rightarrow> MessageInput list list" where
  "sessions [] = []"
| "sessions (r # rs) =
     (r # takeWhile (\<lambda>x. mi_SessionID x = mi_SessionID r) rs)
     # sessions (dropWhile (\<lambda>x. mi_SessionID x = mi_SessionID r) rs)"
  by pat_completeness auto
termination
  by (relation "measure length") (auto simp: le_imp_less_Suc length_dropWhile_le)

definition session_id :: "MessageInput list \<Rightarrow> string" where
  "session_id g = mi_SessionID (hd g)"

definition new_sessions :: "string set \<Rightarrow> MessageInput list list \<Rightarrow> bool" where
  "new_sessions S gs \<longleftrightarrow> distinct (map session_id gs) \<and> set (map session_id gs) \<inter> S = {}
     \<and> (\<forall>g \<in> set gs. sorted (map mi_Ordinal g))"

text \<open>Grouped by session, with non-decreasing ordinals inside each group.\<close>

definition well_grouped :: "MessageInput list \<Rightarrow> bool" where
  "well_grouped rows \<longleftrightarrow> new_sessions {} (sessions rows)"

section \<open>The reducer implements the specification\<close>

lemma fold_appendMatched:
  "fold appendMatched ms r = r\<lparr>r_out := r_out r @ filter (matches (r_filter r)) ms\<rparr>"
  by (induction ms arbitrary: r) (auto simp: appendMatched_def matches_def)

lemma appendMatched_eq: "appendMatched m r = r\<lparr>r_out := r_out r @ filter (matches (r_filter r)) [m]\<rparr>"
  using fold_appendMatched [of "[m]" r] by simp

lemma push_row_frame [simp]:
  "r_filter (push_row row r) = r_filter r" "r_session (push_row row r) = r_session r"
  "r_lastOrd (push_row row r) = r_lastOrd r" "r_started (push_row row r) = r_started r"
  "r_seen (push_row row r) = r_seen r"
  by (auto simp: push_row_def Let_def flush_def fold_appendMatched appendMatched_eq)

lemma push_row_out:
  "r_out (push_row row r) @ scope_session (r_filter r) (r_pending (push_row row r)) rows
   = r_out r @ scope_session (r_filter r) (r_pending r) (row # rows)"
  by (auto simp: push_row_def Let_def flush_def fold_appendMatched appendMatched_eq)

definition expects :: "ScopeReducer \<Rightarrow> MessageInput list \<Rightarrow> ScopedMessage list" where
  "expects r rows =
     r_out r
     @ scope_session (r_filter r) (r_pending r) (takeWhile (\<lambda>x. mi_SessionID x = r_session r) rows)
     @ concat (map (scope_session (r_filter r) [])
         (sessions (dropWhile (\<lambda>x. mi_SessionID x = r_session r) rows)))"

definition accepts :: "ScopeReducer \<Rightarrow> MessageInput list \<Rightarrow> bool" where
  "accepts r rows \<longleftrightarrow>
     sorted (r_lastOrd r # map mi_Ordinal (takeWhile (\<lambda>x. mi_SessionID x = r_session r) rows))
     \<and> new_sessions (insert (r_session r) (set (r_seen r)))
         (sessions (dropWhile (\<lambda>x. mi_SessionID x = r_session r) rows))"

lemma new_sessions_Cons:
  "new_sessions S (g # gs) \<longleftrightarrow> session_id g \<notin> S \<and> sorted (map mi_Ordinal g)
     \<and> new_sessions (insert (session_id g) S) gs"
  by (auto simp: new_sessions_def)

lemma push_all_started:
  "r_started r \<Longrightarrow>
     (case push_all rows r of
        Inl e \<Rightarrow> \<not> accepts r rows
      | Inr r' \<Rightarrow> accepts r rows \<and> r_out r' = expects r rows)"
proof (induction rows arbitrary: r)
  case Nil
  then show ?case by (simp add: accepts_def expects_def new_sessions_def)
next
  case (Cons row rows)
  show ?case
  proof (cases "mi_SessionID row = r_session r")
    case True
    define r1 where "r1 = push_row row (r\<lparr>r_lastOrd := mi_Ordinal row\<rparr>)"
    have exp: "expects r1 rows = expects r (row # rows)"
      using True push_row_out [of row "r\<lparr>r_lastOrd := mi_Ordinal row\<rparr>"]
      by (simp add: expects_def r1_def flip: append_assoc)
    have acc: "accepts r1 rows \<and> r_lastOrd r \<le> mi_Ordinal row \<longleftrightarrow> accepts r (row # rows)"
      using True by (auto simp: accepts_def r1_def)
    have "r_started r1" using Cons.prems by (simp add: r1_def)
    note IH = Cons.IH [OF this]
    show ?thesis
    proof (cases "mi_Ordinal row < r_lastOrd r")
      case True
      then show ?thesis
        using Cons.prems \<open>mi_SessionID row = r_session r\<close>
        by (auto simp: Push_def group_check_def accepts_def)
    next
      case False
      then have "push_all (row # rows) r = push_all rows r1"
        using Cons.prems \<open>mi_SessionID row = r_session r\<close>
        by (simp add: Push_def group_check_def r1_def)
      with IH exp acc False show ?thesis by (auto split: sum.splits)
    qed
  next
    case False
    define r0 where "r0 = r\<lparr>r_seen := List.insert (r_session r) (r_seen r),
        r_session := mi_SessionID row, r_pending := [], r_lastOrd := mi_Ordinal row\<rparr>"
    define r1 where "r1 = push_row row r0"
    have exp: "expects r1 rows = expects r (row # rows)"
      using False push_row_out [of row r0]
      by (simp add: expects_def r1_def r0_def flip: append_assoc)
    have acc: "accepts r1 rows \<and> mi_SessionID row \<notin> set (r_seen r) \<longleftrightarrow> accepts r (row # rows)"
      using False
      by (auto simp: accepts_def r1_def r0_def new_sessions_Cons session_id_def insert_commute)
    have "r_started r1" using Cons.prems by (simp add: r1_def r0_def)
    note IH = Cons.IH [OF this]
    show ?thesis
    proof (cases "mi_SessionID row \<in> set (r_seen r)")
      case True
      then have "push_all (row # rows) r = Inl (SessionReappeared (mi_SessionID row))"
        using Cons.prems False by (simp add: Push_def group_check_def)
      with acc True show ?thesis by simp
    next
      case fresh: False
      then have "push_all (row # rows) r = push_all rows r1"
        using Cons.prems False by (simp add: Push_def group_check_def r1_def r0_def)
      with IH exp acc fresh show ?thesis by (auto split: sum.splits)
    qed
  qed
qed

lemma push_all_new:
  "(case push_all rows (NewScopeReducer f) of
      Inl e \<Rightarrow> \<not> well_grouped rows
    | Inr r \<Rightarrow> well_grouped rows \<and> r_out r = concat (map (scope_session f []) (sessions rows)))"
proof (cases rows)
  case Nil
  then show ?thesis by (simp add: NewScopeReducer_def well_grouped_def new_sessions_def)
next
  case (Cons row rest)
  define r0 where "r0 = (NewScopeReducer f)\<lparr>r_started := True, r_session := mi_SessionID row,
      r_lastOrd := mi_Ordinal row\<rparr>"
  define r1 where "r1 = push_row row r0"
  have st: "r_started r1" by (simp add: r1_def r0_def)
  have eq: "push_all rows (NewScopeReducer f) = push_all rest r1"
    by (simp add: Cons Push_def group_check_def r1_def r0_def NewScopeReducer_def)
  have exp: "expects r1 rest = concat (map (scope_session f []) (sessions rows))"
    using push_row_out [of row r0]
    by (simp add: expects_def r1_def r0_def Cons NewScopeReducer_def flip: append_assoc)
  have acc: "accepts r1 rest = well_grouped rows"
    by (auto simp: accepts_def well_grouped_def r1_def r0_def Cons new_sessions_Cons session_id_def
        NewScopeReducer_def)
  show ?thesis
    using push_all_started [OF st, of rest] by (simp add: eq exp acc split: sum.splits)
qed

text \<open>
  The reducer accepts exactly the row streams that are grouped by session with
  non-decreasing ordinals in each group, and reports an error for every other stream.
\<close>

theorem push_all_accepts_iff:
  "(\<exists>r. push_all rows (NewScopeReducer f) = Inr r) \<longleftrightarrow> well_grouped rows"
  using push_all_new [of rows f] by (auto split: sum.splits)

text \<open>
  C30. On an accepted stream the reducer emits, session by session, exactly what the pairing
  specification of one session says, in the order of the sessions.
\<close>

theorem push_all_refines:
  assumes "push_all rows (NewScopeReducer f) = Inr r"
  shows "r_out r = concat (map (scope_session f []) (sessions rows))"
  using push_all_new [of rows f] assms by simp

definition sample_row :: "string \<Rightarrow> int \<Rightarrow> string \<Rightarrow> string \<Rightarrow> MessageInput" where
  "sample_row sid ord role model =
     \<lparr> mi_SessionID = sid, mi_Ordinal = ord, mi_Role = role, mi_Model = model, mi_IsSystem = False,
       mi_Timestamp = [], mi_LocalTime = 0, mi_HasLocalTime = False, mi_HasThinking = False,
       mi_HasToolUse = False, mi_OutputTokens = 0, mi_HasOutputTokens = False,
       mi_ContentLength = 1, mi_Content = [] \<rparr>"

definition sample_filter :: ScopeFilter where
  "sample_filter = \<lparr> sf_Models = [''m''], sf_DayOfWeek = None, sf_Hour = None \<rparr>"

lemmas sample_defs = sample_row_def sample_filter_def Push_def group_check_def NewScopeReducer_def
  push_row_def is_user_turn_def Let_def flush_def appendMatched_def MatchesDayHour_def scopedFrom_def

theorem push_all_refines_witness:
  "\<exists>r. push_all [sample_row ''a'' 0 ''user'' [], sample_row ''a'' 1 ''assistant'' ''m'']
        (NewScopeReducer sample_filter) = Inr r
     \<and> length (r_out r) = 2
     \<and> r_out r = concat (map (scope_session sample_filter [])
         (sessions [sample_row ''a'' 0 ''user'' [], sample_row ''a'' 1 ''assistant'' ''m'']))"
proof -
  let ?rows = "[sample_row ''a'' 0 ''user'' [], sample_row ''a'' 1 ''assistant'' ''m'']"
  obtain r where r: "push_all ?rows (NewScopeReducer sample_filter) = Inr r" "length (r_out r) = 2"
    by (simp add: sample_defs)
  show ?thesis using r push_all_refines [OF r(1)] by blast
qed

section \<open>What is emitted\<close>

lemma submset_left: "A \<subseteq># B \<Longrightarrow> A \<subseteq># C + B"
  by (simp add: subset_mset.add_increasing)

lemma submset_add: "A \<subseteq># B \<Longrightarrow> A \<subseteq># add_mset x B"
  using submset_left [of A B "{#x#}"] by simp

lemma scope_session_subset:
  "mset (scope_session f pend rows) \<subseteq># mset (filter (matches f) (pend @ map scopedFrom rows))"
proof (induction f pend rows rule: scope_session.induct)
  case (2 f pend row rows)
  show ?case
    using 2 by (auto intro: submset_left submset_add)
qed simp

lemma concat_sessions: "concat (sessions rows) = rows"
  by (induction rows rule: sessions.induct) auto

lemma concat_subset:
  "(\<And>g. mset (h g) \<subseteq># mset (map k g)) \<Longrightarrow> mset (concat (map h gs)) \<subseteq># mset (map k (concat gs))"
  by (induction gs) (auto intro: subset_mset.add_mono)

lemma scope_session_selected:
  "m \<in> set (scope_session f pend rows) \<Longrightarrow> m \<in> set pend \<or>
     (\<exists>row \<in> set rows. m = scopedFrom row \<and> (is_user_turn row \<or> mi_Model row \<in> set (sf_Models f)))"
  by (induction f pend rows rule: scope_session.induct) (auto split: if_splits)

text \<open>
  No row is emitted twice or invented: with multiplicity, the emitted rows are among the
  candidate rows; each satisfies the day and hour filter and is a plain user turn or of a
  selected model.
\<close>

theorem push_all_emits:
  assumes "push_all rows (NewScopeReducer f) = Inr r"
  shows "mset (r_out r) \<subseteq># mset (map scopedFrom rows)
    \<and> (\<forall>m \<in> set (r_out r). MatchesDayHour f (sm_LocalTime m) (sm_HasLocalTime m)
         \<and> (\<exists>row \<in> set rows. m = scopedFrom row \<and> (is_user_turn row \<or> mi_Model row \<in> set (sf_Models f))))"
proof -
  have out: "r_out r = concat (map (scope_session f []) (sessions rows))"
    using push_all_new [of rows f] assms by simp
  have sub: "mset (scope_session f [] g) \<subseteq># mset (map scopedFrom g)" for g
    using scope_session_subset [of f "[]" g]
    by (metis append_Nil mset_filter multiset_filter_subset subset_mset.order_trans)
  have "mset (r_out r) \<subseteq># mset (map scopedFrom rows)"
    using concat_subset [OF sub, of "sessions rows"] by (simp add: out concat_sessions)
  moreover have "matches f m" if "m \<in> set (scope_session f [] g)" for m g
    using scope_session_subset [of f "[]" g] that
    by (metis mem_Collect_eq mset_subset_eqD set_filter set_mset_mset)
  moreover have "\<exists>row \<in> set rows. m = scopedFrom row \<and> (is_user_turn row \<or> mi_Model row \<in> set (sf_Models f))"
    if "m \<in> set (scope_session f [] g)" "g \<in> set (sessions rows)" for m g
  proof -
    have "set g \<subseteq> set rows"
      using that(2) concat_sessions [of rows] by (metis UN_upper set_concat)
    then show ?thesis
      using scope_session_selected [OF that(1)] by auto
  qed
  ultimately show ?thesis
    unfolding out by (auto simp: matches_def)
qed

theorem push_all_emits_witness:
  "\<exists>r. push_all [sample_row ''a'' 0 ''user'' [], sample_row ''a'' 1 ''assistant'' ''m'']
        (NewScopeReducer sample_filter) = Inr r
     \<and> mset (r_out r) \<subseteq># mset (map scopedFrom
          [sample_row ''a'' 0 ''user'' [], sample_row ''a'' 1 ''assistant'' ''m''])"
proof -
  let ?rows = "[sample_row ''a'' 0 ''user'' [], sample_row ''a'' 1 ''assistant'' ''m'']"
  obtain r where r: "push_all ?rows (NewScopeReducer sample_filter) = Inr r"
    by (simp add: sample_defs)
  show ?thesis using r push_all_emits [OF r] by blast
qed

section \<open>Statistics and timing\<close>

definition tally :: "('a \<Rightarrow> bool) \<Rightarrow> 'a list \<Rightarrow> int" where
  "tally P xs = int (length (filter P xs))"

lemma fold_stats:
  "fold stats_step rows s =
     \<lparr> ms_Messages = ms_Messages s + int (length rows),
       ms_UserMessages = ms_UserMessages s + tally (\<lambda>m. sm_Role m = ''user'' \<and> \<not> sm_IsSystem m) rows,
       ms_AssistantMessages = ms_AssistantMessages s + tally (\<lambda>m. sm_Role m = ''assistant'') rows,
       ms_ToolUseMessages = ms_ToolUseMessages s
         + tally (\<lambda>m. sm_Role m = ''assistant'' \<and> sm_HasToolUse m) rows,
       ms_ThinkingMessages = ms_ThinkingMessages s + tally sm_HasThinking rows,
       ms_OutputTokens = ms_OutputTokens s + sum_list (map sm_OutputTokens (filter sm_HasOutputTokens rows)),
       ms_HasOutputTokens = (ms_HasOutputTokens s \<or> list_ex sm_HasOutputTokens rows) \<rparr>"
  by (induction rows arbitrary: s) (auto simp: stats_step_def Let_def tally_def)

text \<open>
  The statistics are the counts of the rows they name: so the user and assistant counts
  never exceed the message count, nor the tool-use count the assistant count.
\<close>

theorem ScopeStats_counts:
  "ScopeStats rows =
     \<lparr> ms_Messages = int (length rows),
       ms_UserMessages = tally (\<lambda>m. sm_Role m = ''user'' \<and> \<not> sm_IsSystem m) rows,
       ms_AssistantMessages = tally (\<lambda>m. sm_Role m = ''assistant'') rows,
       ms_ToolUseMessages = tally (\<lambda>m. sm_Role m = ''assistant'' \<and> sm_HasToolUse m) rows,
       ms_ThinkingMessages = tally sm_HasThinking rows,
       ms_OutputTokens = sum_list (map sm_OutputTokens (filter sm_HasOutputTokens rows)),
       ms_HasOutputTokens = list_ex sm_HasOutputTokens rows \<rparr>
   \<and> ms_UserMessages (ScopeStats rows) + ms_AssistantMessages (ScopeStats rows) \<le> ms_Messages (ScopeStats rows)
   \<and> ms_ToolUseMessages (ScopeStats rows) \<le> ms_AssistantMessages (ScopeStats rows)"
proof -
  have "tally (\<lambda>m. sm_Role m = ''user'' \<and> \<not> sm_IsSystem m) rows + tally (\<lambda>m. sm_Role m = ''assistant'') rows
      \<le> int (length rows)"
    by (induction rows) (auto simp: tally_def)
  moreover have "tally (\<lambda>m. sm_Role m = ''assistant'' \<and> sm_HasToolUse m) rows
      \<le> tally (\<lambda>m. sm_Role m = ''assistant'') rows"
    by (induction rows) (auto simp: tally_def)
  ultimately show ?thesis
    by (simp add: ScopeStats_def fold_stats zero_stats_def)
qed

text \<open>
  The timing view is the rows in ordinal order, each once, rows of equal ordinal in the
  order they were emitted.
\<close>

theorem ScopeTiming_sorted:
  "\<exists>ordered. ScopeTiming rows = map timing_of ordered
     \<and> mset ordered = mset rows \<and> sorted (map sm_Ordinal ordered)
     \<and> (\<forall>k. filter (\<lambda>m. sm_Ordinal m = k) ordered = filter (\<lambda>m. sm_Ordinal m = k) rows)"
  by (rule exI [of _ "sort_key sm_Ordinal rows"]) (simp add: ScopeTiming_def sort_key_stable)

end
