(* ===== verification/Utf8.thy ===== *)
theory Utf8
  imports Prelude
begin

text \<open>
  Text sanitising (\<open>SanitizeUTF8\<close> and \<open>isStrippableControl\<close> in \<open>internal/db/messages.go\<close>) and
  the UTF-8 decoding of Go's \<open>unicode/utf8\<close> it rests on. A rune is its list of bytes; bytes
  that start no well-formed rune are dropped one at a time, as \<open>strings.ToValidUTF8(s, "")\<close>
  does.
\<close>

section \<open>Decoding\<close>

definition between :: "nat \<Rightarrow> nat \<Rightarrow> char \<Rightarrow> bool" where
  "between lo hi c = (lo \<le> byte c \<and> byte c \<le> hi)"

abbreviation continuation :: "char \<Rightarrow> bool" where
  "continuation \<equiv> between 0x80 0xBF"

text \<open>The second byte a first byte admits (the \<open>acceptRanges\<close> of Go's decoder).\<close>

definition second_ok :: "char \<Rightarrow> char \<Rightarrow> bool" where
  "second_ok a b =
     (if byte a = 0xE0 then between 0xA0 0xBF b
      else if byte a = 0xED then between 0x80 0x9F b
      else if byte a = 0xF0 then between 0x90 0xBF b
      else if byte a = 0xF4 then between 0x80 0x8F b
      else continuation b)"

definition rune_need :: "char \<Rightarrow> nat" where
  "rune_need a =
     (if byte a < 0x80 then 1 else if between 0xC2 0xDF a then 2
      else if between 0xE0 0xEF a then 3 else if between 0xF0 0xF4 a then 4 else 0)"

text \<open>The width of the well-formed rune at the head of the text, 0 if there is none.\<close>

fun rune_width :: "string \<Rightarrow> nat" where
  "rune_width [] = 0"
| "rune_width (a # s) =
     (let n = rune_need a in
      if n = 0 \<or> n = 1 then n
      else if length s < n - 1 then 0
      else if second_ok a (hd s) \<and> list_all continuation (take (n - 2) (tl s)) then n
      else 0)"

lemma rune_width_le: "rune_width s \<le> length s"
  by (cases s) (auto simp: Let_def rune_need_def Suc_le_eq split: if_splits)

function runes :: "string \<Rightarrow> string list" where
  "runes [] = []"
| "runes (a # s) =
     (let w = rune_width (a # s) in
      if w = 0 then runes s else take w (a # s) # runes (drop w (a # s)))"
  by pat_completeness auto
termination
  by (relation "measure length") (auto simp: Let_def)

declare runes.simps(2) [simp del]

definition ToValidUTF8 :: "string \<Rightarrow> string" where
  "ToValidUTF8 s = concat (runes s)"

definition valid_utf8 :: "string \<Rightarrow> bool" where
  "valid_utf8 s \<longleftrightarrow> ToValidUTF8 s = s"

section \<open>Control characters\<close>

text \<open>\<open>unicode.IsControl\<close>: U+0000 to U+001F, U+007F and U+0080 to U+009F.\<close>

definition IsControl :: "string \<Rightarrow> bool" where
  "IsControl r =
     (case r of
        [a] \<Rightarrow> byte a < 0x20 \<or> byte a = 0x7F
      | [a, b] \<Rightarrow> byte a = 0xC2 \<and> between 0x80 0x9F b
      | _ \<Rightarrow> False)"

definition isStrippableControl :: "string \<Rightarrow> bool" where
  "isStrippableControl r =
     (if r = [CHR 0x0A] \<or> r = [CHR 0x09] \<or> r = [CHR 0x0D] then False else IsControl r)"

definition SanitizeUTF8 :: "string \<Rightarrow> string" where
  "SanitizeUTF8 s =
     (let s1 = filter (\<lambda>c. c \<noteq> CHR 0x00) s;
          s2 = ToValidUTF8 s1
      in if \<not> list_ex isStrippableControl (runes s2) then s2
         else concat (filter (\<lambda>r. \<not> isStrippableControl r) (runes s2)))"

section \<open>Decoding what was encoded\<close>

definition valid_rune :: "string \<Rightarrow> bool" where
  "valid_rune r \<longleftrightarrow> r \<noteq> [] \<and> rune_width r = length r"

lemma rune_width_append: "valid_rune r \<Longrightarrow> rune_width (r @ t) = length r"
proof -
  assume v: "valid_rune r"
  obtain a u where r: "r = a # u" using v by (cases r) (auto simp: valid_rune_def)
  define n where "n = rune_need a"
  show ?thesis
  proof (cases "n = 0 \<or> n = 1")
    case True
    then show ?thesis using v by (auto simp: valid_rune_def r n_def [symmetric] Let_def)
  next
    case False
    then have u: "length u = n - 1" "second_ok a (hd u)" "list_all continuation (take (n - 2) (tl u))"
      using v by (auto simp: valid_rune_def r n_def [symmetric] Let_def split: if_splits)
    have "u \<noteq> []" using u(1) False by auto
    then have "hd (u @ t) = hd u" "take (n - 2) (tl (u @ t)) = take (n - 2) (tl u)"
      using u(1) by auto
    then show ?thesis
      using False u by (simp add: r n_def [symmetric] Let_def)
  qed
qed

lemma take_rune_valid:
  assumes "rune_width s \<noteq> 0"
  shows "valid_rune (take (rune_width s) s)"
proof (cases s)
  case (Cons a t)
  define n where "n = rune_need a"
  have n: "n = 1 \<or> n = 2 \<or> n = 3 \<or> n = 4" and w: "rune_width s = n"
    using assms by (auto simp: Cons n_def Let_def rune_need_def split: if_splits)
  show ?thesis
  proof (cases "n = 1")
    case True
    then show ?thesis by (simp add: w) (simp add: valid_rune_def Cons n_def Let_def)
  next
    case False
    have "length t \<ge> n - 1" "second_ok a (hd t)" "list_all continuation (take (n - 2) (tl t))"
      using assms w False n by (auto simp: Cons n_def [symmetric] Let_def split: if_splits)
    moreover from this obtain b u where "t = b # u" using n False by (cases t) auto
    ultimately show ?thesis
      unfolding w using n False
      by (auto simp: valid_rune_def Cons n_def [symmetric] Let_def take_Cons' min_def)
  qed
qed (use assms in simp)

lemma runes_valid: "r \<in> set (runes s) \<Longrightarrow> valid_rune r"
proof (induction s rule: runes.induct)
  case (2 a s)
  show ?case
  proof (cases "rune_width (a # s) = 0")
    case False
    with 2 show ?thesis
      using take_rune_valid [OF False] by (auto simp: runes.simps(2) Let_def simp del: rune_width.simps)
  qed (use 2 in \<open>simp add: runes.simps(2) del: rune_width.simps\<close>)
qed simp

lemma runes_concat: "\<forall>r \<in> set rs. valid_rune r \<Longrightarrow> runes (concat rs) = rs"
proof (induction rs)
  case (Cons r rs)
  then obtain a t where r: "r = a # t" by (cases r) (auto simp: valid_rune_def)
  have w: "rune_width (r @ concat rs) = length r" using Cons.prems by (simp add: rune_width_append)
  have "runes (concat (r # rs)) = r # runes (concat rs)"
    using w by (simp add: r runes.simps(2) Let_def del: rune_width.simps)
  with Cons show ?case by simp
qed simp

lemma runes_ToValidUTF8 [simp]: "runes (ToValidUTF8 s) = runes s"
  by (simp add: ToValidUTF8_def runes_concat runes_valid)

lemma concat_runes: "valid_utf8 s \<Longrightarrow> concat (runes s) = s"
  by (simp add: valid_utf8_def ToValidUTF8_def)

lemma valid_utf8_concat: "\<forall>r \<in> set rs. valid_rune r \<Longrightarrow> valid_utf8 (concat rs)"
  by (simp add: valid_utf8_def ToValidUTF8_def runes_concat)

section \<open>The sanitiser\<close>

definition clean_text :: "string \<Rightarrow> bool" where
  "clean_text s \<longleftrightarrow> valid_utf8 s \<and> (\<forall>r \<in> set (runes s). \<not> isStrippableControl r)"

lemma SanitizeUTF8_eq:
  "SanitizeUTF8 s =
     concat (filter (\<lambda>r. \<not> isStrippableControl r) (runes (filter (\<lambda>c. c \<noteq> CHR 0x00) s)))"
proof -
  have "filter (\<lambda>r. \<not> isStrippableControl r) rs = rs" if "\<not> list_ex isStrippableControl rs" for rs
    using that by (induction rs) auto
  then show ?thesis
    by (simp add: SanitizeUTF8_def Let_def) (simp add: ToValidUTF8_def)
qed

lemma runes_SanitizeUTF8:
  "runes (SanitizeUTF8 s) =
     filter (\<lambda>r. \<not> isStrippableControl r) (runes (filter (\<lambda>c. c \<noteq> CHR 0x00) s))"
  unfolding SanitizeUTF8_eq by (rule runes_concat) (auto dest: runes_valid)

lemma SanitizeUTF8_clean: "clean_text (SanitizeUTF8 s)"
proof -
  have "valid_utf8 (SanitizeUTF8 s)"
    unfolding SanitizeUTF8_eq by (rule valid_utf8_concat) (auto dest: runes_valid)
  then show ?thesis by (simp add: clean_text_def runes_SanitizeUTF8)
qed

lemma nul_strippable: "isStrippableControl [CHR 0x00]"
  by (simp add: isStrippableControl_def IsControl_def byte_def)

lemma byte_eq_iff: "byte c = byte d \<longleftrightarrow> c = d"
  by (simp add: byte_def)

lemma valid_rune_nul: "valid_rune r \<Longrightarrow> CHR 0x00 \<in> set r \<Longrightarrow> r = [CHR 0x00]"
proof -
  assume v: "valid_rune r" and nul: "CHR 0x00 \<in> set r"
  obtain a t where r: "r = a # t" using v by (cases r) (auto simp: valid_rune_def)
  have b0: "byte (CHR 0x00) = 0" by (simp add: byte_def)
  show ?thesis
  proof (cases "a = CHR 0x00")
    case True
    then show ?thesis using v b0 by (auto simp: valid_rune_def r Let_def rune_need_def)
  next
    case False
    then have "CHR 0x00 \<in> set t" using nul r by simp
    moreover have "\<forall>c \<in> set t. 0x80 \<le> byte c"
    proof (cases t)
      case (Cons b u)
      then show ?thesis
        using v by (auto simp: valid_rune_def r Let_def second_ok_def between_def list_all_iff
            split: if_splits)
    qed simp
    ultimately show ?thesis using b0 by fastforce
  qed
qed

lemma SanitizeUTF8_id: "clean_text s \<Longrightarrow> SanitizeUTF8 s = s"
proof -
  assume c: "clean_text s"
  have "CHR 0x00 \<notin> set s"
  proof
    assume "CHR 0x00 \<in> set s"
    then obtain r where "r \<in> set (runes s)" "CHR 0x00 \<in> set r"
      using c concat_runes [of s] by (metis UN_E clean_text_def set_concat)
    then have "[CHR 0x00] \<in> set (runes s)"
      using valid_rune_nul runes_valid by metis
    then show False using c nul_strippable by (auto simp: clean_text_def)
  qed
  then have "filter (\<lambda>c. c \<noteq> CHR 0x00) s = s" by (auto intro!: filter_True)
  moreover have "filter (\<lambda>r. \<not> isStrippableControl r) (runes s) = runes s"
    using c by (simp add: clean_text_def filter_id_conv)
  ultimately show ?thesis
    using c by (simp add: SanitizeUTF8_eq concat_runes clean_text_def)
qed

text \<open>
  Sanitised text is well-formed UTF-8 without NUL and without control characters other
  than newline, tab and carriage return; text that already is so is left alone, so sanitising
  twice changes nothing more.
\<close>

theorem SanitizeUTF8_correct:
  "valid_utf8 (SanitizeUTF8 s) \<and> (\<forall>r \<in> set (runes (SanitizeUTF8 s)). \<not> isStrippableControl r)
   \<and> (SanitizeUTF8 s = s \<longleftrightarrow> clean_text s)
   \<and> SanitizeUTF8 (SanitizeUTF8 s) = SanitizeUTF8 s"
  using SanitizeUTF8_clean [of s] SanitizeUTF8_id
  by (metis clean_text_def)

lemma SanitizeUTF8_Nil [simp]: "SanitizeUTF8 [] = []"
  by (simp add: SanitizeUTF8_eq)

section \<open>Cutting at a rune boundary\<close>

text \<open>\<open>utf8.RuneStart\<close>: every byte that is not a continuation byte.\<close>

definition RuneStart :: "char \<Rightarrow> bool" where
  "RuneStart c = (\<not> continuation c)"

fun rune_cut :: "string \<Rightarrow> nat \<Rightarrow> nat" where
  "rune_cut s 0 = 0"
| "rune_cut s (Suc n) = (if RuneStart (s ! Suc n) then Suc n else rune_cut s n)"

lemma rune_cut_le: "rune_cut s n \<le> n"
  by (induction n) auto

lemma rune_cut_boundary: "rune_cut s n = 0 \<or> RuneStart (s ! rune_cut s n)"
  by (induction n) auto

lemma valid_rune_tail: "valid_rune r \<Longrightarrow> c \<in> set (tl r) \<Longrightarrow> continuation c"
proof -
  assume v: "valid_rune r" and c: "c \<in> set (tl r)"
  obtain a t where r: "r = a # t" using v by (cases r) (auto simp: valid_rune_def)
  obtain b u where t: "t = b # u" using c r by (cases t) auto
  have "second_ok a b \<and> list_all continuation u"
    using v by (auto simp: valid_rune_def r t Let_def split: if_splits)
  then show ?thesis
    using c by (auto simp: r t second_ok_def between_def list_all_iff split: if_splits)
qed

lemma take_at_boundary:
  "\<forall>r \<in> set rs. valid_rune r \<Longrightarrow> i < length (concat rs) \<Longrightarrow> RuneStart (concat rs ! i) \<Longrightarrow>
     \<exists>k. take i (concat rs) = concat (take k rs)"
proof (induction rs arbitrary: i)
  case (Cons r rs)
  show ?case
  proof (cases "i < length r")
    case True
    have "i = 0"
    proof (rule ccontr)
      assume "i \<noteq> 0"
      then have "r ! i \<in> set (tl r)"
        using True by (cases r; cases i) auto
      then have "continuation (r ! i)" using valid_rune_tail Cons.prems(1) by auto
      then show False using Cons.prems(3) True by (simp add: RuneStart_def nth_append)
    qed
    then show ?thesis by (intro exI [of _ 0]) simp
  next
    case False
    have "i - length r < length (concat rs)" "RuneStart (concat rs ! (i - length r))"
      using Cons.prems False by (simp_all add: nth_append)
    then obtain k where "take (i - length r) (concat rs) = concat (take k rs)"
      using Cons.IH [of "i - length r"] Cons.prems(1) by auto
    then show ?thesis using False by (intro exI [of _ "Suc k"]) simp
  qed
qed simp

lemma take_rune_cut_clean:
  assumes "clean_text s" and "n < length s"
  shows "clean_text (take (rune_cut s n) s)"
proof -
  let ?rs = "runes s"
  have s: "concat ?rs = s" and v: "\<forall>r \<in> set ?rs. valid_rune r"
    using assms(1) by (simp_all add: clean_text_def concat_runes runes_valid)
  obtain k where k: "take (rune_cut s n) s = concat (take k ?rs)"
  proof (cases "rune_cut s n = 0")
    case True
    then show ?thesis using that [of 0] by simp
  next
    case False
    then show ?thesis
      using that take_at_boundary [OF v, of "rune_cut s n"] rune_cut_boundary [of s n]
        rune_cut_le [of s n] assms(2) s by auto
  qed
  have vk: "\<forall>r \<in> set (take k ?rs). valid_rune r" using v by (auto dest: in_set_takeD)
  have "\<forall>r \<in> set (take k ?rs). \<not> isStrippableControl r"
    using assms(1) by (auto simp: clean_text_def dest: in_set_takeD)
  with vk show ?thesis
    by (simp add: k clean_text_def runes_concat valid_utf8_concat)
qed

theorem SanitizeUTF8_correct_witness:
  "valid_utf8 (SanitizeUTF8 [CHR ''a'', CHR 0xFF, CHR 0x00, CHR 0x1B]) \<and>
   SanitizeUTF8 (SanitizeUTF8 [CHR ''a'', CHR 0xFF, CHR 0x00, CHR 0x1B]) = SanitizeUTF8 [CHR ''a'', CHR 0xFF, CHR 0x00, CHR 0x1B]"
  using SanitizeUTF8_correct by blast

section \<open>Ranging over a string\<close>

text \<open>
  Ranging over a string: a byte that starts no well-formed rune yields U+FFFD. The string of a list of
  runes is their concatenation.
\<close>

definition replacement :: string where "replacement = [CHR 0xEF, CHR 0xBF, CHR 0xBD]"

function range_runes :: "string \<Rightarrow> string list" where
  "range_runes [] = []"
| "range_runes (a # s) =
     (let w = rune_width (a # s) in
      if w = 0 then replacement # range_runes s else take w (a # s) # range_runes (drop w (a # s)))"
  by pat_completeness auto
termination
  by (relation "measure length") (auto simp: Let_def)

declare range_runes.simps(2) [simp del]

text \<open>Well-formed runes are read back from their concatenation.\<close>

lemma valid_replacement: "valid_rune replacement"
  by (simp add: valid_rune_def replacement_def rune_need_def between_def second_ok_def byte_def Let_def)

lemma range_runes_step:
  assumes "valid_rune r"
  shows "range_runes (r @ s) = r # range_runes s"
proof -
  obtain a u where r: "r = a # u" using assms by (cases r) (auto simp: valid_rune_def)
  have "rune_width (a # u @ s) = length r" using rune_width_append [OF assms, of s] r by simp
  then show ?thesis using range_runes.simps(2) [of a "u @ s"] r by simp
qed

lemma range_runes_concat: "list_all valid_rune rs \<Longrightarrow> range_runes (concat rs) = rs"
  by (induction rs) (simp_all add: range_runes_step)

lemma range_runes_valid: "list_all valid_rune (range_runes s)"
proof (induction s rule: range_runes.induct)
  case (2 a s)
  then show ?case
    using take_rune_valid [of "a # s"] by (simp add: range_runes.simps(2) [of a s] Let_def valid_replacement)
qed simp

section \<open>White space\<close>

text \<open>The runes of a string as they stand, invalid bytes one by one.\<close>

function raw_runes :: "string \<Rightarrow> string list" where
  "raw_runes [] = []"
| "raw_runes (a # s) = (let w = max 1 (rune_width (a # s)) in take w (a # s) # raw_runes (drop w (a # s)))"
  by pat_completeness auto
termination
  by (relation "measure length") (auto simp: Let_def)

declare raw_runes.simps(2) [simp del]

text \<open>\<open>unicode.IsSpace\<close>: the ASCII spaces and U+0085, U+00A0, U+1680, U+2000 to U+200A, U+2028, U+2029, U+202F, U+205F, U+3000.\<close>

definition IsSpace :: "string \<Rightarrow> bool" where
  "IsSpace r =
     (case r of
        [a] \<Rightarrow> is_space a
      | [a, b] \<Rightarrow> byte a = 0xC2 \<and> (byte b = 0x85 \<or> byte b = 0xA0)
      | [a, b, c] \<Rightarrow>
          byte a = 0xE1 \<and> byte b = 0x9A \<and> byte c = 0x80 \<or>
          byte a = 0xE2 \<and> byte b = 0x80 \<and> (between 0x80 0x8A c \<or> byte c = 0xA8 \<or> byte c = 0xA9 \<or> byte c = 0xAF) \<or>
          byte a = 0xE2 \<and> byte b = 0x81 \<and> byte c = 0x9F \<or>
          byte a = 0xE3 \<and> byte b = 0x80 \<and> byte c = 0x80
      | _ \<Rightarrow> False)"

definition byte_order_mark :: string where "byte_order_mark = [CHR 0xEF, CHR 0xBB, CHR 0xBF]"

definition TrimLeftFunc :: "(string \<Rightarrow> bool) \<Rightarrow> string \<Rightarrow> string" where
  "TrimLeftFunc P s = concat (dropWhile P (raw_runes s))"

definition TrimSpace :: "string \<Rightarrow> string" where
  "TrimSpace s = concat (rev (dropWhile IsSpace (rev (dropWhile IsSpace (raw_runes s)))))"

lemma concat_raw_runes: "concat (raw_runes s) = s"
proof (induction s rule: raw_runes.induct)
  case (2 a s)
  then show ?case unfolding raw_runes.simps(2) Let_def by (simp add: append_take_drop_id)
qed simp

end
