(* ===== verification/Validate.thy ===== *)
theory Validate
  imports Utf8
begin

text \<open>
  The write-path contract of parsed rows: token plausibility (\<open>internal/db/token_clamp.go\<close>,
  \<open>usage_clamp.go\<close>, \<open>token_coverage.go\<close>) and the validation of messages, usage events and
  sessions (\<open>internal/db/validate.go\<close>), with the row types of \<open>internal/db/messages.go\<close> and
  \<open>usage_events.go\<close>. Each sanitiser threads the change counters; each is shown to be a
  projection onto its contract that a second pass leaves alone.

  \<open>parse_year\<close> is the parameter that stands for \<open>time.Parse\<close>: the UTC year of a stored
  timestamp, if it parses. \<open>usage_int\<close> stands for the third-party \<open>gjson\<close> reader.
\<close>

section \<open>Token values\<close>

definition MaxPlausibleTokens :: int where "MaxPlausibleTokens = 2000000"

definition ClampPlausibleTokens :: "int \<Rightarrow> int" where
  "ClampPlausibleTokens v =
     (if v < 0 then 0 else if v > MaxPlausibleTokens then MaxPlausibleTokens else v)"

definition floorNegative :: "int \<Rightarrow> int" where
  "floorNegative v = (if v < 0 then 0 else v)"

definition UsageSourceIsSessionSummary :: "string \<Rightarrow> bool" where
  "UsageSourceIsSessionSummary source =
     (source = ''session'' \<or> source = ''droid-settings'' \<or> source = ''shutdown'')"

definition UsageTokenValues ::
  "(string \<Rightarrow> string \<Rightarrow> int) \<Rightarrow> string \<Rightarrow> string \<Rightarrow> int \<times> int \<times> int \<times> int \<Rightarrow> int \<times> int \<times> int \<times> int" where
  "UsageTokenValues usage_int source tokenJSON toks =
     (let (i, out, cc, cr) =
            (if source = ''message''
             then (usage_int tokenJSON ''input_tokens'', usage_int tokenJSON ''output_tokens'',
                   usage_int tokenJSON ''cache_creation_input_tokens'',
                   usage_int tokenJSON ''cache_read_input_tokens'')
             else toks)
      in if UsageSourceIsSessionSummary source
         then (floorNegative i, floorNegative out, floorNegative cc, floorNegative cr)
         else (ClampPlausibleTokens i, ClampPlausibleTokens out,
               ClampPlausibleTokens cc, ClampPlausibleTokens cr))"

interpretation plausible: clamping ClampPlausibleTokens "\<lambda>v. 0 \<le> v \<and> v \<le> MaxPlausibleTokens"
  by unfold_locales (auto simp: ClampPlausibleTokens_def MaxPlausibleTokens_def)

interpretation floored: clamping floorNegative "\<lambda>v. 0 \<le> v"
  by unfold_locales (auto simp: floorNegative_def)

text \<open>
  Every normalised token count is non-negative, a row-level one is at most two million,
  and a plausible stored count is passed on unchanged whatever the JSON reader does.
\<close>

theorem UsageTokenValues_bounds:
  "(case UsageTokenValues usage_int source json toks of (i, out, cc, cr) \<Rightarrow>
      0 \<le> i \<and> 0 \<le> out \<and> 0 \<le> cc \<and> 0 \<le> cr
      \<and> (UsageSourceIsSessionSummary source \<or>
           max (max i out) (max cc cr) \<le> MaxPlausibleTokens)
      \<and> (case toks of (a, b, c, d) \<Rightarrow>
           source \<noteq> ''message'' \<and> 0 \<le> min (min a b) (min c d)
             \<and> max (max a b) (max c d) \<le> MaxPlausibleTokens \<longrightarrow> (i, out, cc, cr) = toks))"
proof -
  note c = plausible.clamp_inside plausible.clamp_id floored.clamp_inside floored.clamp_id
  show ?thesis
    by (cases toks) (auto simp: UsageTokenValues_def Let_def c)
qed

theorem UsageTokenValues_bounds_witness:
  "UsageTokenValues (\<lambda>_ _. -1) ''event'' [] (5, 6, 7, 2000000) = (5, 6, 7, 2000000)"
  using UsageTokenValues_bounds
    [where usage_int = "\<lambda>_ _. -1" and source = "''event''" and json = "[]" and toks = "(5, 6, 7, 2000000)"]
  by (auto simp: MaxPlausibleTokens_def split: prod.splits)

record SessionCoverageCandidate =
  scc_ID :: string
  scc_TotalOutputTokens :: int
  scc_PeakContextTokens :: int
  scc_HasTotal :: bool
  scc_HasPeak :: bool

record SessionCoverageUpdate =
  scu_ID :: string
  scu_HasTotal :: bool
  scu_HasPeak :: bool

text \<open>\<open>msgCoverage\<close> maps a session to (has context, has output); a missing key reads as false.\<close>

fun ComputeSessionCoverageUpdates ::
  "SessionCoverageCandidate list \<Rightarrow> (string \<rightharpoonup> bool \<times> bool) \<Rightarrow> SessionCoverageUpdate list" where
  "ComputeSessionCoverageUpdates [] msgCoverage = []"
| "ComputeSessionCoverageUpdates (c # cs) msgCoverage =
     (let (cov0, cov1) = (case msgCoverage (scc_ID c) of None \<Rightarrow> (False, False) | Some v \<Rightarrow> v);
          newTotal = (scc_HasTotal c \<or> scc_TotalOutputTokens c \<noteq> 0 \<or> cov1);
          newPeak = (scc_HasPeak c \<or> scc_PeakContextTokens c \<noteq> 0 \<or> cov0)
      in if newTotal = scc_HasTotal c \<and> newPeak = scc_HasPeak c
         then ComputeSessionCoverageUpdates cs msgCoverage
         else \<lparr> scu_ID = scc_ID c, scu_HasTotal = newTotal, scu_HasPeak = newPeak \<rparr>
              # ComputeSessionCoverageUpdates cs msgCoverage)"

definition apply_update :: "SessionCoverageUpdate list \<Rightarrow> SessionCoverageCandidate \<Rightarrow> SessionCoverageCandidate" where
  "apply_update us c =
     (case find (\<lambda>u. scu_ID u = scc_ID c) us of
        None \<Rightarrow> c
      | Some u \<Rightarrow> c\<lparr>scc_HasTotal := scu_HasTotal u, scc_HasPeak := scu_HasPeak u\<rparr>)"

section \<open>Rows\<close>

record ToolResultEvent =
  tre_ToolUseID :: string
  tre_AgentID :: string
  tre_SubagentSessionID :: string
  tre_Source :: string
  tre_Status :: string
  tre_Content :: string
  tre_ContentLength :: int
  tre_Timestamp :: string
  tre_EventIndex :: int

record ToolResult =
  tr_ToolUseID :: string
  tr_ContentLength :: int
  tr_ContentRaw :: string

record ToolCall =
  tc_MessageID :: int
  tc_SessionID :: string
  tc_ToolName :: string
  tc_Category :: string
  tc_ToolUseID :: string
  tc_InputJSON :: string
  tc_SkillName :: string
  tc_ResultContentLength :: int
  tc_ResultContent :: string
  tc_SubagentSessionID :: string
  tc_ResultEvents :: "ToolResultEvent list"

record Message =
  m_ID :: int
  m_SessionID :: string
  m_Ordinal :: int
  m_Role :: string
  m_Content :: string
  m_ThinkingText :: string
  m_Timestamp :: string
  m_HasThinking :: bool
  m_HasToolUse :: bool
  m_ContentLength :: int
  m_Model :: string
  m_TokenUsage :: string
  m_ContextTokens :: int
  m_OutputTokens :: int
  m_HasContextTokens :: bool
  m_HasOutputTokens :: bool
  m_ClaudeMessageID :: string
  m_ClaudeRequestID :: string
  m_ToolCalls :: "ToolCall list"
  m_ToolResults :: "ToolResult list"
  m_IsSystem :: bool
  m_SourceType :: string
  m_SourceSubtype :: string
  m_SourceUUID :: string
  m_SourceParentUUID :: string
  m_IsSidechain :: bool
  m_IsCompactBoundary :: bool

record UsageEvent =
  ue_ID :: int
  ue_SessionID :: string
  ue_MessageOrdinal :: "int option"
  ue_Source :: string
  ue_Model :: string
  ue_InputTokens :: int
  ue_OutputTokens :: int
  ue_CacheCreationInputTokens :: int
  ue_CacheReadInputTokens :: int
  ue_ReasoningTokens :: int
  ue_CostUSD :: "rat option"
  ue_CostStatus :: string
  ue_CostSource :: string
  ue_OccurredAt :: string
  ue_DedupKey :: string

text \<open>The fields of \<open>db.Session\<close> that validation touches.\<close>

record Session =
  s_Project :: string
  s_Machine :: string
  s_Agent :: string
  s_Cwd :: string
  s_GitBranch :: string
  s_SourceSessionID :: string
  s_SourceVersion :: string
  s_FirstMessage :: "string option"
  s_SessionName :: "string option"
  s_TerminationStatus :: "string option"
  s_StartedAt :: "string option"
  s_EndedAt :: "string option"

record ValidationStats =
  vs_ControlCharsStripped :: nat
  vs_ModelClamped :: nat
  vs_TokensClamped :: nat
  vs_RoleCoerced :: nat
  vs_TimestampsBlanked :: nat

definition no_stats :: ValidationStats where
  "no_stats = \<lparr> vs_ControlCharsStripped = 0, vs_ModelClamped = 0, vs_TokensClamped = 0,
     vs_RoleCoerced = 0, vs_TimestampsBlanked = 0 \<rparr>"

definition stats_add :: "ValidationStats \<Rightarrow> ValidationStats \<Rightarrow> ValidationStats" where
  "stats_add s t =
     \<lparr> vs_ControlCharsStripped = vs_ControlCharsStripped s + vs_ControlCharsStripped t,
       vs_ModelClamped = vs_ModelClamped s + vs_ModelClamped t,
       vs_TokensClamped = vs_TokensClamped s + vs_TokensClamped t,
       vs_RoleCoerced = vs_RoleCoerced s + vs_RoleCoerced t,
       vs_TimestampsBlanked = vs_TimestampsBlanked s + vs_TimestampsBlanked t \<rparr>"

definition stats_Empty :: "ValidationStats \<Rightarrow> bool" where
  "stats_Empty s = (s = no_stats)"

section \<open>Fields\<close>

definition ValidRole :: "string \<Rightarrow> bool" where
  "ValidRole role =
     (role = [] \<or> role = ''user'' \<or> role = ''assistant'' \<or> role = ''system'' \<or> role = ''tool'')"

definition MaxModelLen :: nat where "MaxModelLen = 128"
definition minPlausibleYear :: int where "minPlausibleYear = 2000"
definition maxPlausibleYear :: int where "maxPlausibleYear = 2100"

definition sanitizeStringField :: "string \<Rightarrow> ValidationStats \<Rightarrow> string \<times> ValidationStats" where
  "sanitizeStringField v st =
     (let clean = SanitizeUTF8 v in
      if clean = v then (v, st)
      else (clean, st\<lparr>vs_ControlCharsStripped := vs_ControlCharsStripped st + 1\<rparr>))"

definition sanitizeStringPtrField :: "string option \<Rightarrow> ValidationStats \<Rightarrow> string option \<times> ValidationStats" where
  "sanitizeStringPtrField v st =
     (case v of None \<Rightarrow> (None, st)
      | Some x \<Rightarrow> (case sanitizeStringField x st of (y, st1) \<Rightarrow> (Some y, st1)))"

definition ClampModel :: "string \<Rightarrow> string \<times> bool" where
  "ClampModel model =
     (if length model \<le> MaxModelLen then (model, False)
      else (take (rune_cut model MaxModelLen) model, True))"

definition clampModelField :: "string \<Rightarrow> ValidationStats \<Rightarrow> string \<times> ValidationStats" where
  "clampModelField v st =
     (case ClampModel v of
        (m, changed) \<Rightarrow> (m, if changed then st\<lparr>vs_ModelClamped := vs_ModelClamped st + 1\<rparr> else st))"

definition clampTokens :: "int \<Rightarrow> int \<times> bool" where
  "clampTokens v =
     (let clamped = ClampPlausibleTokens v in if clamped = v then (v, False) else (clamped, True))"

definition clampUsageEventTokens :: "string \<Rightarrow> int \<Rightarrow> int \<times> bool" where
  "clampUsageEventTokens source v =
     (if UsageSourceIsSessionSummary source
      then (if v < 0 then (0, True) else (v, False))
      else clampTokens v)"

definition countTokens :: "int \<times> bool \<Rightarrow> ValidationStats \<Rightarrow> int \<times> ValidationStats" where
  "countTokens r st =
     (fst r, if snd r then st\<lparr>vs_TokensClamped := vs_TokensClamped st + 1\<rparr> else st)"

definition BlankImplausibleTimestamp :: "(string \<Rightarrow> int option) \<Rightarrow> string \<Rightarrow> string \<times> bool" where
  "BlankImplausibleTimestamp parse_year v =
     (if v = [] then (v, False)
      else (case parse_year v of
              None \<Rightarrow> ([], True)
            | Some year \<Rightarrow>
                if year \<ge> minPlausibleYear \<and> year \<le> maxPlausibleYear then (v, False)
                else ([], True)))"

definition blankField :: "(string \<Rightarrow> int option) \<Rightarrow> string \<Rightarrow> ValidationStats \<Rightarrow> string \<times> ValidationStats" where
  "blankField parse_year v st =
     (case BlankImplausibleTimestamp parse_year v of
        (t, changed) \<Rightarrow> (t, if changed then st\<lparr>vs_TimestampsBlanked := vs_TimestampsBlanked st + 1\<rparr> else st))"

definition BlankImplausibleTimestampPtr ::
  "(string \<Rightarrow> int option) \<Rightarrow> string option \<Rightarrow> string option \<times> bool" where
  "BlankImplausibleTimestampPtr parse_year v =
     (case v of None \<Rightarrow> (None, False)
      | Some x \<Rightarrow> if \<not> snd (BlankImplausibleTimestamp parse_year x) then (v, False) else (None, True))"

definition blankPtrField ::
  "(string \<Rightarrow> int option) \<Rightarrow> string option \<Rightarrow> ValidationStats \<Rightarrow> string option \<times> ValidationStats" where
  "blankPtrField parse_year v st =
     (case BlankImplausibleTimestampPtr parse_year v of
        (next, changed) \<Rightarrow>
          (if changed then next else v,
           if changed then st\<lparr>vs_TimestampsBlanked := vs_TimestampsBlanked st + 1\<rparr> else st))"

definition adjustContentLength :: "int \<Rightarrow> int \<Rightarrow> int \<Rightarrow> int" where
  "adjustContentLength len removed minimum =
     (if removed \<le> 0 then len else if len - removed < minimum then minimum else len - removed)"

section \<open>Rows sanitised field by field\<close>

definition sanitizeToolResultEvent ::
  "(string \<Rightarrow> int option) \<Rightarrow> ToolResultEvent \<Rightarrow> ToolResultEvent \<times> ValidationStats" where
  "sanitizeToolResultEvent parse_year e =
     (let (a, st) = sanitizeStringField (tre_ToolUseID e) no_stats;
          (b, st) = sanitizeStringField (tre_AgentID e) st;
          (c, st) = sanitizeStringField (tre_SubagentSessionID e) st;
          (d, st) = sanitizeStringField (tre_Source e) st;
          (f, st) = sanitizeStringField (tre_Status e) st;
          (content, st) = sanitizeStringField (tre_Content e) st;
          len = adjustContentLength (tre_ContentLength e)
                  (int (length (tre_Content e)) - int (length content)) 0;
          (ts, st) = blankField parse_year (tre_Timestamp e) st
      in (e\<lparr>tre_ToolUseID := a, tre_AgentID := b, tre_SubagentSessionID := c, tre_Source := d,
            tre_Status := f, tre_Content := content, tre_ContentLength := len, tre_Timestamp := ts\<rparr>, st))"

text \<open>A loop over a slice that sanitises each element and adds up the counters.\<close>

fun sanitize_list ::
  "('a \<Rightarrow> 'a \<times> ValidationStats) \<Rightarrow> 'a list \<Rightarrow> ValidationStats \<Rightarrow> 'a list \<times> ValidationStats" where
  "sanitize_list f [] st = ([], st)"
| "sanitize_list f (x # xs) st =
     (let (y, st1) = f x; (ys, st2) = sanitize_list f xs (stats_add st st1) in (y # ys, st2))"

definition sanitizeToolCall ::
  "(string \<Rightarrow> int option) \<Rightarrow> ToolCall \<Rightarrow> ToolCall \<times> ValidationStats" where
  "sanitizeToolCall parse_year call =
     (let (a, st) = sanitizeStringField (tc_ToolName call) no_stats;
          (b, st) = sanitizeStringField (tc_Category call) st;
          (c, st) = sanitizeStringField (tc_ToolUseID call) st;
          (d, st) = sanitizeStringField (tc_InputJSON call) st;
          (f, st) = sanitizeStringField (tc_SkillName call) st;
          (g, st) = sanitizeStringField (tc_SubagentSessionID call) st;
          (content, st) = sanitizeStringField (tc_ResultContent call) st;
          len = adjustContentLength (tc_ResultContentLength call)
                  (int (length (tc_ResultContent call)) - int (length content)) 0;
          (evs, st) = sanitize_list (sanitizeToolResultEvent parse_year) (tc_ResultEvents call) st
      in (call\<lparr>tc_ToolName := a, tc_Category := b, tc_ToolUseID := c, tc_InputJSON := d,
            tc_SkillName := f, tc_SubagentSessionID := g, tc_ResultContent := content,
            tc_ResultContentLength := len, tc_ResultEvents := evs\<rparr>, st))"

text \<open>The body of the loop over \<open>m.ToolResults\<close>.\<close>

definition sanitizeToolResult :: "ToolResult \<Rightarrow> ToolResult \<times> ValidationStats" where
  "sanitizeToolResult t =
     (let (a, st) = sanitizeStringField (tr_ToolUseID t) no_stats;
          (raw, st) = sanitizeStringField (tr_ContentRaw t) st;
          len = adjustContentLength (tr_ContentLength t)
                  (int (length (tr_ContentRaw t)) - int (length raw)) 0
      in (t\<lparr>tr_ToolUseID := a, tr_ContentRaw := raw, tr_ContentLength := len\<rparr>, st))"

text \<open>
  \<open>m.ContentLength\<close> after the content lost \<open>removed\<close> bytes, and after the thinking text did:
  the second adjustment never goes below the length of the content itself.
\<close>

definition contentLength_after_content :: "int \<Rightarrow> int \<Rightarrow> int" where
  "contentLength_after_content len removed =
     (if removed > 0 then (if len - removed < 0 then 0 else len - removed) else len)"

definition contentLength_after_thinking :: "int \<Rightarrow> int \<Rightarrow> int \<Rightarrow> int" where
  "contentLength_after_thinking len removed contentLen =
     (if removed > 0
      then (let excess = len - contentLen in
            if excess > 0 then len - (if removed > excess then excess else removed) else len)
      else len)"

definition SanitizeMessage :: "(string \<Rightarrow> int option) \<Rightarrow> Message \<Rightarrow> Message \<times> ValidationStats" where
  "SanitizeMessage parse_year m =
     (let (role, st) = (if \<not> ValidRole (m_Role m)
                        then ([], no_stats\<lparr>vs_RoleCoerced := 1\<rparr>) else (m_Role m, no_stats));
          (content, st) = sanitizeStringField (m_Content m) st;
          len1 = contentLength_after_content (m_ContentLength m)
                   (int (length (m_Content m)) - int (length content));
          (thinking, st) = sanitizeStringField (m_ThinkingText m) st;
          len2 = contentLength_after_thinking len1
                   (int (length (m_ThinkingText m)) - int (length thinking)) (int (length content));
          (a, st) = sanitizeStringField (m_ClaudeMessageID m) st;
          (b, st) = sanitizeStringField (m_ClaudeRequestID m) st;
          (c, st) = sanitizeStringField (m_SourceType m) st;
          (d, st) = sanitizeStringField (m_SourceSubtype m) st;
          (f, st) = sanitizeStringField (m_SourceUUID m) st;
          (g, st) = sanitizeStringField (m_SourceParentUUID m) st;
          (model, st) = sanitizeStringField (m_Model m) st;
          (model, st) = clampModelField model st;
          (ctx, st) = countTokens (clampTokens (m_ContextTokens m)) st;
          (out, st) = countTokens (clampTokens (m_OutputTokens m)) st;
          (ts, st) = blankField parse_year (m_Timestamp m) st;
          (calls, st) = sanitize_list (sanitizeToolCall parse_year) (m_ToolCalls m) st;
          (results, st) = sanitize_list sanitizeToolResult (m_ToolResults m) st
      in (m\<lparr>m_Role := role, m_Content := content, m_ContentLength := len2, m_ThinkingText := thinking,
            m_ClaudeMessageID := a, m_ClaudeRequestID := b, m_SourceType := c, m_SourceSubtype := d,
            m_SourceUUID := f, m_SourceParentUUID := g, m_Model := model, m_ContextTokens := ctx,
            m_OutputTokens := out, m_Timestamp := ts, m_ToolCalls := calls, m_ToolResults := results\<rparr>,
          st))"

definition SanitizeUsageEvent :: "(string \<Rightarrow> int option) \<Rightarrow> UsageEvent \<Rightarrow> UsageEvent \<times> ValidationStats" where
  "SanitizeUsageEvent parse_year e =
     (let (source, st) = sanitizeStringField (ue_Source e) no_stats;
          (a, st) = sanitizeStringField (ue_CostStatus e) st;
          (b, st) = sanitizeStringField (ue_CostSource e) st;
          (c, st) = sanitizeStringField (ue_DedupKey e) st;
          (model, st) = sanitizeStringField (ue_Model e) st;
          (model, st) = clampModelField model st;
          (i, st) = countTokens (clampUsageEventTokens source (ue_InputTokens e)) st;
          (out, st) = countTokens (clampUsageEventTokens source (ue_OutputTokens e)) st;
          (cc, st) = countTokens (clampUsageEventTokens source (ue_CacheCreationInputTokens e)) st;
          (cr, st) = countTokens (clampUsageEventTokens source (ue_CacheReadInputTokens e)) st;
          (rs, st) = countTokens (clampUsageEventTokens source (ue_ReasoningTokens e)) st;
          (ts, st) = blankField parse_year (ue_OccurredAt e) st
      in (e\<lparr>ue_Source := source, ue_CostStatus := a, ue_CostSource := b, ue_DedupKey := c,
            ue_Model := model, ue_InputTokens := i, ue_OutputTokens := out,
            ue_CacheCreationInputTokens := cc, ue_CacheReadInputTokens := cr,
            ue_ReasoningTokens := rs, ue_OccurredAt := ts\<rparr>, st))"

definition SanitizeSession :: "(string \<Rightarrow> int option) \<Rightarrow> Session \<Rightarrow> Session \<times> ValidationStats" where
  "SanitizeSession parse_year s =
     (let (a, st) = sanitizeStringField (s_Project s) no_stats;
          (b, st) = sanitizeStringField (s_Machine s) st;
          (c, st) = sanitizeStringField (s_Agent s) st;
          (d, st) = sanitizeStringField (s_Cwd s) st;
          (f, st) = sanitizeStringField (s_GitBranch s) st;
          (g, st) = sanitizeStringField (s_SourceSessionID s) st;
          (h, st) = sanitizeStringField (s_SourceVersion s) st;
          (i, st) = sanitizeStringPtrField (s_FirstMessage s) st;
          (j, st) = sanitizeStringPtrField (s_SessionName s) st;
          (k, st) = sanitizeStringPtrField (s_TerminationStatus s) st;
          (l, st) = blankPtrField parse_year (s_StartedAt s) st;
          (n, st) = blankPtrField parse_year (s_EndedAt s) st
      in (s\<lparr>s_Project := a, s_Machine := b, s_Agent := c, s_Cwd := d, s_GitBranch := f,
            s_SourceSessionID := g, s_SourceVersion := h, s_FirstMessage := i, s_SessionName := j,
            s_TerminationStatus := k, s_StartedAt := l, s_EndedAt := n\<rparr>, st))"

definition ValidateAndSanitize ::
  "(string \<Rightarrow> int option) \<Rightarrow> Session option \<Rightarrow> Message list \<Rightarrow> UsageEvent list
    \<Rightarrow> (Session option \<times> Message list \<times> UsageEvent list) \<times> ValidationStats" where
  "ValidateAndSanitize parse_year s msgs events =
     (let (s', st) = (case s of None \<Rightarrow> (None, no_stats)
                      | Some x \<Rightarrow> (let (y, t) = SanitizeSession parse_year x in (Some y, stats_add no_stats t)));
          (ms, st) = sanitize_list (SanitizeMessage parse_year) msgs st;
          (es, st) = sanitize_list (SanitizeUsageEvent parse_year) events st
      in ((s', ms, es), st))"

section \<open>The contract\<close>

definition sane_model :: "string \<Rightarrow> bool" where
  "sane_model v \<longleftrightarrow> clean_text v \<and> length v \<le> MaxModelLen"

definition sane_time :: "(string \<Rightarrow> int option) \<Rightarrow> string \<Rightarrow> bool" where
  "sane_time parse_year v \<longleftrightarrow> v = [] \<or>
     (\<exists>y. parse_year v = Some y \<and> minPlausibleYear \<le> y \<and> y \<le> maxPlausibleYear)"

definition sane_tokens :: "int \<Rightarrow> bool" where
  "sane_tokens v \<longleftrightarrow> 0 \<le> v \<and> v \<le> MaxPlausibleTokens"

definition sane_event :: "(string \<Rightarrow> int option) \<Rightarrow> ToolResultEvent \<Rightarrow> bool" where
  "sane_event parse_year e \<longleftrightarrow>
     clean_text (tre_ToolUseID e) \<and> clean_text (tre_AgentID e) \<and> clean_text (tre_SubagentSessionID e)
   \<and> clean_text (tre_Source e) \<and> clean_text (tre_Status e) \<and> clean_text (tre_Content e)
   \<and> sane_time parse_year (tre_Timestamp e)"

definition sane_call :: "(string \<Rightarrow> int option) \<Rightarrow> ToolCall \<Rightarrow> bool" where
  "sane_call parse_year c \<longleftrightarrow>
     clean_text (tc_ToolName c) \<and> clean_text (tc_Category c) \<and> clean_text (tc_ToolUseID c)
   \<and> clean_text (tc_InputJSON c) \<and> clean_text (tc_SkillName c) \<and> clean_text (tc_SubagentSessionID c)
   \<and> clean_text (tc_ResultContent c) \<and> (\<forall>e \<in> set (tc_ResultEvents c). sane_event parse_year e)"

definition sane_result :: "ToolResult \<Rightarrow> bool" where
  "sane_result t \<longleftrightarrow> clean_text (tr_ToolUseID t) \<and> clean_text (tr_ContentRaw t)"

definition sane_message :: "(string \<Rightarrow> int option) \<Rightarrow> Message \<Rightarrow> bool" where
  "sane_message parse_year m \<longleftrightarrow>
     ValidRole (m_Role m) \<and> clean_text (m_Content m) \<and> clean_text (m_ThinkingText m)
   \<and> clean_text (m_ClaudeMessageID m) \<and> clean_text (m_ClaudeRequestID m)
   \<and> clean_text (m_SourceType m) \<and> clean_text (m_SourceSubtype m) \<and> clean_text (m_SourceUUID m)
   \<and> clean_text (m_SourceParentUUID m) \<and> sane_model (m_Model m)
   \<and> sane_tokens (m_ContextTokens m) \<and> sane_tokens (m_OutputTokens m)
   \<and> sane_time parse_year (m_Timestamp m)
   \<and> (\<forall>c \<in> set (m_ToolCalls m). sane_call parse_year c) \<and> (\<forall>t \<in> set (m_ToolResults m). sane_result t)"

definition sane_usage_tokens :: "string \<Rightarrow> int \<Rightarrow> bool" where
  "sane_usage_tokens source v \<longleftrightarrow>
     0 \<le> v \<and> (UsageSourceIsSessionSummary source \<or> v \<le> MaxPlausibleTokens)"

definition sane_usage :: "(string \<Rightarrow> int option) \<Rightarrow> UsageEvent \<Rightarrow> bool" where
  "sane_usage parse_year e \<longleftrightarrow>
     clean_text (ue_Source e) \<and> clean_text (ue_CostStatus e) \<and> clean_text (ue_CostSource e)
   \<and> clean_text (ue_DedupKey e) \<and> sane_model (ue_Model e)
   \<and> (\<forall>v \<in> {ue_InputTokens e, ue_OutputTokens e, ue_CacheCreationInputTokens e,
              ue_CacheReadInputTokens e, ue_ReasoningTokens e}. sane_usage_tokens (ue_Source e) v)
   \<and> sane_time parse_year (ue_OccurredAt e)"

definition sane_ptr :: "('a \<Rightarrow> bool) \<Rightarrow> 'a option \<Rightarrow> bool" where
  "sane_ptr P v \<longleftrightarrow> (\<forall>x. v = Some x \<longrightarrow> P x)"

definition sane_session :: "(string \<Rightarrow> int option) \<Rightarrow> Session \<Rightarrow> bool" where
  "sane_session parse_year s \<longleftrightarrow>
     clean_text (s_Project s) \<and> clean_text (s_Machine s) \<and> clean_text (s_Agent s) \<and> clean_text (s_Cwd s)
   \<and> clean_text (s_GitBranch s) \<and> clean_text (s_SourceSessionID s) \<and> clean_text (s_SourceVersion s)
   \<and> sane_ptr clean_text (s_FirstMessage s) \<and> sane_ptr clean_text (s_SessionName s)
   \<and> sane_ptr clean_text (s_TerminationStatus s)
   \<and> sane_ptr (sane_time parse_year) (s_StartedAt s) \<and> sane_ptr (sane_time parse_year) (s_EndedAt s)"

section \<open>A sanitiser and its contract\<close>

text \<open>
  A sanitiser with its contract: what it returns meets the contract, and what already meets
  it comes back unchanged with no counter moved. The loop over a slice inherits this.
\<close>

locale sanitizer =
  fixes san :: "'a \<Rightarrow> 'a \<times> ValidationStats" and sane :: "'a \<Rightarrow> bool"
  assumes sane_san: "sane (fst (san x))"
    and san_id: "sane x \<Longrightarrow> san x = (x, no_stats)"
begin

lemma san_idem: "san (fst (san x)) = (fst (san x), no_stats)"
  by (simp add: san_id sane_san)

lemma list_sane: "\<forall>x \<in> set (fst (sanitize_list san xs st)). sane x"
  by (induction xs arbitrary: st) (auto simp: Let_def split_beta sane_san)

lemma list_id: "\<forall>x \<in> set xs. sane x \<Longrightarrow> sanitize_list san xs st = (xs, st)"
  by (induction xs arbitrary: st) (auto simp: san_id stats_add_def no_stats_def)

lemma list_idem: "sanitize_list san (fst (sanitize_list san xs st)) st' = (fst (sanitize_list san xs st), st')"
  by (rule list_id) (use list_sane in blast)

end

lemma field_fst [simp]: "fst (sanitizeStringField v st) = SanitizeUTF8 v"
  by (simp add: sanitizeStringField_def Let_def)

lemma field_clean [simp]: "clean_text v \<Longrightarrow> sanitizeStringField v st = (v, st)"
  by (simp add: sanitizeStringField_def SanitizeUTF8_id)

lemma clean_SanitizeUTF8 [simp]: "clean_text (SanitizeUTF8 v)"
  by (rule SanitizeUTF8_clean)

lemma ptr_sane [simp]: "sane_ptr clean_text (fst (sanitizeStringPtrField v st))"
  by (auto simp: sane_ptr_def sanitizeStringPtrField_def split_beta split: option.splits)

lemma ptr_clean [simp]: "sane_ptr clean_text v \<Longrightarrow> sanitizeStringPtrField v st = (v, st)"
  by (cases v) (auto simp: sane_ptr_def sanitizeStringPtrField_def)

lemma model_sane [simp]: "clean_text v \<Longrightarrow> sane_model (fst (clampModelField v st))"
  using rune_cut_le [of v MaxModelLen]
  by (auto simp: clampModelField_def ClampModel_def sane_model_def not_le take_rune_cut_clean)

lemma model_id [simp]: "sane_model v \<Longrightarrow> clampModelField v st = (v, st)"
  by (simp add: clampModelField_def ClampModel_def sane_model_def)

lemma sane_model_clean [simp]: "sane_model v \<Longrightarrow> clean_text v"
  by (simp add: sane_model_def)

lemma tokens_sane [simp]: "sane_tokens (fst (countTokens (clampTokens v) st))"
  using plausible.clamp_inside [of v]
  by (auto simp: countTokens_def clampTokens_def Let_def sane_tokens_def)

lemma tokens_id [simp]: "sane_tokens v \<Longrightarrow> countTokens (clampTokens v) st = (v, st)"
  by (simp add: countTokens_def clampTokens_def Let_def sane_tokens_def plausible.clamp_id)

lemma usage_tokens_sane [simp]: "sane_usage_tokens s (fst (countTokens (clampUsageEventTokens s v) st))"
  using plausible.clamp_inside [of v]
  by (auto simp: countTokens_def clampUsageEventTokens_def clampTokens_def Let_def sane_usage_tokens_def)

lemma usage_tokens_id [simp]: "sane_usage_tokens s v \<Longrightarrow> countTokens (clampUsageEventTokens s v) st = (v, st)"
  by (auto simp: countTokens_def clampUsageEventTokens_def clampTokens_def Let_def sane_usage_tokens_def
      plausible.clamp_id)

lemma time_sane [simp]: "sane_time py (fst (blankField py v st))"
  by (auto simp: blankField_def BlankImplausibleTimestamp_def sane_time_def split: option.splits)

lemma time_id [simp]: "sane_time py v \<Longrightarrow> blankField py v st = (v, st)"
  by (auto simp: blankField_def BlankImplausibleTimestamp_def sane_time_def)

lemma time_ptr_sane [simp]: "sane_ptr (sane_time py) (fst (blankPtrField py v st))"
  by (auto simp: blankPtrField_def BlankImplausibleTimestampPtr_def BlankImplausibleTimestamp_def
      sane_ptr_def sane_time_def split: option.splits if_splits)

lemma time_ptr_id [simp]: "sane_ptr (sane_time py) v \<Longrightarrow> blankPtrField py v st = (v, st)"
  by (cases v) (auto simp: blankPtrField_def BlankImplausibleTimestampPtr_def BlankImplausibleTimestamp_def
      sane_ptr_def sane_time_def)

lemma adjust_0 [simp]: "adjustContentLength len 0 m = len"
  by (simp add: adjustContentLength_def)

lemma after_content_0 [simp]: "contentLength_after_content len 0 = len"
  by (simp add: contentLength_after_content_def)

lemma after_thinking_0 [simp]: "contentLength_after_thinking len 0 c = len"
  by (simp add: contentLength_after_thinking_def)

interpretation event_san: sanitizer "sanitizeToolResultEvent py" "sane_event py" for py
  by unfold_locales (simp_all add: sanitizeToolResultEvent_def sane_event_def Let_def split_beta)

interpretation call_san: sanitizer "sanitizeToolCall py" "sane_call py" for py
  by unfold_locales
    (use event_san.list_sane in \<open>simp_all add: sanitizeToolCall_def sane_call_def Let_def split_beta
      event_san.list_id\<close>)

interpretation result_san: sanitizer sanitizeToolResult sane_result
  by unfold_locales (simp_all add: sanitizeToolResult_def sane_result_def Let_def split_beta)

lemma role_fst: "ValidRole (fst (if \<not> ValidRole r then ([], st1) else (r, st2)))"
  by (simp add: ValidRole_def)

interpretation message_san: sanitizer "SanitizeMessage py" "sane_message py" for py
proof unfold_locales
  fix m
  show "sane_message py (fst (SanitizeMessage py m))"
    using role_fst call_san.list_sane result_san.list_sane
    by (simp add: SanitizeMessage_def sane_message_def Let_def split_beta ValidRole_def)
  assume "sane_message py m"
  then show "SanitizeMessage py m = (m, no_stats)"
    by (simp add: SanitizeMessage_def sane_message_def Let_def split_beta call_san.list_id result_san.list_id)
qed

interpretation usage_san: sanitizer "SanitizeUsageEvent py" "sane_usage py" for py
  by unfold_locales (simp_all add: SanitizeUsageEvent_def sane_usage_def Let_def split_beta)

interpretation session_san: sanitizer "SanitizeSession py" "sane_session py" for py
  by unfold_locales (simp_all add: SanitizeSession_def sane_session_def Let_def split_beta)

text \<open>
  Validation is idempotent and complete: after one pass every session, message and usage
  event meets the contract, and a second pass changes no field and reports empty statistics.
\<close>

theorem ValidateAndSanitize_idempotent:
  "let ((s', ms, es), st) = ValidateAndSanitize parse_year s msgs events in
     (\<forall>x. s' = Some x \<longrightarrow> sane_session parse_year x)
   \<and> (\<forall>m \<in> set ms. sane_message parse_year m) \<and> (\<forall>e \<in> set es. sane_usage parse_year e)
   \<and> ValidateAndSanitize parse_year s' ms es = ((s', ms, es), no_stats)"
proof -
  have zero: "stats_add no_stats no_stats = no_stats" by (simp add: stats_add_def no_stats_def)
  show ?thesis
    using session_san.sane_san message_san.list_sane usage_san.list_sane
    by (cases s)
      (simp_all add: ValidateAndSanitize_def Let_def split_beta message_san.list_idem usage_san.list_idem
        session_san.san_idem zero)
qed

definition dirty_message :: Message where
  "dirty_message =
     \<lparr> m_ID = 0, m_SessionID = [], m_Ordinal = 3, m_Role = ''robot'', m_Content = [CHR ''a'', CHR 0x00],
       m_ThinkingText = [], m_Timestamp = ''0001-01-01T00:00:00Z'', m_HasThinking = False, m_HasToolUse = False,
       m_ContentLength = 2, m_Model = [], m_TokenUsage = [], m_ContextTokens = -5, m_OutputTokens = 0,
       m_HasContextTokens = False, m_HasOutputTokens = False, m_ClaudeMessageID = [],
       m_ClaudeRequestID = [], m_ToolCalls = [], m_ToolResults = [], m_IsSystem = False,
       m_SourceType = [], m_SourceSubtype = [], m_SourceUUID = [], m_SourceParentUUID = [],
       m_IsSidechain = False, m_IsCompactBoundary = False \<rparr>"

theorem ValidateAndSanitize_idempotent_witness:
  "case ValidateAndSanitize (\<lambda>_. Some 1) None [dirty_message] [] of ((s', ms, es), st) \<Rightarrow>
     list_all (sane_message (\<lambda>_. Some 1)) ms \<and>
     ValidateAndSanitize (\<lambda>_. Some 1) s' ms es = ((s', ms, es), no_stats)"
  using ValidateAndSanitize_idempotent [of "\<lambda>_. Some 1" None "[dirty_message]" "[]"]
  by (auto simp: list_all_iff split: prod.splits)

text \<open>
  A clamped model identifier is a prefix of the identifier, cut at a rune boundary: it has
  at most 128 bytes, and clean text stays clean.
\<close>

theorem ClampModel_correct:
  "(case ClampModel v of (m, changed) \<Rightarrow>
      length m \<le> 128 \<and> prefix m v \<and> (changed \<longleftrightarrow> 128 < length v) \<and> (\<not> changed \<longrightarrow> m = v)
      \<and> (clean_text v \<longrightarrow> clean_text m))"
  using rune_cut_le [of v 128]
  by (auto simp: ClampModel_def MaxModelLen_def take_is_prefix take_rune_cut_clean not_le)

theorem ClampModel_correct_witness:
  "fst (ClampModel (replicate 127 (CHR 0x61) @ [CHR 0xC3, CHR 0xA9])) = replicate 127 (CHR 0x61)
   \<and> length (fst (ClampModel (replicate 127 (CHR 0x61) @ [CHR 0xC3, CHR 0xA9]))) \<le> 128"
proof -
  let ?v = "replicate 127 (CHR 0x61) @ [CHR 0xC3, CHR 0xA9]"
  have "rune_cut ?v 128 = 127"
    using rune_cut.simps(2) [of ?v 127] rune_cut.simps(2) [of ?v 126]
    by (simp add: nth_append RuneStart_def between_def byte_def)
  then have "fst (ClampModel ?v) = replicate 127 (CHR 0x61)"
    by (simp add: ClampModel_def MaxModelLen_def)
  moreover have "length (fst (ClampModel ?v)) \<le> 128"
    using ClampModel_correct [of ?v] by (simp add: split_beta)
  ultimately show ?thesis by (rule conjI)
qed

end
