(* ===== verification/Transcript_Diff.thy ===== *)
theory Transcript_Diff
  imports Validate
begin

text \<open>
  When a rewritten transcript counts as changed (\<open>internal/db/messages_diff.go\<close>): messages are
  compared by ordinal, tool calls and result events by position, with the defaults an event
  inherits from its call filled in first.
\<close>

definition transcriptNormalizedToolResultEvent ::
  "ToolResultEvent \<Rightarrow> ToolCall \<Rightarrow> int \<Rightarrow> ToolResultEvent" where
  "transcriptNormalizedToolResultEvent event call index =
     (let e1 = event\<lparr>tre_EventIndex := index\<rparr>;
          e2 = (if tre_ToolUseID e1 = [] then e1\<lparr>tre_ToolUseID := tc_ToolUseID call\<rparr> else e1)
      in if tre_SubagentSessionID e2 = []
         then e2\<lparr>tre_SubagentSessionID := tc_SubagentSessionID call\<rparr> else e2)"

definition transcriptToolResultEventEqual :: "ToolResultEvent \<Rightarrow> ToolResultEvent \<Rightarrow> bool" where
  "transcriptToolResultEventEqual a b =
     (tre_ToolUseID a = tre_ToolUseID b \<and> tre_AgentID a = tre_AgentID b
      \<and> tre_SubagentSessionID a = tre_SubagentSessionID b \<and> tre_Source a = tre_Source b
      \<and> tre_Status a = tre_Status b \<and> tre_Content a = tre_Content b
      \<and> tre_Timestamp a = tre_Timestamp b \<and> tre_EventIndex a = tre_EventIndex b)"

definition transcriptToolCallEqual :: "ToolCall \<Rightarrow> ToolCall \<Rightarrow> bool" where
  "transcriptToolCallEqual a b =
     (if tc_ToolName a \<noteq> tc_ToolName b \<or> tc_Category a \<noteq> tc_Category b
         \<or> tc_ToolUseID a \<noteq> tc_ToolUseID b \<or> tc_InputJSON a \<noteq> tc_InputJSON b
         \<or> tc_SkillName a \<noteq> tc_SkillName b \<or> tc_ResultContent a \<noteq> tc_ResultContent b
         \<or> tc_SubagentSessionID a \<noteq> tc_SubagentSessionID b
         \<or> length (tc_ResultEvents a) \<noteq> length (tc_ResultEvents b)
      then False
      else list_all (\<lambda>i. transcriptToolResultEventEqual
                           (transcriptNormalizedToolResultEvent (tc_ResultEvents a ! i) a (int i))
                           (transcriptNormalizedToolResultEvent (tc_ResultEvents b ! i) b (int i)))
             [0..<length (tc_ResultEvents a)])"

definition transcriptMessageEqual :: "Message \<Rightarrow> Message \<Rightarrow> bool" where
  "transcriptMessageEqual a b =
     (if m_Ordinal a \<noteq> m_Ordinal b \<or> m_Role a \<noteq> m_Role b \<or> m_Content a \<noteq> m_Content b
         \<or> m_ThinkingText a \<noteq> m_ThinkingText b \<or> m_Timestamp a \<noteq> m_Timestamp b
         \<or> m_HasThinking a \<noteq> m_HasThinking b \<or> m_HasToolUse a \<noteq> m_HasToolUse b
         \<or> m_IsSystem a \<noteq> m_IsSystem b \<or> m_Model a \<noteq> m_Model b
         \<or> m_ContextTokens a \<noteq> m_ContextTokens b \<or> m_OutputTokens a \<noteq> m_OutputTokens b
         \<or> m_HasContextTokens a \<noteq> m_HasContextTokens b \<or> m_HasOutputTokens a \<noteq> m_HasOutputTokens b
         \<or> m_SourceSubtype a \<noteq> m_SourceSubtype b \<or> m_IsCompactBoundary a \<noteq> m_IsCompactBoundary b
         \<or> length (m_ToolCalls a) \<noteq> length (m_ToolCalls b)
      then False
      else list_all (\<lambda>i. transcriptToolCallEqual (m_ToolCalls a ! i) (m_ToolCalls b ! i))
             [0..<length (m_ToolCalls a)])"

fun index_by_ordinal :: "(int, Message) gomap \<Rightarrow> Message list \<Rightarrow> (int, Message) gomap option" where
  "index_by_ordinal m [] = Some m"
| "index_by_ordinal m (x # xs) =
     (if map_of m (m_Ordinal x) \<noteq> None then None
      else index_by_ordinal (AList.update (m_Ordinal x) x m) xs)"

fun compare_by_ordinal :: "(int, Message) gomap \<Rightarrow> int list \<Rightarrow> Message list \<Rightarrow> bool" where
  "compare_by_ordinal m seen [] = True"
| "compare_by_ordinal m seen (x # xs) =
     (if m_Ordinal x \<in> set seen then False
      else (case map_of m (m_Ordinal x) of
              None \<Rightarrow> False
            | Some other \<Rightarrow>
                if \<not> transcriptMessageEqual other x then False
                else compare_by_ordinal m (m_Ordinal x # seen) xs))"

definition transcriptMessagesEqual :: "Message list \<Rightarrow> Message list \<Rightarrow> bool" where
  "transcriptMessagesEqual a b =
     (if length a \<noteq> length b then False
      else (case index_by_ordinal [] a of
              None \<Rightarrow> False
            | Some m \<Rightarrow> compare_by_ordinal m [] b))"

section \<open>The element tests are equivalences\<close>

interpretation event_eq: equality_test transcriptToolResultEventEqual
  by unfold_locales (auto simp: transcriptToolResultEventEqual_def)

interpretation call_eq: equality_test transcriptToolCallEqual
proof unfold_locales
  fix a b c
  show "transcriptToolCallEqual a a"
    by (simp add: transcriptToolCallEqual_def list_all_iff event_eq.eqv_refl)
  show "transcriptToolCallEqual b a" if "transcriptToolCallEqual a b"
    using that by (auto simp: transcriptToolCallEqual_def list_all_iff intro: event_eq.eqv_sym split: if_splits)
  show "transcriptToolCallEqual a c" if "transcriptToolCallEqual a b" "transcriptToolCallEqual b c"
    using that by (auto simp: transcriptToolCallEqual_def list_all_iff intro: event_eq.eqv_trans split: if_splits)
qed

lemma calls_all2:
  "length xs = length ys \<Longrightarrow>
     list_all (\<lambda>i. transcriptToolCallEqual (xs ! i) (ys ! i)) [0..<length xs]
       \<longleftrightarrow> list_all2 transcriptToolCallEqual xs ys"
  by (auto simp: list_all_iff list_all2_conv_all_nth)

lemma message_eq_alt:
  "transcriptMessageEqual a b \<longleftrightarrow>
     m_Ordinal a = m_Ordinal b \<and> m_Role a = m_Role b \<and> m_Content a = m_Content b
   \<and> m_ThinkingText a = m_ThinkingText b \<and> m_Timestamp a = m_Timestamp b
   \<and> m_HasThinking a = m_HasThinking b \<and> m_HasToolUse a = m_HasToolUse b
   \<and> m_IsSystem a = m_IsSystem b \<and> m_Model a = m_Model b
   \<and> m_ContextTokens a = m_ContextTokens b \<and> m_OutputTokens a = m_OutputTokens b
   \<and> m_HasContextTokens a = m_HasContextTokens b \<and> m_HasOutputTokens a = m_HasOutputTokens b
   \<and> m_SourceSubtype a = m_SourceSubtype b \<and> m_IsCompactBoundary a = m_IsCompactBoundary b
   \<and> list_all2 transcriptToolCallEqual (m_ToolCalls a) (m_ToolCalls b)"
proof (cases "length (m_ToolCalls a) = length (m_ToolCalls b)")
  case True
  then show ?thesis
    unfolding transcriptMessageEqual_def calls_all2 [OF True] by (simp only: if_bool_eq_conj) blast
next
  case False
  then show ?thesis
    by (auto simp: transcriptMessageEqual_def dest: list_all2_lengthD)
qed

interpretation message_eq: equality_test transcriptMessageEqual
proof unfold_locales
  fix a b c
  show "transcriptMessageEqual a a" by (simp add: message_eq_alt call_eq.all2_refl)
  show "transcriptMessageEqual b a" if "transcriptMessageEqual a b"
    using that unfolding message_eq_alt by (simp add: call_eq.all2_sym)
  show "transcriptMessageEqual a c" if "transcriptMessageEqual a b" "transcriptMessageEqual b c"
    using that unfolding message_eq_alt by (auto intro: call_eq.all2_trans)
qed

section \<open>The transcript test\<close>

lemma index_by_ordinal_Some:
  "index_by_ordinal m xs = Some m' \<longleftrightarrow>
     distinct (map m_Ordinal xs) \<and> (\<forall>x \<in> set xs. map_of m (m_Ordinal x) = None)
     \<and> m' = fold (\<lambda>x. AList.update (m_Ordinal x) x) xs m"
proof (induction m xs rule: index_by_ordinal.induct)
  case (2 m x xs)
  have "(\<forall>y \<in> set xs. map_of (AList.update (m_Ordinal x) x m) (m_Ordinal y) = None) \<longleftrightarrow>
      m_Ordinal x \<notin> m_Ordinal ` set xs \<and> (\<forall>y \<in> set xs. map_of m (m_Ordinal y) = None)"
    unfolding map_of_update by (simp add: image_iff) metis
  with 2 show ?case by auto
qed auto

lemma map_of_fold_update:
  "distinct (map m_Ordinal xs) \<Longrightarrow> map_of (fold (\<lambda>x. AList.update (m_Ordinal x) x) xs m) k =
     (case find (\<lambda>x. m_Ordinal x = k) xs of None \<Rightarrow> map_of m k | Some x \<Rightarrow> Some x)"
proof (induction xs arbitrary: m)
  case (Cons x xs)
  have "find (\<lambda>y. m_Ordinal y = m_Ordinal x) xs = None"
    unfolding find_None_iff using Cons.prems by (metis distinct.simps(2) image_eqI list.set_map list.simps(9))
  with Cons show ?case by (auto simp: map_of_update split: option.splits)
qed simp

lemma compare_by_ordinal_iff:
  "compare_by_ordinal m seen xs \<longleftrightarrow>
     distinct (map m_Ordinal xs) \<and> set (map m_Ordinal xs) \<inter> set seen = {}
     \<and> (\<forall>x \<in> set xs. \<exists>other. map_of m (m_Ordinal x) = Some other \<and> transcriptMessageEqual other x)"
  by (induction m seen xs rule: compare_by_ordinal.induct) (auto split: option.splits)

lemma find_ordinal: "distinct (map m_Ordinal xs) \<Longrightarrow>
    find (\<lambda>x. m_Ordinal x = k) xs = Some y \<longleftrightarrow> y \<in> set xs \<and> m_Ordinal y = k"
  by (induction xs) (auto simp: image_iff)

lemma transcriptMessagesEqual_alt:
  "transcriptMessagesEqual a b \<longleftrightarrow>
     length a = length b \<and> distinct (map m_Ordinal a) \<and> distinct (map m_Ordinal b)
     \<and> (\<forall>y \<in> set b. \<exists>x \<in> set a. transcriptMessageEqual x y)"
proof (cases "distinct (map m_Ordinal a)")
  case True
  let ?m = "fold (\<lambda>x. AList.update (m_Ordinal x) x) a []"
  have "map_of ?m k = Some x \<longleftrightarrow> x \<in> set a \<and> m_Ordinal x = k" for k x
    using map_of_fold_update [OF True, of "[]" k] find_ordinal [OF True, of k x]
    by (auto split: option.splits)
  moreover have "transcriptMessageEqual x y \<Longrightarrow> m_Ordinal x = m_Ordinal y" for x y
    by (simp add: message_eq_alt)
  moreover have "index_by_ordinal [] a = Some ?m"
    using True by (simp add: index_by_ordinal_Some)
  ultimately show ?thesis
    using True by (auto simp: transcriptMessagesEqual_def compare_by_ordinal_iff) blast+
next
  case False
  then have "index_by_ordinal [] a = None"
    using index_by_ordinal_Some [of "[]" a] by (metis option.exhaust)
  with False show ?thesis by (simp add: transcriptMessagesEqual_def)
qed

lemma ordinals_agree:
  assumes "transcriptMessagesEqual a b"
  shows "m_Ordinal ` set a = m_Ordinal ` set b"
proof -
  have l: "length a = length b" "distinct (map m_Ordinal a)" "distinct (map m_Ordinal b)"
    and e: "\<forall>y \<in> set b. \<exists>x \<in> set a. transcriptMessageEqual x y"
    using assms by (auto simp: transcriptMessagesEqual_alt)
  have "m_Ordinal ` set b \<subseteq> m_Ordinal ` set a"
  proof
    fix k assume "k \<in> m_Ordinal ` set b"
    then obtain y where y: "y \<in> set b" "k = m_Ordinal y" by blast
    then obtain x where "x \<in> set a" "transcriptMessageEqual x y" using e by blast
    moreover from this have "k = m_Ordinal x" using y(2) unfolding message_eq_alt by simp
    ultimately show "k \<in> m_Ordinal ` set a" by blast
  qed
  moreover have "card (m_Ordinal ` set b) = card (m_Ordinal ` set a)"
    using l distinct_card [OF l(2)] distinct_card [OF l(3)] by simp
  ultimately show ?thesis
    by (metis card_subset_eq finite_imageI finite_set)
qed

text \<open>
  Two transcripts are equal exactly when both have unique ordinals, the same ordinals, and
  the messages with the same ordinal agree in everything a reader sees; the order in which the
  two slices list their messages does not matter.
\<close>

theorem transcriptMessagesEqual_iff:
  "transcriptMessagesEqual a b \<longleftrightarrow>
     distinct (map m_Ordinal a) \<and> distinct (map m_Ordinal b)
     \<and> m_Ordinal ` set a = m_Ordinal ` set b
     \<and> (\<forall>x \<in> set a. \<forall>y \<in> set b. m_Ordinal x = m_Ordinal y \<longrightarrow> transcriptMessageEqual x y)"
    (is "?l \<longleftrightarrow> ?r")
proof
  assume l: ?l
  then have d: "distinct (map m_Ordinal a)" "distinct (map m_Ordinal b)"
    and e: "\<forall>y \<in> set b. \<exists>x \<in> set a. transcriptMessageEqual x y"
    by (auto simp: transcriptMessagesEqual_alt)
  have "transcriptMessageEqual x y" if xy: "x \<in> set a" "y \<in> set b" "m_Ordinal x = m_Ordinal y" for x y
  proof -
    obtain x' where x': "x' \<in> set a" "transcriptMessageEqual x' y" using e xy(2) by blast
    then have "m_Ordinal x' = m_Ordinal x" using xy(3) by (simp add: message_eq_alt)
    then have "x' = x" using d(1) x'(1) xy(1) by (auto simp: distinct_map dest: inj_onD)
    then show ?thesis using x'(2) by simp
  qed
  then show ?r using d ordinals_agree [OF l] by blast
next
  assume r: ?r
  then have d: "distinct (map m_Ordinal a)" "distinct (map m_Ordinal b)" by blast+
  have "length a = length b"
    using r distinct_card [OF d(1)] distinct_card [OF d(2)] by simp
  moreover have "\<exists>x \<in> set a. transcriptMessageEqual x y" if "y \<in> set b" for y
    using r that by (metis image_iff)
  ultimately show ?l using d by (simp add: transcriptMessagesEqual_alt)
qed

text \<open>
  The transcript test is symmetric and transitive, so comparing a chain of rewrites with
  their neighbours is as good as comparing the ends; it is reflexive exactly on transcripts
  without duplicate ordinals.
\<close>

theorem transcriptMessagesEqual_equivalence:
  "(transcriptMessagesEqual a b \<longrightarrow> transcriptMessagesEqual b a)
   \<and> (transcriptMessagesEqual a b \<and> transcriptMessagesEqual b c \<longrightarrow> transcriptMessagesEqual a c)
   \<and> (transcriptMessagesEqual a a \<longleftrightarrow> distinct (map m_Ordinal a))"
proof (intro conjI impI)
  assume "transcriptMessagesEqual a b"
  then show "transcriptMessagesEqual b a"
    unfolding transcriptMessagesEqual_iff by (metis message_eq.eqv_sym)
next
  assume "transcriptMessagesEqual a b \<and> transcriptMessagesEqual b c"
  then show "transcriptMessagesEqual a c"
    unfolding transcriptMessagesEqual_alt by (metis message_eq.eqv_trans)
next
  show "transcriptMessagesEqual a a \<longleftrightarrow> distinct (map m_Ordinal a)"
    unfolding transcriptMessagesEqual_alt using message_eq.eqv_refl by blast
qed

definition sample_message :: "int \<Rightarrow> string \<Rightarrow> Message" where
  "sample_message ord content =
     \<lparr> m_ID = 0, m_SessionID = [], m_Ordinal = ord, m_Role = ''user'', m_Content = content,
       m_ThinkingText = [], m_Timestamp = [], m_HasThinking = False, m_HasToolUse = False,
       m_ContentLength = 0, m_Model = [], m_TokenUsage = [], m_ContextTokens = 0, m_OutputTokens = 0,
       m_HasContextTokens = False, m_HasOutputTokens = False, m_ClaudeMessageID = [],
       m_ClaudeRequestID = [], m_ToolCalls = [], m_ToolResults = [], m_IsSystem = False,
       m_SourceType = [], m_SourceSubtype = [], m_SourceUUID = [], m_SourceParentUUID = [],
       m_IsSidechain = False, m_IsCompactBoundary = False \<rparr>"

theorem transcriptMessagesEqual_equivalence_witness:
  "transcriptMessagesEqual [sample_message 1 ''a'', sample_message 2 ''b'']
     [sample_message 2 ''b'', sample_message 1 ''a'']
   \<and> transcriptMessagesEqual [sample_message 2 ''b'', sample_message 1 ''a'']
       [sample_message 1 ''a'', sample_message 2 ''b'']"
proof -
  have "transcriptMessagesEqual [sample_message 1 ''a'', sample_message 2 ''b'']
     [sample_message 2 ''b'', sample_message 1 ''a'']"
    by (simp add: transcriptMessagesEqual_alt sample_message_def message_eq_alt)
  then show ?thesis
    using transcriptMessagesEqual_equivalence by blast
qed

theorem transcriptMessagesEqual_iff_witness:
  "transcriptMessagesEqual [sample_message 1 ''a'', sample_message 2 ''b''] [sample_message 2 ''b'', sample_message 1 ''a'']
   \<and> \<not> transcriptMessagesEqual [sample_message 1 ''a'', sample_message 1 ''a''] [sample_message 1 ''a'']"
  by (simp add: transcriptMessagesEqual_iff sample_message_def message_eq_alt insert_commute)

end
