(* ===== verification/Fingerprint.thy ===== *)
theory Fingerprint
  imports Validate
begin

text \<open>
  The data fingerprints that decide whether rows must be pushed again
  (\<open>internal/db/tool_fingerprint.go\<close>, \<open>message_fingerprint.go\<close>, \<open>usage_fingerprint.go\<close>). A hash
  is the bytes written to it so far. \<open>digest\<close> stands for hex SHA-256, \<open>norm_ts\<close> for the parse and
  reformat of a timestamp and \<open>fmt_cost\<close> for \<open>strconv.FormatFloat\<close>; the theorems show that the
  byte stream is a uniquely decodable encoding, so that the fingerprint is exact up to
  collisions of the digest.
\<close>

section \<open>Writing\<close>

text \<open>\<open>binary.BigEndian.PutUint64\<close> of \<open>uint64(int64(value))\<close>.\<close>

definition be_byte :: "int \<Rightarrow> nat \<Rightarrow> char" where
  "be_byte v k = char_of (nat (v mod 2 ^ 64 div 256 ^ k mod 256))"

definition int_bytes :: "int \<Rightarrow> string" where
  "int_bytes v = map (be_byte v) [7, 6, 5, 4, 3, 2, 1, 0]"

definition writeFingerprintInt :: "string \<Rightarrow> int \<Rightarrow> string" where
  "writeFingerprintInt h v = h @ int_bytes v"

definition writeFingerprintString :: "string \<Rightarrow> string \<Rightarrow> string" where
  "writeFingerprintString h s = writeFingerprintInt h (int (length s)) @ s"

definition writeFingerprintBool :: "string \<Rightarrow> bool \<Rightarrow> string" where
  "writeFingerprintBool h b = (if b then writeFingerprintInt h 1 else writeFingerprintInt h 0)"

text \<open>The typed fields of a row, written one after the other.\<close>

datatype field = FInt int | FStr string | FBool bool

fun write_field :: "field \<Rightarrow> string \<Rightarrow> string" where
  "write_field (FInt v) h = writeFingerprintInt h v"
| "write_field (FStr s) h = writeFingerprintString h s"
| "write_field (FBool b) h = writeFingerprintBool h b"

definition write_row :: "field list \<Rightarrow> string \<Rightarrow> string" where
  "write_row fs h = fold write_field fs h"

definition write_rows :: "field list list \<Rightarrow> string \<Rightarrow> string" where
  "write_rows rows h = fold write_row rows (writeFingerprintInt h (int (length rows)))"

section \<open>The rows\<close>

record ToolCallFingerprintRow =
  tcf_MessageOrdinal :: int
  tcf_CallIndex :: int
  tcf_Call :: ToolCall

record ToolResultEventFingerprintRow =
  tef_MessageOrdinal :: int
  tef_CallIndex :: int
  tef_Event :: ToolResultEvent

definition tool_call_fields :: "(string \<Rightarrow> int option) \<Rightarrow> bool \<Rightarrow> ToolCallFingerprintRow \<Rightarrow> field list" where
  "tool_call_fields parse_year sanitize row =
     (let call = (if sanitize then fst (sanitizeToolCall parse_year (tcf_Call row)) else tcf_Call row) in
      [FInt (tcf_MessageOrdinal row), FInt (tcf_CallIndex row), FStr (tc_ToolName call),
       FStr (tc_Category call), FStr (tc_ToolUseID call), FStr (tc_InputJSON call),
       FStr (tc_SkillName call), FInt (tc_ResultContentLength call), FStr (tc_ResultContent call),
       FStr (tc_SubagentSessionID call)])"

definition tool_event_fields ::
  "(string \<Rightarrow> int option) \<Rightarrow> (string \<Rightarrow> string) \<Rightarrow> bool \<Rightarrow> ToolResultEventFingerprintRow \<Rightarrow> field list" where
  "tool_event_fields parse_year norm_ts sanitize row =
     (let event = (if sanitize then fst (sanitizeToolResultEvent parse_year (tef_Event row))
                   else tef_Event row) in
      [FInt (tef_MessageOrdinal row), FInt (tef_CallIndex row), FInt (tre_EventIndex event),
       FStr (tre_ToolUseID event), FStr (tre_AgentID event), FStr (tre_SubagentSessionID event),
       FStr (tre_Source event), FStr (tre_Status event), FStr (tre_Content event),
       FInt (tre_ContentLength event), FStr (norm_ts (tre_Timestamp event))])"

definition ComputeToolDataFingerprint ::
  "(string \<Rightarrow> string) \<Rightarrow> (string \<Rightarrow> int option) \<Rightarrow> (string \<Rightarrow> string) \<Rightarrow>
   ToolCallFingerprintRow list \<Rightarrow> ToolResultEventFingerprintRow list \<Rightarrow> bool \<Rightarrow> string" where
  "ComputeToolDataFingerprint digest parse_year norm_ts calls events sanitize =
     digest (write_rows (map (tool_event_fields parse_year norm_ts sanitize) events)
               (write_rows (map (tool_call_fields parse_year sanitize) calls) []))"

definition message_fields ::
  "(string \<Rightarrow> int option) \<Rightarrow> (string \<Rightarrow> string) \<Rightarrow> bool \<Rightarrow> Message \<Rightarrow> field list" where
  "message_fields parse_year norm_ts sanitize original =
     (let msg = (if sanitize
                 then (let m = fst (SanitizeMessage parse_year original)
                       in m\<lparr>m_TokenUsage := SanitizeUTF8 (m_TokenUsage m)\<rparr>)
                 else original) in
      [FInt (m_Ordinal msg), FStr (m_Role msg), FStr (m_Content msg), FStr (m_ThinkingText msg),
       FStr (norm_ts (m_Timestamp msg)), FBool (m_HasThinking msg), FBool (m_HasToolUse msg),
       FInt (m_ContentLength msg), FBool (m_IsSystem msg), FStr (m_Model msg),
       FStr (m_TokenUsage msg), FInt (m_ContextTokens msg), FInt (m_OutputTokens msg),
       FBool (m_HasContextTokens msg), FBool (m_HasOutputTokens msg), FStr (m_ClaudeMessageID msg),
       FStr (m_ClaudeRequestID msg), FStr (m_SourceType msg), FStr (m_SourceSubtype msg),
       FStr (m_SourceUUID msg), FStr (m_SourceParentUUID msg), FBool (m_IsSidechain msg),
       FBool (m_IsCompactBoundary msg)])"

definition ComputeMessageDataFingerprint ::
  "(string \<Rightarrow> string) \<Rightarrow> (string \<Rightarrow> int option) \<Rightarrow> (string \<Rightarrow> string) \<Rightarrow> Message list \<Rightarrow> bool \<Rightarrow> string" where
  "ComputeMessageDataFingerprint digest parse_year norm_ts msgs sanitize =
     digest (write_rows (map (message_fields parse_year norm_ts sanitize) msgs) [])"

definition usage_fields ::
  "(string \<Rightarrow> int option) \<Rightarrow> (string \<Rightarrow> string) \<Rightarrow> (rat \<Rightarrow> string) \<Rightarrow> bool \<Rightarrow> UsageEvent \<Rightarrow> field list" where
  "usage_fields parse_year norm_ts fmt_cost sanitize original =
     (let event = (if sanitize then fst (SanitizeUsageEvent parse_year original) else original) in
      [FBool (ue_MessageOrdinal event \<noteq> None),
       FInt (case ue_MessageOrdinal event of None \<Rightarrow> 0 | Some n \<Rightarrow> n),
       FStr (ue_Source event), FStr (ue_Model event), FInt (ue_InputTokens event),
       FInt (ue_OutputTokens event), FInt (ue_CacheCreationInputTokens event),
       FInt (ue_CacheReadInputTokens event), FInt (ue_ReasoningTokens event),
       FBool (ue_CostUSD event \<noteq> None),
       FStr (case ue_CostUSD event of None \<Rightarrow> [] | Some c \<Rightarrow> fmt_cost c),
       FStr (ue_CostStatus event), FStr (ue_CostSource event), FStr (norm_ts (ue_OccurredAt event)),
       FStr (ue_DedupKey event)])"

definition ComputeUsageEventFingerprint ::
  "(string \<Rightarrow> string) \<Rightarrow> (string \<Rightarrow> int option) \<Rightarrow> (string \<Rightarrow> string) \<Rightarrow> (rat \<Rightarrow> string) \<Rightarrow>
   UsageEvent list \<Rightarrow> bool \<Rightarrow> string" where
  "ComputeUsageEventFingerprint digest parse_year norm_ts fmt_cost events sanitize =
     digest (write_rows (map (usage_fields parse_year norm_ts fmt_cost sanitize) events) [])"

section \<open>Unique decoding\<close>

text \<open>A value that fits the 64-bit encoding: an \<open>int64\<close>, or a text whose length is one.\<close>

definition int64 :: "int \<Rightarrow> bool" where
  "int64 v \<longleftrightarrow> - (2 ^ 63) \<le> v \<and> v < 2 ^ 63"

fun field_ok :: "field \<Rightarrow> bool" where
  "field_ok (FInt v) = int64 v"
| "field_ok (FStr s) = int64 (int (length s))"
| "field_ok (FBool b) = True"

fun same_kind :: "field \<Rightarrow> field \<Rightarrow> bool" where
  "same_kind (FInt _) (FInt _) = True"
| "same_kind (FStr _) (FStr _) = True"
| "same_kind (FBool _) (FBool _) = True"
| "same_kind _ _ = False"

lemma length_int_bytes [simp]: "length (int_bytes v) = 8"
  by (simp add: int_bytes_def)

definition be_value :: "string \<Rightarrow> int" where
  "be_value bs = foldl (\<lambda>a c. a * 256 + int (byte c)) 0 bs"

lemma byte_be_byte: "int (byte (be_byte v k)) = v mod 2 ^ 64 div 256 ^ k mod 256"
proof -
  have "0 \<le> v mod 2 ^ 64 div 256 ^ k mod 256" "v mod 2 ^ 64 div 256 ^ k mod 256 < 256" by simp_all
  then have "nat (v mod 2 ^ 64 div 256 ^ k mod 256) < 256" by linarith
  then show ?thesis by (simp add: be_byte_def)
qed

lemma be_value_digits:
  "foldl (\<lambda>a c. a * 256 + int (byte c)) a (map (be_byte v) (rev [0..<n]))
     = a * 256 ^ n + v mod 2 ^ 64 mod 256 ^ n"
proof (induction n arbitrary: a)
  case (Suc n)
  define w :: int where "w = v mod 2 ^ 64"
  have "w mod 256 ^ Suc n = 256 ^ n * (w div 256 ^ n mod 256) + w mod 256 ^ n"
    using zmod_zmult2_eq [of 256 w "256 ^ n"] by (simp only: power_Suc2)
  then show ?case
    using Suc by (simp add: byte_be_byte w_def [symmetric] algebra_simps del: power_numeral)
qed simp

lemma be_value_int_bytes: "be_value (int_bytes v) = v mod 2 ^ 64"
proof -
  have "[7, 6, 5, 4, 3, 2, 1, 0] = rev [0..<8]" by (simp add: upt_rec)
  then have "be_value (int_bytes v) = v mod 2 ^ 64 mod 256 ^ 8"
    unfolding be_value_def int_bytes_def by (simp only: be_value_digits mult_zero_left add_0)
  also have "(256::int) ^ 8 = 2 ^ 64" by simp
  finally show ?thesis by (simp only: mod_mod_trivial)
qed

lemma int_bytes_inject:
  assumes "int64 v" "int64 w" "int_bytes v = int_bytes w"
  shows "v = w"
proof -
  have "v mod 2 ^ 64 = w mod 2 ^ 64" using assms(3) by (metis be_value_int_bytes)
  then have "2 ^ 64 dvd v - w" by (simp only: mod_eq_dvd_iff)
  then obtain q where q: "v - w = 2 ^ 64 * q" by (rule dvdE)
  have "- (2 ^ 64) < v - w" "v - w < 2 ^ 64" using assms(1,2) by (simp_all add: int64_def)
  with q have "q = 0" by simp
  with q show ?thesis by simp
qed

definition enc_field :: "field \<Rightarrow> string" where
  "enc_field f = write_field f []"

lemma write_field_append: "write_field f h = h @ enc_field f"
  by (cases f) (auto simp: enc_field_def writeFingerprintInt_def writeFingerprintString_def writeFingerprintBool_def)

lemma write_row_append: "write_row fs h = h @ concat (map enc_field fs)"
  unfolding write_row_def by (induction fs arbitrary: h) (auto simp: write_field_append)

lemma write_rows_append:
  "write_rows rows h = h @ int_bytes (int (length rows)) @ concat (map enc_field (concat rows))"
proof -
  have "fold write_row rows g = g @ concat (map enc_field (concat rows))" for g
    by (induction rows arbitrary: g) (auto simp: write_row_append)
  then show ?thesis by (simp add: write_rows_def writeFingerprintInt_def)
qed

lemma int_bytes_read:
  "int64 v \<Longrightarrow> int64 w \<Longrightarrow> int_bytes v @ s = int_bytes w @ t \<Longrightarrow> v = w \<and> s = t"
  by (auto simp: append_eq_append_conv dest: int_bytes_inject)

lemma int64_01: "int64 0" "int64 1"
  by (simp_all add: int64_def)

definition field_fits :: "field \<Rightarrow> field \<Rightarrow> bool" where
  "field_fits a b = (same_kind a b \<and> field_ok a \<and> field_ok b)"

lemma enc_field_simps:
  "enc_field (FInt v) = int_bytes v"
  "enc_field (FStr s) = int_bytes (int (length s)) @ s"
  "enc_field (FBool b) = int_bytes (if b then 1 else 0)"
  by (simp_all add: enc_field_def writeFingerprintInt_def writeFingerprintString_def
      writeFingerprintBool_def)

lemma read_int:
  "field_fits (FInt x) (FInt y) \<Longrightarrow> enc_field (FInt x) @ s = enc_field (FInt y) @ t \<Longrightarrow> x = y \<and> s = t"
  unfolding field_fits_def enc_field_simps by (rule int_bytes_read) simp_all

lemma read_str:
  assumes "field_fits (FStr x) (FStr y)" "enc_field (FStr x) @ s = enc_field (FStr y) @ t"
  shows "x = y \<and> s = t"
proof -
  have "int (length x) = int (length y) \<and> x @ s = y @ t"
    using assms unfolding field_fits_def enc_field_simps append_assoc by (intro int_bytes_read) simp_all
  then show ?thesis by auto
qed

lemma read_bool: "enc_field (FBool x) @ s = enc_field (FBool y) @ t \<Longrightarrow> x = y \<and> s = t"
proof -
  assume "enc_field (FBool x) @ s = enc_field (FBool y) @ t"
  moreover have "int64 (if b then 1 else 0)" for b by (simp add: int64_01)
  ultimately have "(if x then 1 else 0 :: int) = (if y then 1 else 0) \<and> s = t"
    unfolding enc_field_simps by (intro int_bytes_read)
  then show ?thesis by (simp split: if_splits)
qed

lemma field_read:
  assumes fits: "field_fits a b" and eq: "enc_field a @ s = enc_field b @ t"
  shows "a = b \<and> s = t"
proof (cases a)
  case (FInt x)
  with fits obtain y where "b = FInt y" by (cases b) (simp_all add: field_fits_def)
  with FInt show ?thesis using read_int [of x y s t] fits eq by simp
next
  case (FStr x)
  with fits obtain y where "b = FStr y" by (cases b) (simp_all add: field_fits_def)
  with FStr show ?thesis using read_str [of x y s t] fits eq by simp
next
  case (FBool x)
  with fits obtain y where "b = FBool y" by (cases b) (simp_all add: field_fits_def)
  with FBool show ?thesis using read_bool [of x s y t] eq by simp
qed

interpretation field_code: prefix_code enc_field field_fits
  by unfold_locales (simp_all add: field_read [THEN conjunct1] field_read [THEN conjunct2])

text \<open>Rows that all have the shape of one row type.\<close>

definition rows_ok :: "field list list \<Rightarrow> bool" where
  "rows_ok rows \<longleftrightarrow> int64 (int (length rows)) \<and> (\<forall>r \<in> set rows. list_all field_ok r)
     \<and> (\<forall>r \<in> set rows. \<forall>q \<in> set rows. list_all2 same_kind r q)"

lemma concat_rows_inject:
  "\<forall>r \<in> set xs. \<forall>q \<in> set ys. length r = length q \<Longrightarrow> length xs = length ys \<Longrightarrow>
     concat xs = concat ys \<Longrightarrow> xs = ys"
proof (induction xs arbitrary: ys)
  case (Cons x xs)
  then show ?case by (cases ys) (auto simp: append_eq_append_conv)
qed simp

lemma rows_fit:
  assumes "rows_ok xs" "rows_ok ys" "\<forall>r \<in> set xs. \<forall>q \<in> set ys. list_all2 same_kind r q"
    and "r \<in> set xs" "q \<in> set ys"
  shows "list_all2 field_fits r q"
proof -
  have "list_all field_ok r" "list_all field_ok q" "list_all2 same_kind r q"
    using assms by (auto simp: rows_ok_def)
  then show ?thesis
    by (simp add: list_all2_conv_all_nth list_all_length field_fits_def)
qed

lemma concat_all2:
  "length xs = length ys \<Longrightarrow> (\<And>r q. r \<in> set xs \<Longrightarrow> q \<in> set ys \<Longrightarrow> list_all2 R r q) \<Longrightarrow>
     list_all2 R (concat xs) (concat ys)"
  by (induction xs ys rule: list_induct2) (simp_all add: list_all2_appendI)

lemma write_rows_read:
  assumes ok: "rows_ok xs" "rows_ok ys"
    and kind: "\<forall>r \<in> set xs. \<forall>q \<in> set ys. list_all2 same_kind r q"
    and eq: "write_rows xs h @ s = write_rows ys h @ t"
  shows "xs = ys \<and> s = t"
proof -
  have eq': "int_bytes (int (length xs)) @ concat (map enc_field (concat xs)) @ s
      = int_bytes (int (length ys)) @ concat (map enc_field (concat ys)) @ t"
    using eq by (simp add: write_rows_append)
  have "int64 (int (length xs))" "int64 (int (length ys))" using ok by (simp_all add: rows_ok_def)
  from int_bytes_read [OF this eq'] have len: "length xs = length ys"
    and rest: "concat (map enc_field (concat xs)) @ s = concat (map enc_field (concat ys)) @ t"
    by simp_all
  have "list_all2 field_fits (concat xs) (concat ys)"
    using len by (rule concat_all2) (rule rows_fit [OF ok kind])
  then have c: "concat xs = concat ys \<and> s = t"
    using rest by (rule field_code.list_read_unique)
  have "\<forall>r \<in> set xs. \<forall>q \<in> set ys. length r = length q"
    using kind by (blast dest: list_all2_lengthD)
  then show ?thesis using concat_rows_inject len c by blast
qed

lemma message_kinds: "list_all2 same_kind (message_fields py nt sz a) (message_fields py nt sz' b)"
  by (simp add: message_fields_def Let_def)

lemma tool_call_kinds: "list_all2 same_kind (tool_call_fields py sz a) (tool_call_fields py sz' b)"
  by (simp add: tool_call_fields_def Let_def)

lemma tool_event_kinds: "list_all2 same_kind (tool_event_fields py nt sz a) (tool_event_fields py nt sz' b)"
  by (simp add: tool_event_fields_def Let_def)

lemma usage_kinds: "list_all2 same_kind (usage_fields py nt fc sz a) (usage_fields py nt fc sz' b)"
  by (simp add: usage_fields_def Let_def)

definition fields_ok :: "field list list \<Rightarrow> bool" where
  "fields_ok rows \<longleftrightarrow> int64 (int (length rows)) \<and> list_all (list_all field_ok) rows"

text \<open>
  The message fingerprint is exact: when the digest does not collide on the two streams, a
  local and a stored transcript have equal fingerprints exactly when they agree, message by
  message in order, in every fingerprinted column (timestamps after normalisation).
\<close>

theorem message_fingerprint_exact:
  assumes "fields_ok (map (message_fields py nt sz) xs)" and "fields_ok (map (message_fields py nt sz') ys)"
    and "digest (write_rows (map (message_fields py nt sz) xs) [])
           = digest (write_rows (map (message_fields py nt sz') ys) []) \<Longrightarrow>
         write_rows (map (message_fields py nt sz) xs) []
           = write_rows (map (message_fields py nt sz') ys) []"
  shows "ComputeMessageDataFingerprint digest py nt xs sz = ComputeMessageDataFingerprint digest py nt ys sz'
    \<longleftrightarrow> map (message_fields py nt sz) xs = map (message_fields py nt sz') ys"
proof
  assume "ComputeMessageDataFingerprint digest py nt xs sz = ComputeMessageDataFingerprint digest py nt ys sz'"
  then have "write_rows (map (message_fields py nt sz) xs) []
      = write_rows (map (message_fields py nt sz') ys) []"
    using assms(3) by (simp add: ComputeMessageDataFingerprint_def)
  moreover have "rows_ok (map (message_fields py nt sz) xs)" "rows_ok (map (message_fields py nt sz') ys)"
    using assms(1,2) by (auto simp: rows_ok_def fields_ok_def list_all_iff message_kinds)
  ultimately show "map (message_fields py nt sz) xs = map (message_fields py nt sz') ys"
    using write_rows_read [of "map (message_fields py nt sz) xs" "map (message_fields py nt sz') ys" "[]" "[]" "[]"]
    by (simp add: message_kinds)
qed (simp add: ComputeMessageDataFingerprint_def)

definition tiny_message :: "string \<Rightarrow> Message" where
  "tiny_message content =
     \<lparr> m_ID = 0, m_SessionID = [], m_Ordinal = 3, m_Role = ''user'', m_Content = content,
       m_ThinkingText = [], m_Timestamp = [], m_HasThinking = False, m_HasToolUse = False,
       m_ContentLength = 2, m_Model = [], m_TokenUsage = [], m_ContextTokens = 0, m_OutputTokens = 0,
       m_HasContextTokens = False, m_HasOutputTokens = False, m_ClaudeMessageID = [],
       m_ClaudeRequestID = [], m_ToolCalls = [], m_ToolResults = [], m_IsSystem = False,
       m_SourceType = [], m_SourceSubtype = [], m_SourceUUID = [], m_SourceParentUUID = [],
       m_IsSidechain = False, m_IsCompactBoundary = False \<rparr>"

theorem message_fingerprint_exact_witness:
  "ComputeMessageDataFingerprint (\<lambda>b. b) (\<lambda>_. None) (\<lambda>t. t) [tiny_message ''hi''] False
     \<noteq> ComputeMessageDataFingerprint (\<lambda>b. b) (\<lambda>_. None) (\<lambda>t. t) [tiny_message ''ho''] False"
proof -
  have ok: "fields_ok (map (message_fields (\<lambda>_. None) (\<lambda>t. t) False) [tiny_message c])"
    if "length c = 2" for c
    using that by (simp add: fields_ok_def message_fields_def tiny_message_def int64_def)
  have "map (message_fields (\<lambda>_. None) (\<lambda>t. t) False) [tiny_message ''hi'']
      \<noteq> map (message_fields (\<lambda>_. None) (\<lambda>t. t) False) [tiny_message ''ho'']"
    by (simp add: message_fields_def tiny_message_def)
  then show ?thesis
    using message_fingerprint_exact [OF ok ok, of "''hi''" "''ho''" "\<lambda>b. b"] by simp
qed

text \<open>The fingerprinted columns of a call and of an event, as they are stored.\<close>

definition call_columns :: "(string \<Rightarrow> int option) \<Rightarrow> bool \<Rightarrow> ToolCallFingerprintRow \<Rightarrow> (int \<times> int) \<times> ToolCall" where
  "call_columns py sanitize row =
     ((tcf_MessageOrdinal row, tcf_CallIndex row),
      (if sanitize then fst (sanitizeToolCall py (tcf_Call row)) else tcf_Call row)
        \<lparr>tc_MessageID := 0, tc_SessionID := [], tc_ResultEvents := []\<rparr>)"

definition event_columns ::
  "(string \<Rightarrow> int option) \<Rightarrow> (string \<Rightarrow> string) \<Rightarrow> bool \<Rightarrow> ToolResultEventFingerprintRow \<Rightarrow> (int \<times> int) \<times> ToolResultEvent" where
  "event_columns py nt sanitize row =
     (let event = (if sanitize then fst (sanitizeToolResultEvent py (tef_Event row)) else tef_Event row)
      in ((tef_MessageOrdinal row, tef_CallIndex row), event\<lparr>tre_Timestamp := nt (tre_Timestamp event)\<rparr>))"

lemma call_update_eq:
  "a\<lparr>tc_MessageID := 0, tc_SessionID := [], tc_ResultEvents := []\<rparr> = b\<lparr>tc_MessageID := 0, tc_SessionID := [], tc_ResultEvents := []\<rparr> \<longleftrightarrow>
     tc_ToolName a = tc_ToolName b \<and> tc_Category a = tc_Category b \<and> tc_ToolUseID a = tc_ToolUseID b \<and>
     tc_InputJSON a = tc_InputJSON b \<and> tc_SkillName a = tc_SkillName b \<and>
     tc_ResultContentLength a = tc_ResultContentLength b \<and> tc_ResultContent a = tc_ResultContent b \<and>
     tc_SubagentSessionID a = tc_SubagentSessionID b"
  for a b :: ToolCall
  by (cases a; cases b) auto

lemma event_update_eq:
  "a\<lparr>tre_Timestamp := t\<rparr> = b\<lparr>tre_Timestamp := u\<rparr> \<longleftrightarrow>
     tre_EventIndex a = tre_EventIndex b \<and> tre_ToolUseID a = tre_ToolUseID b \<and> tre_AgentID a = tre_AgentID b \<and>
     tre_SubagentSessionID a = tre_SubagentSessionID b \<and> tre_Source a = tre_Source b \<and> tre_Status a = tre_Status b \<and>
     tre_Content a = tre_Content b \<and> tre_ContentLength a = tre_ContentLength b \<and> t = u"
  for a b :: ToolResultEvent
  by (cases a; cases b) auto

lemma call_columns_fields: "tool_call_fields py sz r = tool_call_fields py sz' q \<longleftrightarrow> call_columns py sz r = call_columns py sz' q"
  unfolding call_columns_def tool_call_fields_def Let_def prod.inject call_update_eq by simp

lemma event_columns_fields:
  "tool_event_fields py nt sz r = tool_event_fields py nt sz' q \<longleftrightarrow> event_columns py nt sz r = event_columns py nt sz' q"
  unfolding event_columns_def tool_event_fields_def Let_def prod.inject event_update_eq by simp

lemma map_eq_by_index: "map f xs = map g ys \<longleftrightarrow> list_all2 (\<lambda>x y. f x = g y) xs ys"
  by (simp add: list_eq_iff_nth_eq list_all2_conv_all_nth cong: conj_cong)

lemma tool_stream_exact:
  assumes "fields_ok (map (tool_call_fields py sz) cs)" and "fields_ok (map (tool_call_fields py sz') ds)"
    and "fields_ok (map (tool_event_fields py nt sz) es)" and "fields_ok (map (tool_event_fields py nt sz') fs)"
  shows "ComputeToolDataFingerprint (\<lambda>b. b) py nt cs es sz = ComputeToolDataFingerprint (\<lambda>b. b) py nt ds fs sz'
    \<longleftrightarrow> map (call_columns py sz) cs = map (call_columns py sz') ds
        \<and> map (event_columns py nt sz) es = map (event_columns py nt sz') fs"
proof -
  let ?cs = "map (tool_call_fields py sz) cs" and ?ds = "map (tool_call_fields py sz') ds"
  let ?es = "map (tool_event_fields py nt sz) es" and ?fs = "map (tool_event_fields py nt sz') fs"
  have "?cs = ?ds \<and> ?es = ?fs"
    if "ComputeToolDataFingerprint (\<lambda>b. b) py nt cs es sz = ComputeToolDataFingerprint (\<lambda>b. b) py nt ds fs sz'"
  proof -
    have eq: "write_rows ?cs [] @ write_rows ?es [] = write_rows ?ds [] @ write_rows ?fs []"
      using that by (simp add: ComputeToolDataFingerprint_def write_rows_append)
    have ok: "rows_ok ?cs" "rows_ok ?ds" "rows_ok ?es" "rows_ok ?fs"
      using assms by (auto simp: rows_ok_def fields_ok_def list_all_iff tool_call_kinds tool_event_kinds)
    have c: "?cs = ?ds \<and> write_rows ?es [] = write_rows ?fs []"
      using write_rows_read [OF ok(1,2) _ eq] by (simp add: tool_call_kinds)
    then have "?es = ?fs"
      using write_rows_read [OF ok(3,4), of "[]" "[]" "[]"] by (simp add: tool_event_kinds)
    with c show ?thesis by blast
  qed
  moreover have "?cs = ?ds \<longleftrightarrow> map (call_columns py sz) cs = map (call_columns py sz') ds"
    by (simp only: map_eq_by_index call_columns_fields)
  moreover have "?es = ?fs \<longleftrightarrow> map (event_columns py nt sz) es = map (event_columns py nt sz') fs"
    by (simp only: map_eq_by_index event_columns_fields)
  ultimately show ?thesis by (auto simp: ComputeToolDataFingerprint_def)
qed

lemma tool_fingerprint_digest:
  "ComputeToolDataFingerprint digest py nt cs es sz = digest (ComputeToolDataFingerprint (\<lambda>b. b) py nt cs es sz)"
  by (simp add: ComputeToolDataFingerprint_def)

text \<open>
  C36. The tool fingerprint is exact up to collisions of the digest: the fingerprints of two lists of calls
  and of events are equal exactly when the calls and the events agree row by row in every column (sanitised
  where the caller asks for it, timestamps after their normalisation, the ids of the database left out), or
  when the two hashed byte streams are different texts with the same digest. Nothing is assumed of the digest;
  the numbers and the lengths of the rows have to be 64-bit integers, as the code's are.
\<close>

theorem tool_fingerprint_exact:
  assumes "fields_ok (map (tool_call_fields py sz) cs)" and "fields_ok (map (tool_call_fields py sz') ds)"
    and "fields_ok (map (tool_event_fields py nt sz) es)" and "fields_ok (map (tool_event_fields py nt sz') fs)"
  shows "ComputeToolDataFingerprint digest py nt cs es sz = ComputeToolDataFingerprint digest py nt ds fs sz'
    \<longleftrightarrow> map (call_columns py sz) cs = map (call_columns py sz') ds
          \<and> map (event_columns py nt sz) es = map (event_columns py nt sz') fs
        \<or> (let x = ComputeToolDataFingerprint (\<lambda>b. b) py nt cs es sz;
               y = ComputeToolDataFingerprint (\<lambda>b. b) py nt ds fs sz'
           in x \<noteq> y \<and> digest x = digest y)"
  using tool_stream_exact [OF assms] tool_fingerprint_digest [of digest py nt cs es sz]
    tool_fingerprint_digest [of digest py nt ds fs sz'] by (auto simp: Let_def)

definition tiny_call :: ToolCallFingerprintRow where
  "tiny_call =
     \<lparr> tcf_MessageOrdinal = 1, tcf_CallIndex = 0, tcf_Call =
       \<lparr> tc_MessageID = 0, tc_SessionID = [], tc_ToolName = ''Bash'', tc_Category = [], tc_ToolUseID = [],
         tc_InputJSON = [], tc_SkillName = [], tc_ResultContentLength = 0, tc_ResultContent = [],
         tc_SubagentSessionID = [], tc_ResultEvents = [] \<rparr> \<rparr>"

text \<open>A digest of 32 bytes, with collisions: the two lists are told apart by it.\<close>

theorem tool_fingerprint_exact_witness:
  "ComputeToolDataFingerprint (take 32) (\<lambda>_. None) (\<lambda>t. t) [tiny_call] [] False
     \<noteq> ComputeToolDataFingerprint (take 32) (\<lambda>_. None) (\<lambda>t. t) [tiny_call, tiny_call] [] False"
proof -
  let ?x = "ComputeToolDataFingerprint (\<lambda>b. b) (\<lambda>_. None) (\<lambda>t. t) [tiny_call] [] False"
  let ?y = "ComputeToolDataFingerprint (\<lambda>b. b) (\<lambda>_. None) (\<lambda>t. t) [tiny_call, tiny_call] [] False"
  have ok: "fields_ok (map (tool_call_fields (\<lambda>_. None) False) [tiny_call])"
    "fields_ok (map (tool_call_fields (\<lambda>_. None) False) [tiny_call, tiny_call])"
    "fields_ok (map (tool_event_fields (\<lambda>_. None) (\<lambda>t. t) False) [])"
    by (simp_all add: fields_ok_def tool_call_fields_def tiny_call_def int64_def)
  have "take 32 ?x \<noteq> take 32 ?y" by code_simp
  then show ?thesis
    using tool_fingerprint_exact [OF ok(1,2,3,3), of "take 32"] by (simp add: Let_def)
qed

end
