(* ===== verification/Broadcaster.thy ===== *)
theory Broadcaster
  imports Prelude
begin

text \<open>
  The event broadcaster (\<open>internal/server/broadcaster.go\<close>): leading and trailing edge rate
  limiting with a generation token against late timer callbacks. The step relation
  interleaves \<open>Emit\<close>, the clock, timers that fire, their callbacks (which wait for the
  mutex, so that anything may run between the firing and the callback), subscribers and
  readers. \<open>timerGen\<close> counts without the wrap at \<open>2 ^ 64\<close>.
\<close>

section \<open>State\<close>

abbreviation broadcasterBufferCap :: nat where "broadcasterBufferCap \<equiv> 8"

type_synonym Event = string

record Chan =
  ch_buf :: "Event list"
  ch_closed :: bool

record Broadcaster =
  b_subs :: "nat list"
  b_minInterval :: int
  b_lastEmit :: time
  b_pending :: "Event option"
  b_timer :: "nat option"
  b_timerGen :: nat

definition NewBroadcaster :: "int \<Rightarrow> Broadcaster" where
  "NewBroadcaster minInterval =
     \<lparr> b_subs = [], b_minInterval = minInterval, b_lastEmit = 0, b_pending = None,
       b_timer = None, b_timerGen = 0 \<rparr>"

text \<open>
  The world around it: the clock, the channels, the armed timers (id, captured generation,
  deadline), the callbacks that have fired and wait for the mutex, and two records of the
  past: the broadcasts made, latest first, and the scopes passed to \<open>Emit\<close>, latest first.
\<close>

record World =
  w_b :: Broadcaster
  w_now :: time
  w_chans :: "(nat, Chan) gomap"
  w_armed :: "(nat \<times> nat \<times> time) list"
  w_fired :: "nat list"
  w_next :: nat
  w_unsubbed :: "nat list"
  w_log :: "(time \<times> Event) list"
  w_emits :: "Event list"

definition initial :: "World \<Rightarrow> bool" where
  "initial w \<longleftrightarrow> (\<exists>mi now. 0 < now \<and>
     w = \<lparr> w_b = NewBroadcaster mi, w_now = now, w_chans = [], w_armed = [], w_fired = [], w_next = 0,
           w_unsubbed = [], w_log = [], w_emits = [] \<rparr>)"

section \<open>Operations\<close>

text \<open>A non-blocking send; \<^const>\<open>None\<close> is the panic of a send on a closed channel.\<close>

definition try_send :: "Event \<Rightarrow> Chan \<Rightarrow> Chan option" where
  "try_send ev c =
     (if ch_closed c then None
      else if length (ch_buf c) < broadcasterBufferCap then Some (c\<lparr>ch_buf := ch_buf c @ [ev]\<rparr>)
      else Some c)"

fun broadcastLocked :: "Event \<Rightarrow> nat list \<Rightarrow> (nat, Chan) gomap \<Rightarrow> (nat, Chan) gomap option" where
  "broadcastLocked ev [] m = Some m"
| "broadcastLocked ev (ch # chs) m =
     (case map_of m ch of
        None \<Rightarrow> None
      | Some c \<Rightarrow>
          (case try_send ev c of
             None \<Rightarrow> None
           | Some c' \<Rightarrow> broadcastLocked ev chs (AList.update ch c' m)))"

definition stop_timer :: "nat option \<Rightarrow> (nat \<times> nat \<times> time) list \<Rightarrow> (nat \<times> nat \<times> time) list" where
  "stop_timer t armed = (case t of None \<Rightarrow> armed | Some i \<Rightarrow> filter (\<lambda>(j, _). j \<noteq> i) armed)"

definition Emit :: "Event \<Rightarrow> World \<Rightarrow> World option" where
  "Emit scope w =
     (let b = w_b w; now = w_now w; w = w\<lparr>w_emits := scope # w_emits w\<rparr> in
      if b_minInterval b = 0 \<or> b_lastEmit b = 0 \<or> now - b_lastEmit b \<ge> b_minInterval b
      then (case broadcastLocked scope (b_subs b) (w_chans w) of
              None \<Rightarrow> None
            | Some m \<Rightarrow>
                Some (w\<lparr>w_armed := stop_timer (b_timer b) (w_armed w), w_chans := m,
                        w_log := (now, scope) # w_log w,
                        w_b := b\<lparr>b_pending := None, b_timer := None, b_timerGen := b_timerGen b + 1,
                                 b_lastEmit := now\<rparr>\<rparr>))
      else (let b = b\<lparr>b_pending := Some scope\<rparr> in
            case b_timer b of
              Some _ \<Rightarrow> Some (w\<lparr>w_b := b\<rparr>)
            | None \<Rightarrow>
                (let gen = b_timerGen b; wait = b_minInterval b - (now - b_lastEmit b) in
                 Some (w\<lparr>w_armed := (w_next w, gen, now + wait) # w_armed w, w_next := w_next w + 1,
                         w_b := b\<lparr>b_timer := Some (w_next w)\<rparr>\<rparr>))))"

definition flushTrailing :: "nat \<Rightarrow> World \<Rightarrow> World option" where
  "flushTrailing gen w =
     (let b = w_b w in
      if gen \<noteq> b_timerGen b then Some w
      else let b = b\<lparr>b_timer := None\<rparr> in
        case b_pending b of
          None \<Rightarrow> Some (w\<lparr>w_b := b\<rparr>)
        | Some ev \<Rightarrow>
            (case broadcastLocked ev (b_subs b) (w_chans w) of
               None \<Rightarrow> None
             | Some m \<Rightarrow>
                 Some (w\<lparr>w_chans := m, w_log := (w_now w, ev) # w_log w,
                         w_b := b\<lparr>b_pending := None, b_lastEmit := w_now w\<rparr>\<rparr>)))"

text \<open>\<open>Subscribe\<close> returns the channel; calling the returned function is \<open>unsubscribe\<close>.\<close>

definition Subscribe :: "World \<Rightarrow> World \<times> nat" where
  "Subscribe w =
     (let ch = w_next w in
      (w\<lparr>w_next := ch + 1, w_chans := AList.update ch \<lparr>ch_buf = [], ch_closed = False\<rparr> (w_chans w),
         w_b := (w_b w)\<lparr>b_subs := ch # b_subs (w_b w)\<rparr>\<rparr>, ch))"

definition close_chan :: "nat \<Rightarrow> (nat, Chan) gomap \<Rightarrow> (nat, Chan) gomap option" where
  "close_chan ch m =
     (case map_of m ch of
        None \<Rightarrow> None
      | Some c \<Rightarrow> if ch_closed c then None else Some (AList.update ch (c\<lparr>ch_closed := True\<rparr>) m))"

definition unsubscribe :: "nat \<Rightarrow> World \<Rightarrow> World option" where
  "unsubscribe ch w =
     (if ch \<in> set (w_unsubbed w) then Some w
      else let w = w\<lparr>w_unsubbed := ch # w_unsubbed w\<rparr> in
        if ch \<in> set (b_subs (w_b w))
        then (case close_chan ch (w_chans w) of
                None \<Rightarrow> None
              | Some m \<Rightarrow>
                  Some (w\<lparr>w_chans := m, w_b := (w_b w)\<lparr>b_subs := filter (\<lambda>x. x \<noteq> ch) (b_subs (w_b w))\<rparr>\<rparr>))
        else Some w)"

text \<open>A reader takes the oldest event of its channel.\<close>

definition receive :: "nat \<Rightarrow> World \<Rightarrow> World" where
  "receive ch w =
     (case map_of (w_chans w) ch of
        None \<Rightarrow> w
      | Some c \<Rightarrow> w\<lparr>w_chans := AList.update ch (c\<lparr>ch_buf := tl (ch_buf c)\<rparr>) (w_chans w)\<rparr>)"

inductive bstep :: "World \<Rightarrow> World \<Rightarrow> bool" where
  emit: "Emit scope w = Some w' \<Longrightarrow> bstep w w'"
| tick: "0 \<le> d \<Longrightarrow> bstep w (w\<lparr>w_now := w_now w + d\<rparr>)"
| fire: "w_armed w = as @ (i, gen, deadline) # bs \<Longrightarrow> deadline \<le> w_now w \<Longrightarrow>
     bstep w (w\<lparr>w_armed := as @ bs, w_fired := gen # w_fired w\<rparr>)"
| callback: "w_fired w = as @ gen # bs \<Longrightarrow> flushTrailing gen (w\<lparr>w_fired := as @ bs\<rparr>) = Some w' \<Longrightarrow>
     bstep w w'"
| subscribe: "bstep w (fst (Subscribe w))"
| unsub: "unsubscribe ch w = Some w' \<Longrightarrow> bstep w w'"
| recv: "bstep w (receive ch w)"

section \<open>Delivery\<close>

text \<open>What one subscriber sees of a broadcast: the event, or nothing when its buffer is full.\<close>

definition deliver :: "Event \<Rightarrow> Chan \<Rightarrow> Chan" where
  "deliver ev c = (if length (ch_buf c) < broadcasterBufferCap then c\<lparr>ch_buf := ch_buf c @ [ev]\<rparr> else c)"

definition all_open :: "nat list \<Rightarrow> (nat, Chan) gomap \<Rightarrow> bool" where
  "all_open chs m \<longleftrightarrow> list_all (\<lambda>ch. case map_of m ch of None \<Rightarrow> False | Some c \<Rightarrow> \<not> ch_closed c) chs"

lemma all_open_iff: "all_open chs m \<longleftrightarrow> (\<forall>ch \<in> set chs. \<exists>c. map_of m ch = Some c \<and> \<not> ch_closed c)"
  by (auto simp: all_open_def list_all_iff split: option.splits)

lemma all_open_Cons:
  "all_open (ch # chs) m \<longleftrightarrow> (\<exists>c. map_of m ch = Some c \<and> \<not> ch_closed c) \<and> all_open chs m"
  by (simp add: all_open_iff)

lemma ch_closed_deliver [simp]: "ch_closed (deliver ev c) = ch_closed c"
  by (simp add: deliver_def)

lemma try_send_open: "\<not> ch_closed c \<Longrightarrow> try_send ev c = Some (deliver ev c)"
  by (simp add: try_send_def deliver_def)

lemma all_open_update:
  "all_open chs m \<Longrightarrow> ch \<notin> set chs \<Longrightarrow> all_open chs (AList.update ch c m)"
  by (auto simp: all_open_iff map_of_update)

lemma broadcastLocked_open:
  "all_open chs m \<Longrightarrow> distinct chs \<Longrightarrow>
     \<exists>m'. broadcastLocked ev chs m = Some m' \<and>
       (\<forall>ch. map_of m' ch = (if ch \<in> set chs then map_option (deliver ev) (map_of m ch) else map_of m ch))"
proof (induction chs arbitrary: m)
  case (Cons ch chs)
  then obtain c where c: "map_of m ch = Some c" "\<not> ch_closed c" by (auto simp: all_open_Cons)
  define m1 where "m1 = AList.update ch (deliver ev c) m"
  have "all_open chs m1"
    unfolding m1_def using Cons.prems by (intro all_open_update) (auto simp: all_open_Cons)
  then obtain m' where m': "broadcastLocked ev chs m1 = Some m'"
      "\<forall>x. map_of m' x = (if x \<in> set chs then map_option (deliver ev) (map_of m1 x) else map_of m1 x)"
    using Cons by auto
  have "broadcastLocked ev (ch # chs) m = Some m'"
    using c m'(1) by (simp add: try_send_open m1_def)
  moreover have "map_of m' x = (if x \<in> set (ch # chs) then map_option (deliver ev) (map_of m x) else map_of m x)" for x
    using m'(2) c(1) Cons.prems(2) by (auto simp: m1_def map_of_update)
  ultimately show ?case by blast
qed simp

section \<open>The channels never panic\<close>

definition bufs_ok :: "(nat, Chan) gomap \<Rightarrow> bool" where
  "bufs_ok m \<longleftrightarrow> (\<forall>ch c. map_of m ch = Some c \<longrightarrow> length (ch_buf c) \<le> broadcasterBufferCap)"

definition chan_inv :: "World \<Rightarrow> bool" where
  "chan_inv w \<longleftrightarrow> distinct (b_subs (w_b w)) \<and> all_open (b_subs (w_b w)) (w_chans w) \<and>
     bufs_ok (w_chans w) \<and> (\<forall>ch \<in> set (b_subs (w_b w)). ch < w_next w)"

lemma bufs_ok_update: "bufs_ok m \<Longrightarrow> length (ch_buf c) \<le> broadcasterBufferCap \<Longrightarrow> bufs_ok (AList.update ch c m)"
  by (auto simp: bufs_ok_def map_of_update)

lemma broadcast_chans:
  assumes "all_open chs m" "distinct chs" "bufs_ok m" "broadcastLocked ev chs m = Some m'"
  shows "all_open chs m' \<and> bufs_ok m'"
proof -
  have m': "map_of m' ch = (if ch \<in> set chs then map_option (deliver ev) (map_of m ch) else map_of m ch)" for ch
    using broadcastLocked_open [OF assms(1,2), of ev] assms(4) by auto
  have "length (ch_buf (deliver ev c)) \<le> broadcasterBufferCap"
    if "length (ch_buf c) \<le> broadcasterBufferCap" for c
    using that by (simp add: deliver_def)
  then have "bufs_ok m'"
    using assms(3) by (auto simp: bufs_ok_def m' split: if_splits)
  moreover have "all_open chs m'"
    using assms(1) by (auto simp: all_open_iff m')
  ultimately show ?thesis by blast
qed

definition leading :: "World \<Rightarrow> bool" where
  "leading w \<longleftrightarrow> b_minInterval (w_b w) = 0 \<or> b_lastEmit (w_b w) = 0 \<or>
     w_now w - b_lastEmit (w_b w) \<ge> b_minInterval (w_b w)"

lemma Emit_leading:
  "leading w \<Longrightarrow> Emit s w = (case broadcastLocked s (b_subs (w_b w)) (w_chans w) of
     None \<Rightarrow> None
   | Some m \<Rightarrow> Some (w\<lparr>w_emits := s # w_emits w, w_armed := stop_timer (b_timer (w_b w)) (w_armed w),
       w_chans := m, w_log := (w_now w, s) # w_log w,
       w_b := (w_b w)\<lparr>b_pending := None, b_timer := None, b_timerGen := b_timerGen (w_b w) + 1,
                       b_lastEmit := w_now w\<rparr>\<rparr>))"
  by (simp add: Emit_def Let_def leading_def split: option.split)

lemma Emit_coalesce:
  "\<not> leading w \<Longrightarrow> b_timer (w_b w) = Some i \<Longrightarrow>
     Emit s w = Some (w\<lparr>w_emits := s # w_emits w, w_b := (w_b w)\<lparr>b_pending := Some s\<rparr>\<rparr>)"
  by (simp add: Emit_def Let_def leading_def)

lemma Emit_arm:
  "\<not> leading w \<Longrightarrow> b_timer (w_b w) = None \<Longrightarrow>
     Emit s w = Some (w\<lparr>w_emits := s # w_emits w,
       w_armed := (w_next w, b_timerGen (w_b w), b_lastEmit (w_b w) + b_minInterval (w_b w)) # w_armed w,
       w_next := w_next w + 1,
       w_b := (w_b w)\<lparr>b_pending := Some s, b_timer := Some (w_next w)\<rparr>\<rparr>)"
  by (simp add: Emit_def Let_def leading_def algebra_simps)

lemma flush_stale: "gen \<noteq> b_timerGen (w_b w) \<Longrightarrow> flushTrailing gen w = Some w"
  by (simp add: flushTrailing_def Let_def)

lemma flush_empty:
  "b_pending (w_b w) = None \<Longrightarrow>
     flushTrailing (b_timerGen (w_b w)) w = Some (w\<lparr>w_b := (w_b w)\<lparr>b_timer := None\<rparr>\<rparr>)"
  by (simp add: flushTrailing_def Let_def)

lemma flush_pending:
  "b_pending (w_b w) = Some ev \<Longrightarrow>
     flushTrailing (b_timerGen (w_b w)) w = (case broadcastLocked ev (b_subs (w_b w)) (w_chans w) of
       None \<Rightarrow> None
     | Some m \<Rightarrow> Some (w\<lparr>w_chans := m, w_log := (w_now w, ev) # w_log w,
         w_b := (w_b w)\<lparr>b_timer := None, b_pending := None, b_lastEmit := w_now w\<rparr>\<rparr>))"
  by (simp add: flushTrailing_def Let_def split: option.split)

lemma broadcast_total: "chan_inv w \<Longrightarrow> \<exists>m. broadcastLocked s (b_subs (w_b w)) (w_chans w) = Some m"
  using broadcastLocked_open [of "b_subs (w_b w)" "w_chans w" s] by (auto simp: chan_inv_def)

lemma Emit_total: "chan_inv w \<Longrightarrow> \<exists>w'. Emit s w = Some w'"
  using broadcast_total [of w s]
  by (cases "leading w"; cases "b_timer (w_b w)") (auto simp: Emit_leading Emit_coalesce Emit_arm)

lemma flush_total: "chan_inv w \<Longrightarrow> \<exists>w'. flushTrailing gen w = Some w'"
proof (cases "gen = b_timerGen (w_b w)")
  case True
  assume "chan_inv w"
  then show ?thesis
    using broadcast_total [of w "the (b_pending (w_b w))"]
    by (cases "b_pending (w_b w)") (auto simp: True flush_empty flush_pending)
qed (simp add: flush_stale)

lemma unsubscribe_total: "chan_inv w \<Longrightarrow> \<exists>w'. unsubscribe ch w = Some w'"
  by (auto simp: unsubscribe_def Let_def chan_inv_def all_open_iff close_chan_def
      split: option.splits)

lemma chan_inv_Emit:
  assumes "chan_inv w" "Emit s w = Some w'"
  shows "chan_inv w'"
proof (cases "leading w")
  case True
  with assms(2) obtain m where m: "broadcastLocked s (b_subs (w_b w)) (w_chans w) = Some m"
    by (auto simp: Emit_leading split: option.splits)
  then have "all_open (b_subs (w_b w)) m \<and> bufs_ok m"
    using assms(1) by (intro broadcast_chans) (auto simp: chan_inv_def)
  with m assms True show ?thesis by (auto simp: Emit_leading chan_inv_def)
next
  case False
  with assms show ?thesis
    by (cases "b_timer (w_b w)") (auto simp: Emit_coalesce Emit_arm chan_inv_def less_Suc_eq)
qed

lemma chan_inv_flush:
  assumes "chan_inv w" "flushTrailing gen w = Some w'"
  shows "chan_inv w'"
proof (cases "gen = b_timerGen (w_b w) \<and> b_pending (w_b w) \<noteq> None")
  case True
  then obtain ev where ev: "b_pending (w_b w) = Some ev" by auto
  with assms(2) True obtain m where m: "broadcastLocked ev (b_subs (w_b w)) (w_chans w) = Some m"
    by (auto simp: flush_pending split: option.splits)
  then have "all_open (b_subs (w_b w)) m \<and> bufs_ok m"
    using assms(1) by (intro broadcast_chans) (auto simp: chan_inv_def)
  with m ev assms True show ?thesis by (auto simp: flush_pending chan_inv_def)
next
  case False
  with assms show ?thesis
    by (cases "gen = b_timerGen (w_b w)") (auto simp: flush_stale flush_empty chan_inv_def)
qed

lemma chan_inv_unsubscribe: "chan_inv w \<Longrightarrow> unsubscribe ch w = Some w' \<Longrightarrow> chan_inv w'"
  by (auto simp: unsubscribe_def Let_def chan_inv_def all_open_iff close_chan_def bufs_ok_def
      map_of_update split: option.splits if_splits)

lemma chan_inv_receive: "chan_inv w \<Longrightarrow> chan_inv (receive ch w)"
proof (cases "map_of (w_chans w) ch")
  case (Some c)
  assume inv: "chan_inv w"
  then have "length (ch_buf c) \<le> broadcasterBufferCap"
    using Some by (auto simp: chan_inv_def bufs_ok_def)
  then have "length (ch_buf (c\<lparr>ch_buf := tl (ch_buf c)\<rparr>)) \<le> broadcasterBufferCap" by simp
  then have "bufs_ok (AList.update ch (c\<lparr>ch_buf := tl (ch_buf c)\<rparr>) (w_chans w))"
    using inv by (intro bufs_ok_update) (auto simp: chan_inv_def)
  then show ?thesis
    using inv Some by (auto simp: receive_def chan_inv_def all_open_iff map_of_update)
qed (simp add: receive_def)

lemma chan_inv_Subscribe: "chan_inv w \<Longrightarrow> chan_inv (fst (Subscribe w))"
  by (auto simp: Subscribe_def Let_def chan_inv_def all_open_iff bufs_ok_def map_of_update
      split: if_splits)

lemma chan_inv_step: "bstep w w' \<Longrightarrow> chan_inv w \<Longrightarrow> chan_inv w'"
proof (induction rule: bstep.induct)
  case (callback w as gen bs w')
  have "chan_inv (w\<lparr>w_fired := as @ bs\<rparr>)" using callback.prems by (simp add: chan_inv_def)
  then show ?case using callback.hyps(2) by (rule chan_inv_flush)
next
  case (tick d w)
  then show ?case by (simp add: chan_inv_def)
next
  case (fire w as i gen deadline bs)
  then show ?case by (simp add: chan_inv_def)
qed (blast intro: chan_inv_Emit chan_inv_unsubscribe chan_inv_receive chan_inv_Subscribe)+

interpretation channels: step_machine initial bstep chan_inv
  by unfold_locales
    (auto simp: initial_def NewBroadcaster_def chan_inv_def all_open_def bufs_ok_def dest: chan_inv_step)

section \<open>The timer and the rate limit\<close>

text \<open>
  At most one callback of the current generation is alive, armed for the end of the window or
  already fired after it, and it is alive exactly while an event is pending.
\<close>

definition current :: "World \<Rightarrow> (nat \<times> nat \<times> time) list" where
  "current w = filter (\<lambda>(_, g, _). g = b_timerGen (w_b w)) (w_armed w)"

definition current_fired :: "World \<Rightarrow> nat list" where
  "current_fired w = filter (\<lambda>g. g = b_timerGen (w_b w)) (w_fired w)"

definition window_end :: "World \<Rightarrow> time" where
  "window_end w = b_lastEmit (w_b w) + b_minInterval (w_b w)"

definition gens_old :: "World \<Rightarrow> bool" where
  "gens_old w \<longleftrightarrow> (\<forall>(_, g, _) \<in> set (w_armed w). g \<le> b_timerGen (w_b w)) \<and>
     (\<forall>g \<in> set (w_fired w). g \<le> b_timerGen (w_b w))"

definition timer_live :: "World \<Rightarrow> bool" where
  "timer_live w = (case b_timer (w_b w) of
      None \<Rightarrow> current w = [] \<and> current_fired w = [] \<and> b_pending (w_b w) = None
    | Some i \<Rightarrow> b_pending (w_b w) \<noteq> None \<and>
        (current w = [(i, b_timerGen (w_b w), window_end w)] \<and> current_fired w = [] \<or>
         current w = [] \<and> current_fired w = [b_timerGen (w_b w)] \<and> window_end w \<le> w_now w))"

definition log_ok :: "World \<Rightarrow> bool" where
  "log_ok w \<longleftrightarrow> 0 < w_now w \<and> b_lastEmit (w_b w) \<le> w_now w \<and>
     (if w_log w = [] then b_lastEmit (w_b w) = 0 else fst (hd (w_log w)) = b_lastEmit (w_b w) \<and> 0 < b_lastEmit (w_b w)) \<and>
     successively (\<lambda>(later, _) (earlier, _). b_minInterval (w_b w) \<le> later - earlier) (w_log w)"

text \<open>The last scope emitted is pending, or it is the last one broadcast.\<close>

definition last_kept :: "World \<Rightarrow> bool" where
  "last_kept w \<longleftrightarrow> (if w_emits w = [] then w_log w = [] \<and> b_pending (w_b w) = None
     else case b_pending (w_b w) of
            Some ev \<Rightarrow> ev = hd (w_emits w)
          | None \<Rightarrow> w_log w \<noteq> [] \<and> snd (hd (w_log w)) = hd (w_emits w))"

definition rate_inv :: "World \<Rightarrow> bool" where
  "rate_inv w \<longleftrightarrow> gens_old w \<and> timer_live w \<and> log_ok w \<and> last_kept w"

lemmas rate_defs = rate_inv_def gens_old_def timer_live_def log_ok_def last_kept_def current_def
  current_fired_def window_end_def

lemma stop_timer_subset: "set (stop_timer t armed) \<subseteq> set armed"
  by (auto simp: stop_timer_def split: option.splits)

lemma log_ok_push:
  assumes "log_ok w" "w_log w = [] \<or> b_minInterval (w_b w) \<le> w_now w - b_lastEmit (w_b w)"
  shows "successively (\<lambda>(later, _) (earlier, _). b_minInterval (w_b w) \<le> later - earlier)
           ((w_now w, s) # w_log w)"
  using assms by (cases "w_log w") (auto simp: log_ok_def)

lemma leading_window:
  "log_ok w \<Longrightarrow> leading w \<Longrightarrow> w_log w = [] \<or> b_minInterval (w_b w) \<le> w_now w - b_lastEmit (w_b w)"
  by (auto simp: leading_def log_ok_def split: if_splits)

lemma rate_leading:
  assumes inv: "rate_inv w" and "leading w" "Emit s w = Some w'"
  shows "rate_inv w'"
proof -
  obtain m where w': "w' = w\<lparr>w_emits := s # w_emits w, w_armed := stop_timer (b_timer (w_b w)) (w_armed w),
       w_chans := m, w_log := (w_now w, s) # w_log w,
       w_b := (w_b w)\<lparr>b_pending := None, b_timer := None, b_timerGen := b_timerGen (w_b w) + 1,
                       b_lastEmit := w_now w\<rparr>\<rparr>"
    using assms(2,3) by (auto simp: Emit_leading split: option.splits)
  have old: "gens_old w" and log: "log_ok w" using inv by (simp_all add: rate_inv_def)
  have arm: "g \<le> b_timerGen (w_b w)"
    if "(i, g, d) \<in> set (stop_timer (b_timer (w_b w)) (w_armed w))" for i g d
    using that old stop_timer_subset by (fastforce simp: gens_old_def)
  have "gens_old w'"
    using old arm by (fastforce simp: gens_old_def w')
  moreover have "current w' = []"
    using arm by (fastforce simp: current_def w' filter_empty_conv)
  moreover have "current_fired w' = []"
    using old by (fastforce simp: current_fired_def gens_old_def w' filter_empty_conv)
  moreover have "log_ok w'"
    using log_ok_push [OF log leading_window [OF log assms(2)], of s] log
    unfolding w' by (simp add: log_ok_def)
  ultimately show ?thesis
    by (simp add: rate_inv_def timer_live_def last_kept_def w')
qed

lemma rate_trailing:
  assumes inv: "rate_inv w" and "\<not> leading w" "Emit s w = Some w'"
  shows "rate_inv w'"
proof (cases "b_timer (w_b w)")
  case (Some i)
  then have w': "w' = w\<lparr>w_emits := s # w_emits w, w_b := (w_b w)\<lparr>b_pending := Some s\<rparr>\<rparr>"
    using assms by (simp add: Emit_coalesce)
  show ?thesis
    using inv Some unfolding w'
    by (simp add: rate_defs)
next
  case None
  then have w': "w' = w\<lparr>w_emits := s # w_emits w,
       w_armed := (w_next w, b_timerGen (w_b w), window_end w) # w_armed w, w_next := w_next w + 1,
       w_b := (w_b w)\<lparr>b_pending := Some s, b_timer := Some (w_next w)\<rparr>\<rparr>"
    using assms by (simp add: Emit_arm window_end_def)
  show ?thesis
    using inv None unfolding w'
    by (simp add: rate_defs)
qed

lemma rate_callback:
  assumes inv: "rate_inv w" and split: "w_fired w = as @ gen # bs"
    and flush: "flushTrailing gen (w\<lparr>w_fired := as @ bs\<rparr>) = Some w'"
  shows "rate_inv w'"
proof (cases "gen = b_timerGen (w_b w)")
  case False
  then have "w' = w\<lparr>w_fired := as @ bs\<rparr>"
    using flush by (simp add: flush_stale)
  moreover have "current_fired (w\<lparr>w_fired := as @ bs\<rparr>) = current_fired w"
    using split False by (simp add: current_fired_def)
  moreover have "current (w\<lparr>w_fired := as @ bs\<rparr>) = current w" "window_end (w\<lparr>w_fired := as @ bs\<rparr>) = window_end w"
    by (simp_all add: current_def window_end_def)
  moreover have "gens_old (w\<lparr>w_fired := as @ bs\<rparr>)"
    using inv split by (simp add: rate_inv_def gens_old_def)
  ultimately show ?thesis
    using inv by (auto simp: rate_inv_def timer_live_def log_ok_def last_kept_def split: option.splits)
next
  case True
  have cf: "current_fired w \<noteq> []" using split True by (simp add: current_fired_def)
  with inv obtain i ev where i: "b_timer (w_b w) = Some i" "b_pending (w_b w) = Some ev"
    "current w = []" "current_fired w = [gen]" "window_end w \<le> w_now w"
    using True by (auto simp: rate_inv_def timer_live_def split: option.splits)
  define v where "v = w\<lparr>w_fired := as @ bs\<rparr>"
  have "flushTrailing (b_timerGen (w_b v)) v = Some w'" "b_pending (w_b v) = Some ev"
    using flush True i(2) by (simp_all add: v_def)
  then obtain m where w': "w' = v\<lparr>w_chans := m, w_log := (w_now v, ev) # w_log v,
         w_b := (w_b v)\<lparr>b_timer := None, b_pending := None, b_lastEmit := w_now v\<rparr>\<rparr>"
    by (auto simp: flush_pending split: option.splits)
  have log: "log_ok w" using inv by (simp add: rate_inv_def)
  have no: "filter (\<lambda>g. g = b_timerGen (w_b w)) (as @ bs) = []"
    using i(4) split True by (simp add: current_fired_def filter_eq_Cons_iff append_eq_Cons_conv)
  have "gens_old w'" using inv split by (simp add: rate_inv_def gens_old_def w' v_def)
  moreover have "timer_live w'"
    using no i(3) by (simp add: timer_live_def current_def current_fired_def w' v_def)
  moreover have "log_ok w'"
    using log_ok_push [OF log, of ev] log i(5) unfolding w' v_def by (simp add: log_ok_def window_end_def)
  moreover have "last_kept w'"
    using inv i(2) by (auto simp: rate_inv_def last_kept_def w' v_def split: if_splits)
  ultimately show ?thesis by (simp add: rate_inv_def)
qed

lemma rate_fire:
  assumes inv: "rate_inv w" and split: "w_armed w = as @ (i, gen, deadline) # bs"
    and due: "deadline \<le> w_now w"
  shows "rate_inv (w\<lparr>w_armed := as @ bs, w_fired := gen # w_fired w\<rparr>)"
proof -
  define w' where "w' = w\<lparr>w_armed := as @ bs, w_fired := gen # w_fired w\<rparr>"
  have end': "window_end w' = window_end w" by (simp add: w'_def window_end_def)
  have "gens_old w'" using inv split by (simp add: rate_inv_def gens_old_def w'_def)
  moreover have "timer_live w'"
  proof (cases "gen = b_timerGen (w_b w)")
    case False
    then have "current w' = current w" "current_fired w' = current_fired w"
      using split by (simp_all add: current_def current_fired_def w'_def)
    moreover have "w_b w' = w_b w" "w_now w' = w_now w" by (simp_all add: w'_def)
    ultimately show ?thesis
      using inv end' by (simp add: rate_inv_def timer_live_def split: option.splits)
  next
    case True
    then have cur: "current w = filter (\<lambda>(_, g, _). g = gen) as @ (i, gen, deadline) #
        filter (\<lambda>(_, g, _). g = gen) bs"
      using split by (simp add: current_def)
    with inv have one: "current w = [(i, gen, window_end w)]" "current_fired w = []"
      "b_timer (w_b w) = Some i" "b_pending (w_b w) \<noteq> None"
      using True by (auto simp: rate_inv_def timer_live_def append_eq_Cons_conv split: option.splits)
    with cur have "current w' = []" "deadline = window_end w"
      using True by (auto simp: current_def w'_def append_eq_Cons_conv)
    moreover have "current_fired w' = [gen]"
      using one(2) True by (simp add: current_fired_def w'_def)
    ultimately show ?thesis
      using one True due end' by (simp add: timer_live_def w'_def)
  qed
  moreover have "log_ok w'" using inv by (simp add: rate_inv_def log_ok_def w'_def)
  moreover have "last_kept w'" using inv by (simp add: rate_inv_def last_kept_def w'_def split: option.splits)
  ultimately show ?thesis by (simp add: rate_inv_def w'_def)
qed

lemma rate_cong:
  assumes "rate_inv w" "w_now w \<le> w_now w'" "w_armed w' = w_armed w" "w_fired w' = w_fired w"
    "w_log w' = w_log w" "w_emits w' = w_emits w"
    "(w_b w')\<lparr>b_subs := []\<rparr> = (w_b w)\<lparr>b_subs := []\<rparr>"
  shows "rate_inv w'"
proof -
  have b: "b_timer (w_b w') = b_timer (w_b w)" "b_pending (w_b w') = b_pending (w_b w)"
    "b_timerGen (w_b w') = b_timerGen (w_b w)" "b_lastEmit (w_b w') = b_lastEmit (w_b w)"
    "b_minInterval (w_b w') = b_minInterval (w_b w)"
    using assms(7) by (cases "w_b w'"; cases "w_b w"; simp)+
  then have "current w' = current w" "current_fired w' = current_fired w" "window_end w' = window_end w"
    using assms by (simp_all add: current_def current_fired_def window_end_def)
  with b assms(1-6) show ?thesis
    by (auto simp: rate_inv_def timer_live_def gens_old_def log_ok_def last_kept_def split: option.splits)
qed

lemma rate_step: "bstep w w' \<Longrightarrow> rate_inv w \<Longrightarrow> rate_inv w'"
proof (induction rule: bstep.induct)
  case (emit scope w w')
  then show ?case using rate_leading rate_trailing by blast
next
  case (tick d w)
  then show ?case by (elim rate_cong) simp_all
next
  case (subscribe w)
  then show ?case by (elim rate_cong) (simp_all add: Subscribe_def Let_def)
next
  case (unsub ch w w')
  then show ?case
    by (elim rate_cong) (auto simp: unsubscribe_def Let_def split: option.splits if_splits)
next
  case (recv w ch)
  then show ?case by (elim rate_cong) (auto simp: receive_def split: option.splits)
qed (blast intro: rate_fire rate_callback)+

interpretation limiter: step_machine initial bstep rate_inv
proof unfold_locales
  show "rate_inv w" if "initial w" for w
    using that by (auto simp: initial_def NewBroadcaster_def rate_defs)
qed (rule rate_step)

section \<open>A run\<close>

text \<open>One subscriber, a leading emit, an emit inside the window, then the timer.\<close>

definition run0 :: World where
  "run0 = \<lparr> w_b = NewBroadcaster 5, w_now = 10, w_chans = [], w_armed = [], w_fired = [], w_next = 0,
            w_unsubbed = [], w_log = [], w_emits = [] \<rparr>"

definition run1 :: World where
  "run1 = the (Emit ''sync'' (fst (Subscribe run0)))"

definition run2 :: World where
  "run2 = the (Emit ''index'' (run1\<lparr>w_now := w_now run1 + 2\<rparr>))"

definition run3 :: World where
  "run3 = run2\<lparr>w_now := w_now run2 + 9\<rparr>"

lemma initial_run0: "initial run0"
  unfolding initial_def run0_def by (intro exI [of _ 5] exI [of _ 10]) simp

lemma reach_emit: "initial w0 \<Longrightarrow> bstep\<^sup>*\<^sup>* w0 w \<Longrightarrow> bstep\<^sup>*\<^sup>* w0 (the (Emit s w))"
  by (metis Emit_total bstep.emit channels.inv_reachable option.sel rtranclp.rtrancl_into_rtrancl)

lemma reach_tick: "0 \<le> d \<Longrightarrow> bstep\<^sup>*\<^sup>* w0 w \<Longrightarrow> bstep\<^sup>*\<^sup>* w0 (w\<lparr>w_now := w_now w + d\<rparr>)"
  by (metis bstep.tick rtranclp.rtrancl_into_rtrancl)

lemma reach_subscribe: "bstep\<^sup>*\<^sup>* w0 w \<Longrightarrow> bstep\<^sup>*\<^sup>* w0 (fst (Subscribe w))"
  by (metis bstep.subscribe rtranclp.rtrancl_into_rtrancl)

lemma reach_run1: "bstep\<^sup>*\<^sup>* run0 run1"
  unfolding run1_def by (intro reach_emit reach_subscribe initial_run0 rtranclp.rtrancl_refl)

lemma reach_run2: "bstep\<^sup>*\<^sup>* run0 run2"
  unfolding run2_def by (intro reach_emit reach_tick initial_run0 reach_run1) simp

lemma reach_run3: "bstep\<^sup>*\<^sup>* run0 run3"
  unfolding run3_def by (intro reach_tick reach_run2) simp

lemmas run_simps = run0_def run1_def run2_def run3_def Emit_def Subscribe_def NewBroadcaster_def Let_def
  try_send_def stop_timer_def

section \<open>Properties\<close>

text \<open>
  C29. In every reachable state the broadcasts made so far, leading and trailing, are at least
  \<open>minInterval\<close> apart, whatever the order of emits, timer firings and late callbacks.
\<close>

theorem broadcasts_rate_limited:
  "initial w0 \<Longrightarrow> bstep\<^sup>*\<^sup>* w0 w \<Longrightarrow>
     successively (\<lambda>(later, _) (earlier, _). b_minInterval (w_b w) \<le> later - earlier) (w_log w)"
  by (drule (1) limiter.inv_reachable) (simp add: rate_inv_def log_ok_def)


theorem broadcasts_rate_limited_witness:
  "w_log run2 = [(10, ''sync'')] \<and> b_pending (w_b run2) = Some ''index'' \<and>
   successively (\<lambda>(later, _) (earlier, _). b_minInterval (w_b run2) \<le> later - earlier) (w_log run2)"
  using broadcasts_rate_limited [OF initial_run0 reach_run2] by (simp add: run_simps)

text \<open>
  A pending event is broadcast by its own timer, without any further emit: the callback of the
  current generation is armed or has fired, so the clock, the firing and the callback deliver it.
\<close>

lemma fired_delivers:
  assumes "chan_inv w" "b_pending (w_b w) = Some ev" "current_fired w = [b_timerGen (w_b w)]"
  shows "\<exists>w'. bstep w w' \<and> w_emits w' = w_emits w \<and> b_pending (w_b w') = None \<and>
    w_log w' = (w_now w, ev) # w_log w"
proof -
  have "b_timerGen (w_b w) \<in> set (w_fired w)"
  proof -
    have "b_timerGen (w_b w) \<in> set (current_fired w)" by (simp add: assms(3))
    then show ?thesis by (simp add: current_fired_def)
  qed
  then obtain as bs where split: "w_fired w = as @ b_timerGen (w_b w) # bs"
    by (auto simp: in_set_conv_decomp)
  define v where "v = w\<lparr>w_fired := as @ bs\<rparr>"
  have v: "b_pending (w_b v) = Some ev" "b_timerGen (w_b v) = b_timerGen (w_b w)" "chan_inv v"
    "w_now v = w_now w" "w_log v = w_log w" "w_emits v = w_emits w"
    using assms by (simp_all add: v_def chan_inv_def)
  obtain m where "broadcastLocked ev (b_subs (w_b v)) (w_chans v) = Some m"
    using broadcast_total [OF v(3)] by blast
  then obtain w' where w': "flushTrailing (b_timerGen (w_b w)) v = Some w'" "b_pending (w_b w') = None"
     "w_emits w' = w_emits w" "w_log w' = (w_now w, ev) # w_log w"
    using flush_pending [OF v(1)] v by auto
  then have "bstep w w'" using split by (auto intro: bstep.callback simp: v_def)
  with w' show ?thesis by blast
qed

lemma armed_delivers:
  assumes "chan_inv w" "b_pending (w_b w) = Some ev" "current w = [(i, b_timerGen (w_b w), window_end w)]"
    "current_fired w = []"
  shows "\<exists>w'. bstep\<^sup>*\<^sup>* w w' \<and> w_emits w' = w_emits w \<and> b_pending (w_b w') = None \<and>
    w_log w' = (max (w_now w) (window_end w), ev) # w_log w"
proof -
  define u where "u = w\<lparr>w_now := w_now w + (max (w_now w) (window_end w) - w_now w)\<rparr>"
  have u: "bstep w u" unfolding u_def by (rule bstep.tick) simp
  have "(i, b_timerGen (w_b w), window_end w) \<in> set (w_armed w)"
  proof -
    have "(i, b_timerGen (w_b w), window_end w) \<in> set (current w)" by (simp add: assms(3))
    then show ?thesis by (simp add: current_def)
  qed
  then obtain as bs where "w_armed u = as @ (i, b_timerGen (w_b w), window_end w) # bs"
    by (auto simp: in_set_conv_decomp u_def)
  then have v: "bstep u (u\<lparr>w_armed := as @ bs, w_fired := b_timerGen (w_b w) # w_fired u\<rparr>)"
    by (rule bstep.fire) (simp add: u_def)
  define v where "v = u\<lparr>w_armed := as @ bs, w_fired := b_timerGen (w_b w) # w_fired u\<rparr>"
  have "chan_inv v" "b_pending (w_b v) = Some ev" "current_fired v = [b_timerGen (w_b v)]"
    using assms by (simp_all add: v_def u_def chan_inv_def current_fired_def)
  from fired_delivers [OF this] obtain w' where "bstep v w'" "w_emits w' = w_emits v"
    "b_pending (w_b w') = None" "w_log w' = (w_now v, ev) # w_log v" by blast
  then have "bstep\<^sup>*\<^sup>* w w' \<and> w_emits w' = w_emits w \<and> b_pending (w_b w') = None \<and>
    w_log w' = (max (w_now w) (window_end w), ev) # w_log w"
    using u v unfolding v_def [symmetric]
    by (auto simp: v_def u_def intro: converse_rtranclp_into_rtranclp)
  then show ?thesis by blast
qed

text \<open>
  C28. No scope is lost to coalescing: in every reachable state the last emitted scope either is
  the last broadcast, or is pending and the timer, the clock and the callback alone lead to a
  state where it is the last broadcast, at the end of the window.
\<close>

theorem last_emit_broadcast:
  assumes "initial w0" "bstep\<^sup>*\<^sup>* w0 w" "w_emits w \<noteq> []"
  shows "\<exists>w' t. bstep\<^sup>*\<^sup>* w w' \<and> w_emits w' = w_emits w \<and> b_pending (w_b w') = None \<and>
    hd (w_log w') = (t, hd (w_emits w)) \<and> t \<le> max (w_now w) (window_end w)"
proof -
  have inv: "rate_inv w" "chan_inv w"
    using assms limiter.inv_reachable channels.inv_reachable by blast+
  show ?thesis
  proof (cases "b_pending (w_b w)")
    case None
    with inv(1) assms(3) have "w_log w \<noteq> []" "snd (hd (w_log w)) = hd (w_emits w)"
      "fst (hd (w_log w)) \<le> w_now w"
      by (auto simp: rate_inv_def last_kept_def log_ok_def)
    then have "hd (w_log w) = (fst (hd (w_log w)), hd (w_emits w)) \<and>
        fst (hd (w_log w)) \<le> max (w_now w) (window_end w)" by (metis max.coboundedI1 prod.collapse)
    then show ?thesis using None by blast
  next
    case (Some ev)
    have ev: "ev = hd (w_emits w)"
      using inv(1) assms(3) Some by (simp add: rate_inv_def last_kept_def)
    from inv(1) Some obtain i where
      "current w = [(i, b_timerGen (w_b w), window_end w)] \<and> current_fired w = [] \<or>
         current_fired w = [b_timerGen (w_b w)]"
      by (auto simp: rate_inv_def timer_live_def split: option.splits)
    then show ?thesis
    proof
      assume "current w = [(i, b_timerGen (w_b w), window_end w)] \<and> current_fired w = []"
      with armed_delivers [OF inv(2) Some] ev show ?thesis by fastforce
    next
      assume "current_fired w = [b_timerGen (w_b w)]"
      from fired_delivers [OF inv(2) Some this] obtain w' where "bstep w w'" "w_emits w' = w_emits w"
        "b_pending (w_b w') = None" "w_log w' = (w_now w, ev) # w_log w" by blast
      then have "bstep\<^sup>*\<^sup>* w w' \<and> w_emits w' = w_emits w \<and> b_pending (w_b w') = None \<and>
          hd (w_log w') = (w_now w, hd (w_emits w)) \<and> w_now w \<le> max (w_now w) (window_end w)"
        using ev by (simp add: r_into_rtranclp)
      then show ?thesis by blast
    qed
  qed
qed

theorem last_emit_broadcast_witness:
  "\<exists>w' t. bstep\<^sup>*\<^sup>* run2 w' \<and> b_pending (w_b w') = None \<and> hd (w_log w') = (t, ''index'') \<and> t \<le> 15"
proof -
  have "w_emits run2 \<noteq> []" "hd (w_emits run2) = ''index''" "max (w_now run2) (window_end run2) = 15"
    by (simp_all add: run_simps window_end_def)
  then show ?thesis using last_emit_broadcast [OF initial_run0 reach_run2] by metis
qed

text \<open>
  No operation panics: a send never meets a closed channel and no channel is closed twice,
  so \<open>Emit\<close>, a callback of any generation and any \<open>unsubscribe\<close> return in every reachable state,
  and no buffer ever holds more than \<open>broadcasterBufferCap\<close> events.
\<close>

theorem broadcaster_never_panics:
  assumes "initial w0" "bstep\<^sup>*\<^sup>* w0 w"
  shows "Emit s w \<noteq> None \<and> flushTrailing gen w \<noteq> None \<and> unsubscribe ch w \<noteq> None \<and> bufs_ok (w_chans w)"
proof -
  have "chan_inv w" using assms channels.inv_reachable by blast
  then show ?thesis
    using Emit_total flush_total unsubscribe_total by (metis chan_inv_def option.distinct(1))
qed

theorem broadcaster_never_panics_witness:
  "Emit ''x'' run2 \<noteq> None \<and> flushTrailing 1 run2 \<noteq> None \<and> unsubscribe 0 run2 \<noteq> None"
  using broadcaster_never_panics [OF initial_run0 reach_run2] by blast

text \<open>
  A leading \<open>Emit\<close> delivers the event to exactly the subscribers, each at the end of its
  buffer unless the buffer is full, and leaves every other channel alone.
\<close>

theorem Emit_delivers:
  assumes "initial w0" "bstep\<^sup>*\<^sup>* w0 w" "leading w"
  shows "\<exists>w'. Emit s w = Some w' \<and> w_log w' = (w_now w, s) # w_log w \<and>
    (\<forall>ch. map_of (w_chans w') ch =
       (if ch \<in> set (b_subs (w_b w)) then map_option (deliver s) (map_of (w_chans w) ch)
        else map_of (w_chans w) ch))"
proof -
  have "chan_inv w" using assms channels.inv_reachable by blast
  then obtain m where "broadcastLocked s (b_subs (w_b w)) (w_chans w) = Some m"
    "\<forall>ch. map_of m ch = (if ch \<in> set (b_subs (w_b w)) then map_option (deliver s) (map_of (w_chans w) ch)
        else map_of (w_chans w) ch)"
    using broadcastLocked_open [of "b_subs (w_b w)" "w_chans w" s] by (auto simp: chan_inv_def)
  then show ?thesis using assms(3) by (simp add: Emit_leading)
qed

theorem Emit_delivers_witness:
  "\<exists>w'. Emit ''late'' run3 = Some w' \<and>
     map_of (w_chans w') 0 = Some \<lparr>ch_buf = [''sync'', ''late''], ch_closed = False\<rparr>"
proof -
  have "leading run3" "map_of (w_chans run3) 0 = Some \<lparr>ch_buf = [''sync''], ch_closed = False\<rparr>"
    "0 \<in> set (b_subs (w_b run3))"
    by (simp_all add: run_simps leading_def)
  then show ?thesis
    using Emit_delivers [OF initial_run0 reach_run3, of "''late''"] by (auto simp: deliver_def)
qed

end
