(* ===== verification/TTL_Cache.thy ===== *)
theory TTL_Cache
  imports Prelude
begin

text \<open>
  The usage result cache of the server (\<open>internal/server/usage_cache.go\<close>) and the filter it is
  keyed by (\<open>internal/db/usage.go\<close>). \<open>render\<close> stands for \<open>fmt.Sprintf("%#v", f)\<close> and \<open>query\<close> for
  the database call of a request that read the clock at the given instant. The locale
  \<open>ttl_store\<close> is the contract the two cached endpoints rely on.
\<close>

section \<open>The cache\<close>

abbreviation usageCacheTTL :: int where "usageCacheTTL \<equiv> 10 * minute"
abbreviation usageCacheMaxEntries :: nat where "usageCacheMaxEntries \<equiv> 256"

record 'v ttlCacheEntry =
  e_value :: 'v
  e_expires :: time

record 'v ttlCache =
  c_ttl :: int
  c_maxN :: nat
  c_entries :: "(string, 'v ttlCacheEntry) gomap"

definition newTTLCache :: "int \<Rightarrow> nat \<Rightarrow> 'v ttlCache" where
  "newTTLCache ttl maxN = \<lparr>c_ttl = ttl, c_maxN = maxN, c_entries = []\<rparr>"

definition get_entry :: "string \<Rightarrow> time \<Rightarrow> 'v ttlCache \<Rightarrow> 'v ttlCache \<times> 'v option" where
  "get_entry key now c =
     (case map_of (c_entries c) key of
        None \<Rightarrow> (c, None)
      | Some e \<Rightarrow>
          if \<not> now < e_expires e then (c\<lparr>c_entries := AList.delete key (c_entries c)\<rparr>, None)
          else (c, Some (e_value e)))"

text \<open>The inner loop of \<open>evictLocked\<close>: the first entry, in iteration order, of least expiry.\<close>

fun soonest :: "string \<times> time \<Rightarrow> (string, 'v ttlCacheEntry) gomap \<Rightarrow> string \<times> time" where
  "soonest old [] = old"
| "soonest (oldestKey, oldest) ((k, e) # m) =
     soonest (if e_expires e < oldest then (k, e_expires e) else (oldestKey, oldest)) m"

lemma soonest_mem: "fst (soonest old m) = fst old \<or> fst (soonest old m) \<in> fst ` set m"
  by (induction old m rule: soonest.induct) (auto split: if_splits)

lemma length_delete: "k \<in> fst ` set m \<Longrightarrow> length (AList.delete k m) < length m"
proof (induction m)
  case (Cons a m)
  then show ?case using length_delete_le [of k m] by (cases a) auto
qed simp

function evict_full :: "nat \<Rightarrow> (string, 'v ttlCacheEntry) gomap \<Rightarrow> (string, 'v ttlCacheEntry) gomap" where
  "evict_full maxN m =
     (if length m < maxN then m
      else case m of
             [] \<Rightarrow> m
           | (k, e) # m' \<Rightarrow> evict_full maxN (AList.delete (fst (soonest (k, e_expires e) m')) m))"
  by pat_completeness auto
termination
proof (relation "measure (\<lambda>(_, m). length m)")
  fix maxN :: nat and m :: "(string, 'v ttlCacheEntry) gomap" and x k e m'
  assume m: "m = x # m'" "(k, e) = x"
  then have "fst (soonest (k, e_expires e) m') \<in> fst ` set m"
    using soonest_mem [of "(k, e_expires e)" m'] by force
  then have "length (AList.delete (fst (soonest (k, e_expires e) m')) m) < length m"
    by (rule length_delete)
  then show "((maxN, AList.delete (fst (soonest (k, e_expires e) m')) m), maxN, m)
      \<in> measure (\<lambda>(_, m). length m)"
    by simp
qed simp

declare evict_full.simps [simp del]

lemma evict_full_done: "length m < n \<or> m = [] \<Longrightarrow> evict_full n m = m"
  by (subst evict_full.simps) auto

definition evictLocked :: "time \<Rightarrow> 'v ttlCache \<Rightarrow> 'v ttlCache" where
  "evictLocked now c =
     c\<lparr>c_entries := evict_full (c_maxN c) (filter (\<lambda>(k, e). now < e_expires e) (c_entries c))\<rparr>"

definition set_entry :: "string \<Rightarrow> 'v \<Rightarrow> time \<Rightarrow> 'v ttlCache \<Rightarrow> 'v ttlCache" where
  "set_entry key v now c =
     (let c = evictLocked now c in
      c\<lparr>c_entries := AList.update key \<lparr>e_value = v, e_expires = now + c_ttl c\<rparr> (c_entries c)\<rparr>)"

section \<open>Eviction\<close>

lemma soonest_least:
  "snd (soonest old m) \<le> snd old \<and> (\<forall>(k, e) \<in> set m. snd (soonest old m) \<le> e_expires e)"
proof (induction old m rule: soonest.induct)
  case (2 ok ot k e m)
  define old where "old = (if e_expires e < ot then (k, e_expires e) else (ok, ot))"
  have "snd old \<le> ot" "snd old \<le> e_expires e" by (simp_all add: old_def)
  with 2 show ?case by (fastforce simp: old_def [symmetric])
qed simp

lemma soonest_entry:
  "soonest (ok, ot) m = (k, t) \<Longrightarrow> (k, t) = (ok, ot) \<or> (\<exists>e. (k, e) \<in> set m \<and> e_expires e = t)"
proof (induction "(ok, ot)" m arbitrary: ok ot rule: soonest.induct)
  case (2 ok ot k' e m)
  show ?case
  proof (cases "e_expires e < ot")
    case True
    with 2 have "(k, t) = (k', e_expires e) \<or> (\<exists>e. (k, e) \<in> set m \<and> e_expires e = t)" by simp
    then show ?thesis by auto
  next
    case False
    with 2 have "(k, t) = (ok, ot) \<or> (\<exists>e. (k, e) \<in> set m \<and> e_expires e = t)" by simp
    then show ?thesis by auto
  qed
qed simp

text \<open>The entry \<open>evictLocked\<close> picks is one of the map, of least expiry.\<close>

lemma soonest_pick:
  assumes "m = (k, e) # m'"
  shows "\<exists>e'. (fst (soonest (k, e_expires e) m'), e') \<in> set m \<and> (\<forall>(_, x) \<in> set m. e_expires e' \<le> e_expires x)"
proof -
  obtain k1 t where s: "soonest (k, e_expires e) m' = (k1, t)" by fastforce
  from soonest_entry [OF s] obtain e' where "(k1, e') \<in> set m" "e_expires e' = t"
    using assms by auto
  moreover have "\<forall>(_, x) \<in> set m. t \<le> e_expires x"
    using soonest_least [of "(k, e_expires e)" m'] s assms by auto
  ultimately show ?thesis using s by auto
qed

lemma delete_set: "gomap_ok m \<Longrightarrow> (k, e) \<in> set m \<Longrightarrow> set (AList.delete k m) = set m - {(k, e)}"
  by (auto simp: AList.delete_eq gomap_ok_def dest: eq_key_imp_eq_value)

lemma length_delete_one: "gomap_ok m \<Longrightarrow> (k, e) \<in> set m \<Longrightarrow> length (AList.delete k m) = length m - 1"
proof -
  assume ok: "gomap_ok m" and mem: "(k, e) \<in> set m"
  have "card (set (AList.delete k m)) = card (set m) - 1"
    using delete_set [OF ok mem] mem by simp
  then show ?thesis
    using ok gomap_ok_delete [OF ok, of k] by (simp add: gomap_ok_def distinct_map distinct_card)
qed

definition soonest_out :: "(string, 'v ttlCacheEntry) gomap \<Rightarrow> (string, 'v ttlCacheEntry) gomap \<Rightarrow> bool" where
  "soonest_out m r \<longleftrightarrow> set r \<subseteq> set m \<and>
     (\<forall>(_, x) \<in> set m - set r. \<forall>(_, y) \<in> set r. e_expires x \<le> e_expires y)"

lemma evict_full_correct:
  "gomap_ok m \<Longrightarrow> gomap_ok (evict_full n m) \<and> length (evict_full n m) = min (length m) (n - 1)
     \<and> soonest_out m (evict_full n m)"
proof (induction n m rule: evict_full.induct)
  case (1 n m)
  show ?case
  proof (cases "length m < n \<or> m = []")
    case True
    then show ?thesis using "1.prems" by (auto simp: soonest_out_def evict_full_done)
  next
    case False
    then obtain k e m' where m: "m = (k, e) # m'" by (cases m) auto
    define out where "out = fst (soonest (k, e_expires e) m')"
    obtain e' where e': "(out, e') \<in> set m" "\<forall>(_, x) \<in> set m. e_expires e' \<le> e_expires x"
      using soonest_pick [OF m] unfolding out_def by blast
    define d where "d = AList.delete out m"
    have step: "evict_full n m = evict_full n d"
      using False by (subst evict_full.simps) (simp add: m d_def out_def)
    have ok: "gomap_ok d" and set_d: "set d = set m - {(out, e')}" and len: "length d = length m - 1"
      unfolding d_def using "1.prems" e'(1) by (simp_all add: gomap_ok_delete delete_set length_delete_one)
    have ih: "gomap_ok (evict_full n d) \<and> length (evict_full n d) = min (length d) (n - 1)
        \<and> soonest_out d (evict_full n d)"
      using 1(1) [OF _ m refl] False ok by (simp add: d_def out_def m)
    have "soonest_out m (evict_full n d)"
    proof (unfold soonest_out_def, intro conjI)
      show "set (evict_full n d) \<subseteq> set m" using ih set_d by (auto simp: soonest_out_def)
      have "e_expires x \<le> e_expires y"
        if x: "(a, x) \<in> set m" "(a, x) \<notin> set (evict_full n d)" and y: "(b, y) \<in> set (evict_full n d)" for a b x y
      proof (cases "(a, x) = (out, e')")
        case True
        have "(b, y) \<in> set m" using y ih set_d by (auto simp: soonest_out_def)
        then show ?thesis using e'(2) True by auto
      next
        case False
        then have "(a, x) \<in> set d - set (evict_full n d)" using x set_d by auto
        then show ?thesis using ih y unfolding soonest_out_def by blast
      qed
      then show "\<forall>(_, x) \<in> set m - set (evict_full n d). \<forall>(_, y) \<in> set (evict_full n d). e_expires x \<le> e_expires y"
        by auto
    qed
    moreover have "length (evict_full n d) = min (length m) (n - 1)"
    proof -
      have "n - 1 \<le> length m - 1" "n - 1 \<le> length m" using False by auto
      then show ?thesis using ih len by (metis min.absorb2)
    qed
    ultimately show ?thesis using ih step by simp
  qed
qed

section \<open>The contract of the cached endpoints\<close>

text \<open>
  A store whose lookups return unexpired entries and whose writes add one entry and lose
  others at most. \<open>entry s k\<close> is the value and the expiry of key \<open>k\<close>.
\<close>

locale ttl_store =
  fixes lookup :: "'k \<Rightarrow> time \<Rightarrow> 's \<Rightarrow> 's \<times> 'v option"
    and store :: "'k \<Rightarrow> 'v \<Rightarrow> time \<Rightarrow> 's \<Rightarrow> 's"
    and entry :: "'s \<Rightarrow> 'k \<Rightarrow> ('v \<times> time) option"
    and ttl_of :: "'s \<Rightarrow> int"
    and inv :: "'s \<Rightarrow> bool"
  assumes lookup_hit: "inv s \<Longrightarrow> lookup k now s = (s', Some v) \<Longrightarrow> \<exists>e. entry s k = Some (v, e) \<and> now < e"
    and lookup_fewer: "inv s \<Longrightarrow> entry (fst (lookup k now s)) k' = Some x \<Longrightarrow> entry s k' = Some x"
    and lookup_inv: "inv s \<Longrightarrow> inv (fst (lookup k now s)) \<and> ttl_of (fst (lookup k now s)) = ttl_of s"
    and store_fewer: "inv s \<Longrightarrow> entry (store k v now s) k' = Some x \<Longrightarrow>
       (k' = k \<and> x = (v, now + ttl_of s)) \<or> entry s k' = Some x"
    and store_inv: "inv s \<Longrightarrow> inv (store k v now s) \<and> ttl_of (store k v now s) = ttl_of s"
begin

text \<open>Every entry holds what \<open>origin\<close> gave for its key one lifetime before it expires.\<close>

definition coherent :: "('k \<Rightarrow> time \<Rightarrow> 'v \<Rightarrow> bool) \<Rightarrow> 's \<Rightarrow> bool" where
  "coherent origin s \<longleftrightarrow> inv s \<and> (\<forall>k v e. entry s k = Some (v, e) \<longrightarrow> origin k (e - ttl_of s) v)"

lemma coherent_lookup: "coherent origin s \<Longrightarrow> coherent origin (fst (lookup k now s))"
  unfolding coherent_def using lookup_fewer lookup_inv by metis

lemma coherent_store: "coherent origin s \<Longrightarrow> origin k now v \<Longrightarrow> coherent origin (store k v now s)"
  unfolding coherent_def using store_fewer store_inv
  by (metis add_diff_cancel_right' prod.inject)

lemma coherent_hit:
  "coherent origin s \<Longrightarrow> lookup k now s = (s', Some v) \<Longrightarrow> \<exists>t. now < t + ttl_of s \<and> origin k t v"
proof -
  assume c: "coherent origin s" and h: "lookup k now s = (s', Some v)"
  then obtain e where "entry s k = Some (v, e)" "now < e" using lookup_hit coherent_def by blast
  with c have "now < (e - ttl_of s) + ttl_of s \<and> origin k (e - ttl_of s) v" by (simp add: coherent_def)
  then show ?thesis by blast
qed

end

definition cache_entry :: "'v ttlCache \<Rightarrow> string \<Rightarrow> ('v \<times> time) option" where
  "cache_entry c k = map_option (\<lambda>e. (e_value e, e_expires e)) (map_of (c_entries c) k)"

definition cache_ok :: "'v ttlCache \<Rightarrow> bool" where
  "cache_ok c = gomap_ok (c_entries c)"

lemma gomap_sub: "gomap_ok m \<Longrightarrow> gomap_ok r \<Longrightarrow> set r \<subseteq> set m \<Longrightarrow> map_of r k = Some e \<Longrightarrow> map_of m k = Some e"
  by (metis gomap_mem_map_of subsetD)

definition live_entries :: "time \<Rightarrow> 'v ttlCache \<Rightarrow> (string, 'v ttlCacheEntry) gomap" where
  "live_entries now c = filter (\<lambda>(k, e). now < e_expires e) (c_entries c)"

lemma live_subset: "set (live_entries now c) \<subseteq> set (c_entries c)"
  by (auto simp: live_entries_def)

lemma evictLocked_entries:
  assumes "cache_ok c"
  shows "cache_ok (evictLocked now c)" "soonest_out (live_entries now c) (c_entries (evictLocked now c))"
    "length (c_entries (evictLocked now c)) = min (length (live_entries now c)) (c_maxN c - 1)"
  using evict_full_correct [of "live_entries now c" "c_maxN c"] assms
  by (simp_all add: evictLocked_def cache_ok_def live_entries_def gomap_ok_filter)

lemma evictLocked_fewer:
  "cache_ok c \<Longrightarrow> cache_entry (evictLocked now c) k = Some x \<Longrightarrow> cache_entry c k = Some x"
proof -
  assume ok: "cache_ok c" and "cache_entry (evictLocked now c) k = Some x"
  moreover have "set (c_entries (evictLocked now c)) \<subseteq> set (c_entries c)"
    using evictLocked_entries(2) [OF ok, of now] live_subset unfolding soonest_out_def by blast
  ultimately show ?thesis
    using gomap_sub [of "c_entries c" "c_entries (evictLocked now c)" k] evictLocked_entries(1) [OF ok, of now]
    by (auto simp: cache_entry_def cache_ok_def)
qed

lemma c_ttl_evictLocked [simp]: "c_ttl (evictLocked now c) = c_ttl c"
  by (simp add: evictLocked_def)

lemma c_ttl_set [simp]: "c_ttl (set_entry k v now c) = c_ttl c"
  by (simp add: set_entry_def Let_def)

lemma cache_entry_set:
  "cache_entry (set_entry k v now c) k' =
     (if k' = k then Some (v, now + c_ttl c) else cache_entry (evictLocked now c) k')"
  by (simp add: set_entry_def Let_def cache_entry_def map_of_update)

interpretation cache: ttl_store get_entry set_entry cache_entry c_ttl cache_ok
proof unfold_locales
  show "cache_entry (set_entry k v now s) k' = Some x \<Longrightarrow>
      k' = k \<and> x = (v, now + c_ttl s) \<or> cache_entry s k' = Some x" if "cache_ok s" for s :: "'v ttlCache" and k v now k' x
    using evictLocked_fewer [OF that, of now k' x] by (auto simp: cache_entry_set split: if_splits)
  show "cache_ok (set_entry k v now s) \<and> c_ttl (set_entry k v now s) = c_ttl s" if "cache_ok s"
    for s :: "'v ttlCache" and k v now
    using that evictLocked_entries(1) [OF that, of now]
    by (simp add: set_entry_def Let_def cache_ok_def gomap_ok_update)
qed (auto simp: get_entry_def cache_entry_def cache_ok_def gomap_ok_delete map_of_delete
    split: option.splits if_splits)

section \<open>The cached endpoints\<close>

record UsageFilter =
  uf_From :: string
  uf_To :: string
  uf_Agent :: string
  uf_Project :: string
  uf_Machine :: string
  uf_GitBranch :: string
  uf_Model :: string
  uf_ExcludeProject :: string
  uf_ExcludeAgent :: string
  uf_ExcludeModel :: string
  uf_Timezone :: string
  uf_MinUserMessages :: int
  uf_ExcludeOneShot :: bool
  uf_ExcludeAutomated :: bool
  uf_ActiveSince :: string
  uf_Breakdowns :: bool

definition usageFilterKey :: "(UsageFilter \<Rightarrow> string) \<Rightarrow> UsageFilter \<Rightarrow> string" where
  "usageFilterKey render f = render f"

definition topSessionsKey :: "(UsageFilter \<Rightarrow> string) \<Rightarrow> UsageFilter \<Rightarrow> int \<Rightarrow> string" where
  "topSessionsKey render f limit = usageFilterKey render f @ ''|limit='' @ itoa limit"

definition cachedDailyUsage ::
  "(UsageFilter \<Rightarrow> string) \<Rightarrow> (time \<Rightarrow> UsageFilter \<Rightarrow> 'e + 'v) \<Rightarrow> time \<Rightarrow> UsageFilter \<Rightarrow> bool \<Rightarrow>
   'v ttlCache option \<Rightarrow> 'v ttlCache option \<times> ('e + 'v)" where
  "cachedDailyUsage render query now f noCache dailyUsageCache =
     (case dailyUsageCache of
        None \<Rightarrow> (None, query now f)
      | Some c \<Rightarrow>
          (let key = usageFilterKey render f;
               (c, hit) = (if \<not> noCache then get_entry key now c else (c, None)) in
           case hit of
             Some v \<Rightarrow> (Some c, Inr v)
           | None \<Rightarrow>
               (case query now f of
                  Inl err \<Rightarrow> (Some c, Inl err)
                | Inr v \<Rightarrow> (Some (set_entry key v now c), Inr v))))"

definition cachedTopSessions ::
  "(UsageFilter \<Rightarrow> string) \<Rightarrow> (time \<Rightarrow> UsageFilter \<Rightarrow> int \<Rightarrow> 'e + 'v) \<Rightarrow> time \<Rightarrow> UsageFilter \<Rightarrow> int \<Rightarrow>
   bool \<Rightarrow> 'v ttlCache option \<Rightarrow> 'v ttlCache option \<times> ('e + 'v)" where
  "cachedTopSessions render query now f limit noCache topSessionsCache =
     (case topSessionsCache of
        None \<Rightarrow> (None, query now f limit)
      | Some c \<Rightarrow>
          (let key = topSessionsKey render f limit;
               (c, hit) = (if \<not> noCache then get_entry key now c else (c, None)) in
           case hit of
             Some v \<Rightarrow> (Some c, Inr v)
           | None \<Rightarrow>
               (case query now f limit of
                  Inl err \<Rightarrow> (Some c, Inl err)
                | Inr v \<Rightarrow> (Some (set_entry key v now c), Inr v))))"

lemma topSessionsKey_inject:
  assumes "inj_on render F" "f \<in> F" "g \<in> F"
  shows "topSessionsKey render f l = topSessionsKey render g m \<longleftrightarrow> f = g \<and> l = m"
proof
  assume eq: "topSessionsKey render f l = topSessionsKey render g m"
  have no: "CHR ''='' \<notin> set (itoa i)" for i
    using itoa_chars [of "CHR ''=''" i] by (auto simp: is_digit_def byte_def)
  have tail: "takeWhile (\<lambda>c. c \<noteq> CHR ''='') (rev (topSessionsKey render h i)) = rev (itoa i)" for h i
  proof -
    have split: "rev (topSessionsKey render h i)
        = rev (itoa i) @ CHR ''='' # rev (usageFilterKey render h @ ''|limit'')"
      by (simp add: topSessionsKey_def)
    have "c \<noteq> CHR ''=''" if "c \<in> set (rev (itoa i))" for c using no that by auto
    then show ?thesis unfolding split by (subst takeWhile_append2) auto
  qed
  from eq have "rev (itoa l) = rev (itoa m)" by (metis tail)
  then have "l = m" by simp
  with eq assms show "f = g \<and> l = m" by (simp add: topSessionsKey_def usageFilterKey_def inj_on_eq_iff)
qed simp

text \<open>One request of either endpoint, as a lookup, a query and a store under its key.\<close>

definition request ::
  "'e + 'v \<Rightarrow> string \<Rightarrow> time \<Rightarrow> bool \<Rightarrow> 'v ttlCache \<Rightarrow> 'v ttlCache option \<times> ('e + 'v)" where
  "request result key now noCache c =
     (let (c, hit) = (if \<not> noCache then get_entry key now c else (c, None)) in
      case hit of
        Some v \<Rightarrow> (Some c, Inr v)
      | None \<Rightarrow> (case result of Inl err \<Rightarrow> (Some c, Inl err)
                 | Inr v \<Rightarrow> (Some (set_entry key v now c), Inr v)))"

lemma request_cached:
  "cachedDailyUsage render query now f noCache (Some c)
     = request (query now f) (usageFilterKey render f) now noCache c"
  "cachedTopSessions render query' now f limit noCache (Some c)
     = request (query' now f limit) (topSessionsKey render f limit) now noCache c"
  by (simp_all add: request_def cachedDailyUsage_def cachedTopSessions_def Let_def)

lemma request_coherent:
  assumes coh: "cache.coherent origin c" and new: "\<And>v. result = Inr v \<Longrightarrow> origin key now v"
    and pos: "0 < c_ttl c"
  shows "\<exists>c' r. request result key now noCache c = (Some c', r) \<and> cache.coherent origin c' \<and>
    c_ttl c' = c_ttl c \<and> (\<forall>v. r = Inr v \<longrightarrow> (\<exists>t. now < t + c_ttl c \<and> origin key t v))"
proof -
  obtain c1 hit where get: "(if \<not> noCache then get_entry key now c else (c, None)) = (c1, hit)" by fastforce
  have coh1: "cache.coherent origin c1"
    using get coh cache.coherent_lookup [OF coh, of key now] by (auto split: if_splits)
  have ttl1: "c_ttl c1 = c_ttl c"
    using get by (auto simp: get_entry_def split: if_splits option.splits)
  show ?thesis
  proof (cases hit)
    case (Some v)
    then have "get_entry key now c = (c1, Some v)" using get by (auto split: if_splits)
    from cache.coherent_hit [OF coh this] show ?thesis
      using get Some coh1 ttl1 by (simp add: request_def)
  next
    case None
    show ?thesis
    proof (cases result)
      case (Inl err)
      then show ?thesis using get None coh1 ttl1 by (simp add: request_def)
    next
      case (Inr v)
      have "\<exists>t. now < t + c_ttl c \<and> origin key t v"
        using pos new Inr by (intro exI [of _ now]) simp
      moreover have "cache.coherent origin (set_entry key v now c1)"
        using cache.coherent_store [OF coh1, of key now v] new Inr by blast
      ultimately show ?thesis using get None Inr ttl1 by (auto simp: request_def)
    qed
  qed
qed

text \<open>A server that answers requests one after the other, and what it answered.\<close>

fun daily_run ::
  "(UsageFilter \<Rightarrow> string) \<Rightarrow> (time \<Rightarrow> UsageFilter \<Rightarrow> 'e + 'v) \<Rightarrow> (time \<times> UsageFilter \<times> bool) list \<Rightarrow>
   'v ttlCache option \<Rightarrow> (time \<times> UsageFilter \<times> ('e + 'v)) list" where
  "daily_run render query [] c = []"
| "daily_run render query ((now, f, noCache) # rs) c =
     (let (c', r) = cachedDailyUsage render query now f noCache c in
      (now, f, r) # daily_run render query rs c')"

fun top_run ::
  "(UsageFilter \<Rightarrow> string) \<Rightarrow> (time \<Rightarrow> UsageFilter \<Rightarrow> int \<Rightarrow> 'e + 'v) \<Rightarrow>
   (time \<times> UsageFilter \<times> int \<times> bool) list \<Rightarrow> 'v ttlCache option \<Rightarrow>
   (time \<times> UsageFilter \<times> int \<times> ('e + 'v)) list" where
  "top_run render query [] c = []"
| "top_run render query ((now, f, limit, noCache) # rs) c =
     (let (c', r) = cachedTopSessions render query now f limit noCache c in
      (now, f, limit, r) # top_run render query rs c')"

lemma coherent_new: "cache.coherent origin (newTTLCache ttl n)"
  by (simp add: cache.coherent_def cache_ok_def newTTLCache_def cache_entry_def)

lemma daily_run_fresh:
  assumes "cache.coherent (\<lambda>k t v. t \<in> T \<and> (\<exists>f \<in> F. usageFilterKey render f = k \<and> query t f = Inr v)) c"
    and "0 < c_ttl c" and "\<forall>(t, f, _) \<in> set rs. t \<in> T \<and> f \<in> F" and inj: "inj_on render F"
    and "(now, f, Inr v) \<in> set (daily_run render query rs (Some c))"
  shows "\<exists>t \<in> T. now < t + c_ttl c \<and> query t f = Inr v"
  using assms(1-3,5)
proof (induction rs arbitrary: c)
  case (Cons a rs)
  obtain t0 f0 nc where a: "a = (t0, f0, nc)" by (cases a)
  obtain c' r where step: "request (query t0 f0) (usageFilterKey render f0) t0 nc c = (Some c', r)"
      "cache.coherent (\<lambda>k t v. t \<in> T \<and> (\<exists>f \<in> F. usageFilterKey render f = k \<and> query t f = Inr v)) c'"
      "c_ttl c' = c_ttl c"
      "\<forall>v. r = Inr v \<longrightarrow> (\<exists>t. t0 < t + c_ttl c \<and> t \<in> T \<and> (\<exists>f \<in> F. usageFilterKey render f = usageFilterKey render f0 \<and> query t f = Inr v))"
    using request_coherent [OF Cons.prems(1) _ Cons.prems(2), where result = "query t0 f0" and key = "usageFilterKey render f0" and now = t0 and noCache = nc]
      Cons.prems(3) a by auto
  then have "(now, f, Inr v) = (t0, f0, r) \<or> (now, f, Inr v) \<in> set (daily_run render query rs (Some c'))"
    using Cons.prems(4) a by (simp add: request_cached)
  then show ?case
  proof
    assume "(now, f, Inr v) = (t0, f0, r)"
    then obtain t g where "now < t + c_ttl c" "t \<in> T" "usageFilterKey render g = usageFilterKey render f" "query t g = Inr v" "g \<in> F"
      using step(4) by auto
    moreover have "f \<in> F" using Cons.prems(3) a \<open>(now, f, Inr v) = (t0, f0, r)\<close> by auto
    ultimately show ?thesis using inj by (auto simp: usageFilterKey_def inj_on_def)
  next
    assume "(now, f, Inr v) \<in> set (daily_run render query rs (Some c'))"
    then show ?thesis using Cons.IH [OF step(2)] step(3) Cons.prems by auto
  qed
qed simp

lemma top_run_fresh:
  assumes "cache.coherent (\<lambda>k t v. t \<in> T \<and> (\<exists>f \<in> F. \<exists>l. topSessionsKey render f l = k \<and> query t f l = Inr v)) c"
    and "0 < c_ttl c" and "\<forall>(t, f, _) \<in> set rs. t \<in> T \<and> f \<in> F" and inj: "inj_on render F"
    and "(now, f, l, Inr v) \<in> set (top_run render query rs (Some c))"
  shows "\<exists>t \<in> T. now < t + c_ttl c \<and> query t f l = Inr v"
  using assms(1-3,5)
proof (induction rs arbitrary: c)
  case (Cons a rs)
  obtain t0 f0 l0 nc where a: "a = (t0, f0, l0, nc)" by (cases a)
  obtain c' r where step: "request (query t0 f0 l0) (topSessionsKey render f0 l0) t0 nc c = (Some c', r)"
      "cache.coherent (\<lambda>k t v. t \<in> T \<and> (\<exists>f \<in> F. \<exists>l. topSessionsKey render f l = k \<and> query t f l = Inr v)) c'"
      "c_ttl c' = c_ttl c"
      "\<forall>v. r = Inr v \<longrightarrow> (\<exists>t. t0 < t + c_ttl c \<and> t \<in> T \<and> (\<exists>f \<in> F. \<exists>l. topSessionsKey render f l = topSessionsKey render f0 l0 \<and> query t f l = Inr v))"
    using request_coherent [OF Cons.prems(1) _ Cons.prems(2), where result = "query t0 f0 l0" and key = "topSessionsKey render f0 l0" and now = t0 and noCache = nc]
      Cons.prems(3) a by auto
  then have "(now, f, l, Inr v) = (t0, f0, l0, r) \<or> (now, f, l, Inr v) \<in> set (top_run render query rs (Some c'))"
    using Cons.prems(4) a by (simp add: request_cached)
  then show ?case
  proof
    assume "(now, f, l, Inr v) = (t0, f0, l0, r)"
    then obtain t g m where "now < t + c_ttl c" "t \<in> T" "topSessionsKey render g m = topSessionsKey render f l" "query t g m = Inr v" "g \<in> F"
      using step(4) by auto
    moreover have "f \<in> F" using Cons.prems(3) a \<open>(now, f, l, Inr v) = (t0, f0, l0, r)\<close> by auto
    ultimately show ?thesis using inj topSessionsKey_inject by metis
  next
    assume "(now, f, l, Inr v) \<in> set (top_run render query rs (Some c'))"
    then show ?thesis using Cons.IH [OF step(2)] step(3) Cons.prems by auto
  qed
qed simp

section \<open>Properties\<close>

definition from_filter :: "string \<Rightarrow> UsageFilter" where
  "from_filter d =
     \<lparr> uf_From = d, uf_To = [], uf_Agent = [], uf_Project = [], uf_Machine = [], uf_GitBranch = [],
       uf_Model = [], uf_ExcludeProject = [], uf_ExcludeAgent = [], uf_ExcludeModel = [],
       uf_Timezone = [], uf_MinUserMessages = 0, uf_ExcludeOneShot = False,
       uf_ExcludeAutomated = False, uf_ActiveSince = [], uf_Breakdowns = False \<rparr>"

text \<open>
  Bounded staleness: whatever a server answers from its daily usage cache, through any
  sequence of requests with any \<open>noCache\<close> flags, is the result of the database for that very
  filter at a request less than one lifetime earlier. Keys never mix up filters when \<open>%#v\<close>
  renders different filters differently.
\<close>

theorem daily_usage_fresh:
  assumes "inj_on render ((fst \<circ> snd) ` set rs)" and "0 < ttl"
    and "(now, f, Inr v) \<in> set (daily_run render query rs (Some (newTTLCache ttl n)))"
  shows "\<exists>t \<in> fst ` set rs. now < t + ttl \<and> query t f = Inr v"
  using daily_run_fresh [OF coherent_new, where T = "fst ` set rs" and F = "(fst \<circ> snd) ` set rs" and rs = rs and now = now and f = f and v = v] assms
  by (force simp: newTTLCache_def)

theorem daily_usage_fresh_witness:
  "\<exists>t \<in> {10, 300 :: time}. (300::time) < t + 600 \<and>
     (Inr t :: unit + time) = Inr 10"
proof -
  let ?f = "from_filter ''2026-01-01''" and ?g = "from_filter ''2026-02-01''"
  let ?rs = "[(10, ?f, False), (20, ?g, False), (300, ?f, False)]"
  let ?q = "\<lambda>t f. Inr t :: unit + time"
  have "inj_on uf_From ((fst \<circ> snd) ` set ?rs)" by (simp add: inj_on_def from_filter_def)
  moreover have "(300, ?f, Inr 10) \<in> set (daily_run uf_From ?q ?rs (Some (newTTLCache 600 2)))"
    by (simp add: newTTLCache_def cachedDailyUsage_def usageFilterKey_def get_entry_def set_entry_def
        evictLocked_def evict_full_done from_filter_def)
  ultimately show ?thesis
    using daily_usage_fresh [of uf_From ?rs 600 300 ?f 10 ?q 2] by simp
qed

text \<open>
  The same for the top sessions, whose keys add the limit: two requests that differ in the
  filter or in the limit never share an entry.
\<close>

theorem top_sessions_fresh:
  assumes "inj_on render ((fst \<circ> snd) ` set rs)" and "0 < ttl"
    and "(now, f, l, Inr v) \<in> set (top_run render query rs (Some (newTTLCache ttl n)))"
  shows "\<exists>t \<in> fst ` set rs. now < t + ttl \<and> query t f l = Inr v"
  using top_run_fresh [OF coherent_new, where T = "fst ` set rs" and F = "(fst \<circ> snd) ` set rs" and rs = rs and now = now and f = f and l = l and v = v] assms
  by (force simp: newTTLCache_def)

lemma length_update_le: "length (AList.update k v m) \<le> Suc (length m)"
  by (induction m) auto

theorem top_sessions_fresh_witness:
  "\<exists>t \<in> {10, 20, 300 :: time}. (300::time) < t + 600 \<and>
     (Inr (t, 5) :: unit + time \<times> int) = Inr (10, 5)"
proof -
  let ?f = "from_filter ''2026-01-01''"
  let ?rs = "[(10, ?f, 5, False), (20, ?f, 6, False), (300, ?f, 5, False)]"
  let ?q = "\<lambda>t f l. Inr (t, l) :: unit + time \<times> int"
  have "inj_on uf_From ((fst \<circ> snd) ` set ?rs)" by simp
  moreover have "(300, ?f, 5, Inr (10, 5)) \<in> set (top_run uf_From ?q ?rs (Some (newTTLCache 600 3)))"
    by (simp add: newTTLCache_def cachedTopSessions_def topSessionsKey_def usageFilterKey_def
        get_entry_def set_entry_def evictLocked_def evict_full_done)
  ultimately show ?thesis
    using top_sessions_fresh [of uf_From ?rs 600 300 ?f 5 "(10, 5)" ?q 3] by simp
qed

text \<open>
  Storing a value makes it readable until its lifetime ends, keeps the size at most
  \<open>max maxN 1\<close>, and what it evicts among the unexpired entries expires no later than what it keeps.
\<close>

theorem set_entry_correct:
  assumes "cache_ok c"
  shows "snd (get_entry k now' (set_entry k v now c)) = (if now' < now + c_ttl c then Some v else None)
    \<and> length (c_entries (set_entry k v now c)) \<le> max (c_maxN c) 1
    \<and> soonest_out (live_entries now c) (c_entries (evictLocked now c))"
proof -
  have "length (c_entries (set_entry k v now c)) \<le> Suc (length (c_entries (evictLocked now c)))"
    by (simp add: set_entry_def Let_def length_update_le)
  also have "\<dots> \<le> Suc (c_maxN c - 1)"
    using evictLocked_entries(3) [OF assms, of now] by simp
  also have "\<dots> = max (c_maxN c) 1" by simp
  finally show ?thesis
    using evictLocked_entries(2) [OF assms, of now]
    by (simp add: get_entry_def set_entry_def Let_def map_of_update)
qed

theorem set_entry_correct_witness:
  "snd (get_entry ''k'' 105 (set_entry ''k'' True 100 (newTTLCache 10 0))) = Some True"
proof -
  have "cache_ok (newTTLCache 10 0)" by (simp add: cache_ok_def newTTLCache_def)
  from set_entry_correct [OF this, of "''k''" 105 True 100] show ?thesis by (simp add: newTTLCache_def)
qed

end
