(* ===== verification/Flight_Lock.thy ===== *)
theory Flight_Lock
  imports Prelude
begin

text \<open>
  The single-flight lock of the consolidation and backup workers
  (\<open>internal/consolidate/lock.go\<close>, and the same code in \<open>internal/backup/lock.go\<close>): a pid file
  created with \<open>O_EXCL\<close> and reclaimed when its pid is dead. First \<open>AcquireLock\<close> as one
  undisturbed call, then its system calls as steps of processes that interleave, start, exit and
  crash: the creation of the file, the write of the pid, the read of the file, the probe of the pid that was
  read, and the removal are steps of their own. \<open>alive\<close> stands for \<open>processAlive\<close>; a path names an inode, so that
  a write after the path was removed reaches the removed file.
\<close>

section \<open>One call\<close>

datatype LockError = MkdirFailed | OpenFailed | ErrLocked

record Lock =
  l_path :: string

abbreviation lockFile :: string where "lockFile \<equiv> ''.consolidate.lock''"

text \<open>\<open>tryCreate\<close>: the file after the call, and whether it was created, existed or could not be opened.\<close>

definition tryCreate :: "bool \<Rightarrow> int \<Rightarrow> string option \<Rightarrow> string option \<times> bool option" where
  "tryCreate open_ok pid file =
     (case file of
        Some _ \<Rightarrow> (file, Some False)
      | None \<Rightarrow> if open_ok then (Some (itoa pid), Some True) else (None, None))"

definition lockIsStale :: "(int \<Rightarrow> bool) \<Rightarrow> string option \<Rightarrow> int \<times> bool" where
  "lockIsStale alive file =
     (case file of
        None \<Rightarrow> (0, False)
      | Some data \<Rightarrow>
          (case atoi (trim_space data) of
             None \<Rightarrow> (0, False)
           | Some pid \<Rightarrow> if pid \<le> 0 then (0, False)
                         else if alive pid then (pid, False) else (pid, True)))"

text \<open>The name of the file is the one constant in which the two packages differ.\<close>

definition AcquireLock ::
  "string \<Rightarrow> (int \<Rightarrow> bool) \<Rightarrow> bool \<Rightarrow> bool \<Rightarrow> int \<Rightarrow> string \<Rightarrow> string option \<Rightarrow> string option \<times> (LockError + Lock)" where
  "AcquireLock name alive mkdir_ok open_ok pid stagingDir file =
     (if \<not> mkdir_ok then (file, Inl MkdirFailed)
      else let path = stagingDir @ ''/'' @ name in
      case tryCreate open_ok pid file of
        (file, Some True) \<Rightarrow> (file, Inr \<lparr>l_path = path\<rparr>)
      | (file, None) \<Rightarrow> (file, Inl OpenFailed)
      | (file, Some False) \<Rightarrow>
          (if snd (lockIsStale alive file)
           then (case tryCreate open_ok pid None of
                   (file, Some True) \<Rightarrow> (file, Inr \<lparr>l_path = path\<rparr>)
                 | (file, _) \<Rightarrow> (file, Inl ErrLocked))
           else (file, Inl ErrLocked)))"

definition Release :: "Lock option \<Rightarrow> string option \<Rightarrow> string option" where
  "Release l file = (case l of None \<Rightarrow> file | Some _ \<Rightarrow> None)"

section \<open>Interleaved calls\<close>

text \<open>Where a process is: what it does next.\<close>

datatype pc = Out | Start | Fill nat | Check | Probe string | Reclaim | Retry | Held nat

record FS =
  fs_path :: "nat option"
  fs_data :: "nat \<Rightarrow> string"
  fs_next :: nat
  fs_alive :: "int \<Rightarrow> bool"
  fs_pc :: "int \<Rightarrow> pc"

definition goto :: "int \<Rightarrow> pc \<Rightarrow> FS \<Rightarrow> FS" where
  "goto p l s = s\<lparr>fs_pc := (fs_pc s)(p := l)\<rparr>"

definition create_file :: "int \<Rightarrow> FS \<Rightarrow> FS" where
  "create_file p s =
     goto p (Fill (fs_next s)) (s\<lparr>fs_path := Some (fs_next s), fs_data := (fs_data s)(fs_next s := []),
                                  fs_next := fs_next s + 1\<rparr>)"

definition read_file :: "FS \<Rightarrow> string option" where
  "read_file s = map_option (fs_data s) (fs_path s)"

text \<open>The step of a live process.\<close>

definition lock_step :: "int \<Rightarrow> FS \<Rightarrow> FS" where
  "lock_step p s =
     (case fs_pc s p of
        Out \<Rightarrow> goto p Start s
      | Start \<Rightarrow> if fs_path s = None then create_file p s else goto p Check s
      | Fill i \<Rightarrow> goto p (Held i) (s\<lparr>fs_data := (fs_data s)(i := fs_data s i @ itoa p)\<rparr>)
      | Check \<Rightarrow> (case read_file s of None \<Rightarrow> goto p Out s | Some content \<Rightarrow> goto p (Probe content) s)
      | Probe content \<Rightarrow> if snd (lockIsStale (fs_alive s) (Some content)) then goto p Reclaim s else goto p Out s
      | Reclaim \<Rightarrow> goto p Retry (s\<lparr>fs_path := None\<rparr>)
      | Retry \<Rightarrow> if fs_path s = None then create_file p s else goto p Out s
      | Held i \<Rightarrow> goto p Out (s\<lparr>fs_path := None\<rparr>))"

text \<open>A crash leaves the file behind; a process exits between calls; a pid is given to a new process.\<close>

definition crash :: "int \<Rightarrow> FS \<Rightarrow> FS" where
  "crash p s = goto p Out (s\<lparr>fs_alive := (fs_alive s)(p := False)\<rparr>)"

definition exit_process :: "int \<Rightarrow> FS \<Rightarrow> FS" where
  "exit_process p s = s\<lparr>fs_alive := (fs_alive s)(p := False)\<rparr>"

definition start_process :: "int \<Rightarrow> FS \<Rightarrow> FS" where
  "start_process p s = s\<lparr>fs_alive := (fs_alive s)(p := True)\<rparr>"

definition pid_ok :: "int \<Rightarrow> bool" where
  "pid_ok p \<longleftrightarrow> 0 < p \<and> p < 2 ^ 63"

text \<open>A process that has written its pid into a lock file, at any time.\<close>

definition recorded :: "FS \<Rightarrow> int \<Rightarrow> bool" where
  "recorded s p \<longleftrightarrow> (\<exists>i < fs_next s. fs_data s i = itoa p)"

text \<open>
  Three kinds of runs: those in which only processes end that never recorded their pid (and are not between the
  creation and the write), those in which processes end between two calls, and those with crashes anywhere.
\<close>

inductive calm_step :: "FS \<Rightarrow> FS \<Rightarrow> bool" where
  calm: "pid_ok p \<Longrightarrow> fs_alive s p \<Longrightarrow> calm_step s (lock_step p s)"
| calm_start: "pid_ok p \<Longrightarrow> fs_pc s p = Out \<Longrightarrow> calm_step s (start_process p s)"
| calm_end: "pid_ok p \<Longrightarrow> \<not> recorded s p \<Longrightarrow> \<forall>i. fs_pc s p \<noteq> Fill i \<Longrightarrow> calm_step s (crash p s)"

inductive orderly_step :: "FS \<Rightarrow> FS \<Rightarrow> bool" where
  orderly: "pid_ok p \<Longrightarrow> fs_alive s p \<Longrightarrow> orderly_step s (lock_step p s)"
| orderly_exit: "pid_ok p \<Longrightarrow> fs_pc s p = Out \<Longrightarrow> orderly_step s (exit_process p s)"

inductive fs_step :: "FS \<Rightarrow> FS \<Rightarrow> bool" where
  run: "pid_ok p \<Longrightarrow> fs_alive s p \<Longrightarrow> fs_step s (lock_step p s)"
| begin_process: "pid_ok p \<Longrightarrow> fs_pc s p = Out \<Longrightarrow> fs_step s (start_process p s)"
| die: "pid_ok p \<Longrightarrow> fs_step s (crash p s)"

definition fs_init :: "FS \<Rightarrow> bool" where
  "fs_init s \<longleftrightarrow> fs_path s = None \<and> fs_pc s = (\<lambda>_. Out)"

definition holds :: "FS \<Rightarrow> int \<Rightarrow> bool" where
  "holds s p = (case fs_pc s p of Held _ \<Rightarrow> True | _ \<Rightarrow> False)"

inductive_cases fs_stepE: "fs_step s t"

section \<open>Mutual exclusion while no recorded process ends\<close>

text \<open>A process that will not touch the file of another: what it has read names no dead process.\<close>

definition harmless :: "FS \<Rightarrow> string \<Rightarrow> bool" where
  "harmless s content \<longleftrightarrow> content = [] \<or> (\<exists>q. pid_ok q \<and> fs_alive s q \<and> recorded s q \<and> content = itoa q)"

definition waiting :: "FS \<Rightarrow> pc \<Rightarrow> bool" where
  "waiting s l \<longleftrightarrow> l = Out \<or> l = Start \<or> l = Check \<or> (\<exists>content. l = Probe content \<and> harmless s content)"

definition owned :: "FS \<Rightarrow> int \<Rightarrow> nat \<Rightarrow> bool" where
  "owned s p i \<longleftrightarrow> fs_alive s p \<and> pid_ok p \<and> fs_path s = Some i \<and> i < fs_next s \<and>
     (fs_pc s p = Fill i \<and> fs_data s i = [] \<or> fs_pc s p = Held i \<and> fs_data s i = itoa p)"

definition calm_inv :: "FS \<Rightarrow> bool" where
  "calm_inv s \<longleftrightarrow>
     (fs_path s = None \<and> (\<forall>q. waiting s (fs_pc s q))) \<or>
     (\<exists>p i. owned s p i \<and> (\<forall>q. q \<noteq> p \<longrightarrow> waiting s (fs_pc s q)))"

lemma stale_harmless: "harmless s content \<Longrightarrow> \<not> snd (lockIsStale (fs_alive s) (Some content))"
proof -
  have "trim_space [] = []" by (simp add: trim_space_def trim_left_of_def trim_right_of_def)
  moreover assume "harmless s content"
  ultimately show ?thesis
    by (auto simp: harmless_def lockIsStale_def pid_ok_def trim_space_id trimmed_itoa atoi_itoa)
qed

lemma itoa_not_empty: "itoa p \<noteq> []" if "pid_ok p"
proof
  assume "itoa p = []"
  then have "atoi [] = Some p" using atoi_itoa [of p] that by (simp add: pid_ok_def)
  then show False by (simp add: atoi_def)
qed

text \<open>
  The whole of a step in two cases: the files of the recorded processes stay, and so does who is alive among them.
\<close>

definition keeps_records :: "FS \<Rightarrow> FS \<Rightarrow> bool" where
  "keeps_records s t \<longleftrightarrow> (\<forall>q. pid_ok q \<and> recorded s q \<and> fs_alive s q \<longrightarrow> recorded t q \<and> fs_alive t q)"

lemma waiting_keeps: "keeps_records s t \<Longrightarrow> waiting s l \<Longrightarrow> waiting t l"
  by (auto simp: keeps_records_def waiting_def harmless_def)

lemma keeps_same: "fs_next t = fs_next s \<Longrightarrow> fs_data t = fs_data s \<Longrightarrow> fs_alive t = fs_alive s \<Longrightarrow> keeps_records s t"
  by (simp add: keeps_records_def recorded_def)

lemma recorded_mono:
  assumes "recorded s q" "pid_ok q" "fs_next s \<le> fs_next t" "\<And>i. i < fs_next s \<Longrightarrow> fs_data t i = fs_data s i \<or> fs_data s i = []"
  shows "recorded t q"
  using assms itoa_not_empty [OF assms(2)] unfolding recorded_def by (metis order.strict_trans2)

lemma calm_inv_free:
  assumes path: "fs_path s = None" and w: "\<forall>q. waiting s (fs_pc s q)" and p: "pid_ok p" "fs_alive s p"
  shows "calm_inv (lock_step p s)"
proof (cases "fs_pc s p = Start")
  case True
  have "pid_ok q \<Longrightarrow> recorded s q \<Longrightarrow> recorded (lock_step p s) q" for q
    by (erule recorded_mono) (use True path in \<open>simp_all add: lock_step_def create_file_def goto_def\<close>)
  then have "keeps_records s (lock_step p s)"
    using True path by (simp add: keeps_records_def lock_step_def create_file_def goto_def)
  then have "\<forall>q. q \<noteq> p \<longrightarrow> waiting (lock_step p s) (fs_pc (lock_step p s) q)"
    using True path w waiting_keeps by (auto simp: lock_step_def create_file_def goto_def)
  moreover have "owned (lock_step p s) p (fs_next s)"
    using True path p by (simp add: owned_def lock_step_def create_file_def goto_def)
  ultimately show ?thesis unfolding calm_inv_def by blast
next
  case False
  then obtain l where step: "lock_step p s = goto p l s" and l: "waiting s l"
    using w [rule_format, of p] path stale_harmless [of s]
    by (auto simp: lock_step_def waiting_def read_file_def)
  have "keeps_records s (goto p l s)" by (rule keeps_same) (simp_all add: goto_def)
  then have "\<forall>q. waiting (goto p l s) (fs_pc (goto p l s) q)"
    using w l waiting_keeps by (auto simp: goto_def)
  then show ?thesis using path by (simp add: calm_inv_def step goto_def)
qed

lemma calm_inv_owner:
  assumes own: "owned s p i" and w: "\<forall>q. q \<noteq> p \<longrightarrow> waiting s (fs_pc s q)"
  shows "calm_inv (lock_step p s)"
proof (cases "fs_pc s p = Fill i")
  case True
  have "pid_ok q \<Longrightarrow> recorded s q \<Longrightarrow> recorded (lock_step p s) q" for q
    by (erule recorded_mono) (use True own in \<open>auto simp: owned_def lock_step_def goto_def\<close>)
  then have "keeps_records s (lock_step p s)"
    using True by (simp add: keeps_records_def lock_step_def goto_def)
  then have "\<forall>q. q \<noteq> p \<longrightarrow> waiting (lock_step p s) (fs_pc (lock_step p s) q)"
    using True w waiting_keeps by (auto simp: lock_step_def goto_def)
  moreover have "owned (lock_step p s) p i" using own True by (simp add: owned_def lock_step_def goto_def)
  ultimately show ?thesis unfolding calm_inv_def by blast
next
  case False
  then have pc: "fs_pc s p = Held i" using own by (simp add: owned_def)
  have "keeps_records s (lock_step p s)" by (rule keeps_same) (simp_all add: lock_step_def pc goto_def)
  then have "\<forall>q. waiting (lock_step p s) (fs_pc (lock_step p s) q)"
    using w waiting_keeps by (auto simp: lock_step_def goto_def pc) (simp add: waiting_def)
  then show ?thesis by (simp add: calm_inv_def lock_step_def goto_def pc)
qed

lemma calm_inv_other:
  assumes own: "owned s ow i" and w: "\<forall>q. q \<noteq> ow \<longrightarrow> waiting s (fs_pc s q)" and p: "p \<noteq> ow"
  shows "calm_inv (lock_step p s)"
proof -
  have read: "harmless s (fs_data s i)" using own by (auto simp: harmless_def owned_def recorded_def)
  obtain l where step: "lock_step p s = goto p l s" and l: "waiting s l"
    using w [rule_format, OF p] own read stale_harmless [of s]
    by (auto simp: lock_step_def waiting_def read_file_def owned_def)
  have "keeps_records s (goto p l s)" by (rule keeps_same) (simp_all add: goto_def)
  then have "\<forall>q. q \<noteq> ow \<longrightarrow> waiting (goto p l s) (fs_pc (goto p l s) q)"
    using w l waiting_keeps by (auto simp: goto_def)
  moreover have "owned (goto p l s) ow i" using own p by (simp add: owned_def goto_def)
  ultimately show ?thesis unfolding calm_inv_def step by blast
qed

lemma calm_inv_world:
  assumes inv: "calm_inv s" and keep: "keeps_records s t"
    and same: "fs_path t = fs_path s" "fs_next t = fs_next s" "fs_data t = fs_data s"
    and pcs: "\<And>q. fs_pc t q = fs_pc s q \<or> fs_pc t q = Out"
    and own: "\<And>q i. owned s q i \<Longrightarrow> fs_alive t q \<and> fs_pc t q = fs_pc s q"
  shows "calm_inv t"
proof -
  have w: "waiting s (fs_pc s q) \<Longrightarrow> waiting t (fs_pc t q)" for q
    using pcs [of q] waiting_keeps [OF keep] by (auto simp: waiting_def [of t Out])
  from inv show ?thesis unfolding calm_inv_def
  proof (elim disjE exE conjE)
    fix p i assume o: "owned s p i" and "\<forall>q. q \<noteq> p \<longrightarrow> waiting s (fs_pc s q)"
    then have "owned t p i" "\<forall>q. q \<noteq> p \<longrightarrow> waiting t (fs_pc t q)"
      using own [OF o] same w by (auto simp: owned_def)
    then show "(fs_path t = None \<and> (\<forall>q. waiting t (fs_pc t q))) \<or>
        (\<exists>p i. owned t p i \<and> (\<forall>q. q \<noteq> p \<longrightarrow> waiting t (fs_pc t q)))" by blast
  qed (use same w in auto)
qed

lemma calm_inv_step:
  assumes inv: "calm_inv s" and step: "calm_step s t"
  shows "calm_inv t"
  using step
proof cases
  case (calm p)
  from inv show ?thesis unfolding calm(1) calm_inv_def [of s]
    using calm_inv_free calm_inv_owner calm_inv_other calm(2,3) by metis
next
  case (calm_start p)
  show ?thesis
    by (rule calm_inv_world [OF inv])
      (auto simp: calm_start(1) start_process_def keeps_records_def recorded_def owned_def)
next
  case (calm_end p)
  have own: "fs_alive t q \<and> fs_pc t q = fs_pc s q" if "owned s q i" for q i
  proof -
    have "q \<noteq> p" using that calm_end(3,4) by (auto simp: owned_def recorded_def)
    then show ?thesis using that by (simp add: calm_end(1) crash_def goto_def owned_def)
  qed
  have keep: "keeps_records s t"
    using calm_end(3) by (auto simp: calm_end(1) crash_def goto_def keeps_records_def recorded_def)
  show ?thesis
    by (rule calm_inv_world [OF inv keep _ _ _ _ own]) (simp_all add: calm_end(1) crash_def goto_def)
qed

interpretation calm: step_machine fs_init calm_step calm_inv
proof unfold_locales
  show "calm_inv s" if "fs_init s" for s
    using that by (simp add: fs_init_def calm_inv_def waiting_def)
  show "calm_inv t" if "calm_inv s" "calm_step s t" for s t
    by (rule calm_inv_step [OF that])
qed

text \<open>
  C2. At most one process holds the lock as long as no process ends whose pid was ever written to a lock file, for
  any number of processes that start, wait and give up, and any interleaving of their system calls, the
  creation, the write of the pid, the read and the probe of the pid that was read being separate steps.
\<close>

theorem lock_mutual_exclusion:
  assumes "fs_init s" "calm_step\<^sup>*\<^sup>* s t" "holds t p" "holds t q"
  shows "p = q"
proof -
  have "calm_inv t" using calm.inv_reachable assms(1,2) by blast
  moreover have "\<not> waiting t (fs_pc t p)" "\<not> waiting t (fs_pc t q)"
    using assms(3,4) by (auto simp: holds_def waiting_def split: pc.splits)
  ultimately show ?thesis by (metis calm_inv_def)
qed

lemma alive_lock_step [simp]: "fs_alive (lock_step p s) = fs_alive s"
  by (simp add: lock_step_def goto_def create_file_def split: pc.split option.split)

lemma calm_run: "\<forall>p \<in> set ps. pid_ok p \<and> fs_alive s p \<Longrightarrow> calm_step\<^sup>*\<^sup>* s (fold lock_step ps s)"
proof (induction ps arbitrary: s)
  case (Cons p ps)
  then have "calm_step s (lock_step p s)" "calm_step\<^sup>*\<^sup>* (lock_step p s) (fold lock_step ps (lock_step p s))"
    by (auto intro: calm_step.calm)
  then show ?case by (simp add: converse_rtranclp_into_rtranclp)
qed simp

lemma orderly_run: "\<forall>p \<in> set ps. pid_ok p \<and> fs_alive s p \<Longrightarrow> orderly_step\<^sup>*\<^sup>* s (fold lock_step ps s)"
proof (induction ps arbitrary: s)
  case (Cons p ps)
  then have "orderly_step s (lock_step p s)" "orderly_step\<^sup>*\<^sup>* (lock_step p s) (fold lock_step ps (lock_step p s))"
    by (auto intro: orderly)
  then show ?case by (simp add: converse_rtranclp_into_rtranclp)
qed simp

definition fresh_fs :: FS where
  "fresh_fs = \<lparr>fs_path = None, fs_data = (\<lambda>_. []), fs_next = 0, fs_alive = (\<lambda>_. True), fs_pc = (\<lambda>_. Out)\<rparr>"

definition stale_fs :: FS where
  "stale_fs = \<lparr>fs_path = Some 0, fs_data = (\<lambda>_. ''99''), fs_next = 1, fs_alive = (\<lambda>p. p \<noteq> 99),
               fs_pc = (\<lambda>_. Out)\<rparr>"

theorem lock_mutual_exclusion_witness:
  "holds (fold lock_step [7, 8, 7, 8, 7] fresh_fs) 7 \<and> \<not> holds (fold lock_step [7, 8, 7, 8, 7] fresh_fs) 8"
proof -
  have "fs_init fresh_fs" "holds (fold lock_step [7, 8, 7, 8, 7] fresh_fs) 7"
    by (simp_all add: fs_init_def fresh_fs_def holds_def lock_step_def goto_def create_file_def)
  moreover have "calm_step\<^sup>*\<^sup>* fresh_fs (fold lock_step [7, 8, 7, 8, 7] fresh_fs)"
    by (rule calm_run) (simp add: pid_ok_def fresh_fs_def)
  ultimately show ?thesis
    using lock_mutual_exclusion [of fresh_fs _ 7 8] by auto
qed

text \<open>
  C3. Reclaiming a stale lock is not atomic: two live processes that both find the dead pid can
  both end up holding the lock, because the second removes the file the first has just created.
\<close>

theorem stale_reclaim_race:
  "\<exists>t. calm_step\<^sup>*\<^sup>* stale_fs t \<and> read_file stale_fs = Some ''99'' \<and> \<not> fs_alive stale_fs 99 \<and>
     fs_alive t 7 \<and> fs_alive t 8 \<and> holds t 7 \<and> holds t 8"
proof -
  let ?ps = "[7, 7, 7, 7, 8, 8, 8, 8, 7, 7, 7, 8, 8, 8]"
  have stale: "snd (lockIsStale (\<lambda>p. p \<noteq> 99) (Some ''99''))"
    by (simp add: lockIsStale_def trim_space_def trim_left_of_def trim_right_of_def is_space_def byte_def
        atoi_def is_digit_def dec_value_def)
  have "calm_step\<^sup>*\<^sup>* stale_fs (fold lock_step ?ps stale_fs)"
    by (rule calm_run) (simp add: pid_ok_def stale_fs_def)
  moreover have "holds (fold lock_step ?ps stale_fs) 7 \<and> holds (fold lock_step ?ps stale_fs) 8"
    using stale by (simp add: stale_fs_def holds_def lock_step_def goto_def create_file_def read_file_def)
  moreover have "fs_alive (fold lock_step ?ps stale_fs) = fs_alive stale_fs" by simp
  ultimately show ?thesis
    by (intro exI [of _ "fold lock_step ?ps stale_fs"]) (simp add: stale_fs_def read_file_def)
qed

text \<open>
  Mutual exclusion does not need a crash to fail: a process reads the pid of the holder, the holder releases the
  lock and exits, another process takes the free lock; the first finds the pid it has read dead, removes the file
  of the new holder, and holds the lock too.
\<close>

theorem exit_reclaim_race:
  "\<exists>t. orderly_step\<^sup>*\<^sup>* fresh_fs t \<and> fs_alive t 8 \<and> fs_alive t 9 \<and> holds t 8 \<and> holds t 9"
proof -
  define a where "a = \<lparr>fs_path = Some 0, fs_data = (\<lambda>_. [])(0 := itoa 7), fs_next = 1, fs_alive = \<lambda>_. True,
    fs_pc = (\<lambda>_. Out)(7 := Held 0)\<rparr>"
  define b where "b = \<lparr>fs_path = None, fs_data = (\<lambda>_. [])(0 := itoa 7), fs_next = 1, fs_alive = \<lambda>_. True,
    fs_pc = (\<lambda>_. Out)(8 := Probe (itoa 7))\<rparr>"
  define c where "c = \<lparr>fs_path = Some 1, fs_data = (\<lambda>_. [])(0 := itoa 7, 1 := itoa 9), fs_next = 2, fs_alive = \<lambda>p. p \<noteq> 7,
    fs_pc = (\<lambda>_. Out)(8 := Probe (itoa 7), 9 := Held 1)\<rparr>"
  have a: "fold lock_step [7, 7, 7] fresh_fs = a"
    by (simp add: a_def fresh_fs_def lock_step_def goto_def create_file_def)
  have b: "fold lock_step [8, 8, 8, 7] a = b"
    by (simp add: a_def b_def lock_step_def goto_def create_file_def read_file_def fun_eq_iff)
  have c: "fold lock_step [9, 9, 9] (exit_process 7 b) = c"
    by (simp add: b_def c_def exit_process_def lock_step_def goto_def create_file_def fun_eq_iff)
  have "snd (lockIsStale (\<lambda>p. p \<noteq> 7) (Some (itoa 7)))"
    by (simp add: lockIsStale_def trim_space_id trimmed_itoa atoi_itoa)
  then have held: "holds (fold lock_step [8, 8, 8, 8] c) 8 \<and> holds (fold lock_step [8, 8, 8, 8] c) 9"
    by (simp add: c_def holds_def lock_step_def goto_def create_file_def)
  have alive: "fs_alive a = (\<lambda>_. True)" "fs_alive b = (\<lambda>_. True)" "fs_pc b 7 = Out" "fs_alive c = (\<lambda>p. p \<noteq> 7)"
    by (simp_all add: a_def b_def c_def)
  have "orderly_step\<^sup>*\<^sup>* fresh_fs a"
    using orderly_run [of "[7, 7, 7]" fresh_fs] by (simp only: a) (simp add: pid_ok_def fresh_fs_def)
  moreover have "orderly_step\<^sup>*\<^sup>* a b"
    using orderly_run [of "[8, 8, 8, 7]" a] by (simp only: b) (simp add: pid_ok_def alive)
  moreover have "orderly_step b (exit_process 7 b)"
    by (rule orderly_exit) (simp_all add: pid_ok_def alive)
  moreover have "orderly_step\<^sup>*\<^sup>* (exit_process 7 b) c"
    using orderly_run [of "[9, 9, 9]" "exit_process 7 b"] by (simp only: c) (simp add: pid_ok_def alive exit_process_def)
  moreover have "orderly_step\<^sup>*\<^sup>* c (fold lock_step [8, 8, 8, 8] c)"
    by (rule orderly_run) (simp add: pid_ok_def alive)
  ultimately have "orderly_step\<^sup>*\<^sup>* fresh_fs (fold lock_step [8, 8, 8, 8] c)"
    by (meson rtranclp.rtrancl_into_rtrancl rtranclp_trans)
  moreover have "fs_alive (fold lock_step [8, 8, 8, 8] c) = (\<lambda>p. p \<noteq> 7)" by (simp add: alive)
  ultimately show ?thesis using held by (intro exI [of _ "fold lock_step [8, 8, 8, 8] c"]) simp
qed

section \<open>An empty lock file\<close>

text \<open>An empty lock file, left by a crash between the creation and the write.\<close>

definition idle :: "pc \<Rightarrow> bool" where
  "idle l \<longleftrightarrow> l = Out \<or> l = Start \<or> l = Check \<or> l = Probe []"

definition wedged :: "FS \<Rightarrow> bool" where
  "wedged s \<longleftrightarrow> read_file s = Some [] \<and> (\<forall>q. idle (fs_pc s q))"

lemma wedged_step: "fs_step s t \<Longrightarrow> wedged s \<Longrightarrow> wedged t"
proof (elim fs_stepE)
  fix p assume t: "t = lock_step p s" and w: "wedged s"
  have pc: "idle (fs_pc s p)" and path: "fs_path s \<noteq> None" and r: "read_file s = Some []"
    and fresh: "\<not> snd (lockIsStale (fs_alive s) (Some []))"
    using w by (auto simp: wedged_def read_file_def lockIsStale_def trim_space_def trim_left_of_def trim_right_of_def)
  from pc obtain l where "lock_step p s = goto p l s" "idle l"
    using path fresh r by (auto simp: lock_step_def idle_def)
  moreover have "wedged (goto p l s)" if "idle l" for l
    using w that by (simp add: wedged_def goto_def read_file_def)
  ultimately show "wedged t" unfolding t by metis
next
  fix p assume "t = start_process p s" and "wedged s"
  then show "wedged t" by (simp add: wedged_def start_process_def read_file_def)
next
  fix p assume "t = crash p s" and "wedged s"
  then show "wedged t"
    by (simp add: wedged_def idle_def crash_def goto_def read_file_def)
qed

interpretation wedge: step_machine wedged fs_step wedged
  by unfold_locales (auto intro: wedged_step)

text \<open>
  A crash between the creation of the file and the write of the pid blocks the lock for
  good: from an empty lock file no process ever acquires it, whatever runs or crashes later.
\<close>

theorem empty_lock_wedges:
  assumes "wedged s" "fs_step\<^sup>*\<^sup>* s t"
  shows "\<not> holds t p \<and> read_file t = Some []"
proof -
  have "wedged t" using wedge.inv_reachable [OF assms] .
  then have "idle (fs_pc t p)" "read_file t = Some []" by (simp_all add: wedged_def)
  then show ?thesis by (auto simp: holds_def idle_def)
qed

theorem empty_lock_wedges_witness:
  "fs_step\<^sup>*\<^sup>* fresh_fs (crash 7 (lock_step 7 (lock_step 7 fresh_fs))) \<and>
   \<not> holds (fold lock_step [8, 8, 8, 8] (crash 7 (lock_step 7 (lock_step 7 fresh_fs)))) 8"
proof -
  let ?s = "crash 7 (lock_step 7 (lock_step 7 fresh_fs))"
  have reach: "fs_step\<^sup>*\<^sup>* fresh_fs ?s"
    by (rule rtranclp.rtrancl_into_rtrancl [OF rtranclp.rtrancl_into_rtrancl
          [OF rtranclp.rtrancl_into_rtrancl [OF rtranclp.rtrancl_refl]]])
      (auto intro!: fs_step.intros simp: pid_ok_def fresh_fs_def)
  have step: "fs_step s (lock_step 8 s)" if "fs_alive s 8" for s
    using that by (auto intro: fs_step.run simp: pid_ok_def)
  have "fs_step\<^sup>*\<^sup>* ?s (fold lock_step [8, 8, 8, 8] ?s)"
    using step [of ?s] step [of "lock_step 8 ?s"] step [of "lock_step 8 (lock_step 8 ?s)"]
      step [of "lock_step 8 (lock_step 8 (lock_step 8 ?s))"]
    by (simp add: crash_def goto_def fresh_fs_def)
  moreover have "wedged ?s"
    by (simp add: wedged_def idle_def crash_def goto_def read_file_def lock_step_def create_file_def fresh_fs_def)
  ultimately show ?thesis using empty_lock_wedges reach by blast
qed

text \<open>
  Undisturbed, the steps of a process compute \<open>AcquireLock\<close>: the same file, and the lock
  held exactly when the call returns one.
\<close>

theorem AcquireLock_steps:
  assumes "fs_pc s p = Out"
  shows "\<exists>n. read_file ((lock_step p ^^ n) s) = fst (AcquireLock name (fs_alive s) True True p dir (read_file s)) \<and>
    fs_pc ((lock_step p ^^ n) s) p \<in> (case snd (AcquireLock name (fs_alive s) True True p dir (read_file s)) of
       Inr l \<Rightarrow> range Held | Inl e \<Rightarrow> {Out}) \<and> 0 < n"
proof -
  have three: "(lock_step p ^^ 3) s = lock_step p (lock_step p (lock_step p s))"
    by (simp add: eval_nat_numeral)
  have four: "(lock_step p ^^ 4) s = lock_step p (lock_step p (lock_step p (lock_step p s)))"
    by (simp add: eval_nat_numeral)
  have seven: "(lock_step p ^^ 7) s =
      lock_step p (lock_step p (lock_step p (lock_step p (lock_step p (lock_step p (lock_step p s))))))"
    by (simp add: eval_nat_numeral)
  show ?thesis
  proof (cases "fs_path s")
    case None
    then show ?thesis using assms
      by (intro exI [of _ 3]) (simp add: three lock_step_def goto_def create_file_def read_file_def
          AcquireLock_def tryCreate_def Let_def)
  next
    case (Some i)
    show ?thesis
    proof (cases "snd (lockIsStale (fs_alive s) (read_file s))")
      case True
      then show ?thesis using assms Some
        by (intro exI [of _ 7]) (simp add: seven lock_step_def goto_def create_file_def read_file_def
            AcquireLock_def tryCreate_def Let_def)
    next
      case False
      then show ?thesis using assms Some
        by (intro exI [of _ 4]) (simp add: four lock_step_def goto_def create_file_def read_file_def
            AcquireLock_def tryCreate_def Let_def)
    qed
  qed
qed

theorem AcquireLock_steps_witness:
  "\<exists>n. read_file ((lock_step 7 ^^ n) fresh_fs) = fst (AcquireLock lockFile (\<lambda>_. True) True True 7 ''d'' None)"
  using AcquireLock_steps [of fresh_fs 7 lockFile "''d''"] by (auto simp: fresh_fs_def read_file_def)

text \<open>
  What a holder leaves behind decides the next call: while it is alive the call is refused
  and the file untouched, once it is dead the lock is taken over, and after \<open>Release\<close> it is free.
\<close>

theorem AcquireLock_handover:
  assumes "pid_ok p"
  shows "fst (AcquireLock name alive True True p dir None) = Some (itoa p)
    \<and> AcquireLock name alive True True q dir (Some (itoa p))
        = (if alive p then (Some (itoa p), Inl ErrLocked)
           else (Some (itoa q), Inr \<lparr>l_path = dir @ ''/'' @ name\<rparr>))
    \<and> AcquireLock name alive True True q dir (Release (Some l) file)
        = (Some (itoa q), Inr \<lparr>l_path = dir @ ''/'' @ name\<rparr>)"
proof -
  have "atoi (trim_space (itoa p)) = Some p"
    using assms by (simp add: pid_ok_def trim_space_id trimmed_itoa atoi_itoa)
  then show ?thesis
    using assms by (simp add: AcquireLock_def tryCreate_def lockIsStale_def Release_def Let_def pid_ok_def)
qed

theorem AcquireLock_handover_witness:
  "AcquireLock lockFile (\<lambda>p. p \<noteq> 5) True True 6 ''d'' (Some (itoa 5)) = (Some (itoa 6), Inr \<lparr>l_path = ''d/.consolidate.lock''\<rparr>)"
  using AcquireLock_handover [of 5 lockFile "\<lambda>p. p \<noteq> 5" "''d''" 6] by (simp add: pid_ok_def)

end
