(* ===== verification/Controller.thy ===== *)
theory Controller
  imports Prelude
begin

text \<open>
  The loop that runs the background workers (\<open>internal/consolidate/controller.go\<close>; the controllers
  of \<open>backup\<close>, \<open>extract\<close> and \<open>synthesize\<close> are the same code): a flag that callers flip at any time
  and a trigger channel of capacity one. The atomic operations of concurrent callers and of
  the loop are separate steps. \<open>c_owed\<close> records that the flag went from off to on and no cycle
  has started since, \<open>c_cycles\<close> counts the cycles started.
\<close>

section \<open>State\<close>

abbreviation fallbackInterval :: int where "fallbackInterval \<equiv> 24 * hour"

text \<open>The loop: not started, at the select, between a receive and the load of the flag, in a cycle.\<close>

datatype loop = NotStarted | Selecting | Loading | InCycle | Stopped

record Controller =
  c_worker :: bool
  c_enabled :: bool
  c_trigger :: bool
  c_fires :: nat
  c_ticked :: bool
  c_cancelled :: bool
  c_loop :: loop
  c_owed :: bool
  c_cycles :: nat

definition NewController :: "bool \<Rightarrow> bool \<Rightarrow> Controller" where
  "NewController worker enabled =
     \<lparr> c_worker = worker, c_enabled = enabled, c_trigger = False, c_fires = 0, c_ticked = False,
       c_cancelled = False, c_loop = NotStarted, c_owed = False, c_cycles = 0 \<rparr>"

definition Enabled :: "Controller option \<Rightarrow> bool" where
  "Enabled c = (case c of None \<Rightarrow> False | Some c \<Rightarrow> c_enabled c)"

definition interval_of :: "int \<Rightarrow> int" where
  "interval_of interval = (if interval \<le> 0 then fallbackInterval else interval)"

section \<open>The steps\<close>

text \<open>\<open>SetEnabled\<close> swaps the flag and, off to on, fires in a later step; \<open>Trigger\<close> loads and fires.\<close>

definition swap_enabled :: "bool \<Rightarrow> Controller \<Rightarrow> Controller" where
  "swap_enabled on c =
     (let prev = c_enabled c; c = c\<lparr>c_enabled := on\<rparr> in
      if on \<and> \<not> prev then c\<lparr>c_fires := c_fires c + 1, c_owed := True\<rparr>
      else if \<not> on then c\<lparr>c_owed := False\<rparr> else c)"

definition trigger_load :: "Controller \<Rightarrow> Controller" where
  "trigger_load c = (if \<not> c_enabled c then c else c\<lparr>c_fires := c_fires c + 1\<rparr>)"

definition fire :: "Controller \<Rightarrow> Controller" where
  "fire c = (if c_fires c = 0 then c else c\<lparr>c_fires := c_fires c - 1, c_trigger := True\<rparr>)"

definition start_cycle :: "Controller \<Rightarrow> Controller" where
  "start_cycle c = c\<lparr>c_loop := InCycle, c_owed := False, c_cycles := c_cycles c + 1\<rparr>"

text \<open>The ways the loop can move: \<open>Run\<close> from its start, through the select, to its end.\<close>

definition run_start :: "Controller \<Rightarrow> Controller" where
  "run_start c =
     (if c_loop c \<noteq> NotStarted then c
      else if \<not> c_worker c then (if c_cancelled c then c\<lparr>c_loop := Stopped\<rparr> else c)
      else if c_enabled c then start_cycle c else c\<lparr>c_loop := Selecting\<rparr>)"

definition recv_done :: "Controller \<Rightarrow> Controller" where
  "recv_done c = (if c_loop c = Selecting \<and> c_cancelled c then c\<lparr>c_loop := Stopped\<rparr> else c)"

definition recv_tick :: "Controller \<Rightarrow> Controller" where
  "recv_tick c = (if c_loop c = Selecting \<and> c_ticked c then c\<lparr>c_loop := Loading, c_ticked := False\<rparr> else c)"

definition recv_trigger :: "Controller \<Rightarrow> Controller" where
  "recv_trigger c =
     (if c_loop c = Selecting \<and> c_trigger c then c\<lparr>c_loop := Loading, c_trigger := False\<rparr> else c)"

definition load_enabled :: "Controller \<Rightarrow> Controller" where
  "load_enabled c =
     (if c_loop c \<noteq> Loading then c
      else if c_enabled c then start_cycle c else c\<lparr>c_loop := Selecting\<rparr>)"

definition cycle_done :: "Controller \<Rightarrow> Controller" where
  "cycle_done c = (if c_loop c = InCycle then c\<lparr>c_loop := Selecting\<rparr> else c)"

text \<open>What the controller does by itself, and what callers, the clock and the context do.\<close>

inductive own_step :: "Controller \<Rightarrow> Controller \<Rightarrow> bool" where
  "own_step c (fire c)"
| "own_step c (run_start c)"
| "own_step c (recv_done c)"
| "own_step c (recv_tick c)"
| "own_step c (recv_trigger c)"
| "own_step c (load_enabled c)"
| "own_step c (cycle_done c)"

inductive c_step :: "Controller \<Rightarrow> Controller \<Rightarrow> bool" where
  own: "own_step c d \<Longrightarrow> c_step c d"
| set_enabled: "c_step c (swap_enabled on c)"
| trigger: "c_step c (trigger_load c)"
| tick: "c_step c (c\<lparr>c_ticked := True\<rparr>)"
| cancel: "c_step c (c\<lparr>c_cancelled := True\<rparr>)"

definition c_init :: "Controller \<Rightarrow> bool" where
  "c_init c \<longleftrightarrow> (\<exists>worker enabled. c = NewController worker enabled)"

lemmas own_defs = fire_def run_start_def recv_done_def recv_tick_def recv_trigger_def
  load_enabled_def cycle_done_def start_cycle_def

section \<open>Enabling is never lost\<close>

text \<open>An enabling that no cycle has answered is still on its way to the loop.\<close>

definition owed_inv :: "Controller \<Rightarrow> bool" where
  "owed_inv c \<longleftrightarrow> (c_owed c \<longrightarrow> c_enabled c \<and> (0 < c_fires c \<or> c_trigger c \<or> c_loop c = Loading))"

lemma owed_own: "own_step c d \<Longrightarrow> owed_inv c \<Longrightarrow> owed_inv d"
  by (induction rule: own_step.induct) (auto simp: owed_inv_def own_defs)

lemma owed_step: "c_step c d \<Longrightarrow> owed_inv c \<Longrightarrow> owed_inv d"
  by (induction rule: c_step.induct)
    (auto simp: owed_own, auto simp: owed_inv_def swap_enabled_def trigger_load_def Let_def)

interpretation owed: step_machine c_init c_step owed_inv
proof unfold_locales
  show "owed_inv c" if "c_init c" for c
    using that by (auto simp: c_init_def NewController_def owed_inv_def)
qed (rule owed_step)

text \<open>From the select with the trigger pending, from the load, and from a running cycle.\<close>

lemma own_path:
  "own_step a b \<Longrightarrow> own_step\<^sup>*\<^sup>* b c \<Longrightarrow> own_step\<^sup>*\<^sup>* a c"
  by (rule converse_rtranclp_into_rtranclp)

lemma loading_starts:
  assumes "c_loop c = Loading" "c_enabled c"
  shows "\<exists>d. own_step\<^sup>*\<^sup>* c d \<and> c_cycles d = c_cycles c + 1"
proof -
  have "own_step\<^sup>*\<^sup>* c (load_enabled c)" by (rule r_into_rtranclp) (rule own_step.intros)
  moreover have "c_cycles (load_enabled c) = c_cycles c + 1" using assms by (simp add: own_defs)
  ultimately show ?thesis by blast
qed

lemma selecting_starts:
  assumes "c_loop c = Selecting" "c_enabled c" "c_trigger c"
  shows "\<exists>d. own_step\<^sup>*\<^sup>* c d \<and> c_cycles d = c_cycles c + 1"
proof -
  have "own_step c (recv_trigger c)" by (rule own_step.intros)
  moreover have "c_loop (recv_trigger c) = Loading" "c_enabled (recv_trigger c)"
    "c_cycles (recv_trigger c) = c_cycles c"
    using assms by (simp_all add: own_defs)
  ultimately show ?thesis using loading_starts [of "recv_trigger c"] own_path by metis
qed

lemma triggered_starts:
  assumes "c_worker c" "c_loop c \<noteq> Stopped" "c_enabled c" "c_trigger c \<or> c_loop c = Loading"
  shows "\<exists>d. own_step\<^sup>*\<^sup>* c d \<and> c_cycles d = c_cycles c + 1"
proof (cases "c_loop c")
  case NotStarted
  then have "c_cycles (run_start c) = c_cycles c + 1" using assms by (simp add: own_defs)
  moreover have "own_step\<^sup>*\<^sup>* c (run_start c)" by (rule r_into_rtranclp) (rule own_step.intros)
  ultimately show ?thesis by blast
next
  case InCycle
  have "own_step c (cycle_done c)" by (rule own_step.intros)
  moreover have "c_loop (cycle_done c) = Selecting" "c_enabled (cycle_done c)" "c_trigger (cycle_done c)"
    "c_cycles (cycle_done c) = c_cycles c"
    using assms InCycle by (simp_all add: own_defs)
  ultimately show ?thesis using selecting_starts [of "cycle_done c"] own_path by metis
qed (use assms selecting_starts loading_starts in auto)

text \<open>
  Turning the worker on is never lost: in every reachable state in which the flag went from
  off to on and no cycle has started since, the flag is on and the loop and the pending calls
  alone, without a tick of the ticker or another request, lead to a cycle.
\<close>

theorem enabling_runs_cycle:
  assumes "c_init c0" "c_step\<^sup>*\<^sup>* c0 c" "c_owed c" "c_worker c" "c_loop c \<noteq> Stopped"
  shows "c_enabled c \<and> (\<exists>d. own_step\<^sup>*\<^sup>* c d \<and> c_cycles d = c_cycles c + 1)"
proof -
  have inv: "owed_inv c" using owed.inv_reachable assms(1,2) by blast
  then have en: "c_enabled c" using assms(3) by (simp add: owed_inv_def)
  show ?thesis
  proof (cases "c_trigger c \<or> c_loop c = Loading")
    case True
    then show ?thesis using triggered_starts assms en by blast
  next
    case False
    then have "0 < c_fires c" using inv assms(3) by (simp add: owed_inv_def)
    then have "c_trigger (fire c)" "c_enabled (fire c)" "c_worker (fire c)" "c_loop (fire c) = c_loop c"
      "c_cycles (fire c) = c_cycles c"
      using assms en by (simp_all add: own_defs)
    then show ?thesis
      using triggered_starts [of "fire c"] own_path [OF own_step.intros(1)] assms(5) en by metis
  qed
qed

section \<open>Disabled means no cycle\<close>

text \<open>Steps of a time in which nobody turns the worker on.\<close>

inductive off_step :: "Controller \<Rightarrow> Controller \<Rightarrow> bool" where
  "own_step c d \<Longrightarrow> off_step c d"
| "off_step c (swap_enabled False c)"
| "off_step c (trigger_load c)"
| "off_step c (c\<lparr>c_ticked := True\<rparr>)"
| "off_step c (c\<lparr>c_cancelled := True\<rparr>)"

definition disabled_at :: "nat \<Rightarrow> Controller \<Rightarrow> bool" where
  "disabled_at n c \<longleftrightarrow> \<not> c_enabled c \<and> c_cycles c = n"

lemma disabled_own: "own_step c d \<Longrightarrow> disabled_at n c \<Longrightarrow> disabled_at n d"
  by (induction rule: own_step.induct) (auto simp: disabled_at_def own_defs)

lemma disabled_step: "off_step c d \<Longrightarrow> disabled_at n c \<Longrightarrow> disabled_at n d"
  by (induction rule: off_step.induct)
    (auto simp: disabled_own, auto simp: disabled_at_def swap_enabled_def trigger_load_def Let_def)

interpretation disabled: step_machine "disabled_at n" off_step "disabled_at n"
  by unfold_locales (auto intro: disabled_step)

text \<open>
  While the worker is off no cycle starts, whatever ticks, triggers and pending requests
  arrive, until somebody turns it on.
\<close>

theorem disabled_never_runs:
  assumes "\<not> c_enabled c" "off_step\<^sup>*\<^sup>* c d"
  shows "c_cycles d = c_cycles c \<and> \<not> c_enabled d"
  using disabled.inv_steps [OF assms(2), of "c_cycles c"] assms(1) by (simp add: disabled_at_def)

theorem disabled_never_runs_witness:
  "c_cycles (load_enabled (recv_tick (run_start ((NewController True False)\<lparr>c_ticked := True\<rparr>)))) = 0"
proof -
  let ?c = "NewController True False"
  have "off_step\<^sup>*\<^sup>* ?c (load_enabled (recv_tick (run_start (?c\<lparr>c_ticked := True\<rparr>))))"
  proof -
    have "off_step ?c (?c\<lparr>c_ticked := True\<rparr>)" "off_step c (run_start c)" "off_step c (recv_tick c)"
      "off_step c (load_enabled c)" for c
      by (auto intro: off_step.intros own_step.intros)
    then show ?thesis by (meson rtranclp.rtrancl_into_rtrancl rtranclp.rtrancl_refl)
  qed
  from disabled_never_runs [OF _ this] show ?thesis by (simp add: NewController_def)
qed

theorem enabling_runs_cycle_witness:
  "\<exists>d. own_step\<^sup>*\<^sup>* (swap_enabled True (run_start (NewController True False))) d \<and> c_cycles d = 1"
proof -
  let ?c = "swap_enabled True (run_start (NewController True False))"
  have "c_step\<^sup>*\<^sup>* (NewController True False) ?c"
  proof (rule rtranclp.rtrancl_into_rtrancl)
    show "c_step\<^sup>*\<^sup>* (NewController True False) (run_start (NewController True False))"
      by (intro r_into_rtranclp c_step.own own_step.intros)
    show "c_step (run_start (NewController True False)) ?c" by (rule c_step.set_enabled)
  qed
  moreover have "c_init (NewController True False)" by (auto simp: c_init_def)
  moreover have "c_owed ?c" "c_worker ?c" "c_loop ?c \<noteq> Stopped" "c_cycles ?c = 0"
    by (simp_all add: swap_enabled_def Let_def own_defs NewController_def)
  ultimately show ?thesis using enabling_runs_cycle by fastforce
qed

end
