(* ===== verification/Backup_Sync.thy ===== *)
theory Backup_Sync
  imports Prelude
begin

text \<open>
  The snapshot of the memory sources into the backup workspace (\<open>internal/backup/syncer.go\<close>).
  A source is a tree of named nodes in the order \<open>filepath.WalkDir\<close> visits them, \<open>None\<close> when it
  does not exist; what lands under a managed subdirectory is a list of relative paths with
  their contents. \<open>ok\<close> tells which files can be copied: the first that cannot ends the walk.
\<close>

section \<open>Trees and the walk\<close>

datatype node = Regular string | Irregular | Dir "(string \<times> node) list"

type_synonym path = "string list"
type_synonym files = "(path \<times> string) list"

definition rel_path :: "path \<Rightarrow> string" where
  "rel_path p = str_join ''/'' p"

definition isAuditJSONL :: "string \<Rightarrow> bool" where
  "isAuditJSONL name = (has_prefix name ''.'' \<and> has_suffix name ''-audit.jsonl'')"

definition isSQLiteDatabaseFile :: "string \<Rightarrow> bool" where
  "isSQLiteDatabaseFile name =
     (let name = to_lower name in
      has_suffix name ''.db'' \<or> has_suffix name ''.sqlite'' \<or> has_suffix name ''.sqlite3'')"

text \<open>The callback of \<open>copyTree\<close> on one file, and the walk: the files copied, and whether it failed.\<close>

definition copy_file :: "(path \<Rightarrow> bool) \<Rightarrow> string \<Rightarrow> path \<Rightarrow> string \<Rightarrow> files \<times> bool" where
  "copy_file ok name rel content =
     (if isAuditJSONL name then ([], False)
      else if isSQLiteDatabaseFile name then ([], False)
      else if has_prefix (rel_path rel) ''..'' then ([], False)
      else if \<not> ok rel then ([], True)
      else ([(rel, content)], False))"

fun copy_node :: "(path \<Rightarrow> bool) \<Rightarrow> bool \<Rightarrow> string \<Rightarrow> path \<Rightarrow> node \<Rightarrow> files \<times> bool"
  and copy_nodes :: "(path \<Rightarrow> bool) \<Rightarrow> bool \<Rightarrow> path \<Rightarrow> (string \<times> node) list \<Rightarrow> files \<times> bool" where
  "copy_node ok skipGit name rel (Regular content) = copy_file ok name rel content"
| "copy_node ok skipGit name rel Irregular = ([], False)"
| "copy_node ok skipGit name rel (Dir es) =
     (if skipGit \<and> name = ''.git'' then ([], False) else copy_nodes ok skipGit rel es)"
| "copy_nodes ok skipGit rel [] = ([], False)"
| "copy_nodes ok skipGit rel ((name, nd) # es) =
     (case copy_node ok skipGit name (rel @ [name]) nd of
        (fs, True) \<Rightarrow> (fs, True)
      | (fs, False) \<Rightarrow> (case copy_nodes ok skipGit rel es of (gs, e) \<Rightarrow> (fs @ gs, e)))"

text \<open>\<open>copyTree\<close> of a source called \<open>name\<close>; a missing source or one that is not a directory is empty.\<close>

definition copyTree :: "(path \<Rightarrow> bool) \<Rightarrow> bool \<Rightarrow> string \<Rightarrow> node option \<Rightarrow> files \<times> bool" where
  "copyTree ok skipGit name src =
     (case src of
        Some (Dir es) \<Rightarrow> copy_node ok skipGit name [] (Dir es)
      | _ \<Rightarrow> ([], False))"

fun lookup_entry :: "string \<Rightarrow> (string \<times> node) list \<Rightarrow> node option" where
  "lookup_entry name es = map_of es name"

fun copy_projects :: "(path \<Rightarrow> bool) \<Rightarrow> (string \<times> node) list \<Rightarrow> files \<times> bool" where
  "copy_projects ok [] = ([], False)"
| "copy_projects ok ((project, nd) # es) =
     (case nd of
        Dir sub \<Rightarrow>
          (case lookup_entry ''memory'' sub of
             Some (Dir mem) \<Rightarrow>
               (case copyTree (\<lambda>p. ok ([project, ''memory''] @ p)) False ''memory'' (Some (Dir mem)) of
                  (fs, e) \<Rightarrow>
                    (let fs = map (\<lambda>(p, c). ([project, ''memory''] @ p, c)) fs in
                     if e then (fs, True)
                     else (case copy_projects ok es of (gs, e) \<Rightarrow> (fs @ gs, e))))
           | _ \<Rightarrow> copy_projects ok es)
      | _ \<Rightarrow> copy_projects ok es)"

text \<open>The children of the CC root; \<open>Irregular\<close> and regular roots make \<open>os.ReadDir\<close> fail.\<close>

definition copyCCNative :: "(path \<Rightarrow> bool) \<Rightarrow> node option \<Rightarrow> files \<times> bool" where
  "copyCCNative ok ccRoot =
     (case ccRoot of
        None \<Rightarrow> ([], False)
      | Some (Dir es) \<Rightarrow> copy_projects ok es
      | Some _ \<Rightarrow> ([], True))"

section \<open>The workspace\<close>

record Workspace =
  ws_cross :: files
  ws_cc :: files
  ws_gitignore :: "string option"

record SyncResult =
  CrossAgentFiles :: nat
  CCNativeFiles :: nat

text \<open>
  \<open>SyncSources\<close>: a source is \<open>None\<close> when its path is empty, else its name and its tree.
  \<open>reset_ok\<close> tells whether the two managed directories can be reset.
\<close>

definition SyncSources ::
  "(path \<Rightarrow> bool) \<Rightarrow> bool \<times> bool \<Rightarrow> (string \<times> node option) option \<Rightarrow> node option option \<Rightarrow>
   Workspace \<Rightarrow> Workspace \<times> (string + SyncResult)" where
  "SyncSources ok reset_ok crossAgent cc ws =
     (if \<not> fst reset_ok then (ws, Inl ''resetting cross-agent dir'')
      else let ws = ws\<lparr>ws_cross := []\<rparr>;
               (fs, e) = (case crossAgent of None \<Rightarrow> ([], False)
                          | Some (name, src) \<Rightarrow> copyTree (\<lambda>p. ok (''cross-agent'' # p)) True name src);
               ws = ws\<lparr>ws_cross := fs\<rparr> in
      if e then (ws, Inl ''copying cross-agent memory'')
      else if \<not> snd reset_ok then (ws, Inl ''resetting cc-native dir'')
      else let ws = ws\<lparr>ws_cc := []\<rparr>;
               (gs, e) = (case cc of None \<Rightarrow> ([], False)
                          | Some tree \<Rightarrow> copyCCNative (\<lambda>p. ok (''cc-native'' # p)) tree);
               ws = ws\<lparr>ws_cc := gs\<rparr> in
      if e then (ws, Inl ''copying cc-native memory'')
      else (ws, Inr \<lparr>CrossAgentFiles = length fs, CCNativeFiles = length gs\<rparr>))"

section \<open>What a snapshot holds\<close>

text \<open>All regular files of a tree with the directories on the way, and the ones that belong in a copy.\<close>

fun tree_files :: "path \<Rightarrow> node \<Rightarrow> files"
  and tree_list :: "path \<Rightarrow> (string \<times> node) list \<Rightarrow> files" where
  "tree_files rel (Regular content) = [(rel, content)]"
| "tree_files rel Irregular = []"
| "tree_files rel (Dir es) = tree_list rel es"
| "tree_list rel [] = []"
| "tree_list rel ((name, nd) # es) = tree_files (rel @ [name]) nd @ tree_list rel es"

definition wanted :: "bool \<Rightarrow> path \<Rightarrow> bool" where
  "wanted skipGit p \<longleftrightarrow> \<not> isAuditJSONL (last p) \<and> \<not> isSQLiteDatabaseFile (last p) \<and>
     \<not> has_prefix (rel_path p) ''..'' \<and> (skipGit \<longrightarrow> ''.git'' \<notin> set (butlast p))"

lemma tree_prefix:
  "(p, c) \<in> set (tree_files rel nd) \<Longrightarrow> \<exists>q. p = rel @ q"
  "(p, c) \<in> set (tree_list rel es) \<Longrightarrow> \<exists>q. q \<noteq> [] \<and> p = rel @ q"
  by (induction rel nd and rel es rule: tree_files_tree_list.induct) fastforce+

text \<open>A directory called \<open>.git\<close> on the way rules out everything below it.\<close>

lemma below_git: "''.git'' \<in> set rel \<Longrightarrow> filter (wanted True \<circ> fst) (tree_list rel es) = []"
proof -
  assume git: "''.git'' \<in> set rel"
  have "\<not> wanted True p" if mem: "(p, c) \<in> set (tree_list rel es)" for p c
  proof -
    from tree_prefix(2) [OF mem] obtain q where "q \<noteq> []" "p = rel @ q" by blast
    with git show ?thesis by (simp add: wanted_def butlast_append)
  qed
  then show ?thesis by (auto simp: filter_empty_conv)
qed

definition open_path :: "bool \<Rightarrow> path \<Rightarrow> bool" where
  "open_path skipGit rel \<longleftrightarrow> (skipGit \<longrightarrow> ''.git'' \<notin> set rel)"

text \<open>
  When every file can be copied, the walk copies exactly the wanted files in tree order.
\<close>

lemma copy_walk:
  "rel \<noteq> [] \<Longrightarrow> name = last rel \<Longrightarrow> open_path skip (butlast rel) \<Longrightarrow>
     copy_node (\<lambda>_. True) skip name rel nd = (filter (wanted skip \<circ> fst) (tree_files rel nd), False)"
  "open_path skip rel \<Longrightarrow>
     copy_nodes (\<lambda>_. True) skip rel es = (filter (wanted skip \<circ> fst) (tree_list rel es), False)"
proof (induction "\<lambda>_ :: path. True" skip name rel nd and "\<lambda>_ :: path. True" skip rel es
    rule: copy_node_copy_nodes.induct)
  case (1 skip name rel content)
  then show ?case by (auto simp: copy_file_def wanted_def open_path_def)
next
  case (3 skip name rel es)
  show ?case
  proof (cases "skip \<and> name = ''.git''")
    case True
    then have "''.git'' \<in> set rel" using 3 by (metis last_in_set)
    then show ?thesis using True below_git by simp
  next
    case False
    have "set rel = insert (last rel) (set (butlast rel))"
      using 3(2) by (metis append_butlast_last_id list.simps(15) rotate1.simps(2) set_rotate1)
    then have "open_path skip rel" using 3(3,4) False by (auto simp: open_path_def)
    then show ?thesis using 3(1) False by auto
  qed
next
  case (5 skip rel name nd es)
  have "copy_node (\<lambda>_. True) skip name (rel @ [name]) nd
      = (filter (wanted skip \<circ> fst) (tree_files (rel @ [name]) nd), False)"
    using 5(1,3) by simp
  moreover from 5(2) [OF this [symmetric]] 5(3) have "copy_nodes (\<lambda>_. True) skip rel es
      = (filter (wanted skip \<circ> fst) (tree_list rel es), False)" by simp
  ultimately show ?case by simp
qed simp_all

lemma copyTree_walk:
  "name \<noteq> ''.git'' \<or> \<not> skip \<Longrightarrow>
     copyTree (\<lambda>_. True) skip name (Some (Dir es)) = (filter (wanted skip \<circ> fst) (tree_list [] es), False)"
  using copy_walk(2) [of skip "[]" es] by (auto simp: copyTree_def open_path_def)

text \<open>A walk that fails has copied a prefix of what the whole walk would copy.\<close>

lemma copy_all_ok:
  "\<not> snd (copy_node (\<lambda>_. True) skip name rel nd)"
  "\<not> snd (copy_nodes (\<lambda>_. True) skip rel es)"
proof (induction "\<lambda>_ :: path. True" skip name rel nd and "\<lambda>_ :: path. True" skip rel es
      rule: copy_node_copy_nodes.induct)
  case (5 skip rel name nd es)
  then obtain fs where fs: "copy_node (\<lambda>_. True) skip name (rel @ [name]) nd = (fs, False)"
    by (metis prod.collapse)
  from 5(2) [OF fs [symmetric]] show ?case
    by (cases "copy_nodes (\<lambda>_. True) skip rel es") (simp add: fs)
qed (auto simp: copy_file_def)

lemma copy_prefix:
  "prefix (fst (copy_node ok skip name rel nd)) (fst (copy_node (\<lambda>_. True) skip name rel nd)) \<and>
     (\<not> snd (copy_node ok skip name rel nd) \<longrightarrow>
        fst (copy_node ok skip name rel nd) = fst (copy_node (\<lambda>_. True) skip name rel nd))"
  "prefix (fst (copy_nodes ok skip rel es)) (fst (copy_nodes (\<lambda>_. True) skip rel es)) \<and>
     (\<not> snd (copy_nodes ok skip rel es) \<longrightarrow>
        fst (copy_nodes ok skip rel es) = fst (copy_nodes (\<lambda>_. True) skip rel es))"
proof (induction ok skip name rel nd and ok skip rel es rule: copy_node_copy_nodes.induct)
  case (5 ok skip rel name nd es)
  obtain fs e where n: "copy_node ok skip name (rel @ [name]) nd = (fs, e)" by fastforce
  obtain fs' where n': "copy_node (\<lambda>_. True) skip name (rel @ [name]) nd = (fs', False)"
    using copy_all_ok(1) [of skip name "rel @ [name]" nd] by (metis prod.collapse)
  obtain gs' where g': "copy_nodes (\<lambda>_. True) skip rel es = (gs', False)"
    using copy_all_ok(2) [of skip rel es] by (metis prod.collapse)
  show ?case
  proof (cases e)
    case True
    then show ?thesis using 5(1) n n' g' by (auto intro: prefix_prefix)
  next
    case False
    obtain gs d where "copy_nodes ok skip rel es = (gs, d)" by fastforce
    then show ?thesis using 5(1) 5(2) [OF n [symmetric]] n n' g' False by auto
  qed
qed (auto simp: copy_file_def)

text \<open>The files of the CC root: each project's memory directory, under the project's name.\<close>

definition cc_files :: "(string \<times> node) list \<Rightarrow> files" where
  "cc_files es = concat (map (\<lambda>(project, nd).
     case nd of
       Dir sub \<Rightarrow> (case map_of sub ''memory'' of
           Some (Dir mem) \<Rightarrow> map (\<lambda>(p, c). ([project, ''memory''] @ p, c)) (filter (wanted False \<circ> fst) (tree_list [] mem))
         | _ \<Rightarrow> [])
     | _ \<Rightarrow> []) es)"

lemma copy_projects_all: "copy_projects (\<lambda>_. True) es = (cc_files es, False)"
proof (induction es)
  case (Cons a es)
  then show ?case
    by (cases a) (auto simp: cc_files_def copyTree_walk split: node.splits option.splits)
qed (simp add: cc_files_def)

text \<open>
  A cycle that can copy every file leaves in the two managed directories exactly the wanted
  files of the sources as they are now, with their contents, whatever was there before, so that
  deletions propagate; nothing else of the workspace changes and the counts are right.
\<close>

theorem SyncSources_exact:
  assumes "name \<noteq> ''.git''"
  shows "SyncSources (\<lambda>_. True) (True, True) (Some (name, Some (Dir es))) (Some (Some (Dir ps))) ws
    = (ws\<lparr>ws_cross := filter (wanted True \<circ> fst) (tree_list [] es), ws_cc := cc_files ps\<rparr>,
       Inr \<lparr>CrossAgentFiles = length (filter (wanted True \<circ> fst) (tree_list [] es)),
            CCNativeFiles = length (cc_files ps)\<rparr>)"
  using assms by (simp add: SyncSources_def Let_def copyTree_walk copyCCNative_def copy_projects_all)

definition demo_tree :: "(string \<times> node) list" where
  "demo_tree = [(''.git'', Dir [(''HEAD'', Regular ''ref'')]), (''.x-audit.jsonl'', Regular ''{}''),
                (''cache.DB'', Regular ''sql''), (''go'', Dir [(''a.md'', Regular ''note'')])]"

lemma name_checks:
  "\<not> isSQLiteDatabaseFile ''HEAD''" "isSQLiteDatabaseFile ''cache.DB''" "\<not> isSQLiteDatabaseFile ''a.md''"
  by code_simp+

lemmas path_simps = rel_path_def isAuditJSONL_def has_suffix_def has_prefix_def name_checks

theorem SyncSources_exact_witness:
  "fst (SyncSources (\<lambda>_. True) (True, True) (Some (''user'', Some (Dir demo_tree)))
     (Some (Some (Dir [(''p'', Dir [(''memory'', Dir demo_tree)])]))) \<lparr>ws_cross = [([''old''], [])], ws_cc = [], ws_gitignore = None\<rparr>)
   = \<lparr>ws_cross = [([''go'', ''a.md''], ''note'')],
      ws_cc = [([''p'', ''memory'', ''.git'', ''HEAD''], ''ref''), ([''p'', ''memory'', ''go'', ''a.md''], ''note'')],
      ws_gitignore = None\<rparr>"
  by (subst SyncSources_exact) (simp_all add: demo_tree_def wanted_def cc_files_def path_simps)

text \<open>
  Whatever fails on the way, no file under a \<open>.git\<close> directory, no SQLite database and no audit
  log of the cross-agent source is ever in the snapshot, which is a prefix of the wanted files.
\<close>

theorem snapshot_no_leak:
  assumes "fst reset_ok" and "name \<noteq> ''.git''"
  shows "prefix (ws_cross (fst (SyncSources ok reset_ok (Some (name, Some (Dir es))) cc ws)))
     (filter (wanted True \<circ> fst) (tree_list [] es))"
proof -
  have "fst (copyTree (\<lambda>_. True) True name (Some (Dir es))) = filter (wanted True \<circ> fst) (tree_list [] es)"
    using copyTree_walk [of name True es] assms(2) by simp
  moreover have "prefix (fst (copyTree (\<lambda>p. ok (''cross-agent'' # p)) True name (Some (Dir es))))
      (fst (copyTree (\<lambda>_. True) True name (Some (Dir es))))"
    using copy_prefix(1) by (simp only: copyTree_def option.case node.case)
  ultimately have "prefix (fst (copyTree (\<lambda>p. ok (''cross-agent'' # p)) True name (Some (Dir es))))
      (filter (wanted True \<circ> fst) (tree_list [] es))" by simp
  then show ?thesis
    using assms(1) by (auto simp: SyncSources_def Let_def split: prod.splits)
qed

theorem snapshot_no_leak_witness:
  "prefix (ws_cross (fst (SyncSources (\<lambda>p. p \<noteq> [''cross-agent'', ''b'']) (True, True)
      (Some (''user'', Some (Dir [(''.git'', Dir [(''HEAD'', Regular ''r'')]), (''a'', Regular ''x''),
        (''b'', Regular ''y''), (''m.db'', Regular ''z'')])))
      None \<lparr>ws_cross = [], ws_cc = [], ws_gitignore = None\<rparr>)))
    [([''a''], ''x''), ([''b''], ''y'')]"
proof -
  define es where "es = [(''.git'', Dir [(''HEAD'', Regular ''r'')]), (''a'', Regular ''x''),
    (''b'', Regular ''y''), (''m.db'', Regular ''z'')]"
  have wanted: "filter (wanted True \<circ> fst) (tree_list [] es) = [([''a''], ''x''), ([''b''], ''y'')]"
    unfolding es_def by code_simp
  have "fst (True, True)" "''user'' \<noteq> ''.git''" by simp_all
  from snapshot_no_leak [OF this, of _ es] show ?thesis unfolding wanted unfolding es_def .
qed

text \<open>
  The copy of the CC-native memory does not skip \<open>.git\<close>: a repository inside a memory directory
  is copied with its history.
\<close>

theorem cc_native_copies_git:
  "([p, ''memory'', ''.git'', ''HEAD''], ''ref'') \<in> set (fst (copyCCNative (\<lambda>_. True)
      (Some (Dir [(p, Dir [(''memory'', Dir [(''.git'', Dir [(''HEAD'', Regular ''ref'')])])])]))))"
  by (simp add: copyCCNative_def copyTree_def copy_file_def path_simps)

text \<open>
  A regular file at the top of a source whose name starts with two dots is left out of the
  backup although its path is inside the destination.
\<close>

theorem dotdot_name_skipped:
  "copyTree (\<lambda>_. True) True ''user'' (Some (Dir [(''..'' @ n, Regular content)])) = ([], False)"
  by (simp add: copyTree_def copy_file_def rel_path_def has_prefix_def)

end
