(* ===== verification/Backup_Worker.thy ===== *)
theory Backup_Worker
  imports Backup_Sync Flight_Lock
begin

text \<open>
  One backup cycle (\<open>internal/backup/worker.go\<close>) and its status file (\<open>status.go\<close>). \<open>git\<close> and \<open>gh\<close> are
  arbitrary programs: \<open>env_git\<close> may change the repository and the workspace in any way and
  answers with an output and an exit code, or not at all (a spawn failure, \<^const>\<open>Inl\<close>). The
  trace records every command with its answer. \<open>env_codec\<close> stands for encoding a status as JSON
  and decoding it again (\<^const>\<open>None\<close> when that fails), \<open>env_quote\<close> for \<open>strconv.Quote\<close>.
\<close>

section \<open>State\<close>

abbreviation remoteName :: string where "remoteName \<equiv> ''origin''"
abbreviation defaultBranch :: string where "defaultBranch \<equiv> ''main''"

record Config =
  cfg_Workspace :: string
  cfg_Repo :: string
  cfg_CrossAgent :: "(string \<times> node option) option"
  cfg_CC :: "node option option"

record Status =
  st_Repo :: string
  st_LastAttemptAt :: string
  st_LastSuccessAt :: string
  st_LastError :: string
  st_LastErrorAt :: string
  st_CrossAgentFiles :: nat
  st_CCNativeFiles :: nat

definition zero_status :: Status where
  "zero_status = \<lparr>st_Repo = [], st_LastAttemptAt = [], st_LastSuccessAt = [], st_LastError = [],
     st_LastErrorAt = [], st_CrossAgentFiles = 0, st_CCNativeFiles = 0\<rparr>"

type_synonym answer = "string + string \<times> int"

record 'g Env =
  env_cfg :: Config
  env_git :: "string list \<Rightarrow> 'g \<times> Workspace \<Rightarrow> ('g \<times> Workspace) \<times> answer"
  env_gh :: "answer option"
  env_pid :: int
  env_alive :: "int \<Rightarrow> bool"
  env_mkdir_ok :: bool
  env_open_ok :: bool
  env_ignore_ok :: bool
  env_copy_ok :: "path \<Rightarrow> bool"
  env_reset_ok :: "bool \<times> bool"
  env_times :: "string \<times> string \<times> string"
  env_store :: bool
  env_write_ok :: "bool \<times> bool \<times> bool"
  env_codec :: "Status \<Rightarrow> Status option"
  env_quote :: "string \<Rightarrow> string"

record 'g World =
  bw_git :: 'g
  bw_ws :: Workspace
  bw_lock :: "string option"
  bw_status :: "Status option"
  bw_trace :: "(string list \<times> answer) list"

section \<open>The status store\<close>

text \<open>\<open>Read\<close>: a missing or corrupt file is the zero status.\<close>

definition read_status :: "'g Env \<Rightarrow> 'g World \<Rightarrow> Status" where
  "read_status env w =
     (case bw_status w of
        None \<Rightarrow> zero_status
      | Some data \<Rightarrow> (case env_codec env data of None \<Rightarrow> zero_status | Some st \<Rightarrow> st))"

text \<open>\<open>Write\<close>: make the directory, write the temporary file, rename it over the status.\<close>

definition write_status :: "'g Env \<Rightarrow> Status \<Rightarrow> 'g World \<Rightarrow> 'g World" where
  "write_status env st w =
     (case env_write_ok env of (mkdir_ok, tmp_ok, rename_ok) \<Rightarrow>
        if \<not> mkdir_ok then w else if \<not> tmp_ok then w else if \<not> rename_ok then w
        else w\<lparr>bw_status := Some st\<rparr>)"

section \<open>The remote\<close>

definition remoteURL :: "string \<Rightarrow> string" where
  "remoteURL repo = ''git@github.com:'' @ repo @ ''.git''"

definition trim_set :: "char set \<Rightarrow> string \<Rightarrow> string" where
  "trim_set cs s = trim_right_of (\<lambda>c. c \<in> cs) (trim_left_of (\<lambda>c. c \<in> cs) s)"

definition remoteMatchesRepo :: "string \<Rightarrow> string \<Rightarrow> bool" where
  "remoteMatchesRepo url repo =
     (let want = to_lower (trim_suffix (trim_space repo) ''.git'') in
      if want = [] then False
      else let got = to_lower (trim_space url);
               got = trim_suffix got ''.git'';
               got = (case str_index got ''github.com'' of
                        Some i \<Rightarrow> trim_left_of (\<lambda>c. c \<in> {CHR '':'', CHR ''/''}) (drop (i + length ''github.com'') got)
                      | None \<Rightarrow> got);
               got = trim_set {CHR ''/''} got in
           got = want)"

section \<open>The cycle\<close>

definition git :: "'g Env \<Rightarrow> string list \<Rightarrow> 'g World \<Rightarrow> 'g World \<times> answer" where
  "git env args w =
     (let cmd = ''-C'' # cfg_Workspace (env_cfg env) # args in
      case env_git env cmd (bw_git w, bw_ws w) of
        ((g, ws), r) \<Rightarrow> (w\<lparr>bw_git := g, bw_ws := ws, bw_trace := bw_trace w @ [(cmd, r)]\<rparr>, r))"

abbreviation get_url :: "string list" where "get_url \<equiv> [''remote'', ''get-url'', remoteName]"
abbreviation push_cmd :: "string list" where "push_cmd \<equiv> [''push'', remoteName, defaultBranch]"

text \<open>A command whose failure and whose non-zero exit both end the step.\<close>

definition must :: "'g Env \<Rightarrow> string \<Rightarrow> string list \<Rightarrow> 'g World \<Rightarrow> 'g World \<times> string option" where
  "must env what args w =
     (case git env args w of
        (w, Inl err) \<Rightarrow> (w, Some (what @ '': '' @ err))
      | (w, Inr (_, code)) \<Rightarrow> (w, if code \<noteq> 0 then Some (what @ '' exited '' @ itoa code) else None))"

definition integrateRemoteBase :: "'g Env \<Rightarrow> 'g World \<Rightarrow> 'g World \<times> string option" where
  "integrateRemoteBase env w =
     (case git env [''fetch'', remoteName, defaultBranch] w of
        (w, Inl err) \<Rightarrow> (w, Some (''git fetch: '' @ err))
      | (w, Inr (_, code)) \<Rightarrow>
          if code \<noteq> 0 then (w, None)
          else must env ''git reset --hard FETCH_HEAD'' [''reset'', ''--hard'', ''FETCH_HEAD''] w)"

definition gitignoreContents :: string where
  "gitignoreContents = ''.backup.lock'' @ [newline] @ ''*.lock'' @ [newline] @ ''*.tmp'' @ [newline]"

definition writeGitignore :: "'g Env \<Rightarrow> 'g World \<Rightarrow> 'g World \<times> string option" where
  "writeGitignore env w =
     (if ws_gitignore (bw_ws w) = Some gitignoreContents then (w, None)
      else if env_ignore_ok env
      then (w\<lparr>bw_ws := (bw_ws w)\<lparr>ws_gitignore := Some gitignoreContents\<rparr>\<rparr>, None)
      else (w, Some ''open .gitignore''))"

definition ensure_origin :: "'g Env \<Rightarrow> 'g World \<Rightarrow> 'g World \<times> string option" where
  "ensure_origin env w =
     (let repo = cfg_Repo (env_cfg env); url = remoteURL repo in
      case git env get_url w of
        (w, Inl err) \<Rightarrow> (w, Some (''git remote get-url: '' @ err))
      | (w, Inr (out, code)) \<Rightarrow>
          if code = 0 then
            (let got = trim_space out in
             if \<not> remoteMatchesRepo got repo
             then (w, Some (''existing origin '' @ env_quote env got @ '' does not point at the configured backup repo ''
                       @ env_quote env repo @ '' (refusing to overwrite)''))
             else (w, None))
          else must env ''git remote add'' [''remote'', ''add'', remoteName, url] w)"

definition ensureWorkspace :: "'g Env \<Rightarrow> 'g World \<Rightarrow> 'g World \<times> string option" where
  "ensureWorkspace env w =
     (case must env ''git init'' [''init'', ''-b'', defaultBranch] w of
        (w, Some e) \<Rightarrow> (w, Some e)
      | (w, None) \<Rightarrow>
          (case ensure_origin env w of
             (w, Some e) \<Rightarrow> (w, Some e)
           | (w, None) \<Rightarrow>
               (case integrateRemoteBase env w of
                  (w, Some e) \<Rightarrow> (w, Some e)
                | (w, None) \<Rightarrow>
                    (case writeGitignore env w of
                       (w, Some e) \<Rightarrow> (w, Some (''writing .gitignore: '' @ e))
                     | (w, None) \<Rightarrow> (w, None)))))"

definition verifyRemote :: "'g Env \<Rightarrow> 'g World \<Rightarrow> 'g World \<times> string option" where
  "verifyRemote env w =
     (case git env get_url w of
        (w, Inl err) \<Rightarrow> (w, Some (''git remote get-url: '' @ err))
      | (w, Inr (out, code)) \<Rightarrow>
          if code \<noteq> 0 then (w, Some (''no '' @ env_quote env remoteName @ '' remote configured''))
          else (let got = trim_space out; repo = cfg_Repo (env_cfg env) in
            if \<not> remoteMatchesRepo got repo
            then (w, Some (''remote '' @ env_quote env got @ '' does not point at the configured backup repo ''
                      @ env_quote env repo))
            else (w, None)))"

definition checkGHAuth :: "'g Env \<Rightarrow> string option" where
  "checkGHAuth env =
     (case env_gh env of
        None \<Rightarrow> None
      | Some (Inl err) \<Rightarrow> Some (''gh not available: '' @ err)
      | Some (Inr (_, code)) \<Rightarrow>
          if code \<noteq> 0 then Some ''gh not authenticated (run gh auth login)'' else None)"

definition commit :: "'g Env \<Rightarrow> 'g World \<Rightarrow> 'g World \<times> (string + bool)" where
  "commit env w =
     (case must env ''git add'' [''add'', ''-A''] w of
        (w, Some e) \<Rightarrow> (w, Inl e)
      | (w, None) \<Rightarrow>
          (case git env [''commit'', ''-m'', ''memory backup '' @ fst (snd (env_times env))] w of
             (w, Inl err) \<Rightarrow> (w, Inl (''git commit: '' @ err))
           | (w, Inr (_, code)) \<Rightarrow> (w, Inr (code = 0))))"

definition push :: "'g Env \<Rightarrow> 'g World \<Rightarrow> 'g World \<times> string option" where
  "push env w =
     (case git env push_cmd w of
        (w, Inl err) \<Rightarrow> (w, Some (''git push: '' @ err))
      | (w, Inr (out, code)) \<Rightarrow>
          if code \<noteq> 0
          then (let msg = trim_space out in
                (w, Some (if msg = [] then ''git push exited '' @ itoa code else msg)))
          else (w, None))"

definition fail :: "'g Env \<Rightarrow> string \<Rightarrow> string \<Rightarrow> 'g World \<Rightarrow> 'g World \<times> string option" where
  "fail env startedAt msg w =
     (if \<not> env_store env then (w, Some msg)
      else let prev = read_status env w in
        (write_status env (prev\<lparr>st_Repo := cfg_Repo (env_cfg env), st_LastAttemptAt := startedAt,
            st_LastError := msg, st_LastErrorAt := snd (snd (env_times env))\<rparr>) w, Some msg))"

definition succeed :: "'g Env \<Rightarrow> string \<Rightarrow> SyncResult \<Rightarrow> 'g World \<Rightarrow> 'g World \<times> string option" where
  "succeed env startedAt res w =
     (if \<not> env_store env then (w, None)
      else (write_status env (zero_status\<lparr>st_Repo := cfg_Repo (env_cfg env), st_LastAttemptAt := startedAt,
              st_LastSuccessAt := snd (snd (env_times env)), st_CrossAgentFiles := CrossAgentFiles res,
              st_CCNativeFiles := CCNativeFiles res\<rparr>) w, None))"

abbreviation lock_held_msg :: string where
  "lock_held_msg \<equiv> ''backup: lock held by another instance''"

definition sync_sources :: "'g Env \<Rightarrow> 'g World \<Rightarrow> 'g World \<times> (string + SyncResult)" where
  "sync_sources env w =
     (case SyncSources (env_copy_ok env) (env_reset_ok env) (cfg_CrossAgent (env_cfg env))
             (cfg_CC (env_cfg env)) (bw_ws w) of
        (ws, r) \<Rightarrow> (w\<lparr>bw_ws := ws\<rparr>, r))"

text \<open>The body of \<open>RunOnce\<close> under the lock, and the whole call, which releases it on every way out.\<close>

definition locked_cycle :: "'g Env \<Rightarrow> 'g World \<Rightarrow> 'g World \<times> string option" where
  "locked_cycle env w =
     (let startedAt = fst (env_times env) in
      if trim_space (cfg_Repo (env_cfg env)) = [] then fail env startedAt ''no backup repo configured'' w
      else case ensureWorkspace env w of
        (w, Some e) \<Rightarrow> fail env startedAt (''preparing workspace: '' @ e) w
      | (w, None) \<Rightarrow>
     (case verifyRemote env w of
        (w, Some e) \<Rightarrow> fail env startedAt (''verifying remote: '' @ e) w
      | (w, None) \<Rightarrow>
     (case checkGHAuth env of
        Some e \<Rightarrow> fail env startedAt e w
      | None \<Rightarrow>
     (case sync_sources env w of
        (w, Inl e) \<Rightarrow> fail env startedAt (''syncing sources: '' @ e) w
      | (w, Inr res) \<Rightarrow>
     (case commit env w of
        (w, Inl e) \<Rightarrow> fail env startedAt (''committing backup: '' @ e) w
      | (w, Inr committed) \<Rightarrow>
     (case push env w of
        (w, Some e) \<Rightarrow> fail env startedAt (''pushing backup: '' @ e) w
      | (w, None) \<Rightarrow> succeed env startedAt res w))))))"

definition backupLockFile :: string where "backupLockFile = ''.backup.lock''"

definition RunOnce :: "'g Env \<Rightarrow> 'g World \<Rightarrow> 'g World \<times> string option" where
  "RunOnce env w =
     (case AcquireLock backupLockFile (env_alive env) (env_mkdir_ok env) (env_open_ok env) (env_pid env)
             (cfg_Workspace (env_cfg env)) (bw_lock w) of
        (file, Inl ErrLocked) \<Rightarrow> (w\<lparr>bw_lock := file\<rparr>, Some lock_held_msg)
      | (file, Inl MkdirFailed) \<Rightarrow>
          fail env (fst (env_times env)) ''acquiring lock: creating backup dir for lock'' (w\<lparr>bw_lock := file\<rparr>)
      | (file, Inl OpenFailed) \<Rightarrow>
          fail env (fst (env_times env)) ''acquiring lock: open'' (w\<lparr>bw_lock := file\<rparr>)
      | (file, Inr l) \<Rightarrow>
          (case locked_cycle env (w\<lparr>bw_lock := file\<rparr>) of
             (w, r) \<Rightarrow> (w\<lparr>bw_lock := Release (Some l) (bw_lock w)\<rparr>, r)))"

section \<open>What the commands leave alone\<close>

definition cmd :: "'g Env \<Rightarrow> string list \<Rightarrow> string list" where
  "cmd env args = ''-C'' # cfg_Workspace (env_cfg env) # args"

lemma cmd_inject [simp]: "cmd env a = cmd env b \<longleftrightarrow> a = b"
  by (simp add: cmd_def)

definition no_push :: "'g Env \<Rightarrow> (string list \<times> answer) list \<Rightarrow> bool" where
  "no_push env new \<longleftrightarrow> (\<forall>(c, _) \<in> set new. c \<noteq> cmd env push_cmd)"

text \<open>A part of the cycle that pushes nothing and leaves the lock and the status file alone.\<close>

definition before_push :: "'g Env \<Rightarrow> 'g World \<Rightarrow> 'g World \<Rightarrow> bool" where
  "before_push env w w' \<longleftrightarrow> bw_status w' = bw_status w \<and> bw_lock w' = bw_lock w \<and>
     (\<exists>new. bw_trace w' = bw_trace w @ new \<and> no_push env new)"

lemma before_push_refl: "before_push env w w"
  by (simp add: before_push_def no_push_def)

lemma before_push_trans: "before_push env u v \<Longrightarrow> before_push env v w \<Longrightarrow> before_push env u w"
proof -
  assume a: "before_push env u v" and b: "before_push env v w"
  then obtain n m where "bw_trace v = bw_trace u @ n" "no_push env n" "bw_trace w = bw_trace v @ m" "no_push env m"
    by (auto simp: before_push_def)
  then have "bw_trace w = bw_trace u @ (n @ m)" "no_push env (n @ m)" by (auto simp: no_push_def)
  with a b show ?thesis unfolding before_push_def by auto
qed

lemma git_trace:
  "git env args w = (w', r) \<Longrightarrow> bw_trace w' = bw_trace w @ [(cmd env args, r)] \<and>
     bw_status w' = bw_status w \<and> bw_lock w' = bw_lock w"
  by (auto simp: git_def cmd_def Let_def split: prod.splits)

lemma git_before: "git env args w = (w', r) \<Longrightarrow> args \<noteq> push_cmd \<Longrightarrow> before_push env w w'"
  by (drule git_trace) (simp add: before_push_def no_push_def)

lemma must_before: "must env what args w = (w', r) \<Longrightarrow> args \<noteq> push_cmd \<Longrightarrow> before_push env w w'"
  by (auto simp: must_def split: prod.splits sum.splits dest: git_before)

lemma integrate_before: "integrateRemoteBase env w = (w', r) \<Longrightarrow> before_push env w w'"
  by (auto simp: integrateRemoteBase_def split: prod.splits sum.splits if_splits
      dest!: git_before must_before intro: before_push_trans)

lemma ignore_before: "writeGitignore env w = (w', r) \<Longrightarrow> before_push env w w'"
  by (auto simp: writeGitignore_def before_push_def no_push_def split: if_splits)

lemma origin_before: "ensure_origin env w = (w', r) \<Longrightarrow> before_push env w w'"
  by (auto simp: ensure_origin_def Let_def split: prod.splits sum.splits if_splits
      dest!: git_before must_before intro: before_push_trans)

lemma ensure_before: "ensureWorkspace env w = (w', r) \<Longrightarrow> before_push env w w'"
  by (auto simp: ensureWorkspace_def split: prod.splits option.splits
      dest!: must_before origin_before integrate_before ignore_before intro: before_push_trans)

lemma verify_before: "verifyRemote env w = (w', r) \<Longrightarrow> before_push env w w'"
  by (auto simp: verifyRemote_def Let_def split: prod.splits sum.splits if_splits dest: git_before)

lemma sync_before: "sync_sources env w = (w', r) \<Longrightarrow> before_push env w w' \<and> bw_trace w' = bw_trace w"
  by (auto simp: sync_sources_def before_push_def no_push_def split: prod.splits)

lemma commit_before: "commit env w = (w', r) \<Longrightarrow> before_push env w w'"
  by (auto simp: commit_def split: prod.splits sum.splits option.splits
      dest!: git_before must_before intro: before_push_trans)

text \<open>A remote that verifies was read back from git and matches the configured repository.\<close>

lemma verify_ok:
  assumes "verifyRemote env w = (w', None)"
  shows "\<exists>out. bw_trace w' = bw_trace w @ [(cmd env get_url, Inr (out, 0))] \<and>
    remoteMatchesRepo (trim_space out) (cfg_Repo (env_cfg env))"
  using assms by (auto simp: verifyRemote_def Let_def split: prod.splits sum.splits if_splits dest!: git_trace)

definition commit_cmds :: "'g Env \<Rightarrow> string list set" where
  "commit_cmds env = {cmd env [''add'', ''-A''],
     cmd env [''commit'', ''-m'', ''memory backup '' @ fst (snd (env_times env))]}"

lemma commit_trace:
  "commit env w = (w', r) \<Longrightarrow> \<exists>mid. bw_trace w' = bw_trace w @ mid \<and> fst ` set mid \<subseteq> commit_cmds env"
  by (auto simp: commit_def must_def commit_cmds_def split: prod.splits sum.splits option.splits if_splits
      dest!: git_trace)

lemma push_trace: "push env w = (w', r) \<Longrightarrow> \<exists>a. bw_trace w' = bw_trace w @ [(cmd env push_cmd, a)] \<and>
    bw_status w' = bw_status w \<and> (r = None \<longleftrightarrow> (\<exists>out. a = Inr (out, 0)))"
  by (auto simp: push_def Let_def split: prod.splits sum.splits if_splits dest!: git_trace)

lemma fail_trace: "fail env st msg w = (w', r) \<Longrightarrow> bw_trace w' = bw_trace w \<and> r = Some msg"
  by (auto simp: fail_def write_status_def Let_def split: if_splits prod.splits)

lemma succeed_trace: "succeed env st res w = (w', r) \<Longrightarrow> bw_trace w' = bw_trace w \<and> r = None"
  by (auto simp: succeed_def write_status_def Let_def split: if_splits prod.splits)

lemma gh_ok: "checkGHAuth env = None \<longleftrightarrow> env_gh env = None \<or> (\<exists>out. env_gh env = Some (Inr (out, 0)))"
  by (auto simp: checkGHAuth_def split: option.splits sum.splits if_splits)

section \<open>The shape of a cycle\<close>

text \<open>
  A trace that ends in a push: right before the staging and the commit the remote was read back
  and matched, nothing was pushed earlier, and \<open>gh\<close> (when there is one) reported a login.
\<close>

definition guarded :: "'g Env \<Rightarrow> (string list \<times> answer) list \<Rightarrow> bool" where
  "guarded env new \<longleftrightarrow> (\<exists>pre out mid a.
     new = pre @ (cmd env get_url, Inr (out, 0)) # mid @ [(cmd env push_cmd, a)] \<and>
     remoteMatchesRepo (trim_space out) (cfg_Repo (env_cfg env)) \<and>
     fst ` set mid \<subseteq> commit_cmds env \<and> no_push env pre \<and>
     (env_gh env = None \<or> (\<exists>o'. env_gh env = Some (Inr (o', 0)))))"

lemma guarded_intro:
  assumes "before_push env w v1" "verifyRemote env v1 = (v2, None)" "checkGHAuth env = None"
    and "sync_sources env v2 = (v3, res)" "commit env v3 = (v4, b)" "push env v4 = (v5, r)"
  shows "\<exists>new. bw_trace v5 = bw_trace w @ new \<and> guarded env new \<and> bw_status v5 = bw_status w"
proof -
  obtain pre where "bw_trace v1 = bw_trace w @ pre" "no_push env pre" "bw_status v1 = bw_status w"
    using assms(1) by (auto simp: before_push_def)
  moreover obtain out where "bw_trace v2 = bw_trace v1 @ [(cmd env get_url, Inr (out, 0))]"
      "remoteMatchesRepo (trim_space out) (cfg_Repo (env_cfg env))"
    using verify_ok [OF assms(2)] by blast
  moreover obtain mid where "bw_trace v4 = bw_trace v3 @ mid" "fst ` set mid \<subseteq> commit_cmds env"
    using commit_trace [OF assms(5)] by blast
  moreover obtain a where "bw_trace v5 = bw_trace v4 @ [(cmd env push_cmd, a)]" "bw_status v5 = bw_status v4"
    using push_trace [OF assms(6)] by blast
  moreover have "bw_trace v3 = bw_trace v2" "bw_status v3 = bw_status v2" "bw_status v2 = bw_status v1"
    "bw_status v4 = bw_status v3"
    using sync_before [OF assms(4)] verify_before [OF assms(2)] commit_before [OF assms(5)]
    by (simp_all add: before_push_def)
  ultimately have "bw_trace v5 = bw_trace w @ (pre @ (cmd env get_url, Inr (out, 0)) # mid @ [(cmd env push_cmd, a)])"
    "guarded env (pre @ (cmd env get_url, Inr (out, 0)) # mid @ [(cmd env push_cmd, a)])" "bw_status v5 = bw_status w"
    using assms(3) unfolding guarded_def gh_ok by (simp, blast, simp)
  then show ?thesis by blast
qed

definition ends_unpushed :: "'g Env \<Rightarrow> 'g World \<Rightarrow> 'g World \<Rightarrow> string option \<Rightarrow> bool" where
  "ends_unpushed env w w' r \<longleftrightarrow>
     (\<exists>v msg. before_push env w v \<and> fail env (fst (env_times env)) msg v = (w', r))"

definition ends_pushed :: "'g Env \<Rightarrow> 'g World \<Rightarrow> 'g World \<Rightarrow> string option \<Rightarrow> bool" where
  "ends_pushed env w w' r \<longleftrightarrow>
     (\<exists>v new. bw_trace v = bw_trace w @ new \<and> guarded env new \<and> bw_status v = bw_status w \<and>
        ((\<exists>e. fail env (fst (env_times env)) (''pushing backup: '' @ e) v = (w', r)) \<or>
         ((\<exists>out. snd (last new) = Inr (out, 0)) \<and>
          (\<exists>res. succeed env (fst (env_times env)) res v = (w', r)))))"

lemma locked_cycle_ends:
  assumes run: "locked_cycle env w = (w', r)"
  shows "ends_unpushed env w w' r \<or> ends_pushed env w w' r"
proof (cases "trim_space (cfg_Repo (env_cfg env)) = []")
  case True
  then show ?thesis using run before_push_refl unfolding ends_unpushed_def locked_cycle_def Let_def by fastforce
next
  case repo: False
  obtain v1 e1 where s1: "ensureWorkspace env w = (v1, e1)" by fastforce
  obtain v2 e2 where s2: "verifyRemote env v1 = (v2, e2)" by fastforce
  obtain v3 e3 where s3: "sync_sources env v2 = (v3, e3)" by fastforce
  obtain v4 e4 where s4: "commit env v3 = (v4, e4)" by fastforce
  obtain v5 e5 where s5: "push env v4 = (v5, e5)" by fastforce
  have b1: "before_push env w v1" using ensure_before [OF s1] .
  have b2: "before_push env w v2" using before_push_trans [OF b1 verify_before [OF s2]] .
  have b3: "before_push env w v3" using before_push_trans [OF b2] sync_before [OF s3] by blast
  have b4: "before_push env w v4" using before_push_trans [OF b3 commit_before [OF s4]] .
  note steps = repo s1 s2 s3 s4 s5 run [unfolded locked_cycle_def Let_def]
  consider (unpushed) v msg where "before_push env w v" "fail env (fst (env_times env)) msg v = (w', r)"
    | (pushed) c res where "e2 = None" "checkGHAuth env = None" "e3 = Inr res" "e4 = Inr c"
        "e5 = None \<and> succeed env (fst (env_times env)) res v5 = (w', r) \<or>
         (\<exists>e. e5 = Some e \<and> fail env (fst (env_times env)) (''pushing backup: '' @ e) v5 = (w', r))"
  proof (cases e1)
    case (Some e)
    then show ?thesis using steps b1 unpushed by simp
  next
    case n1: None
    show ?thesis
    proof (cases e2)
      case (Some e)
      then show ?thesis using steps b2 n1 unpushed by simp
    next
      case n2: None
      show ?thesis
      proof (cases "checkGHAuth env")
        case (Some e)
        then show ?thesis using steps b2 n1 n2 unpushed by simp
      next
        case n3: None
        show ?thesis
        proof (cases e3)
          case (Inl e)
          then show ?thesis using steps b3 n1 n2 n3 unpushed by simp
        next
          case n4: (Inr res)
          show ?thesis
          proof (cases e4)
            case (Inl e)
            then show ?thesis using steps b4 n1 n2 n3 n4 unpushed by simp
          next
            case (Inr c)
            then show ?thesis using steps n1 n2 n3 n4 pushed by (cases e5) simp_all
          qed
        qed
      qed
    qed
  qed
  then show ?thesis
  proof cases
    case unpushed
    then show ?thesis unfolding ends_unpushed_def by blast
  next
    case pushed
    obtain new where new: "bw_trace v5 = bw_trace w @ new" "guarded env new" "bw_status v5 = bw_status w"
      using guarded_intro [OF b1 s2 [unfolded pushed(1)] pushed(2) s3 s4 s5] by blast
    have "\<exists>out. snd (last new) = Inr (out, 0)" if e5: "e5 = None"
    proof -
      obtain a out where "bw_trace v5 = bw_trace v4 @ [(cmd env push_cmd, a)]" "a = Inr (out, 0)"
        using push_trace [OF s5] e5 by blast
      moreover have "new \<noteq> []" using new(2) by (auto simp: guarded_def)
      ultimately have "last new = (cmd env push_cmd, Inr (out, 0))"
        using new(1) by (metis last_appendR last_snoc)
      then show ?thesis by simp
    qed
    with new pushed(5) show ?thesis unfolding ends_pushed_def by blast
  qed
qed

section \<open>Properties\<close>

definition new_trace :: "'g World \<Rightarrow> 'g World \<Rightarrow> (string list \<times> answer) list" where
  "new_trace w w' = drop (length (bw_trace w)) (bw_trace w')"

abbreviation acquire :: "'g Env \<Rightarrow> 'g World \<Rightarrow> string option \<times> (LockError + Lock)" where
  "acquire env w \<equiv> AcquireLock backupLockFile (env_alive env) (env_mkdir_ok env) (env_open_ok env) (env_pid env)
     (cfg_Workspace (env_cfg env)) (bw_lock w)"

lemma unpushed_trace: "ends_unpushed env w w' r \<Longrightarrow> no_push env (new_trace w w')"
  by (auto simp: ends_unpushed_def before_push_def new_trace_def dest!: fail_trace)

lemma pushed_trace: "ends_pushed env w w' r \<Longrightarrow> guarded env (new_trace w w')"
  by (auto simp: ends_pushed_def new_trace_def dest!: fail_trace succeed_trace)

text \<open>
  C1. Memory is pushed only to a verified remote: for any behaviour of \<open>git\<close> and \<open>gh\<close>, the commands
  of a cycle either contain no push, or they end in one push, and the last thing before the
  staging and the commit is that \<open>git remote get-url\<close> answered a URL that matches the configured
  repository, with \<open>gh\<close> logged in.
\<close>

theorem push_only_to_verified_remote:
  "no_push env (new_trace w (fst (RunOnce env w))) \<or> guarded env (new_trace w (fst (RunOnce env w)))"
proof (cases "acquire env w")
  case (Pair f0 res)
  show ?thesis
  proof (cases res)
    case (Inl e)
    then show ?thesis using Pair
      by (cases e) (auto simp: RunOnce_def new_trace_def no_push_def fail_def write_status_def Let_def
          split: prod.splits)
  next
    case (Inr l)
    obtain w1 r where run: "locked_cycle env (w\<lparr>bw_lock := f0\<rparr>) = (w1, r)" by fastforce
    have "new_trace w (fst (RunOnce env w)) = new_trace (w\<lparr>bw_lock := f0\<rparr>) w1"
      using Pair Inr run by (simp add: RunOnce_def new_trace_def)
    then show ?thesis
      using locked_cycle_ends [OF run] unpushed_trace pushed_trace by metis
  qed
qed

text \<open>A store that works: every write succeeds and is read back.\<close>

definition store_works :: "'g Env \<Rightarrow> bool" where
  "store_works env \<longleftrightarrow> env_store env \<and> env_write_ok env = (True, True, True) \<and>
     (\<forall>st. env_codec env st = Some st)"

lemma read_fail:
  "store_works env \<Longrightarrow> fail env st msg w = (w', r) \<Longrightarrow> r = Some msg \<and>
     read_status env w' = (read_status env w)\<lparr>st_Repo := cfg_Repo (env_cfg env), st_LastAttemptAt := st,
       st_LastError := msg, st_LastErrorAt := snd (snd (env_times env))\<rparr>"
  by (auto simp: store_works_def fail_def write_status_def Let_def read_status_def)

lemma read_succeed:
  "store_works env \<Longrightarrow> succeed env st res w = (w', r) \<Longrightarrow> r = None \<and> st_LastError (read_status env w') = [] \<and>
     st_LastSuccessAt (read_status env w') = snd (snd (env_times env)) \<and> st_LastAttemptAt (read_status env w') = st"
  by (auto simp: store_works_def succeed_def write_status_def Let_def read_status_def zero_status_def)

text \<open>What the status says after a cycle that was not skipped, and what it implies for the push.\<close>

definition recorded :: "'g Env \<Rightarrow> 'g World \<Rightarrow> 'g World \<Rightarrow> string option \<Rightarrow> bool" where
  "recorded env w w' r \<longleftrightarrow>
     st_LastAttemptAt (read_status env w') = fst (env_times env) \<and>
     (case r of
        None \<Rightarrow> st_LastError (read_status env w') = [] \<and>
          st_LastSuccessAt (read_status env w') = snd (snd (env_times env)) \<and>
          (\<exists>out. last (new_trace w w') = (cmd env push_cmd, Inr (out, 0)))
      | Some msg \<Rightarrow> st_LastError (read_status env w') = msg \<and>
          st_LastSuccessAt (read_status env w') = st_LastSuccessAt (read_status env w))"

lemma read_status_cong: "bw_status v = bw_status w \<Longrightarrow> read_status env v = read_status env w"
  by (simp add: read_status_def)

lemma ends_recorded:
  assumes ok: "store_works env" and ends: "ends_unpushed env w w' r \<or> ends_pushed env w w' r"
  shows "recorded env w w' r"
proof -
  have f: "recorded env w w' r" if "bw_status v = bw_status w" "fail env (fst (env_times env)) msg v = (w', r)" for v msg
    using read_fail [OF ok that(2)] read_status_cong [OF that(1), of env] by (simp add: recorded_def)
  have g: "recorded env w w' r"
    if v: "bw_trace v = bw_trace w @ new" "guarded env new" "snd (last new) = Inr (out, 0)"
      and run: "succeed env (fst (env_times env)) res v = (w', r)" for v new out res
  proof -
    have "fst (last new) = cmd env push_cmd" using v(2) by (auto simp: guarded_def)
    then have "last new = (cmd env push_cmd, Inr (out, 0))" using v(3) by (metis prod.collapse)
    moreover have "new_trace w w' = new"
      using v(1) succeed_trace [OF run] by (simp add: new_trace_def)
    ultimately show ?thesis using read_succeed [OF ok run] by (simp add: recorded_def)
  qed
  from ends show ?thesis
    unfolding ends_unpushed_def ends_pushed_def before_push_def using f g by blast
qed

text \<open>
  Every cycle that is not skipped for the lock is recorded: a failure of any step leaves its
  message as the last error and keeps the time of the last success, a success clears the error
  and is only ever recorded after a push that exited with 0. A skipped cycle changes nothing, and
  a cycle that ran leaves the lock free.
\<close>

theorem cycle_recorded:
  assumes "store_works env"
  shows "case snd (acquire env w) of
      Inl ErrLocked \<Rightarrow> snd (RunOnce env w) = Some lock_held_msg \<and>
        bw_status (fst (RunOnce env w)) = bw_status w \<and> bw_trace (fst (RunOnce env w)) = bw_trace w
    | Inl _ \<Rightarrow> recorded env w (fst (RunOnce env w)) (snd (RunOnce env w)) \<and> snd (RunOnce env w) \<noteq> None
    | Inr _ \<Rightarrow> recorded env w (fst (RunOnce env w)) (snd (RunOnce env w)) \<and>
        bw_lock (fst (RunOnce env w)) = None"
proof (cases "acquire env w")
  case (Pair f0 res)
  have same: "read_status env (w\<lparr>bw_lock := f\<rparr>) = read_status env w" for f
    by (simp add: read_status_def)
  show ?thesis
  proof (cases res)
    case (Inl e)
    have "recorded env w (fst (fail env (fst (env_times env)) m (w\<lparr>bw_lock := f0\<rparr>)))
        (snd (fail env (fst (env_times env)) m (w\<lparr>bw_lock := f0\<rparr>)))
        \<and> snd (fail env (fst (env_times env)) m (w\<lparr>bw_lock := f0\<rparr>)) \<noteq> None" for m
      using read_fail [OF assms prod.collapse [symmetric], of "fst (env_times env)" m "w\<lparr>bw_lock := f0\<rparr>"] same
      by (simp add: recorded_def)
    with Inl Pair show ?thesis by (cases e) (simp_all add: RunOnce_def)
  next
    case (Inr l)
    obtain w1 r where run: "locked_cycle env (w\<lparr>bw_lock := f0\<rparr>) = (w1, r)" by fastforce
    have "recorded env (w\<lparr>bw_lock := f0\<rparr>) w1 r"
      using ends_recorded [OF assms locked_cycle_ends [OF run]] .
    moreover have "RunOnce env w = (w1\<lparr>bw_lock := None\<rparr>, r)"
      using Pair Inr run by (simp add: RunOnce_def Release_def)
    ultimately show ?thesis
      using Pair Inr same by (simp add: recorded_def new_trace_def read_status_def cong: option.case_cong)
  qed
qed

definition demo_env :: "answer option \<Rightarrow> unit Env" where
  "demo_env gh =
     \<lparr> env_cfg = \<lparr>cfg_Workspace = ''w'', cfg_Repo = ''o/n'', cfg_CrossAgent = None, cfg_CC = None\<rparr>,
       env_git = (\<lambda>c s. (s, Inr (if ''get-url'' \<in> set c then ''https://github.com/o/n'' else [], 0))),
       env_gh = gh, env_pid = 7, env_alive = (\<lambda>_. True), env_mkdir_ok = True, env_open_ok = True,
       env_ignore_ok = True, env_copy_ok = (\<lambda>_. True), env_reset_ok = (True, True),
       env_times = (''t0'', ''t1'', ''t2''), env_store = True, env_write_ok = (True, True, True),
       env_codec = Some, env_quote = (\<lambda>s. s) \<rparr>"

definition demo_world :: "unit World" where
  "demo_world = \<lparr>bw_git = (), bw_ws = \<lparr>ws_cross = [], ws_cc = [], ws_gitignore = None\<rparr>, bw_lock = None,
     bw_status = None, bw_trace = []\<rparr>"

theorem cycle_recorded_witness:
  "recorded (demo_env (Some (Inl ''no gh''))) demo_world (fst (RunOnce (demo_env (Some (Inl ''no gh''))) demo_world))
     (snd (RunOnce (demo_env (Some (Inl ''no gh''))) demo_world)) \<and>
   bw_lock (fst (RunOnce (demo_env (Some (Inl ''no gh''))) demo_world)) = None"
proof -
  have "store_works (demo_env (Some (Inl ''no gh'')))" by (simp add: store_works_def demo_env_def)
  moreover have "snd (acquire (demo_env (Some (Inl ''no gh''))) demo_world) = Inr \<lparr>l_path = ''w/.backup.lock''\<rparr>"
    by (simp add: demo_env_def demo_world_def AcquireLock_def backupLockFile_def tryCreate_def Let_def)
  ultimately show ?thesis
    using cycle_recorded [of "demo_env (Some (Inl ''no gh''))" demo_world] by simp
qed

text \<open>
  The check accepts the worker's own remote: the ssh URL built for a well-formed repository
  name matches that name.
\<close>

lemma lower_byte_fixed:
  "lower_byte d = d \<Longrightarrow> byte d < 97 \<or> 122 < byte d \<Longrightarrow> lower_byte c = d \<longleftrightarrow> c = d"
  by (auto simp: lower_byte_def split: if_splits)

theorem remoteURL_matches:
  assumes "repo \<noteq> []" "trimmed repo" "\<not> has_suffix repo ''.git''"
    and "hd repo \<notin> {CHR '':'', CHR ''/''}" "last repo \<noteq> CHR ''/''"
  shows "remoteMatchesRepo (remoteURL repo) repo"
proof -
  let ?low = "to_lower repo"
  have low: "to_lower (remoteURL repo) = ''git@github.com:'' @ ?low @ ''.git''"
    by (simp add: remoteURL_def) (simp add: to_lower_def lower_byte_def byte_def)
  have "trimmed (remoteURL repo)"
    by (simp add: remoteURL_def trimmed_def is_space_def byte_def)
  then have got: "trim_suffix (to_lower (trim_space (remoteURL repo))) ''.git'' = ''git@github.com:'' @ ?low"
    by (simp add: trim_space_id low trim_suffix_def has_suffix_def)
  have idx: "str_index (''git@github.com:'' @ ?low) ''github.com'' = Some 4" by simp
  have hd_low: "hd ?low = lower_byte (hd repo)" "last ?low = lower_byte (last repo)" "?low \<noteq> []"
    using assms(1) by (simp_all add: to_lower_def hd_map last_map)
  have "hd ?low \<noteq> CHR '':''" "hd ?low \<noteq> CHR ''/''" "last ?low \<noteq> CHR ''/''"
    using assms(4,5) hd_low lower_byte_fixed [of "CHR '':''"] lower_byte_fixed [of "CHR ''/''"]
    by (simp_all add: lower_byte_def byte_def)
  then have "dropWhile (\<lambda>c. c = CHR '':'' \<or> c = CHR ''/'') ?low = ?low" "dropWhile (\<lambda>c. c = CHR ''/'') ?low = ?low"
    "dropWhile (\<lambda>c. c = CHR ''/'') (rev ?low) = rev ?low"
    using hd_low(3) by (simp_all add: dropWhile_fixed hd_rev)
  then have "trim_left_of (\<lambda>c. c \<in> {CHR '':'', CHR ''/''}) (CHR '':'' # ?low) = ?low"
    and "trim_set {CHR ''/''} ?low = ?low"
    by (simp_all add: trim_left_of_def trim_set_def trim_right_of_def)
  moreover have "to_lower (trim_suffix (trim_space repo) ''.git'') = ?low"
    using assms(2,3) by (simp add: trim_space_id trim_suffix_def)
  ultimately show ?thesis
    using hd_low(3) by (simp add: remoteMatchesRepo_def Let_def got idx)
qed

theorem remoteURL_matches_witness: "remoteMatchesRepo (remoteURL ''Owner/name'') ''Owner/name''"
  by (rule remoteURL_matches) (simp_all add: trimmed_def is_space_def byte_def has_suffix_def)

text \<open>
  The check is not exact: it strips everything up to the first \<open>github.com\<close>, wherever that
  stands, so that a remote on another host passes as the configured repository.
\<close>

theorem other_host_matches:
  "remoteMatchesRepo ''https://evil-github.com/o/n.git'' ''o/n'' \<and>
   remoteMatchesRepo ''git@example.org:github.com/o/n'' ''o/n''"
  by code_simp

end
