(* ===== verification/Decisions.thy ===== *)
theory Decisions
  imports Prelude
begin

text \<open>
  The decisions of the consolidation model and the staging candidates
  (\<open>internal/consolidate/consolidate.go\<close>). \<open>decode\<close> stands for \<open>json.Unmarshal\<close> into a map of
  decisions, \<open>decode_candidate\<close> for the one into a candidate.
\<close>

section \<open>Decisions\<close>

type_synonym Action = string

abbreviation ActionADD :: Action where "ActionADD \<equiv> ''ADD''"
abbreviation ActionUPDATE :: Action where "ActionUPDATE \<equiv> ''UPDATE''"
abbreviation ActionSKIP :: Action where "ActionSKIP \<equiv> ''SKIP''"
abbreviation ActionDELETE :: Action where "ActionDELETE \<equiv> ''DELETE''"
abbreviation ActionINVALIDATE :: Action where "ActionINVALIDATE \<equiv> ''INVALIDATE''"

definition validActions :: "Action list" where
  "validActions = [ActionADD, ActionUPDATE, ActionSKIP, ActionDELETE, ActionINVALIDATE]"

record Decision =
  d_Action :: Action
  d_NoteID :: string
  d_Reason :: string

definition normalize :: "Decision \<Rightarrow> Decision" where
  "normalize d =
     (let d = d\<lparr>d_Action := to_upper (trim_space (d_Action d))\<rparr> in
      if d_Action d \<notin> set validActions
      then (let d = d\<lparr>d_Action := ActionSKIP\<rparr> in
            if d_Reason d = [] then d\<lparr>d_Reason := ''unrecognized_action''\<rparr> else d)
      else d)"

text \<open>
  The scan of \<open>extractJSONObject\<close> from the first brace on: the text up to the brace that closes
  it, \<^const>\<open>None\<close> when the text ends first.
\<close>

fun scan :: "int \<Rightarrow> bool \<Rightarrow> bool \<Rightarrow> string \<Rightarrow> string option" where
  "scan depth inStr escaped [] = None"
| "scan depth inStr escaped (ch # s) =
     (if inStr
      then map_option ((#) ch)
             (if escaped then scan depth True False s
              else if ch = CHR 0x5C then scan depth True True s
              else if ch = CHR 0x22 then scan depth False False s
              else scan depth True False s)
      else if ch = CHR 0x22 then map_option ((#) ch) (scan depth True escaped s)
      else if ch = CHR 0x7B then map_option ((#) ch) (scan (depth + 1) False escaped s)
      else if ch = CHR 0x7D
      then (if depth - 1 = 0 then Some [ch] else map_option ((#) ch) (scan (depth - 1) False escaped s))
      else map_option ((#) ch) (scan depth False escaped s))"

definition extractJSONObject :: "string \<Rightarrow> string" where
  "extractJSONObject s =
     (let t = dropWhile (\<lambda>c. c \<noteq> CHR 0x7B) s in
      if t = [] then [] else (case scan 0 False False t of None \<Rightarrow> [] | Some r \<Rightarrow> r))"

datatype ParseError = NoObject | BadJSON | EmptyObject | NoMatch

definition ParseDecisions ::
  "(string \<Rightarrow> (string, Decision) gomap option) \<Rightarrow> string \<Rightarrow> string list \<Rightarrow> ParseError + (string, Decision) gomap" where
  "ParseDecisions decode raw candidateIDs =
     (let obj = extractJSONObject raw in
      if obj = [] then Inl NoObject
      else case decode obj of
        None \<Rightarrow> Inl BadJSON
      | Some parsed \<Rightarrow>
          if parsed = [] then Inl EmptyObject
          else let out = map (\<lambda>(i, d). (i, normalize d))
                 (filter (\<lambda>(i, _). \<not> (candidateIDs \<noteq> [] \<and> i \<notin> set candidateIDs)) parsed) in
               if out = [] then Inl NoMatch else Inr out)"

section \<open>Candidates\<close>

record Candidate =
  k_ID :: string
  k_Category :: string
  k_ProblemType :: string
  k_Summary :: string
  k_Evidence :: string
  k_Implication :: string
  k_OriginSession :: string
  k_OriginProject :: string
  k_Scope :: string
  k_CreatedAt :: string
  k_fileName :: string

definition EffectiveScope :: "Candidate \<Rightarrow> string" where
  "EffectiveScope c = (if trim_space (k_Scope c) \<noteq> [] then trim_space (k_Scope c) else ''user'')"

text \<open>\<open>filepath.Ext\<close>: from the last dot of the last path element.\<close>

definition file_ext :: "string \<Rightarrow> string" where
  "file_ext p =
     (let stem = takeWhile (\<lambda>c. c \<noteq> CHR ''.'' \<and> c \<noteq> CHR ''/'') (rev p);
          before = drop (length stem) (rev p) in
      if before \<noteq> [] \<and> hd before = CHR ''.'' then CHR ''.'' # rev stem else [])"

definition effectiveID :: "Candidate \<Rightarrow> string" where
  "effectiveID c =
     (if trim_space (k_ID c) \<noteq> [] then trim_space (k_ID c)
      else trim_suffix (k_fileName c) (file_ext (k_fileName c)))"

text \<open>A directory entry: its name, whether it is a directory, and its data when it can be read.\<close>

type_synonym entry = "string \<times> bool \<times> string option"

datatype dir = Missing | Unreadable | Entries "entry list"

definition read_one :: "(string \<Rightarrow> Candidate option) \<Rightarrow> entry list \<Rightarrow> string \<Rightarrow> Candidate list" where
  "read_one decode_candidate es name =
     (case map_of es name of
        Some (_, Some data) \<Rightarrow>
          (case decode_candidate data of None \<Rightarrow> [] | Some c \<Rightarrow> [c\<lparr>k_fileName := name\<rparr>])
      | _ \<Rightarrow> [])"

definition ReadCandidates :: "(string \<Rightarrow> Candidate option) \<Rightarrow> dir \<Rightarrow> Candidate list option" where
  "ReadCandidates decode_candidate d =
     (case d of
        Missing \<Rightarrow> Some []
      | Unreadable \<Rightarrow> None
      | Entries es \<Rightarrow>
          (let names = map fst (filter (\<lambda>(name, isDir, _). \<not> (isDir \<or> \<not> has_suffix name ''.json'')) es) in
           Some (concat (map (read_one decode_candidate es) (sort names)))))"

section \<open>Extraction of an object\<close>

text \<open>JSON values as a model prints them; an atom is a number or a literal.\<close>

datatype json = Atom string | Str string | Arr "json list" | Obj "(string \<times> json) list"

definition esc :: "char \<Rightarrow> string" where
  "esc c = (if c = CHR 0x22 \<or> c = CHR 0x5C then [CHR 0x5C, c] else [c])"

definition quoted :: "string \<Rightarrow> string" where
  "quoted s = CHR 0x22 # concat (map esc s) @ [CHR 0x22]"

fun print :: "json \<Rightarrow> string"
  and print_items :: "json list \<Rightarrow> string"
  and print_fields :: "(string \<times> json) list \<Rightarrow> string" where
  "print (Atom a) = a"
| "print (Str s) = quoted s"
| "print (Arr js) = CHR ''['' # print_items js @ '']''"
| "print (Obj fs) = CHR 0x7B # print_fields fs @ [CHR 0x7D]"
| "print_items [] = []"
| "print_items (j # js) = print j @ '', '' @ print_items js"
| "print_fields [] = []"
| "print_fields ((k, j) # fs) = quoted k @ '': '' @ print j @ '', '' @ print_fields fs"

definition plain :: "char \<Rightarrow> bool" where
  "plain c \<longleftrightarrow> c \<noteq> CHR 0x22 \<and> c \<noteq> CHR 0x7B \<and> c \<noteq> CHR 0x7D"

fun atoms_ok :: "json \<Rightarrow> bool"
  and atoms_ok_items :: "json list \<Rightarrow> bool"
  and atoms_ok_fields :: "(string \<times> json) list \<Rightarrow> bool" where
  "atoms_ok (Atom a) = list_all plain a"
| "atoms_ok (Str s) = True"
| "atoms_ok (Arr js) = atoms_ok_items js"
| "atoms_ok (Obj fs) = atoms_ok_fields fs"
| "atoms_ok_items [] = True"
| "atoms_ok_items (j # js) = (atoms_ok j \<and> atoms_ok_items js)"
| "atoms_ok_fields [] = True"
| "atoms_ok_fields ((k, j) # fs) = (atoms_ok j \<and> atoms_ok_fields fs)"

text \<open>A result with a text in front of it, and a text the scan passes over at any positive depth.\<close>

definition prep :: "string \<Rightarrow> string option \<Rightarrow> string option" where
  "prep p x = map_option (\<lambda>r. p @ r) x"

lemma prep_simps [simp]:
  "prep [] x = x" "prep p (prep q x) = prep (p @ q) x" "prep p None = None" "prep p (Some r) = Some (p @ r)"
  by (cases x; simp add: prep_def)+

lemma map_Cons_prep: "map_option ((#) c) x = prep [c] x"
  by (cases x) (simp_all add: prep_def)

lemmas scan_prep = scan.simps(2) [unfolded map_Cons_prep]

declare scan.simps(2) [simp del] scan_prep [simp]

definition neutral :: "string \<Rightarrow> bool" where
  "neutral p \<longleftrightarrow> (\<forall>d rest. 1 \<le> d \<longrightarrow>
     scan d False False (p @ rest) = prep p (scan d False False rest))"

lemma neutral_Nil [simp]: "neutral []"
  by (simp add: neutral_def)

lemma neutral_append: "neutral p \<Longrightarrow> neutral q \<Longrightarrow> neutral (p @ q)"
  by (simp add: neutral_def)

lemma neutral_plain: "plain c \<Longrightarrow> neutral [c]"
  by (simp add: neutral_def plain_def)

lemma neutral_Cons: "plain c \<Longrightarrow> neutral p \<Longrightarrow> neutral (c # p)"
  using neutral_append [OF neutral_plain, of c p] by simp

lemma neutral_plains: "list_all plain a \<Longrightarrow> neutral a"
  by (induction a) (auto intro: neutral_Cons)

lemma neutral_punct: "neutral '', ''" "neutral '': ''" "neutral ''[''" "neutral '']''"
  by (simp_all add: neutral_plains plain_def)

lemma scan_string:
  "scan d True False (concat (map esc s) @ CHR 0x22 # rest)
     = prep (concat (map esc s) @ [CHR 0x22]) (scan d False False rest)"
  by (induction s) (auto simp: esc_def)

lemma neutral_quoted: "neutral (quoted s)"
  by (simp add: neutral_def quoted_def scan_string)

lemma neutral_braces:
  assumes "neutral p"
  shows "neutral (CHR 0x7B # p @ [CHR 0x7D])"
proof -
  have "scan (d + 1) False False (p @ CHR 0x7D # rest)
      = prep p (scan (d + 1) False False (CHR 0x7D # rest))" if "1 \<le> d" for d rest
    using assms that by (simp add: neutral_def)
  then show ?thesis by (auto simp: neutral_def)
qed

lemma neutral_print:
  "atoms_ok j \<Longrightarrow> neutral (print j)"
  "atoms_ok_items js \<Longrightarrow> neutral (print_items js)"
  "atoms_ok_fields fs \<Longrightarrow> neutral (print_fields fs)"
proof (induction j and js and fs rule: print_print_items_print_fields.induct)
  case (8 k j fs)
  then have "neutral (quoted k @ '': '' @ print j @ '', '' @ print_fields fs)"
    by (intro neutral_append neutral_quoted neutral_punct) simp_all
  then show ?case by simp
next
  case (6 j js)
  then have "neutral (print j @ '', '' @ print_items js)"
    by (intro neutral_append neutral_punct) simp_all
  then show ?case by simp
next
  case (4 fs)
  then show ?case using neutral_braces by simp
next
  case (3 js)
  then have "neutral (''['' @ print_items js @ '']'')"
    by (intro neutral_append neutral_punct) simp_all
  then show ?case by simp
qed (simp_all add: neutral_plains neutral_quoted)

text \<open>
  The object is found: prose without an opening brace, then any printed JSON object, nested
  and with braces and escaped quotes inside its strings, then anything, yields that object exactly.
\<close>

theorem extractJSONObject_finds:
  assumes "CHR 0x7B \<notin> set prose" and "atoms_ok (Obj fs)"
  shows "extractJSONObject (prose @ print (Obj fs) @ tail) = print (Obj fs)"
proof -
  have "neutral (print_fields fs)" using assms(2) neutral_print(3) by simp
  then have "scan 1 False False (print_fields fs @ CHR 0x7D # tail)
      = prep (print_fields fs) (scan 1 False False (CHR 0x7D # tail))"
    by (simp add: neutral_def)
  moreover have "dropWhile (\<lambda>c. c \<noteq> CHR 0x7B) (prose @ print (Obj fs) @ tail) = print (Obj fs) @ tail"
    using assms(1) by (subst dropWhile_append2) auto
  ultimately show ?thesis by (simp add: extractJSONObject_def)
qed

theorem extractJSONObject_finds_witness:
  "extractJSONObject (''Sure: '' @ print (Obj [(''c1'', Obj [(''reason'', Str [CHR 0x7D, CHR 0x22])])]) @ ''} done'')
     = print (Obj [(''c1'', Obj [(''reason'', Str [CHR 0x7D, CHR 0x22])])])"
  by (rule extractJSONObject_finds) simp_all

text \<open>What is extracted is a piece of the response that starts at its first opening brace.\<close>

lemma scan_piece: "scan d b e s = Some r \<Longrightarrow> \<exists>rest. s = r @ rest \<and> r \<noteq> []"
proof (induction d b e s arbitrary: r rule: scan.induct)
  case (2 d b e ch s)
  have "\<exists>q d' b' e'. r = ch # q \<and> (q = [] \<or> scan d' b' e' s = Some q \<and> (\<exists>rest. s = q @ rest))"
    using 2 by (auto simp: prep_def split: if_splits) blast+
  then show ?case by auto
qed simp

section \<open>Decisions are safe\<close>

lemma normalize_valid: "d_Action (normalize d) \<in> set validActions"
  by (simp add: normalize_def Let_def) (simp add: validActions_def)

lemma valid_fixed: "a \<in> set validActions \<Longrightarrow> to_upper (trim_space a) = a"
proof -
  have "list_all (\<lambda>a. to_upper (trim_space a) = a) validActions" by code_simp
  then show "a \<in> set validActions \<Longrightarrow> to_upper (trim_space a) = a" by (simp add: list_all_iff)
qed

text \<open>
  Normalisation only ever forwards the five known verbs, leaves a decision that has one alone
  (so it is idempotent), keeps the note, and turns every other verb, once trimmed and
  upper-cased, into \<open>SKIP\<close>.
\<close>

theorem normalize_safe:
  "d_Action (normalize d) = (if to_upper (trim_space (d_Action d)) \<in> set validActions
       then to_upper (trim_space (d_Action d)) else ActionSKIP)
   \<and> normalize (normalize d) = normalize d \<and> d_NoteID (normalize d) = d_NoteID d"
proof -
  have "normalize e = e" if "d_Action e \<in> set validActions" for e
    using that valid_fixed [OF that] by (simp add: normalize_def Let_def)
  then show ?thesis
    using normalize_valid [of d] by (simp add: normalize_def Let_def)
qed

lemma map_of_normalize:
  "map_of (map (\<lambda>(i, d). (i, f d)) (filter (\<lambda>(i, _). P i) m)) k = (if P k then map_option f (map_of m k) else None)"
  by (induction m) auto

text \<open>
  The decisions handed to the script are exactly the normalised decisions of the decoded
  object for the candidates that were sent: none is invented and none of a sent candidate is lost.
\<close>

theorem ParseDecisions_exact:
  assumes "ParseDecisions decode raw ids = Inr out"
  shows "\<exists>parsed. decode (extractJSONObject raw) = Some parsed \<and> out \<noteq> [] \<and>
    map_of out k = (if ids = [] \<or> k \<in> set ids then map_option normalize (map_of parsed k) else None)"
proof -
  obtain parsed where "decode (extractJSONObject raw) = Some parsed"
    "out = map (\<lambda>(i, d). (i, normalize d)) (filter (\<lambda>(i, _). \<not> (ids \<noteq> [] \<and> i \<notin> set ids)) parsed)" "out \<noteq> []"
    using assms unfolding ParseDecisions_def Let_def by (auto split: if_splits option.splits)
  then show ?thesis using map_of_normalize [of normalize "\<lambda>i. \<not> (ids \<noteq> [] \<and> i \<notin> set ids)" parsed k] by auto
qed

definition add_decision :: Decision where
  "add_decision = \<lparr>d_Action = '' add '', d_NoteID = [], d_Reason = []\<rparr>"

theorem ParseDecisions_exact_witness:
  "ParseDecisions (\<lambda>_. Some [(''c9'', add_decision), (''c1'', add_decision)]) ''{}'' [''c1'']
     = Inr [(''c1'', add_decision\<lparr>d_Action := ''ADD''\<rparr>)] \<and>
   map_of [(''c1'', add_decision\<lparr>d_Action := ''ADD''\<rparr>)] ''c9'' = None"
proof -
  have "to_upper (trim_space '' add '') = ''ADD''" by code_simp
  then have "ParseDecisions (\<lambda>_. Some [(''c9'', add_decision), (''c1'', add_decision)]) ''{}'' [''c1'']
     = Inr [(''c1'', add_decision\<lparr>d_Action := ''ADD''\<rparr>)]"
    by (simp add: ParseDecisions_def extractJSONObject_def normalize_def validActions_def add_decision_def)
  from ParseDecisions_exact [OF this, of "''c9''"] this show ?thesis by simp
qed

text \<open>
  A response is accepted exactly when it holds an object that decodes to at least one
  decision for a candidate that was sent (any candidate, when none was named).
\<close>

theorem ParseDecisions_accepts:
  "(\<exists>out. ParseDecisions decode raw ids = Inr out) \<longleftrightarrow>
     extractJSONObject raw \<noteq> [] \<and>
     (\<exists>parsed. decode (extractJSONObject raw) = Some parsed \<and>
        (\<exists>i d. (i, d) \<in> set parsed \<and> \<not> (ids \<noteq> [] \<and> i \<notin> set ids)))"
proof (cases "decode (extractJSONObject raw)")
  case (Some parsed)
  have "filter (\<lambda>(i, _). \<not> (ids \<noteq> [] \<and> i \<notin> set ids)) parsed = [] \<longleftrightarrow>
      \<not> (\<exists>i d. (i, d) \<in> set parsed \<and> \<not> (ids \<noteq> [] \<and> i \<notin> set ids))"
    by (auto simp: filter_empty_conv)
  then show ?thesis using Some by (auto simp: ParseDecisions_def Let_def)
qed (simp add: ParseDecisions_def Let_def)

section \<open>Reading the candidates\<close>

lemma sort_mset: "mset xs = mset ys \<Longrightarrow> sort xs = sort (ys :: string list)"
  by (metis properties_for_sort sorted_sort mset_sort)

lemma map_of_perm:
  assumes "distinct (map fst xs)" "mset xs = mset ys"
  shows "map_of xs = map_of ys"
proof -
  have "set xs = set ys" using assms(2) by (metis set_mset_mset)
  moreover have "distinct (map fst ys)"
    using assms by (metis mset_eq_imp_distinct_iff mset_map)
  ultimately show ?thesis using assms(1) map_of_inject_set by blast
qed

text \<open>
  The candidates do not depend on the order in which the directory lists its files, and they
  come sorted by file name, so that the prompt is deterministic.
\<close>

theorem ReadCandidates_deterministic:
  assumes "distinct (map fst es)" and "mset es = mset es'"
  shows "ReadCandidates dec (Entries es) = ReadCandidates dec (Entries es') \<and>
    sorted (map k_fileName (the (ReadCandidates dec (Entries es))))"
proof -
  let ?ok = "\<lambda>(name, isDir, _). \<not> (isDir \<or> \<not> has_suffix name ''.json'')"
  have "mset (map fst (filter ?ok es)) = mset (map fst (filter ?ok es'))"
    using assms(2) by simp
  then have names: "sort (map fst (filter ?ok es)) = sort (map fst (filter ?ok es'))"
    by (rule sort_mset)
  have read: "read_one dec es = read_one dec es'"
    using map_of_perm [OF assms] by (simp add: read_one_def fun_eq_iff)
  have one: "map k_fileName (read_one dec es n) = [] \<or> map k_fileName (read_one dec es n) = [n]" for n
    by (auto simp: read_one_def split: option.splits prod.splits)
  have "sorted (map k_fileName (concat (map (read_one dec es) ns)))
      \<and> set (map k_fileName (concat (map (read_one dec es) ns))) \<subseteq> set ns" if "sorted ns" for ns
    using that
  proof (induction ns)
    case (Cons n ns)
    let ?rest = "map k_fileName (concat (map (read_one dec es) ns))"
    have ih: "sorted ?rest" "set ?rest \<subseteq> set ns" using Cons by simp_all
    have le: "n \<le> m" if "m \<in> set ?rest" for m
      using Cons.prems ih(2) that by (meson sorted_simps(2) subsetD)
    have "map k_fileName (concat (map (read_one dec es) (n # ns))) = map k_fileName (read_one dec es n) @ ?rest"
      by simp
    with one [of n] ih le show ?case by (metis append_Cons append_Nil insert_mono list.simps(15)
          sorted_simps(2) subset_insertI2)
  qed simp
  then show ?thesis using names read by (simp add: ReadCandidates_def Let_def)
qed

theorem ReadCandidates_deterministic_witness:
  "ReadCandidates (\<lambda>_. None) (Entries [(''b.json'', False, Some []), (''a.json'', False, None)])
     = ReadCandidates (\<lambda>_. None) (Entries [(''a.json'', False, None), (''b.json'', False, Some [])])"
  using ReadCandidates_deterministic [of "[(''b.json'', False, Some []), (''a.json'', False, None)]"
      "[(''a.json'', False, None), (''b.json'', False, Some [])]" "\<lambda>_. None"] by simp

end
