(* ===== verification/Timing.thy ===== *)
theory Timing
  imports Utf8
begin

text \<open>
  The timing summary of a session (\<open>internal/db/timing.go\<close>), from the scanned turn and call rows
  on. \<open>parse_time\<close> stands for \<open>time.Parse(time.RFC3339, _)\<close>, \<open>decode\<close> for \<open>json.Unmarshal\<close> into a
  map. A Go map is the association list of one iteration order. Milliseconds are integers;
  the sums of a session stay far below \<open>2 ^ 63\<close>.
\<close>

section \<open>Rows and results\<close>

record CategoryTotal =
  ct_Category :: string
  ct_DurationMs :: int
  ct_CallCount :: int

record CallTiming =
  cl_ToolUseID :: string
  cl_ToolName :: string
  cl_Category :: string
  cl_SkillName :: "string option"
  cl_SubagentSessionID :: "string option"
  cl_DurationMs :: "int option"
  cl_IsParallel :: bool
  cl_InputPreview :: string

record TurnTiming =
  tt_MessageID :: int
  tt_Ordinal :: int
  tt_StartedAt :: string
  tt_DurationMs :: "int option"
  tt_PrimaryCategory :: string
  tt_Calls :: "CallTiming list"

record SessionTiming =
  s_SessionID :: string
  s_TotalDurationMs :: int
  s_ToolDurationMs :: int
  s_TurnCount :: int
  s_ToolCallCount :: int
  s_SubagentCount :: int
  s_SlowestCall :: "CallTiming option"
  s_ByCategory :: "CategoryTotal list"
  s_Turns :: "TurnTiming list"
  s_Running :: bool

record TurnRow =
  tr_MessageID :: int
  tr_Ordinal :: int
  tr_Timestamp :: string
  tr_HasToolUse :: bool
  tr_DurationMs :: "int option"

record CallRow =
  cr_MessageID :: int
  cr_ToolUseID :: string
  cr_ToolName :: string
  cr_Category :: string
  cr_SkillName :: "string option"
  cr_SubagentSessionID :: "string option"
  cr_InputJSON :: string
  cr_DurationMs :: "int option"

text \<open>The fields of \<open>Session\<close> the summary reads.\<close>

record Session =
  se_ID :: string
  se_StartedAt :: "string option"
  se_EndedAt :: "string option"

section \<open>Helpers\<close>

text \<open>Division truncated towards zero, as \<open>Duration.Milliseconds\<close> does it.\<close>

definition trunc_div :: "int \<Rightarrow> int \<Rightarrow> int" where
  "trunc_div a b = (if a < 0 then - (- a div b) else a div b)"

definition millisBetween :: "(string \<Rightarrow> time option) \<Rightarrow> string \<Rightarrow> string \<Rightarrow> int" where
  "millisBetween parse_time a b =
     (case parse_time a of
        None \<Rightarrow> 0
      | Some ta \<Rightarrow> (case parse_time b of None \<Rightarrow> 0 | Some tb \<Rightarrow> trunc_div (tb - ta) 1000000))"

text \<open>The values of a decoded object as far as the preview tells them apart.\<close>

datatype jval = JString string | JNull | JOther

fun pickStr :: "(string, jval) gomap \<Rightarrow> string list \<Rightarrow> string" where
  "pickStr params [] = []"
| "pickStr params (k # ks) =
     (case map_of params k of
        Some (JString s) \<Rightarrow> if s \<noteq> [] then s else pickStr params ks
      | _ \<Rightarrow> pickStr params ks)"

definition ellipsis :: string where
  "ellipsis = [CHR 0xE2, CHR 0x80, CHR 0xA6]"

definition makeInputPreview ::
  "(string \<Rightarrow> (string, jval) gomap option) \<Rightarrow> string \<Rightarrow> string \<Rightarrow> string \<Rightarrow> string" where
  "makeInputPreview decode category toolName inputJSON =
     (if inputJSON = [] then []
      else case decode inputJSON of
        None \<Rightarrow> []
      | Some params \<Rightarrow>
         (let key = (if category = [] \<or> category = ''Other'' \<or> category = ''Tool'' then toolName else category);
              raw = (if key = ''Read'' then pickStr params [''file_path'', ''path'']
                     else if key = ''Edit'' then pickStr params [''file_path'', ''path'', ''filePath'', ''file'']
                     else if key = ''Write'' then pickStr params [''file_path'', ''path'', ''file'']
                     else if key = ''Grep'' then pickStr params [''pattern'', ''query'']
                     else if key = ''Glob'' then pickStr params [''pattern'', ''path'']
                     else if key = ''Bash'' then
                       (let cmd = pickStr params [''command'', ''cmd''] in
                        takeWhile (\<lambda>c. c \<noteq> newline) cmd)
                     else if key = ''Skill'' \<or> key = ''skill'' then pickStr params [''skill'', ''name'']
                     else pickStr params [''file_path'', ''path'', ''pattern'', ''command'', ''cmd''])
          in if length (runes raw) > 100 then concat (take 100 (runes raw)) @ ellipsis else raw))"

section \<open>Attribution of a turn\<close>

record turnAttribution =
  ta_PrimaryCategory :: string
  ta_RemainderMs :: int
  ta_SubagentDurations :: "int list"

definition is_sub :: "CallTiming \<Rightarrow> bool" where
  "is_sub c \<longleftrightarrow> cl_SubagentSessionID c \<noteq> None \<and> cl_DurationMs c \<noteq> None"

fun count_categories :: "CallTiming list \<Rightarrow> (string, nat) gomap \<Rightarrow> (string, nat) gomap" where
  "count_categories [] m = m"
| "count_categories (c # cs) m =
     count_categories cs (AList.update (cl_Category c)
       ((case map_of m (cl_Category c) of None \<Rightarrow> 0 | Some n \<Rightarrow> n) + 1) m)"

text \<open>The loop over the counts in one iteration order.\<close>

definition find_primary :: "nat \<Rightarrow> (string, nat) gomap \<Rightarrow> string" where
  "find_primary calls counts =
     (case find (\<lambda>(cat, n). n * 2 > calls) counts of None \<Rightarrow> ''Mixed'' | Some (cat, _) \<Rightarrow> cat)"

definition attributeTurnGo :: "int option \<Rightarrow> CallTiming list \<Rightarrow> turnAttribution" where
  "attributeTurnGo turnDur calls =
     (case turnDur of
        None \<Rightarrow> \<lparr>ta_PrimaryCategory = ''Mixed'', ta_RemainderMs = 0, ta_SubagentDurations = []\<rparr>
      | Some dur \<Rightarrow>
         (let subTotals = map (the \<circ> cl_DurationMs) (filter is_sub calls);
              nonSub = filter (\<lambda>c. \<not> is_sub c) calls;
              subUnion = fold max subTotals 0;
              remainder = max (dur - subUnion) 0 in
          if subUnion > 0 \<and> subUnion \<ge> remainder
          then \<lparr>ta_PrimaryCategory = ''Task'', ta_RemainderMs = remainder, ta_SubagentDurations = subTotals\<rparr>
          else if nonSub = []
          then \<lparr>ta_PrimaryCategory = ''Mixed'', ta_RemainderMs = remainder, ta_SubagentDurations = subTotals\<rparr>
          else \<lparr>ta_PrimaryCategory = find_primary (length nonSub) (count_categories nonSub []),
                 ta_RemainderMs = remainder, ta_SubagentDurations = subTotals\<rparr>))"

definition bucket ::
  "string \<Rightarrow> int \<Rightarrow> int \<Rightarrow> (string, CategoryTotal) gomap \<Rightarrow> (string, CategoryTotal) gomap" where
  "bucket cat dur callCount m =
     (if dur \<le> 0 then m
      else let t = (case map_of m cat of
                      None \<Rightarrow> \<lparr>ct_Category = cat, ct_DurationMs = 0, ct_CallCount = 0\<rparr>
                    | Some t \<Rightarrow> t) in
           AList.update cat (t\<lparr>ct_DurationMs := ct_DurationMs t + dur,
                               ct_CallCount := ct_CallCount t + callCount\<rparr>) m)"

section \<open>Assembling\<close>

definition call_of :: "(string \<Rightarrow> (string, jval) gomap option) \<Rightarrow> CallRow \<Rightarrow> CallTiming" where
  "call_of decode r =
     \<lparr> cl_ToolUseID = cr_ToolUseID r, cl_ToolName = cr_ToolName r, cl_Category = cr_Category r,
       cl_SkillName = cr_SkillName r, cl_SubagentSessionID = cr_SubagentSessionID r,
       cl_DurationMs = cr_DurationMs r, cl_IsParallel = False,
       cl_InputPreview = makeInputPreview decode (cr_Category r) (cr_ToolName r) (cr_InputJSON r) \<rparr>"

fun group_calls ::
  "(string \<Rightarrow> (string, jval) gomap option) \<Rightarrow> CallRow list \<Rightarrow> (int, CallTiming list) gomap \<Rightarrow>
   (int, CallTiming list) gomap" where
  "group_calls decode [] m = m"
| "group_calls decode (r # rs) m =
     group_calls decode rs (AList.update (cr_MessageID r)
       ((case map_of m (cr_MessageID r) of None \<Rightarrow> [] | Some cs \<Rightarrow> cs) @ [call_of decode r]) m)"

definition settle_call :: "int option \<Rightarrow> nat \<Rightarrow> CallTiming \<Rightarrow> CallTiming" where
  "settle_call turnDur n c =
     (let c = c\<lparr>cl_IsParallel := n > 1\<rparr> in
      if \<not> cl_IsParallel c \<and> cl_SubagentSessionID c = None \<and> cl_DurationMs c = None
      then c\<lparr>cl_DurationMs := turnDur\<rparr> else c)"

definition pick_slower :: "CallTiming \<Rightarrow> CallTiming option \<Rightarrow> CallTiming option" where
  "pick_slower c slowest =
     (case cl_DurationMs c of
        None \<Rightarrow> slowest
      | Some d \<Rightarrow> (case slowest of
                    None \<Rightarrow> Some c
                  | Some s \<Rightarrow> if d > the (cl_DurationMs s) then Some c else slowest))"

definition turn_calls :: "(int, CallTiming list) gomap \<Rightarrow> TurnRow \<Rightarrow> CallTiming list" where
  "turn_calls callsByMsg t =
     (let cs = (case map_of callsByMsg (tr_MessageID t) of None \<Rightarrow> [] | Some cs \<Rightarrow> cs) in
      map (settle_call (tr_DurationMs t) (length cs)) cs)"

type_synonym assembly = "SessionTiming \<times> (string, CategoryTotal) gomap \<times> CallTiming option"

definition turn_step :: "(int, CallTiming list) gomap \<Rightarrow> TurnRow \<Rightarrow> assembly \<Rightarrow> assembly" where
  "turn_step callsByMsg t = (\<lambda>(out, totals, slowest).
     if \<not> tr_HasToolUse t then (out, totals, slowest)
     else let cs = turn_calls callsByMsg t;
              att = attributeTurnGo (tr_DurationMs t) cs;
              totals = bucket (ta_PrimaryCategory att) (ta_RemainderMs att) (int (length cs)) totals;
              totals = fold (\<lambda>sa. bucket ''Task'' sa 1) (ta_SubagentDurations att) totals in
       (out\<lparr>s_TurnCount := s_TurnCount out + 1,
            s_SubagentCount := s_SubagentCount out + int (length (filter (\<lambda>c. cl_SubagentSessionID c \<noteq> None) cs)),
            s_ToolCallCount := s_ToolCallCount out + int (length cs),
            s_Turns := s_Turns out @ [\<lparr>tt_MessageID = tr_MessageID t, tt_Ordinal = tr_Ordinal t,
              tt_StartedAt = tr_Timestamp t, tt_DurationMs = tr_DurationMs t,
              tt_PrimaryCategory = ta_PrimaryCategory att, tt_Calls = cs\<rparr>],
            s_ToolDurationMs := s_ToolDurationMs out + (case tr_DurationMs t of None \<Rightarrow> 0 | Some d \<Rightarrow> d)\<rparr>,
        totals, fold pick_slower cs slowest))"

definition total_duration :: "(string \<Rightarrow> time option) \<Rightarrow> Session \<Rightarrow> string \<Rightarrow> int" where
  "total_duration parse_time sess now =
     (case se_StartedAt sess of
        None \<Rightarrow> 0
      | Some st \<Rightarrow>
          if st = [] then 0
          else case se_EndedAt sess of
                 None \<Rightarrow> millisBetween parse_time st now
               | Some en \<Rightarrow> if en \<noteq> [] then millisBetween parse_time st en
                            else millisBetween parse_time st now)"

definition AssembleTiming ::
  "(string \<Rightarrow> time option) \<Rightarrow> (string \<Rightarrow> (string, jval) gomap option) \<Rightarrow> Session \<Rightarrow> TurnRow list \<Rightarrow>
   CallRow list \<Rightarrow> string \<Rightarrow> SessionTiming" where
  "AssembleTiming parse_time decode sess turns calls now =
     (let out = \<lparr>s_SessionID = se_ID sess, s_TotalDurationMs = total_duration parse_time sess now,
                 s_ToolDurationMs = 0, s_TurnCount = 0, s_ToolCallCount = 0, s_SubagentCount = 0,
                 s_SlowestCall = None, s_ByCategory = [], s_Turns = [],
                 s_Running = (se_EndedAt sess = None \<or> se_EndedAt sess = Some [])\<rparr>;
          callsByMsg = group_calls decode calls [];
          (out, totals, slowest) = fold (turn_step callsByMsg) turns (out, [], None) in
      out\<lparr>s_SlowestCall := slowest, s_ByCategory := sort_key (\<lambda>t. - ct_DurationMs t) (map snd totals)\<rparr>)"

section \<open>The primary category\<close>

definition category_count :: "CallTiming list \<Rightarrow> string \<Rightarrow> nat" where
  "category_count cs k = length (filter (\<lambda>c. cl_Category c = k) cs)"

definition num_at :: "(string, nat) gomap \<Rightarrow> string \<Rightarrow> nat" where
  "num_at m k = (case map_of m k of None \<Rightarrow> 0 | Some n \<Rightarrow> n)"

lemma count_categories_ok: "gomap_ok m \<Longrightarrow> gomap_ok (count_categories cs m)"
  by (induction cs m rule: count_categories.induct) (simp_all add: gomap_ok_update)

lemma count_categories_at: "num_at (count_categories cs m) k = num_at m k + category_count cs k"
  by (induction cs m rule: count_categories.induct)
    (auto simp: num_at_def category_count_def map_of_update split: option.splits)

lemma two_categories: "k \<noteq> l \<Longrightarrow> category_count cs k + category_count cs l \<le> length cs"
  by (induction cs) (auto simp: category_count_def)

lemma counts_entry:
  assumes "mset counts = mset (count_categories cs [])" "(k, n) \<in> set counts"
  shows "n = category_count cs k"
proof -
  have "(k, n) \<in> set (count_categories cs [])" using assms by (metis set_mset_mset)
  then have "map_of (count_categories cs []) k = Some n"
    using count_categories_ok [of "[]" cs] by (simp add: gomap_mem_map_of)
  then show ?thesis using count_categories_at [of cs "[]" k] by (simp add: num_at_def)
qed

lemma counts_key:
  assumes "mset counts = mset (count_categories cs [])" "0 < category_count cs k"
  shows "(k, category_count cs k) \<in> set counts"
proof -
  have "num_at (count_categories cs []) k = category_count cs k"
    using count_categories_at [of cs "[]" k] by (simp add: num_at_def)
  then have "map_of (count_categories cs []) k = Some (category_count cs k)"
    using assms(2) by (auto simp: num_at_def split: option.splits)
  then have "(k, category_count cs k) \<in> set (count_categories cs [])" by (rule map_of_SomeD)
  then show ?thesis using assms(1) by (metis set_mset_mset)
qed

text \<open>
  The primary category does not depend on the order in which the map of counts is iterated:
  it is the category of more than half of the calls, and \<open>Mixed\<close> when there is none.
\<close>

theorem primary_is_majority:
  assumes "mset counts = mset (count_categories cs [])"
  shows "(length cs < 2 * category_count cs k \<longrightarrow> find_primary (length cs) counts = k) \<and>
    ((\<forall>l. \<not> length cs < 2 * category_count cs l) \<longrightarrow> find_primary (length cs) counts = ''Mixed'')"
proof (cases "find (\<lambda>(cat, n). n * 2 > length cs) counts")
  case None
  then have none: "\<forall>(l, n) \<in> set counts. \<not> n * 2 > length cs"
    by (auto simp: find_None_iff)
  have "\<not> length cs < 2 * category_count cs l" for l
    using counts_key [OF assms, of l] none by (cases "category_count cs l = 0") auto
  then show ?thesis using None by (simp add: find_primary_def)
next
  case (Some e)
  obtain l n where "e = (l, n)" by (cases e)
  with Some have e: "e = (l, n)" "(l, n) \<in> set counts" "length cs < n * 2"
    by (auto simp: find_Some_iff in_set_conv_nth)
  then have maj: "length cs < 2 * category_count cs l"
    using counts_entry [OF assms] by auto
  have "k = l" if "length cs < 2 * category_count cs k"
    using two_categories [of k l cs] maj that by fastforce
  then show ?thesis using Some e maj by (auto simp: find_primary_def)
qed

text \<open>
  The parts of a turn account for it: the remainder is what the longest sub-agent leaves of
  a turn's duration, never negative, every sub-agent duration is passed on, and a turn of
  unknown duration gives nothing.
\<close>

lemma fold_max: "fold max xs (a::int) = Max (insert a (set xs))"
  by (metis Max.set_eq_fold list.simps(15))

theorem attribution_accounts:
  "ta_RemainderMs (attributeTurnGo turnDur calls) =
     (case turnDur of None \<Rightarrow> 0
      | Some dur \<Rightarrow> max 0 (dur - Max (insert 0 ((the \<circ> cl_DurationMs) ` {c \<in> set calls. is_sub c}))))
   \<and> ta_SubagentDurations (attributeTurnGo turnDur calls) =
     (case turnDur of None \<Rightarrow> [] | Some _ \<Rightarrow> map (the \<circ> cl_DurationMs) (filter is_sub calls))"
  by (cases turnDur) (simp_all add: attributeTurnGo_def Let_def fold_max max.commute)

section \<open>Category totals\<close>

definition dur_of :: "(string, CategoryTotal) gomap \<Rightarrow> int" where
  "dur_of m = sum_list (map (ct_DurationMs \<circ> snd) m)"

lemma sum_update:
  fixes f :: "'v \<Rightarrow> int"
  shows "gomap_ok m \<Longrightarrow> sum_list (map (f \<circ> snd) (AList.update k v m)) =
     sum_list (map (f \<circ> snd) m) + f v - (case map_of m k of None \<Rightarrow> 0 | Some u \<Rightarrow> f u)"
proof (induction m)
  case (Cons a m)
  then show ?case by (cases a) (auto simp: gomap_ok_def split: option.splits dest: map_of_SomeD)
qed simp

lemma bucket_ok: "gomap_ok m \<Longrightarrow> gomap_ok (bucket c d n m)"
  by (simp add: bucket_def Let_def gomap_ok_update)

lemma bucket_dur: "gomap_ok m \<Longrightarrow> dur_of (bucket c d n m) = dur_of m + max d 0"
  by (auto simp: bucket_def dur_of_def Let_def sum_update [unfolded comp_def] comp_def split: option.splits)

lemma buckets_dur:
  "gomap_ok m \<Longrightarrow> gomap_ok (fold (\<lambda>sa. bucket c sa n) ds m) \<and>
     dur_of (fold (\<lambda>sa. bucket c sa n) ds m) = dur_of m + sum_list (map (\<lambda>d. max d 0) ds)"
  by (induction ds arbitrary: m) (auto simp: bucket_ok bucket_dur)

definition turn_ms :: "(int, CallTiming list) gomap \<Rightarrow> TurnRow \<Rightarrow> int" where
  "turn_ms cb t =
     (let att = attributeTurnGo (tr_DurationMs t) (turn_calls cb t) in
      max (ta_RemainderMs att) 0 + sum_list (map (\<lambda>d. max d 0) (ta_SubagentDurations att)))"

definition own_ms :: "TurnRow \<Rightarrow> int" where
  "own_ms t = (case tr_DurationMs t of None \<Rightarrow> 0 | Some d \<Rightarrow> d)"

abbreviation tool_turns :: "TurnRow list \<Rightarrow> TurnRow list" where
  "tool_turns ts \<equiv> filter tr_HasToolUse ts"

text \<open>The whole loop in closed form.\<close>

lemma turns_fold:
  assumes "gomap_ok tot" and "fold (turn_step cb) ts (out, tot, sl) = (out', tot', sl')"
  shows "s_TurnCount out' = s_TurnCount out + int (length (tool_turns ts))
    \<and> s_ToolCallCount out' = s_ToolCallCount out + int (length (concat (map (turn_calls cb) (tool_turns ts))))
    \<and> s_ToolDurationMs out' = s_ToolDurationMs out + sum_list (map own_ms (tool_turns ts))
    \<and> map tt_Calls (s_Turns out') = map tt_Calls (s_Turns out) @ map (turn_calls cb) (tool_turns ts)
    \<and> dur_of tot' = dur_of tot + sum_list (map (turn_ms cb) (tool_turns ts))
    \<and> sl' = fold pick_slower (concat (map (turn_calls cb) (tool_turns ts))) sl"
  using assms
proof (induction ts arbitrary: out tot sl)
  case (Cons t ts)
  show ?case
  proof (cases "tr_HasToolUse t")
    case False
    then show ?thesis using Cons by (simp add: turn_step_def)
  next
    case True
    obtain o1 t1 s1 where step: "turn_step cb t (out, tot, sl) = (o1, t1, s1)" by (metis prod_cases3)
    have "gomap_ok t1 \<and> dur_of t1 = dur_of tot + turn_ms cb t"
      using step True buckets_dur [OF bucket_ok [OF Cons.prems(1)]] Cons.prems(1)
      by (auto simp: turn_step_def Let_def turn_ms_def bucket_dur)
    moreover have "s_TurnCount o1 = s_TurnCount out + 1"
      "s_ToolCallCount o1 = s_ToolCallCount out + int (length (turn_calls cb t))"
      "s_ToolDurationMs o1 = s_ToolDurationMs out + own_ms t"
      "map tt_Calls (s_Turns o1) = map tt_Calls (s_Turns out) @ [turn_calls cb t]"
      "s1 = fold pick_slower (turn_calls cb t) sl"
      using step True by (auto simp: turn_step_def Let_def own_ms_def)
    ultimately show ?thesis using Cons.IH [of t1 o1 s1] Cons.prems(2) step True by auto
  qed
qed simp

lemma group_calls_lookup:
  "(case map_of (group_calls decode rs m) k of None \<Rightarrow> [] | Some cs \<Rightarrow> cs) =
     (case map_of m k of None \<Rightarrow> [] | Some cs \<Rightarrow> cs) @
     map (call_of decode) (filter (\<lambda>r. cr_MessageID r = k) rs)"
  by (induction decode rs m rule: group_calls.induct) (auto simp: map_of_update split: option.splits)

text \<open>The calls of a turn: the rows of its message, in order, settled with the turn's duration.\<close>

definition calls_of_turn ::
  "(string \<Rightarrow> (string, jval) gomap option) \<Rightarrow> CallRow list \<Rightarrow> TurnRow \<Rightarrow> CallTiming list" where
  "calls_of_turn decode calls t =
     (let rows = filter (\<lambda>r. cr_MessageID r = tr_MessageID t) calls in
      map (settle_call (tr_DurationMs t) (length rows) \<circ> call_of decode) rows)"

lemma turn_calls_group: "turn_calls (group_calls decode calls []) t = calls_of_turn decode calls t"
  using group_calls_lookup [of decode calls "[]" "tr_MessageID t"]
  by (simp add: turn_calls_def calls_of_turn_def Let_def)

definition all_calls ::
  "(string \<Rightarrow> (string, jval) gomap option) \<Rightarrow> TurnRow list \<Rightarrow> CallRow list \<Rightarrow> CallTiming list" where
  "all_calls decode turns calls = concat (map (calls_of_turn decode calls) (tool_turns turns))"

lemma assemble_closed:
  "\<exists>tot. dur_of tot = sum_list (map (turn_ms (group_calls decode calls [])) (tool_turns turns)) \<and>
     s_ByCategory (AssembleTiming pt decode sess turns calls now) = sort_key (\<lambda>t. - ct_DurationMs t) (map snd tot)"
  "s_TurnCount (AssembleTiming pt decode sess turns calls now) = int (length (tool_turns turns))"
  "s_ToolCallCount (AssembleTiming pt decode sess turns calls now) = int (length (all_calls decode turns calls))"
  "s_ToolDurationMs (AssembleTiming pt decode sess turns calls now) = sum_list (map own_ms (tool_turns turns))"
  "map tt_Calls (s_Turns (AssembleTiming pt decode sess turns calls now)) = map (calls_of_turn decode calls) (tool_turns turns)"
  "s_SlowestCall (AssembleTiming pt decode sess turns calls now) = fold pick_slower (all_calls decode turns calls) None"
proof -
  define out where "out = \<lparr>s_SessionID = se_ID sess, s_TotalDurationMs = total_duration pt sess now,
                 s_ToolDurationMs = 0, s_TurnCount = 0, s_ToolCallCount = 0, s_SubagentCount = 0,
                 s_SlowestCall = None, s_ByCategory = [], s_Turns = [],
                 s_Running = (se_EndedAt sess = None \<or> se_EndedAt sess = Some [])\<rparr>"
  define cb where "cb = group_calls decode calls []"
  obtain o1 t1 s1 where run: "fold (turn_step cb) turns (out, [], None) = (o1, t1, s1)" by (metis prod_cases3)
  have res: "AssembleTiming pt decode sess turns calls now =
      o1\<lparr>s_SlowestCall := s1, s_ByCategory := sort_key (\<lambda>t. - ct_DurationMs t) (map snd t1)\<rparr>"
    using run by (simp add: AssembleTiming_def Let_def out_def cb_def)
  note closed = turns_fold [OF gomap_ok_Nil run]
  have calls: "turn_calls cb = calls_of_turn decode calls"
    by (simp add: fun_eq_iff cb_def turn_calls_group)
  show "\<exists>tot. dur_of tot = sum_list (map (turn_ms (group_calls decode calls [])) (tool_turns turns)) \<and>
     s_ByCategory (AssembleTiming pt decode sess turns calls now) = sort_key (\<lambda>t. - ct_DurationMs t) (map snd tot)"
    using closed res by (intro exI [of _ t1]) (simp add: cb_def dur_of_def)
  show "s_TurnCount (AssembleTiming pt decode sess turns calls now) = int (length (tool_turns turns))"
    "s_ToolCallCount (AssembleTiming pt decode sess turns calls now) = int (length (all_calls decode turns calls))"
    "s_ToolDurationMs (AssembleTiming pt decode sess turns calls now) = sum_list (map own_ms (tool_turns turns))"
    "map tt_Calls (s_Turns (AssembleTiming pt decode sess turns calls now)) = map (calls_of_turn decode calls) (tool_turns turns)"
    "s_SlowestCall (AssembleTiming pt decode sess turns calls now) = fold pick_slower (all_calls decode turns calls) None"
    using closed calls by (simp_all add: res out_def all_calls_def)
qed

text \<open>
  The summary counts the tool turns and their calls, sums the known durations of the tool
  turns, and shows for each of them exactly the calls of its message in order.
\<close>

theorem timing_totals:
  "s_TurnCount (AssembleTiming pt decode sess turns calls now) = int (length (tool_turns turns)) \<and>
   s_ToolCallCount (AssembleTiming pt decode sess turns calls now) = int (length (all_calls decode turns calls)) \<and>
   s_ToolDurationMs (AssembleTiming pt decode sess turns calls now) = sum_list (map own_ms (tool_turns turns)) \<and>
   map tt_Calls (s_Turns (AssembleTiming pt decode sess turns calls now)) =
     map (calls_of_turn decode calls) (tool_turns turns)"
  by (simp add: assemble_closed)

text \<open>
  The categories are sorted by descending duration, and together they hold exactly the
  positive remainders and sub-agent durations of the tool turns: no attributed time is lost.
\<close>

theorem categories_conserve_time:
  "sum_list (map ct_DurationMs (s_ByCategory (AssembleTiming pt decode sess turns calls now))) =
     sum_list (map (turn_ms (group_calls decode calls [])) (tool_turns turns)) \<and>
   sorted (map (\<lambda>t. - ct_DurationMs t) (s_ByCategory (AssembleTiming pt decode sess turns calls now)))"
proof -
  obtain tot where tot: "dur_of tot = sum_list (map (turn_ms (group_calls decode calls [])) (tool_turns turns))"
    "s_ByCategory (AssembleTiming pt decode sess turns calls now) = sort_key (\<lambda>t. - ct_DurationMs t) (map snd tot)"
    using assemble_closed(1) by blast
  have "sum_list (map ct_DurationMs (sort_key (\<lambda>t. - ct_DurationMs t) (map snd tot))) = dur_of tot"
  proof -
    have "mset (map ct_DurationMs (sort_key (\<lambda>t. - ct_DurationMs t) (map snd tot)))
        = mset (map (ct_DurationMs \<circ> snd) tot)" by (simp add: image_mset.compositionality)
    then show ?thesis unfolding dur_of_def by (metis sum_mset_sum_list)
  qed
  with tot show ?thesis by simp
qed

text \<open>
  The slowest call is a call of a tool turn of known duration that no other call exceeds; it
  is missing exactly when no call has a known duration.
\<close>

lemma pick_slower_max:
  "(sl = None \<or> (\<exists>c. sl = Some c \<and> cl_DurationMs c \<noteq> None)) \<Longrightarrow>
   (case fold pick_slower cs sl of
      None \<Rightarrow> sl = None \<and> (\<forall>c \<in> set cs. cl_DurationMs c = None)
    | Some m \<Rightarrow> (m \<in> set cs \<or> sl = Some m) \<and> cl_DurationMs m \<noteq> None \<and>
        (\<forall>c \<in> set cs \<union> set_option sl. \<forall>d. cl_DurationMs c = Some d \<longrightarrow> d \<le> the (cl_DurationMs m)))"
proof (induction cs arbitrary: sl)
  case Nil
  then show ?case by (auto split: option.splits)
next
  case (Cons c cs)
  define sl' where "sl' = pick_slower c sl"
  have ok: "sl' = None \<or> (\<exists>c. sl' = Some c \<and> cl_DurationMs c \<noteq> None)"
    using Cons.prems by (auto simp: sl'_def pick_slower_def split: option.splits)
  have new: "sl' = sl \<or> sl' = Some c" "sl' = None \<longleftrightarrow> sl = None \<and> cl_DurationMs c = None"
    "\<forall>x \<in> insert c (set_option sl). \<forall>d. cl_DurationMs x = Some d \<longrightarrow>
       (\<exists>m. sl' = Some m \<and> d \<le> the (cl_DurationMs m))"
    using Cons.prems by (auto simp: sl'_def pick_slower_def split: option.splits)
  have ih: "case fold pick_slower cs sl' of
      None \<Rightarrow> sl' = None \<and> (\<forall>c \<in> set cs. cl_DurationMs c = None)
    | Some m \<Rightarrow> (m \<in> set cs \<or> sl' = Some m) \<and> cl_DurationMs m \<noteq> None \<and>
        (\<forall>c \<in> set cs \<union> set_option sl'. \<forall>d. cl_DurationMs c = Some d \<longrightarrow> d \<le> the (cl_DurationMs m))"
    using Cons.IH [OF ok] .
  show ?case
  proof (cases "fold pick_slower cs sl'")
    case None
    then show ?thesis using ih new by (simp add: sl'_def)
  next
    case (Some m)
    have "d \<le> the (cl_DurationMs m)"
      if x: "x \<in> insert c (set_option sl)" "cl_DurationMs x = Some d" for x d
    proof -
      obtain u where u: "sl' = Some u" "d \<le> the (cl_DurationMs u)" using new(3) x by blast
      then have "the (cl_DurationMs u) \<le> the (cl_DurationMs m)"
        using ih Some ok by fastforce
      with u show ?thesis by simp
    qed
    moreover have "m \<in> set (c # cs) \<or> sl = Some m" using ih Some new(1) by auto
    ultimately show ?thesis using ih Some by (auto simp: sl'_def)
  qed
qed

theorem slowest_call_correct:
  "case s_SlowestCall (AssembleTiming pt decode sess turns calls now) of
     None \<Rightarrow> \<forall>c \<in> set (all_calls decode turns calls). cl_DurationMs c = None
   | Some m \<Rightarrow> m \<in> set (all_calls decode turns calls) \<and> cl_DurationMs m \<noteq> None \<and>
       (\<forall>c \<in> set (all_calls decode turns calls). \<forall>d. cl_DurationMs c = Some d \<longrightarrow> d \<le> the (cl_DurationMs m))"
  using pick_slower_max [of None "all_calls decode turns calls"]
  by (simp add: assemble_closed split: option.splits)

definition task_turn :: TurnRow where
  "task_turn = \<lparr>tr_MessageID = 1, tr_Ordinal = 0, tr_Timestamp = [], tr_HasToolUse = True, tr_DurationMs = Some 1000\<rparr>"

definition task_call :: CallRow where
  "task_call = \<lparr>cr_MessageID = 1, cr_ToolUseID = [], cr_ToolName = ''Task'', cr_Category = ''Task'', cr_SkillName = None,
     cr_SubagentSessionID = Some ''sub'', cr_InputJSON = [], cr_DurationMs = Some 600\<rparr>"

definition some_session :: Session where
  "some_session = \<lparr>se_ID = ''s'', se_StartedAt = None, se_EndedAt = None\<rparr>"

lemmas timing_simps = AssembleTiming_def turn_step_def turn_calls_def settle_call_def call_of_def
  attributeTurnGo_def is_sub_def bucket_def pick_slower_def makeInputPreview_def task_turn_def
  task_call_def Let_def

theorem slowest_call_correct_witness:
  "\<exists>m. s_SlowestCall (AssembleTiming (\<lambda>_. None) (\<lambda>_. None) some_session [task_turn] [task_call] []) = Some m
     \<and> cl_DurationMs m = Some 600"
proof -
  let ?c = "(call_of (\<lambda>_. None) task_call)\<lparr>cl_IsParallel := False\<rparr>"
  have calls: "all_calls (\<lambda>_. None) [task_turn] [task_call] = [?c]"
    by (simp add: all_calls_def calls_of_turn_def settle_call_def call_of_def task_turn_def task_call_def)
  have dur: "cl_DurationMs ?c = Some 600" by (simp add: call_of_def task_call_def)
  have "case s_SlowestCall (AssembleTiming (\<lambda>_. None) (\<lambda>_. None) some_session [task_turn] [task_call] []) of
     None \<Rightarrow> \<forall>c \<in> set [?c]. cl_DurationMs c = None
   | Some m \<Rightarrow> m \<in> set [?c] \<and> cl_DurationMs m \<noteq> None \<and>
       (\<forall>c \<in> set [?c]. \<forall>d. cl_DurationMs c = Some d \<longrightarrow> d \<le> the (cl_DurationMs m))"
    using slowest_call_correct [where pt = "\<lambda>_. None" and decode = "\<lambda>_. None" and sess = some_session
      and turns = "[task_turn]" and calls = "[task_call]" and now = "[]"] unfolding calls .
  with dur show ?thesis
    by (cases "s_SlowestCall (AssembleTiming (\<lambda>_. None) (\<lambda>_. None) some_session [task_turn] [task_call] [])") auto
qed

text \<open>
  A sub-agent call is counted twice in the calls of its category: a turn with the single
  call of a sub-agent shows one tool call but two calls of \<open>Task\<close>.
\<close>

theorem subagent_counted_twice:
  "s_ToolCallCount (AssembleTiming pt decode sess [task_turn] [task_call] now) = 1 \<and>
   map ct_CallCount (s_ByCategory (AssembleTiming pt decode sess [task_turn] [task_call] now)) = [2]"
  by (simp add: timing_simps)

theorem primary_is_majority_witness:
  "find_primary 3 [(''Bash'', 2), (''Read'', 1)] = ''Bash''"
proof -
  let ?c = "\<lambda>k. (call_of (\<lambda>_. None) task_call)\<lparr>cl_Category := k\<rparr>"
  have "mset [(''Bash'', 2), (''Read'', 1 :: nat)] = mset (count_categories [?c ''Read'', ?c ''Bash'', ?c ''Bash''] [])"
    by simp
  from primary_is_majority [OF this, of "''Bash''", THEN conjunct1] show ?thesis
    by (simp add: category_count_def numeral_3_eq_3)
qed

end
