(* ===== verification/Synthesize.thy ===== *)
theory Synthesize
  imports Prelude
begin

text \<open>
  The planning of memory synthesis (\<open>internal/synthesize/synthesize.go\<close>, \<open>canonical.go\<close>, the
  settings of \<open>worker.go\<close>): clustering by similarity, merging into topics, and the canonical rows.
  \<open>cosim\<close> stands for the floating-point \<open>semantic.Cosine\<close> (\<^const>\<open>None\<close> when it is undefined), \<open>sha\<close> for
  the first 16 hex digits of SHA-256, \<open>chat\<close> for the model, \<open>decode\<close> and the \<open>marshal\<close> functions
  for the JSON codec. Slices sorted with \<open>sort.Slice\<close> are sorted stably here.
\<close>

section \<open>Notes\<close>

abbreviation SourceCrossAgent :: string where "SourceCrossAgent \<equiv> ''cross-agent''"
abbreviation SourceAssistMem :: string where "SourceAssistMem \<equiv> ''assist-mem''"
abbreviation SourceCCNative :: string where "SourceCCNative \<equiv> ''cc-native''"
abbreviation SourceCanonical :: string where "SourceCanonical \<equiv> ''canonical''"

text \<open>The fields of \<open>db.Memory\<close> that synthesis reads or writes; the others stay at their zero value.\<close>

record Memory =
  mm_RelPath :: string
  mm_Source :: string
  mm_Title :: string
  mm_Date :: string
  mm_ProblemType :: string
  mm_Type :: string
  mm_Status :: string
  mm_OriginSession :: string
  mm_OriginProject :: string
  mm_CoveredRefs :: string
  mm_Provenance :: string
  mm_Body :: string
  mm_SyncedAt :: string
  mm_Embedding :: "rat list"

record SourceNote =
  n_ID :: string
  n_Source :: string
  n_RelPath :: string
  n_RawRefID :: string
  n_Title :: string
  n_Body :: string
  n_Project :: string
  n_ProblemType :: string
  n_Embedding :: "rat list"
  n_IsTopic :: bool

definition synthesizedOriginPrefix :: string where
  "synthesizedOriginPrefix = ''compact-memory:''"

definition stableRawRefID :: "string \<Rightarrow> string \<Rightarrow> string" where
  "stableRawRefID source relPath = trim_space source @ '':'' @ trim_space relPath"

definition note_of :: "bool \<Rightarrow> Memory \<Rightarrow> SourceNote option" where
  "note_of legacyIDs m =
     (if mm_Source m = SourceCanonical then None
      else if mm_Embedding m = [] then None
      else let source = (if mm_Source m = [] then SourceCrossAgent else mm_Source m);
               stem = trim_suffix (mm_RelPath m) ''.md'' in
      if stem = [] \<or> to_lower stem = to_lower ''INDEX'' then None
      else Some \<lparr> n_ID = (if legacyIDs then stem else stableRawRefID source (mm_RelPath m)),
        n_Source = source, n_RelPath = mm_RelPath m, n_RawRefID = stableRawRefID source (mm_RelPath m),
        n_Title = mm_Title m, n_Body = mm_Body m, n_Project = mm_OriginProject m,
        n_ProblemType = mm_ProblemType m, n_Embedding = mm_Embedding m,
        n_IsTopic = has_prefix (mm_OriginSession m) synthesizedOriginPrefix \<rparr>)"

definition sourceNotesFromMemories :: "Memory list \<Rightarrow> bool \<Rightarrow> SourceNote list" where
  "sourceNotesFromMemories memories legacyIDs = List.map_filter (note_of legacyIDs) memories"

definition canonicalRelPath :: "(string \<Rightarrow> string) \<Rightarrow> string list \<Rightarrow> string" where
  "canonicalRelPath sha refIDs = ''canonical/'' @ sha (str_join ''|'' (sort refIDs)) @ ''.json''"

section \<open>Clusters\<close>

type_synonym cosine = "rat list \<Rightarrow> rat list \<Rightarrow> rat option"

definition close :: "cosine \<Rightarrow> rat \<Rightarrow> SourceNote \<Rightarrow> SourceNote \<Rightarrow> bool" where
  "close cosim minSim a b =
     (case cosim (n_Embedding a) (n_Embedding b) of None \<Rightarrow> False | Some sim \<Rightarrow> sim \<ge> minSim)"

text \<open>
  The loops over the notes not yet assigned: the first is the seed, the close ones join it, the
  others stay for the next rounds.
\<close>

function greedy :: "cosine \<Rightarrow> rat \<Rightarrow> SourceNote list \<Rightarrow> SourceNote list list" where
  "greedy cosim minSim [] = []"
| "greedy cosim minSim (n # ns) =
     (let cluster = n # filter (close cosim minSim n) ns;
          rest = greedy cosim minSim (filter (\<lambda>m. \<not> close cosim minSim n m) ns) in
      if length cluster \<ge> 2 then cluster # rest else rest)"
  by pat_completeness auto
termination
  by (relation "measure (\<lambda>(_, _, ns). length ns)") (auto intro: le_imp_less_Suc [OF length_filter_le])

definition ClusterNotes :: "cosine \<Rightarrow> SourceNote list \<Rightarrow> rat \<Rightarrow> SourceNote list list" where
  "ClusterNotes cosim notes minSim = greedy cosim minSim (sort_key n_ID notes)"

text \<open>\<open>bestTopicMatch\<close>: the position of the closest topic and its similarity.\<close>

fun best_member :: "cosine \<Rightarrow> SourceNote \<Rightarrow> nat \<Rightarrow> SourceNote list \<Rightarrow> (nat \<times> rat) option \<Rightarrow> (nat \<times> rat) option" where
  "best_member cosim t ti [] best = best"
| "best_member cosim t ti (m # ms) best =
     best_member cosim t ti ms
       (case cosim (n_Embedding m) (n_Embedding t) of
          None \<Rightarrow> best
        | Some sim \<Rightarrow> (case best of
             None \<Rightarrow> Some (ti, sim)
           | Some (_, b) \<Rightarrow> if sim > b then Some (ti, sim) else best))"

fun best_topic :: "cosine \<Rightarrow> SourceNote list \<Rightarrow> nat \<Rightarrow> SourceNote list \<Rightarrow> (nat \<times> rat) option \<Rightarrow> (nat \<times> rat) option" where
  "best_topic cosim cluster ti [] best = best"
| "best_topic cosim cluster ti (t # ts) best =
     best_topic cosim cluster (ti + 1) ts (best_member cosim t ti cluster best)"

definition bestTopicMatch :: "cosine \<Rightarrow> SourceNote list \<Rightarrow> SourceNote list \<Rightarrow> (nat \<times> rat) option" where
  "bestTopicMatch cosim cluster topics = best_topic cosim cluster 0 topics None"

text \<open>The loop over the atomic clusters, with the topics that are still free.\<close>

fun route :: "cosine \<Rightarrow> rat \<Rightarrow> SourceNote list list \<Rightarrow> SourceNote list \<Rightarrow> SourceNote list list \<times> SourceNote list" where
  "route cosim mergeMinSim [] free = ([], free)"
| "route cosim mergeMinSim (cluster # cs) free =
     (let (cluster, free) =
        (case bestTopicMatch cosim cluster free of
           None \<Rightarrow> (cluster, free)
         | Some (ti, best) \<Rightarrow>
             if best \<ge> mergeMinSim then (cluster @ [free ! ti], take ti free @ drop (ti + 1) free)
             else (cluster, free));
          (out, free) = route cosim mergeMinSim cs free in
      (cluster # out, free))"

definition BuildClusters :: "cosine \<Rightarrow> SourceNote list \<Rightarrow> rat \<Rightarrow> rat \<Rightarrow> SourceNote list list" where
  "BuildClusters cosim notes minSim mergeMinSim =
     (let topics = sort_key n_ID (filter n_IsTopic notes);
          atomics = filter (\<lambda>n. \<not> n_IsTopic n) notes;
          (out, free) = route cosim mergeMinSim (ClusterNotes cosim atomics minSim) topics in
      out @ greedy cosim mergeMinSim free)"

definition clusterHasTopic :: "SourceNote list \<Rightarrow> bool" where
  "clusterHasTopic cluster = list_ex n_IsTopic cluster"

fun cluster_project :: "string \<Rightarrow> SourceNote list \<Rightarrow> string \<times> string" where
  "cluster_project seen [] = (if seen = [] then ([], ''general'') else (seen, ''project''))"
| "cluster_project seen (n # ns) =
     (let p = trim_space (n_Project n) in
      if p = [] then ([], ''general'')
      else if seen = [] then cluster_project p ns
      else if p \<noteq> seen then ([], ''general'')
      else cluster_project seen ns)"

definition clusterProject :: "SourceNote list \<Rightarrow> string \<times> string" where
  "clusterProject cluster = cluster_project [] cluster"

definition citation :: "string \<Rightarrow> string" where
  "citation i = ''(because of '' @ i @ '')''"

definition ensureCitations :: "string \<Rightarrow> string list \<Rightarrow> string" where
  "ensureCitations insight sourceIDs =
     fold (\<lambda>i out. if \<not> str_contains out (citation i) then out @ '' '' @ citation i else out) sourceIDs
       (trim_right_of (\<lambda>c. c = CHR '' '') (trim_space insight))"

section \<open>Canonical rows\<close>

abbreviation defaultMaxClusters :: int where "defaultMaxClusters \<equiv> 20"

record Settings =
  w_MinSimilarity :: rat
  w_MergeSimilarity :: rat
  w_MaxClusters :: int
  w_SourceAllowlist :: "string list"

definition minSim :: "Settings \<Rightarrow> rat" where
  "minSim w = (if w_MinSimilarity w > 0 then w_MinSimilarity w else 55 / 100)"

definition mergeSim :: "Settings \<Rightarrow> rat" where
  "mergeSim w = (if w_MergeSimilarity w > 0 then w_MergeSimilarity w else 82 / 100)"

definition maxClusters :: "Settings \<Rightarrow> int" where
  "maxClusters w = (if w_MaxClusters w > 0 then w_MaxClusters w else defaultMaxClusters)"

fun allowed_sources :: "string list \<Rightarrow> string list \<Rightarrow> string list" where
  "allowed_sources seen [] = []"
| "allowed_sources seen (s # ss) =
     (let source = trim_space s in
      if source = [] \<or> source = SourceCanonical \<or> source \<in> set seen then allowed_sources seen ss
      else source # allowed_sources (source # seen) ss)"

definition sourceAllowlist :: "Settings \<Rightarrow> string list" where
  "sourceAllowlist w =
     (if w_SourceAllowlist w = [] then [SourceAssistMem, SourceCCNative, SourceCrossAgent]
      else allowed_sources [] (w_SourceAllowlist w))"

definition activeForCanonicalSynthesis :: "Memory \<Rightarrow> bool" where
  "activeForCanonicalSynthesis m =
     (if mm_Status m = ''active'' then True
      else mm_Source m = SourceCCNative \<and> trim_space (mm_Status m) = [])"

definition canonicalBucket :: "SourceNote \<Rightarrow> string" where
  "canonicalBucket n =
     (let text = to_lower (str_join '' '' [n_ProblemType n, n_Title n, n_Body n, n_RelPath n]) in
      if str_contains text ''security'' \<or> str_contains text ''exception''
         \<or> str_contains text [CHR 0xE5, CHR 0xAE, CHR 0x89, CHR 0xE5, CHR 0x85, CHR 0xA8]
         \<or> str_contains text [CHR 0xE4, CHR 0xBE, CHR 0x8B, CHR 0xE5, CHR 0xA4, CHR 0x96]
      then ''security''
      else if str_contains text ''environment'' \<or> str_contains text ''env''
         \<or> str_contains text [CHR 0xE7, CHR 0x8E, CHR 0xAF, CHR 0xE5, CHR 0xA2, CHR 0x83]
      then ''environment''
      else ''fact'')"

definition canonicalClusters :: "cosine \<Rightarrow> Settings \<Rightarrow> SourceNote list \<Rightarrow> SourceNote list list \<times> SourceNote list" where
  "canonicalClusters cosim w notes =
     (let keys = sort (remdups (map canonicalBucket notes));
          guarded = filter (\<lambda>n. canonicalBucket n \<noteq> ''fact'') notes;
          bucket = (\<lambda>key. filter (\<lambda>n. canonicalBucket n = key) notes) in
      (concat (map (\<lambda>key. BuildClusters cosim (bucket key) (minSim w) (mergeSim w)) keys), guarded))"

definition sourceIDsFromCluster :: "SourceNote list \<Rightarrow> string list" where
  "sourceIDsFromCluster cluster = sort (map n_RawRefID cluster)"

type_synonym RawRef = "string \<times> string"

text \<open>Sorted by source, then by path: the sorts by the minor key first are stable.\<close>

definition sort_refs :: "RawRef list \<Rightarrow> RawRef list" where
  "sort_refs refs = sort_key fst (sort_key snd refs)"

record LLMDecision =
  ld_Skip :: bool
  ld_Title :: string
  ld_ProblemType :: string
  ld_Insight :: string

record Codec =
  cd_sha :: "string \<Rightarrow> string"
  cd_chat :: "(SourceNote list \<Rightarrow> string + string) option"
  cd_decode :: "string \<Rightarrow> string + LLMDecision"
  cd_refs :: "RawRef list \<Rightarrow> string"
  cd_provenance :: "(string, nat) gomap \<Rightarrow> nat \<Rightarrow> string list \<Rightarrow> string \<Rightarrow> string"
  cd_date :: string
  cd_now :: string

fun count_sources :: "SourceNote list \<Rightarrow> (string, nat) gomap \<Rightarrow> (string, nat) gomap" where
  "count_sources [] m = m"
| "count_sources (n # ns) m =
     count_sources ns (AList.update (n_Source n)
       ((case map_of m (n_Source n) of None \<Rightarrow> 0 | Some k \<Rightarrow> k) + 1) m)"

definition synthesizeCanonicalCluster ::
  "Codec \<Rightarrow> SourceNote list \<Rightarrow> (string + Memory) \<times> RawRef list" where
  "synthesizeCanonicalCluster cd cluster =
     (let sourceIDs = sort (map n_RawRefID cluster);
          refs = sort_refs (map (\<lambda>n. (n_Source n, n_RelPath n)) cluster);
          label = ''canonical cluster '' @ str_join '','' sourceIDs in
      case cd_chat cd of
        None \<Rightarrow> (Inl (label @ '' skipped: no llm''), refs)
      | Some chat \<Rightarrow>
      (case chat cluster of
        Inl err \<Rightarrow> (Inl (label @ '' llm: '' @ err), refs)
      | Inr raw \<Rightarrow>
      (case cd_decode cd raw of
        Inl err \<Rightarrow> (Inl err, refs)
      | Inr d \<Rightarrow>
          if ld_Skip d \<or> trim_space (ld_Title d) = [] \<or> trim_space (ld_Insight d) = []
          then (Inl (label @ '' skipped: llm_skip''), refs)
          else let (project, scope) = clusterProject cluster in
          (Inr \<lparr> mm_RelPath = canonicalRelPath (cd_sha cd) sourceIDs, mm_Source = SourceCanonical,
             mm_Title = trim_space (ld_Title d), mm_Date = cd_date cd,
             mm_ProblemType = trim_space (ld_ProblemType d), mm_Type = ''canonical'',
             mm_Status = ''active'', mm_OriginSession = ''synthesize:canonical-synthesis-v1'',
             mm_OriginProject = project, mm_CoveredRefs = cd_refs cd refs,
             mm_Provenance = cd_provenance cd (count_sources cluster []) (length refs) sourceIDs scope,
             mm_Body = trim_space (ld_Insight d), mm_SyncedAt = cd_now cd, mm_Embedding = [] \<rparr>, refs))))"

record canonicalPlan =
  p_Rows :: "Memory list"
  p_ClusterCount :: nat
  p_CoverageRefs :: "RawRef list"
  p_ConflictSamples :: "string list"
  p_SkippedTopics :: "(string list \<times> string) list"
  p_SkippedCount :: nat
  p_FailedCount :: nat
  p_ConflictCount :: nat

definition plan_cluster :: "Codec \<Rightarrow> SourceNote list \<Rightarrow> canonicalPlan \<Rightarrow> canonicalPlan" where
  "plan_cluster cd cluster plan =
     (case synthesizeCanonicalCluster cd cluster of
        (Inl err, _) \<Rightarrow>
          plan\<lparr>p_SkippedCount := p_SkippedCount plan + 1, p_FailedCount := p_FailedCount plan + 1,
               p_SkippedTopics := p_SkippedTopics plan @ [(sourceIDsFromCluster cluster, err)],
               p_ConflictSamples := p_ConflictSamples plan @ [err]\<rparr>
      | (Inr row, refs) \<Rightarrow>
          plan\<lparr>p_Rows := p_Rows plan @ [row], p_CoverageRefs := p_CoverageRefs plan @ refs\<rparr>)"

definition sample_single :: "string list \<Rightarrow> SourceNote \<Rightarrow> string list \<Rightarrow> string list" where
  "sample_single covered n samples =
     (if n_RawRefID n \<notin> set covered \<and> length samples < 8
      then samples @ [''separate singleton: '' @ n_RawRefID n] else samples)"

definition planCanonical :: "cosine \<Rightarrow> Codec \<Rightarrow> Settings \<Rightarrow> SourceNote list \<Rightarrow> canonicalPlan" where
  "planCanonical cosim cd w notes =
     (let (clusters, guarded) = canonicalClusters cosim w notes;
          clusters = take (nat (maxClusters w)) clusters;
          plan = \<lparr> p_Rows = [], p_ClusterCount = length clusters, p_CoverageRefs = [],
                   p_ConflictSamples = map (\<lambda>n. ''separate guard: '' @ n_RawRefID n) guarded,
                   p_SkippedTopics = [], p_SkippedCount = 0, p_FailedCount = 0,
                   p_ConflictCount = length guarded \<rparr>;
          plan = fold (plan_cluster cd) clusters plan;
          covered = map (\<lambda>(s, p). stableRawRefID s p) (p_CoverageRefs plan) in
      plan\<lparr>p_ConflictSamples := fold (sample_single covered) notes (p_ConflictSamples plan),
           p_Rows := sort_key mm_RelPath (p_Rows plan),
           p_CoverageRefs := sort_refs (p_CoverageRefs plan)\<rparr>)"

section \<open>What clusters are\<close>

lemma mset_partition: "mset (filter P xs) + mset (filter (\<lambda>x. \<not> P x) xs) = mset xs"
  by (simp flip: multiset_partition)

lemma greedy_mset: "mset (concat (greedy cosim s ns)) \<subseteq># mset ns"
proof (induction cosim s ns rule: greedy.induct)
  case (2 cosim s n ns)
  let ?in = "filter (close cosim s n) ns" and ?out = "filter (\<lambda>m. \<not> close cosim s n m) ns"
  have ih: "mset (concat (greedy cosim s ?out)) \<subseteq># mset ?out"
    using 2 by simp
  have split: "mset (n # ns) = add_mset n (mset ?in) + mset ?out"
    using mset_partition [of "close cosim s n" ns] by simp
  have "add_mset n (mset ?in) + mset (concat (greedy cosim s ?out)) \<subseteq># mset (n # ns)"
    unfolding split using ih by (simp only: subset_mset.add_left_mono)
  moreover have "mset (concat (greedy cosim s ?out)) \<subseteq># mset (n # ns)"
    unfolding split using ih subset_mset.order_trans mset_subset_eq_add_right by blast
  ultimately show ?case by (simp add: Let_def)
qed simp

lemma greedy_shape:
  "c \<in> set (greedy cosim s ns) \<Longrightarrow> 2 \<le> length c \<and> (\<forall>m \<in> set c. m = hd c \<or> close cosim s (hd c) m)"
  by (induction cosim s ns rule: greedy.induct) (auto simp: Let_def split: if_splits)

text \<open>Notes the grouping leaves alone are not close to one another, the earlier to the later.\<close>

lemma greedy_complete:
  "distinct ns \<Longrightarrow> sorted_wrt (\<lambda>a b. \<not> close cosim s a b)
     (filter (\<lambda>n. n \<notin> set (concat (greedy cosim s ns))) ns)"
proof (induction cosim s ns rule: greedy.induct)
  case (2 cosim s n ns)
  let ?out = "filter (\<lambda>m. \<not> close cosim s n m) ns"
  define r where "r = set (concat (greedy cosim s ?out))"
  have r: "r \<subseteq> set ?out"
    unfolding r_def by (metis greedy_mset mset_subset_eqD set_mset_mset subsetI)
  have ih: "sorted_wrt (\<lambda>a b. \<not> close cosim s a b) (filter (\<lambda>n. n \<notin> r) ?out)"
    using 2 by (simp add: r_def)
  show ?case
  proof (cases "filter (close cosim s n) ns = []")
    case True
    then have all: "?out = ns" by (simp add: filter_empty_conv filter_id_conv)
    have eq: "set (concat (greedy cosim s (n # ns))) = r" using True by (simp add: Let_def r_def)
    have "n \<notin> r" using r 2(2) by auto
    moreover have "\<forall>m \<in> set ns. \<not> close cosim s n m" using all by (auto simp: filter_id_conv)
    ultimately show ?thesis unfolding eq using ih all by simp
  next
    case False
    then have "set (concat (greedy cosim s (n # ns))) = insert n (set (filter (close cosim s n) ns)) \<union> r"
      by (simp add: Let_def r_def Suc_le_eq)
    moreover have "filter (\<lambda>m. m \<notin> insert n (set (filter (close cosim s n) ns)) \<union> r) (n # ns)
        = filter (\<lambda>m. m \<notin> r) ?out"
      using 2(2) by (auto intro: filter_cong)
    ultimately show ?thesis using ih by simp
  qed
qed simp

lemma best_member_from:
  "best_member cosim t ti ms best = Some (i, b) \<Longrightarrow>
     best = Some (i, b) \<or> (i = ti \<and> (\<exists>m \<in> set ms. cosim (n_Embedding m) (n_Embedding t) = Some b))"
proof (induction ms arbitrary: best)
  case (Cons m ms)
  from Cons.IH [OF Cons.prems [simplified]] show ?case
    by (auto split: option.splits if_splits)
qed simp

lemma best_topic_from:
  "best_topic cosim cluster ti ts best = Some (i, b) \<Longrightarrow>
     best = Some (i, b) \<or> (ti \<le> i \<and> i < ti + length ts \<and>
       (\<exists>m \<in> set cluster. cosim (n_Embedding m) (n_Embedding (ts ! (i - ti))) = Some b))"
proof (induction ts arbitrary: ti best)
  case (Cons t ts)
  have "best_member cosim t ti cluster best = Some (i, b) \<or>
      (ti + 1 \<le> i \<and> i < ti + 1 + length ts \<and>
        (\<exists>m \<in> set cluster. cosim (n_Embedding m) (n_Embedding (ts ! (i - (ti + 1)))) = Some b))"
    using Cons.IH [of "ti + 1" "best_member cosim t ti cluster best"] Cons.prems by simp
  then show ?case
  proof
    assume "best_member cosim t ti cluster best = Some (i, b)"
    from best_member_from [OF this] show ?thesis by auto
  next
    assume r: "ti + 1 \<le> i \<and> i < ti + 1 + length ts \<and>
        (\<exists>m \<in> set cluster. cosim (n_Embedding m) (n_Embedding (ts ! (i - (ti + 1)))) = Some b)"
    then have "i - ti = Suc (i - (ti + 1))" by arith
    then have "(t # ts) ! (i - ti) = ts ! (i - (ti + 1))" by simp
    then show ?thesis using r by auto
  qed
qed simp

lemma bestTopicMatch_from:
  "bestTopicMatch cosim cluster ts = Some (i, b) \<Longrightarrow>
     i < length ts \<and> (\<exists>m \<in> set cluster. cosim (n_Embedding m) (n_Embedding (ts ! i)) = Some b)"
  unfolding bestTopicMatch_def by (drule best_topic_from) auto

lemma mset_pick: "i < length xs \<Longrightarrow> mset xs = add_mset (xs ! i) (mset (take i xs @ drop (i + 1) xs))"
  by (metis Suc_eq_plus1 id_take_nth_drop mset.simps(2) mset_append union_mset_add_mset_right)

text \<open>A routed cluster is an atomic cluster, with at most one free topic close to a member added.\<close>

definition routed :: "cosine \<Rightarrow> rat \<Rightarrow> SourceNote set \<Rightarrow> SourceNote list \<Rightarrow> SourceNote list \<Rightarrow> bool" where
  "routed cosim mm topics c d \<longleftrightarrow> d = c \<or> (\<exists>t m. d = c @ [t] \<and> t \<in> topics \<and> m \<in> set c \<and> close cosim mm m t)"

lemma route_correct:
  "route cosim mm cs free = (out, free') \<Longrightarrow>
     list_all2 (routed cosim mm (set free)) cs out \<and> mset (concat out) + mset free' = mset (concat cs) + mset free
     \<and> set free' \<subseteq> set free"
proof (induction cs arbitrary: free out free')
  case (Cons c cs)
  obtain c1 f1 where step: "(case bestTopicMatch cosim c free of
           None \<Rightarrow> (c, free)
         | Some (ti, best) \<Rightarrow>
             if best \<ge> mm then (c @ [free ! ti], take ti free @ drop (ti + 1) free) else (c, free)) = (c1, f1)"
    by fastforce
  obtain out1 where rest: "route cosim mm cs f1 = (out1, free')" "out = c1 # out1"
    using Cons.prems step by (auto split: prod.splits)
  have one: "routed cosim mm (set free) c c1 \<and> mset c1 + mset f1 = mset c + mset free \<and> set f1 \<subseteq> set free"
  proof (cases "bestTopicMatch cosim c free")
    case None
    then show ?thesis using step by (auto simp: routed_def)
  next
    case (Some p)
    obtain ti b where p: "p = (ti, b)" by (cases p)
    show ?thesis
    proof (cases "b \<ge> mm")
      case True
      from bestTopicMatch_from Some p obtain m where
        m: "ti < length free" "m \<in> set c" "cosim (n_Embedding m) (n_Embedding (free ! ti)) = Some b" by blast
      have eq: "c1 = c @ [free ! ti]" "f1 = take ti free @ drop (ti + 1) free"
        using step Some p True by auto
      have "close cosim mm m (free ! ti)" using m True by (simp add: close_def)
      then have "routed cosim mm (set free) c c1" using m eq by (auto simp: routed_def)
      moreover have "mset c1 + mset f1 = mset c + mset free"
        using mset_pick [OF m(1)] eq by simp
      moreover have "set f1 \<subseteq> set free" using eq by (auto dest: in_set_takeD in_set_dropD)
      ultimately show ?thesis by blast
    next
      case False
      then show ?thesis using step Some p by (auto simp: routed_def)
    qed
  qed
  have "list_all2 (routed cosim mm (set free)) cs out1"
    using Cons.IH [OF rest(1)] one by (auto simp: routed_def elim!: list_all2_mono)
  with Cons.IH [OF rest(1)] one rest(2) show ?case by (auto simp: ac_simps)
qed simp

section \<open>Properties\<close>

lemma ClusterNotes_mset: "mset (concat (ClusterNotes cosim ns s)) \<subseteq># mset ns"
  unfolding ClusterNotes_def by (metis greedy_mset mset_sort)

lemma build_parts:
  obtains out free where "BuildClusters cosim notes s mm = out @ greedy cosim mm free"
    "list_all2 (routed cosim mm {n \<in> set notes. n_IsTopic n}) (ClusterNotes cosim (filter (\<lambda>n. \<not> n_IsTopic n) notes) s) out"
    "mset (concat out) + mset free = mset (concat (ClusterNotes cosim (filter (\<lambda>n. \<not> n_IsTopic n) notes) s))
       + mset (filter n_IsTopic notes)"
    "set free \<subseteq> {n \<in> set notes. n_IsTopic n}"
proof -
  obtain out free where r: "route cosim mm (ClusterNotes cosim (filter (\<lambda>n. \<not> n_IsTopic n) notes) s)
      (sort_key n_ID (filter n_IsTopic notes)) = (out, free)" by fastforce
  then have "BuildClusters cosim notes s mm = out @ greedy cosim mm free"
    by (simp add: BuildClusters_def Let_def)
  with route_correct [OF r] that show ?thesis by (simp add: Collect_conj_eq)
qed

lemma build_mset: "mset (concat (BuildClusters cosim notes s mm)) \<subseteq># mset notes"
proof -
  let ?at = "filter (\<lambda>n. \<not> n_IsTopic n) notes"
  obtain out free where b: "BuildClusters cosim notes s mm = out @ greedy cosim mm free"
    "mset (concat out) + mset free = mset (concat (ClusterNotes cosim ?at s)) + mset (filter n_IsTopic notes)"
    by (rule build_parts)
  have "mset (concat out) + mset (concat (greedy cosim mm free)) \<subseteq># mset (concat out) + mset free"
    using greedy_mset subset_mset.add_left_mono by blast
  also have "\<dots> \<subseteq># mset ?at + mset (filter n_IsTopic notes)"
    unfolding b(2) using ClusterNotes_mset subset_mset.add_right_mono by blast
  also have "\<dots> = mset notes"
    using mset_partition [of n_IsTopic "notes"] by (simp add: add.commute)
  finally show ?thesis by (simp add: b(1))
qed

text \<open>
  A note is emitted in at most one cluster per cycle: the clusters are disjoint parts of the
  notes, and each has at least two members.
\<close>

theorem BuildClusters_once:
  "mset (concat (BuildClusters cosim notes s mm)) \<subseteq># mset notes \<and>
   list_all (\<lambda>c. 2 \<le> length c) (BuildClusters cosim notes s mm)"
proof -
  let ?at = "filter (\<lambda>n. \<not> n_IsTopic n) notes"
  obtain out free where b: "BuildClusters cosim notes s mm = out @ greedy cosim mm free"
    "list_all2 (routed cosim mm {n \<in> set notes. n_IsTopic n}) (ClusterNotes cosim ?at s) out"
    by (rule build_parts)
  have "2 \<le> length d" if "d \<in> set out" for d
  proof -
    from that obtain k where k: "k < length out" "d = out ! k" by (auto simp: in_set_conv_nth)
    have len: "length (ClusterNotes cosim ?at s) = length out" using b(2) by (rule list_all2_lengthD)
    then have "routed cosim mm {n \<in> set notes. n_IsTopic n} (ClusterNotes cosim ?at s ! k) d"
      using b(2) k by (simp add: list_all2_conv_all_nth)
    moreover have "2 \<le> length (ClusterNotes cosim ?at s ! k)"
      using greedy_shape [of _ cosim s "sort_key n_ID ?at"] k(1) len
      unfolding ClusterNotes_def by (metis nth_mem)
    ultimately show ?thesis by (auto simp: routed_def)
  qed
  moreover have "2 \<le> length d" if "d \<in> set (greedy cosim mm free)" for d
    using greedy_shape [OF that] by blast
  ultimately have "list_all (\<lambda>c. 2 \<le> length c) (BuildClusters cosim notes s mm)"
    by (auto simp: b(1) list_all_iff)
  with build_mset show ?thesis by blast
qed

text \<open>
  The grouping is complete: of the notes it leaves alone no earlier one, in the order of
  their IDs, is close to a later one, so nothing that could be folded is forgotten.
\<close>

theorem ClusterNotes_complete:
  assumes "distinct notes"
  shows "sorted_wrt (\<lambda>a b. \<not> close cosim s a b)
    (filter (\<lambda>n. n \<notin> set (concat (ClusterNotes cosim notes s))) (sort_key n_ID notes))"
  unfolding ClusterNotes_def using assms by (intro greedy_complete) simp

definition plain_note :: "string \<Rightarrow> rat \<Rightarrow> SourceNote" where
  "plain_note i x = \<lparr> n_ID = i, n_Source = SourceAssistMem, n_RelPath = i, n_RawRefID = i, n_Title = [],
     n_Body = [], n_Project = [], n_ProblemType = [], n_Embedding = [x], n_IsTopic = False \<rparr>"

theorem ClusterNotes_complete_witness:
  "sorted_wrt (\<lambda>a b. \<not> close (\<lambda>x y. Some (if x = y then 1 else 0)) 1 a b)
     (filter (\<lambda>n. n \<notin> set (concat (ClusterNotes (\<lambda>x y. Some (if x = y then 1 else 0))
        [plain_note ''b'' 1, plain_note ''a'' 1, plain_note ''c'' 2] 1)))
       (sort_key n_ID [plain_note ''b'' 1, plain_note ''a'' 1, plain_note ''c'' 2]))"
  by (rule ClusterNotes_complete) (simp add: plain_note_def)

text \<open>
  What a cluster may hold: every raw note is close, at \<open>minSim\<close>, to the note that seeds the
  cluster, and every topic other than the seed is close, at the higher \<open>mergeMinSim\<close>, to a member.
\<close>

theorem BuildClusters_similar:
  "list_all (\<lambda>c. list_all (\<lambda>m. m = hd c \<or>
       (if n_IsTopic m then list_ex (\<lambda>k. close cosim mm k m) c else close cosim s (hd c) m)) c)
     (BuildClusters cosim notes s mm)"
proof -
  let ?at = "filter (\<lambda>n. \<not> n_IsTopic n) notes"
  let ?ok = "\<lambda>c m. m = hd c \<or> (if n_IsTopic m then list_ex (\<lambda>k. close cosim mm k m) c else close cosim s (hd c) m)"
  obtain out free where b: "BuildClusters cosim notes s mm = out @ greedy cosim mm free"
    "list_all2 (routed cosim mm {n \<in> set notes. n_IsTopic n}) (ClusterNotes cosim ?at s) out"
    "set free \<subseteq> {n \<in> set notes. n_IsTopic n}"
    by (rule build_parts)
  have "?ok d m" if d: "d \<in> set out" and m: "m \<in> set d" for d m
  proof -
    from d obtain k where k: "k < length out" "d = out ! k" by (auto simp: in_set_conv_nth)
    define c where "c = ClusterNotes cosim ?at s ! k"
    have c: "c \<in> set (ClusterNotes cosim ?at s)" "routed cosim mm {n \<in> set notes. n_IsTopic n} c d"
      using b(2) k by (auto simp: list_all2_conv_all_nth c_def)
    then have shape: "2 \<le> length c" "x \<in> set c \<Longrightarrow> x = hd c \<or> close cosim s (hd c) x" for x
      using greedy_shape unfolding ClusterNotes_def by blast+
    have atomic: "x \<in> set c \<Longrightarrow> \<not> n_IsTopic x" for x
    proof -
      assume "x \<in> set c"
      with c(1) have "x \<in> set (concat (ClusterNotes cosim ?at s))" by auto
      then have "x \<in> set ?at" using ClusterNotes_mset by (metis mset_subset_eqD set_mset_mset)
      then show ?thesis by simp
    qed
    have hd: "hd d = hd c" using c(2) shape(1) by (auto simp: routed_def hd_append)
    from c(2) show ?thesis
      unfolding routed_def
    proof
      assume "d = c"
      then show ?thesis using m shape(2) atomic by auto
    next
      assume "\<exists>t m. d = c @ [t] \<and> t \<in> {n \<in> set notes. n_IsTopic n} \<and> m \<in> set c \<and> close cosim mm m t"
      then obtain t u where "d = c @ [t]" "n_IsTopic t" "u \<in> set c" "close cosim mm u t" by blast
      then show ?thesis
        using m shape(2) [of m] atomic [of m] hd by (cases "m \<in> set c") (auto simp: list_ex_iff)
    qed
  qed
  moreover have "?ok d m" if d: "d \<in> set (greedy cosim mm free)" and m: "m \<in> set d" for d m
  proof -
    have "m \<in> set free" using d m greedy_mset by (metis UN_I mset_subset_eqD set_concat set_mset_mset)
    then have "n_IsTopic m" using b(3) by auto
    then show ?thesis
      using greedy_shape [OF d] m by (cases d) (auto simp: list_ex_iff)
  qed
  ultimately show ?thesis unfolding b(1) list_all_iff set_append by blast
qed

text \<open>
  Synthesis never mixes buckets and never repeats a note: the canonical clusters are disjoint
  parts of the notes, and the members of one cluster share their bucket.
\<close>

lemma buckets_mset:
  "distinct keys \<Longrightarrow> (\<Sum>k \<leftarrow> keys. mset (filter (\<lambda>n. f n = k) ns)) = mset (filter (\<lambda>n. f n \<in> set keys) ns)"
proof (induction keys)
  case (Cons k keys)
  have "mset (filter (\<lambda>n. f n \<in> set (k # keys)) ns)
      = mset (filter (\<lambda>n. f n = k) ns) + mset (filter (\<lambda>n. f n \<in> set keys) ns)"
    using Cons.prems by (induction ns) auto
  with Cons show ?case by simp
qed simp

lemma canonical_mset: "mset (concat (fst (canonicalClusters cosim w notes))) \<subseteq># mset notes"
proof -
  define keys where "keys = sort (remdups (map canonicalBucket notes))"
  define bucket where "bucket = (\<lambda>k. filter (\<lambda>n. canonicalBucket n = k) notes)"
  define build where "build = (\<lambda>k. BuildClusters cosim (bucket k) (minSim w) (mergeSim w))"
  have "mset (concat (concat (map build ks))) \<subseteq># (\<Sum>k \<leftarrow> ks. mset (bucket k))" for ks
  proof (induction ks)
    case (Cons k ks)
    have "mset (concat (build k)) \<subseteq># mset (bucket k)" unfolding build_def by (rule build_mset)
    with Cons show ?case by (simp add: subset_mset.add_mono)
  qed simp
  moreover have "(\<Sum>k \<leftarrow> keys. mset (bucket k)) = mset (filter (\<lambda>n. canonicalBucket n \<in> set keys) notes)"
    unfolding bucket_def by (rule buckets_mset) (simp add: keys_def)
  moreover have "filter (\<lambda>n. canonicalBucket n \<in> set keys) notes = notes"
    by (auto simp: keys_def filter_id_conv)
  moreover have "fst (canonicalClusters cosim w notes) = concat (map build keys)"
    by (simp add: canonicalClusters_def Let_def keys_def build_def bucket_def)
  ultimately show ?thesis by metis
qed

theorem canonicalClusters_separate:
  "mset (concat (fst (canonicalClusters cosim w notes))) \<subseteq># mset notes \<and>
   list_all (\<lambda>c. list_all (\<lambda>m. canonicalBucket m = canonicalBucket (hd c)) c) (fst (canonicalClusters cosim w notes))"
proof -
  have "canonicalBucket m = canonicalBucket (hd c)"
    if c: "c \<in> set (fst (canonicalClusters cosim w notes))" and m: "m \<in> set c" for c m
  proof -
    from c obtain k where k: "c \<in> set (BuildClusters cosim (filter (\<lambda>n. canonicalBucket n = k) notes) (minSim w) (mergeSim w))"
      by (auto simp: canonicalClusters_def Let_def)
    have all: "canonicalBucket x = k" if "x \<in> set c" for x
    proof -
      have "x \<in> set (concat (BuildClusters cosim (filter (\<lambda>n. canonicalBucket n = k) notes) (minSim w) (mergeSim w)))"
        using k that by auto
      then have "x \<in> set (filter (\<lambda>n. canonicalBucket n = k) notes)"
        using build_mset by (metis mset_subset_eqD set_mset_mset)
      then show ?thesis by simp
    qed
    have "hd c \<in> set c" using m by (cases c) auto
    then show ?thesis using all m by metis
  qed
  then show ?thesis using canonical_mset by (simp add: list_all_iff)
qed

section \<open>The plan\<close>

definition refs_of :: "SourceNote list \<Rightarrow> RawRef list" where
  "refs_of c = map (\<lambda>n. (n_Source n, n_RelPath n)) c"

lemma mset_sort_refs [simp]: "mset (sort_refs rs) = mset rs"
  by (simp add: sort_refs_def)

lemma cluster_refs: "mset (snd (synthesizeCanonicalCluster cd c)) = mset (refs_of c)"
  by (simp add: synthesizeCanonicalCluster_def Let_def refs_of_def split: option.split sum.split prod.split)

lemma cluster_row:
  "fst (synthesizeCanonicalCluster cd c) = Inr row \<Longrightarrow>
     mm_Source row = SourceCanonical \<and> mm_Title row \<noteq> [] \<and> mm_Body row \<noteq> [] \<and> mm_Embedding row = []"
  by (auto simp: synthesizeCanonicalCluster_def Let_def split: option.splits sum.splits if_splits prod.splits)

definition succeeds :: "Codec \<Rightarrow> SourceNote list \<Rightarrow> bool" where
  "succeeds cd c = (case fst (synthesizeCanonicalCluster cd c) of Inl _ \<Rightarrow> False | Inr _ \<Rightarrow> True)"

lemma plan_fold:
  "mset (p_CoverageRefs (fold (plan_cluster cd) cs plan)) =
     mset (p_CoverageRefs plan) + mset (refs_of (concat (filter (succeeds cd) cs)))"
  "length (p_Rows (fold (plan_cluster cd) cs plan)) = length (p_Rows plan) + length (filter (succeeds cd) cs)"
  "p_FailedCount (fold (plan_cluster cd) cs plan) = p_FailedCount plan + length (filter (\<lambda>c. \<not> succeeds cd c) cs)"
  "p_ClusterCount (fold (plan_cluster cd) cs plan) = p_ClusterCount plan"
  "row \<in> set (p_Rows (fold (plan_cluster cd) cs plan)) \<Longrightarrow>
     row \<in> set (p_Rows plan) \<or> (\<exists>c \<in> set cs. fst (synthesizeCanonicalCluster cd c) = Inr row)"
proof (induction cs arbitrary: plan)
  case (Cons c cs)
  obtain r refs where r: "synthesizeCanonicalCluster cd c = (r, refs)" by fastforce
  have refs: "mset refs = mset (refs_of c)" using cluster_refs [of cd c] r by simp
  {
    case 1
    show ?case using Cons(1) refs r
      by (cases r) (simp_all add: plan_cluster_def succeeds_def refs_of_def)
  next
    case 2
    show ?case using Cons(2) r by (cases r) (simp_all add: plan_cluster_def succeeds_def)
  next
    case 3
    show ?case using Cons(3) r by (cases r) (simp_all add: plan_cluster_def succeeds_def)
  next
    case 4
    show ?case using Cons(4) r by (cases r) (simp_all add: plan_cluster_def)
  next
    case 5
    then show ?case using Cons(5) [of "plan_cluster cd c plan"] r
      by (cases r) (auto simp: plan_cluster_def)
  }
qed (simp_all add: refs_of_def)

text \<open>
  The plan accounts for every cluster it took, at most \<open>maxClusters\<close> of them: each gives one
  row or one failure, and the raw references it reports as covered are those of the clusters
  that gave a row, no note being covered twice. Every row is a canonical row with a title and a body.
\<close>

theorem planCanonical_accounts:
  "length (p_Rows (planCanonical cosim cd w notes)) + p_FailedCount (planCanonical cosim cd w notes)
      = p_ClusterCount (planCanonical cosim cd w notes) \<and>
   int (p_ClusterCount (planCanonical cosim cd w notes)) \<le> maxClusters w \<and>
   mset (p_CoverageRefs (planCanonical cosim cd w notes)) \<subseteq># mset (refs_of notes) \<and>
   list_all (\<lambda>row. mm_Source row = SourceCanonical \<and> mm_Title row \<noteq> [] \<and> mm_Body row \<noteq> [])
     (p_Rows (planCanonical cosim cd w notes))"
proof -
  obtain cls guarded where g: "canonicalClusters cosim w notes = (cls, guarded)" by fastforce
  define cs where "cs = take (nat (maxClusters w)) cls"
  define plan0 where "plan0 = \<lparr> p_Rows = [], p_ClusterCount = length cs, p_CoverageRefs = [],
                   p_ConflictSamples = map (\<lambda>n. ''separate guard: '' @ n_RawRefID n) guarded,
                   p_SkippedTopics = [], p_SkippedCount = 0, p_FailedCount = 0,
                   p_ConflictCount = length guarded \<rparr>"
  define plan where "plan = fold (plan_cluster cd) cs plan0"
  have fields: "mset (p_CoverageRefs (planCanonical cosim cd w notes)) = mset (p_CoverageRefs plan)"
    "length (p_Rows (planCanonical cosim cd w notes)) = length (p_Rows plan)"
    "set (p_Rows (planCanonical cosim cd w notes)) = set (p_Rows plan)"
    "p_FailedCount (planCanonical cosim cd w notes) = p_FailedCount plan"
    "p_ClusterCount (planCanonical cosim cd w notes) = p_ClusterCount plan"
    by (simp_all add: planCanonical_def g Let_def plan_def plan0_def cs_def)
  have "length (p_Rows plan) + p_FailedCount plan = length cs"
    using sum_length_filter_compl [of "succeeds cd" cs]
    by (simp add: plan_def plan_fold plan0_def)
  moreover have "p_ClusterCount plan = length cs" by (simp add: plan_def plan_fold plan0_def)
  moreover have "int (length cs) \<le> maxClusters w"
    by (auto simp: cs_def maxClusters_def min_def)
  moreover have "mset (p_CoverageRefs plan) \<subseteq># mset (refs_of notes)"
  proof -
    have "mset (concat (filter P xs)) \<subseteq># mset (concat xs)" for P and xs :: "SourceNote list list"
      by (induction xs) (auto intro: subset_mset.add_increasing)
    moreover have "mset (concat cs) \<subseteq># mset (concat cls)"
      unfolding cs_def by (metis append_take_drop_id concat_append mset_append mset_subset_eq_add_left)
    moreover have "mset (concat cls) \<subseteq># mset notes" using canonical_mset [of cosim w "notes"] g by simp
    ultimately have "mset (concat (filter (succeeds cd) cs)) \<subseteq># mset notes"
      using subset_mset.order_trans by meson
    then have "mset (refs_of (concat (filter (succeeds cd) cs))) \<subseteq># mset (refs_of notes)"
      by (simp add: refs_of_def image_mset_subseteq_mono)
    then show ?thesis by (simp add: plan_def plan_fold plan0_def)
  qed
  moreover have "mm_Source row = SourceCanonical \<and> mm_Title row \<noteq> [] \<and> mm_Body row \<noteq> []"
    if "row \<in> set (p_Rows plan)" for row
    using plan_fold(5) [OF that [unfolded plan_def]] cluster_row by (auto simp: plan0_def)
  ultimately show ?thesis by (simp add: fields list_all_iff)
qed

section \<open>Labels and citations\<close>

text \<open>
  A cluster belongs to a project exactly when it has members and all of them name that same
  project; otherwise it is general.
\<close>

lemma cluster_project_seen:
  "seen \<noteq> [] \<Longrightarrow> cluster_project seen ns =
     (if list_all (\<lambda>n. trim_space (n_Project n) = seen) ns then (seen, ''project'') else ([], ''general''))"
  by (induction ns) (auto simp: Let_def)

theorem clusterProject_shared:
  "clusterProject c = (p, ''project'') \<longleftrightarrow>
     c \<noteq> [] \<and> p \<noteq> [] \<and> list_all (\<lambda>n. trim_space (n_Project n) = p) c"
  by (cases c) (auto simp: clusterProject_def cluster_project_seen Let_def)

text \<open>
  After \<open>ensureCitations\<close> the insight cites every source, and it still starts with the trimmed
  insight of the model.
\<close>

lemma contains_prefix: "str_contains s c \<Longrightarrow> str_contains (s @ t) c"
  by (metis append_assoc str_contains_iff)

definition add_citation :: "string \<Rightarrow> string \<Rightarrow> string" where
  "add_citation i out = (if \<not> str_contains out (citation i) then out @ '' '' @ citation i else out)"

lemma add_citation_self: "str_contains (add_citation i out) (citation i)"
  by (auto simp: add_citation_def str_contains_iff) (metis append_Cons append_Nil append_Nil2 append_assoc)

lemma add_citation_grows: "\<exists>t. add_citation i out = out @ t"
  by (simp add: add_citation_def)

lemma citations_fold:
  "(\<exists>t. fold add_citation ids out = out @ t) \<and>
   list_all (\<lambda>i. str_contains (fold add_citation ids out) (citation i)) ids"
proof (induction ids arbitrary: out)
  case (Cons i ids)
  obtain t u where "add_citation i out = out @ t" "fold add_citation ids (add_citation i out) = add_citation i out @ u"
    using add_citation_grows Cons by blast
  then show ?case using Cons [of "add_citation i out"] add_citation_self [of i out] contains_prefix [of "out @ t" "citation i" u]
    by auto
qed simp

theorem ensureCitations_complete:
  "list_all (\<lambda>i. str_contains (ensureCitations insight ids) (citation i)) ids \<and>
   has_prefix (ensureCitations insight ids) (trim_space insight)"
proof -
  have "trim_right_of (\<lambda>c. c = CHR '' '') (trim_space insight) = trim_space insight"
  proof -
    have "trimmed (trim_space insight)" by simp
    then have "dropWhile (\<lambda>c. c = CHR '' '') (rev (trim_space insight)) = rev (trim_space insight)"
      by (auto simp: dropWhile_fixed trimmed_def hd_rev is_space_def byte_def)
    then show ?thesis by (simp add: trim_right_of_def)
  qed
  then have "ensureCitations insight ids = fold add_citation ids (trim_space insight)"
    by (simp add: ensureCitations_def add_citation_def [abs_def])
  then show ?thesis using citations_fold [of ids "trim_space insight"]
    by (auto simp: has_prefix_iff)
qed

end
