(* ===== verification/Secrets.thy ===== *)
theory Secrets
  imports Utf8
begin

text \<open>
  Detection and redaction of secrets (\<open>internal/secrets/secrets.go\<close>). The rules are a parameter:
  \<open>rl_find\<close> stands for \<open>FindAllStringSubmatchIndex\<close> of a rule's regular expression (one list of
  groups per match, group 0 the whole match), \<open>is_fixture\<close> for the deny-list of test fixtures.
  Offsets are byte offsets.
\<close>

section \<open>Rules and matches\<close>

abbreviation ConfidenceDefinite :: string where "ConfidenceDefinite \<equiv> ''definite''"
abbreviation ConfidenceCandidate :: string where "ConfidenceCandidate \<equiv> ''candidate''"

record Match =
  ma_Rule :: string
  ma_Confidence :: string
  ma_Start :: nat
  ma_End :: nat
  ma_Index :: nat
  ma_Redacted :: string

record rule =
  rl_name :: string
  rl_confidence :: string
  rl_prefilters :: "string list"
  rl_find :: "string \<Rightarrow> (nat \<times> nat) option list list"
  rl_group :: nat
  rl_validate :: "(string \<Rightarrow> bool) option"
  rl_mask :: "string \<Rightarrow> string"

definition slice :: "string \<Rightarrow> nat \<Rightarrow> nat \<Rightarrow> string" where
  "slice text s e = take (e - s) (drop s text)"

definition hasPrefilter :: "string \<Rightarrow> string list \<Rightarrow> bool" where
  "hasPrefilter text prefilters = (prefilters = [] \<or> list_ex (str_contains text) prefilters)"

definition match_at :: "rule \<Rightarrow> string \<Rightarrow> (nat \<times> nat) option list \<Rightarrow> Match list" where
  "match_at r text loc =
     (case (if rl_group r > 0 then loc ! rl_group r else loc ! 0) of
        None \<Rightarrow> []
      | Some (s, e) \<Rightarrow>
          (let sp = slice text s e in
           if (case rl_validate r of None \<Rightarrow> False | Some valid \<Rightarrow> \<not> valid sp) then []
           else [\<lparr>ma_Rule = rl_name r, ma_Confidence = rl_confidence r, ma_Start = s, ma_End = e,
                  ma_Index = 0, ma_Redacted = rl_mask r sp\<rparr>]))"

definition rule_matches :: "string \<Rightarrow> rule \<Rightarrow> Match list" where
  "rule_matches text r =
     (if \<not> hasPrefilter text (rl_prefilters r) then [] else concat (map (match_at r text) (rl_find r text)))"

text \<open>
  Sorted by start, then by descending end: a stable sort by the minor key comes first. \<open>sort.Slice\<close> is not stable:
  matches of two rules with the same span may come in the other order there.
\<close>

definition sort_matches :: "Match list \<Rightarrow> Match list" where
  "sort_matches ms = sort_key ma_Start (sort_key (\<lambda>m. - int (ma_End m)) ms)"

definition scanRulesRaw :: "string \<Rightarrow> rule list \<Rightarrow> Match list" where
  "scanRulesRaw text rs = sort_matches (concat (map (rule_matches text) rs))"

definition scanRaw :: "rule list \<Rightarrow> string \<Rightarrow> Match list" where
  "scanRaw rules text = scanRulesRaw text rules"

definition overlapsAny :: "Match \<Rightarrow> Match list \<Rightarrow> bool" where
  "overlapsAny m others = list_ex (\<lambda>x. ma_Start m < ma_End x \<and> ma_Start x < ma_End m) others"

definition containedInLongerCandidate :: "Match \<Rightarrow> Match list \<Rightarrow> bool" where
  "containedInLongerCandidate m raw =
     list_ex (\<lambda>x. ma_Confidence x = ConfidenceCandidate \<and> ma_Start x \<le> ma_Start m \<and> ma_End x \<ge> ma_End m \<and>
       (ma_Start x < ma_Start m \<or> ma_End x > ma_End m)) raw"

fun number :: "nat \<Rightarrow> Match list \<Rightarrow> Match list" where
  "number i [] = []"
| "number i (m # ms) = m\<lparr>ma_Index := i\<rparr> # number (i + 1) ms"

definition denied :: "bool \<Rightarrow> (string \<Rightarrow> bool) \<Rightarrow> string \<Rightarrow> Match \<Rightarrow> bool" where
  "denied deny is_fixture text m = (deny \<and> is_fixture (slice text (ma_Start m) (ma_End m)))"

definition Scan :: "rule list \<Rightarrow> bool \<Rightarrow> (string \<Rightarrow> bool) \<Rightarrow> string \<Rightarrow> Match list" where
  "Scan rules deny is_fixture text =
     (let raw = scanRaw rules text;
          defs = filter (\<lambda>m. ma_Confidence m = ConfidenceDefinite) raw in
      number 0 (filter (\<lambda>m.
        \<not> (ma_Confidence m = ConfidenceCandidate \<and> (overlapsAny m defs \<or> containedInLongerCandidate m raw)) \<and>
        \<not> denied deny is_fixture text m) raw))"

text \<open>\<open>definiteRules\<close> are the rules of definite confidence.\<close>

definition definiteRules :: "rule list \<Rightarrow> rule list" where
  "definiteRules rules = filter (\<lambda>r. rl_confidence r = ConfidenceDefinite) rules"

definition ScanDefinite :: "rule list \<Rightarrow> bool \<Rightarrow> (string \<Rightarrow> bool) \<Rightarrow> string \<Rightarrow> Match list" where
  "ScanDefinite rules deny is_fixture text =
     number 0 (filter (\<lambda>m. \<not> denied deny is_fixture text m) (scanRulesRaw text (definiteRules rules)))"

section \<open>Redaction\<close>

abbreviation bullet :: string where "bullet \<equiv> [CHR 0xE2, CHR 0x80, CHR 0xA2]"

definition maskKeepEnds :: "string \<Rightarrow> nat \<Rightarrow> nat \<Rightarrow> string" where
  "maskKeepEnds s pre suf =
     (let r = runes s in
      if length r \<le> pre + suf then concat (replicate (length r) bullet)
      else concat (take pre r) @ [CHR 0xE2, CHR 0x80, CHR 0xA6] @ concat (drop (length r - suf) r))"

type_synonym sp = "nat \<times> nat \<times> string"

text \<open>One step of the merge; the spans so far, the last one first.\<close>

fun merge_span :: "string \<Rightarrow> sp list \<Rightarrow> Match \<Rightarrow> sp list" where
  "merge_span text [] m = [(ma_Start m, ma_End m, ma_Redacted m)]"
| "merge_span text ((s, e, rep) # spans) m =
     (if ma_Start m < e
      then if ma_End m > e then (s, ma_End m, maskKeepEnds (slice text s (ma_End m)) 0 4) # spans
           else (s, e, rep) # spans
      else (ma_Start m, ma_End m, ma_Redacted m) # (s, e, rep) # spans)"

fun render :: "string \<Rightarrow> nat \<Rightarrow> sp list \<Rightarrow> string" where
  "render text prev [] = drop prev text"
| "render text prev ((s, e, rep) # spans) = slice text prev s @ rep @ render text e spans"

definition redactSpans :: "string \<Rightarrow> Match list \<Rightarrow> string" where
  "redactSpans text raw =
     (if raw = [] then text else render text 0 (rev (foldl (merge_span text) [] raw)))"

definition Redact :: "rule list \<Rightarrow> string \<Rightarrow> string" where
  "Redact rules text = redactSpans text (scanRaw rules text)"

text \<open>One pass of \<open>expandToCoverSecrets\<close>, and the passes until none grows the window.\<close>

fun widen :: "Match list \<Rightarrow> nat \<times> nat \<Rightarrow> nat \<times> nat" where
  "widen [] w = w"
| "widen (m # ms) (lo, hi) =
     widen ms (if ma_Start m < hi \<and> lo < ma_End m then (min lo (ma_Start m), max hi (ma_End m)) else (lo, hi))"

definition last_end :: "Match list \<Rightarrow> nat" where
  "last_end ms = Max (insert 0 (set (map ma_End ms)))"

lemma widen_bounds:
  "widen ms (lo, hi) = (lo', hi') \<Longrightarrow> set ms \<subseteq> set all \<Longrightarrow> lo' \<le> lo \<and> hi \<le> hi' \<and> (hi' = hi \<or> hi' \<le> last_end all)"
proof (induction ms arbitrary: lo hi)
  case (Cons m ms)
  define w where "w = (if ma_Start m < hi \<and> lo < ma_End m then (min lo (ma_Start m), max hi (ma_End m)) else (lo, hi))"
  obtain l h where lh: "w = (l, h)" by (cases w)
  have "ma_End m \<le> last_end all" using Cons.prems(2) by (auto simp: last_end_def intro: Max_ge)
  then have "l \<le> lo \<and> hi \<le> h \<and> (h = hi \<or> h \<le> last_end all)"
    using lh by (auto simp: w_def max_def split: if_splits)
  moreover have "widen ms (l, h) = (lo', hi')" using Cons.prems(1) lh by (simp add: w_def)
  ultimately show ?case using Cons.IH [of l h] Cons.prems(2) by auto
qed simp

function expandToCoverSecrets :: "Match list \<Rightarrow> nat \<times> nat \<Rightarrow> nat \<times> nat" where
  "expandToCoverSecrets ms w = (if widen ms w = w then w else expandToCoverSecrets ms (widen ms w))"
  by pat_completeness auto
termination
proof (relation "measure (\<lambda>(ms, lo, hi). lo + (last_end ms - hi))")
  fix ms w
  assume grew: "widen ms w \<noteq> w"
  obtain lo hi where w: "w = (lo, hi)" by (cases w)
  obtain lo' hi' where w': "widen ms w = (lo', hi')" by fastforce
  have "lo' \<le> lo \<and> hi \<le> hi' \<and> (hi' = hi \<or> hi' \<le> last_end ms)"
    using widen_bounds [of ms lo hi lo' hi' ms] w w' by simp
  then have "lo' + (last_end ms - hi') < lo + (last_end ms - hi)"
    using grew w w' by auto
  then show "((ms, widen ms w), ms, w) \<in> measure (\<lambda>(ms, lo, hi). lo + (last_end ms - hi))"
    using w w' by simp
qed simp

declare expandToCoverSecrets.simps [simp del]

definition RedactWindow :: "rule list \<Rightarrow> string \<Rightarrow> int \<Rightarrow> int \<Rightarrow> string" where
  "RedactWindow rules full lo hi =
     (let lo = (if lo < 0 then 0 else lo);
          hi = (if hi > int (length full) then int (length full) else hi) in
      if lo \<ge> hi then []
      else let raw = scanRaw rules full;
               (lo, hi) = expandToCoverSecrets raw (nat lo, nat hi);
               windowed = map (\<lambda>m. m\<lparr>ma_Start := ma_Start m - lo, ma_End := ma_End m - lo\<rparr>)
                            (filter (\<lambda>m. ma_Start m \<ge> lo \<and> ma_End m \<le> hi) raw) in
           redactSpans (slice full lo hi) windowed)"

section \<open>Scanning only the definite rules\<close>

definition unindexed :: "Match \<Rightarrow> Match" where
  "unindexed m = m\<lparr>ma_Index := 0\<rparr>"

definition definite :: "Match \<Rightarrow> bool" where
  "definite m \<longleftrightarrow> ma_Confidence m = ConfidenceDefinite"

lemma number_unindexed: "map unindexed (number i ms) = map unindexed ms"
  by (induction i ms rule: number.induct) (simp_all add: unindexed_def)

lemma definite_unindexed [simp]: "definite (unindexed m) = definite m"
  by (simp add: definite_def unindexed_def)

lemma rule_confidence: "m \<in> set (rule_matches text r) \<Longrightarrow> ma_Confidence m = rl_confidence r"
  by (auto simp: rule_matches_def match_at_def Let_def split: if_splits option.splits)

lemma filter_rules:
  "filter definite (concat (map (rule_matches text) rs)) = concat (map (rule_matches text) (definiteRules rs))"
proof (induction rs)
  case (Cons r rs)
  have "filter definite (rule_matches text r) = (if rl_confidence r = ConfidenceDefinite then rule_matches text r else [])"
    using rule_confidence by (auto simp: definite_def filter_id_conv filter_empty_conv)
  with Cons show ?case by (simp add: definiteRules_def)
qed (simp add: definiteRules_def)

lemma filter_sort_matches: "filter P (sort_matches ms) = sort_matches (filter P ms)"
  by (simp add: sort_matches_def filter_sort)

lemma raw_definite: "filter definite (scanRaw rules text) = scanRulesRaw text (definiteRules rules)"
  by (simp add: scanRaw_def scanRulesRaw_def filter_sort_matches filter_rules)

text \<open>
  The fast scan is exact: \<open>ScanDefinite\<close> finds, in the same order, exactly the definite
  findings of \<open>Scan\<close>; suppression never touches a definite finding.
\<close>

theorem ScanDefinite_exact:
  "map unindexed (ScanDefinite rules deny is_fixture text)
     = filter definite (map unindexed (Scan rules deny is_fixture text))"
proof -
  define raw where "raw = scanRaw rules text"
  define keep where "keep = (\<lambda>m. \<not> (ma_Confidence m = ConfidenceCandidate \<and>
      (overlapsAny m (filter (\<lambda>m. ma_Confidence m = ConfidenceDefinite) raw) \<or> containedInLongerCandidate m raw)))"
  have keep: "keep m" if "definite m" for m
    using that by (simp add: keep_def definite_def)
  have "filter definite (map unindexed (Scan rules deny is_fixture text))
      = filter definite (map unindexed (filter (\<lambda>m. keep m \<and> \<not> denied deny is_fixture text m) raw))"
    by (simp add: Scan_def Let_def number_unindexed raw_def [symmetric] keep_def)
  also have "\<dots> = map unindexed (filter (\<lambda>m. definite m \<and> keep m \<and> \<not> denied deny is_fixture text m) raw)"
    by (simp add: filter_map comp_def conj_commute)
  also have "\<dots> = map unindexed (filter (\<lambda>m. \<not> denied deny is_fixture text m) (filter definite raw))"
    using keep by (simp add: conj_commute cong: conj_cong)
  also have "\<dots> = map unindexed (ScanDefinite rules deny is_fixture text)"
    by (simp add: ScanDefinite_def number_unindexed raw_def raw_definite)
  finally show ?thesis ..
qed

section \<open>What suppression may drop\<close>

lemma scanRaw_index: "m \<in> set (scanRaw rules text) \<Longrightarrow> unindexed m = m"
  by (auto simp: scanRaw_def scanRulesRaw_def sort_matches_def rule_matches_def match_at_def unindexed_def Let_def
      split: if_splits option.splits)

definition reported :: "rule list \<Rightarrow> bool \<Rightarrow> (string \<Rightarrow> bool) \<Rightarrow> string \<Rightarrow> Match \<Rightarrow> bool" where
  "reported rules deny is_fixture text m \<longleftrightarrow> unindexed m \<in> set (map unindexed (Scan rules deny is_fixture text))"

definition definites :: "Match list \<Rightarrow> Match list" where
  "definites raw = filter definite raw"

lemma reported_iff:
  assumes "m \<in> set (scanRaw rules text)"
  shows "reported rules deny is_fixture text m \<longleftrightarrow>
    \<not> (ma_Confidence m = ConfidenceCandidate \<and>
        (overlapsAny m (definites (scanRaw rules text)) \<or> containedInLongerCandidate m (scanRaw rules text))) \<and>
    \<not> denied deny is_fixture text m"
proof -
  define keep where "keep = (\<lambda>m. \<not> (ma_Confidence m = ConfidenceCandidate \<and>
      (overlapsAny m (definites (scanRaw rules text)) \<or> containedInLongerCandidate m (scanRaw rules text))) \<and>
      \<not> denied deny is_fixture text m)"
  have "map unindexed (Scan rules deny is_fixture text) = map unindexed (filter keep (scanRaw rules text))"
    by (simp add: Scan_def Let_def number_unindexed keep_def definites_def definite_def [abs_def])
  also have "\<dots> = filter keep (scanRaw rules text)"
    by (rule map_idI) (auto dest: scanRaw_index)
  finally show ?thesis
    using assms by (simp add: reported_def scanRaw_index) (simp add: keep_def)
qed

lemma suppression_reason:
  "list_all (\<lambda>m. list_ex (\<lambda>x. ma_Start x \<le> ma_Start m \<and> ma_End m \<le> ma_End x \<and>
      (reported rules deny is_fixture text x \<or> denied deny is_fixture text x \<or>
       overlapsAny x (definites (scanRaw rules text)))) (scanRaw rules text)) (scanRaw rules text)"
  unfolding list_all_iff list_ex_iff
proof
  let ?raw = "scanRaw rules text"
  let ?width = "\<lambda>x. int (ma_End x) - int (ma_Start x)"
  fix m assume m: "m \<in> set ?raw"
  define outer where "outer = {x \<in> set ?raw. ma_Start x \<le> ma_Start m \<and> ma_End m \<le> ma_End x}"
  have fin: "finite (?width ` outer)" "?width ` outer \<noteq> {}" using m by (auto simp: outer_def)
  obtain x where x: "x \<in> outer" "?width x = Max (?width ` outer)"
    using Max_in [OF fin] by (metis (no_types, lifting) imageE)
  then have widest: "?width y \<le> ?width x" if "y \<in> outer" for y
    using Max_ge [OF fin(1), of "?width y"] that by simp
  have "\<not> containedInLongerCandidate x ?raw"
  proof
    assume "containedInLongerCandidate x ?raw"
    then obtain y where y: "y \<in> set ?raw" "ma_Start y \<le> ma_Start x" "ma_End x \<le> ma_End y"
      "ma_Start y < ma_Start x \<or> ma_End x < ma_End y"
      by (auto simp: containedInLongerCandidate_def list_ex_iff)
    have "y \<in> outer" using x y by (auto simp: outer_def)
    then have "?width y \<le> ?width x" by (rule widest)
    with y(2-4) show False by auto
  qed
  then have "reported rules deny is_fixture text x \<or> denied deny is_fixture text x \<or> overlapsAny x (definites ?raw)"
    using x reported_iff [of x rules "text"] by (auto simp: outer_def)
  with x show "\<exists>x \<in> set ?raw. ma_Start x \<le> ma_Start m \<and> ma_End m \<le> ma_End x \<and>
      (reported rules deny is_fixture text x \<or> denied deny is_fixture text x \<or> overlapsAny x (definites ?raw))"
    by (auto simp: outer_def)
qed

lemma definite_reported:
  assumes "m \<in> set (scanRaw rules text)" "definite m"
  shows "reported rules deny is_fixture text m \<longleftrightarrow> \<not> denied deny is_fixture text m"
  using assms by (simp add: reported_iff definite_def)

lemma Scan_empty_raw:
  assumes "Scan rules deny is_fixture text = []"
    and "list_all (\<lambda>m. \<not> denied deny is_fixture text m) (scanRaw rules text)"
  shows "scanRaw rules text = []"
proof (rule ccontr)
  assume "scanRaw rules text \<noteq> []"
  then obtain m where "m \<in> set (scanRaw rules text)" using hd_in_set by blast
  then obtain x where x: "x \<in> set (scanRaw rules text)"
    "reported rules deny is_fixture text x \<or> overlapsAny x (definites (scanRaw rules text))"
    using suppression_reason [of rules deny is_fixture "text"] assms(2)
    by (auto simp: list_all_iff list_ex_iff)
  moreover have none: "\<not> reported rules deny is_fixture text y" for y
    by (simp add: reported_def assms(1))
  ultimately obtain y where "y \<in> set (scanRaw rules text)" "definite y"
    by (auto simp: overlapsAny_def definites_def list_ex_iff)
  then show False
    using none [of y] definite_reported [of y rules "text" deny is_fixture] assms(2) by (simp add: list_all_iff)
qed

text \<open>
  Suppression loses no span without a reason: every match of every rule lies inside a match that
  \<open>Scan\<close> reports, or that is a known fixture, or that overlaps a definite match. So with the fixture
  list off, \<open>Scan\<close> is empty only when no rule matches at all.
\<close>

theorem Scan_suppression_sound:
  "list_all (\<lambda>m. list_ex (\<lambda>x. ma_Start x \<le> ma_Start m \<and> ma_End m \<le> ma_End x \<and>
      (reported rules deny is_fixture text x \<or> denied deny is_fixture text x \<or>
       overlapsAny x (definites (scanRaw rules text)))) (scanRaw rules text)) (scanRaw rules text)"
  by (rule suppression_reason)

section \<open>Every secret is covered\<close>

text \<open>Spans in the text that do not overlap, first to last.\<close>

definition disjoint_spans :: "nat \<Rightarrow> sp list \<Rightarrow> bool" where
  "disjoint_spans n spans \<longleftrightarrow> sorted_wrt (\<lambda>(_, e, _) (s, _, _). e \<le> s) spans \<and>
     (\<forall>(s, e, _) \<in> set spans. s \<le> e \<and> e \<le> n)"

definition covers :: "sp list \<Rightarrow> Match \<Rightarrow> bool" where
  "covers spans m \<longleftrightarrow> (\<exists>(s, e, _) \<in> set spans. s \<le> ma_Start m \<and> ma_End m \<le> e)"

text \<open>What stands for a span: the mask of the one match it is, or the generic mask of its text.\<close>

definition masked :: "string \<Rightarrow> Match list \<Rightarrow> sp \<Rightarrow> bool" where
  "masked text ms = (\<lambda>(s, e, rep).
     (\<exists>m \<in> set ms. ma_Start m = s \<and> ma_End m = e \<and> ma_Redacted m = rep) \<or>
     rep = maskKeepEnds (slice text s e) 0 4)"

definition in_text :: "nat \<Rightarrow> Match list \<Rightarrow> bool" where
  "in_text n ms \<longleftrightarrow> list_all (\<lambda>m. ma_Start m \<le> ma_End m \<and> ma_End m \<le> n) ms"

definition merge_inv :: "string \<Rightarrow> Match list \<Rightarrow> sp list \<Rightarrow> bool" where
  "merge_inv text ms acc \<longleftrightarrow> disjoint_spans (length text) (rev acc) \<and> (\<forall>m \<in> set ms. covers acc m) \<and>
     (\<forall>x \<in> set acc. masked text ms x) \<and> (acc \<noteq> [] \<longrightarrow> (\<exists>m \<in> set ms. fst (hd acc) \<le> ma_Start m))"

lemma merge_span_cases:
  assumes "acc = (s, e, rep) # rest"
  shows "merge_span text acc m =
    (if e \<le> ma_Start m then (ma_Start m, ma_End m, ma_Redacted m) # acc
     else if ma_End m \<le> e then acc
     else (s, ma_End m, maskKeepEnds (slice text s (ma_End m)) 0 4) # rest)"
  using assms by simp

lemma disjoint_snoc:
  "disjoint_spans n (xs @ [(s, e, r)]) \<longleftrightarrow> disjoint_spans n xs \<and> s \<le> e \<and> e \<le> n \<and> (\<forall>(_, e', _) \<in> set xs. e' \<le> s)"
  by (auto simp: disjoint_spans_def sorted_wrt_append)

lemma masked_mono: "masked text ms x \<Longrightarrow> set ms \<subseteq> set ms' \<Longrightarrow> masked text ms' x"
  by (cases x) (auto simp: masked_def)

lemma merge_step:
  assumes inv: "merge_inv text ms acc" and m: "ma_Start m \<le> ma_End m" "ma_End m \<le> length text"
    and sorted: "\<forall>k \<in> set ms. ma_Start k \<le> ma_Start m"
  shows "merge_inv text (ms @ [m]) (merge_span text acc m)"
proof (cases acc)
  case Nil
  then have "ms = []" using inv by (cases ms) (auto simp: merge_inv_def covers_def)
  then show ?thesis using Nil m by (simp add: merge_inv_def disjoint_spans_def covers_def masked_def)
next
  case (Cons last rest)
  obtain s e rep where "last = (s, e, rep)" by (metis prod_cases3)
  then have acc: "acc = (s, e, rep) # rest" using Cons by simp
  have dis: "disjoint_spans (length text) (rev rest)" "s \<le> e" "e \<le> length text" "\<forall>(_, e', _) \<in> set rest. e' \<le> s"
    using inv by (auto simp: merge_inv_def acc disjoint_snoc)
  obtain k where k: "k \<in> set ms" "s \<le> ma_Start k" using inv by (auto simp: merge_inv_def acc)
  then have sm: "s \<le> ma_Start m" using sorted by fastforce
  have cov: "\<forall>k \<in> set ms. covers ((s, e, rep) # rest) k" and msk: "\<forall>x \<in> set rest. masked text (ms @ [m]) x"
    "masked text (ms @ [m]) (s, e, rep)"
  proof -
    have "masked text (ms @ [m]) x" if "masked text ms x" for x
      using that by (rule masked_mono) auto
    then show "\<forall>k \<in> set ms. covers ((s, e, rep) # rest) k" "\<forall>x \<in> set rest. masked text (ms @ [m]) x"
      "masked text (ms @ [m]) (s, e, rep)"
      using inv by (auto simp: merge_inv_def acc)
  qed
  consider "e \<le> ma_Start m" | "\<not> e \<le> ma_Start m" "ma_End m \<le> e" | "\<not> e \<le> ma_Start m" "\<not> ma_End m \<le> e" by blast
  then show ?thesis
  proof cases
    case 1
    have res: "merge_span text acc m = (ma_Start m, ma_End m, ma_Redacted m) # acc"
      using merge_span_cases [OF acc] 1 by simp
    have "disjoint_spans (length text) (rev acc @ [(ma_Start m, ma_End m, ma_Redacted m)])"
      proof -
      have "\<forall>(_, e', _) \<in> set (rev acc). e' \<le> ma_Start m"
        using dis(2,4) 1 by (auto simp: acc)
      then show ?thesis using inv m by (simp add: disjoint_snoc merge_inv_def)
    qed
    moreover have "\<forall>k \<in> set (ms @ [m]). covers ((ma_Start m, ma_End m, ma_Redacted m) # acc) k"
      using cov by (auto simp: covers_def acc)
    moreover have "masked text (ms @ [m]) (ma_Start m, ma_End m, ma_Redacted m)"
      by (auto simp: masked_def)
    ultimately show ?thesis unfolding merge_inv_def res using msk by (simp add: acc)
  next
    case 2
    have res: "merge_span text acc m = acc" using merge_span_cases [OF acc] 2 by simp
    have "covers acc m" using 2 sm by (auto simp: covers_def acc)
    then show ?thesis unfolding merge_inv_def res using inv cov msk sm by (auto simp: merge_inv_def acc)
  next
    case 3
    let ?new = "(s, ma_End m, maskKeepEnds (slice text s (ma_End m)) 0 4)"
    have res: "merge_span text acc m = ?new # rest" using merge_span_cases [OF acc] 3 by simp
    have "disjoint_spans (length text) (rev rest @ [?new])"
      using dis m 3 by (auto simp: disjoint_snoc)
    moreover have "covers (?new # rest) k" if "k \<in> set (ms @ [m])" for k
    proof (cases "k = m")
      case True
      then show ?thesis using sm by (auto simp: covers_def)
    next
      case False
      then have "covers ((s, e, rep) # rest) k" using cov that by auto
      then show ?thesis using 3(2) by (auto simp: covers_def)
    qed
    moreover have "masked text (ms @ [m]) ?new" by (simp add: masked_def)
    ultimately show ?thesis unfolding merge_inv_def res using msk sm by auto
  qed
qed

lemma merge_all:
  assumes "sorted (map ma_Start ms)" "in_text (length text) ms"
  shows "merge_inv text ms (foldl (merge_span text) [] ms)"
  using assms
proof (induction ms rule: rev_induct)
  case (snoc m ms)
  then show ?case
    by (simp add: sorted_append in_text_def) (intro merge_step; simp)
qed (simp add: merge_inv_def disjoint_spans_def)

lemma redactSpans_covers:
  assumes "sorted (map ma_Start ms)" "in_text (length text) ms"
  shows "\<exists>spans. redactSpans text ms = render text 0 spans \<and> disjoint_spans (length text) spans \<and>
    list_all (covers spans) ms \<and> list_all (masked text ms) spans"
proof -
  define acc where "acc = foldl (merge_span text) [] ms"
  have "merge_inv text ms acc" unfolding acc_def using assms by (rule merge_all)
  moreover have "redactSpans text ms = render text 0 (rev acc)"
    by (simp add: redactSpans_def acc_def)
  moreover have "covers (rev acc) = covers acc" by (simp add: covers_def fun_eq_iff)
  ultimately show ?thesis
    by (intro exI [of _ "rev acc"]) (simp add: merge_inv_def list_all_iff)
qed

lemma sorted_scanRaw: "sorted (map ma_Start (scanRaw rules text))"
  by (simp add: scanRaw_def scanRulesRaw_def sort_matches_def)

text \<open>
  C27. \<open>Redact\<close> leaves no secret: the result is the text with disjoint spans replaced and the rest
  copied, every match lies entirely inside one replaced span, and a replaced span shows only the
  mask of the match it is, or the generic mask when it was merged.
\<close>

theorem Redact_covers_secrets:
  assumes "in_text (length text) (scanRaw rules text)"
  shows "\<exists>spans. Redact rules text = render text 0 spans \<and> disjoint_spans (length text) spans \<and>
    list_all (covers spans) (scanRaw rules text) \<and> list_all (masked text (scanRaw rules text)) spans"
  unfolding Redact_def using sorted_scanRaw assms by (rule redactSpans_covers)

section \<open>Windows\<close>

text \<open>No match straddles an edge of the window.\<close>

definition settled :: "Match list \<Rightarrow> nat \<times> nat \<Rightarrow> bool" where
  "settled ms = (\<lambda>(lo, hi). list_all (\<lambda>m. ma_Start m < hi \<and> lo < ma_End m \<longrightarrow> lo \<le> ma_Start m \<and> ma_End m \<le> hi) ms)"

lemma widen_fixed: "widen ms (lo, hi) = (lo, hi) \<Longrightarrow> settled ms (lo, hi)"
proof (induction ms)
  case (Cons m ms)
  define w where "w = (if ma_Start m < hi \<and> lo < ma_End m then (min lo (ma_Start m), max hi (ma_End m)) else (lo, hi))"
  obtain l h where lh: "w = (l, h)" by (cases w)
  have rest: "widen ms (l, h) = (lo, hi)" using Cons.prems lh by (simp add: w_def)
  then have "lo \<le> l \<and> h \<le> hi" using widen_bounds [OF rest subset_refl] by blast
  then have eq: "l = lo" "h = hi" using lh by (auto simp: w_def split: if_splits)
  then have "settled ms (lo, hi)" using Cons.IH rest by simp
  moreover have "ma_Start m < hi \<and> lo < ma_End m \<longrightarrow> lo \<le> ma_Start m \<and> ma_End m \<le> hi"
    using lh eq by (auto simp: w_def split: if_splits)
  ultimately show ?case by (simp add: settled_def)
qed (simp add: settled_def)

lemma expand_correct:
  "expandToCoverSecrets ms (lo, hi) = (lo', hi') \<Longrightarrow>
     settled ms (lo', hi') \<and> lo' \<le> lo \<and> hi \<le> hi' \<and> (hi' = hi \<or> hi' \<le> last_end ms)"
proof (induction ms "(lo, hi)" arbitrary: lo hi rule: expandToCoverSecrets.induct)
  case (1 ms)
  show ?case
  proof (cases "widen ms (lo, hi) = (lo, hi)")
    case True
    then have "(lo', hi') = (lo, hi)" using 1(2) by (simp add: expandToCoverSecrets.simps [of ms "(lo, hi)"])
    then show ?thesis using widen_fixed [OF True] by simp
  next
    case False
    obtain l h where w: "widen ms (lo, hi) = (l, h)" by fastforce
    have "expandToCoverSecrets ms (lo, hi) = expandToCoverSecrets ms (l, h)"
      using False w by (subst expandToCoverSecrets.simps) auto
    then have "expandToCoverSecrets ms (l, h) = (lo', hi')" using 1(2) by simp
    then have "settled ms (lo', hi') \<and> lo' \<le> l \<and> h \<le> hi' \<and> (hi' = h \<or> hi' \<le> last_end ms)"
      using 1(1) [OF False] w by simp
    then show ?thesis using widen_bounds [OF w subset_refl] by auto
  qed
qed

text \<open>Every byte of a range belongs to a match.\<close>

definition all_matched :: "Match list \<Rightarrow> nat \<Rightarrow> nat \<Rightarrow> bool" where
  "all_matched ms a b \<longleftrightarrow> (\<forall>i. a \<le> i \<and> i < b \<longrightarrow> (\<exists>m \<in> set ms. ma_Start m \<le> i \<and> i < ma_End m))"

text \<open>A span replaces bytes of matches only.\<close>

definition tight :: "Match list \<Rightarrow> sp \<Rightarrow> bool" where
  "tight ms = (\<lambda>(s, e, rep). all_matched ms s e)"

lemma all_matched_empty [simp]: "b \<le> a \<Longrightarrow> all_matched ms a b"
  by (auto simp: all_matched_def)

lemma all_matched_mono: "all_matched ms a b \<Longrightarrow> set ms \<subseteq> set ms' \<Longrightarrow> all_matched ms' a b"
  by (auto simp: all_matched_def)

lemma all_matched_join: "all_matched ms a b \<Longrightarrow> all_matched ms c d \<Longrightarrow> c \<le> b \<Longrightarrow> all_matched ms a d"
  unfolding all_matched_def by (meson le_less_linear order_trans)

lemma all_matched_self: "m \<in> set ms \<Longrightarrow> all_matched ms (ma_Start m) (ma_End m)"
  by (auto simp: all_matched_def)

lemma merge_tight: "\<forall>x \<in> set (foldl (merge_span text) [] ms). tight ms x"
proof (induction ms rule: rev_induct)
  case (snoc m ms)
  define acc where "acc = foldl (merge_span text) [] ms"
  have old: "\<forall>x \<in> set acc. tight (ms @ [m]) x" using snoc by (auto simp: tight_def acc_def intro: all_matched_mono)
  have self: "all_matched (ms @ [m]) (ma_Start m) (ma_End m)" by (rule all_matched_self) simp
  have "\<forall>x \<in> set (merge_span text acc m). tight (ms @ [m]) x"
  proof (cases acc)
    case Nil
    then show ?thesis using self by (simp add: tight_def)
  next
    case (Cons last rest)
    obtain s e rep where l: "last = (s, e, rep)" by (metis prod_cases3)
    have "all_matched (ms @ [m]) s e" using old Cons l by (simp add: tight_def)
    then show ?thesis using old Cons l self all_matched_join [OF _ self, of s e] by (auto simp: tight_def)
  qed
  then show ?case by (simp add: acc_def)
qed simp

lemma redactSpans_exact:
  assumes "sorted (map ma_Start ms)" "in_text (length text) ms"
  shows "\<exists>spans. redactSpans text ms = render text 0 spans \<and> disjoint_spans (length text) spans \<and>
    list_all (covers spans) ms \<and> list_all (masked text ms) spans \<and> list_all (tight ms) spans"
proof -
  define acc where "acc = foldl (merge_span text) [] ms"
  have "merge_inv text ms acc" unfolding acc_def using assms by (rule merge_all)
  moreover have "redactSpans text ms = render text 0 (rev acc)"
    by (simp add: redactSpans_def acc_def)
  moreover have "covers (rev acc) = covers acc" by (simp add: covers_def fun_eq_iff)
  ultimately show ?thesis
    using merge_tight [of "text" ms] by (intro exI [of _ "rev acc"]) (simp add: merge_inv_def list_all_iff acc_def)
qed

text \<open>The window is widened by bytes of matches only.\<close>

lemma widen_tight:
  "widen ms (lo, hi) = (lo', hi') \<Longrightarrow> set ms \<subseteq> set all \<Longrightarrow>
     all_matched all lo' lo \<and> all_matched all hi hi'"
proof (induction ms arbitrary: lo hi)
  case (Cons m ms)
  define w where "w = (if ma_Start m < hi \<and> lo < ma_End m then (min lo (ma_Start m), max hi (ma_End m)) else (lo, hi))"
  obtain l h where lh: "w = (l, h)" by (cases w)
  have self: "all_matched all (ma_Start m) (ma_End m)" using Cons.prems(2) by (intro all_matched_self) auto
  have step: "all_matched all l lo" "all_matched all hi h"
    using lh self by (auto simp: w_def all_matched_def split: if_splits)
  have "widen ms (l, h) = (lo', hi')" using Cons.prems(1) lh by (simp add: w_def)
  then have "all_matched all lo' l \<and> all_matched all h hi'"
    using Cons.IH [of l h] Cons.prems(2) by simp
  then show ?case using step all_matched_join [of all] by (meson order_refl)
qed simp

lemma expand_tight:
  "expandToCoverSecrets ms (lo, hi) = (lo', hi') \<Longrightarrow> all_matched ms lo' lo \<and> all_matched ms hi hi'"
proof (induction ms "(lo, hi)" arbitrary: lo hi rule: expandToCoverSecrets.induct)
  case (1 ms)
  show ?case
  proof (cases "widen ms (lo, hi) = (lo, hi)")
    case True
    then have "(lo', hi') = (lo, hi)" using 1(2) by (simp add: expandToCoverSecrets.simps [of ms "(lo, hi)"])
    then show ?thesis by simp
  next
    case False
    obtain l h where w: "widen ms (lo, hi) = (l, h)" by fastforce
    have "expandToCoverSecrets ms (lo, hi) = expandToCoverSecrets ms (l, h)"
      using False w by (subst expandToCoverSecrets.simps) auto
    then have "all_matched ms lo' l \<and> all_matched ms h hi'" using 1(1) [OF False] 1(2) w by simp
    moreover have "all_matched ms l lo \<and> all_matched ms hi h"
      by (rule widen_tight [OF w subset_refl])
    ultimately show ?thesis using all_matched_join [of ms] by (meson order_refl)
  qed
qed

definition in_window :: "nat \<Rightarrow> nat \<Rightarrow> Match list \<Rightarrow> Match list" where
  "in_window lo hi ms = map (\<lambda>m. m\<lparr>ma_Start := ma_Start m - lo, ma_End := ma_End m - lo\<rparr>)
     (filter (\<lambda>m. lo \<le> ma_Start m \<and> ma_End m \<le> hi) ms)"

text \<open>
  C26. A window never leaks a part of a secret, and hides nothing else. The window grows, inside the text, over bytes
  of matches only; every match of the whole text that overlaps the grown window lies inside it. What is returned is the
  grown window with disjoint spans replaced: every match of the window lies entirely inside one replaced span; a
  replaced span shows only the mask of the match it is, or the generic mask when matches were merged; and only
  bytes of matches are replaced.
\<close>

theorem RedactWindow_covers:
  assumes "in_text (length full) (scanRaw rules full)" and "0 \<le> lo" "lo < hi" "hi \<le> int (length full)"
  shows "\<exists>lo' hi' spans. lo' \<le> nat lo \<and> nat hi \<le> hi' \<and> hi' \<le> length full \<and>
    all_matched (scanRaw rules full) lo' (nat lo) \<and> all_matched (scanRaw rules full) (nat hi) hi' \<and>
    list_all (\<lambda>m. ma_Start m < hi' \<and> lo' < ma_End m \<longrightarrow> lo' \<le> ma_Start m \<and> ma_End m \<le> hi') (scanRaw rules full) \<and>
    RedactWindow rules full lo hi = render (slice full lo' hi') 0 spans \<and>
    disjoint_spans (hi' - lo') spans \<and>
    list_all (covers spans) (in_window lo' hi' (scanRaw rules full)) \<and>
    list_all (masked (slice full lo' hi') (in_window lo' hi' (scanRaw rules full))) spans \<and>
    list_all (tight (in_window lo' hi' (scanRaw rules full))) spans"
proof -
  define raw where "raw = scanRaw rules full"
  obtain lo' hi' where ex: "expandToCoverSecrets raw (nat lo, nat hi) = (lo', hi')" by fastforce
  define win where "win = in_window lo' hi' raw"
  note grown = expand_correct [OF ex]
  have "last_end raw \<le> length full"
    using assms(1) by (auto simp: last_end_def in_text_def list_all_iff raw_def)
  then have hi': "hi' \<le> length full" using grown assms(2-4) by auto
  have len: "length (slice full lo' hi') = hi' - lo'" using hi' by (simp add: slice_def)
  have "sorted (map ma_Start win)"
  proof -
    have "sorted (map ma_Start (filter P raw))" for P
      unfolding raw_def by (rule sorted_filter) (rule sorted_scanRaw)
    then have "sorted (map (\<lambda>m. ma_Start m - lo') (filter P raw))" for P
      by (auto simp: sorted_iff_nth_mono diff_le_mono)
    then show ?thesis by (simp add: win_def in_window_def comp_def)
  qed
  moreover have "in_text (length (slice full lo' hi')) win"
    using assms(1) unfolding len by (auto simp: win_def in_window_def in_text_def list_all_iff raw_def)
  ultimately obtain spans where spans: "redactSpans (slice full lo' hi') win = render (slice full lo' hi') 0 spans"
      "disjoint_spans (hi' - lo') spans" "list_all (covers spans) win" "list_all (masked (slice full lo' hi') win) spans"
      "list_all (tight win) spans"
    using redactSpans_exact [of win "slice full lo' hi'"] len by auto
  have "RedactWindow rules full lo hi = redactSpans (slice full lo' hi') win"
    using assms(2-4) ex by (simp add: RedactWindow_def Let_def raw_def [symmetric] win_def in_window_def)
  moreover have "list_all (\<lambda>m. ma_Start m < hi' \<and> lo' < ma_End m \<longrightarrow> lo' \<le> ma_Start m \<and> ma_End m \<le> hi') raw"
    using grown by (simp add: settled_def)
  ultimately show ?thesis
    using grown hi' spans expand_tight [OF ex]
    by (intro exI [of _ lo'] exI [of _ hi'] exI [of _ spans]) (simp add: raw_def win_def)
qed

text \<open>Two rules whose matches overlap: bytes 2 to 5, and the group at bytes 4 to 7.\<close>

definition demo_rules :: "rule list" where
  "demo_rules =
     [\<lparr>rl_name = ''key'', rl_confidence = ConfidenceDefinite, rl_prefilters = [''c''],
       rl_find = (\<lambda>_. [[Some (2, 5)]]), rl_group = 0, rl_validate = None, rl_mask = (\<lambda>_. ''***'')\<rparr>,
      \<lparr>rl_name = ''entropy'', rl_confidence = ConfidenceCandidate, rl_prefilters = [],
       rl_find = (\<lambda>_. [[Some (1, 7), Some (4, 7)]]), rl_group = 1, rl_validate = None, rl_mask = (\<lambda>_. ''***'')\<rparr>]"

lemma demo_scan:
  "map (\<lambda>m. (ma_Start m, ma_End m)) (scanRaw demo_rules ''abcdefgh'') = [(2, 5), (4, 7)]"
  by (simp add: scanRaw_def scanRulesRaw_def sort_matches_def demo_rules_def rule_matches_def match_at_def
      hasPrefilter_def slice_def)

lemma demo_in_text: "in_text (length ''abcdefgh'') (scanRaw demo_rules ''abcdefgh'')"
proof -
  have "list_all (\<lambda>(s, e). s \<le> e \<and> e \<le> 8) (map (\<lambda>m. (ma_Start m, ma_End m)) (scanRaw demo_rules ''abcdefgh''))"
    unfolding demo_scan by simp
  then show ?thesis by (simp add: in_text_def list.pred_map comp_def eval_nat_numeral)
qed

theorem Redact_covers_secrets_witness:
  "\<exists>spans. Redact demo_rules ''abcdefgh'' = render ''abcdefgh'' 0 spans \<and>
     list_all (covers spans) (scanRaw demo_rules ''abcdefgh'')"
  using Redact_covers_secrets [OF demo_in_text] by blast

theorem RedactWindow_covers_witness:
  "\<exists>lo' hi' spans. lo' \<le> 3 \<and> 6 \<le> hi' \<and> hi' \<le> 8 \<and>
     RedactWindow demo_rules ''abcdefgh'' 3 6 = render (slice ''abcdefgh'' lo' hi') 0 spans \<and>
     list_all (covers spans) (in_window lo' hi' (scanRaw demo_rules ''abcdefgh'')) \<and>
     list_all (tight (in_window lo' hi' (scanRaw demo_rules ''abcdefgh''))) spans"
proof -
  have "length ''abcdefgh'' = 8" by simp
  then have "(6::int) \<le> int (length ''abcdefgh'')" by (simp only:)
  from RedactWindow_covers [OF demo_in_text _ _ this, of 3] show ?thesis
    unfolding \<open>length ''abcdefgh'' = 8\<close> nat_numeral by fastforce
qed

end
