(* ===== verification/Pricing.thy ===== *)
theory Pricing
  imports Prelude
begin

text \<open>
  The resolution of model names to prices (\<open>internal/pricing/normalize.go\<close>). The price map is an
  association list: one iteration order of the Go map, so that the theorems can say which
  results depend on it.
\<close>

section \<open>Names\<close>

definition NormalizeModelName :: "string \<Rightarrow> string" where
  "NormalizeModelName model = map (\<lambda>c. if c = CHR ''.'' then CHR ''-'' else c) model"

text \<open>\<open>strings.LastIndex\<close> of one byte.\<close>

definition last_index :: "string \<Rightarrow> char \<Rightarrow> nat option" where
  "last_index s c =
     (let tail = takeWhile (\<lambda>d. d \<noteq> c) (rev s) in
      if length tail < length s then Some (length s - length tail - 1) else None)"

definition alnum :: "char \<Rightarrow> bool" where
  "alnum r = ((97 \<le> byte r \<and> byte r \<le> 122) \<or> is_digit r)"

definition canonicalize :: "string \<Rightarrow> string" where
  "canonicalize s =
     (let s = (case last_index s (CHR ''/'') of Some idx \<Rightarrow> drop (idx + 1) s | None \<Rightarrow> s) in
      filter alnum (to_lower s))"

definition canonicalProvider :: "string \<Rightarrow> string" where
  "canonicalProvider s =
     (case last_index s (CHR ''/'') of
        None \<Rightarrow> []
      | Some idx \<Rightarrow> if idx = 0 then [] else filter alnum (to_lower (take idx s)))"

definition trim_right_spaces :: "string \<Rightarrow> string" where
  "trim_right_spaces s = trim_right_of (\<lambda>c. c = CHR '' '') s"

definition stripTrailingGroup :: "string \<Rightarrow> string" where
  "stripTrailingGroup s =
     (let t = trim_right_spaces s;
          opening = (if has_suffix t '')'' then Some (CHR ''('')
                     else if has_suffix t '']'' then Some (CHR ''['') else None) in
      case opening of
        None \<Rightarrow> s
      | Some c \<Rightarrow>
          (case last_index t c of
             None \<Rightarrow> s
           | Some i \<Rightarrow> if i = 0 then s else trim_right_spaces (take i t)))"

definition stripTrailingDate :: "string \<Rightarrow> string" where
  "stripTrailingDate s =
     (case last_index s (CHR ''-'') of
        None \<Rightarrow> s
      | Some i \<Rightarrow>
          if i = 0 \<or> length s - i - 1 \<noteq> 8 then s
          else if \<not> list_all is_digit (drop (i + 1) s) then s
          else take i s)"

definition add_candidate :: "string \<Rightarrow> string list \<Rightarrow> string list" where
  "add_candidate s candidates =
     (let c = canonicalize s in
      if c \<noteq> [] \<and> c \<notin> set candidates then candidates @ [c] else candidates)"

definition canonicalCandidates :: "string \<Rightarrow> string list" where
  "canonicalCandidates model =
     (let undecorated = stripTrailingGroup model in
      add_candidate (stripTrailingDate undecorated) (add_candidate undecorated (add_candidate model [])))"

section \<open>Resolution\<close>

definition keyRank :: "string \<Rightarrow> string \<Rightarrow> nat" where
  "keyRank modelProvider keyProvider =
     (if keyProvider = [] then 1 else if keyProvider = modelProvider then 0 else 2)"

fun index_of :: "string \<Rightarrow> string list \<Rightarrow> nat option" where
  "index_of c [] = None"
| "index_of c (d # ds) = (if c = d then Some 0 else map_option Suc (index_of c ds))"

text \<open>Where a key counts: the candidate it equals and its rank.\<close>

definition slot :: "string \<Rightarrow> string \<Rightarrow> (nat \<times> nat) option" where
  "slot model k =
     (let modelProvider = canonicalProvider model; keyProvider = canonicalProvider k in
      if keyProvider \<noteq> [] \<and> modelProvider \<noteq> [] \<and> keyProvider \<noteq> modelProvider then None
      else let kCanon = canonicalize k in
        if kCanon = [] then None
        else map_option (\<lambda>i. (i, keyRank modelProvider keyProvider)) (index_of kCanon (canonicalCandidates model)))"

text \<open>The table of counts and last values, as a list of cells keyed by slot.\<close>

type_synonym 'v cells = "nat \<times> nat \<Rightarrow> nat \<times> 'v option"

definition count_key :: "string \<Rightarrow> string \<times> 'v \<Rightarrow> 'v cells \<Rightarrow> 'v cells" where
  "count_key model = (\<lambda>(k, v) tab.
     case slot model k of
       None \<Rightarrow> tab
     | Some ir \<Rightarrow> tab(ir := (fst (tab ir) + 1, Some v)))"

fun pick :: "'v cells \<Rightarrow> (nat \<times> nat) list \<Rightarrow> 'v option" where
  "pick tab [] = None"
| "pick tab (ir # irs) =
     (if fst (tab ir) = 1 then snd (tab ir)
      else if fst (tab ir) > 1 then None
      else pick tab irs)"

definition resolveCanonical :: "(string, 'v) gomap \<Rightarrow> string \<Rightarrow> 'v option" where
  "resolveCanonical m model =
     (let n = length (canonicalCandidates model) in
      if n = 0 then None
      else pick (fold (count_key model) m (\<lambda>_. (0, None))) (List.product [0..<n] [0, 1, 2]))"

definition find_lower :: "(string, 'v) gomap \<Rightarrow> string \<Rightarrow> 'v option" where
  "find_lower m name = map_option snd (find (\<lambda>(k, _). to_lower k = name) m)"

definition Resolve :: "(string, 'v) gomap \<Rightarrow> string \<Rightarrow> 'v option" where
  "Resolve m model =
     (case map_of m model of
        Some v \<Rightarrow> Some v
      | None \<Rightarrow>
     (case (let norm = NormalizeModelName model in if norm \<noteq> model then map_of m norm else None) of
        Some v \<Rightarrow> Some v
      | None \<Rightarrow>
     (case find_lower m (to_lower model) of
        Some v \<Rightarrow> Some v
      | None \<Rightarrow>
     (case find_lower m (to_lower (NormalizeModelName model)) of
        Some v \<Rightarrow> Some v
      | None \<Rightarrow> resolveCanonical m model))))"

section \<open>Which results depend on the iteration order\<close>

definition hits :: "string \<Rightarrow> (string, 'v) gomap \<Rightarrow> nat \<times> nat \<Rightarrow> 'v list" where
  "hits model m ir = map snd (filter (\<lambda>(k, _). slot model k = Some ir) m)"

lemma count_key_at:
  "count_key model (k, v) tab ir = (if slot model k = Some ir then (fst (tab ir) + 1, Some v) else tab ir)"
  by (auto simp: count_key_def split: option.splits)

lemma hits_Cons: "hits model ((k, v) # m) ir = (if slot model k = Some ir then v # hits model m ir else hits model m ir)"
  by (simp add: hits_def)

lemma count_fold:
  "fold (count_key model) m tab ir =
     (fst (tab ir) + length (hits model m ir), if hits model m ir = [] then snd (tab ir) else Some (last (hits model m ir)))"
proof (induction m arbitrary: tab)
  case (Cons a m)
  then show ?case by (cases a) (simp add: hits_Cons count_key_at)
qed (simp add: hits_def)

fun pick_hits :: "(nat \<times> nat \<Rightarrow> 'v list) \<Rightarrow> (nat \<times> nat) list \<Rightarrow> 'v option" where
  "pick_hits h [] = None"
| "pick_hits h (ir # irs) = (case h ir of [] \<Rightarrow> pick_hits h irs | [v] \<Rightarrow> Some v | _ \<Rightarrow> None)"

lemma pick_eq: "pick (fold (count_key model) m (\<lambda>_. (0, None))) irs = pick_hits (hits model m) irs"
  by (induction irs) (auto simp: count_fold split: list.splits)

lemma resolveCanonical_eq:
  "resolveCanonical m model =
     pick_hits (hits model m) (List.product [0..<length (canonicalCandidates model)] [0, 1, 2])"
  by (simp add: resolveCanonical_def pick_eq)

lemma pick_hits_cong: "(\<And>ir. mset (h ir) = mset (g ir)) \<Longrightarrow> pick_hits h irs = pick_hits g irs"
proof (induction irs)
  case (Cons ir irs)
  have len: "length (h ir) = length (g ir)" using Cons.prems by (metis size_mset)
  show ?case
  proof (cases "h ir")
    case Nil
    then show ?thesis using len Cons by simp
  next
    case (Cons v vs)
    then obtain w ws where g: "g ir = w # ws" using len by (cases "g ir") auto
    show ?thesis
    proof (cases vs)
      case Nil
      then have "ws = []" using len Cons g by simp
      moreover from this Nil Cons g have "v = w" using \<open>\<And>ir. mset (h ir) = mset (g ir)\<close> [of ir] by simp
      ultimately show ?thesis using Cons Nil g by simp
    next
      case (Cons v' vs')
      then obtain w' ws' where "ws = w' # ws'" using len \<open>h ir = v # vs\<close> g by (cases ws) auto
      then show ?thesis using Cons \<open>h ir = v # vs\<close> g by simp
    qed
  qed
qed simp

text \<open>
  The canonical step is deterministic: it gives the same price for every iteration order of
  the map, ambiguous keys included.
\<close>

theorem resolveCanonical_order_independent:
  assumes "mset m = mset m'"
  shows "resolveCanonical m model = resolveCanonical m' model"
proof -
  have "mset (hits model m ir) = mset (hits model m' ir)" for ir
    using assms by (simp add: hits_def)
  then show ?thesis unfolding resolveCanonical_eq by (rule pick_hits_cong)
qed

text \<open>
  The case-insensitive step before it is not: with two keys that differ only in case, a model
  written in a third way resolves to the one that the iteration meets first.
\<close>

theorem Resolve_order_dependent:
  "Resolve [(''GPT-X'', a), (''gpt-x'', b)] ''Gpt-X'' = Some a \<and>
   Resolve [(''gpt-x'', b), (''GPT-X'', a)] ''Gpt-X'' = Some b"
proof -
  have "to_lower ''GPT-X'' = ''gpt-x''" "to_lower ''gpt-x'' = ''gpt-x''" "to_lower ''Gpt-X'' = ''gpt-x''"
    by code_simp+
  then show ?thesis by (simp add: Resolve_def find_lower_def NormalizeModelName_def)
qed

text \<open>
  The canonical step never guesses: the price comes from a key whose whole canonical name is
  one of the candidates of the model and whose provider does not conflict with the model's.
\<close>

lemma pick_hits_from: "pick_hits h irs = Some v \<Longrightarrow> \<exists>ir \<in> set irs. v \<in> set (h ir)"
  by (induction irs) (auto split: list.splits)

lemma index_of_mem: "index_of c ds = Some i \<Longrightarrow> c \<in> set ds"
  by (induction ds arbitrary: i) (auto split: if_splits)

theorem resolveCanonical_sound:
  assumes "resolveCanonical m model = Some v"
  shows "\<exists>k. (k, v) \<in> set m \<and> canonicalize k \<in> set (canonicalCandidates model) \<and>
    (canonicalProvider k = [] \<or> canonicalProvider model = [] \<or> canonicalProvider k = canonicalProvider model)"
proof -
  obtain ir where "v \<in> set (hits model m ir)"
    using pick_hits_from [OF assms [unfolded resolveCanonical_eq]] by blast
  then obtain k where k: "(k, v) \<in> set m" "slot model k = Some ir" by (auto simp: hits_def)
  from k(2) have "canonicalize k \<in> set (canonicalCandidates model)"
    "canonicalProvider k = [] \<or> canonicalProvider model = [] \<or> canonicalProvider k = canonicalProvider model"
    by (auto simp: slot_def Let_def split: if_splits dest: index_of_mem)
  with k(1) show ?thesis by blast
qed

text \<open>
  The decorations come off: a release date of eight digits is stripped from a name, and what
  is left is returned as it was.
\<close>

lemma last_index_append: "c \<notin> set t \<Longrightarrow> last_index (s @ c # t) c = Some (length s)"
proof -
  assume "c \<notin> set t"
  then have "takeWhile (\<lambda>d. d \<noteq> c) (rev (s @ c # t)) = rev t"
    by (auto simp: takeWhile_append2 takeWhile_tail)
  then show ?thesis by (simp add: last_index_def)
qed

theorem stripTrailingDate_strips:
  assumes "s \<noteq> []" and "length d = 8" and "list_all is_digit d"
  shows "stripTrailingDate (s @ ''-'' @ d) = s"
proof -
  have "CHR ''-'' \<notin> set d" using assms(3) not_digit_minus by (auto simp: list_all_iff)
  then have "last_index (s @ CHR ''-'' # d) (CHR ''-'') = Some (length s)" by (rule last_index_append)
  then show ?thesis using assms by (simp add: stripTrailingDate_def)
qed

theorem stripTrailingDate_strips_witness:
  "stripTrailingDate (''claude-opus-4-7'' @ ''-'' @ ''20260101'') = ''claude-opus-4-7''"
  by (rule stripTrailingDate_strips) (simp_all add: is_digit_def byte_def)

theorem resolveCanonical_order_independent_witness:
  "resolveCanonical [(''openai/gpt-5'', 1 :: nat), (''gpt-5'', 2)] ''GPT 5'' =
     resolveCanonical [(''gpt-5'', 2), (''openai/gpt-5'', 1)] ''GPT 5''"
  by (rule resolveCanonical_order_independent) simp

theorem resolveCanonical_sound_witness:
  "\<exists>k. (k, 2) \<in> set [(''openai/gpt-5'', 1 :: nat), (''gpt-5'', 2)] \<and> canonicalize k \<in> set (canonicalCandidates ''GPT 5'')"
proof -
  have "resolveCanonical [(''openai/gpt-5'', 1 :: nat), (''gpt-5'', 2)] ''GPT 5'' = Some 2" by code_simp
  from resolveCanonical_sound [OF this] show ?thesis by blast
qed

end
