(* ===== verification/Termination_Status.thy ===== *)
theory Termination_Status
  imports Prelude
begin

text \<open>
  How a parsed session ended (\<open>internal/parser/termination.go\<close>). Of a parsed message the
  classification reads the role, the tool calls and the tool results.
\<close>

abbreviation TerminationAwaitingUser :: string where "TerminationAwaitingUser \<equiv> ''awaiting_user''"
abbreviation TerminationClean :: string where "TerminationClean \<equiv> ''clean''"
abbreviation TerminationToolCallPending :: string where "TerminationToolCallPending \<equiv> ''tool_call_pending''"
abbreviation TerminationTruncated :: string where "TerminationTruncated \<equiv> ''truncated''"
abbreviation RoleAssistant :: string where "RoleAssistant \<equiv> ''assistant''"

record ParsedMessage =
  pm_Role :: string
  pm_ToolCalls :: "string list"
  pm_ToolResults :: "string list"

definition isAwaitingUserStopReason :: "string \<Rightarrow> bool" where
  "isAwaitingUserStopReason stopReason = (stopReason = ''end_turn'' \<or> stopReason = ''task_complete'')"

text \<open>The last assistant message with the messages after it, found from the back.\<close>

fun last_assistant :: "ParsedMessage list \<Rightarrow> ParsedMessage list \<Rightarrow> (ParsedMessage \<times> ParsedMessage list) option" where
  "last_assistant [] after = None"
| "last_assistant (m # rest) after =
     (if pm_Role m = RoleAssistant then Some (m, after) else last_assistant rest (m # after))"

definition hasOrphanedToolCall :: "ParsedMessage list \<Rightarrow> bool" where
  "hasOrphanedToolCall messages =
     (case last_assistant (rev messages) [] of
        None \<Rightarrow> False
      | Some (final, after) \<Rightarrow>
          if pm_ToolCalls final = [] then False
          else let resolved = filter (\<lambda>i. i \<noteq> []) (concat (map pm_ToolResults after)) in
               list_ex (\<lambda>i. i \<noteq> [] \<and> i \<notin> set resolved) (pm_ToolCalls final))"

definition Classify :: "ParsedMessage list \<Rightarrow> string \<Rightarrow> bool \<Rightarrow> string" where
  "Classify messages stopReason fileTruncated =
     (if fileTruncated then TerminationTruncated
      else if messages = [] then []
      else if hasOrphanedToolCall messages then TerminationToolCallPending
      else if pm_Role (last messages) = RoleAssistant \<and> isAwaitingUserStopReason stopReason
      then TerminationAwaitingUser
      else TerminationClean)"

lemma last_assistant_split:
  "last_assistant ms after = Some (a, rest) \<longleftrightarrow>
     (\<exists>p q. ms = p @ a # q \<and> rest = rev p @ after \<and> pm_Role a = RoleAssistant \<and>
        list_all (\<lambda>m. pm_Role m \<noteq> RoleAssistant) p)"
proof
  show "last_assistant ms after = Some (a, rest) \<Longrightarrow>
    \<exists>p q. ms = p @ a # q \<and> rest = rev p @ after \<and> pm_Role a = RoleAssistant \<and>
        list_all (\<lambda>m. pm_Role m \<noteq> RoleAssistant) p"
  proof (induction ms arbitrary: after)
    case (Cons m ms)
    show ?case
    proof (cases "pm_Role m = RoleAssistant")
      case True
      with Cons.prems show ?thesis by (intro exI [of _ "[]"] exI [of _ ms]) simp
    next
      case False
      with Cons.prems have "last_assistant ms (m # after) = Some (a, rest)" by simp
      from Cons.IH [OF this] obtain p q where "ms = p @ a # q" "rest = rev p @ m # after"
        "pm_Role a = RoleAssistant" "list_all (\<lambda>m. pm_Role m \<noteq> RoleAssistant) p" by blast
      with False show ?thesis by (intro exI [of _ "m # p"] exI [of _ q]) simp
    qed
  qed simp
next
  have "last_assistant (p @ a # q) after = Some (a, rev p @ after)"
    if "pm_Role a = RoleAssistant" "list_all (\<lambda>m. pm_Role m \<noteq> RoleAssistant) p" for p q
    using that(2) by (induction p arbitrary: after) (simp_all add: that(1))
  then show "\<exists>p q. ms = p @ a # q \<and> rest = rev p @ after \<and> pm_Role a = RoleAssistant \<and>
        list_all (\<lambda>m. pm_Role m \<noteq> RoleAssistant) p \<Longrightarrow> last_assistant ms after = Some (a, rest)"
    by blast
qed

lemma last_assistant_spec:
  "last_assistant (rev ms) [] = Some (a, rest) \<longleftrightarrow>
     (\<exists>pre. ms = pre @ a # rest \<and> pm_Role a = RoleAssistant \<and>
        list_all (\<lambda>m. pm_Role m \<noteq> RoleAssistant) rest)"
proof -
  have "rev ms = p @ a # q \<longleftrightarrow> ms = rev q @ a # rev p" for p q
    by (metis append.assoc append_Cons append_Nil rev.simps(2) rev_append rev_rev_ident)
  moreover have "list_all P (rev p) = list_all P p" for P :: "ParsedMessage \<Rightarrow> bool" and p
    by (simp add: list_all_iff)
  ultimately show ?thesis
    unfolding last_assistant_split by (metis append_Nil2 rev_rev_ident)
qed

text \<open>
  A tool call is pending exactly when the last assistant message makes one with an id that no
  later message answers; results from earlier messages with the same id do not count.
\<close>

theorem hasOrphanedToolCall_iff:
  "hasOrphanedToolCall ms \<longleftrightarrow>
     (\<exists>pre a post i. ms = pre @ a # post \<and> pm_Role a = RoleAssistant \<and>
        list_all (\<lambda>m. pm_Role m \<noteq> RoleAssistant) post \<and>
        i \<in> set (pm_ToolCalls a) \<and> i \<noteq> [] \<and> list_all (\<lambda>m. i \<notin> set (pm_ToolResults m)) post)"
proof (cases "last_assistant (rev ms) []")
  case None
  have "\<not> (\<exists>pre a post. ms = pre @ a # post \<and> pm_Role a = RoleAssistant \<and>
      list_all (\<lambda>m. pm_Role m \<noteq> RoleAssistant) post)"
    using last_assistant_spec [of ms] None by auto
  then show ?thesis using None by (auto simp: hasOrphanedToolCall_def)
next
  case (Some p)
  obtain a post where p: "p = (a, post)" by (cases p)
  have orphan: "hasOrphanedToolCall ms \<longleftrightarrow>
      (\<exists>i \<in> set (pm_ToolCalls a). i \<noteq> [] \<and> list_all (\<lambda>m. i \<notin> set (pm_ToolResults m)) post)"
    using Some p by (auto simp: hasOrphanedToolCall_def list_ex_iff list_all_iff)
  have uniq: "b = a \<and> post' = post"
    if "ms = pre @ b # post'" "pm_Role b = RoleAssistant" "list_all (\<lambda>m. pm_Role m \<noteq> RoleAssistant) post'" for pre b post'
    using that last_assistant_spec [of ms b post'] Some p by auto
  have "\<exists>pre. ms = pre @ a # post \<and> pm_Role a = RoleAssistant \<and> list_all (\<lambda>m. pm_Role m \<noteq> RoleAssistant) post"
    using last_assistant_spec [of ms a post] Some p by auto
  with orphan uniq show ?thesis by (metis (no_types, lifting))
qed

text \<open>
  \<open>awaiting_user\<close> is reported only for a whole transcript that ends with the assistant, has no
  pending call and has a stop reason that means waiting; truncation wins over everything.
\<close>

theorem Classify_awaiting_iff:
  "Classify ms stop trunc = TerminationAwaitingUser \<longleftrightarrow>
     \<not> trunc \<and> ms \<noteq> [] \<and> \<not> hasOrphanedToolCall ms \<and> pm_Role (last ms) = RoleAssistant \<and>
     (stop = ''end_turn'' \<or> stop = ''task_complete'')"
  by (simp add: Classify_def isAwaitingUserStopReason_def)

end
