(* ===== verification/Extract_Candidate.thy ===== *)
theory Extract_Candidate
  imports Secrets
begin

text \<open>
  The raw memory candidates of the extraction worker (\<open>internal/extract/candidate.go\<close>). A candidate
  is accepted only when the scanner of \<^theory_text>\<open>Secrets\<close> finds nothing in it. \<open>sha\<close> stands for hex
  SHA-256, \<open>marshal\<close> for the JSON encoder over sorted keys.
\<close>

section \<open>Candidates\<close>

definition problemTypeForCategory :: "(string \<times> string) list" where
  "problemTypeForCategory =
     [(''decision'', ''decision''), (''correction'', ''correction''), (''preference'', ''preference''),
      (''failure-mode'', ''failure-mode''), (''failure_mode'', ''failure-mode''), (''fact'', ''knowledge''),
      (''knowledge'', ''knowledge''), (''pattern'', ''pattern''), (''bug'', ''bug'')]"

record Candidate =
  c_Summary :: string
  c_Evidence :: string
  c_Implication :: string
  c_Category :: string
  c_ProblemType :: string
  c_OriginSession :: string
  c_OriginProject :: string
  c_Scope :: string
  c_SourcePlatform :: string
  c_SourceRoles :: "string list"
  c_Why :: string
  c_CreatedAt :: string
  c_ID :: string

record LLMCandidate =
  l_Summary :: string
  l_Evidence :: string
  l_Implication :: string
  l_Category :: string
  l_Why :: string

text \<open>The fields of a session and the roles of its messages, as far as they are read.\<close>

record Session =
  s_ID :: string
  s_Cwd :: string
  s_Project :: string
  s_Agent :: string

datatype CandidateError = UnsupportedCategory string | MissingField string | DecisionWithoutWhy | SecretLike

definition normalizeCategory :: "string \<Rightarrow> string" where
  "normalizeCategory category = to_lower (trim_space category)"

definition originScope :: "Session \<Rightarrow> string \<times> string" where
  "originScope sess =
     (let cwd = trim_space (s_Cwd sess) in
      if cwd \<noteq> [] \<and> (str_contains (cwd @ ''/'') ''/.claude/'' \<or> str_contains (cwd @ ''/'') ''/.config/'')
      then ([], ''user'')
      else if trim_space (s_Project sess) \<in> {[], ''.dotfiles'', ''dotfiles''} then ([], ''user'')
      else (trim_space (s_Project sess), ''project''))"

definition session_char :: "char \<Rightarrow> bool" where
  "session_char c = ((65 \<le> byte c \<and> byte c \<le> 90) \<or> (97 \<le> byte c \<and> byte c \<le> 122) \<or> is_digit c
     \<or> c = CHR ''_'' \<or> c = CHR ''.'' \<or> c = CHR '':'' \<or> c = CHR ''-'')"

text \<open>\<open>originSessionRE.ReplaceAllString(value, "-")\<close>: each run of other characters becomes a dash.\<close>

fun replace_runs :: "bool \<Rightarrow> string \<Rightarrow> string" where
  "replace_runs inRun [] = []"
| "replace_runs inRun (c # s) =
     (if session_char c then c # replace_runs False s
      else if inRun then replace_runs True s
      else CHR ''-'' # replace_runs True s)"

definition trim_dashes :: "string \<Rightarrow> string" where
  "trim_dashes s = trim_right_of (\<lambda>c. c = CHR ''-'') (trim_left_of (\<lambda>c. c = CHR ''-'') s)"

definition originSession :: "string \<Rightarrow> string" where
  "originSession value =
     (let cleaned = trim_dashes (replace_runs False value);
          cleaned = (if length cleaned > 80 then take 80 cleaned else cleaned) in
      if cleaned = [] then ''unknown-session'' else cleaned)"

fun collect_roles :: "string list \<Rightarrow> string list \<Rightarrow> string list" where
  "collect_roles [] roles = roles"
| "collect_roles (r # rs) roles =
     (let role = to_lower (trim_space r) in
      if role \<noteq> ''user'' \<and> role \<noteq> ''assistant'' then collect_roles rs roles
      else if role \<in> set roles then collect_roles rs roles
      else collect_roles rs (roles @ [role]))"

definition sourceRoles :: "string list \<Rightarrow> string list" where
  "sourceRoles msg_roles =
     (let roles = collect_roles msg_roles [] in
      if roles = [] then [''user''] else sort roles)"

definition candidateSecretText :: "Candidate \<Rightarrow> string" where
  "candidateSecretText c = str_join [newline] [c_Summary c, c_Evidence c, c_Implication c, c_Why c]"

text \<open>
  \<open>scan\<close> is \<open>secrets.Scan\<close>. The required fields are a map in the code, which Go ranges over in an
  unspecified order; \<open>order\<close> is the order one run takes.
\<close>

fun missing_field :: "(string \<times> string) list \<Rightarrow> string option" where
  "missing_field [] = None"
| "missing_field ((field, value) # fs) = (if trim_space value = [] then Some field else missing_field fs)"

definition required_fields :: "Candidate \<Rightarrow> (string \<times> string) list" where
  "required_fields c =
     [(''summary'', c_Summary c), (''evidence'', c_Evidence c), (''implication'', c_Implication c),
      (''category'', c_Category c), (''origin_session'', c_OriginSession c),
      (''source_platform'', c_SourcePlatform c)]"

definition Validate ::
  "((string \<times> string) list \<Rightarrow> (string \<times> string) list) \<Rightarrow> (string \<Rightarrow> Match list) \<Rightarrow> Candidate \<Rightarrow> CandidateError option" where
  "Validate order scan c =
     (case missing_field (order (required_fields c)) of
        Some field \<Rightarrow> Some (MissingField field)
      | None \<Rightarrow>
          if map_of problemTypeForCategory (normalizeCategory (c_Category c)) = None
          then Some (UnsupportedCategory (c_Category c))
          else if normalizeCategory (c_Category c) = ''decision'' \<and> trim_space (c_Why c) = []
          then Some DecisionWithoutWhy
          else if c_SourceRoles c = [] then Some (MissingField ''source_roles'')
          else if scan (candidateSecretText c) \<noteq> [] then Some SecretLike
          else None)"

datatype jvalue = VText string | VList "string list"

definition candidateMap :: "Candidate \<Rightarrow> (string \<times> jvalue) list" where
  "candidateMap c =
     [(''summary'', VText (c_Summary c)), (''evidence'', VText (c_Evidence c)),
      (''implication'', VText (c_Implication c)), (''category'', VText (c_Category c)),
      (''problem_type'', VText (c_ProblemType c)), (''origin_session'', VText (c_OriginSession c)),
      (''origin_project'', VText (c_OriginProject c)), (''scope'', VText (c_Scope c)),
      (''source_platform'', VText (c_SourcePlatform c)), (''source_roles'', VList (c_SourceRoles c)),
      (''why'', VText (c_Why c)), (''created_at'', VText (c_CreatedAt c)), (''id'', VText (c_ID c))]"

definition CanonicalForHash :: "((string \<times> jvalue) list \<Rightarrow> string option) \<Rightarrow> Candidate \<Rightarrow> string option" where
  "CanonicalForHash marshal c = marshal (AList.delete ''created_at'' (AList.delete ''id'' (candidateMap c)))"

definition CandidateID :: "((string \<times> jvalue) list \<Rightarrow> string option) \<Rightarrow> (string \<Rightarrow> string) \<Rightarrow> Candidate \<Rightarrow> string" where
  "CandidateID marshal sha c = (case CanonicalForHash marshal c of None \<Rightarrow> [] | Some canonical \<Rightarrow> sha canonical)"

definition sameStableCandidate ::
  "((string \<times> jvalue) list \<Rightarrow> string option) \<Rightarrow> (string \<Rightarrow> Candidate option) \<Rightarrow> string \<Rightarrow> Candidate \<Rightarrow> bool" where
  "sameStableCandidate marshal decode existingText c =
     (case decode existingText of
        None \<Rightarrow> False
      | Some existing \<Rightarrow>
          (case CanonicalForHash marshal existing of
             None \<Rightarrow> False
           | Some left \<Rightarrow> CanonicalForHash marshal c = Some left))"

definition NewCandidate ::
  "((string \<times> string) list \<Rightarrow> (string \<times> string) list) \<Rightarrow> (string \<Rightarrow> Match list) \<Rightarrow> ((string \<times> jvalue) list \<Rightarrow> string option) \<Rightarrow> (string \<Rightarrow> string) \<Rightarrow>
   LLMCandidate \<Rightarrow> Session \<Rightarrow> string list \<Rightarrow> string \<Rightarrow> CandidateError + Candidate" where
  "NewCandidate order scan marshal sha inp sess msg_roles now =
     (let category = normalizeCategory (l_Category inp) in
      case map_of problemTypeForCategory category of
        None \<Rightarrow> Inl (UnsupportedCategory (l_Category inp))
      | Some problemType \<Rightarrow>
         (let (originProject, scope) = originScope sess;
              c = \<lparr> c_Summary = trim_space (l_Summary inp), c_Evidence = trim_space (l_Evidence inp),
                    c_Implication = trim_space (l_Implication inp), c_Category = category,
                    c_ProblemType = problemType, c_OriginSession = originSession (s_ID sess),
                    c_OriginProject = originProject, c_Scope = scope,
                    c_SourcePlatform = to_lower (trim_space (s_Agent sess)),
                    c_SourceRoles = sourceRoles msg_roles, c_Why = trim_space (l_Why inp),
                    c_CreatedAt = now, c_ID = [] \<rparr>;
              c = (if c_SourcePlatform c = [] then c\<lparr>c_SourcePlatform := ''agentsview''\<rparr> else c) in
          case Validate order scan c of
            Some err \<Rightarrow> Inl err
          | None \<Rightarrow> Inr (c\<lparr>c_ID := CandidateID marshal sha c\<rparr>)))"

section \<open>What an accepted candidate promises\<close>

lemma replace_runs_chars: "c \<in> set (replace_runs b s) \<Longrightarrow> session_char c"
proof (induction b s rule: replace_runs.induct)
  case (2 b x s)
  have "session_char (CHR ''-'')" by (simp add: session_char_def)
  with 2 show ?case by (cases "session_char x"; cases b) auto
qed simp

lemma set_trim_dashes: "set (trim_dashes s) \<subseteq> set s"
  by (auto simp: trim_dashes_def trim_right_of_def trim_left_of_def dest!: set_dropWhileD)

lemma originSession_shape:
  "originSession v \<noteq> [] \<and> length (originSession v) \<le> 80 \<and> list_all session_char (originSession v)"
proof -
  define t where "t = trim_dashes (replace_runs False v)"
  define u where "u = (if length t > 80 then take 80 t else t)"
  have "list_all session_char t"
    using set_trim_dashes replace_runs_chars by (fastforce simp: t_def list_all_iff)
  then have u: "list_all session_char u" "length u \<le> 80"
    by (auto simp: u_def list_all_iff dest: in_set_takeD)
  have unknown: "list_all session_char ''unknown-session''" by code_simp
  have "originSession v = (if u = [] then ''unknown-session'' else u)"
    by (simp add: originSession_def Let_def t_def u_def)
  with u unknown show ?thesis by auto
qed

lemma collect_roles_set:
  "set (collect_roles rs acc) =
     set acc \<union> set (filter (\<lambda>r. r \<in> {''user'', ''assistant''}) (map (\<lambda>r. to_lower (trim_space r)) rs))"
proof (induction rs arbitrary: acc)
  case (Cons r rs)
  show ?case
  proof (cases "to_lower (trim_space r) \<in> {''user'', ''assistant''}")
    case True
    show ?thesis
    proof (cases "to_lower (trim_space r) \<in> set acc")
      case in_acc: True
      then have step: "collect_roles (r # rs) acc = collect_roles rs acc" by (simp add: Let_def)
      show ?thesis unfolding step Cons.IH using True in_acc by auto
    next
      case False
      then have step: "collect_roles (r # rs) acc = collect_roles rs (acc @ [to_lower (trim_space r)])"
        using True by (auto simp: Let_def)
      show ?thesis unfolding step Cons.IH using True by auto
    qed
  next
    case False
    then have step: "collect_roles (r # rs) acc = collect_roles rs acc" by (simp add: Let_def)
    show ?thesis unfolding step Cons.IH using False by auto
  qed
qed simp

lemma sourceRoles_shape:
  "sourceRoles rs \<noteq> [] \<and> sorted (sourceRoles rs) \<and> set (sourceRoles rs) \<subseteq> {''user'', ''assistant''}"
proof -
  have "set (collect_roles rs []) \<subseteq> {''user'', ''assistant''}" by (auto simp: collect_roles_set)
  moreover have "sort xs \<noteq> []" if "xs \<noteq> []" for xs :: "string list"
    using that by (metis set_empty set_sort)
  ultimately show ?thesis by (auto simp: sourceRoles_def Let_def)
qed

lemma missing_field_None: "missing_field fs = None \<longleftrightarrow> list_all (\<lambda>(f, v). trim_space v \<noteq> []) fs"
  by (induction fs rule: missing_field.induct) auto

lemma Validate_None:
  assumes "\<And>xs. set (order xs) = set xs"
  shows "Validate order scan c = None \<longleftrightarrow>
    trim_space (c_Summary c) \<noteq> [] \<and> trim_space (c_Evidence c) \<noteq> [] \<and> trim_space (c_Implication c) \<noteq> [] \<and>
    trim_space (c_Category c) \<noteq> [] \<and> trim_space (c_OriginSession c) \<noteq> [] \<and> trim_space (c_SourcePlatform c) \<noteq> [] \<and>
    map_of problemTypeForCategory (normalizeCategory (c_Category c)) \<noteq> None \<and>
    (normalizeCategory (c_Category c) = ''decision'' \<longrightarrow> trim_space (c_Why c) \<noteq> []) \<and>
    c_SourceRoles c \<noteq> [] \<and> scan (candidateSecretText c) = []"
proof -
  have "missing_field (order (required_fields c)) = None \<longleftrightarrow> list_all (\<lambda>(f, v). trim_space v \<noteq> []) (required_fields c)"
    by (simp add: missing_field_None list_all_iff assms)
  then show ?thesis
    by (auto simp: Validate_def required_fields_def split: option.splits)
qed

lemma originSession_nonblank: "trim_space (originSession v) \<noteq> []"
proof -
  have ns: "\<not> is_space c" if "session_char c" for c
    using that by (auto simp: session_char_def is_digit_def is_space_def byte_def)
  have "list_all (\<lambda>c. \<not> is_space c) (originSession v)"
    using originSession_shape [of v] ns by (auto simp: list_all_iff)
  moreover from this originSession_shape [of v] have "trim_space (originSession v) = originSession v"
    by (intro trim_space_id) (auto simp: trimmed_def list_all_iff)
  ultimately show ?thesis using originSession_shape [of v] by simp
qed

text \<open>The candidate \<open>NewCandidate\<close> builds, before and after its id is set.\<close>

definition built :: "LLMCandidate \<Rightarrow> Session \<Rightarrow> string list \<Rightarrow> string \<Rightarrow> string \<Rightarrow> Candidate" where
  "built inp sess msg_roles now problemType =
     \<lparr> c_Summary = trim_space (l_Summary inp), c_Evidence = trim_space (l_Evidence inp),
       c_Implication = trim_space (l_Implication inp), c_Category = normalizeCategory (l_Category inp),
       c_ProblemType = problemType, c_OriginSession = originSession (s_ID sess),
       c_OriginProject = fst (originScope sess), c_Scope = snd (originScope sess),
       c_SourcePlatform =
         (if to_lower (trim_space (s_Agent sess)) = [] then ''agentsview'' else to_lower (trim_space (s_Agent sess))),
       c_SourceRoles = sourceRoles msg_roles, c_Why = trim_space (l_Why inp), c_CreatedAt = now, c_ID = [] \<rparr>"

lemma NewCandidate_built:
  "NewCandidate order scan marshal sha inp sess rs now =
     (case map_of problemTypeForCategory (normalizeCategory (l_Category inp)) of
        None \<Rightarrow> Inl (UnsupportedCategory (l_Category inp))
      | Some pt \<Rightarrow>
          (case Validate order scan (built inp sess rs now pt) of
             Some err \<Rightarrow> Inl err
           | None \<Rightarrow> Inr ((built inp sess rs now pt)\<lparr>c_ID := CandidateID marshal sha (built inp sess rs now pt)\<rparr>)))"
proof -
  have "\<lparr> c_Summary = trim_space (l_Summary inp), c_Evidence = trim_space (l_Evidence inp),
          c_Implication = trim_space (l_Implication inp), c_Category = normalizeCategory (l_Category inp),
          c_ProblemType = pt, c_OriginSession = originSession (s_ID sess),
          c_OriginProject = fst (originScope sess), c_Scope = snd (originScope sess),
          c_SourcePlatform = to_lower (trim_space (s_Agent sess)),
          c_SourceRoles = sourceRoles rs, c_Why = trim_space (l_Why inp), c_CreatedAt = now, c_ID = [] \<rparr>
        \<lparr>c_SourcePlatform := ''agentsview''\<rparr> = built inp sess rs now pt"
    if "to_lower (trim_space (s_Agent sess)) = []" for pt
    using that by (simp add: built_def)
  then show ?thesis
    by (simp add: NewCandidate_def Let_def built_def split_beta split: option.split)
qed

lemma trim_lower [simp]: "trim_space (to_lower (trim_space v)) = to_lower (trim_space v)"
proof (cases "trim_space v = []")
  case False
  have "is_space (lower_byte c) = is_space c" for c
    by (simp add: is_space_def lower_byte_def)
  then have "trimmed (to_lower (trim_space v))"
    using trim_space_trimmed [of v] False by (simp add: trimmed_def to_lower_def hd_map last_map)
  then show ?thesis by (simp add: trim_space_id)
qed (simp add: to_lower_def trim_space_id trimmed_def)

lemma category_normal: "normalizeCategory (normalizeCategory v) = normalizeCategory v"
  by (simp add: normalizeCategory_def)

lemma platform_nonblank:
  "trim_space (if to_lower (trim_space a) = [] then ''agentsview'' else to_lower (trim_space a)) \<noteq> []"
proof (cases "to_lower (trim_space a) = []")
  case True
  have "trim_space ''agentsview'' \<noteq> []" by code_simp
  with True show ?thesis by simp
next
  case False
  then show ?thesis by simp
qed

lemma known_category_nonblank:
  assumes "map_of problemTypeForCategory (normalizeCategory v) \<noteq> None"
  shows "trim_space (normalizeCategory v) \<noteq> []"
proof
  assume "trim_space (normalizeCategory v) = []"
  then have "normalizeCategory v = []"
    using category_normal [of v] by (simp add: normalizeCategory_def to_lower_def)
  with assms show False by (simp add: problemTypeForCategory_def)
qed

lemma Validate_built:
  assumes "\<And>xs. set (order xs) = set xs"
    and "map_of problemTypeForCategory (normalizeCategory (l_Category inp)) \<noteq> None"
  shows "Validate order scan (built inp sess rs now pt) = None \<longleftrightarrow>
    trim_space (l_Summary inp) \<noteq> [] \<and> trim_space (l_Evidence inp) \<noteq> [] \<and> trim_space (l_Implication inp) \<noteq> [] \<and>
    (normalizeCategory (l_Category inp) = ''decision'' \<longrightarrow> trim_space (l_Why inp) \<noteq> []) \<and>
    scan (candidateSecretText (built inp sess rs now pt)) = []"
  using assms(2) known_category_nonblank [OF assms(2)] sourceRoles_shape [of rs] originSession_nonblank [of "s_ID sess"]
    platform_nonblank [of "s_Agent sess"]
  by (simp add: Validate_None [OF assms(1)] built_def category_normal)

lemma CandidateID_ignores [simp]: "CandidateID marshal sha (c\<lparr>c_ID := i\<rparr>) = CandidateID marshal sha c"
  "CandidateID marshal sha (c\<lparr>c_CreatedAt := i\<rparr>) = CandidateID marshal sha c"
  by (simp_all add: CandidateID_def CanonicalForHash_def candidateMap_def)

lemma NewCandidate_scanned:
  assumes "NewCandidate order scan marshal sha inp sess rs now = Inr c"
  shows "scan (candidateSecretText c) = []"
proof -
  obtain pt where v: "Validate order scan (built inp sess rs now pt) = None"
    and c: "c = (built inp sess rs now pt)\<lparr>c_ID := CandidateID marshal sha (built inp sess rs now pt)\<rparr>"
    using assms by (auto simp: NewCandidate_built split: option.splits)
  have "candidateSecretText c = candidateSecretText (built inp sess rs now pt)"
    by (simp add: c candidateSecretText_def)
  with v show ?thesis by (auto simp: Validate_def split: option.splits if_splits)
qed

text \<open>
  A model answer becomes a candidate exactly when its category is known, summary, evidence and
  implication are not blank, a decision says why, and the secret scanner finds nothing in the text that
  will be written: neither the session nor its messages can make it fail, and the order in which Go
  ranges over the required fields does not matter.
\<close>

theorem NewCandidate_accepts_iff:
  assumes "\<And>xs. set (order xs) = set xs"
  shows "(\<exists>c. NewCandidate order scan marshal sha inp sess rs now = Inr c) \<longleftrightarrow>
    map_of problemTypeForCategory (normalizeCategory (l_Category inp)) \<noteq> None \<and>
    trim_space (l_Summary inp) \<noteq> [] \<and> trim_space (l_Evidence inp) \<noteq> [] \<and> trim_space (l_Implication inp) \<noteq> [] \<and>
    (normalizeCategory (l_Category inp) = ''decision'' \<longrightarrow> trim_space (l_Why inp) \<noteq> []) \<and>
    scan (str_join [newline] [trim_space (l_Summary inp), trim_space (l_Evidence inp),
      trim_space (l_Implication inp), trim_space (l_Why inp)]) = []"
proof -
  have joined: "candidateSecretText (built inp sess rs now pt) =
      str_join [newline] [trim_space (l_Summary inp), trim_space (l_Evidence inp),
        trim_space (l_Implication inp), trim_space (l_Why inp)]" for pt
    by (simp add: candidateSecretText_def built_def)
  show ?thesis
  proof (cases "map_of problemTypeForCategory (normalizeCategory (l_Category inp))")
    case (Some pt)
    then have "(\<exists>c. NewCandidate order scan marshal sha inp sess rs now = Inr c) \<longleftrightarrow>
        Validate order scan (built inp sess rs now pt) = None"
      by (auto simp: NewCandidate_built split: option.splits)
    then show ?thesis
      using Some Validate_built [OF assms, of inp scan sess rs now pt] by (simp add: joined)
  qed (simp add: NewCandidate_built)
qed

text \<open>
  Provenance is the session's, never the model's: an accepted candidate names the session by at most 80
  safe characters, its roles are a sorted, non-empty subset of user and assistant, its problem type is
  the one of its category, no secret is found in it, and its id is the hash of its own canonical form.
\<close>

theorem NewCandidate_provenance:
  assumes "\<And>xs. set (order xs) = set xs" and "NewCandidate order scan marshal sha inp sess rs now = Inr c"
  shows "c_OriginSession c = originSession (s_ID sess) \<and> c_OriginSession c \<noteq> [] \<and>
    length (c_OriginSession c) \<le> 80 \<and> list_all session_char (c_OriginSession c) \<and>
    (c_OriginProject c, c_Scope c) = originScope sess \<and>
    c_SourceRoles c \<noteq> [] \<and> sorted (c_SourceRoles c) \<and> set (c_SourceRoles c) \<subseteq> {''user'', ''assistant''} \<and>
    map_of problemTypeForCategory (c_Category c) = Some (c_ProblemType c) \<and>
    scan (candidateSecretText c) = [] \<and> c_ID c = CandidateID marshal sha c"
proof -
  obtain pt where pt: "map_of problemTypeForCategory (normalizeCategory (l_Category inp)) = Some pt"
    using assms(2) by (auto simp: NewCandidate_built split: option.splits)
  define b where "b = built inp sess rs now pt"
  have v: "Validate order scan b = None" and c: "c = b\<lparr>c_ID := CandidateID marshal sha b\<rparr>"
    using assms(2) pt by (auto simp: NewCandidate_built b_def split: option.splits)
  have "scan (candidateSecretText b) = []"
    using v pt by (simp add: b_def Validate_built [OF assms(1)])
  moreover have "candidateSecretText c = candidateSecretText b"
    by (simp add: c candidateSecretText_def)
  moreover have "c_OriginSession c = originSession (s_ID sess)" "c_SourceRoles c = sourceRoles rs"
    "(c_OriginProject c, c_Scope c) = originScope sess" "c_Category c = normalizeCategory (l_Category inp)"
    "c_ProblemType c = pt"
    by (simp_all add: c b_def built_def)
  moreover have "c_ID c = CandidateID marshal sha c" by (simp add: c)
  ultimately show ?thesis
    using pt originSession_shape [of "s_ID sess"] sourceRoles_shape [of rs] by simp
qed

text \<open>A decision with its reason, from a session in a project, with the fields checked back to front.\<close>

definition demo_answer :: LLMCandidate where
  "demo_answer = \<lparr>l_Summary = ''a '', l_Evidence = ''b'', l_Implication = ''c'', l_Category = '' Decision'', l_Why = ''d''\<rparr>"

definition demo_session :: Session where
  "demo_session = \<lparr>s_ID = ''/x y/'', s_Cwd = [], s_Project = ''p'', s_Agent = ''Claude''\<rparr>"

lemma demo_new:
  "NewCandidate rev (\<lambda>_. []) (\<lambda>_. Some ''j'') (\<lambda>s. s) demo_answer demo_session [''User''] ''t'' =
     Inr \<lparr>c_Summary = ''a'', c_Evidence = ''b'', c_Implication = ''c'', c_Category = ''decision'',
          c_ProblemType = ''decision'', c_OriginSession = ''x-y'', c_OriginProject = ''p'', c_Scope = ''project'',
          c_SourcePlatform = ''claude'', c_SourceRoles = [''user''], c_Why = ''d'', c_CreatedAt = ''t'', c_ID = ''j''\<rparr>"
  by code_simp

theorem NewCandidate_accepts_iff_witness:
  "\<exists>c. NewCandidate rev (\<lambda>_. []) (\<lambda>_. Some ''j'') (\<lambda>s. s) demo_answer demo_session [''User''] ''t'' = Inr c"
proof -
  have "map_of problemTypeForCategory (normalizeCategory (l_Category demo_answer)) \<noteq> None"
    "trim_space (l_Summary demo_answer) \<noteq> []" "trim_space (l_Evidence demo_answer) \<noteq> []"
    "trim_space (l_Implication demo_answer) \<noteq> []" "trim_space (l_Why demo_answer) \<noteq> []"
    by code_simp+
  then show ?thesis by (subst NewCandidate_accepts_iff) simp_all
qed

theorem NewCandidate_provenance_witness: "length ''x-y'' \<le> 80 \<and> list_all session_char ''x-y''"
proof -
  have "set (rev xs) = set xs" for xs :: "(string \<times> string) list" by simp
  from NewCandidate_provenance [OF this demo_new] show ?thesis
    unfolding Candidate.select_convs by blast
qed

end
