(* ===== verification/Line_Reader.thy ===== *)
theory Line_Reader
  imports Prelude
begin

text \<open>
  The reader of JSONL transcripts (\<open>internal/parser/linereader.go\<close>). The file is the list of its
  bytes; after them the reader meets the end of the file or, when \<open>lr_fails\<close>, a read error.
  \<open>bufio.Reader.ReadLine\<close> is the function of the standard library: it returns at most a buffer of
  bytes, without the line ending, and tells whether the line goes on.
\<close>

section \<open>The buffered reader\<close>

abbreviation initialScanBufSize :: nat where "initialScanBufSize \<equiv> 65536"
abbreviation maxLineSize :: nat where "maxLineSize \<equiv> 67108864"
abbreviation carriage :: char where "carriage \<equiv> CHR 0x0D"

definition strip_cr :: "string \<Rightarrow> string" where
  "strip_cr l = (if l \<noteq> [] \<and> last l = carriage then butlast l else l)"

text \<open>
  \<open>NewReaderSize\<close> never makes a buffer below 16 bytes. A full buffer that ends with a carriage return
  gives it back, so that a line ending is never split.
\<close>

definition ReadLine :: "nat \<Rightarrow> string \<Rightarrow> (string \<times> bool \<times> string) option" where
  "ReadLine bufsize s =
     (let n = max 16 bufsize; l = takeWhile (\<lambda>c. c \<noteq> newline) s in
      if length l < length s \<and> length l < n then Some (strip_cr l, False, drop (length l + 1) s)
      else if length s \<ge> n
      then (let chunk = strip_cr (take n s) in Some (chunk, True, drop (length chunk) s))
      else if s = [] then None
      else Some (s, False, []))"

record lineReader =
  lr_bufsize :: nat
  lr_maxLen :: nat
  lr_fails :: bool
  lr_rest :: string
  lr_n :: nat
  lr_err :: bool
  lr_bytesRead :: nat

text \<open>\<open>lr_n\<close> is what the counting reader has read less what is still buffered: the bytes consumed.\<close>

definition newLineReader :: "bool \<Rightarrow> string \<Rightarrow> nat \<Rightarrow> lineReader" where
  "newLineReader fails content maxLen =
     \<lparr>lr_bufsize = initialScanBufSize, lr_maxLen = maxLen, lr_fails = fails, lr_rest = content, lr_n = 0,
      lr_err = False, lr_bytesRead = 0\<rparr>"

definition updateBytesRead :: "lineReader \<Rightarrow> lineReader" where
  "updateBytesRead r = r\<lparr>lr_bytesRead := lr_n r\<rparr>"

definition consume :: "string \<Rightarrow> lineReader \<Rightarrow> lineReader" where
  "consume rest r = r\<lparr>lr_rest := rest, lr_n := lr_n r + (length (lr_rest r) - length rest)\<rparr>"

datatype line_result = Line string | AtEOF | ReadFailed

lemma strip_cr_length: "length l \<le> Suc (length (strip_cr l))"
  by (auto simp: strip_cr_def)

lemma ReadLine_shorter: "ReadLine bufsize s = Some (chunk, p, rest) \<Longrightarrow> length rest < length s"
  using strip_cr_length [of "take (max 16 bufsize) s"]
  by (auto simp: ReadLine_def Let_def split: if_splits)

function readLine_loop :: "string \<Rightarrow> bool \<Rightarrow> lineReader \<Rightarrow> line_result \<times> lineReader" where
  "readLine_loop buf oversized r =
     (case ReadLine (lr_bufsize r) (lr_rest r) of
        None \<Rightarrow>
          if buf \<noteq> [] \<and> \<not> lr_fails r then (Line buf, updateBytesRead r)
          else (if lr_fails r then ReadFailed else AtEOF, r)
      | Some (chunk, isPrefix, rest) \<Rightarrow>
          if oversized
          then (if \<not> isPrefix then (Line [], updateBytesRead (consume rest r))
                else readLine_loop buf True (consume rest r))
          else if length (buf @ chunk) > lr_maxLen r
          then (if \<not> isPrefix then (Line [], updateBytesRead (consume rest r))
                else readLine_loop [] True (consume rest r))
          else if \<not> isPrefix then (Line (buf @ chunk), updateBytesRead (consume rest r))
          else readLine_loop (buf @ chunk) False (consume rest r))"
  by pat_completeness auto
termination
  by (relation "measure (\<lambda>(_, _, r). length (lr_rest r))") (auto simp: consume_def ReadLine_shorter)

declare readLine_loop.simps [simp del]

definition readLine :: "lineReader \<Rightarrow> line_result \<times> lineReader" where
  "readLine r = readLine_loop [] False r"

lemma readLine_loop_shorter:
  "readLine_loop buf os r = (Line l, r') \<Longrightarrow>
     length (lr_rest r') < length (lr_rest r) \<or> buf \<noteq> [] \<and> lr_rest r' = lr_rest r"
proof (induction buf os r arbitrary: l r' rule: readLine_loop.induct)
  case (1 buf os r)
  show ?case
  proof (cases "ReadLine (lr_bufsize r) (lr_rest r)")
    case None
    then show ?thesis using "1.prems"
      by (auto simp: readLine_loop.simps [of buf os r] updateBytesRead_def split: if_splits)
  next
    case (Some p)
    obtain chunk pre rest where p: "p = (chunk, pre, rest)" by (cases p)
    have less: "length rest < length (lr_rest r)" using Some p by (simp add: ReadLine_shorter)
    have eq: "lr_rest (consume rest r) = rest" by (simp add: consume_def)
    show ?thesis
      using "1.prems" "1.IH"(1) [OF Some p [symmetric] refl] "1.IH"(2) [OF Some p [symmetric] refl] "1.IH"(3) [OF Some p [symmetric] refl] Some p less eq
      by (auto simp: readLine_loop.simps [of buf os r] updateBytesRead_def split: if_splits)
  qed
qed

lemma readLine_shorter: "readLine r = (Line l, r') \<Longrightarrow> length (lr_rest r') < length (lr_rest r)"
  unfolding readLine_def by (drule readLine_loop_shorter) simp

function next_line :: "lineReader \<Rightarrow> string option \<times> lineReader" where
  "next_line r =
     (case readLine r of
        (AtEOF, r') \<Rightarrow> (None, r')
      | (ReadFailed, r') \<Rightarrow> (None, r'\<lparr>lr_err := True\<rparr>)
      | (Line l, r') \<Rightarrow> if l \<noteq> [] then (Some l, r') else next_line r')"
  by pat_completeness auto
termination
  by (relation "measure (\<lambda>r. length (lr_rest r))") (auto dest!: readLine_shorter [OF sym])

declare next_line.simps [simp del]

lemma next_line_shorter: "next_line r = (Some l, r') \<Longrightarrow> length (lr_rest r') < length (lr_rest r)"
proof (induction r arbitrary: l r' rule: next_line.induct)
  case (1 r)
  show ?case
  proof (cases "readLine r")
    case (Pair res r1)
    show ?thesis
    proof (cases res)
      case (Line k)
      then have less: "length (lr_rest r1) < length (lr_rest r)" using Pair readLine_shorter by simp
      show ?thesis
      proof (cases "k = []")
        case True
        then have "next_line r1 = (Some l, r')"
          using "1.prems" Pair Line by (simp add: next_line.simps [of r])
        then show ?thesis using "1.IH" [OF Pair [symmetric] Line] True less by force
      next
        case False
        then show ?thesis using "1.prems" Pair Line less by (simp add: next_line.simps [of r])
      qed
    qed (use "1.prems" Pair in \<open>simp_all add: next_line.simps [of r]\<close>)
  qed
qed

text \<open>
  The loop of \<open>readJSONLFrom\<close> from an open file, \<open>valid\<close> being \<open>gjson.Valid\<close>: the lines given to
  \<open>fn\<close> and the bytes consumed through the last of them.
\<close>

function jsonl_loop :: "(string \<Rightarrow> bool) \<Rightarrow> nat \<Rightarrow> lineReader \<Rightarrow> string list \<times> nat \<times> bool" where
  "jsonl_loop valid consumed r =
     (case next_line r of
        (None, r') \<Rightarrow> ([], consumed, lr_err r')
      | (Some line, r') \<Rightarrow>
          if valid line
          then (case jsonl_loop valid (lr_bytesRead r') r' of (ls, res) \<Rightarrow> (line # ls, res))
          else jsonl_loop valid consumed r')"
  by pat_completeness auto
termination
  by (relation "measure (\<lambda>(_, _, r). length (lr_rest r))") (auto dest!: next_line_shorter [OF sym])

declare jsonl_loop.simps [simp del]

text \<open>\<open>None\<close> when the file cannot be opened or sought; seeking past the end leaves nothing to read.\<close>

definition readJSONLFrom ::
  "(string \<Rightarrow> bool) \<Rightarrow> bool \<Rightarrow> string option \<Rightarrow> nat \<Rightarrow> (string list \<times> nat \<times> bool) option" where
  "readJSONLFrom valid fails content offset =
     map_option (\<lambda>c. jsonl_loop valid 0 (newLineReader fails (drop offset c) maxLineSize)) content"

section \<open>One line\<close>

lemma strip_cr_append: "strip_cr (a @ b) = (if b = [] then strip_cr a else a @ strip_cr b)"
  by (auto simp: strip_cr_def butlast_append)

lemma strip_cr_same: "length (strip_cr l) = length l \<Longrightarrow> strip_cr l = l"
  by (cases l rule: rev_cases) (auto simp: strip_cr_def split: if_splits)

lemma strip_cr_prefix: "\<exists>d. l = strip_cr l @ d"
  by (auto simp: strip_cr_def) (metis append_butlast_last_id)

lemma takeWhile_line: "newline \<notin> set l \<Longrightarrow> takeWhile (\<lambda>c. c \<noteq> newline) (l @ newline # t) = l"
  by (induction l) auto

lemma takeWhile_tail: "newline \<notin> set l \<Longrightarrow> takeWhile (\<lambda>c. c \<noteq> newline) l = l"
  by (induction l) auto

text \<open>What a full buffer yields: a part of the line, which never ends between the bytes of a line ending.\<close>

lemma ReadLine_full:
  assumes "max 16 n \<le> length (takeWhile (\<lambda>c. c \<noteq> newline) s)"
  obtains chunk rest where "ReadLine n s = Some (chunk, True, rest)" "s = chunk @ rest" "chunk \<noteq> []"
    "length chunk \<le> max 16 n" "length chunk = max 16 n \<Longrightarrow> strip_cr chunk = chunk"
proof -
  define k where "k = max 16 n"
  define chunk where "chunk = strip_cr (take k s)"
  have "k \<le> length s" using assms length_takeWhile_le order_trans unfolding k_def by blast
  then have full: "length (take k s) = k" by simp
  then have len: "15 \<le> length chunk" "length chunk \<le> k"
    using strip_cr_length [of "take k s"] by (auto simp: chunk_def k_def strip_cr_def)
  obtain d where "take k s = chunk @ d" using strip_cr_prefix chunk_def by blast
  then have "s = chunk @ (d @ drop k s)" by (metis append.assoc append_take_drop_id)
  then have split: "s = chunk @ drop (length chunk) s" by (metis append_eq_conv_conj)
  have "strip_cr chunk = chunk" if "length chunk = k"
  proof -
    have "chunk = take k s"
      using that full strip_cr_same [of "take k s"] by (simp add: chunk_def)
    with chunk_def show ?thesis by simp
  qed
  moreover have "ReadLine n s = Some (chunk, True, drop (length chunk) s)"
    using assms \<open>k \<le> length s\<close> by (simp add: ReadLine_def Let_def k_def [symmetric] chunk_def)
  moreover have "chunk \<noteq> []" using len by auto
  ultimately show ?thesis
    using that [OF _ split] len(2) unfolding k_def by blast
qed

lemma ReadLine_terminated:
  assumes "newline \<notin> set l" and "length l < max 16 n"
  shows "ReadLine n (l @ newline # t) = Some (strip_cr l, False, t)"
  using assms by (simp add: ReadLine_def Let_def takeWhile_line)

lemma ReadLine_tail:
  assumes "newline \<notin> set s" and "length s < max 16 n"
  shows "ReadLine n s = (if s = [] then None else Some (s, False, []))"
  unfolding ReadLine_def Let_def takeWhile_tail [OF assms(1)] using assms(2)
  by (auto simp: max_def split: if_splits)

lemma readLine_line:
  "lr_rest r = l @ newline # t \<Longrightarrow> newline \<notin> set l \<Longrightarrow>
   readLine_loop buf os r =
     (Line (if os \<or> lr_maxLen r < length (buf @ strip_cr l) then [] else buf @ strip_cr l),
      r\<lparr>lr_rest := t, lr_n := lr_n r + length l + 1, lr_bytesRead := lr_n r + length l + 1\<rparr>)"
proof (induction "length l" arbitrary: l buf os r rule: less_induct)
  case less
  show ?case
  proof (cases "length l < max 16 (lr_bufsize r)")
    case True
    then have "ReadLine (lr_bufsize r) (lr_rest r) = Some (strip_cr l, False, t)"
      using less.prems by (simp add: ReadLine_terminated)
    then show ?thesis
      using less.prems(1) by (simp add: readLine_loop.simps [of buf os r] updateBytesRead_def consume_def)
  next
    case False
    have "max 16 (lr_bufsize r) \<le> length (takeWhile (\<lambda>c. c \<noteq> newline) (lr_rest r))"
      using False less.prems by (simp add: takeWhile_line not_less)
    then obtain chunk rest where c: "ReadLine (lr_bufsize r) (lr_rest r) = Some (chunk, True, rest)"
      "lr_rest r = chunk @ rest" "chunk \<noteq> []" "length chunk \<le> max 16 (lr_bufsize r)"
      "length chunk = max 16 (lr_bufsize r) \<Longrightarrow> strip_cr chunk = chunk"
      by (rule ReadLine_full) blast
    define l' where "l' = drop (length chunk) l"
    have "length chunk \<le> length l" using c(4) False by simp
    moreover have "chunk = take (length chunk) (l @ newline # t)" "rest = drop (length chunk) (l @ newline # t)"
      using c(2) less.prems(1) by (metis append_eq_conv_conj)+
    ultimately have l: "l = chunk @ l'" "rest = l' @ newline # t"
      by (simp_all add: l'_def) (metis append_take_drop_id)
    have step: "readLine_loop b o' (consume rest r) =
        (Line (if o' \<or> lr_maxLen r < length (b @ strip_cr l') then [] else b @ strip_cr l'),
         r\<lparr>lr_rest := t, lr_n := lr_n r + length l + 1, lr_bytesRead := lr_n r + length l + 1\<rparr>)" for b o'
      using less.hyps [of l' "consume rest r" b o'] c(2,3) l less.prems(2)
      by (simp add: consume_def)
    have joined: "strip_cr l = chunk @ strip_cr l'"
    proof (cases "l' = []")
      case True
      then have "length chunk = max 16 (lr_bufsize r)" using c(4) False l(1) by simp
      then show ?thesis using True c(5) l(1) by (simp add: strip_cr_def)
    next
      case False
      then show ?thesis by (simp add: l(1) strip_cr_append)
    qed
    show ?thesis
      using c(1) joined by (auto simp: readLine_loop.simps [of buf os r] step)
  qed
qed

text \<open>The unterminated rest of a file: one last line, which is given back unless it is too long.\<close>

lemma readLine_tail:
  "newline \<notin> set (lr_rest r) \<Longrightarrow> \<not> lr_fails r \<Longrightarrow> os \<longrightarrow> buf = [] \<Longrightarrow> length buf \<le> lr_maxLen r \<Longrightarrow>
   (let whole = buf @ lr_rest r; n = lr_n r + length (lr_rest r) in
    if os \<or> lr_maxLen r < length whole \<or> whole = []
    then \<exists>res b. readLine_loop buf os r = (res, r\<lparr>lr_rest := [], lr_n := n, lr_bytesRead := b\<rparr>) \<and>
           (res = Line [] \<or> res = AtEOF)
    else readLine_loop buf os r = (Line whole, r\<lparr>lr_rest := [], lr_n := n, lr_bytesRead := n\<rparr>))"
proof (induction "length (lr_rest r)" arbitrary: buf os r rule: less_induct)
  case less
  show ?case
  proof (cases "length (lr_rest r) < max 16 (lr_bufsize r)")
    case True
    have tail: "ReadLine (lr_bufsize r) (lr_rest r) = (if lr_rest r = [] then None else Some (lr_rest r, False, []))"
      using less.prems(1) True by (rule ReadLine_tail)
    have same: "r\<lparr>lr_rest := [], lr_n := lr_n r, lr_bytesRead := lr_bytesRead r\<rparr> = r" if "lr_rest r = []"
      using that by (cases r) simp
    show ?thesis
    proof (cases "lr_rest r = []")
      case True
      then show ?thesis
        unfolding readLine_loop.simps [of buf os r] using less.prems tail same [OF True, symmetric]
        by (auto simp: updateBytesRead_def Let_def intro!: exI [of _ "lr_bytesRead r"])
    next
      case False
      then show ?thesis
        unfolding readLine_loop.simps [of buf os r] using less.prems tail
        by (auto simp: updateBytesRead_def consume_def Let_def)
    qed
  next
    case False
    then have "max 16 (lr_bufsize r) \<le> length (takeWhile (\<lambda>c. c \<noteq> newline) (lr_rest r))"
      using less.prems(1) by (simp add: takeWhile_tail not_less)
    then obtain chunk rest where c: "ReadLine (lr_bufsize r) (lr_rest r) = Some (chunk, True, rest)"
      "lr_rest r = chunk @ rest" "chunk \<noteq> []"
      by (rule ReadLine_full) blast
    define r' where "r' = consume rest r"
    have r': "lr_rest r' = rest" "\<not> lr_fails r'" "lr_maxLen r' = lr_maxLen r" "newline \<notin> set rest"
      "lr_n r' + length rest = lr_n r + length (lr_rest r)" "length rest < length (lr_rest r)"
      using less.prems(1,2) c(2,3) by (auto simp: r'_def consume_def)
    have upd: "r'\<lparr>lr_rest := [], lr_n := n, lr_bytesRead := b\<rparr> = r\<lparr>lr_rest := [], lr_n := n, lr_bytesRead := b\<rparr>" for n b
      by (simp add: r'_def consume_def)
    have step: "let whole = b @ rest; n = lr_n r + length (lr_rest r) in
      if o' \<or> lr_maxLen r < length whole \<or> whole = []
      then \<exists>res k. readLine_loop b o' r' = (res, r\<lparr>lr_rest := [], lr_n := n, lr_bytesRead := k\<rparr>) \<and>
             (res = Line [] \<or> res = AtEOF)
      else readLine_loop b o' r' = (Line whole, r\<lparr>lr_rest := [], lr_n := n, lr_bytesRead := n\<rparr>)"
      if "o' \<longrightarrow> b = []" "length b \<le> lr_maxLen r" for b o'
    proof -
      have "length (lr_rest r') < length (lr_rest r)" "newline \<notin> set (lr_rest r')" "length b \<le> lr_maxLen r'"
        using that r' by simp_all
      from less.hyps [OF this(1,2) r'(2) that(1) this(3)] show ?thesis
        unfolding r'(1) r'(3) r'(5) upd .
    qed
    show ?thesis
    proof (cases "os \<or> lr_maxLen r < length (buf @ chunk)")
      case True
      then have "readLine_loop buf os r = readLine_loop [] True r'"
        unfolding readLine_loop.simps [of buf os r] using c(1) less.prems(3) by (auto simp: r'_def)
      then show ?thesis using step [of True "[]"] True c(2) by (auto simp: Let_def)
    next
      case False
      then have "readLine_loop buf os r = readLine_loop (buf @ chunk) False r'"
        unfolding readLine_loop.simps [of buf os r] using c(1) by (simp add: r'_def)
      then show ?thesis using step [of False "buf @ chunk"] False c(2,3) by (auto simp: Let_def)
    qed
  qed
qed

section \<open>A whole file\<close>

definition keep_line :: "nat \<Rightarrow> string \<Rightarrow> bool" where
  "keep_line maxLen l \<longleftrightarrow> l \<noteq> [] \<and> length l \<le> maxLen"

text \<open>
  The lines a file means: the terminated ones without their line endings, and the unterminated
  rest as it is. The second function also says where the last delivered line ends.
\<close>

definition terminated :: "string list \<Rightarrow> string" where
  "terminated ls = concat (map (\<lambda>l. l @ [newline]) ls)"

definition file_lines :: "string \<Rightarrow> string list" where
  "file_lines s = map strip_cr (butlast (split_byte newline s)) @ [last (split_byte newline s)]"

fun deliver :: "(string \<Rightarrow> bool) \<Rightarrow> nat \<Rightarrow> nat \<Rightarrow> string list \<Rightarrow> string \<Rightarrow> string list \<times> nat" where
  "deliver ok consumed pos [] tail = (if ok tail then ([tail], pos + length tail) else ([], consumed))"
| "deliver ok consumed pos (l # ls) tail =
     (let pos = pos + length l + 1 in
      if ok (strip_cr l)
      then (case deliver ok pos pos ls tail of (out, k) \<Rightarrow> (strip_cr l # out, k))
      else deliver ok consumed pos ls tail)"

lemma next_line_cases:
  "readLine r = (Line l, r') \<Longrightarrow> next_line r = (if l \<noteq> [] then (Some l, r') else next_line r')"
  by (simp add: next_line.simps [of r])

lemma end_of_file: "lr_rest r = [] \<Longrightarrow> \<not> lr_fails r \<Longrightarrow> next_line r = (None, r)"
  by (simp add: next_line.simps [of r] readLine_def readLine_loop.simps [of "[]" False r] ReadLine_def Let_def)

lemma jsonl_tail:
  assumes "newline \<notin> set (lr_rest r)" "\<not> lr_fails r" "\<not> lr_err r"
  shows "jsonl_loop valid k r =
    (case deliver (\<lambda>l. keep_line (lr_maxLen r) l \<and> valid l) k (lr_n r) [] (lr_rest r) of (out, c) \<Rightarrow> (out, c, False))"
proof -
  let ?whole = "lr_rest r"
  define r' where "r' = r\<lparr>lr_rest := [], lr_n := lr_n r + length ?whole, lr_bytesRead := lr_n r + length ?whole\<rparr>"
  have finished: "jsonl_loop valid j s = ([], j, False)" if "lr_rest s = []" "\<not> lr_fails s" "\<not> lr_err s" for j s
    using that by (simp add: jsonl_loop.simps [of valid j s] end_of_file)
  show ?thesis
  proof (cases "keep_line (lr_maxLen r) ?whole")
    case True
    then have "readLine r = (Line ?whole, r')"
      using readLine_tail [of r False "[]"] assms by (auto simp: readLine_def keep_line_def Let_def r'_def)
    then have "next_line r = (Some ?whole, r')"
      using True by (simp add: next_line_cases keep_line_def)
    moreover have "jsonl_loop valid j r' = ([], j, False)" for j
      using finished [of r'] assms by (simp add: r'_def)
    ultimately show ?thesis using True by (simp add: jsonl_loop.simps [of valid k r] r'_def)
  next
    case False
    then obtain res b where "readLine r = (res, r'\<lparr>lr_bytesRead := b\<rparr>)" "res = Line [] \<or> res = AtEOF"
      using readLine_tail [of r False "[]"] assms by (auto simp: readLine_def keep_line_def Let_def r'_def not_le)
    moreover have "next_line (r'\<lparr>lr_bytesRead := b\<rparr>) = (None, r'\<lparr>lr_bytesRead := b\<rparr>)"
      using assms by (intro end_of_file) (simp_all add: r'_def)
    ultimately have "next_line r = (None, r'\<lparr>lr_bytesRead := b\<rparr>)"
      by (auto simp: next_line.simps [of r])
    then show ?thesis using False assms by (simp add: jsonl_loop.simps [of valid k r] r'_def)
  qed
qed

lemma jsonl_lines:
  "lr_rest r = terminated ls @ tail \<Longrightarrow> list_all (\<lambda>l. newline \<notin> set l) (tail # ls) \<Longrightarrow> \<not> lr_fails r \<Longrightarrow> \<not> lr_err r \<Longrightarrow>
   jsonl_loop valid k r =
    (case deliver (\<lambda>l. keep_line (lr_maxLen r) l \<and> valid l) k (lr_n r) ls tail of (out, c) \<Rightarrow> (out, c, False))"
proof (induction ls arbitrary: k r)
  case Nil
  then show ?case using jsonl_tail [of r valid k] by (simp add: terminated_def)
next
  case (Cons l ls)
  define r' where "r' = r\<lparr>lr_rest := terminated ls @ tail, lr_n := lr_n r + length l + 1,
    lr_bytesRead := lr_n r + length l + 1\<rparr>"
  have "readLine r = (Line (if lr_maxLen r < length (strip_cr l) then [] else strip_cr l), r')"
    using readLine_line [of r l "terminated ls @ tail" "[]" False] Cons.prems
    by (simp add: readLine_def r'_def terminated_def)
  then have next_eq: "next_line r = (if keep_line (lr_maxLen r) (strip_cr l) then (Some (strip_cr l), r') else next_line r')"
    by (auto simp: next_line_cases keep_line_def)
  have ih: "jsonl_loop valid j r' =
      (case deliver (\<lambda>l. keep_line (lr_maxLen r) l \<and> valid l) j (lr_n r + length l + 1) ls tail of (out, c) \<Rightarrow> (out, c, False))" for j
    using Cons.IH [of r' j] Cons.prems by (simp add: r'_def)
  show ?case
  proof (cases "keep_line (lr_maxLen r) (strip_cr l)")
    case True
    then show ?thesis
      using next_eq ih by (auto simp: jsonl_loop.simps [of valid k r] Let_def r'_def split: prod.splits)
  next
    case False
    then have "jsonl_loop valid k r = jsonl_loop valid k r'"
      using next_eq by (simp add: jsonl_loop.simps [of valid k])
    then show ?thesis using False ih by (simp add: Let_def)
  qed
qed

lemma join_terminated: "str_join [newline] (ls @ [t]) = terminated ls @ t"
  by (induction ls) (auto simp: terminated_def str_join_Cons)

lemma file_split:
  obtains ls tail where "split_byte newline s = ls @ [tail]" "s = terminated ls @ tail"
    "list_all (\<lambda>l. newline \<notin> set l) (tail # ls)" "file_lines s = map strip_cr ls @ [tail]"
proof -
  let ?p = "split_byte newline s"
  have p: "?p = butlast ?p @ [last ?p]" by simp
  have "s = terminated (butlast ?p) @ last ?p"
    using join_split_byte [of newline s] join_terminated [of "butlast ?p" "last ?p"] p by simp
  moreover have "list_all (\<lambda>l. newline \<notin> set l) (last ?p # butlast ?p)"
    using split_byte_no_sep [of _ newline s]
    by (auto simp: list_all_iff dest: in_set_butlastD)
  moreover have "file_lines s = map strip_cr (butlast ?p) @ [last ?p]" by (simp add: file_lines_def)
  ultimately show ?thesis using that [OF p] by blast
qed

lemma deliver_lines: "fst (deliver ok k pos ls tail) = filter ok (map strip_cr ls @ [tail])"
  by (induction ok k pos ls tail rule: deliver.induct) (auto simp: Let_def split: prod.splits)

lemma deliver_bound: "k \<le> pos \<Longrightarrow> snd (deliver ok k pos ls tail) \<le> pos + length (terminated ls @ tail)"
proof (induction ok k pos ls tail rule: deliver.induct)
  case (2 ok k pos l ls tail)
  then show ?case by (auto simp: Let_def terminated_def split: prod.splits)
qed (simp add: terminated_def)

lemma deliver_shift:
  "deliver ok (k + d) (pos + d) ls tail = (case deliver ok k pos ls tail of (out, c) \<Rightarrow> (out, c + d))"
proof (induction ls arbitrary: k pos)
  case (Cons l ls)
  show ?case
    using Cons.IH [of "pos + length l + 1" "pos + length l + 1"] Cons.IH [of k "pos + length l + 1"]
    by (simp add: Let_def add.commute add.left_commute split: prod.splits)
qed simp

lemma readJSONL_deliver:
  assumes "s = terminated ls @ tail" "list_all (\<lambda>l. newline \<notin> set l) (tail # ls)"
  shows "jsonl_loop valid 0 (newLineReader False s maxLen) =
    (case deliver (\<lambda>l. keep_line maxLen l \<and> valid l) 0 0 ls tail of (out, c) \<Rightarrow> (out, c, False))"
  using jsonl_lines [of "newLineReader False s maxLen" ls tail valid 0] assms
  by (simp add: newLineReader_def)

text \<open>
  Whatever the size of the buffer and however long the lines, a file that can be read yields exactly
  its valid lines, in order: the terminated ones without their line ending and the unterminated rest,
  the blank ones and those longer than the maximum left out. No error is reported and no
  more bytes are consumed than there are.
\<close>

theorem readJSONLFrom_exact:
  "\<exists>consumed. readJSONLFrom valid False (Some content) offset =
     Some (filter (\<lambda>l. keep_line maxLineSize l \<and> valid l) (file_lines (drop offset content)), consumed, False) \<and>
   consumed \<le> length content - offset"
proof -
  obtain ls tail where s: "drop offset content = terminated ls @ tail"
    "list_all (\<lambda>l. newline \<notin> set l) (tail # ls)" "file_lines (drop offset content) = map strip_cr ls @ [tail]"
    by (rule file_split)
  let ?ok = "\<lambda>l. keep_line maxLineSize l \<and> valid l"
  have "jsonl_loop valid 0 (newLineReader False (drop offset content) maxLineSize) =
      (filter ?ok (file_lines (drop offset content)), snd (deliver ?ok 0 0 ls tail), False)"
    unfolding readJSONL_deliver [OF s(1,2)] s(3) deliver_lines [symmetric, of ?ok ls tail 0 0] by (simp add: split_beta)
  moreover have "snd (deliver ?ok 0 0 ls tail) \<le> length content - offset"
    using deliver_bound [of 0 0 ?ok ls tail] arg_cong [OF s(1), of length] by simp
  ultimately show ?thesis by (simp add: readJSONLFrom_def)
qed

section \<open>Resuming\<close>

lemma deliver_resume:
  "\<not> ok tail \<Longrightarrow> deliver ok k pos ls tail = (out, c) \<Longrightarrow>
   \<exists>la lb. ls = la @ lb \<and> (if out = [] then la = [] \<and> c = k else c = pos + length (terminated la)) \<and>
     (\<forall>ls' tail'. deliver ok k pos (ls @ ls') tail' =
        (case deliver ok c (pos + length (terminated la)) (lb @ ls') tail' of (o2, k2) \<Rightarrow> (out @ o2, k2)))"
proof (induction ls arbitrary: k pos out c)
  case Nil
  then show ?case by (auto simp: terminated_def split: prod.splits)
next
  case (Cons l ls)
  define p where "p = pos + length l + 1"
  have len: "length (terminated (l # la)) = length l + 1 + length (terminated la)" for la
    by (simp add: terminated_def)
  show ?case
  proof (cases "ok (strip_cr l)")
    case True
    obtain out' where o: "deliver ok p p ls tail = (out', c)" "out = strip_cr l # out'"
      using Cons.prems(2) True by (auto simp: Let_def p_def split: prod.splits)
    obtain la lb where r: "ls = la @ lb" "if out' = [] then la = [] \<and> c = p else c = p + length (terminated la)"
      "\<And>ls' tail'. deliver ok p p (ls @ ls') tail' =
        (case deliver ok c (p + length (terminated la)) (lb @ ls') tail' of (o2, k2) \<Rightarrow> (out' @ o2, k2))"
      using Cons.IH [OF Cons.prems(1) o(1)] by blast
    have "c = pos + length (terminated (l # la))"
      using r(2) by (auto simp: len p_def terminated_def split: if_splits)
    moreover have "deliver ok k pos ((l # ls) @ ls') tail' =
        (case deliver ok c (pos + length (terminated (l # la))) (lb @ ls') tail' of (o2, k2) \<Rightarrow> (out @ o2, k2))" for ls' tail'
      using r(3) [of ls' tail'] True by (simp add: Let_def p_def len o(2) add.assoc split: prod.splits)
    ultimately show ?thesis using r(1) o(2) by (intro exI [of _ "l # la"] exI [of _ lb]) simp
  next
    case False
    have o: "deliver ok k p ls tail = (out, c)" using Cons.prems(2) False by (simp add: Let_def p_def)
    obtain la lb where r: "ls = la @ lb" "if out = [] then la = [] \<and> c = k else c = p + length (terminated la)"
      "\<And>ls' tail'. deliver ok k p (ls @ ls') tail' =
        (case deliver ok c (p + length (terminated la)) (lb @ ls') tail' of (o2, k2) \<Rightarrow> (out @ o2, k2))"
      using Cons.IH [OF Cons.prems(1) o] by blast
    have step: "deliver ok k pos ((l # ls) @ ls') tail' = deliver ok k p (ls @ ls') tail'" for ls' tail'
      using False by (simp add: Let_def p_def)
    show ?thesis
    proof (cases "out = []")
      case True
      then show ?thesis
        by (intro exI [of _ "[]"] exI [of _ "l # ls"]) (use r(2) in \<open>auto simp: terminated_def split: prod.splits\<close>)
    next
      case ne: False
      then show ?thesis
        using r unfolding step
        by - (rule exI [of _ "l # la"], rule exI [of _ lb], simp add: len p_def add.assoc)
    qed
  qed
qed

text \<open>
  C33. The byte count is a safe resume point: when the file was cut inside a line that is not yet valid,
  what was read up to the cut and what a second call reads from the returned offset, after more
  has been appended, together are exactly what one call reads from the grown file: no line is
  lost and none is delivered twice.
\<close>

theorem readJSONLFrom_resume:
  assumes "offset \<le> length old" and "\<not> valid (last (split_byte newline (drop offset old)))"
    and "readJSONLFrom valid False (Some old) offset = Some (ls1, k1, e1)"
    and "readJSONLFrom valid False (Some (old @ new)) (offset + k1) = Some (ls2, k2, e2)"
  shows "readJSONLFrom valid False (Some (old @ new)) offset = Some (ls1 @ ls2, k1 + k2, False)"
proof -
  let ?ok = "\<lambda>l. keep_line maxLineSize l \<and> valid l"
  obtain ls tail where s: "split_byte newline (drop offset old) = ls @ [tail]" "drop offset old = terminated ls @ tail"
    "list_all (\<lambda>l. newline \<notin> set l) (tail # ls)" by (rule file_split)
  obtain ls' tail' where t: "tail @ new = terminated ls' @ tail'" "list_all (\<lambda>l. newline \<notin> set l) (tail' # ls')"
    by (rule file_split)
  have no: "\<not> ?ok tail" using assms(2) s(1) by simp
  have first: "deliver ?ok 0 0 ls tail = (ls1, k1)"
    using assms(3) readJSONL_deliver [OF s(2,3)] by (auto simp: readJSONLFrom_def split: prod.splits)
  obtain la lb where r: "ls = la @ lb" "k1 = length (terminated la)"
    "\<And>ls' tail'. deliver ?ok 0 0 (ls @ ls') tail' =
        (case deliver ?ok k1 k1 (lb @ ls') tail' of (o2, k2) \<Rightarrow> (ls1 @ o2, k2))"
    using deliver_resume [OF no first] by (auto simp: terminated_def split: if_splits)
  have grown: "drop offset (old @ new) = terminated (ls @ ls') @ tail'"
    using s(2) t(1) assms(1) by (simp add: terminated_def)
  then have rest: "drop (offset + k1) (old @ new) = terminated (lb @ ls') @ tail'"
  proof -
    have "drop (offset + k1) (old @ new) = drop k1 (drop offset (old @ new))" by (simp only: drop_drop add.commute)
    then show ?thesis unfolding grown by (simp add: r(1,2) terminated_def)
  qed
  have "list_all (\<lambda>l. newline \<notin> set l) (tail' # lb @ ls')" "list_all (\<lambda>l. newline \<notin> set l) (tail' # ls @ ls')"
    using s(3) t(2) r(1) by auto
  note second = readJSONL_deliver [OF rest this(1), of valid maxLineSize]
    and whole = readJSONL_deliver [OF grown this(2), of valid maxLineSize]
  have "deliver ?ok 0 0 (lb @ ls') tail' = (ls2, k2)"
    using assms(4) second by (auto simp: readJSONLFrom_def split: prod.splits)
  then have "deliver ?ok 0 0 (ls @ ls') tail' = (ls1 @ ls2, k1 + k2)"
    using r(3) deliver_shift [of ?ok 0 k1 0 "lb @ ls'" tail'] by (simp add: add.commute)
  then show ?thesis using whole by (simp add: readJSONLFrom_def)
qed

definition brace_closed :: "string \<Rightarrow> bool" where
  "brace_closed l \<longleftrightarrow> l \<noteq> [] \<and> last l = CHR 0x7D"

lemma demo_reads:
  "readJSONLFrom brace_closed False (Some ''{1}|{2'') 0 = Some ([], 0, False)"
  "readJSONLFrom brace_closed False (Some (''{1}'' @ [newline] @ ''{2'')) 0 = Some ([''{1}''], 4, False)"
  "readJSONLFrom brace_closed False (Some ((''{1}'' @ [newline] @ ''{2'') @ ''}'' @ [newline])) 4 = Some ([''{2}''], 4, False)"
  using readJSONL_deliver [of "''{1}|{2''" "[]" "''{1}|{2''" brace_closed maxLineSize]
    readJSONL_deliver [of "''{1}'' @ [newline] @ ''{2''" "[''{1}'']" "''{2''" brace_closed maxLineSize]
    readJSONL_deliver [of "''{2}'' @ [newline]" "[''{2}'']" "[]" brace_closed maxLineSize]
  by (simp_all add: readJSONLFrom_def terminated_def brace_closed_def keep_line_def strip_cr_def)

theorem readJSONLFrom_resume_witness:
  "readJSONLFrom brace_closed False (Some ((''{1}'' @ [newline] @ ''{2'') @ ''}'' @ [newline])) 0 = Some ([''{1}'', ''{2}''], 8, False)"
proof -
  have "\<not> brace_closed (last (split_byte newline (drop 0 (''{1}'' @ [newline] @ ''{2''))))"
    by (simp add: brace_closed_def)
  moreover have "readJSONLFrom brace_closed False (Some ((''{1}'' @ [newline] @ ''{2'') @ ''}'' @ [newline])) (0 + 4) = Some ([''{2}''], 4, False)"
    using demo_reads(3) by simp
  ultimately show ?thesis
    using readJSONLFrom_resume [OF _ _ demo_reads(2)] by fastforce
qed

section \<open>Read errors\<close>

lemma readLine_loop_end:
  "readLine_loop buf os r = (res, r') \<Longrightarrow>
     (res = AtEOF \<longrightarrow> \<not> lr_fails r) \<and> (res = ReadFailed \<longrightarrow> lr_fails r) \<and> lr_fails r' = lr_fails r \<and> lr_err r' = lr_err r"
proof (induction buf os r arbitrary: res r' rule: readLine_loop.induct)
  case (1 buf os r)
  have frame: "lr_fails (consume rest r) = lr_fails r" "lr_err (consume rest r) = lr_err r" for rest
    by (simp_all add: consume_def)
  show ?case
  proof (cases "ReadLine (lr_bufsize r) (lr_rest r)")
    case None
    then show ?thesis using "1.prems" unfolding readLine_loop.simps [of buf os r]
      by (auto simp: updateBytesRead_def split: if_splits)
  next
    case (Some p)
    obtain chunk pre rest where p: "p = (chunk, pre, rest)" by (cases p)
    show ?thesis
      using "1.prems" "1.IH"(1) [OF Some p [symmetric] refl] "1.IH"(2) [OF Some p [symmetric] refl]
        "1.IH"(3) [OF Some p [symmetric] refl] Some p
      unfolding readLine_loop.simps [of buf os r]
      by (auto simp: updateBytesRead_def frame split: if_splits)
  qed
qed

lemma next_line_end:
  "next_line r = (res, r') \<Longrightarrow>
     lr_fails r' = lr_fails r \<and> lr_err r' = (lr_err r \<or> res = None \<and> lr_fails r)"
proof (induction r arbitrary: res r' rule: next_line.induct)
  case (1 r)
  show ?case
  proof (cases "readLine r")
    case (Pair line r1)
    note here = readLine_loop_end [OF Pair [unfolded readLine_def]]
    show ?thesis
    proof (cases "line = Line []")
      case True
      then have "next_line r1 = (res, r')" using "1.prems" Pair by (simp add: next_line_cases)
      then show ?thesis using "1.IH" [OF Pair [symmetric] True] here by simp
    next
      case False
      then show ?thesis using "1.prems" Pair here
        by (cases line) (auto simp: next_line.simps [of r] split: if_splits)
    qed
  qed
qed

lemma jsonl_error: "jsonl_loop valid k r = (ls, c, e) \<Longrightarrow> e = (lr_err r \<or> lr_fails r)"
proof (induction valid k r arbitrary: ls c e rule: jsonl_loop.induct)
  case (1 valid k r)
  show ?case
  proof (cases "next_line r")
    case (Pair res r1)
    note here = next_line_end [OF Pair]
    show ?thesis
    proof (cases res)
      case None
      then show ?thesis using "1.prems" Pair here by (simp add: jsonl_loop.simps [of valid k r])
    next
      case (Some l)
      show ?thesis
        using "1.prems" "1.IH" [OF Pair [symmetric] Some] here Pair Some
        by (auto simp: jsonl_loop.simps [of valid k r] split: if_splits prod.splits)
    qed
  qed
qed

text \<open>
  A read error is never mistaken for the end of the file: it is reported exactly when the file could
  not be read to its end, and a file that cannot be opened is an error as well.
\<close>

theorem readJSONLFrom_error:
  "(\<exists>ls k. readJSONLFrom valid fails (Some content) offset = Some (ls, k, fails)) \<and>
   readJSONLFrom valid fails None offset = None"
  using jsonl_error [of valid 0 "newLineReader fails (drop offset content) maxLineSize"]
  by (cases "jsonl_loop valid 0 (newLineReader fails (drop offset content) maxLineSize)")
    (auto simp: readJSONLFrom_def newLineReader_def)

end
