(* ===== verification/Memory_Editor.thy ===== *)
theory Memory_Editor
  imports Prelude
begin

text \<open>
  What the handlers of the memory routes rely on (the Go interface \<open>memoryEditor\<close> of
  \<open>internal/server/huma_routes_memory.go\<close>): requests and errors shared by the editors of
  \<open>internal/memory\<close>, and the contract of an editor with optimistic concurrency as a locale. The file
  writer (theory \<open>Memory_Files\<close>) and the ledger editor (theory \<open>Memory_Ledger\<close>) interpret it.
\<close>

record WriteRequest =
  wr_RelPath :: string
  wr_Content :: string
  wr_BaseSHA :: string

datatype MemoryError =
  ErrPathTraversal | ErrConflict | ReadFailed | NotExist | IOFailed | InvalidRef | InvalidJSON | IdMismatch

text \<open>
  Reading a note, changing it and writing it against the hash that was read, or against the hash of an
  earlier read when the client sends one.
\<close>

definition read_modify_write ::
  "('s \<Rightarrow> string \<Rightarrow> MemoryError + (string \<times> string)) \<Rightarrow> (WriteRequest \<Rightarrow> 's \<Rightarrow> (MemoryError + string) \<times> 's) \<Rightarrow>
   string \<Rightarrow> (string \<Rightarrow> string) \<Rightarrow> string \<Rightarrow> 's \<Rightarrow> (MemoryError + string) \<times> 's" where
  "read_modify_write rd wr r f base s =
     (case rd s r of
        Inl e \<Rightarrow> (Inl e, s)
      | Inr (c, h) \<Rightarrow> wr \<lparr>wr_RelPath = r, wr_Content = f c, wr_BaseSHA = (if base \<noteq> [] then base else h)\<rparr> s)"

text \<open>
  \<open>stored c\<close> is what the provider keeps of a content, \<open>storable r c\<close> when it keeps it so that it can be read
  back. Nothing else is promised of a write that was refused than that it changed nothing.
\<close>

locale memory_editor =
  fixes read :: "'s \<Rightarrow> string \<Rightarrow> MemoryError + (string \<times> string)"
    and "write" :: "WriteRequest \<Rightarrow> 's \<Rightarrow> (MemoryError + string) \<times> 's"
    and stored :: "string \<Rightarrow> string"
    and storable :: "string \<Rightarrow> string \<Rightarrow> bool"
  assumes refused: "write req s = (Inl e, s') \<Longrightarrow> s' = s"
    and saw_base: "write req s = (Inr h, s') \<Longrightarrow> wr_BaseSHA req \<noteq> [] \<Longrightarrow>
      \<exists>c. read s (wr_RelPath req) = Inr (c, wr_BaseSHA req)"
    and read_back: "write req s = (Inr h, s') \<Longrightarrow> storable (wr_RelPath req) (wr_Content req) \<Longrightarrow>
      read s' (wr_RelPath req) = Inr (stored (wr_Content req), h)"
begin

text \<open>Of two editors of one note that saw the same version, one at most succeeds.\<close>

lemma no_lost_update:
  assumes "write a s = (Inr h, s')" "storable (wr_RelPath a) (wr_Content a)" "h \<noteq> wr_BaseSHA a"
    and "wr_RelPath b = wr_RelPath a" "wr_BaseSHA b = wr_BaseSHA a" "wr_BaseSHA a \<noteq> []"
  shows "\<exists>e. write b s' = (Inl e, s')"
proof (cases "write b s'")
  case (Pair r s'')
  show ?thesis
  proof (cases r)
    case (Inl e)
    then show ?thesis using Pair refused by simp
  next
    case (Inr k)
    then obtain c where "read s' (wr_RelPath b) = Inr (c, wr_BaseSHA b)"
      using Pair saw_base assms(5,6) by metis
    then show ?thesis using read_back [OF assms(1,2)] assms(3-5) by simp
  qed
qed

lemma modify_refused: "read_modify_write read write r f base s = (Inl e, s') \<Longrightarrow> s' = s"
  by (auto simp: read_modify_write_def dest: refused split: sum.splits)

lemma modify_applies:
  assumes "read_modify_write read write r f base s = (Inr h, s')" "read s r = Inr (c, k)" "storable r (f c)"
  shows "read s' r = Inr (stored (f c), h)"
  using assms read_back by (fastforce simp: read_modify_write_def)

lemma modify_saw_base:
  assumes "read_modify_write read write r f base s = (Inr h, s')" "base \<noteq> []"
  shows "\<exists>c. read s r = Inr (c, base)"
  using assms saw_base by (fastforce simp: read_modify_write_def split: sum.splits)

end

end
