(* ===== verification/Memory_Ledger.thy ===== *)
theory Memory_Ledger
  imports Memory_Editor
begin

text \<open>
  The assist-mem ledger: a JSONL file that is edited in place (\<open>internal/memory/ledger_editor.go\<close>) and
  mirrored into the store (\<open>internal/memory/ledger_syncer.go\<close>). \<open>decode\<close> stands for the JSON decoder
  into a ledger entry, \<open>archive\<close> for decoding into a map, setting its status and encoding it again,
  \<open>sha\<close> for hex SHA-256. The file is \<open>None\<close> while it does not exist.
\<close>

section \<open>The editor\<close>

record ledgerEntry =
  le_CreatedAt :: string
  le_Evidence :: string
  le_ID :: string
  le_Project :: string
  le_Scope :: string
  le_Source :: string
  le_Status :: string
  le_Text :: string
  le_Topic :: string
  le_Triggers :: "string list"
  le_Type :: string

definition assistMemIDFromRelPath :: "string \<Rightarrow> MemoryError + string" where
  "assistMemIDFromRelPath relPath =
     (if \<not> has_prefix relPath ''assist-mem/'' \<or> \<not> has_suffix relPath ''.jsonl'' then Inl ErrPathTraversal
      else let i = trim_suffix (trim_prefix relPath ''assist-mem/'') ''.jsonl'' in
        if i = [] \<or> str_contains i ''/'' \<or> str_contains i ''..'' then Inl ErrPathTraversal
        else Inr i)"

definition file_text :: "string \<Rightarrow> string list" where
  "file_text data =
     (let t = trim_right_of (\<lambda>c. c = newline) data in
      if t = [] then [] else split_byte newline t)"

text \<open>The first line whose entry has the id; blank and undecodable lines are passed over.\<close>

fun find_line :: "(string \<Rightarrow> ledgerEntry option) \<Rightarrow> string \<Rightarrow> string list \<Rightarrow> nat option" where
  "find_line decode i [] = None"
| "find_line decode i (line # ls) =
     (if trim_space line = [] then map_option Suc (find_line decode i ls)
      else case decode line of
             None \<Rightarrow> map_option Suc (find_line decode i ls)
           | Some e \<Rightarrow> if trim_space (le_ID e) = i then Some 0 else map_option Suc (find_line decode i ls))"

definition readLines :: "(string \<Rightarrow> ledgerEntry option) \<Rightarrow> string option \<Rightarrow> string \<Rightarrow> MemoryError + (string list \<times> nat)" where
  "readLines decode ledger i =
     (case ledger of
        None \<Rightarrow> Inl NotExist
      | Some data \<Rightarrow>
          (case find_line decode i (file_text data) of
             None \<Rightarrow> Inl NotExist
           | Some idx \<Rightarrow> Inr (file_text data, idx)))"

definition Read :: "(string \<Rightarrow> ledgerEntry option) \<Rightarrow> (string \<Rightarrow> string) \<Rightarrow> string option \<Rightarrow> string \<Rightarrow> MemoryError + (string \<times> string)" where
  "Read decode sha ledger relPath =
     (case assistMemIDFromRelPath relPath of
        Inl e \<Rightarrow> Inl e
      | Inr i \<Rightarrow>
          (case readLines decode ledger i of
             Inl e \<Rightarrow> Inl e
           | Inr (lines, idx) \<Rightarrow>
               (let content = trim_space (lines ! idx) in Inr (content, sha content))))"

text \<open>The temporary file is renamed over the ledger: it is replaced as a whole or, when a step fails, not at all.\<close>

definition writeLines :: "bool \<Rightarrow> string list \<Rightarrow> string option \<Rightarrow> string option \<times> bool" where
  "writeLines ok lines ledger = (if ok then (Some (str_join [newline] lines @ [newline]), True) else (ledger, False))"

definition Write ::
  "(string \<Rightarrow> ledgerEntry option) \<Rightarrow> (string \<Rightarrow> string) \<Rightarrow> bool \<Rightarrow> WriteRequest \<Rightarrow> string option \<Rightarrow>
   string option \<times> (MemoryError + string)" where
  "Write decode sha ok req ledger =
     (case assistMemIDFromRelPath (wr_RelPath req) of
        Inl e \<Rightarrow> (ledger, Inl e)
      | Inr i \<Rightarrow>
     (case decode (wr_Content req) of
        None \<Rightarrow> (ledger, Inl InvalidJSON)
      | Some entry \<Rightarrow>
          if trim_space (le_ID entry) \<noteq> i then (ledger, Inl IdMismatch)
          else
     (case readLines decode ledger i of
        Inl e \<Rightarrow> (ledger, Inl e)
      | Inr (lines, idx) \<Rightarrow>
          (let current = trim_space (lines ! idx) in
           if wr_BaseSHA req \<noteq> [] \<and> sha current \<noteq> wr_BaseSHA req then (ledger, Inl ErrConflict)
           else let nxt = trim_space (wr_Content req) in
             (case writeLines ok (lines[idx := nxt]) ledger of
                (ledger, False) \<Rightarrow> (ledger, Inl IOFailed)
              | (ledger, True) \<Rightarrow> (ledger, Inr (sha nxt)))))))"

definition Archive ::
  "(string \<Rightarrow> ledgerEntry option) \<Rightarrow> (string \<Rightarrow> string) \<Rightarrow> (string \<Rightarrow> string option) \<Rightarrow> bool \<Rightarrow> string \<Rightarrow> string \<Rightarrow>
   string option \<Rightarrow> string option \<times> (MemoryError + string)" where
  "Archive decode sha archive ok relPath baseSHA ledger =
     (case Read decode sha ledger relPath of
        Inl e \<Rightarrow> (ledger, Inl e)
      | Inr (content, h) \<Rightarrow>
          if baseSHA \<noteq> [] \<and> h \<noteq> baseSHA then (ledger, Inl ErrConflict)
          else (case archive content of
                  None \<Rightarrow> (ledger, Inl InvalidJSON)
                | Some nxt \<Rightarrow>
                    Write decode sha ok \<lparr>wr_RelPath = relPath, wr_Content = nxt, wr_BaseSHA = h\<rparr> ledger))"

section \<open>The mirror\<close>

text \<open>\<open>parse_time\<close> is \<open>time.Parse\<close> with RFC 3339.\<close>

record ledgerCandidate =
  lc_entry :: ledgerEntry
  lc_lineNo :: nat
  lc_time :: "int option"

definition equal_fold :: "string \<Rightarrow> string \<Rightarrow> bool" where
  "equal_fold s t = (to_lower s = to_lower t)"

definition ledgerCandidateFromEntry :: "(string \<Rightarrow> int option) \<Rightarrow> ledgerEntry \<Rightarrow> nat \<Rightarrow> ledgerCandidate option" where
  "ledgerCandidateFromEntry parse_time e lineNo =
     (let status = (if trim_space (le_Status e) = [] then ''active'' else trim_space (le_Status e)) in
      if \<not> equal_fold status ''active'' \<or> trim_space (le_ID e) = [] then None
      else Some \<lparr>lc_entry = e, lc_lineNo = lineNo, lc_time = parse_time (trim_space (le_CreatedAt e))\<rparr>)"

definition isNewerThan :: "ledgerCandidate \<Rightarrow> ledgerCandidate \<Rightarrow> bool" where
  "isNewerThan c other =
     (case (lc_time c, lc_time other) of
        (Some t, Some u) \<Rightarrow> if t \<noteq> u then t > u else lc_lineNo c > lc_lineNo other
      | _ \<Rightarrow> lc_lineNo c > lc_lineNo other)"

definition ledgerTopicKey :: "ledgerEntry \<Rightarrow> string" where
  "ledgerTopicKey e =
     (let topic = trim_space (le_Topic e) in
      if topic = [] then ''id:'' @ trim_space (le_ID e)
      else str_join [CHR 0x00] [''topic'', trim_space (le_Project e), trim_space (le_Scope e), topic])"

text \<open>One line of the scan; \<open>lineNo\<close> counts every line from 1.\<close>

definition scan_line ::
  "(string \<Rightarrow> ledgerEntry option) \<Rightarrow> (string \<Rightarrow> int option) \<Rightarrow> nat \<times> string \<Rightarrow>
   (string, ledgerCandidate) gomap \<Rightarrow> (string, ledgerCandidate) gomap" where
  "scan_line decode parse_time = (\<lambda>(lineNo, raw) latest.
     (let line = trim_space raw in
      if line = [] then latest
      else case decode line of
             None \<Rightarrow> latest
           | Some e \<Rightarrow>
               (case ledgerCandidateFromEntry parse_time e lineNo of
                  None \<Rightarrow> latest
                | Some candidate \<Rightarrow>
                    (let key = ledgerTopicKey (lc_entry candidate) in
                     case map_of latest key of
                       None \<Rightarrow> AList.update key candidate latest
                     | Some current \<Rightarrow>
                         if isNewerThan candidate current then AList.update key candidate latest else latest))))"

definition latest_by_topic ::
  "(string \<Rightarrow> ledgerEntry option) \<Rightarrow> (string \<Rightarrow> int option) \<Rightarrow> string list \<Rightarrow> (string, ledgerCandidate) gomap" where
  "latest_by_topic decode parse_time lines =
     fold (scan_line decode parse_time) (zip [1..<length lines + 1] lines) []"

definition renderLedgerBody :: "ledgerEntry \<Rightarrow> string" where
  "renderLedgerBody e =
     (let b = (if trim_space (le_Text e) \<noteq> [] then trim_space (le_Text e) @ [newline] else []);
          b = (if trim_space (le_Evidence e) \<noteq> []
               then b @ [newline] @ ''Evidence: '' @ trim_space (le_Evidence e) @ [newline] else b);
          b = (if le_Triggers e \<noteq> []
               then b @ [newline] @ ''Triggers: '' @ str_join '', '' (le_Triggers e) @ [newline] else b) in
      if trim_space (le_Scope e) \<noteq> []
      then b @ [newline] @ ''Scope: '' @ trim_space (le_Scope e) @ [newline] else b)"

section \<open>Editing one entry\<close>

lemma find_line_Some:
  "find_line decode i ls = Some n \<Longrightarrow>
     n < length ls \<and> trim_space (ls ! n) \<noteq> [] \<and> (\<exists>e. decode (ls ! n) = Some e \<and> trim_space (le_ID e) = i)"
  by (induction decode i ls arbitrary: n rule: find_line.induct)
    (auto split: if_splits option.splits)

lemma find_line_own:
  "find_line decode i ls = Some n \<Longrightarrow> trim_space l \<noteq> [] \<Longrightarrow> decode l = Some e \<Longrightarrow> trim_space (le_ID e) = i \<Longrightarrow>
     find_line decode i (ls[n := l]) = Some n"
  by (induction decode i ls arbitrary: n rule: find_line.induct) (auto split: if_splits option.splits)

lemma find_line_other:
  "find_line decode i ls = Some n \<Longrightarrow> trim_space l \<noteq> [] \<Longrightarrow> decode l = Some e \<Longrightarrow> trim_space (le_ID e) = i \<Longrightarrow>
     j \<noteq> i \<Longrightarrow> find_line decode j (ls[n := l]) = find_line decode j ls"
proof (induction decode i ls arbitrary: n rule: find_line.induct)
  case (2 decode i line ls)
  show ?case
  proof (cases n)
    case 0
    with 2 show ?thesis by (auto split: if_splits option.splits)
  next
    case (Suc m)
    with 2 show ?thesis by (cases "decode line") (auto split: if_splits)
  qed
qed simp

lemma file_text_ok:
  "list_all (\<lambda>l. newline \<notin> set l) (file_text data) \<and> (file_text data \<noteq> [] \<longrightarrow> last (file_text data) \<noteq> [])"
proof -
  define t where "t = trim_right_of (\<lambda>c. c = newline) data"
  have "last t \<noteq> newline" if "t \<noteq> []"
    using that hd_dropWhile [of "\<lambda>c. c = newline" "rev data"] by (simp add: t_def trim_right_of_def last_rev)
  then show ?thesis
    using split_byte_no_sep [of _ newline t] last_split_byte [of t newline]
    by (auto simp: file_text_def t_def [symmetric] Let_def list_all_iff)
qed

lemma file_text_join:
  assumes "ls \<noteq> []" "list_all (\<lambda>l. newline \<notin> set l) ls" "last ls \<noteq> []"
  shows "file_text (str_join [newline] ls @ [newline]) = ls"
proof -
  have "\<exists>a. str_join [newline] ls = a @ last ls" using assms(1)
  proof (induction ls)
    case (Cons l ls)
    show ?case
    proof (cases "ls = []")
      case False
      then obtain a where "str_join [newline] ls = a @ last ls" using Cons.IH by blast
      with False show ?thesis by (intro exI [of _ "l @ [newline] @ a"]) (simp add: str_join_Cons)
    qed simp
  qed simp
  then obtain a where a: "str_join [newline] ls = a @ last ls" by blast
  then have ne: "str_join [newline] ls \<noteq> []" "last (str_join [newline] ls) = last (last ls)"
    using assms(3) by simp_all
  have "newline \<notin> set (last ls)" using assms(1,2) by (simp add: list_all_iff)
  then have "last (last ls) \<noteq> newline" using assms(3) last_in_set by metis
  then have "dropWhile (\<lambda>c. c = newline) (rev (str_join [newline] ls)) = rev (str_join [newline] ls)"
    using ne by (simp add: dropWhile_fixed hd_rev)
  then have "trim_right_of (\<lambda>c. c = newline) (str_join [newline] ls @ [newline]) = str_join [newline] ls"
    by (simp add: trim_right_of_def)
  then show ?thesis using ne assms by (simp add: file_text_def split_byte_join)
qed

text \<open>What a successful \<open>Write\<close> did, and that it did nothing else.\<close>

lemma Write_ok:
  assumes "Write decode sha ok req ledger = (ledger', Inr h)"
  obtains i e data n where "assistMemIDFromRelPath (wr_RelPath req) = Inr i" "decode (wr_Content req) = Some e"
    "trim_space (le_ID e) = i" "ledger = Some data" "find_line decode i (file_text data) = Some n"
    "wr_BaseSHA req = [] \<or> sha (trim_space (file_text data ! n)) = wr_BaseSHA req"
    "ledger' = Some (str_join [newline] ((file_text data)[n := trim_space (wr_Content req)]) @ [newline])"
    "h = sha (trim_space (wr_Content req))"
  using assms
  by (auto simp: Write_def readLines_def writeLines_def Let_def split: sum.splits option.splits if_splits prod.splits)

lemma Write_guarded_own:
  "case Write decode sha ok req ledger of
     (ledger', Inl e) \<Rightarrow> ledger' = ledger
   | (ledger', Inr h) \<Rightarrow>
       (\<exists>current. Read decode sha ledger (wr_RelPath req) = Inr (current, sha current) \<and>
          (wr_BaseSHA req = [] \<or> wr_BaseSHA req = sha current))"
proof (cases "Write decode sha ok req ledger")
  case (Pair ledger' res)
  show ?thesis
  proof (cases res)
    case (Inl e)
    then show ?thesis
      using Pair by (auto simp: Write_def writeLines_def Let_def split: sum.splits option.splits if_splits prod.splits)
  next
    case (Inr h)
    with Pair have "Write decode sha ok req ledger = (ledger', Inr h)" by simp
    then obtain i e data n where w: "assistMemIDFromRelPath (wr_RelPath req) = Inr i" "ledger = Some data"
      "find_line decode i (file_text data) = Some n"
      "wr_BaseSHA req = [] \<or> sha (trim_space (file_text data ! n)) = wr_BaseSHA req" by (rule Write_ok) blast
    then have "Read decode sha ledger (wr_RelPath req) =
        Inr (trim_space (file_text data ! n), sha (trim_space (file_text data ! n)))"
      by (simp add: Read_def readLines_def Let_def)
    then show ?thesis using w(4) Pair Inr by auto
  qed
qed

text \<open>
  Every failure leaves the ledger as it was, and a write with a base hash only goes through when the
  entry still is the one the editor read.
\<close>

theorem Write_guarded:
  "case Write decode sha ok req ledger of
     (ledger', Inl e) \<Rightarrow> ledger' = ledger
   | (ledger', Inr h) \<Rightarrow>
       (\<exists>current. Read decode sha ledger (wr_RelPath req) = Inr (current, sha current) \<and>
          (wr_BaseSHA req = [] \<or> wr_BaseSHA req = sha current))"
  by (rule Write_guarded_own)

lemma Write_then_Read:
  assumes "Write decode sha ok req ledger = (ledger', Inr h)"
    and "decode [] = None" and "decode (trim_space (wr_Content req)) = decode (wr_Content req)"
    and "newline \<notin> set (trim_space (wr_Content req))"
  shows "Read decode sha ledger' (wr_RelPath req) = Inr (trim_space (wr_Content req), h)
    \<and> (assistMemIDFromRelPath other \<noteq> assistMemIDFromRelPath (wr_RelPath req) \<longrightarrow>
        Read decode sha ledger' other = Read decode sha ledger other)"
proof -
  obtain i e data n where w: "assistMemIDFromRelPath (wr_RelPath req) = Inr i" "decode (wr_Content req) = Some e"
    "trim_space (le_ID e) = i" "ledger = Some data" "find_line decode i (file_text data) = Some n"
    "ledger' = Some (str_join [newline] ((file_text data)[n := trim_space (wr_Content req)]) @ [newline])"
    "h = sha (trim_space (wr_Content req))"
    using assms(1) by (rule Write_ok) blast
  define nxt where "nxt = trim_space (wr_Content req)"
  define ls where "ls = file_text data"
  have d: "decode nxt = Some e" using assms(3) w(2) by (simp add: nxt_def)
  then have ne: "nxt \<noteq> []" using assms(2) by auto
  have trim: "trim_space nxt = nxt" by (simp add: nxt_def)
  with ne have blank: "trim_space nxt \<noteq> []" by simp
  have h: "h = sha nxt" by (simp add: w(7) nxt_def)
  have n: "n < length ls" using find_line_Some [OF w(5)] by (simp add: ls_def)
  have lsok: "list_all (\<lambda>l. newline \<notin> set l) ls" "last ls \<noteq> []"
    using file_text_ok [of data] n by (auto simp: ls_def)
  have "list_all (\<lambda>l. newline \<notin> set l) (ls[n := nxt])"
    using lsok(1) assms(4) n set_update_subset_insert [of ls n nxt] by (auto simp: list_all_iff nxt_def)
  moreover have "last (ls[n := nxt]) \<noteq> []" using lsok(2) ne n last_list_update [of ls n nxt] by (cases "ls = []") auto
  ultimately have got: "file_text (str_join [newline] (ls[n := nxt]) @ [newline]) = ls[n := nxt]"
    using n by (intro file_text_join) auto
  have led: "ledger' = Some (str_join [newline] (ls[n := nxt]) @ [newline])" by (simp add: w(6) nxt_def ls_def)
  have "find_line decode i (ls[n := nxt]) = Some n"
    using w(3,5) blank d by (intro find_line_own) (simp_all add: ls_def)
  then have own: "Read decode sha ledger' (wr_RelPath req) = Inr (nxt, h)"
    using w(1) n h by (simp add: Read_def readLines_def led got trim)
  have "Read decode sha ledger' other = Read decode sha ledger other"
    if diff: "assistMemIDFromRelPath other \<noteq> assistMemIDFromRelPath (wr_RelPath req)"
  proof (cases "assistMemIDFromRelPath other")
    case (Inr j)
    then have "j \<noteq> i" using diff w(1) by simp
    then have eq: "find_line decode j (ls[n := nxt]) = find_line decode j ls"
      using w(3,5) blank d by (intro find_line_other) (simp_all add: ls_def)
    have "m \<noteq> n" if "find_line decode j ls = Some m" for m
      using find_line_Some [OF that] find_line_Some [OF w(5)] \<open>j \<noteq> i\<close> by (auto simp: ls_def)
    then show ?thesis
      using Inr eq by (auto simp: Read_def readLines_def led got w(4) ls_def [symmetric] split: option.splits)
  qed (simp add: Read_def)
  with own show ?thesis by (simp add: nxt_def)
qed

lemma Write_Read_own:
  assumes "Write decode sha ok req ledger = (ledger', Inr h)"
    and "decode [] = None" "decode (trim_space (wr_Content req)) = decode (wr_Content req)"
    and "newline \<notin> set (trim_space (wr_Content req))"
  shows "Read decode sha ledger' (wr_RelPath req) = Inr (trim_space (wr_Content req), h)"
  using Write_then_Read [OF assms] by blast

text \<open>The ledger editor keeps the contract of a memory editor for contents on one line.\<close>

interpretation ledger_editor: memory_editor "Read decode sha" "\<lambda>req l. prod.swap (Write decode sha ok req l)" trim_space
    "\<lambda>_ c. decode [] = None \<and> decode (trim_space c) = decode c \<and> newline \<notin> set (trim_space c)" for decode sha ok
proof
  fix req l e l' h
  assume "prod.swap (Write decode sha ok req l) = (Inl e, l')"
  then show "l' = l" using Write_guarded_own [where decode = decode and sha = sha and ok = ok and req = req and ledger = l] by (auto simp: prod.swap_def split: prod.splits)
next
  fix req l l' h
  assume "prod.swap (Write decode sha ok req l) = (Inr h, l')"
  then have ok: "Write decode sha ok req l = (l', Inr h)" by (auto simp: prod.swap_def prod_eq_iff)
  show "wr_BaseSHA req \<noteq> [] \<Longrightarrow> \<exists>c. Read decode sha l (wr_RelPath req) = Inr (c, wr_BaseSHA req)"
    using Write_guarded_own [where decode = decode and sha = sha and ok = ok and req = req and ledger = l] ok by auto
  show "decode [] = None \<and> decode (trim_space (wr_Content req)) = decode (wr_Content req) \<and>
      newline \<notin> set (trim_space (wr_Content req)) \<Longrightarrow>
      Read decode sha l' (wr_RelPath req) = Inr (trim_space (wr_Content req), h)"
    using Write_Read_own [OF ok] by blast
qed

text \<open>
  What was written on one line is read back, with the hash the writer was given, and every other
  entry reads as before. The decoder is only assumed to skip surrounding white space and to
  reject an empty line.
\<close>

theorem Write_Read:
  assumes "Write decode sha ok req ledger = (ledger', Inr h)"
    and "decode [] = None" and "decode (trim_space (wr_Content req)) = decode (wr_Content req)"
    and "newline \<notin> set (trim_space (wr_Content req))"
  shows "Read decode sha ledger' (wr_RelPath req) = Inr (trim_space (wr_Content req), h)
    \<and> (assistMemIDFromRelPath other \<noteq> assistMemIDFromRelPath (wr_RelPath req) \<longrightarrow>
        Read decode sha ledger' other = Read decode sha ledger other)"
  using assms by (rule Write_then_Read)

text \<open>
  A write of valid JSON that spans two lines is accepted and loses the entry: the ledger then
  holds it on two lines that are no JSON each, and reading it fails.
\<close>

definition entry_named :: "string \<Rightarrow> string \<Rightarrow> string \<Rightarrow> ledgerEntry" where
  "entry_named i status created =
     \<lparr>le_CreatedAt = created, le_Evidence = [], le_ID = i, le_Project = [], le_Scope = [], le_Source = [],
      le_Status = status, le_Text = [], le_Topic = ''t'', le_Triggers = [], le_Type = []\<rparr>"

definition demo_decode :: "string \<Rightarrow> ledgerEntry option" where
  "demo_decode s =
     (if s \<in> {''{a}'', ''{a }'', ''{'' @ [newline] @ ''a}''} then Some (entry_named ''a'' [] [])
      else if s = ''{b}'' then Some (entry_named ''b'' [] []) else None)"

definition demo_ledger :: string where
  "demo_ledger = ''{a}'' @ [newline] @ ''{b}'' @ [newline]"

definition demo_request :: "string \<Rightarrow> WriteRequest" where
  "demo_request content = \<lparr>wr_RelPath = ''assist-mem/a.jsonl'', wr_Content = content, wr_BaseSHA = ''{a}''\<rparr>"

theorem multiline_write_loses_entry:
  "\<exists>ledger'. Write demo_decode (\<lambda>b. b) True (demo_request (''{'' @ [newline] @ ''a}'')) (Some demo_ledger)
       = (Some ledger', Inr (''{'' @ [newline] @ ''a}'')) \<and>
     Read demo_decode (\<lambda>b. b) (Some ledger') ''assist-mem/a.jsonl'' = Inl NotExist"
  by (rule exI [of _ "''{'' @ [newline] @ ''a}'' @ [newline] @ ''{b}'' @ [newline]"], rule conjI) code_simp+

lemma demo_write:
  "Write demo_decode (\<lambda>b. b) True (demo_request ''{a }'') (Some demo_ledger) =
     (Some (''{a }'' @ [newline] @ ''{b}'' @ [newline]), Inr ''{a }'')"
  by code_simp

theorem Write_Read_witness:
  "Read demo_decode (\<lambda>b. b) (Some (''{a }'' @ [newline] @ ''{b}'' @ [newline])) ''assist-mem/a.jsonl'' = Inr (''{a }'', ''{a }'') \<and>
   Read demo_decode (\<lambda>b. b) (Some (''{a }'' @ [newline] @ ''{b}'' @ [newline])) ''assist-mem/b.jsonl''
     = Read demo_decode (\<lambda>b. b) (Some demo_ledger) ''assist-mem/b.jsonl''"
proof -
  have t: "trim_space (wr_Content (demo_request ''{a }'')) = ''{a }''" "wr_Content (demo_request ''{a }'') = ''{a }''"
    "wr_RelPath (demo_request ''{a }'') = ''assist-mem/a.jsonl''"
    "assistMemIDFromRelPath ''assist-mem/b.jsonl'' \<noteq> assistMemIDFromRelPath ''assist-mem/a.jsonl''"
    "demo_decode [] = None" "trim_space ''{a }'' = ''{a }''" by code_simp+
  show ?thesis
    using Write_Read [OF demo_write t(5), of "''assist-mem/b.jsonl''"] t(4,6) unfolding t(1-3) by simp
qed

section \<open>Archiving\<close>

text \<open>
  A delete is a soft delete: when it succeeds, the entry still is in the ledger and reads as
  the archived form of what it was.
\<close>

theorem Archive_archives:
  assumes "Archive decode sha archive ok relPath baseSHA ledger = (ledger', Inr h)"
    and "decode [] = None" and "\<And>s. decode s \<noteq> None \<Longrightarrow> decode (trim_space s) = decode s"
    and "\<And>s t. archive s = Some t \<Longrightarrow> newline \<notin> set (trim_space t)"
  shows "\<exists>content nxt. Read decode sha ledger relPath = Inr (content, sha content) \<and>
     (baseSHA = [] \<or> baseSHA = sha content) \<and> archive content = Some nxt \<and>
     Read decode sha ledger' relPath = Inr (trim_space nxt, h)"
proof -
  obtain content k nxt where a: "Read decode sha ledger relPath = Inr (content, k)" "baseSHA = [] \<or> k = baseSHA"
    "archive content = Some nxt"
    "Write decode sha ok \<lparr>wr_RelPath = relPath, wr_Content = nxt, wr_BaseSHA = k\<rparr> ledger = (ledger', Inr h)"
    using assms(1) by (auto simp: Archive_def split: sum.splits prod.splits option.splits if_splits)
  have k: "k = sha content"
    using a(1) by (auto simp: Read_def Let_def split: sum.splits prod.splits)
  have "Read decode sha ledger' relPath = Inr (trim_space nxt, h)"
  proof -
    have "decode nxt \<noteq> None" using a(4) by (auto simp: Write_def split: sum.splits option.splits)
    then show ?thesis using Write_Read_own [OF a(4) assms(2)] assms(3,4) a(3) by simp
  qed
  with a k show ?thesis by blast
qed

theorem Archive_archives_witness:
  "\<exists>nxt. Read demo_decode (\<lambda>b. b) (Some (''{a }'' @ [newline] @ ''{b}'' @ [newline])) ''assist-mem/a.jsonl''
     = Inr (trim_space nxt, ''{a }'')"
proof -
  let ?archive = "\<lambda>s. if s = ''{a}'' then Some ''{a }'' else None"
  have run: "Archive demo_decode (\<lambda>b. b) ?archive True ''assist-mem/a.jsonl'' [] (Some demo_ledger) =
      (Some (''{a }'' @ [newline] @ ''{b}'' @ [newline]), Inr ''{a }'')"
    by code_simp
  have t: "trim_space ''{a}'' = ''{a}''" "trim_space ''{a }'' = ''{a }''" "trim_space ''{b}'' = ''{b}''"
    "trim_space (''{'' @ [newline] @ ''a}'') = ''{'' @ [newline] @ ''a}''" "demo_decode [] = None"
    by code_simp+
  have "demo_decode (trim_space s) = demo_decode s" if "demo_decode s \<noteq> None" for s
    using that t(1-4) by (auto simp: demo_decode_def split: if_splits)
  then show ?thesis
    using Archive_archives [OF run t(5)] t(2) by (fastforce split: if_splits)
qed

section \<open>The latest entry of a topic\<close>

definition candidate_at ::
  "(string \<Rightarrow> ledgerEntry option) \<Rightarrow> (string \<Rightarrow> int option) \<Rightarrow> nat \<times> string \<Rightarrow> ledgerCandidate list" where
  "candidate_at decode parse_time = (\<lambda>(n, raw).
     if trim_space raw = [] then []
     else case decode (trim_space raw) of
            None \<Rightarrow> []
          | Some e \<Rightarrow> (case ledgerCandidateFromEntry parse_time e n of None \<Rightarrow> [] | Some c \<Rightarrow> [c]))"

definition candidates ::
  "(string \<Rightarrow> ledgerEntry option) \<Rightarrow> (string \<Rightarrow> int option) \<Rightarrow> string list \<Rightarrow> ledgerCandidate list" where
  "candidates decode parse_time lines = concat (map (candidate_at decode parse_time) (zip [1..<length lines + 1] lines))"

definition topic :: "ledgerCandidate \<Rightarrow> string" where
  "topic c = ledgerTopicKey (lc_entry c)"

definition offer :: "ledgerCandidate \<Rightarrow> (string, ledgerCandidate) gomap \<Rightarrow> (string, ledgerCandidate) gomap" where
  "offer c m =
     (case map_of m (topic c) of
        None \<Rightarrow> AList.update (topic c) c m
      | Some d \<Rightarrow> if isNewerThan c d then AList.update (topic c) c m else m)"

lemma scan_line_offer: "scan_line decode parse_time l m = fold offer (candidate_at decode parse_time l) m"
  by (cases l) (auto simp: scan_line_def candidate_at_def offer_def topic_def Let_def split: option.splits)

lemma latest_offers: "latest_by_topic decode parse_time lines = fold offer (candidates decode parse_time lines) []"
proof -
  have "fold (scan_line decode parse_time) xs m = fold offer (concat (map (candidate_at decode parse_time) xs)) m" for xs m
    by (induction xs arbitrary: m) (simp_all add: scan_line_offer)
  then show ?thesis by (simp add: latest_by_topic_def candidates_def)
qed

lemma offer_other: "k \<noteq> topic c \<Longrightarrow> map_of (offer c m) k = map_of m k"
  by (auto simp: offer_def map_of_update split: option.splits)

lemma offer_same:
  "map_of (offer c m) (topic c) =
     Some (case map_of m (topic c) of None \<Rightarrow> c | Some d \<Rightarrow> if isNewerThan c d then c else d)"
  by (auto simp: offer_def map_of_update split: option.splits)

definition stamp :: "ledgerCandidate \<Rightarrow> int \<times> nat" where
  "stamp c = (the (lc_time c), lc_lineNo c)"

definition not_after :: "ledgerCandidate \<Rightarrow> ledgerCandidate \<Rightarrow> bool" where
  "not_after d c \<longleftrightarrow> (case (stamp d, stamp c) of ((t, n), (u, m)) \<Rightarrow> t < u \<or> t = u \<and> n \<le> m)"

lemma isNewerThan_timed:
  "lc_time c \<noteq> None \<Longrightarrow> lc_time d \<noteq> None \<Longrightarrow> isNewerThan c d \<longleftrightarrow> \<not> not_after c d"
  by (auto simp: isNewerThan_def not_after_def stamp_def)

lemma not_after_trans: "not_after a b \<Longrightarrow> not_after b c \<Longrightarrow> not_after a c"
  by (auto simp: not_after_def split: prod.splits)

lemma not_after_linear: "not_after a b \<or> not_after b a"
  by (auto simp: not_after_def split: prod.splits)

lemma offers_latest:
  "list_all (\<lambda>c. topic c = k \<longrightarrow> lc_time c \<noteq> None) cs \<Longrightarrow>
   case map_of (fold offer cs []) k of
     None \<Rightarrow> list_all (\<lambda>c. topic c \<noteq> k) cs
   | Some c \<Rightarrow> c \<in> set cs \<and> topic c = k \<and> list_all (\<lambda>d. topic d = k \<longrightarrow> not_after d c) cs"
proof (induction cs rule: rev_induct)
  case (snoc x cs)
  show ?case
  proof (cases "topic x = k")
    case False
    then have "map_of (fold offer (cs @ [x]) []) k = map_of (fold offer cs []) k" by (auto simp: offer_other)
    then show ?thesis using snoc False by (auto split: option.splits)
  next
    case True
    then have new: "map_of (fold offer (cs @ [x]) []) k =
        Some (case map_of (fold offer cs []) k of None \<Rightarrow> x | Some d \<Rightarrow> if isNewerThan x d then x else d)"
      using offer_same [of x "fold offer cs []"] by simp
    have xt: "lc_time x \<noteq> None" using snoc.prems True by simp
    show ?thesis
    proof (cases "map_of (fold offer cs []) k")
      case None
      then show ?thesis
        using snoc True new not_after_linear [of x x] by (auto simp: list_all_iff)
    next
      case (Some d)
      then have d: "d \<in> set cs" "topic d = k" "list_all (\<lambda>e. topic e = k \<longrightarrow> not_after e d) cs"
        using snoc by auto
      then have dt: "lc_time d \<noteq> None" using snoc.prems by (auto simp: list_all_iff)
      show ?thesis
      proof (cases "isNewerThan x d")
        case newer: True
        then have "not_after d x" using isNewerThan_timed [OF xt dt] not_after_linear by blast
        then show ?thesis
          using new Some newer d True not_after_linear [of x x] not_after_trans by (auto simp: list_all_iff)
      next
        case older: False
        then have "not_after x d" using isNewerThan_timed [OF xt dt] by blast
        then show ?thesis using new Some older d by (auto simp: list_all_iff)
      qed
    qed
  qed
qed simp

text \<open>
  The mirror holds one entry for each topic with an active entry: when the active entries of the
  topic carry times, the one of latest time, and among equal times the one on the last line.
\<close>

theorem mirror_latest:
  assumes "list_all (\<lambda>c. topic c = k \<longrightarrow> lc_time c \<noteq> None) (candidates decode parse_time lines)"
  shows "case map_of (latest_by_topic decode parse_time lines) k of
     None \<Rightarrow> list_all (\<lambda>c. topic c \<noteq> k) (candidates decode parse_time lines)
   | Some c \<Rightarrow> c \<in> set (candidates decode parse_time lines) \<and> topic c = k \<and>
       list_all (\<lambda>d. topic d = k \<longrightarrow> not_after d c) (candidates decode parse_time lines)"
  unfolding latest_offers using assms by (rule offers_latest)

text \<open>
  With an entry that carries no time in between, the newest entry of a topic can lose: here the
  one created at 5 is replaced by the untimed one, and that by the one created at 3.
\<close>

theorem mirror_untimed_revives_older:
  "map_option (lc_time) (map_of (latest_by_topic
      (\<lambda>s. Some (entry_named s [] s)) (\<lambda>s. if s = ''5'' then Some 5 else if s = ''3'' then Some 3 else None)
      [''5'', ''x'', ''3'']) (ledgerTopicKey (entry_named ''5'' [] []))) = Some (Some 3)"
  by code_simp

theorem mirror_latest_witness:
  "\<exists>c. map_of (latest_by_topic
      (\<lambda>s. Some (entry_named s [] s)) (\<lambda>s. if s = ''5'' then Some 5 else if s = ''3'' then Some 3 else None)
      [''5'', ''3'']) (ledgerTopicKey (entry_named ''5'' [] [])) = Some c \<and> lc_lineNo c = 1"
proof -
  let ?d = "\<lambda>s. Some (entry_named s [] s)"
  let ?t = "\<lambda>s. if s = ''5'' then Some 5 else if s = ''3'' then Some 3 else None :: int option"
  let ?k = "ledgerTopicKey (entry_named ''5'' [] [])"
  have timed: "list_all (\<lambda>c. topic c = ?k \<longrightarrow> lc_time c \<noteq> None) (candidates ?d ?t [''5'', ''3''])"
    by code_simp
  have two: "map lc_lineNo (candidates ?d ?t [''5'', ''3'']) = [1, 2]"
    "list_all (\<lambda>c. topic c = ?k) (candidates ?d ?t [''5'', ''3''])"
    "list_all (\<lambda>c. lc_lineNo c = 1 \<or> \<not> list_all (\<lambda>d. topic d = ?k \<longrightarrow> not_after d c) (candidates ?d ?t [''5'', ''3''])) (candidates ?d ?t [''5'', ''3''])"
    by code_simp+
  show ?thesis
    using mirror_latest [OF timed] two
    by (cases "map_of (latest_by_topic ?d ?t [''5'', ''3'']) ?k") (auto simp: list_all_iff Ball_def)
qed

end
