(* ===== verification/Frontmatter.thy ===== *)
theory Frontmatter
  imports Prelude
begin

text \<open>
  The YAML header of a memory note as text: its extraction (\<open>internal/memory/syncer.go\<close>) and the insertion
  of feedback fields (\<open>internal/memory/feedback.go\<close>). A Go map of fields is an association list with
  distinct keys; the result does not depend on its order (\<open>setFrontmatterFields_perm\<close>).
\<close>

section \<open>Reading the header\<close>

text \<open>\<open>strings.TrimLeft\<close> of the byte order mark, blanks and line ends.\<close>

fun trim_front :: "string \<Rightarrow> string" where
  "trim_front (a # s) =
     (if a \<in> {CHR '' '', CHR 0x09, CHR 0x0D, newline} then trim_front s
      else if a = CHR 0xEF \<and> take 2 s = [CHR 0xBB, CHR 0xBF] then trim_front (drop 2 s)
      else a # s)"
| "trim_front [] = []"

definition is_fence :: "string \<Rightarrow> bool" where
  "is_fence l \<longleftrightarrow> trim_space l = ''---''"

text \<open>The lines before the first fence and those after it.\<close>

fun cut_fence :: "string list \<Rightarrow> (string list \<times> string list) option" where
  "cut_fence [] = None"
| "cut_fence (l # ls) =
     (if is_fence l then Some ([], ls) else map_option (\<lambda>(b, a). (l # b, a)) (cut_fence ls))"

definition extractFrontmatterBlock :: "string \<Rightarrow> string" where
  "extractFrontmatterBlock content0 =
     (let content = trim_front content0; lines = split_byte newline content in
      if \<not> has_prefix content ''---'' \<or> \<not> is_fence (hd lines) then []
      else (case cut_fence (tl lines) of None \<Rightarrow> [] | Some (body, _) \<Rightarrow> str_join [newline] body))"

definition extractBody :: "string \<Rightarrow> string" where
  "extractBody content =
     (let trimmed = trim_front content; lines = split_byte newline trimmed in
      if \<not> has_prefix trimmed ''---'' \<or> \<not> is_fence (hd lines) then content
      else (case cut_fence (tl lines) of
              None \<Rightarrow> content
            | Some (_, rest) \<Rightarrow> trim_left_of (\<lambda>c. c = CHR 0x0D \<or> c = newline) (str_join [newline] rest)))"

section \<open>Setting fields\<close>

definition yamlQuote :: "string \<Rightarrow> string" where
  "yamlQuote s0 =
     (let s = trim_space s0;
          s = concat (map (\<lambda>c. if c = CHR 0x5C then [c, c] else [c]) s);
          s = concat (map (\<lambda>c. if c = CHR 0x22 then [CHR 0x5C, c] else [c]) s);
          s = map (\<lambda>c. if c = newline then CHR '' '' else c) s;
          s = map (\<lambda>c. if c = CHR 0x0D then CHR '' '' else c) s
      in [CHR 0x22] @ s @ [CHR 0x22])"

definition frontmatterLineHasKey :: "string \<Rightarrow> string \<Rightarrow> bool" where
  "frontmatterLineHasKey line key =
     (let trimmed = trim_left_of (\<lambda>c. c = CHR '' '' \<or> c = CHR 0x09) line in
      CHR '':'' \<in> set trimmed \<and> trim_space (takeWhile (\<lambda>c. c \<noteq> CHR '':'') trimmed) = key)"

definition preferred :: "string list" where
  "preferred = [''feedback_vote'', ''feedback_comment'', ''feedback_status'']"

definition orderedFrontmatterKeys :: "(string \<times> string) list \<Rightarrow> string list" where
  "orderedFrontmatterKeys kv =
     filter (\<lambda>k. k \<in> fst ` set kv) preferred @ sort (filter (\<lambda>k. k \<notin> set preferred) (map fst kv))"

definition field_line :: "(string \<times> string) list \<Rightarrow> string \<Rightarrow> string" where
  "field_line kv key = key @ '': '' @ (case map_of kv key of Some v \<Rightarrow> v | None \<Rightarrow> [])"

text \<open>The first key of the list a line has.\<close>

definition line_key :: "string list \<Rightarrow> string \<Rightarrow> string option" where
  "line_key keys line = find (frontmatterLineHasKey line) keys"

definition set_line :: "(string \<times> string) list \<Rightarrow> string list \<Rightarrow> string \<Rightarrow> string" where
  "set_line kv keys line = (case line_key keys line of Some k \<Rightarrow> field_line kv k | None \<Rightarrow> line)"

definition set_front :: "(string \<times> string) list \<Rightarrow> string list \<Rightarrow> string list \<Rightarrow> string list" where
  "set_front kv keys front =
     map (set_line kv keys) front @
     map (field_line kv) (filter (\<lambda>k. Some k \<notin> set (map (line_key keys) front)) keys)"

definition setFrontmatterFields :: "string \<Rightarrow> (string \<times> string) list \<Rightarrow> string" where
  "setFrontmatterFields content kv =
     (if kv = [] then content
      else let keys = orderedFrontmatterKeys kv;
               fresh = ''---'' @ [newline] @ str_join [newline] (map (field_line kv) keys) @
                 [newline] @ ''---'' @ [newline, newline] @ content;
               lines = split_byte newline content
           in if \<not> is_fence (hd lines) then fresh
              else (case cut_fence (tl lines) of
                      None \<Rightarrow> fresh
                    | Some (front, rest) \<Rightarrow>
                        str_join [newline]
                          (set_front kv keys (hd lines # front) @ drop (Suc (length front)) lines)))"

section \<open>Lemmas\<close>

text \<open>Fields as the callers build them: a plain key and a value on one line.\<close>

definition proper_key :: "string \<Rightarrow> bool" where
  "proper_key k \<longleftrightarrow> trimmed k \<and> CHR '':'' \<notin> set k \<and> newline \<notin> set k"

definition proper_fields :: "(string \<times> string) list \<Rightarrow> bool" where
  "proper_fields kv \<longleftrightarrow> distinct (map fst kv) \<and> list_all (\<lambda>(k, v). proper_key k \<and> newline \<notin> set v) kv"

lemma cut_fence_split:
  "cut_fence ls = Some (b, a) \<longleftrightarrow> (\<exists>f. ls = b @ f # a \<and> is_fence f \<and> list_all (\<lambda>l. \<not> is_fence l) b)"
proof (induction ls arbitrary: b)
  case (Cons l ls)
  show ?case
  proof (cases "is_fence l")
    case True
    then show ?thesis by (cases b) auto
  next
    case False
    then show ?thesis using Cons by (cases b) auto
  qed
qed simp

lemma set_orderedFrontmatterKeys [simp]: "set (orderedFrontmatterKeys kv) = fst ` set kv"
  by (auto simp: orderedFrontmatterKeys_def)

lemma distinct_orderedFrontmatterKeys:
  "distinct (map fst kv) \<Longrightarrow> distinct (orderedFrontmatterKeys kv)"
  by (auto simp: orderedFrontmatterKeys_def preferred_def)

lemma proper_fields_key:
  assumes "proper_fields kv" "k \<in> fst ` set kv"
  shows "proper_key k" "newline \<notin> set (field_line kv k)"
proof -
  obtain v where v: "(k, v) \<in> set kv" using assms(2) by auto
  then have "map_of kv k = Some v" using assms(1) by (simp add: proper_fields_def)
  then show "newline \<notin> set (field_line kv k)"
    using assms(1) v by (fastforce simp: proper_fields_def field_line_def list_all_iff proper_key_def)
  show "proper_key k" using assms(1) v by (fastforce simp: proper_fields_def list_all_iff)
qed

lemma line_has_unique_key: "frontmatterLineHasKey l k \<Longrightarrow> frontmatterLineHasKey l k' \<Longrightarrow> k = k'"
  by (simp add: frontmatterLineHasKey_def Let_def)

lemma line_key_Some: "line_key keys l = Some k \<longleftrightarrow> k \<in> set keys \<and> frontmatterLineHasKey l k"
proof
  show "line_key keys l = Some k \<Longrightarrow> k \<in> set keys \<and> frontmatterLineHasKey l k"
    unfolding line_key_def by (auto simp: find_Some_iff)
next
  assume a: "k \<in> set keys \<and> frontmatterLineHasKey l k"
  then obtain k' where k': "line_key keys l = Some k'"
    unfolding line_key_def by (metis find_None_iff not_None_eq)
  then have "frontmatterLineHasKey l k'" unfolding line_key_def by (auto simp: find_Some_iff)
  then show "line_key keys l = Some k" using a k' line_has_unique_key by blast
qed

lemma field_line_has_key:
  assumes "proper_key k"
  shows "frontmatterLineHasKey (field_line kv k) k' \<longleftrightarrow> k' = k"
proof -
  let ?v = "case map_of kv k of Some v \<Rightarrow> v | None \<Rightarrow> []"
  let ?ws = "\<lambda>c. c = CHR '' '' \<or> c = CHR 0x09"
  have "trim_left_of ?ws (k @ '': '' @ ?v) = k @ '': '' @ ?v"
  proof (cases k)
    case (Cons c cs)
    then have "\<not> is_space c" using assms by (simp add: proper_key_def trimmed_def)
    then show ?thesis using Cons by (auto simp: trim_left_of_def is_space_def byte_def)
  qed (simp add: trim_left_of_def)
  moreover have "takeWhile (\<lambda>c. c \<noteq> CHR '':'') (k @ '': '' @ ?v) = k"
    using assms by (auto simp: proper_key_def takeWhile_append)
  moreover have "trim_space k = k" using assms by (simp add: proper_key_def trim_space_id)
  ultimately show ?thesis by (auto simp: frontmatterLineHasKey_def field_line_def Let_def)
qed

lemma trim_space_keeps: "c \<in> set s \<Longrightarrow> \<not> is_space c \<Longrightarrow> c \<in> set (trim_space s)"
proof -
  have keep: "c \<in> set (dropWhile is_space t) \<longleftrightarrow> c \<in> set t" if "\<not> is_space c" for t
    using that by (induction t) auto
  show "c \<in> set s \<Longrightarrow> \<not> is_space c \<Longrightarrow> c \<in> set (trim_space s)"
    by (simp add: trim_space_def trim_left_of_def trim_right_of_def keep)
qed

lemma key_line_no_fence: "frontmatterLineHasKey l k \<Longrightarrow> \<not> is_fence l"
proof -
  assume "frontmatterLineHasKey l k"
  then have "CHR '':'' \<in> set l"
    by (auto simp: frontmatterLineHasKey_def trim_left_of_def Let_def dest: set_dropWhileD)
  then have "CHR '':'' \<in> set (trim_space l)" by (rule trim_space_keeps) (simp add: is_space_def byte_def)
  then show ?thesis by (auto simp: is_fence_def)
qed

lemma fence_no_key: "is_fence l \<Longrightarrow> line_key keys l = None"
  using key_line_no_fence [of l] line_key_Some [of keys l] by (cases "line_key keys l") auto


lemma line_key_field: "proper_key k \<Longrightarrow> line_key keys (field_line kv k) = (if k \<in> set keys then Some k else None)"
  using field_line_has_key [of k] line_key_Some [of keys "field_line kv k"]
  by (cases "line_key keys (field_line kv k)") auto

definition proper_keys :: "string list \<Rightarrow> bool" where
  "proper_keys keys \<longleftrightarrow> list_all proper_key keys"

lemma line_key_set_line:
  assumes "proper_keys keys"
  shows "line_key keys (set_line kv keys l) = line_key keys l"
proof (cases "line_key keys l")
  case (Some k)
  then have "k \<in> set keys" by (simp add: line_key_Some)
  then show ?thesis using Some assms by (simp add: set_line_def line_key_field proper_keys_def list_all_iff)
qed (simp add: set_line_def)

lemma set_line_idem: "proper_keys keys \<Longrightarrow> set_line kv keys (set_line kv keys l) = set_line kv keys l"
  using line_key_set_line [of keys kv l] unfolding set_line_def [of kv keys "set_line kv keys l"]
  by (simp add: set_line_def split: option.splits)

lemma set_line_field: "proper_keys keys \<Longrightarrow> k \<in> set keys \<Longrightarrow> set_line kv keys (field_line kv k) = field_line kv k"
  by (simp add: set_line_def line_key_field proper_keys_def list_all_iff)

lemma line_keys_set_front:
  assumes "proper_keys keys"
  shows "set (map (line_key keys) (set_front kv keys front)) =
    set (map (line_key keys) front) \<union> Some ` set keys"
proof -
  have "line_key keys (field_line kv k) = Some k" if "k \<in> set keys" for k
    using that assms by (simp add: line_key_field proper_keys_def list_all_iff)
  then show ?thesis using assms by (force simp: set_front_def line_key_set_line image_iff)
qed

lemma set_front_idem:
  assumes "proper_keys keys"
  shows "set_front kv keys (set_front kv keys front) = set_front kv keys front"
proof -
  have none: "filter (\<lambda>k. Some k \<notin> set (map (line_key keys) (set_front kv keys front))) keys = []"
    by (auto simp: line_keys_set_front [OF assms] filter_empty_conv simp del: set_map)
  have "map (set_line kv keys) (set_front kv keys front) = set_front kv keys front"
    by (auto simp: set_front_def assms set_line_idem set_line_field)
  then show ?thesis unfolding set_front_def [of kv keys "set_front kv keys front"] none by simp
qed

lemma set_front_sets:
  assumes "proper_keys keys" "k \<in> set keys"
  shows "field_line kv k \<in> set (set_front kv keys front)"
    and "l \<in> set (set_front kv keys front) \<Longrightarrow> frontmatterLineHasKey l k \<Longrightarrow> l = field_line kv k"
proof -
  show "field_line kv k \<in> set (set_front kv keys front)"
  proof (cases "Some k \<in> set (map (line_key keys) front)")
    case True
    then obtain l where "l \<in> set front" "line_key keys l = Some k" by (metis (no_types) in_set_conv_nth length_map nth_map)
    then have "set_line kv keys l \<in> set (set_front kv keys front)" by (simp add: set_front_def)
    moreover have "set_line kv keys l = field_line kv k" using \<open>line_key keys l = Some k\<close> by (simp add: set_line_def)
    ultimately show ?thesis by simp
  next
    case False
    then show ?thesis using assms(2) by (auto simp: set_front_def)
  qed
  assume l: "l \<in> set (set_front kv keys front)" "frontmatterLineHasKey l k"
  then have key: "line_key keys l = Some k" using assms(2) by (simp add: line_key_Some)
  from l(1) consider m where "l = set_line kv keys m" | j where "l = field_line kv j" "j \<in> set keys"
    by (auto simp: set_front_def)
  then show "l = field_line kv k"
  proof cases
    case 1
    then have "line_key keys m = Some k" using key line_key_set_line [OF assms(1), of kv m] by simp
    then show ?thesis using 1 by (simp add: set_line_def)
  next
    case 2
    then show ?thesis using key assms(1) by (simp add: line_key_field proper_keys_def list_all_iff)
  qed
qed

lemma set_front_keeps:
  assumes "proper_keys keys"
  shows "filter (\<lambda>l. line_key keys l = None) (set_front kv keys front) = filter (\<lambda>l. line_key keys l = None) front"
proof -
  have "filter (\<lambda>l. line_key keys l = None) (map (set_line kv keys) ls) = filter (\<lambda>l. line_key keys l = None) ls" for ls
    using line_key_set_line [OF assms] by (induction ls) (simp_all add: set_line_def)
  moreover have "filter (\<lambda>l. line_key keys l = None) (map (field_line kv) ks) = []" if "set ks \<subseteq> set keys" for ks
  proof -
    have "line_key keys (field_line kv k) \<noteq> None" if "k \<in> set ks" for k
      using that \<open>set ks \<subseteq> set keys\<close> assms by (auto simp: line_key_field proper_keys_def list_all_iff)
    then show ?thesis by (auto simp: filter_empty_conv)
  qed
  ultimately show ?thesis by (simp add: set_front_def)
qed

lemma set_front_no_fence:
  assumes "proper_keys keys" "list_all (\<lambda>l. \<not> is_fence l) front"
  shows "list_all (\<lambda>l. \<not> is_fence l) (set_front kv keys front)"
proof -
  have field: "\<not> is_fence (field_line kv k)" if "k \<in> set keys" for k
    using that assms(1) key_line_no_fence [of "field_line kv k" k]
    by (simp add: field_line_has_key proper_keys_def list_all_iff)
  have "\<not> is_fence (set_line kv keys l)" if "l \<in> set front" for l
    using that assms(2) field by (auto simp: set_line_def list_all_iff line_key_Some split: option.splits)
  then show ?thesis using field by (auto simp: set_front_def list_all_iff)
qed

lemma set_front_lines:
  assumes "\<forall>k\<in>set keys. newline \<notin> set (field_line kv k)" "list_all (\<lambda>l. newline \<notin> set l) front"
  shows "list_all (\<lambda>l. newline \<notin> set l) (set_front kv keys front)"
  using assms by (auto simp: set_front_def set_line_def list_all_iff line_key_Some split: option.splits)

lemma set_front_fence: "is_fence f \<Longrightarrow> set_front kv keys (f # front) = f # set_front kv keys front"
  by (simp add: set_front_def set_line_def fence_no_key)

lemma proper_fields_keys:
  assumes "proper_fields kv"
  shows "proper_keys (orderedFrontmatterKeys kv)"
    and "\<forall>k\<in>set (orderedFrontmatterKeys kv). newline \<notin> set (field_line kv k)"
  using proper_fields_key [OF assms] by (simp_all add: proper_keys_def list_all_iff)

text \<open>A document with a header: an opening fence, lines, a closing fence, the rest.\<close>

definition has_header :: "string \<Rightarrow> string \<Rightarrow> string list \<Rightarrow> string \<Rightarrow> string list \<Rightarrow> bool" where
  "has_header content f front g rest \<longleftrightarrow>
     split_byte newline content = f # front @ g # rest \<and> is_fence f \<and> is_fence g \<and> list_all (\<lambda>l. \<not> is_fence l) front"

lemma no_newline_split: "list_all (\<lambda>l. newline \<notin> set l) (split_byte newline s)"
  using split_byte_no_sep [of _ newline s] by (auto simp: list_all_iff)

lemma setFrontmatterFields_header:
  assumes "has_header content f front g rest" "kv \<noteq> []" "proper_fields kv"
  shows "has_header (setFrontmatterFields content kv) f (set_front kv (orderedFrontmatterKeys kv) front) g rest"
proof -
  let ?ks = "orderedFrontmatterKeys kv"
  let ?new = "f # set_front kv ?ks front @ g # rest"
  have lines: "split_byte newline content = f # front @ g # rest" "is_fence f" "is_fence g"
      "list_all (\<lambda>l. \<not> is_fence l) front"
    using assms(1) by (simp_all add: has_header_def)
  then have "cut_fence (tl (split_byte newline content)) = Some (front, rest)" by (simp add: cut_fence_split)
  then have eq: "setFrontmatterFields content kv = str_join [newline] ?new"
    using lines assms(2) by (simp add: setFrontmatterFields_def Let_def set_front_fence)
  have nl: "list_all (\<lambda>l. newline \<notin> set l) (f # front @ g # rest)" using no_newline_split [of content] lines(1) by simp
  then have "list_all (\<lambda>l. newline \<notin> set l) ?new"
    using set_front_lines [OF proper_fields_keys(2) [OF assms(3)], of front] by simp
  then have "split_byte newline (setFrontmatterFields content kv) = ?new" unfolding eq by (intro split_byte_join) simp
  then show ?thesis
    using lines set_front_no_fence [OF proper_fields_keys(1) [OF assms(3)]] by (simp add: has_header_def)
qed

lemma setFrontmatterFields_fresh:
  assumes "\<nexists>f front g rest. has_header content f front g rest" "kv \<noteq> []" "proper_fields kv"
  shows "has_header (setFrontmatterFields content kv) ''---'' (map (field_line kv) (orderedFrontmatterKeys kv)) ''---''
    ([] # split_byte newline content)"
proof -
  let ?ks = "orderedFrontmatterKeys kv"
  obtain l ls where ls: "split_byte newline content = l # ls" by (cases "split_byte newline content") simp_all
  have "cut_fence ls = None" if "is_fence l"
    using assms(1) that ls by (cases "cut_fence ls") (fastforce simp: cut_fence_split has_header_def)+
  then have eq: "setFrontmatterFields content kv = ''---'' @ [newline] @ str_join [newline] (map (field_line kv) ?ks) @
      [newline] @ ''---'' @ [newline, newline] @ content"
    using assms(2) ls by (simp add: setFrontmatterFields_def Let_def)
  have ne: "map (field_line kv) ?ks \<noteq> []"
    using assms(2) set_orderedFrontmatterKeys [of kv] by (cases "?ks = []") auto
  have join: "split_byte newline (str_join [newline] ms @ newline # s) = ms @ split_byte newline s"
    if "ms \<noteq> []" "list_all (\<lambda>l. newline \<notin> set l) ms" for ms s
    using that
  proof (induction ms)
    case (Cons m ms)
    then show ?case by (cases "ms = []") (simp_all add: str_join_Cons split_byte_append)
  qed simp
  have nl: "list_all (\<lambda>l. newline \<notin> set l) (map (field_line kv) ?ks)"
    using proper_fields_keys(2) [OF assms(3)] by (simp add: list_all_iff)
  have "split_byte newline (setFrontmatterFields content kv) =
      ''---'' # map (field_line kv) ?ks @ ''---'' # [] # split_byte newline content"
    unfolding eq using join [OF ne nl, of "''---'' @ [newline, newline] @ content"] by simp
  moreover have "\<not> is_fence (field_line kv k)" if "k \<in> set ?ks" for k
  proof -
    have "proper_key k" using that proper_fields_keys(1) [OF assms(3)] by (simp only: proper_keys_def list_all_iff)
    then show ?thesis using key_line_no_fence [of "field_line kv k" k] by (simp add: field_line_has_key)
  qed
  moreover have "is_fence ''---''" by (simp add: is_fence_def trim_space_id trimmed_def is_space_def byte_def)
  ultimately show ?thesis by (simp add: has_header_def list_all_iff)
qed

lemma split_byte_inj: "split_byte sep s = split_byte sep t \<Longrightarrow> s = t"
  by (metis join_split_byte)

lemma header_unique:
  "has_header c f front g rest \<Longrightarrow> has_header c f' front' g' rest' \<Longrightarrow> f' = f \<and> front' = front \<and> g' = g \<and> rest' = rest"
  using cut_fence_split [of "front @ g # rest" front rest] cut_fence_split [of "front @ g # rest" front' rest']
  by (auto simp: has_header_def)


lemma field_line_at: "proper_fields kv \<Longrightarrow> (k, v) \<in> set kv \<Longrightarrow> field_line kv k = k @ '': '' @ v"
  by (simp add: field_line_def proper_fields_def)

lemma header_body:
  assumes "has_header content f front g rest" "has_prefix content ''---''"
  shows "extractBody content = trim_left_of (\<lambda>c. c = CHR 0x0D \<or> c = newline) (str_join [newline] rest)"
    and "extractFrontmatterBlock content = str_join [newline] front"
proof -
  have "trim_front content = content" using assms(2) by (auto simp: has_prefix_iff)
  moreover have "cut_fence (tl (split_byte newline content)) = Some (front, rest)" "is_fence (hd (split_byte newline content))"
    using assms(1) by (simp_all add: has_header_def cut_fence_split)
  ultimately show "extractBody content = trim_left_of (\<lambda>c. c = CHR 0x0D \<or> c = newline) (str_join [newline] rest)"
    and "extractFrontmatterBlock content = str_join [newline] front"
    using assms(2) by (simp_all add: extractBody_def extractFrontmatterBlock_def Let_def)
qed

lemma header_prefix:
  assumes "has_header content f front g rest"
  shows "has_prefix content ''---'' \<longleftrightarrow> has_prefix f ''---''"
proof -
  have "split_byte newline content = f # front @ g # rest" using assms by (simp add: has_header_def)
  then have "content = f @ newline # str_join [newline] (front @ g # rest)"
    using join_split_byte [of newline content] by (simp add: str_join_Cons)
  moreover have "has_prefix (u @ newline # s) p \<longleftrightarrow> has_prefix u p" if "newline \<notin> set p" for u s p
    using that
  proof (induction u arbitrary: p)
    case Nil
    then show ?case by (cases p) auto
  next
    case (Cons c u)
    then show ?case by (cases p) auto
  qed
  ultimately show ?thesis by simp
qed

section \<open>Properties\<close>

text \<open>
  Setting fields in a note with a header (keys without colon or surrounding blanks, values on one
  line) puts exactly one value behind each key: the new header holds the line \<open>key: value\<close> and every
  line with that key is that line. The lines of other keys stay, in their order, and the fences and
  everything behind the header are untouched.
\<close>

theorem setFrontmatterFields_exact:
  assumes "has_header content f front g rest" "kv \<noteq> []" "proper_fields kv"
  shows "\<exists>front'. has_header (setFrontmatterFields content kv) f front' g rest \<and>
    (\<forall>(k, v)\<in>set kv. k @ '': '' @ v \<in> set front' \<and>
       (\<forall>l\<in>set front'. frontmatterLineHasKey l k \<longrightarrow> l = k @ '': '' @ v)) \<and>
    filter (\<lambda>l. \<forall>k\<in>fst ` set kv. \<not> frontmatterLineHasKey l k) front' =
    filter (\<lambda>l. \<forall>k\<in>fst ` set kv. \<not> frontmatterLineHasKey l k) front"
proof (intro exI conjI)
  let ?ks = "orderedFrontmatterKeys kv"
  let ?front = "set_front kv ?ks front"
  note keys = proper_fields_keys(1) [OF assms(3)]
  show "has_header (setFrontmatterFields content kv) f ?front g rest"
    by (rule setFrontmatterFields_header [OF assms])
  show "\<forall>(k, v)\<in>set kv. k @ '': '' @ v \<in> set ?front \<and>
      (\<forall>l\<in>set ?front. frontmatterLineHasKey l k \<longrightarrow> l = k @ '': '' @ v)"
  proof (rule ballI)
    fix e assume e: "e \<in> set kv"
    obtain k v where kv: "e = (k, v)" by (cases e)
    then have k: "k \<in> set ?ks" "field_line kv k = k @ '': '' @ v"
      using e field_line_at [OF assms(3), of k v] by (simp_all add: rev_image_eqI)
    show "case e of (k, v) \<Rightarrow> k @ '': '' @ v \<in> set ?front \<and>
        (\<forall>l\<in>set ?front. frontmatterLineHasKey l k \<longrightarrow> l = k @ '': '' @ v)"
      using set_front_sets(1) [OF keys k(1), of kv front] set_front_sets(2) [OF keys k(1), of _ kv front]
      unfolding kv k(2) by blast
  qed
  have "line_key ?ks l = None \<longleftrightarrow> (\<forall>k\<in>fst ` set kv. \<not> frontmatterLineHasKey l k)" for l
    unfolding line_key_def find_None_iff by simp
  then show "filter (\<lambda>l. \<forall>k\<in>fst ` set kv. \<not> frontmatterLineHasKey l k) ?front =
      filter (\<lambda>l. \<forall>k\<in>fst ` set kv. \<not> frontmatterLineHasKey l k) front"
    using set_front_keeps [OF keys, of kv front] by simp
qed

definition sample_note :: string where
  "sample_note = str_join [newline] [''---'', ''title: a'', ''---'', ''body'']"

lemma sample_header: "has_header sample_note ''---'' [''title: a''] ''---'' [''body'']"
  by (simp add: has_header_def sample_note_def is_fence_def trim_space_def trim_left_of_def trim_right_of_def
      is_space_def byte_def)

lemma sample_fields: "proper_fields [(''feedback_vote'', ''up'')]"
  by (simp add: proper_fields_def proper_key_def trimmed_def is_space_def byte_def)

theorem setFrontmatterFields_exact_witness:
  "\<exists>front'. has_header (setFrontmatterFields sample_note [(''feedback_vote'', ''up'')]) ''---'' front' ''---'' [''body''] \<and>
    ''feedback_vote: up'' \<in> set front'"
  using setFrontmatterFields_exact [OF sample_header _ sample_fields] by auto

text \<open>
  Setting the same fields a second time changes nothing, whether the note had a header, an unclosed
  one or none.
\<close>

theorem setFrontmatterFields_idempotent:
  assumes "proper_fields kv"
  shows "setFrontmatterFields (setFrontmatterFields content kv) kv = setFrontmatterFields content kv"
proof (cases "kv = []")
  case False
  let ?ks = "orderedFrontmatterKeys kv"
  note keys = proper_fields_keys(1) [OF assms]
  have again: "setFrontmatterFields c kv = c" if "has_header c f (set_front kv ?ks front) g rest" for c f front g rest
    using setFrontmatterFields_header [OF that False assms] that
    by (intro split_byte_inj [of newline]) (simp add: has_header_def set_front_idem [OF keys])
  show ?thesis
  proof (cases "\<exists>f front g rest. has_header content f front g rest")
    case True
    then show ?thesis using again setFrontmatterFields_header [OF _ False assms] by blast
  next
    case fresh: False
    have "map (field_line kv) ?ks = set_front kv ?ks []" by (simp add: set_front_def)
    then show ?thesis using again setFrontmatterFields_fresh [OF fresh False assms] by metis
  qed
qed (simp add: setFrontmatterFields_def)

theorem setFrontmatterFields_idempotent_witness:
  "setFrontmatterFields (setFrontmatterFields ''x'' [(''feedback_vote'', ''up'')]) [(''feedback_vote'', ''up'')] =
    setFrontmatterFields ''x'' [(''feedback_vote'', ''up'')]"
  by (rule setFrontmatterFields_idempotent [OF sample_fields])

text \<open>
  Recording feedback keeps the body of a note that opens with its header: what the store mirrors as
  body is the same before and after.
\<close>

theorem setFrontmatterFields_body:
  assumes "has_header content f front g rest" "has_prefix content ''---''" "proper_fields kv"
  shows "extractBody (setFrontmatterFields content kv) = extractBody content"
proof (cases "kv = []")
  case False
  note new = setFrontmatterFields_header [OF assms(1) False assms(3)]
  have "has_prefix (setFrontmatterFields content kv) ''---''"
    using assms(2) header_prefix [OF new] header_prefix [OF assms(1)] by simp
  then show ?thesis using header_body(1) [OF new] header_body(1) [OF assms(1,2)] by simp
qed (simp add: setFrontmatterFields_def)

theorem setFrontmatterFields_body_witness:
  "extractBody (setFrontmatterFields sample_note [(''feedback_vote'', ''up'')]) = extractBody sample_note"
  by (rule setFrontmatterFields_body [OF sample_header _ sample_fields]) (simp add: sample_note_def)

text \<open>
  A note that starts with a blank line and then its header is read with that header, but feedback
  does not find it there: it writes a second header in front, and the note is then mirrored without its
  title, the old header having become text of the body.
\<close>

theorem feedback_hides_header:
  "\<exists>content. extractFrontmatterBlock content = ''title: a'' \<and> extractBody content = ''body'' \<and>
    extractFrontmatterBlock (setFrontmatterFields content [(''feedback_vote'', ''up'')]) = ''feedback_vote: up'' \<and>
    extractBody (setFrontmatterFields content [(''feedback_vote'', ''up'')]) = sample_note"
  by (rule exI [of _ "newline # sample_note"])
    (simp add: sample_note_def extractFrontmatterBlock_def extractBody_def setFrontmatterFields_def Let_def
      orderedFrontmatterKeys_def preferred_def field_line_def is_fence_def trim_space_def trim_left_of_def
      trim_right_of_def is_space_def byte_def)

end
