(* ===== verification/Memory_Files.thy ===== *)
theory Memory_Files
  imports Frontmatter Memory_Editor
begin

text \<open>
  Edits of memory notes on disk (\<open>internal/memory/writer.go\<close>): the path guard, the guarded write, delete
  and revert, the index and the local commits. The disk is an association list from clean absolute
  paths to contents. What the operating system, git and the python index builder do is the record
  \<open>Env\<close>: which paths cannot be read, written or removed, the hash, the text the builder writes (\<open>None\<close>
  when it is absent or fails), whether the directory is in a work tree and the git steps succeed, and
  what \<open>git show\<close> prints.
\<close>

section \<open>Clean paths\<close>

text \<open>\<open>filepath.Clean\<close> on Unix: a stack of path elements, the last one on top.\<close>

definition clean_step :: "bool \<Rightarrow> string list \<Rightarrow> string \<Rightarrow> string list" where
  "clean_step rooted acc c =
     (if c = [] \<or> c = ''.'' then acc
      else if c = ''..'' then
        (case acc of
           [] \<Rightarrow> if rooted then [] else [''..'']
         | a # rest \<Rightarrow> if a = ''..'' then ''..'' # acc else rest)
      else c # acc)"

definition clean_parts :: "bool \<Rightarrow> string list \<Rightarrow> string list" where
  "clean_parts rooted cs = rev (foldl (clean_step rooted) [] cs)"

definition render :: "bool \<Rightarrow> string list \<Rightarrow> string" where
  "render rooted ps =
     (if rooted then slash # str_join [slash] ps else if ps = [] then ''.'' else str_join [slash] ps)"

definition is_rooted :: "string \<Rightarrow> bool" where
  "is_rooted p \<longleftrightarrow> p \<noteq> [] \<and> hd p = slash"

definition path_clean :: "string \<Rightarrow> string" where
  "path_clean p = render (is_rooted p) (clean_parts (is_rooted p) (split_byte slash p))"

section \<open>The guard\<close>

definition resolvePath :: "string \<Rightarrow> string \<Rightarrow> MemoryError + string" where
  "resolvePath dir relPath =
     (if relPath = [] then Inl ErrPathTraversal
      else let rel = (if is_rooted relPath then trim_left_of (\<lambda>c. c = CHR 0x5C \<or> c = slash) relPath else relPath) in
        if ''..'' \<in> set (split_byte slash rel) then Inl ErrPathTraversal
        else let cleanDir = path_clean dir; full = path_clean (cleanDir @ [slash] @ rel) in
          if full \<noteq> cleanDir \<and> \<not> has_prefix full (cleanDir @ [slash]) then Inl ErrPathTraversal
          else if full = cleanDir then Inl ErrPathTraversal
          else Inr full)"

definition good_part :: "string \<Rightarrow> bool" where
  "good_part c \<longleftrightarrow> c \<noteq> [] \<and> c \<noteq> ''.'' \<and> c \<noteq> ''..'' \<and> slash \<notin> set c"

text \<open>A stack of elements: plain ones above the leading parent references of a relative path.\<close>

definition stack_ok :: "bool \<Rightarrow> string list \<Rightarrow> bool" where
  "stack_ok rooted acc \<longleftrightarrow>
     (\<exists>ps k. acc = ps @ replicate k ''..'' \<and> list_all good_part ps \<and> (rooted \<longrightarrow> k = 0))"

lemma stack_ok_step:
  assumes "stack_ok rooted acc" "slash \<notin> set c"
  shows "stack_ok rooted (clean_step rooted acc c)"
proof -
  obtain ps k where a: "acc = ps @ replicate k ''..''" "list_all good_part ps" "rooted \<longrightarrow> k = 0"
    using assms(1) by (auto simp: stack_ok_def)
  consider "c = [] \<or> c = ''.''" | "c = ''..''" "ps = []" | p qs where "c = ''..''" "ps = p # qs" | "good_part c"
    using assms(2) by (cases ps) (auto simp: good_part_def)
  then show ?thesis
  proof cases
    case 1
    then show ?thesis using assms(1) by (auto simp: clean_step_def)
  next
    case 2
    show ?thesis
    proof (cases k)
      case 0
      then show ?thesis using 2 a by (auto simp: clean_step_def stack_ok_def intro!: exI [of _ "[]"] exI [of _ "Suc 0"])
    next
      case (Suc j)
      then have "clean_step rooted acc c = [] @ replicate (Suc k) ''..''" using 2 a by (simp add: clean_step_def)
      moreover have "\<not> rooted" using a(3) Suc by auto
      ultimately show ?thesis
        unfolding stack_ok_def by (intro exI [where x = "[]"] exI [where x = "Suc k"]) simp
    qed
  next
    case (3 p qs)
    then have "clean_step rooted acc c = qs @ replicate k ''..''"
      using a by (auto simp: clean_step_def good_part_def)
    then show ?thesis using 3 a by (auto simp: stack_ok_def)
  next
    case 4
    then have "clean_step rooted acc c = (c # ps) @ replicate k ''..''"
      using a by (auto simp: clean_step_def good_part_def)
    then show ?thesis
      using 4 a unfolding stack_ok_def by (intro exI [where x = "c # ps"] exI [where x = k]) simp
  qed
qed

lemma stack_ok_foldl:
  "stack_ok rooted acc \<Longrightarrow> list_all (\<lambda>c. slash \<notin> set c) cs \<Longrightarrow> stack_ok rooted (foldl (clean_step rooted) acc cs)"
  by (induction cs arbitrary: acc) (simp_all add: stack_ok_step)

lemma split_no_slash: "list_all (\<lambda>c. slash \<notin> set c) (split_byte slash p)"
  using split_byte_no_sep [of _ slash p] by (auto simp: list_all_iff)

lemma clean_dots: "\<not> rooted \<Longrightarrow> foldl (clean_step rooted) (replicate j ''..'') (replicate k ''..'') = replicate (j + k) ''..''"
proof (induction k arbitrary: j)
  case (Suc k)
  have "clean_step rooted (replicate j ''..'') ''..'' = replicate (Suc j) ''..''"
    using Suc.prems by (cases j) (simp_all add: clean_step_def)
  then show ?case using Suc.IH [of "Suc j"] Suc.prems by simp
qed simp

lemma clean_goods: "list_all good_part ps \<Longrightarrow> foldl (clean_step rooted) acc ps = rev ps @ acc"
  by (induction ps arbitrary: acc) (auto simp: clean_step_def good_part_def)

text \<open>A clean list of elements is cleaned to itself.\<close>

lemma clean_stack:
  assumes "stack_ok rooted acc"
  shows "foldl (clean_step rooted) [] (rev acc) = acc"
proof -
  obtain ps k where a: "acc = ps @ replicate k ''..''" "list_all good_part ps" "rooted \<longrightarrow> k = 0"
    using assms by (auto simp: stack_ok_def)
  have "foldl (clean_step rooted) [] (replicate k ''..'') = replicate k ''..''"
    using a(3) clean_dots [of rooted 0 k] by (cases rooted) auto
  moreover have "list_all good_part (rev ps)" using a(2) by (simp add: list_all_iff)
  ultimately show ?thesis by (simp add: a(1) clean_goods)
qed

text \<open>Elements without parent references are pushed as they are, less the empty ones and dots.\<close>

definition plain :: "string list \<Rightarrow> string list" where
  "plain cs = filter (\<lambda>c. c \<noteq> [] \<and> c \<noteq> ''.'') cs"

lemma clean_no_parent: "''..'' \<notin> set cs \<Longrightarrow> foldl (clean_step rooted) acc cs = rev (plain cs) @ acc"
  by (induction cs arbitrary: acc) (auto simp: clean_step_def plain_def)

lemma stack_parts: "stack_ok rooted acc \<Longrightarrow> list_all (\<lambda>c. c \<noteq> [] \<and> slash \<notin> set c) acc"
proof -
  assume "stack_ok rooted acc"
  then obtain ps k where a: "acc = ps @ replicate k ''..''" "list_all good_part ps"
    unfolding stack_ok_def by blast
  have "list_all (\<lambda>c. c \<noteq> [] \<and> slash \<notin> set c) ps"
    using a(2) by (rule list.pred_mono_strong) (simp add: good_part_def)
  moreover have "list_all (\<lambda>c. c \<noteq> [] \<and> slash \<notin> set c) (replicate k ''..'')" by (induction k) simp_all
  ultimately show ?thesis unfolding a(1) by simp
qed

lemma split_append_slash: "split_byte slash (a @ slash # b) = split_byte slash a @ split_byte slash b"
proof (induction a)
  case (Cons c a)
  then show ?case by (cases "split_byte slash a") simp_all
qed simp

lemma split_render:
  assumes "list_all (\<lambda>c. slash \<notin> set c) ps"
  shows "split_byte slash (render rooted ps) =
    (if rooted then [] # (if ps = [] then [[]] else ps) else if ps = [] then [''.''] else ps)"
proof (cases ps)
  case Nil
  then show ?thesis by (cases rooted) (simp_all add: render_def)
next
  case (Cons c cs)
  then have "split_byte slash (str_join [slash] ps) = ps" using assms split_byte_join [of ps slash] by (simp add: list_all_iff)
  then show ?thesis using Cons by (cases rooted) (simp_all add: render_def)
qed

lemma is_rooted_render:
  assumes "list_all (\<lambda>c. c \<noteq> [] \<and> slash \<notin> set c) ps"
  shows "is_rooted (render rooted ps @ s) = rooted"
proof (cases ps)
  case (Cons c cs)
  have "str_join [slash] (c # cs) \<noteq> []" "hd (str_join [slash] (c # cs)) = hd c"
    using assms Cons by (auto simp: str_join_Cons)
  moreover have "hd c \<noteq> slash" using assms Cons by (cases c) auto
  ultimately show ?thesis using Cons by (simp add: is_rooted_def render_def)
qed (simp add: is_rooted_def render_def)

text \<open>Joining a clean directory and a path without parent references only adds elements.\<close>

lemma clean_join:
  assumes "''..'' \<notin> set (split_byte slash rel)" "stack_ok rooted acc"
  shows "path_clean (render rooted (rev acc) @ slash # rel) = render rooted (rev acc @ plain (split_byte slash rel))"
proof -
  have parts: "list_all (\<lambda>c. c \<noteq> [] \<and> slash \<notin> set c) (rev acc)" "list_all (\<lambda>c. slash \<notin> set c) (rev acc)"
    using stack_parts [OF assms(2)] by (auto simp: list_all_iff)
  have skip: "clean_step r x [] = x" "clean_step r x ''.'' = x" for r x by (simp_all add: clean_step_def)
  have "foldl (clean_step rooted) [] (split_byte slash (render rooted (rev acc))) =
      foldl (clean_step rooted) [] (rev acc)"
    unfolding split_render [OF parts(2)] by (cases "acc = []"; cases rooted) (simp_all add: skip)
  then have "foldl (clean_step rooted) [] (split_byte slash (render rooted (rev acc))) = acc"
    by (simp only: clean_stack [OF assms(2)])
  then show ?thesis
    using is_rooted_render [OF parts(1)] clean_no_parent [OF assms(1)]
    by (simp add: path_clean_def clean_parts_def split_append_slash)
qed

lemma path_clean_form: "\<exists>acc. stack_ok (is_rooted p) acc \<and> path_clean p = render (is_rooted p) (rev acc)"
proof -
  have "stack_ok (is_rooted p) []" by (auto simp: stack_ok_def)
  then have "stack_ok (is_rooted p) (foldl (clean_step (is_rooted p)) [] (split_byte slash p))"
    by (rule stack_ok_foldl) (rule split_no_slash)
  then show ?thesis by (auto simp: path_clean_def clean_parts_def)
qed

lemma render_append:
  "ps \<noteq> [] \<Longrightarrow> qs \<noteq> [] \<Longrightarrow> render rooted (ps @ qs) = render rooted ps @ [slash] @ str_join [slash] qs"
proof -
  have "str_join [slash] (ps @ qs) = str_join [slash] ps @ [slash] @ str_join [slash] qs"
    if "ps \<noteq> []" "qs \<noteq> []" for ps qs :: "string list"
    using that by (induction ps) (auto simp: str_join_Cons)
  then show "ps \<noteq> [] \<Longrightarrow> qs \<noteq> [] \<Longrightarrow> ?thesis" by (simp add: render_def)
qed

lemma plain_good: "''..'' \<notin> set (split_byte slash rel) \<Longrightarrow> list_all good_part (plain (split_byte slash rel))"
  using split_no_slash [of rel] by (auto simp: plain_def good_part_def list_all_iff)

lemma resolve_inside:
  assumes "resolvePath dir relPath = Inr full"
  obtains ps where "ps \<noteq> []" "list_all good_part ps" "full = path_clean dir @ [slash] @ str_join [slash] ps"
proof -
  obtain rel where rel: "''..'' \<notin> set (split_byte slash rel)" "full = path_clean (path_clean dir @ [slash] @ rel)"
    "full \<noteq> path_clean dir" "has_prefix full (path_clean dir @ [slash])"
    using assms by (auto simp: resolvePath_def Let_def split: if_splits)
  obtain acc where acc: "stack_ok (is_rooted dir) acc" "path_clean dir = render (is_rooted dir) (rev acc)"
    using path_clean_form by blast
  let ?ps = "plain (split_byte slash rel)"
  have full: "full = render (is_rooted dir) (rev acc @ ?ps)"
    using clean_join [OF rel(1) acc(1)] acc(2) rel(2) by simp
  have ps: "?ps \<noteq> []" using full rel(3) acc(2) by auto
  have good: "list_all good_part ?ps" using rel(1) by (rule plain_good)
  have "acc \<noteq> []"
  proof
    assume "acc = []"
    obtain c cs where c: "?ps = c # cs" using ps by (meson neq_Nil_conv)
    have g: "good_part c" using good c by simp
    consider "is_rooted dir" | "\<not> is_rooted dir" by blast
    then show False
    proof cases
      case 1
      then have "full = slash # str_join [slash] ?ps" by (simp add: full \<open>acc = []\<close> render_def)
      then have "has_prefix (str_join [slash] ?ps) [slash]"
        using 1 rel(4) by (simp add: acc(2) \<open>acc = []\<close> render_def)
      then show False using g by (cases c) (auto simp: c str_join_Cons good_part_def split: if_splits)
    next
      case 2
      then have "has_prefix (str_join [slash] ?ps) (''.'' @ [slash])"
        using rel(4) ps by (simp add: full acc(2) \<open>acc = []\<close> render_def)
      then have "take 2 (str_join [slash] ?ps) = ''./''" by (auto simp: has_prefix_iff)
      moreover obtain b bs where "c = b # bs" using g by (cases c) (auto simp: good_part_def)
      ultimately show False using g
        by (cases bs) (auto simp: c str_join_Cons good_part_def take_Cons' split: if_splits)
    qed
  qed
  then show ?thesis
    using that [OF ps good] ps render_append [of "rev acc" ?ps "is_rooted dir"] full acc(2) by simp
qed

section \<open>The writer\<close>

type_synonym disk = "(string \<times> string) list"

record FileWriter =
  fw_dir :: string
  fw_noGit :: bool

record Env =
  sha :: "string \<Rightarrow> string"
  unreadable :: "string \<Rightarrow> bool"
  canWrite :: "string \<Rightarrow> bool"
  canRemove :: "string \<Rightarrow> bool"
  builder :: "string \<Rightarrow> disk \<Rightarrow> string option"
  inRepo :: bool
  addOk :: bool
  commitOk :: bool
  gitShow :: "string \<Rightarrow> string option"

record Store =
  files :: disk
  log :: "string list"

definition NewWriter :: "string \<Rightarrow> FileWriter" where
  "NewWriter dir = \<lparr>fw_dir = dir, fw_noGit = False\<rparr>"

definition NewWriterNoGit :: "string \<Rightarrow> FileWriter" where
  "NewWriterNoGit dir = \<lparr>fw_dir = dir, fw_noGit = True\<rparr>"

definition path_join :: "string \<Rightarrow> string \<Rightarrow> string" where
  "path_join dir n = path_clean (if dir = [] then n else dir @ [slash] @ n)"

definition path_dir :: "string \<Rightarrow> string" where
  "path_dir p = path_clean (trim_right_of (\<lambda>c. c \<noteq> slash) p)"

definition indexBasename :: string where "indexBasename = ''INDEX.md''"

definition index_path :: "FileWriter \<Rightarrow> string" where
  "index_path w = path_join (fw_dir w) indexBasename"

definition readFile :: "Env \<Rightarrow> Store \<Rightarrow> string \<Rightarrow> MemoryError + string" where
  "readFile env st p =
     (if unreadable env p then Inl ReadFailed
      else case map_of (files st) p of None \<Rightarrow> Inl NotExist | Some c \<Rightarrow> Inr c)"

definition Read :: "Env \<Rightarrow> FileWriter \<Rightarrow> Store \<Rightarrow> string \<Rightarrow> MemoryError + (string \<times> string)" where
  "Read env w st relPath =
     (case resolvePath (fw_dir w) relPath of
        Inl e \<Rightarrow> Inl e
      | Inr full \<Rightarrow> (case readFile env st full of Inl e \<Rightarrow> Inl e | Inr c \<Rightarrow> Inr (c, sha env c)))"

text \<open>A temporary file renamed over the target: the target is replaced as a whole or not at all.\<close>

definition atomicWrite :: "Env \<Rightarrow> string \<Rightarrow> string \<Rightarrow> Store \<Rightarrow> (MemoryError + unit) \<times> Store" where
  "atomicWrite env dst data st =
     (if canWrite env dst then (Inr (), st\<lparr>files := AList.update dst data (files st)\<rparr>) else (Inl IOFailed, st))"

section \<open>The index\<close>

definition pythonRootFor :: "string \<Rightarrow> string option" where
  "pythonRootFor memoryDir =
     (let clean = path_clean memoryDir; parent = path_dir clean in
      if path_base clean \<noteq> ''user'' \<or> path_base parent \<noteq> ''memory'' then None else Some (path_dir parent))"

definition indexCell :: "string \<Rightarrow> string" where
  "indexCell v =
     map (\<lambda>c. if c = newline then CHR '' '' else c)
       (concat (map (\<lambda>c. if c = CHR ''|'' then [CHR 0x5C, c] else [c]) v))"

definition trim_quotes :: "string \<Rightarrow> string" where
  "trim_quotes s = trim_right_of (\<lambda>c. c = CHR 0x22 \<or> c = CHR 0x27) (trim_left_of (\<lambda>c. c = CHR 0x22 \<or> c = CHR 0x27) s)"

definition index_value :: "string \<Rightarrow> string" where
  "index_value v0 =
     (let v = trim_quotes (trim_space v0) in
      if has_prefix v ''['' \<and> has_suffix v '']''
      then str_join '', '' (filter (\<lambda>i. i \<noteq> [])
             (map (\<lambda>i. trim_quotes (trim_space i)) (split_byte (CHR '','') (trim_suffix (trim_prefix v ''['') '']''))))
      else v)"

definition index_pair :: "string \<Rightarrow> (string \<times> string) option" where
  "index_pair raw =
     (let line = trim_space raw in
      if line = [] \<or> has_prefix line ''#'' \<or> CHR '':'' \<notin> set line then None
      else Some (trim_space (takeWhile (\<lambda>c. c \<noteq> CHR '':'') line),
                 index_value (drop 1 (dropWhile (\<lambda>c. c \<noteq> CHR '':'') line))))"

text \<open>\<open>bufio.Scanner\<close> stops at a line that does not fit its buffer of 64 KiB. Later pairs win.\<close>

definition scanner_lines :: "string \<Rightarrow> string list" where
  "scanner_lines block = takeWhile (\<lambda>l. length l < 65536) (split_byte newline block)"

definition parseIndexFrontmatter :: "string \<Rightarrow> string \<Rightarrow> string" where
  "parseIndexFrontmatter content key =
     (case map_of (rev (List.map_filter index_pair (scanner_lines (extractFrontmatterBlock content)))) key of
        Some v \<Rightarrow> v | None \<Rightarrow> [])"

record IndexRow =
  ir_file :: string
  ir_title :: string
  ir_problemType :: string
  ir_status :: string
  ir_keywords :: string
  ir_origin :: string

definition index_row :: "string \<Rightarrow> string \<Rightarrow> IndexRow option" where
  "index_row name data =
     (let fm = parseIndexFrontmatter data;
          keywords = (if fm ''keywords'' = [] then fm ''tags'' else fm ''keywords'');
          status = (if fm ''status'' = [] then ''active'' else fm ''status'')
      in if status \<noteq> ''active'' then None
         else Some \<lparr>ir_file = name, ir_title = fm ''title'', ir_problemType = fm ''problem_type'',
                    ir_status = status, ir_keywords = keywords, ir_origin = fm ''origin_session''\<rparr>)"

text \<open>The name of an entry directly in the directory.\<close>

definition entry_name :: "string \<Rightarrow> string \<Rightarrow> string option" where
  "entry_name dir p =
     (let n = last (split_byte slash p) in if good_part n \<and> path_join dir n = p then Some n else None)"

definition note_row :: "Env \<Rightarrow> string \<Rightarrow> string \<times> string \<Rightarrow> IndexRow option" where
  "note_row env dir = (\<lambda>(p, data).
     case entry_name dir p of
       None \<Rightarrow> None
     | Some name \<Rightarrow>
         if \<not> has_suffix name ''.md'' \<or> name = indexBasename \<or> unreadable env p then None else index_row name data)"

definition row_line :: "IndexRow \<Rightarrow> string" where
  "row_line r =
     ''| '' @ indexCell (ir_file r) @ '' | '' @ indexCell (ir_title r) @ '' | '' @ indexCell (ir_problemType r) @
     '' | '' @ indexCell (ir_status r) @ '' | '' @ indexCell (ir_keywords r) @ '' | '' @ indexCell (ir_origin r) @ '' |''"

definition index_header :: "string list" where
  "index_header = [''# Memory Index'', [], ''> Generated by `scripts/build_memory_index.py`; do not edit by hand.'', [],
     ''| File | Title | Problem Type | Status | Keywords | Origin |'', ''|---|---|---|---|---|---|'']"

definition index_text :: "IndexRow list \<Rightarrow> string" where
  "index_text rows =
     trim_right_of (\<lambda>c. c = newline) (concat (map (\<lambda>l. l @ [newline]) (index_header @ map row_line rows))) @ [newline]"

definition index_rows :: "Env \<Rightarrow> string \<Rightarrow> disk \<Rightarrow> IndexRow list" where
  "index_rows env dir d = sort_key ir_file (List.map_filter (note_row env dir) d)"

definition rebuildIndexGo :: "Env \<Rightarrow> FileWriter \<Rightarrow> Store \<Rightarrow> Store" where
  "rebuildIndexGo env w st =
     (if unreadable env (path_clean (fw_dir w)) \<or> \<not> canWrite env (index_path w) then st
      else st\<lparr>files := AList.update (index_path w) (index_text (index_rows env (fw_dir w) (files st))) (files st)\<rparr>)"

definition rebuildIndex :: "Env \<Rightarrow> FileWriter \<Rightarrow> Store \<Rightarrow> Store" where
  "rebuildIndex env w st =
     (case Option.bind (pythonRootFor (fw_dir w)) (\<lambda>root. builder env root (files st)) of
        Some text \<Rightarrow> st\<lparr>files := AList.update (index_path w) text (files st)\<rparr>
      | None \<Rightarrow> rebuildIndexGo env w st)"

definition commit :: "Env \<Rightarrow> string \<Rightarrow> Store \<Rightarrow> Store" where
  "commit env message st = (if inRepo env \<and> addOk env \<and> commitOk env then st\<lparr>log := message # log st\<rparr> else st)"

section \<open>Write, delete, revert\<close>

text \<open>The comparison of the content on disk with the base the editor read.\<close>

definition check_base :: "Env \<Rightarrow> Store \<Rightarrow> string \<Rightarrow> string \<Rightarrow> MemoryError + unit" where
  "check_base env st full base =
     (case readFile env st full of
        Inr existing \<Rightarrow> if sha env existing \<noteq> base then Inl ErrConflict else Inr ()
      | Inl NotExist \<Rightarrow> if base \<noteq> [] then Inl ErrConflict else Inr ()
      | Inl e \<Rightarrow> Inl e)"

definition Write :: "Env \<Rightarrow> FileWriter \<Rightarrow> WriteRequest \<Rightarrow> Store \<Rightarrow> (MemoryError + string) \<times> Store" where
  "Write env w req st =
     (case resolvePath (fw_dir w) (wr_RelPath req) of
        Inl e \<Rightarrow> (Inl e, st)
      | Inr full \<Rightarrow>
          (case check_base env st full (wr_BaseSHA req) of
             Inl e \<Rightarrow> (Inl e, st)
           | Inr _ \<Rightarrow>
               (case atomicWrite env full (wr_Content req) st of
                  (Inl e, st') \<Rightarrow> (Inl e, st')
                | (Inr _, st') \<Rightarrow>
                    (Inr (sha env (wr_Content req)),
                     if fw_noGit w then st'
                     else commit env (''memory: edit '' @ wr_RelPath req) (rebuildIndex env w st')))))"

definition Delete :: "Env \<Rightarrow> FileWriter \<Rightarrow> string \<Rightarrow> string \<Rightarrow> Store \<Rightarrow> (MemoryError + unit) \<times> Store" where
  "Delete env w relPath baseSHA st =
     (case resolvePath (fw_dir w) relPath of
        Inl e \<Rightarrow> (Inl e, st)
      | Inr full \<Rightarrow>
          (case readFile env st full of
             Inl e \<Rightarrow> (Inl e, st)
           | Inr existing \<Rightarrow>
               if baseSHA \<noteq> [] \<and> sha env existing \<noteq> baseSHA then (Inl ErrConflict, st)
               else if \<not> canRemove env full then (Inl IOFailed, st)
               else let st' = st\<lparr>files := AList.delete full (files st)\<rparr> in
                 (Inr (), if fw_noGit w then st'
                          else commit env (''memory: delete '' @ relPath) (rebuildIndex env w st'))))"

definition ref_char :: "char \<Rightarrow> bool" where
  "ref_char c \<longleftrightarrow> (97 \<le> byte c \<and> byte c \<le> 122) \<or> (65 \<le> byte c \<and> byte c \<le> 90) \<or> is_digit c \<or>
     c \<in> {CHR ''_'', CHR ''-'', CHR ''/'', CHR ''.'', CHR ''~'', CHR ''^''}"

definition validCommitRef :: "string \<Rightarrow> bool" where
  "validCommitRef ref \<longleftrightarrow> ref \<noteq> [] \<and> \<not> has_prefix ref ''-'' \<and> list_all ref_char ref"

definition FileAtCommit :: "Env \<Rightarrow> FileWriter \<Rightarrow> string \<Rightarrow> string \<Rightarrow> MemoryError + string" where
  "FileAtCommit env w relPath ref =
     (case resolvePath (fw_dir w) relPath of
        Inl e \<Rightarrow> Inl e
      | Inr _ \<Rightarrow>
          if \<not> validCommitRef ref then Inl InvalidRef
          else if \<not> inRepo env then Inl IOFailed
          else (case gitShow env (ref @ '':'' @ path_clean relPath) of None \<Rightarrow> Inl IOFailed | Some c \<Rightarrow> Inr c))"

definition Revert :: "Env \<Rightarrow> FileWriter \<Rightarrow> string \<Rightarrow> string \<Rightarrow> string \<Rightarrow> Store \<Rightarrow> (MemoryError + string) \<times> Store" where
  "Revert env w relPath ref baseSHA st =
     (case FileAtCommit env w relPath ref of
        Inl e \<Rightarrow> (Inl e, st)
      | Inr content \<Rightarrow>
          (case resolvePath (fw_dir w) relPath of
             Inl e \<Rightarrow> (Inl e, st)
           | Inr full \<Rightarrow>
               (case check_base env st full baseSHA of
                  Inl e \<Rightarrow> (Inl e, st)
                | Inr _ \<Rightarrow>
                    (case atomicWrite env full content st of
                       (Inl e, st') \<Rightarrow> (Inl e, st')
                     | (Inr _, st') \<Rightarrow>
                         (Inr (sha env content),
                          commit env (''memory: revert '' @ relPath @ '' to '' @ ref) (rebuildIndex env w st'))))))"

section \<open>Lemmas\<close>

lemma files_update: "map_of (AList.update k v d) p = (if p = k then Some v else map_of d p)"
  by (simp add: update_conv')

lemma rebuildIndex_files: "p \<noteq> index_path w \<Longrightarrow> map_of (files (rebuildIndex env w st)) p = map_of (files st) p"
  by (auto simp: rebuildIndex_def rebuildIndexGo_def files_update split: option.splits)

lemma rebuildIndex_log [simp]: "log (rebuildIndex env w st) = log st"
  by (auto simp: rebuildIndex_def rebuildIndexGo_def split: option.splits)

lemma commit_files [simp]: "files (commit env m st) = files st"
  by (simp add: commit_def)

lemma check_base_ok:
  "check_base env st full base = Inr u \<longleftrightarrow>
     \<not> unreadable env full \<and>
     (case map_of (files st) full of Some c \<Rightarrow> sha env c = base | None \<Rightarrow> base = [])"
  by (auto simp: check_base_def readFile_def split: option.splits)

text \<open>The guard of a write: the target is inside the directory and the editor saw what is on disk.\<close>

definition write_guard :: "Env \<Rightarrow> FileWriter \<Rightarrow> Store \<Rightarrow> string \<Rightarrow> string \<Rightarrow> string \<Rightarrow> bool" where
  "write_guard env w st relPath base full \<longleftrightarrow>
     resolvePath (fw_dir w) relPath = Inr full \<and> \<not> unreadable env full \<and>
     (case map_of (files st) full of Some c \<Rightarrow> sha env c = base | None \<Rightarrow> base = [])"

lemma note_Write_ok:
  "Write env w req st = (Inr s, st') \<longleftrightarrow>
     (\<exists>full. write_guard env w st (wr_RelPath req) (wr_BaseSHA req) full \<and> canWrite env full \<and>
        s = sha env (wr_Content req) \<and>
        (let st1 = st\<lparr>files := AList.update full (wr_Content req) (files st)\<rparr> in
         st' = (if fw_noGit w then st1 else commit env (''memory: edit '' @ wr_RelPath req) (rebuildIndex env w st1))))"
proof (cases "resolvePath (fw_dir w) (wr_RelPath req)")
  case (Inr full)
  show ?thesis
  proof (cases "check_base env st full (wr_BaseSHA req)")
    case (Inl e)
    then have "\<not> write_guard env w st (wr_RelPath req) (wr_BaseSHA req) full"
      using check_base_ok [of env st full "wr_BaseSHA req" "()"] by (simp add: write_guard_def)
    then show ?thesis using Inr Inl by (auto simp: Write_def write_guard_def)
  next
    case (Inr u)
    then have "write_guard env w st (wr_RelPath req) (wr_BaseSHA req) full"
      using check_base_ok [of env st full "wr_BaseSHA req" u] \<open>resolvePath _ _ = Inr full\<close>
      by (simp add: write_guard_def)
    then show ?thesis using Inr \<open>resolvePath _ _ = Inr full\<close>
      by (auto simp: Write_def write_guard_def atomicWrite_def Let_def)
  qed
qed (simp add: Write_def write_guard_def)

lemma Write_error: "Write env w req st = (Inl e, st') \<Longrightarrow> st' = st"
  by (auto simp: Write_def atomicWrite_def split: sum.splits if_splits)

lemma Write_effect:
  assumes "Write env w req st = (Inr s, st')"
  obtains full where "write_guard env w st (wr_RelPath req) (wr_BaseSHA req) full" "s = sha env (wr_Content req)"
    "\<And>p. fw_noGit w \<or> p \<noteq> index_path w \<Longrightarrow>
       map_of (files st') p = (if p = full then Some (wr_Content req) else map_of (files st) p)"
    "fw_noGit w \<Longrightarrow> log st' = log st"
proof -
  obtain full where full: "write_guard env w st (wr_RelPath req) (wr_BaseSHA req) full" "s = sha env (wr_Content req)"
    "st' = (if fw_noGit w then st\<lparr>files := AList.update full (wr_Content req) (files st)\<rparr>
       else commit env (''memory: edit '' @ wr_RelPath req)
         (rebuildIndex env w (st\<lparr>files := AList.update full (wr_Content req) (files st)\<rparr>)))"
    using assms unfolding note_Write_ok Let_def by blast
  have "map_of (files st') p = (if p = full then Some (wr_Content req) else map_of (files st) p)"
    if "fw_noGit w \<or> p \<noteq> index_path w" for p
  proof (cases "fw_noGit w")
    case False
    then have "p \<noteq> index_path w" using that by simp
    then show ?thesis using False by (simp add: full(3) rebuildIndex_files files_update)
  qed (simp add: full(3) files_update)
  moreover have "fw_noGit w \<Longrightarrow> log st' = log st" by (simp add: full(3))
  ultimately show ?thesis using that full(1,2) by blast
qed

lemma Read_ok:
  "resolvePath (fw_dir w) r = Inr full \<Longrightarrow> \<not> unreadable env full \<Longrightarrow> map_of (files st) full = Some c \<Longrightarrow>
     Read env w st r = Inr (c, sha env c)"
  by (simp add: Read_def readFile_def)

lemma row_line_no_newline: "newline \<notin> set (row_line r)"
  by (auto simp: row_line_def indexCell_def)

lemma index_header_no_newline: "list_all (\<lambda>l. newline \<notin> set l) index_header"
  by code_simp

lemma index_text_lines: "split_byte newline (index_text rows) = index_header @ map row_line rows @ [[]]"
proof -
  let ?ls = "index_header @ map row_line rows"
  have nl: "list_all (\<lambda>l. newline \<notin> set l) ?ls"
    using index_header_no_newline row_line_no_newline by (auto simp: list_all_iff)
  have join: "concat (map (\<lambda>l. l @ [newline]) ls) = str_join [newline] (ls @ [[]])" for ls
    by (induction ls) (simp_all add: str_join_Cons)
  have last: "last ?ls \<noteq> []" "newline \<notin> set (last ?ls)"
    using nl by (auto simp: list_all_iff index_header_def row_line_def last_map)
  have ne: "?ls \<noteq> []" by (simp add: index_header_def)
  have "trim_right_of (\<lambda>c. c = newline) (concat (map (\<lambda>l. l @ [newline]) ?ls)) @ [newline] =
      concat (map (\<lambda>l. l @ [newline]) ?ls)"
  proof -
    obtain xs x where x: "?ls = xs @ [x]" using ne by (metis append_butlast_last_id)
    then have "x \<noteq> []" "newline \<notin> set x" using last by simp_all
    then have "dropWhile (\<lambda>c. c = newline) (rev x @ ys) = rev x @ ys" for ys
      by (cases "rev x") (auto simp: dropWhile_append)
    then show ?thesis unfolding x by (simp add: trim_right_of_def)
  qed
  then have "index_text rows = str_join [newline] (?ls @ [[]])" unfolding index_text_def join by simp
  then show ?thesis using split_byte_join [of "?ls @ [[]]" newline] nl by simp
qed

lemma path_clean_last:
  assumes "split_byte slash p = cs @ [n]" "good_part n"
  shows "last (split_byte slash (path_clean p)) = n"
proof -
  define acc where "acc = foldl (clean_step (is_rooted p)) [] cs"
  have p: "path_clean p = render (is_rooted p) (rev acc @ [n])"
    using assms unfolding path_clean_def clean_parts_def acc_def by (simp add: clean_step_def good_part_def)
  have "list_all (\<lambda>c. slash \<notin> set c) cs" using split_no_slash [of p] unfolding assms(1) by simp
  then have "stack_ok (is_rooted p) acc" unfolding acc_def by (rule stack_ok_foldl [rotated]) (auto simp: stack_ok_def)
  then have "list_all (\<lambda>c. slash \<notin> set c) acc"
    by (rule list.pred_mono_strong [OF stack_parts]) simp
  then have "list_all (\<lambda>c. slash \<notin> set c) (rev acc @ [n])" using assms(2) by (simp add: list_all_iff good_part_def)
  then show ?thesis unfolding p by (subst split_render) simp_all
qed

lemma path_join_last: "good_part n \<Longrightarrow> last (split_byte slash (path_join dir n)) = n"
proof -
  assume n: "good_part n"
  have "split_byte slash n = [n]" using n by (simp add: good_part_def split_byte_single)
  then show ?thesis
    using path_clean_last [of n "[]" n] path_clean_last [of "dir @ [slash] @ n" "split_byte slash dir" n] n
    by (cases "dir = []") (simp_all add: path_join_def split_append_slash)
qed

lemma entry_name_iff: "entry_name dir p = Some n \<longleftrightarrow> good_part n \<and> path_join dir n = p"
  using path_join_last [of n dir] by (auto simp: entry_name_def Let_def)

lemma note_row_iff:
  "note_row env dir (p, data) = Some r \<longleftrightarrow>
     (\<exists>n. good_part n \<and> p = path_join dir n \<and> has_suffix n ''.md'' \<and> n \<noteq> indexBasename \<and>
        \<not> unreadable env p \<and> index_row n data = Some r)"
proof (cases "entry_name dir p")
  case None
  then show ?thesis using entry_name_iff [of dir p] by (auto simp: note_row_def)
next
  case (Some n)
  then have "good_part n" "p = path_join dir n" using entry_name_iff [of dir p n] by auto
  moreover have "n' = n" if "good_part n'" "p = path_join dir n'" for n'
    using that Some entry_name_iff [of dir p n'] by auto
  ultimately show ?thesis using Some by (auto simp: note_row_def)
qed

lemma index_row_file: "index_row n data = Some r \<Longrightarrow> ir_file r = n"
  by (auto simp: index_row_def Let_def split: if_splits)

lemma set_map_filter_iff: "r \<in> set (List.map_filter f xs) \<longleftrightarrow> (\<exists>x\<in>set xs. f x = Some r)"
  by (induction xs) (auto simp: map_filter_simps split: option.splits)

lemma index_rows_distinct:
  assumes "distinct (map fst d)"
  shows "distinct (map ir_file (index_rows env dir d))"
proof -
  have "distinct (map ir_file (List.map_filter (note_row env dir) d))" using assms
  proof (induction d)
    case (Cons e d)
    obtain p data where e: "e = (p, data)" by (cases e)
    show ?case
    proof (cases "note_row env dir e")
      case (Some r)
      have "ir_file r' \<noteq> ir_file r" if "(p', data') \<in> set d" "note_row env dir (p', data') = Some r'" for p' data' r'
      proof
        assume "ir_file r' = ir_file r"
        then have "p' = p" using that(2) Some e by (auto simp: note_row_iff dest!: index_row_file)
        then show False using Cons.prems that(1) e by (force simp: image_iff)
      qed
      then have "ir_file r \<notin> ir_file ` set (List.map_filter (note_row env dir) d)"
        by (fastforce simp: set_map_filter_iff)
      then show ?thesis using Cons Some by (simp add: map_filter_simps)
    qed (use Cons in \<open>simp add: map_filter_simps\<close>)
  qed (simp add: map_filter_simps)
  then have "distinct (sort_key (\<lambda>x. x) (map ir_file (List.map_filter (note_row env dir) d)))" by simp
  moreover have "mset (map ir_file (index_rows env dir d)) = mset (map ir_file (List.map_filter (note_row env dir) d))"
    by (simp add: index_rows_def)
  ultimately show ?thesis
    by (metis \<open>distinct (map ir_file (List.map_filter (note_row env dir) d))\<close> mset_eq_imp_distinct_iff)
qed

text \<open>The file writer keeps the contract of a memory editor for every note but the generated index.\<close>

interpretation note_editor: memory_editor "Read env w" "Write env w" "\<lambda>c. c"
    "\<lambda>r _. fw_noGit w \<or> resolvePath (fw_dir w) r \<noteq> Inr (index_path w)" for env w
proof
  fix req st e st' h
  show "Write env w req st = (Inl e, st') \<Longrightarrow> st' = st" by (rule Write_error)
  assume ok: "Write env w req st = (Inr h, st')"
  then obtain full where full: "write_guard env w st (wr_RelPath req) (wr_BaseSHA req) full"
    "h = sha env (wr_Content req)" "\<And>p. fw_noGit w \<or> p \<noteq> index_path w \<Longrightarrow>
       map_of (files st') p = (if p = full then Some (wr_Content req) else map_of (files st) p)"
    by (rule Write_effect) blast
  show "wr_BaseSHA req \<noteq> [] \<Longrightarrow> \<exists>c. Read env w st (wr_RelPath req) = Inr (c, wr_BaseSHA req)"
    using full(1) by (auto simp: write_guard_def Read_ok split: option.splits)
  show "fw_noGit w \<or> resolvePath (fw_dir w) (wr_RelPath req) \<noteq> Inr (index_path w) \<Longrightarrow>
      Read env w st' (wr_RelPath req) = Inr (wr_Content req, h)"
    using full by (auto simp: write_guard_def Read_ok)
qed

section \<open>Properties\<close>

text \<open>
  A path that passes the guard lies inside the memory directory: it is the clean directory followed
  by at least one element, and no element behind it is empty, a dot, a parent reference or holds a slash.
\<close>

theorem resolvePath_inside:
  assumes "resolvePath dir relPath = Inr full"
  shows "\<exists>ps. ps \<noteq> [] \<and> list_all good_part ps \<and> full = path_clean dir @ [slash] @ str_join [slash] ps"
  using resolve_inside [OF assms] by metis

theorem resolvePath_inside_witness:
  "\<exists>ps. ps \<noteq> [] \<and> list_all good_part ps \<and> ''/m/a/b.md'' = path_clean ''/m'' @ [slash] @ str_join [slash] ps"
  by (rule resolvePath_inside [of "''/m''" "''a//b.md''"])
    (simp add: resolvePath_def path_clean_def clean_parts_def clean_step_def render_def is_rooted_def Let_def)

text \<open>
  A write is refused without any change, or it names a path inside the directory whose content (or
  absence) is what the editor saw; then the target holds the new content, the hash returned is its hash,
  and no path other than the target and the index is touched. The writer of the CC-native root touches the
  target only and makes no commit.
\<close>

theorem note_Write_guarded:
  "case Write env w req st of
     (Inl e, st') \<Rightarrow> st' = st
   | (Inr s, st') \<Rightarrow> \<exists>full.
       write_guard env w st (wr_RelPath req) (wr_BaseSHA req) full \<and> s = sha env (wr_Content req) \<and>
       (full = index_path w \<and> \<not> fw_noGit w \<or> map_of (files st') full = Some (wr_Content req)) \<and>
       (\<forall>p. p = full \<or> p = index_path w \<and> \<not> fw_noGit w \<or> map_of (files st') p = map_of (files st) p) \<and>
       (\<not> fw_noGit w \<or> log st' = log st)"
proof (cases "Write env w req st")
  case (Pair r st')
  show ?thesis
  proof (cases r)
    case (Inl e)
    then show ?thesis using Pair Write_error by simp
  next
    case (Inr s)
    then have ok: "Write env w req st = (Inr s, st')" using Pair by simp
    obtain full where full: "write_guard env w st (wr_RelPath req) (wr_BaseSHA req) full" "s = sha env (wr_Content req)"
      "\<And>p. fw_noGit w \<or> p \<noteq> index_path w \<Longrightarrow>
         map_of (files st') p = (if p = full then Some (wr_Content req) else map_of (files st) p)"
      "fw_noGit w \<Longrightarrow> log st' = log st"
      by (rule Write_effect [OF ok]) blast
    have "full = index_path w \<and> \<not> fw_noGit w \<or> map_of (files st') full = Some (wr_Content req)"
      using full(3) [of full] by auto
    moreover have "p = full \<or> p = index_path w \<and> \<not> fw_noGit w \<or> map_of (files st') p = map_of (files st) p" for p
      using full(3) [of p] by fastforce
    ultimately show ?thesis unfolding ok using full(1,2,4) by auto
  qed
qed

definition sample_env :: Env where
  "sample_env = \<lparr>sha = (\<lambda>s. ''h'' @ s), unreadable = (\<lambda>_. False), canWrite = (\<lambda>_. True), canRemove = (\<lambda>_. True),
     builder = (\<lambda>_ _. None), inRepo = True, addOk = True, commitOk = True, gitShow = (\<lambda>_. Some ''old'')\<rparr>"

definition sample_disk :: Store where
  "sample_disk = \<lparr>files = [(''/m/a.md'', ''x'')], log = []\<rparr>"

lemma sample_resolve: "resolvePath ''/m'' ''a.md'' = Inr ''/m/a.md''"
  by (simp add: resolvePath_def path_clean_def clean_parts_def clean_step_def render_def is_rooted_def Let_def)

text \<open>
  No lost update: two editors that read the same content and write different ones cannot both
  succeed. The second is told of the conflict, whatever it writes, as long as the first one's content has
  another hash.
\<close>

theorem Write_no_lost_update:
  assumes "Write env w \<lparr>wr_RelPath = r, wr_Content = a, wr_BaseSHA = base\<rparr> st = (Inr s, st')"
    and "sha env a \<noteq> base" "fw_noGit w \<or> resolvePath (fw_dir w) r \<noteq> Inr (index_path w)"
  shows "Write env w \<lparr>wr_RelPath = r, wr_Content = b, wr_BaseSHA = base\<rparr> st' = (Inl ErrConflict, st')"
proof -
  obtain full where full: "write_guard env w st r base full"
    "\<And>p. fw_noGit w \<or> p \<noteq> index_path w \<Longrightarrow> map_of (files st') p = (if p = full then Some a else map_of (files st) p)"
    using Write_effect [OF assms(1), unfolded WriteRequest.select_convs] by metis
  then have "resolvePath (fw_dir w) r = Inr full" "\<not> unreadable env full" by (simp_all add: write_guard_def)
  moreover from this have "map_of (files st') full = Some a" using full(2) assms(3) by auto
  ultimately show ?thesis using assms(2) by (simp add: Write_def check_base_def readFile_def)
qed

theorem Write_no_lost_update_witness:
  "Write sample_env (NewWriterNoGit ''/m'') \<lparr>wr_RelPath = ''a.md'', wr_Content = ''z'', wr_BaseSHA = ''hx''\<rparr>
     \<lparr>files = [(''/m/a.md'', ''y'')], log = []\<rparr> = (Inl ErrConflict, \<lparr>files = [(''/m/a.md'', ''y'')], log = []\<rparr>)"
  by (rule Write_no_lost_update [where a = "''y''" and st = sample_disk and s = "''hy''"])
    (simp_all add: Write_def NewWriterNoGit_def sample_resolve check_base_def readFile_def atomicWrite_def
      sample_env_def sample_disk_def)

text \<open>
  After a successful write the editor reads back exactly what it wrote, with the hash the write
  returned (unless it wrote the generated index itself).
\<close>

theorem Write_Read_roundtrip:
  assumes "Write env w req st = (Inr s, st')"
    and "fw_noGit w \<or> resolvePath (fw_dir w) (wr_RelPath req) \<noteq> Inr (index_path w)"
  shows "Read env w st' (wr_RelPath req) = Inr (wr_Content req, s)"
  by (rule note_editor.read_back [OF assms])

theorem Write_Read_roundtrip_witness:
  "Read sample_env (NewWriterNoGit ''/m'') \<lparr>files = [(''/m/a.md'', ''y'')], log = []\<rparr> ''a.md'' = Inr (''y'', ''hy'')"
  using Write_Read_roundtrip [of sample_env "NewWriterNoGit ''/m''"
      "\<lparr>wr_RelPath = ''a.md'', wr_Content = ''y'', wr_BaseSHA = ''hx''\<rparr>" sample_disk "''hy''"
      "\<lparr>files = [(''/m/a.md'', ''y'')], log = []\<rparr>"]
  by (simp add: Write_def NewWriterNoGit_def sample_resolve check_base_def readFile_def atomicWrite_def
      sample_env_def sample_disk_def)

text \<open>
  The index lists exactly the active notes: after a rebuild by the Go builder its lines are the
  header and one row per readable note file directly in the directory whose status is active or missing,
  sorted by file name without duplicates, and the last line is ended.
\<close>

theorem rebuildIndexGo_lists_active:
  assumes "distinct (map fst (files st))" "canWrite env (index_path w)" "\<not> unreadable env (path_clean (fw_dir w))"
  shows "\<exists>text rows. map_of (files (rebuildIndexGo env w st)) (index_path w) = Some text \<and>
    split_byte newline text = index_header @ map row_line rows @ [[]] \<and>
    sorted (map ir_file rows) \<and> distinct (map ir_file rows) \<and>
    (\<forall>r. r \<in> set rows \<longleftrightarrow> (\<exists>n data. good_part n \<and> has_suffix n ''.md'' \<and> n \<noteq> indexBasename \<and>
       map_of (files st) (path_join (fw_dir w) n) = Some data \<and> \<not> unreadable env (path_join (fw_dir w) n) \<and>
       index_row n data = Some r))"
proof (intro exI conjI)
  let ?rows = "index_rows env (fw_dir w) (files st)"
  show "map_of (files (rebuildIndexGo env w st)) (index_path w) = Some (index_text ?rows)"
    using assms(2,3) by (simp add: rebuildIndexGo_def files_update)
  show "split_byte newline (index_text ?rows) = index_header @ map row_line ?rows @ [[]]"
    by (rule index_text_lines)
  show "sorted (map ir_file ?rows)" by (simp add: index_rows_def)
  show "distinct (map ir_file ?rows)" by (rule index_rows_distinct [OF assms(1)])
  show "\<forall>r. r \<in> set ?rows \<longleftrightarrow> (\<exists>n data. good_part n \<and> has_suffix n ''.md'' \<and> n \<noteq> indexBasename \<and>
       map_of (files st) (path_join (fw_dir w) n) = Some data \<and> \<not> unreadable env (path_join (fw_dir w) n) \<and>
       index_row n data = Some r)"
    using map_of_eq_Some_iff [OF assms(1)] by (fastforce simp: index_rows_def set_map_filter_iff note_row_iff Bex_def)
qed

theorem rebuildIndexGo_lists_active_witness:
  "\<exists>text rows. map_of (files (rebuildIndexGo sample_env (NewWriter ''/m'') sample_disk)) ''/m/INDEX.md'' = Some text \<and>
    split_byte newline text = index_header @ map row_line rows @ [[]]"
  using rebuildIndexGo_lists_active [of sample_disk sample_env "NewWriter ''/m''"]
  by (auto simp: sample_disk_def sample_env_def NewWriter_def index_path_def path_join_def indexBasename_def
      path_clean_def clean_parts_def clean_step_def render_def is_rooted_def)

text \<open>
  A revert is a write of the old content under the same guard: for the directory with history it
  leaves the same files as \<open>Write\<close> of that content and answers the same.
\<close>

theorem Revert_is_Write:
  assumes "FileAtCommit env w r ref = Inr content" "\<not> fw_noGit w"
  shows "fst (Revert env w r ref base st) = fst (Write env w \<lparr>wr_RelPath = r, wr_Content = content, wr_BaseSHA = base\<rparr> st) \<and>
    files (snd (Revert env w r ref base st)) =
      files (snd (Write env w \<lparr>wr_RelPath = r, wr_Content = content, wr_BaseSHA = base\<rparr> st))"
  using assms by (auto simp: Revert_def Write_def atomicWrite_def split: sum.splits)

theorem Revert_is_Write_witness:
  "fst (Revert sample_env (NewWriter ''/m'') ''a.md'' ''HEAD'' ''hx'' sample_disk) =
    fst (Write sample_env (NewWriter ''/m'') \<lparr>wr_RelPath = ''a.md'', wr_Content = ''old'', wr_BaseSHA = ''hx''\<rparr> sample_disk)"
  using Revert_is_Write [of sample_env "NewWriter ''/m''" "''a.md''" "''HEAD''" "''old''"]
  by (simp add: FileAtCommit_def NewWriter_def sample_resolve validCommitRef_def ref_char_def byte_def sample_env_def)

text \<open>
  A delete touches nothing but the target and the index, and removes the target only when the
  editor's hash is that of the content on disk or when it sent none.
\<close>

theorem Delete_guarded:
  "case Delete env w r base st of
     (Inl e, st') \<Rightarrow> st' = st
   | (Inr _, st') \<Rightarrow> \<exists>full c. resolvePath (fw_dir w) r = Inr full \<and> map_of (files st) full = Some c \<and>
       (base = [] \<or> sha env c = base) \<and>
       (\<forall>p. p = index_path w \<and> \<not> fw_noGit w \<or>
          map_of (files st') p = (if p = full then None else map_of (files st) p))"
proof (cases "\<exists>full c. resolvePath (fw_dir w) r = Inr full \<and> readFile env st full = Inr c \<and>
    (base = [] \<or> sha env c = base) \<and> canRemove env full")
  case True
  then obtain full c where g: "resolvePath (fw_dir w) r = Inr full" "readFile env st full = Inr c"
    "base = [] \<or> sha env c = base" "canRemove env full" by blast
  let ?st1 = "st\<lparr>files := AList.delete full (files st)\<rparr>"
  have d: "Delete env w r base st =
      (Inr (), if fw_noGit w then ?st1 else commit env (''memory: delete '' @ r) (rebuildIndex env w ?st1))"
    using g by (auto simp: Delete_def Let_def)
  have c: "map_of (files st) full = Some c" using g(2) by (auto simp: readFile_def split: if_splits option.splits)
  have m: "map_of (files ?st1) p = (if p = full then None else map_of (files st) p)" for p
    by (simp add: delete_conv')
  have "p = index_path w \<and> \<not> fw_noGit w \<or>
      map_of (files (if fw_noGit w then ?st1 else commit env (''memory: delete '' @ r) (rebuildIndex env w ?st1))) p =
      (if p = full then None else map_of (files st) p)" for p
    using rebuildIndex_files [of p w env ?st1] m [of p] by (cases "fw_noGit w"; cases "p = index_path w") simp_all
  then show ?thesis unfolding d using g(1,3) c by auto
next
  case False
  then show ?thesis by (auto simp: Delete_def split: sum.splits)
qed

end
