(* ===== verification/Memory_Sync.thy ===== *)
theory Memory_Sync
  imports Frontmatter Utf8 "HOL-Library.Word"
begin

text \<open>
  Mirroring memory notes into the store: the note syncers (\<open>internal/memory/syncer.go\<close>,
  \<open>internal/memory/cc_syncer.go\<close>), the embeddings kept with the rows, their byte form
  (\<open>internal/db/embedding.go\<close>) and the replacement of one source's rows (\<open>internal/db/memory.go\<close>).
  A \<open>float32\<close> is its 32 bits. The YAML decoder, the tokenizer and the embedding provider are parameters;
  a provider that is not configured is \<open>None\<close>, one that refuses an input answers \<open>None\<close> for it.
\<close>

unbundle bit_operations_syntax

section \<open>Embeddings as bytes\<close>

type_synonym float32 = "32 word"

text \<open>Not a number or infinite: all exponent bits set.\<close>

definition non_finite :: "float32 \<Rightarrow> bool" where
  "non_finite v \<longleftrightarrow> v AND 0x7F800000 = 0x7F800000"

datatype EmbeddingError = EmptyVector | NonFinite nat | InvalidDimension int | EmptyBytes | NotDivisible nat | DimensionMismatch nat int

definition PutUint32 :: "float32 \<Rightarrow> 8 word list" where
  "PutUint32 v = [ucast v, ucast (drop_bit 8 v), ucast (drop_bit 16 v), ucast (drop_bit 24 v)]"

definition Uint32 :: "8 word list \<Rightarrow> float32" where
  "Uint32 b = ucast (b ! 0) OR push_bit 8 (ucast (b ! 1)) OR push_bit 16 (ucast (b ! 2)) OR push_bit 24 (ucast (b ! 3))"

fun encode_from :: "nat \<Rightarrow> float32 list \<Rightarrow> EmbeddingError + 8 word list" where
  "encode_from i [] = Inr []"
| "encode_from i (v # vs) =
     (if non_finite v then Inl (NonFinite i)
      else (case encode_from (Suc i) vs of Inl e \<Rightarrow> Inl e | Inr out \<Rightarrow> Inr (PutUint32 v @ out)))"

definition EncodeEmbedding :: "float32 list \<Rightarrow> EmbeddingError + 8 word list" where
  "EncodeEmbedding vector = (if vector = [] then Inl EmptyVector else encode_from 0 vector)"

fun decode_from :: "nat \<Rightarrow> nat \<Rightarrow> 8 word list \<Rightarrow> EmbeddingError + float32 list" where
  "decode_from i 0 data = Inr []"
| "decode_from i (Suc n) data =
     (let v = Uint32 data in
      if non_finite v then Inl (NonFinite i)
      else (case decode_from (Suc i) n (drop 4 data) of Inl e \<Rightarrow> Inl e | Inr vs \<Rightarrow> Inr (v # vs)))"

definition DecodeEmbedding :: "8 word list \<Rightarrow> int \<Rightarrow> EmbeddingError + float32 list" where
  "DecodeEmbedding data d =
     (if d \<le> 0 then Inl (InvalidDimension d)
      else if data = [] then Inl EmptyBytes
      else if length data mod 4 \<noteq> 0 then Inl (NotDivisible (length data))
      else if int (length data div 4) \<noteq> d then Inl (DimensionMismatch (length data div 4) d)
      else decode_from 0 (nat d) data)"

section \<open>Truncating for the provider\<close>

text \<open>U+2E80 and above: its bytes are \<open>E2 BA 80\<close>.\<close>

definition wide :: "string \<Rightarrow> bool" where
  "wide r =
     (case r of
        [a, b, c] \<Rightarrow> byte a > 0xE2 \<or> byte a = 0xE2 \<and> byte b \<ge> 0xBA
      | [a, b, c, d] \<Rightarrow> True
      | _ \<Rightarrow> False)"

definition estimate :: "string list \<Rightarrow> nat" where
  "estimate rs = length (filter wide rs) + (length (filter (\<lambda>r. \<not> wide r) rs) + 1) div 2"

definition embeddingTokenEstimate :: "string \<Rightarrow> nat" where
  "embeddingTokenEstimate s = estimate (range_runes s)"

definition maxEmbedInputTokens :: nat where "maxEmbedInputTokens = 6000"

lemma estimate_le: "estimate rs \<le> length rs"
proof -
  have "length (filter wide rs) + length (filter (\<lambda>r. \<not> wide r) rs) = length rs"
    by (rule sum_length_filter_compl)
  then show ?thesis by (auto simp: estimate_def)
qed

text \<open>One pass of the loop: how many runes stay.\<close>

definition scaled :: "nat \<Rightarrow> nat \<Rightarrow> nat" where
  "scaled n est =
     (let k = n * maxEmbedInputTokens div est in if k \<ge> n then n * 9 div 10 else k)"

lemma scaled_less: "0 < n \<Longrightarrow> scaled n est < n"
  by (auto simp: scaled_def Let_def)

function truncate_loop :: "string list \<Rightarrow> string list" where
  "truncate_loop rs =
     (if rs = [] then rs
      else let est = embeddingTokenEstimate (concat rs) in
        if est \<le> maxEmbedInputTokens then rs else truncate_loop (take (scaled (length rs) est) rs))"
  by pat_completeness auto
termination
  by (relation "measure length") (auto simp: scaled_less min_less_iff_disj)

declare truncate_loop.simps [simp del]

definition truncateForEmbedding :: "string \<Rightarrow> string" where
  "truncateForEmbedding body =
     (if embeddingTokenEstimate body \<le> maxEmbedInputTokens then body else concat (truncate_loop (range_runes body)))"

section \<open>Notes\<close>

record Memory =
  m_RelPath :: string
  m_Source :: string
  m_Title :: string
  m_Date :: string
  m_ProblemType :: string
  m_Type :: string
  m_Status :: string
  m_OriginSession :: string
  m_OriginProject :: string
  m_FeedbackVote :: string
  m_FeedbackComment :: string
  m_FeedbackStatus :: string
  m_CanonicalCoveredRefs :: string
  m_CanonicalProvenance :: string
  m_Body :: string
  m_BodyTokens :: nat
  m_SourceMtime :: int
  m_SyncedAt :: string
  m_LLMEmbedding :: "float32 list"
  m_LLMEmbeddingDim :: nat

record frontmatter =
  fm_Title :: string
  fm_Date :: string
  fm_ProblemType :: string
  fm_Type :: string
  fm_Status :: string
  fm_OriginSession :: string
  fm_OriginProject :: string
  fm_FeedbackVote :: string
  fm_FeedbackComment :: string
  fm_FeedbackStatus :: string

definition no_frontmatter :: frontmatter where
  "no_frontmatter = \<lparr>fm_Title = [], fm_Date = [], fm_ProblemType = [], fm_Type = [], fm_Status = [],
     fm_OriginSession = [], fm_OriginProject = [], fm_FeedbackVote = [], fm_FeedbackComment = [], fm_FeedbackStatus = []\<rparr>"

definition SourceCrossAgent :: string where "SourceCrossAgent = ''cross-agent''"
definition SourceCCNative :: string where "SourceCCNative = ''cc-native''"

text \<open>The parsers of both syncers differ in the source they set only. \<open>None\<close>: unreadable or malformed.\<close>

definition parseFile ::
  "string \<Rightarrow> (string \<Rightarrow> frontmatter option) \<Rightarrow> (string \<Rightarrow> nat) \<Rightarrow> string \<Rightarrow> int \<Rightarrow> string option \<Rightarrow> Memory option" where
  "parseFile source decode tokens relPath mtime data =
     (case data of
        None \<Rightarrow> None
      | Some raw \<Rightarrow>
          (case (if extractFrontmatterBlock raw \<noteq> [] then decode (extractFrontmatterBlock raw) else Some no_frontmatter) of
             None \<Rightarrow> None
           | Some fm \<Rightarrow> Some \<lparr>m_RelPath = relPath, m_Source = source, m_Title = fm_Title fm, m_Date = fm_Date fm,
               m_ProblemType = fm_ProblemType fm, m_Type = fm_Type fm, m_Status = fm_Status fm,
               m_OriginSession = fm_OriginSession fm, m_OriginProject = fm_OriginProject fm,
               m_FeedbackVote = fm_FeedbackVote fm, m_FeedbackComment = fm_FeedbackComment fm,
               m_FeedbackStatus = fm_FeedbackStatus fm, m_CanonicalCoveredRefs = [], m_CanonicalProvenance = [],
               m_Body = extractBody raw, m_BodyTokens = tokens (extractBody raw), m_SourceMtime = mtime,
               m_SyncedAt = [], m_LLMEmbedding = [], m_LLMEmbeddingDim = 0\<rparr>))"

type_synonym previous = "string \<Rightarrow> Memory option"
type_synonym embedder = "string \<Rightarrow> float32 list option"

definition reusePreviousEmbedding :: "Memory \<Rightarrow> previous \<Rightarrow> Memory option" where
  "reusePreviousEmbedding m prev =
     (case prev (m_RelPath m) of
        None \<Rightarrow> None
      | Some old \<Rightarrow>
          if m_Source old \<noteq> m_Source m \<or> m_Body old \<noteq> m_Body m \<or> m_LLMEmbedding old = [] then None
          else Some (m\<lparr>m_LLMEmbedding := m_LLMEmbedding old, m_LLMEmbeddingDim := m_LLMEmbeddingDim old\<rparr>))"

definition carryPreviousEmbedding :: "Memory \<Rightarrow> previous \<Rightarrow> Memory" where
  "carryPreviousEmbedding m prev =
     (case prev (m_RelPath m) of
        None \<Rightarrow> m
      | Some old \<Rightarrow>
          if m_Source old \<noteq> m_Source m \<or> m_LLMEmbedding old = [] then m
          else m\<lparr>m_LLMEmbedding := m_LLMEmbedding old, m_LLMEmbeddingDim := m_LLMEmbeddingDim old\<rparr>)"

text \<open>The error a refused note is logged with does not change what the callers do.\<close>

definition populateMemoryEmbedding :: "embedder option \<Rightarrow> Memory \<Rightarrow> previous \<Rightarrow> Memory" where
  "populateMemoryEmbedding embedder m prev =
     (case reusePreviousEmbedding m prev of
        Some m' \<Rightarrow> m'
      | None \<Rightarrow>
          (case embedder of
             None \<Rightarrow> m
           | Some e \<Rightarrow>
               (case e (truncateForEmbedding (m_Body m)) of
                  None \<Rightarrow> carryPreviousEmbedding m prev
                | Some vector \<Rightarrow> m\<lparr>m_LLMEmbedding := vector, m_LLMEmbeddingDim := length vector\<rparr>)))"

section \<open>The table\<close>

text \<open>A row: the columns of the note and the encoded embedding with its dimension.\<close>

record Row =
  r_memory :: Memory
  r_data :: "8 word list"
  r_dim :: int

definition bare :: "Memory \<Rightarrow> Memory" where
  "bare m = m\<lparr>m_LLMEmbedding := [], m_LLMEmbeddingDim := 0\<rparr>"

definition row_of :: "Memory \<Rightarrow> Row option" where
  "row_of m =
     (if m_LLMEmbedding m = [] then Some \<lparr>r_memory = bare m, r_data = [], r_dim = 0\<rparr>
      else (case EncodeEmbedding (m_LLMEmbedding m) of
              Inl e \<Rightarrow> None
            | Inr encoded \<Rightarrow> Some \<lparr>r_memory = bare m, r_data = encoded, r_dim = int (length (m_LLMEmbedding m))\<rparr>))"

text \<open>Inserting fails on an embedding that cannot be encoded and on a \<open>rel_path\<close> that is taken.\<close>

fun insert_rows :: "Row list \<Rightarrow> Memory list \<Rightarrow> Row list option" where
  "insert_rows table [] = Some table"
| "insert_rows table (m # ms) =
     (case row_of m of
        None \<Rightarrow> None
      | Some r \<Rightarrow>
          if m_RelPath m \<in> set (map (m_RelPath \<circ> r_memory) table) then None else insert_rows (table @ [r]) ms)"

definition replaceMemoriesTx :: "string \<Rightarrow> Memory list \<Rightarrow> Row list \<Rightarrow> Row list option" where
  "replaceMemoriesTx source ms table =
     insert_rows (if source \<noteq> [] then filter (\<lambda>r. m_Source (r_memory r) \<noteq> source) table else []) ms"

text \<open>The transaction is rolled back on an error; the flag says whether it was committed.\<close>

definition replaceMemories :: "string \<Rightarrow> Memory list \<Rightarrow> Row list \<Rightarrow> Row list \<times> bool" where
  "replaceMemories source ms table =
     (case replaceMemoriesTx source ms table of None \<Rightarrow> (table, False) | Some table' \<Rightarrow> (table', True))"

definition scan_row :: "Row \<Rightarrow> EmbeddingError + Memory" where
  "scan_row r =
     (if r_data r \<noteq> [] \<or> r_dim r > 0
      then (case DecodeEmbedding (r_data r) (r_dim r) of
              Inl e \<Rightarrow> Inl e
            | Inr vector \<Rightarrow> Inr ((r_memory r)\<lparr>m_LLMEmbedding := vector, m_LLMEmbeddingDim := nat (r_dim r)\<rparr>))
      else Inr (r_memory r))"

fun scan_rows :: "Row list \<Rightarrow> EmbeddingError + Memory list" where
  "scan_rows [] = Inr []"
| "scan_rows (r # rs) =
     (case scan_row r of
        Inl e \<Rightarrow> Inl e
      | Inr m \<Rightarrow> (case scan_rows rs of Inl e \<Rightarrow> Inl e | Inr ms \<Rightarrow> Inr (m # ms)))"

definition loadPreviousEmbeddings :: "Row list \<Rightarrow> string \<Rightarrow> previous" where
  "loadPreviousEmbeddings table source =
     (case scan_rows (filter (\<lambda>r. m_Source (r_memory r) = source) table) of
        Inl e \<Rightarrow> (\<lambda>_. None)
      | Inr ms \<Rightarrow> map_of (rev (map (\<lambda>m. (m_RelPath m, m)) ms)))"

section \<open>The syncers\<close>

text \<open>A directory entry: its name, whether it is a directory, its modification time and its content.\<close>

record Entry =
  e_name :: string
  e_isDir :: bool
  e_mtime :: "int option"
  e_data :: "string option"

definition note_of ::
  "string \<Rightarrow> string \<Rightarrow> (string \<Rightarrow> frontmatter option) \<Rightarrow> (string \<Rightarrow> nat) \<Rightarrow> (string \<Rightarrow> string) \<Rightarrow> Entry \<Rightarrow> Memory option" where
  "note_of source index decode tokens relPath e =
     (if e_isDir e \<or> \<not> has_suffix (e_name e) ''.md'' \<or> e_name e = index then None
      else (case e_mtime e of
              None \<Rightarrow> None
            | Some mtime \<Rightarrow> parseFile source decode tokens (relPath (e_name e)) mtime (e_data e)))"

definition Sync ::
  "(string \<Rightarrow> frontmatter option) \<Rightarrow> (string \<Rightarrow> nat) \<Rightarrow> embedder option \<Rightarrow> string \<Rightarrow> Entry list option \<Rightarrow> Row list \<Rightarrow> Row list \<times> bool" where
  "Sync decode tokens embedder syncedAt dir table =
     (case dir of
        None \<Rightarrow> (table, False)
      | Some entries \<Rightarrow>
          (let prev = loadPreviousEmbeddings table SourceCrossAgent;
               notes = filter (\<lambda>m. m_Status m = ''active'')
                 (List.map_filter (note_of SourceCrossAgent ''INDEX.md'' decode tokens (\<lambda>n. n)) entries)
           in replaceMemories SourceCrossAgent
                (map (\<lambda>m. populateMemoryEmbedding embedder (m\<lparr>m_SyncedAt := syncedAt\<rparr>) prev) notes) table))"

text \<open>The project directories: their names and the entries of their memory directory, if there is one.\<close>

definition CCSync ::
  "(string \<Rightarrow> frontmatter option) \<Rightarrow> (string \<Rightarrow> nat) \<Rightarrow> embedder option \<Rightarrow> string \<Rightarrow>
     (string \<times> Entry list option) list option \<Rightarrow> Row list \<Rightarrow> Row list \<times> bool" where
  "CCSync decode tokens embedder syncedAt projs table =
     (case projs of
        None \<Rightarrow> replaceMemories SourceCCNative [] table
      | Some projects \<Rightarrow>
          (let prev = loadPreviousEmbeddings table SourceCCNative;
               notes = concat (map (\<lambda>(proj, dir). case dir of None \<Rightarrow> [] | Some entries \<Rightarrow>
                 List.map_filter (note_of SourceCCNative ''MEMORY.md'' decode tokens
                   (\<lambda>n. proj @ ''/memory/'' @ n)) entries) projects)
           in replaceMemories SourceCCNative
                (map (\<lambda>m. populateMemoryEmbedding embedder (m\<lparr>m_SyncedAt := syncedAt\<rparr>) prev) notes) table))"

section \<open>Lemmas\<close>

lemma Uint32_PutUint32: "Uint32 (PutUint32 v @ rest) = v"
proof (rule bit_word_eqI)
  fix n assume "n < LENGTH(32)"
  then consider "n < 8" | "8 \<le> n" "n < 16" | "16 \<le> n" "n < 24" | "24 \<le> n" "n < 32" by fastforce
  then show "bit (Uint32 (PutUint32 v @ rest)) n = bit v n"
    by cases (auto simp: Uint32_def PutUint32_def bit_or_iff bit_push_bit_iff bit_ucast_iff bit_drop_bit_eq)
qed

lemma length_PutUint32 [simp]: "length (PutUint32 v) = 4"
  by (simp add: PutUint32_def)

lemma encode_from_length: "encode_from i vs = Inr d \<Longrightarrow> length d = 4 * length vs"
  by (induction vs arbitrary: i d) (auto split: if_splits sum.splits)

lemma decode_encode_from: "encode_from i vs = Inr d \<Longrightarrow> decode_from j (length vs) d = Inr vs"
proof (induction vs arbitrary: i j d)
  case (Cons v vs)
  then obtain out where out: "encode_from (Suc i) vs = Inr out" "d = PutUint32 v @ out" "\<not> non_finite v"
    by (auto split: if_splits sum.splits)
  then show ?case using Cons.IH [OF out(1)] by (simp add: Uint32_PutUint32)
qed simp

lemma Decode_Encode:
  assumes "EncodeEmbedding vs = Inr d"
  shows "DecodeEmbedding d (int (length vs)) = Inr vs"
proof -
  have vs: "vs \<noteq> []" "encode_from 0 vs = Inr d" using assms by (auto simp: EncodeEmbedding_def split: if_splits)
  then have "length d = 4 * length vs" by (simp add: encode_from_length)
  then show ?thesis using vs decode_encode_from [OF vs(2)] by (auto simp: DecodeEmbedding_def)
qed

lemma truncate_loop_prefix: "prefix (truncate_loop rs) rs"
proof (induction rs rule: truncate_loop.induct)
  case (1 rs)
  show ?case
    using 1 take_is_prefix [of "scaled (length rs) (embeddingTokenEstimate (concat rs))" rs]
    by (subst truncate_loop.simps) (auto simp: Let_def intro: prefix_order.trans)
qed

lemma prefix_all: "prefix xs ys \<Longrightarrow> list_all P ys \<Longrightarrow> list_all P xs"
  by (auto simp: prefix_def)

lemma empty_estimate: "embeddingTokenEstimate [] \<le> maxEmbedInputTokens"
  by code_simp

lemma truncate_loop_fits: "embeddingTokenEstimate (concat (truncate_loop rs)) \<le> maxEmbedInputTokens"
proof (induction rs rule: truncate_loop.induct)
  case (1 rs)
  show ?case
    using 1 by (subst truncate_loop.simps) (simp add: Let_def empty_estimate not_le)
qed

lemma truncate_loop_keeps:
  "list_all valid_rune rs \<Longrightarrow> maxEmbedInputTokens \<le> length rs \<Longrightarrow> maxEmbedInputTokens \<le> length (truncate_loop rs)"
proof (induction rs rule: truncate_loop.induct)
  case (1 rs)
  define est where "est = embeddingTokenEstimate (concat rs)"
  show ?case
  proof (cases "rs = [] \<or> est \<le> maxEmbedInputTokens")
    case True
    then show ?thesis using "1.prems" by (subst truncate_loop.simps) (auto simp: Let_def est_def)
  next
    case False
    have est: "est \<le> length rs"
      using estimate_le [of rs] range_runes_concat [OF "1.prems"(1)] by (simp add: est_def embeddingTokenEstimate_def)
    then have "maxEmbedInputTokens * est \<le> length rs * maxEmbedInputTokens" by simp
    then have "maxEmbedInputTokens \<le> length rs * maxEmbedInputTokens div est"
      using False by (metis div_le_mono linorder_not_le nat_less_le nonzero_mult_div_cancel_right not_less_zero zero_le)
    moreover have "length rs * maxEmbedInputTokens div est < length rs"
      using False by (intro div_less_iff_less_mult [THEN iffD2]) (auto simp: maxEmbedInputTokens_def)
    ultimately have k: "maxEmbedInputTokens \<le> scaled (length rs) est" by (simp add: scaled_def)
    have "maxEmbedInputTokens \<le> length (truncate_loop (take (scaled (length rs) est) rs))"
    proof (rule "1.IH" [OF _ est_def])
      show "rs \<noteq> []" "\<not> est \<le> maxEmbedInputTokens" using False by auto
      show "list_all valid_rune (take (scaled (length rs) est) rs)"
        using "1.prems"(1) by (rule prefix_all [OF take_is_prefix])
      show "maxEmbedInputTokens \<le> length (take (scaled (length rs) est) rs)" using k "1.prems"(2) by simp
    qed
    then show ?thesis using False by (subst truncate_loop.simps) (simp add: Let_def est_def)
  qed
qed

section \<open>The table and its rows\<close>

definition consistent :: "Memory \<Rightarrow> bool" where
  "consistent m \<longleftrightarrow> m_LLMEmbeddingDim m = length (m_LLMEmbedding m)"

text \<open>Every row was written from a note, and no two rows share a path.\<close>

definition table_ok :: "Row list \<Rightarrow> bool" where
  "table_ok table \<longleftrightarrow>
     distinct (map (m_RelPath \<circ> r_memory) table) \<and> (\<forall>r\<in>set table. \<exists>m. consistent m \<and> row_of m = Some r)"

lemma row_of_fields: "row_of m = Some r \<Longrightarrow> m_RelPath (r_memory r) = m_RelPath m \<and> m_Source (r_memory r) = m_Source m"
  by (auto simp: row_of_def bare_def split: if_splits sum.splits)

lemma scan_row_of: "row_of m = Some r \<Longrightarrow> consistent m \<Longrightarrow> scan_row r = Inr m"
proof -
  assume r: "row_of m = Some r" "consistent m"
  show ?thesis
  proof (cases "m_LLMEmbedding m = []")
    case True
    then show ?thesis using r by (auto simp: row_of_def scan_row_def bare_def consistent_def)
  next
    case False
    then obtain d where d: "EncodeEmbedding (m_LLMEmbedding m) = Inr d"
      "r = \<lparr>r_memory = bare m, r_data = d, r_dim = int (length (m_LLMEmbedding m))\<rparr>"
      using r by (auto simp: row_of_def split: sum.splits)
    then show ?thesis
      using r False Decode_Encode [OF d(1)] by (auto simp: scan_row_def bare_def consistent_def)
  qed
qed

lemma scan_rows_of:
  assumes "list_all2 (\<lambda>m r. row_of m = Some r \<and> consistent m) ms rs"
  shows "scan_rows rs = Inr ms"
  using assms by (induction ms rs rule: list_all2_induct) (auto simp: scan_row_of)

lemma insert_rows_Some:
  "insert_rows table ms = Some table' \<longleftrightarrow>
     (\<exists>rs. table' = table @ rs \<and> list_all2 (\<lambda>m r. row_of m = Some r) ms rs \<and> distinct (map m_RelPath ms) \<and>
        set (map m_RelPath ms) \<inter> set (map (m_RelPath \<circ> r_memory) table) = {})"
proof (induction ms arbitrary: table)
  case (Cons m ms)
  show ?case
  proof (cases "row_of m")
    case None
    then show ?thesis by (auto simp: list_all2_Cons1)
  next
    case (Some r)
    have path: "m_RelPath (r_memory r) = m_RelPath m" using row_of_fields [OF Some] by simp
    show ?thesis
    proof (cases "m_RelPath m \<in> set (map (m_RelPath \<circ> r_memory) table)")
      case True
      then show ?thesis using Some by auto
    next
      case False
      then show ?thesis using Some Cons.IH [of "table @ [r]"] path by (auto simp: list_all2_Cons1)
    qed
  qed
qed auto

definition others :: "string \<Rightarrow> Row list \<Rightarrow> Row list" where
  "others source table = filter (\<lambda>r. m_Source (r_memory r) \<noteq> source) table"

definition rows_from :: "string \<Rightarrow> Row list \<Rightarrow> Row list" where
  "rows_from source table = filter (\<lambda>r. m_Source (r_memory r) = source) table"

lemma list_all2_row_fields:
  assumes "list_all2 (\<lambda>m r. row_of m = Some r) ms rs"
  shows "map (m_RelPath \<circ> r_memory) rs = map m_RelPath ms" "map (m_Source \<circ> r_memory) rs = map m_Source ms"
  using assms by (induction ms rs rule: list_all2_induct) (simp_all add: row_of_fields)

lemma list_all2_right: "list_all2 P xs ys \<Longrightarrow> y \<in> set ys \<Longrightarrow> \<exists>x\<in>set xs. P x y"
  by (induction xs ys rule: list_all2_induct) auto

lemma list_all2_conj: "list_all2 P xs ys \<Longrightarrow> list_all Q xs \<Longrightarrow> list_all2 (\<lambda>x y. P x y \<and> Q x) xs ys"
  by (induction xs ys rule: list_all2_induct) auto

lemma replace_exact:
  assumes ok: "table_ok table" and src: "source \<noteq> []" "list_all (\<lambda>m. m_Source m = source \<and> consistent m) ms"
    and run: "replaceMemories source ms table = (table', True)"
  shows "table_ok table'" "others source table' = others source table" "scan_rows (rows_from source table') = Inr ms"
proof -
  have "replaceMemoriesTx source ms table = Some table'"
    using run by (cases "replaceMemoriesTx source ms table") (simp_all add: replaceMemories_def)
  then have "insert_rows (others source table) ms = Some table'"
    using src(1) by (simp add: replaceMemoriesTx_def others_def)
  then obtain rs where rs: "table' = others source table @ rs" "list_all2 (\<lambda>m r. row_of m = Some r) ms rs"
    "distinct (map m_RelPath ms)" "set (map m_RelPath ms) \<inter> set (map (m_RelPath \<circ> r_memory) (others source table)) = {}"
    unfolding insert_rows_Some by blast
  note fields = list_all2_row_fields [OF rs(2)]
  have both: "list_all2 (\<lambda>m r. row_of m = Some r \<and> consistent m) ms rs"
    using list_all2_conj [OF rs(2), of consistent] src(2) by (simp add: list_all_iff)
  have new: "list_all (\<lambda>r. m_Source (r_memory r) = source) rs"
  proof -
    have "set (map (m_Source \<circ> r_memory) rs) \<subseteq> {source}" using src(2) unfolding fields(2) by (auto simp: list_all_iff)
    then show ?thesis by (auto simp: list_all_iff)
  qed
  have "distinct (map (m_RelPath \<circ> r_memory) (others source table))"
    using ok by (simp add: table_ok_def others_def distinct_map_filter)
  moreover have "\<forall>r\<in>set rs. \<exists>m. consistent m \<and> row_of m = Some r"
    using list_all2_right [OF both] by blast
  moreover have "\<forall>r\<in>set (others source table). \<exists>m. consistent m \<and> row_of m = Some r"
    using ok by (simp add: table_ok_def others_def)
  ultimately show "table_ok table'"
    using rs(3,4) unfolding rs(1) table_ok_def by (simp only: map_append fields(1) distinct_append set_append Un_iff ball_Un Int_commute simp_thms)
  show "others source table' = others source table"
    using new unfolding rs(1) by (simp add: others_def list_all_iff)
  have "rows_from source table' = rs"
    using new unfolding rs(1) by (simp add: rows_from_def others_def list_all_iff filter_id_conv filter_empty_conv)
  then show "scan_rows (rows_from source table') = Inr ms" using scan_rows_of [OF both] by simp
qed

lemma loadPrevious_consistent:
  assumes "table_ok table" "loadPreviousEmbeddings table source p = Some m"
  shows "consistent m"
proof -
  have "scan_rows rs = Inr ms \<Longrightarrow> set rs \<subseteq> set table \<Longrightarrow> list_all consistent ms" for rs ms
  proof (induction rs arbitrary: ms)
    case (Cons r rs)
    then obtain m where "consistent m" "scan_row r = Inr m" using assms(1) scan_row_of by (auto simp: table_ok_def)
    then show ?case using Cons by (auto split: sum.splits)
  qed simp
  moreover obtain ms where "scan_rows (filter (\<lambda>r. m_Source (r_memory r) = source) table) = Inr ms" "m \<in> set ms"
    using assms(2) by (auto simp: loadPreviousEmbeddings_def split: sum.splits dest!: map_of_SomeD)
  ultimately show ?thesis by (auto simp: list_all_iff)
qed

text \<open>What the syncers build before they replace the rows.\<close>

definition embed_all :: "embedder option \<Rightarrow> string \<Rightarrow> previous \<Rightarrow> Memory list \<Rightarrow> Memory list" where
  "embed_all embedder syncedAt prev notes =
     map (\<lambda>m. populateMemoryEmbedding embedder (m\<lparr>m_SyncedAt := syncedAt\<rparr>) prev) notes"

lemma populate_fields:
  "m_Source (populateMemoryEmbedding e m prev) = m_Source m"
  "m_RelPath (populateMemoryEmbedding e m prev) = m_RelPath m"
  "m_Body (populateMemoryEmbedding e m prev) = m_Body m"
  by (auto simp: populateMemoryEmbedding_def reusePreviousEmbedding_def carryPreviousEmbedding_def
      split: option.splits if_splits)

lemma populate_consistent:
  assumes "\<And>p old. prev p = Some old \<Longrightarrow> consistent old" "consistent m"
  shows "consistent (populateMemoryEmbedding e m prev)"
  using assms by (auto simp: populateMemoryEmbedding_def reusePreviousEmbedding_def carryPreviousEmbedding_def
      consistent_def split: option.splits)

lemma note_of_fields:
  "note_of source index decode tokens rel e = Some m \<Longrightarrow> m_Source m = source \<and> consistent m \<and> m_RelPath m = rel (e_name e)"
  by (auto simp: note_of_def parseFile_def consistent_def split: if_splits option.splits)

definition cross_notes :: "(string \<Rightarrow> frontmatter option) \<Rightarrow> (string \<Rightarrow> nat) \<Rightarrow> Entry list \<Rightarrow> Memory list" where
  "cross_notes decode tokens entries =
     filter (\<lambda>m. m_Status m = ''active'')
       (List.map_filter (note_of SourceCrossAgent ''INDEX.md'' decode tokens (\<lambda>n. n)) entries)"

lemma cross_notes_source: "list_all (\<lambda>m. m_Source m = SourceCrossAgent \<and> consistent m) (cross_notes decode tokens entries)"
  by (auto simp: cross_notes_def list_all_iff List.map_filter_def dest: note_of_fields)

lemma embed_all_source:
  assumes "list_all (\<lambda>m. m_Source m = source \<and> consistent m) notes" "table_ok table"
  shows "list_all (\<lambda>m. m_Source m = source \<and> consistent m)
    (embed_all e at0 (loadPreviousEmbeddings table source) notes)"
proof -
  have "consistent (populateMemoryEmbedding e (m\<lparr>m_SyncedAt := at0\<rparr>) (loadPreviousEmbeddings table source))"
    if "consistent m" for m
    using that loadPrevious_consistent [OF assms(2)] by (intro populate_consistent) (auto simp: consistent_def)
  then show ?thesis using assms(1) by (auto simp: embed_all_def list_all_iff populate_fields)
qed

section \<open>Properties\<close>

text \<open>
  An embedding that can be stored is read back bit for bit: decoding the bytes with the vector's length
  gives the vector.
\<close>

theorem embedding_roundtrip:
  assumes "EncodeEmbedding vector = Inr d"
  shows "DecodeEmbedding d (int (length vector)) = Inr vector"
  by (rule Decode_Encode [OF assms])

theorem embedding_roundtrip_witness:
  "DecodeEmbedding [0, 0, 0x80, 0x3F] 1 = Inr [0x3F800000]"
  using embedding_roundtrip [of "[0x3F800000]" "[0, 0, 0x80, 0x3F]"]
  by (simp add: EncodeEmbedding_def non_finite_def PutUint32_def)

text \<open>
  C35. Truncation always ends with a text inside the provider's budget. A text that fits is not touched;
  of a longer one a prefix of its runes is kept, at least as many of them as the budget has tokens.
\<close>

theorem truncateForEmbedding_correct:
  "embeddingTokenEstimate (truncateForEmbedding body) \<le> maxEmbedInputTokens \<and>
   (if embeddingTokenEstimate body \<le> maxEmbedInputTokens then truncateForEmbedding body = body
    else prefix (range_runes (truncateForEmbedding body)) (range_runes body) \<and>
      maxEmbedInputTokens \<le> length (range_runes (truncateForEmbedding body)))"
proof (cases "embeddingTokenEstimate body \<le> maxEmbedInputTokens")
  case False
  let ?rs = "truncate_loop (range_runes body)"
  have "list_all valid_rune ?rs" by (rule prefix_all [OF truncate_loop_prefix range_runes_valid])
  then have "range_runes (truncateForEmbedding body) = ?rs" using False by (simp add: truncateForEmbedding_def range_runes_concat)
  moreover have "maxEmbedInputTokens \<le> length (range_runes body)"
    using False estimate_le [of "range_runes body"] by (simp add: embeddingTokenEstimate_def)
  ultimately show ?thesis
    using False truncate_loop_fits [of "range_runes body"] truncate_loop_prefix [of "range_runes body"]
      truncate_loop_keeps [OF range_runes_valid] by (simp add: truncateForEmbedding_def)
qed (simp add: truncateForEmbedding_def)

text \<open>
  C34. A synchronisation that is committed leaves in the table, under its own source, exactly one row for
  each active note in the directory's order, which reads back as that note with its embedding, and keeps
  every row of another source; the table stays well-formed. One that is not committed changes nothing.
\<close>

theorem Sync_exact:
  assumes "table_ok table"
  shows "case Sync decode tokens embedder syncedAt dir table of
      (table', True) \<Rightarrow> (\<exists>entries. dir = Some entries \<and> table_ok table' \<and>
        others SourceCrossAgent table' = others SourceCrossAgent table \<and>
        scan_rows (rows_from SourceCrossAgent table') =
          Inr (embed_all embedder syncedAt (loadPreviousEmbeddings table SourceCrossAgent) (cross_notes decode tokens entries)))
    | (table', False) \<Rightarrow> table' = table"
proof (cases dir)
  case (Some entries)
  let ?ms = "embed_all embedder syncedAt (loadPreviousEmbeddings table SourceCrossAgent) (cross_notes decode tokens entries)"
  have sync: "Sync decode tokens embedder syncedAt dir table = replaceMemories SourceCrossAgent ?ms table"
    by (simp add: Sync_def Some embed_all_def cross_notes_def Let_def)
  obtain table' b where run: "replaceMemories SourceCrossAgent ?ms table = (table', b)" by fastforce
  show ?thesis
  proof (cases b)
    case True
    have "SourceCrossAgent \<noteq> []" by (simp add: SourceCrossAgent_def)
    then show ?thesis
      using replace_exact [OF assms _ embed_all_source [OF cross_notes_source assms]] run True Some
      unfolding sync by simp
  next
    case False
    then show ?thesis using run unfolding sync by (auto simp: replaceMemories_def split: option.splits)
  qed
qed (simp add: Sync_def)

definition demo_decode :: "string \<Rightarrow> frontmatter option" where
  "demo_decode _ = Some (no_frontmatter\<lparr>fm_Status := ''active''\<rparr>)"

definition note_entry :: "string \<Rightarrow> Entry" where
  "note_entry body = \<lparr>e_name = ''n.md'', e_isDir = False, e_mtime = Some 0, e_data = Some body\<rparr>"

definition demo_provider :: embedder where
  "demo_provider t = Some (if t = ''a'' then [1] else [2])"

text \<open>
  A table with a row of the other source and a row of the synchronised one, both with a vector, and a directory
  with a note of the same name and another body, a new note, one without a header (its status is not active) and a file that is no note.
\<close>

definition mirror_note :: "string \<Rightarrow> string \<Rightarrow> string \<Rightarrow> float32 list \<Rightarrow> Memory" where
  "mirror_note source path body vector = \<lparr>m_RelPath = path, m_Source = source, m_Title = [], m_Date = [], m_ProblemType = [],
     m_Type = [], m_Status = ''active'', m_OriginSession = [], m_OriginProject = [], m_FeedbackVote = [],
     m_FeedbackComment = [], m_FeedbackStatus = [], m_CanonicalCoveredRefs = [], m_CanonicalProvenance = [],
     m_Body = body, m_BodyTokens = length body, m_SourceMtime = 0, m_SyncedAt = ''now'', m_LLMEmbedding = vector,
     m_LLMEmbeddingDim = length vector\<rparr>"

definition mirror_table :: "Row list" where
  "mirror_table = List.map_filter row_of
     [mirror_note SourceCCNative ''p/memory/n.md'' ''a'' [1], mirror_note SourceCrossAgent ''n.md'' ''a'' [1]]"

definition active_entry :: "string \<Rightarrow> Entry" where
  "active_entry body = note_entry (str_join [newline] [''---'', ''status: active'', ''---'', body])"

definition mirror_dir :: "Entry list" where
  "mirror_dir = [active_entry ''b'', (active_entry ''b'')\<lparr>e_name := ''m.md''\<rparr>, (note_entry ''b'')\<lparr>e_name := ''k.md''\<rparr>, (note_entry ''c'')\<lparr>e_name := ''x.txt''\<rparr>]"

lemma mirror_rows:
  "row_of (mirror_note SourceCCNative ''p/memory/n.md'' ''a'' [1]) = Some (mirror_table ! 0)"
  "row_of (mirror_note SourceCrossAgent ''n.md'' ''a'' [1]) = Some (mirror_table ! 1)"
  "length mirror_table = 2" "distinct (map (m_RelPath \<circ> r_memory) mirror_table)"
  by code_simp+

lemma mirror_table_ok: "table_ok mirror_table"
proof -
  have t: "mirror_table = [mirror_table ! 0, mirror_table ! 1]"
    using mirror_rows(3) by (simp add: list_eq_iff_nth_eq nth_Cons less_Suc_eq split: nat.split)
  have c: "consistent (mirror_note source path body vector)" for source path body vector
    by (simp add: consistent_def mirror_note_def)
  have "\<exists>m. consistent m \<and> row_of m = Some (mirror_table ! 0)" using c mirror_rows(1) by blast
  moreover have "\<exists>m. consistent m \<and> row_of m = Some (mirror_table ! 1)" using c mirror_rows(2) by blast
  ultimately have "\<forall>r\<in>set [mirror_table ! 0, mirror_table ! 1]. \<exists>m. consistent m \<and> row_of m = Some r" by simp
  then show ?thesis unfolding table_ok_def t [symmetric] using mirror_rows(4) by blast
qed

theorem Sync_exact_witness:
  "\<exists>table'. Sync demo_decode length (Some demo_provider) ''now'' (Some mirror_dir) mirror_table = (table', True) \<and>
     table_ok table' \<and> length (others SourceCrossAgent table') = 1 \<and>
     (\<exists>ms. scan_rows (rows_from SourceCrossAgent table') = Inr ms \<and>
        map (\<lambda>m. (m_RelPath m, m_Body m, m_LLMEmbedding m)) ms = [(''n.md'', ''b'', [2]), (''m.md'', ''b'', [2])])"
proof -
  obtain table' where run: "Sync demo_decode length (Some demo_provider) ''now'' (Some mirror_dir) mirror_table = (table', True)"
  proof -
    have "snd (Sync demo_decode length (Some demo_provider) ''now'' (Some mirror_dir) mirror_table)" by code_simp
    then show ?thesis by (intro that) (simp add: prod_eq_iff)
  qed
  have "length (others SourceCrossAgent mirror_table) = 1" by code_simp
  moreover have "map (\<lambda>m. (m_RelPath m, m_Body m, m_LLMEmbedding m))
      (embed_all (Some demo_provider) ''now'' (loadPreviousEmbeddings mirror_table SourceCrossAgent)
        (cross_notes demo_decode length mirror_dir)) = [(''n.md'', ''b'', [2]), (''m.md'', ''b'', [2])]"
    by code_simp
  ultimately show ?thesis
    using Sync_exact [OF mirror_table_ok, where dir = "Some mirror_dir" and decode = demo_decode and tokens = length and
        embedder = "Some demo_provider" and syncedAt = "''now''"] run
    by auto
qed

definition demo_run :: "embedder \<Rightarrow> string \<Rightarrow> Row list \<Rightarrow> Row list" where
  "demo_run e body table =
     fst (CCSync demo_decode length (Some e) ''now'' (Some [(''p'', Some [note_entry body])]) table)"

definition vectors :: "Row list \<Rightarrow> EmbeddingError + float32 list list" where
  "vectors table = (case scan_rows table of Inl e \<Rightarrow> Inl e | Inr ms \<Rightarrow> Inr (map m_LLMEmbedding ms))"

text \<open>
  An outage makes an outdated vector permanent. A note's body changes while the provider refuses: the
  new body is stored with the old vector, and from then on the row looks up to date, so that no later
  synchronisation asks the provider again, although it answers and would give another vector.
\<close>

theorem outage_makes_vector_stale:
  "vectors (demo_run demo_provider ''b'' (demo_run (\<lambda>_. None) ''b'' (demo_run demo_provider ''a'' []))) = Inr [[1]] \<and>
   vectors (demo_run demo_provider ''b'' (demo_run demo_provider ''a'' [])) = Inr [[2]]"
  by code_simp

text \<open>The vectors of a source are the provider's for the bodies they stand with.\<close>

definition fresh :: "embedder \<Rightarrow> string \<Rightarrow> Row list \<Rightarrow> bool" where
  "fresh e source table \<longleftrightarrow>
     (\<forall>ms. scan_rows (rows_from source table) = Inr ms \<longrightarrow>
        (\<forall>m\<in>set ms. m_LLMEmbedding m = [] \<or> e (truncateForEmbedding (m_Body m)) = Some (m_LLMEmbedding m)))"

lemma populate_fresh:
  assumes "fresh e source table" "e (truncateForEmbedding (m_Body m)) \<noteq> None"
  shows "e (truncateForEmbedding (m_Body m)) =
    Some (m_LLMEmbedding (populateMemoryEmbedding (Some e) m (loadPreviousEmbeddings table source)))"
proof (cases "reusePreviousEmbedding m (loadPreviousEmbeddings table source)")
  case None
  then show ?thesis using assms(2) by (auto simp: populateMemoryEmbedding_def)
next
  case (Some m')
  then obtain old where old: "loadPreviousEmbeddings table source (m_RelPath m) = Some old" "m_Body old = m_Body m"
    "m_LLMEmbedding old \<noteq> []" "m_LLMEmbedding m' = m_LLMEmbedding old"
    by (auto simp: reusePreviousEmbedding_def split: option.splits if_splits)
  obtain ms where "scan_rows (rows_from source table) = Inr ms" "old \<in> set ms"
    using old(1) by (auto simp: loadPreviousEmbeddings_def rows_from_def split: sum.splits dest!: map_of_SomeD)
  then have "e (truncateForEmbedding (m_Body m)) = Some (m_LLMEmbedding old)"
    using assms(1) old(2,3) by (auto simp: fresh_def)
  then show ?thesis using Some old(4) by (simp add: populateMemoryEmbedding_def)
qed

text \<open>
  As long as the provider accepts every note, no vector is outdated: a synchronisation that starts from
  fresh vectors ends with every row holding the provider's vector for its own body, reused or new.
\<close>

theorem Sync_keeps_fresh:
  assumes "table_ok table" "fresh e SourceCrossAgent table"
    and "\<forall>m\<in>set (cross_notes decode tokens entries). e (truncateForEmbedding (m_Body m)) \<noteq> None"
    and "Sync decode tokens (Some e) syncedAt (Some entries) table = (table', True)"
    and "scan_rows (rows_from SourceCrossAgent table') = Inr ms" "m \<in> set ms"
  shows "e (truncateForEmbedding (m_Body m)) = Some (m_LLMEmbedding m)"
proof -
  let ?prev = "loadPreviousEmbeddings table SourceCrossAgent"
  have run: "replaceMemories SourceCrossAgent (embed_all (Some e) syncedAt ?prev (cross_notes decode tokens entries)) table =
      (table', True)"
    using assms(4) by (simp add: Sync_def embed_all_def cross_notes_def Let_def)
  have "SourceCrossAgent \<noteq> []" by (simp add: SourceCrossAgent_def)
  then have "ms = embed_all (Some e) syncedAt ?prev (cross_notes decode tokens entries)"
    using replace_exact(3) [OF assms(1) _ embed_all_source [OF cross_notes_source assms(1)] run] assms(5) by simp
  then obtain n where "n \<in> set (cross_notes decode tokens entries)"
    "m = populateMemoryEmbedding (Some e) (n\<lparr>m_SyncedAt := syncedAt\<rparr>) ?prev"
    using assms(6) by (auto simp: embed_all_def)
  then show ?thesis
    using populate_fresh [OF assms(2), of "n\<lparr>m_SyncedAt := syncedAt\<rparr>"] assms(3) by (simp add: populate_fields)
qed

definition demo_file :: Entry where
  "demo_file = active_entry ''a''"

lemma table_ok_empty: "table_ok []"
  by (simp add: table_ok_def)

definition demo_table :: "Row list" where
  "demo_table = fst (Sync demo_decode length (Some demo_provider) ''now'' (Some [demo_file]) [])"

theorem Sync_keeps_fresh_witness:
  "\<exists>m. scan_rows (rows_from SourceCrossAgent demo_table) = Inr [m] \<and>
    demo_provider (truncateForEmbedding (m_Body m)) = Some (m_LLMEmbedding m)"
proof -
  have "\<exists>m. scan_rows (rows_from SourceCrossAgent demo_table) = Inr [m]"
  proof -
    have "case scan_rows (rows_from SourceCrossAgent demo_table) of Inr [m] \<Rightarrow> True | _ \<Rightarrow> False" by code_simp
    then show ?thesis by (auto split: sum.splits list.splits)
  qed
  then obtain m where m: "scan_rows (rows_from SourceCrossAgent demo_table) = Inr [m]" by blast
  have ok: "snd (Sync demo_decode length (Some demo_provider) ''now'' (Some [demo_file]) []) = True" by code_simp
  have run: "Sync demo_decode length (Some demo_provider) ''now'' (Some [demo_file]) [] = (demo_table, True)"
    unfolding demo_table_def by (rule prod_eqI) (simp_all only: fst_conv snd_conv ok)
  have "fresh demo_provider SourceCrossAgent []" by (simp add: fresh_def rows_from_def)
  then show ?thesis
    using m Sync_keeps_fresh [OF table_ok_empty _ _ run m, of m] by (auto simp: demo_provider_def)
qed

end
