(* ===== verification/Memory_Server.thy ===== *)
theory Memory_Server
  imports Memory_Files Memory_Ledger Memory_Sync
begin

text \<open>
  The memory routes of the server (\<open>internal/server/huma_routes_memory.go\<close>) over the editors and the
  mirrored table: choice of the editor by the note's source, the write, delete, feedback, history and
  revert handlers, and the resynchronisation of the table behind them. A response is the value of
  the body or an HTTP status; the server keeps the disk, the ledger and the memory table.
\<close>

section \<open>Requests\<close>

datatype 'a Response = OK 'a | Status nat

text \<open>\<open>base64.RawURLEncoding\<close>: line ends are skipped, a rest of one digit is an error.\<close>

definition b64_digit :: "char \<Rightarrow> nat option" where
  "b64_digit c =
     (if 65 \<le> byte c \<and> byte c \<le> 90 then Some (byte c - 65)
      else if 97 \<le> byte c \<and> byte c \<le> 122 then Some (byte c - 71)
      else if is_digit c then Some (byte c + 4)
      else if c = CHR ''-'' then Some 62 else if c = CHR ''_'' then Some 63 else None)"

fun b64_bytes :: "nat list \<Rightarrow> string option" where
  "b64_bytes [] = Some []"
| "b64_bytes [a] = None"
| "b64_bytes [a, b] = Some [char_of (a * 4 + b div 16)]"
| "b64_bytes [a, b, c] = Some [char_of (a * 4 + b div 16), char_of (b * 16 + c div 4)]"
| "b64_bytes (a # b # c # d # ds) =
     map_option (\<lambda>s. char_of (a * 4 + b div 16) # char_of (b * 16 + c div 4) # char_of (c * 64 + d) # s) (b64_bytes ds)"

definition decodeMemoryPath :: "string \<Rightarrow> string option" where
  "decodeMemoryPath encoded =
     Option.bind (those (map b64_digit (filter (\<lambda>c. c \<noteq> newline \<and> c \<noteq> CHR 0x0D) encoded))) b64_bytes"

section \<open>The server\<close>

record Config =
  cf_memoryDir :: string
  cf_ccDir :: string
  cf_ledger :: string
  cf_env :: Env
  cf_decodeEntry :: "string \<Rightarrow> ledgerEntry option"
  cf_archive :: "string \<Rightarrow> string option"
  cf_ledgerOk :: bool
  cf_list :: "disk \<Rightarrow> Entry list option"
  cf_ccList :: "disk \<Rightarrow> (string \<times> Entry list option) list option"
  cf_yaml :: "string \<Rightarrow> frontmatter option"
  cf_tokens :: "string \<Rightarrow> nat"
  cf_embedder :: "embedder option"
  cf_now :: string

record Server =
  sv_disk :: Store
  sv_ledger :: "string option"
  sv_table :: "Row list"

definition SourceAssistMem :: string where "SourceAssistMem = ''assist-mem''"
definition SourceCanonical :: string where "SourceCanonical = ''canonical''"

definition GetMemory :: "Row list \<Rightarrow> string \<Rightarrow> Memory option" where
  "GetMemory table relPath = map_option r_memory (find (\<lambda>r. m_RelPath (r_memory r) = relPath) table)"

text \<open>The implementations of \<open>memoryEditor\<close>.\<close>

datatype Editor = OnLedger | OnFiles FileWriter

definition editor_read :: "Config \<Rightarrow> Editor \<Rightarrow> Server \<Rightarrow> string \<Rightarrow> MemoryError + (string \<times> string)" where
  "editor_read cf ed sv r =
     (case ed of
        OnLedger \<Rightarrow> Memory_Ledger.Read (cf_decodeEntry cf) (Env.sha (cf_env cf)) (sv_ledger sv) r
      | OnFiles w \<Rightarrow> Memory_Files.Read (cf_env cf) w (sv_disk sv) r)"

definition editor_write :: "Config \<Rightarrow> Editor \<Rightarrow> WriteRequest \<Rightarrow> Server \<Rightarrow> (MemoryError + string) \<times> Server" where
  "editor_write cf ed req sv =
     (case ed of
        OnLedger \<Rightarrow>
          (let (l, res) = Memory_Ledger.Write (cf_decodeEntry cf) (Env.sha (cf_env cf)) (cf_ledgerOk cf) req (sv_ledger sv)
           in (res, sv\<lparr>sv_ledger := l\<rparr>))
      | OnFiles w \<Rightarrow> (let (res, d) = Memory_Files.Write (cf_env cf) w req (sv_disk sv) in (res, sv\<lparr>sv_disk := d\<rparr>)))"

definition editor_delete :: "Config \<Rightarrow> Editor \<Rightarrow> string \<Rightarrow> string \<Rightarrow> Server \<Rightarrow> (MemoryError + unit) \<times> Server" where
  "editor_delete cf ed r base sv =
     (case ed of
        OnLedger \<Rightarrow>
          (let (l, res) = Archive (cf_decodeEntry cf) (Env.sha (cf_env cf)) (cf_archive cf) (cf_ledgerOk cf) r base (sv_ledger sv)
           in (map_sum id (\<lambda>_. ()) res, sv\<lparr>sv_ledger := l\<rparr>))
      | OnFiles w \<Rightarrow> (let (res, d) = Delete (cf_env cf) w r base (sv_disk sv) in (res, sv\<lparr>sv_disk := d\<rparr>)))"

definition writerForRelPath :: "Config \<Rightarrow> Server \<Rightarrow> string \<Rightarrow> nat + (Editor \<times> string)" where
  "writerForRelPath cf sv relPath =
     (case GetMemory (sv_table sv) relPath of
        None \<Rightarrow> Inl 404
      | Some m \<Rightarrow>
          if m_Source m = SourceAssistMem then
            (if cf_ledger cf = [] then Inl 404 else Inr (OnLedger, m_Source m))
          else if m_Source m = SourceCanonical then Inl 400
          else if m_Source m = SourceCCNative then
            (if cf_ccDir cf = [] then Inl 404 else Inr (OnFiles (NewWriterNoGit (cf_ccDir cf)), m_Source m))
          else if cf_memoryDir cf = [] then Inl 404
          else Inr (OnFiles (NewWriter (cf_memoryDir cf)), SourceCrossAgent))"

definition memoryWriter :: "Config \<Rightarrow> FileWriter option" where
  "memoryWriter cf = (if cf_memoryDir cf = [] then None else Some (NewWriter (cf_memoryDir cf)))"

definition isHistoryUnsupportedMemory :: "Server \<Rightarrow> string \<Rightarrow> nat + bool" where
  "isHistoryUnsupportedMemory sv relPath =
     (case GetMemory (sv_table sv) relPath of
        None \<Rightarrow> Inl 404
      | Some m \<Rightarrow> Inr (m_Source m \<in> {SourceCCNative, SourceAssistMem, SourceCanonical}))"

definition memoryWriteError :: "MemoryError \<Rightarrow> nat" where
  "memoryWriteError e = (if e = ErrPathTraversal then 400 else if e = ErrConflict then 409 else 500)"

text \<open>A failed run is repeated without the embedder.\<close>

definition resyncMemorySource :: "(embedder option \<Rightarrow> Row list \<Rightarrow> Row list \<times> bool) \<Rightarrow> embedder option \<Rightarrow> Row list \<Rightarrow> Row list" where
  "resyncMemorySource sync embedder table =
     (case sync embedder table of (table', ok) \<Rightarrow> if ok then table' else fst (sync None table'))"

definition resyncMemory :: "Config \<Rightarrow> string \<Rightarrow> Server \<Rightarrow> Server" where
  "resyncMemory cf source sv =
     (if source = SourceCCNative then
        (if cf_ccDir cf = [] then sv
         else sv\<lparr>sv_table := resyncMemorySource
           (\<lambda>e. CCSync (cf_yaml cf) (cf_tokens cf) e (cf_now cf) (cf_ccList cf (files (sv_disk sv)))) (cf_embedder cf) (sv_table sv)\<rparr>)
      else if cf_memoryDir cf = [] then sv
      else sv\<lparr>sv_table := resyncMemorySource
        (\<lambda>e. Sync (cf_yaml cf) (cf_tokens cf) e (cf_now cf) (cf_list cf (files (sv_disk sv)))) (cf_embedder cf) (sv_table sv)\<rparr>)"

section \<open>Handlers\<close>

definition humaGetMemoryRaw :: "Config \<Rightarrow> string \<Rightarrow> Server \<Rightarrow> (string \<times> string) Response" where
  "humaGetMemoryRaw cf p sv =
     (case decodeMemoryPath p of
        None \<Rightarrow> Status 400
      | Some relPath \<Rightarrow>
          (case writerForRelPath cf sv relPath of
             Inl st \<Rightarrow> Status st
           | Inr (ed, _) \<Rightarrow>
               (case editor_read cf ed sv relPath of
                  Inl e \<Rightarrow> Status (if e = ErrPathTraversal then 400 else 404)
                | Inr cs \<Rightarrow> OK cs)))"

definition humaPutMemory :: "Config \<Rightarrow> string \<Rightarrow> string \<Rightarrow> string \<Rightarrow> Server \<Rightarrow> string Response \<times> Server" where
  "humaPutMemory cf p content base sv =
     (case decodeMemoryPath p of
        None \<Rightarrow> (Status 400, sv)
      | Some relPath \<Rightarrow>
          (case writerForRelPath cf sv relPath of
             Inl st \<Rightarrow> (Status st, sv)
           | Inr (ed, source) \<Rightarrow>
               (case editor_write cf ed \<lparr>wr_RelPath = relPath, wr_Content = content, wr_BaseSHA = base\<rparr> sv of
                  (Inl e, sv') \<Rightarrow> (Status (memoryWriteError e), sv')
                | (Inr h, sv') \<Rightarrow> (OK h, resyncMemory cf source sv'))))"

definition humaDeleteMemory :: "Config \<Rightarrow> string \<Rightarrow> string \<Rightarrow> Server \<Rightarrow> string Response \<times> Server" where
  "humaDeleteMemory cf p base sv =
     (case decodeMemoryPath p of
        None \<Rightarrow> (Status 400, sv)
      | Some relPath \<Rightarrow>
          (case writerForRelPath cf sv relPath of
             Inl st \<Rightarrow> (Status st, sv)
           | Inr (ed, source) \<Rightarrow>
               (case editor_delete cf ed relPath base sv of
                  (Inl e, sv') \<Rightarrow> (Status (memoryWriteError e), sv')
                | (Inr _, sv') \<Rightarrow> (OK [], resyncMemory cf source sv'))))"

definition validFeedbackVote :: "string \<Rightarrow> bool" where
  "validFeedbackVote v \<longleftrightarrow> v \<in> {[], ''up'', ''down''}"

definition validFeedbackStatus :: "string \<Rightarrow> bool" where
  "validFeedbackStatus v \<longleftrightarrow> v \<in> {[], ''pending'', ''handled''}"

definition feedback_fields :: "string \<Rightarrow> string \<Rightarrow> string \<Rightarrow> (string \<times> string) list" where
  "feedback_fields vote comment status =
     [(''feedback_vote'', vote), (''feedback_comment'', yamlQuote comment), (''feedback_status'', status)]"

text \<open>The read of the handler answers 404 where its write would answer 500.\<close>

definition humaMemoryFeedback ::
  "Config \<Rightarrow> string \<Rightarrow> string \<Rightarrow> string \<Rightarrow> string \<Rightarrow> string \<Rightarrow> Server \<Rightarrow> string Response \<times> Server" where
  "humaMemoryFeedback cf p vote comment status base sv =
     (case decodeMemoryPath p of
        None \<Rightarrow> (Status 400, sv)
      | Some relPath \<Rightarrow>
          if \<not> validFeedbackVote vote \<or> \<not> validFeedbackStatus status then (Status 400, sv)
          else (case writerForRelPath cf sv relPath of
             Inl st \<Rightarrow> (Status st, sv)
           | Inr (ed, source) \<Rightarrow>
               if source = SourceAssistMem then (Status 400, sv)
               else (case editor_read cf ed sv relPath of
                  Inl e \<Rightarrow> (Status (if e = ErrPathTraversal then 400 else 404), sv)
                | Inr _ \<Rightarrow>
                    (case read_modify_write (editor_read cf ed) (editor_write cf ed) relPath
                        (\<lambda>c. setFrontmatterFields c (feedback_fields vote comment status)) base sv of
                       (Inl e, sv') \<Rightarrow> (Status (memoryWriteError e), sv')
                     | (Inr h, sv') \<Rightarrow> (OK h, resyncMemory cf source sv')))))"

definition humaMemoryAtCommit :: "Config \<Rightarrow> string \<Rightarrow> string \<Rightarrow> Server \<Rightarrow> string Response" where
  "humaMemoryAtCommit cf p ref sv =
     (case decodeMemoryPath p of
        None \<Rightarrow> Status 400
      | Some relPath \<Rightarrow>
          (case isHistoryUnsupportedMemory sv relPath of
             Inl st \<Rightarrow> Status st
           | Inr True \<Rightarrow> Status 400
           | Inr False \<Rightarrow>
               (case memoryWriter cf of
                  None \<Rightarrow> Status 404
                | Some w \<Rightarrow>
                    (case FileAtCommit (cf_env cf) w relPath ref of
                       Inl e \<Rightarrow> Status (if e = ErrPathTraversal then 400 else 404)
                     | Inr c \<Rightarrow> OK c))))"

definition humaRevertMemory :: "Config \<Rightarrow> string \<Rightarrow> string \<Rightarrow> string \<Rightarrow> Server \<Rightarrow> string Response \<times> Server" where
  "humaRevertMemory cf p ref base sv =
     (case decodeMemoryPath p of
        None \<Rightarrow> (Status 400, sv)
      | Some relPath \<Rightarrow>
          (case isHistoryUnsupportedMemory sv relPath of
             Inl st \<Rightarrow> (Status st, sv)
           | Inr True \<Rightarrow> (Status 400, sv)
           | Inr False \<Rightarrow>
               (case memoryWriter cf of
                  None \<Rightarrow> (Status 404, sv)
                | Some w \<Rightarrow>
                    (case Revert (cf_env cf) w relPath ref base (sv_disk sv) of
                       (Inl e, d) \<Rightarrow> (Status (memoryWriteError e), sv\<lparr>sv_disk := d\<rparr>)
                     | (Inr h, d) \<Rightarrow> (OK h, resyncMemory cf SourceCrossAgent (sv\<lparr>sv_disk := d\<rparr>))))))"

section \<open>Lemmas\<close>

definition stored_by :: "Editor \<Rightarrow> string \<Rightarrow> string" where
  "stored_by ed c = (case ed of OnLedger \<Rightarrow> trim_space c | OnFiles _ \<Rightarrow> c)"

definition storable_by :: "Config \<Rightarrow> Editor \<Rightarrow> string \<Rightarrow> string \<Rightarrow> bool" where
  "storable_by cf ed r c =
     (case ed of
        OnLedger \<Rightarrow> cf_decodeEntry cf [] = None \<and> cf_decodeEntry cf (trim_space c) = cf_decodeEntry cf c \<and>
          newline \<notin> set (trim_space c)
      | OnFiles w \<Rightarrow> fw_noGit w \<or> resolvePath (fw_dir w) r \<noteq> Inr (index_path w))"

lemma ledger_write_eq:
  "editor_write cf OnLedger req sv = (res, sv') \<longleftrightarrow>
     prod.swap (Memory_Ledger.Write (cf_decodeEntry cf) (Env.sha (cf_env cf)) (cf_ledgerOk cf) req (sv_ledger sv)) = (res, sv_ledger sv') \<and>
     sv' = sv\<lparr>sv_ledger := sv_ledger sv'\<rparr>"
  by (cases sv'; cases sv) (auto simp: editor_write_def prod.swap_def split: prod.splits)

lemma files_write_eq:
  "editor_write cf (OnFiles w) req sv = (res, sv') \<longleftrightarrow>
     Memory_Files.Write (cf_env cf) w req (sv_disk sv) = (res, sv_disk sv') \<and> sv' = sv\<lparr>sv_disk := sv_disk sv'\<rparr>"
  by (cases sv'; cases sv) (auto simp: editor_write_def split: prod.splits)

text \<open>Whatever the source of a note, its editor keeps the contract of the interface.\<close>

interpretation server_editor: memory_editor "editor_read cf ed" "editor_write cf ed" "stored_by ed" "storable_by cf ed" for cf ed
proof
  fix req sv e sv' h
  show "editor_write cf ed req sv = (Inl e, sv') \<Longrightarrow> sv' = sv"
    by (cases ed) (auto simp: ledger_write_eq files_write_eq dest: ledger_editor.refused note_editor.refused)
  assume ok: "editor_write cf ed req sv = (Inr h, sv')"
  show "wr_BaseSHA req \<noteq> [] \<Longrightarrow> \<exists>c. editor_read cf ed sv (wr_RelPath req) = Inr (c, wr_BaseSHA req)"
    using ok by (cases ed) (auto simp: ledger_write_eq files_write_eq editor_read_def
        dest: ledger_editor.saw_base note_editor.saw_base)
  show "storable_by cf ed (wr_RelPath req) (wr_Content req) \<Longrightarrow>
      editor_read cf ed sv' (wr_RelPath req) = Inr (stored_by ed (wr_Content req), h)"
    using ok by (cases ed) (auto simp: ledger_write_eq files_write_eq editor_read_def storable_by_def stored_by_def
        dest: ledger_editor.read_back note_editor.read_back)
qed

lemma replace_others:
  assumes "source \<noteq> []" "list_all (\<lambda>m. m_Source m = source) ms"
  shows "others source (fst (replaceMemories source ms table)) = others source table"
proof (cases "replaceMemoriesTx source ms table")
  case (Some table')
  then obtain rs where rs: "table' = others source table @ rs" "list_all2 (\<lambda>m r. row_of m = Some r) ms rs"
    using assms(1) by (auto simp: replaceMemoriesTx_def insert_rows_Some others_def)
  have "set (map (m_Source \<circ> r_memory) rs) \<subseteq> {source}"
    using assms(2) unfolding list_all2_row_fields(2) [OF rs(2)] by (auto simp: list_all_iff)
  then have "filter (\<lambda>r. m_Source (r_memory r) \<noteq> source) rs = []" by (auto simp: filter_empty_conv)
  then show ?thesis using Some by (simp add: replaceMemories_def rs(1) others_def)
qed (simp add: replaceMemories_def)

lemma Sync_others: "others SourceCrossAgent (fst (Sync y t e n d table)) = others SourceCrossAgent table"
proof (cases d)
  case (Some entries)
  have "list_all (\<lambda>m. m_Source m = SourceCrossAgent)
      (embed_all e n (loadPreviousEmbeddings table SourceCrossAgent) (cross_notes y t entries))"
    using cross_notes_source [of y t entries] by (simp add: embed_all_def list_all_iff populate_fields)
  moreover have "SourceCrossAgent \<noteq> []" by (simp add: SourceCrossAgent_def)
  ultimately show ?thesis
    using replace_others by (simp add: Some Sync_def embed_all_def cross_notes_def Let_def)
qed (simp add: Sync_def)

lemma resync_others:
  assumes "\<And>e t. others source (fst (sync e t)) = others source t"
  shows "others source (resyncMemorySource sync embedder table) = others source table"
proof (cases "sync embedder table")
  case (Pair table' ok)
  then have "others source table' = others source table" using assms [of embedder table] by simp
  then show ?thesis using Pair assms [of None table'] by (simp add: resyncMemorySource_def)
qed

lemma resync_keeps [simp]:
  "sv_disk (resyncMemory cf source sv) = sv_disk sv" "sv_ledger (resyncMemory cf source sv) = sv_ledger sv"
  by (simp_all add: resyncMemory_def)

lemma resync_cross_others:
  "source \<noteq> SourceCCNative \<Longrightarrow>
     others SourceCrossAgent (sv_table (resyncMemory cf source sv)) = others SourceCrossAgent (sv_table sv)"
  using resync_others [OF Sync_others] by (simp add: resyncMemory_def)

text \<open>The editor for a note by its source.\<close>

lemma source_names [simp]:
  "SourceAssistMem \<noteq> SourceCanonical" "SourceAssistMem \<noteq> SourceCCNative" "SourceCanonical \<noteq> SourceCCNative"
  "SourceCrossAgent \<noteq> SourceAssistMem" "SourceCrossAgent \<noteq> SourceCCNative" "SourceCanonical \<noteq> SourceAssistMem"
  "SourceCrossAgent \<noteq> SourceCanonical" "SourceCCNative \<noteq> SourceAssistMem" "SourceCCNative \<noteq> SourceCanonical"
  by (simp_all add: SourceAssistMem_def SourceCanonical_def SourceCCNative_def SourceCrossAgent_def)

lemma writer_ledger:
  "writerForRelPath cf sv r = Inr (OnLedger, src) \<longleftrightarrow>
     (\<exists>m. GetMemory (sv_table sv) r = Some m \<and> m_Source m = SourceAssistMem \<and> src = SourceAssistMem \<and> cf_ledger cf \<noteq> [])"
  by (auto simp: writerForRelPath_def split: option.splits)

lemma writer_files:
  "writerForRelPath cf sv r = Inr (OnFiles w, src) \<Longrightarrow>
     \<exists>m. GetMemory (sv_table sv) r = Some m \<and> m_Source m \<notin> {SourceAssistMem, SourceCanonical} \<and>
       (m_Source m = SourceCCNative \<and> w = NewWriterNoGit (cf_ccDir cf) \<or>
        m_Source m \<noteq> SourceCCNative \<and> w = NewWriter (cf_memoryDir cf))"
  by (auto simp: writerForRelPath_def split: option.splits if_splits)

lemma files_write_inside:
  assumes "Memory_Files.Write env w req st = (res, st')"
  shows "has_prefix q (path_clean (fw_dir w) @ ''/'') \<or> q = index_path w \<and> \<not> fw_noGit w \<or>
    map_of (files st') q = map_of (files st) q"
proof (cases res)
  case (Inl e)
  then show ?thesis using assms Write_error [of env w req st e st'] by simp
next
  case (Inr h)
  then have "Memory_Files.Write env w req st = (Inr h, st')" using assms by simp
  then obtain full where full: "write_guard env w st (wr_RelPath req) (wr_BaseSHA req) full"
    "\<And>p. fw_noGit w \<or> p \<noteq> index_path w \<Longrightarrow> map_of (files st') p = (if p = full then Some (wr_Content req) else map_of (files st) p)"
    by (rule Write_effect) blast
  obtain ps where "full = path_clean (fw_dir w) @ ''/'' @ str_join ''/'' ps"
    using full(1) unfolding write_guard_def by (blast elim: resolve_inside)
  then have inside: "has_prefix full (path_clean (fw_dir w) @ ''/'')" by (simp add: has_prefix_iff)
  show ?thesis
  proof (cases "q = full")
    case False
    then show ?thesis using full(2) [of q] by auto
  qed (simp only: inside simp_thms)
qed

section \<open>A small server\<close>

definition demo_config :: Config where
  "demo_config = \<lparr>cf_memoryDir = ''/m'', cf_ccDir = [], cf_ledger = ''/l'', cf_env = sample_env,
     cf_decodeEntry = Memory_Ledger.demo_decode, cf_archive = (\<lambda>_. None), cf_ledgerOk = True, cf_list = (\<lambda>_. None),
     cf_ccList = (\<lambda>_. None), cf_yaml = Memory_Sync.demo_decode, cf_tokens = length, cf_embedder = None, cf_now = []\<rparr>"

definition demo_memory :: "string \<Rightarrow> string \<Rightarrow> Memory" where
  "demo_memory r source = \<lparr>m_RelPath = r, m_Source = source, m_Title = [], m_Date = [], m_ProblemType = [], m_Type = [],
     m_Status = [], m_OriginSession = [], m_OriginProject = [], m_FeedbackVote = [], m_FeedbackComment = [],
     m_FeedbackStatus = [], m_CanonicalCoveredRefs = [], m_CanonicalProvenance = [], m_Body = [], m_BodyTokens = 0,
     m_SourceMtime = 0, m_SyncedAt = [], m_LLMEmbedding = [], m_LLMEmbeddingDim = 0\<rparr>"

definition demo_server :: "string \<Rightarrow> Server" where
  "demo_server content = \<lparr>sv_disk = \<lparr>files = [(''/m/a.md'', content)], log = []\<rparr>, sv_ledger = Some demo_ledger,
     sv_table = map (\<lambda>(r, src). \<lparr>r_memory = demo_memory r src, r_data = [], r_dim = 0\<rparr>)
       [(''a.md'', SourceCrossAgent), (''assist-mem/a.jsonl'', SourceAssistMem)]\<rparr>"

text \<open>The encoding of \<open>a.md\<close>.\<close>

definition demo_path :: string where "demo_path = ''YS5tZA''"

lemma demo_path: "decodeMemoryPath demo_path = Some ''a.md''"
  by (simp add: decodeMemoryPath_def demo_path_def b64_digit_def byte_def is_digit_def char_of_def bit_iff_odd)

lemma demo_writer:
  "sv_table sv = sv_table (demo_server c) \<Longrightarrow>
     writerForRelPath demo_config sv ''a.md'' = Inr (OnFiles (NewWriter ''/m''), SourceCrossAgent)"
  by (simp add: writerForRelPath_def GetMemory_def demo_server_def demo_memory_def demo_config_def SourceCrossAgent_def
      SourceAssistMem_def SourceCCNative_def SourceCanonical_def)

lemma demo_resync: "resyncMemory demo_config SourceCrossAgent sv = sv"
  by (simp add: resyncMemory_def demo_config_def resyncMemorySource_def Sync_def)

lemma demo_not_index:
  "fw_noGit (NewWriter ''/m'') \<or> resolvePath (fw_dir (NewWriter ''/m'')) ''a.md'' \<noteq> Inr (index_path (NewWriter ''/m''))"
  by code_simp

lemma demo_config_env [simp]: "cf_env demo_config = sample_env"
  by (simp add: demo_config_def)

lemma demo_editor_write:
  "editor_write demo_config (OnFiles (NewWriter ''/m'')) \<lparr>wr_RelPath = ''a.md'', wr_Content = c, wr_BaseSHA = ''h'' @ x\<rparr> (demo_server x) =
     (Inr (''h'' @ c), (demo_server x)\<lparr>sv_disk := snd (Memory_Files.Write sample_env (NewWriter ''/m'')
        \<lparr>wr_RelPath = ''a.md'', wr_Content = c, wr_BaseSHA = ''h'' @ x\<rparr> (sv_disk (demo_server x)))\<rparr>)"
  by (simp add: editor_write_def Memory_Files.Write_def sample_resolve NewWriter_def check_base_def readFile_def
      atomicWrite_def sample_env_def demo_server_def)

section \<open>Properties\<close>

text \<open>
  A write-back stays in the tree of the note's own source: without a known note nothing changes, a
  canonical note is answered 400 and nothing changes, an assist-mem entry changes the ledger only, a
  CC-native note changes only files inside the projects directory, and any other note only files inside
  the memory directory and its index.
\<close>

theorem put_isolated:
  "case humaPutMemory cf p content base sv of (res, sv') \<Rightarrow>
     (case Option.bind (decodeMemoryPath p) (GetMemory (sv_table sv)) of
        None \<Rightarrow> sv' = sv
      | Some m \<Rightarrow>
          if m_Source m = SourceCanonical then sv' = sv \<and> res = Status 400
          else if m_Source m = SourceAssistMem then sv_disk sv' = sv_disk sv
          else sv_ledger sv' = sv_ledger sv \<and>
            (\<forall>q. (if m_Source m = SourceCCNative then has_prefix q (path_clean (cf_ccDir cf) @ ''/'')
                  else has_prefix q (path_clean (cf_memoryDir cf) @ ''/'') \<or> q = index_path (NewWriter (cf_memoryDir cf))) \<or>
               map_of (files (sv_disk sv')) q = map_of (files (sv_disk sv)) q))"
proof (cases "Option.bind (decodeMemoryPath p) (GetMemory (sv_table sv))")
  case None
  then show ?thesis
    by (cases "decodeMemoryPath p") (simp_all add: humaPutMemory_def writerForRelPath_def)
next
  case (Some m)
  then obtain r where r: "decodeMemoryPath p = Some r" "GetMemory (sv_table sv) r = Some m" by (auto simp: bind_eq_Some_conv)
  show ?thesis
  proof (cases "writerForRelPath cf sv r")
    case (Inl st)
    then have "humaPutMemory cf p content base sv = (Status st, sv)" by (simp add: humaPutMemory_def r(1))
    moreover have "m_Source m = SourceCanonical \<Longrightarrow> st = 400" using Inl r(2) by (simp add: writerForRelPath_def)
    ultimately show ?thesis using Some by simp
  next
    case (Inr e)
    obtain ed src where e: "writerForRelPath cf sv r = Inr (ed, src)" using Inr by (cases e) simp
    define req where "req = \<lparr>wr_RelPath = r, wr_Content = content, wr_BaseSHA = base\<rparr>"
    obtain res1 sv1 where run: "editor_write cf ed req sv = (res1, sv1)" by fastforce
    obtain res sv' where put: "humaPutMemory cf p content base sv = (res, sv')" by fastforce
    have same: "sv_disk sv' = sv_disk sv1" "sv_ledger sv' = sv_ledger sv1"
      using put run by (auto simp: humaPutMemory_def r(1) e req_def [symmetric] split: sum.splits)
    show ?thesis
    proof (cases ed)
      case OnLedger
      then have "m_Source m = SourceAssistMem" using e r(2) by (simp add: writer_ledger)
      moreover have "sv_disk sv1 = sv_disk sv"
        using run OnLedger by (auto simp: editor_write_def split: prod.splits)
      ultimately show ?thesis using Some put same by simp
    next
      case (OnFiles w)
      then have src: "m_Source m \<notin> {SourceAssistMem, SourceCanonical}"
        "m_Source m = SourceCCNative \<and> w = NewWriterNoGit (cf_ccDir cf) \<or>
         m_Source m \<noteq> SourceCCNative \<and> w = NewWriter (cf_memoryDir cf)"
        using writer_files [of cf sv r w src] e r(2) by auto
      have run': "Memory_Files.Write (cf_env cf) w req (sv_disk sv) = (res1, sv_disk sv1)" "sv_ledger sv1 = sv_ledger sv"
        using run OnFiles by (auto simp: editor_write_def split: prod.splits)
      have "(if m_Source m = SourceCCNative then has_prefix q (path_clean (cf_ccDir cf) @ ''/'')
          else has_prefix q (path_clean (cf_memoryDir cf) @ ''/'') \<or> q = index_path (NewWriter (cf_memoryDir cf))) \<or>
        map_of (files (sv_disk sv')) q = map_of (files (sv_disk sv)) q" for q
        using src(2) files_write_inside [OF run'(1), of q] by (auto simp: NewWriter_def NewWriterNoGit_def same)
      then show ?thesis using Some put src(1) by (simp add: same run'(2))
    qed
  qed
qed

text \<open>
  Editing a ledger entry resynchronises the wrong source: whatever the write did, the rows of the
  assist-mem source in the table, which the list and the detail route serve, stay as they were.
\<close>

theorem ledger_edit_not_mirrored:
  assumes "decodeMemoryPath p = Some r" "GetMemory (sv_table sv) r = Some m" "m_Source m = SourceAssistMem"
  shows "rows_from SourceAssistMem (sv_table (snd (humaPutMemory cf p content base sv))) =
    rows_from SourceAssistMem (sv_table sv)"
proof (cases "writerForRelPath cf sv r")
  case (Inl st)
  then show ?thesis by (simp add: humaPutMemory_def assms(1))
next
  case (Inr e)
  then have e: "writerForRelPath cf sv r = Inr (OnLedger, SourceAssistMem)"
    using assms(2,3) by (auto simp: writerForRelPath_def split: if_splits)
  let ?req = "\<lparr>wr_RelPath = r, wr_Content = content, wr_BaseSHA = base\<rparr>"
  obtain res1 sv1 where run: "editor_write cf OnLedger ?req sv = (res1, sv1)" by fastforce
  then have t: "sv_table sv1 = sv_table sv" by (auto simp: editor_write_def split: prod.splits)
  have "others SourceCrossAgent (sv_table (snd (humaPutMemory cf p content base sv))) =
      others SourceCrossAgent (sv_table sv)"
    using run t resync_cross_others [of SourceAssistMem cf sv1]
    by (auto simp: humaPutMemory_def assms(1) e split: sum.splits)
  moreover have "rows_from SourceAssistMem t = rows_from SourceAssistMem (others SourceCrossAgent t)" for t
    by (auto simp: rows_from_def others_def intro!: filter_cong)
  ultimately show ?thesis by metis
qed

lemma yamlQuote_line: "newline \<notin> set (yamlQuote c)"
  by (auto simp: yamlQuote_def Let_def)

lemma feedback_proper:
  assumes "validFeedbackVote vote" "validFeedbackStatus status"
  shows "proper_fields (feedback_fields vote comment status)"
  using assms yamlQuote_line
  by (auto simp: proper_fields_def feedback_fields_def proper_key_def trimmed_def is_space_def byte_def
      validFeedbackVote_def validFeedbackStatus_def)

lemma feedback_run:
  assumes "humaMemoryFeedback cf p vote comment status base sv = (OK h, sv')"
    and "decodeMemoryPath p = Some r" "writerForRelPath cf sv r = Inr (OnFiles w, src)"
    and "Memory_Files.Read (cf_env cf) w (sv_disk sv) r = Inr (c, k)"
    and "fw_noGit w \<or> resolvePath (fw_dir w) r \<noteq> Inr (index_path w)"
  shows "validFeedbackVote vote \<and> validFeedbackStatus status \<and>
    Memory_Files.Read (cf_env cf) w (sv_disk sv') r = Inr (setFrontmatterFields c (feedback_fields vote comment status), h)"
proof -
  let ?f = "\<lambda>c. setFrontmatterFields c (feedback_fields vote comment status)"
  have v: "validFeedbackVote vote" "validFeedbackStatus status"
    using assms(1) by (auto simp: humaMemoryFeedback_def assms(2) split: if_splits)
  obtain res sv1 where run: "read_modify_write (editor_read cf (OnFiles w)) (editor_write cf (OnFiles w)) r ?f base sv = (res, sv1)"
    by fastforce
  have rd: "editor_read cf (OnFiles w) sv r = Inr (c, k)" using assms(4) by (simp add: editor_read_def)
  have "res = Inr h \<and> sv_disk sv' = sv_disk sv1"
    using assms(1) run rd by (auto simp: humaMemoryFeedback_def assms(2,3) split: if_splits sum.splits)
  then have "editor_read cf (OnFiles w) sv1 r = Inr (stored_by (OnFiles w) (?f c), h)" "sv_disk sv' = sv_disk sv1"
    using server_editor.modify_applies [of cf "OnFiles w" r ?f base sv h sv1 c k] run rd assms(5)
    by (simp_all add: storable_by_def)
  then show ?thesis using v by (simp add: editor_read_def stored_by_def)
qed

text \<open>
  C32. Recorded feedback is in the note: when a file note with a header gets feedback, the file then reads
  back with the three fields set to the vote, the quoted comment and the status, everything behind the
  header as before, and the hash the handler answered.
\<close>

theorem feedback_recorded:
  assumes "humaMemoryFeedback cf p vote comment status base sv = (OK h, sv')"
    and "decodeMemoryPath p = Some r" "writerForRelPath cf sv r = Inr (OnFiles w, src)"
    and "Memory_Files.Read (cf_env cf) w (sv_disk sv) r = Inr (c, k)" "has_header c f front g rest"
    and "fw_noGit w \<or> resolvePath (fw_dir w) r \<noteq> Inr (index_path w)"
  shows "\<exists>c' front'. Memory_Files.Read (cf_env cf) w (sv_disk sv') r = Inr (c', h) \<and> has_header c' f front' g rest \<and>
    ''feedback_vote: '' @ vote \<in> set front' \<and> ''feedback_comment: '' @ yamlQuote comment \<in> set front' \<and>
    ''feedback_status: '' @ status \<in> set front'"
proof -
  let ?kv = "feedback_fields vote comment status"
  note run = feedback_run [OF assms(1-4,6)]
  have proper: "proper_fields ?kv" using run feedback_proper by simp
  have "?kv \<noteq> []" by (simp add: feedback_fields_def)
  note hd = setFrontmatterFields_header [OF assms(5) this proper]
  have "k @ '': '' @ v \<in> set (set_front ?kv (orderedFrontmatterKeys ?kv) front)" if "(k, v) \<in> set ?kv" for k v
    using set_front_sets(1) [OF proper_fields_keys(1) [OF proper], of k ?kv front] field_line_at [OF proper that] that
    by (metis fst_conv image_eqI set_orderedFrontmatterKeys)
  from this [of "''feedback_vote''" vote] this [of "''feedback_comment''" "yamlQuote comment"]
    this [of "''feedback_status''" status]
  show ?thesis using run hd by (intro exI conjI) (auto simp: feedback_fields_def)
qed

text \<open>
  Of two clients that read the same version of a note, whatever its source, and put different contents,
  the second is refused and changes nothing.
\<close>

theorem put_no_lost_update:
  assumes "humaPutMemory cf p a base sv = (OK h, sv')" "base \<noteq> []" "h \<noteq> base"
    and "decodeMemoryPath p = Some r" "writerForRelPath cf sv r = Inr (ed, src)" "writerForRelPath cf sv' r = Inr (ed, src)"
    and "storable_by cf ed r a"
  shows "\<exists>st. humaPutMemory cf p b base sv' = (Status st, sv')"
proof -
  let ?a = "\<lparr>wr_RelPath = r, wr_Content = a, wr_BaseSHA = base\<rparr>"
  let ?b = "\<lparr>wr_RelPath = r, wr_Content = b, wr_BaseSHA = base\<rparr>"
  obtain sv1 where run: "editor_write cf ed ?a sv = (Inr h, sv1)" "sv' = resyncMemory cf src sv1"
    using assms(1) by (auto simp: humaPutMemory_def assms(4,5) split: prod.splits sum.splits)
  have "editor_read cf ed sv1 r = Inr (stored_by ed a, h)"
    using server_editor.read_back [OF run(1)] assms(7) by simp
  moreover have "editor_read cf ed sv' r = editor_read cf ed sv1 r" by (cases ed) (simp_all add: editor_read_def run(2))
  ultimately have rd: "editor_read cf ed sv' r = Inr (stored_by ed a, h)" by simp
  obtain res sv2 where second: "editor_write cf ed ?b sv' = (res, sv2)" by fastforce
  show ?thesis
  proof (cases res)
    case (Inl e)
    then have "sv2 = sv'" using second server_editor.refused by blast
    then show ?thesis using second Inl by (simp add: humaPutMemory_def assms(4,6))
  next
    case (Inr k)
    then have "\<exists>c. editor_read cf ed sv' r = Inr (c, base)"
      using server_editor.saw_base [of cf ed ?b sv' k sv2] second assms(2) by simp
    then show ?thesis using rd assms(3) by simp
  qed
qed

theorem put_no_lost_update_witness:
  "\<exists>st. humaPutMemory demo_config demo_path ''z'' ''hx'' (snd (humaPutMemory demo_config demo_path ''y'' ''hx'' (demo_server ''x''))) =
    (Status st, snd (humaPutMemory demo_config demo_path ''y'' ''hx'' (demo_server ''x'')))"
proof -
  let ?put = "humaPutMemory demo_config demo_path ''y'' ''hx'' (demo_server ''x'')"
  have run: "fst ?put = OK ''hy'' \<and> sv_table (snd ?put) = sv_table (demo_server ''x'')"
    using demo_editor_write [of "''y''" "''x''"]
    by (simp add: humaPutMemory_def demo_path demo_writer demo_resync)
  then have put: "?put = (OK ''hy'', snd ?put)" by (metis prod.collapse)
  show ?thesis
    using put_no_lost_update [OF put _ _ demo_path demo_writer [OF refl] demo_writer [OF conjunct2 [OF run]]] demo_not_index
    by (simp add: storable_by_def)
qed

theorem ledger_edit_not_mirrored_witness:
  "rows_from SourceAssistMem (sv_table (snd (humaPutMemory demo_config ''YXNzaXN0LW1lbS9hLmpzb25s'' ''{a }'' ''h{a}'' (demo_server [])))) =
    rows_from SourceAssistMem (sv_table (demo_server []))"
proof (rule ledger_edit_not_mirrored)
  show "decodeMemoryPath ''YXNzaXN0LW1lbS9hLmpzb25s'' = Some ''assist-mem/a.jsonl''"
    by (simp add: decodeMemoryPath_def b64_digit_def byte_def is_digit_def char_of_def bit_iff_odd)
  show "GetMemory (sv_table (demo_server [])) ''assist-mem/a.jsonl'' = Some (demo_memory ''assist-mem/a.jsonl'' SourceAssistMem)"
    by (simp add: GetMemory_def demo_server_def demo_memory_def)
qed (simp add: demo_memory_def)

theorem feedback_recorded_witness:
  "\<exists>c' h front'. Memory_Files.Read sample_env (NewWriter ''/m'')
      (sv_disk (snd (humaMemoryFeedback demo_config demo_path ''up'' ''ok'' [] [] (demo_server sample_note)))) ''a.md'' = Inr (c', h) \<and>
    has_header c' ''---'' front' ''---'' [''body''] \<and> ''feedback_vote: up'' \<in> set front'"
proof -
  let ?fb = "humaMemoryFeedback demo_config demo_path ''up'' ''ok'' [] [] (demo_server sample_note)"
  have rd: "Memory_Files.Read (cf_env demo_config) (NewWriter ''/m'') (sv_disk (demo_server sample_note)) ''a.md'' =
      Inr (sample_note, ''h'' @ sample_note)"
    by (simp add: Memory_Files.Read_def NewWriter_def sample_resolve readFile_def demo_server_def sample_env_def)
  then have "editor_read demo_config (OnFiles (NewWriter ''/m'')) (demo_server sample_note) ''a.md'' =
      Inr (sample_note, ''h'' @ sample_note)" by (simp add: editor_read_def)
  then have "\<exists>h. fst ?fb = OK h"
    using demo_editor_write [of _ sample_note]
    by (simp add: humaMemoryFeedback_def demo_path demo_writer validFeedbackVote_def validFeedbackStatus_def
        read_modify_write_def SourceCrossAgent_def SourceAssistMem_def)
  then obtain h where fb: "?fb = (OK h, snd ?fb)" by (metis prod.collapse)
  show ?thesis
    using feedback_recorded [OF fb demo_path demo_writer [OF refl] rd sample_header demo_not_index] by auto
qed

end
