(* ===== verification/Gjson.thy ===== *)
theory Gjson
  imports Prelude
begin

text \<open>
  JSON values as the parsers read them through the gjson package. The parser of JSON text is not
  modelled: a value is what it yields, each node with the raw text it was read from (\<open>Raw\<close>). The
  accessors are gjson's documented ones for plain keys: \<open>Get\<close> of a dotted path is the list of its keys, a
  missing value reads as empty, zero and false. A number carries its integer value and whether it is
  different from zero. A \<open>time.Time\<close> is an integer of nanoseconds; 0 stands for the zero time.
\<close>

datatype gresult =
  GMissing
| GNull string
| GBool string bool
| GNum string int bool
| GStr string string
| GArr string "gresult list"
| GObj string "(string \<times> gresult) list"

fun gkey :: "gresult \<Rightarrow> string \<Rightarrow> gresult" where
  "gkey (GObj _ kvs) k = (case map_of kvs k of Some v \<Rightarrow> v | None \<Rightarrow> GMissing)"
| "gkey _ k = GMissing"

definition gget :: "gresult \<Rightarrow> string list \<Rightarrow> gresult" where
  "gget v ks = foldl gkey v ks"

fun gstr :: "gresult \<Rightarrow> string" where
  "gstr (GStr _ s) = s"
| "gstr _ = []"

fun graw :: "gresult \<Rightarrow> string" where
  "graw GMissing = []"
| "graw (GNull r) = r"
| "graw (GBool r _) = r"
| "graw (GNum r _ _) = r"
| "graw (GStr r _) = r"
| "graw (GArr r _) = r"
| "graw (GObj r _) = r"

definition gexists :: "gresult \<Rightarrow> bool" where
  "gexists v \<longleftrightarrow> v \<noteq> GMissing"

fun is_array :: "gresult \<Rightarrow> bool" where
  "is_array (GArr _ _) = True"
| "is_array _ = False"

fun is_object :: "gresult \<Rightarrow> bool" where
  "is_object (GObj _ _) = True"
| "is_object _ = False"

fun is_string :: "gresult \<Rightarrow> bool" where
  "is_string (GStr _ _) = True"
| "is_string _ = False"

text \<open>\<open>ForEach\<close>: the elements of an array, the values of an object, a scalar itself, nothing if missing.\<close>

fun geach :: "gresult \<Rightarrow> gresult list" where
  "geach GMissing = []"
| "geach (GArr _ vs) = vs"
| "geach (GObj _ kvs) = map snd kvs"
| "geach v = [v]"

definition digits_value :: "string \<Rightarrow> int" where
  "digits_value s = foldl (\<lambda>n c. 10 * n + int (byte c - 48)) 0 s"

text \<open>The integer of a string; 0 unless it is digits only, after an optional minus.\<close>

definition parse_int :: "string \<Rightarrow> int" where
  "parse_int s =
     (if has_prefix s ''-'' then (if list_all is_digit (tl s) then - digits_value (tl s) else 0)
      else if list_all is_digit s then digits_value s else 0)"

fun gint :: "gresult \<Rightarrow> int" where
  "gint (GNum _ i _) = i"
| "gint (GBool _ b) = (if b then 1 else 0)"
| "gint (GStr _ s) = parse_int s"
| "gint _ = 0"

fun gbool :: "gresult \<Rightarrow> bool" where
  "gbool (GBool _ b) = b"
| "gbool (GNum _ _ nz) = nz"
| "gbool (GStr _ s) = (to_lower s \<in> {''1'', ''t'', ''true''})"
| "gbool _ = False"

text \<open>\<open>String()\<close>: the text of a scalar; a structured value prints its raw text.\<close>

fun gstring :: "gresult \<Rightarrow> string" where
  "gstring (GStr _ s) = s"
| "gstring (GBool _ b) = (if b then ''true'' else ''false'')"
| "gstring (GNum r _ _) = r"
| "gstring (GArr r _) = r"
| "gstring (GObj r _) = r"
| "gstring _ = []"

type_synonym time = int

definition IsZero :: "time \<Rightarrow> bool" where
  "IsZero t \<longleftrightarrow> t = 0"

definition earlierTime :: "time \<Rightarrow> time \<Rightarrow> time" where
  "earlierTime a b = (if IsZero a then b else if IsZero b then a else if a < b then a else b)"

definition laterTime :: "time \<Rightarrow> time \<Rightarrow> time" where
  "laterTime a b = (if IsZero a then b else if IsZero b then a else if a > b then a else b)"

end
