(* ===== verification/Tool_Content.thy ===== *)
theory Tool_Content
  imports Gjson
begin

text \<open>
  What the parsers make of a message's content (\<open>internal/parser/content.go\<close>,
  \<open>internal/parser/taxonomy.go\<close>): readable text, thinking, tool calls and tool results. The inference of a
  skill name from a tool's input (\<open>skill_inference.go\<close>) is the parameter \<open>infer\<close>.
\<close>

section \<open>Tool categories\<close>

definition tool_categories :: "(string list \<times> string) list" where
  "tool_categories =
    [([''Read''], ''Read''),
     ([''Edit''], ''Edit''),
     ([''Write'', ''NotebookEdit''], ''Write''),
     ([''Bash''], ''Bash''),
     ([''Grep''], ''Grep''),
     ([''Glob''], ''Glob''),
     ([''Task'', ''Agent''], ''Task''),
     ([''Skill''], ''Tool''),
     ([''shell_command'', ''exec_command'', ''write_stdin'', ''shell''], ''Bash''),
     ([''apply_patch''], ''Edit''),
     ([''spawn_agent''], ''Task''),
     ([''read_file'', ''list_directory''], ''Read''),
     ([''write_file''], ''Write''),
     ([''edit_file'', ''replace''], ''Edit''),
     ([''run_command'', ''execute_command'', ''run_shell_command''], ''Bash''),
     ([''search_files'', ''grep'', ''grep_search''], ''Grep''),
     ([''view_file'', ''read_url_content''], ''Read''),
     ([''replace_file_content'', ''multi_replace_file_content''], ''Edit''),
     ([''write_to_file''], ''Write''),
     ([''define_subagent'', ''invoke_subagent'', ''manage_subagents'', ''send_message'', ''manage_task''],
      ''Task''),
     ([''ask_permission'', ''ask_question'', ''schedule'', ''search_web'', ''generate_image''], ''Tool''),
     ([''read''], ''Read''),
     ([''edit''], ''Edit''),
     ([''write''], ''Write''),
     ([''bash''], ''Bash''),
     ([''glob''], ''Glob''),
     ([''task''], ''Task''),
     ([''view''], ''Read''),
     ([''report_intent''], ''Tool''),
     ([''Shell''], ''Bash''),
     ([''StrReplace''], ''Edit''),
     ([''LS''], ''Read''),
     ([''create_file''], ''Write''),
     ([''look_at''], ''Read''),
     ([''undo_edit''], ''Edit''),
     ([''finder''], ''Grep''),
     ([''read_web_page''], ''Read''),
     ([''skill''], ''Tool''),
     ([''find''], ''Read''),
     ([''str_replace''], ''Edit''),
     ([''exec''], ''Bash''),
     ([''process''], ''Bash''),
     ([''browser'', ''web_search'', ''web_fetch''], ''Tool''),
     ([''image'', ''canvas'', ''tts''], ''Tool''),
     ([''message'', ''nodes''], ''Tool''),
     ([''sessions_list'', ''sessions_history'', ''sessions_send'', ''sessions_spawn''], ''Task''),
     ([''subagents'', ''agents_list'', ''session_status''], ''Task''),
     ([''fs_search''], ''Grep''),
     ([''patch'', ''multi_patch'', ''undo'', ''remove''], ''Edit''),
     ([''fetch''], ''Read''),
     ([''todo_write'', ''todo_read''], ''Tool''),
     ([''parallel''], ''Task''),
     ([''terminal''], ''Bash''),
     ([''browser_navigate'', ''browser_snapshot'', ''browser_click'', ''browser_type'', ''browser_scroll'',
      ''browser_press'', ''browser_back'', ''browser_close'', ''browser_vision'', ''browser_console'',
      ''browser_get_images''], ''Tool''),
     ([''vision_analyze''], ''Read''),
     ([''delegate_task''], ''Task''),
     ([''execute_code''], ''Bash''),
     ([''todo'', ''memory'', ''session_search'', ''skill_view'', ''skills_list'', ''skill_manage'',
      ''clarify'', ''text_to_speech'', ''cronjob''], ''Tool''),
     ([''ReadFile''], ''Read''),
     ([''WriteFile''], ''Write''),
     ([''EditFile''], ''Edit''),
     ([''RunTerminalCommand''], ''Bash''),
     ([''LaunchSubagent''], ''Task''),
     ([''WebFetch'', ''WebSearch''], ''Tool''),
     ([''TodoWrite'', ''AskUserQuestion'', ''ProposePlanToUser''], ''Tool''),
     ([''subagent__ZencoderSubagent''], ''Task''),
     ([''zencoder-rag-mcp__web_search''], ''Read''),
     ([''code_interpreter''], ''Bash''),
     ([''read_files''], ''Read''),
     ([''apply_file_diff''], ''Edit''),
     ([''search_codebase''], ''Grep''),
     ([''call_mcp_tool'', ''read_mcp_resource''], ''Tool''),
     ([''suggest_plan'', ''suggest_create_plan''], ''Tool''),
     ([''write_to_long_running_shell_command''], ''Bash''),
     ([''read_shell_command_output''], ''Read''),
     ([''use_computer''], ''Tool'')]"

definition NormalizeToolCategory :: "string \<Rightarrow> string" where
  "NormalizeToolCategory rawName =
     (case find (\<lambda>(names, _). rawName \<in> set names) tool_categories of
        Some (_, c) \<Rightarrow> c
      | None \<Rightarrow> if str_contains rawName ''subagent'' then ''Task'' else ''Other'')"

section \<open>Tool results\<close>

definition iflow_output :: "gresult \<Rightarrow> string" where
  "iflow_output content = gstr (gget content [''responseParts'', ''functionResponse'', ''response'', ''output''])"

definition toolResultContentLength :: "gresult \<Rightarrow> nat" where
  "toolResultContentLength content =
     (if is_string content then length (gstr content)
      else if is_array content then sum_list (map (\<lambda>b. length (gstr (gget b [''text'']))) (geach content))
      else if is_object content then length (iflow_output content)
      else 0)"

definition decodeContent :: "gresult \<Rightarrow> string" where
  "decodeContent content =
     (if is_string content then gstr content
      else if is_array content then
        str_join [] (filter (\<lambda>t. t \<noteq> []) (map (\<lambda>b. gstr (gget b [''text''])) (geach content)))
      else if is_object content then iflow_output content
      else [])"

section \<open>Tool uses as text\<close>

definition orDefault :: "string \<Rightarrow> string \<Rightarrow> string" where
  "orDefault s d = (if s = [] then d else s)"

definition resolveFilePath :: "gresult \<Rightarrow> string" where
  "resolveFilePath input =
     (if gstr (gget input [''file_path'']) \<noteq> [] then gstr (gget input [''file_path''])
      else orDefault (gstr (gget input [''path''])) (gstr (gget input [''filePath''])))"

definition formatAskUserQuestion :: "string \<Rightarrow> gresult \<Rightarrow> string" where
  "formatAskUserQuestion name input =
     str_join [newline]
       ((''[Question: '' @ name @ '']'') #
        concat (map (\<lambda>q. (''  '' @ gstr (gget q [''question''])) #
            map (\<lambda>opt. ''    - '' @ gstr (gget opt [''label'']) @ '': '' @ gstr (gget opt [''description'']))
              (geach (gget q [''options''])))
          (geach (gget input [''questions'']))))"

text \<open>The icons are a check mark, an arrow and a circle in UTF-8.\<close>

definition todo_icon :: "string \<Rightarrow> string" where
  "todo_icon status =
     (if status = ''completed'' then [CHR 0xE2, CHR 0x9C, CHR 0x93]
      else if status = ''in_progress'' then [CHR 0xE2, CHR 0x86, CHR 0x92]
      else [CHR 0xE2, CHR 0x97, CHR 0x8B])"

definition formatTodoWrite :: "gresult \<Rightarrow> string" where
  "formatTodoWrite input =
     str_join [newline]
       (''[Todo List]'' #
        map (\<lambda>todo. ''  '' @ todo_icon (gstr (gget todo [''status''])) @ '' '' @ gstr (gget todo [''content'']))
          (geach (gget input [''todos''])))"

definition formatGlob :: "gresult \<Rightarrow> string" where
  "formatGlob input =
     ''[Glob: '' @ gstr (gget input [''pattern'']) @ '' in '' @ orDefault (gstr (gget input [''path''])) ''.'' @ '']''"

definition shell_line :: "string \<Rightarrow> string \<Rightarrow> string" where
  "shell_line desc cmd =
     (if desc \<noteq> [] then ''[Bash: '' @ desc @ '']'' else ''[Bash]'') @ [newline] @ ''$ '' @ cmd"

definition formatBash :: "gresult \<Rightarrow> string" where
  "formatBash input = shell_line (gstr (gget input [''description''])) (gstr (gget input [''command'']))"

definition formatTask :: "gresult \<Rightarrow> string" where
  "formatTask input =
     (let desc = orDefault (gstr (gget input [''description''])) (gstr (gget input [''prompt'']));
          agentType = orDefault (gstr (gget input [''subagent_type''])) (gstr (gget input [''agent'']))
      in if desc = [] \<and> agentType = [] then ''[Task]''
         else if agentType = [] then ''[Task: '' @ desc @ '']''
         else ''[Task: '' @ desc @ '' ('' @ agentType @ '')]'')"

definition bracket :: "string \<Rightarrow> string \<Rightarrow> string" where
  "bracket label v = ''['' @ label @ '': '' @ v @ '']''"

definition formatToolUse :: "gresult \<Rightarrow> string" where
  "formatToolUse block =
     (let name = gstr (gget block [''name'']); input = gget block [''input'']; arg = (\<lambda>k. gstr (gget input [k])) in
      if name = ''AskUserQuestion'' then formatAskUserQuestion name input
      else if name = ''TodoWrite'' then formatTodoWrite input
      else if name = ''EnterPlanMode'' then ''[Entering Plan Mode]''
      else if name = ''ExitPlanMode'' then ''[Exiting Plan Mode]''
      else if name = ''Read'' then bracket ''Read'' (orDefault (arg ''file_path'') (arg ''path''))
      else if name = ''Glob'' then formatGlob input
      else if name = ''Grep'' then bracket ''Grep'' (arg ''pattern'')
      else if name = ''Edit'' then bracket ''Edit'' (arg ''file_path'')
      else if name = ''Write'' then bracket ''Write'' (arg ''file_path'')
      else if name = ''Bash'' then
        (if arg ''command'' = [] \<and> arg ''cmd'' \<noteq> [] then shell_line [] (arg ''cmd'') else formatBash input)
      else if name = ''edit_file'' then bracket ''Edit'' (arg ''path'')
      else if name = ''create_file'' then bracket ''Write'' (arg ''path'')
      else if name = ''shell_command'' then shell_line [] (arg ''command'')
      else if name = ''glob'' then bracket ''Glob'' (arg ''filePattern'')
      else if name = ''look_at'' then bracket ''Read'' (arg ''path'')
      else if name = ''apply_patch'' then bracket ''Patch'' (arg ''path'')
      else if name = ''undo_edit'' then bracket ''Undo'' (arg ''path'')
      else if name = ''finder'' then bracket ''Find'' (arg ''query'')
      else if name = ''read_web_page'' then bracket ''Web'' (arg ''url'')
      else if name = ''read'' \<or> name = ''read_file'' then bracket ''Read'' (resolveFilePath input)
      else if name = ''write'' then bracket ''Write'' (resolveFilePath input)
      else if name = ''edit'' \<or> name = ''str_replace'' then bracket ''Edit'' (resolveFilePath input)
      else if name = ''bash'' then shell_line (arg ''description'') (orDefault (arg ''command'') (arg ''cmd''))
      else if name = ''run_command'' then shell_line [] (arg ''command'')
      else if name = ''find'' then bracket ''Find'' (orDefault (arg ''pattern'') (arg ''query''))
      else if name = ''skill'' then bracket ''Skill'' (orDefault (arg ''skill'') (arg ''name''))
      else if name = ''Task'' \<or> name = ''Agent'' then formatTask input
      else if name = ''Skill'' then bracket ''Skill'' (arg ''skill'')
      else if name = ''TaskCreate'' then
        (if arg ''subject'' \<noteq> [] then bracket ''TaskCreate'' (arg ''subject'') else ''[TaskCreate]'')
      else if name = ''TaskUpdate'' then
        (if arg ''status'' \<noteq> [] then bracket ''TaskUpdate'' (''#'' @ arg ''taskId'' @ '' '' @ arg ''status'')
         else bracket ''TaskUpdate'' (''#'' @ arg ''taskId''))
      else if name = ''TaskGet'' then bracket ''TaskGet'' (''#'' @ arg ''taskId'')
      else if name = ''TaskList'' then ''[TaskList]''
      else if name = ''SendMessage'' then
        (if arg ''recipient'' \<noteq> [] then bracket ''SendMessage'' (arg ''type'' @ '' to '' @ arg ''recipient'')
         else bracket ''SendMessage'' (arg ''type''))
      else if str_contains name ''subagent'' then formatTask input
      else bracket ''Tool'' name)"

section \<open>Content blocks\<close>

record ParsedToolResultEvent =
  pte_ToolUseID :: string
  pte_AgentID :: string
  pte_SubagentSessionID :: string
  pte_Source :: string
  pte_Status :: string
  pte_Content :: string
  pte_Timestamp :: time

record ParsedToolCall =
  ptc_ToolUseID :: string
  ptc_ToolName :: string
  ptc_Category :: string
  ptc_InputJSON :: string
  ptc_SkillName :: string
  ptc_SubagentSessionID :: string
  ptc_ResultEvents :: "ParsedToolResultEvent list"

record ParsedToolResult =
  ptr_ToolUseID :: string
  ptr_ContentLength :: nat
  ptr_ContentRaw :: string

record Extracted =
  ex_parts :: "string list"
  ex_thinking :: "string list"
  ex_hasThinking :: bool
  ex_hasToolUse :: bool
  ex_calls :: "ParsedToolCall list"
  ex_results :: "ParsedToolResult list"

definition tool_call :: "(string \<Rightarrow> string \<Rightarrow> string) \<Rightarrow> gresult \<Rightarrow> ParsedToolCall" where
  "tool_call infer block =
     (let name = gstr (gget block [''name'']); json = graw (gget block [''input'']) in
      \<lparr>ptc_ToolUseID = gstr (gget block [''id'']), ptc_ToolName = name, ptc_Category = NormalizeToolCategory name,
       ptc_InputJSON = json,
       ptc_SkillName =
         (if name = ''Skill'' then gstr (gget block [''input'', ''skill''])
          else if name = ''skill'' then
            orDefault (gstr (gget block [''input'', ''skill''])) (gstr (gget block [''input'', ''name'']))
          else infer name json),
       ptc_SubagentSessionID = [], ptc_ResultEvents = []\<rparr>)"

definition extract_block :: "(string \<Rightarrow> string \<Rightarrow> string) \<Rightarrow> gresult \<Rightarrow> Extracted \<Rightarrow> Extracted" where
  "extract_block infer block ex =
     (let ty = gstr (gget block [''type'']) in
      if ty = ''text'' then
        (let t = gstr (gget block [''text'']) in
         if t \<noteq> [] then ex\<lparr>ex_parts := ex_parts ex @ [t]\<rparr> else ex)
      else if ty = ''thinking'' then
        (let t = gstr (gget block [''thinking'']) in
         if t \<noteq> [] then
           ex\<lparr>ex_hasThinking := True, ex_thinking := ex_thinking ex @ [t],
              ex_parts := ex_parts ex @ [''[Thinking]'' @ [newline] @ t @ [newline] @ ''[/Thinking]'']\<rparr>
         else ex)
      else if ty = ''tool_use'' then
        (let ex = ex\<lparr>ex_hasToolUse := True\<rparr>;
             ex = (if gstr (gget block [''name'']) \<noteq> [] then ex\<lparr>ex_calls := ex_calls ex @ [tool_call infer block]\<rparr> else ex)
         in ex\<lparr>ex_parts := ex_parts ex @ [formatToolUse block]\<rparr>)
      else if ty = ''tool_result'' then
        (let tuid = gstr (gget block [''tool_use_id'']); rc = gget block [''content''] in
         if tuid \<noteq> [] then
           ex\<lparr>ex_results := ex_results ex @
             [\<lparr>ptr_ToolUseID = tuid, ptr_ContentLength = toolResultContentLength rc, ptr_ContentRaw = graw rc\<rparr>]\<rparr>
         else ex)
      else ex)"

definition no_extract :: Extracted where
  "no_extract = \<lparr>ex_parts = [], ex_thinking = [], ex_hasThinking = False, ex_hasToolUse = False, ex_calls = [], ex_results = []\<rparr>"

text \<open>The result in the order of Go's: text, thinking text, the flags, the calls and the results.\<close>

definition ExtractTextContent ::
  "(string \<Rightarrow> string \<Rightarrow> string) \<Rightarrow> gresult \<Rightarrow>
   string \<times> string \<times> bool \<times> bool \<times> ParsedToolCall list \<times> ParsedToolResult list" where
  "ExtractTextContent infer content =
     (if is_string content then (gstr content, [], False, False, [], [])
      else if \<not> is_array content then ([], [], False, False, [], [])
      else let ex = fold (extract_block infer) (geach content) no_extract in
        (str_join [newline] (ex_parts ex), str_join [newline, newline] (ex_thinking ex),
         ex_hasThinking ex, ex_hasToolUse ex, ex_calls ex, ex_results ex))"

section \<open>Lemmas\<close>

text \<open>What one block adds.\<close>

definition block_is :: "string \<Rightarrow> gresult \<Rightarrow> bool" where
  "block_is ty b \<longleftrightarrow> gstr (gget b [''type'']) = ty"

lemma extract_block_adds:
  "ex_calls (extract_block infer b ex) = ex_calls ex @
     (if block_is ''tool_use'' b \<and> gstr (gget b [''name'']) \<noteq> [] then [tool_call infer b] else [])"
  "map ptr_ToolUseID (ex_results (extract_block infer b ex)) = map ptr_ToolUseID (ex_results ex) @
     (if block_is ''tool_result'' b \<and> gstr (gget b [''tool_use_id'']) \<noteq> [] then [gstr (gget b [''tool_use_id''])] else [])"
  "ex_hasToolUse (extract_block infer b ex) = (ex_hasToolUse ex \<or> block_is ''tool_use'' b)"
  "ex_thinking (extract_block infer b ex) = ex_thinking ex @
     (if block_is ''thinking'' b \<and> gstr (gget b [''thinking'']) \<noteq> [] then [gstr (gget b [''thinking''])] else [])"
  "ex_hasThinking (extract_block infer b ex) =
     (ex_hasThinking ex \<or> block_is ''thinking'' b \<and> gstr (gget b [''thinking'']) \<noteq> [])"
  by (auto simp: extract_block_def block_is_def Let_def)

lemma extract_blocks_add:
  "ex_calls (fold (extract_block infer) bs ex) = ex_calls ex @
     map (tool_call infer) (filter (\<lambda>b. block_is ''tool_use'' b \<and> gstr (gget b [''name'']) \<noteq> []) bs)"
  "map ptr_ToolUseID (ex_results (fold (extract_block infer) bs ex)) = map ptr_ToolUseID (ex_results ex) @
     filter (\<lambda>i. i \<noteq> []) (map (\<lambda>b. gstr (gget b [''tool_use_id''])) (filter (block_is ''tool_result'') bs))"
  "ex_hasToolUse (fold (extract_block infer) bs ex) = (ex_hasToolUse ex \<or> list_ex (block_is ''tool_use'') bs)"
  "ex_thinking (fold (extract_block infer) bs ex) = ex_thinking ex @
     filter (\<lambda>t. t \<noteq> []) (map (\<lambda>b. gstr (gget b [''thinking''])) (filter (block_is ''thinking'') bs))"
  by (induction bs arbitrary: ex) (simp_all add: extract_block_adds)

lemma extract_hasThinking:
  "ex_hasThinking (fold (extract_block infer) bs ex) = (ex_hasThinking ex \<or>
     list_ex (\<lambda>b. block_is ''thinking'' b \<and> gstr (gget b [''thinking'']) \<noteq> []) bs)"
  by (induction bs arbitrary: ex) (auto simp: extract_block_adds)

section \<open>Properties\<close>

text \<open>
  The extraction loses no tool traffic: for an array of blocks the tool calls are those of the named
  tool-use blocks in order, the results those of the result blocks with an id in order, the thinking text
  joins the non-empty thinking blocks, and the flags say exactly whether there is such a block.
\<close>

theorem ExtractTextContent_exact:
  "case ExtractTextContent infer (GArr raw bs) of (t, thinking, hasThinking, hasToolUse, calls, results) \<Rightarrow>
     calls = map (tool_call infer) (filter (\<lambda>b. block_is ''tool_use'' b \<and> gstr (gget b [''name'']) \<noteq> []) bs) \<and>
     map ptr_ToolUseID results =
       filter (\<lambda>i. i \<noteq> []) (map (\<lambda>b. gstr (gget b [''tool_use_id''])) (filter (block_is ''tool_result'') bs)) \<and>
     thinking = str_join [newline, newline]
       (filter (\<lambda>t. t \<noteq> []) (map (\<lambda>b. gstr (gget b [''thinking''])) (filter (block_is ''thinking'') bs))) \<and>
     hasToolUse = list_ex (block_is ''tool_use'') bs \<and>
     hasThinking = list_ex (\<lambda>b. block_is ''thinking'' b \<and> gstr (gget b [''thinking'']) \<noteq> []) bs"
  by (simp add: ExtractTextContent_def Let_def extract_blocks_add extract_hasThinking no_extract_def)

lemma length_join_nonempty: "length (str_join [] (filter (\<lambda>t. t \<noteq> []) ts)) = sum_list (map length ts)"
  by (induction ts) (auto simp: str_join_Cons)

text \<open>
  The length stored for a tool result is that of the text it is later decoded to, for every shape of
  content.
\<close>

theorem toolResultContentLength_exact: "toolResultContentLength content = length (decodeContent content)"
  by (simp add: toolResultContentLength_def decodeContent_def length_join_nonempty comp_def)

end
