(* ===== verification/Claude_Messages.thy ===== *)
theory Claude_Messages
  imports Tool_Content Utf8
begin

text \<open>
  From transcript entries to messages (\<open>internal/parser/claude.go\<close>): command envelopes, system messages,
  the extraction loops, queued commands, the merging of streamed chunks and the counts of a session. The
  line of an entry is the JSON value read from it. The regular expressions of the file are written out
  as matchers. \<open>infer\<close> is the inference of skill names, \<open>parse_time\<close> the timestamp layouts of Go's
  library (theory \<open>Gjson\<close>: 0 is the zero time), \<open>word\<close> whether a rune is a letter or a digit.
\<close>

section \<open>Entries\<close>

record dagEntry =
  de_uuid :: string
  de_parentUuid :: string
  de_entryType :: string
  de_line :: gresult
  de_timestamp :: time

record ParsedMessage =
  ms_Ordinal :: nat
  ms_Role :: string
  ms_Content :: string
  ms_ThinkingText :: string
  ms_Timestamp :: time
  ms_HasThinking :: bool
  ms_HasToolUse :: bool
  ms_IsSystem :: bool
  ms_ContentLength :: nat
  ms_ToolCalls :: "ParsedToolCall list"
  ms_ToolResults :: "ParsedToolResult list"
  ms_Model :: string
  ms_TokenUsage :: string
  ms_ContextTokens :: int
  ms_OutputTokens :: int
  ms_HasContextTokens :: bool
  ms_HasOutputTokens :: bool
  ms_ClaudeMessageID :: string
  ms_ClaudeRequestID :: string
  ms_SourceType :: string
  ms_SourceSubtype :: string
  ms_SourceUUID :: string
  ms_SourceParentUUID :: string
  ms_IsSidechain :: bool
  ms_IsCompactBoundary :: bool
  ms_StopReason :: string
  ms_tokenPresenceKnown :: bool

definition zero_message :: ParsedMessage where
  "zero_message = \<lparr>ms_Ordinal = 0, ms_Role = [], ms_Content = [], ms_ThinkingText = [], ms_Timestamp = 0,
     ms_HasThinking = False, ms_HasToolUse = False, ms_IsSystem = False, ms_ContentLength = 0, ms_ToolCalls = [],
     ms_ToolResults = [], ms_Model = [], ms_TokenUsage = [], ms_ContextTokens = 0, ms_OutputTokens = 0,
     ms_HasContextTokens = False, ms_HasOutputTokens = False, ms_ClaudeMessageID = [], ms_ClaudeRequestID = [],
     ms_SourceType = [], ms_SourceSubtype = [], ms_SourceUUID = [], ms_SourceParentUUID = [], ms_IsSidechain = False,
     ms_IsCompactBoundary = False, ms_StopReason = [], ms_tokenPresenceKnown = False\<rparr>"

definition RoleUser :: string where "RoleUser = ''user''"
definition RoleAssistant :: string where "RoleAssistant = ''assistant''"

definition extractTimestamp :: "(string \<Rightarrow> time) \<Rightarrow> gresult \<Rightarrow> time" where
  "extractTimestamp parse_time line =
     (let ts = parse_time (gstr (gget line [''timestamp''])) in
      if IsZero ts then parse_time (gstr (gget line [''snapshot'', ''timestamp''])) else ts)"

section \<open>Command envelopes\<close>

text \<open>The group of the first match of a tag pair with no \<open><\<close> inside; \<open>ne\<close> wants at least one byte.\<close>

fun find_tag :: "string \<Rightarrow> string \<Rightarrow> bool \<Rightarrow> string \<Rightarrow> string option" where
  "find_tag opn cls ne [] = None"
| "find_tag opn cls ne (c # s) =
     (let body = takeWhile (\<lambda>c. c \<noteq> CHR ''<'') (drop (length opn) (c # s)) in
      if has_prefix (c # s) opn \<and> (ne \<longrightarrow> body \<noteq> []) \<and> has_prefix (drop (length opn + length body) (c # s)) cls
      then Some body else find_tag opn cls ne s)"

definition xmlCmdNameRe :: "string \<Rightarrow> string option" where
  "xmlCmdNameRe = find_tag ''<command-name>'' ''</command-name>'' True"

definition xmlCmdMsgRe :: "string \<Rightarrow> string option" where
  "xmlCmdMsgRe = find_tag ''<command-message>'' ''</command-message>'' True"

definition xmlCmdArgsRe :: "string \<Rightarrow> string option" where
  "xmlCmdArgsRe = find_tag ''<command-args>'' ''</command-args>'' False"

definition cmd_tag_names :: "string list" where
  "cmd_tag_names = [''name'', ''message'', ''args'']"

text \<open>The length of a match of the stripping expression at the head of the text.\<close>

definition strip_match :: "string \<Rightarrow> nat option" where
  "strip_match s =
     (case find (\<lambda>n. has_prefix s (''<command-'' @ n @ ''>'')) cmd_tag_names of
        None \<Rightarrow> None
      | Some n \<Rightarrow>
          (let i = length (''<command-'' @ n @ ''>'');
               j = i + length (takeWhile (\<lambda>c. c \<noteq> CHR ''<'') (drop i s))
           in map_option (\<lambda>m. j + length (''</command-'' @ m @ ''>''))
                (find (\<lambda>m. has_prefix (drop j s) (''</command-'' @ m @ ''>'')) cmd_tag_names)))"

lemma strip_match_pos: "strip_match s = Some k \<Longrightarrow> 0 < k"
  by (auto simp: strip_match_def Let_def split: option.splits)

function xmlCmdStrip :: "string \<Rightarrow> string" where
  "xmlCmdStrip [] = []"
| "xmlCmdStrip (c # s) =
     (case strip_match (c # s) of Some k \<Rightarrow> xmlCmdStrip (drop k (c # s)) | None \<Rightarrow> c # xmlCmdStrip s)"
  by pat_completeness auto
termination
  by (relation "measure length") (auto dest!: strip_match_pos)

declare xmlCmdStrip.simps(2) [simp del]

definition trim_lead :: "string \<Rightarrow> string" where
  "trim_lead s = TrimLeftFunc (\<lambda>r. r = byte_order_mark \<or> IsSpace r) s"

definition isCommandEnvelope :: "string \<Rightarrow> bool" where
  "isCommandEnvelope content =
     (let trimmed = trim_lead content in
      if \<not> has_prefix trimmed ''<command-message>'' \<and> \<not> has_prefix trimmed ''<command-name>'' then False
      else TrimSpace (xmlCmdStrip trimmed) = [])"

definition extractCommandText :: "string \<Rightarrow> string option" where
  "extractCommandText content =
     (let trimmed = trim_lead content in
      if \<not> has_prefix trimmed ''<command-message>'' \<and> \<not> has_prefix trimmed ''<command-name>'' then None
      else if TrimSpace (xmlCmdStrip trimmed) \<noteq> [] then None
      else (case xmlCmdNameRe content of
              None \<Rightarrow> map_option (\<lambda>m. ''/'' @ m) (xmlCmdMsgRe content)
            | Some m \<Rightarrow>
                (let name = (if has_prefix m ''/'' then m else ''/'' @ m);
                     args = (case xmlCmdArgsRe content of Some a \<Rightarrow> TrimSpace a | None \<Rightarrow> [])
                 in Some (if args \<noteq> [] then name @ '' '' @ args else name))))"

definition extractRenameName :: "string \<Rightarrow> string option" where
  "extractRenameName content =
     (case xmlCmdNameRe content of
        None \<Rightarrow> None
      | Some m \<Rightarrow>
          if trim_prefix (TrimSpace m) ''/'' \<noteq> ''rename'' then None
          else Some (case xmlCmdArgsRe content of Some a \<Rightarrow> TrimSpace a | None \<Rightarrow> []))"

section \<open>System messages\<close>

definition ClassifyClaudeSystemMessage :: "string \<Rightarrow> string" where
  "ClassifyClaudeSystemMessage content =
     (let trimmed = trim_lead content in
      if has_prefix trimmed ''This session is being continued'' then ''continuation''
      else if has_prefix trimmed ''<local-command-caveat>'' then ''resume''
      else if has_prefix trimmed ''[Request interrupted'' then ''interrupted''
      else if has_prefix trimmed ''<task-notification>'' then ''task_notification''
      else if has_prefix trimmed ''Stop hook feedback:'' then ''stop_hook''
      else [])"

definition isClaudeSystemMessage :: "string \<Rightarrow> bool" where
  "isClaudeSystemMessage content =
     list_ex (has_prefix (trim_lead content))
       [''This session is being continued'', ''[Request interrupted'', ''<task-notification>'', ''<local-command-'',
        ''Stop hook feedback:'']"

definition extractCompactSummary :: "gresult \<Rightarrow> string" where
  "extractCompactSummary line =
     (let content = gget line [''message'', ''content''] in
      if is_array content then
        str_join [newline] (map (\<lambda>v. gstr (gget v [''text'']))
          (filter (\<lambda>v. gstr (gget v [''type'']) = ''text'') (geach content)))
      else gstr content)"

section \<open>The extraction loop\<close>

definition extractClaudeTokenFields :: "gresult \<Rightarrow> ParsedMessage \<Rightarrow> ParsedMessage" where
  "extractClaudeTokenFields line msg =
     (let msg = msg\<lparr>ms_Model := gstring (gget line [''message'', ''model'']),
                ms_ClaudeMessageID := gstring (gget line [''message'', ''id'']),
                ms_ClaudeRequestID := gstring (gget line [''requestId''])\<rparr>;
          usage = gget line [''message'', ''usage'']
      in if \<not> gexists usage then msg
         else msg\<lparr>ms_TokenUsage := graw usage,
           ms_HasOutputTokens := gexists (gget usage [''output_tokens'']),
           ms_HasContextTokens := gexists (gget usage [''input_tokens'']) \<or>
             gexists (gget usage [''cache_creation_input_tokens'']) \<or> gexists (gget usage [''cache_read_input_tokens'']),
           ms_OutputTokens := gint (gget usage [''output_tokens'']),
           ms_ContextTokens := gint (gget usage [''input_tokens'']) + gint (gget usage [''cache_creation_input_tokens'']) +
             gint (gget usage [''cache_read_input_tokens''])\<rparr>)"

text \<open>What one entry becomes: a compact boundary, a system message, a message, or nothing.\<close>

definition entry_message :: "(string \<Rightarrow> string \<Rightarrow> string) \<Rightarrow> dagEntry \<Rightarrow> nat \<Rightarrow> ParsedMessage option" where
  "entry_message infer e ordinal =
     (let line = de_line e;
          base = zero_message\<lparr>ms_Ordinal := ordinal, ms_Timestamp := de_timestamp e, ms_SourceUUID := de_uuid e,
                   ms_SourceParentUUID := de_parentUuid e, ms_IsSidechain := gbool (gget line [''isSidechain''])\<rparr>
      in if gbool (gget line [''isCompactSummary'']) then
           (let summary = extractCompactSummary line in
            Some (base\<lparr>ms_Role := RoleAssistant, ms_Content := summary, ms_IsSystem := True,
              ms_ContentLength := length summary, ms_SourceType := ''system'',
              ms_SourceSubtype := ''compact_boundary'', ms_IsCompactBoundary := True\<rparr>))
         else if de_entryType e = ''user'' \<and> gbool (gget line [''isMeta'']) then None
         else (case ExtractTextContent infer (gget line [''message'', ''content'']) of
             (text0, thinking, hasThinking, hasToolUse, tcs, trs) \<Rightarrow>
               if de_entryType e = ''user'' \<and> extractCommandText text0 = None \<and> isCommandEnvelope text0 then None
               else let txt = (if de_entryType e = ''user'' then
                                 (case extractCommandText text0 of Some c \<Rightarrow> c | None \<Rightarrow> text0) else text0) in
                 if TrimSpace txt = [] \<and> trs = [] then None
                 else if de_entryType e = ''user'' \<and> ClassifyClaudeSystemMessage txt \<noteq> [] then
                   Some (base\<lparr>ms_Role := RoleUser, ms_Content := txt, ms_IsSystem := True,
                     ms_ContentLength := length txt, ms_SourceType := ''system'',
                     ms_SourceSubtype := ClassifyClaudeSystemMessage txt\<rparr>)
                 else if de_entryType e = ''user'' \<and> isClaudeSystemMessage txt then None
                 else let msg = base\<lparr>ms_Role := de_entryType e, ms_Content := txt, ms_ThinkingText := thinking,
                            ms_HasThinking := hasThinking, ms_HasToolUse := hasToolUse, ms_ContentLength := length txt,
                            ms_ToolCalls := tcs, ms_ToolResults := trs, ms_SourceType := de_entryType e,
                            ms_tokenPresenceKnown := (de_entryType e = ''assistant'')\<rparr>
                   in Some (if de_entryType e = ''assistant''
                      then (extractClaudeTokenFields line msg)\<lparr>ms_StopReason := gstr (gget line [''message'', ''stop_reason''])\<rparr>
                      else msg)))"

text \<open>The loop: the first and the last timestamp that are not zero, and the messages numbered on.\<close>

fun extract_loop ::
  "(string \<Rightarrow> string \<Rightarrow> string) \<Rightarrow> dagEntry list \<Rightarrow> nat \<Rightarrow> time \<Rightarrow> time \<Rightarrow> ParsedMessage list \<times> time \<times> time" where
  "extract_loop infer [] ordinal startedAt endedAt = ([], startedAt, endedAt)"
| "extract_loop infer (e # es) ordinal startedAt endedAt =
     (let ts = de_timestamp e;
          startedAt = (if \<not> IsZero ts \<and> IsZero startedAt then ts else startedAt);
          endedAt = (if \<not> IsZero ts then ts else endedAt)
      in case entry_message infer e ordinal of
           None \<Rightarrow> extract_loop infer es ordinal startedAt endedAt
         | Some m \<Rightarrow> (case extract_loop infer es (Suc ordinal) startedAt endedAt of (ms, b, f) \<Rightarrow> (m # ms, b, f)))"

definition extractMessages :: "(string \<Rightarrow> string \<Rightarrow> string) \<Rightarrow> dagEntry list \<Rightarrow> ParsedMessage list \<times> time \<times> time" where
  "extractMessages infer entries = extract_loop infer entries 0 0 0"

definition extractMessagesFrom ::
  "(string \<Rightarrow> string \<Rightarrow> string) \<Rightarrow> dagEntry list \<Rightarrow> nat \<Rightarrow> ParsedMessage list \<times> time \<times> time" where
  "extractMessagesFrom infer entries startOrdinal = extract_loop infer entries startOrdinal 0 0"

section \<open>Counts of a session\<close>

text \<open>\<open>len\<close> counts bytes: a short text is not cut, a long one after 300 runes.\<close>

definition truncate :: "string \<Rightarrow> nat \<Rightarrow> string" where
  "truncate s0 maxLen =
     (let s = TrimSpace s0 in
      if length s \<le> maxLen then s
      else let r = range_runes s in
        if length r \<le> maxLen then s else concat (take maxLen r) @ ''...'')"

fun command_rest :: "(string \<Rightarrow> bool) \<Rightarrow> bool \<Rightarrow> string list \<Rightarrow> bool" where
  "command_rest word seen [] = seen"
| "command_rest word seen (r # rs) =
     (if IsSpace r then seen
      else if \<not> word r \<and> r \<noteq> ''-'' \<and> r \<noteq> ''_'' then False
      else command_rest word True rs)"

definition isSkippablePreviewCommand :: "(string \<Rightarrow> bool) \<Rightarrow> string \<Rightarrow> bool" where
  "isSkippablePreviewCommand word content =
     (let trimmed = TrimSpace content in
      has_prefix trimmed ''/'' \<and> command_rest word False (range_runes (tl trimmed)))"

definition user_turn :: "ParsedMessage \<Rightarrow> bool" where
  "user_turn m \<longleftrightarrow> \<not> ms_IsSystem m \<and> ms_Role m = RoleUser \<and> ms_Content m \<noteq> []"

fun first_and_count :: "(string \<Rightarrow> bool) \<Rightarrow> ParsedMessage list \<Rightarrow> string \<times> nat \<Rightarrow> string \<times> nat" where
  "first_and_count word [] acc = acc"
| "first_and_count word (m # ms) (firstMsg, n) =
     (if ms_IsSystem m then first_and_count word ms (firstMsg, n)
      else if ms_Role m \<noteq> RoleUser \<or> ms_Content m = [] then first_and_count word ms (firstMsg, n)
      else first_and_count word ms
        (if firstMsg = [] \<and> \<not> isSkippablePreviewCommand word (ms_Content m)
         then truncate (map (\<lambda>c. if c = newline then CHR '' '' else c) (ms_Content m)) 300 else firstMsg, Suc n))"

definition firstMessageAndUserCount :: "(string \<Rightarrow> bool) \<Rightarrow> ParsedMessage list \<Rightarrow> string \<times> nat" where
  "firstMessageAndUserCount word messages = first_and_count word messages ([], 0)"

fun usage_probe :: "ParsedMessage list \<Rightarrow> bool \<Rightarrow> bool" where
  "usage_probe [] saw = saw"
| "usage_probe (m # ms) saw =
     (if ms_IsSystem m \<or> ms_Role m \<noteq> RoleUser \<or> ms_Content m = [] then usage_probe ms saw
      else if TrimSpace (ms_Content m) \<noteq> ''/usage'' then False
      else usage_probe ms True)"

definition isUsageProbeSession :: "ParsedMessage list \<Rightarrow> bool" where
  "isUsageProbeSession messages = usage_probe messages False"

definition lastAssistantStopReason :: "ParsedMessage list \<Rightarrow> string" where
  "lastAssistantStopReason ms =
     (case find (\<lambda>m. ms_Role m = RoleAssistant) (rev ms) of Some m \<Rightarrow> ms_StopReason m | None \<Rightarrow> [])"

section \<open>Subagents\<close>

definition annotate_call :: "(string \<Rightarrow> string option) \<Rightarrow> ParsedToolCall \<Rightarrow> ParsedToolCall" where
  "annotate_call subagents tc =
     (if ptc_ToolUseID tc = [] then tc
      else case subagents (ptc_ToolUseID tc) of
             None \<Rightarrow> tc
           | Some sid \<Rightarrow>
               if ptc_Category tc = ''Task'' \<or> str_contains (ptc_ToolName tc) ''subagent''
               then tc\<lparr>ptc_SubagentSessionID := sid\<rparr> else tc)"

definition annotateSubagentSessions :: "(string \<Rightarrow> string option) \<Rightarrow> ParsedMessage list \<Rightarrow> ParsedMessage list" where
  "annotateSubagentSessions subagents messages =
     map (\<lambda>m. m\<lparr>ms_ToolCalls := map (annotate_call subagents) (ms_ToolCalls m)\<rparr>) messages"

section \<open>Queued commands\<close>

record claudeQueuedCommand =
  qc_prompt :: string
  qc_timestamp :: time

definition extractQueuedCommand :: "(string \<Rightarrow> time) \<Rightarrow> gresult \<Rightarrow> claudeQueuedCommand option" where
  "extractQueuedCommand parse_time line =
     (if gstr (gget line [''attachment'', ''type'']) \<noteq> ''queued_command'' then None
      else let prompt = gstr (gget line [''attachment'', ''prompt'']) in
        if TrimSpace prompt = [] then None
        else Some \<lparr>qc_prompt = prompt, qc_timestamp = extractTimestamp parse_time line\<rparr>)"

definition queuedBefore :: "claudeQueuedCommand \<Rightarrow> ParsedMessage \<Rightarrow> bool" where
  "queuedBefore q m \<longleftrightarrow> \<not> IsZero (qc_timestamp q) \<and> \<not> IsZero (ms_Timestamp m) \<and> qc_timestamp q < ms_Timestamp m"

definition queuedCommandMessage :: "claudeQueuedCommand \<Rightarrow> ParsedMessage" where
  "queuedCommandMessage q = zero_message\<lparr>ms_Role := RoleUser, ms_Content := qc_prompt q, ms_Timestamp := qc_timestamp q,
     ms_ContentLength := length (qc_prompt q), ms_SourceType := ''user'', ms_SourceSubtype := ''queued_command''\<rparr>"

fun merge_queued :: "ParsedMessage list \<Rightarrow> claudeQueuedCommand list \<Rightarrow> ParsedMessage list" where
  "merge_queued [] qs = map queuedCommandMessage qs"
| "merge_queued (m # ms) [] = m # ms"
| "merge_queued (m # ms) (q # qs) =
     (if queuedBefore q m then queuedCommandMessage q # merge_queued (m # ms) qs else m # merge_queued ms (q # qs))"

definition renumber :: "nat \<Rightarrow> ParsedMessage list \<Rightarrow> ParsedMessage list" where
  "renumber start ms = map (\<lambda>(k, m). m\<lparr>ms_Ordinal := start + k\<rparr>) (enumerate 0 ms)"

definition mergeQueuedCommands :: "ParsedMessage list \<Rightarrow> claudeQueuedCommand list \<Rightarrow> nat \<Rightarrow> ParsedMessage list" where
  "mergeQueuedCommands messages queued startOrdinal = renumber startOrdinal (merge_queued messages queued)"

section \<open>Lemmas\<close>

lemma token_fields_frame:
  "ms_Ordinal (extractClaudeTokenFields l m) = ms_Ordinal m" "ms_Timestamp (extractClaudeTokenFields l m) = ms_Timestamp m"
  "ms_Role (extractClaudeTokenFields l m) = ms_Role m"
  by (simp_all add: extractClaudeTokenFields_def Let_def)

text \<open>What is known of the message an entry becomes: its place and, when it is the user's, its text and its tokens.\<close>

lemma entry_message_shape:
  assumes "entry_message infer e n = Some m"
  shows "ms_Ordinal m = n \<and> ms_Timestamp m = de_timestamp e \<and>
    (ms_Role m = ''user'' \<longrightarrow>
      (ms_IsSystem m \<or> ClassifyClaudeSystemMessage (ms_Content m) = [] \<and> \<not> isClaudeSystemMessage (ms_Content m)) \<and>
      \<not> ms_tokenPresenceKnown m \<and> ms_TokenUsage m = [] \<and> ms_ContextTokens m = 0 \<and> ms_OutputTokens m = 0 \<and>
      \<not> ms_HasContextTokens m \<and> \<not> ms_HasOutputTokens m)"
proof -
  obtain t th h u cs rs where x: "ExtractTextContent infer (gget (de_line e) [''message'', ''content'']) = (t, th, h, u, cs, rs)"
    by (rule prod_cases6)
  show ?thesis
    using assms unfolding entry_message_def Let_def x prod.case
    by (simp add: token_fields_frame RoleUser_def RoleAssistant_def zero_message_def
        split: if_split_asm option.split_asm; clarsimp simp: token_fields_frame)
qed

lemma entry_message_fields:
  assumes "entry_message infer e n = Some m"
  shows "ms_Ordinal m = n" "ms_Timestamp m = de_timestamp e"
  using entry_message_shape [OF assms] by blast+

lemma extract_loop_append:
  "extract_loop infer (a @ b) n s f =
     (case extract_loop infer a n s f of (ms, s1, f1) \<Rightarrow>
        (case extract_loop infer b (n + length ms) s1 f1 of (ms', s2, f2) \<Rightarrow> (ms @ ms', s2, f2)))"
  by (induction a arbitrary: n s f) (auto simp: Let_def split: option.splits prod.splits)

text \<open>The times do not influence the messages, and the messages not the times.\<close>

lemma extract_loop_messages: "fst (extract_loop infer es n s f) = fst (extract_loop infer es n 0 0)"
proof (induction es arbitrary: n s f)
  case (Cons e es)
  have "fst (extract_loop infer es k s f) = fst (extract_loop infer es k s' f')" for k s f s' f'
    using Cons.IH by metis
  then show ?case by (auto simp: Let_def split: option.splits prod.splits) (metis fst_conv)+
qed simp

lemma extract_loop_times:
  "snd (extract_loop infer es n s f) =
     (case snd (extract_loop infer es k 0 0) of (s', f') \<Rightarrow>
        (if IsZero s then s' else s, if IsZero f' then f else f'))"
proof (induction es arbitrary: n s f k)
  case Nil
  show ?case by (simp add: IsZero_def)
next
  case (Cons e es)
  let ?s = "\<lambda>s. if \<not> IsZero (de_timestamp e) \<and> IsZero s then de_timestamp e else s"
  let ?f = "\<lambda>f. if \<not> IsZero (de_timestamp e) then de_timestamp e else f"
  have step: "\<exists>n'. snd (extract_loop infer (e # es) n s f) = snd (extract_loop infer es n' (?s s) (?f f))" for n s f
  proof (cases "entry_message infer e n")
    case None
    then show ?thesis by (intro exI [of _ n]) (simp add: Let_def)
  next
    case (Some m)
    then show ?thesis by (intro exI [of _ "Suc n"]) (simp add: Let_def case_prod_beta)
  qed
  obtain n1 where n1: "snd (extract_loop infer (e # es) n s f) = snd (extract_loop infer es n1 (?s s) (?f f))"
    using step by blast
  obtain n2 where n2: "snd (extract_loop infer (e # es) k 0 0) = snd (extract_loop infer es n2 (?s 0) (?f 0))"
    using step by blast
  obtain s' f' where base: "snd (extract_loop infer es 0 0 0) = (s', f')" by fastforce
  show ?case
    unfolding n1 n2 Cons.IH [of n1 "?s s" "?f f" 0] Cons.IH [of n2 "?s 0" "?f 0" 0] base
    by (simp add: IsZero_def)
qed

lemma extract_loop_ordinals:
  "map ms_Ordinal (fst (extract_loop infer es n s f)) = [n..<n + length (fst (extract_loop infer es n s f))]"
proof (induction es arbitrary: n s f)
  case (Cons e es)
  show ?case
  proof (cases "entry_message infer e n")
    case None
    then show ?thesis using Cons.IH by (simp add: Let_def)
  next
    case (Some m)
    have "\<exists>s' f'. fst (extract_loop infer (e # es) n s f) = m # fst (extract_loop infer es (Suc n) s' f')"
      using Some by (simp add: Let_def case_prod_beta) blast
    then obtain s' f' where run: "fst (extract_loop infer (e # es) n s f) = m # fst (extract_loop infer es (Suc n) s' f')"
      by blast
    show ?thesis
      unfolding run list.map(2) entry_message_fields(1) [OF Some] Cons.IH [of "Suc n" s' f'] list.size(4)
      by (simp add: upt_conv_Cons del: upt_Suc)
  qed
qed simp

lemma first_and_count_count: "snd (first_and_count word ms (t, n)) = n + length (filter user_turn ms)"
  by (induction ms arbitrary: t n) (auto simp: user_turn_def)

lemma length_renumber [simp]: "length (renumber n ms) = length ms"
  by (simp add: renumber_def)

lemma renumber_ordinals: "map ms_Ordinal (renumber n ms) = [n..<n + length ms]"
  by (rule nth_equalityI) (auto simp: renumber_def nth_enumerate_eq)

lemma renumber_nth: "i < length ms \<Longrightarrow> renumber n ms ! i = (ms ! i)\<lparr>ms_Ordinal := n + i\<rparr>"
  by (simp add: renumber_def nth_enumerate_eq)

lemma extract_incremental:
  "extractMessages infer (stored @ appended) =
     (case extractMessages infer stored of (ms, started, ended) \<Rightarrow>
        (case extractMessagesFrom infer appended (length ms) of (ms', started', ended') \<Rightarrow>
           (ms @ ms', if IsZero started then started' else started, if IsZero ended' then ended else ended')))"
proof -
  obtain ms s f where a: "extract_loop infer stored 0 0 0 = (ms, s, f)" by (cases "extract_loop infer stored 0 0 0")
  have "extract_loop infer appended (length ms) s f =
      (fst (extract_loop infer appended (length ms) 0 0), snd (extract_loop infer appended (length ms) s f))"
    by (rule prod_eqI) (simp_all add: extract_loop_messages [of _ _ _ s f])
  also have "snd (extract_loop infer appended (length ms) s f) =
      (case snd (extract_loop infer appended (length ms) 0 0) of (s', f') \<Rightarrow>
        (if IsZero s then s' else s, if IsZero f' then f else f'))"
    by (rule extract_loop_times)
  finally show ?thesis
    by (simp add: extractMessages_def extractMessagesFrom_def extract_loop_append a case_prod_beta)
qed

section \<open>Properties\<close>

text \<open>
  Reading on is reading at once: extracting the entries that were appended, numbered on from the
  stored messages, gives the same messages as extracting all entries again, and the session's times are
  those of the first part extended by those of the second.
\<close>

theorem extractMessages_incremental:
  "extractMessages infer (stored @ appended) =
     (case extractMessages infer stored of (ms, started, ended) \<Rightarrow>
        (case extractMessagesFrom infer appended (length ms) of (ms', started', ended') \<Rightarrow>
           (ms @ ms', if IsZero started then started' else started, if IsZero ended' then ended else ended')))"
  by (rule extract_incremental)

text \<open>The messages of a session are numbered 0, 1, 2 and so on without a gap.\<close>

theorem extractMessages_ordinals:
  "map ms_Ordinal (fst (extractMessages infer entries)) = [0..<length (fst (extractMessages infer entries))]"
  using extract_loop_ordinals [of infer entries 0 0 0] by (simp add: extractMessages_def)

lemma entry_user_turn:
  assumes "entry_message infer e n = Some m" "user_turn m"
  shows "ClassifyClaudeSystemMessage (ms_Content m) = [] \<and> \<not> isClaudeSystemMessage (ms_Content m)"
  using entry_message_shape [OF assms(1)] assms(2) by (auto simp: user_turn_def RoleUser_def)

lemma extract_loop_origin:
  "m \<in> set (fst (extract_loop infer es n s f)) \<Longrightarrow> \<exists>e\<in>set es. \<exists>k. entry_message infer e k = Some m"
proof (induction es arbitrary: n s f)
  case (Cons e es)
  then show ?case
    by (cases "entry_message infer e n") (auto simp: Let_def case_prod_beta)
qed simp

text \<open>
  Text that the agent injected is never taken for a turn of the user: no message that counts as a user
  turn opens like a continuation, an interruption, a notification, a hook or a local command.
\<close>

theorem extractMessages_user_turns:
  "list_all (\<lambda>m. ClassifyClaudeSystemMessage (ms_Content m) = [] \<and> \<not> isClaudeSystemMessage (ms_Content m))
     (filter user_turn (fst (extractMessages infer entries)))"
proof -
  have "ClassifyClaudeSystemMessage (ms_Content m) = [] \<and> \<not> isClaudeSystemMessage (ms_Content m)"
    if "m \<in> set (fst (extract_loop infer entries 0 0 0))" "user_turn m" for m
    using extract_loop_origin [OF that(1)] entry_user_turn [OF _ that(2)] by blast
  then show ?thesis by (simp add: list_all_iff extractMessages_def)
qed

text \<open>
  The stored count of user turns is their number, and counting the appended messages and adding is
  the same as counting them all.
\<close>

theorem firstMessageAndUserCount_count:
  "snd (firstMessageAndUserCount word ms) = length (filter user_turn ms) \<and>
   snd (firstMessageAndUserCount word (ms @ ms')) =
     snd (firstMessageAndUserCount word ms) + snd (firstMessageAndUserCount word ms')"
  by (simp add: firstMessageAndUserCount_def first_and_count_count)

lemma merge_queued_shuffles: "merge_queued ms qs \<in> shuffles ms (map queuedCommandMessage qs)"
  by (induction ms qs rule: merge_queued.induct) (auto simp: Cons_in_shuffles_iff)

text \<open>
  Queued commands are spliced in without loss: the result is an interleaving of the messages and the
  queued commands that keeps the order of both, numbered from the given ordinal without a gap.
\<close>

theorem mergeQueuedCommands_interleaves:
  "\<exists>merged. merged \<in> shuffles messages (map queuedCommandMessage queued) \<and>
    mergeQueuedCommands messages queued start = renumber start merged \<and>
    map ms_Ordinal (mergeQueuedCommands messages queued start) =
      [start..<start + length (messages) + length queued]"
proof (intro exI conjI)
  show "merge_queued messages queued \<in> shuffles messages (map queuedCommandMessage queued)"
    by (rule merge_queued_shuffles)
  then have "length (merge_queued messages queued) = length messages + length queued"
    by (simp add: length_shuffles)
  then show "map ms_Ordinal (mergeQueuedCommands messages queued start) = [start..<start + length messages + length queued]"
    by (simp add: mergeQueuedCommands_def renumber_ordinals add.assoc)
qed (simp add: mergeQueuedCommands_def)

lemma merge_queued_ge:
  assumes "\<forall>m\<in>set ms. t \<le> ms_Timestamp m" "\<forall>q\<in>set qs. t \<le> qc_timestamp q"
  shows "\<forall>m\<in>set (merge_queued ms qs). t \<le> ms_Timestamp m"
  using assms set_shuffles [OF merge_queued_shuffles, of ms qs] by (auto simp: queuedCommandMessage_def)

lemma merge_queued_sorted:
  assumes "sorted (map ms_Timestamp ms)" "sorted (map qc_timestamp qs)"
    and "\<forall>m\<in>set ms. \<not> IsZero (ms_Timestamp m)" "\<forall>q\<in>set qs. \<not> IsZero (qc_timestamp q)"
  shows "sorted (map ms_Timestamp (merge_queued ms qs))"
  using assms
proof (induction ms qs rule: merge_queued.induct)
  case (1 qs)
  then show ?case by (simp add: comp_def queuedCommandMessage_def)
next
  case (3 m ms q qs)
  show ?case
  proof (cases "queuedBefore q m")
    case True
    then have "\<forall>x\<in>set (merge_queued (m # ms) qs). qc_timestamp q \<le> ms_Timestamp x"
      using "3.prems" by (intro merge_queued_ge) (auto simp: queuedBefore_def)
    then show ?thesis using True 3 by (simp add: queuedCommandMessage_def)
  next
    case False
    then have "\<forall>x\<in>set (merge_queued ms (q # qs)). ms_Timestamp m \<le> ms_Timestamp x"
      using "3.prems" by (intro merge_queued_ge) (auto simp: queuedBefore_def)
    then show ?thesis using False 3 by simp
  qed
qed simp

text \<open>
  When all times are known and both inputs are in chronological order, so is the merged transcript.
\<close>

theorem mergeQueuedCommands_sorted:
  assumes "sorted (map ms_Timestamp messages)" "sorted (map qc_timestamp queued)"
    and "\<forall>m\<in>set messages. \<not> IsZero (ms_Timestamp m)" "\<forall>q\<in>set queued. \<not> IsZero (qc_timestamp q)"
  shows "sorted (map ms_Timestamp (mergeQueuedCommands messages queued start))"
proof -
  have "map ms_Timestamp (renumber n ms) = map ms_Timestamp ms" for n ms
    by (rule nth_equalityI) (simp_all add: renumber_nth)
  then show ?thesis using merge_queued_sorted [OF assms] by (simp add: mergeQueuedCommands_def)
qed

theorem mergeQueuedCommands_sorted_witness:
  "sorted (map ms_Timestamp (mergeQueuedCommands
     [zero_message\<lparr>ms_Timestamp := 1\<rparr>, zero_message\<lparr>ms_Timestamp := 3\<rparr>] [\<lparr>qc_prompt = ''x'', qc_timestamp = 2\<rparr>] 0))"
  by (rule mergeQueuedCommands_sorted) (simp_all add: IsZero_def)

end
