(* ===== verification/Claude_Chunks.thy ===== *)
theory Claude_Chunks
  imports Claude_Messages
begin

text \<open>
  Streamed responses (\<open>internal/parser/claude.go\<close>): Claude Code writes one response as several lines with the
  same message id, as growing snapshots or as additional chunks. Modelled is how the runs are found and
  how the content blocks of a run are put together; \<open>replaceContent\<close> stands for writing the line again as
  JSON with other content and reading it back, \<open>None\<close> when the line does not decode.
\<close>

section \<open>Blocks\<close>

definition block_type :: "gresult \<Rightarrow> string" where
  "block_type b = gstr (gget b [''type''])"

definition block_text :: "gresult \<Rightarrow> string" where
  "block_text b = gstr (gget b [''text''])"

definition block_id :: "gresult \<Rightarrow> string" where
  "block_id b = gstr (gget b [''id''])"

definition claudeContentBlocks :: "gresult \<Rightarrow> gresult list" where
  "claudeContentBlocks content = filter (\<lambda>b. graw b \<noteq> []) (geach content)"

definition claudeBlocksAlign :: "gresult \<Rightarrow> gresult \<Rightarrow> bool" where
  "claudeBlocksAlign a b =
     (if block_type a \<noteq> block_type b then False
      else if block_type a = ''text'' then
        block_text a = block_text b \<or> has_prefix (block_text b) (block_text a) \<or> has_prefix (block_text a) (block_text b)
      else if block_type a = ''tool_use'' then
        (if block_id a \<noteq> [] \<and> block_id b \<noteq> [] then block_id a = block_id b else graw a = graw b)
      else graw a = graw b)"

definition pickClaudeLatestBlock :: "gresult \<Rightarrow> gresult \<Rightarrow> gresult" where
  "pickClaudeLatestBlock existing candidate =
     (if block_type existing \<noteq> block_type candidate then candidate
      else if block_type existing = ''text'' then
        (if length (block_text candidate) \<ge> length (block_text existing) then candidate else existing)
      else if block_type existing = ''tool_use'' then candidate
      else existing)"

definition claudeBlockExistsIn :: "gresult \<Rightarrow> gresult list \<Rightarrow> bool" where
  "claudeBlockExistsIn target blocks =
     list_ex (\<lambda>b. block_type b = block_type target \<and>
       (if block_type target = ''tool_use'' \<and> block_id target \<noteq> [] then block_id b = block_id target
        else graw b = graw target)) blocks"

text \<open>An empty side is always cumulative; otherwise the common positions align.\<close>

definition claudeSnapshotIsCumulative :: "gresult list \<Rightarrow> gresult list \<Rightarrow> bool" where
  "claudeSnapshotIsCumulative merged snapshot =
     (if merged = [] \<or> snapshot = [] then True
      else list_all (\<lambda>(a, b). claudeBlocksAlign a b) (zip merged snapshot))"

fun merge_positions :: "gresult list \<Rightarrow> gresult list \<Rightarrow> gresult list" where
  "merge_positions [] snapshot = snapshot"
| "merge_positions merged [] = merged"
| "merge_positions (m # ms) (b # bs) = pickClaudeLatestBlock m b # merge_positions ms bs"

fun merge_additive :: "gresult list \<Rightarrow> gresult list \<Rightarrow> gresult list" where
  "merge_additive merged [] = merged"
| "merge_additive merged (b # bs) =
     merge_additive (if claudeBlockExistsIn b merged then merged else merged @ [b]) bs"

definition mergeClaudeSnapshot :: "gresult list \<Rightarrow> gresult list \<Rightarrow> bool \<Rightarrow> gresult list" where
  "mergeClaudeSnapshot merged snapshot runEnded =
     (if \<not> runEnded \<and> claudeSnapshotIsCumulative merged snapshot then merge_positions merged snapshot
      else merge_additive merged snapshot)"

section \<open>Runs\<close>

definition entry_content :: "dagEntry \<Rightarrow> gresult" where
  "entry_content e = gget (de_line e) [''message'', ''content'']"

fun merge_run :: "dagEntry list \<Rightarrow> gresult list \<Rightarrow> bool \<Rightarrow> gresult list" where
  "merge_run [] merged runEnded = merged"
| "merge_run (e # es) merged runEnded =
     (if \<not> is_array (entry_content e) then merge_run es merged runEnded
      else merge_run es (mergeClaudeSnapshot merged (claudeContentBlocks (entry_content e)) runEnded)
        (runEnded \<or> gstr (gget (de_line e) [''message'', ''stop_reason'']) = ''end_turn''))"

definition mergeClaudeAssistantRun :: "(gresult \<Rightarrow> gresult list \<Rightarrow> gresult option) \<Rightarrow> dagEntry list \<Rightarrow> dagEntry" where
  "mergeClaudeAssistantRun replaceContent run =
     (let base = last run; merged = merge_run run [] False in
      if merged = [] then base
      else base\<lparr>de_line := (case replaceContent (de_line base) (filter (\<lambda>b. graw b \<noteq> []) merged) of
                             Some l \<Rightarrow> l | None \<Rightarrow> de_line base)\<rparr>)"

definition assistant_mid :: "dagEntry \<Rightarrow> string" where
  "assistant_mid e = (if de_entryType e = ''assistant'' then gstr (gget (de_line e) [''message'', ''id'']) else [])"

function mergeClaudeAssistantMessageChunks ::
  "(gresult \<Rightarrow> gresult list \<Rightarrow> gresult option) \<Rightarrow> dagEntry list \<Rightarrow> dagEntry list" where
  "mergeClaudeAssistantMessageChunks rc [] = []"
| "mergeClaudeAssistantMessageChunks rc (e # es) =
     (if assistant_mid e = [] then e # mergeClaudeAssistantMessageChunks rc es
      else let same = takeWhile (\<lambda>x. assistant_mid x = assistant_mid e) es in
        (if same = [] then e else mergeClaudeAssistantRun rc (e # same)) #
        mergeClaudeAssistantMessageChunks rc (drop (length same) es))"
  by pat_completeness auto
termination
  by (relation "measure (\<lambda>(_, es). length es)") auto

declare mergeClaudeAssistantMessageChunks.simps(2) [simp del]

text \<open>The guard of the incremental reader: a link to a subagent, or two chunks in a row.\<close>

fun needs_full :: "string \<Rightarrow> dagEntry list \<Rightarrow> bool" where
  "needs_full prevMID [] = False"
| "needs_full prevMID (e # es) =
     (if de_entryType e = ''user'' \<and> gstr (gget (de_line e) [''toolUseResult'', ''agentId'']) \<noteq> [] then True
      else if de_entryType e = ''assistant'' then
        (let mid = gstr (gget (de_line e) [''message'', ''id'']) in
         if mid \<noteq> [] \<and> mid = prevMID then True else needs_full mid es)
      else needs_full [] es)"

definition needsClaudeFullParse :: "dagEntry list \<Rightarrow> bool" where
  "needsClaudeFullParse entries = needs_full [] entries"

section \<open>Lemmas\<close>

text \<open>A block is kept by another of its type: a text that it starts, a tool use with its id, or the same JSON.\<close>

definition keeps_block :: "gresult \<Rightarrow> gresult \<Rightarrow> bool" where
  "keeps_block m b \<longleftrightarrow> block_type m = block_type b \<and>
     (if block_type b = ''text'' then has_prefix (block_text m) (block_text b)
      else if block_type b = ''tool_use'' \<and> block_id b \<noteq> [] then block_id m = block_id b
      else graw m = graw b)"

text \<open>The same raw text was read to the same value.\<close>

definition raw_unique :: "gresult set \<Rightarrow> bool" where
  "raw_unique S \<longleftrightarrow> inj_on graw S"

lemma keeps_block_refl [simp]: "keeps_block b b"
  by (simp add: keeps_block_def has_prefix_def)

lemma keeps_block_trans:
  assumes "raw_unique S" "m \<in> S" "b \<in> S" "keeps_block m' m" "keeps_block m b"
  shows "keeps_block m' b"
proof (cases "block_type b = ''text''")
  case True
  then show ?thesis using assms(4,5) by (auto simp: keeps_block_def has_prefix_def)
next
  case False
  show ?thesis
  proof (cases "block_type b = ''tool_use'' \<and> block_id b \<noteq> []")
    case True
    then show ?thesis using assms(4,5) by (auto simp: keeps_block_def)
  next
    case other: False
    then have "graw m = graw b" using assms(5) False by (auto simp: keeps_block_def)
    then have "m = b" using assms(1-3) by (auto simp: raw_unique_def inj_on_def)
    then show ?thesis using assms(4) by simp
  qed
qed

lemma prefix_same_length: "prefix a b \<Longrightarrow> length b \<le> length a \<Longrightarrow> a = b"
  by (auto simp: prefix_def)

lemma pick_keeps:
  assumes "raw_unique S" "m \<in> S" "b \<in> S" "claudeBlocksAlign m b"
  shows "keeps_block (pickClaudeLatestBlock m b) m" "keeps_block (pickClaudeLatestBlock m b) b"
    "pickClaudeLatestBlock m b \<in> S"
proof -
  have same: "m = b" if "graw m = graw b" using that assms(1-3) by (auto simp: raw_unique_def inj_on_def)
  have ty: "block_type m = block_type b" using assms(4) by (auto simp: claudeBlocksAlign_def split: if_splits)
  show "pickClaudeLatestBlock m b \<in> S" using assms(2,3) by (simp add: pickClaudeLatestBlock_def)
  consider "block_type b = ''text''" | "block_type b = ''tool_use''" | "block_type b \<noteq> ''text''" "block_type b \<noteq> ''tool_use''" by blast
  then have "keeps_block (pickClaudeLatestBlock m b) m \<and> keeps_block (pickClaudeLatestBlock m b) b"
  proof cases
    case 1
    have "prefix (block_text m) (block_text b) \<or> prefix (block_text b) (block_text m)"
      using assms(4) ty 1 by (auto simp: claudeBlocksAlign_def has_prefix_def)
    then show ?thesis
      using 1 ty prefix_same_length [of "block_text b" "block_text m"] prefix_length_le [of "block_text b" "block_text m"]
        prefix_length_le [of "block_text m" "block_text b"]
      by (auto simp: pickClaudeLatestBlock_def keeps_block_def has_prefix_def)
  next
    case 2
    then have "m = b \<or> block_id m = block_id b" using assms(4) ty same by (auto simp: claudeBlocksAlign_def split: if_splits)
    moreover have "m = b" if "block_id m = []" using that assms(4) ty 2 same by (auto simp: claudeBlocksAlign_def split: if_splits)
    ultimately show ?thesis using 2 ty by (auto simp: pickClaudeLatestBlock_def keeps_block_def)
  next
    case 3
    then show ?thesis using assms(4) ty same by (auto simp: pickClaudeLatestBlock_def claudeBlocksAlign_def)
  qed
  then show "keeps_block (pickClaudeLatestBlock m b) m" "keeps_block (pickClaudeLatestBlock m b) b" by simp_all
qed

lemma merge_positions_keeps:
  assumes "raw_unique S" "set merged \<subseteq> S" "set snap \<subseteq> S" "list_all (\<lambda>(a, b). claudeBlocksAlign a b) (zip merged snap)"
  shows "set (merge_positions merged snap) \<subseteq> S \<and>
    (\<forall>b\<in>set merged \<union> set snap. \<exists>m\<in>set (merge_positions merged snap). keeps_block m b)"
  using assms(2-)
proof (induction merged snap rule: merge_positions.induct)
  case (3 m ms b bs)
  then have "set (merge_positions ms bs) \<subseteq> S \<and>
      (\<forall>b\<in>set ms \<union> set bs. \<exists>m\<in>set (merge_positions ms bs). keeps_block m b)" by simp
  moreover have "claudeBlocksAlign m b" using "3.prems"(3) by simp
  moreover note pick = pick_keeps [OF assms(1), of m b]
  moreover have "m \<in> S" "b \<in> S" using "3.prems"(1,2) by simp_all
  ultimately show ?case by (simp add: ball_Un)
next
  case (2 m ms)
  then show ?case using keeps_block_refl by fastforce
next
  case (1 snap)
  then show ?case using keeps_block_refl by fastforce
qed

lemma merge_additive_keeps:
  assumes "raw_unique S" "set merged \<subseteq> S" "set snap \<subseteq> S"
  shows "set (merge_additive merged snap) \<subseteq> S \<and> set merged \<subseteq> set (merge_additive merged snap) \<and>
    (\<forall>b\<in>set snap. \<exists>m\<in>set (merge_additive merged snap). keeps_block m b)"
  using assms(2-)
proof (induction snap arbitrary: merged)
  case (Cons b bs)
  let ?next = "if claudeBlockExistsIn b merged then merged else merged @ [b]"
  have ih: "set (merge_additive ?next bs) \<subseteq> S \<and> set ?next \<subseteq> set (merge_additive ?next bs) \<and>
      (\<forall>b\<in>set bs. \<exists>m\<in>set (merge_additive ?next bs). keeps_block m b)"
    using Cons by (intro Cons.IH) auto
  have "\<exists>m\<in>set ?next. keeps_block m b"
  proof (cases "claudeBlockExistsIn b merged")
    case True
    then obtain m where m: "m \<in> set merged" "block_type m = block_type b"
      "if block_type b = ''tool_use'' \<and> block_id b \<noteq> [] then block_id m = block_id b else graw m = graw b"
      by (auto simp: claudeBlockExistsIn_def list_ex_iff)
    have "graw m = graw b \<Longrightarrow> m = b" using assms(1) Cons.prems m(1) by (auto simp: raw_unique_def inj_on_def)
    then have "keeps_block m b" using m(2,3) by (auto simp: keeps_block_def has_prefix_def split: if_splits)
    then show ?thesis using True m(1) by auto
  qed (auto intro: keeps_block_refl)
  then have "\<exists>m\<in>set (merge_additive ?next bs). keeps_block m b" using ih by blast
  moreover have "set merged \<subseteq> set ?next" by auto
  ultimately have "set (merge_additive ?next bs) \<subseteq> S \<and> set merged \<subseteq> set (merge_additive ?next bs) \<and>
    (\<forall>c\<in>set (b # bs). \<exists>m\<in>set (merge_additive ?next bs). keeps_block m c)"
    using ih unfolding set_simps by blast
  then show ?case unfolding merge_additive.simps(2) .
qed simp

lemma mergeClaudeSnapshot_keeps:
  assumes "raw_unique S" "set merged \<subseteq> S" "set snap \<subseteq> S"
  shows "set (mergeClaudeSnapshot merged snap ended) \<subseteq> S"
    and "b \<in> set merged \<union> set snap \<Longrightarrow> \<exists>m\<in>set (mergeClaudeSnapshot merged snap ended). keeps_block m b"
proof -
  have "set (mergeClaudeSnapshot merged snap ended) \<subseteq> S \<and>
      (\<forall>b\<in>set merged \<union> set snap. \<exists>m\<in>set (mergeClaudeSnapshot merged snap ended). keeps_block m b)"
  proof (cases "\<not> ended \<and> claudeSnapshotIsCumulative merged snap")
    case True
    then have "list_all (\<lambda>(a, b). claudeBlocksAlign a b) (zip merged snap)"
      by (auto simp: claudeSnapshotIsCumulative_def split: if_splits)
    then show ?thesis using merge_positions_keeps [OF assms] True by (simp add: mergeClaudeSnapshot_def)
  next
    case False
    then show ?thesis
      using merge_additive_keeps [OF assms] by (auto simp: mergeClaudeSnapshot_def intro: keeps_block_refl)
  qed
  then show "set (mergeClaudeSnapshot merged snap ended) \<subseteq> S"
    and "b \<in> set merged \<union> set snap \<Longrightarrow> \<exists>m\<in>set (mergeClaudeSnapshot merged snap ended). keeps_block m b" by blast+
qed

definition run_blocks :: "dagEntry list \<Rightarrow> gresult set" where
  "run_blocks run = (\<Union>e\<in>{e \<in> set run. is_array (entry_content e)}. set (claudeContentBlocks (entry_content e)))"

lemma merge_run_keeps:
  assumes "raw_unique S" "run_blocks run \<subseteq> S" "set merged \<subseteq> S" "b \<in> set merged \<union> run_blocks run"
  shows "\<exists>m\<in>set (merge_run run merged ended). keeps_block m b"
  using assms(2-)
proof (induction run arbitrary: merged ended b)
  case Nil
  then show ?case by (auto simp: run_blocks_def intro: keeps_block_refl)
next
  case (Cons e run)
  show ?case
  proof (cases "is_array (entry_content e)")
    case False
    then have "run_blocks (e # run) = run_blocks run" by (auto simp: run_blocks_def)
    then show ?thesis using False Cons by simp
  next
    case True
    let ?snap = "claudeContentBlocks (entry_content e)"
    let ?merged = "mergeClaudeSnapshot merged ?snap ended"
    have rb: "run_blocks (e # run) = set ?snap \<union> run_blocks run" using True by (auto simp: run_blocks_def)
    then have sub: "set ?snap \<subseteq> S" "run_blocks run \<subseteq> S" using Cons.prems(1) by auto
    note snap = mergeClaudeSnapshot_keeps [OF assms(1) Cons.prems(2) sub(1)]
    have ih: "\<exists>m\<in>set (merge_run run ?merged ended'). keeps_block m b" if "b \<in> set ?merged \<union> run_blocks run" for b ended'
      using that Cons.IH [OF sub(2) snap(1)] by blast
    consider "b \<in> set merged \<union> set ?snap" | "b \<in> run_blocks run" using Cons.prems(3) rb by auto
    then show ?thesis
    proof cases
      case 1
      then obtain m where m: "m \<in> set ?merged" "keeps_block m b" using snap(2) by blast
      obtain ended' where e': "merge_run (e # run) merged ended = merge_run run ?merged ended'" using True by simp
      obtain m' where m': "m' \<in> set (merge_run run ?merged ended')" "keeps_block m' m" using ih m(1) by blast
      have "m \<in> S" "b \<in> S" using m(1) snap(1) 1 Cons.prems(2) sub(1) by auto
      then show ?thesis using keeps_block_trans [OF assms(1) _ _ m'(2) m(2)] m'(1) e' by auto
    next
      case 2
      then show ?thesis using True ih [of b] by simp
    qed
  qed
qed

section \<open>Properties\<close>

text \<open>
  C24. Merging a streamed response loses none of it: every content block of every line of the run is kept
  in the merged message, a text by a text that it starts, a tool use by one with its id, any other block
  as it is (provided equal JSON text was read to equal values).
\<close>

theorem merge_run_complete:
  assumes "raw_unique (run_blocks run)" "e \<in> set run" "is_array (entry_content e)"
    and "b \<in> set (claudeContentBlocks (entry_content e))"
  shows "\<exists>m\<in>set (merge_run run [] False). keeps_block m b"
  using assms by (intro merge_run_keeps [OF assms(1) subset_refl]) (auto simp: run_blocks_def)

definition text_block :: "string \<Rightarrow> gresult" where
  "text_block t = GObj t [(''type'', GStr [] ''text''), (''text'', GStr t t)]"

definition chunk_entry :: "string list \<Rightarrow> dagEntry" where
  "chunk_entry ts = \<lparr>de_uuid = ''u'', de_parentUuid = [], de_entryType = ''assistant'',
     de_line = GObj ''l'' [(''message'', GObj ''m'' [(''id'', GStr ''i'' ''i''), (''content'', GArr ''c'' (map text_block ts))])],
     de_timestamp = 1\<rparr>"

theorem merge_run_complete_witness:
  "merge_run [chunk_entry [''a''], chunk_entry [''ab'', ''c'']] [] False = [text_block ''ab'', text_block ''c''] \<and>
   (\<exists>m\<in>set (merge_run [chunk_entry [''a''], chunk_entry [''ab'', ''c'']] [] False). keeps_block m (text_block ''a''))"
proof
  show "merge_run [chunk_entry [''a''], chunk_entry [''ab'', ''c'']] [] False = [text_block ''ab'', text_block ''c'']"
    by code_simp
  have c: "is_array (entry_content (chunk_entry ts))"
    "claudeContentBlocks (entry_content (chunk_entry ts)) = filter (\<lambda>b. graw b \<noteq> []) (map text_block ts)" for ts
    by (simp_all add: entry_content_def chunk_entry_def gget_def claudeContentBlocks_def)
  show "\<exists>m\<in>set (merge_run [chunk_entry [''a''], chunk_entry [''ab'', ''c'']] [] False). keeps_block m (text_block ''a'')"
    by (rule merge_run_complete [where e = "chunk_entry [''a'']"])
      (auto simp: raw_unique_def inj_on_def run_blocks_def c, auto simp: text_block_def)
qed

lemma needs_full_mids:
  "\<not> needs_full prev (e # es) \<Longrightarrow> assistant_mid e \<noteq> [] \<Longrightarrow>
     takeWhile (\<lambda>x. assistant_mid x = assistant_mid e) es = [] \<and> \<not> needs_full (assistant_mid e) es"
  by (cases es) (auto simp: assistant_mid_def Let_def split: if_splits)

lemma needs_full_tail: "\<not> needs_full prev (e # es) \<Longrightarrow> \<exists>p. \<not> needs_full p es"
  by (auto simp: Let_def split: if_splits)

lemma no_chunks: "\<not> needs_full prev es \<Longrightarrow> mergeClaudeAssistantMessageChunks rc es = es"
proof (induction es arbitrary: prev)
  case (Cons e es)
  obtain p where p: "\<not> needs_full p es" using needs_full_tail [OF Cons.prems] by blast
  then have tl: "mergeClaudeAssistantMessageChunks rc es = es" by (rule Cons.IH)
  show ?case
  proof (cases "assistant_mid e = []")
    case False
    then show ?thesis using needs_full_mids [OF Cons.prems] tl by (simp add: mergeClaudeAssistantMessageChunks.simps(2))
  qed (simp add: mergeClaudeAssistantMessageChunks.simps(2) tl)
qed simp

lemma length_merge: "length (mergeClaudeAssistantMessageChunks rc es) \<le> length es"
proof (induction rc es rule: mergeClaudeAssistantMessageChunks.induct)
  case (2 rc e es)
  show ?case
  proof (cases "assistant_mid e = []")
    case True
    then show ?thesis using "2.IH"(1) by (simp add: mergeClaudeAssistantMessageChunks.simps(2))
  next
    case False
    then show ?thesis
      using "2.IH"(2) [OF False refl] by (simp add: mergeClaudeAssistantMessageChunks.simps(2) Let_def)
  qed
qed simp

text \<open>
  The incremental reader's guard is exact enough: when it does not ask for a full parse, there is
  nothing to merge among the appended entries.
\<close>

theorem needsClaudeFullParse_sound:
  assumes "\<not> needsClaudeFullParse entries"
  shows "mergeClaudeAssistantMessageChunks replaceContent entries = entries"
  using assms no_chunks by (simp add: needsClaudeFullParse_def)

theorem needsClaudeFullParse_sound_witness:
  "mergeClaudeAssistantMessageChunks (\<lambda>_ _. None) [chunk_entry [''a'']] = [chunk_entry [''a'']]"
  by (rule needsClaudeFullParse_sound) (simp add: needsClaudeFullParse_def chunk_entry_def)

end
