(* ===== verification/Claude_Dag.thy ===== *)
theory Claude_Dag
  imports Claude_Messages
begin

text \<open>
  The walk over the tree of entries of a transcript (\<open>parseDAG\<close> in \<open>internal/parser/claude.go\<close>): entries name
  their parent by uuid; where an entry has several children the session was retried or forked. The walk
  and the count of user turns take fuel, since on entries with equal uuids the code does not return:
  \<open>None\<close> is a run that is still going. With distinct uuids the number of entries is fuel enough.
\<close>

section \<open>The tree\<close>

definition forkThreshold :: nat where
  "forkThreshold = 3"

definition uuid_of :: "dagEntry list \<Rightarrow> nat \<Rightarrow> string" where
  "uuid_of entries i = de_uuid (entries ! i)"

text \<open>The map from a uuid to the entries that name it as their parent; no entry is filed under the empty uuid.\<close>

definition children :: "dagEntry list \<Rightarrow> string \<Rightarrow> nat list" where
  "children entries uuid =
     (if uuid = [] then [] else filter (\<lambda>i. de_parentUuid (entries ! i) = uuid) [0..<length entries])"

definition roots :: "dagEntry list \<Rightarrow> nat list" where
  "roots entries = filter (\<lambda>i. de_parentUuid (entries ! i) = []) [0..<length entries]"

text \<open>The guard before the walk: one root, and every parent is the uuid of an entry.\<close>

definition wellFormedDAG :: "dagEntry list \<Rightarrow> bool" where
  "wellFormedDAG entries \<longleftrightarrow>
     length (roots entries) = 1 \<and>
     list_all (\<lambda>e. de_parentUuid e = [] \<or> de_parentUuid e \<in> set (filter (\<lambda>u. u \<noteq> []) (map de_uuid entries))) entries"

section \<open>The walk\<close>

text \<open>The stack of \<open>countUserTurns\<close>, its top first; one unit of fuel for each entry that is popped.\<close>

fun count_turns :: "dagEntry list \<Rightarrow> nat \<Rightarrow> nat list \<Rightarrow> nat \<Rightarrow> nat option" where
  "count_turns entries fuel [] n = Some n"
| "count_turns entries 0 (current # stack) n = None"
| "count_turns entries (Suc fuel) (current # stack) n =
     count_turns entries fuel (rev (children entries (uuid_of entries current)) @ stack)
       (if de_entryType (entries ! current) = ''user'' then Suc n else n)"

definition countUserTurns :: "nat \<Rightarrow> dagEntry list \<Rightarrow> nat \<Rightarrow> nat option" where
  "countUserTurns fuel entries startIdx = count_turns entries fuel [startIdx] 0"

text \<open>A branch: its entries and the session that owns the place where it leaves.\<close>

type_synonym branch = "nat list \<times> string"

definition forkSID :: "dagEntry list \<Rightarrow> string \<Rightarrow> nat \<Rightarrow> string" where
  "forkSID entries sessionID kid = sessionID @ ''-'' @ uuid_of entries kid"

text \<open>The loop over the other children: the forks inside a fork are collected before the fork itself.\<close>

fun fork_kids ::
  "(nat \<Rightarrow> string \<Rightarrow> (nat list \<times> branch list) option) \<Rightarrow> dagEntry list \<Rightarrow> string \<Rightarrow> string \<Rightarrow> nat list \<Rightarrow> branch list option"
where
  "fork_kids walk entries sessionID ownerID [] = Some []"
| "fork_kids walk entries sessionID ownerID (kid # kids) =
     (case walk kid (forkSID entries sessionID kid) of
        None \<Rightarrow> None
      | Some (forkPath, inner) \<Rightarrow>
          map_option (\<lambda>rest. inner @ (forkPath, ownerID) # rest) (fork_kids walk entries sessionID ownerID kids))"

definition on_path :: "nat \<Rightarrow> branch list \<Rightarrow> (nat list \<times> branch list) option \<Rightarrow> (nat list \<times> branch list) option" where
  "on_path i forks r = map_option (\<lambda>(path, fs). (i # path, forks @ fs)) r"

text \<open>\<open>walkBranch\<close>: the path from an entry and the forks that were collected on it; \<open>turns\<close> counts user turns.\<close>

fun walkBranch ::
  "(nat \<Rightarrow> nat option) \<Rightarrow> dagEntry list \<Rightarrow> string \<Rightarrow> nat \<Rightarrow> nat \<Rightarrow> string \<Rightarrow> (nat list \<times> branch list) option"
where
  "walkBranch turns entries sessionID 0 current ownerID = None"
| "walkBranch turns entries sessionID (Suc fuel) current ownerID =
     (case children entries (uuid_of entries current) of
        [] \<Rightarrow> Some ([current], [])
      | [kid] \<Rightarrow> on_path current [] (walkBranch turns entries sessionID fuel kid ownerID)
      | kid # kids \<Rightarrow>
          (case turns kid of
             None \<Rightarrow> None
           | Some n \<Rightarrow>
               if n \<le> forkThreshold then
                 on_path current [] (walkBranch turns entries sessionID fuel (last kids) ownerID)
               else
                 (case fork_kids (walkBranch turns entries sessionID fuel) entries sessionID ownerID kids of
                    None \<Rightarrow> None
                  | Some forks \<Rightarrow>
                      on_path current forks (walkBranch turns entries sessionID fuel kid ownerID))))"

text \<open>All branches, the main one first.\<close>

definition dagBranches :: "nat \<Rightarrow> dagEntry list \<Rightarrow> string \<Rightarrow> string \<Rightarrow> branch list option" where
  "dagBranches fuel entries sessionID parentSessionID =
     map_option (\<lambda>(mainPath, forkBranches). (mainPath, parentSessionID) # forkBranches)
       (walkBranch (countUserTurns fuel entries) entries sessionID fuel (hd (roots entries)) sessionID)"

section \<open>Depth\<close>

text \<open>Entries with uuids of their own and one root.\<close>

definition dag_ok :: "dagEntry list \<Rightarrow> bool" where
  "dag_ok entries \<longleftrightarrow> distinct (map de_uuid entries) \<and> length (roots entries) = 1"

definition edge :: "dagEntry list \<Rightarrow> (nat \<times> nat) set" where
  "edge entries = {(i, j). i < length entries \<and> j \<in> set (children entries (uuid_of entries i))}"

definition descendants :: "dagEntry list \<Rightarrow> nat \<Rightarrow> nat set" where
  "descendants entries i = {j. (i, j) \<in> (edge entries)\<^sup>*}"

inductive at_depth :: "dagEntry list \<Rightarrow> nat \<Rightarrow> nat \<Rightarrow> bool" for entries where
  at_root: "i < length entries \<Longrightarrow> de_parentUuid (entries ! i) = [] \<Longrightarrow> at_depth entries 0 i"
| at_kid: "at_depth entries d i \<Longrightarrow> (i, j) \<in> edge entries \<Longrightarrow> at_depth entries (Suc d) j"

inductive_cases at_depth_Suc: "at_depth entries (Suc d) j"
inductive_cases at_depth_0: "at_depth entries 0 j"

lemma edge_iff:
  "(i, j) \<in> edge entries \<longleftrightarrow>
     i < length entries \<and> j < length entries \<and> uuid_of entries i \<noteq> [] \<and> de_parentUuid (entries ! j) = uuid_of entries i"
  by (auto simp: edge_def children_def)

lemma edge_parent_unique:
  assumes "distinct (map de_uuid entries)" "(i, j) \<in> edge entries" "(i', j) \<in> edge entries"
  shows "i = i'"
  using assms by (auto simp: edge_iff uuid_of_def distinct_conv_nth)

lemma distinct_children: "distinct (children entries u)"
  by (simp add: children_def)

lemma at_depth_less: "at_depth entries d i \<Longrightarrow> i < length entries"
  by (induction rule: at_depth.induct) (auto simp: edge_iff)

lemma at_depth_unique:
  assumes "distinct (map de_uuid entries)" "at_depth entries d i" "at_depth entries d' i"
  shows "d = d'"
  using assms(2,3)
proof (induction arbitrary: d' rule: at_depth.induct)
  case (at_root i)
  then show ?case by (cases d') (auto elim!: at_depth_Suc simp: edge_iff)
next
  case (at_kid d i j)
  show ?case
  proof (cases d')
    case 0
    then show ?thesis using at_kid.hyps(2) at_kid.prems by (auto elim!: at_depth_0 simp: edge_iff)
  next
    case (Suc k)
    then obtain i' where i': "at_depth entries k i'" "(i', j) \<in> edge entries"
      using at_kid.prems by (auto elim!: at_depth_Suc)
    have "i' = i" using edge_parent_unique [OF assms(1) i'(2) at_kid.hyps(2)] .
    then show ?thesis using at_kid.IH [of k] i'(1) Suc by simp
  qed
qed

lemma at_depth_above: "at_depth entries d i \<Longrightarrow> k \<le> d \<Longrightarrow> \<exists>j. at_depth entries k j"
proof (induction rule: at_depth.induct)
  case (at_root i)
  then show ?case using at_depth.at_root by blast
next
  case (at_kid d i j)
  then show ?case using at_depth.at_kid [OF at_kid.hyps] by (cases "k = Suc d") auto
qed

lemma at_depth_bound:
  assumes "distinct (map de_uuid entries)" "at_depth entries d i"
  shows "d < length entries"
proof -
  obtain f where f: "\<forall>k\<le>d. at_depth entries k (f k)" using at_depth_above [OF assms(2)] by metis
  have "inj_on f {..d}"
    using f at_depth_unique [OF assms(1)] by (metis atMost_iff inj_onI)
  moreover have "f ` {..d} \<subseteq> {..<length entries}" using f at_depth_less by auto
  ultimately have "card {..d} \<le> card {..<length entries}" by (metis card_inj_on_le finite_lessThan)
  then show ?thesis by simp
qed

lemma at_depth_relpow: "at_depth entries d i \<Longrightarrow> (i, j) \<in> edge entries ^^ k \<Longrightarrow> at_depth entries (d + k) j"
  by (induction k arbitrary: j) (auto intro: at_depth.at_kid)

lemma relpow_edge_unique:
  assumes "distinct (map de_uuid entries)"
  shows "(a, j) \<in> edge entries ^^ k \<Longrightarrow> (b, j) \<in> edge entries ^^ k \<Longrightarrow> a = b"
proof (induction k arbitrary: j)
  case (Suc k)
  then show ?case using edge_parent_unique [OF assms] by (metis relpow_Suc_E)
qed simp

text \<open>Two entries of one depth have no descendant in common.\<close>

lemma descendants_disjoint:
  assumes "distinct (map de_uuid entries)" "at_depth entries d a" "at_depth entries d b" "a \<noteq> b"
  shows "descendants entries a \<inter> descendants entries b = {}"
proof (rule ccontr)
  assume "descendants entries a \<inter> descendants entries b \<noteq> {}"
  then obtain j k k' where k: "(a, j) \<in> edge entries ^^ k" "(b, j) \<in> edge entries ^^ k'"
    by (auto simp: descendants_def rtrancl_power)
  have "d + k = d + k'" using at_depth_unique [OF assms(1)] at_depth_relpow assms(2,3) k by blast
  then show False using relpow_edge_unique [OF assms(1)] k assms(4) by simp
qed

lemma not_own_descendant:
  assumes "distinct (map de_uuid entries)" "at_depth entries d i" "(i, a) \<in> edge entries"
  shows "i \<notin> descendants entries a"
proof
  assume "i \<in> descendants entries a"
  then obtain k where "(a, i) \<in> edge entries ^^ k" by (auto simp: descendants_def rtrancl_power)
  then have "at_depth entries (Suc d + k) i" by (rule at_depth_relpow [OF at_depth.at_kid [OF assms(2,3)]])
  then show False using at_depth_unique [OF assms(1,2)] by fastforce
qed

lemma descendants_less:
  assumes "i < length entries" "j \<in> descendants entries i"
  shows "j < length entries"
proof -
  have "(i, j) \<in> (edge entries)\<^sup>*" using assms(2) by (simp add: descendants_def)
  then show ?thesis by (cases rule: rtranclE) (use assms(1) in \<open>simp_all add: edge_iff\<close>)
qed

lemma finite_descendants: "i < length entries \<Longrightarrow> finite (descendants entries i)"
  using descendants_less by (metis bounded_nat_set_is_finite)

lemma descendants_unfold:
  assumes "i < length entries"
  shows "descendants entries i =
    insert i (\<Union>a\<in>set (children entries (uuid_of entries i)). descendants entries a)"
proof -
  have "set (children entries (uuid_of entries i)) = {a. (i, a) \<in> edge entries}"
    using assms by (simp add: edge_def)
  moreover have "(i, j) \<in> (edge entries)\<^sup>* \<longleftrightarrow> j = i \<or> (\<exists>a. (i, a) \<in> edge entries \<and> (a, j) \<in> (edge entries)\<^sup>*)" for j
    by (metis converse_rtranclE converse_rtrancl_into_rtrancl rtrancl.rtrancl_refl)
  ultimately show ?thesis by (auto simp: descendants_def)
qed

lemma card_descendants:
  assumes "distinct (map de_uuid entries)" "at_depth entries d i"
  shows "card {j \<in> descendants entries i. P j} =
    (if P i then 1 else 0) +
    (\<Sum>a\<leftarrow>children entries (uuid_of entries i). card {j \<in> descendants entries a. P j})"
proof -
  let ?K = "children entries (uuid_of entries i)"
  let ?D = "\<lambda>a. {j \<in> descendants entries a. P j}"
  have i: "i < length entries" by (rule at_depth_less [OF assms(2)])
  have kid: "(i, a) \<in> edge entries" "at_depth entries (Suc d) a" if "a \<in> set ?K" for a
    using that i at_depth.at_kid [OF assms(2)] by (auto simp: edge_def)
  have fin: "finite (?D a)" if "a \<in> set ?K" for a
    using finite_descendants at_depth_less [OF kid(2) [OF that]] by simp
  have disj: "?D a \<inter> ?D b = {}" if "a \<in> set ?K" "b \<in> set ?K" "a \<noteq> b" for a b
    using descendants_disjoint [OF assms(1) kid(2) [OF that(1)] kid(2) [OF that(2)] that(3)] by blast
  have u: "card (\<Union>a\<in>set ?K. ?D a) = (\<Sum>a\<leftarrow>?K. card (?D a))"
    using fin disj by (simp add: card_UN_disjoint sum_list_distinct_conv_sum_set distinct_children)
  have ni: "i \<notin> (\<Union>a\<in>set ?K. ?D a)" using not_own_descendant [OF assms] kid(1) by auto
  have D: "?D i = (if P i then insert i (\<Union>a\<in>set ?K. ?D a) else (\<Union>a\<in>set ?K. ?D a))"
    unfolding descendants_unfold [OF i] by auto
  have "finite (\<Union>a\<in>set ?K. ?D a)" using fin by blast
  then have "card (insert i (\<Union>a\<in>set ?K. ?D a)) = Suc (card (\<Union>a\<in>set ?K. ?D a))"
    using ni by (intro card_insert_disjoint) blast+
  then have "card (?D i) = (if P i then 1 else 0) + card (\<Union>a\<in>set ?K. ?D a)"
    unfolding D by (cases "P i") simp_all
  then show ?thesis unfolding u .
qed

section \<open>The count of user turns\<close>

abbreviation is_user :: "dagEntry list \<Rightarrow> nat \<Rightarrow> bool" where
  "is_user entries j \<equiv> de_entryType (entries ! j) = ''user''"

definition subtree_users :: "dagEntry list \<Rightarrow> nat \<Rightarrow> nat" where
  "subtree_users entries i = card {j \<in> descendants entries i. is_user entries j}"

lemma count_turns_list:
  assumes "\<And>i st n f. i \<in> set xs \<Longrightarrow>
      count_turns entries (c i + f) (i # st) n = count_turns entries f st (n + t i)"
  shows "count_turns entries (sum_list (map c xs) + f) (xs @ st) n = count_turns entries f st (n + sum_list (map t xs))"
  using assms
proof (induction xs arbitrary: n f)
  case (Cons x xs)
  have "count_turns entries (c x + (sum_list (map c xs) + f)) (x # xs @ st) n =
      count_turns entries (sum_list (map c xs) + f) (xs @ st) (n + t x)"
    by (rule Cons.prems) simp
  then show ?case using Cons by (simp add: ac_simps)
qed simp

lemma count_turns_subtree:
  assumes "distinct (map de_uuid entries)"
  shows "at_depth entries d i \<Longrightarrow> length entries \<le> k + d \<Longrightarrow>
    count_turns entries (card (descendants entries i) + f) (i # st) n =
      count_turns entries f st (n + subtree_users entries i)"
proof (induction k arbitrary: d i f st n)
  case 0
  then show ?case using at_depth_bound [OF assms] by fastforce
next
  case (Suc k)
  let ?K = "children entries (uuid_of entries i)"
  have i: "i < length entries" by (rule at_depth_less [OF Suc.prems(1)])
  have kid: "at_depth entries (Suc d) a" if "a \<in> set ?K" for a
    using at_depth.at_kid [OF Suc.prems(1)] that i by (auto simp: edge_def)
  have ih: "count_turns entries (card (descendants entries a) + f) (a # st) n =
      count_turns entries f st (n + subtree_users entries a)" if "a \<in> set (rev ?K)" for a st n f
    using Suc.IH [OF kid] that Suc.prems(2) by simp
  have size: "card (descendants entries i) = Suc (\<Sum>a\<leftarrow>rev ?K. card (descendants entries a))"
    using card_descendants [OF assms Suc.prems(1), of "\<lambda>_. True"] by (simp add: rev_map [symmetric])
  have users: "subtree_users entries i = (if is_user entries i then 1 else 0) + (\<Sum>a\<leftarrow>rev ?K. subtree_users entries a)"
    using card_descendants [OF assms Suc.prems(1), of "is_user entries"]
    by (simp add: subtree_users_def rev_map [symmetric])
  have "count_turns entries (card (descendants entries i) + f) (i # st) n =
      count_turns entries ((\<Sum>a\<leftarrow>rev ?K. card (descendants entries a)) + f) (rev ?K @ st)
        (n + (if is_user entries i then 1 else 0))"
    unfolding size by simp
  also have "\<dots> = count_turns entries f st (n + (if is_user entries i then 1 else 0) + (\<Sum>a\<leftarrow>rev ?K. subtree_users entries a))"
    by (rule count_turns_list [OF ih])
  finally show ?case unfolding users by (simp only: add.assoc)
qed

lemma countUserTurns_subtree:
  assumes "distinct (map de_uuid entries)" "at_depth entries d i" "length entries \<le> fuel"
  shows "countUserTurns fuel entries i = Some (subtree_users entries i)"
proof -
  have "descendants entries i \<subseteq> {..<length entries}"
    using descendants_less [OF at_depth_less [OF assms(2)]] by blast
  then have "card (descendants entries i) \<le> length entries"
    using card_mono [OF finite_lessThan] by (metis card_lessThan)
  then have "card (descendants entries i) \<le> fuel" using assms(3) by (rule le_trans)
  then obtain f where f: "fuel = card (descendants entries i) + f" using le_Suc_ex by blast
  show ?thesis
    unfolding countUserTurns_def f count_turns_subtree [OF assms(1,2) le_add1] by simp
qed

section \<open>The branches\<close>

text \<open>
  The edges the walk takes: at a small fork only the one to the last child, otherwise every edge.
\<close>

definition kept_edge :: "dagEntry list \<Rightarrow> (nat \<times> nat) set" where
  "kept_edge entries =
     {(i, j). (i, j) \<in> edge entries \<and>
        (let kids = children entries (uuid_of entries i) in
         if 1 < length kids \<and> subtree_users entries (hd kids) \<le> forkThreshold then j = last kids else True)}"

definition kept_from :: "dagEntry list \<Rightarrow> nat \<Rightarrow> nat set" where
  "kept_from entries i = {j. (i, j) \<in> (kept_edge entries)\<^sup>*}"

definition branch_entries :: "nat list \<Rightarrow> branch list \<Rightarrow> nat list" where
  "branch_entries path forks = path @ concat (map fst forks)"

text \<open>A fork leaves from an entry of the branch whose session it names.\<close>

definition fork_owned :: "dagEntry list \<Rightarrow> string \<Rightarrow> nat set \<Rightarrow> string \<Rightarrow> branch list \<Rightarrow> branch \<Rightarrow> bool" where
  "fork_owned entries sessionID path ownerID forks f \<longleftrightarrow>
     fst f \<noteq> [] \<and>
     (\<exists>a. (a, hd (fst f)) \<in> edge entries \<and>
       (a \<in> path \<and> snd f = ownerID \<or>
        (\<exists>g\<in>set forks. a \<in> set (fst g) \<and> snd f = forkSID entries sessionID (hd (fst g)))))"

lemma fork_owned_mono:
  "fork_owned entries sid path ow forks f \<Longrightarrow> path \<subseteq> path' \<Longrightarrow> set forks \<subseteq> set forks' \<Longrightarrow>
    fork_owned entries sid path' ow forks' f"
  unfolding fork_owned_def by blast

lemma kept_from_subset: "kept_from entries i \<subseteq> descendants entries i"
proof -
  have "kept_edge entries \<subseteq> edge entries" by (auto simp: kept_edge_def)
  then show ?thesis unfolding kept_from_def descendants_def by (auto dest: rtrancl_mono)
qed

lemma kept_from_unfold: "kept_from entries i = insert i (\<Union>a\<in>{a. (i, a) \<in> kept_edge entries}. kept_from entries a)"
proof -
  have "(i, j) \<in> (kept_edge entries)\<^sup>* \<longleftrightarrow>
      j = i \<or> (\<exists>a. (i, a) \<in> kept_edge entries \<and> (a, j) \<in> (kept_edge entries)\<^sup>*)" for j
    by (metis converse_rtranclE converse_rtrancl_into_rtrancl rtrancl.rtrancl_refl)
  then show ?thesis by (auto simp: kept_from_def)
qed

lemma fork_kids_total:
  "\<forall>kid\<in>set kids. walk kid (forkSID entries sid kid) \<noteq> None \<Longrightarrow> fork_kids walk entries sid ow kids \<noteq> None"
  by (induction kids) (auto split: option.splits)

text \<open>What holds of a walk from an entry.\<close>

definition walk_spec :: "dagEntry list \<Rightarrow> string \<Rightarrow> nat \<Rightarrow> string \<Rightarrow> nat list \<Rightarrow> branch list \<Rightarrow> bool" where
  "walk_spec entries sid i ow path forks \<longleftrightarrow>
     path \<noteq> [] \<and> hd path = i \<and> distinct (branch_entries path forks) \<and>
     set (branch_entries path forks) = kept_from entries i \<and>
     (\<forall>f\<in>set forks. fork_owned entries sid (set path) ow forks f)"

lemma fork_kids_spec:
  assumes "fork_kids walk entries sid ow kids = Some forks"
    and "\<And>kid path inner. kid \<in> set kids \<Longrightarrow> walk kid (forkSID entries sid kid) = Some (path, inner) \<Longrightarrow>
      walk_spec entries sid kid (forkSID entries sid kid) path inner \<and> (i, kid) \<in> edge entries"
    and "\<And>a b. a \<in> set kids \<Longrightarrow> b \<in> set kids \<Longrightarrow> a \<noteq> b \<Longrightarrow> descendants entries a \<inter> descendants entries b = {}"
    and "distinct kids"
  shows "distinct (concat (map fst forks)) \<and> set (concat (map fst forks)) = (\<Union>a\<in>set kids. kept_from entries a) \<and>
    (\<forall>f\<in>set forks. fork_owned entries sid {i} ow forks f)"
  using assms
proof (induction kids arbitrary: forks)
  case (Cons kid kids)
  obtain path inner where w: "walk kid (forkSID entries sid kid) = Some (path, inner)"
    using Cons.prems(1) by (auto split: option.splits)
  then obtain rest where rest: "fork_kids walk entries sid ow kids = Some rest"
    and forks: "forks = inner @ (path, ow) # rest"
    using Cons.prems(1) by auto
  have spec: "walk_spec entries sid kid (forkSID entries sid kid) path inner" "(i, kid) \<in> edge entries"
    using Cons.prems(2) [OF _ w] by simp_all
  have ih: "distinct (concat (map fst rest))" "set (concat (map fst rest)) = (\<Union>a\<in>set kids. kept_from entries a)"
    "\<forall>f\<in>set rest. fork_owned entries sid {i} ow rest f"
    using Cons.IH [OF rest Cons.prems(2,3)] Cons.prems(4) by simp_all
  have perm: "set (concat (map fst forks)) = set (branch_entries path inner) \<union> set (concat (map fst rest))"
    unfolding forks branch_entries_def by auto
  have "kept_from entries kid \<inter> kept_from entries a = {}" if "a \<in> set kids" for a
    using Cons.prems(3) [of kid a] Cons.prems(4) that kept_from_subset [of entries kid] kept_from_subset [of entries a]
    by fastforce
  then have disj: "set (branch_entries path inner) \<inter> set (concat (map fst rest)) = {}"
    using spec(1) ih(2) by (auto simp: walk_spec_def)
  have dist: "distinct (concat (map fst forks))"
    using spec(1) ih(1) disj unfolding forks walk_spec_def branch_entries_def by auto
  have own: "fork_owned entries sid {i} ow forks f" if "f \<in> set forks" for f
  proof -
    have "f \<in> set inner \<or> f = (path, ow) \<or> f \<in> set rest" using that unfolding forks by auto
    then consider "f \<in> set inner" | "f = (path, ow)" | "f \<in> set rest" by blast
    then show ?thesis
    proof cases
      case 1
      then have own: "fork_owned entries sid (set path) (forkSID entries sid kid) inner f" using spec(1) by (simp add: walk_spec_def)
      have mem: "(path, ow) \<in> set forks" "set inner \<subseteq> set forks" and hd: "hd path = kid"
        using forks spec(1) by (auto simp: walk_spec_def)
      from own obtain a where a: "(a, hd (fst f)) \<in> edge entries"
        "a \<in> set path \<and> snd f = forkSID entries sid kid \<or>
         (\<exists>g\<in>set inner. a \<in> set (fst g) \<and> snd f = forkSID entries sid (hd (fst g)))"
        unfolding fork_owned_def by blast
      have "\<exists>g\<in>set forks. a \<in> set (fst g) \<and> snd f = forkSID entries sid (hd (fst g))"
        using a(2)
      proof
        assume "a \<in> set path \<and> snd f = forkSID entries sid kid"
        then show ?thesis using mem(1) hd by (intro bexI [of _ "(path, ow)"]) simp_all
      qed (use mem(2) in blast)
      then show ?thesis using own a(1) unfolding fork_owned_def by blast
    next
      case 2
      then have "fst f \<noteq> []" "hd (fst f) = kid" "snd f = ow" using spec(1) by (simp_all add: walk_spec_def)
      then show ?thesis using spec(2) unfolding fork_owned_def by blast
    next
      case 3
      then show ?thesis using ih(3) fork_owned_mono [of entries sid "{i}" ow rest f "{i}" forks] forks by auto
    qed
  qed
  show ?case using dist own perm ih(2) spec(1) by (auto simp: walk_spec_def)
qed simp

lemma on_path_Some:
  "on_path i forks r = Some (path, fs) \<longleftrightarrow>
    (\<exists>path' fs'. r = Some (path', fs') \<and> path = i # path' \<and> fs = forks @ fs')"
  by (cases r) (auto simp: on_path_def)

text \<open>One step down the path, with the forks that leave from it.\<close>

lemma walk_spec_step:
  assumes "distinct (map de_uuid entries)" "at_depth entries d i"
    and "walk_spec entries sid kid ow path fs" "(i, kid) \<in> kept_edge entries"
    and "kid \<notin> set kids" "distinct (concat (map fst forks))"
    and "set (concat (map fst forks)) = (\<Union>a\<in>set kids. kept_from entries a)"
    and "\<forall>f\<in>set forks. fork_owned entries sid {i} ow forks f"
    and "{a. (i, a) \<in> kept_edge entries} = insert kid (set kids)"
  shows "walk_spec entries sid i ow (i # path) (forks @ fs)"
proof -
  have edges: "(i, a) \<in> edge entries" if "a \<in> insert kid (set kids)" for a
    using that assms(9) by (auto simp: kept_edge_def)
  have nself: "i \<notin> kept_from entries a" if "a \<in> insert kid (set kids)" for a
    using not_own_descendant [OF assms(1,2) edges [OF that]] kept_from_subset by blast
  have disj: "kept_from entries kid \<inter> kept_from entries a = {}" if "a \<in> set kids" for a
    using descendants_disjoint [OF assms(1) at_depth.at_kid [OF assms(2) edges] at_depth.at_kid [OF assms(2) edges], of kid a]
      that assms(5) kept_from_subset by (metis disjoint_iff insertCI subsetD)
  have parts: "set path \<union> set (concat (map fst fs)) = kept_from entries kid" "distinct (branch_entries path fs)"
    using assms(3) by (simp_all add: walk_spec_def branch_entries_def)
  let ?rest = "set (branch_entries path fs)"
  have rest: "?rest = kept_from entries kid" using parts(1) by (simp add: branch_entries_def)
  have "i \<notin> ?rest" "i \<notin> set (concat (map fst forks))" "?rest \<inter> set (concat (map fst forks)) = {}"
    unfolding rest assms(7) using nself disj by blast+
  moreover have "mset (branch_entries (i # path) (forks @ fs)) = mset (i # concat (map fst forks) @ branch_entries path fs)"
    by (simp add: branch_entries_def)
  then have "distinct (branch_entries (i # path) (forks @ fs)) \<longleftrightarrow>
      distinct (i # concat (map fst forks) @ branch_entries path fs)"
    by (rule mset_eq_imp_distinct_iff)
  ultimately have dist: "distinct (branch_entries (i # path) (forks @ fs))"
    using parts(2) assms(6) by (simp only: distinct.simps distinct_append set_append) blast
  have "set (branch_entries (i # path) (forks @ fs)) = insert i (?rest \<union> set (concat (map fst forks)))"
    unfolding branch_entries_def by auto
  then have cover: "set (branch_entries (i # path) (forks @ fs)) = kept_from entries i"
    unfolding kept_from_unfold [of entries i] assms(9) rest assms(7) by simp
  have "fork_owned entries sid (set (i # path)) ow (forks @ fs) f" if "f \<in> set (forks @ fs)" for f
  proof -
    have "f \<in> set forks \<or> f \<in> set fs" using that by simp
    then show ?thesis
    proof
      assume "f \<in> set forks"
      then have "fork_owned entries sid {i} ow forks f" using assms(8) by blast
      then show ?thesis by (rule fork_owned_mono) auto
    next
      assume "f \<in> set fs"
      then have "fork_owned entries sid (set path) ow fs f" using assms(3) by (simp add: walk_spec_def)
      then show ?thesis by (rule fork_owned_mono) auto
    qed
  qed
  then show ?thesis using dist cover by (simp add: walk_spec_def)
qed

lemma walkBranch_spec:
  assumes "distinct (map de_uuid entries)"
    and "\<And>d j. at_depth entries d j \<Longrightarrow> turns j = Some (subtree_users entries j)"
  shows "at_depth entries d i \<Longrightarrow> walkBranch turns entries sid k i ow = Some (path, forks) \<Longrightarrow>
    walk_spec entries sid i ow path forks"
proof (induction k arbitrary: d i ow path forks)
  case (Suc k)
  let ?K = "children entries (uuid_of entries i)"
  let ?w = "walkBranch turns entries sid k"
  have i: "i < length entries" by (rule at_depth_less [OF Suc.prems(1)])
  have edge: "(i, a) \<in> edge entries \<longleftrightarrow> a \<in> set ?K" for a using i by (simp add: edge_def)
  have kept_K: "{a. (i, a) \<in> kept_edge entries} =
      (if 1 < length ?K \<and> subtree_users entries (hd ?K) \<le> forkThreshold then {last ?K} else set ?K)"
  proof (cases "1 < length ?K \<and> subtree_users entries (hd ?K) \<le> forkThreshold")
    case True
    then have "last ?K \<in> set ?K" by (intro last_in_set) auto
    then show ?thesis using True edge by (simp add: kept_edge_def) blast
  next
    case False
    then have "(i, a) \<in> kept_edge entries \<longleftrightarrow> a \<in> set ?K" for a
      unfolding kept_edge_def Let_def by (simp only: if_False mem_Collect_eq prod.case edge simp_thms)
    then show ?thesis unfolding if_not_P [OF False] by blast
  qed
  have deep: "at_depth entries (Suc d) a" if "a \<in> set ?K" for a
    using at_depth.at_kid [OF Suc.prems(1)] edge that by blast
  have ih: "walk_spec entries sid a ow p fs" if "a \<in> set ?K" "?w a ow = Some (p, fs)" for a ow p fs
    using Suc.IH [OF deep] that by blast
  have single: "walk_spec entries sid i ow path forks"
    if on: "on_path i [] (?w kid ow) = Some (path, forks)" and kid: "kid \<in> set ?K"
      and kept: "{a. (i, a) \<in> kept_edge entries} = {kid}" for kid
  proof -
    obtain path' where p: "?w kid ow = Some (path', forks)" "path = i # path'" using on by (auto simp: on_path_Some)
    have "walk_spec entries sid i ow (i # path') ([] @ forks)"
      using kept by (intro walk_spec_step [OF assms(1) Suc.prems(1) ih [OF kid p(1)], of "[]"]) auto
    then show ?thesis using p(2) by simp
  qed
  consider "?K = []" | kid where "?K = [kid]" | kid kids where "?K = kid # kids" "kids \<noteq> []"
    by (metis neq_Nil_conv)
  then show ?case
  proof cases
    case 1
    then have "{a. (i, a) \<in> kept_edge entries} = {}" unfolding kept_K by simp
    then have "kept_from entries i = {i}" by (subst kept_from_unfold) simp
    moreover have "path = [i]" "forks = []" using 1 Suc.prems(2) by simp_all
    ultimately show ?thesis by (simp add: walk_spec_def branch_entries_def)
  next
    case (2 kid)
    then have "{a. (i, a) \<in> kept_edge entries} = {kid}" unfolding kept_K by simp
    then show ?thesis using single [of kid] Suc.prems(2) 2 by simp
  next
    case (3 kid kids)
    have t: "turns kid = Some (subtree_users entries kid)" by (rule assms(2) [OF deep]) (simp add: 3(1))
    obtain k2 ks where ks: "kids = k2 # ks" using 3(2) by (metis neq_Nil_conv)
    show ?thesis
    proof (cases "subtree_users entries kid \<le> forkThreshold")
      case True
      then have "{a. (i, a) \<in> kept_edge entries} = {last kids}"
        unfolding kept_K using 3 ks by simp
      moreover have "on_path i [] (?w (last kids) ow) = Some (path, forks)"
        using Suc.prems(2) 3 t True ks by simp
      ultimately show ?thesis using single [of "last kids"] 3 by simp
    next
      case False
      then obtain F path' fs where F: "fork_kids ?w entries sid ow kids = Some F" "?w kid ow = Some (path', fs)"
        and out: "path = i # path'" "forks = F @ fs"
        using Suc.prems(2) 3 t ks by (auto simp: on_path_Some split: option.splits)
      have kept: "{a. (i, a) \<in> kept_edge entries} = insert kid (set kids)"
        unfolding kept_K using 3 False by simp
      have dk: "kid \<notin> set kids" "distinct kids" using distinct_children [of entries "uuid_of entries i"] 3(1) by simp_all
      have "descendants entries a \<inter> descendants entries b = {}" if "a \<in> set kids" "b \<in> set kids" "a \<noteq> b" for a b
        using descendants_disjoint [OF assms(1) deep deep] that 3(1) by simp
      then have "distinct (concat (map fst F)) \<and> set (concat (map fst F)) = (\<Union>a\<in>set kids. kept_from entries a) \<and>
          (\<forall>f\<in>set F. fork_owned entries sid {i} ow F f)"
        using ih edge 3(1) by (intro fork_kids_spec [OF F(1)]) (auto simp: dk)
      moreover have "walk_spec entries sid kid ow path' fs" using ih F(2) 3(1) by simp
      moreover have "(i, kid) \<in> kept_edge entries" using kept by blast
      ultimately show ?thesis
        unfolding out by (intro walk_spec_step [OF assms(1) Suc.prems(1) _ _ dk(1) _ _ _ kept]) blast+
    qed
  qed
qed simp

section \<open>Termination\<close>

lemma walkBranch_total:
  assumes "distinct (map de_uuid entries)" and "\<And>d j. at_depth entries d j \<Longrightarrow> turns j \<noteq> None"
  shows "at_depth entries d i \<Longrightarrow> length entries \<le> k + d \<Longrightarrow> walkBranch turns entries sid k i ow \<noteq> None"
proof (induction k arbitrary: d i ow)
  case 0
  then show ?case using at_depth_bound [OF assms(1)] by fastforce
next
  case (Suc k)
  let ?K = "children entries (uuid_of entries i)"
  let ?w = "walkBranch turns entries sid k"
  have deep: "at_depth entries (Suc d) a" if "a \<in> set ?K" for a
    using at_depth.at_kid [OF Suc.prems(1)] at_depth_less [OF Suc.prems(1)] that by (simp add: edge_def)
  have ih: "?w a ow \<noteq> None" if "a \<in> set ?K" for a ow
    using Suc.IH [OF deep [OF that]] Suc.prems(2) by simp
  consider "?K = []" | kid where "?K = [kid]" | kid k2 ks where "?K = kid # k2 # ks"
    by (metis neq_Nil_conv)
  then show ?case
  proof cases
    case (2 kid)
    then show ?thesis using ih by (simp add: on_path_def)
  next
    case (3 kid k2 ks)
    have "turns kid \<noteq> None" by (rule assms(2) [OF deep]) (simp add: 3)
    moreover have "fork_kids ?w entries sid ow (k2 # ks) \<noteq> None"
      by (rule fork_kids_total) (use ih 3 in simp)
    moreover have "?w (last (k2 # ks)) ow \<noteq> None" "?w kid ow \<noteq> None" using ih 3 by (metis last_in_set list.distinct(1) list.set_intros)+
    ultimately show ?thesis using 3 by (auto simp: on_path_def simp del: fork_kids.simps)
  qed simp
qed

lemma root_at_depth: "length (roots entries) = 1 \<Longrightarrow> at_depth entries 0 (hd (roots entries))"
proof -
  assume "length (roots entries) = 1"
  then have "hd (roots entries) \<in> set (roots entries)" by (intro hd_in_set) auto
  then show ?thesis by (intro at_depth.at_root) (auto simp: roots_def)
qed

lemma dagBranches_total:
  assumes "dag_ok entries" "length entries \<le> fuel"
  shows "dagBranches fuel entries sid psid \<noteq> None"
proof -
  have "countUserTurns fuel entries j \<noteq> None" if "at_depth entries d j" for d j
    using countUserTurns_subtree [OF _ that assms(2)] assms(1) by (simp add: dag_ok_def)
  then have "walkBranch (countUserTurns fuel entries) entries sid fuel (hd (roots entries)) sid \<noteq> None"
    using assms by (intro walkBranch_total [OF _ _ root_at_depth]) (auto simp: dag_ok_def)
  then show ?thesis by (simp add: dagBranches_def)
qed

lemma dagBranches_spec:
  assumes "dag_ok entries" "length entries \<le> fuel" "dagBranches fuel entries sid psid = Some branches"
  obtains path forks where "branches = (path, psid) # forks" "walk_spec entries sid (hd (roots entries)) sid path forks"
proof -
  have "countUserTurns fuel entries j = Some (subtree_users entries j)" if "at_depth entries d j" for d j
    using countUserTurns_subtree [OF _ that assms(2)] assms(1) by (simp add: dag_ok_def)
  moreover obtain path forks where
    "walkBranch (countUserTurns fuel entries) entries sid fuel (hd (roots entries)) sid = Some (path, forks)"
    "branches = (path, psid) # forks"
    using assms(3) by (auto simp: dagBranches_def)
  ultimately show ?thesis
    using that walkBranch_spec [OF _ _ root_at_depth] assms(1) unfolding dag_ok_def by metis
qed

text \<open>The session of the branch: forks are named after their first entry.\<close>

definition branch_session :: "dagEntry list \<Rightarrow> string \<Rightarrow> nat \<Rightarrow> branch \<Rightarrow> string" where
  "branch_session entries sessionID k b =
     (if k = 0 then sessionID else forkSID entries sessionID (hd (fst b)))"

text \<open>No fork was small: the first of several children always has more than three turns.\<close>

definition no_small_fork :: "dagEntry list \<Rightarrow> bool" where
  "no_small_fork entries \<longleftrightarrow>
     (\<forall>i<length entries. case children entries (uuid_of entries i) of
        kid # _ # _ \<Rightarrow> subtree_users entries kid > forkThreshold | _ \<Rightarrow> True)"

text \<open>As a log is written: every parent comes before its children.\<close>

definition parents_first :: "dagEntry list \<Rightarrow> bool" where
  "parents_first entries \<longleftrightarrow>
     list_all (\<lambda>i. de_parentUuid (entries ! i) = [] \<or>
       de_parentUuid (entries ! i) \<in> set (map (uuid_of entries) [0..<i])) [0..<length entries]"

lemma parents_first_reachable:
  assumes "length (roots entries) = 1" "parents_first entries"
  shows "i < length entries \<Longrightarrow> i \<in> descendants entries (hd (roots entries))"
proof (induction i rule: less_induct)
  case (less i)
  show ?case
  proof (cases "de_parentUuid (entries ! i) = []")
    case True
    then have "i \<in> set (roots entries)" using less.prems by (simp add: roots_def)
    then have "hd (roots entries) = i" using assms(1) by (cases "roots entries") auto
    then show ?thesis by (simp add: descendants_def)
  next
    case False
    have "i \<in> set [0..<length entries]" using less.prems by simp
    then have "de_parentUuid (entries ! i) \<in> set (map (uuid_of entries) [0..<i])"
      using assms(2) False unfolding parents_first_def list_all_iff by blast
    then obtain j where j: "j < i" "de_parentUuid (entries ! i) = uuid_of entries j" by auto
    then have "(j, i) \<in> edge entries" using False less.prems by (simp add: edge_iff)
    moreover have "j \<in> descendants entries (hd (roots entries))" using less j(1) by simp
    ultimately show ?thesis by (simp add: descendants_def)
  qed
qed

lemma no_small_fork_kept: "no_small_fork entries \<Longrightarrow> kept_edge entries = edge entries"
proof -
  assume *: "no_small_fork entries"
  have big: "\<not> subtree_users entries (hd K) \<le> forkThreshold"
    if "1 < length K" "K = children entries (uuid_of entries i)" "i < length entries" for i K
  proof -
    have "Suc (Suc 0) \<le> length K" using that(1) by simp
    then obtain a b ks where K: "K = a # b # ks" by (auto simp: Suc_le_length_iff)
    have "case children entries (uuid_of entries i) of
        kid # _ # _ \<Rightarrow> subtree_users entries kid > forkThreshold | _ \<Rightarrow> True"
      using * that(3) unfolding no_small_fork_def by blast
    then show ?thesis unfolding that(2) [symmetric] K by simp
  qed
  have "(i, j) \<in> kept_edge entries \<longleftrightarrow> (i, j) \<in> edge entries" for i j
    using big [OF _ refl, of i] by (auto simp: kept_edge_def edge_def Let_def)
  then show ?thesis by auto
qed

section \<open>Properties\<close>

text \<open>
  C16. Counting the turns of a fork is exact and returns: with distinct uuids and one root, the stack loop
  visits every entry of the subtree once and counts its user entries.
\<close>

theorem countUserTurns_exact:
  assumes "dag_ok entries" "i \<in> descendants entries (hd (roots entries))" "length entries \<le> fuel"
  shows "countUserTurns fuel entries i =
    Some (card {j \<in> descendants entries i. de_entryType (entries ! j) = ''user''})"
proof -
  obtain k where "(hd (roots entries), i) \<in> edge entries ^^ k"
    using assms(2) by (auto simp: descendants_def rtrancl_power)
  moreover have "length (roots entries) = 1" using assms(1) by (simp add: dag_ok_def)
  ultimately have "at_depth entries (0 + k) i" using at_depth_relpow [OF root_at_depth] by blast
  then show ?thesis using countUserTurns_subtree assms(1,3) by (auto simp: dag_ok_def subtree_users_def)
qed

definition demo_entry :: "string \<Rightarrow> string \<Rightarrow> string \<Rightarrow> dagEntry" where
  "demo_entry uuid parent ty = \<lparr>de_uuid = uuid, de_parentUuid = parent, de_entryType = ty, de_line = GMissing, de_timestamp = 0\<rparr>"

text \<open>A question, a first answer that went on for four turns, and a second attempt.\<close>

definition demo_fork :: "dagEntry list" where
  "demo_fork =
     [demo_entry ''r'' [] ''user'', demo_entry ''a'' ''r'' ''user'', demo_entry ''b'' ''a'' ''user'',
      demo_entry ''c'' ''b'' ''user'', demo_entry ''d'' ''c'' ''user'', demo_entry ''e'' ''r'' ''user'']"

lemma demo_fork_ok: "dag_ok demo_fork" "length demo_fork \<le> 6" "length (roots demo_fork) = 1" "parents_first demo_fork"
  by code_simp+

lemma demo_fork_branches:
  "dagBranches 6 demo_fork ''s'' [] = Some [([0, 1, 2, 3, 4], []), ([5], ''s'')]"
  by code_simp

theorem countUserTurns_exact_witness:
  "card {j \<in> descendants demo_fork 1. de_entryType (demo_fork ! j) = ''user''} = 4"
proof -
  have "countUserTurns 6 demo_fork 1 = Some 4" by code_simp
  moreover have "countUserTurns 6 demo_fork 1 = Some (card {j \<in> descendants demo_fork 1. de_entryType (demo_fork ! j) = ''user''})"
    by (rule countUserTurns_exact [OF demo_fork_ok(1) _ demo_fork_ok(2)])
      (rule parents_first_reachable [OF demo_fork_ok(3,4)], simp add: demo_fork_def)
  ultimately show ?thesis by simp
qed

text \<open>
  C14. The walk returns on every transcript whose uuids are distinct and that has one root, also when
  other parts of it are cyclic; the number of entries is fuel enough.
\<close>

theorem dagBranches_returns:
  assumes "dag_ok entries" "length entries \<le> fuel"
  shows "\<exists>branches. dagBranches fuel entries sessionID parentSessionID = Some branches"
  using dagBranches_total [OF assms] by blast

theorem dagBranches_returns_witness:
  "\<exists>branches. dagBranches 6 demo_fork ''s'' [] = Some branches"
  by (rule dagBranches_returns [OF demo_fork_ok(1,2)])

text \<open>
  C15. No entry is stored twice, and the entries that are stored are exactly those the walk can reach
  without taking an older attempt at a small fork.
\<close>

theorem dagBranches_partition:
  assumes "dag_ok entries" "length entries \<le> fuel"
    and "dagBranches fuel entries sessionID parentSessionID = Some branches"
  shows "distinct (concat (map fst branches)) \<and>
    set (concat (map fst branches)) = {j. (hd (roots entries), j) \<in> (kept_edge entries)\<^sup>*}"
proof -
  obtain path forks where "branches = (path, parentSessionID) # forks"
    "walk_spec entries sessionID (hd (roots entries)) sessionID path forks"
    using dagBranches_spec [OF assms] .
  then show ?thesis by (simp add: walk_spec_def branch_entries_def kept_from_def)
qed

theorem dagBranches_partition_witness:
  "{j. (hd (roots demo_fork), j) \<in> (kept_edge demo_fork)\<^sup>*} = {0, 1, 2, 3, 4, 5}"
  using dagBranches_partition [OF demo_fork_ok(1,2) demo_fork_branches] by auto

text \<open>
  C18. Nothing is lost without a small fork: of a log whose parents come first and whose forks all went on for
  more than three turns, every entry is in exactly one branch.
\<close>

theorem dagBranches_lossless:
  assumes "dag_ok entries" "length entries \<le> fuel" "parents_first entries" "no_small_fork entries"
    and "dagBranches fuel entries sessionID parentSessionID = Some branches"
  shows "mset (concat (map fst branches)) = mset [0..<length entries]"
proof -
  obtain path forks where b: "branches = (path, parentSessionID) # forks"
    and spec: "walk_spec entries sessionID (hd (roots entries)) sessionID path forks"
    using dagBranches_spec [OF assms(1,2,5)] .
  have one: "length (roots entries) = 1" using assms(1) by (simp add: dag_ok_def)
  have root: "hd (roots entries) < length entries" by (rule at_depth_less [OF root_at_depth [OF one]])
  have "kept_from entries (hd (roots entries)) = descendants entries (hd (roots entries))"
    by (simp add: kept_from_def descendants_def no_small_fork_kept [OF assms(4)])
  also have "\<dots> = {..<length entries}"
    using parents_first_reachable [OF one assms(3)] descendants_less [OF root] by auto
  finally have "set (branch_entries path forks) = set [0..<length entries]" using spec by (auto simp: walk_spec_def)
  moreover have "distinct (branch_entries path forks)" using spec by (simp add: walk_spec_def)
  ultimately have "mset (branch_entries path forks) = mset [0..<length entries]"
    by (metis distinct_upt set_eq_iff_mset_eq_distinct)
  then show ?thesis by (simp add: b branch_entries_def)
qed

theorem dagBranches_lossless_witness:
  "mset (concat (map fst [([0, 1, 2, 3, 4], [] :: string), ([5], ''s'')])) = mset [0..<length demo_fork]"
proof (rule dagBranches_lossless [OF demo_fork_ok(1,2,4) _ demo_fork_branches])
  have "subtree_users demo_fork 1 = 4"
  proof -
    have "countUserTurns 6 demo_fork 1 = Some (subtree_users demo_fork 1)"
      by (rule countUserTurns_subtree [OF _ at_depth.at_kid [OF root_at_depth [OF demo_fork_ok(3)]] demo_fork_ok(2)])
        (simp_all add: demo_fork_def demo_entry_def edge_iff uuid_of_def roots_def upt_rec)
    moreover have "countUserTurns 6 demo_fork 1 = Some 4" by code_simp
    ultimately show ?thesis by simp
  qed
  moreover have "children demo_fork (uuid_of demo_fork 0) = [1, 5]" "children demo_fork (uuid_of demo_fork 1) = [2]"
    "children demo_fork (uuid_of demo_fork 2) = [3]" "children demo_fork (uuid_of demo_fork 3) = [4]"
    "children demo_fork (uuid_of demo_fork 4) = []" "children demo_fork (uuid_of demo_fork 5) = []"
    by code_simp+
  moreover have "length demo_fork = 6" by code_simp
  ultimately show "no_small_fork demo_fork"
    unfolding no_small_fork_def by (auto simp: less_Suc_eq numeral_eq_Suc forkThreshold_def)
qed

text \<open>
  C17. The sessions of a transcript form a tree: a fork names as its parent the session that holds the entry
  it forked from, the main session or another fork.
\<close>

theorem fork_parents:
  assumes "dag_ok entries" "length entries \<le> fuel"
    and "dagBranches fuel entries sessionID parentSessionID = Some branches" "0 < k" "k < length branches"
  shows "\<exists>a l. (a, hd (fst (branches ! k))) \<in> edge entries \<and> l < length branches \<and>
    a \<in> set (fst (branches ! l)) \<and> snd (branches ! k) = branch_session entries sessionID l (branches ! l)"
proof -
  obtain path forks where b: "branches = (path, parentSessionID) # forks"
    and spec: "walk_spec entries sessionID (hd (roots entries)) sessionID path forks"
    using dagBranches_spec [OF assms(1-3)] .
  have "branches ! k \<in> set forks" using assms(4,5) by (cases k) (simp_all add: b)
  then have "fork_owned entries sessionID (set path) sessionID forks (branches ! k)" using spec by (simp add: walk_spec_def)
  then obtain a where a: "(a, hd (fst (branches ! k))) \<in> edge entries"
    and cases: "a \<in> set path \<and> snd (branches ! k) = sessionID \<or>
      (\<exists>g\<in>set forks. a \<in> set (fst g) \<and> snd (branches ! k) = forkSID entries sessionID (hd (fst g)))"
    unfolding fork_owned_def by blast
  from cases show ?thesis
  proof
    assume "a \<in> set path \<and> snd (branches ! k) = sessionID"
    then show ?thesis using a by (intro exI [of _ a] exI [of _ 0]) (simp add: b branch_session_def)
  next
    assume "\<exists>g\<in>set forks. a \<in> set (fst g) \<and> snd (branches ! k) = forkSID entries sessionID (hd (fst g))"
    then obtain l where "l < length forks" "a \<in> set (fst (forks ! l))"
      "snd (branches ! k) = forkSID entries sessionID (hd (fst (forks ! l)))" by (metis in_set_conv_nth)
    then show ?thesis using a by (intro exI [of _ a] exI [of _ "Suc l"]) (simp add: b branch_session_def)
  qed
qed

theorem fork_parents_witness:
  "\<exists>a l. (a, hd (fst (the (dagBranches 6 demo_fork ''s'' []) ! 1))) \<in> edge demo_fork \<and>
    l < length (the (dagBranches 6 demo_fork ''s'' [])) \<and> a \<in> set (fst (the (dagBranches 6 demo_fork ''s'' []) ! l)) \<and>
    snd (the (dagBranches 6 demo_fork ''s'' []) ! 1) =
      branch_session demo_fork ''s'' l (the (dagBranches 6 demo_fork ''s'' []) ! l)"
  by (rule fork_parents [OF demo_fork_ok(1,2), where parentSessionID = "[]"]) (simp_all add: demo_fork_branches)

definition demo_loop :: "dagEntry list" where
  "demo_loop = [demo_entry ''r'' [] ''user'', demo_entry ''r'' ''r'' ''assistant'']"

lemma demo_loop_children: "children demo_loop (uuid_of demo_loop 0) = [1]" "children demo_loop (uuid_of demo_loop 1) = [1]"
  by code_simp+

lemma demo_loop_walk: "walkBranch turns demo_loop sid fuel 1 ow = None"
proof (induction fuel)
  case (Suc fuel)
  then show ?case using demo_loop_children(2) by (simp add: on_path_def)
qed simp

text \<open>
  C19. Equal uuids can make the walk run forever: an entry that repeats the root's uuid and names it as its
  parent passes the guard, and no amount of fuel is enough.
\<close>

theorem duplicate_uuid_diverges:
  "wellFormedDAG demo_loop \<and> dagBranches fuel demo_loop sessionID parentSessionID = None"
proof
  show "wellFormedDAG demo_loop" by code_simp
  have "hd (roots demo_loop) = 0" by code_simp
  then show "dagBranches fuel demo_loop sessionID parentSessionID = None"
    by (cases fuel) (simp_all add: dagBranches_def demo_loop_children demo_loop_walk [unfolded One_nat_def] on_path_def)
qed

definition demo_middle :: "dagEntry list" where
  "demo_middle =
     [demo_entry ''r'' [] ''user'', demo_entry ''a'' ''r'' ''user'', demo_entry ''b'' ''r'' ''user'',
      demo_entry ''c'' ''b'' ''user'', demo_entry ''d'' ''c'' ''user'', demo_entry ''e'' ''d'' ''user'',
      demo_entry ''f'' ''r'' ''user'']"

text \<open>
  Only the first attempt is measured: when it was short, every attempt between it and the newest is dropped,
  however many turns it has, and is in no session.
\<close>

theorem middle_attempt_dropped:
  "dag_ok demo_middle \<and> wellFormedDAG demo_middle \<and> countUserTurns 7 demo_middle 2 = Some 4 \<and>
   dagBranches 7 demo_middle ''s'' [] = Some [([0, 6], [])]"
  by code_simp

end
