(* ===== verification/Claude_Session.thy ===== *)
theory Claude_Session
  imports Line_Reader Termination_Status Claude_Dag Claude_Chunks
begin

text \<open>
  A Claude Code transcript as sessions (\<open>internal/parser/claude.go\<close>, session types in \<open>types.go\<close>): the scan of
  the lines, the linear and the tree reading, queued commands, termination status and the probes that are
  left out, and the incremental reading of appended lines. What the code takes from libraries is in
  \<open>Parser\<close>: gjson's validity test and reader, the time layouts, letters and digits, the inference of
  skill names, and the rewriting of a line's content.
\<close>

section \<open>Types\<close>

record Parser =
  pz_valid :: "string \<Rightarrow> bool"
  pz_parse :: "string \<Rightarrow> gresult"
  pz_time :: "string \<Rightarrow> time"
  pz_word :: "string \<Rightarrow> bool"
  pz_infer :: "string \<Rightarrow> string \<Rightarrow> string"
  pz_replace :: "gresult \<Rightarrow> gresult list \<Rightarrow> gresult option"

record FileInfo =
  fi_Path :: string
  fi_Size :: int
  fi_Mtime :: int

record ParsedSession =
  ps_ID :: string
  ps_Project :: string
  ps_Machine :: string
  ps_Agent :: string
  ps_ParentSessionID :: string
  ps_RelationshipType :: string
  ps_Cwd :: string
  ps_GitBranch :: string
  ps_SourceSessionID :: string
  ps_SourceVersion :: string
  ps_MalformedLines :: nat
  ps_IsTruncated :: bool
  ps_FirstMessage :: string
  ps_SessionName :: string
  ps_StartedAt :: time
  ps_EndedAt :: time
  ps_MessageCount :: nat
  ps_UserMessageCount :: nat
  ps_File :: FileInfo
  ps_TerminationStatus :: string
  ps_TotalOutputTokens :: int
  ps_PeakContextTokens :: int
  ps_HasTotalOutputTokens :: bool
  ps_HasPeakContextTokens :: bool
  ps_aggregateTokenPresenceKnown :: bool
  ps_AggregateTokenSource :: string

record ParseResult =
  pr_Session :: ParsedSession
  pr_Messages :: "ParsedMessage list"

record claudeSessionMeta =
  cm_sourceSessionID :: string
  cm_sourceVersion :: string
  cm_cwd :: string
  cm_gitBranch :: string
  cm_displayName :: string
  cm_malformedLines :: nat
  cm_isTruncated :: bool

definition RelNone :: string where "RelNone = []"
definition RelContinuation :: string where "RelContinuation = ''continuation''"
definition RelSubagent :: string where "RelSubagent = ''subagent''"
definition RelFork :: string where "RelFork = ''fork''"

definition zero_session :: ParsedSession where
  "zero_session = \<lparr>ps_ID = [], ps_Project = [], ps_Machine = [], ps_Agent = [], ps_ParentSessionID = [],
     ps_RelationshipType = RelNone, ps_Cwd = [], ps_GitBranch = [], ps_SourceSessionID = [], ps_SourceVersion = [],
     ps_MalformedLines = 0, ps_IsTruncated = False, ps_FirstMessage = [], ps_SessionName = [], ps_StartedAt = 0,
     ps_EndedAt = 0, ps_MessageCount = 0, ps_UserMessageCount = 0,
     ps_File = \<lparr>fi_Path = [], fi_Size = 0, fi_Mtime = 0\<rparr>, ps_TerminationStatus = [], ps_TotalOutputTokens = 0,
     ps_PeakContextTokens = 0, ps_HasTotalOutputTokens = False, ps_HasPeakContextTokens = False,
     ps_aggregateTokenPresenceKnown = False, ps_AggregateTokenSource = []\<rparr>"

section \<open>Token totals\<close>

fun accumulate_step :: "ParsedMessage \<Rightarrow> ParsedSession \<Rightarrow> ParsedSession" where
  "accumulate_step m sess =
     (let sess = (if ms_HasOutputTokens m then sess\<lparr>ps_HasTotalOutputTokens := True,
                    ps_TotalOutputTokens := ps_TotalOutputTokens sess + ms_OutputTokens m\<rparr> else sess)
      in if ms_HasContextTokens m then sess\<lparr>ps_HasPeakContextTokens := True,
           ps_PeakContextTokens := (if ms_ContextTokens m > ps_PeakContextTokens sess then ms_ContextTokens m
                                    else ps_PeakContextTokens sess)\<rparr>
         else sess)"

definition accumulateMessageTokenUsage :: "ParsedSession \<Rightarrow> ParsedMessage list \<Rightarrow> ParsedSession" where
  "accumulateMessageTokenUsage sess messages =
     fold accumulate_step messages
       (sess\<lparr>ps_aggregateTokenPresenceKnown := True, ps_AggregateTokenSource := ''messages''\<rparr>)"

definition InferRelationshipType :: "ParseResult \<Rightarrow> ParseResult" where
  "InferRelationshipType r =
     (let s = pr_Session r in
      if ps_ParentSessionID s = [] then r
      else if ps_RelationshipType s \<noteq> RelNone then r
      else r\<lparr>pr_Session := s\<lparr>ps_RelationshipType :=
             (if has_prefix (ps_ID s) ''agent-'' then RelSubagent else RelContinuation)\<rparr>\<rparr>)"

definition InferRelationshipTypes :: "ParseResult list \<Rightarrow> ParseResult list" where
  "InferRelationshipTypes results = map InferRelationshipType results"

section \<open>The scan of the lines\<close>

record claudeScan =
  sc_entries :: "dagEntry list"
  sc_queuedCommands :: "claudeQueuedCommand list"
  sc_hasAnyUUID :: bool
  sc_allHaveUUID :: bool
  sc_parentSessionID :: string
  sc_sourceSessionID :: string
  sc_sourceVersion :: string
  sc_cwd :: string
  sc_gitBranch :: string
  sc_displayName :: string
  sc_foundParentSID :: bool
  sc_malformedLines :: nat
  sc_lastLine :: string
  sc_lastLineFailed :: bool
  sc_subagentMap :: "string \<Rightarrow> string option"
  sc_globalStart :: time
  sc_globalEnd :: time

definition scan_start :: claudeScan where
  "scan_start = \<lparr>sc_entries = [], sc_queuedCommands = [], sc_hasAnyUUID = False, sc_allHaveUUID = True,
     sc_parentSessionID = [], sc_sourceSessionID = [], sc_sourceVersion = [], sc_cwd = [], sc_gitBranch = [],
     sc_displayName = [], sc_foundParentSID = False, sc_malformedLines = 0, sc_lastLine = [],
     sc_lastLineFailed = False, sc_subagentMap = (\<lambda>_. None), sc_globalStart = 0, sc_globalEnd = 0\<rparr>"

definition scan_bounds :: "time \<Rightarrow> claudeScan \<Rightarrow> claudeScan" where
  "scan_bounds ts s =
     (if IsZero ts then s
      else s\<lparr>sc_globalStart := (if IsZero (sc_globalStart s) \<or> ts < sc_globalStart s then ts else sc_globalStart s),
             sc_globalEnd := (if ts > sc_globalEnd s then ts else sc_globalEnd s)\<rparr>)"

text \<open>The link of a background task: from the JSON of the content, or from its tags.\<close>

definition scan_queue_operation :: "Parser \<Rightarrow> gresult \<Rightarrow> claudeScan \<Rightarrow> claudeScan" where
  "scan_queue_operation pz line s =
     (let contentStr = gstr (gget line [''content'']) in
      if gstr (gget line [''operation'']) \<noteq> ''enqueue'' \<or> contentStr = [] then s
      else let tuid = gstr (gget (pz_parse pz contentStr) [''tool_use_id'']);
               taskID = gstr (gget (pz_parse pz contentStr) [''task_id'']);
               missing = (tuid = [] \<or> taskID = []);
               taskID = (if missing then (case find_tag ''<task-id>'' ''</task-id>'' True contentStr of
                           Some m \<Rightarrow> m | None \<Rightarrow> taskID) else taskID);
               tuid = (if missing then (case find_tag ''<tool-use-id>'' ''</tool-use-id>'' True contentStr of
                           Some m \<Rightarrow> m | None \<Rightarrow> tuid) else tuid)
           in if tuid \<noteq> [] \<and> taskID \<noteq> [] then s\<lparr>sc_subagentMap := (sc_subagentMap s)(tuid \<mapsto> ''agent-'' @ taskID)\<rparr> else s)"

definition scan_progress :: "gresult \<Rightarrow> claudeScan \<Rightarrow> claudeScan" where
  "scan_progress line s =
     (let tuid = gstr (gget line [''parentToolUseID'']); agentID = gstr (gget line [''data'', ''agentId'']) in
      if gstr (gget line [''data'', ''type'']) = ''agent_progress'' \<and> tuid \<noteq> [] \<and> agentID \<noteq> []
      then s\<lparr>sc_subagentMap := (sc_subagentMap s)(tuid \<mapsto> ''agent-'' @ agentID)\<rparr> else s)"

text \<open>The only tool result of a line; two of them are ambiguous.\<close>

fun single_result :: "gresult list \<Rightarrow> string \<Rightarrow> string" where
  "single_result [] toolUseID = toolUseID"
| "single_result (b # bs) toolUseID =
     (let tuid = gstr (gget b [''tool_use_id'']) in
      if gstr (gget b [''type'']) \<noteq> ''tool_result'' \<or> tuid = [] then single_result bs toolUseID
      else if toolUseID \<noteq> [] then []
      else single_result bs tuid)"

definition collectToolResultAgentID :: "gresult \<Rightarrow> (string \<Rightarrow> string option) \<Rightarrow> string \<Rightarrow> string option" where
  "collectToolResultAgentID line subagents =
     (let agentID = gstr (gget line [''toolUseResult'', ''agentId'']) in
      if agentID = [] then subagents
      else let sessionID = (if has_prefix agentID ''agent-'' then agentID else ''agent-'' @ agentID);
               content = gget line [''message'', ''content'']
           in if \<not> is_array content then subagents
              else let toolUseID = single_result (geach content) [] in
                if toolUseID = [] \<or> subagents toolUseID \<noteq> None then subagents
                else subagents(toolUseID \<mapsto> sessionID))"

text \<open>A user or assistant line: links, working directory, the session it came from, and its entry.\<close>

definition scan_message :: "Parser \<Rightarrow> string \<Rightarrow> string \<Rightarrow> gresult \<Rightarrow> claudeScan \<Rightarrow> claudeScan" where
  "scan_message pz sessionID entryType line s =
     (let s = (if entryType = ''user'' then s\<lparr>sc_subagentMap := collectToolResultAgentID line (sc_subagentMap s),
                 sc_cwd := (if sc_cwd s = [] then gstr (gget line [''cwd'']) else sc_cwd s),
                 sc_gitBranch := (if sc_gitBranch s = [] then gstr (gget line [''gitBranch'']) else sc_gitBranch s)\<rparr>
               else s);
          sid = gstr (gget line [''sessionId'']);
          s = (if \<not> sc_foundParentSID s \<and> sid \<noteq> [] then s\<lparr>sc_foundParentSID := True, sc_sourceSessionID := sid,
                 sc_parentSessionID := (if sid \<noteq> sessionID then sid else sc_parentSessionID s)\<rparr> else s);
          uuid = gstr (gget line [''uuid'']);
          s = (if uuid \<noteq> [] then s\<lparr>sc_hasAnyUUID := True\<rparr> else s\<lparr>sc_allHaveUUID := False\<rparr>)
      in s\<lparr>sc_entries := sc_entries s @ [\<lparr>de_uuid = uuid, de_parentUuid = gstr (gget line [''parentUuid'']),
             de_entryType = entryType, de_line = line, de_timestamp = extractTimestamp (pz_time pz) line\<rparr>]\<rparr>)"

definition scan_line :: "Parser \<Rightarrow> string \<Rightarrow> claudeScan \<Rightarrow> string \<Rightarrow> claudeScan" where
  "scan_line pz sessionID s0 rawLine =
     (let s = s0\<lparr>sc_lastLine := rawLine\<rparr> in
      if \<not> pz_valid pz rawLine then s\<lparr>sc_malformedLines := Suc (sc_malformedLines s), sc_lastLineFailed := True\<rparr>
      else let line = pz_parse pz rawLine;
               entryType = gstr (gget line [''type'']);
               s = s\<lparr>sc_lastLineFailed := False,
                 sc_sourceVersion := (if sc_sourceVersion s = [] then gstr (gget line [''version'']) else sc_sourceVersion s)\<rparr>;
               s = scan_bounds (extractTimestamp (pz_time pz) line) s
           in if entryType = ''queue-operation'' then scan_queue_operation pz line s
              else if entryType = ''progress'' then scan_progress line s
              else if entryType = ''attachment'' then
                (case extractQueuedCommand (pz_time pz) line of
                   Some q \<Rightarrow> s\<lparr>sc_queuedCommands := sc_queuedCommands s @ [q]\<rparr> | None \<Rightarrow> s)
              else if entryType = ''system'' then
                (case extractRenameName (gstr (gget line [''content''])) of
                   Some name \<Rightarrow> s\<lparr>sc_displayName := name\<rparr> | None \<Rightarrow> s)
              else if entryType \<noteq> ''user'' \<and> entryType \<noteq> ''assistant'' then s
              else scan_message pz sessionID entryType line s)"

text \<open>All lines of the reader, and whether it met a read error.\<close>

function next_lines :: "lineReader \<Rightarrow> string list \<times> bool" where
  "next_lines r =
     (case next_line r of
        (None, r') \<Rightarrow> ([], lr_err r')
      | (Some line, r') \<Rightarrow> (case next_lines r' of (ls, err) \<Rightarrow> (line # ls, err)))"
  by pat_completeness auto
termination
  by (relation "measure (\<lambda>r. length (lr_rest r))") (auto dest!: next_line_shorter [OF sym])

declare next_lines.simps [simp del]

section \<open>Sessions\<close>

definition fileEndsWithNewline :: "string \<Rightarrow> int \<Rightarrow> bool" where
  "fileEndsWithNewline f n =
     (if n \<le> 0 then True else if nat (n - 1) \<ge> length f then False else f ! nat (n - 1) = newline)"

definition applyTo :: "claudeSessionMeta \<Rightarrow> ParsedSession \<Rightarrow> ParsedSession" where
  "applyTo m sess = sess\<lparr>ps_SourceSessionID := cm_sourceSessionID m, ps_SourceVersion := cm_sourceVersion m,
     ps_Cwd := cm_cwd m, ps_GitBranch := cm_gitBranch m, ps_SessionName := cm_displayName m,
     ps_MalformedLines := cm_malformedLines m, ps_IsTruncated := cm_isTruncated m\<rparr>"

text \<open>The arguments that the linear and the tree reading share.\<close>

record ParseArgs =
  pa_sessionID :: string
  pa_project :: string
  pa_machine :: string
  pa_parentSessionID :: string
  pa_fileInfo :: FileInfo
  pa_subagentMap :: "string \<Rightarrow> string option"
  pa_globalStart :: time
  pa_globalEnd :: time
  pa_meta :: claudeSessionMeta

definition session_result ::
  "Parser \<Rightarrow> ParseArgs \<Rightarrow> string \<Rightarrow> string \<Rightarrow> string \<Rightarrow> ParsedMessage list \<Rightarrow> time \<Rightarrow> time \<Rightarrow> ParseResult" where
  "session_result pz a sid parent relType messages startedAt endedAt =
     (let (firstMsg, userCount) = firstMessageAndUserCount (pz_word pz) messages;
          sess = zero_session\<lparr>ps_ID := sid, ps_Project := pa_project a, ps_Machine := pa_machine a, ps_Agent := ''claude'',
            ps_ParentSessionID := parent, ps_RelationshipType := relType, ps_FirstMessage := firstMsg,
            ps_StartedAt := startedAt, ps_EndedAt := endedAt, ps_MessageCount := length messages,
            ps_UserMessageCount := userCount, ps_File := pa_fileInfo a\<rparr>
      in \<lparr>pr_Session = accumulateMessageTokenUsage (applyTo (pa_meta a) sess) messages, pr_Messages = messages\<rparr>)"

definition parseLinear :: "Parser \<Rightarrow> ParseArgs \<Rightarrow> dagEntry list \<Rightarrow> ParseResult list" where
  "parseLinear pz a entries =
     (case extractMessages (pz_infer pz) entries of (messages, startedAt, endedAt) \<Rightarrow>
        [session_result pz a (pa_sessionID a) (pa_parentSessionID a) RelNone
           (annotateSubagentSessions (pa_subagentMap a) messages)
           (earlierTime (pa_globalStart a) startedAt) (laterTime (pa_globalEnd a) endedAt)])"

definition branch_result :: "Parser \<Rightarrow> ParseArgs \<Rightarrow> dagEntry list \<Rightarrow> nat \<Rightarrow> branch \<Rightarrow> ParseResult" where
  "branch_result pz a entries i b =
     (case extractMessages (pz_infer pz) (map (\<lambda>idx. entries ! idx) (fst b)) of (messages, startedAt, endedAt) \<Rightarrow>
        session_result pz a (branch_session entries (pa_sessionID a) i b) (snd b) (if i = 0 then RelNone else RelFork)
          (annotateSubagentSessions (pa_subagentMap a) messages)
          (if i = 0 then earlierTime (pa_globalStart a) startedAt else startedAt)
          (if i = 0 then laterTime (pa_globalEnd a) endedAt else endedAt))"

definition parseDAG :: "Parser \<Rightarrow> nat \<Rightarrow> ParseArgs \<Rightarrow> dagEntry list \<Rightarrow> ParseResult list option" where
  "parseDAG pz fuel a entries =
     (if \<not> wellFormedDAG entries then Some (parseLinear pz a entries)
      else map_option (\<lambda>branches. map (\<lambda>(i, b). branch_result pz a entries i b) (enumerate 0 branches))
        (dagBranches fuel entries (pa_sessionID a) (pa_parentSessionID a)))"

definition queued_bounds :: "claudeQueuedCommand \<Rightarrow> ParsedSession \<Rightarrow> ParsedSession" where
  "queued_bounds qc s =
     s\<lparr>ps_EndedAt := (if qc_timestamp qc > ps_EndedAt s then qc_timestamp qc else ps_EndedAt s),
       ps_StartedAt := (if \<not> IsZero (qc_timestamp qc) \<and> (IsZero (ps_StartedAt s) \<or> qc_timestamp qc < ps_StartedAt s)
                        then qc_timestamp qc else ps_StartedAt s)\<rparr>"

definition applyQueuedCommands :: "Parser \<Rightarrow> ParseResult \<Rightarrow> claudeQueuedCommand list \<Rightarrow> ParseResult" where
  "applyQueuedCommands pz r queued =
     (let merged = mergeQueuedCommands (pr_Messages r) queued 0;
          (firstMsg, userCount) = firstMessageAndUserCount (pz_word pz) merged
      in \<lparr>pr_Session = fold queued_bounds queued ((pr_Session r)\<lparr>ps_FirstMessage := firstMsg,
             ps_UserMessageCount := userCount, ps_MessageCount := length merged\<rparr>), pr_Messages = merged\<rparr>)"

definition termination_view :: "ParsedMessage \<Rightarrow> Termination_Status.ParsedMessage" where
  "termination_view m = \<lparr>pm_Role = ms_Role m, pm_ToolCalls = map ptc_ToolUseID (ms_ToolCalls m),
     pm_ToolResults = map ptr_ToolUseID (ms_ToolResults m)\<rparr>"

definition classify_result :: "bool \<Rightarrow> ParseResult \<Rightarrow> ParseResult" where
  "classify_result lastLineFailed r =
     r\<lparr>pr_Session := (pr_Session r)\<lparr>ps_TerminationStatus :=
        Classify (map termination_view (pr_Messages r)) (lastAssistantStopReason (pr_Messages r)) lastLineFailed\<rparr>\<rparr>"

datatype parse_error = StatError | OpenError | ReadError | ErrDAGDetected | ErrClaudeIncrementalNeedsFullParse

text \<open>\<open>stat\<close> is the size and the modification time; \<open>None\<close> is a walk that has not returned within the fuel.\<close>

definition parse_scanned ::
  "Parser \<Rightarrow> nat \<Rightarrow> string \<Rightarrow> string \<Rightarrow> string \<Rightarrow> string \<Rightarrow> int \<times> int \<Rightarrow> string \<Rightarrow> claudeScan \<Rightarrow>
   (ParseResult list \<times> string list) option" where
  "parse_scanned pz fuel sessionID path project machine stat bytes sc =
     (let isTruncated = (sc_lastLine sc \<noteq> [] \<and> TrimSpace (sc_lastLine sc) \<noteq> [] \<and> \<not> pz_valid pz (sc_lastLine sc) \<and>
            \<not> fileEndsWithNewline bytes (fst stat));
          entries = mergeClaudeAssistantMessageChunks (pz_replace pz) (sc_entries sc);
          meta = \<lparr>cm_sourceSessionID = sc_sourceSessionID sc, cm_sourceVersion = sc_sourceVersion sc, cm_cwd = sc_cwd sc,
            cm_gitBranch = sc_gitBranch sc, cm_displayName = sc_displayName sc,
            cm_malformedLines = sc_malformedLines sc, cm_isTruncated = isTruncated\<rparr>;
          a = \<lparr>pa_sessionID = sessionID, pa_project = project, pa_machine = machine,
            pa_parentSessionID = sc_parentSessionID sc,
            pa_fileInfo = \<lparr>fi_Path = path, fi_Size = fst stat, fi_Mtime = snd stat\<rparr>,
            pa_subagentMap = sc_subagentMap sc, pa_globalStart = sc_globalStart sc, pa_globalEnd = sc_globalEnd sc,
            pa_meta = meta\<rparr>
      in map_option
           (\<lambda>results.
              let results = (case results of
                    r # rs \<Rightarrow> if sc_queuedCommands sc \<noteq> [] then applyQueuedCommands pz r (sc_queuedCommands sc) # rs else r # rs
                  | [] \<Rightarrow> []);
                  results = map (classify_result (sc_lastLineFailed sc)) results
              in (filter (\<lambda>r. \<not> isUsageProbeSession (pr_Messages r)) results,
                  map (\<lambda>r. ps_ID (pr_Session r)) (filter (\<lambda>r. isUsageProbeSession (pr_Messages r)) results)))
           (if sc_hasAnyUUID sc \<and> sc_allHaveUUID sc then parseDAG pz fuel a entries
            else Some (parseLinear pz a entries)))"

definition ParseClaudeSessionWithExclusions ::
  "Parser \<Rightarrow> nat \<Rightarrow> string \<Rightarrow> string \<Rightarrow> string \<Rightarrow> (int \<times> int) option \<Rightarrow> string option \<Rightarrow> bool \<Rightarrow>
   (parse_error + ParseResult list \<times> string list) option" where
  "ParseClaudeSessionWithExclusions pz fuel path project machine stat content fails =
     (case stat of
        None \<Rightarrow> Some (Inl StatError)
      | Some st \<Rightarrow>
          let sessionID = trim_suffix (path_base path) ''.jsonl'' in
          (case content of
             None \<Rightarrow> Some (Inl OpenError)
           | Some bytes \<Rightarrow>
               (case next_lines (newLineReader fails bytes maxLineSize) of (ls, err) \<Rightarrow>
                  if err then Some (Inl ReadError)
                  else map_option Inr (parse_scanned pz fuel sessionID path project machine st bytes
                         (foldl (scan_line pz sessionID) scan_start ls)))))"

definition ParseClaudeSession ::
  "Parser \<Rightarrow> nat \<Rightarrow> string \<Rightarrow> string \<Rightarrow> string \<Rightarrow> (int \<times> int) option \<Rightarrow> string option \<Rightarrow> bool \<Rightarrow>
   (parse_error + ParseResult list) option" where
  "ParseClaudeSession pz fuel path project machine stat content fails =
     map_option (map_sum id fst) (ParseClaudeSessionWithExclusions pz fuel path project machine stat content fails)"

section \<open>Reading what was appended\<close>

record claudeAppend =
  ca_entries :: "dagEntry list"
  ca_queuedCommands :: "claudeQueuedCommand list"
  ca_latestTS :: time
  ca_sawRename :: bool

definition append_start :: claudeAppend where
  "append_start = \<lparr>ca_entries = [], ca_queuedCommands = [], ca_latestTS = 0, ca_sawRename = False\<rparr>"

definition append_line :: "Parser \<Rightarrow> claudeAppend \<Rightarrow> string \<Rightarrow> claudeAppend" where
  "append_line pz s0 rawLine =
     (let line = pz_parse pz rawLine;
          ts = extractTimestamp (pz_time pz) line;
          s = (if \<not> IsZero ts \<and> ts > ca_latestTS s0 then s0\<lparr>ca_latestTS := ts\<rparr> else s0);
          entryType = gstr (gget line [''type''])
      in if entryType = ''system'' then
           (if extractRenameName (gstr (gget line [''content''])) \<noteq> None then s\<lparr>ca_sawRename := True\<rparr> else s)
         else if entryType = ''attachment'' then
           (case extractQueuedCommand (pz_time pz) line of
              Some q \<Rightarrow> s\<lparr>ca_queuedCommands := ca_queuedCommands s @ [q]\<rparr> | None \<Rightarrow> s)
         else if entryType \<noteq> ''user'' \<and> entryType \<noteq> ''assistant'' then s
         else s\<lparr>ca_entries := ca_entries s @ [\<lparr>de_uuid = gstr (gget line [''uuid'']),
                de_parentUuid = gstr (gget line [''parentUuid'']), de_entryType = entryType, de_line = line,
                de_timestamp = ts\<rparr>]\<rparr>)"

fun dag_fork :: "string \<Rightarrow> dagEntry list \<Rightarrow> bool" where
  "dag_fork lastUUID [] = False"
| "dag_fork lastUUID (e # es) =
     (if de_uuid e = [] then dag_fork lastUUID es
      else if lastUUID \<noteq> [] \<and> de_parentUuid e \<noteq> lastUUID then True
      else dag_fork (de_uuid e) es)"

definition hasDAGFork :: "dagEntry list \<Rightarrow> bool" where
  "hasDAGFork entries = dag_fork [] entries"

definition later_queued :: "claudeQueuedCommand \<Rightarrow> time \<Rightarrow> time" where
  "later_queued qc endedAt = (if qc_timestamp qc > endedAt then qc_timestamp qc else endedAt)"

definition ParseClaudeSessionFrom ::
  "Parser \<Rightarrow> string option \<Rightarrow> bool \<Rightarrow> nat \<Rightarrow> nat \<Rightarrow> parse_error + ParsedMessage list \<times> time \<times> nat" where
  "ParseClaudeSessionFrom pz content fails offset startOrdinal =
     (case readJSONLFrom (pz_valid pz) fails content offset of
        None \<Rightarrow> Inl ReadError
      | Some (ls, consumed, err) \<Rightarrow>
          if err then Inl ReadError
          else let s = foldl (append_line pz) append_start ls in
            if ca_sawRename s then Inl ErrClaudeIncrementalNeedsFullParse
            else if ca_entries s = [] \<and> ca_queuedCommands s = [] then Inr ([], ca_latestTS s, consumed)
            else if hasDAGFork (ca_entries s) then Inl ErrDAGDetected
            else if needsClaudeFullParse (ca_entries s) then Inl ErrClaudeIncrementalNeedsFullParse
            else (case extractMessagesFrom (pz_infer pz) (ca_entries s) startOrdinal of (msgs, _, endedAt) \<Rightarrow>
              let msgs = (if ca_queuedCommands s \<noteq> [] then mergeQueuedCommands msgs (ca_queuedCommands s) startOrdinal else msgs);
                  endedAt = fold later_queued (ca_queuedCommands s) endedAt;
                  endedAt = (if ca_latestTS s > endedAt then ca_latestTS s else endedAt)
              in Inr (msgs, endedAt, consumed)))"

section \<open>Chains\<close>

text \<open>A transcript without forks: every entry names the one before it.\<close>

definition chain :: "dagEntry list \<Rightarrow> bool" where
  "chain entries \<longleftrightarrow>
     entries \<noteq> [] \<and> distinct (map de_uuid entries) \<and> list_all (\<lambda>e. de_uuid e \<noteq> []) entries \<and>
     map de_parentUuid entries = [] # butlast (map de_uuid entries)"

lemma chain_parent:
  assumes "chain entries" "i < length entries"
  shows "de_parentUuid (entries ! i) = (if i = 0 then [] else de_uuid (entries ! (i - 1)))"
proof -
  have "de_parentUuid (entries ! i) = ([] # butlast (map de_uuid entries)) ! i"
    using assms by (metis chain_def nth_map)
  then show ?thesis using assms(2) by (cases i) (simp_all add: nth_butlast)
qed

lemma chain_uuid:
  assumes "chain entries" "i < length entries" "j < length entries"
  shows "de_uuid (entries ! i) \<noteq> []" "de_uuid (entries ! i) = de_uuid (entries ! j) \<longleftrightarrow> i = j"
  using assms nth_eq_iff_index_eq [of "map de_uuid entries" i j] by (auto simp: chain_def list_all_length)

lemma filter_upt_one: "k < n \<Longrightarrow> (\<And>i. i < n \<Longrightarrow> P i \<longleftrightarrow> i = k) \<Longrightarrow> filter P [0..<n] = [k]"
proof -
  assume k: "k < n" and P: "\<And>i. i < n \<Longrightarrow> P i \<longleftrightarrow> i = k"
  have "filter P [0..<n] = filter (\<lambda>i. i = k) [0..<n]" using P by (intro filter_cong) auto
  also have "\<dots> = filter (\<lambda>i. i = k) ([0..<k] @ k # [Suc k..<n])"
    using k by (metis le_add1 less_imp_add_positive upt_add_eq_append upt_conv_Cons zero_le add_0)
  also have "\<dots> = [k]" by (simp add: filter_empty_conv)
  finally show ?thesis .
qed

lemma chain_children:
  assumes "chain entries" "i < length entries"
  shows "children entries (uuid_of entries i) = (if Suc i < length entries then [Suc i] else [])"
proof -
  have P: "de_parentUuid (entries ! j) = uuid_of entries i \<longleftrightarrow> j = Suc i" if "j < length entries" for j
  proof (cases j)
    case 0
    then show ?thesis using chain_parent [OF assms(1) that] chain_uuid(1) [OF assms assms(2)] by (simp add: uuid_of_def)
  next
    case (Suc k)
    then show ?thesis
      using chain_parent [OF assms(1) that] chain_uuid(2) [OF assms(1), of k i] assms(2) that by (auto simp: uuid_of_def)
  qed
  have ne: "uuid_of entries i \<noteq> []" using chain_uuid(1) [OF assms assms(2)] by (simp add: uuid_of_def)
  show ?thesis
  proof (cases "Suc i < length entries")
    case True
    then show ?thesis using ne filter_upt_one [OF True P] by (simp add: children_def)
  next
    case False
    then show ?thesis using ne P by (auto simp: children_def filter_empty_conv)
  qed
qed

lemma chain_roots: "chain entries \<Longrightarrow> roots entries = [0]"
proof -
  assume c: "chain entries"
  have "de_parentUuid (entries ! i) = [] \<longleftrightarrow> i = 0" if "i < length entries" for i
    using chain_parent [OF c that] chain_uuid(1) [OF c, of "i - 1" "i - 1"] that by auto
  moreover have "0 < length entries" using c by (simp add: chain_def)
  ultimately show ?thesis unfolding roots_def by (intro filter_upt_one)
qed

lemma chain_wellFormed: "chain entries \<Longrightarrow> wellFormedDAG entries"
proof -
  assume c: "chain entries"
  have "de_parentUuid (entries ! i) = [] \<or> de_parentUuid (entries ! i) \<in> set (filter (\<lambda>u. u \<noteq> []) (map de_uuid entries))"
    if "i < length entries" for i
    using chain_parent [OF c that] chain_uuid(1) [OF c, of "i - 1" "i - 1"] that by (cases i) auto
  then show ?thesis using chain_roots [OF c] by (simp add: wellFormedDAG_def list_all_length)
qed

lemma chain_walk:
  assumes "chain entries"
  shows "i < length entries \<Longrightarrow> length entries \<le> k + i \<Longrightarrow>
    walkBranch turns entries sid k i ow = Some ([i..<length entries], [])"
proof (induction k arbitrary: i)
  case (Suc k)
  show ?case
  proof (cases "Suc i < length entries")
    case True
    then have "walkBranch turns entries sid k (Suc i) ow = Some ([Suc i..<length entries], [])"
      using Suc by simp
    then show ?thesis
      using True Suc.prems by (simp add: chain_children [OF assms] on_path_def upt_conv_Cons del: upt_Suc)
  next
    case False
    then have "[i..<length entries] = [i]" using Suc.prems(1) by (simp add: upt_conv_Cons)
    then show ?thesis using False Suc.prems(1) by (simp add: chain_children [OF assms])
  qed
qed simp

lemma parseDAG_chain:
  assumes "chain entries" "length entries \<le> fuel"
  shows "parseDAG pz fuel a entries = Some (parseLinear pz a entries)"
proof -
  have "0 < length entries" using assms(1) by (simp add: chain_def)
  then have "dagBranches fuel entries sid psid = Some [([0..<length entries], psid)]" for sid psid
    using chain_walk [OF assms(1), of 0 fuel] assms(2) by (simp add: dagBranches_def chain_roots [OF assms(1)])
  then show ?thesis
    using chain_wellFormed [OF assms(1)]
    by (simp add: parseDAG_def branch_result_def parseLinear_def branch_session_def map_nth split: prod.split)
qed

section \<open>Rows and messages agree\<close>

lemma accumulate_fields:
  "ps_MessageCount (accumulateMessageTokenUsage s ms) = ps_MessageCount s"
  "ps_UserMessageCount (accumulateMessageTokenUsage s ms) = ps_UserMessageCount s"
proof -
  have step: "ps_MessageCount (accumulate_step m s) = ps_MessageCount s"
    "ps_UserMessageCount (accumulate_step m s) = ps_UserMessageCount s" for m s
    by (simp_all add: Let_def)
  have "ps_MessageCount (fold accumulate_step ms s) = ps_MessageCount s \<and>
      ps_UserMessageCount (fold accumulate_step ms s) = ps_UserMessageCount s" for s
    by (induction ms arbitrary: s) (simp_all add: step del: accumulate_step.simps)
  then show "ps_MessageCount (accumulateMessageTokenUsage s ms) = ps_MessageCount s"
    "ps_UserMessageCount (accumulateMessageTokenUsage s ms) = ps_UserMessageCount s"
    by (simp_all add: accumulateMessageTokenUsage_def)
qed

lemma accumulate_totals:
  "ps_TotalOutputTokens (fold accumulate_step ms s) =
     ps_TotalOutputTokens s + sum_list (map ms_OutputTokens (filter ms_HasOutputTokens ms))"
  "ps_PeakContextTokens (fold accumulate_step ms s) =
     fold max (map ms_ContextTokens (filter ms_HasContextTokens ms)) (ps_PeakContextTokens s)"
  "ps_HasTotalOutputTokens (fold accumulate_step ms s) \<longleftrightarrow> ps_HasTotalOutputTokens s \<or> list_ex ms_HasOutputTokens ms"
  "ps_HasPeakContextTokens (fold accumulate_step ms s) \<longleftrightarrow> ps_HasPeakContextTokens s \<or> list_ex ms_HasContextTokens ms"
  by (induction ms arbitrary: s) (auto simp: Let_def max_def)

definition result_consistent :: "ParseResult \<Rightarrow> bool" where
  "result_consistent r \<longleftrightarrow>
     ps_MessageCount (pr_Session r) = length (pr_Messages r) \<and>
     ps_UserMessageCount (pr_Session r) = length (filter user_turn (pr_Messages r)) \<and>
     map ms_Ordinal (pr_Messages r) = [0..<length (pr_Messages r)]"

lemma userCount: "firstMessageAndUserCount word ms = (t, n) \<Longrightarrow> n = length (filter user_turn ms)"
  by (metis firstMessageAndUserCount_def first_and_count_count plus_nat.add_0 snd_conv)

lemma session_result_consistent:
  "map ms_Ordinal ms = [0..<length ms] \<Longrightarrow> result_consistent (session_result pz a sid p rel ms b f)"
  by (simp add: session_result_def result_consistent_def accumulate_fields applyTo_def userCount split: prod.split)

lemma annotate_ordinals: "map ms_Ordinal (annotateSubagentSessions m ms) = map ms_Ordinal ms"
  by (simp add: annotateSubagentSessions_def)

lemma length_annotate: "length (annotateSubagentSessions m ms) = length ms"
  by (simp add: annotateSubagentSessions_def)

lemma extracted_ordinals: "extractMessages infer es = (ms, b, f) \<Longrightarrow> map ms_Ordinal ms = [0..<length ms]"
  using extract_loop_ordinals [of infer es 0 0 0] by (simp add: extractMessages_def)

lemma parseLinear_consistent: "list_all result_consistent (parseLinear pz a entries)"
  by (auto simp: parseLinear_def annotate_ordinals length_annotate extracted_ordinals
      intro!: session_result_consistent split: prod.split)

lemma branch_result_consistent: "result_consistent (branch_result pz a entries i b)"
  unfolding branch_result_def
  by (auto simp: annotate_ordinals length_annotate extracted_ordinals
      intro!: session_result_consistent split: prod.split)

lemma parseDAG_consistent: "parseDAG pz fuel a entries = Some rs \<Longrightarrow> list_all result_consistent rs"
  using parseLinear_consistent [of pz a entries]
  by (auto simp: parseDAG_def list_all_iff branch_result_consistent split: if_splits)

lemma applyQueuedCommands_consistent: "result_consistent (applyQueuedCommands pz r queued)"
proof -
  have "ps_MessageCount (fold queued_bounds qs s) = ps_MessageCount s \<and>
      ps_UserMessageCount (fold queued_bounds qs s) = ps_UserMessageCount s" for qs s
    by (induction qs arbitrary: s) (simp_all add: queued_bounds_def)
  then show ?thesis
    using renumber_ordinals [of 0 "merge_queued (pr_Messages r) queued"]
    by (simp add: applyQueuedCommands_def result_consistent_def userCount mergeQueuedCommands_def Let_def split: prod.split)
qed

lemma classify_consistent: "result_consistent (classify_result f r) = result_consistent r"
  by (simp add: classify_result_def result_consistent_def)

lemma parse_scanned_results:
  assumes "parse_scanned pz fuel sid path project machine stat bytes sc = Some (rs, ex)"
  shows "list_all (\<lambda>r. result_consistent r \<and> \<not> isUsageProbeSession (pr_Messages r)) rs"
proof -
  define entries where "entries = mergeClaudeAssistantMessageChunks (pz_replace pz) (sc_entries sc)"
  obtain a results where r: "(if sc_hasAnyUUID sc \<and> sc_allHaveUUID sc then parseDAG pz fuel a entries
            else Some (parseLinear pz a entries)) = Some results"
    and rs: "rs = filter (\<lambda>r. \<not> isUsageProbeSession (pr_Messages r)) (map (classify_result (sc_lastLineFailed sc))
       (case results of r # rs \<Rightarrow> if sc_queuedCommands sc \<noteq> [] then applyQueuedCommands pz r (sc_queuedCommands sc) # rs
          else r # rs | [] \<Rightarrow> []))"
    using assms unfolding parse_scanned_def Let_def entries_def [symmetric] by (auto simp del: if_splits)
  have "list_all result_consistent results"
    using r parseDAG_consistent parseLinear_consistent by (auto split: if_splits)
  then show ?thesis
    unfolding rs by (cases results) (auto simp: list_all_iff classify_consistent applyQueuedCommands_consistent)
qed

lemma usage_probe_iff:
  "usage_probe ms saw \<longleftrightarrow>
     list_all (\<lambda>m. TrimSpace (ms_Content m) = ''/usage'') (filter user_turn ms) \<and> (saw \<or> filter user_turn ms \<noteq> [])"
  by (induction ms arbitrary: saw) (auto simp: user_turn_def)

section \<open>Both scanners\<close>

lemma scan_bounds_end: "sc_globalEnd (scan_bounds ts s) = (if \<not> IsZero ts \<and> ts > sc_globalEnd s then ts else sc_globalEnd s)"
  by (simp add: scan_bounds_def)

lemma scan_frame:
  "sc_entries (scan_bounds ts s) = sc_entries s" "sc_queuedCommands (scan_bounds ts s) = sc_queuedCommands s"
  "sc_entries (scan_queue_operation pz l s) = sc_entries s"
  "sc_queuedCommands (scan_queue_operation pz l s) = sc_queuedCommands s"
  "sc_globalEnd (scan_queue_operation pz l s) = sc_globalEnd s"
  "sc_entries (scan_progress l s) = sc_entries s" "sc_queuedCommands (scan_progress l s) = sc_queuedCommands s"
  "sc_globalEnd (scan_progress l s) = sc_globalEnd s"
  by (simp_all add: scan_bounds_def scan_queue_operation_def scan_progress_def Let_def)

definition same_scan :: "claudeScan \<Rightarrow> claudeAppend \<Rightarrow> bool" where
  "same_scan s c \<longleftrightarrow> sc_entries s = ca_entries c \<and> sc_queuedCommands s = ca_queuedCommands c \<and> sc_globalEnd s = ca_latestTS c"

lemma scan_message_frame:
  "sc_entries (scan_message pz sid ty l s) = sc_entries s @ [\<lparr>de_uuid = gstr (gget l [''uuid'']),
     de_parentUuid = gstr (gget l [''parentUuid'']), de_entryType = ty, de_line = l,
     de_timestamp = extractTimestamp (pz_time pz) l\<rparr>]"
  "sc_queuedCommands (scan_message pz sid ty l s) = sc_queuedCommands s"
  "sc_globalEnd (scan_message pz sid ty l s) = sc_globalEnd s"
  by (simp_all add: scan_message_def Let_def)

lemma scan_line_same:
  assumes "same_scan s c"
  shows "same_scan (scan_line pz sid s l) (if pz_valid pz l then append_line pz c l else c)"
proof (cases "pz_valid pz l")
  case True
  define s' where "s' = (let s = s\<lparr>sc_lastLine := l\<rparr> in scan_bounds (extractTimestamp (pz_time pz) (pz_parse pz l))
    (s\<lparr>sc_lastLineFailed := False, sc_sourceVersion :=
       (if sc_sourceVersion s = [] then gstr (gget (pz_parse pz l) [''version'']) else sc_sourceVersion s)\<rparr>))"
  define c' where "c' = (let ts = extractTimestamp (pz_time pz) (pz_parse pz l) in
    if \<not> IsZero ts \<and> ts > ca_latestTS c then c\<lparr>ca_latestTS := ts\<rparr> else c)"
  have same: "same_scan s' c'"
    using assms by (simp add: same_scan_def s'_def c'_def Let_def scan_frame scan_bounds_end)
  define line where "line = pz_parse pz l"
  define ty where "ty = gstr (gget line [''type''])"
  have "scan_line pz sid s l = (if ty = ''queue-operation'' then scan_queue_operation pz line s'
      else if ty = ''progress'' then scan_progress line s'
      else if ty = ''attachment'' then (case extractQueuedCommand (pz_time pz) line of
          Some q \<Rightarrow> s'\<lparr>sc_queuedCommands := sc_queuedCommands s' @ [q]\<rparr> | None \<Rightarrow> s')
      else if ty = ''system'' then (case extractRenameName (gstr (gget line [''content''])) of
          Some name \<Rightarrow> s'\<lparr>sc_displayName := name\<rparr> | None \<Rightarrow> s')
      else if ty \<noteq> ''user'' \<and> ty \<noteq> ''assistant'' then s' else scan_message pz sid ty line s')"
    by (simp only: scan_line_def Let_def True not_True_eq_False if_False s'_def line_def ty_def)
  moreover have "append_line pz c l = (if ty = ''system'' then
        (if extractRenameName (gstr (gget line [''content''])) \<noteq> None then c'\<lparr>ca_sawRename := True\<rparr> else c')
      else if ty = ''attachment'' then (case extractQueuedCommand (pz_time pz) line of
          Some q \<Rightarrow> c'\<lparr>ca_queuedCommands := ca_queuedCommands c' @ [q]\<rparr> | None \<Rightarrow> c')
      else if ty \<noteq> ''user'' \<and> ty \<noteq> ''assistant'' then c'
      else c'\<lparr>ca_entries := ca_entries c' @ [\<lparr>de_uuid = gstr (gget line [''uuid'']),
         de_parentUuid = gstr (gget line [''parentUuid'']), de_entryType = ty, de_line = line,
         de_timestamp = extractTimestamp (pz_time pz) line\<rparr>]\<rparr>)"
    by (simp only: append_line_def Let_def c'_def line_def ty_def)
  ultimately show ?thesis
    using True same by (auto simp: same_scan_def scan_frame scan_message_frame split: option.split)
qed (use assms in \<open>simp add: same_scan_def scan_line_def\<close>)

lemma scan_lines_same:
  "same_scan s c \<Longrightarrow> same_scan (foldl (scan_line pz sid) s ls) (foldl (append_line pz) c (filter (pz_valid pz) ls))"
proof (induction ls arbitrary: s c)
  case (Cons l ls)
  then show ?case using scan_line_same [OF Cons.prems, of pz sid l] by (cases "pz_valid pz l") simp_all
qed simp

section \<open>Appending to a merged transcript\<close>

definition separate :: "dagEntry list \<Rightarrow> dagEntry list \<Rightarrow> bool" where
  "separate stored appended \<longleftrightarrow>
     stored = [] \<or> appended = [] \<or> assistant_mid (hd appended) = [] \<or>
     assistant_mid (hd appended) \<noteq> assistant_mid (last stored)"

lemma merge_append:
  "separate stored appended \<Longrightarrow>
     mergeClaudeAssistantMessageChunks rc (stored @ appended) =
       mergeClaudeAssistantMessageChunks rc stored @ mergeClaudeAssistantMessageChunks rc appended"
proof (induction rc stored rule: mergeClaudeAssistantMessageChunks.induct)
  case (2 rc e es)
  have tail: "separate es' appended" if "suffix es' es" for es'
  proof (cases "es' = []")
    case False
    then have "last es' = last (e # es)" using that by (auto simp: suffix_def)
    then show ?thesis using "2.prems" by (auto simp: separate_def)
  qed (simp add: separate_def)
  let ?P = "\<lambda>x. assistant_mid x = assistant_mid e"
  show ?case
  proof (cases "assistant_mid e = []")
    case True
    then show ?thesis
      using "2.IH"(1) [OF True tail] by (simp add: mergeClaudeAssistantMessageChunks.simps(2))
  next
    case False
    let ?same = "takeWhile ?P es"
    have same: "takeWhile ?P (es @ appended) = ?same"
    proof (cases "list_all ?P es")
      case True
      then have "last (e # es) = e \<or> ?P (last (e # es))" by (auto simp: list_all_iff)
      then have "assistant_mid (last (e # es)) = assistant_mid e" by auto
      then have "takeWhile ?P appended = []"
        using "2.prems" False by (cases appended) (auto simp: separate_def)
      moreover have "\<forall>x\<in>set es. ?P x" using True by (simp add: list_all_iff)
      ultimately show ?thesis by (simp only: takeWhile_append2 takeWhile_eq_all_conv [THEN iffD2] append_Nil2)
    qed (auto simp: list_all_iff takeWhile_append1)
    have "length ?same \<le> length es" by (rule length_takeWhile_le)
    moreover have "suffix (drop (length ?same) es) es" by (rule suffix_drop)
    ultimately show ?thesis
      using "2.IH"(2) [OF False refl tail] False same
      by (simp add: mergeClaudeAssistantMessageChunks.simps(2) Let_def)
  qed
qed simp

section \<open>Properties\<close>

text \<open>
  C21. Every session a transcript yields agrees with its messages, also after queued commands were spliced
  in: the stored counts are the number of messages and of user turns, and the messages are numbered from 0
  without a gap; no session that is kept is a usage probe.
\<close>

theorem parsed_sessions_consistent:
  "case ParseClaudeSessionWithExclusions pz fuel path project machine stat content fails of
     Some (Inr (results, excluded)) \<Rightarrow> list_all (\<lambda>r. result_consistent r \<and> \<not> isUsageProbeSession (pr_Messages r)) results
   | _ \<Rightarrow> True"
  by (auto simp: ParseClaudeSessionWithExclusions_def Let_def dest!: parse_scanned_results
      split: option.split sum.split prod.split)

text \<open>
  The reader of appended lines sees what the full scan sees: the same entries, the same queued commands and
  the same latest time, malformed lines aside.
\<close>

theorem scanners_agree:
  "(let s = foldl (scan_line pz sid) scan_start ls; c = foldl (append_line pz) append_start (filter (pz_valid pz) ls) in
    sc_entries s = ca_entries c \<and> sc_queuedCommands s = ca_queuedCommands c \<and> sc_globalEnd s = ca_latestTS c)"
  using scan_lines_same [of scan_start append_start pz sid ls]
  by (simp add: same_scan_def scan_start_def append_start_def Let_def)

text \<open>A transcript without forks is read the same way as a tree and as a list.\<close>

theorem parseDAG_chain_linear:
  assumes "chain entries" "length entries \<le> fuel"
  shows "parseDAG pz fuel a entries = Some (parseLinear pz a entries)"
  by (rule parseDAG_chain [OF assms])

definition demo_message :: "string \<Rightarrow> string \<Rightarrow> string \<Rightarrow> dagEntry" where
  "demo_message uuid parent ty = (demo_entry uuid parent ty)\<lparr>de_line :=
     GObj [] [(''message'', GObj [] [(''content'', GStr [] ''x'')])]\<rparr>"

definition demo_args :: ParseArgs where
  "demo_args = \<lparr>pa_sessionID = ''s'', pa_project = ''p'', pa_machine = ''m'', pa_parentSessionID = [],
     pa_fileInfo = \<lparr>fi_Path = ''f'', fi_Size = 1, fi_Mtime = 1\<rparr>, pa_subagentMap = (\<lambda>_. None), pa_globalStart = 0,
     pa_globalEnd = 0, pa_meta = \<lparr>cm_sourceSessionID = [], cm_sourceVersion = [], cm_cwd = [], cm_gitBranch = [],
       cm_displayName = [], cm_malformedLines = 0, cm_isTruncated = False\<rparr>\<rparr>"

definition demo_parser :: Parser where
  "demo_parser = \<lparr>pz_valid = (\<lambda>_. True), pz_parse = (\<lambda>_. GMissing), pz_time = (\<lambda>_. 0), pz_word = (\<lambda>_. True),
     pz_infer = (\<lambda>_ _. []), pz_replace = (\<lambda>_ _. None)\<rparr>"

theorem parseDAG_chain_linear_witness:
  "parseDAG demo_parser 2 demo_args [demo_message ''r'' [] ''user'', demo_message ''a'' ''r'' ''assistant''] =
     Some (parseLinear demo_parser demo_args [demo_message ''r'' [] ''user'', demo_message ''a'' ''r'' ''assistant''])"
  by (rule parseDAG_chain_linear) (simp_all add: chain_def demo_message_def demo_entry_def)

definition demo_chunk :: "string \<Rightarrow> string \<Rightarrow> dagEntry" where
  "demo_chunk uuid parent = (demo_entry uuid parent ''assistant'')\<lparr>de_line :=
     GObj [] [(''message'', GObj [] [(''id'', GStr [] ''i''), (''content'', GArr [] [])])]\<rparr>"

text \<open>
  A response that was streamed in lines that name each other turns fork detection off: after the merge of
  its lines the parent of the last one is no longer there, so that the transcript is read as a list. The
  second attempt, which was a session of its own, is then part of the first.
\<close>

theorem chunk_run_hides_forks:
  "(let before = demo_fork; after = demo_fork @ [demo_chunk ''f'' ''e'', demo_chunk ''g'' ''f''] in
    map_option length (parseDAG demo_parser 9 demo_args (mergeClaudeAssistantMessageChunks rc before)) = Some 2 \<and>
    map_option length (parseDAG demo_parser 9 demo_args after) = Some 2 \<and>
    map_option length (parseDAG demo_parser 9 demo_args (mergeClaudeAssistantMessageChunks rc after)) = Some 1)"
  by code_simp

text \<open>
  A fork that starts exactly where the stored part ends is not seen when only the appended lines are read:
  they pass both guards and are appended, while reading the whole transcript again drops the first attempt.
\<close>

theorem boundary_fork_missed:
  "(let stored = [demo_message ''r'' [] ''user'', demo_message ''a'' ''r'' ''user'']; appended = [demo_message ''b'' ''r'' ''user''] in
    \<not> hasDAGFork appended \<and> \<not> needsClaudeFullParse appended \<and>
    length (fst (extractMessages infer stored)) + length (fst (extractMessagesFrom infer appended 2)) = 3 \<and>
    map_option (map (\<lambda>r. length (pr_Messages r))) (parseDAG demo_parser 3 demo_args (stored @ appended)) = Some [2])"
  by code_simp

text \<open>
  A usage probe is exactly a session whose user turns all are the command for the usage page, and that has
  one.
\<close>

theorem isUsageProbeSession_iff:
  "isUsageProbeSession ms \<longleftrightarrow>
     filter user_turn ms \<noteq> [] \<and> list_all (\<lambda>m. TrimSpace (ms_Content m) = ''/usage'') (filter user_turn ms)"
  by (auto simp: isUsageProbeSession_def usage_probe_iff)

definition demo_progress :: Parser where
  "demo_progress = demo_parser\<lparr>pz_parse := (\<lambda>_. GObj [] [(''type'', GStr [] ''progress''),
     (''parentToolUseID'', GStr [] ''t''), (''data'', GObj [] [(''type'', GStr [] ''agent_progress''), (''agentId'', GStr [] ''g'')])])\<rparr>"

text \<open>
  An agent that reports after its call was stored is not linked to it: the full scan takes the link from the
  progress line, the reader of appended lines neither takes it nor asks for the full scan.
\<close>

theorem late_agent_link_missed:
  "sc_subagentMap (scan_line demo_progress ''s'' scan_start ''p'') ''t'' = Some ''agent-g'' \<and>
   (let c = append_line demo_progress append_start ''p'' in
     ca_entries c = [] \<and> ca_queuedCommands c = [] \<and> \<not> ca_sawRename c)"
  by code_simp

end
