(* ===== verification/Claude_Reread.thy ===== *)
theory Claude_Reread
  imports Claude_Session
begin

text \<open>
  The two ways of reading a Claude transcript that has grown (\<open>internal/parser/claude.go\<close>): the whole file again
  with \<open>ParseClaudeSessionWithExclusions\<close>, or the appended lines with \<open>ParseClaudeSessionFrom\<close>, both of
  \<^theory_text>\<open>Claude_Session\<close>. When they agree, queued commands included, and when they do not.
\<close>

section \<open>Messages and their numbers\<close>

lemma entry_message_ordinal:
  "entry_message infer e n = map_option (\<lambda>m. m\<lparr>ms_Ordinal := n\<rparr>) (entry_message infer e k)"
proof -
  have t: "extractClaudeTokenFields l (zero_message\<lparr>ms_Ordinal := n, ms_Timestamp := t, ms_SourceUUID := u, ms_SourceParentUUID := p,
      ms_IsSidechain := b, ms_Role := r, ms_Content := c, ms_ThinkingText := th, ms_HasThinking := h, ms_HasToolUse := x,
      ms_ContentLength := cl, ms_ToolCalls := tcs, ms_ToolResults := trs, ms_SourceType := ty, ms_tokenPresenceKnown := kn\<rparr>) =
    (extractClaudeTokenFields l (zero_message\<lparr>ms_Ordinal := k, ms_Timestamp := t, ms_SourceUUID := u, ms_SourceParentUUID := p,
      ms_IsSidechain := b, ms_Role := r, ms_Content := c, ms_ThinkingText := th, ms_HasThinking := h, ms_HasToolUse := x,
      ms_ContentLength := cl, ms_ToolCalls := tcs, ms_ToolResults := trs, ms_SourceType := ty, ms_tokenPresenceKnown := kn\<rparr>))\<lparr>ms_Ordinal := n\<rparr>"
    for l t u p b r c th h x cl tcs trs ty kn
    by (simp add: extractClaudeTokenFields_def Let_def zero_message_def)
  obtain a th h u cs rs where x: "ExtractTextContent infer (gget (de_line e) [''message'', ''content'']) = (a, th, h, u, cs, rs)"
    by (rule prod_cases6)
  show ?thesis unfolding entry_message_def Let_def x prod.case by (simp add: t split: option.split)
qed

lemma renumber_Nil [simp]: "renumber n [] = []"
  by (simp add: renumber_def)

lemma renumber_Cons: "renumber n (m # ms) = m\<lparr>ms_Ordinal := n\<rparr> # renumber (Suc n) ms"
  by (rule nth_equalityI) (auto simp: renumber_nth nth_Cons split: nat.split)

lemma renumber_append: "renumber n (a @ b) = renumber n a @ renumber (n + length a) b"
  by (induction a arbitrary: n) (simp_all add: renumber_Cons)

lemma renumber_same: "map ms_Ordinal ms = [n..<n + length ms] \<Longrightarrow> renumber n ms = ms"
proof (induction ms arbitrary: n)
  case (Cons m ms)
  then have "ms_Ordinal m = n" "map ms_Ordinal ms = [Suc n..<Suc n + length ms]" by (simp_all add: upt_conv_Cons del: upt_Suc)
  then show ?case using Cons.IH [of "Suc n"] by (simp add: renumber_Cons)
qed simp

lemma extract_loop_shift:
  "fst (extract_loop infer es n s f) = renumber n (fst (extract_loop infer es k s' f'))"
proof (induction es arbitrary: n s f k s' f')
  case (Cons e es)
  show ?case
  proof (cases "entry_message infer e k")
    case None
    then have "entry_message infer e n = None" using entry_message_ordinal [of infer e n k] by simp
    then show ?thesis using None Cons.IH by (simp add: Let_def)
  next
    case (Some m)
    then have n: "entry_message infer e n = Some (m\<lparr>ms_Ordinal := n\<rparr>)" using entry_message_ordinal [of infer e n k] by simp
    have "\<exists>a b. fst (extract_loop infer (e # es) n s f) = m\<lparr>ms_Ordinal := n\<rparr> # fst (extract_loop infer es (Suc n) a b)"
      by (simp add: n Let_def case_prod_beta) blast
    moreover have "\<exists>a b. fst (extract_loop infer (e # es) k s' f') = m # fst (extract_loop infer es (Suc k) a b)"
      by (simp add: Some Let_def case_prod_beta) blast
    ultimately show ?thesis using Cons.IH by (metis renumber_Cons)
  qed
qed simp

lemma extract_timestamps:
  "m \<in> set (fst (extract_loop infer es n s f)) \<Longrightarrow> \<exists>e \<in> set es. ms_Timestamp m = de_timestamp e"
proof (induction es arbitrary: n s f)
  case (Cons e es)
  show ?case
  proof (cases "entry_message infer e n")
    case None
    then show ?thesis using Cons by (auto simp: Let_def)
  next
    case (Some x)
    have "\<exists>a b. fst (extract_loop infer (e # es) n s f) = x # fst (extract_loop infer es (Suc n) a b)"
      by (simp add: Some Let_def case_prod_beta) blast
    then show ?thesis using Cons entry_message_fields(2) [OF Some] by fastforce
  qed
qed simp

section \<open>Queued commands and links\<close>

lemma merge_queued_none [simp]: "merge_queued ms [] = ms"
  by (cases ms) simp_all

lemma renumber_merge: "renumber n (merge_queued (renumber k ms) qs) = renumber n (merge_queued ms qs)"
proof (induction ms qs arbitrary: n k rule: merge_queued.induct)
  case (3 m ms q qs)
  have "queuedBefore q (m\<lparr>ms_Ordinal := k\<rparr>) = queuedBefore q m" by (simp add: queuedBefore_def)
  moreover have "merge_queued (renumber k (m # ms)) qs = merge_queued (m\<lparr>ms_Ordinal := k\<rparr> # renumber (Suc k) ms) qs"
    by (simp add: renumber_Cons)
  ultimately show ?case using 3 by (simp add: renumber_Cons)
next
  case (2 m ms)
  have "renumber n (renumber k xs) = renumber n xs" for n k xs by (induction xs arbitrary: n k) (simp_all add: renumber_Cons)
  then show ?case by simp
qed simp

text \<open>The splice of the parts is the splice of the whole when no queued command belongs into the other part.\<close>

lemma merge_queued_append:
  assumes "\<forall>q \<in> set qs. \<forall>m \<in> set ms'. queuedBefore q m" "\<forall>q \<in> set qs'. \<forall>m \<in> set ms. \<not> queuedBefore q m"
  shows "merge_queued (ms @ ms') (qs @ qs') = merge_queued ms qs @ merge_queued ms' qs'"
  using assms
proof (induction ms qs rule: merge_queued.induct)
  case (1 qs)
  then show ?case by (induction qs) (cases ms'; simp)+
next
  case (2 m ms)
  have "merge_queued (xs @ ms') qs' = xs @ merge_queued ms' qs'" if "\<forall>q \<in> set qs'. \<forall>m \<in> set xs. \<not> queuedBefore q m" for xs
    using that by (induction xs) (cases qs'; simp)+
  from this [of "m # ms"] show ?case using 2 by simp
next
  case (3 m ms q qs)
  then show ?case by simp
qed

lemma annotate_queued: "annotateSubagentSessions links (merge_queued ms qs) = merge_queued (annotateSubagentSessions links ms) qs"
  by (induction ms qs rule: merge_queued.induct)
    (simp_all add: annotateSubagentSessions_def queuedCommandMessage_def zero_message_def queuedBefore_def)

lemma annotate_append: "annotateSubagentSessions links (a @ b) = annotateSubagentSessions links a @ annotateSubagentSessions links b"
  by (simp add: annotateSubagentSessions_def)

lemma annotate_renumber: "annotateSubagentSessions links (renumber n ms) = renumber n (annotateSubagentSessions links ms)"
  by (induction ms arbitrary: n) (simp_all add: renumber_Cons annotateSubagentSessions_def)

text \<open>Links that were set are set again, when none of them has gone.\<close>

lemma annotate_again:
  assumes "dom old \<subseteq> dom links"
  shows "annotateSubagentSessions links (annotateSubagentSessions old ms) = annotateSubagentSessions links ms"
proof -
  have "annotate_call links (annotate_call old tc) = annotate_call links tc" for tc
    using assms by (cases tc) (auto simp: annotate_call_def split: option.splits)
  then show ?thesis by (simp add: annotateSubagentSessions_def)
qed

lemma collect_dom: "dom m \<subseteq> dom (collectToolResultAgentID line m)"
  by (auto simp: collectToolResultAgentID_def Let_def)

lemma scan_line_dom: "dom (sc_subagentMap s) \<subseteq> dom (sc_subagentMap (scan_line pz sid s l))"
proof -
  have b: "sc_subagentMap (scan_bounds t x) = sc_subagentMap x" for t x by (simp add: scan_bounds_def)
  have q: "dom (sc_subagentMap x) \<subseteq> dom (sc_subagentMap (scan_queue_operation pz line x))" for line x
    by (auto simp: scan_queue_operation_def Let_def)
  have p: "dom (sc_subagentMap x) \<subseteq> dom (sc_subagentMap (scan_progress line x))" for line x
    by (auto simp: scan_progress_def Let_def)
  have m: "dom (sc_subagentMap x) \<subseteq> dom (sc_subagentMap (scan_message pz sid ty line x))" for ty line x
    using collect_dom by (simp add: scan_message_def Let_def)
  show ?thesis
    unfolding scan_line_def Let_def
    by (simp split: option.split, intro conjI impI allI;
      (rule order_trans [OF _ q] order_trans [OF _ p] order_trans [OF _ m])?; simp add: b)
qed

lemma scan_lines_dom: "dom (sc_subagentMap s) \<subseteq> dom (sc_subagentMap (foldl (scan_line pz sid) s ls))"
proof (induction ls arbitrary: s)
  case (Cons l ls)
  show ?case using order_trans [OF scan_line_dom Cons.IH] by simp
qed simp

section \<open>Both readings\<close>

text \<open>What the whole file and what the appended lines hold.\<close>

definition claude_scan :: "Parser \<Rightarrow> string \<Rightarrow> string list \<Rightarrow> claudeScan" where
  "claude_scan pz path ls = foldl (scan_line pz (trim_suffix (path_base path) ''.jsonl'')) scan_start ls"

definition claude_append :: "Parser \<Rightarrow> string list \<Rightarrow> claudeAppend" where
  "claude_append pz ls = foldl (append_line pz) append_start (filter (pz_valid pz) ls)"

abbreviation merged_entries :: "Parser \<Rightarrow> claudeScan \<Rightarrow> dagEntry list" where
  "merged_entries pz sc \<equiv> mergeClaudeAssistantMessageChunks (pz_replace pz) (sc_entries sc)"

definition forkless :: "dagEntry list \<Rightarrow> bool" where
  "forkless es \<longleftrightarrow> chain es \<or> \<not> wellFormedDAG es"

definition transcript :: "Parser \<Rightarrow> claudeScan \<Rightarrow> ParsedMessage list" where
  "transcript pz sc = renumber 0 (merge_queued
     (annotateSubagentSessions (sc_subagentMap sc) (fst (extractMessages (pz_infer pz) (merged_entries pz sc)))) (sc_queuedCommands sc))"

lemma forkless_linear:
  "forkless es \<Longrightarrow> length es \<le> fuel \<Longrightarrow> (if b then parseDAG pz fuel a es else Some (parseLinear pz a es)) = Some (parseLinear pz a es)"
  using parseDAG_chain [of es fuel pz a] by (auto simp: forkless_def parseDAG_def)

lemma annotated_numbered:
  "renumber 0 (annotateSubagentSessions links (fst (extractMessages infer es))) =
     annotateSubagentSessions links (fst (extractMessages infer es))"
  by (rule renumber_same)
    (simp add: annotate_ordinals length_annotate extracted_ordinals [of infer es "fst (extractMessages infer es)"
      "fst (snd (extractMessages infer es))" "snd (snd (extractMessages infer es))"])

lemma parse_forkless:
  assumes "forkless (merged_entries pz sc)" "length (sc_entries sc) \<le> fuel"
  shows "\<exists>r. pr_Messages r = transcript pz sc \<and>
    parse_scanned pz fuel sid path project machine stat bytes sc =
      Some (if isUsageProbeSession (transcript pz sc) then ([], [ps_ID (pr_Session r)]) else ([r], []))"
proof -
  have len: "length (merged_entries pz sc) \<le> fuel" using length_merge [of "pz_replace pz" "sc_entries sc"] assms(2) by simp
  define a where "a = \<lparr>pa_sessionID = sid, pa_project = project, pa_machine = machine, pa_parentSessionID = sc_parentSessionID sc,
    pa_fileInfo = \<lparr>fi_Path = path, fi_Size = fst stat, fi_Mtime = snd stat\<rparr>, pa_subagentMap = sc_subagentMap sc,
    pa_globalStart = sc_globalStart sc, pa_globalEnd = sc_globalEnd sc,
    pa_meta = \<lparr>cm_sourceSessionID = sc_sourceSessionID sc, cm_sourceVersion = sc_sourceVersion sc, cm_cwd = sc_cwd sc,
      cm_gitBranch = sc_gitBranch sc, cm_displayName = sc_displayName sc, cm_malformedLines = sc_malformedLines sc,
      cm_isTruncated = (sc_lastLine sc \<noteq> [] \<and> TrimSpace (sc_lastLine sc) \<noteq> [] \<and> \<not> pz_valid pz (sc_lastLine sc) \<and>
        \<not> fileEndsWithNewline bytes (fst stat))\<rparr>\<rparr>"
  obtain r where r: "parseLinear pz a (merged_entries pz sc) = [r]"
    "pr_Messages r = annotateSubagentSessions (sc_subagentMap sc) (fst (extractMessages (pz_infer pz) (merged_entries pz sc)))"
    by (simp add: parseLinear_def session_result_def a_def case_prod_beta)
  define q where "q = classify_result (sc_lastLineFailed sc)
    (if sc_queuedCommands sc \<noteq> [] then applyQueuedCommands pz r (sc_queuedCommands sc) else r)"
  have "pr_Messages q = transcript pz sc"
    using annotated_numbered by (simp add: q_def classify_result_def applyQueuedCommands_def transcript_def r(2) mergeQueuedCommands_def
      Let_def case_prod_beta)
  moreover have "parse_scanned pz fuel sid path project machine stat bytes sc =
      Some (if isUsageProbeSession (pr_Messages q) then ([], [ps_ID (pr_Session q)]) else ([q], []))"
    unfolding parse_scanned_def Let_def a_def [symmetric] forkless_linear [OF assms(1) len] r(1)
    by (simp add: q_def)
  ultimately show ?thesis by auto
qed

lemma parse_whole:
  assumes "next_lines (newLineReader fails bytes maxLineSize) = (ls, False)"
  shows "ParseClaudeSessionWithExclusions pz fuel path project machine (Some st) (Some bytes) fails =
    map_option Inr (parse_scanned pz fuel (trim_suffix (path_base path) ''.jsonl'') path project machine st bytes (claude_scan pz path ls))"
  using assms by (simp add: ParseClaudeSessionWithExclusions_def Let_def claude_scan_def)

definition read_appended :: "Parser \<Rightarrow> claudeAppend \<Rightarrow> nat \<Rightarrow> nat \<Rightarrow> parse_error + ParsedMessage list \<times> time \<times> nat" where
  "read_appended pz c start consumed =
     (if ca_sawRename c then Inl ErrClaudeIncrementalNeedsFullParse
      else if ca_entries c = [] \<and> ca_queuedCommands c = [] then Inr ([], ca_latestTS c, consumed)
      else if hasDAGFork (ca_entries c) then Inl ErrDAGDetected
      else if needsClaudeFullParse (ca_entries c) then Inl ErrClaudeIncrementalNeedsFullParse
      else (case extractMessagesFrom (pz_infer pz) (ca_entries c) start of (ms, _, endedAt) \<Rightarrow>
        let ms = (if ca_queuedCommands c \<noteq> [] then mergeQueuedCommands ms (ca_queuedCommands c) start else ms);
            endedAt = fold later_queued (ca_queuedCommands c) endedAt;
            endedAt = (if ca_latestTS c > endedAt then ca_latestTS c else endedAt)
        in Inr (ms, endedAt, consumed)))"

lemma parse_from_lines:
  assumes "readJSONLFrom (pz_valid pz) fails content offset = Some (filter (pz_valid pz) ls, consumed, False)"
  shows "ParseClaudeSessionFrom pz content fails offset start = read_appended pz (claude_append pz ls) start consumed"
  using assms unfolding ParseClaudeSessionFrom_def claude_append_def read_appended_def by (simp add: Let_def cong: if_cong)

lemma parse_appended:
  assumes "readJSONLFrom (pz_valid pz) fails content offset = Some (filter (pz_valid pz) ls, consumed, False)"
    and "ParseClaudeSessionFrom pz content fails offset start = Inr (msgs, ended, n)"
  shows "\<not> needsClaudeFullParse (ca_entries (claude_append pz ls))"
    "msgs = renumber start (merge_queued (fst (extractMessagesFrom (pz_infer pz) (ca_entries (claude_append pz ls)) k))
       (ca_queuedCommands (claude_append pz ls)))"
proof -
  define c where "c = claude_append pz ls"
  have run: "read_appended pz c start consumed = Inr (msgs, ended, n)"
    using assms(2) unfolding parse_from_lines [OF assms(1)] c_def .
  show "\<not> needsClaudeFullParse (ca_entries (claude_append pz ls))"
    using run by (auto simp: read_appended_def needsClaudeFullParse_def simp flip: c_def split: if_splits)
  have ren: "fst (extractMessagesFrom (pz_infer pz) es start) = renumber start (fst (extractMessagesFrom (pz_infer pz) es start))" for es
    unfolding extractMessagesFrom_def by (rule extract_loop_shift)
  have shift: "renumber start (merge_queued (fst (extractMessagesFrom (pz_infer pz) es start)) qs) =
      renumber start (merge_queued (fst (extractMessagesFrom (pz_infer pz) es k)) qs)" for es qs
    unfolding extractMessagesFrom_def extract_loop_shift [of _ es start 0 0 k 0 0] by (rule renumber_merge)
  show "msgs = renumber start (merge_queued (fst (extractMessagesFrom (pz_infer pz) (ca_entries (claude_append pz ls)) k))
       (ca_queuedCommands (claude_append pz ls)))"
    using run ren [of "ca_entries c"] unfolding shift [symmetric] c_def [symmetric]
    by (auto simp: read_appended_def mergeQueuedCommands_def extractMessagesFrom_def Let_def split: if_splits prod.splits)
qed

section \<open>When they agree\<close>

text \<open>
  The appended lines do not go on with the last response that is stored, neither the stored nor the grown transcript
  has a fork, and no queued command belongs among the messages of the other part.
\<close>

definition grown :: "Parser \<Rightarrow> string \<Rightarrow> string list \<Rightarrow> string list \<Rightarrow> bool" where
  "grown pz path old new \<longleftrightarrow>
     separate (sc_entries (claude_scan pz path old)) (ca_entries (claude_append pz new)) \<and>
     forkless (merged_entries pz (claude_scan pz path old)) \<and> forkless (merged_entries pz (claude_scan pz path (old @ new))) \<and>
     (\<forall>q \<in> set (sc_queuedCommands (claude_scan pz path old)). \<forall>e \<in> set (ca_entries (claude_append pz new)).
        \<not> IsZero (qc_timestamp q) \<and> \<not> IsZero (de_timestamp e) \<and> qc_timestamp q < de_timestamp e) \<and>
     (\<forall>q \<in> set (ca_queuedCommands (claude_append pz new)). \<forall>e \<in> set (merged_entries pz (claude_scan pz path old)).
        IsZero (qc_timestamp q) \<or> IsZero (de_timestamp e) \<or> de_timestamp e \<le> qc_timestamp q)"

lemma scan_append:
  "sc_entries (claude_scan pz path (old @ new)) = sc_entries (claude_scan pz path old) @ ca_entries (claude_append pz new)"
  "sc_queuedCommands (claude_scan pz path (old @ new)) =
     sc_queuedCommands (claude_scan pz path old) @ ca_queuedCommands (claude_append pz new)"
proof -
  have split: "ca_entries (foldl (append_line pz) c ls) = ca_entries c @ ca_entries (foldl (append_line pz) append_start ls) \<and>
      ca_queuedCommands (foldl (append_line pz) c ls) = ca_queuedCommands c @ ca_queuedCommands (foldl (append_line pz) append_start ls)"
    for c ls
  proof (induction ls arbitrary: c)
    case (Cons l ls)
    have "ca_entries (append_line pz c l) = ca_entries c @ ca_entries (append_line pz append_start l) \<and>
        ca_queuedCommands (append_line pz c l) = ca_queuedCommands c @ ca_queuedCommands (append_line pz append_start l)"
      by (simp add: append_line_def append_start_def Let_def split: option.split)
    then show ?case using Cons.IH [of "append_line pz c l"] Cons.IH [of "append_line pz append_start l"] by simp
  qed (simp add: append_start_def)
  let ?sid = "trim_suffix (path_base path) ''.jsonl''"
  have same: "same_scan (foldl (scan_line pz ?sid) scan_start ls) (foldl (append_line pz) append_start (filter (pz_valid pz) ls))" for ls
    by (rule scan_lines_same) (simp add: same_scan_def scan_start_def append_start_def)
  show "sc_entries (claude_scan pz path (old @ new)) = sc_entries (claude_scan pz path old) @ ca_entries (claude_append pz new)"
    "sc_queuedCommands (claude_scan pz path (old @ new)) =
       sc_queuedCommands (claude_scan pz path old) @ ca_queuedCommands (claude_append pz new)"
    using same [of old] same [of "old @ new"] split [of "foldl (append_line pz) append_start (filter (pz_valid pz) old)"]
    by (simp_all add: same_scan_def claude_scan_def claude_append_def)
qed

lemma transcript_append:
  assumes g: "grown pz path old new" and full: "\<not> needsClaudeFullParse (ca_entries (claude_append pz new))"
  shows "transcript pz (claude_scan pz path (old @ new)) =
    annotateSubagentSessions (sc_subagentMap (claude_scan pz path (old @ new)))
      (transcript pz (claude_scan pz path old) @
       renumber (length (transcript pz (claude_scan pz path old)))
         (merge_queued (fst (extractMessagesFrom (pz_infer pz) (ca_entries (claude_append pz new)) 0))
           (ca_queuedCommands (claude_append pz new))))"
proof -
  define s1 s2 c where "s1 = claude_scan pz path old" and "s2 = claude_scan pz path (old @ new)" and "c = claude_append pz new"
  define ms1 ms2 where "ms1 = fst (extractMessages (pz_infer pz) (merged_entries pz s1))"
    and "ms2 = fst (extractMessagesFrom (pz_infer pz) (ca_entries c) (length ms1))"
  let ?links = "sc_subagentMap s2" and ?qs = "sc_queuedCommands s1" and ?qs' = "ca_queuedCommands c"
  have "merged_entries pz s2 = merged_entries pz s1 @ ca_entries c"
    using merge_append [of "sc_entries s1" "ca_entries c" "pz_replace pz"] g full no_chunks
    by (simp add: grown_def needsClaudeFullParse_def s1_def s2_def c_def scan_append(1))
  then have ms: "fst (extractMessages (pz_infer pz) (merged_entries pz s2)) = ms1 @ ms2"
    by (simp add: extract_incremental ms1_def ms2_def case_prod_beta)
  have qs: "sc_queuedCommands s2 = ?qs @ ?qs'" by (simp add: s1_def s2_def c_def scan_append(2))
  have t1: "\<exists>e \<in> set (merged_entries pz s1). ms_Timestamp m = de_timestamp e" if "m \<in> set ms1" for m
    using extract_timestamps that unfolding ms1_def extractMessages_def by blast
  have t2: "\<exists>e \<in> set (ca_entries c). ms_Timestamp m = de_timestamp e" if "m \<in> set ms2" for m
    using extract_timestamps that unfolding ms2_def extractMessagesFrom_def by blast
  have times: "ms_Timestamp ` set (annotateSubagentSessions links xs) = ms_Timestamp ` set xs" for links xs
    by (simp add: annotateSubagentSessions_def image_image)
  have before: "\<forall>q \<in> set ?qs. \<forall>m \<in> set (annotateSubagentSessions ?links ms2). queuedBefore q m"
  proof (intro ballI)
    fix q m assume q: "q \<in> set ?qs" and "m \<in> set (annotateSubagentSessions ?links ms2)"
    then have "ms_Timestamp m \<in> ms_Timestamp ` set ms2" using times by blast
    then show "queuedBefore q m" using g q t2 unfolding grown_def queuedBefore_def s1_def c_def by fastforce
  qed
  have after: "\<forall>q \<in> set ?qs'. \<forall>m \<in> set (annotateSubagentSessions ?links ms1). \<not> queuedBefore q m"
  proof (intro ballI)
    fix q m assume q: "q \<in> set ?qs'" and "m \<in> set (annotateSubagentSessions ?links ms1)"
    then have "ms_Timestamp m \<in> ms_Timestamp ` set ms1" using times by blast
    then show "\<not> queuedBefore q m" using g q t1 unfolding grown_def queuedBefore_def s1_def c_def by fastforce
  qed
  have dom: "dom (sc_subagentMap s1) \<subseteq> dom ?links"
    by (simp add: s1_def s2_def claude_scan_def scan_lines_dom)
  let ?m1 = "merge_queued (annotateSubagentSessions ?links ms1) ?qs" and ?m2 = "merge_queued (annotateSubagentSessions ?links ms2) ?qs'"
  have tr1: "annotateSubagentSessions ?links (transcript pz s1) = renumber 0 ?m1"
    by (simp add: transcript_def ms1_def [symmetric] annotate_renumber annotate_queued annotate_again [OF dom])
  have len: "length (transcript pz s1) = length ?m1"
    using arg_cong [OF tr1, of length] by (simp add: length_annotate)
  have "transcript pz s2 = renumber 0 ?m1 @ renumber (length ?m1) ?m2"
    by (simp add: transcript_def ms qs annotate_append merge_queued_append [OF before after] renumber_append)
  also have "renumber (length ?m1) ?m2 = annotateSubagentSessions ?links (renumber (length (transcript pz s1)) (merge_queued ms2 ?qs'))"
    by (simp add: annotate_renumber annotate_queued len)
  also have "renumber (length (transcript pz s1)) (merge_queued ms2 ?qs') =
      renumber (length (transcript pz s1)) (merge_queued (fst (extractMessagesFrom (pz_infer pz) (ca_entries c) 0)) ?qs')"
    unfolding ms2_def extractMessagesFrom_def extract_loop_shift [of _ _ "length ms1" 0 0 0 0 0] by (rule renumber_merge)
  finally show ?thesis unfolding tr1 [symmetric] by (simp add: annotate_append s1_def s2_def c_def)
qed

text \<open>
  C20. The incremental reading is the full reading: a file of the lines \<open>old\<close> that was read as one session \<open>r\<close>
  grows by the lines \<open>new\<close>, and the reader of appended lines accepts them. When they do not go on with the last
  stored response, there is no fork, and no queued command belongs by its time among the messages of the other part,
  then reading the whole file again yields one session whose messages are the stored ones followed by exactly those
  that the reader of appended lines returned, queued commands included, up to the links of tool calls to subagents (or
  leaves the session out, when all its user turns are usage probes).
\<close>

theorem incremental_matches_full:
  assumes "next_lines (newLineReader fails bytes maxLineSize) = (old, False)"
    and "next_lines (newLineReader fails' bytes' maxLineSize) = (old @ new, False)"
    and "readJSONLFrom (pz_valid pz) fails'' (Some bytes') offset = Some (filter (pz_valid pz) new, consumed, False)"
    and "grown pz path old new" "length (sc_entries (claude_scan pz path (old @ new))) \<le> fuel"
    and "ParseClaudeSessionWithExclusions pz fuel path project machine (Some st) (Some bytes) fails = Some (Inr ([r], []))"
    and "ParseClaudeSessionFrom pz (Some bytes') fails'' offset (length (pr_Messages r)) = Inr (msgs, ended, n)"
  shows "\<exists>r'. pr_Messages r' =
        annotateSubagentSessions (sc_subagentMap (claude_scan pz path (old @ new))) (pr_Messages r @ msgs) \<and>
      ParseClaudeSessionWithExclusions pz fuel path project machine (Some st') (Some bytes') fails' =
        Some (Inr (if isUsageProbeSession (pr_Messages r') then ([], [ps_ID (pr_Session r')]) else ([r'], [])))"
proof -
  let ?sid = "trim_suffix (path_base path) ''.jsonl''"
  have len: "length (sc_entries (claude_scan pz path old)) \<le> fuel"
    using assms(5) by (simp add: scan_append(1))
  have "parse_scanned pz fuel ?sid path project machine st bytes (claude_scan pz path old) = Some ([r], [])"
    using assms(6) by (simp add: ParseClaudeSessionWithExclusions_def Let_def assms(1) claude_scan_def)
  moreover obtain r0 where r0: "pr_Messages r0 = transcript pz (claude_scan pz path old)"
    "parse_scanned pz fuel ?sid path project machine st bytes (claude_scan pz path old) =
      Some (if isUsageProbeSession (transcript pz (claude_scan pz path old)) then ([], [ps_ID (pr_Session r0)]) else ([r0], []))"
    using parse_forkless [OF _ len] assms(4) unfolding grown_def by blast
  ultimately have r: "pr_Messages r = transcript pz (claude_scan pz path old)" by (auto split: if_splits)
  obtain r2 where r2: "pr_Messages r2 = transcript pz (claude_scan pz path (old @ new))"
    "parse_scanned pz fuel ?sid path project machine st' bytes' (claude_scan pz path (old @ new)) =
      Some (if isUsageProbeSession (transcript pz (claude_scan pz path (old @ new))) then ([], [ps_ID (pr_Session r2)]) else ([r2], []))"
    using parse_forkless [OF _ assms(5)] assms(4) unfolding grown_def by blast
  note app = parse_appended [OF assms(3,7)]
  have "pr_Messages r2 = annotateSubagentSessions (sc_subagentMap (claude_scan pz path (old @ new))) (pr_Messages r @ msgs)"
    using transcript_append [OF assms(4) app(1)] app(2) [of 0] by (simp add: r2(1) r)
  moreover have "ParseClaudeSessionWithExclusions pz fuel path project machine (Some st') (Some bytes') fails' =
      Some (Inr (if isUsageProbeSession (pr_Messages r2) then ([], [ps_ID (pr_Session r2)]) else ([r2], [])))"
    using r2 by (simp add: ParseClaudeSessionWithExclusions_def Let_def assms(2) claude_scan_def)
  ultimately show ?thesis by blast
qed

section \<open>Runs\<close>

text \<open>Lines \<open>a\<close> and \<open>b\<close> are messages of the user at the times 2 and 4, \<open>q\<close> and \<open>p\<close> queued commands of 3 and 1.\<close>

definition demo_queue_reader :: Parser where
  "demo_queue_reader = demo_parser\<lparr>
     pz_time := (\<lambda>t. if t = ''a'' then 2 else if t = ''b'' then 4 else if t = ''q'' then 3 else if t = ''p'' then 1 else 0),
     pz_parse := (\<lambda>l. if l = ''q'' \<or> l = ''p''
       then GObj [] [(''type'', GStr [] ''attachment''), (''timestamp'', GStr [] l),
         (''attachment'', GObj [] [(''type'', GStr [] ''queued_command''), (''prompt'', GStr [] l)])]
       else GObj [] [(''type'', GStr [] ''user''), (''timestamp'', GStr [] l), (''uuid'', GStr [] l),
         (''parentUuid'', GStr [] (if l = ''a'' then [] else ''a'')), (''message'', GObj [] [(''content'', GStr [] l)])])\<rparr>"

lemma next_lines_loop: "next_lines r = (fst (jsonl_loop (\<lambda>_. True) k r), snd (snd (jsonl_loop (\<lambda>_. True) k r)))"
proof (induction r arbitrary: k rule: next_lines.induct)
  case (1 r)
  obtain x r1 where n: "next_line r = (x, r1)" by fastforce
  show ?case
  proof (cases x)
    case None
    have "jsonl_loop (\<lambda>_. True) k r = ([], k, lr_err r1)" by (subst jsonl_loop.simps) (simp add: n None)
    then show ?thesis using n None by (subst next_lines.simps) simp
  next
    case (Some l)
    have "jsonl_loop (\<lambda>_. True) k r = (case jsonl_loop (\<lambda>_. True) (lr_bytesRead r1) r1 of (ls, res) \<Rightarrow> (l # ls, res))"
      by (subst jsonl_loop.simps) (simp add: n Some)
    then show ?thesis
      using "1.IH" [OF n [symmetric] Some, of "lr_bytesRead r1"] n Some
      by (subst next_lines.simps) (simp add: case_prod_beta)
  qed
qed

lemma next_lines_terminated:
  assumes "list_all (\<lambda>l. newline \<notin> set l \<and> strip_cr l = l \<and> keep_line maxLen l) ls"
  shows "next_lines (newLineReader False (terminated ls) maxLen) = (ls, False)"
proof -
  have d: "fst (deliver (\<lambda>l. keep_line maxLen l \<and> True) k pos ls []) = ls" for k pos
    using assms unfolding deliver_lines by (induction ls) (auto simp: keep_line_def)
  have "list_all (\<lambda>l. newline \<notin> set l) ([] # ls)" using assms by (simp add: list_all_iff)
  from readJSONL_deliver [of "terminated ls" ls "[]", OF _ this, of "\<lambda>_. True" maxLen] d [of 0 0]
  show ?thesis unfolding next_lines_loop [of _ 0] by (simp add: case_prod_beta)
qed

theorem incremental_matches_full_witness:
  "\<exists>r'. map ms_Content (pr_Messages r') = [''a'', ''q'', ''b''] \<and>
     ParseClaudeSessionWithExclusions demo_queue_reader 3 ''f.jsonl'' [] [] (Some (6, 0)) (Some (terminated [''a'', ''q'', ''b''])) False =
       Some (Inr ([r'], []))"
proof -
  let ?pz = demo_queue_reader and ?old = "terminated [''a'']" and ?all = "terminated [''a'', ''q'', ''b'']"
  have valid: "pz_valid ?pz = (\<lambda>_. True)" by (simp add: demo_queue_reader_def demo_parser_def)
  have lines: "next_lines (newLineReader False ?old maxLineSize) = ([''a''], False)"
    "next_lines (newLineReader False ?all maxLineSize) = ([''a''] @ [''q'', ''b''], False)"
    using next_lines_terminated [of maxLineSize "[''a'']"] next_lines_terminated [of maxLineSize "[''a'', ''q'', ''b'']"]
    by (simp_all add: keep_line_def strip_cr_def)
  have read: "readJSONLFrom (pz_valid ?pz) False (Some ?all) 2 = Some (filter (pz_valid ?pz) [''q'', ''b''], 4, False)"
    using readJSONL_deliver [of "terminated [''q'', ''b'']" "[''q'', ''b'']" "[]" "\<lambda>_. True" maxLineSize]
    by (simp add: readJSONLFrom_def valid terminated_def keep_line_def strip_cr_def)
  have g: "grown ?pz ''f.jsonl'' [''a''] [''q'', ''b'']" "length (sc_entries (claude_scan ?pz ''f.jsonl'' ([''a''] @ [''q'', ''b'']))) \<le> 3"
    by code_simp+
  let ?parse = "parse_scanned ?pz 3 (trim_suffix (path_base ''f.jsonl'') ''.jsonl'') ''f.jsonl'' [] []"
  have "case ?parse (2, 0) ?old (claude_scan ?pz ''f.jsonl'' [''a'']) of Some ([r], []) \<Rightarrow> map ms_Content (pr_Messages r) = [''a''] | _ \<Rightarrow> False"
    by code_simp
  then obtain r where r: "ParseClaudeSessionWithExclusions ?pz 3 ''f.jsonl'' [] [] (Some (2, 0)) (Some ?old) False = Some (Inr ([r], []))"
    "map ms_Content (pr_Messages r) = [''a'']" unfolding parse_whole [OF lines(1)] by (auto split: option.splits prod.splits list.splits)
  have n: "length (pr_Messages r) = 1" using arg_cong [OF r(2), of length] by simp
  have "case read_appended ?pz (claude_append ?pz [''q'', ''b'']) 1 4 of Inr (msgs, _, _) \<Rightarrow> map ms_Content msgs = [''q'', ''b''] | _ \<Rightarrow> False"
    by code_simp
  then obtain msgs ended k where m: "ParseClaudeSessionFrom ?pz (Some ?all) False 2 (length (pr_Messages r)) = Inr (msgs, ended, k)"
    "map ms_Content msgs = [''q'', ''b'']" unfolding parse_from_lines [OF read] n by (auto split: sum.splits prod.splits)
  obtain r' where r': "pr_Messages r' = annotateSubagentSessions (sc_subagentMap (claude_scan ?pz ''f.jsonl'' ([''a''] @ [''q'', ''b''])))
        (pr_Messages r @ msgs)"
      "ParseClaudeSessionWithExclusions ?pz 3 ''f.jsonl'' [] [] (Some (6, 0)) (Some ?all) False =
        Some (Inr (if isUsageProbeSession (pr_Messages r') then ([], [ps_ID (pr_Session r')]) else ([r'], [])))"
    using incremental_matches_full [OF lines read g r(1) m(1)] by blast
  have c: "map ms_Content (pr_Messages r') = [''a'', ''q'', ''b'']"
    using r(2) m(2) by (simp add: r'(1) annotateSubagentSessions_def comp_def)
  have "case ?parse (6, 0) ?all (claude_scan ?pz ''f.jsonl'' ([''a''] @ [''q'', ''b''])) of Some (rs, _) \<Rightarrow> rs \<noteq> [] | _ \<Rightarrow> False"
    by code_simp
  then show ?thesis using r'(2) c unfolding parse_whole [OF lines(2)] by (auto split: if_splits)
qed

text \<open>
  An appended queued command that is older than a stored message is put before it by the full reading, and after all
  stored messages by the reader of appended lines.
\<close>

theorem queued_command_order_differs:
  "(case read_appended demo_queue_reader (claude_append demo_queue_reader [''p'']) 1 4 of
      Inr (msgs, _, _) \<Rightarrow> map (\<lambda>m. (ms_Ordinal m, ms_Content m)) msgs = [(1, ''p'')] | _ \<Rightarrow> False) \<and>
   map (\<lambda>m. (ms_Ordinal m, ms_Content m)) (transcript demo_queue_reader (claude_scan demo_queue_reader ''f.jsonl'' [''a'', ''p''])) =
     [(0, ''p''), (1, ''a'')]"
  by code_simp

end
