(* ===== verification/Automation.thy ===== *)
theory Automation
  imports Utf8
begin

text \<open>
  Which sessions count as automated (\<open>internal/db/automated.go\<close>) and the hash that tells when the stored
  classification is out of date (\<open>internal/db/classifier_hash.go\<close>). The user's matchers, package state behind
  a lock in Go, are an argument; \<open>digest\<close> is hex SHA-256.
\<close>

section \<open>Matchers\<close>

definition automatedPrefixes :: "string list" where
  "automatedPrefixes =
     [''You are a code reviewer.'',
      ''You are a security code reviewer.'',
      ''You are a design reviewer.'',
      ''You are a code assistant. Your task is to address'',
      ''You are a code review insights analyst.'',
      ''You are reviewing whether an implementation matches'',
      ''You are a plan document reviewer.'',
      ''You are a spec document reviewer.'',
      ''You are summarizing a day of AI agent activity.'',
      ''You are analyzing AI agent sessions.'',
      ''## Analysis Request'',
      ''# Fix Request'',
      ''You are a helpful assistant working on a software project.'',
      ''You are combining multiple code review outputs into a single GitHub PR comment.'',
      ''You are generating a changelog'',
      ''<user_action>'',
      ''Review the code changes introduced by commit '',
      ''Review the code changes in commit '',
      ''Implement the following plan:'']"

definition automatedSubstrings :: "string list" where
  "automatedSubstrings = [''invoked by roborev to perform this review'', ''You are a conversation title generator'']"

definition automatedExactMatches :: "string list" where
  "automatedExactMatches = [''Warmup'', ''Respond with exactly: OK'', ''Reply with exactly OK.'']"

definition userPrefixMaxLen :: nat where
  "userPrefixMaxLen = 1024"

record userAutomationConfig =
  ua_prefixes :: "string list"
  ua_substrings :: "string list"
  ua_exactMatches :: "string list"

fun normalize_loop :: "string list \<Rightarrow> string set \<Rightarrow> string list \<Rightarrow> string list" where
  "normalize_loop builtins seen [] = []"
| "normalize_loop builtins seen (raw # rest) =
     (let s = TrimSpace raw in
      if s = [] \<or> length s > userPrefixMaxLen then normalize_loop builtins seen rest
      else if s \<in> seen then normalize_loop builtins seen rest
      else if s \<in> set builtins then normalize_loop builtins seen rest
      else s # normalize_loop builtins (insert s seen) rest)"

definition normalizeUserPatterns :: "string list \<Rightarrow> string list \<Rightarrow> string list" where
  "normalizeUserPatterns pats builtins = normalize_loop builtins {} pats"

definition SetUserAutomationMatchers :: "string list \<Rightarrow> string list \<Rightarrow> string list \<Rightarrow> userAutomationConfig" where
  "SetUserAutomationMatchers pres subs exacts =
     \<lparr>ua_prefixes = normalizeUserPatterns pres automatedPrefixes,
      ua_substrings = normalizeUserPatterns subs automatedSubstrings,
      ua_exactMatches = normalizeUserPatterns exacts automatedExactMatches\<rparr>"

definition SetUserAutomationPrefixes :: "string list \<Rightarrow> userAutomationConfig" where
  "SetUserAutomationPrefixes pres = SetUserAutomationMatchers pres [] []"

definition IsAutomatedSession :: "userAutomationConfig \<Rightarrow> string \<Rightarrow> bool" where
  "IsAutomatedSession configured firstMessage =
     (if list_ex (has_prefix firstMessage) automatedPrefixes then True
      else if list_ex (has_prefix firstMessage) (ua_prefixes configured) then True
      else if list_ex (str_contains firstMessage) automatedSubstrings then True
      else if list_ex (str_contains firstMessage) (ua_substrings configured) then True
      else let trimmed = TrimSpace firstMessage in
        trimmed \<in> set automatedExactMatches \<or> trimmed \<in> set (ua_exactMatches configured))"

section \<open>The hash\<close>

definition classifierAlgorithmVersion :: int where
  "classifierAlgorithmVersion = 2"

abbreviation tab :: char where "tab \<equiv> CHR 0x09"

definition tagged_line :: "string \<times> string \<Rightarrow> string" where
  "tagged_line p = fst p @ [tab] @ nat_digits (length (snd p)) @ [tab] @ snd p @ [newline]"

definition writeSorted :: "string \<Rightarrow> string \<Rightarrow> string list \<Rightarrow> string" where
  "writeSorted h tag items = h @ concat (map (\<lambda>s. tagged_line (tag, s)) (sort items))"

definition classifier_bytes :: "userAutomationConfig \<Rightarrow> string" where
  "classifier_bytes c =
     (let h = ''v'' @ itoa classifierAlgorithmVersion @ [newline];
          h = writeSorted h ''P'' automatedPrefixes;
          h = writeSorted h ''S'' automatedSubstrings;
          h = writeSorted h ''E'' automatedExactMatches;
          h = writeSorted h ''U'' (ua_prefixes c);
          h = writeSorted h ''US'' (ua_substrings c)
      in writeSorted h ''UE'' (ua_exactMatches c))"

definition ClassifierHash :: "(string \<Rightarrow> string) \<Rightarrow> userAutomationConfig \<Rightarrow> string" where
  "ClassifierHash digest c = digest (classifier_bytes c)"

section \<open>Lemmas\<close>

lemma takeWhile_marker: "x \<notin> set a \<Longrightarrow> takeWhile (\<lambda>c. c \<noteq> x) (a @ x # s) = a"
  by (induction a) auto

lemma append_marker_inject:
  assumes "x \<notin> set a" "x \<notin> set b" "a @ x # s = b @ x # t"
  shows "a = b \<and> s = t"
proof -
  have "a = b" using takeWhile_marker assms by metis
  then show ?thesis using assms(3) by simp
qed

lemma tab_not_digit: "tab \<notin> set (nat_digits n)"
  using nat_digits_digits [of tab n] by (auto simp: is_digit_def byte_def)

interpretation tagged: stream_code tagged_line "\<lambda>a b. tab \<notin> set (fst a) \<and> tab \<notin> set (fst b)"
proof
  fix a b :: "string \<times> string" and s t
  assume tags: "tab \<notin> set (fst a) \<and> tab \<notin> set (fst b)" and eq: "tagged_line a @ s = tagged_line b @ t"
  have "fst a @ tab # (nat_digits (length (snd a)) @ tab # (snd a @ newline # s)) =
      fst b @ tab # (nat_digits (length (snd b)) @ tab # (snd b @ newline # t))"
    using eq by (simp add: tagged_line_def)
  from append_marker_inject [OF _ _ this] tags
  have tag: "fst a = fst b" and rest: "nat_digits (length (snd a)) @ tab # (snd a @ newline # s) =
      nat_digits (length (snd b)) @ tab # (snd b @ newline # t)" by simp_all
  from append_marker_inject [OF tab_not_digit tab_not_digit rest]
  have "length (snd a) = length (snd b)" and body: "snd a @ newline # s = snd b @ newline # t" by simp_all
  then have "snd a = snd b \<and> s = t" by simp
  then show "a = b \<and> s = t" using tag by (simp add: prod_eq_iff)
next
  show "tagged_line a \<noteq> []" for a by (simp add: tagged_line_def)
qed

lemma normalize_loop_set:
  "set (normalize_loop builtins seen pats) =
     {s. s \<in> TrimSpace ` set pats \<and> s \<noteq> [] \<and> length s \<le> userPrefixMaxLen \<and> s \<notin> set builtins \<and> s \<notin> seen} \<and>
   distinct (normalize_loop builtins seen pats)"
proof (induction pats arbitrary: seen)
  case (Cons raw rest)
  show ?case using Cons [of seen] Cons [of "insert (TrimSpace raw) seen"] by (auto simp: Let_def)
qed simp

definition user_lines :: "userAutomationConfig \<Rightarrow> (string \<times> string) list" where
  "user_lines c = map (Pair ''U'') (sort (ua_prefixes c)) @ map (Pair ''US'') (sort (ua_substrings c)) @
     map (Pair ''UE'') (sort (ua_exactMatches c))"

lemma writeSorted_user:
  "writeSorted (writeSorted (writeSorted h ''U'' (ua_prefixes c)) ''US'' (ua_substrings c)) ''UE'' (ua_exactMatches c) =
     h @ concat (map tagged_line (user_lines c))"
  by (simp add: writeSorted_def user_lines_def comp_def)

lemma classifier_bytes_lines: "\<exists>h. \<forall>c. classifier_bytes c = h @ concat (map tagged_line (user_lines c))"
  unfolding classifier_bytes_def Let_def writeSorted_user by (rule exI, rule allI, rule refl)

lemma user_lines_parts:
  "map snd (filter (\<lambda>p. fst p = ''U'') (user_lines c)) = sort (ua_prefixes c)"
  "map snd (filter (\<lambda>p. fst p = ''US'') (user_lines c)) = sort (ua_substrings c)"
  "map snd (filter (\<lambda>p. fst p = ''UE'') (user_lines c)) = sort (ua_exactMatches c)"
  by (simp_all add: user_lines_def filter_map comp_def)

lemma user_lines_eq_iff:
  "user_lines c = user_lines c' \<longleftrightarrow>
     mset (ua_prefixes c) = mset (ua_prefixes c') \<and> mset (ua_substrings c) = mset (ua_substrings c') \<and>
     mset (ua_exactMatches c) = mset (ua_exactMatches c')"
proof
  assume "user_lines c = user_lines c'"
  then have "sort (ua_prefixes c) = sort (ua_prefixes c')" "sort (ua_substrings c) = sort (ua_substrings c')"
    "sort (ua_exactMatches c) = sort (ua_exactMatches c')" using user_lines_parts by metis+
  then show "mset (ua_prefixes c) = mset (ua_prefixes c') \<and> mset (ua_substrings c) = mset (ua_substrings c') \<and>
     mset (ua_exactMatches c) = mset (ua_exactMatches c')" by (metis mset_sort)
next
  have same: "sort xs = sort ys" if "mset xs = mset ys" for xs ys :: "string list"
  proof (rule properties_for_sort)
    show "mset (sort ys) = mset xs" using that by simp
  qed simp
  assume "mset (ua_prefixes c) = mset (ua_prefixes c') \<and> mset (ua_substrings c) = mset (ua_substrings c') \<and>
     mset (ua_exactMatches c) = mset (ua_exactMatches c')"
  then have "sort (ua_prefixes c) = sort (ua_prefixes c')" "sort (ua_substrings c) = sort (ua_substrings c')"
    "sort (ua_exactMatches c) = sort (ua_exactMatches c')" using same by blast+
  then show "user_lines c = user_lines c'" unfolding user_lines_def by simp
qed

section \<open>Properties\<close>

text \<open>
  The hash changes exactly when the user's matchers do: equal bytes are hashed if and only if the three lists
  hold the same patterns, whatever their order; moving a pattern from one list to another changes them.
\<close>

theorem ClassifierHash_exact:
  "classifier_bytes c = classifier_bytes c' \<longleftrightarrow>
     mset (ua_prefixes c) = mset (ua_prefixes c') \<and> mset (ua_substrings c) = mset (ua_substrings c') \<and>
     mset (ua_exactMatches c) = mset (ua_exactMatches c')"
proof -
  obtain h where h: "\<forall>c. classifier_bytes c = h @ concat (map tagged_line (user_lines c))"
    using classifier_bytes_lines by (rule exE)
  have tags: "tab \<notin> set (fst p)" if "p \<in> set (user_lines c)" for p c
    using that by (auto simp: user_lines_def)
  have "classifier_bytes c = classifier_bytes c' \<longleftrightarrow>
      concat (map tagged_line (user_lines c)) = concat (map tagged_line (user_lines c'))"
    unfolding h [THEN spec, of c] h [THEN spec, of c'] by (rule same_append_eq)
  also have "\<dots> \<longleftrightarrow> user_lines c = user_lines c'"
  proof
    assume "concat (map tagged_line (user_lines c)) = concat (map tagged_line (user_lines c'))"
    then show "user_lines c = user_lines c'" using tags by (intro tagged.stream_read_unique) blast+
  qed simp
  finally have "classifier_bytes c = classifier_bytes c' \<longleftrightarrow> user_lines c = user_lines c'" .
  then show ?thesis by (simp only: user_lines_eq_iff)
qed

text \<open>
  Normalising the user's patterns keeps exactly the trimmed patterns that are not empty, not too long and
  not built in, each once.
\<close>

theorem normalizeUserPatterns_exact:
  "set (normalizeUserPatterns pats builtins) =
     {s. s \<in> TrimSpace ` set pats \<and> s \<noteq> [] \<and> length s \<le> userPrefixMaxLen \<and> s \<notin> set builtins} \<and>
   distinct (normalizeUserPatterns pats builtins)"
  using normalize_loop_set [of builtins "{}" pats] by (simp add: normalizeUserPatterns_def)

text \<open>A session is automated exactly when one of the built-in or configured matchers applies.\<close>

theorem IsAutomatedSession_iff:
  "IsAutomatedSession c m \<longleftrightarrow>
     (\<exists>p \<in> set (automatedPrefixes @ ua_prefixes c). has_prefix m p) \<or>
     (\<exists>s \<in> set (automatedSubstrings @ ua_substrings c). str_contains m s) \<or>
     TrimSpace m \<in> set (automatedExactMatches @ ua_exactMatches c)"
  by (auto simp: IsAutomatedSession_def list_ex_iff Let_def)

end
