(* ===== verification/Sync_Pairing.thy ===== *)
theory Sync_Pairing
  imports Claude_Session Validate
begin

text \<open>
  From parsed messages to rows (\<open>internal/sync/engine.go\<close>): the conversion to \<open>db.Message\<close>, the pairing of tool
  results with the calls they answer, the summary of result events, and the removal of messages that only
  carry results; with the token presence rules of \<open>internal/parser/types.go\<close>. \<open>Conv\<close> holds what libraries
  do: the time format, the JSON reader, the keys of a JSON object, and the categories the user blocked.
\<close>

section \<open>Token presence\<close>

record Conv =
  cv_format :: "time \<Rightarrow> string"
  cv_parse :: "string \<Rightarrow> gresult"
  cv_keys :: "string \<Rightarrow> string list option"
  cv_blocked :: "string set"

definition InferTokenPresence ::
  "(string \<Rightarrow> string list option) \<Rightarrow> string \<Rightarrow> int \<Rightarrow> int \<Rightarrow> bool \<Rightarrow> bool \<Rightarrow> bool \<times> bool" where
  "InferTokenPresence json_keys tokenUsage contextTokens outputTokens hasContext hasOutput =
     (let hasContext = (hasContext \<or> contextTokens \<noteq> 0); hasOutput = (hasOutput \<or> outputTokens \<noteq> 0) in
      if tokenUsage = [] then (hasContext, hasOutput)
      else (case json_keys tokenUsage of
              None \<Rightarrow> (hasContext, hasOutput)
            | Some ks \<Rightarrow>
                (hasContext \<or> list_ex (\<lambda>k. k \<in> {''input_tokens'', ''cache_creation_input_tokens'',
                   ''cache_read_input_tokens'', ''input'', ''cached'', ''context_tokens''}) ks,
                 hasOutput \<or> list_ex (\<lambda>k. k \<in> {''output_tokens'', ''output''}) ks)))"

definition TokenPresence :: "(string \<Rightarrow> string list option) \<Rightarrow> ParsedMessage \<Rightarrow> bool \<times> bool" where
  "TokenPresence json_keys m =
     (if ms_tokenPresenceKnown m then (ms_HasContextTokens m, ms_HasOutputTokens m)
      else InferTokenPresence json_keys (ms_TokenUsage m) (ms_ContextTokens m) (ms_OutputTokens m)
             (ms_HasContextTokens m) (ms_HasOutputTokens m))"

definition AggregateTokenPresence :: "ParsedSession \<Rightarrow> bool \<times> bool" where
  "AggregateTokenPresence s =
     (if ps_aggregateTokenPresenceKnown s then (ps_HasTotalOutputTokens s, ps_HasPeakContextTokens s)
      else (ps_HasTotalOutputTokens s \<or> ps_TotalOutputTokens s > 0,
            ps_HasPeakContextTokens s \<or> ps_PeakContextTokens s > 0))"

fun coverage_loop :: "(string \<Rightarrow> string list option) \<Rightarrow> ParsedMessage list \<Rightarrow> bool \<times> bool \<Rightarrow> bool \<times> bool" where
  "coverage_loop json_keys [] acc = acc"
| "coverage_loop json_keys (m # ms) (hasTotal, hasPeak) =
     (case TokenPresence json_keys m of (msgHasCtx, msgHasOut) \<Rightarrow>
        coverage_loop json_keys ms (hasTotal \<or> msgHasOut, hasPeak \<or> msgHasCtx))"

definition TokenCoverage :: "(string \<Rightarrow> string list option) \<Rightarrow> ParsedSession \<Rightarrow> ParsedMessage list \<Rightarrow> bool \<times> bool" where
  "TokenCoverage json_keys s msgs = coverage_loop json_keys msgs (AggregateTokenPresence s)"

section \<open>Conversion\<close>

definition timeutil_Format :: "(time \<Rightarrow> string) \<Rightarrow> time \<Rightarrow> string" where
  "timeutil_Format fmt t = (if IsZero t then [] else fmt t)"

definition convertToolResultEvents :: "Conv \<Rightarrow> ParsedToolResultEvent list \<Rightarrow> ToolResultEvent list" where
  "convertToolResultEvents cv parsed =
     map (\<lambda>(i, ev). \<lparr>tre_ToolUseID = pte_ToolUseID ev, tre_AgentID = pte_AgentID ev,
            tre_SubagentSessionID = pte_SubagentSessionID ev, tre_Source = pte_Source ev, tre_Status = pte_Status ev,
            tre_Content = pte_Content ev, tre_ContentLength = int (length (pte_Content ev)),
            tre_Timestamp = timeutil_Format (cv_format cv) (pte_Timestamp ev), tre_EventIndex = int i\<rparr>)
       (enumerate 0 parsed)"

definition convertToolCalls :: "Conv \<Rightarrow> string \<Rightarrow> ParsedToolCall list \<Rightarrow> ToolCall list" where
  "convertToolCalls cv sessionID parsed =
     map (\<lambda>tc. \<lparr>tc_MessageID = 0, tc_SessionID = sessionID, tc_ToolName = ptc_ToolName tc, tc_Category = ptc_Category tc,
            tc_ToolUseID = ptc_ToolUseID tc, tc_InputJSON = ptc_InputJSON tc, tc_SkillName = ptc_SkillName tc,
            tc_ResultContentLength = 0, tc_ResultContent = [], tc_SubagentSessionID = ptc_SubagentSessionID tc,
            tc_ResultEvents = convertToolResultEvents cv (ptc_ResultEvents tc)\<rparr>) parsed"

definition convertToolResults :: "ParsedToolResult list \<Rightarrow> ToolResult list" where
  "convertToolResults parsed =
     map (\<lambda>t. \<lparr>tr_ToolUseID = ptr_ToolUseID t, tr_ContentLength = int (ptr_ContentLength t), tr_ContentRaw = ptr_ContentRaw t\<rparr>)
       parsed"

definition db_message :: "Conv \<Rightarrow> string \<Rightarrow> ParsedMessage \<Rightarrow> Message" where
  "db_message cv sessionID m =
     (case TokenPresence (cv_keys cv) m of (hasCtx, hasOut) \<Rightarrow>
        \<lparr>m_ID = 0, m_SessionID = sessionID, m_Ordinal = int (ms_Ordinal m), m_Role = ms_Role m, m_Content = ms_Content m,
         m_ThinkingText = ms_ThinkingText m, m_Timestamp = timeutil_Format (cv_format cv) (ms_Timestamp m),
         m_HasThinking = ms_HasThinking m, m_HasToolUse = ms_HasToolUse m, m_ContentLength = int (ms_ContentLength m),
         m_Model = ms_Model m, m_TokenUsage = ms_TokenUsage m, m_ContextTokens = ms_ContextTokens m,
         m_OutputTokens = ms_OutputTokens m, m_HasContextTokens = hasCtx, m_HasOutputTokens = hasOut,
         m_ClaudeMessageID = ms_ClaudeMessageID m, m_ClaudeRequestID = ms_ClaudeRequestID m,
         m_ToolCalls = convertToolCalls cv sessionID (ms_ToolCalls m), m_ToolResults = convertToolResults (ms_ToolResults m),
         m_IsSystem = ms_IsSystem m, m_SourceType = ms_SourceType m, m_SourceSubtype = ms_SourceSubtype m,
         m_SourceUUID = ms_SourceUUID m, m_SourceParentUUID = ms_SourceParentUUID m,
         m_IsSidechain = ms_IsSidechain m, m_IsCompactBoundary = ms_IsCompactBoundary m\<rparr>)"

section \<open>Pairing\<close>

text \<open>The index of the calls, by position, the last call with an id winning.\<close>

fun index_calls :: "nat \<Rightarrow> nat \<Rightarrow> ToolCall list \<Rightarrow> (string \<Rightarrow> (nat \<times> nat) option) \<Rightarrow> string \<Rightarrow> (nat \<times> nat) option" where
  "index_calls i j [] idx = idx"
| "index_calls i j (tc # tcs) idx =
     index_calls i (Suc j) tcs (if tc_ToolUseID tc \<noteq> [] then idx(tc_ToolUseID tc \<mapsto> (i, j)) else idx)"

fun index_messages :: "nat \<Rightarrow> Message list \<Rightarrow> (string \<Rightarrow> (nat \<times> nat) option) \<Rightarrow> string \<Rightarrow> (nat \<times> nat) option" where
  "index_messages i [] idx = idx"
| "index_messages i (m # ms) idx = index_messages (Suc i) ms (index_calls i 0 (m_ToolCalls m) idx)"

definition set_call :: "Message list \<Rightarrow> nat \<times> nat \<Rightarrow> (ToolCall \<Rightarrow> ToolCall) \<Rightarrow> Message list" where
  "set_call msgs pos f =
     (case pos of (i, j) \<Rightarrow>
        msgs[i := (msgs ! i)\<lparr>m_ToolCalls := (m_ToolCalls (msgs ! i))[j := f (m_ToolCalls (msgs ! i) ! j)]\<rparr>])"

definition store_result :: "Conv \<Rightarrow> ToolResult \<Rightarrow> ToolCall \<Rightarrow> ToolCall" where
  "store_result cv tr tc =
     (let tc = tc\<lparr>tc_ResultContentLength := tr_ContentLength tr\<rparr> in
      if tc_Category tc \<notin> cv_blocked cv then tc\<lparr>tc_ResultContent := decodeContent (cv_parse cv (tr_ContentRaw tr))\<rparr> else tc)"

definition pair_result :: "Conv \<Rightarrow> (string \<Rightarrow> (nat \<times> nat) option) \<Rightarrow> ToolResult \<Rightarrow> Message list \<Rightarrow> Message list" where
  "pair_result cv idx tr msgs =
     (case idx (tr_ToolUseID tr) of None \<Rightarrow> msgs | Some pos \<Rightarrow> set_call msgs pos (store_result cv tr))"

definition pairToolResults :: "Conv \<Rightarrow> Message list \<Rightarrow> Message list" where
  "pairToolResults cv msgs =
     (let idx = index_messages 0 msgs (\<lambda>_. None) in
      fold (pair_result cv idx) (concat (map m_ToolResults msgs)) msgs)"

text \<open>The latest content of each agent, the agents in the order they first spoke.\<close>

fun set_latest :: "string \<Rightarrow> string \<Rightarrow> (string \<times> string) list \<Rightarrow> (string \<times> string) list" where
  "set_latest a c [] = [(a, c)]"
| "set_latest a c ((b, d) # rest) = (if a = b then (b, c) # rest else (b, d) # set_latest a c rest)"

fun event_summary ::
  "ToolResultEvent list \<Rightarrow> (string \<times> string) list \<Rightarrow> string \<Rightarrow> bool \<Rightarrow> (string \<times> string) list \<times> string \<times> bool" where
  "event_summary [] latest lastAnon allHave = (latest, lastAnon, allHave)"
| "event_summary (ev # evs) latest lastAnon allHave =
     (if TrimSpace (tre_Content ev) = [] then event_summary evs latest lastAnon allHave
      else let agentID = TrimSpace (tre_AgentID ev) in
        if agentID = [] then event_summary evs latest (tre_Content ev) False
        else event_summary evs (set_latest agentID (tre_Content ev) latest) lastAnon allHave)"

definition summarizeToolResultEvents :: "ToolResultEvent list \<Rightarrow> string" where
  "summarizeToolResultEvents events =
     (case event_summary events [] [] True of (latest, lastAnon, allHave) \<Rightarrow>
        (case latest of
           [] \<Rightarrow> lastAnon
         | [(_, summary)] \<Rightarrow> if lastAnon \<noteq> [] then summary @ [newline, newline] @ lastAnon else summary
         | _ \<Rightarrow> str_join [newline, newline]
             (map (\<lambda>(agentID, c). agentID @ '':'' @ [newline] @ c) latest @
              (if \<not> allHave \<and> lastAnon \<noteq> [] then [lastAnon] else []))))"

definition summarize_call :: "Conv \<Rightarrow> ToolCall \<Rightarrow> ToolCall" where
  "summarize_call cv tc =
     (if tc_ResultEvents tc = [] then tc
      else let summary = summarizeToolResultEvents (tc_ResultEvents tc);
               tc = tc\<lparr>tc_ResultContentLength := int (length summary)\<rparr>
           in if tc_Category tc \<in> cv_blocked cv then tc\<lparr>tc_ResultContent := [], tc_ResultEvents := []\<rparr>
              else tc\<lparr>tc_ResultContent := summary\<rparr>)"

definition pairToolResultEventSummaries :: "Conv \<Rightarrow> Message list \<Rightarrow> Message list" where
  "pairToolResultEventSummaries cv msgs = map (\<lambda>m. m\<lparr>m_ToolCalls := map (summarize_call cv) (m_ToolCalls m)\<rparr>) msgs"

definition only_results :: "Message \<Rightarrow> bool" where
  "only_results m \<longleftrightarrow> m_Role m = ''user'' \<and> m_ToolResults m \<noteq> [] \<and> TrimSpace (m_Content m) = []"

definition pairAndFilter :: "Conv \<Rightarrow> Message list \<Rightarrow> Message list" where
  "pairAndFilter cv msgs =
     filter (\<lambda>m. \<not> only_results m) (pairToolResultEventSummaries cv (pairToolResults cv msgs))"

definition toDBMessages :: "Conv \<Rightarrow> string \<Rightarrow> ParsedMessage list \<Rightarrow> Message list" where
  "toDBMessages cv sessionID msgs = pairAndFilter cv (map (db_message cv sessionID) msgs)"

section \<open>Counts\<close>

definition postFilterCounts :: "Message list \<Rightarrow> int \<times> int" where
  "postFilterCounts msgs =
     (int (length msgs), int (length (filter (\<lambda>m. m_Role m = ''user'' \<and> \<not> m_IsSystem m) msgs)))"

definition countUserMsgs :: "ParsedMessage list \<Rightarrow> int" where
  "countUserMsgs msgs = int (length (filter (\<lambda>m. ms_Role m = RoleUser) msgs))"

definition total_step :: "Message \<Rightarrow> int \<times> bool \<times> int \<times> bool \<Rightarrow> int \<times> bool \<times> int \<times> bool" where
  "total_step msg acc =
     (case acc of (totalOutput, hasOutput, peakContext, hasContext) \<Rightarrow>
        (if m_HasOutputTokens msg then totalOutput + m_OutputTokens msg else totalOutput,
         hasOutput \<or> m_HasOutputTokens msg,
         if m_HasContextTokens msg \<and> m_ContextTokens msg > peakContext then m_ContextTokens msg else peakContext,
         hasContext \<or> m_HasContextTokens msg))"

definition messageTokenTotals :: "Message list \<Rightarrow> int \<times> bool \<times> int \<times> bool" where
  "messageTokenTotals msgs = fold total_step msgs (0, False, 0, False)"

record ParsedUsageEvent =
  pu_Source :: string
  pu_InputTokens :: int
  pu_OutputTokens :: int
  pu_CacheCreationInputTokens :: int
  pu_CacheReadInputTokens :: int

definition usage_step :: "ParsedUsageEvent \<Rightarrow> int \<times> bool \<times> int \<times> bool \<Rightarrow> int \<times> bool \<times> int \<times> bool" where
  "usage_step ev acc =
     (case acc of (totalOutput, hasOutput, peakContext, hasContext) \<Rightarrow>
        (let c = pu_InputTokens ev + pu_CacheCreationInputTokens ev + pu_CacheReadInputTokens ev in
         (if pu_OutputTokens ev > 0 then totalOutput + pu_OutputTokens ev else totalOutput,
          hasOutput \<or> pu_OutputTokens ev > 0,
          if c > 0 \<and> c > peakContext then c else peakContext, hasContext \<or> c > 0)))"

definition UsageEventTokenAggregate :: "ParsedUsageEvent list \<Rightarrow> int \<times> bool \<times> int \<times> bool" where
  "UsageEventTokenAggregate events = fold usage_step events (0, False, 0, False)"

definition usageEventTokenTotals :: "ParsedUsageEvent list \<Rightarrow> bool \<Rightarrow> int \<times> bool \<times> int \<times> bool" where
  "usageEventTokenTotals events clamp =
     UsageEventTokenAggregate
       (map (\<lambda>ev. if clamp then ev\<lparr>pu_InputTokens := ClampPlausibleTokens (pu_InputTokens ev),
               pu_OutputTokens := ClampPlausibleTokens (pu_OutputTokens ev),
               pu_CacheCreationInputTokens := ClampPlausibleTokens (pu_CacheCreationInputTokens ev),
               pu_CacheReadInputTokens := ClampPlausibleTokens (pu_CacheReadInputTokens ev)\<rparr> else ev)
         (filter (\<lambda>ev. \<not> UsageSourceIsSessionSummary (SanitizeUTF8 (pu_Source ev))) events))"

section \<open>Pairing by id\<close>

definition call_ids :: "Message list \<Rightarrow> string list" where
  "call_ids msgs = concat (map (\<lambda>m. map tc_ToolUseID (m_ToolCalls m)) msgs)"

definition all_results :: "Message list \<Rightarrow> ToolResult list" where
  "all_results msgs = concat (map m_ToolResults msgs)"

definition unique_ids :: "Message list \<Rightarrow> bool" where
  "unique_ids msgs \<longleftrightarrow> distinct (filter (\<lambda>i. i \<noteq> []) (call_ids msgs))"

text \<open>The last result with the id of a call.\<close>

definition answered :: "Conv \<Rightarrow> ToolResult list \<Rightarrow> ToolCall \<Rightarrow> ToolCall" where
  "answered cv rs tc =
     (if tc_ToolUseID tc = [] then tc
      else case filter (\<lambda>tr. tr_ToolUseID tr = tc_ToolUseID tc) rs of [] \<Rightarrow> tc | r # rs' \<Rightarrow> store_result cv (last (r # rs')) tc)"

definition map_calls :: "(ToolCall \<Rightarrow> ToolCall) \<Rightarrow> Message list \<Rightarrow> Message list" where
  "map_calls f msgs = map (\<lambda>m. m\<lparr>m_ToolCalls := map f (m_ToolCalls m)\<rparr>) msgs"

definition answer_step :: "Conv \<Rightarrow> ToolResult \<Rightarrow> ToolCall \<Rightarrow> ToolCall" where
  "answer_step cv tr tc =
     (if tc_ToolUseID tc \<noteq> [] \<and> tr_ToolUseID tr = tc_ToolUseID tc then store_result cv tr tc else tc)"

lemma store_result_fields [simp]:
  "tc_ToolUseID (store_result cv tr tc) = tc_ToolUseID tc" "tc_Category (store_result cv tr tc) = tc_Category tc"
  "store_result cv tr (store_result cv tr' tc) = store_result cv tr tc"
  by (simp_all add: store_result_def Let_def)

lemma fold_answer: "fold (answer_step cv) rs tc = answered cv rs tc"
proof (induction rs rule: rev_induct)
  case Nil
  show ?case by (simp add: answered_def)
next
  case (snoc r rs)
  have id: "tc_ToolUseID (answered cv rs tc) = tc_ToolUseID tc" by (simp add: answered_def split: list.split)
  show ?case
  proof (cases "tc_ToolUseID tc \<noteq> [] \<and> tr_ToolUseID r = tc_ToolUseID tc")
    case True
    then show ?thesis
      using snoc id by (simp add: answer_step_def answered_def split: list.split)
  next
    case False
    then show ?thesis using snoc id by (auto simp: answer_step_def answered_def)
  qed
qed

lemma map_calls_comp: "map_calls f (map_calls g msgs) = map_calls (f \<circ> g) msgs"
  by (simp add: map_calls_def comp_def)

lemma map_calls_id: "(\<And>m tc. m \<in> set msgs \<Longrightarrow> tc \<in> set (m_ToolCalls m) \<Longrightarrow> f tc = tc) \<Longrightarrow> map_calls f msgs = msgs"
  unfolding map_calls_def by (rule map_idI) (simp add: map_idI)

lemma map_calls_cong:
  "(\<And>m tc. m \<in> set msgs \<Longrightarrow> tc \<in> set (m_ToolCalls m) \<Longrightarrow> f tc = g tc) \<Longrightarrow> map_calls f msgs = map_calls g msgs"
  unfolding map_calls_def by (intro map_cong refl) (simp cong: map_cong)

lemma call_ids_map_calls: "(\<And>tc. tc_ToolUseID (f tc) = tc_ToolUseID tc) \<Longrightarrow> call_ids (map_calls f msgs) = call_ids msgs"
  by (simp add: call_ids_def map_calls_def comp_def)

lemma in_call_ids: "m \<in> set msgs \<Longrightarrow> tc \<in> set (m_ToolCalls m) \<Longrightarrow> tc_ToolUseID tc \<in> set (call_ids msgs)"
  by (auto simp: call_ids_def)

lemma index_calls_Some:
  "index_calls i j tcs idx x = Some p \<Longrightarrow>
     idx x = Some p \<or> x \<noteq> [] \<and> (\<exists>k<length tcs. p = (i, j + k) \<and> tc_ToolUseID (tcs ! k) = x)"
proof (induction tcs arbitrary: j idx)
  case (Cons tc tcs)
  let ?idx = "if tc_ToolUseID tc \<noteq> [] then idx(tc_ToolUseID tc \<mapsto> (i, j)) else idx"
  have "index_calls i (Suc j) tcs ?idx x = Some p" using Cons.prems by simp
  from Cons.IH [OF this] show ?case
  proof
    assume "?idx x = Some p"
    then show ?thesis by (auto split: if_splits intro!: exI [of _ 0])
  next
    assume "x \<noteq> [] \<and> (\<exists>k<length tcs. p = (i, Suc j + k) \<and> tc_ToolUseID (tcs ! k) = x)"
    then obtain k where "x \<noteq> []" "k < length tcs" "p = (i, Suc j + k)" "tc_ToolUseID (tcs ! k) = x" by blast
    then show ?thesis by (intro disjI2 conjI exI [of _ "Suc k"]) simp_all
  qed
qed simp

lemma index_calls_keep: "idx x \<noteq> None \<Longrightarrow> index_calls i j tcs idx x \<noteq> None"
proof (induction tcs arbitrary: j idx)
  case (Cons tc tcs)
  then have "(if tc_ToolUseID tc \<noteq> [] then idx(tc_ToolUseID tc \<mapsto> (i, j)) else idx) x \<noteq> None" by simp
  then show ?case unfolding index_calls.simps(2) by (rule Cons.IH)
qed simp

lemma index_calls_total:
  "x \<noteq> [] \<Longrightarrow> x \<in> set (map tc_ToolUseID tcs) \<Longrightarrow> index_calls i j tcs idx x \<noteq> None"
proof (induction tcs arbitrary: j idx)
  case (Cons tc tcs)
  show ?case
  proof (cases "tc_ToolUseID tc = x")
    case True
    then have "(if tc_ToolUseID tc \<noteq> [] then idx(tc_ToolUseID tc \<mapsto> (i, j)) else idx) x \<noteq> None"
      using Cons.prems(1) by simp
    then show ?thesis unfolding index_calls.simps(2) by (rule index_calls_keep)
  next
    case False
    then show ?thesis unfolding index_calls.simps(2) using Cons.prems by (intro Cons.IH) simp_all
  qed
qed simp

lemma index_messages_Some:
  "index_messages i msgs idx x = Some p \<Longrightarrow>
     idx x = Some p \<or> x \<noteq> [] \<and> (\<exists>a<length msgs. \<exists>k<length (m_ToolCalls (msgs ! a)).
       p = (i + a, k) \<and> tc_ToolUseID (m_ToolCalls (msgs ! a) ! k) = x)"
proof (induction msgs arbitrary: i idx)
  case (Cons m msgs)
  from Cons.IH [OF Cons.prems [unfolded index_messages.simps(2)]] show ?case
  proof
    assume "index_calls i 0 (m_ToolCalls m) idx x = Some p"
    from index_calls_Some [OF this] show ?thesis
    proof
      assume "x \<noteq> [] \<and> (\<exists>k<length (m_ToolCalls m). p = (i, 0 + k) \<and> tc_ToolUseID (m_ToolCalls m ! k) = x)"
      then obtain k where "x \<noteq> []" "k < length (m_ToolCalls m)" "p = (i, k)" "tc_ToolUseID (m_ToolCalls m ! k) = x" by auto
      then show ?thesis by (intro disjI2 conjI exI [of _ 0] exI [of _ k]) simp_all
    qed blast
  next
    assume "x \<noteq> [] \<and> (\<exists>a<length msgs. \<exists>k<length (m_ToolCalls (msgs ! a)).
       p = (Suc i + a, k) \<and> tc_ToolUseID (m_ToolCalls (msgs ! a) ! k) = x)"
    then obtain a k where "x \<noteq> []" "a < length msgs" "k < length (m_ToolCalls (msgs ! a))" "p = (Suc i + a, k)"
      "tc_ToolUseID (m_ToolCalls (msgs ! a) ! k) = x" by blast
    then show ?thesis by (intro disjI2 conjI exI [of _ "Suc a"] exI [of _ k]) simp_all
  qed
qed simp

lemma index_messages_keep: "idx x \<noteq> None \<Longrightarrow> index_messages i msgs idx x \<noteq> None"
proof (induction msgs arbitrary: i idx)
  case (Cons m msgs)
  then show ?case unfolding index_messages.simps(2) by (intro Cons.IH index_calls_keep)
qed simp

lemma index_messages_total: "x \<noteq> [] \<Longrightarrow> x \<in> set (call_ids msgs) \<Longrightarrow> index_messages i msgs idx x \<noteq> None"
proof (induction msgs arbitrary: i idx)
  case (Cons m msgs)
  show ?case
  proof (cases "x \<in> set (map tc_ToolUseID (m_ToolCalls m))")
    case True
    then show ?thesis unfolding index_messages.simps(2)
      using Cons.prems(1) by (intro index_messages_keep index_calls_total)
  next
    case False
    then have "x \<in> set (call_ids msgs)" using Cons.prems(2) by (auto simp: call_ids_def)
    then show ?thesis unfolding index_messages.simps(2) by (rule Cons.IH [OF Cons.prems(1)])
  qed
qed (simp add: call_ids_def)

text \<open>The index reads the ids only.\<close>

lemma index_calls_ids: "map tc_ToolUseID tcs = map tc_ToolUseID tcs' \<Longrightarrow> index_calls i j tcs idx = index_calls i j tcs' idx"
proof (induction tcs arbitrary: tcs' j idx)
  case (Cons tc tcs)
  then obtain tc' rest where "tcs' = tc' # rest" by (cases tcs') auto
  then show ?case using Cons.prems Cons.IH [of rest] by simp
qed simp

lemma index_messages_ids:
  "(\<And>tc. tc_ToolUseID (f tc) = tc_ToolUseID tc) \<Longrightarrow> index_messages i (map_calls f msgs) idx = index_messages i msgs idx"
proof (induction msgs arbitrary: i idx)
  case (Cons m msgs)
  have "index_calls i 0 (map f (m_ToolCalls m)) idx = index_calls i 0 (m_ToolCalls m) idx"
    by (rule index_calls_ids) (simp add: Cons.prems)
  then show ?case using Cons by (simp add: map_calls_def)
qed (simp add: map_calls_def)

lemma update_unique:
  assumes "distinct (filter (\<lambda>i. i \<noteq> []) (map g xs))" "j < length xs" "g (xs ! j) \<noteq> []"
  shows "xs[j := f (xs ! j)] = map (\<lambda>t. if g t = g (xs ! j) then f t else t) xs"
  using assms
proof (induction xs arbitrary: j)
  case (Cons x xs)
  show ?case
  proof (cases j)
    case 0
    then have "g x \<notin> set (map g xs)" using Cons.prems by auto
    then have "map (\<lambda>t. if g t = g x then f t else t) xs = xs" by (intro map_idI) (auto simp: image_iff)
    then show ?thesis using 0 by simp
  next
    case (Suc k)
    then have "g (xs ! k) \<in> set (filter (\<lambda>i. i \<noteq> []) (map g xs))" using Cons.prems by auto
    then have "g x \<noteq> g (xs ! k)" using Cons.prems(1,3) Suc by (cases "g x = []") auto
    moreover have "xs[k := f (xs ! k)] = map (\<lambda>t. if g t = g (xs ! k) then f t else t) xs"
      using Cons.prems Suc by (intro Cons.IH) (auto split: if_splits)
    ultimately show ?thesis using Suc by simp
  qed
qed simp

lemma set_call_unique:
  assumes "unique_ids msgs" "a < length msgs" "k < length (m_ToolCalls (msgs ! a))"
    and "x = tc_ToolUseID (m_ToolCalls (msgs ! a) ! k)" "x \<noteq> []"
  shows "set_call msgs (a, k) f = map_calls (\<lambda>tc. if tc_ToolUseID tc = x then f tc else tc) msgs"
  using assms
proof (induction msgs arbitrary: a)
  case (Cons m msgs)
  have dist: "distinct (filter (\<lambda>i. i \<noteq> []) (map tc_ToolUseID (m_ToolCalls m)))" "unique_ids msgs"
    and apart: "set (filter (\<lambda>i. i \<noteq> []) (map tc_ToolUseID (m_ToolCalls m))) \<inter> set (filter (\<lambda>i. i \<noteq> []) (call_ids msgs)) = {}"
    using Cons.prems(1) by (auto simp: unique_ids_def call_ids_def)
  show ?case
  proof (cases a)
    case 0
    have "x \<in> set (map tc_ToolUseID (m_ToolCalls m))" using Cons.prems(3,4) 0 by auto
    then have "x \<notin> set (call_ids msgs)" using apart Cons.prems(5) by auto
    then have "map_calls (\<lambda>tc. if tc_ToolUseID tc = x then f tc else tc) msgs = msgs"
      using in_call_ids by (intro map_calls_id) auto
    moreover have "(m_ToolCalls m)[k := f (m_ToolCalls m ! k)] = map (\<lambda>tc. if tc_ToolUseID tc = x then f tc else tc) (m_ToolCalls m)"
      using update_unique [OF dist(1), of k f] Cons.prems(3-5) 0 by simp
    ultimately show ?thesis using 0 by (simp add: set_call_def map_calls_def)
  next
    case (Suc b)
    have "x \<in> set (call_ids msgs)" using in_call_ids [of "msgs ! b" msgs] Cons.prems(2-4) Suc by simp
    then have "x \<notin> set (map tc_ToolUseID (m_ToolCalls m))" using apart Cons.prems(5) by auto
    then have "map (\<lambda>tc. if tc_ToolUseID tc = x then f tc else tc) (m_ToolCalls m) = m_ToolCalls m"
      by (intro map_idI) auto
    moreover have "set_call msgs (b, k) f = map_calls (\<lambda>tc. if tc_ToolUseID tc = x then f tc else tc) msgs"
      using Cons.prems Suc by (intro Cons.IH dist(2)) simp_all
    ultimately show ?thesis using Suc by (simp add: set_call_def map_calls_def)
  qed
qed simp

lemma pair_result_map:
  assumes "unique_ids msgs"
  shows "pair_result cv (index_messages 0 msgs (\<lambda>_. None)) tr msgs = map_calls (answer_step cv tr) msgs"
proof (cases "index_messages 0 msgs (\<lambda>_. None) (tr_ToolUseID tr)")
  case None
  then have "tr_ToolUseID tr = [] \<or> tr_ToolUseID tr \<notin> set (call_ids msgs)" using index_messages_total by blast
  then have "map_calls (answer_step cv tr) msgs = msgs"
    using in_call_ids by (intro map_calls_id) (auto simp: answer_step_def)
  then show ?thesis using None by (simp add: pair_result_def)
next
  case (Some p)
  then obtain a k where p: "tr_ToolUseID tr \<noteq> []" "a < length msgs" "k < length (m_ToolCalls (msgs ! a))" "p = (a, k)"
    "tc_ToolUseID (m_ToolCalls (msgs ! a) ! k) = tr_ToolUseID tr"
    using index_messages_Some [OF Some] by auto
  have "set_call msgs (a, k) (store_result cv tr) =
      map_calls (\<lambda>tc. if tc_ToolUseID tc = tr_ToolUseID tr then store_result cv tr tc else tc) msgs"
    using p by (intro set_call_unique [OF assms]) simp_all
  also have "\<dots> = map_calls (answer_step cv tr) msgs"
    using p(1) by (intro map_calls_cong) (auto simp: answer_step_def)
  finally show ?thesis using Some p(4) by (simp add: pair_result_def)
qed

lemma answered_id: "tc_ToolUseID (answered cv rs tc) = tc_ToolUseID tc"
  by (simp add: answered_def split: list.split)

lemma pairToolResults_map:
  assumes "unique_ids msgs"
  shows "pairToolResults cv msgs = map_calls (answered cv (all_results msgs)) msgs"
proof -
  let ?idx = "index_messages 0 msgs (\<lambda>_. None)"
  have "fold (pair_result cv ?idx) rs msgs = map_calls (answered cv rs) msgs" for rs
  proof (induction rs rule: rev_induct)
    case Nil
    have "map_calls (answered cv []) msgs = msgs" by (rule map_calls_id) (simp add: answered_def)
    then show ?case by simp
  next
    case (snoc r rs)
    let ?m = "map_calls (answered cv rs) msgs"
    have "?idx = index_messages 0 ?m (\<lambda>_. None)" by (rule index_messages_ids [symmetric]) (rule answered_id)
    moreover have "unique_ids ?m" using assms by (simp add: unique_ids_def call_ids_map_calls answered_id)
    ultimately have "pair_result cv ?idx r ?m = map_calls (answer_step cv r) ?m" using pair_result_map by metis
    also have "\<dots> = map_calls (answered cv (rs @ [r])) msgs"
      unfolding map_calls_comp fold_answer [symmetric] by (simp add: comp_def)
    finally show ?case using snoc by simp
  qed
  then show ?thesis by (simp add: pairToolResults_def all_results_def)
qed

section \<open>Batches\<close>

text \<open>No result of one batch answers a call of the other.\<close>

definition independent :: "Message list \<Rightarrow> Message list \<Rightarrow> bool" where
  "independent a b \<longleftrightarrow>
     list_all (\<lambda>tr. tr_ToolUseID tr = [] \<or> tr_ToolUseID tr \<notin> set (call_ids a)) (all_results b) \<and>
     list_all (\<lambda>tr. tr_ToolUseID tr = [] \<or> tr_ToolUseID tr \<notin> set (call_ids b)) (all_results a)"

lemma answered_irrelevant:
  assumes "list_all (\<lambda>tr. tr_ToolUseID tr = [] \<or> tr_ToolUseID tr \<noteq> tc_ToolUseID tc) extra"
  shows "answered cv (rs @ extra) tc = answered cv rs tc" "answered cv (extra @ rs) tc = answered cv rs tc"
proof -
  have "filter (\<lambda>tr. tr_ToolUseID tr = tc_ToolUseID tc) extra = []" if "tc_ToolUseID tc \<noteq> []"
    using assms that by (auto simp: filter_empty_conv list_all_iff)
  then show "answered cv (rs @ extra) tc = answered cv rs tc" "answered cv (extra @ rs) tc = answered cv rs tc"
    by (simp_all add: answered_def)
qed

lemma call_ids_append: "call_ids (a @ b) = call_ids a @ call_ids b"
  by (simp add: call_ids_def)

lemma all_results_append: "all_results (a @ b) = all_results a @ all_results b"
  by (simp add: all_results_def)

lemma pairToolResults_append:
  assumes "unique_ids (a @ b)" "independent a b"
  shows "pairToolResults cv (a @ b) = pairToolResults cv a @ pairToolResults cv b"
proof -
  have u: "unique_ids a" "unique_ids b" using assms(1) by (simp_all add: unique_ids_def call_ids_append)
  have left: "map_calls (answered cv (all_results a @ all_results b)) a = map_calls (answered cv (all_results a)) a"
  proof (rule map_calls_cong)
    fix m tc
    assume "m \<in> set a" "tc \<in> set (m_ToolCalls m)"
    then have "tc_ToolUseID tc \<in> set (call_ids a)" by (rule in_call_ids)
    then show "answered cv (all_results a @ all_results b) tc = answered cv (all_results a) tc"
      using assms(2) by (intro answered_irrelevant) (auto simp: independent_def list_all_iff)
  qed
  have right: "map_calls (answered cv (all_results a @ all_results b)) b = map_calls (answered cv (all_results b)) b"
  proof (rule map_calls_cong)
    fix m tc
    assume "m \<in> set b" "tc \<in> set (m_ToolCalls m)"
    then have "tc_ToolUseID tc \<in> set (call_ids b)" by (rule in_call_ids)
    then show "answered cv (all_results a @ all_results b) tc = answered cv (all_results b) tc"
      using assms(2) by (intro answered_irrelevant) (auto simp: independent_def list_all_iff)
  qed
  have "pairToolResults cv (a @ b) = map_calls (answered cv (all_results a @ all_results b)) (a @ b)"
    unfolding pairToolResults_map [OF assms(1)] all_results_append ..
  also have "\<dots> = map_calls (answered cv (all_results a @ all_results b)) a @ map_calls (answered cv (all_results a @ all_results b)) b"
    by (simp add: map_calls_def)
  finally show ?thesis unfolding left right pairToolResults_map [OF u(1)] pairToolResults_map [OF u(2)] .
qed

text \<open>Pairing touches nothing but the calls.\<close>

definition without_calls :: "Message \<Rightarrow> Message" where
  "without_calls m = m\<lparr>m_ToolCalls := []\<rparr>"

lemma set_call_frame: "map without_calls (set_call msgs p f) = map without_calls msgs"
proof -
  obtain a k where p: "p = (a, k)" by (cases p)
  show ?thesis
  proof (cases "a < length msgs")
    case True
    then show ?thesis
      by (intro nth_equalityI) (simp_all add: set_call_def without_calls_def p nth_list_update)
  qed (simp add: set_call_def p list_update_beyond)
qed

lemma pair_frame:
  "map without_calls (pairToolResultEventSummaries cv (pairToolResults cv msgs)) = map without_calls msgs"
proof -
  have "map without_calls (fold (pair_result cv idx) rs ms) = map without_calls ms" for idx rs ms
    by (induction rs arbitrary: ms) (simp_all add: pair_result_def set_call_frame split: option.split)
  then have "map without_calls (pairToolResults cv msgs) = map without_calls msgs"
    unfolding pairToolResults_def Let_def .
  moreover have "map without_calls (pairToolResultEventSummaries cv ms) = map without_calls ms" for ms
    by (simp add: pairToolResultEventSummaries_def without_calls_def)
  ultimately show ?thesis by simp
qed

lemma pairAndFilter_frame:
  "map without_calls (pairAndFilter cv msgs) = map without_calls (filter (\<lambda>m. \<not> only_results m) msgs)"
proof -
  have "only_results (without_calls m) = only_results m" for m by (simp add: only_results_def without_calls_def)
  then have f: "map without_calls (filter (\<lambda>m. \<not> only_results m) ms) = filter (\<lambda>m. \<not> only_results m) (map without_calls ms)" for ms
    by (simp add: filter_map comp_def)
  show ?thesis unfolding pairAndFilter_def f pair_frame ..
qed

section \<open>Properties\<close>

text \<open>
  C23. Results find their calls: when ids are used once, pairing by positions in the slices is the same as giving
  every call the last result with its id, wherever in the transcript that stands, and leaving the others.
\<close>

theorem pairToolResults_exact:
  assumes "unique_ids msgs"
  shows "pairToolResults cv msgs =
    map (\<lambda>m. m\<lparr>m_ToolCalls := map (answered cv (all_results msgs)) (m_ToolCalls m)\<rparr>) msgs"
  unfolding pairToolResults_map [OF assms] map_calls_def ..

definition demo_cv :: Conv where
  "demo_cv = \<lparr>cv_format = (\<lambda>_. ''t''), cv_parse = (\<lambda>s. GStr s s), cv_keys = (\<lambda>_. None), cv_blocked = {}\<rparr>"

definition demo_row :: "string \<Rightarrow> ToolCall list \<Rightarrow> ToolResult list \<Rightarrow> Message" where
  "demo_row role calls results = (db_message demo_cv ''s'' (zero_message\<lparr>ms_Role := role\<rparr>))\<lparr>m_ToolCalls := calls, m_ToolResults := results\<rparr>"

definition demo_call :: ToolCall where
  "demo_call = \<lparr>tc_MessageID = 0, tc_SessionID = ''s'', tc_ToolName = ''Bash'', tc_Category = ''Bash'', tc_ToolUseID = ''u'',
     tc_InputJSON = [], tc_SkillName = [], tc_ResultContentLength = 0, tc_ResultContent = [],
     tc_SubagentSessionID = [], tc_ResultEvents = []\<rparr>"

definition demo_result :: ToolResult where
  "demo_result = \<lparr>tr_ToolUseID = ''u'', tr_ContentLength = 2, tr_ContentRaw = ''ok''\<rparr>"

theorem pairToolResults_exact_witness:
  "pairToolResults demo_cv [demo_row ''assistant'' [demo_call] [], demo_row ''user'' [] [demo_result]] =
     map (\<lambda>m. m\<lparr>m_ToolCalls := map (answered demo_cv [demo_result]) (m_ToolCalls m)\<rparr>)
       [demo_row ''assistant'' [demo_call] [], demo_row ''user'' [] [demo_result]]"
  using pairToolResults_exact [of "[demo_row ''assistant'' [demo_call] [], demo_row ''user'' [] [demo_result]]" demo_cv]
  by (simp add: unique_ids_def call_ids_def all_results_def demo_row_def demo_call_def)

text \<open>
  No text is lost on the way to the rows: what is removed are the user messages without text that only carry
  results, and every other message keeps everything but its calls.
\<close>

theorem pairAndFilter_keeps_text:
  "map (\<lambda>m. m\<lparr>m_ToolCalls := []\<rparr>) (pairAndFilter cv msgs) =
     map (\<lambda>m. m\<lparr>m_ToolCalls := []\<rparr>)
       (filter (\<lambda>m. \<not> (m_Role m = ''user'' \<and> m_ToolResults m \<noteq> [] \<and> TrimSpace (m_Content m) = [])) msgs)"
  using pairAndFilter_frame [of cv msgs] unfolding without_calls_def [abs_def] only_results_def .

text \<open>
  Pairing batch by batch is pairing at once, provided no result answers a call of the other batch.
\<close>

theorem pairAndFilter_batches:
  assumes "unique_ids (a @ b)" "independent a b"
  shows "pairAndFilter cv (a @ b) = pairAndFilter cv a @ pairAndFilter cv b"
  unfolding pairAndFilter_def pairToolResults_append [OF assms] by (simp add: pairToolResultEventSummaries_def)

theorem pairAndFilter_batches_witness:
  "pairAndFilter demo_cv ([demo_row ''assistant'' [demo_call] [], demo_row ''user'' [] [demo_result]] @ [demo_row ''assistant'' [] []]) =
   pairAndFilter demo_cv [demo_row ''assistant'' [demo_call] [], demo_row ''user'' [] [demo_result]] @
   pairAndFilter demo_cv [demo_row ''assistant'' [] []]"
  by (rule pairAndFilter_batches)
    (simp_all add: unique_ids_def independent_def call_ids_def all_results_def demo_row_def demo_call_def demo_result_def)

text \<open>
  A result that is read in a later batch than its call is lost: the call keeps no result, and the message
  that carried it is removed; read at once, the call has its result.
\<close>

theorem split_batch_loses_result:
  "(let a = [demo_row ''assistant'' [demo_call] []]; b = [demo_row ''user'' [] [demo_result]];
        contents = \<lambda>ms. map tc_ResultContent (concat (map m_ToolCalls ms)) in
    contents (pairAndFilter demo_cv (a @ b)) = [''ok''] \<and>
    contents (pairAndFilter demo_cv a @ pairAndFilter demo_cv b) = [[]] \<and> pairAndFilter demo_cv b = [])"
  by code_simp

end
