(* ===== verification/Sync_Incremental.thy ===== *)
theory Sync_Incremental
  imports Sync_Pairing Automation
begin

text \<open>
  Keeping a stored session up to date with a growing transcript (\<open>internal/sync/engine.go\<close> over the rows of
  \<open>internal/db/sessions.go\<close> and \<open>messages.go\<close>): when appended lines may be read on their own, what is written
  for them, and the counters of the session row. The database is the list of its session rows, each
  with its message rows; the parser of the appended lines, the prefix hash and the file's stat are arguments.
\<close>

section \<open>Rows\<close>

record SessionRow =
  sr_ID :: string
  sr_FilePath :: "string option"
  sr_Deleted :: bool
  sr_FileSize :: "int option"
  sr_FileMtime :: "int option"
  sr_FileInode :: "int option"
  sr_FileDevice :: "int option"
  sr_FileHash :: string
  sr_MessageCount :: int
  sr_UserMessageCount :: int
  sr_FirstMessage :: "string option"
  sr_Cwd :: "string option"
  sr_TotalOutputTokens :: int
  sr_PeakContextTokens :: int
  sr_HasTotalOutputTokens :: bool
  sr_HasPeakContextTokens :: bool
  sr_EndedAt :: "string option"
  sr_IsAutomated :: bool
  sr_TerminationStatus :: "string option"
  sr_DataVersion :: int
  sr_Messages :: "Message list"

record IncrementalInfo =
  ii_ID :: string
  ii_FileSize :: int
  ii_FileMtime :: int
  ii_FileInode :: int
  ii_FileDevice :: int
  ii_MsgCount :: int
  ii_UserMsgCount :: int
  ii_FirstMessage :: string
  ii_Cwd :: string
  ii_TotalOutputTokens :: int
  ii_PeakContextTokens :: int
  ii_HasTotalOutputTokens :: bool
  ii_HasPeakContextTokens :: bool

definition or_zero :: "int option \<Rightarrow> int" where
  "or_zero v = (case v of Some x \<Rightarrow> x | None \<Rightarrow> 0)"

definition or_empty :: "string option \<Rightarrow> string" where
  "or_empty v = (case v of Some x \<Rightarrow> x | None \<Rightarrow> [])"

definition incremental_info :: "SessionRow \<Rightarrow> IncrementalInfo" where
  "incremental_info r =
     \<lparr>ii_ID = sr_ID r, ii_FileSize = or_zero (sr_FileSize r), ii_FileMtime = or_zero (sr_FileMtime r),
      ii_FileInode = or_zero (sr_FileInode r), ii_FileDevice = or_zero (sr_FileDevice r),
      ii_MsgCount = sr_MessageCount r, ii_UserMsgCount = sr_UserMessageCount r,
      ii_FirstMessage = or_empty (sr_FirstMessage r), ii_Cwd = or_empty (sr_Cwd r),
      ii_TotalOutputTokens = sr_TotalOutputTokens r, ii_PeakContextTokens = sr_PeakContextTokens r,
      ii_HasTotalOutputTokens = (sr_HasTotalOutputTokens r \<or> sr_TotalOutputTokens r \<noteq> 0),
      ii_HasPeakContextTokens = (sr_HasPeakContextTokens r \<or> sr_PeakContextTokens r \<noteq> 0)\<rparr>"

text \<open>The one live session of a file, if there is exactly one.\<close>

definition GetSessionForIncremental :: "SessionRow list \<Rightarrow> string \<Rightarrow> (SessionRow \<times> IncrementalInfo) option" where
  "GetSessionForIncremental rows path =
     (case filter (\<lambda>r. sr_FilePath r = Some path \<and> \<not> sr_Deleted r) rows of
        [r] \<Rightarrow> Some (r, incremental_info r)
      | _ \<Rightarrow> None)"

definition MaxOrdinal :: "SessionRow \<Rightarrow> int" where
  "MaxOrdinal r = fold max (map m_Ordinal (sr_Messages r)) (- 1)"

definition pick_later :: "Message \<Rightarrow> Message option \<Rightarrow> Message option" where
  "pick_later m best =
     (if m_Role m = ''assistant'' \<and> m_ClaudeMessageID m \<noteq> [] then
        (case best of None \<Rightarrow> Some m | Some b \<Rightarrow> if m_Ordinal m > m_Ordinal b then Some m else Some b)
      else best)"

definition LastClaudeMessageID :: "SessionRow \<Rightarrow> string" where
  "LastClaudeMessageID r = (case fold pick_later (sr_Messages r) None of Some m \<Rightarrow> m_ClaudeMessageID m | None \<Rightarrow> [])"

section \<open>Reading the appended lines\<close>

record FileStat =
  fs_Size :: int
  fs_Mtime :: int
  fs_Inode :: int
  fs_Device :: int

record incrementalUpdate =
  iu_sessionID :: string
  iu_msgs :: "ParsedMessage list"
  iu_endedAt :: time
  iu_msgCount :: int
  iu_userMsgCount :: int
  iu_fileSize :: int
  iu_fileMtime :: int
  iu_fileHash :: string
  iu_totalOutputTokens :: int
  iu_peakContextTokens :: int
  iu_hasTotalOutputTokens :: bool
  iu_hasPeakContextTokens :: bool

record processResult =
  px_skip :: bool
  px_forceReplace :: bool
  px_incremental :: "incrementalUpdate option"

definition full_parse :: processResult where
  "full_parse = \<lparr>px_skip = False, px_forceReplace = False, px_incremental = None\<rparr>"

definition replacing_parse :: processResult where
  "replacing_parse = full_parse\<lparr>px_forceReplace := True\<rparr>"

definition token_step :: "Conv \<Rightarrow> ParsedMessage \<Rightarrow> int \<times> bool \<times> int \<times> bool \<Rightarrow> int \<times> bool \<times> int \<times> bool" where
  "token_step cv m acc =
     (case acc of (totalOut, hasTotalOut, peakCtx, hasPeakCtx) \<Rightarrow>
        (case TokenPresence (cv_keys cv) m of (msgHasCtx, msgHasOut) \<Rightarrow>
           (let contextTokens = ClampPlausibleTokens (ms_ContextTokens m);
                raise = (msgHasCtx \<and> (\<not> hasPeakCtx \<or> contextTokens > peakCtx)) in
            (if msgHasOut then totalOut + ClampPlausibleTokens (ms_OutputTokens m) else totalOut,
             hasTotalOut \<or> msgHasOut,
             if raise then contextTokens else peakCtx,
             hasPeakCtx \<or> raise))))"

definition IsIncrementalFullParseFallback :: "parse_error \<Rightarrow> bool" where
  "IsIncrementalFullParseFallback err \<longleftrightarrow> err = ErrClaudeIncrementalNeedsFullParse"

definition identity_changed :: "IncrementalInfo \<Rightarrow> FileStat \<Rightarrow> bool" where
  "identity_changed inc st \<longleftrightarrow>
     ii_FileInode inc \<noteq> 0 \<and> ii_FileDevice inc \<noteq> 0 \<and> fs_Inode st \<noteq> 0 \<and> fs_Device st \<noteq> 0 \<and>
     (fs_Inode st \<noteq> ii_FileInode inc \<or> fs_Device st \<noteq> ii_FileDevice inc)"

text \<open>The new messages share the response the stored messages end with.\<close>

definition shares_tail :: "SessionRow \<Rightarrow> ParsedMessage list \<Rightarrow> bool" where
  "shares_tail r newMsgs \<longleftrightarrow>
     ms_Role (hd newMsgs) = RoleAssistant \<and> ms_ClaudeMessageID (hd newMsgs) \<noteq> [] \<and>
     LastClaudeMessageID r = ms_ClaudeMessageID (hd newMsgs)"

definition tryIncrementalJSONL ::
  "Conv \<Rightarrow> int \<Rightarrow> (int \<Rightarrow> string option) \<Rightarrow> SessionRow list \<Rightarrow> string \<Rightarrow> bool \<Rightarrow> FileStat \<Rightarrow>
   (nat \<Rightarrow> nat \<Rightarrow> parse_error + ParsedMessage list \<times> time \<times> nat) \<Rightarrow> processResult \<times> bool" where
  "tryIncrementalJSONL cv currentDataVersion prefixHash rows path isClaude info parseFn =
     (case GetSessionForIncremental rows path of
        None \<Rightarrow> (full_parse, False)
      | Some (r, inc) \<Rightarrow>
          if ii_FileSize inc \<le> 0 then (full_parse, False)
          else if sr_DataVersion r < currentDataVersion then (full_parse, False)
          else if isClaude \<and> ii_FirstMessage inc = [] \<and> ii_UserMsgCount inc > 0 then (full_parse, False)
          else if fs_Size info \<le> ii_FileSize inc then (replacing_parse, False)
          else if identity_changed inc info then (replacing_parse, False)
          else if MaxOrdinal r < 0 then (full_parse, False)
          else
            (case parseFn (nat (ii_FileSize inc)) (nat (MaxOrdinal r + 1)) of
               Inl err \<Rightarrow> (if IsIncrementalFullParseFallback err then replacing_parse else full_parse, False)
             | Inr (newMsgs, endedAt, consumed) \<Rightarrow>
                 let newOffset = ii_FileSize inc + int consumed;
                     fileHash = (if isClaude then or_empty (prefixHash newOffset) else []);
                     update = \<lparr>iu_sessionID = ii_ID inc, iu_msgs = [], iu_endedAt = endedAt, iu_msgCount = ii_MsgCount inc,
                       iu_userMsgCount = ii_UserMsgCount inc, iu_fileSize = newOffset, iu_fileMtime = fs_Mtime info,
                       iu_fileHash = fileHash, iu_totalOutputTokens = ii_TotalOutputTokens inc,
                       iu_peakContextTokens = ii_PeakContextTokens inc,
                       iu_hasTotalOutputTokens = ii_HasTotalOutputTokens inc,
                       iu_hasPeakContextTokens = ii_HasPeakContextTokens inc\<rparr>
                 in if newMsgs = [] then
                      (if consumed > 0 then (full_parse\<lparr>px_incremental := Some update\<rparr>, True)
                       else (full_parse\<lparr>px_skip := True\<rparr>, True))
                    else if isClaude \<and> shares_tail r newMsgs then (replacing_parse, False)
                    else (case fold (token_step cv) newMsgs (ii_TotalOutputTokens inc, ii_HasTotalOutputTokens inc,
                                 ii_PeakContextTokens inc, ii_HasPeakContextTokens inc) of
                            (totalOut, hasTotalOut, peakCtx, hasPeakCtx) \<Rightarrow>
                              (full_parse\<lparr>px_incremental := Some (update\<lparr>iu_msgs := newMsgs,
                                 iu_msgCount := ii_MsgCount inc + int (length newMsgs),
                                 iu_userMsgCount := ii_UserMsgCount inc + countUserMsgs newMsgs,
                                 iu_totalOutputTokens := totalOut, iu_peakContextTokens := peakCtx,
                                 iu_hasTotalOutputTokens := hasTotalOut, iu_hasPeakContextTokens := hasPeakCtx\<rparr>)\<rparr>, True))))"

section \<open>Writing\<close>

definition UpdateSessionIncrementalWithHash ::
  "userAutomationConfig \<Rightarrow> SessionRow \<Rightarrow> string option \<Rightarrow> int \<Rightarrow> int \<Rightarrow> int \<Rightarrow> int \<Rightarrow> int \<Rightarrow> int \<Rightarrow> bool \<Rightarrow> bool \<Rightarrow> string \<Rightarrow> SessionRow"
where
  "UpdateSessionIncrementalWithHash cfg r endedAt msgCount userMsgCount fileSize fileMtime
     totalOutputTokens peakContextTokens hasTotalOutputTokens hasPeakContextTokens fileHash =
     r\<lparr>sr_EndedAt := (if endedAt = None then sr_EndedAt r else endedAt), sr_MessageCount := msgCount,
       sr_UserMessageCount := userMsgCount,
       sr_IsAutomated := (userMsgCount \<le> 1 \<and>
         (case sr_FirstMessage r of Some fm \<Rightarrow> IsAutomatedSession cfg fm | None \<Rightarrow> False)),
       sr_FileSize := Some fileSize, sr_FileMtime := Some fileMtime,
       sr_FileHash := (if fileHash = [] then sr_FileHash r else fileHash),
       sr_TotalOutputTokens := totalOutputTokens, sr_PeakContextTokens := peakContextTokens,
       sr_HasTotalOutputTokens := hasTotalOutputTokens, sr_HasPeakContextTokens := hasPeakContextTokens,
       sr_TerminationStatus := None\<rparr>"

text \<open>Rows above the highest stored ordinal are inserted, from the first of them on; \<open>None\<close> when that fails.\<close>

definition writeMessages :: "(Message list \<Rightarrow> bool) \<Rightarrow> SessionRow \<Rightarrow> Message list \<Rightarrow> SessionRow option" where
  "writeMessages insert_ok r msgs =
     (let new = (if MaxOrdinal r < 0 then msgs else dropWhile (\<lambda>m. m_Ordinal m \<le> MaxOrdinal r) msgs) in
      if MaxOrdinal r \<ge> 0 \<and> new = [] then Some r
      else if insert_ok new then Some (r\<lparr>sr_Messages := sr_Messages r @ new\<rparr>)
      else None)"

text \<open>
  The row and whether it went well: messages are written first, and the counters and the offset only after
  them, so that a failure is tried again.
\<close>

definition writeIncremental ::
  "Conv \<Rightarrow> userAutomationConfig \<Rightarrow> (string \<Rightarrow> int option) \<Rightarrow> (Message list \<Rightarrow> bool) \<Rightarrow> bool \<Rightarrow> SessionRow \<Rightarrow>
   incrementalUpdate \<Rightarrow> SessionRow \<times> bool" where
  "writeIncremental cv cfg parse_year insert_ok update_ok r inc =
     (let dbMsgs = fst (snd (fst (ValidateAndSanitize parse_year None (toDBMessages cv (iu_sessionID inc) (iu_msgs inc)) [])));
          (newTotal, newUser) = postFilterCounts dbMsgs;
          filtered = int (length (iu_msgs inc)) - newTotal;
          msgCount = iu_msgCount inc - filtered;
          userFiltered = countUserMsgs (iu_msgs inc) - newUser;
          userMsgCount = iu_userMsgCount inc - userFiltered;
          endedAt = (if IsZero (iu_endedAt inc) then None else Some (cv_format cv (iu_endedAt inc)));
          endedAt = fst (BlankImplausibleTimestampPtr parse_year endedAt)
      in (case writeMessages insert_ok r dbMsgs of
            None \<Rightarrow> (r, False)
          | Some r1 \<Rightarrow>
              if update_ok then
                (UpdateSessionIncrementalWithHash cfg r1 endedAt msgCount userMsgCount (iu_fileSize inc) (iu_fileMtime inc)
                   (iu_totalOutputTokens inc) (iu_peakContextTokens inc) (iu_hasTotalOutputTokens inc)
                   (iu_hasPeakContextTokens inc) (iu_fileHash inc), True)
              else (r1, False)))"

section \<open>The row agrees with its messages\<close>

definition row_ok :: "SessionRow \<Rightarrow> bool" where
  "row_ok r \<longleftrightarrow>
     (sr_MessageCount r, sr_UserMessageCount r) = postFilterCounts (sr_Messages r) \<and>
     (sr_TotalOutputTokens r, sr_HasTotalOutputTokens r, sr_PeakContextTokens r, sr_HasPeakContextTokens r) =
       messageTokenTotals (sr_Messages r)"

section \<open>Rows as written\<close>

definition stored_rows :: "Conv \<Rightarrow> (string \<Rightarrow> int option) \<Rightarrow> string \<Rightarrow> ParsedMessage list \<Rightarrow> Message list" where
  "stored_rows cv parse_year sid msgs =
     fst (snd (fst (ValidateAndSanitize parse_year None (toDBMessages cv sid msgs) [])))"

lemma sanitize_list_map: "fst (sanitize_list f xs st) = map (\<lambda>x. fst (f x)) xs"
  by (induction xs arbitrary: st) (auto simp: Let_def split_beta)

lemma stored_rows_map: "stored_rows cv py sid msgs = map (\<lambda>m. fst (SanitizeMessage py m)) (toDBMessages cv sid msgs)"
  by (simp add: stored_rows_def ValidateAndSanitize_def Let_def split_beta sanitize_list_map)

lemma sanitized_fields:
  "m_Ordinal (fst (SanitizeMessage py m)) = m_Ordinal m"
  "m_HasOutputTokens (fst (SanitizeMessage py m)) = m_HasOutputTokens m"
  "m_HasContextTokens (fst (SanitizeMessage py m)) = m_HasContextTokens m"
  "m_OutputTokens (fst (SanitizeMessage py m)) = ClampPlausibleTokens (m_OutputTokens m)"
  "m_ContextTokens (fst (SanitizeMessage py m)) = ClampPlausibleTokens (m_ContextTokens m)"
  by (simp_all add: SanitizeMessage_def Let_def split_beta countTokens_def clampTokens_def)

definition clamped_step :: "Message \<Rightarrow> int \<times> bool \<times> int \<times> bool \<Rightarrow> int \<times> bool \<times> int \<times> bool" where
  "clamped_step m = total_step (m\<lparr>m_OutputTokens := ClampPlausibleTokens (m_OutputTokens m),
     m_ContextTokens := ClampPlausibleTokens (m_ContextTokens m)\<rparr>)"

lemma total_step_sanitized: "total_step (fst (SanitizeMessage py m)) = clamped_step m"
  by (auto simp: fun_eq_iff total_step_def clamped_step_def sanitized_fields)

lemma clamped_step_calls: "clamped_step (without_calls m) = clamped_step m"
  by (auto simp: fun_eq_iff clamped_step_def total_step_def without_calls_def)

lemma fold_without_calls: "fold clamped_step (map without_calls ms) st = fold clamped_step ms st"
  by (induction ms arbitrary: st) (simp_all add: clamped_step_calls)

lemma toDBMessages_frame:
  "map without_calls (toDBMessages cv sid msgs) =
     map without_calls (filter (\<lambda>m. \<not> only_results m) (map (db_message cv sid) msgs))"
  by (simp add: toDBMessages_def pairAndFilter_frame)

text \<open>Messages of the user bear no tokens.\<close>

definition user_tokenless :: "Conv \<Rightarrow> ParsedMessage list \<Rightarrow> bool" where
  "user_tokenless cv msgs \<longleftrightarrow> list_all (\<lambda>m. ms_Role m \<noteq> ''user'' \<or> TokenPresence (cv_keys cv) m = (False, False)) msgs"

definition totals_ok :: "int \<times> bool \<times> int \<times> bool \<Rightarrow> bool" where
  "totals_ok st \<longleftrightarrow> (case st of (a, h, p, hp) \<Rightarrow> 0 \<le> p \<and> (\<not> hp \<longrightarrow> p = 0) \<and> (\<not> h \<longrightarrow> a = 0))"

lemma token_step_clamped:
  assumes "totals_ok st"
  shows "token_step cv m st = clamped_step (db_message cv sid m) st" "totals_ok (token_step cv m st)"
proof -
  have c: "0 \<le> ClampPlausibleTokens v" for v using plausible.clamp_inside [of v] by simp
  obtain a h p hp where st: "st = (a, h, p, hp)" by (metis prod.exhaust)
  obtain hc ho where tp: "TokenPresence (cv_keys cv) m = (hc, ho)" by (metis prod.exhaust)
  show "token_step cv m st = clamped_step (db_message cv sid m) st"
    using assms c [of "ms_ContextTokens m"]
    by (auto simp: st tp token_step_def clamped_step_def total_step_def db_message_def totals_ok_def Let_def)
  show "totals_ok (token_step cv m st)"
    using assms c [of "ms_ContextTokens m"] by (auto simp: st tp token_step_def totals_ok_def Let_def)
qed

lemma fold_token_step:
  "totals_ok st \<Longrightarrow> user_tokenless cv msgs \<Longrightarrow>
     fold (token_step cv) msgs st = fold clamped_step (filter (\<lambda>m. \<not> only_results m) (map (db_message cv sid) msgs)) st"
proof (induction msgs arbitrary: st)
  case (Cons m msgs)
  note step = token_step_clamped [OF Cons.prems(1), of cv m]
  have tl: "user_tokenless cv msgs" using Cons.prems(2) by (simp add: user_tokenless_def)
  note ih = Cons.IH [OF step(2) tl]
  show ?case
  proof (cases "only_results (db_message cv sid m)")
    case True
    then have "ms_Role m = ''user''" by (simp add: only_results_def db_message_def split_beta)
    then have tp: "TokenPresence (cv_keys cv) m = (False, False)" using Cons.prems(2) by (simp add: user_tokenless_def)
    have "token_step cv m st = st" by (cases st) (simp add: token_step_def tp Let_def)
    then show ?thesis using ih True by simp
  next
    case False
    then show ?thesis using ih step(1) [of sid] by simp
  qed
qed simp

lemma stored_totals:
  assumes "totals_ok st" "user_tokenless cv msgs"
  shows "fold total_step (stored_rows cv py sid msgs) st = fold (token_step cv) msgs st"
proof -
  have "fold total_step (map (\<lambda>m. fst (SanitizeMessage py m)) ms) st = fold clamped_step ms st" for ms st
    by (induction ms arbitrary: st) (simp_all add: total_step_sanitized)
  then have "fold total_step (stored_rows cv py sid msgs) st = fold clamped_step (map without_calls (toDBMessages cv sid msgs)) st"
    by (simp add: stored_rows_map fold_without_calls)
  also have "\<dots> = fold (token_step cv) msgs st"
    unfolding toDBMessages_frame fold_without_calls fold_token_step [OF assms, of sid] ..
  finally show ?thesis .
qed

lemma totals_ok_fold: "totals_ok st \<Longrightarrow> totals_ok (fold total_step ms st)"
proof (induction ms arbitrary: st)
  case (Cons m ms)
  have "totals_ok (total_step m st)" using Cons.prems by (auto simp: totals_ok_def total_step_def)
  then show ?case using Cons.IH by simp
qed simp

lemma stored_ordinals:
  assumes "list_all (\<lambda>m. k \<le> int (ms_Ordinal m)) msgs"
  shows "\<forall>m\<in>set (stored_rows cv py sid msgs). k \<le> m_Ordinal m"
proof
  fix m
  assume "m \<in> set (stored_rows cv py sid msgs)"
  then obtain x where x: "x \<in> set (toDBMessages cv sid msgs)" "m = fst (SanitizeMessage py x)"
    by (auto simp: stored_rows_map)
  have "without_calls x \<in> set (map without_calls (toDBMessages cv sid msgs))" using x(1) by simp
  then obtain y where "y \<in> set msgs" "without_calls x = without_calls (db_message cv sid y)"
    unfolding toDBMessages_frame by auto
  then have "y \<in> set msgs" "m_Ordinal x = int (ms_Ordinal y)"
    by (auto simp: without_calls_def db_message_def split_beta dest: arg_cong [where f = m_Ordinal])
  then show "k \<le> m_Ordinal m" using assms x(2) by (auto simp: sanitized_fields list_all_iff)
qed

lemma writeMessages_all:
  assumes "0 \<le> MaxOrdinal r" "\<forall>m\<in>set ms. MaxOrdinal r < m_Ordinal m" "writeMessages ok r ms = Some r'"
  shows "r' = r\<lparr>sr_Messages := sr_Messages r @ ms\<rparr>"
proof -
  have "dropWhile (\<lambda>m. m_Ordinal m \<le> MaxOrdinal r) ms = ms" using assms(2) by (cases ms) auto
  then show ?thesis using assms(1,3) by (auto simp: writeMessages_def Let_def split: if_splits)
qed

section \<open>What the parser of appended lines yields\<close>

lemma entry_user_tokenless:
  assumes "entry_message infer e n = Some m" "ms_Role m = ''user''"
  shows "TokenPresence ks m = (False, False)"
proof -
  have "ms_tokenPresenceKnown m = False \<and> ms_TokenUsage m = [] \<and> ms_ContextTokens m = 0 \<and> ms_OutputTokens m = 0 \<and>
      \<not> ms_HasContextTokens m \<and> \<not> ms_HasOutputTokens m"
    using entry_message_shape [OF assms(1)] assms(2) by blast
  then show ?thesis by (simp add: TokenPresence_def InferTokenPresence_def Let_def)
qed

lemma queued_tokenless: "TokenPresence ks (queuedCommandMessage q) = (False, False)"
  by (simp add: TokenPresence_def InferTokenPresence_def queuedCommandMessage_def zero_message_def Let_def)

lemma extracted_tokenless: "user_tokenless cv (fst (extract_loop infer es n s f))"
  unfolding user_tokenless_def list_all_iff using extract_loop_origin entry_user_tokenless by metis

lemma renumber_tokenless: "user_tokenless cv (renumber n ms) = user_tokenless cv ms"
proof -
  have "TokenPresence ks (m\<lparr>ms_Ordinal := k\<rparr>) = TokenPresence ks m" for ks m k
    by (simp add: TokenPresence_def)
  then show ?thesis by (simp add: user_tokenless_def renumber_def list_all_length nth_enumerate_eq)
qed

lemma merged_tokenless: "user_tokenless cv ms \<Longrightarrow> user_tokenless cv (mergeQueuedCommands ms qs n)"
  using set_shuffles [OF merge_queued_shuffles, of ms qs]
  by (auto simp: mergeQueuedCommands_def renumber_tokenless) (auto simp: user_tokenless_def list_all_iff queued_tokenless)

lemma ordinals_from: "map ms_Ordinal ms = [n..<n + k] \<Longrightarrow> list_all (\<lambda>m. n \<le> ms_Ordinal m) ms"
proof -
  assume "map ms_Ordinal ms = [n..<n + k]"
  then have "ms_Ordinal ` set ms = {n..<n + k}" by (metis set_map set_upt)
  then show ?thesis by (auto simp: list_all_iff)
qed

lemma ParseClaudeSessionFrom_messages:
  assumes "ParseClaudeSessionFrom pz content fails offset start = Inr (msgs, endedAt, consumed)"
  shows "user_tokenless cv msgs" "list_all (\<lambda>m. start \<le> ms_Ordinal m) msgs"
proof -
  obtain es where "msgs = [] \<or> msgs = fst (extractMessagesFrom (pz_infer pz) es start) \<or>
      (\<exists>qs. msgs = mergeQueuedCommands (fst (extractMessagesFrom (pz_infer pz) es start)) qs start)"
    using assms unfolding ParseClaudeSessionFrom_def Let_def
    by (auto split: option.splits prod.splits if_splits) (metis fst_conv)+
  moreover have "user_tokenless cv (fst (extractMessagesFrom (pz_infer pz) es start))"
    by (simp add: extractMessagesFrom_def extracted_tokenless)
  moreover have "list_all (\<lambda>m. start \<le> ms_Ordinal m) (fst (extractMessagesFrom (pz_infer pz) es start))"
    unfolding extractMessagesFrom_def by (rule ordinals_from [OF extract_loop_ordinals])
  moreover have "list_all (\<lambda>m. start \<le> ms_Ordinal m) (mergeQueuedCommands ms qs start)" for ms qs
    unfolding mergeQueuedCommands_def by (rule ordinals_from [OF renumber_ordinals])
  ultimately show "user_tokenless cv msgs" "list_all (\<lambda>m. start \<le> ms_Ordinal m) msgs"
    using merged_tokenless by (auto simp: user_tokenless_def)
qed

section \<open>The invariant of the row\<close>

lemma try_facts:
  assumes "GetSessionForIncremental rows path = Some (r, inc)"
    and "tryIncrementalJSONL cv v hash rows path isClaude info parseFn = (res, True)" "px_incremental res = Some iu"
  obtains consumed endedAt where
    "parseFn (nat (ii_FileSize inc)) (nat (MaxOrdinal r + 1)) = Inr (iu_msgs iu, endedAt, consumed)"
    "0 \<le> MaxOrdinal r" "iu_msgCount iu = ii_MsgCount inc + int (length (iu_msgs iu))"
    "iu_userMsgCount iu = ii_UserMsgCount inc + countUserMsgs (iu_msgs iu)"
    "(iu_totalOutputTokens iu, iu_hasTotalOutputTokens iu, iu_peakContextTokens iu, iu_hasPeakContextTokens iu) =
       fold (token_step cv) (iu_msgs iu) (ii_TotalOutputTokens inc, ii_HasTotalOutputTokens inc,
         ii_PeakContextTokens inc, ii_HasPeakContextTokens inc)"
    "iu_fileSize iu = ii_FileSize inc + int consumed" "ii_FileSize inc < fs_Size info" "\<not> identity_changed inc info"
  using assms unfolding tryIncrementalJSONL_def Let_def
  by (auto simp: full_parse_def replacing_parse_def countUserMsgs_def split: if_splits sum.splits prod.splits)

lemma messageTokenTotals_append: "messageTokenTotals (a @ b) = fold total_step b (messageTokenTotals a)"
  by (simp add: messageTokenTotals_def)

lemma messageTokenTotals_ok: "totals_ok (messageTokenTotals ms)"
  unfolding messageTokenTotals_def by (rule totals_ok_fold) (simp add: totals_ok_def)

lemma postFilterCounts_append:
  "postFilterCounts (a @ b) = (fst (postFilterCounts a) + fst (postFilterCounts b), snd (postFilterCounts a) + snd (postFilterCounts b))"
  by (simp add: postFilterCounts_def)

lemma incremental_row:
  assumes ok: "row_ok r" and get: "GetSessionForIncremental rows path = Some (r, inc)"
    and run: "tryIncrementalJSONL cv v hash rows path isClaude info parseFn = (res, True)" "px_incremental res = Some iu"
    and parse: "\<And>offset start msgs e c. parseFn offset start = Inr (msgs, e, c) \<Longrightarrow>
      user_tokenless cv msgs \<and> list_all (\<lambda>m. start \<le> ms_Ordinal m) msgs"
    and wr: "writeIncremental cv cfg py ins True r iu = (r', True)"
  shows "row_ok r'" "sr_Messages r' = sr_Messages r @ stored_rows cv py (iu_sessionID iu) (iu_msgs iu)"
proof -
  let ?D = "stored_rows cv py (iu_sessionID iu) (iu_msgs iu)"
  obtain consumed endedAt where
    p: "parseFn (nat (ii_FileSize inc)) (nat (MaxOrdinal r + 1)) = Inr (iu_msgs iu, endedAt, consumed)"
    and max: "0 \<le> MaxOrdinal r" and n: "iu_msgCount iu = ii_MsgCount inc + int (length (iu_msgs iu))"
    and u: "iu_userMsgCount iu = ii_UserMsgCount inc + countUserMsgs (iu_msgs iu)"
    and t: "(iu_totalOutputTokens iu, iu_hasTotalOutputTokens iu, iu_peakContextTokens iu, iu_hasPeakContextTokens iu) =
       fold (token_step cv) (iu_msgs iu) (ii_TotalOutputTokens inc, ii_HasTotalOutputTokens inc,
         ii_PeakContextTokens inc, ii_HasPeakContextTokens inc)"
    using try_facts [OF get run] .
  have inc: "inc = incremental_info r" using get by (auto simp: GetSessionForIncremental_def split: list.splits)
  have tot: "(sr_TotalOutputTokens r, sr_HasTotalOutputTokens r, sr_PeakContextTokens r, sr_HasPeakContextTokens r) =
      messageTokenTotals (sr_Messages r)" using ok by (simp add: row_ok_def)
  have st: "totals_ok (sr_TotalOutputTokens r, sr_HasTotalOutputTokens r, sr_PeakContextTokens r, sr_HasPeakContextTokens r)"
    unfolding tot by (rule messageTokenTotals_ok)
  then have ii: "(ii_TotalOutputTokens inc, ii_HasTotalOutputTokens inc, ii_PeakContextTokens inc, ii_HasPeakContextTokens inc) =
      messageTokenTotals (sr_Messages r)"
    unfolding tot [symmetric] by (auto simp: inc incremental_info_def totals_ok_def)
  note tl = parse [OF p]
  have ords: "\<forall>m\<in>set ?D. MaxOrdinal r < m_Ordinal m"
    using stored_ordinals [of "MaxOrdinal r + 1" "iu_msgs iu" cv py "iu_sessionID iu"] tl max
    by (force simp: list_all_iff)
  obtain r1 where r1: "writeMessages ins r ?D = Some r1"
    using wr by (auto simp: writeIncremental_def stored_rows_def Let_def split: option.splits prod.splits)
  have r1': "r1 = r\<lparr>sr_Messages := sr_Messages r @ ?D\<rparr>" by (rule writeMessages_all [OF max ords r1])
  have fields: "sr_Messages r' = sr_Messages r @ ?D"
    "sr_MessageCount r' = iu_msgCount iu - (int (length (iu_msgs iu)) - fst (postFilterCounts ?D))"
    "sr_UserMessageCount r' = iu_userMsgCount iu - (countUserMsgs (iu_msgs iu) - snd (postFilterCounts ?D))"
    "(sr_TotalOutputTokens r', sr_HasTotalOutputTokens r', sr_PeakContextTokens r', sr_HasPeakContextTokens r') =
      (iu_totalOutputTokens iu, iu_hasTotalOutputTokens iu, iu_peakContextTokens iu, iu_hasPeakContextTokens iu)"
    using wr r1 unfolding r1'
    by (auto simp: writeIncremental_def stored_rows_def [symmetric] Let_def split_beta UpdateSessionIncrementalWithHash_def)
  have "(sr_MessageCount r', sr_UserMessageCount r') = postFilterCounts (sr_Messages r')"
    using ok n u unfolding fields postFilterCounts_append
    by (simp add: row_ok_def inc incremental_info_def prod_eq_iff)
  moreover have "(sr_TotalOutputTokens r', sr_HasTotalOutputTokens r', sr_PeakContextTokens r', sr_HasPeakContextTokens r') =
      messageTokenTotals (sr_Messages r')"
    unfolding fields(1,4) t ii messageTokenTotals_append
    using stored_totals [OF messageTokenTotals_ok] tl by metis
  ultimately show "row_ok r'" by (simp add: row_ok_def)
  show "sr_Messages r' = sr_Messages r @ ?D" by (rule fields(1))
qed

section \<open>Properties\<close>

text \<open>
  C22. The counters of a session stay those of its messages through any incremental sync of a Claude transcript: if
  the row's counts and token totals are what its messages add up to, they are so after the appended lines
  were read and written, for filtered and system messages, clamped tokens and queued commands alike.
\<close>

theorem incremental_keeps_counters:
  assumes "row_ok r" "GetSessionForIncremental rows path = Some (r, inc)"
    and "tryIncrementalJSONL cv v hash rows path True info (ParseClaudeSessionFrom pz content fails) = (res, True)"
    and "px_incremental res = Some iu" "writeIncremental cv cfg parse_year ins True r iu = (r', True)"
  shows "row_ok r' \<and> sr_Messages r' = sr_Messages r @ stored_rows cv parse_year (iu_sessionID iu) (iu_msgs iu)"
proof -
  have "user_tokenless cv msgs \<and> list_all (\<lambda>m. start \<le> ms_Ordinal m) msgs"
    if "ParseClaudeSessionFrom pz content fails offset start = Inr (msgs, e, c)" for offset start msgs e c
    using ParseClaudeSessionFrom_messages [OF that] by blast
  then show ?thesis using incremental_row [OF assms(1-4) _ assms(5)] by blast
qed

text \<open>
  Nothing is appended to a file that did not grow or that is another file: the reading of appended lines is
  only taken when the file is longer than the stored offset and its identity is the stored one.
\<close>

theorem incremental_only_appends:
  assumes "tryIncrementalJSONL cv v hash rows path isClaude info parseFn = (res, True)" "px_incremental res = Some iu"
  shows "\<exists>r inc. GetSessionForIncremental rows path = Some (r, inc) \<and> ii_FileSize inc < fs_Size info \<and>
    \<not> identity_changed inc info \<and> ii_FileSize inc \<le> iu_fileSize iu"
proof -
  obtain r inc where get: "GetSessionForIncremental rows path = Some (r, inc)"
    using assms(1) by (auto simp: tryIncrementalJSONL_def split: option.splits)
  show ?thesis by (rule try_facts [OF get assms]) (use get in auto)
qed

text \<open>A session of one message, and a transcript with one more line.\<close>

definition demo_line :: gresult where
  "demo_line = GObj [] [(''type'', GStr [] ''user''), (''message'', GObj [] [(''content'', GStr [] ''x'')])]"

definition demo_reader :: Parser where
  "demo_reader = demo_parser\<lparr>pz_parse := (\<lambda>_. demo_line)\<rparr>"

definition demo_stored :: SessionRow where
  "demo_stored =
     \<lparr>sr_ID = ''s'', sr_FilePath = Some ''f'', sr_Deleted = False, sr_FileSize = Some 2, sr_FileMtime = Some 1,
      sr_FileInode = None, sr_FileDevice = None, sr_FileHash = [], sr_MessageCount = 1, sr_UserMessageCount = 1,
      sr_FirstMessage = Some ''o'', sr_Cwd = None, sr_TotalOutputTokens = 0, sr_PeakContextTokens = 0,
      sr_HasTotalOutputTokens = False, sr_HasPeakContextTokens = False, sr_EndedAt = None, sr_IsAutomated = False,
      sr_TerminationStatus = None, sr_DataVersion = 1,
      sr_Messages = [db_message demo_cv ''s'' (zero_message\<lparr>ms_Role := ''user'', ms_Content := ''o''\<rparr>)]\<rparr>"

definition demo_stat :: FileStat where
  "demo_stat = \<lparr>fs_Size = 4, fs_Mtime = 2, fs_Inode = 0, fs_Device = 0\<rparr>"

definition demo_config :: userAutomationConfig where
  "demo_config = \<lparr>ua_prefixes = [], ua_substrings = [], ua_exactMatches = []\<rparr>"

definition demo_try :: "(nat \<Rightarrow> nat \<Rightarrow> parse_error + ParsedMessage list \<times> time \<times> nat) \<Rightarrow> SessionRow \<Rightarrow> processResult \<times> bool" where
  "demo_try parseFn r = tryIncrementalJSONL demo_cv 1 (\<lambda>_. None) [r] ''f'' True demo_stat parseFn"

definition demo_fn :: "nat \<Rightarrow> nat \<Rightarrow> parse_error + ParsedMessage list \<times> time \<times> nat" where
  "demo_fn = ParseClaudeSessionFrom demo_reader (Some (''o'' @ [newline] @ ''m'' @ [newline])) False"

lemma demo_stored_facts:
  "row_ok demo_stored" "MaxOrdinal demo_stored = 0"
  "GetSessionForIncremental [demo_stored] ''f'' = Some (demo_stored, incremental_info demo_stored)"
proof -
  show "row_ok demo_stored" by code_simp
  show "MaxOrdinal demo_stored = 0" by code_simp
  show "GetSessionForIncremental [demo_stored] ''f'' = Some (demo_stored, incremental_info demo_stored)"
    by (simp add: GetSessionForIncremental_def demo_stored_def)
qed

lemma demo_parse: "\<exists>msgs. demo_fn 2 1 = Inr (msgs, 0, 2) \<and> msgs \<noteq> [] \<and> \<not> shares_tail demo_stored msgs"
proof -
  have valid: "pz_valid demo_reader = (\<lambda>_. True)" by (simp add: demo_reader_def demo_parser_def)
  have "readJSONLFrom (pz_valid demo_reader) False (Some (''o'' @ [newline] @ ''m'' @ [newline])) 2 = Some ([''m''], 2, False)"
    using readJSONL_deliver [of "''m'' @ [newline]" "[''m'']" "[]" "\<lambda>_. True" maxLineSize]
    by (simp add: readJSONLFrom_def valid terminated_def keep_line_def strip_cr_def)
  moreover have "(let s = foldl (append_line demo_reader) append_start [''m''] in
      \<not> ca_sawRename s \<and> ca_entries s \<noteq> [] \<and> ca_queuedCommands s = [] \<and> \<not> hasDAGFork (ca_entries s) \<and>
      \<not> needsClaudeFullParse (ca_entries s) \<and> ca_latestTS s = 0 \<and>
      (case extractMessagesFrom (pz_infer demo_reader) (ca_entries s) 1 of (msgs, _, endedAt) \<Rightarrow>
        endedAt = 0 \<and> msgs \<noteq> [] \<and> ms_Role (hd msgs) = ''user''))" by code_simp
  ultimately show ?thesis
    unfolding demo_fn_def ParseClaudeSessionFrom_def
    by (auto simp: Let_def shares_tail_def RoleAssistant_def split: prod.splits)
qed

theorem incremental_keeps_counters_witness:
  "row_ok (fst (writeIncremental demo_cv demo_config (\<lambda>_. None) (\<lambda>_. True) True demo_stored
     (the (px_incremental (fst (demo_try demo_fn demo_stored))))))"
proof -
  have info: "ii_FileSize (incremental_info demo_stored) = 2" "sr_DataVersion demo_stored = 1"
    "ii_FirstMessage (incremental_info demo_stored) = ''o''" "\<not> identity_changed (incremental_info demo_stored) demo_stat"
    by (simp_all add: incremental_info_def demo_stored_def or_zero_def or_empty_def identity_changed_def)
  obtain msgs where p: "demo_fn 2 1 = Inr (msgs, 0, 2)" "msgs \<noteq> []" "\<not> shares_tail demo_stored msgs"
    using demo_parse by blast
  have run: "snd (demo_try demo_fn demo_stored) \<and> px_incremental (fst (demo_try demo_fn demo_stored)) \<noteq> None"
    unfolding demo_try_def tryIncrementalJSONL_def demo_stored_facts(3)
    by (simp add: info p p(1) [unfolded One_nat_def] demo_stored_facts(2) demo_stat_def [THEN arg_cong, of fs_Size] Let_def split: prod.split)
  then obtain res iu where res: "demo_try demo_fn demo_stored = (res, True)" "px_incremental res = Some iu"
    by (cases "demo_try demo_fn demo_stored") auto
  obtain r' b where w: "writeIncremental demo_cv demo_config (\<lambda>_. None) (\<lambda>_. True) True demo_stored iu = (r', b)"
    by (cases "writeIncremental demo_cv demo_config (\<lambda>_. None) (\<lambda>_. True) True demo_stored iu")
  moreover have "b = True"
    using w by (auto simp: writeIncremental_def writeMessages_def Let_def split: prod.splits option.splits if_splits)
  ultimately have "row_ok r'"
    using incremental_keeps_counters [OF demo_stored_facts(1,3) _ res(2)] res(1) unfolding demo_try_def demo_fn_def by blast
  then show ?thesis using w res by simp
qed

theorem incremental_only_appends_witness:
  "snd (demo_try (\<lambda>_ _. Inr ([], 0, 2)) demo_stored) \<and> ii_FileSize (incremental_info demo_stored) < fs_Size demo_stat"
proof -
  have run: "snd (demo_try (\<lambda>_ _. Inr ([], 0, 2)) demo_stored) \<and>
      px_incremental (fst (demo_try (\<lambda>_ _. Inr ([], 0, 2)) demo_stored)) \<noteq> None" by code_simp
  then obtain res iu where "demo_try (\<lambda>_ _. Inr ([], 0, 2)) demo_stored = (res, True)" "px_incremental res = Some iu"
    by (cases "demo_try (\<lambda>_ _. Inr ([], 0, 2)) demo_stored") auto
  then show ?thesis
    using incremental_only_appends [of demo_cv 1 "\<lambda>_. None" "[demo_stored]" "''f''" True demo_stat] demo_stored_facts(3) run
    unfolding demo_try_def by fastforce
qed

definition demo_one :: "nat \<Rightarrow> nat \<Rightarrow> parse_error + ParsedMessage list \<times> time \<times> nat" where
  "demo_one offset start = Inr ([zero_message\<lparr>ms_Ordinal := start, ms_Role := ''user'', ms_Content := ''x''\<rparr>], 0, 2)"

text \<open>
  A write that fails half way is not safe to repeat: the messages are in, the offset is not, and the next
  run reads the same lines and stores them once more under new ordinals; the counters then count them once.
\<close>

theorem failed_update_duplicates:
  "(let write = \<lambda>ok r. fst (writeIncremental demo_cv demo_config (\<lambda>_. None) (\<lambda>_. True) ok r
                  (the (px_incremental (fst (demo_try demo_one r)))));
        r1 = write False demo_stored; r2 = write True r1 in
    map m_Content (sr_Messages (write True demo_stored)) = [''o'', ''x''] \<and>
    map m_Content (sr_Messages r2) = [''o'', ''x'', ''x''] \<and> map m_Ordinal (sr_Messages r2) = [0, 1, 2] \<and>
    sr_MessageCount r2 = 2)"
  by code_simp

end
