(* ===== verification/Grouping.thy ===== *)
theory Grouping
  imports Prelude
begin

text \<open>
  Grouping of rows in Go maps: the idiom \<open>g := m[k]; if g == nil { g = &T{}; m[k] = g }; g.x += ...\<close>
  that every aggregation of the program uses. \<open>upsert\<close> is one such update, \<open>group_rows\<close> the loop over the
  rows; the lemmas say what is found under a key afterwards and that summing over the groups is summing over
  the rows. The list order of a map is the order in which its keys were first seen; what is computed from
  the groups is sorted before it is returned, and \<open>sort_unique\<close> shows that the order then does not matter.
\<close>

named_theorems group_rule \<open>lookup and key facts of grouped rows\<close>

definition upsert :: "'k \<Rightarrow> 'v \<Rightarrow> ('v \<Rightarrow> 'v) \<Rightarrow> ('k, 'v) gomap \<Rightarrow> ('k, 'v) gomap" where
  "upsert k v0 f m = AList.update k (f (case map_of m k of None \<Rightarrow> v0 | Some v \<Rightarrow> v)) m"

definition group_rows :: "('r \<Rightarrow> 'k) \<Rightarrow> 'v \<Rightarrow> ('r \<Rightarrow> 'v \<Rightarrow> 'v) \<Rightarrow> 'r list \<Rightarrow> ('k, 'v) gomap \<Rightarrow> ('k, 'v) gomap" where
  "group_rows key v0 f rs m = fold (\<lambda>r. upsert (key r) v0 (f r)) rs m"

lemma map_of_upsert [group_rule]:
  "map_of (upsert k v0 f m) = (map_of m)(k \<mapsto> f (case map_of m k of None \<Rightarrow> v0 | Some v \<Rightarrow> v))"
  by (simp add: upsert_def map_of_update)

lemma gomap_ok_upsert [group_rule]: "gomap_ok m \<Longrightarrow> gomap_ok (upsert k v0 f m)"
  by (simp add: upsert_def gomap_ok_update)

lemma group_rows_Nil [simp]: "group_rows key v0 f [] m = m"
  by (simp add: group_rows_def)

lemma group_rows_Cons [simp]: "group_rows key v0 f (r # rs) m = group_rows key v0 f rs (upsert (key r) v0 (f r) m)"
  by (simp add: group_rows_def)

lemma gomap_ok_group [group_rule]: "gomap_ok m \<Longrightarrow> gomap_ok (group_rows key v0 f rs m)"
  by (induction rs arbitrary: m) (simp_all add: group_rule)

lemma map_of_group_from:
  "map_of (group_rows key v0 f rs m) k =
     (if filter (\<lambda>r. key r = k) rs = [] then map_of m k
      else Some (fold f (filter (\<lambda>r. key r = k) rs) (case map_of m k of None \<Rightarrow> v0 | Some v \<Rightarrow> v)))"
  by (induction rs arbitrary: m) (auto simp: map_of_upsert)

lemma map_of_group [group_rule]:
  "map_of (group_rows key v0 f rs []) k =
     (if filter (\<lambda>r. key r = k) rs = [] then None else Some (fold f (filter (\<lambda>r. key r = k) rs) v0))"
  by (simp add: map_of_group_from)

lemma keys_group [group_rule]: "set (map fst (group_rows key v0 f rs [])) = key ` set rs"
proof (rule set_eqI)
  fix k
  have "k \<in> set (map fst (group_rows key v0 f rs [])) \<longleftrightarrow> map_of (group_rows key v0 f rs []) k \<noteq> None"
    by (simp add: map_of_eq_None_iff)
  also have "\<dots> \<longleftrightarrow> k \<in> key ` set rs"
    by (auto simp: map_of_group filter_empty_conv image_iff)
  finally show "k \<in> set (map fst (group_rows key v0 f rs [])) \<longleftrightarrow> k \<in> key ` set rs" .
qed

lemma distinct_group: "distinct (map fst (group_rows key v0 f rs []))"
  using gomap_ok_group [of "[]" key v0 f rs] by (simp add: gomap_ok_def)

lemma upsert_all:
  assumes "list_all (\<lambda>(k, v). P v) m" "P v0" "\<And>v. P v \<Longrightarrow> P (f v)"
  shows "list_all (\<lambda>(k, v). P v) (upsert k v0 f m)"
proof -
  have "list_all (\<lambda>(k, v). P v) (AList.update k w m)" if "P w" for w
    using assms(1) that by (induction m) auto
  moreover have "P (f (case map_of m k of None \<Rightarrow> v0 | Some v \<Rightarrow> v))"
    using assms by (auto simp: list_all_iff dest!: map_of_SomeD split: option.split)
  ultimately show ?thesis by (simp add: upsert_def)
qed

section \<open>Sums over groups\<close>

lemma sum_group_update:
  fixes g :: "'v \<Rightarrow> 'n::comm_monoid_add"
  assumes "gomap_ok m"
  shows "(\<Sum>(k', v)\<leftarrow>AList.update k w m. g v) + (case map_of m k of None \<Rightarrow> 0 | Some v \<Rightarrow> g v) =
    (\<Sum>(k', v)\<leftarrow>m. g v) + g w"
  using assms
proof (induction m)
  case (Cons p m)
  obtain k' v where p: "p = (k', v)" by (cases p)
  show ?case
  proof (cases "k' = k")
    case True
    then show ?thesis by (simp add: p ac_simps)
  next
    case False
    have "(\<Sum>(k', v)\<leftarrow>AList.update k w m. g v) + (case map_of m k of None \<Rightarrow> 0 | Some v \<Rightarrow> g v) =
        (\<Sum>(k', v)\<leftarrow>m. g v) + g w" using Cons by (simp add: gomap_ok_def)
    then show ?thesis using False by (simp add: p add.assoc)
  qed
qed simp

text \<open>What a field adds up to over the groups is what it adds up to over the rows.\<close>

lemma sum_group_from:
  fixes g :: "'v \<Rightarrow> 'n::cancel_comm_monoid_add"
  assumes "gomap_ok m" "list_all (\<lambda>(k, v). P v) m" "P v0" "g v0 = 0"
    and "\<And>r v. P v \<Longrightarrow> P (f r v)" "\<And>r v. P v \<Longrightarrow> g (f r v) = g v + w r"
  shows "(\<Sum>(k, v)\<leftarrow>group_rows key v0 f rs m. g v) = (\<Sum>(k, v)\<leftarrow>m. g v) + (\<Sum>r\<leftarrow>rs. w r)"
  using assms(1,2)
proof (induction rs arbitrary: m)
  case (Cons r rs)
  let ?old = "case map_of m (key r) of None \<Rightarrow> v0 | Some v \<Rightarrow> v"
  have "(\<Sum>(k, v)\<leftarrow>upsert (key r) v0 (f r) m. g v) + (case map_of m (key r) of None \<Rightarrow> 0 | Some v \<Rightarrow> g v) =
      (\<Sum>(k, v)\<leftarrow>m. g v) + g (f r ?old)"
    unfolding upsert_def using sum_group_update [OF Cons.prems(1)] .
  moreover have "P ?old" using Cons.prems(2) assms(3) by (auto simp: list_all_iff dest!: map_of_SomeD split: option.split)
  then have "g (f r ?old) = (case map_of m (key r) of None \<Rightarrow> 0 | Some v \<Rightarrow> g v) + w r"
    by (simp add: assms(4,6) split: option.split)
  ultimately have "(\<Sum>(k, v)\<leftarrow>upsert (key r) v0 (f r) m. g v) + (case map_of m (key r) of None \<Rightarrow> 0 | Some v \<Rightarrow> g v) =
      ((\<Sum>(k, v)\<leftarrow>m. g v) + w r) + (case map_of m (key r) of None \<Rightarrow> 0 | Some v \<Rightarrow> g v)"
    by (simp only: ac_simps)
  then have "(\<Sum>(k, v)\<leftarrow>upsert (key r) v0 (f r) m. g v) = (\<Sum>(k, v)\<leftarrow>m. g v) + w r"
    by (simp only: add_right_cancel)
  moreover have "gomap_ok (upsert (key r) v0 (f r) m)" using Cons.prems(1) by (rule gomap_ok_upsert)
  moreover have "list_all (\<lambda>(k, v). P v) (upsert (key r) v0 (f r) m)"
    by (rule upsert_all [OF Cons.prems(2) assms(3,5)])
  ultimately show ?case by (simp add: Cons.IH add.assoc)
qed simp

lemma sum_group:
  fixes g :: "'v \<Rightarrow> 'n::cancel_comm_monoid_add"
  assumes "g v0 = 0" "\<And>r v. g (f r v) = g v + w r"
  shows "(\<Sum>(k, v)\<leftarrow>group_rows key v0 f rs []. g v) = (\<Sum>r\<leftarrow>rs. w r)"
  using sum_group_from [of "[]" "\<lambda>_. True" v0 g f w key rs] assms by simp

text \<open>Summing over the names of a map in any order is summing over the map.\<close>

lemma sum_over_names:
  fixes g :: "'v \<Rightarrow> 'n::comm_monoid_add"
  assumes "gomap_ok m" "mset ns = mset (map fst m)"
  shows "(\<Sum>n\<leftarrow>ns. case map_of m n of None \<Rightarrow> 0 | Some v \<Rightarrow> g v) = (\<Sum>(n, v)\<leftarrow>m. g v)"
proof -
  let ?h = "\<lambda>n. case map_of m n of None \<Rightarrow> 0 | Some v \<Rightarrow> g v"
  have "mset (map ?h ns) = mset (map ?h (map fst m))" by (simp only: mset_map assms(2))
  then have "sum_list (map ?h ns) = sum_list (map ?h (map fst m))"
    by (simp only: flip: sum_mset_sum_list)
  also have "\<dots> = (\<Sum>(n, v)\<leftarrow>m. g v)"
    unfolding map_map using assms(1)
    by (intro arg_cong [of _ _ sum_list] map_cong) (auto simp: gomap_ok_def)
  finally show ?thesis .
qed

lemma fold_measure:
  fixes g :: "'v \<Rightarrow> 'n::monoid_add"
  assumes "\<And>r v. g (f r v) = g v + w r"
  shows "g (fold f rs v) = g v + (\<Sum>r\<leftarrow>rs. w r)"
  by (induction rs arbitrary: v) (simp_all add: assms add.assoc)

lemma sum_list_permuted: "mset xs = mset ys \<Longrightarrow> sum_list (map f xs) = sum_list (map f ys)"
  for f :: "'a \<Rightarrow> 'n::comm_monoid_add"
proof -
  assume "mset xs = mset ys"
  then have "mset (map f xs) = mset (map f ys)" by simp
  then show ?thesis by (simp only: flip: sum_mset_sum_list)
qed

section \<open>The order of a map does not matter\<close>

text \<open>Two orders: by a key, and by a name where the keys are equal, as \<open>sort.Slice\<close> is called.\<close>

definition sort_by :: "('a \<Rightarrow> 'b::linorder) \<Rightarrow> ('a \<Rightarrow> 'c::linorder) \<Rightarrow> 'a list \<Rightarrow> 'a list" where
  "sort_by key name xs = sort_key key (sort_key name xs)"

lemma sort_unique:
  assumes "mset xs = mset ys" "inj_on name (set xs)"
  shows "sort_key name xs = sort_key name ys"
proof (rule map_inj_on)
  have "map name (sort_key name xs) = sort (map name xs)" "map name (sort_key name ys) = sort (map name xs)"
    using assms(1) by (metis mset_map mset_sort properties_for_sort sorted_sort_key)+
  then show "map name (sort_key name xs) = map name (sort_key name ys)" by simp
  show "inj_on name (set (sort_key name xs) \<union> set (sort_key name ys))"
    using assms mset_eq_setD by fastforce
qed

text \<open>Two groupings that hold related values under the same keys list the same names in the same order.\<close>

lemma sorted_keys_unique:
  assumes "gomap_ok m" "gomap_ok m'" "set (map fst m) = set (map fst m')"
  shows "sort (map fst m) = sort (map fst m')"
proof -
  have "mset (map fst m) = mset (map fst m')"
    using assms by (intro set_eq_iff_mset_eq_distinct [THEN iffD1]) (simp_all add: gomap_ok_def)
  then show ?thesis by (rule sort_unique) simp
qed

lemma insort_key_eq: "(\<And>y. y \<in> insert x (set xs) \<Longrightarrow> key y = key' y) \<Longrightarrow> insort_key key x xs = insort_key key' x xs"
  by (induction xs) auto

lemma sort_key_eq: "(\<And>x. x \<in> set xs \<Longrightarrow> key x = key' x) \<Longrightarrow> sort_key key xs = sort_key key' xs"
proof (induction xs)
  case (Cons x xs)
  then have "sort_key key xs = sort_key key' xs" by simp
  moreover have "insort_key key x (sort_key key' xs) = insort_key key' x (sort_key key' xs)"
    by (rule insort_key_eq) (use Cons.prems in simp)
  ultimately show ?case by simp
qed simp

lemma sort_by_cong: "(\<And>x. x \<in> set xs \<Longrightarrow> key x = key' x) \<Longrightarrow> sort_by key name xs = sort_by key' name xs"
  unfolding sort_by_def by (rule sort_key_eq) simp

lemma set_sort_by [simp]: "set (sort_by key name xs) = set xs"
  by (simp add: sort_by_def)

lemma mset_sort_by [simp]: "mset (sort_by key name xs) = mset xs"
  by (simp add: sort_by_def)

lemma sum_named:
  "gomap_ok m \<Longrightarrow> (\<Sum>n\<leftarrow>sort (map fst m). h (the (map_of m n))) = (\<Sum>(n, g)\<leftarrow>m. h g)" for h :: "'v \<Rightarrow> nat"
proof -
  assume ok: "gomap_ok m"
  have "(\<Sum>n\<leftarrow>sort (map fst m). h (the (map_of m n))) =
      (\<Sum>n\<leftarrow>sort (map fst m). case map_of m n of None \<Rightarrow> 0 | Some v \<Rightarrow> h v)"
    by (intro arg_cong [of _ _ sum_list] map_cong) (auto split: option.split dest!: map_of_eq_None_iff [THEN iffD1])
  then show ?thesis using sum_over_names [OF ok, of "sort (map fst m)" h] by simp
qed

text \<open>Summing the rows of each key in turn is summing the rows.\<close>

lemma sum_by_key:
  fixes h :: "'r \<Rightarrow> 'n::comm_monoid_add"
  assumes "distinct ks" "key ` set rs \<subseteq> set ks"
  shows "(\<Sum>k\<leftarrow>ks. \<Sum>r\<leftarrow>filter (\<lambda>r. key r = k) rs. h r) = (\<Sum>r\<leftarrow>rs. h r)"
  using assms(2)
proof (induction rs)
  case (Cons r rs)
  have "(\<Sum>k\<leftarrow>ks. \<Sum>q\<leftarrow>filter (\<lambda>q. key q = k) (r # rs). h q) =
      (\<Sum>k\<leftarrow>ks. (if key r = k then h r else 0) + (\<Sum>q\<leftarrow>filter (\<lambda>q. key q = k) rs. h q))"
    by (intro arg_cong [of _ _ sum_list] map_cong) auto
  also have "\<dots> = (\<Sum>k\<leftarrow>ks. if key r = k then h r else 0) + (\<Sum>q\<leftarrow>rs. h q)"
    using Cons by (simp add: sum_list_addf)
  also have "(\<Sum>k\<leftarrow>ks. if key r = k then h r else 0) = h r"
    using assms(1) Cons.prems by (simp add: sum_list_distinct_conv_sum_set)
  finally show ?case by simp
qed (simp add: sum_list_0)

text \<open>Groups that collect their rows hold each row once.\<close>

lemma collected_lengths:
  "gomap_ok m \<Longrightarrow> (\<Sum>k\<leftarrow>sort (map fst m). length (the (map_of m k))) = (\<Sum>(k, l)\<leftarrow>m. length l)"
  by (rule sum_named)

lemma collect_rows: "(\<Sum>(k, l)\<leftarrow>group_rows key [] (\<lambda>r l. l @ [r]) rs []. length l) = length rs"
  using sum_group [of length "[]" "\<lambda>r l. l @ [r]" "\<lambda>_. 1" key rs] by (simp add: sum_list_triv)

end
