(* ===== verification/Daily_Usage.thy ===== *)
theory Daily_Usage
  imports Grouping Validate Pricing TTL_Cache
begin

text \<open>
  Daily token usage and cost (\<open>internal/db/usage.go\<close>): the loop over the usage rows, the removal of
  duplicates, the price of a row, and the two ways in which the days are assembled, with and without the
  breakdowns by project, agent and machine. The rows of the query and the price table are arguments;
  \<open>local_date\<close> is the date of a timestamp in the filter's time zone, \<open>usage_int\<close> reads a field of the JSON of a
  token record. Costs are rational numbers: Go adds them as floats.
\<close>

section \<open>Rows\<close>

record modelRates =
  mr_input :: rat
  mr_output :: rat
  mr_cacheCreation :: rat
  mr_cacheRead :: rat

record dailyUsageScanRow =
  du_sessionID :: string
  du_messageOrdinal :: "int option"
  du_usageSource :: string
  du_ts :: string
  du_model :: string
  du_tokenJSON :: string
  du_inputTokens :: int
  du_outputTokens :: int
  du_cacheCreationInputTokens :: int
  du_cacheReadInputTokens :: int
  du_costUSD :: "rat option"
  du_claudeMessageID :: string
  du_claudeRequestID :: string
  du_sourceUUID :: string
  du_usageDedupKey :: string
  du_project :: string
  du_agent :: string
  du_machine :: string

definition lookupModelRates :: "(string, modelRates) gomap \<Rightarrow> string \<Rightarrow> modelRates option" where
  "lookupModelRates pricing model = Resolve pricing model"

definition usageRowTokens :: "(string \<Rightarrow> string \<Rightarrow> int) \<Rightarrow> dailyUsageScanRow \<Rightarrow> int \<times> int \<times> int \<times> int" where
  "usageRowTokens usage_int r = UsageTokenValues usage_int (du_usageSource r) (du_tokenJSON r)
     (du_inputTokens r, du_outputTokens r, du_cacheCreationInputTokens r, du_cacheReadInputTokens r)"

definition cache_savings :: "modelRates \<Rightarrow> int \<Rightarrow> int \<Rightarrow> rat" where
  "cache_savings rates cacheCrTok cacheRdTok =
     (let readDelta = of_int cacheRdTok * (mr_input rates - mr_cacheRead rates) / 1000000;
          crDelta = of_int cacheCrTok * (mr_input rates - mr_cacheCreation rates) / 1000000
      in readDelta + crDelta)"

text \<open>Tokens, cost, savings, whether the row is priced and whether it contributes.\<close>

definition dailyUsageAmounts ::
  "(string \<Rightarrow> string \<Rightarrow> int) \<Rightarrow> (string, modelRates) gomap \<Rightarrow> dailyUsageScanRow \<Rightarrow>
   (int \<times> int \<times> int \<times> int) \<times> rat \<times> rat \<times> bool \<times> bool" where
  "dailyUsageAmounts usage_int pricing r =
     (case usageRowTokens usage_int r of (inputTok, outputTok, cacheCrTok, cacheRdTok) \<Rightarrow>
       let toks = (inputTok, outputTok, cacheCrTok, cacheRdTok) in
       if inputTok = 0 \<and> outputTok = 0 \<and> cacheCrTok = 0 \<and> cacheRdTok = 0 then
         (case du_costUSD r of Some c \<Rightarrow> (toks, c, 0, True, True) | None \<Rightarrow> (toks, 0, 0, True, False))
       else (case du_costUSD r of
           Some c \<Rightarrow> (toks, c, (case lookupModelRates pricing (du_model r) of
               Some rates \<Rightarrow> cache_savings rates cacheCrTok cacheRdTok | None \<Rightarrow> 0), True, True)
         | None \<Rightarrow> (case lookupModelRates pricing (du_model r) of
               None \<Rightarrow> (toks, 0, 0, False, True)
             | Some rates \<Rightarrow> (toks, (of_int inputTok * mr_input rates + of_int outputTok * mr_output rates +
                   of_int cacheCrTok * mr_cacheCreation rates + of_int cacheRdTok * mr_cacheRead rates) / 1000000,
                 cache_savings rates cacheCrTok cacheRdTok, True, True))))"

definition usageIdentityKey :: "string \<Rightarrow> string \<Rightarrow> string \<Rightarrow> string \<Rightarrow> string \<Rightarrow> string" where
  "usageIdentityKey agent msgID reqID sourceUUID usageKey =
     (if msgID \<noteq> [] \<and> reqID \<noteq> [] then ''claude:'' @ msgID @ '':'' @ reqID
      else if sourceUUID \<noteq> [] then ''source:'' @ agent @ '':'' @ sourceUUID
      else if usageKey \<noteq> [] then ''usage:'' @ usageKey
      else [])"

definition dailyUsageIdentityKey :: "dailyUsageScanRow \<Rightarrow> string" where
  "dailyUsageIdentityKey r =
     usageIdentityKey (du_agent r) (du_claudeMessageID r) (du_claudeRequestID r) (du_sourceUUID r) (du_usageDedupKey r)"

section \<open>The loop over the rows\<close>

record accumKey =
  ak_date :: string
  ak_project :: string
  ak_agent :: string
  ak_machine :: string
  ak_model :: string

record bucket =
  bk_inputTok :: int
  bk_outputTok :: int
  bk_cacheCr :: int
  bk_cacheRd :: int
  bk_cost :: rat
  bk_priced :: bool
  bk_models :: "string list"

text \<open>The zero value, and the bucket a new key starts with.\<close>

definition zero_bucket :: bucket where
  "zero_bucket = \<lparr>bk_inputTok = 0, bk_outputTok = 0, bk_cacheCr = 0, bk_cacheRd = 0, bk_cost = 0,
     bk_priced = False, bk_models = []\<rparr>"

definition new_bucket :: bucket where
  "new_bucket = zero_bucket\<lparr>bk_priced := True\<rparr>"

definition addBucketModel :: "string \<Rightarrow> bool \<Rightarrow> bucket \<Rightarrow> bucket" where
  "addBucketModel model priced b =
     (if model = [] \<or> priced then b else b\<lparr>bk_models := List.insert model (bk_models b)\<rparr>)"

record UsageSessionInfo =
  si_Project :: string
  si_Agent :: string

record usageScan =
  us_accum :: "(accumKey, bucket) gomap"
  us_seen :: "string list"
  us_sessions :: "(string, UsageSessionInfo) gomap"
  us_savings :: rat
  us_contributing :: bool
  us_allPriced :: bool
  us_unpriced :: "string list"

definition usage_start :: usageScan where
  "usage_start = \<lparr>us_accum = [], us_seen = [], us_sessions = [], us_savings = 0, us_contributing = False,
     us_allPriced = True, us_unpriced = []\<rparr>"

definition add_amounts :: "(int \<times> int \<times> int \<times> int) \<times> rat \<times> rat \<times> bool \<times> bool \<Rightarrow> string \<Rightarrow> bucket \<Rightarrow> bucket" where
  "add_amounts am model b =
     (case am of ((inputTok, outputTok, cacheCrTok, cacheRdTok), cost, savings, priced, contributes) \<Rightarrow>
        addBucketModel model (priced \<or> \<not> contributes)
          (b\<lparr>bk_inputTok := bk_inputTok b + inputTok, bk_outputTok := bk_outputTok b + outputTok,
             bk_cacheCr := bk_cacheCr b + cacheCrTok, bk_cacheRd := bk_cacheRd b + cacheRdTok,
             bk_cost := bk_cost b + cost, bk_priced := (bk_priced b \<and> (\<not> contributes \<or> priced))\<rparr>))"

definition row_key :: "(string \<Rightarrow> string) \<Rightarrow> dailyUsageScanRow \<Rightarrow> accumKey" where
  "row_key local_date r = \<lparr>ak_date = local_date (du_ts r), ak_project = du_project r, ak_agent = du_agent r,
     ak_machine = du_machine r, ak_model = du_model r\<rparr>"

text \<open>A row that is in range and no duplicate is counted.\<close>

definition count_row ::
  "(string \<Rightarrow> string) \<Rightarrow> (string \<Rightarrow> string \<Rightarrow> int) \<Rightarrow> (string, modelRates) gomap \<Rightarrow> dailyUsageScanRow \<Rightarrow> usageScan \<Rightarrow> usageScan" where
  "count_row local_date usage_int pricing r st =
     (let am = dailyUsageAmounts usage_int pricing r in
      case am of (toks, cost, savings, priced, contributes) \<Rightarrow>
        st\<lparr>us_sessions := (if map_of (us_sessions st) (du_sessionID r) = None
             then AList.update (du_sessionID r) \<lparr>si_Project = du_project r, si_Agent = du_agent r\<rparr> (us_sessions st)
             else us_sessions st),
           us_savings := us_savings st + savings,
           us_contributing := (us_contributing st \<or> contributes),
           us_allPriced := (us_allPriced st \<and> \<not> (contributes \<and> \<not> priced)),
           us_unpriced := (if contributes \<and> \<not> priced then List.insert (du_model r) (us_unpriced st) else us_unpriced st),
           us_accum := upsert (row_key local_date r) new_bucket (add_amounts am (du_model r)) (us_accum st)\<rparr>)"

definition usage_step ::
  "(string \<Rightarrow> string) \<Rightarrow> (string \<Rightarrow> string \<Rightarrow> int) \<Rightarrow> (string, modelRates) gomap \<Rightarrow> UsageFilter \<Rightarrow> dailyUsageScanRow \<Rightarrow>
   usageScan \<Rightarrow> usageScan" where
  "usage_step local_date usage_int pricing f r st =
     (let date = local_date (du_ts r) in
      if uf_From f \<noteq> [] \<and> date < uf_From f then st
      else if uf_To f \<noteq> [] \<and> date > uf_To f then st
      else let key = dailyUsageIdentityKey r in
        if key = [] then count_row local_date usage_int pricing r st
        else if key \<in> set (us_seen st) then st
        else count_row local_date usage_int pricing r (st\<lparr>us_seen := key # us_seen st\<rparr>))"

section \<open>Days\<close>

text \<open>One entry of a breakdown by model, project, agent or machine.\<close>

record ModelBreakdown =
  mb_Name :: string
  mb_InputTokens :: int
  mb_OutputTokens :: int
  mb_CacheCreationTokens :: int
  mb_CacheReadTokens :: int
  mb_Cost :: rat

record DailyUsageEntry =
  dy_Date :: string
  dy_InputTokens :: int
  dy_OutputTokens :: int
  dy_CacheCreationTokens :: int
  dy_CacheReadTokens :: int
  dy_TotalCost :: rat
  dy_HasCost :: bool
  dy_UnpricedModels :: "string list"
  dy_ModelsUsed :: "string list"
  dy_ModelBreakdowns :: "ModelBreakdown list"
  dy_ProjectBreakdowns :: "ModelBreakdown list"
  dy_AgentBreakdowns :: "ModelBreakdown list"
  dy_MachineBreakdowns :: "ModelBreakdown list"

record UsageTotals =
  ut_InputTokens :: int
  ut_OutputTokens :: int
  ut_CacheCreationTokens :: int
  ut_CacheReadTokens :: int
  ut_TotalCost :: rat
  ut_CacheSavings :: rat
  ut_HasCost :: bool
  ut_UnpricedModels :: "string list"

record UsageSessionCounts =
  sc_Total :: nat
  sc_ByProject :: "(string, nat) gomap"
  sc_ByAgent :: "(string, nat) gomap"

record DailyUsageResult =
  dr_Daily :: "DailyUsageEntry list"
  dr_Totals :: UsageTotals
  dr_SessionCounts :: UsageSessionCounts

definition breakdown :: "string \<Rightarrow> bucket \<Rightarrow> ModelBreakdown" where
  "breakdown name b = \<lparr>mb_Name = name, mb_InputTokens = bk_inputTok b, mb_OutputTokens = bk_outputTok b,
     mb_CacheCreationTokens = bk_cacheCr b, mb_CacheReadTokens = bk_cacheRd b, mb_Cost = bk_cost b\<rparr>"

definition new_entry :: "string \<Rightarrow> DailyUsageEntry" where
  "new_entry date = \<lparr>dy_Date = date, dy_InputTokens = 0, dy_OutputTokens = 0, dy_CacheCreationTokens = 0,
     dy_CacheReadTokens = 0, dy_TotalCost = 0, dy_HasCost = True, dy_UnpricedModels = [], dy_ModelsUsed = [],
     dy_ModelBreakdowns = [], dy_ProjectBreakdowns = [], dy_AgentBreakdowns = [], dy_MachineBreakdowns = []\<rparr>"

text \<open>The names of a map of buckets, the most expensive first.\<close>

definition names_by_cost :: "(string, bucket) gomap \<Rightarrow> string list" where
  "names_by_cost m = sort_by (\<lambda>n. - bk_cost (the (map_of m n))) (\<lambda>n. n) (map fst m)"

definition add_model :: "(bucket \<Rightarrow> bool) \<Rightarrow> (string, bucket) gomap \<Rightarrow> string \<Rightarrow> DailyUsageEntry \<Rightarrow> DailyUsageEntry" where
  "add_model priced models m e =
     (case map_of models m of
        None \<Rightarrow> e
      | Some b \<Rightarrow> e\<lparr>dy_InputTokens := dy_InputTokens e + bk_inputTok b, dy_OutputTokens := dy_OutputTokens e + bk_outputTok b,
          dy_CacheCreationTokens := dy_CacheCreationTokens e + bk_cacheCr b,
          dy_CacheReadTokens := dy_CacheReadTokens e + bk_cacheRd b, dy_TotalCost := dy_TotalCost e + bk_cost b,
          dy_HasCost := (dy_HasCost e \<and> priced b), dy_UnpricedModels := dy_UnpricedModels e @ bk_models b,
          dy_ModelBreakdowns := dy_ModelBreakdowns e @ [breakdown m b]\<rparr>)"

definition day_entry :: "(bucket \<Rightarrow> bool) \<Rightarrow> string \<Rightarrow> (string, bucket) gomap \<Rightarrow> DailyUsageEntry" where
  "day_entry priced date models =
     (let names = names_by_cost models;
          e = fold (add_model priced models) names (new_entry date)
      in e\<lparr>dy_ModelsUsed := names, dy_UnpricedModels := sort (dy_UnpricedModels e)\<rparr>)"

text \<open>Without breakdowns: the buckets are merged by date and model, then gathered by date.\<close>

definition mergeModelAccum :: "bucket \<Rightarrow> bucket \<Rightarrow> bucket" where
  "mergeModelAccum b ma =
     ma\<lparr>bk_inputTok := bk_inputTok ma + bk_inputTok b, bk_outputTok := bk_outputTok ma + bk_outputTok b,
       bk_cacheCr := bk_cacheCr ma + bk_cacheCr b, bk_cacheRd := bk_cacheRd ma + bk_cacheRd b,
       bk_cost := bk_cost ma + bk_cost b, bk_priced := (bk_priced ma \<and> bk_priced b),
       bk_models := fold List.insert (bk_models b) (bk_models ma)\<rparr>"

definition date_models :: "(accumKey, bucket) gomap \<Rightarrow> (string \<times> string, bucket) gomap" where
  "date_models accum = group_rows (\<lambda>(k, b). (ak_date k, ak_model k)) new_bucket (\<lambda>(k, b). mergeModelAccum b) accum []"

definition fast_days :: "(accumKey, bucket) gomap \<Rightarrow> (string, (string, bucket) gomap) gomap" where
  "fast_days accum =
     group_rows (\<lambda>((date, model), ma). date) [] (\<lambda>((date, model), ma). AList.update model ma) (date_models accum) []"

definition fast_daily :: "(accumKey, bucket) gomap \<Rightarrow> DailyUsageEntry list" where
  "fast_daily accum =
     (let days = fast_days accum
      in map (\<lambda>date. day_entry bk_priced date (the (map_of days date))) (sort (map fst days)))"

text \<open>With breakdowns: four maps for each date.\<close>

record dayMaps =
  dm_models :: "(string, bucket) gomap"
  dm_projects :: "(string, bucket) gomap"
  dm_agents :: "(string, bucket) gomap"
  dm_machines :: "(string, bucket) gomap"

definition merge_day_bucket :: "bucket \<Rightarrow> bucket \<Rightarrow> bucket" where
  "merge_day_bucket b cur =
     (let cur = cur\<lparr>bk_inputTok := bk_inputTok cur + bk_inputTok b, bk_outputTok := bk_outputTok cur + bk_outputTok b,
            bk_cacheCr := bk_cacheCr cur + bk_cacheCr b, bk_cacheRd := bk_cacheRd cur + bk_cacheRd b,
            bk_cost := bk_cost cur + bk_cost b, bk_priced := (bk_priced cur \<or> bk_priced b)\<rparr>
      in if \<not> bk_priced b then fold (\<lambda>model. addBucketModel model False) (bk_models b) cur else cur)"

definition add_to_day :: "accumKey \<times> bucket \<Rightarrow> dayMaps \<Rightarrow> dayMaps" where
  "add_to_day kb dm =
     (case kb of (key, b) \<Rightarrow>
        dm\<lparr>dm_models := upsert (ak_model key) zero_bucket (merge_day_bucket b) (dm_models dm),
           dm_projects := upsert (ak_project key) zero_bucket (merge_day_bucket b) (dm_projects dm),
           dm_agents := upsert (ak_agent key) zero_bucket (merge_day_bucket b) (dm_agents dm),
           dm_machines := upsert (ak_machine key) zero_bucket (merge_day_bucket b) (dm_machines dm)\<rparr>)"

definition breakdown_days :: "(accumKey, bucket) gomap \<Rightarrow> (string, dayMaps) gomap" where
  "breakdown_days accum =
     group_rows (\<lambda>(k, b). ak_date k) \<lparr>dm_models = [], dm_projects = [], dm_agents = [], dm_machines = []\<rparr> add_to_day accum []"

definition breakdowns :: "(string, bucket) gomap \<Rightarrow> ModelBreakdown list" where
  "breakdowns m = sort_by (\<lambda>x. - mb_Cost x) mb_Name (map (\<lambda>(name, b). breakdown name b) m)"

definition breakdown_entry :: "string \<Rightarrow> dayMaps \<Rightarrow> DailyUsageEntry" where
  "breakdown_entry date dm =
     (day_entry (\<lambda>b. bk_models b = []) date (dm_models dm))\<lparr>dy_ProjectBreakdowns := breakdowns (dm_projects dm),
        dy_AgentBreakdowns := breakdowns (dm_agents dm), dy_MachineBreakdowns := breakdowns (dm_machines dm)\<rparr>"

definition breakdown_daily :: "(accumKey, bucket) gomap \<Rightarrow> DailyUsageEntry list" where
  "breakdown_daily accum =
     (let days = breakdown_days accum
      in map (\<lambda>date. breakdown_entry date (the (map_of days date))) (sort (map fst days)))"

section \<open>Totals and the whole query\<close>

definition add_day :: "DailyUsageEntry \<Rightarrow> UsageTotals \<Rightarrow> UsageTotals" where
  "add_day e t = t\<lparr>ut_InputTokens := ut_InputTokens t + dy_InputTokens e,
     ut_OutputTokens := ut_OutputTokens t + dy_OutputTokens e,
     ut_CacheCreationTokens := ut_CacheCreationTokens t + dy_CacheCreationTokens e,
     ut_CacheReadTokens := ut_CacheReadTokens t + dy_CacheReadTokens e,
     ut_TotalCost := ut_TotalCost t + dy_TotalCost e\<rparr>"

definition sortedSetKeys :: "string list \<Rightarrow> string list" where
  "sortedSetKeys s = sort s"

definition NewUsageSessionCounts :: "(string, UsageSessionInfo) gomap \<Rightarrow> UsageSessionCounts" where
  "NewUsageSessionCounts seen =
     \<lparr>sc_Total = length seen, sc_ByProject = group_rows (\<lambda>(i, s). si_Project s) 0 (\<lambda>_. Suc) seen [],
      sc_ByAgent = group_rows (\<lambda>(i, s). si_Agent s) 0 (\<lambda>_. Suc) seen []\<rparr>"

definition zero_totals :: UsageTotals where
  "zero_totals = \<lparr>ut_InputTokens = 0, ut_OutputTokens = 0, ut_CacheCreationTokens = 0, ut_CacheReadTokens = 0,
     ut_TotalCost = 0, ut_CacheSavings = 0, ut_HasCost = False, ut_UnpricedModels = []\<rparr>"

definition usage_result :: "usageScan \<Rightarrow> DailyUsageEntry list \<Rightarrow> DailyUsageResult" where
  "usage_result st daily =
     \<lparr>dr_Daily = daily,
      dr_Totals = (fold add_day daily zero_totals)\<lparr>ut_CacheSavings := us_savings st,
        ut_HasCost := (us_contributing st \<and> us_allPriced st), ut_UnpricedModels := sortedSetKeys (us_unpriced st)\<rparr>,
      dr_SessionCounts = NewUsageSessionCounts (us_sessions st)\<rparr>"

datatype usage_error = LoadingPricing | QueryingUsage

definition GetDailyUsage ::
  "(string \<Rightarrow> string) \<Rightarrow> (string \<Rightarrow> string \<Rightarrow> int) \<Rightarrow> (string, modelRates) gomap option \<Rightarrow> dailyUsageScanRow list option \<Rightarrow>
   UsageFilter \<Rightarrow> usage_error + DailyUsageResult" where
  "GetDailyUsage local_date usage_int loaded rows f =
     (case loaded of
        None \<Rightarrow> Inl LoadingPricing
      | Some pricing \<Rightarrow>
     (case rows of
        None \<Rightarrow> Inl QueryingUsage
      | Some rs \<Rightarrow>
          let st = fold (usage_step local_date usage_int pricing f) rs usage_start
          in Inr (usage_result st (if \<not> uf_Breakdowns f then fast_daily (us_accum st) else breakdown_daily (us_accum st)))))"

section \<open>Both assemblies agree\<close>

text \<open>A bucket is unpriced exactly when it names the models that had no price.\<close>

definition bucket_ok :: "bucket \<Rightarrow> bool" where
  "bucket_ok b \<longleftrightarrow> bk_priced b = (bk_models b = []) \<and> [] \<notin> set (bk_models b)"

definition accum_ok :: "(accumKey, bucket) gomap \<Rightarrow> bool" where
  "accum_ok accum \<longleftrightarrow> gomap_ok accum \<and> list_all (\<lambda>(k, b). bucket_ok b) accum"

lemma insert_not_Nil: "List.insert x xs \<noteq> []"
  by (auto simp: List.insert_def)

lemma add_amounts_ok: "bucket_ok b \<Longrightarrow> model \<noteq> [] \<Longrightarrow> bucket_ok (add_amounts am model b)"
  by (auto simp: bucket_ok_def add_amounts_def addBucketModel_def insert_not_Nil split: prod.split)

lemma count_row_accum:
  "us_accum (count_row ld ui pricing r st) =
     upsert (row_key ld r) new_bucket (add_amounts (dailyUsageAmounts ui pricing r) (du_model r)) (us_accum st)"
  by (simp add: count_row_def Let_def split: prod.split)

lemma count_row_ok:
  "accum_ok (us_accum st) \<Longrightarrow> du_model r \<noteq> [] \<Longrightarrow> accum_ok (us_accum (count_row ld ui pricing r st))"
proof -
  assume acc: "accum_ok (us_accum st)" and model: "du_model r \<noteq> []"
  have new: "bucket_ok new_bucket" by (simp add: bucket_ok_def new_bucket_def zero_bucket_def)
  have "list_all (\<lambda>(k, b). bucket_ok b) (us_accum (count_row ld ui pricing r st))"
    unfolding count_row_accum
    by (rule upsert_all) (use acc model new in \<open>auto simp: accum_ok_def add_amounts_ok\<close>)
  then show ?thesis using acc by (simp add: accum_ok_def count_row_accum gomap_ok_upsert)
qed

lemma usage_step_ok:
  "accum_ok (us_accum st) \<Longrightarrow> du_model r \<noteq> [] \<Longrightarrow> accum_ok (us_accum (usage_step ld ui pricing f r st))"
  by (simp add: usage_step_def Let_def count_row_ok)

lemma usage_scan_ok:
  "accum_ok (us_accum st) \<Longrightarrow> list_all (\<lambda>r. du_model r \<noteq> []) rs \<Longrightarrow>
     accum_ok (us_accum (fold (usage_step ld ui pricing f) rs st))"
  by (induction rs arbitrary: st) (simp_all add: usage_step_ok)

lemma usage_start_ok: "accum_ok (us_accum usage_start)"
  by (simp add: accum_ok_def usage_start_def)

definition same_numbers :: "bucket \<Rightarrow> bucket \<Rightarrow> bool" where
  "same_numbers ma cur \<longleftrightarrow> bk_inputTok ma = bk_inputTok cur \<and> bk_outputTok ma = bk_outputTok cur \<and>
     bk_cacheCr ma = bk_cacheCr cur \<and> bk_cacheRd ma = bk_cacheRd cur \<and> bk_cost ma = bk_cost cur \<and>
     bk_models ma = bk_models cur \<and> bk_priced ma = (bk_models cur = [])"

lemma fold_insert_Nil: "fold List.insert xs ys = [] \<longleftrightarrow> xs = [] \<and> ys = []"
  by (induction xs arbitrary: ys) (auto simp: insert_not_Nil)

lemma fold_addBucketModel:
  "[] \<notin> set ms \<Longrightarrow> fold (\<lambda>m. addBucketModel m False) ms b = b\<lparr>bk_models := fold List.insert ms (bk_models b)\<rparr>"
  by (induction ms arbitrary: b) (auto simp: addBucketModel_def)

lemma merge_same:
  assumes "bucket_ok b" "same_numbers ma cur"
  shows "same_numbers (mergeModelAccum b ma) (merge_day_bucket b cur)"
  using assms
  by (cases "bk_priced b")
    (auto simp: same_numbers_def mergeModelAccum_def merge_day_bucket_def bucket_ok_def Let_def fold_addBucketModel fold_insert_Nil)

lemma fold_merge_same:
  "list_all (\<lambda>(k, b). bucket_ok b) kbs \<Longrightarrow> same_numbers ma cur \<Longrightarrow>
     same_numbers (fold (\<lambda>(k, b). mergeModelAccum b) kbs ma) (fold (\<lambda>(k, b). merge_day_bucket b) kbs cur)"
  by (induction kbs arbitrary: ma cur) (auto simp: merge_same)

lemma start_same: "same_numbers new_bucket zero_bucket"
  by (simp add: same_numbers_def new_bucket_def zero_bucket_def)

text \<open>Two maps with the same names and matching buckets make the same entry.\<close>

definition same_models :: "(string, bucket) gomap \<Rightarrow> (string, bucket) gomap \<Rightarrow> bool" where
  "same_models m m' \<longleftrightarrow> gomap_ok m \<and> gomap_ok m' \<and> (\<forall>n. rel_option same_numbers (map_of m n) (map_of m' n))"

lemma same_models_keys: "same_models m m' \<Longrightarrow> set (map fst m) = set (map fst m')"
proof (rule set_eqI)
  fix n
  assume "same_models m m'"
  then have "rel_option same_numbers (map_of m n) (map_of m' n)" by (simp add: same_models_def)
  then have "(map_of m n = None) = (map_of m' n = None)" by (cases "map_of m n"; cases "map_of m' n") simp_all
  then show "n \<in> set (map fst m) \<longleftrightarrow> n \<in> set (map fst m')" by (simp add: map_of_eq_None_iff)
qed

lemma same_models_cost: "same_models m m' \<Longrightarrow> bk_cost (the (map_of m n)) = bk_cost (the (map_of m' n)) \<or> n \<notin> set (map fst m)"
proof -
  assume "same_models m m'"
  then have "rel_option same_numbers (map_of m n) (map_of m' n)" by (simp add: same_models_def)
  then show ?thesis
    by (cases "map_of m n"; cases "map_of m' n") (auto simp: same_numbers_def map_of_eq_None_iff)
qed

lemma same_models_names:
  assumes "same_models m m'"
  shows "names_by_cost m = names_by_cost m'"
proof -
  have "sort (map fst m) = sort (map fst m')"
    by (rule sorted_keys_unique) (use assms same_models_keys [OF assms] in \<open>simp_all add: same_models_def\<close>)
  moreover have "sort_by (\<lambda>n. - bk_cost (the (map_of m n))) (\<lambda>n. n) (map fst m) =
      sort_by (\<lambda>n. - bk_cost (the (map_of m' n))) (\<lambda>n. n) (map fst m)"
    by (rule sort_by_cong) (use same_models_cost [OF assms] in force)
  ultimately show ?thesis by (simp add: names_by_cost_def sort_by_def)
qed

lemma add_model_same:
  assumes "same_models m m'"
  shows "add_model bk_priced m n e = add_model (\<lambda>b. bk_models b = []) m' n e"
proof -
  have "rel_option same_numbers (map_of m n) (map_of m' n)" using assms by (simp add: same_models_def)
  then show ?thesis
    by (cases "map_of m n"; cases "map_of m' n") (simp_all add: add_model_def same_numbers_def breakdown_def)
qed

lemma day_entry_same:
  assumes "same_models m m'"
  shows "day_entry bk_priced date m = day_entry (\<lambda>b. bk_models b = []) date m'"
proof -
  have "add_model bk_priced m = add_model (\<lambda>b. bk_models b = []) m'"
    using add_model_same [OF assms] by (intro ext)
  then show ?thesis by (simp add: day_entry_def Let_def same_models_names [OF assms])
qed

text \<open>What the two paths hold for a date and a model.\<close>

lemma map_of_usage_fold:
  assumes "gomap_ok dm"
  shows "map_of (fold (\<lambda>((d, m), ma). AList.update m ma) (filter (\<lambda>((d, m), ma). d = date) dm) ms) m =
    (case map_of dm (date, m) of Some ma \<Rightarrow> Some ma | None \<Rightarrow> map_of ms m)"
  using assms
proof (induction dm arbitrary: ms)
  case (Cons p dm)
  obtain d n ma where p: "p = ((d, n), ma)" by (metis surj_pair)
  have ok: "gomap_ok dm" and fresh: "(d, n) \<notin> fst ` set dm" using Cons.prems by (auto simp: gomap_ok_def p)
  have none: "map_of dm (d, n) = None" using fresh by (simp add: map_of_eq_None_iff)
  show ?case
    using Cons.IH [OF ok] none by (auto simp: p map_of_update split: option.split)
qed simp

definition matching :: "string \<Rightarrow> string \<Rightarrow> (accumKey, bucket) gomap \<Rightarrow> (accumKey \<times> bucket) list" where
  "matching date m accum = filter (\<lambda>(k, b). ak_date k = date \<and> ak_model k = m) accum"

lemma map_of_date_models:
  "map_of (date_models accum) (date, m) =
     (if matching date m accum = [] then None
      else Some (fold (\<lambda>(k, b). mergeModelAccum b) (matching date m accum) new_bucket))"
proof -
  have "filter (\<lambda>r. (case r of (k, b) \<Rightarrow> (ak_date k, ak_model k)) = (date, m)) accum = matching date m accum"
    unfolding matching_def by (rule filter_cong) auto
  then show ?thesis unfolding date_models_def map_of_group by simp
qed

lemma fast_days_dates: "set (map fst (fast_days accum)) = (ak_date \<circ> fst) ` set accum"
proof -
  have "set (map fst (fast_days accum)) = (fst \<circ> fst) ` set (date_models accum)"
    unfolding fast_days_def keys_group by (auto simp: image_iff split: prod.splits) force+
  also have "\<dots> = fst ` set (map fst (date_models accum))" by (simp add: image_image)
  also have "\<dots> = (ak_date \<circ> fst) ` set accum"
    unfolding date_models_def keys_group by (force simp: image_iff split: prod.splits)
  finally show ?thesis .
qed

lemma breakdown_days_dates: "set (map fst (breakdown_days accum)) = (ak_date \<circ> fst) ` set accum"
  unfolding breakdown_days_def keys_group by (force simp: image_iff split: prod.splits)

lemma fold_add_to_day:
  "dm_models (fold add_to_day kbs dm) = group_rows (\<lambda>(k, b). ak_model k) zero_bucket (\<lambda>(k, b). merge_day_bucket b) kbs (dm_models dm)"
  "dm_projects (fold add_to_day kbs dm) = group_rows (\<lambda>(k, b). ak_project k) zero_bucket (\<lambda>(k, b). merge_day_bucket b) kbs (dm_projects dm)"
  "dm_agents (fold add_to_day kbs dm) = group_rows (\<lambda>(k, b). ak_agent k) zero_bucket (\<lambda>(k, b). merge_day_bucket b) kbs (dm_agents dm)"
  "dm_machines (fold add_to_day kbs dm) = group_rows (\<lambda>(k, b). ak_machine k) zero_bucket (\<lambda>(k, b). merge_day_bucket b) kbs (dm_machines dm)"
  by (induction kbs arbitrary: dm) (auto simp: add_to_day_def split: prod.splits)

lemma fast_models:
  assumes "date \<in> (ak_date \<circ> fst) ` set accum"
  shows "map_of (the (map_of (fast_days accum) date)) m =
    (if matching date m accum = [] then None
     else Some (fold (\<lambda>(k, b). mergeModelAccum b) (matching date m accum) new_bucket))"
    and "gomap_ok (the (map_of (fast_days accum) date))"
proof -
  let ?dm = "date_models accum"
  have ok: "gomap_ok ?dm" unfolding date_models_def by (rule gomap_ok_group) simp
  have eq: "filter (\<lambda>r. (\<lambda>((d, m), ma). d) r = date) ?dm = filter (\<lambda>((d, m), ma). d = date) ?dm"
    by (rule filter_cong) auto
  have "date \<in> set (map fst (fast_days accum))" using assms by (simp only: fast_days_dates)
  then have "map_of (fast_days accum) date \<noteq> None" by (simp add: map_of_eq_None_iff)
  then have day: "map_of (fast_days accum) date =
      Some (fold (\<lambda>((d, m), ma). AList.update m ma) (filter (\<lambda>((d, m), ma). d = date) ?dm) [])"
    unfolding fast_days_def map_of_group eq by (auto split: if_splits)
  show "map_of (the (map_of (fast_days accum) date)) m =
    (if matching date m accum = [] then None
     else Some (fold (\<lambda>(k, b). mergeModelAccum b) (matching date m accum) new_bucket))"
    by (simp add: day map_of_usage_fold [OF ok] map_of_date_models)
  have "gomap_ok ms \<Longrightarrow> gomap_ok (fold (\<lambda>((d, m), ma). AList.update m ma) xs ms)" for xs :: "((string \<times> string) \<times> bucket) list" and ms
    by (induction xs arbitrary: ms) (auto simp: gomap_ok_update split: prod.split)
  then show "gomap_ok (the (map_of (fast_days accum) date))" by (simp add: day)
qed

lemma fold_update_fresh:
  "distinct (map fst (ms @ kvs)) \<Longrightarrow> fold (\<lambda>(k, v). AList.update k v) kvs ms = ms @ kvs"
proof (induction kvs arbitrary: ms)
  case (Cons kv kvs)
  obtain k v where kv: "kv = (k, v)" by fastforce
  have "k \<notin> fst ` set ms" using Cons.prems by (auto simp: kv)
  then have "AList.update k v ms = ms @ [(k, v)]" by (induction ms) auto
  then show ?case using Cons.IH [of "ms @ [(k, v)]"] Cons.prems by (simp add: kv)
qed simp

lemma fast_day_list:
  assumes "date \<in> (ak_date \<circ> fst) ` set accum"
  shows "the (map_of (fast_days accum) date) =
    map (\<lambda>(k, b). (snd k, b)) (filter (\<lambda>(k, b). fst k = date) (date_models accum))"
proof -
  let ?dm = "date_models accum"
  let ?day = "filter (\<lambda>(k, b). fst k = date) ?dm"
  have ok: "gomap_ok ?dm" unfolding date_models_def by (rule gomap_ok_group) simp
  have "date \<in> set (map fst (fast_days accum))" using assms by (simp only: fast_days_dates)
  then have "map_of (fast_days accum) date \<noteq> None" by (simp add: map_of_eq_None_iff)
  moreover have eq: "filter (\<lambda>r. (\<lambda>((d, m), ma). d) r = date) ?dm = ?day"
    by (rule filter_cong) auto
  ultimately have "the (map_of (fast_days accum) date) = fold (\<lambda>((d, m), ma). AList.update m ma) ?day []"
    unfolding fast_days_def map_of_group eq by (auto split: if_splits)
  also have "\<dots> = fold (\<lambda>(k, v). AList.update k v) (map (\<lambda>(k, b). (snd k, b)) ?day) []"
    by (simp add: fold_map comp_def case_prod_beta')
  also have "\<dots> = [] @ map (\<lambda>(k, b). (snd k, b)) ?day"
  proof (rule fold_update_fresh)
    have "distinct (map fst ?day)" using ok by (simp add: gomap_ok_def distinct_map_filter)
    moreover have "inj_on snd (set (map fst ?day))" by (auto simp: inj_on_def)
    ultimately have "distinct (map snd (map fst ?day))" by (simp only: distinct_map)
    then show "distinct (map fst ([] @ map (\<lambda>(k, b). (snd k, b)) ?day))" by (simp add: comp_def case_prod_beta')
  qed
  finally show ?thesis by simp
qed

lemma breakdown_day:
  assumes "date \<in> (ak_date \<circ> fst) ` set accum"
  shows "map_of (breakdown_days accum) date =
    Some (fold add_to_day (filter (\<lambda>(k, b). ak_date k = date) accum)
      \<lparr>dm_models = [], dm_projects = [], dm_agents = [], dm_machines = []\<rparr>)"
proof -
  have eq: "filter (\<lambda>r. (case r of (k, b) \<Rightarrow> ak_date k) = date) accum = filter (\<lambda>(k, b). ak_date k = date) accum"
    by (rule filter_cong) auto
  have "date \<in> set (map fst (breakdown_days accum))" using assms by (simp only: breakdown_days_dates)
  then have "map_of (breakdown_days accum) date \<noteq> None" by (simp add: map_of_eq_None_iff)
  then show ?thesis unfolding breakdown_days_def map_of_group eq by (auto split: if_splits)
qed

lemma day_models_same:
  assumes "accum_ok accum" "date \<in> (ak_date \<circ> fst) ` set accum"
  shows "same_models (the (map_of (fast_days accum) date)) (dm_models (the (map_of (breakdown_days accum) date)))"
proof -
  let ?day = "filter (\<lambda>(k, b). ak_date k = date) accum"
  have b: "dm_models (the (map_of (breakdown_days accum) date)) =
      group_rows (\<lambda>(k, b). ak_model k) zero_bucket (\<lambda>(k, b). merge_day_bucket b) ?day []"
    by (simp add: breakdown_day [OF assms(2)] fold_add_to_day)
  have eq: "filter (\<lambda>r. (case r of (k, b) \<Rightarrow> ak_model k) = m) ?day = matching date m accum" for m
    unfolding matching_def filter_filter by (rule filter_cong) auto
  have all: "list_all (\<lambda>(k, b). bucket_ok b) (matching date m accum)" for m
    using assms(1) by (auto simp: accum_ok_def matching_def list_all_iff)
  have "rel_option same_numbers (map_of (the (map_of (fast_days accum) date)) m)
      (map_of (dm_models (the (map_of (breakdown_days accum) date))) m)" for m
    using fold_merge_same [OF all start_same]
    unfolding fast_models(1) [OF assms(2)] b map_of_group eq by simp
  then show ?thesis
    unfolding same_models_def b using fast_models(2) [OF assms(2)] gomap_ok_group [of "[]"] by simp
qed

text \<open>An entry without its breakdowns by project, agent and machine.\<close>

definition plain_entry :: "DailyUsageEntry \<Rightarrow> DailyUsageEntry" where
  "plain_entry e = e\<lparr>dy_ProjectBreakdowns := [], dy_AgentBreakdowns := [], dy_MachineBreakdowns := []\<rparr>"

lemma day_entry_plain: "plain_entry (day_entry p date m) = day_entry p date m"
proof -
  have "plain_entry (fold (add_model p m) ns e) = fold (add_model p m) ns e" if "plain_entry e = e" for ns e
    using that
  proof (induction ns arbitrary: e)
    case (Cons n ns)
    have "plain_entry (add_model p m n e) = add_model p m n e"
      using Cons.prems by (cases e) (simp add: add_model_def plain_entry_def split: option.split)
    then show ?case by (simp add: Cons.IH)
  qed simp
  moreover have "plain_entry (new_entry date) = new_entry date" by (simp add: plain_entry_def new_entry_def)
  ultimately have "plain_entry (fold (add_model p m) (names_by_cost m) (new_entry date)) =
      fold (add_model p m) (names_by_cost m) (new_entry date)" by blast
  then show ?thesis
    by (cases "fold (add_model p m) (names_by_cost m) (new_entry date)")
      (simp add: day_entry_def Let_def plain_entry_def)
qed

lemma daily_same:
  assumes "accum_ok accum"
  shows "map plain_entry (breakdown_daily accum) = fast_daily accum"
proof -
  have "sort (map fst (breakdown_days accum)) = sort (map fst (fast_days accum))"
    by (rule sorted_keys_unique)
      (simp_all add: gomap_ok_group fast_days_def breakdown_days_def, simp add: fast_days_dates breakdown_days_dates flip: fast_days_def breakdown_days_def set_map)
  moreover have "plain_entry (breakdown_entry date (the (map_of (breakdown_days accum) date))) =
      day_entry bk_priced date (the (map_of (fast_days accum) date))" if "date \<in> set (map fst (fast_days accum))" for date
  proof -
    have "date \<in> (ak_date \<circ> fst) ` set accum" using that by (simp only: fast_days_dates)
    from day_entry_same [OF day_models_same [OF assms this], of date]
    have "day_entry bk_priced date (the (map_of (fast_days accum) date)) =
        day_entry (\<lambda>b. bk_models b = []) date (dm_models (the (map_of (breakdown_days accum) date)))" .
    moreover have "plain_entry (breakdown_entry date dm) = plain_entry (day_entry (\<lambda>b. bk_models b = []) date (dm_models dm))" for dm
      by (simp add: breakdown_entry_def plain_entry_def)
    ultimately show ?thesis by (simp add: day_entry_plain)
  qed
  ultimately show ?thesis by (simp add: breakdown_daily_def fast_daily_def Let_def)
qed

lemma totals_plain: "fold add_day (map plain_entry es) t = fold add_day es t"
  by (induction es arbitrary: t) (simp_all add: add_day_def plain_entry_def)

section \<open>What the numbers add up to\<close>

text \<open>The rows that count: in range, and the first with their identity.\<close>

definition in_range :: "(string \<Rightarrow> string) \<Rightarrow> UsageFilter \<Rightarrow> dailyUsageScanRow \<Rightarrow> bool" where
  "in_range ld f r \<longleftrightarrow> (uf_From f = [] \<or> \<not> ld (du_ts r) < uf_From f) \<and> (uf_To f = [] \<or> \<not> ld (du_ts r) > uf_To f)"

fun first_of_each :: "string set \<Rightarrow> dailyUsageScanRow list \<Rightarrow> dailyUsageScanRow list" where
  "first_of_each seen [] = []"
| "first_of_each seen (r # rs) =
     (let key = dailyUsageIdentityKey r in
      if key = [] then r # first_of_each seen rs
      else if key \<in> seen then first_of_each seen rs
      else r # first_of_each (insert key seen) rs)"

lemma count_row_seen: "us_seen (count_row ld ui pricing r st) = us_seen st"
  by (simp add: count_row_def Let_def split: prod.split)

lemma scan_counts:
  "fold (usage_step ld ui pricing f) rs st =
     (fold (count_row ld ui pricing) (first_of_each (set (us_seen st)) (filter (in_range ld f) rs)) st)
       \<lparr>us_seen := us_seen (fold (usage_step ld ui pricing f) rs st)\<rparr>"
proof (induction rs arbitrary: st)
  case (Cons r rs)
  have seen: "count_row ld ui pricing r (st\<lparr>us_seen := s\<rparr>) = (count_row ld ui pricing r st)\<lparr>us_seen := s\<rparr>" for s r st
    by (simp add: count_row_def Let_def split: prod.split)
  have fold_seen: "fold (count_row ld ui pricing) xs (st\<lparr>us_seen := s\<rparr>) = (fold (count_row ld ui pricing) xs st)\<lparr>us_seen := s\<rparr>" for s xs st
    by (induction xs arbitrary: st) (simp_all add: seen)
  show ?case
    using Cons.IH [of "usage_step ld ui pricing f r st"]
    by (auto simp: usage_step_def in_range_def Let_def count_row_seen fold_seen seen)
qed simp

lemma gomap_ok_count_row: "gomap_ok (us_accum st) \<Longrightarrow> gomap_ok (us_accum (count_row ld ui pricing r st))"
  by (simp add: count_row_accum gomap_ok_upsert)

lemma scan_accum:
  "us_accum (fold (usage_step ld ui pricing f) rs usage_start) =
     us_accum (fold (count_row ld ui pricing) (first_of_each {} (filter (in_range ld f) rs)) usage_start)"
  by (subst scan_counts) (simp add: usage_start_def)

text \<open>
  A number that is carried along: in a bucket, in an entry, in a line of a breakdown, in the totals, and in
  the amounts of a row.
\<close>

locale usage_number =
  fixes g :: "bucket \<Rightarrow> 'n::cancel_comm_monoid_add"
    and d :: "DailyUsageEntry \<Rightarrow> 'n"
    and x :: "ModelBreakdown \<Rightarrow> 'n"
    and t :: "UsageTotals \<Rightarrow> 'n"
    and w :: "(int \<times> int \<times> int \<times> int) \<times> rat \<times> rat \<times> bool \<times> bool \<Rightarrow> 'n"
  assumes zero: "g zero_bucket = 0" "g new_bucket = 0" "t zero_totals = 0" "d (new_entry date) = 0"
    and row: "g (add_amounts am model b) = g b + w am"
    and merge: "g (merge_day_bucket b cur) = g cur + g b" "g (mergeModelAccum b cur) = g cur + g b"
    and entry: "d (add_model p m n e) = d e + (case map_of m n of None \<Rightarrow> 0 | Some b \<Rightarrow> g b)"
    and frame: "d (e\<lparr>dy_ModelsUsed := us, dy_UnpricedModels := ms\<rparr>) = d e"
      "d (e\<lparr>dy_ProjectBreakdowns := pb, dy_AgentBreakdowns := ab, dy_MachineBreakdowns := mm\<rparr>) = d e"
    and line: "x (breakdown n b) = g b"
    and day: "t (add_day e ts) = t ts + d e"
    and totals: "t (ts\<lparr>ut_CacheSavings := s, ut_HasCost := h, ut_UnpricedModels := us\<rparr>) = t ts"
begin

lemma day_entry_number: "gomap_ok m \<Longrightarrow> d (day_entry p date m) = (\<Sum>(n, b)\<leftarrow>m. g b)"
proof -
  assume ok: "gomap_ok m"
  have "d (fold (add_model p m) ns e) = d e + (\<Sum>n\<leftarrow>ns. case map_of m n of None \<Rightarrow> 0 | Some b \<Rightarrow> g b)" for ns e
    by (induction ns arbitrary: e) (simp_all add: entry add.assoc)
  then show ?thesis
    using sum_over_names [OF ok, of "names_by_cost m" g]
    by (simp add: day_entry_def Let_def frame zero names_by_cost_def)
qed

lemma group_number: "(\<Sum>(n, b)\<leftarrow>group_rows key zero_bucket (\<lambda>(k, b). merge_day_bucket b) kbs []. g b) = (\<Sum>(k, b)\<leftarrow>kbs. g b)"
  by (rule sum_group) (auto simp: zero merge)

lemma breakdowns_number: "(\<Sum>l\<leftarrow>breakdowns m. x l) = (\<Sum>(n, b)\<leftarrow>m. g b)"
proof -
  have "mset (map x (breakdowns m)) = mset (map x (map (\<lambda>(n, b). breakdown n b) m))"
    by (simp only: breakdowns_def mset_map mset_sort_by)
  then have "(\<Sum>l\<leftarrow>breakdowns m. x l) = sum_list (map x (map (\<lambda>(n, b). breakdown n b) m))"
    by (simp only: flip: sum_mset_sum_list)
  then show ?thesis by (simp add: comp_def line case_prod_beta')
qed

text \<open>In every day with breakdowns the models, the projects, the agents and the machines add up to the day.\<close>

lemma breakdown_day_number:
  assumes "e \<in> set (breakdown_daily accum)"
  shows "(\<Sum>l\<leftarrow>dy_ProjectBreakdowns e. x l) = d e \<and> (\<Sum>l\<leftarrow>dy_AgentBreakdowns e. x l) = d e \<and>
    (\<Sum>l\<leftarrow>dy_MachineBreakdowns e. x l) = d e"
proof -
  obtain date where date: "date \<in> set (map fst (breakdown_days accum))"
    and e: "e = breakdown_entry date (the (map_of (breakdown_days accum) date))"
    using assms by (auto simp: breakdown_daily_def Let_def)
  have "date \<in> (ak_date \<circ> fst) ` set accum" using date by (simp only: breakdown_days_dates)
  note day = breakdown_day [OF this]
  show ?thesis
    unfolding e day by (simp add: breakdown_entry_def frame day_entry_number gomap_ok_group breakdowns_number fold_add_to_day group_number)
qed

lemma daily_number: "(\<Sum>e\<leftarrow>breakdown_daily accum. d e) = (\<Sum>(k, b)\<leftarrow>accum. g b)"
proof -
  let ?days = "breakdown_days accum"
  have ok: "gomap_ok ?days" unfolding breakdown_days_def by (rule gomap_ok_group) simp
  have "d (breakdown_entry date (the (map_of ?days date))) =
      (case map_of ?days date of None \<Rightarrow> 0 | Some dm \<Rightarrow> (\<Sum>(n, b)\<leftarrow>dm_models dm. g b))"
    if "date \<in> set (map fst ?days)" for date
  proof -
    have "date \<in> (ak_date \<circ> fst) ` set accum" using that by (simp only: breakdown_days_dates)
    note day = breakdown_day [OF this]
    show ?thesis unfolding day by (simp add: breakdown_entry_def frame day_entry_number gomap_ok_group fold_add_to_day)
  qed
  then have "(\<Sum>e\<leftarrow>breakdown_daily accum. d e) =
      (\<Sum>date\<leftarrow>sort (map fst ?days). case map_of ?days date of None \<Rightarrow> 0 | Some dm \<Rightarrow> (\<Sum>(n, b)\<leftarrow>dm_models dm. g b))"
    unfolding breakdown_daily_def Let_def map_map by (intro arg_cong [of _ _ sum_list] map_cong) auto
  also have "\<dots> = (\<Sum>(date, dm)\<leftarrow>?days. \<Sum>(n, b)\<leftarrow>dm_models dm. g b)"
    by (rule sum_over_names [OF ok]) simp
  also have "\<dots> = (\<Sum>(k, b)\<leftarrow>accum. g b)"
    unfolding breakdown_days_def
  proof (rule sum_group_from [of "[]" "\<lambda>dm. gomap_ok (dm_models dm)" _ "\<lambda>dm. \<Sum>(n, b)\<leftarrow>dm_models dm. g b"
        add_to_day "\<lambda>(k, b). g b", THEN trans])
    show "gomap_ok (dm_models dm) \<Longrightarrow> gomap_ok (dm_models (add_to_day r dm))" for r dm
      by (auto simp: add_to_day_def gomap_ok_upsert split: prod.split)
    have "(\<Sum>(n, b)\<leftarrow>upsert k zero_bucket (merge_day_bucket b) m. g b) = (\<Sum>(n, b)\<leftarrow>m. g b) + g b"
      if "gomap_ok m" for k b m
      using sum_group_from [of m "\<lambda>_. True" zero_bucket g "\<lambda>_. merge_day_bucket b" "\<lambda>_. g b" "\<lambda>_. k" "[()]"] that
      by (simp add: zero merge list_all_iff)
    then show "gomap_ok (dm_models dm) \<Longrightarrow> (\<Sum>(n, b)\<leftarrow>dm_models (add_to_day r dm). g b) =
        (\<Sum>(n, b)\<leftarrow>dm_models dm. g b) + (case r of (k, b) \<Rightarrow> g b)" for r dm
      by (auto simp: add_to_day_def split: prod.split)
  qed simp_all
  finally show ?thesis .
qed

lemma totals_number: "t (fold add_day es ts) = t ts + (\<Sum>e\<leftarrow>es. d e)"
  by (induction es arbitrary: ts) (simp_all add: day add.assoc)

text \<open>A counted row adds its amounts to the accumulator.\<close>

lemma count_row_number:
  "gomap_ok (us_accum st) \<Longrightarrow> (\<Sum>(k, b)\<leftarrow>us_accum (count_row ld ui pricing r st). g b) =
     (\<Sum>(k, b)\<leftarrow>us_accum st. g b) + w (dailyUsageAmounts ui pricing r)"
  using sum_group_from [of "us_accum st" "\<lambda>_. True" new_bucket g "\<lambda>_. add_amounts (dailyUsageAmounts ui pricing r) (du_model r)"
      "\<lambda>_. w (dailyUsageAmounts ui pricing r)" "\<lambda>_. row_key ld r" "[()]"]
  by (simp add: count_row_accum zero row list_all_iff)

lemma count_rows_number:
  "gomap_ok (us_accum st) \<Longrightarrow> (\<Sum>(k, b)\<leftarrow>us_accum (fold (count_row ld ui pricing) rs st). g b) =
     (\<Sum>(k, b)\<leftarrow>us_accum st. g b) + (\<Sum>r\<leftarrow>rs. w (dailyUsageAmounts ui pricing r))"
  by (induction rs arbitrary: st) (simp_all add: count_row_number gomap_ok_count_row add.assoc)

text \<open>The days without breakdowns hold the same sum.\<close>

lemma fast_number: "(\<Sum>e\<leftarrow>fast_daily accum. d e) = (\<Sum>(k, b)\<leftarrow>accum. g b)"
proof -
  let ?days = "fast_days accum" and ?dm = "date_models accum"
  have days: "gomap_ok ?days" unfolding fast_days_def by (rule gomap_ok_group) simp
  have "d (day_entry bk_priced date (the (map_of ?days date))) = (\<Sum>(k, b)\<leftarrow>filter (\<lambda>(k, b). fst k = date) ?dm. g b)"
    if "date \<in> set (map fst ?days)" for date
  proof -
    have "date \<in> (ak_date \<circ> fst) ` set accum" using that by (simp only: fast_days_dates)
    note day = fast_models(2) [OF this] fast_day_list [OF this]
    have "d (day_entry bk_priced date (the (map_of ?days date))) = (\<Sum>(n, b)\<leftarrow>the (map_of ?days date). g b)"
      by (rule day_entry_number [OF day(1)])
    then show ?thesis by (simp add: day(2) comp_def case_prod_beta')
  qed
  then have "(\<Sum>e\<leftarrow>fast_daily accum. d e) =
      (\<Sum>date\<leftarrow>sort (map fst ?days). \<Sum>(k, b)\<leftarrow>filter (\<lambda>(k, b). fst k = date) ?dm. g b)"
    unfolding fast_daily_def Let_def map_map by (intro arg_cong [of _ _ sum_list] map_cong) auto
  also have "\<dots> = (\<Sum>(k, b)\<leftarrow>?dm. g b)"
  proof -
    have "distinct (sort (map fst ?days))" using days by (simp add: gomap_ok_def)
    moreover have "(\<lambda>(k, b). fst k) ` set ?dm \<subseteq> set (sort (map fst ?days))"
      unfolding fast_days_def set_sort keys_group by (force split: prod.splits)
    ultimately show ?thesis
      using sum_by_key [of "sort (map fst ?days)" "\<lambda>(k, b). fst k" ?dm "\<lambda>(k, b). g b"]
      by (simp add: case_prod_beta')
  qed
  also have "\<dots> = (\<Sum>(k, b)\<leftarrow>accum. g b)"
    unfolding date_models_def by (rule sum_group) (auto simp: zero merge)
  finally show ?thesis .
qed

lemma totals_rows:
  assumes "GetDailyUsage ld ui (Some pricing) (Some rows) f = Inr res"
  shows "t (dr_Totals res) = (\<Sum>r\<leftarrow>first_of_each {} (filter (in_range ld f) rows). w (dailyUsageAmounts ui pricing r))"
proof -
  define st where "st = fold (usage_step ld ui pricing f) rows usage_start"
  have start: "gomap_ok (us_accum usage_start)" "us_accum usage_start = []" by (simp_all add: usage_start_def)
  have "(\<Sum>(k, b)\<leftarrow>us_accum st. g b) =
      (\<Sum>r\<leftarrow>first_of_each {} (filter (in_range ld f) rows). w (dailyUsageAmounts ui pricing r))"
    unfolding st_def scan_accum count_rows_number [OF start(1)] start(2) by simp
  moreover have "t (dr_Totals res) =
      (\<Sum>e\<leftarrow>(if uf_Breakdowns f then breakdown_daily (us_accum st) else fast_daily (us_accum st)). d e)"
    using assms by (auto simp: GetDailyUsage_def Let_def usage_result_def totals totals_number zero simp flip: st_def)
  ultimately show ?thesis by (simp add: daily_number fast_number split: if_splits)
qed

lemma totals_days:
  assumes "GetDailyUsage ld ui (Some pricing) (Some rows) f = Inr res"
  shows "(\<Sum>e\<leftarrow>dr_Daily res. d e) = t (dr_Totals res)"
  using assms by (auto simp: GetDailyUsage_def Let_def usage_result_def totals totals_number zero)

end

text \<open>The tokens and the cost are such numbers.\<close>

lemma add_bucket_model_frame:
  "bk_inputTok (addBucketModel m p b) = bk_inputTok b" "bk_outputTok (addBucketModel m p b) = bk_outputTok b"
  "bk_cacheCr (addBucketModel m p b) = bk_cacheCr b" "bk_cacheRd (addBucketModel m p b) = bk_cacheRd b"
  "bk_cost (addBucketModel m p b) = bk_cost b"
  by (simp_all add: addBucketModel_def)

lemma fold_bucket_model_frame:
  "bk_inputTok (fold (\<lambda>m. addBucketModel m p) ms b) = bk_inputTok b"
  "bk_outputTok (fold (\<lambda>m. addBucketModel m p) ms b) = bk_outputTok b"
  "bk_cacheCr (fold (\<lambda>m. addBucketModel m p) ms b) = bk_cacheCr b"
  "bk_cacheRd (fold (\<lambda>m. addBucketModel m p) ms b) = bk_cacheRd b"
  "bk_cost (fold (\<lambda>m. addBucketModel m p) ms b) = bk_cost b"
  by (induction ms arbitrary: b) (simp_all add: add_bucket_model_frame)

lemmas usage_number_simps = zero_bucket_def new_bucket_def zero_totals_def new_entry_def add_amounts_def
  merge_day_bucket_def mergeModelAccum_def add_model_def breakdown_def add_day_def add_bucket_model_frame fold_bucket_model_frame Let_def

interpretation input_tokens: usage_number bk_inputTok dy_InputTokens mb_InputTokens ut_InputTokens "\<lambda>am. fst (fst am)"
  by unfold_locales (auto simp: usage_number_simps split: prod.split option.split)

interpretation output_tokens: usage_number bk_outputTok dy_OutputTokens mb_OutputTokens ut_OutputTokens "\<lambda>am. fst (snd (fst am))"
  by unfold_locales (auto simp: usage_number_simps split: prod.split option.split)

interpretation cache_creation_tokens: usage_number bk_cacheCr dy_CacheCreationTokens mb_CacheCreationTokens
  ut_CacheCreationTokens "\<lambda>am. fst (snd (snd (fst am)))"
  by unfold_locales (auto simp: usage_number_simps split: prod.split option.split)

interpretation cache_read_tokens: usage_number bk_cacheRd dy_CacheReadTokens mb_CacheReadTokens
  ut_CacheReadTokens "\<lambda>am. snd (snd (snd (fst am)))"
  by unfold_locales (auto simp: usage_number_simps split: prod.split option.split)

interpretation costs: usage_number bk_cost dy_TotalCost mb_Cost ut_TotalCost "\<lambda>am. fst (snd am)"
  by unfold_locales (auto simp: usage_number_simps split: prod.split option.split)

section \<open>Properties\<close>

lemma usage_step_breakdowns: "usage_step ld ui pricing (f\<lparr>uf_Breakdowns := b\<rparr>) = usage_step ld ui pricing f"
  by (simp add: fun_eq_iff usage_step_def Let_def)

text \<open>
  C38. The days are the same with and without breakdowns: both paths return the same days, models, tokens,
  costs and flags, the same totals and the same session counts, provided every row names a model, as the
  query demands.
\<close>

theorem breakdowns_agree:
  assumes "list_all (\<lambda>r. du_model r \<noteq> []) rows"
  shows "map_sum id (\<lambda>res. res\<lparr>dr_Daily := map plain_entry (dr_Daily res)\<rparr>)
      (GetDailyUsage local_date usage_int pricing (Some rows) (f\<lparr>uf_Breakdowns := True\<rparr>)) =
    GetDailyUsage local_date usage_int pricing (Some rows) (f\<lparr>uf_Breakdowns := False\<rparr>)"
proof (cases pricing)
  case (Some p)
  define st where "st = fold (usage_step local_date usage_int p f) rows usage_start"
  have "accum_ok (us_accum st)" unfolding st_def by (rule usage_scan_ok [OF usage_start_ok assms])
  from daily_same [OF this] totals_plain [of "breakdown_daily (us_accum st)"] show ?thesis
    by (simp add: Some GetDailyUsage_def usage_step_breakdowns Let_def usage_result_def flip: st_def)
qed (simp add: GetDailyUsage_def)

definition demo_usage_row :: dailyUsageScanRow where
  "demo_usage_row = \<lparr>du_sessionID = ''s'', du_messageOrdinal = Some 0, du_usageSource = ''e'', du_ts = ''d'', du_model = ''m'',
     du_tokenJSON = [], du_inputTokens = 3, du_outputTokens = 2, du_cacheCreationInputTokens = 0,
     du_cacheReadInputTokens = 0, du_costUSD = None, du_claudeMessageID = ''i'', du_claudeRequestID = ''r'',
     du_sourceUUID = [], du_usageDedupKey = [], du_project = ''p'', du_agent = ''a'', du_machine = ''h''\<rparr>"

definition demo_filter :: UsageFilter where
  "demo_filter = \<lparr>uf_From = [], uf_To = [], uf_Agent = [], uf_Project = [], uf_Machine = [], uf_GitBranch = [], uf_Model = [],
     uf_ExcludeProject = [], uf_ExcludeAgent = [], uf_ExcludeModel = [], uf_Timezone = [], uf_MinUserMessages = 0,
     uf_ExcludeOneShot = False, uf_ExcludeAutomated = False, uf_ActiveSince = [], uf_Breakdowns = True\<rparr>"

theorem breakdowns_agree_witness:
  "map_sum id (\<lambda>res. res\<lparr>dr_Daily := map plain_entry (dr_Daily res)\<rparr>)
      (GetDailyUsage (\<lambda>s. s) (\<lambda>_ _. 0) (Some []) (Some [demo_usage_row, demo_usage_row]) (demo_filter\<lparr>uf_Breakdowns := True\<rparr>)) =
    GetDailyUsage (\<lambda>s. s) (\<lambda>_ _. 0) (Some []) (Some [demo_usage_row, demo_usage_row]) (demo_filter\<lparr>uf_Breakdowns := False\<rparr>)"
  by (rule breakdowns_agree) (simp add: demo_usage_row_def)

text \<open>
  C37. Every row is counted once, whether the breakdowns are asked for or not: the token totals are the sums over
  the rows in range, of several rows with one identity the first only; nothing is lost or counted twice in
  either assembly of the days, and the days themselves add up to the same totals.
\<close>

theorem usage_counts_each_row_once:
  assumes "GetDailyUsage local_date usage_int (Some pricing) (Some rows) f = Inr res"
  shows "let amounts = map (dailyUsageAmounts usage_int pricing) (first_of_each {} (filter (in_range local_date f) rows)) in
    ut_InputTokens (dr_Totals res) = (\<Sum>((i, out, cc, cr), _)\<leftarrow>amounts. i) \<and>
    ut_OutputTokens (dr_Totals res) = (\<Sum>((i, out, cc, cr), _)\<leftarrow>amounts. out) \<and>
    ut_CacheCreationTokens (dr_Totals res) = (\<Sum>((i, out, cc, cr), _)\<leftarrow>amounts. cc) \<and>
    ut_CacheReadTokens (dr_Totals res) = (\<Sum>((i, out, cc, cr), _)\<leftarrow>amounts. cr) \<and>
    (\<Sum>e\<leftarrow>dr_Daily res. dy_InputTokens e) = ut_InputTokens (dr_Totals res) \<and>
    (\<Sum>e\<leftarrow>dr_Daily res. dy_OutputTokens e) = ut_OutputTokens (dr_Totals res) \<and>
    (\<Sum>e\<leftarrow>dr_Daily res. dy_CacheCreationTokens e) = ut_CacheCreationTokens (dr_Totals res) \<and>
    (\<Sum>e\<leftarrow>dr_Daily res. dy_CacheReadTokens e) = ut_CacheReadTokens (dr_Totals res)"
  using input_tokens.totals_rows [OF assms] output_tokens.totals_rows [OF assms] cache_creation_tokens.totals_rows [OF assms]
    cache_read_tokens.totals_rows [OF assms] input_tokens.totals_days [OF assms] output_tokens.totals_days [OF assms]
    cache_creation_tokens.totals_days [OF assms] cache_read_tokens.totals_days [OF assms]
  by (simp add: Let_def case_prod_beta' comp_def)

text \<open>The same of the cost, in exact arithmetic; the code adds \<open>float64\<close> and rounds.\<close>

lemma usage_cost_counts_each_row_once:
  "GetDailyUsage local_date usage_int (Some pricing) (Some rows) f = Inr res \<Longrightarrow>
     ut_TotalCost (dr_Totals res) = (\<Sum>(toks, cost, _)\<leftarrow>map (dailyUsageAmounts usage_int pricing)
       (first_of_each {} (filter (in_range local_date f) rows)). cost)"
  by (drule costs.totals_rows) (simp add: case_prod_beta' comp_def)

text \<open>Two lines of one response and a line of another, without breakdowns: the tokens of two.\<close>

definition demo_usage_rows :: "dailyUsageScanRow list" where
  "demo_usage_rows = [demo_usage_row, demo_usage_row, demo_usage_row\<lparr>du_claudeMessageID := ''j'', du_project := ''q''\<rparr>]"

lemma demo_usage_runs: "\<exists>res. GetDailyUsage (\<lambda>s. s) (\<lambda>_ _. 0) (Some []) (Some demo_usage_rows) (demo_filter\<lparr>uf_Breakdowns := b\<rparr>) = Inr res"
  by (simp add: GetDailyUsage_def Let_def)

theorem usage_counts_each_row_once_witness:
  "\<exists>res. GetDailyUsage (\<lambda>s. s) (\<lambda>_ _. 0) (Some []) (Some demo_usage_rows) (demo_filter\<lparr>uf_Breakdowns := False\<rparr>) = Inr res \<and>
    ut_InputTokens (dr_Totals res) = 6"
proof -
  obtain res where res: "GetDailyUsage (\<lambda>s. s) (\<lambda>_ _. 0) (Some []) (Some demo_usage_rows) (demo_filter\<lparr>uf_Breakdowns := False\<rparr>) = Inr res"
    using demo_usage_runs by blast
  from usage_counts_each_row_once [OF res]
  have "ut_InputTokens (dr_Totals res) = (\<Sum>((i, out, cc, cr), _)\<leftarrow>map (dailyUsageAmounts (\<lambda>_ _. 0) [])
      (first_of_each {} (filter (in_range (\<lambda>s. s) (demo_filter\<lparr>uf_Breakdowns := False\<rparr>)) demo_usage_rows)). i)"
    by (simp only: Let_def)
  also have "\<dots> = 6" by code_simp
  finally show ?thesis using res by blast
qed

text \<open>
  C39. Each day adds up in every direction: its projects, its agents and its machines have together exactly the
  tokens of the day, of every kind.
\<close>

theorem breakdowns_add_up:
  assumes "GetDailyUsage local_date usage_int pricing rows f = Inr res" "uf_Breakdowns f" "e \<in> set (dr_Daily res)"
  shows "list_all (\<lambda>ls. (\<Sum>l\<leftarrow>ls. mb_InputTokens l) = dy_InputTokens e \<and> (\<Sum>l\<leftarrow>ls. mb_OutputTokens l) = dy_OutputTokens e \<and>
      (\<Sum>l\<leftarrow>ls. mb_CacheCreationTokens l) = dy_CacheCreationTokens e \<and>
      (\<Sum>l\<leftarrow>ls. mb_CacheReadTokens l) = dy_CacheReadTokens e)
    [dy_ProjectBreakdowns e, dy_AgentBreakdowns e, dy_MachineBreakdowns e]"
proof -
  obtain accum where "e \<in> set (breakdown_daily accum)"
    using assms by (auto simp: GetDailyUsage_def Let_def usage_result_def split: option.splits)
  note e = this
  show ?thesis
    using input_tokens.breakdown_day_number [OF e] output_tokens.breakdown_day_number [OF e]
      cache_creation_tokens.breakdown_day_number [OF e] cache_read_tokens.breakdown_day_number [OF e]
    by simp
qed

text \<open>One day, two projects.\<close>

theorem breakdowns_add_up_witness:
  "\<exists>res e. GetDailyUsage (\<lambda>s. s) (\<lambda>_ _. 0) (Some []) (Some demo_usage_rows) (demo_filter\<lparr>uf_Breakdowns := True\<rparr>) = Inr res \<and>
    e \<in> set (dr_Daily res) \<and> (\<Sum>l\<leftarrow>dy_ProjectBreakdowns e. mb_InputTokens l) = dy_InputTokens e"
proof -
  obtain res where res: "GetDailyUsage (\<lambda>s. s) (\<lambda>_ _. 0) (Some []) (Some demo_usage_rows) (demo_filter\<lparr>uf_Breakdowns := True\<rparr>) = Inr res"
    using demo_usage_runs by blast
  have "breakdown_daily (us_accum (fold (usage_step (\<lambda>s. s) (\<lambda>_ _. 0) [] (demo_filter\<lparr>uf_Breakdowns := True\<rparr>)) demo_usage_rows usage_start)) \<noteq> []"
    by code_simp
  then have "dr_Daily res \<noteq> []" using res by (auto simp: GetDailyUsage_def Let_def usage_result_def)
  then have e: "hd (dr_Daily res) \<in> set (dr_Daily res)" by (rule hd_in_set)
  from breakdowns_add_up [OF res _ e] show ?thesis using res e by auto
qed

end
