(* ===== verification/Signals_Analytics.thy ===== *)
theory Signals_Analytics
  imports Grouping
begin

text \<open>
  The aggregation of session signals (\<open>AggregateSignals\<close> in \<open>internal/db/analytics.go\<close>): one loop over the rows
  of the query fills the counters and the groups by agent, project and date, then the averages and the sorted
  lists are built. Averages are rational numbers; Go computes them as floats. Distributions are maps, since
  they are only looked up.
\<close>

section \<open>Rows and responses\<close>

record SignalRow =
  sg_ID :: string
  sg_Agent :: string
  sg_Project :: string
  sg_Date :: string
  sg_HealthScore :: "int option"
  sg_HealthGrade :: "string option"
  sg_Outcome :: string
  sg_OutcomeConfidence :: string
  sg_ToolFailureSignalCount :: int
  sg_ToolRetryCount :: int
  sg_EditChurnCount :: int
  sg_CompactionCount :: int
  sg_MidTaskCompactionCount :: int
  sg_ContextPressureMax :: "rat option"

record SignalsToolHealth =
  th_TotalFailureSignals :: int
  th_TotalRetries :: int
  th_TotalEditChurn :: int
  th_SessionsWithFailures :: nat
  th_FailureRate :: rat

record SignalsContextHealth =
  ch_AvgCompactionCount :: rat
  ch_SessionsWithCompaction :: nat
  ch_MidTaskCompactionCount :: int
  ch_SessionsWithMidTaskCompac :: nat
  ch_SessionsWithContextData :: nat
  ch_AvgContextPressure :: "rat option"
  ch_HighPressureSessions :: nat

record SignalsTrendBucket =
  tb_Date :: string
  tb_SessionCount :: nat
  tb_AvgHealthScore :: "rat option"
  tb_Completed :: nat
  tb_Errored :: nat
  tb_Abandoned :: nat
  tb_AvgFailureSignals :: rat

text \<open>The line of an agent, and that of a project.\<close>

record SignalsAgentRow =
  gr_Name :: string
  gr_SessionCount :: nat
  gr_AvgHealthScore :: "rat option"
  gr_CompletedRate :: rat
  gr_AvgFailureSignals :: rat

record SignalsAnalyticsResponse =
  sr_ScoredSessions :: nat
  sr_UnscoredSessions :: nat
  sr_GradeDistribution :: "string \<Rightarrow> nat option"
  sr_AvgHealthScore :: "rat option"
  sr_OutcomeDistribution :: "string \<Rightarrow> nat option"
  sr_OutcomeConfidenceDistribution :: "string \<Rightarrow> nat option"
  sr_ToolHealth :: SignalsToolHealth
  sr_ContextHealth :: SignalsContextHealth
  sr_Trend :: "SignalsTrendBucket list"
  sr_ByAgent :: "SignalsAgentRow list"
  sr_ByProject :: "SignalsAgentRow list"

text \<open>\<open>math.Round\<close>: to the nearest integer, halves away from zero; then the rounding to a digit and to a rate.\<close>

definition go_round :: "rat \<Rightarrow> int" where
  "go_round x = (if x \<ge> 0 then \<lfloor>x + 1 / 2\<rfloor> else - \<lfloor>- x + 1 / 2\<rfloor>)"

definition round_digit :: "rat \<Rightarrow> rat" where
  "round_digit x = of_int (go_round (x * 10)) / 10"

definition round_rate :: "nat \<Rightarrow> nat \<Rightarrow> rat" where
  "round_rate n all = of_int (go_round (of_nat n / of_nat all * 1000)) / 10"

text \<open>\<open>if k != "" { m[k]++ }\<close>\<close>

definition increment :: "string \<Rightarrow> (string \<Rightarrow> nat option) \<Rightarrow> string \<Rightarrow> nat option" where
  "increment k m = (if k \<noteq> [] then m(k \<mapsto> Suc (case m k of None \<Rightarrow> 0 | Some n \<Rightarrow> n)) else m)"

section \<open>The loop\<close>

record groupAccum =
  ga_count :: nat
  ga_healthScoreSum :: int
  ga_healthScoreCount :: nat
  ga_completed :: nat
  ga_failureSignalSum :: int

record trendExtra =
  te_errored :: nat
  te_abandoned :: nat

definition zero_accum :: groupAccum where
  "zero_accum = \<lparr>ga_count = 0, ga_healthScoreSum = 0, ga_healthScoreCount = 0, ga_completed = 0, ga_failureSignalSum = 0\<rparr>"

definition add_signal :: "SignalRow \<Rightarrow> groupAccum \<Rightarrow> groupAccum" where
  "add_signal r g =
     g\<lparr>ga_count := Suc (ga_count g), ga_failureSignalSum := ga_failureSignalSum g + sg_ToolFailureSignalCount r,
       ga_healthScoreSum := ga_healthScoreSum g + (case sg_HealthScore r of Some s \<Rightarrow> s | None \<Rightarrow> 0),
       ga_healthScoreCount := ga_healthScoreCount g + (case sg_HealthScore r of Some s \<Rightarrow> 1 | None \<Rightarrow> 0),
       ga_completed := ga_completed g + (if sg_Outcome r = ''completed'' then 1 else 0)\<rparr>"

definition add_extra :: "SignalRow \<Rightarrow> trendExtra \<Rightarrow> trendExtra" where
  "add_extra r te = te\<lparr>te_errored := te_errored te + (if sg_Outcome r = ''errored'' then 1 else 0),
     te_abandoned := te_abandoned te + (if sg_Outcome r = ''abandoned'' then 1 else 0)\<rparr>"

text \<open>The counters of the response; the average compaction count first holds the sum.\<close>

definition start_response :: SignalsAnalyticsResponse where
  "start_response = \<lparr>sr_ScoredSessions = 0, sr_UnscoredSessions = 0, sr_GradeDistribution = Map.empty,
     sr_AvgHealthScore = None, sr_OutcomeDistribution = Map.empty, sr_OutcomeConfidenceDistribution = Map.empty,
     sr_ToolHealth = \<lparr>th_TotalFailureSignals = 0, th_TotalRetries = 0, th_TotalEditChurn = 0,
       th_SessionsWithFailures = 0, th_FailureRate = 0\<rparr>,
     sr_ContextHealth = \<lparr>ch_AvgCompactionCount = 0, ch_SessionsWithCompaction = 0, ch_MidTaskCompactionCount = 0,
       ch_SessionsWithMidTaskCompac = 0, ch_SessionsWithContextData = 0, ch_AvgContextPressure = None,
       ch_HighPressureSessions = 0\<rparr>,
     sr_Trend = [], sr_ByAgent = [], sr_ByProject = []\<rparr>"

definition add_tool_health :: "SignalRow \<Rightarrow> SignalsToolHealth \<Rightarrow> SignalsToolHealth" where
  "add_tool_health r t =
     t\<lparr>th_TotalFailureSignals := th_TotalFailureSignals t + sg_ToolFailureSignalCount r,
       th_TotalRetries := th_TotalRetries t + sg_ToolRetryCount r,
       th_TotalEditChurn := th_TotalEditChurn t + sg_EditChurnCount r,
       th_SessionsWithFailures := th_SessionsWithFailures t + (if sg_ToolFailureSignalCount r > 0 then 1 else 0)\<rparr>"

definition add_context_health :: "SignalRow \<Rightarrow> SignalsContextHealth \<Rightarrow> SignalsContextHealth" where
  "add_context_health r c =
     c\<lparr>ch_SessionsWithCompaction := ch_SessionsWithCompaction c + (if sg_CompactionCount r > 0 then 1 else 0),
       ch_AvgCompactionCount := ch_AvgCompactionCount c + of_int (sg_CompactionCount r),
       ch_MidTaskCompactionCount := ch_MidTaskCompactionCount c + sg_MidTaskCompactionCount r,
       ch_SessionsWithMidTaskCompac := ch_SessionsWithMidTaskCompac c + (if sg_MidTaskCompactionCount r > 0 then 1 else 0),
       ch_SessionsWithContextData := ch_SessionsWithContextData c + (case sg_ContextPressureMax r of Some p \<Rightarrow> 1 | None \<Rightarrow> 0),
       ch_HighPressureSessions := ch_HighPressureSessions c +
         (case sg_ContextPressureMax r of Some p \<Rightarrow> if p \<ge> 8 / 10 then 1 else 0 | None \<Rightarrow> 0)\<rparr>"

definition add_response :: "SignalRow \<Rightarrow> SignalsAnalyticsResponse \<Rightarrow> SignalsAnalyticsResponse" where
  "add_response r s =
     s\<lparr>sr_ScoredSessions := sr_ScoredSessions s + (case sg_HealthScore r of Some h \<Rightarrow> 1 | None \<Rightarrow> 0),
       sr_UnscoredSessions := sr_UnscoredSessions s + (case sg_HealthScore r of Some h \<Rightarrow> 0 | None \<Rightarrow> 1),
       sr_GradeDistribution := (case sg_HealthGrade r of
           Some g \<Rightarrow> increment g (sr_GradeDistribution s)
         | None \<Rightarrow> sr_GradeDistribution s),
       sr_OutcomeDistribution := increment (sg_Outcome r) (sr_OutcomeDistribution s),
       sr_OutcomeConfidenceDistribution := increment (sg_OutcomeConfidence r) (sr_OutcomeConfidenceDistribution s),
       sr_ToolHealth := add_tool_health r (sr_ToolHealth s),
       sr_ContextHealth := add_context_health r (sr_ContextHealth s)\<rparr>"

record signalScan =
  ss_resp :: SignalsAnalyticsResponse
  ss_healthScoreSum :: int
  ss_healthScoreCount :: nat
  ss_agentMap :: "(string, groupAccum) gomap"
  ss_projectMap :: "(string, groupAccum) gomap"
  ss_trendMap :: "(string, groupAccum) gomap"
  ss_trendExtras :: "(string, trendExtra) gomap"

definition signal_step :: "SignalRow \<Rightarrow> signalScan \<Rightarrow> signalScan" where
  "signal_step r st =
     st\<lparr>ss_resp := add_response r (ss_resp st),
        ss_healthScoreSum := ss_healthScoreSum st + (case sg_HealthScore r of Some s \<Rightarrow> s | None \<Rightarrow> 0),
        ss_healthScoreCount := ss_healthScoreCount st + (case sg_HealthScore r of Some s \<Rightarrow> 1 | None \<Rightarrow> 0),
        ss_agentMap := upsert (sg_Agent r) zero_accum (add_signal r) (ss_agentMap st),
        ss_projectMap := upsert (sg_Project r) zero_accum (add_signal r) (ss_projectMap st),
        ss_trendMap := upsert (sg_Date r) zero_accum (add_signal r) (ss_trendMap st),
        ss_trendExtras := upsert (sg_Date r) \<lparr>te_errored = 0, te_abandoned = 0\<rparr> (add_extra r) (ss_trendExtras st)\<rparr>"

definition signal_scan :: "SignalRow list \<Rightarrow> signalScan" where
  "signal_scan all = fold signal_step all
     \<lparr>ss_resp = start_response, ss_healthScoreSum = 0, ss_healthScoreCount = 0, ss_agentMap = [],
      ss_projectMap = [], ss_trendMap = [], ss_trendExtras = []\<rparr>"

section \<open>The response\<close>

definition average_score :: "groupAccum \<Rightarrow> rat option" where
  "average_score g =
     (if ga_healthScoreCount g > 0
      then Some (round_digit (of_int (ga_healthScoreSum g) / of_nat (ga_healthScoreCount g))) else None)"

definition average_failures :: "groupAccum \<Rightarrow> rat" where
  "average_failures g = (if ga_count g > 0 then round_digit (of_int (ga_failureSignalSum g) / of_nat (ga_count g)) else 0)"

definition trend_bucket :: "(string, trendExtra) gomap \<Rightarrow> string \<times> groupAccum \<Rightarrow> SignalsTrendBucket" where
  "trend_bucket extras dg =
     (case dg of (date, g) \<Rightarrow>
        \<lparr>tb_Date = date, tb_SessionCount = ga_count g, tb_AvgHealthScore = average_score g,
         tb_Completed = ga_completed g,
         tb_Errored = (case map_of extras date of Some te \<Rightarrow> te_errored te | None \<Rightarrow> 0),
         tb_Abandoned = (case map_of extras date of Some te \<Rightarrow> te_abandoned te | None \<Rightarrow> 0),
         tb_AvgFailureSignals = average_failures g\<rparr>)"

definition group_row :: "string \<times> groupAccum \<Rightarrow> SignalsAgentRow" where
  "group_row ng =
     (case ng of (name, g) \<Rightarrow>
        \<lparr>gr_Name = name, gr_SessionCount = ga_count g, gr_AvgHealthScore = average_score g,
         gr_CompletedRate = (if ga_count g > 0 then round_rate (ga_completed g) (ga_count g) else 0),
         gr_AvgFailureSignals = average_failures g\<rparr>)"

definition agent_rows :: "(string, groupAccum) gomap \<Rightarrow> SignalsAgentRow list" where
  "agent_rows m = map (\<lambda>agent. group_row (agent, the (map_of m agent))) (sort (map fst m))"

definition project_rows :: "(string, groupAccum) gomap \<Rightarrow> SignalsAgentRow list" where
  "project_rows m = sort_by (\<lambda>r. - int (gr_SessionCount r)) gr_Name (map group_row m)"

definition trend_rows :: "(string, groupAccum) gomap \<Rightarrow> (string, trendExtra) gomap \<Rightarrow> SignalsTrendBucket list" where
  "trend_rows m extras = sort_key tb_Date (map (trend_bucket extras) m)"

definition context_averages :: "SignalRow list \<Rightarrow> nat \<Rightarrow> SignalsContextHealth \<Rightarrow> SignalsContextHealth" where
  "context_averages all totalCount c =
     (let c = c\<lparr>ch_AvgCompactionCount := round_digit (ch_AvgCompactionCount c / of_nat totalCount)\<rparr>
      in if ch_SessionsWithContextData c > 0 then
           (let pressureSum = sum_list (map (\<lambda>r. case sg_ContextPressureMax r of Some p \<Rightarrow> p | None \<Rightarrow> 0) all)
            in c\<lparr>ch_AvgContextPressure := Some (of_int (go_round (pressureSum / of_nat (ch_SessionsWithContextData c) * 1000)) / 1000)\<rparr>)
         else c)"

definition AggregateSignals :: "SignalRow list \<Rightarrow> SignalsAnalyticsResponse" where
  "AggregateSignals all =
     (if all = [] then start_response
      else let st = signal_scan all; resp = ss_resp st; totalCount = length all; t = sr_ToolHealth resp in
        resp\<lparr>sr_AvgHealthScore := (if ss_healthScoreCount st > 0
               then Some (round_digit (of_int (ss_healthScoreSum st) / of_nat (ss_healthScoreCount st))) else None),
             sr_ToolHealth := t\<lparr>th_FailureRate := round_rate (th_SessionsWithFailures t) totalCount\<rparr>,
             sr_ContextHealth := context_averages all totalCount (sr_ContextHealth resp),
             sr_Trend := trend_rows (ss_trendMap st) (ss_trendExtras st),
             sr_ByAgent := agent_rows (ss_agentMap st),
             sr_ByProject := project_rows (ss_projectMap st)\<rparr>)"

section \<open>The loop, field by field\<close>

lemma scan_fields:
  "ss_resp (fold signal_step all st) = fold add_response all (ss_resp st)"
  "ss_healthScoreSum (fold signal_step all st) =
     ss_healthScoreSum st + (\<Sum>r\<leftarrow>all. case sg_HealthScore r of Some s \<Rightarrow> s | None \<Rightarrow> 0)"
  "ss_healthScoreCount (fold signal_step all st) =
     ss_healthScoreCount st + (\<Sum>r\<leftarrow>all. case sg_HealthScore r of Some s \<Rightarrow> 1 | None \<Rightarrow> 0)"
  "ss_agentMap (fold signal_step all st) = group_rows sg_Agent zero_accum add_signal all (ss_agentMap st)"
  "ss_projectMap (fold signal_step all st) = group_rows sg_Project zero_accum add_signal all (ss_projectMap st)"
  "ss_trendMap (fold signal_step all st) = group_rows sg_Date zero_accum add_signal all (ss_trendMap st)"
  "ss_trendExtras (fold signal_step all st) =
     group_rows sg_Date \<lparr>te_errored = 0, te_abandoned = 0\<rparr> add_extra all (ss_trendExtras st)"
  by (induction all arbitrary: st) (simp_all add: signal_step_def)

section \<open>Order of the rows\<close>

lemma increment_commute: "increment k (increment l m) = increment l (increment k m)"
  by (rule ext) (simp add: increment_def fun_upd_def)

lemma add_signal_commute: "add_signal r \<circ> add_signal s = add_signal s \<circ> add_signal r"
  by (rule ext) (simp add: add_signal_def ac_simps)

lemma add_extra_commute: "add_extra r \<circ> add_extra s = add_extra s \<circ> add_extra r"
  by (rule ext) (simp add: add_extra_def ac_simps)

lemma add_tool_commute: "add_tool_health r (add_tool_health s t) = add_tool_health s (add_tool_health r t)"
  by (simp add: add_tool_health_def ac_simps)

lemma add_context_commute: "add_context_health r (add_context_health s c) = add_context_health s (add_context_health r c)"
  by (simp add: add_context_health_def ac_simps)

lemma add_response_commute: "add_response r \<circ> add_response s = add_response s \<circ> add_response r"
proof (rule ext)
  fix x
  show "(add_response r \<circ> add_response s) x = (add_response s \<circ> add_response r) x"
    unfolding o_apply
    by (rule SignalsAnalyticsResponse.equality; cases "sg_HealthGrade r"; cases "sg_HealthGrade s";
        simp add: add_response_def add_tool_commute [of r s] add_context_commute [of r s] increment_commute)
qed

lemma group_permuted:
  assumes "mset rs = mset rs'" "\<And>r s. f r \<circ> f s = f s \<circ> f r"
  shows "map_of (group_rows key v0 f rs []) = map_of (group_rows key v0 f rs' [])"
    and "mset (group_rows key v0 f rs []) = mset (group_rows key v0 f rs' [])"
    and "sort (map fst (group_rows key v0 f rs [])) = sort (map fst (group_rows key v0 f rs' []))"
proof -
  let ?m = "group_rows key v0 f rs []" and ?m' = "group_rows key v0 f rs' []"
  have ok: "gomap_ok ?m" "gomap_ok ?m'" by (simp_all add: gomap_ok_group)
  have "fold f (filter P rs) v0 = fold f (filter P rs') v0" for P
    by (rule fold_multiset_equiv [THEN fun_cong]) (simp_all add: assms)
  moreover have "filter P rs = [] \<longleftrightarrow> filter P rs' = []" for P
    using mset_eq_setD [OF assms(1)] by (simp add: filter_empty_conv)
  ultimately show same: "map_of ?m = map_of ?m'" by (simp add: fun_eq_iff map_of_group)
  have "set ?m = set ?m'"
    using ok same by (metis gomap_ok_def map_of_inject_set)
  then show "mset ?m = mset ?m'"
    using ok by (simp add: gomap_ok_def distinct_map set_eq_iff_mset_eq_distinct)
  show "sort (map fst ?m) = sort (map fst ?m')"
    using ok mset_eq_setD [OF assms(1)] by (intro sorted_keys_unique) (simp_all add: keys_group del: set_map)
qed

lemma sort_unique_mset:
  assumes "mset xs = mset ys" "inj_on name (set xs)"
  shows "sort_by key name xs = sort_by key name ys"
  using sort_unique [OF assms] by (simp add: sort_by_def)

lemma group_row_name: "gr_Name (group_row p) = fst p" "tb_Date (trend_bucket x p) = fst p"
  by (simp_all add: group_row_def trend_bucket_def split: prod.split)

lemma inj_named:
  assumes "gomap_ok m"
  shows "inj_on gr_Name (set (map group_row m))" "inj_on tb_Date (set (map (trend_bucket x) m))"
proof -
  have "inj_on fst (set m)" using assms by (simp add: gomap_ok_def distinct_map)
  then show "inj_on gr_Name (set (map group_row m))" "inj_on tb_Date (set (map (trend_bucket x) m))"
    by (auto simp: inj_on_def group_row_name)
qed

section \<open>Properties\<close>

lemma fold_response_permuted: "mset all = mset all' \<Longrightarrow> fold add_response all = fold add_response all'"
  by (rule fold_multiset_equiv) (rule add_response_commute)

text \<open>
  The response depends on the sessions only: neither the order in which the query returns the rows nor the
  order in which Go walks its maps shows in any number or list.
\<close>

theorem AggregateSignals_order_independent:
  assumes "mset all = mset all'"
  shows "AggregateSignals all = AggregateSignals all'"
proof -
  note agents = group_permuted [OF assms add_signal_commute, of sg_Agent zero_accum]
    and projects = group_permuted [OF assms add_signal_commute, of sg_Project zero_accum]
    and trend = group_permuted [OF assms add_signal_commute, of sg_Date zero_accum]
    and extras = group_permuted [OF assms add_extra_commute, of sg_Date "\<lparr>te_errored = 0, te_abandoned = 0\<rparr>"]
  have ok: "gomap_ok (group_rows key zero_accum add_signal all [])" for key :: "SignalRow \<Rightarrow> string"
    by (simp add: gomap_ok_group)
  have "agent_rows (ss_agentMap (signal_scan all)) = agent_rows (ss_agentMap (signal_scan all'))"
    using agents(1,3) by (simp add: signal_scan_def scan_fields agent_rows_def)
  moreover have "project_rows (ss_projectMap (signal_scan all)) = project_rows (ss_projectMap (signal_scan all'))"
    unfolding project_rows_def signal_scan_def scan_fields
    by (rule sort_unique_mset) (use projects(2) inj_named(1) [OF ok] in simp_all)
  moreover have "trend_rows (ss_trendMap (signal_scan all)) (ss_trendExtras (signal_scan all)) =
      trend_rows (ss_trendMap (signal_scan all')) (ss_trendExtras (signal_scan all'))"
  proof -
    have "trend_bucket (group_rows sg_Date \<lparr>te_errored = 0, te_abandoned = 0\<rparr> add_extra all []) =
        trend_bucket (group_rows sg_Date \<lparr>te_errored = 0, te_abandoned = 0\<rparr> add_extra all' [])"
      by (rule ext) (simp add: trend_bucket_def extras(1))
    then show ?thesis
      unfolding trend_rows_def signal_scan_def scan_fields
      by (intro sort_unique) (use trend(2) inj_named(2) [OF ok] in simp_all)
  qed
  moreover have "ss_resp (signal_scan all) = ss_resp (signal_scan all')"
    "ss_healthScoreSum (signal_scan all) = ss_healthScoreSum (signal_scan all')"
    "ss_healthScoreCount (signal_scan all) = ss_healthScoreCount (signal_scan all')"
    by (simp_all add: signal_scan_def scan_fields fold_response_permuted [OF assms] sum_list_permuted [OF assms])
  moreover have "context_averages all (length all) = context_averages all' (length all')"
  proof -
    have "sum_list (map (\<lambda>r. case sg_ContextPressureMax r of Some p \<Rightarrow> p | None \<Rightarrow> 0) all) =
        sum_list (map (\<lambda>r. case sg_ContextPressureMax r of Some p \<Rightarrow> p | None \<Rightarrow> 0) all')"
      by (rule sum_list_permuted [OF assms])
    then show ?thesis
      unfolding context_averages_def [abs_def] mset_eq_length [OF assms] by (simp only:)
  qed
  moreover have "(all = []) = (all' = [])" "length all = length all'" using assms mset_eq_length [OF assms] by auto
  ultimately show ?thesis by (simp add: AggregateSignals_def Let_def)
qed

definition demo_signal :: SignalRow where
  "demo_signal = \<lparr>sg_ID = ''s'', sg_Agent = ''a'', sg_Project = ''p'', sg_Date = ''d'', sg_HealthScore = Some 80,
     sg_HealthGrade = Some ''B'', sg_Outcome = ''completed'', sg_OutcomeConfidence = ''high'', sg_ToolFailureSignalCount = 1,
     sg_ToolRetryCount = 0, sg_EditChurnCount = 0, sg_CompactionCount = 0, sg_MidTaskCompactionCount = 0,
     sg_ContextPressureMax = None\<rparr>"

theorem AggregateSignals_order_independent_witness:
  "AggregateSignals [demo_signal, demo_signal\<lparr>sg_Agent := ''b''\<rparr>] = AggregateSignals [demo_signal\<lparr>sg_Agent := ''b''\<rparr>, demo_signal]"
  by (rule AggregateSignals_order_independent) simp

lemma group_counts: "(\<Sum>(k, g)\<leftarrow>group_rows key zero_accum add_signal all []. ga_count g) = length all"
  using sum_group [of ga_count zero_accum add_signal "\<lambda>_. 1" key all]
  by (simp add: zero_accum_def add_signal_def sum_list_triv)

text \<open>
  Every session is in exactly one line of each list: the counts of the agents, of the projects and of the
  days all add up to the number of sessions, as do the scored and the unscored ones.
\<close>

theorem AggregateSignals_counts:
  "let resp = AggregateSignals all in
    sum_list (map gr_SessionCount (sr_ByAgent resp)) = length all \<and>
    sum_list (map gr_SessionCount (sr_ByProject resp)) = length all \<and>
    sum_list (map tb_SessionCount (sr_Trend resp)) = length all \<and>
    sr_ScoredSessions resp + sr_UnscoredSessions resp = length all"
proof (cases "all = []")
  case False
  have agents: "sum_list (map gr_SessionCount (agent_rows (ss_agentMap (signal_scan all)))) = length all"
    using sum_named [of "group_rows sg_Agent zero_accum add_signal all []" ga_count] group_counts [of sg_Agent all]
    by (simp add: signal_scan_def scan_fields agent_rows_def comp_def group_row_def gomap_ok_group)
  have "mset (map gr_SessionCount (project_rows m)) = mset (map (\<lambda>(k, g). ga_count g) m)" for m
    by (simp add: project_rows_def group_row_def case_prod_beta' comp_def image_mset.compositionality)
  then have "sum_list (map gr_SessionCount (project_rows m)) = (\<Sum>(k, g)\<leftarrow>m. ga_count g)" for m
    by (simp only: flip: sum_mset_sum_list)
  then have projects: "sum_list (map gr_SessionCount (project_rows (ss_projectMap (signal_scan all)))) = length all"
    by (simp add: signal_scan_def scan_fields group_counts)
  have "mset (map tb_SessionCount (trend_rows m x)) = mset (map (\<lambda>(k, g). ga_count g) m)" for m x
    by (simp add: trend_rows_def trend_bucket_def case_prod_beta' comp_def image_mset.compositionality)
  then have "sum_list (map tb_SessionCount (trend_rows m x)) = (\<Sum>(k, g)\<leftarrow>m. ga_count g)" for m x
    by (simp only: flip: sum_mset_sum_list)
  then have trend: "sum_list (map tb_SessionCount (trend_rows (ss_trendMap (signal_scan all)) (ss_trendExtras (signal_scan all)))) = length all"
    by (simp add: signal_scan_def scan_fields group_counts)
  have "sr_ScoredSessions (fold add_response all r) + sr_UnscoredSessions (fold add_response all r) =
      sr_ScoredSessions r + sr_UnscoredSessions r + length all" for r
    by (induction all arbitrary: r) (simp_all add: add_response_def split: option.split)
  then have "sr_ScoredSessions (ss_resp (signal_scan all)) + sr_UnscoredSessions (ss_resp (signal_scan all)) = length all"
    by (simp add: signal_scan_def scan_fields start_response_def)
  with agents projects trend False show ?thesis by (simp add: AggregateSignals_def Let_def)
qed (simp add: AggregateSignals_def start_response_def)

lemma round_rate_range: "n \<le> m \<Longrightarrow> 0 < m \<Longrightarrow> 0 \<le> round_rate n m \<and> round_rate n m \<le> 100"
proof -
  assume nm: "n \<le> m" "0 < m"
  let ?x = "of_nat n / of_nat m * 1000 :: rat"
  have "0 \<le> ?x" "?x \<le> 1000" using nm by (simp_all add: field_simps)
  then have "0 \<le> \<lfloor>?x + 1 / 2\<rfloor>" "\<lfloor>?x + 1 / 2\<rfloor> < 1001" by (simp_all add: le_floor_iff floor_less_iff)
  with \<open>0 \<le> ?x\<close> have "0 \<le> go_round ?x" "go_round ?x \<le> 1000" by (simp_all add: go_round_def)
  then have "0 \<le> (of_int (go_round ?x) :: rat)" "(of_int (go_round ?x) :: rat) \<le> of_int 1000" by (simp_all only: of_int_le_iff of_int_0_le_iff)
  then show ?thesis by (simp add: round_rate_def)
qed

text \<open>Rates are percentages: the failure rate and every completion rate lie between 0 and 100.\<close>

theorem AggregateSignals_rates:
  "let resp = AggregateSignals all in
    list_all (\<lambda>x. 0 \<le> x \<and> x \<le> 100)
      (th_FailureRate (sr_ToolHealth resp) # map gr_CompletedRate (sr_ByAgent resp @ sr_ByProject resp))"
proof (cases "all = []")
  case False
  have "th_SessionsWithFailures (sr_ToolHealth (fold add_response rs r)) \<le>
      th_SessionsWithFailures (sr_ToolHealth r) + length rs" for rs r
  proof (induction rs arbitrary: r)
    case (Cons a rs)
    show ?case using Cons.IH [of "add_response a r"] by (simp add: add_response_def add_tool_health_def split: if_splits)
  qed simp
  from this [of all start_response] have failures: "th_SessionsWithFailures (sr_ToolHealth (ss_resp (signal_scan all))) \<le> length all"
    by (simp add: signal_scan_def scan_fields start_response_def)
  have completed: "ga_completed (fold add_signal rs g) \<le> ga_count (fold add_signal rs g)" if "ga_completed g \<le> ga_count g" for rs g
    using that by (induction rs arbitrary: g) (simp_all add: add_signal_def)
  have group: "ga_completed g \<le> ga_count g" if "(k, g) \<in> set (group_rows key zero_accum add_signal all [])" for k g and key :: "SignalRow \<Rightarrow> string"
  proof -
    have "gomap_ok (group_rows key zero_accum add_signal all [])" by (simp add: gomap_ok_group)
    then have "map_of (group_rows key zero_accum add_signal all []) k = Some g" using that by (simp add: gomap_mem_map_of)
    then have "g = fold add_signal (filter (\<lambda>r. key r = k) all) zero_accum" by (simp add: map_of_group split: if_splits)
    then show ?thesis using completed [of zero_accum] by (simp add: zero_accum_def)
  qed
  have row: "0 \<le> gr_CompletedRate (group_row (k, g)) \<and> gr_CompletedRate (group_row (k, g)) \<le> 100" if "ga_completed g \<le> ga_count g" for k g
    using that round_rate_range by (simp add: group_row_def)
  have "list_all (\<lambda>x. 0 \<le> x \<and> x \<le> 100) (map gr_CompletedRate (agent_rows (ss_agentMap (signal_scan all))))"
    unfolding agent_rows_def signal_scan_def scan_fields list_all_iff
    using row group [of _ _ sg_Agent] map_of_is_SomeI [of "group_rows sg_Agent zero_accum add_signal all []"]
      distinct_group [of sg_Agent zero_accum add_signal all] by force
  moreover have "list_all (\<lambda>x. 0 \<le> x \<and> x \<le> 100) (map gr_CompletedRate (project_rows (ss_projectMap (signal_scan all))))"
    unfolding project_rows_def signal_scan_def scan_fields list_all_iff using row group [of _ _ sg_Project] by force
  ultimately show ?thesis
    using False failures round_rate_range [of "th_SessionsWithFailures (sr_ToolHealth (ss_resp (signal_scan all)))" "length all"]
    by (simp add: AggregateSignals_def Let_def)
qed (simp add: AggregateSignals_def start_response_def)

end
