(* ===== verification/Speed.thy ===== *)
theory Speed
  imports Grouping
begin

text \<open>
  Output speed (\<open>internal/db/speed.go\<close>) and conversation velocity (\<open>internal/db/analytics.go\<close>): the merging
  of assistant rows into generation events, the samples, their percentiles, trend and baselines, and the turn
  cycles, first responses and active minutes of a session. Instants are nanoseconds, rates are rational.
\<close>

section \<open>Messages and samples\<close>

definition speedBurstGap :: int where "speedBurstGap = 2 * second"
definition minSpeedOutputTokens :: int where "minSpeedOutputTokens = 32"
definition maxSpeedWindow :: int where "maxSpeedWindow = 1800 * second"

record SpeedMessage =
  sp_SessionID :: string
  sp_Agent :: string
  sp_Model :: string
  sp_Ordinal :: int
  sp_Role :: string
  sp_Timestamp :: time
  sp_TimestampValid :: bool
  sp_OutputTokens :: int
  sp_HasOutputTokens :: bool
  sp_PreviousTimestamp :: time
  sp_PreviousTimestampValid :: bool
  sp_RequestID :: string

record SpeedSample =
  sl_SessionID :: string
  sl_Agent :: string
  sl_Model :: string
  sl_BucketStart :: int
  sl_Rate :: rat
  sl_OutputTokens :: int
  sl_timestamp :: time

text \<open>\<open>float64(tokens) / window\<close>, the window in seconds.\<close>

definition rate_of :: "int \<Rightarrow> time \<Rightarrow> rat" where
  "rate_of tokens window = of_int tokens / (of_int window / of_int second)"

text \<open>An open event: what the loop over its members keeps.\<close>

record openEvent =
  oe_tokens :: int
  oe_model :: string
  oe_endTs :: time
  oe_lastTs :: time
  oe_lastReq :: string

definition event_tokens :: "SpeedMessage \<Rightarrow> int" where
  "event_tokens m = (if sp_HasOutputTokens m then sp_OutputTokens m else 0)"

definition open_event :: "SpeedMessage \<Rightarrow> openEvent" where
  "open_event first = \<lparr>oe_tokens = event_tokens first, oe_model = sp_Model first, oe_endTs = sp_Timestamp first,
     oe_lastTs = sp_Timestamp first, oe_lastReq = sp_RequestID first\<rparr>"

definition extends :: "string \<Rightarrow> openEvent \<Rightarrow> SpeedMessage \<Rightarrow> bool" where
  "extends sid e nxt \<longleftrightarrow>
     sp_SessionID nxt = sid \<and> sp_Role nxt = ''assistant'' \<and> sp_TimestampValid nxt \<and>
     (let gap = sp_Timestamp nxt - oe_lastTs e; sameRequest = (sp_RequestID nxt \<noteq> [] \<and> sp_RequestID nxt = oe_lastReq e)
      in \<not> (gap \<ge> speedBurstGap \<and> \<not> sameRequest))"

definition extend_event :: "SpeedMessage \<Rightarrow> openEvent \<Rightarrow> openEvent" where
  "extend_event nxt e =
     \<lparr>oe_tokens = oe_tokens e + event_tokens nxt, oe_model = (if sp_Model nxt \<noteq> [] then sp_Model nxt else oe_model e),
      oe_endTs = (if sp_Timestamp nxt > oe_endTs e then sp_Timestamp nxt else oe_endTs e),
      oe_lastTs = sp_Timestamp nxt, oe_lastReq = sp_RequestID nxt\<rparr>"

fun burst :: "string \<Rightarrow> openEvent \<Rightarrow> SpeedMessage list \<Rightarrow> openEvent \<times> SpeedMessage list" where
  "burst sid e [] = (e, [])"
| "burst sid e (nxt # ms) = (if extends sid e nxt then burst sid (extend_event nxt e) ms else (e, nxt # ms))"

definition event_sample :: "SpeedMessage \<Rightarrow> openEvent \<Rightarrow> SpeedSample list" where
  "event_sample first e =
     (let window = oe_endTs e - sp_PreviousTimestamp first in
      if sp_PreviousTimestampValid first \<and> oe_tokens e \<ge> minSpeedOutputTokens \<and> window > 0 \<and> window \<le> maxSpeedWindow
      then [\<lparr>sl_SessionID = sp_SessionID first, sl_Agent = sp_Agent first, sl_Model = oe_model e, sl_BucketStart = 0,
             sl_Rate = rate_of (oe_tokens e) window, sl_OutputTokens = oe_tokens e, sl_timestamp = oe_endTs e\<rparr>]
      else [])"

lemma burst_length: "length (snd (burst sid e ms)) \<le> length ms"
  by (induction sid e ms rule: burst.induct) (simp_all add: le_SucI)

function SpeedEventsFromMessages :: "SpeedMessage list \<Rightarrow> SpeedSample list" where
  "SpeedEventsFromMessages [] = []"
| "SpeedEventsFromMessages (first # ms) =
     (if sp_Role first \<noteq> ''assistant'' \<or> \<not> sp_TimestampValid first then SpeedEventsFromMessages ms
      else case burst (sp_SessionID first) (open_event first) ms of
        (e, rest) \<Rightarrow> event_sample first e @ SpeedEventsFromMessages rest)"
  by pat_completeness auto
termination
  by (relation "measure length") (auto simp: less_Suc_eq_le, metis burst_length snd_conv)

section \<open>Percentiles and aggregates\<close>

definition percentileFloat :: "rat list \<Rightarrow> rat \<Rightarrow> rat" where
  "percentileFloat vs pct =
     (let n = length vs in
      if n = 0 then 0
      else let idx = nat \<lfloor>of_nat n * pct\<rfloor>; idx = (if idx \<ge> n then n - 1 else idx) in vs ! idx)"

record SpeedStats =
  st_P50 :: "rat option"
  st_P95 :: "rat option"
  st_N :: nat

definition AggregateSpeedStats :: "SpeedSample list \<Rightarrow> SpeedStats" where
  "AggregateSpeedStats samples =
     (if length samples < 5 then \<lparr>st_P50 = None, st_P95 = None, st_N = length samples\<rparr>
      else let rates = sort (map sl_Rate samples)
        in \<lparr>st_P50 = Some (percentileFloat rates (1 / 2)), st_P95 = Some (percentileFloat rates (95 / 100)),
            st_N = length samples\<rparr>)"

record SessionSpeed =
  se_TokPerSec :: rat
  se_SampleN :: nat

definition SessionSpeedFromSamples :: "SpeedSample list \<Rightarrow> SessionSpeed option" where
  "SessionSpeedFromSamples samples =
     (if length samples < 5 then None
      else let tokens = sum_list (map sl_OutputTokens samples);
               seconds = sum_list (map (\<lambda>s. of_int (sl_OutputTokens s) / sl_Rate s) samples)
        in if seconds \<le> 0 then None else Some \<lparr>se_TokPerSec = of_int tokens / seconds, se_SampleN = length samples\<rparr>)"

record SpeedPoint =
  po_T :: int
  po_P50 :: "rat option"
  po_P95 :: "rat option"
  po_N :: nat

record SpeedTrendSeries =
  ts_Key :: string
  ts_IsOther :: bool
  ts_Points :: "SpeedPoint list"

definition speedTrendSeries :: "string \<Rightarrow> bool \<Rightarrow> SpeedSample list \<Rightarrow> SpeedTrendSeries" where
  "speedTrendSeries key isOther samples =
     (let byBucket = group_rows sl_BucketStart [] (\<lambda>s l. l @ [s]) samples []
      in \<lparr>ts_Key = key, ts_IsOther = isOther,
          ts_Points = map (\<lambda>bucket. let stats = AggregateSpeedStats (the (map_of byBucket bucket))
              in \<lparr>po_T = bucket, po_P50 = st_P50 stats, po_P95 = st_P95 stats, po_N = st_N stats\<rparr>)
            (sort (map fst byBucket))\<rparr>)"

definition trend_key :: "string \<Rightarrow> SpeedSample \<Rightarrow> string" where
  "trend_key groupBy s =
     (if groupBy = ''model'' then (if sl_Model s = [] then ''unknown'' else sl_Model s) else sl_Agent s)"

definition AggregateSpeedTrend :: "SpeedSample list \<Rightarrow> string \<Rightarrow> SpeedTrendSeries list" where
  "AggregateSpeedTrend samples groupBy =
     (let groups = group_rows (trend_key groupBy) [] (\<lambda>s l. l @ [s]) samples [];
          samples_of = (\<lambda>k. the (map_of groups k));
          keys = sort_by (\<lambda>k. - int (length (samples_of k))) (\<lambda>k. k) (map fst groups);
          limit = min (length keys) 8;
          series = map (\<lambda>k. speedTrendSeries k False (samples_of k)) (take limit keys)
      in if length keys > limit
         then series @ [speedTrendSeries ''(rest)'' True (concat (map samples_of (drop limit keys)))] else series)"

text \<open>Buckets in seconds of the epoch; Go's division truncates towards zero.\<close>

definition go_div :: "int \<Rightarrow> int \<Rightarrow> int" where
  "go_div a b = (if (a < 0) = (b < 0) then \<bar>a\<bar> div \<bar>b\<bar> else - (\<bar>a\<bar> div \<bar>b\<bar>))"

definition BucketSpeedSamples :: "int \<Rightarrow> SpeedSample list \<Rightarrow> SpeedSample list" where
  "BucketSpeedSamples bucketSec samples =
     map (\<lambda>s. s\<lparr>sl_BucketStart := (if bucketSec \<le> 0 then 0 else go_div (sl_timestamp s div second) bucketSec * bucketSec)\<rparr>) samples"

record SpeedSessionRate =
  sr_SessionID :: string
  sr_TokPerSec :: rat

definition SessionSpeedBaseline :: "SessionSpeed list \<Rightarrow> rat option \<times> nat" where
  "SessionSpeedBaseline speeds =
     (let n = length speeds in
      if n < 10 then (None, n) else (Some (percentileFloat (sort (map se_TokPerSec speeds)) (1 / 2)), n))"

definition SessionSpeedBaselineExcluding :: "SpeedSessionRate list \<Rightarrow> string \<Rightarrow> rat option \<times> nat" where
  "SessionSpeedBaselineExcluding rates sessionID =
     SessionSpeedBaseline (map (\<lambda>r. \<lparr>se_TokPerSec = sr_TokPerSec r, se_SampleN = 0\<rparr>)
       (filter (\<lambda>r. sr_SessionID r \<noteq> sessionID) rates))"

definition SpeedSessionRatesFromSamples :: "SpeedSample list \<Rightarrow> SpeedSessionRate list" where
  "SpeedSessionRatesFromSamples samples =
     (let bySession = group_rows sl_SessionID [] (\<lambda>s l. l @ [s]) samples []
      in sort_key sr_SessionID (List.map_filter (\<lambda>(sessionID, sessionSamples).
           map_option (\<lambda>speed. \<lparr>sr_SessionID = sessionID, sr_TokPerSec = se_TokPerSec speed\<rparr>)
             (SessionSpeedFromSamples sessionSamples)) bySession))"

section \<open>Velocity of a session\<close>

definition maxCycle :: time where "maxCycle = 1800 * second"
definition maxGap :: time where "maxGap = 300 * second"

record velocityMsg =
  vm_role :: string
  vm_ts :: time
  vm_valid :: bool
  vm_contentLength :: int
  vm_outputTokens :: int
  vm_hasOutput :: bool
  vm_model :: string

text \<open>Spans are kept in nanoseconds; \<open>va_activeNanos\<close> stands for \<open>activeMinutes\<close> times a minute.\<close>

record velocityAccumulator =
  va_turnCycles :: "time list"
  va_firstResponses :: "time list"
  va_totalMsgs :: nat
  va_totalChars :: int
  va_totalToolCalls :: int
  va_activeNanos :: time
  va_sessions :: nat
  va_speedSamples :: "SpeedSample list"

text \<open>The assistant rows, each with the time of the row before it.\<close>

fun speed_messages :: "time \<times> bool \<Rightarrow> velocityMsg list \<Rightarrow> SpeedMessage list" where
  "speed_messages lag [] = []"
| "speed_messages lag (m # ms) =
     (if vm_role m = ''assistant''
      then [\<lparr>sp_SessionID = [], sp_Agent = [], sp_Model = vm_model m, sp_Ordinal = 0, sp_Role = ''assistant'',
             sp_Timestamp = vm_ts m, sp_TimestampValid = vm_valid m, sp_OutputTokens = vm_outputTokens m,
             sp_HasOutputTokens = vm_hasOutput m, sp_PreviousTimestamp = fst lag, sp_PreviousTimestampValid = snd lag,
             sp_RequestID = []\<rparr>] else []) @ speed_messages (vm_ts m, vm_valid m) ms"

definition turn_cycle :: "velocityMsg \<Rightarrow> velocityMsg \<Rightarrow> time list" where
  "turn_cycle prev cur =
     (let delta = vm_ts cur - vm_ts prev in
      if vm_valid prev \<and> vm_valid cur \<and> vm_role prev = ''user'' \<and> vm_role cur = ''assistant'' \<and> delta > 0 \<and> delta \<le> maxCycle
      then [delta] else [])"

fun turn_cycles :: "velocityMsg list \<Rightarrow> time list" where
  "turn_cycles (prev # cur # ms) = turn_cycle prev cur @ turn_cycles (cur # ms)"
| "turn_cycles ms = []"

definition first_response :: "velocityMsg list \<Rightarrow> time list" where
  "first_response msgs =
     (case dropWhile (\<lambda>m. \<not> (vm_role m = ''user'' \<and> vm_valid m)) msgs of
        [] \<Rightarrow> []
      | firstUser # rest \<Rightarrow>
          (case find (\<lambda>m. vm_role m = ''assistant'' \<and> vm_valid m) rest of
             None \<Rightarrow> []
           | Some firstAsst \<Rightarrow> let delta = vm_ts firstAsst - vm_ts firstUser in [if delta < 0 then 0 else delta]))"

definition active_gap :: "velocityMsg \<Rightarrow> velocityMsg \<Rightarrow> time" where
  "active_gap prev m =
     (if vm_valid prev \<and> vm_valid m then
        (let gap = vm_ts m - vm_ts prev in if gap > 0 then (if gap > maxGap then maxGap else gap) else 0)
      else 0)"

fun active_time :: "velocityMsg list \<Rightarrow> time" where
  "active_time (prev # m # ms) = active_gap prev m + active_time (m # ms)"
| "active_time ms = 0"

definition processSessionVelocity :: "velocityMsg list \<Rightarrow> int \<Rightarrow> velocityAccumulator \<Rightarrow> velocityAccumulator" where
  "processSessionVelocity msgs toolCount a =
     (let a = a\<lparr>va_sessions := Suc (va_sessions a),
            va_speedSamples := va_speedSamples a @ SpeedEventsFromMessages (speed_messages (0, False) msgs),
            va_turnCycles := va_turnCycles a @ turn_cycles msgs,
            va_firstResponses := va_firstResponses a @ first_response msgs\<rparr>;
          active = active_time msgs;
          asstChars = sum_list (map vm_contentLength (filter (\<lambda>m. vm_role m = ''assistant'') msgs))
      in if active > 0 then
           a\<lparr>va_totalMsgs := va_totalMsgs a + length msgs, va_totalChars := va_totalChars a + asstChars,
             va_totalToolCalls := va_totalToolCalls a + toolCount, va_activeNanos := va_activeNanos a + active\<rparr>
         else a)"

section \<open>Facts about events\<close>

lemma burst_append:
  "snd (burst sid e xs) \<noteq> [] \<or> ys = [] \<or> sp_SessionID (hd ys) \<noteq> sid \<Longrightarrow>
     burst sid e (xs @ ys) = (fst (burst sid e xs), snd (burst sid e xs) @ ys)"
proof (induction sid e xs rule: burst.induct)
  case (1 sid e)
  then show ?case by (cases ys) (auto simp: extends_def)
qed auto

lemma burst_rest_last: "snd (burst sid e xs) \<noteq> [] \<Longrightarrow> last (snd (burst sid e xs)) = last xs"
  by (induction sid e xs rule: burst.induct) (auto split: if_splits)

lemma burst_session:
  "snd (burst sid e xs) = [] \<Longrightarrow> xs = [] \<or> sp_SessionID (last xs) = sid"
  by (induction sid e xs rule: burst.induct) (auto simp: extends_def split: if_splits)

lemma speed_append:
  "xs = [] \<or> ys = [] \<or> sp_SessionID (last xs) \<noteq> sp_SessionID (hd ys) \<Longrightarrow>
     SpeedEventsFromMessages (xs @ ys) = SpeedEventsFromMessages xs @ SpeedEventsFromMessages ys"
proof (induction xs rule: SpeedEventsFromMessages.induct)
  case (2 first ms)
  show ?case
  proof (cases "sp_Role first \<noteq> ''assistant'' \<or> \<not> sp_TimestampValid first")
    case True
    then show ?thesis using 2 by (cases "ms = []") auto
  next
    case False
    let ?b = "burst (sp_SessionID first) (open_event first)"
    have "snd (?b ms) \<noteq> [] \<or> ys = [] \<or> sp_SessionID (hd ys) \<noteq> sp_SessionID first"
      using burst_session [of "sp_SessionID first" "open_event first" ms] "2.prems" by (auto split: if_splits)
    note b = burst_append [OF this]
    have "snd (?b ms) = [] \<or> ys = [] \<or> sp_SessionID (last (snd (?b ms))) \<noteq> sp_SessionID (hd ys)"
      using "2.prems" burst_rest_last [of "sp_SessionID first" "open_event first" ms] by (cases "ms = []") auto
    from "2.IH"(2) [OF False prod.collapse this]
    show ?thesis using False b by (simp add: split_beta)
  qed
qed simp

definition sample_ok :: "SpeedSample \<Rightarrow> bool" where
  "sample_ok s \<longleftrightarrow> minSpeedOutputTokens \<le> sl_OutputTokens s \<and> 32 / 1800 \<le> sl_Rate s \<and>
     0 < of_int (sl_OutputTokens s) / sl_Rate s \<and> of_int (sl_OutputTokens s) / sl_Rate s \<le> 1800"

lemma rate_bounds:
  assumes "32 \<le> tokens" "0 < window" "window \<le> maxSpeedWindow"
  shows "32 / 1800 \<le> rate_of tokens window" "of_int tokens / rate_of tokens window = of_int window / (of_int second :: rat)"
proof -
  let ?t = "of_int tokens :: rat" and ?w = "of_int window / of_int second :: rat"
  have w: "0 < ?w" "?w \<le> 1800" using assms(2,3) by (simp_all add: maxSpeedWindow_def)
  have t: "32 \<le> ?t" using assms(1) by (metis of_int_le_iff of_int_numeral)
  have "32 / 1800 \<le> ?t / ?w" using w t by (intro frac_le) auto
  then show "32 / 1800 \<le> rate_of tokens window" by (simp only: rate_of_def)
  show "?t / rate_of tokens window = ?w" using w t by (simp add: rate_of_def)
qed

lemma event_sample_ok: "list_all sample_ok (event_sample first e)"
proof (cases "event_sample first e")
  case (Cons s rest)
  let ?w = "oe_endTs e - sp_PreviousTimestamp first"
  have s: "rest = []" "sl_Rate s = rate_of (oe_tokens e) ?w" "sl_OutputTokens s = oe_tokens e"
    and w: "minSpeedOutputTokens \<le> oe_tokens e" "0 < ?w" "?w \<le> maxSpeedWindow"
    using Cons by (auto simp: event_sample_def Let_def split: if_splits)
  have "of_int ?w / of_int second \<le> (1800 :: rat)" "0 < of_int ?w / (of_int second :: rat)"
  proof -
    have "(of_int ?w :: rat) \<le> of_int (1800 * second)" using w(3) unfolding maxSpeedWindow_def by (simp only: of_int_le_iff)
    then show "of_int ?w / of_int second \<le> (1800 :: rat)" by simp
    show "0 < of_int ?w / (of_int second :: rat)" using w(2) by simp
  qed
  moreover have t: "32 \<le> oe_tokens e" using w(1) by (simp add: minSpeedOutputTokens_def)
  have "of_int (sl_OutputTokens s) / sl_Rate s = of_int ?w / (of_int second :: rat)" "32 / 1800 \<le> sl_Rate s"
    unfolding s(2,3) by (rule rate_bounds [OF t w(2,3)])+
  ultimately have "sample_ok s" using w(1) by (simp only: sample_ok_def s(3) simp_thms)
  then show ?thesis using Cons s(1) by simp
qed simp

lemma speed_samples_ok: "list_all sample_ok (SpeedEventsFromMessages ms)"
  by (induction ms rule: SpeedEventsFromMessages.induct) (auto simp: event_sample_ok split: prod.split)

section \<open>Properties\<close>

text \<open>
  Sessions do not mix: the samples of the rows of several sessions, one session after the other, are the
  samples of each session by itself.
\<close>

theorem speed_sessions_independent:
  assumes "xs = [] \<or> ys = [] \<or> sp_SessionID (last xs) \<noteq> sp_SessionID (hd ys)"
  shows "SpeedEventsFromMessages (xs @ ys) = SpeedEventsFromMessages xs @ SpeedEventsFromMessages ys"
  by (rule speed_append [OF assms])

definition demo_speed :: "string \<Rightarrow> time \<Rightarrow> SpeedMessage" where
  "demo_speed sid t = \<lparr>sp_SessionID = sid, sp_Agent = ''a'', sp_Model = ''m'', sp_Ordinal = 0, sp_Role = ''assistant'',
     sp_Timestamp = t * second, sp_TimestampValid = True, sp_OutputTokens = 40, sp_HasOutputTokens = True,
     sp_PreviousTimestamp = 0, sp_PreviousTimestampValid = True, sp_RequestID = []\<rparr>"

theorem speed_sessions_independent_witness:
  "SpeedEventsFromMessages ([demo_speed ''s'' 4, demo_speed ''s'' 5] @ [demo_speed ''t'' 5]) =
     SpeedEventsFromMessages [demo_speed ''s'' 4, demo_speed ''s'' 5] @ SpeedEventsFromMessages [demo_speed ''t'' 5]"
  by (rule speed_sessions_independent) (simp add: demo_speed_def)

lemma seconds_of_samples:
  assumes "list_all sample_ok ss" "ss \<noteq> []"
  shows "0 < (\<Sum>s\<leftarrow>ss. of_int (sl_OutputTokens s) / sl_Rate s)"
  using assms
proof (induction ss)
  case (Cons s ss)
  then show ?case by (cases "ss = []") (auto simp: sample_ok_def intro: add_pos_pos)
qed simp

text \<open>Where a sample comes from: the first message of its event, whose predecessor opens the window.\<close>

definition sample_from :: "SpeedMessage list \<Rightarrow> SpeedSample \<Rightarrow> bool" where
  "sample_from ms s \<longleftrightarrow> (\<exists>m\<in>set ms. sp_Role m = ''assistant'' \<and> sp_TimestampValid m \<and> sp_PreviousTimestampValid m \<and>
     sl_SessionID s = sp_SessionID m \<and> sl_Agent s = sp_Agent m \<and>
     (let window = sl_timestamp s - sp_PreviousTimestamp m in
      0 < window \<and> window \<le> 1800 * second \<and> sl_Rate s = rate_of (sl_OutputTokens s) window))"

lemma sample_from_mono: "sample_from ms s \<Longrightarrow> set ms \<subseteq> set ms' \<Longrightarrow> sample_from ms' s"
  unfolding sample_from_def by blast

lemma event_sample_from:
  "sp_Role first = ''assistant'' \<Longrightarrow> sp_TimestampValid first \<Longrightarrow> s \<in> set (event_sample first e) \<Longrightarrow> sample_from (first # ms) s"
  by (auto simp: event_sample_def sample_from_def Let_def maxSpeedWindow_def split: if_splits)

lemma burst_subset: "set (snd (burst sid e ms)) \<subseteq> set ms"
  by (induction sid e ms rule: burst.induct) auto

lemma speed_samples_from: "s \<in> set (SpeedEventsFromMessages ms) \<Longrightarrow> sample_from ms s"
proof (induction ms rule: SpeedEventsFromMessages.induct)
  case (2 first ms)
  show ?case
  proof (cases "sp_Role first \<noteq> ''assistant'' \<or> \<not> sp_TimestampValid first")
    case True
    then have "sample_from ms s" using "2.IH"(1) "2.prems" by simp
    then show ?thesis by (rule sample_from_mono) auto
  next
    case False
    obtain e rest where b: "burst (sp_SessionID first) (open_event first) ms = (e, rest)" by fastforce
    have "s \<in> set (event_sample first e) \<or> s \<in> set (SpeedEventsFromMessages rest)"
      using "2.prems" False b by auto
    then show ?thesis
    proof
      assume "s \<in> set (event_sample first e)"
      then show ?thesis using False by (intro event_sample_from) simp_all
    next
      assume "s \<in> set (SpeedEventsFromMessages rest)"
      with "2.IH"(2) [OF False b [symmetric]] have "sample_from rest s" by blast
      then show ?thesis
        by (rule sample_from_mono) (use burst_subset [of "sp_SessionID first" "open_event first" ms] b in auto)
    qed
  qed
qed simp

text \<open>
  C40. Speeds are plausible: every sample has at least 32 tokens, and its rate is these tokens over the time
  that passed from the predecessor of some assistant message of the same session to the end of the sample, a
  positive span of at most half an hour. A session has a speed exactly when it has five samples. Rates are
  exact quotients here; the code's are rounded to \<open>float64\<close>.
\<close>

theorem speeds_plausible:
  "list_all (\<lambda>s. 32 \<le> sl_OutputTokens s \<and>
      (\<exists>m\<in>set ms. sp_Role m = ''assistant'' \<and> sp_TimestampValid m \<and> sp_PreviousTimestampValid m \<and>
         sl_SessionID s = sp_SessionID m \<and> sl_Agent s = sp_Agent m \<and>
         (let window = sl_timestamp s - sp_PreviousTimestamp m in
          0 < window \<and> window \<le> 1800 * second \<and> sl_Rate s = rate_of (sl_OutputTokens s) window)))
     (SpeedEventsFromMessages ms) \<and>
   (SessionSpeedFromSamples (SpeedEventsFromMessages ms) \<noteq> None) = (5 \<le> length (SpeedEventsFromMessages ms))"
proof
  let ?ss = "SpeedEventsFromMessages ms"
  have tokens: "list_all (\<lambda>s. 32 \<le> sl_OutputTokens s) ?ss"
    using speed_samples_ok [of ms] by (auto simp: list_all_iff sample_ok_def minSpeedOutputTokens_def)
  have from_ms: "list_all (sample_from ms) ?ss" by (simp add: list_all_iff speed_samples_from)
  show "list_all (\<lambda>s. 32 \<le> sl_OutputTokens s \<and>
      (\<exists>m\<in>set ms. sp_Role m = ''assistant'' \<and> sp_TimestampValid m \<and> sp_PreviousTimestampValid m \<and>
         sl_SessionID s = sp_SessionID m \<and> sl_Agent s = sp_Agent m \<and>
         (let window = sl_timestamp s - sp_PreviousTimestamp m in
          0 < window \<and> window \<le> 1800 * second \<and> sl_Rate s = rate_of (sl_OutputTokens s) window))) ?ss"
    using tokens from_ms unfolding list_all_iff sample_from_def by blast
  show "(SessionSpeedFromSamples ?ss \<noteq> None) = (5 \<le> length ?ss)"
  proof (cases "length ?ss < 5")
    case False
    then have "?ss \<noteq> []" by auto
    from seconds_of_samples [OF speed_samples_ok this] show ?thesis
      using False by (simp add: SessionSpeedFromSamples_def Let_def)
  qed (simp add: SessionSpeedFromSamples_def)
qed

lemma stats_N: "st_N (AggregateSpeedStats ss) = length ss"
  by (simp add: AggregateSpeedStats_def Let_def)

lemma series_N: "sum_list (map po_N (ts_Points (speedTrendSeries k o' ss))) = length ss"
  using collected_lengths [of "group_rows sl_BucketStart [] (\<lambda>s l. l @ [s]) ss []"] collect_rows [of sl_BucketStart ss]
  by (simp add: speedTrendSeries_def Let_def stats_N comp_def gomap_ok_group)

text \<open>
  The trend loses no sample: at most eight series and one for the rest, and every sample is counted in
  exactly one point of one of them.
\<close>

theorem AggregateSpeedTrend_partition:
  "length (AggregateSpeedTrend samples groupBy) \<le> 9 \<and>
   (\<Sum>series\<leftarrow>AggregateSpeedTrend samples groupBy. sum_list (map po_N (ts_Points series))) = length samples"
proof -
  let ?groups = "group_rows (trend_key groupBy) [] (\<lambda>s l. l @ [s]) samples []"
  let ?of = "\<lambda>k. the (map_of ?groups k)"
  define keys where "keys = sort_by (\<lambda>k. - int (length (?of k))) (\<lambda>k. k) (map fst ?groups)"
  let ?n = "min (length keys) 8"
  have series: "AggregateSpeedTrend samples groupBy =
      map (\<lambda>k. speedTrendSeries k False (?of k)) (take ?n keys) @
      (if length keys > ?n then [speedTrendSeries ''(rest)'' True (concat (map ?of (drop ?n keys)))] else [])"
    by (simp add: AggregateSpeedTrend_def Let_def keys_def)
  have "mset keys = mset (sort (map fst ?groups))" by (simp add: keys_def)
  then have "(\<Sum>k\<leftarrow>keys. length (?of k)) = (\<Sum>k\<leftarrow>sort (map fst ?groups). length (?of k))"
    by (rule sum_list_permuted)
  also have "\<dots> = length samples"
    using collected_lengths [of ?groups] collect_rows [of "trend_key groupBy" samples] by (simp add: gomap_ok_group)
  finally have all: "(\<Sum>k\<leftarrow>take ?n keys @ drop ?n keys. length (?of k)) = length samples" by simp
  have "(\<Sum>series\<leftarrow>AggregateSpeedTrend samples groupBy. sum_list (map po_N (ts_Points series))) =
      (\<Sum>k\<leftarrow>take ?n keys. length (?of k)) + (\<Sum>k\<leftarrow>drop ?n keys. length (?of k))"
    by (auto simp: series series_N comp_def length_concat)
  also have "\<dots> = (\<Sum>k\<leftarrow>take ?n keys @ drop ?n keys. length (?of k))" by (simp only: map_append sum_list_append)
  finally have total_N: "(\<Sum>series\<leftarrow>AggregateSpeedTrend samples groupBy. sum_list (map po_N (ts_Points series))) = length samples"
    using all by simp
  have "length (AggregateSpeedTrend samples groupBy) \<le> 9" unfolding series by (auto simp: min_def)
  then show ?thesis using total_N by blast
qed

lemma sorted_less_index: "sorted vs \<Longrightarrow> i < length vs \<Longrightarrow> length (filter (\<lambda>x. x < vs ! i) vs) \<le> i"
proof -
  assume s: "sorted vs" and i: "i < length vs"
  have "filter (\<lambda>x. x < vs ! i) (drop i vs) = []"
    using s i by (auto simp: filter_empty_conv in_set_conv_nth not_less sorted_nth_mono)
  then have "filter (\<lambda>x. x < vs ! i) vs = filter (\<lambda>x. x < vs ! i) (take i vs)"
    by (metis append_Nil2 append_take_drop_id filter_append)
  then show ?thesis using length_filter_le [of "\<lambda>x. x < vs ! i" "take i vs"] by simp
qed

text \<open>
  A percentile is one of the values, and no more than its share of the values lies below it.
\<close>

theorem percentile_rank:
  assumes "vs \<noteq> []" "0 \<le> pct"
  shows "percentileFloat (sort vs) pct \<in> set vs \<and>
    of_nat (length (filter (\<lambda>x. x < percentileFloat (sort vs) pct) vs)) \<le> of_nat (length vs) * pct"
proof -
  let ?n = "length vs"
  define idx where "idx = (if nat \<lfloor>of_nat ?n * pct\<rfloor> \<ge> ?n then ?n - 1 else nat \<lfloor>of_nat ?n * pct\<rfloor>)"
  have i: "idx < length (sort vs)" using assms(1) by (simp add: idx_def)
  have v: "percentileFloat (sort vs) pct = sort vs ! idx" using assms(1) by (simp add: percentileFloat_def Let_def idx_def)
  have "idx \<le> nat \<lfloor>of_nat ?n * pct\<rfloor>" by (auto simp: idx_def)
  then have "(of_nat idx :: rat) \<le> of_nat ?n * pct"
    using assms(2) by (meson le_floor_iff le_nat_iff mult_nonneg_nonneg of_nat_0_le_iff of_nat_le_iff of_nat_floor order_trans)
  moreover have "length (filter (\<lambda>x. x < sort vs ! idx) vs) \<le> idx"
  proof -
    have "mset (filter (\<lambda>x. x < sort vs ! idx) vs) = mset (filter (\<lambda>x. x < sort vs ! idx) (sort vs))" by simp
    then have "length (filter (\<lambda>x. x < sort vs ! idx) vs) = length (filter (\<lambda>x. x < sort vs ! idx) (sort vs))"
      by (rule mset_eq_length)
    then show ?thesis using sorted_less_index [OF sorted_sort i] by simp
  qed
  moreover have "sort vs ! idx \<in> set vs" using nth_mem [OF i] by simp
  ultimately show ?thesis unfolding v by (meson of_nat_le_iff order_trans)
qed

theorem percentile_rank_witness: "percentileFloat (sort [3, 1, 2]) (1 / 2) \<in> set [3, 1, 2 :: rat]"
  using percentile_rank [of "[3, 1, 2]" "1 / 2"] by simp

lemma active_gap_range: "0 \<le> active_gap p m \<and> active_gap p m \<le> maxGap"
  by (simp add: active_gap_def Let_def maxGap_def)

text \<open>
  One session moves the aggregate within bounds: its turn cycles are positive and at most half an hour, its
  first response is not negative, and its active time is at most five minutes for each step from one message
  to the next; a session without active time adds nothing to the throughput.
\<close>

theorem processSessionVelocity_bounds:
  "let a' = processSessionVelocity msgs toolCount a in
    (\<exists>cycles. va_turnCycles a' = va_turnCycles a @ cycles \<and> list_all (\<lambda>d. 0 < d \<and> d \<le> 1800 * second) cycles) \<and>
    (\<exists>responses. va_firstResponses a' = va_firstResponses a @ responses \<and> length responses \<le> 1 \<and> list_all (\<lambda>d. 0 \<le> d) responses) \<and>
    va_activeNanos a \<le> va_activeNanos a' \<and> va_activeNanos a' - va_activeNanos a \<le> 300 * second * int (length msgs - 1) \<and>
    (if va_activeNanos a' = va_activeNanos a then va_totalMsgs a' = va_totalMsgs a
     else va_totalMsgs a' = va_totalMsgs a + length msgs)"
proof -
  have cycles: "list_all (\<lambda>d. 0 < d \<and> d \<le> 1800 * second) (turn_cycles msgs)"
    by (induction msgs rule: turn_cycles.induct) (auto simp: turn_cycle_def Let_def maxCycle_def)
  have responses: "length (first_response msgs) \<le> 1" "list_all (\<lambda>d. 0 \<le> d) (first_response msgs)"
    by (auto simp: first_response_def Let_def split: list.split option.split)
  have active: "0 \<le> active_time msgs \<and> active_time msgs \<le> 300 * second * int (length msgs - 1)"
  proof (induction msgs rule: active_time.induct)
    case (1 p m ms)
    then show ?case using active_gap_range [of p m] by (simp add: maxGap_def)
  qed simp_all
  show ?thesis
    unfolding Let_def using cycles responses active by (simp add: processSessionVelocity_def Let_def)
qed

end
