(* ===== verification/Session_Store.thy ===== *)
theory Session_Store
  imports Sync_Incremental Transcript_Diff
begin

text \<open>
  Writing whole sessions to the database (\<open>internal/db/session_batch.go\<close>, with the upsert of \<open>sessions.go\<close> and
  the replacement of messages and pins of \<open>messages.go\<close>). The database is a map from session ids to rows, each
  with its messages, usage events and pins, and the ids the user deleted for good. A transaction works on a
  copy that replaces the database at the commit. \<open>ok\<close> says of each SQL statement whether the database carries
  it out; the constraint that ordinals are unique within a session is part of the model. The signals and
  the secret findings of a session are values of the types \<open>'g\<close> and \<open>'f\<close>.
\<close>

section \<open>Rows\<close>

text \<open>\<open>db.Session\<close>: the fields of \<^theory_text>\<open>Validate\<close> and the others that are written.\<close>

record DbSession = Session +
  ds_ID :: string
  ds_MessageCount :: int
  ds_UserMessageCount :: int
  ds_ParentSessionID :: "string option"
  ds_RelationshipType :: string
  ds_TotalOutputTokens :: int
  ds_PeakContextTokens :: int
  ds_HasTotalOutputTokens :: bool
  ds_HasPeakContextTokens :: bool
  ds_IsAutomated :: bool
  ds_ParserMalformedLines :: nat
  ds_IsTruncated :: bool
  ds_FilePath :: "string option"
  ds_FileSize :: "int option"
  ds_FileMtime :: "int option"
  ds_FileInode :: "int option"
  ds_FileDevice :: "int option"
  ds_FileHash :: "string option"

text \<open>A pin names its message by the ordinal, which is unique within the session.\<close>

record Pin =
  pn_ordinal :: int
  pn_note :: "string option"
  pn_createdAt :: string

record ('g, 'f) StoredRow = SessionRow +
  sx_Project :: string
  sx_Machine :: string
  sx_Agent :: string
  sx_SessionName :: "string option"
  sx_DisplayName :: "string option"
  sx_StartedAt :: "string option"
  sx_ParentSessionID :: "string option"
  sx_RelationshipType :: string
  sx_GitBranch :: string
  sx_SourceSessionID :: string
  sx_SourceVersion :: string
  sx_ParserMalformedLines :: nat
  sx_IsTruncated :: bool
  sx_UsageEvents :: "UsageEvent list"
  sx_Pins :: "Pin list"
  sx_TranscriptRevision :: int
  sx_Signals :: "'g option"
  sx_Findings :: "'f option"

record ('g, 'f) SessionDB =
  db_rows :: "(string, ('g, 'f) StoredRow) gomap"
  db_excluded :: "string list"

datatype write_error = ErrSessionExcluded | ErrSessionTrashed | StatementFailed

datatype Stmt = BeginTx | Commit | Savepoint | ReleaseSavepoint | RollbackTo | CheckExcluded | CheckTrashed | Upsert |
  UsageEventRows | LoadTranscript | SavePins | DeleteMessages | ReadMaxOrdinal | InsertMessages | RestorePins |
  BumpRevision | SetDataVersion | UpdateSignals | ReplaceFindings | DeleteSession

definition new_row :: "string \<Rightarrow> ('g, 'f) StoredRow" where
  "new_row sid =
     \<lparr>sr_ID = sid, sr_FilePath = None, sr_Deleted = False, sr_FileSize = None, sr_FileMtime = None, sr_FileInode = None,
      sr_FileDevice = None, sr_FileHash = [], sr_MessageCount = 0, sr_UserMessageCount = 0, sr_FirstMessage = None,
      sr_Cwd = None, sr_TotalOutputTokens = 0, sr_PeakContextTokens = 0, sr_HasTotalOutputTokens = False,
      sr_HasPeakContextTokens = False, sr_EndedAt = None, sr_IsAutomated = False, sr_TerminationStatus = None,
      sr_DataVersion = 0, sr_Messages = [], sx_Project = [], sx_Machine = [], sx_Agent = [], sx_SessionName = None,
      sx_DisplayName = None, sx_StartedAt = None, sx_ParentSessionID = None, sx_RelationshipType = [], sx_GitBranch = [],
      sx_SourceSessionID = [], sx_SourceVersion = [], sx_ParserMalformedLines = 0, sx_IsTruncated = False,
      sx_UsageEvents = [], sx_Pins = [], sx_TranscriptRevision = 0, sx_Signals = None, sx_Findings = None\<rparr>"

definition sessionIsAutomated :: "userAutomationConfig \<Rightarrow> DbSession \<Rightarrow> bool" where
  "sessionIsAutomated cfg s \<longleftrightarrow> ds_UserMessageCount s \<le> 1 \<and>
     (case s_FirstMessage s of Some fm \<Rightarrow> IsAutomatedSession cfg fm | None \<Rightarrow> False)"

text \<open>
  The columns of the upsert. The display name, the trash mark, the data version, the messages and the pins are
  not among them.
\<close>

definition upsert_columns :: "userAutomationConfig \<Rightarrow> DbSession \<Rightarrow> ('g, 'f) StoredRow \<Rightarrow> ('g, 'f) StoredRow" where
  "upsert_columns cfg s r =
     r\<lparr>sx_Project := s_Project s, sx_Machine := s_Machine s, sx_Agent := s_Agent s, sr_FirstMessage := s_FirstMessage s,
       sx_SessionName := s_SessionName s, sx_StartedAt := s_StartedAt s, sr_EndedAt := s_EndedAt s,
       sr_MessageCount := ds_MessageCount s, sr_UserMessageCount := ds_UserMessageCount s,
       sx_ParentSessionID := ds_ParentSessionID s, sx_RelationshipType := ds_RelationshipType s,
       sr_TotalOutputTokens := ds_TotalOutputTokens s, sr_PeakContextTokens := ds_PeakContextTokens s,
       sr_HasTotalOutputTokens := ds_HasTotalOutputTokens s, sr_HasPeakContextTokens := ds_HasPeakContextTokens s,
       sr_IsAutomated := sessionIsAutomated cfg s, sr_TerminationStatus := s_TerminationStatus s,
       sr_Cwd := Some (s_Cwd s), sx_GitBranch := s_GitBranch s, sx_SourceSessionID := s_SourceSessionID s,
       sx_SourceVersion := s_SourceVersion s, sx_ParserMalformedLines := ds_ParserMalformedLines s,
       sx_IsTruncated := ds_IsTruncated s, sr_FilePath := ds_FilePath s, sr_FileSize := ds_FileSize s,
       sr_FileMtime := ds_FileMtime s, sr_FileInode := ds_FileInode s, sr_FileDevice := ds_FileDevice s,
       sr_FileHash := or_empty (ds_FileHash s)\<rparr>"

definition upserted :: "userAutomationConfig \<Rightarrow> DbSession \<Rightarrow> ('g, 'f) SessionDB \<Rightarrow> ('g, 'f) StoredRow" where
  "upserted cfg s st =
     upsert_columns cfg s (case map_of (db_rows st) (ds_ID s) of Some r \<Rightarrow> r | None \<Rightarrow> new_row (ds_ID s))"

definition trashed :: "('g, 'f) SessionDB \<Rightarrow> string \<Rightarrow> bool" where
  "trashed st sid \<longleftrightarrow> (case map_of (db_rows st) sid of Some r \<Rightarrow> sr_Deleted r | None \<Rightarrow> False)"

definition put_row :: "string \<Rightarrow> ('g, 'f) StoredRow \<Rightarrow> ('g, 'f) SessionDB \<Rightarrow> ('g, 'f) SessionDB" where
  "put_row sid r st = st\<lparr>db_rows := AList.update sid r (db_rows st)\<rparr>"

definition sanitize_session :: "(string \<Rightarrow> int option) \<Rightarrow> DbSession \<Rightarrow> DbSession" where
  "sanitize_session py s = Session.extend (fst (SanitizeSession py (Session.truncate s))) (Session.more s)"

text \<open>
  The lookups of the deleted and the trashed ids ignore their errors: a lookup that fails finds nothing, and the
  upsert goes on.
\<close>

definition UpsertSession ::
  "(Stmt \<Rightarrow> string \<Rightarrow> bool) \<Rightarrow> userAutomationConfig \<Rightarrow> (string \<Rightarrow> int option) \<Rightarrow> DbSession \<Rightarrow> ('g, 'f) SessionDB \<Rightarrow> write_error + ('g, 'f) SessionDB"
where
  "UpsertSession ok cfg py s st =
     (let s = sanitize_session py s in
      if ok CheckExcluded (ds_ID s) \<and> ds_ID s \<in> set (db_excluded st) then Inl ErrSessionExcluded
      else if ok CheckTrashed (ds_ID s) \<and> trashed st (ds_ID s) then Inl ErrSessionTrashed
      else if \<not> ok Upsert (ds_ID s) then Inl StatementFailed
      else Inr (put_row (ds_ID s) (upserted cfg s st) st))"

section \<open>Messages and pins\<close>

text \<open>The pins with the source uuids of their messages.\<close>

definition savePins :: "('g, 'f) StoredRow \<Rightarrow> (string \<times> Pin) list" where
  "savePins r = map (\<lambda>p. (case find (\<lambda>m. m_Ordinal m = pn_ordinal p) (sr_Messages r) of
       Some m \<Rightarrow> m_SourceUUID m | None \<Rightarrow> [], p)) (sx_Pins r)"

text \<open>\<open>INSERT OR IGNORE ... SELECT\<close>: a pin for each selected message that has none.\<close>

definition pin_messages :: "(Message \<Rightarrow> bool) \<Rightarrow> Message list \<Rightarrow> Pin \<Rightarrow> Pin list \<Rightarrow> Pin list" where
  "pin_messages sel msgs sp pins =
     map (\<lambda>m. sp\<lparr>pn_ordinal := m_Ordinal m\<rparr>) (filter (\<lambda>m. sel m \<and> m_Ordinal m \<notin> pn_ordinal ` set pins) msgs)"

definition restore_pin :: "Message list \<Rightarrow> string \<times> Pin \<Rightarrow> Pin list \<Rightarrow> Pin list" where
  "restore_pin msgs saved pins =
     (case saved of (uuid, sp) \<Rightarrow>
        let by_uuid = (if uuid \<noteq> [] then pin_messages (\<lambda>m. m_SourceUUID m = uuid) msgs sp pins else [])
        in if by_uuid \<noteq> [] then pins @ by_uuid
           else pins @ pin_messages (\<lambda>m. m_Ordinal m = pn_ordinal sp) msgs sp pins)"

definition restorePins :: "Message list \<Rightarrow> (string \<times> Pin) list \<Rightarrow> Pin list" where
  "restorePins msgs pins = fold (restore_pin msgs) pins []"

definition insert_messages :: "(Stmt \<Rightarrow> string \<Rightarrow> bool) \<Rightarrow> Message list \<Rightarrow> ('g, 'f) StoredRow \<Rightarrow> ('g, 'f) StoredRow option" where
  "insert_messages ok msgs r =
     (if msgs = [] then Some r
      else if ok InsertMessages (sr_ID r) \<and> distinct (map m_Ordinal (sr_Messages r @ msgs))
      then Some (r\<lparr>sr_Messages := sr_Messages r @ msgs\<rparr>) else None)"

definition bump_revision :: "(Stmt \<Rightarrow> string \<Rightarrow> bool) \<Rightarrow> bool \<Rightarrow> ('g, 'f) StoredRow \<Rightarrow> ('g, 'f) StoredRow option" where
  "bump_revision ok shouldBump r =
     (if \<not> shouldBump then Some r
      else if ok BumpRevision (sr_ID r) then Some (r\<lparr>sx_TranscriptRevision := sx_TranscriptRevision r + 1\<rparr>) else None)"

definition replaceSessionMessages :: "(Stmt \<Rightarrow> string \<Rightarrow> bool) \<Rightarrow> Message list \<Rightarrow> ('g, 'f) StoredRow \<Rightarrow> ('g, 'f) StoredRow option" where
  "replaceSessionMessages ok msgs r =
     (let shouldBump = (\<not> ok LoadTranscript (sr_ID r) \<or> \<not> transcriptMessagesEqual (sr_Messages r) msgs);
          pins = savePins r in
      if \<not> ok SavePins (sr_ID r) \<or> \<not> ok DeleteMessages (sr_ID r) then None
      else (case insert_messages ok msgs (r\<lparr>sr_Messages := [], sx_Pins := []\<rparr>) of
              None \<Rightarrow> None
            | Some r1 \<Rightarrow>
                if pins \<noteq> [] \<and> \<not> ok RestorePins (sr_ID r) then None
                else bump_revision ok shouldBump (r1\<lparr>sx_Pins := restorePins msgs pins\<rparr>)))"

definition messagesAfterOrdinal :: "Message list \<Rightarrow> int \<Rightarrow> Message list" where
  "messagesAfterOrdinal msgs maxOrd = (if maxOrd < 0 then msgs else dropWhile (\<lambda>m. m_Ordinal m \<le> maxOrd) msgs)"

definition replaceSessionUsageEvents :: "(Stmt \<Rightarrow> string \<Rightarrow> bool) \<Rightarrow> UsageEvent list \<Rightarrow> ('g, 'f) StoredRow \<Rightarrow> ('g, 'f) StoredRow option" where
  "replaceSessionUsageEvents ok events r =
     (let events = map (\<lambda>ev. if ue_SessionID ev = [] then ev\<lparr>ue_SessionID := sr_ID r\<rparr> else ev) events in
      if ok UsageEventRows (sr_ID r) \<and> list_all (\<lambda>ev. ue_SessionID ev = sr_ID r) events
      then Some (r\<lparr>sx_UsageEvents := events\<rparr>) else None)"


section \<open>One session within a transaction\<close>

record ('g, 'f) SessionBatchWrite =
  bw_Session :: DbSession
  bw_Messages :: "Message list"
  bw_UsageEvents :: "UsageEvent list"
  bw_Signals :: 'g
  bw_Findings :: 'f
  bw_DataVersion :: int
  bw_ReplaceMessages :: bool
  bw_TokenAggregateSource :: string

record SessionBatchResult =
  br_WrittenSessions :: nat
  br_WrittenMessages :: nat
  br_ExcludedIDs :: "string list"
  br_FailedSessions :: nat

definition no_result :: SessionBatchResult where
  "no_result = \<lparr>br_WrittenSessions = 0, br_WrittenMessages = 0, br_ExcludedIDs = [], br_FailedSessions = 0\<rparr>"

definition event_step :: "UsageEvent \<Rightarrow> int \<times> bool \<times> int \<times> bool \<Rightarrow> int \<times> bool \<times> int \<times> bool" where
  "event_step ev acc =
     (case acc of (totalOutput, hasOutput, peakContext, hasContext) \<Rightarrow>
        if UsageSourceIsSessionSummary (SanitizeUTF8 (ue_Source ev)) then acc
        else (let contextTokens = ue_InputTokens ev + ue_CacheCreationInputTokens ev + ue_CacheReadInputTokens ev in
          (if ue_OutputTokens ev > 0 then totalOutput + ue_OutputTokens ev else totalOutput,
           hasOutput \<or> ue_OutputTokens ev > 0,
           if contextTokens > 0 \<and> contextTokens > peakContext then contextTokens else peakContext,
           hasContext \<or> contextTokens > 0)))"

definition batchUsageEventTokenTotals :: "UsageEvent list \<Rightarrow> int \<times> bool \<times> int \<times> bool" where
  "batchUsageEventTokenTotals events = fold event_step events (0, False, 0, False)"

definition set_totals :: "int \<times> bool \<times> int \<times> bool \<Rightarrow> DbSession \<Rightarrow> DbSession" where
  "set_totals tt s = (case tt of (totalOutput, hasOutput, peakContext, hasContext) \<Rightarrow>
     s\<lparr>ds_TotalOutputTokens := totalOutput, ds_HasTotalOutputTokens := hasOutput,
       ds_PeakContextTokens := peakContext, ds_HasPeakContextTokens := hasContext\<rparr>)"

definition sanitizeSessionBatchWrite :: "(string \<Rightarrow> int option) \<Rightarrow> ('g, 'f) SessionBatchWrite \<Rightarrow> ('g, 'f) SessionBatchWrite" where
  "sanitizeSessionBatchWrite py w =
     (let msgs = map (\<lambda>m. fst (SanitizeMessage py m)) (bw_Messages w);
          events = map (\<lambda>ev. fst (SanitizeUsageEvent py ev)) (bw_UsageEvents w);
          s = sanitize_session py (bw_Session w);
          s = (if bw_TokenAggregateSource w = ''messages'' then set_totals (messageTokenTotals msgs) s
               else if bw_TokenAggregateSource w = ''usage_events'' then set_totals (batchUsageEventTokenTotals events) s
               else s)
      in w\<lparr>bw_Session := s, bw_Messages := msgs, bw_UsageEvents := events\<rparr>)"

definition store_messages :: "(Stmt \<Rightarrow> string \<Rightarrow> bool) \<Rightarrow> ('g, 'f) SessionBatchWrite \<Rightarrow> ('g, 'f) StoredRow \<Rightarrow> (('g, 'f) StoredRow \<times> nat) option" where
  "store_messages ok w r =
     (if bw_ReplaceMessages w then
        map_option (\<lambda>r'. (r', length (bw_Messages w))) (replaceSessionMessages ok (bw_Messages w) r)
      else if \<not> ok ReadMaxOrdinal (sr_ID r) then None
      else (let msgs = messagesAfterOrdinal (bw_Messages w) (MaxOrdinal (SessionRow.truncate r)) in
            case insert_messages ok msgs r of
              None \<Rightarrow> None
            | Some r1 \<Rightarrow> map_option (\<lambda>r'. (r', length msgs)) (bump_revision ok (msgs \<noteq> []) r1)))"

definition store_derived :: "(Stmt \<Rightarrow> string \<Rightarrow> bool) \<Rightarrow> ('g, 'f) SessionBatchWrite \<Rightarrow> ('g, 'f) StoredRow \<Rightarrow> ('g, 'f) StoredRow option" where
  "store_derived ok w r =
     (if bw_DataVersion w > 0 \<and> \<not> ok SetDataVersion (sr_ID r) then None
      else if \<not> ok UpdateSignals (sr_ID r) \<or> \<not> ok ReplaceFindings (sr_ID r) then None
      else Some (r\<lparr>sr_DataVersion := (if bw_DataVersion w > 0 then bw_DataVersion w else sr_DataVersion r),
                   sx_Signals := Some (bw_Signals w), sx_Findings := Some (bw_Findings w)\<rparr>))"

definition writeOneSessionBatch ::
  "(Stmt \<Rightarrow> string \<Rightarrow> bool) \<Rightarrow> userAutomationConfig \<Rightarrow> ('g, 'f) SessionBatchWrite \<Rightarrow> ('g, 'f) SessionDB \<Rightarrow> write_error + ('g, 'f) SessionDB \<times> nat"
where
  "writeOneSessionBatch ok cfg w st =
     (let sid = ds_ID (bw_Session w) in
      if \<not> ok CheckExcluded sid then Inl StatementFailed
      else if sid \<in> set (db_excluded st) then Inl ErrSessionExcluded
      else if \<not> ok CheckTrashed sid then Inl StatementFailed
      else if trashed st sid then Inl ErrSessionTrashed
      else if \<not> ok Upsert sid then Inl StatementFailed
      else (case replaceSessionUsageEvents ok (bw_UsageEvents w) (upserted cfg (bw_Session w) st) of
              None \<Rightarrow> Inl StatementFailed
            | Some r1 \<Rightarrow>
           (case store_messages ok w r1 of
              None \<Rightarrow> Inl StatementFailed
            | Some (r2, n) \<Rightarrow>
           (case store_derived ok w r2 of
              None \<Rightarrow> Inl StatementFailed
            | Some r3 \<Rightarrow> Inr (put_row sid r3 st, n)))))"

section \<open>Batches\<close>

text \<open>
  The loop over the writes of a batch: the result so far and the transaction's database, or that the whole
  transaction failed.
\<close>

fun batch_loop ::
  "(Stmt \<Rightarrow> string \<Rightarrow> bool) \<Rightarrow> userAutomationConfig \<Rightarrow> (string \<Rightarrow> int option) \<Rightarrow> ('g, 'f) SessionBatchWrite list \<Rightarrow>
   SessionBatchResult \<times> ('g, 'f) SessionDB \<Rightarrow> SessionBatchResult \<times> ('g, 'f) SessionDB option" where
  "batch_loop ok cfg py [] (res, st) = (res, Some st)"
| "batch_loop ok cfg py (w0 # ws) (res, st) =
     (let w = sanitizeSessionBatchWrite py w0; sid = ds_ID (bw_Session w) in
      if \<not> ok Savepoint sid then (res, None)
      else (case writeOneSessionBatch ok cfg w st of
              Inr (st', n) \<Rightarrow>
                if \<not> ok ReleaseSavepoint sid then (res, None)
                else batch_loop ok cfg py ws
                  (res\<lparr>br_WrittenSessions := br_WrittenSessions res + 1,
                       br_WrittenMessages := br_WrittenMessages res + n\<rparr>, st')
            | Inl e \<Rightarrow>
                if \<not> ok RollbackTo sid then (res, None)
                else if e = StatementFailed then
                  batch_loop ok cfg py ws (res\<lparr>br_FailedSessions := br_FailedSessions res + 1\<rparr>, st)
                else batch_loop ok cfg py ws (res\<lparr>br_ExcludedIDs := br_ExcludedIDs res @ [sid]\<rparr>, st)))"

text \<open>The result, whether the call succeeded, and the database.\<close>

definition WriteSessionBatch ::
  "(Stmt \<Rightarrow> string \<Rightarrow> bool) \<Rightarrow> userAutomationConfig \<Rightarrow> (string \<Rightarrow> int option) \<Rightarrow> ('g, 'f) SessionBatchWrite list \<Rightarrow> ('g, 'f) SessionDB \<Rightarrow>
   SessionBatchResult \<times> bool \<times> ('g, 'f) SessionDB" where
  "WriteSessionBatch ok cfg py writes st =
     (if writes = [] then (no_result, True, st)
      else if \<not> ok BeginTx [] then (no_result, False, st)
      else (case batch_loop ok cfg py writes (no_result, st) of
              (res, None) \<Rightarrow> (res, False, st)
            | (res, Some tx) \<Rightarrow> if ok Commit [] then (res, True, tx) else (res, False, st)))"

text \<open>The snapshot of one source: a failed write ends it.\<close>

fun snapshot_loop ::
  "(Stmt \<Rightarrow> string \<Rightarrow> bool) \<Rightarrow> userAutomationConfig \<Rightarrow> (string \<Rightarrow> int option) \<Rightarrow> ('g, 'f) SessionBatchWrite list \<Rightarrow>
   SessionBatchResult \<times> ('g, 'f) SessionDB \<Rightarrow> SessionBatchResult \<times> ('g, 'f) SessionDB option" where
  "snapshot_loop ok cfg py [] (res, st) = (res, Some st)"
| "snapshot_loop ok cfg py (w0 # ws) (res, st) =
     (let w = sanitizeSessionBatchWrite py w0; sid = ds_ID (bw_Session w) in
      if \<not> ok Savepoint sid then (res, None)
      else (case writeOneSessionBatch ok cfg w st of
              Inr (st', n) \<Rightarrow>
                if \<not> ok ReleaseSavepoint sid then (res, None)
                else snapshot_loop ok cfg py ws
                  (res\<lparr>br_WrittenSessions := br_WrittenSessions res + 1,
                       br_WrittenMessages := br_WrittenMessages res + n\<rparr>, st')
            | Inl e \<Rightarrow>
                if e = StatementFailed then
                  (res\<lparr>br_WrittenSessions := 0, br_WrittenMessages := 0, br_FailedSessions := br_FailedSessions res + 1\<rparr>, None)
                else if \<not> ok RollbackTo sid then (res, None)
                else snapshot_loop ok cfg py ws (res\<lparr>br_ExcludedIDs := br_ExcludedIDs res @ [sid]\<rparr>, st)))"

definition delete_live :: "string \<Rightarrow> ('g, 'f) SessionDB \<Rightarrow> ('g, 'f) SessionDB" where
  "delete_live sid st = (if trashed st sid then st else st\<lparr>db_rows := AList.delete sid (db_rows st)\<rparr>)"

text \<open>The removal of stale ids, and of ids the parser excludes; empty ids are passed over.\<close>

definition delete_stale :: "string list \<Rightarrow> ('g, 'f) SessionDB \<Rightarrow> ('g, 'f) SessionDB" where
  "delete_stale sids st =
     fold (\<lambda>sid st. if sid = [] \<or> sid \<in> set (db_excluded st) then st else delete_live sid st) sids st"

definition delete_parser_excluded :: "string list \<Rightarrow> ('g, 'f) SessionDB \<Rightarrow> ('g, 'f) SessionDB" where
  "delete_parser_excluded sids st = fold (\<lambda>sid st. if sid = [] then st else delete_live sid st) sids st"

definition WriteSessionSnapshot ::
  "(Stmt \<Rightarrow> string \<Rightarrow> bool) \<Rightarrow> userAutomationConfig \<Rightarrow> (string \<Rightarrow> int option) \<Rightarrow> ('g, 'f) SessionBatchWrite list \<Rightarrow> string list \<Rightarrow>
   string list \<Rightarrow> ('g, 'f) SessionDB \<Rightarrow> SessionBatchResult \<times> bool \<times> ('g, 'f) SessionDB" where
  "WriteSessionSnapshot ok cfg py writes staleIDs parserExcludedIDs st =
     (if writes = [] \<and> staleIDs = [] \<and> parserExcludedIDs = [] then (no_result, True, st)
      else if \<not> ok BeginTx [] then (no_result, False, st)
      else (case snapshot_loop ok cfg py writes (no_result, st) of
              (res, None) \<Rightarrow> (res, False, st)
            | (res, Some tx) \<Rightarrow>
                if list_ex (\<lambda>sid. sid \<noteq> [] \<and> \<not> ok DeleteSession sid) (staleIDs @ parserExcludedIDs) \<or> \<not> ok Commit []
                then (res, False, st)
                else (res, True, delete_parser_excluded parserExcludedIDs (delete_stale staleIDs tx))))"

text \<open>One transaction for all: any rejected or failed row undoes the batch.\<close>

fun atomic_loop ::
  "(Stmt \<Rightarrow> string \<Rightarrow> bool) \<Rightarrow> userAutomationConfig \<Rightarrow> (string \<Rightarrow> int option) \<Rightarrow> ('g, 'f) SessionBatchWrite list \<Rightarrow>
   SessionBatchResult \<times> ('g, 'f) SessionDB \<Rightarrow> SessionBatchResult \<times> ('g, 'f) SessionDB option" where
  "atomic_loop ok cfg py [] (res, st) = (res, Some st)"
| "atomic_loop ok cfg py (w0 # ws) (res, st) =
     (let w = sanitizeSessionBatchWrite py w0 in
      case writeOneSessionBatch ok cfg w st of
        Inr (st', n) \<Rightarrow> atomic_loop ok cfg py ws
          (res\<lparr>br_WrittenSessions := br_WrittenSessions res + 1, br_WrittenMessages := br_WrittenMessages res + n\<rparr>, st')
      | Inl e \<Rightarrow>
          (let res = res\<lparr>br_WrittenSessions := 0, br_WrittenMessages := 0\<rparr> in
           (if e = StatementFailed then res\<lparr>br_FailedSessions := br_FailedSessions res + 1\<rparr>
            else res\<lparr>br_ExcludedIDs := br_ExcludedIDs res @ [ds_ID (bw_Session w)]\<rparr>, None)))"

definition WriteSessionBatchAtomic ::
  "(Stmt \<Rightarrow> string \<Rightarrow> bool) \<Rightarrow> userAutomationConfig \<Rightarrow> (string \<Rightarrow> int option) \<Rightarrow> bool \<Rightarrow> ('g, 'f) SessionBatchWrite list \<Rightarrow>
   ('g, 'f) SessionDB \<Rightarrow> SessionBatchResult \<times> bool \<times> ('g, 'f) SessionDB" where
  "WriteSessionBatchAtomic ok cfg py beforeCommit_ok writes st =
     (if writes = [] then (no_result, True, st)
      else if \<not> ok BeginTx [] then (no_result, False, st)
      else (case atomic_loop ok cfg py writes (no_result, st) of
              (res, None) \<Rightarrow> (res, False, st)
            | (res, Some tx) \<Rightarrow>
                if \<not> beforeCommit_ok then (res\<lparr>br_WrittenSessions := 0, br_WrittenMessages := 0\<rparr>, False, st)
                else if \<not> ok Commit [] then (res, False, st)
                else (res, True, tx)))"

section \<open>Single statements of the engine\<close>

definition ReplaceSessionContent ::
  "(Stmt \<Rightarrow> string \<Rightarrow> bool) \<Rightarrow> (string \<Rightarrow> int option) \<Rightarrow> string \<Rightarrow> Message list \<Rightarrow> 'g \<Rightarrow> 'f \<Rightarrow> ('g, 'f) SessionDB \<Rightarrow> ('g, 'f) SessionDB option" where
  "ReplaceSessionContent ok py sid msgs signals findings st =
     (let msgs = map (\<lambda>m. fst (SanitizeMessage py m)) msgs in
      if \<not> ok BeginTx [] then None
      else (case map_of (db_rows st) sid of
              None \<Rightarrow> if msgs = [] then Some st else None
            | Some r \<Rightarrow>
           (case replaceSessionMessages ok msgs r of
              None \<Rightarrow> None
            | Some r1 \<Rightarrow>
                if \<not> ok UpdateSignals sid \<or> \<not> ok ReplaceFindings sid \<or> \<not> ok Commit [] then None
                else Some (put_row sid (r1\<lparr>sx_Signals := Some signals, sx_Findings := Some findings\<rparr>) st))))"

definition SetSessionDataVersion :: "(Stmt \<Rightarrow> string \<Rightarrow> bool) \<Rightarrow> string \<Rightarrow> int \<Rightarrow> ('g, 'f) SessionDB \<Rightarrow> ('g, 'f) SessionDB option" where
  "SetSessionDataVersion ok sid version st =
     (if ok SetDataVersion sid then
        Some (case map_of (db_rows st) sid of None \<Rightarrow> st | Some r \<Rightarrow> put_row sid (r\<lparr>sr_DataVersion := version\<rparr>) st)
      else None)"

definition GetSessionDataVersion :: "('g, 'f) SessionDB \<Rightarrow> string \<Rightarrow> int" where
  "GetSessionDataVersion st sid = (case map_of (db_rows st) sid of Some r \<Rightarrow> sr_DataVersion r | None \<Rightarrow> 0)"

definition GetSessionFileInfo :: "('g, 'f) SessionDB \<Rightarrow> string \<Rightarrow> (int \<times> int) option" where
  "GetSessionFileInfo st sid = map_option (\<lambda>r. (or_zero (sr_FileSize r), or_zero (sr_FileMtime r))) (map_of (db_rows st) sid)"

definition GetSessionFileHash :: "('g, 'f) SessionDB \<Rightarrow> string \<Rightarrow> string" where
  "GetSessionFileHash st sid = (case map_of (db_rows st) sid of Some r \<Rightarrow> sr_FileHash r | None \<Rightarrow> [])"

definition SessionIDsByFilePath :: "('g, 'f) SessionDB \<Rightarrow> string \<Rightarrow> string list" where
  "SessionIDsByFilePath st path =
     sort (map fst (filter (\<lambda>(sid, r). sr_FilePath r = Some path \<and> sid \<notin> set (db_excluded st)) (db_rows st)))"

definition DeleteParserExcludedSessions :: "(Stmt \<Rightarrow> string \<Rightarrow> bool) \<Rightarrow> string list \<Rightarrow> ('g, 'f) SessionDB \<Rightarrow> ('g, 'f) SessionDB option" where
  "DeleteParserExcludedSessions ok sids st =
     (if sids = [] then Some st
      else if \<not> ok BeginTx [] \<or> list_ex (\<lambda>sid. sid \<noteq> [] \<and> \<not> ok DeleteSession sid) sids \<or> \<not> ok Commit [] then None
      else Some (delete_parser_excluded sids st))"


section \<open>What one write does\<close>

text \<open>The row holds exactly the written session.\<close>

definition holds_write :: "userAutomationConfig \<Rightarrow> ('g, 'f) SessionBatchWrite \<Rightarrow> ('g, 'f) StoredRow \<Rightarrow> bool" where
  "holds_write cfg w r \<longleftrightarrow>
     sr_ID r = ds_ID (bw_Session w) \<and> \<not> sr_Deleted r \<and> upsert_columns cfg (bw_Session w) r = r \<and>
     sr_Messages r = bw_Messages w \<and> sr_DataVersion r = bw_DataVersion w \<and> sx_Signals r = Some (bw_Signals w) \<and> sx_Findings r = Some (bw_Findings w) \<and>
     length (sx_UsageEvents r) = length (bw_UsageEvents w)"

text \<open>Every row has the id it is stored under.\<close>

definition store_ok :: "('g, 'f) SessionDB \<Rightarrow> bool" where
  "store_ok st \<longleftrightarrow> (\<forall>sid r. map_of (db_rows st) sid = Some r \<longrightarrow> sr_ID r = sid)"

lemma put_row_rows [simp]: "map_of (db_rows (put_row sid r st)) = (map_of (db_rows st))(sid \<mapsto> r)"
  by (simp add: put_row_def update_conv')

lemma put_row_excluded [simp]: "db_excluded (put_row sid r st) = db_excluded st"
  by (simp add: put_row_def)

lemma put_row_ok: "store_ok st \<Longrightarrow> sr_ID r = sid \<Longrightarrow> store_ok (put_row sid r st)"
  by (simp add: store_ok_def)

lemma sanitize_session_ID [simp]: "ds_ID (sanitize_session py s) = ds_ID s"
  by (cases s) (simp add: sanitize_session_def Session.defs)

lemma set_totals_ID [simp]: "ds_ID (set_totals tt s) = ds_ID s"
  by (cases tt) (simp add: set_totals_def)

lemma sanitize_write_fields [simp]:
  "ds_ID (bw_Session (sanitizeSessionBatchWrite py w)) = ds_ID (bw_Session w)"
  "bw_ReplaceMessages (sanitizeSessionBatchWrite py w) = bw_ReplaceMessages w"
  "bw_DataVersion (sanitizeSessionBatchWrite py w) = bw_DataVersion w"
  "bw_Signals (sanitizeSessionBatchWrite py w) = bw_Signals w" "bw_Findings (sanitizeSessionBatchWrite py w) = bw_Findings w"
  by (simp_all add: sanitizeSessionBatchWrite_def Let_def)

lemma upsert_columns_keep [simp]:
  "sr_ID (upsert_columns cfg s r) = sr_ID r" "sr_Deleted (upsert_columns cfg s r) = sr_Deleted r"
  "sr_DataVersion (upsert_columns cfg s r) = sr_DataVersion r" "sr_Messages (upsert_columns cfg s r) = sr_Messages r"
  "sx_Pins (upsert_columns cfg s r) = sx_Pins r" "sx_DisplayName (upsert_columns cfg s r) = sx_DisplayName r"
  by (simp_all add: upsert_columns_def)

lemma upsert_columns_stable:
  "upsert_columns cfg s (upsert_columns cfg s r) = upsert_columns cfg s r"
  "upsert_columns cfg s (r\<lparr>sr_Messages := ms\<rparr>) = (upsert_columns cfg s r)\<lparr>sr_Messages := ms\<rparr>"
  "upsert_columns cfg s (r\<lparr>sx_Pins := ps\<rparr>) = (upsert_columns cfg s r)\<lparr>sx_Pins := ps\<rparr>"
  "upsert_columns cfg s (r\<lparr>sx_TranscriptRevision := v\<rparr>) = (upsert_columns cfg s r)\<lparr>sx_TranscriptRevision := v\<rparr>"
  "upsert_columns cfg s (r\<lparr>sx_UsageEvents := es\<rparr>) = (upsert_columns cfg s r)\<lparr>sx_UsageEvents := es\<rparr>"
  "upsert_columns cfg s (r\<lparr>sr_DataVersion := dv\<rparr>) = (upsert_columns cfg s r)\<lparr>sr_DataVersion := dv\<rparr>"
  "upsert_columns cfg s (r\<lparr>sx_Signals := g\<rparr>) = (upsert_columns cfg s r)\<lparr>sx_Signals := g\<rparr>"
  "upsert_columns cfg s (r\<lparr>sx_Findings := f\<rparr>) = (upsert_columns cfg s r)\<lparr>sx_Findings := f\<rparr>"
  by (simp_all add: upsert_columns_def)

lemma upserted_fields:
  assumes "store_ok st" "\<not> trashed st (ds_ID s)"
  shows "sr_ID (upserted cfg s st) = ds_ID s" "\<not> sr_Deleted (upserted cfg s st)"
    "upsert_columns cfg s (upserted cfg s st) = upserted cfg s st"
  using assms by (auto simp: upserted_def store_ok_def trashed_def new_row_def upsert_columns_stable split: option.splits)

lemma bump_revision_row: "bump_revision ok b r = Some r' \<Longrightarrow> \<exists>v. r' = r\<lparr>sx_TranscriptRevision := v\<rparr>"
proof (cases b)
  case False
  moreover have "r = r\<lparr>sx_TranscriptRevision := sx_TranscriptRevision r\<rparr>" by simp
  ultimately show "bump_revision ok b r = Some r' \<Longrightarrow> ?thesis" unfolding bump_revision_def by (metis option.inject)
qed (auto simp: bump_revision_def split: if_splits)

lemma insert_messages_row:
  "insert_messages ok msgs r = Some r' \<Longrightarrow> r' = r\<lparr>sr_Messages := sr_Messages r @ msgs\<rparr>"
  "insert_messages ok msgs (r\<lparr>sr_Messages := [], sx_Pins := ps\<rparr>) = Some r' \<Longrightarrow> distinct (map m_Ordinal msgs)"
  by (auto simp: insert_messages_def split: if_splits)

lemma replaceSessionMessages_row:
  assumes "replaceSessionMessages ok msgs r = Some r'"
  shows "\<exists>v. r' = r\<lparr>sr_Messages := msgs, sx_Pins := restorePins msgs (savePins r), sx_TranscriptRevision := v\<rparr>"
    "distinct (map m_Ordinal msgs)"
proof -
  obtain r1 where r1: "insert_messages ok msgs (r\<lparr>sr_Messages := [], sx_Pins := []\<rparr>) = Some r1"
    and b: "bump_revision ok (\<not> ok LoadTranscript (sr_ID r) \<or> \<not> transcriptMessagesEqual (sr_Messages r) msgs)
      (r1\<lparr>sx_Pins := restorePins msgs (savePins r)\<rparr>) = Some r'"
    using assms unfolding replaceSessionMessages_def Let_def by (auto split: if_splits option.splits simp del: One_nat_def)
  show "distinct (map m_Ordinal msgs)" using insert_messages_row(2) [OF r1] .
  show "\<exists>v. r' = r\<lparr>sr_Messages := msgs, sx_Pins := restorePins msgs (savePins r), sx_TranscriptRevision := v\<rparr>"
    using bump_revision_row [OF b] insert_messages_row(1) [OF r1] by auto
qed


text \<open>A write is refused for sessions the user deleted, for good or into the trash.\<close>

definition blocked_id :: "('g, 'f) SessionDB \<Rightarrow> string \<Rightarrow> bool" where
  "blocked_id st sid \<longleftrightarrow> sid \<in> set (db_excluded st) \<or> trashed st sid"

lemma writeOne_cases:
  assumes "writeOneSessionBatch ok cfg w st = res"
  obtains (written) r1 r2 n r3 where "res = Inr (put_row (ds_ID (bw_Session w)) r3 st, n)" "\<not> blocked_id st (ds_ID (bw_Session w))"
      "replaceSessionUsageEvents ok (bw_UsageEvents w) (upserted cfg (bw_Session w) st) = Some r1"
      "store_messages ok w r1 = Some (r2, n)" "store_derived ok w r2 = Some r3"
  | (refused) e where "res = Inl e" "e \<noteq> StatementFailed" "blocked_id st (ds_ID (bw_Session w))"
  | (failed) "res = Inl StatementFailed"
  using assms by (auto simp: writeOneSessionBatch_def Let_def blocked_id_def split: if_splits option.splits)

lemma usage_row:
  "replaceSessionUsageEvents ok events r = Some r' \<Longrightarrow> \<exists>es. r' = r\<lparr>sx_UsageEvents := es\<rparr> \<and> length es = length events"
  by (auto simp: replaceSessionUsageEvents_def Let_def split: if_splits)

lemma derived_row:
  "store_derived ok w r = Some r' \<Longrightarrow>
     r' = r\<lparr>sr_DataVersion := (if bw_DataVersion w > 0 then bw_DataVersion w else sr_DataVersion r), sx_Signals := Some (bw_Signals w), sx_Findings := Some (bw_Findings w)\<rparr>"
  by (auto simp: store_derived_def split: if_splits)

lemma written_row:
  assumes "store_ok st" "\<not> blocked_id st (ds_ID (bw_Session w))" "bw_ReplaceMessages w" "bw_DataVersion w > 0"
    and u: "replaceSessionUsageEvents ok (bw_UsageEvents w) (upserted cfg (bw_Session w) st) = Some r1"
    and m: "store_messages ok w r1 = Some (r2, n)" and d: "store_derived ok w r2 = Some r3"
  shows "holds_write cfg w r3"
    "sx_Pins r3 = restorePins (bw_Messages w) (savePins (upserted cfg (bw_Session w) st))"
    "sx_DisplayName r3 = sx_DisplayName (upserted cfg (bw_Session w) st)"
proof -
  note up = upserted_fields [OF assms(1), of "bw_Session w"]
  have nt: "\<not> trashed st (ds_ID (bw_Session w))" using assms(2) by (simp add: blocked_id_def)
  obtain es where r1: "r1 = (upserted cfg (bw_Session w) st)\<lparr>sx_UsageEvents := es\<rparr>" and len: "length es = length (bw_UsageEvents w)"
    using usage_row [OF u] by auto
  have "replaceSessionMessages ok (bw_Messages w) r1 = Some r2"
    using m assms(3) by (auto simp: store_messages_def)
  from replaceSessionMessages_row(1) [OF this]
  obtain v where r2: "r2 = r1\<lparr>sr_Messages := bw_Messages w, sx_Pins := restorePins (bw_Messages w) (savePins r1),
      sx_TranscriptRevision := v\<rparr>" by blast
  have r3: "r3 = r2\<lparr>sr_DataVersion := bw_DataVersion w, sx_Signals := Some (bw_Signals w), sx_Findings := Some (bw_Findings w)\<rparr>"
    using derived_row [OF d] assms(4) by simp
  show "holds_write cfg w r3"
    using up [OF nt] len by (simp add: holds_write_def r3 r2 r1 upsert_columns_stable)
  have "savePins r1 = savePins (upserted cfg (bw_Session w) st)" by (simp add: r1 savePins_def)
  then show "sx_Pins r3 = restorePins (bw_Messages w) (savePins (upserted cfg (bw_Session w) st))" by (simp add: r3 r2)
  show "sx_DisplayName r3 = sx_DisplayName (upserted cfg (bw_Session w) st)" by (simp add: r3 r2 r1)
qed

section \<open>Snapshots\<close>

text \<open>
  What a loop over writes did, in terms of the ids: blocked ids, and ids that were not written, keep their rows,
  every other write is held by its row.
\<close>

definition all_replace :: "('g, 'f) SessionBatchWrite list \<Rightarrow> bool" where
  "all_replace ws \<longleftrightarrow> list_all (\<lambda>w. bw_ReplaceMessages w \<and> bw_DataVersion w > 0) ws \<and>
     distinct (map (\<lambda>w. ds_ID (bw_Session w)) ws)"

definition writes_done :: "userAutomationConfig \<Rightarrow> (string \<Rightarrow> int option) \<Rightarrow> ('g, 'f) SessionBatchWrite list \<Rightarrow> ('g, 'f) SessionDB \<Rightarrow> ('g, 'f) SessionDB \<Rightarrow> bool"
where
  "writes_done cfg py ws st st' \<longleftrightarrow>
     store_ok st' \<and> db_excluded st' = db_excluded st \<and>
     (\<forall>sid. sid \<notin> (\<lambda>w. ds_ID (bw_Session w)) ` set ws \<or> blocked_id st sid \<longrightarrow> map_of (db_rows st') sid = map_of (db_rows st) sid) \<and>
     (\<forall>w \<in> set ws. \<not> blocked_id st (ds_ID (bw_Session w)) \<longrightarrow>
        (\<exists>r. map_of (db_rows st') (ds_ID (bw_Session w)) = Some r \<and> holds_write cfg (sanitizeSessionBatchWrite py w) r))"

lemma blocked_put_other: "sid \<noteq> k \<Longrightarrow> blocked_id (put_row k r st) sid = blocked_id st sid"
  by (simp add: blocked_id_def trashed_def)

lemma writes_done_cons:
  assumes fin: "writes_done cfg py ws st1 st'" and k: "k = ds_ID (bw_Session w)" and ok: "store_ok st"
    and new: "k \<notin> (\<lambda>w. ds_ID (bw_Session w)) ` set ws"
    and step: "(blocked_id st k \<and> st1 = st) \<or>
      (\<not> blocked_id st k \<and> (\<exists>r. st1 = put_row k r st \<and> holds_write cfg (sanitizeSessionBatchWrite py w) r))"
  shows "writes_done cfg py (w # ws) st st'"
proof (cases "blocked_id st k")
  case True
  then show ?thesis using fin step k by (auto simp: writes_done_def)
next
  case False
  then obtain r where st1: "st1 = put_row k r st" and r: "holds_write cfg (sanitizeSessionBatchWrite py w) r"
    using step by blast
  have kr: "map_of (db_rows st') k = Some r" using fin new st1 by (simp add: writes_done_def)
  have b: "sid \<noteq> k \<Longrightarrow> blocked_id st1 sid = blocked_id st sid" for sid by (simp add: st1 blocked_put_other)
  have same: "map_of (db_rows st') sid = map_of (db_rows st) sid"
    if "sid \<noteq> k" "sid \<notin> (\<lambda>w. ds_ID (bw_Session w)) ` set ws \<or> blocked_id st sid" for sid
  proof -
    have "map_of (db_rows st') sid = map_of (db_rows st1) sid"
      using fin that b [OF that(1)] unfolding writes_done_def by blast
    then show ?thesis using that(1) by (simp add: st1)
  qed
  have held: "\<exists>r. map_of (db_rows st') (ds_ID (bw_Session v)) = Some r \<and> holds_write cfg (sanitizeSessionBatchWrite py v) r"
    if "v \<in> set ws" "\<not> blocked_id st (ds_ID (bw_Session v))" for v
  proof -
    have "ds_ID (bw_Session v) \<noteq> k" using that(1) new by blast
    then show ?thesis using fin that b unfolding writes_done_def by blast
  qed
  have "store_ok st'" "db_excluded st' = db_excluded st" using fin st1 by (simp_all add: writes_done_def)
  moreover have "map_of (db_rows st') sid = map_of (db_rows st) sid"
    if "sid \<notin> (\<lambda>w. ds_ID (bw_Session w)) ` set (w # ws) \<or> blocked_id st sid" for sid
    using that same [of sid] False k by (cases "sid = k") auto
  moreover have "\<exists>r. map_of (db_rows st') (ds_ID (bw_Session v)) = Some r \<and> holds_write cfg (sanitizeSessionBatchWrite py v) r"
    if "v \<in> set (w # ws)" "\<not> blocked_id st (ds_ID (bw_Session v))" for v
    using that held kr r k by auto
  ultimately show ?thesis unfolding writes_done_def by blast
qed

lemma writes_done_nil: "store_ok st \<Longrightarrow> writes_done cfg py [] st st"
  by (simp add: writes_done_def)

lemma writeOne_step:
  assumes "writeOneSessionBatch ok cfg (sanitizeSessionBatchWrite py w) st = Inr (st1, n)" "store_ok st"
    "bw_ReplaceMessages w" "bw_DataVersion w > 0"
  shows "\<not> blocked_id st (ds_ID (bw_Session w))" "store_ok st1"
    "\<exists>r. st1 = put_row (ds_ID (bw_Session w)) r st \<and> holds_write cfg (sanitizeSessionBatchWrite py w) r"
proof -
  let ?w = "sanitizeSessionBatchWrite py w"
  obtain r1 r2 r3 where st1: "st1 = put_row (ds_ID (bw_Session w)) r3 st" and nb: "\<not> blocked_id st (ds_ID (bw_Session w))"
    and steps: "replaceSessionUsageEvents ok (bw_UsageEvents ?w) (upserted cfg (bw_Session ?w) st) = Some r1"
      "store_messages ok ?w r1 = Some (r2, n)" "store_derived ok ?w r2 = Some r3"
    by (rule writeOne_cases [OF assms(1)]) auto
  have h: "holds_write cfg ?w r3" using written_row(1) [OF assms(2) _ _ _ steps] nb assms(3,4) by simp
  show "\<not> blocked_id st (ds_ID (bw_Session w))" by (rule nb)
  show "store_ok st1" using assms(2) h by (auto simp: st1 holds_write_def intro: put_row_ok)
  show "\<exists>r. st1 = put_row (ds_ID (bw_Session w)) r st \<and> holds_write cfg ?w r" using st1 h by blast
qed


lemma snapshot_loop_done:
  "snapshot_loop ok cfg py ws (res, st) = (res', Some st') \<Longrightarrow> all_replace ws \<Longrightarrow> store_ok st \<Longrightarrow>
     writes_done cfg py ws st st' \<and>
     br_WrittenSessions res' + length (br_ExcludedIDs res') = br_WrittenSessions res + length (br_ExcludedIDs res) + length ws"
proof (induction ws arbitrary: res st)
  case (Cons w ws)
  let ?k = "ds_ID (bw_Session w)" and ?w = "sanitizeSessionBatchWrite py w"
  have ws: "all_replace ws" and w: "bw_ReplaceMessages w" "bw_DataVersion w > 0"
    and new: "?k \<notin> (\<lambda>w. ds_ID (bw_Session w)) ` set ws"
    using Cons.prems(2) by (auto simp: all_replace_def)
  show ?case
  proof (cases "writeOneSessionBatch ok cfg ?w st")
    case (Inl e)
    then have e: "e \<noteq> StatementFailed"
      and rec: "snapshot_loop ok cfg py ws (res\<lparr>br_ExcludedIDs := br_ExcludedIDs res @ [?k]\<rparr>, st) = (res', Some st')"
      using Cons.prems(1) by (simp_all add: Let_def split: if_splits)
    have "blocked_id st ?k" using e by (auto intro: writeOne_cases [OF Inl])
    then show ?thesis
      using Cons.IH [OF rec ws Cons.prems(3)] writes_done_cons [OF _ refl Cons.prems(3) new] by auto
  next
    case (Inr p)
    obtain st1 n where p: "p = (st1, n)" by fastforce
    note step = writeOne_step [OF Inr [unfolded p] Cons.prems(3) w]
    have rec: "snapshot_loop ok cfg py ws (res\<lparr>br_WrittenSessions := br_WrittenSessions res + 1,
        br_WrittenMessages := br_WrittenMessages res + n\<rparr>, st1) = (res', Some st')"
      using Cons.prems(1) Inr p by (simp add: Let_def split: if_splits)
    note ih = Cons.IH [OF rec ws step(2)]
    have "writes_done cfg py (w # ws) st st'"
      by (rule writes_done_cons [OF conjunct1 [OF ih] refl Cons.prems(3) new]) (use step(1,3) in blast)
    then show ?thesis using ih by simp
  qed
qed (simp add: writes_done_nil)

lemma delete_live_row:
  "map_of (db_rows (delete_live k st)) sid = (if sid = k \<and> \<not> trashed st k then None else map_of (db_rows st) sid)"
  "db_excluded (delete_live k st) = db_excluded st"
  by (simp_all add: delete_live_def delete_conv')

lemma delete_live_trashed: "trashed (delete_live k st) sid = trashed st sid"
  by (auto simp: trashed_def delete_live_row)

lemma delete_stale_row:
  "map_of (db_rows (delete_stale sids st)) sid =
     (if sid \<in> set sids \<and> sid \<noteq> [] \<and> \<not> blocked_id st sid then None else map_of (db_rows st) sid) \<and>
   db_excluded (delete_stale sids st) = db_excluded st \<and> trashed (delete_stale sids st) sid = trashed st sid"
proof (induction sids arbitrary: st)
  case (Cons k sids)
  show ?case
  proof (cases "k = [] \<or> k \<in> set (db_excluded st)")
    case True
    then show ?thesis using Cons.IH [of st] by (auto simp: delete_stale_def blocked_id_def)
  next
    case False
    then show ?thesis using Cons.IH [of "delete_live k st"]
      by (auto simp: delete_stale_def blocked_id_def delete_live_row delete_live_trashed)
  qed
qed (simp add: delete_stale_def)

lemma delete_parser_excluded_row:
  "map_of (db_rows (delete_parser_excluded sids st)) sid =
     (if sid \<in> set sids \<and> sid \<noteq> [] \<and> \<not> trashed st sid then None else map_of (db_rows st) sid) \<and>
   db_excluded (delete_parser_excluded sids st) = db_excluded st"
proof (induction sids arbitrary: st)
  case (Cons k sids)
  show ?case
  proof (cases "k = []")
    case True
    then show ?thesis using Cons.IH [of st] by (auto simp: delete_parser_excluded_def)
  next
    case False
    then show ?thesis using Cons.IH [of "delete_live k st"]
      by (auto simp: delete_parser_excluded_def delete_live_row delete_live_trashed)
  qed
qed (simp add: delete_parser_excluded_def)

lemma writes_done_trashed:
  assumes "writes_done cfg py ws st st'"
  shows "sid \<notin> (\<lambda>w. ds_ID (bw_Session w)) ` set ws \<Longrightarrow> trashed st' sid = trashed st sid"
    "trashed st sid \<Longrightarrow> trashed st' sid"
  using assms unfolding writes_done_def trashed_def blocked_id_def by auto

text \<open>
  C7. The snapshot of a source is written whole or not at all. When it succeeds, every session the user did not
  delete is held by its row, with exactly the given messages; sessions the user moved to the trash keep their
  rows; ids the source no longer yields are gone; and no other session is touched.
\<close>

theorem WriteSessionSnapshot_exact:
  assumes run: "WriteSessionSnapshot ok cfg py ws stale excl st = (res, success, st')"
    and st: "store_ok st" and ws: "all_replace ws"
    and fresh: "set (map (\<lambda>w. ds_ID (bw_Session w)) ws) \<inter> set (stale @ excl) = {}"
  shows "if \<not> success then st' = st
    else br_WrittenSessions res + length (br_ExcludedIDs res) = length ws \<and>
      (\<forall>w \<in> set ws. \<not> blocked_id st (ds_ID (bw_Session w)) \<longrightarrow>
        (\<exists>r. map_of (db_rows st') (ds_ID (bw_Session w)) = Some r \<and> holds_write cfg (sanitizeSessionBatchWrite py w) r)) \<and>
      (\<forall>sid. trashed st sid \<or> sid \<in> set (db_excluded st) - set excl \<longrightarrow> map_of (db_rows st') sid = map_of (db_rows st) sid) \<and>
      (\<forall>sid \<in> set stale. sid \<noteq> [] \<and> \<not> blocked_id st sid \<longrightarrow> map_of (db_rows st') sid = None) \<and>
      (\<forall>sid. sid \<notin> set (map (\<lambda>w. ds_ID (bw_Session w)) ws @ stale @ excl) \<longrightarrow>
        map_of (db_rows st') sid = map_of (db_rows st) sid)"
proof (cases "success \<and> (ws \<noteq> [] \<or> stale \<noteq> [] \<or> excl \<noteq> [])")
  case False
  then show ?thesis using run by (auto simp: WriteSessionSnapshot_def no_result_def split: if_splits prod.splits option.splits)
next
  case True
  then obtain tx where loop: "snapshot_loop ok cfg py ws (no_result, st) = (res, Some tx)"
    and st': "st' = delete_parser_excluded excl (delete_stale stale tx)"
    using run by (auto simp: WriteSessionSnapshot_def split: if_splits prod.splits option.splits)
  have fin: "writes_done cfg py ws st tx" and n: "br_WrittenSessions res + length (br_ExcludedIDs res) = length ws"
    using snapshot_loop_done [OF loop ws st] by (simp_all add: no_result_def)
  have row: "map_of (db_rows st') sid =
      (if sid \<in> set excl \<and> sid \<noteq> [] \<and> \<not> trashed tx sid \<or> sid \<in> set stale \<and> sid \<noteq> [] \<and> \<not> blocked_id tx sid then None
       else map_of (db_rows tx) sid)" for sid
    using delete_stale_row [of stale tx sid] delete_parser_excluded_row [of excl "delete_stale stale tx" sid]
    by (simp add: st')
  have ex: "db_excluded tx = db_excluded st" using fin by (simp add: writes_done_def)
  note t = writes_done_trashed [OF fin]
  have a: "\<exists>r. map_of (db_rows st') (ds_ID (bw_Session w)) = Some r \<and> holds_write cfg (sanitizeSessionBatchWrite py w) r"
    if "w \<in> set ws" "\<not> blocked_id st (ds_ID (bw_Session w))" for w
    using fin that fresh unfolding writes_done_def by (auto simp: row)
  have b: "map_of (db_rows st') sid = map_of (db_rows st) sid"
    if "trashed st sid \<or> sid \<in> set (db_excluded st) - set excl" for sid
  proof -
    have "map_of (db_rows tx) sid = map_of (db_rows st) sid" using fin that unfolding writes_done_def blocked_id_def by blast
    then show ?thesis using that t(2) [of sid] by (auto simp: row blocked_id_def ex)
  qed
  have c: "map_of (db_rows st') sid = None" if "sid \<in> set stale" "sid \<noteq> []" "\<not> blocked_id st sid" for sid
    using that fresh t(1) [of sid] by (auto simp: row blocked_id_def ex)
  have d: "map_of (db_rows st') sid = map_of (db_rows st) sid"
    if "sid \<notin> set (map (\<lambda>w. ds_ID (bw_Session w)) ws @ stale @ excl)" for sid
    using fin that unfolding writes_done_def by (auto simp: row)
  show ?thesis using True n a b c d by auto
qed


text \<open>A database with a live, a stale and a trashed session, and a snapshot that yields the first.\<close>

definition demo_db :: "(unit, unit) SessionDB" where
  "demo_db = \<lparr>db_rows = [(''s'', new_row ''s''), (''x'', new_row ''x''), (''t'', (new_row ''t'')\<lparr>sr_Deleted := True\<rparr>)],
     db_excluded = []\<rparr>"

definition demo_db_session :: "string \<Rightarrow> DbSession" where
  "demo_db_session sid = \<lparr>s_Project = ''p'', s_Machine = [], s_Agent = ''claude'', s_Cwd = [], s_GitBranch = [], s_SourceSessionID = [],
     s_SourceVersion = [], s_FirstMessage = None, s_SessionName = None, s_TerminationStatus = None, s_StartedAt = None,
     s_EndedAt = None, ds_ID = sid, ds_MessageCount = 0, ds_UserMessageCount = 0, ds_ParentSessionID = None,
     ds_RelationshipType = [], ds_TotalOutputTokens = 0, ds_PeakContextTokens = 0, ds_HasTotalOutputTokens = False,
     ds_HasPeakContextTokens = False, ds_IsAutomated = False, ds_ParserMalformedLines = 0, ds_IsTruncated = False,
     ds_FilePath = None, ds_FileSize = None, ds_FileMtime = None, ds_FileInode = None, ds_FileDevice = None, ds_FileHash = None\<rparr>"

definition demo_write :: "string \<Rightarrow> (unit, unit) SessionBatchWrite" where
  "demo_write sid = \<lparr>bw_Session = demo_db_session sid, bw_Messages = [], bw_UsageEvents = [], bw_Signals = (), bw_Findings = (), bw_DataVersion = 1,
     bw_ReplaceMessages = True, bw_TokenAggregateSource = []\<rparr>"

lemma demo_db_ok: "store_ok demo_db"
  by (auto simp: store_ok_def demo_db_def new_row_def split: if_splits)

lemma demo_write_ID: "ds_ID (bw_Session (demo_write sid)) = sid"
  by (simp add: demo_write_def demo_db_session_def)

lemma demo_writes_ok: "all_replace [demo_write ''s'', demo_write ''t'']"
  by (simp add: all_replace_def demo_write_ID) (simp add: demo_write_def)

lemma demo_db_ids: "trashed demo_db ''t''" "\<not> blocked_id demo_db ''x''" "blocked_id demo_db ''t''"
  by (simp_all add: blocked_id_def trashed_def demo_db_def new_row_def)

theorem WriteSessionSnapshot_exact_witness:
  "case WriteSessionSnapshot (\<lambda>_ _. True) demo_config (\<lambda>_. None) [demo_write ''s'', demo_write ''t''] [''x''] [] demo_db of
     (res, success, st') \<Rightarrow> success \<and> map_of (db_rows st') ''x'' = None \<and>
       map_of (db_rows st') ''t'' = map_of (db_rows demo_db) ''t''"
proof -
  obtain res success st' where run: "WriteSessionSnapshot (\<lambda>_ _. True) demo_config (\<lambda>_. None)
      [demo_write ''s'', demo_write ''t''] [''x''] [] demo_db = (res, success, st')" by (metis prod.exhaust)
  have "fst (snd (WriteSessionSnapshot (\<lambda>_ _. True) demo_config (\<lambda>_. None) [demo_write ''s'', demo_write ''t''] [''x''] [] demo_db))"
    by code_simp
  then have s: "success" by (simp add: run)
  have "(\<forall>sid. trashed demo_db sid \<or> sid \<in> set (db_excluded demo_db) - set [] \<longrightarrow>
        map_of (db_rows st') sid = map_of (db_rows demo_db) sid) \<and>
      (\<forall>sid \<in> set [''x'']. sid \<noteq> [] \<and> \<not> blocked_id demo_db sid \<longrightarrow> map_of (db_rows st') sid = None)"
    using WriteSessionSnapshot_exact [OF run demo_db_ok demo_writes_ok] s by (simp add: demo_write_ID)
  then show ?thesis using s demo_db_ids by (simp add: run)
qed

section \<open>Batches of a rebuild\<close>

text \<open>What a write of the batch would come to if it were the only one.\<close>

definition alone ::
  "(Stmt \<Rightarrow> string \<Rightarrow> bool) \<Rightarrow> userAutomationConfig \<Rightarrow> (string \<Rightarrow> int option) \<Rightarrow> ('g, 'f) SessionDB \<Rightarrow> ('g, 'f) SessionBatchWrite \<Rightarrow>
   write_error + unit" where
  "alone ok cfg py st w = map_sum id (\<lambda>_. ()) (writeOneSessionBatch ok cfg (sanitizeSessionBatchWrite py w) st)"

text \<open>A write the tables accept: ordinals are unique, the events are those of the session.\<close>

definition write_sound :: "('g, 'f) SessionBatchWrite \<Rightarrow> bool" where
  "write_sound w \<longleftrightarrow> distinct (map m_Ordinal (bw_Messages w)) \<and>
     list_all (\<lambda>e. ue_SessionID e = [] \<or> ue_SessionID e = ds_ID (bw_Session w)) (bw_UsageEvents w)"

lemma alone_local:
  assumes "db_excluded st' = db_excluded st" "map_of (db_rows st') (ds_ID (bw_Session w)) = map_of (db_rows st) (ds_ID (bw_Session w))"
  shows "alone ok cfg py st' w = alone ok cfg py st w"
  using assms
  by (simp add: alone_def writeOneSessionBatch_def Let_def trashed_def upserted_def split: option.split prod.split)

lemma replace_sound:
  assumes "distinct (map m_Ordinal msgs)" and ok: "\<And>s. ok s (sr_ID r)"
  shows "\<exists>r'. replaceSessionMessages ok msgs r = Some r' \<and> sr_ID r' = sr_ID r"
proof -
  have "insert_messages ok msgs (r\<lparr>sr_Messages := [], sx_Pins := []\<rparr>) = Some (r\<lparr>sr_Messages := msgs, sx_Pins := []\<rparr>)"
    using assms by (cases "msgs = []") (simp_all add: insert_messages_def)
  then show ?thesis using ok by (simp add: replaceSessionMessages_def bump_revision_def Let_def)
qed

lemma usage_sound:
  assumes "list_all (\<lambda>e. ue_SessionID e = [] \<or> ue_SessionID e = sr_ID r) events" and ok: "\<And>s. ok s (sr_ID r)"
  shows "\<exists>r'. replaceSessionUsageEvents ok events r = Some r' \<and> sr_ID r' = sr_ID r"
proof -
  have "list_all (\<lambda>e. ue_SessionID e = sr_ID r) (map (\<lambda>e. if ue_SessionID e = [] then e\<lparr>ue_SessionID := sr_ID r\<rparr> else e) events)"
    using assms(1) by (auto simp: list_all_iff)
  then show ?thesis using ok by (simp add: replaceSessionUsageEvents_def Let_def)
qed

lemma alone_sound:
  assumes st: "store_ok st" and w: "bw_ReplaceMessages w" "write_sound (sanitizeSessionBatchWrite py w)"
    and ok: "\<And>s. ok s (ds_ID (bw_Session w))"
  shows "alone ok cfg py st w = Inr () \<and> \<not> blocked_id st (ds_ID (bw_Session w)) \<or>
    (\<exists>e. alone ok cfg py st w = Inl e \<and> e \<noteq> StatementFailed) \<and> blocked_id st (ds_ID (bw_Session w))"
proof (cases "blocked_id st (ds_ID (bw_Session w))")
  case True
  then show ?thesis using ok by (auto simp: alone_def writeOneSessionBatch_def Let_def blocked_id_def)
next
  case False
  let ?w = "sanitizeSessionBatchWrite py w" and ?k = "ds_ID (bw_Session w)"
  define r where "r = upserted cfg (bw_Session ?w) st"
  have id: "sr_ID r = ?k" using upserted_fields(1) [OF st, of "bw_Session ?w" cfg] False by (simp add: r_def blocked_id_def)
  obtain r1 where u: "replaceSessionUsageEvents ok (bw_UsageEvents ?w) r = Some r1" and id1: "sr_ID r1 = ?k"
    using usage_sound [of r "bw_UsageEvents ?w" ok] w(2) ok by (auto simp: write_sound_def id)
  obtain r2 where m: "replaceSessionMessages ok (bw_Messages ?w) r1 = Some r2" and id2: "sr_ID r2 = ?k"
    using replace_sound [of "bw_Messages ?w" ok r1] w(2) ok by (auto simp: write_sound_def id1)
  have "store_messages ok ?w r1 = Some (r2, length (bw_Messages ?w))" using w(1) m by (simp add: store_messages_def)
  moreover obtain r3 where "store_derived ok ?w r2 = Some r3" using ok id2 by (simp add: store_derived_def)
  ultimately have "writeOneSessionBatch ok cfg ?w st = Inr (put_row ?k r3 st, length (bw_Messages ?w))"
    using False ok u by (simp add: writeOneSessionBatch_def Let_def blocked_id_def r_def)
  then show ?thesis using False by (simp add: alone_def)
qed

text \<open>What the loop over a batch did: each write comes to what it comes to alone.\<close>

definition batch_done ::
  "(Stmt \<Rightarrow> string \<Rightarrow> bool) \<Rightarrow> userAutomationConfig \<Rightarrow> (string \<Rightarrow> int option) \<Rightarrow> ('g, 'f) SessionBatchWrite list \<Rightarrow>
   ('g, 'f) SessionDB \<Rightarrow> ('g, 'f) SessionDB \<Rightarrow> bool" where
  "batch_done ok cfg py ws st st' \<longleftrightarrow>
     store_ok st' \<and> db_excluded st' = db_excluded st \<and>
     (\<forall>sid. sid \<notin> (\<lambda>w. ds_ID (bw_Session w)) ` set ws \<longrightarrow> map_of (db_rows st') sid = map_of (db_rows st) sid) \<and>
     (\<forall>w \<in> set ws. if alone ok cfg py st w = Inr ()
        then \<not> blocked_id st (ds_ID (bw_Session w)) \<and>
          (\<exists>r. map_of (db_rows st') (ds_ID (bw_Session w)) = Some r \<and> holds_write cfg (sanitizeSessionBatchWrite py w) r)
        else map_of (db_rows st') (ds_ID (bw_Session w)) = map_of (db_rows st) (ds_ID (bw_Session w)))"

definition batch_counts ::
  "(Stmt \<Rightarrow> string \<Rightarrow> bool) \<Rightarrow> userAutomationConfig \<Rightarrow> (string \<Rightarrow> int option) \<Rightarrow> ('g, 'f) SessionBatchWrite list \<Rightarrow>
   ('g, 'f) SessionDB \<Rightarrow> SessionBatchResult \<Rightarrow> SessionBatchResult \<Rightarrow> bool" where
  "batch_counts ok cfg py ws st res res' \<longleftrightarrow>
     br_WrittenSessions res' = br_WrittenSessions res + length (filter (\<lambda>w. alone ok cfg py st w = Inr ()) ws) \<and>
     br_FailedSessions res' = br_FailedSessions res + length (filter (\<lambda>w. alone ok cfg py st w = Inl StatementFailed) ws) \<and>
     br_ExcludedIDs res' = br_ExcludedIDs res @ map (\<lambda>w. ds_ID (bw_Session w))
       (filter (\<lambda>w. alone ok cfg py st w \<in> {Inl ErrSessionExcluded, Inl ErrSessionTrashed}) ws)"

lemma alone_fold:
  assumes new: "k \<notin> (\<lambda>w. ds_ID (bw_Session w)) ` set ws" and st1: "st1 = st \<or> (\<exists>r. st1 = put_row k r st)" and v: "v \<in> set ws"
  shows "alone ok cfg py st1 v = alone ok cfg py st v" "blocked_id st1 (ds_ID (bw_Session v)) = blocked_id st (ds_ID (bw_Session v))"
    "map_of (db_rows st1) (ds_ID (bw_Session v)) = map_of (db_rows st) (ds_ID (bw_Session v))"
proof -
  have "ds_ID (bw_Session v) \<noteq> k" using new v by blast
  then show row: "map_of (db_rows st1) (ds_ID (bw_Session v)) = map_of (db_rows st) (ds_ID (bw_Session v))"
    and "blocked_id st1 (ds_ID (bw_Session v)) = blocked_id st (ds_ID (bw_Session v))"
    using st1 by (auto simp: blocked_put_other)
  show "alone ok cfg py st1 v = alone ok cfg py st v" by (rule alone_local [OF _ row]) (use st1 in auto)
qed

lemma batch_done_cons:
  assumes fin: "batch_done ok cfg py ws st1 st'" and new: "ds_ID (bw_Session w) \<notin> (\<lambda>w. ds_ID (bw_Session w)) ` set ws"
    and step: "alone ok cfg py st w \<noteq> Inr () \<and> st1 = st \<or>
      alone ok cfg py st w = Inr () \<and> \<not> blocked_id st (ds_ID (bw_Session w)) \<and>
        (\<exists>r. st1 = put_row (ds_ID (bw_Session w)) r st \<and> holds_write cfg (sanitizeSessionBatchWrite py w) r)"
  shows "batch_done ok cfg py (w # ws) st st'"
proof -
  have st1: "st1 = st \<or> (\<exists>r. st1 = put_row (ds_ID (bw_Session w)) r st)" using step by blast
  note af = alone_fold [OF new st1]
  have k: "map_of (db_rows st') (ds_ID (bw_Session w)) = map_of (db_rows st1) (ds_ID (bw_Session w))"
    using fin new by (simp add: batch_done_def)
  have other: "map_of (db_rows st') sid = map_of (db_rows st) sid"
    if "sid \<notin> (\<lambda>w. ds_ID (bw_Session w)) ` set (w # ws)" for sid
    using fin that st1 by (auto simp: batch_done_def)
  have each: "if alone ok cfg py st v = Inr ()
      then \<not> blocked_id st (ds_ID (bw_Session v)) \<and>
        (\<exists>r. map_of (db_rows st') (ds_ID (bw_Session v)) = Some r \<and> holds_write cfg (sanitizeSessionBatchWrite py v) r)
      else map_of (db_rows st') (ds_ID (bw_Session v)) = map_of (db_rows st) (ds_ID (bw_Session v))" if "v \<in> set ws" for v
    using fin that unfolding batch_done_def by (metis af that)
  have self: "if alone ok cfg py st w = Inr ()
      then \<not> blocked_id st (ds_ID (bw_Session w)) \<and>
        (\<exists>r. map_of (db_rows st') (ds_ID (bw_Session w)) = Some r \<and> holds_write cfg (sanitizeSessionBatchWrite py w) r)
      else map_of (db_rows st') (ds_ID (bw_Session w)) = map_of (db_rows st) (ds_ID (bw_Session w))"
    using step k by auto
  have "store_ok st'" "db_excluded st' = db_excluded st" using fin st1 by (auto simp: batch_done_def)
  then show ?thesis unfolding batch_done_def using other each self by simp
qed

lemma batch_counts_cons:
  assumes new: "ds_ID (bw_Session w) \<notin> (\<lambda>w. ds_ID (bw_Session w)) ` set ws"
    and st1: "st1 = st \<or> (\<exists>r. st1 = put_row (ds_ID (bw_Session w)) r st)"
    and ih: "batch_counts ok cfg py ws st1 res1 res'" and head: "batch_counts ok cfg py [w] st res res1"
  shows "batch_counts ok cfg py (w # ws) st res res'"
proof -
  have "filter (\<lambda>w. Q (alone ok cfg py st1 w)) ws = filter (\<lambda>w. Q (alone ok cfg py st w)) ws" for Q
    by (rule filter_cong) (simp_all add: alone_fold(1) [OF new st1])
  note same = this [of "\<lambda>x. x = Inr ()"] this [of "\<lambda>x. x = Inl StatementFailed"]
    this [of "\<lambda>x. x \<in> {Inl ErrSessionExcluded, Inl ErrSessionTrashed}"]
  show ?thesis using ih head unfolding batch_counts_def same by (auto split: if_splits)
qed

lemma batch_loop_done:
  "batch_loop ok cfg py ws (res, st) = (res', Some st') \<Longrightarrow> all_replace ws \<Longrightarrow> store_ok st \<Longrightarrow>
     batch_done ok cfg py ws st st' \<and> batch_counts ok cfg py ws st res res'"
proof (induction ws arbitrary: res st)
  case Nil
  then show ?case by (simp add: batch_done_def batch_counts_def)
next
  case (Cons w ws)
  let ?k = "ds_ID (bw_Session w)" and ?w = "sanitizeSessionBatchWrite py w"
  have ws: "all_replace ws" and w: "bw_ReplaceMessages w" "bw_DataVersion w > 0"
    and new: "?k \<notin> (\<lambda>w. ds_ID (bw_Session w)) ` set ws"
    using Cons.prems(2) by (auto simp: all_replace_def)
  show ?case
  proof (cases "writeOneSessionBatch ok cfg ?w st")
    case (Inl e)
    define res1 where "res1 = (if e = StatementFailed then res\<lparr>br_FailedSessions := br_FailedSessions res + 1\<rparr>
      else res\<lparr>br_ExcludedIDs := br_ExcludedIDs res @ [?k]\<rparr>)"
    have rec: "batch_loop ok cfg py ws (res1, st) = (res', Some st')"
      using Cons.prems(1) Inl by (simp add: Let_def res1_def split: if_splits)
    have a: "alone ok cfg py st w = Inl e" by (simp add: alone_def Inl)
    have head: "batch_counts ok cfg py [w] st res res1" by (cases e) (simp_all add: batch_counts_def a res1_def)
    note ih = Cons.IH [OF rec ws Cons.prems(3)]
    show ?thesis
      using batch_done_cons [OF conjunct1 [OF ih] new] batch_counts_cons [OF new _ conjunct2 [OF ih] head] a by simp
  next
    case (Inr p)
    obtain st1 n where p: "p = (st1, n)" by fastforce
    note step = writeOne_step [OF Inr [unfolded p] Cons.prems(3) w]
    define res1 where "res1 = res\<lparr>br_WrittenSessions := br_WrittenSessions res + 1, br_WrittenMessages := br_WrittenMessages res + n\<rparr>"
    have rec: "batch_loop ok cfg py ws (res1, st1) = (res', Some st')"
      using Cons.prems(1) Inr p by (simp add: Let_def res1_def split: if_splits)
    have a: "alone ok cfg py st w = Inr ()" by (simp add: alone_def Inr)
    have head: "batch_counts ok cfg py [w] st res res1" by (simp add: batch_counts_def a res1_def)
    note ih = Cons.IH [OF rec ws step(2)]
    have "st1 = st \<or> (\<exists>r. st1 = put_row ?k r st)" using step(3) by blast
    then show ?thesis
      using batch_done_cons [OF conjunct1 [OF ih] new] batch_counts_cons [OF new _ conjunct2 [OF ih] head] a step(1,3) by simp
  qed
qed


text \<open>The upsert of one session fails.\<close>

definition demo_faults :: "Stmt \<Rightarrow> string \<Rightarrow> bool" where
  "demo_faults s sid \<longleftrightarrow> s \<noteq> Upsert \<or> sid \<noteq> ''s''"



section \<open>Pins\<close>

definition message_of :: "Message list \<Rightarrow> string \<Rightarrow> Message" where
  "message_of msgs uuid = hd (filter (\<lambda>m. m_SourceUUID m = uuid) msgs)"

lemma unique_message:
  assumes "length (filter (\<lambda>m. m_SourceUUID m = uuid) msgs) = 1"
  shows "filter (\<lambda>m. m_SourceUUID m = uuid) msgs = [message_of msgs uuid]" "message_of msgs uuid \<in> set msgs"
    "m_SourceUUID (message_of msgs uuid) = uuid"
proof -
  obtain m where m: "filter (\<lambda>m. m_SourceUUID m = uuid) msgs = [m]"
    using assms by (cases "filter (\<lambda>m. m_SourceUUID m = uuid) msgs") auto
  then have "m \<in> {x \<in> set msgs. m_SourceUUID x = uuid}" unfolding set_filter [symmetric] by simp
  then show "filter (\<lambda>m. m_SourceUUID m = uuid) msgs = [message_of msgs uuid]" "message_of msgs uuid \<in> set msgs"
    "m_SourceUUID (message_of msgs uuid) = uuid"
    using m by (auto simp: message_of_def)
qed

lemma find_by_ordinal:
  "distinct (map m_Ordinal msgs) \<Longrightarrow> m \<in> set msgs \<Longrightarrow> find (\<lambda>x. m_Ordinal x = m_Ordinal m) msgs = Some m"
  by (induction msgs) auto

lemma restorePins_unique:
  assumes d: "distinct (map m_Ordinal msgs)" and u: "distinct (map fst saved)"
    and ex: "list_all (\<lambda>(uuid, p). uuid \<noteq> [] \<and> length (filter (\<lambda>m. m_SourceUUID m = uuid) msgs) = 1) saved"
  shows "restorePins msgs saved = map (\<lambda>(uuid, p). p\<lparr>pn_ordinal := m_Ordinal (message_of msgs uuid)\<rparr>) saved"
proof -
  let ?pin = "\<lambda>(uuid, p). p\<lparr>pn_ordinal := m_Ordinal (message_of msgs uuid)\<rparr>"
  have "fold (restore_pin msgs) later (map ?pin earlier) = map ?pin (earlier @ later)"
    if "earlier @ later = saved" for earlier later
    using that
  proof (induction later arbitrary: earlier)
    case (Cons s later)
    obtain uuid p where s: "s = (uuid, p)" by fastforce
    have uuid: "uuid \<noteq> []" and one: "length (filter (\<lambda>m. m_SourceUUID m = uuid) msgs) = 1"
      using ex Cons.prems s by auto
    note um = unique_message [OF one]
    have new: "m_Ordinal (message_of msgs uuid) \<notin> pn_ordinal ` set (map ?pin earlier)"
    proof
      assume "m_Ordinal (message_of msgs uuid) \<in> pn_ordinal ` set (map ?pin earlier)"
      then obtain v q where vq: "(v, q) \<in> set earlier" and eq: "m_Ordinal (message_of msgs v) = m_Ordinal (message_of msgs uuid)"
        by auto
      have "length (filter (\<lambda>m. m_SourceUUID m = v) msgs) = 1" using ex Cons.prems vq by (auto simp: list_all_iff)
      note vm = unique_message [OF this]
      have "message_of msgs v = message_of msgs uuid"
        using find_by_ordinal [OF d um(2)] find_by_ordinal [OF d vm(2)] eq by simp
      then have "v = uuid" using um(3) vm(3) by metis
      moreover have "v \<noteq> uuid" using u Cons.prems vq s by force
      ultimately show False by contradiction
    qed
    have sel: "filter (\<lambda>m. m_SourceUUID m = uuid \<and> m_Ordinal m \<notin> pn_ordinal ` set (map ?pin earlier)) msgs = [message_of msgs uuid]"
    proof -
      have "filter (\<lambda>m. m_SourceUUID m = uuid \<and> m_Ordinal m \<notin> pn_ordinal ` set (map ?pin earlier)) msgs =
          filter (\<lambda>m. m_Ordinal m \<notin> pn_ordinal ` set (map ?pin earlier)) (filter (\<lambda>m. m_SourceUUID m = uuid) msgs)"
        by (simp add: conj_commute)
      then show ?thesis using new by (simp add: um(1))
    qed
    have "restore_pin msgs s (map ?pin earlier) = map ?pin (earlier @ [s])"
      using uuid sel by (simp add: restore_pin_def s pin_messages_def Let_def)
    then show ?case using Cons.IH [of "earlier @ [s]"] Cons.prems by simp
  qed simp
  from this [of "[]" saved] show ?thesis by (simp add: restorePins_def)
qed

text \<open>
  C9. A rewrite of the transcript keeps the user's pins: when the pinned messages are still there and their
  source uuids tell them apart, each pin is on the message with the same uuid afterwards, with its note and
  its time, wherever the message has moved.
\<close>

theorem pins_follow_messages:
  assumes rewrite: "replaceSessionMessages ok msgs r = Some r'" and d: "distinct (map fst (savePins r))"
    and ex: "list_all (\<lambda>(uuid, p). uuid \<noteq> [] \<and> length (filter (\<lambda>m. m_SourceUUID m = uuid) msgs) = 1) (savePins r)"
  shows "map (\<lambda>(uuid, p). (uuid, pn_note p, pn_createdAt p)) (savePins r') =
    map (\<lambda>(uuid, p). (uuid, pn_note p, pn_createdAt p)) (savePins r)"
proof -
  note row = replaceSessionMessages_row [OF rewrite]
  have pins: "sx_Pins r' = map (\<lambda>(uuid, p). p\<lparr>pn_ordinal := m_Ordinal (message_of msgs uuid)\<rparr>) (savePins r)"
    and ms: "sr_Messages r' = msgs"
    using row restorePins_unique [OF row(2) d ex] by auto
  have "(case find (\<lambda>m. m_Ordinal m = m_Ordinal (message_of msgs uuid)) msgs of Some m \<Rightarrow> m_SourceUUID m | None \<Rightarrow> []) = uuid"
    if "(uuid, p) \<in> set (savePins r)" for uuid p
  proof -
    have "length (filter (\<lambda>m. m_SourceUUID m = uuid) msgs) = 1" using ex that by (auto simp: list_all_iff)
    note um = unique_message [OF this]
    show ?thesis using find_by_ordinal [OF row(2) um(2)] um(3) by simp
  qed
  then show ?thesis unfolding savePins_def [of r'] ms pins by (auto simp: case_prod_beta')
qed

text \<open>A pinned message that moves from the first to the second place.\<close>

definition demo_message :: "int \<Rightarrow> string \<Rightarrow> Message" where
  "demo_message ordinal uuid = (demo_row ''user'' [] [])\<lparr>m_Ordinal := ordinal, m_SourceUUID := uuid\<rparr>"

definition demo_pinned :: "(unit, unit) StoredRow" where
  "demo_pinned = (new_row ''s'')\<lparr>sr_Messages := [demo_message 0 ''u''],
     sx_Pins := [\<lparr>pn_ordinal = 0, pn_note = Some ''n'', pn_createdAt = ''t''\<rparr>]\<rparr>"

theorem pins_follow_messages_witness:
  "\<exists>r'. replaceSessionMessages (\<lambda>_ _. True) [demo_message 0 ''v'', demo_message 1 ''u''] demo_pinned = Some r' \<and>
    map (\<lambda>(uuid, p). (uuid, pn_note p, pn_createdAt p)) (savePins r') = [(''u'', Some ''n'', ''t'')]"
proof -
  let ?msgs = "[demo_message 0 ''v'', demo_message 1 ''u'']"
  have "\<not> Option.is_none (replaceSessionMessages (\<lambda>_ _. True) ?msgs demo_pinned)" by code_simp
  then obtain r' where r': "replaceSessionMessages (\<lambda>_ _. True) ?msgs demo_pinned = Some r'"
    by (auto simp: Option.is_none_def)
  have saved: "savePins demo_pinned = [(''u'', \<lparr>pn_ordinal = 0, pn_note = Some ''n'', pn_createdAt = ''t''\<rparr>)]"
    by (simp add: savePins_def demo_pinned_def demo_message_def)
  have "map (\<lambda>(uuid, p). (uuid, pn_note p, pn_createdAt p)) (savePins r') =
      map (\<lambda>(uuid, p). (uuid, pn_note p, pn_createdAt p)) (savePins demo_pinned)"
    by (rule pins_follow_messages [OF r']) (simp_all add: saved demo_message_def)
  then show ?thesis using r' by (simp add: saved)
qed

text \<open>
  A pin whose message has vanished goes to whatever message now has its ordinal: the fallback that is meant for
  rows without a uuid is taken for every uuid that is not found.
\<close>

theorem vanished_pin_moves:
  "map fst (savePins (the (replaceSessionMessages (\<lambda>_ _. True) [demo_message 0 ''v''] demo_pinned))) = [''v'']"
  by code_simp

end
