(* ===== verification/Sync_Source.thy ===== *)
theory Sync_Source
  imports Session_Store Memory_Files
begin

text \<open>
  The reading side of the sync engine (\<open>internal/sync/engine.go\<close>): which files are skipped, what is read from
  a file, and the cache of files not to be read again. The engine's state is the database of
  \<^theory_text>\<open>Session_Store\<close>, the skip cache and its persisted copy. \<open>EngineEnv\<close> holds the configuration and what the engine asks of
  the system: the stat and hash of a file, the readers of transcripts (for Claude those of
  \<^theory_text>\<open>Claude_Session\<close>), the projects that git knows, the archive that a rebuild copies from, the signals and findings of a session, and which statements the
  database carries out. Locks, progress reports and logs are left out; the readers of the other agents are the
  field \<open>ev_process\<close>.
\<close>

section \<open>Environment and state\<close>

record DiscoveredFile =
  df_Path :: string
  df_Project :: string
  df_Agent :: string

record ParsedUsage = ParsedUsageEvent +
  pu_MessageOrdinal :: "int option"
  pu_Model :: string
  pu_ReasoningTokens :: int
  pu_CostUSD :: "rat option"
  pu_CostStatus :: string
  pu_CostSource :: string
  pu_OccurredAt :: string
  pu_DedupKey :: string

text \<open>A parsed session with the fields of its file that the engine fills in, and its usage events.\<close>

record SourceResult = ParseResult +
  pr_Inode :: int
  pr_Device :: int
  pr_Hash :: string
  pr_UsageEvents :: "ParsedUsage list"

record processed =
  pd_results :: "SourceResult list"
  pd_excludedSessionIDs :: "string list"
  pd_cwdExcluded :: nat
  pd_skip :: bool
  pd_mtime :: int
  pd_err :: bool
  pd_incremental :: "incrementalUpdate option"
  pd_cacheSkip :: bool
  pd_needsRetry :: bool
  pd_staleSessionIDs :: "string list"
  pd_sourceSnapshot :: bool
  pd_forceReplace :: bool

definition zero_processed :: processed where
  "zero_processed = \<lparr>pd_results = [], pd_excludedSessionIDs = [], pd_cwdExcluded = 0, pd_skip = False, pd_mtime = 0,
     pd_err = False, pd_incremental = None, pd_cacheSkip = False, pd_needsRetry = False, pd_staleSessionIDs = [],
     pd_sourceSnapshot = False, pd_forceReplace = False\<rparr>"

record ('g, 'f) EngineEnv =
  ev_idPrefix :: string
  ev_pathRewriter :: "(string \<Rightarrow> string) option"
  ev_cwdPrefixes :: "string list"
  ev_conv :: Conv
  ev_automation :: userAutomationConfig
  ev_year :: "string \<Rightarrow> int option"
  ev_dataVersion :: int
  ev_worktree :: "string \<Rightarrow> string \<Rightarrow> string \<Rightarrow> string option"
  ev_signals :: "DbSession \<Rightarrow> Message list \<Rightarrow> 'g \<times> 'f"
  ev_preserve :: "DbSession \<Rightarrow> Message list \<Rightarrow> bool"
  ev_machine :: string
  ev_ok :: "Stmt \<Rightarrow> string \<Rightarrow> bool"
  ev_update_ok :: "string \<Rightarrow> bool"
  ev_mapping_ok :: "string \<Rightarrow> bool"
  ev_link_ok :: bool
  ev_stat :: "string \<Rightarrow> FileStat option"
  ev_hash :: "string \<Rightarrow> string option"
  ev_prefixHash :: "string \<Rightarrow> int \<Rightarrow> string option"
  ev_readFull :: "string \<Rightarrow> string \<Rightarrow> parse_error + ParseResult list \<times> string list"
  ev_readFrom :: "string \<Rightarrow> nat \<Rightarrow> nat \<Rightarrow> parse_error + ParsedMessage list \<times> time \<times> nat"
  ev_hints :: "string \<Rightarrow> string \<times> string"
  ev_cwdProject :: "string \<Rightarrow> string \<Rightarrow> string"
  ev_projectName :: "string \<Rightarrow> string"
  ev_process :: "DiscoveredFile \<Rightarrow> FileStat \<Rightarrow> processed"
  ev_opencodeDirs :: "string list"
  ev_opencodeStorage :: "string \<Rightarrow> bool"
  ev_archive :: "('g, 'f) SessionDB option"

record ('g, 'f) Engine =
  eg_db :: "('g, 'f) SessionDB"
  eg_skipCache :: "(string, int) gomap"
  eg_skippedFiles :: "(string, int) gomap"

section \<open>The skip cache\<close>

definition cacheSkip :: "string \<Rightarrow> int \<Rightarrow> ('g, 'f) Engine \<Rightarrow> ('g, 'f) Engine" where
  "cacheSkip path mtime eg = eg\<lparr>eg_skipCache := AList.update path mtime (eg_skipCache eg)\<rparr>"

definition clearSkip :: "string \<Rightarrow> ('g, 'f) Engine \<Rightarrow> ('g, 'f) Engine" where
  "clearSkip path eg = eg\<lparr>eg_skipCache := AList.delete path (eg_skipCache eg),
     eg_skippedFiles := AList.delete path (eg_skippedFiles eg)\<rparr>"

definition InjectSkipCache :: "(string, int) gomap \<Rightarrow> ('g, 'f) Engine \<Rightarrow> ('g, 'f) Engine" where
  "InjectSkipCache entries eg = eg\<lparr>eg_skipCache := AList.updates (map fst entries) (map snd entries) (eg_skipCache eg)\<rparr>"

definition persistSkipCache :: "bool \<Rightarrow> bool \<Rightarrow> ('g, 'f) Engine \<Rightarrow> nat \<times> ('g, 'f) Engine" where
  "persistSkipCache ephemeral replace_ok eg =
     (if ephemeral then (0, eg)
      else (length (eg_skipCache eg), if replace_ok then eg\<lparr>eg_skippedFiles := eg_skipCache eg\<rparr> else eg))"

text \<open>Sessions in one of the agents' SQLite files have a path that appends a hash sign and the session's id.\<close>

definition split_hash :: "string \<Rightarrow> (string \<times> string) option" where
  "split_hash path =
     (if CHR ''#'' \<notin> set path then None
      else let sid = rev (takeWhile (\<lambda>c. c \<noteq> CHR ''#'') (rev path)) in Some (take (length path - length sid - 1) path, sid))"

definition parseSQLiteVirtualPath :: "string \<Rightarrow> string \<Rightarrow> (string \<times> string) option" where
  "parseSQLiteVirtualPath sourcePath dbName =
     (case split_hash sourcePath of
        None \<Rightarrow> None
      | Some (dbPath, sessionID) \<Rightarrow>
          if dbPath = [] \<or> sessionID = [] \<or> path_base dbPath \<noteq> dbName then None else Some (dbPath, sessionID))"

definition isAlphanum :: "char \<Rightarrow> bool" where
  "isAlphanum c \<longleftrightarrow> (let n = of_char c :: nat in 97 \<le> n \<and> n \<le> 122 \<or> 65 \<le> n \<and> n \<le> 90 \<or> 48 \<le> n \<and> n \<le> 57)"

definition IsValidSessionID :: "string \<Rightarrow> bool" where
  "IsValidSessionID sid \<longleftrightarrow> sid \<noteq> [] \<and> list_all (\<lambda>c. isAlphanum c \<or> c = CHR ''-'' \<or> c = CHR ''_'') sid"

definition ParseKiroSQLiteVirtualPath :: "string \<Rightarrow> (string \<times> string) option" where
  "ParseKiroSQLiteVirtualPath path =
     (case split_hash path of
        None \<Rightarrow> None
      | Some (dbPath, sessionID) \<Rightarrow> if path_base dbPath \<noteq> ''data.sqlite3'' \<or> sessionID = [] then None else Some (dbPath, sessionID))"

definition ParseZedSQLiteVirtualPath :: "string \<Rightarrow> (string \<times> string) option" where
  "ParseZedSQLiteVirtualPath path =
     (case split_hash path of
        None \<Rightarrow> None
      | Some (dbPath, sessionID) \<Rightarrow>
          if dbPath = [] \<or> sessionID = [] \<or> path_base dbPath \<noteq> ''threads.db'' \<or> \<not> IsValidSessionID sessionID then None
          else Some (dbPath, sessionID))"

definition isUnder :: "string \<Rightarrow> string \<Rightarrow> string option" where
  "isUnder dir path =
     (let d = clean_parts (is_rooted dir) (split_byte slash dir); p = clean_parts (is_rooted path) (split_byte slash path)
      in if is_rooted dir \<noteq> is_rooted path \<or> take (length d) p \<noteq> d then None
         else (case drop (length d) p of
                 [] \<Rightarrow> None
               | c # cs \<Rightarrow> if c = ''..'' then None else Some (str_join [slash] (c # cs))))"

definition shouldCacheSkip :: "('g, 'f) EngineEnv \<Rightarrow> DiscoveredFile \<Rightarrow> bool" where
  "shouldCacheSkip ev file =
     (let path = df_Path file; agent = df_Agent file in
      if agent = ''kiro'' \<and> (path_base path = ''data.sqlite3'' \<or> ParseKiroSQLiteVirtualPath path \<noteq> None) then False
      else if agent = ''zed'' \<and> (path_base path = ''threads.db'' \<or> ParseZedSQLiteVirtualPath path \<noteq> None) then False
      else if agent = ''kilo'' \<and> (path_base path = ''kilo.db'' \<or> parseSQLiteVirtualPath path ''kilo.db'' \<noteq> None) then False
      else if agent \<noteq> ''opencode'' then True
      else if path_base path = ''opencode.db'' \<or> parseSQLiteVirtualPath path ''opencode.db'' \<noteq> None then False
      else (case find (\<lambda>dir. dir \<noteq> [] \<and> ev_opencodeStorage ev dir \<and> isUnder dir path \<noteq> None) (ev_opencodeDirs ev) of
              None \<Rightarrow> True
            | Some dir \<Rightarrow> \<not> has_prefix (the (isUnder dir path)) ''storage/session/''))"

section \<open>Which files are skipped\<close>

definition shouldSkipFile :: "('g, 'f) EngineEnv \<Rightarrow> ('g, 'f) SessionDB \<Rightarrow> string \<Rightarrow> FileStat \<Rightarrow> bool" where
  "shouldSkipFile ev st sessionID info =
     (let fullID = ev_idPrefix ev @ sessionID in
      case GetSessionFileInfo st fullID of
        None \<Rightarrow> False
      | Some (storedSize, storedMtime) \<Rightarrow>
          if storedSize \<noteq> fs_Size info \<or> storedMtime \<noteq> fs_Mtime info then False
          else \<not> GetSessionDataVersion st fullID < ev_dataVersion ev)"

definition claudeContentChanged :: "('g, 'f) EngineEnv \<Rightarrow> ('g, 'f) SessionDB \<Rightarrow> string \<Rightarrow> string \<Rightarrow> int \<Rightarrow> bool" where
  "claudeContentChanged ev st fullID path n =
     (let storedHash = GetSessionFileHash st fullID in
      if storedHash = [] then False
      else (case ev_prefixHash ev path n of None \<Rightarrow> False | Some currentHash \<Rightarrow> currentHash \<noteq> storedHash))"

definition NeedsProjectReparse :: "string \<Rightarrow> bool" where
  "NeedsProjectReparse project \<longleftrightarrow>
     list_ex (has_prefix project) [''_Users'', ''_home'', ''_private'', ''_tmp'', ''_var''] \<or>
     str_contains project ''_var_folders_'' \<or> str_contains project ''_var_tmp_''"

text \<open>The project of a session that is not in the trash.\<close>

definition stored_project :: "('g, 'f) SessionDB \<Rightarrow> string \<Rightarrow> string" where
  "stored_project st sid =
     (case map_of (db_rows st) sid of Some r \<Rightarrow> if sr_Deleted r then [] else sx_Project r | None \<Rightarrow> [])"

definition project_known :: "('g, 'f) SessionDB \<Rightarrow> string \<Rightarrow> bool" where
  "project_known st sid \<longleftrightarrow> stored_project st sid \<noteq> [] \<and> \<not> NeedsProjectReparse (stored_project st sid)"

definition includeCWD :: "('g, 'f) EngineEnv \<Rightarrow> string \<Rightarrow> bool" where
  "includeCWD ev cwd =
     (if ev_cwdPrefixes ev = [] \<or> TrimSpace cwd = [] then True
      else let cleaned = path_clean (TrimSpace cwd) in
        list_ex (\<lambda>prefix. cleaned = prefix \<or> isUnder prefix cleaned \<noteq> None) (ev_cwdPrefixes ev))"

definition normalizeCWDPrefixes :: "string list \<Rightarrow> string list" where
  "normalizeCWDPrefixes ps =
     rev (remdups (rev (map path_clean (filter (\<lambda>p. p \<noteq> []) (map TrimSpace ps)))))"

definition logical_path :: "('g, 'f) EngineEnv \<Rightarrow> string \<Rightarrow> string" where
  "logical_path ev path = (case ev_pathRewriter ev of Some f \<Rightarrow> f path | None \<Rightarrow> path)"

definition staleClaudeSourceSessionIDs :: "('g, 'f) EngineEnv \<Rightarrow> ('g, 'f) SessionDB \<Rightarrow> string \<Rightarrow> SourceResult list \<Rightarrow> string list" where
  "staleClaudeSourceSessionIDs ev st path results =
     filter (\<lambda>sid. sid \<notin> set (map (\<lambda>r. ev_idPrefix ev @ ps_ID (pr_Session r)) results))
       (SessionIDsByFilePath (case ev_archive ev of Some archive \<Rightarrow> archive | None \<Rightarrow> st) (logical_path ev path))"

section \<open>Reading a Claude file\<close>

text \<open>What the engine adds to the results: identity and hash of the file, relationship, no usage events.\<close>

definition stamp_file :: "FileStat \<Rightarrow> string option \<Rightarrow> ParseResult \<Rightarrow> SourceResult" where
  "stamp_file info hash r =
     \<lparr>pr_Session = pr_Session r, pr_Messages = pr_Messages r, pr_Inode = fs_Inode info, pr_Device = fs_Device info, pr_Hash = or_empty hash, pr_UsageEvents = []\<rparr>"

definition processClaude :: "('g, 'f) EngineEnv \<Rightarrow> ('g, 'f) SessionDB \<Rightarrow> DiscoveredFile \<Rightarrow> FileStat \<Rightarrow> bool \<Rightarrow> processed" where
  "processClaude ev st file info auditSameStat =
     (let sessionID = trim_suffix (path_base (df_Path file)) ''.jsonl'';
          fullID = ev_idPrefix ev @ sessionID;
          statMatches = shouldSkipFile ev st sessionID info;
          contentChanged = (statMatches \<and> auditSameStat \<and> claudeContentChanged ev st fullID (df_Path file) (fs_Size info))
      in if statMatches \<and> \<not> contentChanged \<and> project_known st fullID then zero_processed\<lparr>pd_skip := True\<rparr>
         else (case tryIncrementalJSONL (ev_conv ev) (ev_dataVersion ev) (ev_prefixHash ev (df_Path file))
                  (map (SessionRow.truncate \<circ> snd) (db_rows st)) (logical_path ev (df_Path file)) True info
                  (ev_readFrom ev (df_Path file)) of
                 (r, True) \<Rightarrow> zero_processed\<lparr>pd_skip := px_skip r, pd_incremental := px_incremental r\<rparr>
               | (r, False) \<Rightarrow>
                   let project = ev_projectName ev (df_Project file);
                       (cwd, gitBranch) = ev_hints ev (df_Path file);
                       project = (if cwd \<noteq> [] \<and> ev_cwdProject ev cwd gitBranch \<noteq> [] then ev_cwdProject ev cwd gitBranch
                                  else project)
                   in (case ev_readFull ev (df_Path file) project of
                         Inl e \<Rightarrow> zero_processed\<lparr>pd_err := True\<rparr>
                       | Inr (parsed, excludedIDs) \<Rightarrow>
                           let results = map (stamp_file info (ev_hash ev (df_Path file))) (InferRelationshipTypes parsed);
                               cwdExcluded = length (filter (\<lambda>r. \<not> includeCWD ev (ps_Cwd (pr_Session r))) results);
                               cwdExcluded = (if cwdExcluded = 0 \<and> results = [] \<and> excludedIDs \<noteq> [] \<and> cwd \<noteq> [] \<and> \<not> includeCWD ev cwd
                                              then length excludedIDs else cwdExcluded);
                               staleIDs = staleClaudeSourceSessionIDs ev st (df_Path file) results
                           in zero_processed\<lparr>pd_results := results, pd_excludedSessionIDs := excludedIDs,
                                pd_cwdExcluded := cwdExcluded, pd_forceReplace := True, pd_staleSessionIDs := staleIDs,
                                pd_sourceSnapshot := (length results > 1 \<or> staleIDs \<noteq> [] \<or> excludedIDs \<noteq> [])\<rparr>)))"

definition processFileWithPolicy :: "('g, 'f) EngineEnv \<Rightarrow> ('g, 'f) Engine \<Rightarrow> DiscoveredFile \<Rightarrow> bool \<Rightarrow> processed" where
  "processFileWithPolicy ev eg file auditSameStat =
     (case ev_stat ev (df_Path file) of
        None \<Rightarrow> zero_processed\<lparr>pd_err := True\<rparr>
      | Some info \<Rightarrow>
          let mtime = fs_Mtime info; cache = shouldCacheSkip ev file in
          if cache \<and> map_of (eg_skipCache eg) (df_Path file) = Some mtime
          then zero_processed\<lparr>pd_skip := True, pd_mtime := mtime, pd_cacheSkip := True\<rparr>
          else (if df_Agent file = ''claude'' then processClaude ev (eg_db eg) file info auditSameStat
                else ev_process ev file info)\<lparr>pd_cacheSkip := cache, pd_mtime := mtime\<rparr>)"

end
