(* ===== verification/Sync_Write.thy ===== *)
theory Sync_Write
  imports Sync_Source
begin

text \<open>
  The writing side of the sync engine (\<open>internal/sync/engine.go\<close>): how the results of a file become rows, the
  two ways of writing a batch, the snapshot of a source, the collection of the results of a pass, and the sync of
  a single session, over the state and the environment of \<^theory_text>\<open>Sync_Source\<close>.
\<close>

section \<open>From results to rows\<close>

record pendingWrite =
  pw_result :: SourceResult
  pw_needsRetry :: bool
  pw_forceReplace :: bool

datatype skip_reason = sessionWritePreserved | sessionWriteCWDExcluded

definition dataVersionForWrite :: "('g, 'f) EngineEnv \<Rightarrow> pendingWrite \<Rightarrow> int" where
  "dataVersionForWrite ev pw =
     (if \<not> pw_needsRetry pw then ev_dataVersion ev
      else let v = ev_dataVersion ev - 1 in if v < 0 then 0 else v)"

definition strPtr :: "string \<Rightarrow> string option" where
  "strPtr s = (if s = [] then None else Some s)"

definition int64Ptr :: "int \<Rightarrow> int option" where
  "int64Ptr n = (if n = 0 then None else Some n)"

definition time_ptr :: "('g, 'f) EngineEnv \<Rightarrow> time \<Rightarrow> string option" where
  "time_ptr ev t = (if IsZero t then None else Some (cv_format (ev_conv ev) t))"

definition toDBSession :: "('g, 'f) EngineEnv \<Rightarrow> SourceResult \<Rightarrow> DbSession" where
  "toDBSession ev r =
     (let s = pr_Session r; (hasTotal, hasPeak) = TokenCoverage (cv_keys (ev_conv ev)) s (pr_Messages r) in
      \<lparr>s_Project = ps_Project s, s_Machine = ps_Machine s, s_Agent = ps_Agent s, s_Cwd = ps_Cwd s,
       s_GitBranch = ps_GitBranch s, s_SourceSessionID = ps_SourceSessionID s, s_SourceVersion = ps_SourceVersion s,
       s_FirstMessage = strPtr (ps_FirstMessage s), s_SessionName = strPtr (ps_SessionName s),
       s_TerminationStatus = strPtr (ps_TerminationStatus s), s_StartedAt = time_ptr ev (ps_StartedAt s),
       s_EndedAt = time_ptr ev (ps_EndedAt s), ds_ID = ps_ID s, ds_MessageCount = int (ps_MessageCount s),
       ds_UserMessageCount = int (ps_UserMessageCount s), ds_ParentSessionID = strPtr (ps_ParentSessionID s),
       ds_RelationshipType = ps_RelationshipType s, ds_TotalOutputTokens = ps_TotalOutputTokens s,
       ds_PeakContextTokens = ps_PeakContextTokens s, ds_HasTotalOutputTokens = hasTotal, ds_HasPeakContextTokens = hasPeak,
       ds_IsAutomated = False, ds_ParserMalformedLines = ps_MalformedLines s, ds_IsTruncated = ps_IsTruncated s,
       ds_FilePath = strPtr (fi_Path (ps_File s)), ds_FileSize = int64Ptr (fi_Size (ps_File s)),
       ds_FileMtime = int64Ptr (fi_Mtime (ps_File s)), ds_FileInode = int64Ptr (pr_Inode r),
       ds_FileDevice = int64Ptr (pr_Device r), ds_FileHash = strPtr (pr_Hash r)\<rparr>)"

definition toDBUsageEventsRaw :: "string \<Rightarrow> ParsedUsage list \<Rightarrow> UsageEvent list" where
  "toDBUsageEventsRaw sessionID events =
     map (\<lambda>ev. \<lparr>ue_ID = 0, ue_SessionID = sessionID, ue_MessageOrdinal = pu_MessageOrdinal ev, ue_Source = pu_Source ev,
       ue_Model = pu_Model ev, ue_InputTokens = pu_InputTokens ev, ue_OutputTokens = pu_OutputTokens ev,
       ue_CacheCreationInputTokens = pu_CacheCreationInputTokens ev, ue_CacheReadInputTokens = pu_CacheReadInputTokens ev,
       ue_ReasoningTokens = pu_ReasoningTokens ev, ue_CostUSD = pu_CostUSD ev, ue_CostStatus = pu_CostStatus ev,
       ue_CostSource = pu_CostSource ev, ue_OccurredAt = pu_OccurredAt ev, ue_DedupKey = pu_DedupKey ev\<rparr>) events"

text \<open>\<open>applyRemoteRewrites\<close>: ids get the prefix of the host, also where they are referred to; the path is rewritten.\<close>

definition prefixed :: "string \<Rightarrow> string \<Rightarrow> string" where
  "prefixed p sid = (if sid = [] then [] else p @ sid)"

definition rewrite_call :: "string \<Rightarrow> string \<Rightarrow> ToolCall \<Rightarrow> ToolCall" where
  "rewrite_call p sid tc =
     tc\<lparr>tc_SessionID := sid, tc_SubagentSessionID := prefixed p (tc_SubagentSessionID tc),
        tc_ResultEvents := map (\<lambda>re. re\<lparr>tre_SubagentSessionID := prefixed p (tre_SubagentSessionID re)\<rparr>) (tc_ResultEvents tc)\<rparr>"

definition applyRemoteRewrites :: "('g, 'f) EngineEnv \<Rightarrow> DbSession \<Rightarrow> Message list \<Rightarrow> DbSession \<times> Message list" where
  "applyRemoteRewrites ev s msgs =
     (let p = ev_idPrefix ev in
      if p = [] then (s, msgs)
      else let sid = p @ ds_ID s in
        (s\<lparr>ds_ID := sid, ds_ParentSessionID := map_option (prefixed p) (ds_ParentSessionID s),
           ds_FilePath := map_option (logical_path ev) (ds_FilePath s)\<rparr>,
         map (\<lambda>m. m\<lparr>m_SessionID := sid, m_ToolCalls := map (rewrite_call p sid) (m_ToolCalls m)\<rparr>) msgs))"

definition validate_rows ::
  "(string \<Rightarrow> int option) \<Rightarrow> DbSession \<Rightarrow> Message list \<Rightarrow> UsageEvent list \<Rightarrow> DbSession \<times> Message list \<times> UsageEvent list" where
  "validate_rows py s msgs events =
     (sanitize_session py s, map (\<lambda>m. fst (SanitizeMessage py m)) msgs, map (\<lambda>ev. fst (SanitizeUsageEvent py ev)) events)"

definition prepareSessionWrite ::
  "('g, 'f) EngineEnv \<Rightarrow> pendingWrite \<Rightarrow> skip_reason + DbSession \<times> Message list \<times> UsageEvent list" where
  "prepareSessionWrite ev pw =
     (let r = pw_result pw;
          msgs = toDBMessages (ev_conv ev) (ps_ID (pr_Session r)) (pr_Messages r);
          s = toDBSession ev r;
          s = s\<lparr>ds_MessageCount := fst (postFilterCounts msgs), ds_UserMessageCount := snd (postFilterCounts msgs)\<rparr>;
          (s, msgs) = applyRemoteRewrites ev s msgs;
          usageEvents = toDBUsageEventsRaw (ds_ID s) (pr_UsageEvents r);
          s = (if s_Cwd s \<noteq> [] then (case ev_worktree ev (s_Machine s) (s_Cwd s) (s_Project s) of
                 Some mapped \<Rightarrow> s\<lparr>s_Project := mapped\<rparr> | None \<Rightarrow> s) else s);
          (s, msgs, usageEvents) = validate_rows (ev_year ev) s msgs usageEvents;
          source = ps_AggregateTokenSource (pr_Session r);
          s = (if source = ''messages'' then set_totals (messageTokenTotals msgs) s
               else if source = ''usage_events''
               then set_totals (usageEventTokenTotals (map ParsedUsageEvent.truncate (pr_UsageEvents r)) True) s else s)
      in if \<not> includeCWD ev (s_Cwd s) then Inl sessionWriteCWDExcluded
         else let s = s\<lparr>ds_IsAutomated := sessionIsAutomated (ev_automation ev) s\<rparr> in
           if ps_Agent (pr_Session r) = ''opencode'' \<and> ev_preserve ev s msgs then Inl sessionWritePreserved
           else Inr (s, msgs, usageEvents))"

section \<open>Writing a batch\<close>

record WriteCounts =
  wc_sessions :: nat
  wc_messages :: nat
  wc_failed :: nat
  wc_skipped :: nat
  wc_cwdExcluded :: nat

definition no_counts :: WriteCounts where
  "no_counts = \<lparr>wc_sessions = 0, wc_messages = 0, wc_failed = 0, wc_skipped = 0, wc_cwdExcluded = 0\<rparr>"

definition count_skip :: "skip_reason \<Rightarrow> WriteCounts \<Rightarrow> WriteCounts" where
  "count_skip reason c =
     (if reason = sessionWriteCWDExcluded
      then c\<lparr>wc_skipped := wc_skipped c + 1, wc_cwdExcluded := wc_cwdExcluded c + 1\<rparr> else c)"

definition count_failed :: "WriteCounts \<Rightarrow> WriteCounts" where
  "count_failed c = c\<lparr>wc_failed := wc_failed c + 1\<rparr>"

definition on_row :: "string \<Rightarrow> (('g, 'f) StoredRow \<Rightarrow> ('g, 'f) StoredRow option) \<Rightarrow> ('g, 'f) SessionDB \<Rightarrow> ('g, 'f) SessionDB option" where
  "on_row sid f st =
     (case map_of (db_rows st) sid of None \<Rightarrow> None | Some r \<Rightarrow> map_option (\<lambda>r'. put_row sid r' st) (f r))"

text \<open>\<open>writeMessages\<close> over the database: the messages above the highest stored ordinal, in a transaction of their own.\<close>

definition write_messages :: "('g, 'f) EngineEnv \<Rightarrow> string \<Rightarrow> Message list \<Rightarrow> ('g, 'f) SessionDB \<Rightarrow> ('g, 'f) SessionDB option" where
  "write_messages ev sid msgs st =
     on_row sid (\<lambda>r.
       let new = messagesAfterOrdinal msgs (MaxOrdinal (SessionRow.truncate r));
           new = map (\<lambda>m. fst (SanitizeMessage (ev_year ev) m)) new in
       if new = [] then Some r
       else if \<not> ev_ok ev BeginTx [] \<or> \<not> ev_ok ev Commit [] then None
       else (case insert_messages (ev_ok ev) new r of None \<Rightarrow> None | Some r1 \<Rightarrow> bump_revision (ev_ok ev) True r1)) st"

definition ReplaceSessionUsageEvents :: "('g, 'f) EngineEnv \<Rightarrow> string \<Rightarrow> UsageEvent list \<Rightarrow> ('g, 'f) SessionDB \<Rightarrow> ('g, 'f) SessionDB option" where
  "ReplaceSessionUsageEvents ev sid events st =
     (if \<not> ev_ok ev BeginTx [] \<or> \<not> ev_ok ev Commit [] then None
      else on_row sid (replaceSessionUsageEvents (ev_ok ev) (map (\<lambda>e. fst (SanitizeUsageEvent (ev_year ev) e)) events)) st)"

text \<open>Signals and findings written on their own; a failure is only logged.\<close>

definition put_signals :: "('g, 'f) EngineEnv \<Rightarrow> string \<Rightarrow> 'g \<times> 'f \<Rightarrow> ('g, 'f) SessionDB \<Rightarrow> ('g, 'f) SessionDB" where
  "put_signals ev sid gf st =
     (case map_of (db_rows st) sid of
        None \<Rightarrow> st
      | Some r \<Rightarrow>
          let r = (if ev_ok ev UpdateSignals sid then r\<lparr>sx_Signals := Some (fst gf)\<rparr> else r);
              r = (if ev_ok ev ReplaceFindings sid then r\<lparr>sx_Findings := Some (snd gf)\<rparr> else r)
          in put_row sid r st)"

definition replaces_messages :: "bool \<Rightarrow> pendingWrite \<Rightarrow> bool" where
  "replaces_messages forceReplace pw \<longleftrightarrow>
     forceReplace \<or> pw_forceReplace pw \<or> pw_needsRetry pw \<or>
     ps_Agent (pr_Session (pw_result pw)) \<in> {''opencode'', ''antigravity'', ''antigravity-cli''}"

text \<open>The session row is in the database; what remains are its messages, events, version and signals.\<close>

definition write_content ::
  "('g, 'f) EngineEnv \<Rightarrow> pendingWrite \<Rightarrow> bool \<Rightarrow> DbSession \<Rightarrow> Message list \<Rightarrow> UsageEvent list \<Rightarrow> ('g, 'f) SessionDB \<Rightarrow> bool \<times> ('g, 'f) SessionDB"
where
  "write_content ev pw replaceMessages s msgs usageEvents st =
     (let sid = ds_ID s; gf = ev_signals ev s msgs in
      case (if replaceMessages then ReplaceSessionContent (ev_ok ev) (ev_year ev) sid msgs (fst gf) (snd gf) st
            else write_messages ev sid msgs st) of
        None \<Rightarrow> (False, st)
      | Some st1 \<Rightarrow>
     (case ReplaceSessionUsageEvents ev sid usageEvents st1 of
        None \<Rightarrow> (False, st1)
      | Some st2 \<Rightarrow>
          let st3 = (case SetSessionDataVersion (ev_ok ev) sid (dataVersionForWrite ev pw) st2 of Some x \<Rightarrow> x | None \<Rightarrow> st2)
          in (True, if replaceMessages then st3 else put_signals ev sid gf st3)))"

definition write_one ::
  "('g, 'f) EngineEnv \<Rightarrow> bool \<Rightarrow> pendingWrite \<Rightarrow> WriteCounts \<times> ('g, 'f) Engine \<Rightarrow> WriteCounts \<times> ('g, 'f) Engine" where
  "write_one ev forceReplace pw acc =
     (case acc of (c, eg) \<Rightarrow>
        (case prepareSessionWrite ev pw of
           Inl reason \<Rightarrow> (count_skip reason c, eg)
         | Inr (s, msgs, usageEvents) \<Rightarrow>
             let existing = GetSessionDataVersion (eg_db eg) (ds_ID s);
                 stale = (existing > 0 \<and> existing < ev_dataVersion ev)
             in (case UpsertSession (ev_ok ev) (ev_automation ev) (ev_year ev) s (eg_db eg) of
                   Inl e \<Rightarrow>
                     if e = StatementFailed then (count_failed c, eg)
                     else let f = ps_File (pr_Session (pw_result pw)) in
                       (c, if fi_Path f \<noteq> [] then cacheSkip (fi_Path f) (fi_Mtime f) eg else eg)
                 | Inr st1 \<Rightarrow>
                     (case write_content ev pw (replaces_messages forceReplace pw \<or> stale) s msgs usageEvents st1 of
                        (True, st2) \<Rightarrow>
                          (c\<lparr>wc_sessions := wc_sessions c + 1, wc_messages := wc_messages c + length msgs\<rparr>, eg\<lparr>eg_db := st2\<rparr>)
                      | (False, st2) \<Rightarrow> (count_failed c, eg\<lparr>eg_db := st2\<rparr>)))))"

text \<open>The batch of a rebuild: one transaction.\<close>

definition batch_write ::
  "('g, 'f) EngineEnv \<Rightarrow> bool \<Rightarrow> pendingWrite \<Rightarrow> DbSession \<Rightarrow> Message list \<Rightarrow> UsageEvent list \<Rightarrow> ('g, 'f) SessionBatchWrite" where
  "batch_write ev replaceMessages pw s msgs usageEvents =
     \<lparr>bw_Session = s, bw_Messages = msgs, bw_UsageEvents = usageEvents, bw_Signals = fst (ev_signals ev s msgs),
      bw_Findings = snd (ev_signals ev s msgs), bw_DataVersion = dataVersionForWrite ev pw,
      bw_ReplaceMessages = replaceMessages,
      bw_TokenAggregateSource = ps_AggregateTokenSource (pr_Session (pw_result pw))\<rparr>"


definition bulk_replaces :: "bool \<Rightarrow> pendingWrite \<Rightarrow> bool" where
  "bulk_replaces forceReplace pw \<longleftrightarrow>
     replaces_messages forceReplace pw \<or> ps_Agent (pr_Session (pw_result pw)) = ''kilo''"

fun bulk_writes ::
  "('g, 'f) EngineEnv \<Rightarrow> bool \<Rightarrow> pendingWrite list \<Rightarrow> WriteCounts \<Rightarrow>
   WriteCounts \<times> ('g, 'f) SessionBatchWrite list \<times> (string, string \<times> int) gomap" where
  "bulk_writes ev forceReplace [] c = (c, [], [])"
| "bulk_writes ev forceReplace (pw # pws) c =
     (case prepareSessionWrite ev pw of
        Inl reason \<Rightarrow> bulk_writes ev forceReplace pws (count_skip reason c)
      | Inr (s, msgs, usageEvents) \<Rightarrow>
          (case bulk_writes ev forceReplace pws c of
             (c', ws, sources) \<Rightarrow>
               let f = ps_File (pr_Session (pw_result pw)) in
               (c', batch_write ev (bulk_replaces forceReplace pw) pw s msgs usageEvents # ws,
                if fi_Path f \<noteq> [] \<and> map_of sources (ds_ID s) = None
                then (ds_ID s, (fi_Path f, fi_Mtime f)) # sources else sources)))"

definition writeBatchBulk ::
  "('g, 'f) EngineEnv \<Rightarrow> bool \<Rightarrow> pendingWrite list \<Rightarrow> ('g, 'f) Engine \<Rightarrow> WriteCounts \<times> ('g, 'f) Engine" where
  "writeBatchBulk ev forceReplace batch eg =
     (case bulk_writes ev forceReplace batch no_counts of
        (c, writes, sources) \<Rightarrow>
          if writes = [] then (c, eg)
          else (case WriteSessionBatch (ev_ok ev) (ev_automation ev) (ev_year ev) writes (eg_db eg) of
                  (res, False, st) \<Rightarrow> (c\<lparr>wc_failed := length writes\<rparr>, eg)
                | (res, True, st) \<Rightarrow>
                    (c\<lparr>wc_sessions := br_WrittenSessions res, wc_messages := br_WrittenMessages res,
                       wc_failed := br_FailedSessions res\<rparr>,
                     fold (\<lambda>sid eg. case map_of sources sid of Some (path, mtime) \<Rightarrow> cacheSkip path mtime eg | None \<Rightarrow> eg)
                       (br_ExcludedIDs res) (eg\<lparr>eg_db := st\<rparr>))))"

definition writeBatch ::
  "('g, 'f) EngineEnv \<Rightarrow> bool \<Rightarrow> bool \<Rightarrow> pendingWrite list \<Rightarrow> ('g, 'f) Engine \<Rightarrow> WriteCounts \<times> ('g, 'f) Engine" where
  "writeBatch ev bulk forceReplace batch eg =
     (if bulk then writeBatchBulk ev forceReplace batch eg else fold (write_one ev forceReplace) batch (no_counts, eg))"

section \<open>The snapshot of a source\<close>

definition snapshot_write :: "bool \<Rightarrow> SourceResult \<Rightarrow> pendingWrite" where
  "snapshot_write needsRetry r = \<lparr>pw_result = r, pw_needsRetry = needsRetry, pw_forceReplace = True\<rparr>"

definition snapshot_prepared ::
  "('g, 'f) EngineEnv \<Rightarrow> bool \<Rightarrow> SourceResult list \<Rightarrow> ('g, 'f) SessionBatchWrite list \<times> nat" where
  "snapshot_prepared ev needsRetry results =
     (List.map_filter (\<lambda>r. case prepareSessionWrite ev (snapshot_write needsRetry r) of
          Inl _ \<Rightarrow> None
        | Inr (s, msgs, events) \<Rightarrow> Some (batch_write ev True (snapshot_write needsRetry r) s msgs events)) results,
      length (filter (\<lambda>r. prepareSessionWrite ev (snapshot_write needsRetry r) = Inl sessionWriteCWDExcluded) results))"

definition writeSourceSnapshot ::
  "('g, 'f) EngineEnv \<Rightarrow> SourceResult list \<Rightarrow> string list \<Rightarrow> string list \<Rightarrow> bool \<Rightarrow> nat \<Rightarrow> ('g, 'f) Engine \<Rightarrow>
   WriteCounts \<times> ('g, 'f) Engine" where
  "writeSourceSnapshot ev results staleIDs parserExcludedIDs needsRetry sourceCWDExcluded eg =
     (case snapshot_prepared ev needsRetry results of
        (writes, excluded) \<Rightarrow>
          let c = no_counts\<lparr>wc_skipped := excluded, wc_cwdExcluded := excluded\<rparr>;
              keep = (excluded > 0 \<or> sourceCWDExcluded > 0) in
          (case WriteSessionSnapshot (ev_ok ev) (ev_automation ev) (ev_year ev) writes
                  (if keep then [] else staleIDs) (if keep then [] else parserExcludedIDs) (eg_db eg) of
             (res, False, st) \<Rightarrow>
               (c\<lparr>wc_failed := (if br_FailedSessions res = 0 then max (length writes) 1 else br_FailedSessions res)\<rparr>, eg)
           | (res, True, st) \<Rightarrow>
               (c\<lparr>wc_sessions := br_WrittenSessions res, wc_messages := br_WrittenMessages res\<rparr>, eg\<lparr>eg_db := st\<rparr>)))"

section \<open>Collecting the results of a pass\<close>

record SyncStats =
  sy_TotalSessions :: nat
  sy_Synced :: nat
  sy_Skipped :: nat
  sy_Failed :: nat
  sy_filesOK :: nat
  sy_messagesIndexed :: nat
  sy_parserExcludedFiles :: nat
  sy_parserExcludedIDs :: "string list"
  sy_cwdExcludedFiles :: nat
  sy_cwdExcludedSessions :: nat

definition batchSize :: nat where "batchSize = 100"

definition applyIDPrefixToSessionIDs :: "('g, 'f) EngineEnv \<Rightarrow> string list \<Rightarrow> string list" where
  "applyIDPrefixToSessionIDs ev sids =
     (let p = ev_idPrefix ev in
      if p = [] \<or> sids = [] then sids
      else map (\<lambda>sid. if sid = [] \<or> has_prefix sid p then sid else p @ sid) sids)"

definition mergeUniqueStrings :: "string list \<Rightarrow> string list \<Rightarrow> string list" where
  "mergeUniqueStrings a b = rev (remdups (rev (filter (\<lambda>v. v \<noteq> []) (a @ b))))"

text \<open>What a written batch adds to the statistics.\<close>

definition add_counts :: "WriteCounts \<Rightarrow> SyncStats \<Rightarrow> SyncStats" where
  "add_counts c s =
     s\<lparr>sy_Synced := sy_Synced s + wc_sessions c, sy_Failed := sy_Failed s + wc_failed c,
       sy_Skipped := sy_Skipped s + wc_skipped c, sy_cwdExcludedSessions := sy_cwdExcludedSessions s + wc_cwdExcluded c,
       sy_messagesIndexed := sy_messagesIndexed s + wc_messages c\<rparr>"

record ('g, 'f) Pass =
  ps_stats :: SyncStats
  ps_pending :: "pendingWrite list"
  ps_engine :: "('g, 'f) Engine"

text \<open>The pending writes go out.\<close>

definition flush_pending :: "('g, 'f) EngineEnv \<Rightarrow> bool \<Rightarrow> ('g, 'f) Pass \<Rightarrow> ('g, 'f) Pass" where
  "flush_pending ev bulk p =
     (if ps_pending p = [] then p
      else (case writeBatch ev bulk False (ps_pending p) (ps_engine p) of
              (c, eg) \<Rightarrow>
                let s = add_counts c (ps_stats p) in
                \<lparr>ps_stats = s\<lparr>sy_cwdExcludedFiles := sy_cwdExcludedFiles s + wc_cwdExcluded c\<rparr>,
                 ps_pending = [], ps_engine = eg\<rparr>))"

text \<open>A file without results: it was excluded, or held nothing; it is not read again until it changes.\<close>

definition collect_empty :: "string \<Rightarrow> processed \<Rightarrow> ('g, 'f) Pass \<Rightarrow> ('g, 'f) Pass" where
  "collect_empty path r p =
     (let s = ps_stats p;
          s = (if pd_cwdExcluded r > 0 then s\<lparr>sy_Skipped := sy_Skipped s + 1, sy_cwdExcludedFiles := sy_cwdExcludedFiles s + 1,
                 sy_cwdExcludedSessions := sy_cwdExcludedSessions s + pd_cwdExcluded r\<rparr> else s);
          s = (if pd_excludedSessionIDs r \<noteq> [] \<or> pd_cwdExcluded r > 0
               then s\<lparr>sy_filesOK := sy_filesOK s + 1,
                      sy_parserExcludedFiles := sy_parserExcludedFiles s + (if pd_cwdExcluded r = 0 then 1 else 0)\<rparr>
               else s)
      in p\<lparr>ps_stats := s, ps_engine := (if pd_cacheSkip r then cacheSkip path (pd_mtime r) (ps_engine p) else ps_engine p)\<rparr>)"

definition collect_snapshot :: "('g, 'f) EngineEnv \<Rightarrow> bool \<Rightarrow> processed \<Rightarrow> string list \<Rightarrow> ('g, 'f) Pass \<Rightarrow> ('g, 'f) Pass" where
  "collect_snapshot ev bulk r excluded p0 =
     (let p = flush_pending ev bulk p0 in
      case writeSourceSnapshot ev (pd_results r) (pd_staleSessionIDs r) excluded (pd_needsRetry r) (pd_cwdExcluded r) (ps_engine p) of
        (c, eg) \<Rightarrow>
          let s = add_counts c (ps_stats p);
              delta = pd_cwdExcluded r - wc_cwdExcluded c;
              cwd = (wc_cwdExcluded c > 0 \<or> pd_cwdExcluded r > 0);
              s = (if wc_failed c = 0 then
                     s\<lparr>sy_Skipped := sy_Skipped s + delta, sy_cwdExcludedSessions := sy_cwdExcludedSessions s + delta,
                       sy_cwdExcludedFiles := sy_cwdExcludedFiles s + (if cwd then 1 else 0),
                       sy_parserExcludedFiles := sy_parserExcludedFiles s +
                         (if pd_results r = [] \<and> excluded \<noteq> [] \<and> \<not> cwd then 1 else 0),
                       sy_parserExcludedIDs := sy_parserExcludedIDs s @
                         (if cwd then [] else mergeUniqueStrings (pd_staleSessionIDs r) excluded)\<rparr>
                   else s)
          in p\<lparr>ps_stats := s, ps_engine := eg\<rparr>)"

text \<open>The session of a row, as it is read back for its signals.\<close>

definition session_of_row :: "('g, 'f) StoredRow \<Rightarrow> DbSession" where
  "session_of_row r =
     \<lparr>s_Project = sx_Project r, s_Machine = sx_Machine r, s_Agent = sx_Agent r, s_Cwd = or_empty (sr_Cwd r),
      s_GitBranch = sx_GitBranch r, s_SourceSessionID = sx_SourceSessionID r, s_SourceVersion = sx_SourceVersion r,
      s_FirstMessage = sr_FirstMessage r, s_SessionName = sx_SessionName r, s_TerminationStatus = sr_TerminationStatus r,
      s_StartedAt = sx_StartedAt r, s_EndedAt = sr_EndedAt r, ds_ID = sr_ID r, ds_MessageCount = sr_MessageCount r,
      ds_UserMessageCount = sr_UserMessageCount r, ds_ParentSessionID = sx_ParentSessionID r,
      ds_RelationshipType = sx_RelationshipType r, ds_TotalOutputTokens = sr_TotalOutputTokens r,
      ds_PeakContextTokens = sr_PeakContextTokens r, ds_HasTotalOutputTokens = sr_HasTotalOutputTokens r,
      ds_HasPeakContextTokens = sr_HasPeakContextTokens r, ds_IsAutomated = sr_IsAutomated r,
      ds_ParserMalformedLines = sx_ParserMalformedLines r, ds_IsTruncated = sx_IsTruncated r,
      ds_FilePath = sr_FilePath r, ds_FileSize = sr_FileSize r, ds_FileMtime = sr_FileMtime r,
      ds_FileInode = sr_FileInode r, ds_FileDevice = sr_FileDevice r, ds_FileHash = strPtr (sr_FileHash r)\<rparr>"

definition applyWorktreeMapping :: "('g, 'f) EngineEnv \<Rightarrow> string \<Rightarrow> ('g, 'f) SessionDB \<Rightarrow> ('g, 'f) SessionDB option" where
  "applyWorktreeMapping ev sid st =
     (case map_of (db_rows st) sid of
        None \<Rightarrow> Some st
      | Some r \<Rightarrow>
          if sr_Deleted r \<or> or_empty (sr_Cwd r) = [] then Some st
          else if \<not> ev_mapping_ok ev sid then None
          else (case ev_worktree ev (if sx_Machine r = [] then ev_machine ev else sx_Machine r) (or_empty (sr_Cwd r)) (sx_Project r) of
                  None \<Rightarrow> Some st
                | Some mapped \<Rightarrow> Some (put_row sid (r\<lparr>sx_Project := mapped\<rparr>) st)))"

definition recomputeSignals :: "('g, 'f) EngineEnv \<Rightarrow> string \<Rightarrow> ('g, 'f) SessionDB \<Rightarrow> ('g, 'f) SessionDB" where
  "recomputeSignals ev sid st =
     (case map_of (db_rows st) sid of
        None \<Rightarrow> st
      | Some r \<Rightarrow>
          if \<not> ev_ok ev UpdateSignals sid then st
          else put_signals ev sid (ev_signals ev (session_of_row r) (sr_Messages r)) st)"

definition engine_writeIncremental :: "('g, 'f) EngineEnv \<Rightarrow> incrementalUpdate \<Rightarrow> ('g, 'f) Engine \<Rightarrow> bool \<times> ('g, 'f) Engine" where
  "engine_writeIncremental ev inc eg =
     (let sid = iu_sessionID inc in
      case map_of (db_rows (eg_db eg)) sid of
        None \<Rightarrow> (False, eg)
      | Some r \<Rightarrow>
          (case writeIncremental (ev_conv ev) (ev_automation ev) (ev_year ev) (\<lambda>_. ev_ok ev InsertMessages sid)
                  (ev_update_ok ev sid) (SessionRow.truncate r) inc of
             (r', good) \<Rightarrow>
               let st = put_row sid (SessionRow.extend r' (SessionRow.more r)) (eg_db eg) in
               if \<not> good then (False, eg\<lparr>eg_db := st\<rparr>)
               else (case applyWorktreeMapping ev sid st of
                       None \<Rightarrow> (False, eg\<lparr>eg_db := st\<rparr>)
                     | Some st1 \<Rightarrow> (True, eg\<lparr>eg_db := recomputeSignals ev sid st1\<rparr>))))"

text \<open>A file with results: a snapshot, appended messages, or sessions for the next batch.\<close>

definition collect_results ::
  "('g, 'f) EngineEnv \<Rightarrow> bool \<Rightarrow> string \<Rightarrow> processed \<Rightarrow> string list \<Rightarrow> ('g, 'f) Pass \<Rightarrow> ('g, 'f) Pass" where
  "collect_results ev bulk path r excluded p0 =
     (let p = p0\<lparr>ps_engine := (if pd_cacheSkip r then clearSkip path (ps_engine p0) else ps_engine p0),
            ps_stats := (ps_stats p0)\<lparr>sy_filesOK := sy_filesOK (ps_stats p0) + 1\<rparr>\<rparr>;
          p1 = (if pd_sourceSnapshot r then collect_snapshot ev bulk r excluded p
                else (case pd_incremental r of
                        Some inc \<Rightarrow>
                          (case engine_writeIncremental ev inc (ps_engine p) of
                             (False, eg) \<Rightarrow> p\<lparr>ps_engine := eg, ps_stats := (ps_stats p)\<lparr>sy_Failed := sy_Failed (ps_stats p) + 1\<rparr>\<rparr>
                           | (True, eg) \<Rightarrow> p\<lparr>ps_engine := eg, ps_stats := (ps_stats p)\<lparr>sy_Synced := sy_Synced (ps_stats p) + 1,
                               sy_messagesIndexed := sy_messagesIndexed (ps_stats p) + length (iu_msgs inc)\<rparr>\<rparr>)
                      | None \<Rightarrow> p\<lparr>ps_pending := ps_pending p @ map (\<lambda>pr. \<lparr>pw_result = pr, pw_needsRetry = pd_needsRetry r,
                          pw_forceReplace = pd_forceReplace r\<rparr>) (pd_results r)\<rparr>))
      in if length (ps_pending p1) \<ge> batchSize then flush_pending ev bulk p1 else p1)"

definition collect_one :: "('g, 'f) EngineEnv \<Rightarrow> bool \<Rightarrow> string \<times> processed \<Rightarrow> ('g, 'f) Pass \<Rightarrow> ('g, 'f) Pass" where
  "collect_one ev bulk job p =
     (case job of (path, r) \<Rightarrow>
        let s = ps_stats p; excluded = applyIDPrefixToSessionIDs ev (pd_excludedSessionIDs r) in
        if pd_err r then
          p\<lparr>ps_stats := s\<lparr>sy_Failed := sy_Failed s + 1\<rparr>,
            ps_engine := (if pd_cacheSkip r \<and> pd_mtime r \<noteq> 0 then cacheSkip path (pd_mtime r) (ps_engine p) else ps_engine p)\<rparr>
        else if pd_skip r then
          p\<lparr>ps_stats := s\<lparr>sy_Skipped := sy_Skipped s + 1,
             sy_cwdExcludedFiles := sy_cwdExcludedFiles s + (if pd_cwdExcluded r > 0 then 1 else 0),
             sy_cwdExcludedSessions := sy_cwdExcludedSessions s + pd_cwdExcluded r\<rparr>\<rparr>
        else
          (case (if excluded \<noteq> [] \<and> \<not> pd_sourceSnapshot r \<and> pd_cwdExcluded r = 0
                 then (case DeleteParserExcludedSessions (ev_ok ev) excluded (eg_db (ps_engine p)) of
                         None \<Rightarrow> None
                       | Some st \<Rightarrow> Some (p\<lparr>ps_engine := (ps_engine p)\<lparr>eg_db := st\<rparr>,
                           ps_stats := s\<lparr>sy_parserExcludedIDs := sy_parserExcludedIDs s @ excluded\<rparr>\<rparr>))
                 else Some p) of
             None \<Rightarrow> p\<lparr>ps_stats := s\<lparr>sy_Failed := sy_Failed s + 1\<rparr>\<rparr>
           | Some p1 \<Rightarrow>
               if pd_results r = [] \<and> pd_incremental r = None \<and> \<not> pd_sourceSnapshot r then collect_empty path r p1
               else collect_results ev bulk path r excluded p1))"

text \<open>Sessions that a tool call names as its sub-agent become children of the session of the call.\<close>

definition subagent_parent :: "('g, 'f) SessionDB \<Rightarrow> string \<Rightarrow> string option" where
  "subagent_parent st sid =
     map_option fst (find (\<lambda>(k, r). list_ex (\<lambda>m. list_ex (\<lambda>tc. tc_SubagentSessionID tc = sid) (m_ToolCalls m)) (sr_Messages r))
       (db_rows st))"

definition LinkSubagentSessions :: "('g, 'f) EngineEnv \<Rightarrow> ('g, 'f) SessionDB \<Rightarrow> ('g, 'f) SessionDB" where
  "LinkSubagentSessions ev st =
     (if \<not> ev_link_ok ev then st
      else st\<lparr>db_rows := map (\<lambda>(sid, r). (sid,
        if sx_RelationshipType r = ''subagent'' then r
        else (case subagent_parent st sid of
                None \<Rightarrow> r
              | Some p \<Rightarrow> r\<lparr>sx_ParentSessionID := Some p, sx_RelationshipType := ''subagent''\<rparr>))) (db_rows st)\<rparr>)"

text \<open>A pass over all results that was not cancelled.\<close>

definition start_pass :: "nat \<Rightarrow> ('g, 'f) Engine \<Rightarrow> ('g, 'f) Pass" where
  "start_pass n eg =
     \<lparr>ps_stats = \<lparr>sy_TotalSessions = n, sy_Synced = 0, sy_Skipped = 0, sy_Failed = 0, sy_filesOK = 0,
        sy_messagesIndexed = 0, sy_parserExcludedFiles = 0, sy_parserExcludedIDs = [], sy_cwdExcludedFiles = 0,
        sy_cwdExcludedSessions = 0\<rparr>, ps_pending = [], ps_engine = eg\<rparr>"

definition collectAndBatch ::
  "('g, 'f) EngineEnv \<Rightarrow> bool \<Rightarrow> (string \<times> processed) list \<Rightarrow> ('g, 'f) Engine \<Rightarrow> SyncStats \<times> ('g, 'f) Engine"
where
  "collectAndBatch ev bulk results eg =
     (let p = flush_pending ev bulk (fold (collect_one ev bulk) results (start_pass (length results) eg))
      in (ps_stats p, (ps_engine p)\<lparr>eg_db := LinkSubagentSessions ev (eg_db (ps_engine p))\<rparr>))"


section \<open>One session on request\<close>

text \<open>\<open>writeSessionFull\<close>: everything is replaced; whether it failed, and the engine.\<close>

definition writeSessionFull :: "('g, 'f) EngineEnv \<Rightarrow> pendingWrite \<Rightarrow> ('g, 'f) Engine \<Rightarrow> bool \<times> ('g, 'f) Engine" where
  "writeSessionFull ev pw eg =
     (case prepareSessionWrite ev pw of
        Inl _ \<Rightarrow> (True, eg)
      | Inr (s, msgs, usageEvents) \<Rightarrow>
          (case UpsertSession (ev_ok ev) (ev_automation ev) (ev_year ev) s (eg_db eg) of
             Inl e \<Rightarrow>
               if e = StatementFailed then (False, eg)
               else let f = ps_File (pr_Session (pw_result pw)) in
                 (True, if fi_Path f \<noteq> [] then cacheSkip (fi_Path f) (fi_Mtime f) eg else eg)
           | Inr st1 \<Rightarrow>
               (case write_content ev pw True s msgs usageEvents st1 of (good, st2) \<Rightarrow> (good, eg\<lparr>eg_db := st2\<rparr>))))"

fun write_results :: "('g, 'f) EngineEnv \<Rightarrow> bool \<Rightarrow> SourceResult list \<Rightarrow> ('g, 'f) Engine \<Rightarrow> bool \<times> ('g, 'f) Engine" where
  "write_results ev needsRetry [] eg = (True, eg)"
| "write_results ev needsRetry (pr # prs) eg =
     (case writeSessionFull ev \<lparr>pw_result = pr, pw_needsRetry = needsRetry, pw_forceReplace = False\<rparr> eg of
        (False, eg) \<Rightarrow> (False, eg)
      | (True, eg) \<Rightarrow> write_results ev needsRetry prs eg)"

text \<open>
  \<open>SyncSingleSession\<close> for a Claude session whose source is \<open>path\<close> (empty: not found): the project comes from the
  database or from the directory, the skip cache is passed over. The results are written; the stale and the
  excluded sessions of the source are not looked at.
\<close>

definition SyncSingleClaude :: "('g, 'f) EngineEnv \<Rightarrow> string \<Rightarrow> string \<Rightarrow> string \<Rightarrow> ('g, 'f) Engine \<Rightarrow> bool \<times> ('g, 'f) Engine" where
  "SyncSingleClaude ev path parentDir sessionID eg =
     (if path = [] then (False, eg)
      else let file = \<lparr>df_Path = path, df_Project = (if project_known (eg_db eg) sessionID
                  then stored_project (eg_db eg) sessionID else parentDir), df_Agent = ''claude''\<rparr>;
               eg = (if shouldCacheSkip ev file then clearSkip path eg else eg);
               res = processFileWithPolicy ev eg file True
           in if pd_err res then
                (False, if pd_cacheSkip res \<and> pd_mtime res \<noteq> 0 then cacheSkip path (pd_mtime res) eg else eg)
              else if pd_skip res then (True, eg)
              else (case pd_incremental res of
                      Some inc \<Rightarrow> engine_writeIncremental ev inc eg
                    | None \<Rightarrow>
                        if pd_results res = [] then (True, eg)
                        else (case write_results ev (pd_needsRetry res) (pd_results res) eg of
                                (False, eg) \<Rightarrow> (False, eg)
                              | (True, eg) \<Rightarrow> (True, eg\<lparr>eg_db := LinkSubagentSessions ev (eg_db eg)\<rparr>))))"

section \<open>What the user deleted stays deleted\<close>

text \<open>
  From one database to the next: the list of deleted ids is the same, sessions in the trash are still there and
  in the trash, and no deleted id without a row has got one, of those ids that satisfy \<open>P\<close>.
\<close>

definition keeps_deletions :: "(string \<Rightarrow> bool) \<Rightarrow> ('g, 'f) SessionDB \<Rightarrow> ('g, 'f) SessionDB \<Rightarrow> bool" where
  "keeps_deletions P st st' \<longleftrightarrow>
     db_excluded st' = db_excluded st \<and> (\<forall>sid. trashed st sid \<longrightarrow> trashed st' sid) \<and>
     (\<forall>sid \<in> set (db_excluded st). P sid \<and> map_of (db_rows st) sid = None \<longrightarrow> map_of (db_rows st') sid = None)"

text \<open>
  The ids whose deletion a pass cannot overlook: all ids in a rebuild, whose transaction fails when the lookup in
  the list of deleted ids fails, and otherwise those for which this lookup is carried out.
\<close>

definition deletion_seen :: "('g, 'f) EngineEnv \<Rightarrow> bool \<Rightarrow> string \<Rightarrow> bool" where
  "deletion_seen ev bulk sid \<longleftrightarrow> bulk \<or> ev_ok ev CheckExcluded sid"

lemma keeps_refl [simp, intro]: "keeps_deletions P st st"
  by (simp add: keeps_deletions_def)

lemma keeps_trans [trans]: "keeps_deletions P a b \<Longrightarrow> keeps_deletions P b c \<Longrightarrow> keeps_deletions P a c"
  by (auto simp: keeps_deletions_def)

lemma keeps_put:
  assumes "\<And>r0. map_of (db_rows st) sid = Some r0 \<Longrightarrow> sr_Deleted r = sr_Deleted r0"
    "map_of (db_rows st) sid = None \<Longrightarrow> P sid \<Longrightarrow> sid \<notin> set (db_excluded st)"
  shows "keeps_deletions P st (put_row sid r st)"
  using assms by (auto simp: keeps_deletions_def trashed_def split: option.splits)

lemma keeps_upsert:
  assumes "UpsertSession ok cfg py s st = Inr st'" and P: "\<And>sid. P sid \<Longrightarrow> ok CheckExcluded sid"
  shows "keeps_deletions P st st'"
proof -
  have st': "st' = put_row (ds_ID s) (upserted cfg (sanitize_session py s) st) st"
    and n: "ok CheckExcluded (ds_ID s) \<Longrightarrow> ds_ID s \<notin> set (db_excluded st)"
    using assms by (auto simp: UpsertSession_def Let_def split: if_splits)
  show ?thesis unfolding st' by (rule keeps_put) (use n P in \<open>simp_all add: upserted_def\<close>)
qed

lemma keeps_on_row:
  assumes "on_row sid f st = Some st'" "\<And>r r'. f r = Some r' \<Longrightarrow> sr_Deleted r' = sr_Deleted r"
  shows "keeps_deletions P st st'"
proof -
  obtain r r' where r: "map_of (db_rows st) sid = Some r" "f r = Some r'" "st' = put_row sid r' st"
    using assms(1) by (auto simp: on_row_def split: option.splits)
  show ?thesis unfolding r(3) by (rule keeps_put) (use r assms(2) in auto)
qed

lemma deleted_frames:
  "insert_messages ok msgs r = Some r' \<Longrightarrow> sr_Deleted r' = sr_Deleted r"
  "bump_revision ok b r = Some r' \<Longrightarrow> sr_Deleted r' = sr_Deleted r"
  "replaceSessionMessages ok msgs r = Some r' \<Longrightarrow> sr_Deleted r' = sr_Deleted r"
  "replaceSessionUsageEvents ok events r = Some r' \<Longrightarrow> sr_Deleted r' = sr_Deleted r"
proof -
  assume h: "insert_messages ok msgs r = Some r'"
  show "sr_Deleted r' = sr_Deleted r" unfolding insert_messages_row(1) [OF h] by simp
next
  assume h: "bump_revision ok b r = Some r'"
  from bump_revision_row [OF h] show "sr_Deleted r' = sr_Deleted r" by auto
next
  assume h: "replaceSessionMessages ok msgs r = Some r'"
  from replaceSessionMessages_row(1) [OF h] show "sr_Deleted r' = sr_Deleted r" by auto
next
  assume h: "replaceSessionUsageEvents ok events r = Some r'"
  from usage_row [OF h] show "sr_Deleted r' = sr_Deleted r" by auto
qed

lemma keeps_replace_content:
  assumes "ReplaceSessionContent ok py sid msgs g f st = Some st'"
  shows "keeps_deletions P st st'"
proof (cases "map_of (db_rows st) sid")
  case None
  then show ?thesis using assms by (auto simp: ReplaceSessionContent_def Let_def split: if_splits)
next
  case (Some r)
  then obtain r1 where r1: "replaceSessionMessages ok (map (\<lambda>m. fst (SanitizeMessage py m)) msgs) r = Some r1"
    and st': "st' = put_row sid (r1\<lparr>sx_Signals := Some g, sx_Findings := Some f\<rparr>) st"
    using assms by (auto simp: ReplaceSessionContent_def Let_def split: if_splits option.splits)
  show ?thesis unfolding st' by (rule keeps_put) (use Some deleted_frames(3) [OF r1] in auto)
qed

lemma keeps_write_messages: "write_messages ev sid msgs st = Some st' \<Longrightarrow> keeps_deletions P st st'"
  unfolding write_messages_def
  by (erule keeps_on_row) (auto simp: Let_def dest!: deleted_frames split: if_splits option.splits)

lemma keeps_usage_events: "ReplaceSessionUsageEvents ev sid events st = Some st' \<Longrightarrow> keeps_deletions P st st'"
  unfolding ReplaceSessionUsageEvents_def
  by (auto split: if_splits elim!: keeps_on_row dest!: deleted_frames(4))

lemma keeps_data_version: "SetSessionDataVersion ok sid v st = Some st' \<Longrightarrow> keeps_deletions P st st'"
  by (auto simp: SetSessionDataVersion_def intro!: keeps_put split: if_splits option.splits)

lemma keeps_signals: "keeps_deletions P st (put_signals ev sid gf st)"
  by (auto simp: put_signals_def Let_def intro!: keeps_put split: option.splits)

lemma write_content_cases:
  assumes "write_content ev pw rep s msgs events st = (good, st')"
  obtains (first) "\<not> good" "st' = st"
  | (second) st1 where "\<not> good" "st' = st1"
      "(if rep then ReplaceSessionContent (ev_ok ev) (ev_year ev) (ds_ID s) msgs (fst (ev_signals ev s msgs))
          (snd (ev_signals ev s msgs)) st else write_messages ev (ds_ID s) msgs st) = Some st1"
  | (good) st1 st2 st3 where "good"
      "(if rep then ReplaceSessionContent (ev_ok ev) (ev_year ev) (ds_ID s) msgs (fst (ev_signals ev s msgs))
          (snd (ev_signals ev s msgs)) st else write_messages ev (ds_ID s) msgs st) = Some st1"
      "ReplaceSessionUsageEvents ev (ds_ID s) events st1 = Some st2"
      "st3 = (case SetSessionDataVersion (ev_ok ev) (ds_ID s) (dataVersionForWrite ev pw) st2 of Some x \<Rightarrow> x | None \<Rightarrow> st2)"
      "st' = (if rep then st3 else put_signals ev (ds_ID s) (ev_signals ev s msgs) st3)"
  using assms unfolding write_content_def Let_def
  by (cases "if rep then ReplaceSessionContent (ev_ok ev) (ev_year ev) (ds_ID s) msgs (fst (ev_signals ev s msgs))
          (snd (ev_signals ev s msgs)) st else write_messages ev (ds_ID s) msgs st") (auto split: option.splits)

lemma keeps_write_content:
  assumes "write_content ev pw rep s msgs events st = (good, st')"
  shows "keeps_deletions P st st'"
proof -
  have first: "keeps_deletions P st st1"
    if "(if rep then ReplaceSessionContent (ev_ok ev) (ev_year ev) (ds_ID s) msgs (fst (ev_signals ev s msgs))
          (snd (ev_signals ev s msgs)) st else write_messages ev (ds_ID s) msgs st) = Some st1" for st1
    using that by (auto split: if_splits intro: keeps_replace_content keeps_write_messages)
  show ?thesis using assms
  proof (cases rule: write_content_cases)
    case (good st1 st2 st3)
    have "keeps_deletions P st2 st3" using good(4) keeps_data_version by (auto split: option.splits)
    moreover have "keeps_deletions P st3 st'" by (cases rep) (simp_all add: good(5) keeps_signals)
    ultimately show ?thesis using first [OF good(2)] keeps_usage_events [OF good(3)] keeps_trans by metis
  qed (auto intro: first)
qed


lemma keeps_write_one:
  assumes "write_one ev force pw (c, eg) = (c', eg')" and P: "\<And>sid. P sid \<Longrightarrow> ev_ok ev CheckExcluded sid"
  shows "keeps_deletions P (eg_db eg) (eg_db eg')"
proof (cases "prepareSessionWrite ev pw")
  case (Inl reason)
  then show ?thesis using assms by (simp add: write_one_def)
next
  case (Inr p)
  obtain s msgs events where p: "p = (s, msgs, events)" by (metis prod.exhaust)
  show ?thesis
  proof (cases "UpsertSession (ev_ok ev) (ev_automation ev) (ev_year ev) s (eg_db eg)")
    case (Inl e)
    then show ?thesis using assms Inr p by (auto simp: write_one_def Let_def cacheSkip_def split: if_splits)
  next
    case up: (Inr st1)
    obtain good st2 where w: "write_content ev pw (replaces_messages force pw \<or>
        (GetSessionDataVersion (eg_db eg) (ds_ID s) > 0 \<and> GetSessionDataVersion (eg_db eg) (ds_ID s) < ev_dataVersion ev))
        s msgs events st1 = (good, st2)" by fastforce
    have "eg_db eg' = st2" using assms Inr p up w by (auto simp: write_one_def Let_def split: bool.splits)
    then show ?thesis using keeps_trans [OF keeps_upsert [OF up P] keeps_write_content [OF w]] by simp
  qed
qed

lemma keeps_write_fold:
  assumes P: "\<And>sid. P sid \<Longrightarrow> ev_ok ev CheckExcluded sid"
  shows "fold (write_one ev force) batch (c, eg) = (c', eg') \<Longrightarrow> keeps_deletions P (eg_db eg) (eg_db eg')"
proof (induction batch arbitrary: c eg)
  case (Cons pw batch)
  obtain c1 eg1 where one: "write_one ev force pw (c, eg) = (c1, eg1)" by fastforce
  have "keeps_deletions P (eg_db eg1) (eg_db eg')" using Cons by (simp add: one)
  from keeps_trans [OF keeps_write_one [OF one P] this] show ?case .
qed simp

lemma keeps_batch_write:
  assumes "writeOneSessionBatch ok cfg w st = Inr (st', n)"
  shows "keeps_deletions P st st'"
proof -
  obtain r1 r2 r3 where st': "st' = put_row (ds_ID (bw_Session w)) r3 st" and nb: "\<not> blocked_id st (ds_ID (bw_Session w))"
    and steps: "replaceSessionUsageEvents ok (bw_UsageEvents w) (upserted cfg (bw_Session w) st) = Some r1"
      "store_messages ok w r1 = Some (r2, n)" "store_derived ok w r2 = Some r3"
    by (rule writeOne_cases [OF assms]) auto
  have "sr_Deleted r1 = sr_Deleted (upserted cfg (bw_Session w) st)" by (rule deleted_frames(4) [OF steps(1)])
  moreover have "sr_Deleted r2 = sr_Deleted r1"
  proof (cases "bw_ReplaceMessages w")
    case True
    then have "replaceSessionMessages ok (bw_Messages w) r1 = Some r2" using steps(2) by (auto simp: store_messages_def)
    then show ?thesis by (rule deleted_frames(3))
  next
    case False
    define new where "new = messagesAfterOrdinal (bw_Messages w) (MaxOrdinal (SessionRow.truncate r1))"
    obtain ra where ra: "insert_messages ok new r1 = Some ra" "bump_revision ok (new \<noteq> []) ra = Some r2"
      using steps(2) False by (auto simp: store_messages_def Let_def new_def split: if_splits option.splits)
    show ?thesis using deleted_frames(1) [OF ra(1)] deleted_frames(2) [OF ra(2)] by simp
  qed
  moreover have "sr_Deleted r3 = sr_Deleted r2" unfolding derived_row [OF steps(3)] by simp
  ultimately show ?thesis
    unfolding st' by (intro keeps_put) (use nb in \<open>auto simp: upserted_def blocked_id_def\<close>)
qed

lemma keeps_batch_loop: "batch_loop ok cfg py ws (res, st) = (res', Some st') \<Longrightarrow> keeps_deletions P st st'"
proof (induction ws arbitrary: res st)
  case (Cons w ws)
  show ?case
  proof (cases "writeOneSessionBatch ok cfg (sanitizeSessionBatchWrite py w) st")
    case (Inl e)
    then show ?thesis using Cons by (auto simp: Let_def split: if_splits)
  next
    case (Inr p)
    obtain st1 n where p: "p = (st1, n)" by fastforce
    show ?thesis using Cons Inr keeps_trans [OF keeps_batch_write [OF Inr [unfolded p]]]
      by (auto simp: Let_def p split: if_splits)
  qed
qed simp

lemma keeps_snapshot_loop: "snapshot_loop ok cfg py ws (res, st) = (res', Some st') \<Longrightarrow> keeps_deletions P st st'"
proof (induction ws arbitrary: res st)
  case (Cons w ws)
  show ?case
  proof (cases "writeOneSessionBatch ok cfg (sanitizeSessionBatchWrite py w) st")
    case (Inl e)
    then show ?thesis using Cons by (auto simp: Let_def split: if_splits)
  next
    case (Inr p)
    obtain st1 n where p: "p = (st1, n)" by fastforce
    show ?thesis using Cons Inr keeps_trans [OF keeps_batch_write [OF Inr [unfolded p]]]
      by (auto simp: Let_def p split: if_splits)
  qed
qed simp

lemma keeps_delete_stale: "keeps_deletions P st (delete_stale sids st)"
  using delete_stale_row [of sids st] by (auto simp: keeps_deletions_def)

lemma delete_excluded_trashed: "trashed st sid \<Longrightarrow> trashed (delete_parser_excluded sids st) sid"
  using delete_parser_excluded_row [of sids st sid] by (simp add: trashed_def)

lemma keeps_delete_excluded: "keeps_deletions P st (delete_parser_excluded sids st)"
  using delete_parser_excluded_row [of sids st] delete_excluded_trashed [of st _ sids] by (auto simp: keeps_deletions_def)

lemma keeps_snapshot:
  assumes "WriteSessionSnapshot ok cfg py ws stale excl st = (res, good, st')"
  shows "keeps_deletions P st st'"
proof (cases "st' = st")
  case False
  then obtain tx where "snapshot_loop ok cfg py ws (no_result, st) = (res, Some tx)"
    and st': "st' = delete_parser_excluded excl (delete_stale stale tx)"
    using assms by (auto simp: WriteSessionSnapshot_def split: if_splits prod.splits option.splits)
  then show ?thesis
    using keeps_trans [OF keeps_snapshot_loop keeps_trans [OF keeps_delete_stale keeps_delete_excluded]] by blast
qed simp

lemma keeps_rebuild: "WriteSessionBatch ok cfg py ws st = (res, good, st') \<Longrightarrow> keeps_deletions P st st'"
  by (auto simp: WriteSessionBatch_def intro: keeps_batch_loop split: if_splits prod.splits option.splits)

lemma cacheSkip_db [simp]: "eg_db (cacheSkip path mtime eg) = eg_db eg"
  by (simp add: cacheSkip_def)

lemma clearSkip_db [simp]: "eg_db (clearSkip path eg) = eg_db eg"
  by (simp add: clearSkip_def)

lemma cache_fold_db:
  "eg_db (fold (\<lambda>sid eg. case f sid of Some (path, mtime) \<Rightarrow> cacheSkip path mtime eg | None \<Rightarrow> eg) sids eg) = eg_db eg"
  by (induction sids arbitrary: eg) (auto split: option.splits)

lemma keeps_writeBatch:
  assumes "writeBatch ev bulk force batch eg = (c, eg')" and P: "\<And>sid. P sid \<Longrightarrow> deletion_seen ev bulk sid"
  shows "keeps_deletions P (eg_db eg) (eg_db eg')"
proof (cases bulk)
  case False
  have ok: "ev_ok ev CheckExcluded sid" if "P sid" for sid using P [OF that] False by (simp add: deletion_seen_def)
  have "fold (write_one ev force) batch (no_counts, eg) = (c, eg')" using assms(1) False by (simp add: writeBatch_def)
  from keeps_write_fold [of P, OF ok this] show ?thesis .
next
  case True
  obtain c0 ws sources where b: "bulk_writes ev force batch no_counts = (c0, ws, sources)" by (metis prod.exhaust)
  obtain res good st where w: "WriteSessionBatch (ev_ok ev) (ev_automation ev) (ev_year ev) ws (eg_db eg) = (res, good, st)"
    by (metis prod.exhaust)
  show ?thesis
    using assms True keeps_rebuild [OF w]
    by (auto simp: writeBatch_def writeBatchBulk_def b w cache_fold_db split: if_splits bool.splits)
qed

lemma keeps_flush:
  assumes P: "\<And>sid. P sid \<Longrightarrow> deletion_seen ev bulk sid"
  shows "keeps_deletions P (eg_db (ps_engine p)) (eg_db (ps_engine (flush_pending ev bulk p)))"
  using keeps_writeBatch [OF _ P] by (auto simp: flush_pending_def Let_def split: prod.splits)

lemma keeps_source_snapshot:
  assumes "writeSourceSnapshot ev results stale excl retry cwd eg = (c, eg')"
  shows "keeps_deletions P (eg_db eg) (eg_db eg')"
  using assms unfolding writeSourceSnapshot_def Let_def
  by (auto split: prod.splits bool.splits intro: keeps_snapshot)


lemma writeIncremental_deleted:
  assumes "writeIncremental cv cfg py iok uok r inc = (r', good)"
  shows "sr_Deleted r' = sr_Deleted r"
proof -
  have w: "sr_Deleted r1 = sr_Deleted r" if "writeMessages iok r ms = Some r1" for ms r1
    using that by (auto simp: writeMessages_def Let_def split: if_splits)
  show ?thesis
    using assms w unfolding writeIncremental_def Let_def case_prod_beta
    by (fastforce simp: UpdateSessionIncrementalWithHash_def split: option.splits if_splits)
qed

lemma extend_deleted: "sr_Deleted (SessionRow.extend r' (SessionRow.more r)) = sr_Deleted r'"
  by (simp add: SessionRow.defs)

lemma truncate_deleted: "sr_Deleted (SessionRow.truncate r) = sr_Deleted r"
  by (simp add: SessionRow.defs)

lemma keeps_worktree: "applyWorktreeMapping ev sid st = Some st' \<Longrightarrow> keeps_deletions P st st'"
  by (auto simp: applyWorktreeMapping_def intro!: keeps_put split: if_splits option.splits)

lemma keeps_recompute: "keeps_deletions P st (recomputeSignals ev sid st)"
  by (simp add: recomputeSignals_def keeps_signals split: option.split)

lemma keeps_incremental:
  assumes "engine_writeIncremental ev inc eg = (good, eg')"
  shows "keeps_deletions P (eg_db eg) (eg_db eg')"
proof (cases "map_of (db_rows (eg_db eg)) (iu_sessionID inc)")
  case None
  then show ?thesis using assms by (auto simp: engine_writeIncremental_def)
next
  case (Some r)
  let ?sid = "iu_sessionID inc"
  obtain r' g where w: "writeIncremental (ev_conv ev) (ev_automation ev) (ev_year ev) (\<lambda>_. ev_ok ev InsertMessages ?sid)
      (ev_update_ok ev ?sid) (SessionRow.truncate r) inc = (r', g)" by fastforce
  define st where "st = put_row ?sid (SessionRow.extend r' (SessionRow.more r)) (eg_db eg)"
  have k: "keeps_deletions P (eg_db eg) st"
    unfolding st_def by (rule keeps_put) (use Some writeIncremental_deleted [OF w] in \<open>auto simp: extend_deleted truncate_deleted\<close>)
  show ?thesis
  proof (cases "g")
    case False
    then show ?thesis using assms Some w k by (auto simp: engine_writeIncremental_def st_def Let_def)
  next
    case True
    show ?thesis
    proof (cases "applyWorktreeMapping ev ?sid st")
      case None
      then show ?thesis using assms Some w k True by (auto simp: engine_writeIncremental_def st_def Let_def)
    next
      case st1: (Some st1)
      have "eg_db eg' = recomputeSignals ev ?sid st1"
        using assms Some w True st1 by (auto simp: engine_writeIncremental_def st_def Let_def)
      then show ?thesis using keeps_trans [OF k keeps_trans [OF keeps_worktree [OF st1] keeps_recompute]] by simp
    qed
  qed
qed

lemma map_of_keyed: "map_of (map (\<lambda>(k, v). (k, f k v)) m) x = map_option (f x) (map_of m x)"
  by (induction m) auto

lemma keeps_link: "keeps_deletions P st (LinkSubagentSessions ev st)"
  unfolding LinkSubagentSessions_def keeps_deletions_def trashed_def
  by (auto simp: map_of_keyed split: option.splits)

lemma keeps_delete_parser: "DeleteParserExcludedSessions ok sids st = Some st' \<Longrightarrow> keeps_deletions P st st'"
  by (auto simp: DeleteParserExcludedSessions_def keeps_delete_excluded split: if_splits)

lemma keeps_collect_empty: "eg_db (ps_engine (collect_empty path r p)) = eg_db (ps_engine p)"
  by (simp add: collect_empty_def Let_def)

lemma keeps_collect_snapshot:
  assumes P: "\<And>sid. P sid \<Longrightarrow> deletion_seen ev bulk sid"
  shows "keeps_deletions P (eg_db (ps_engine p)) (eg_db (ps_engine (collect_snapshot ev bulk r excluded p)))"
proof -
  obtain c eg where w: "writeSourceSnapshot ev (pd_results r) (pd_staleSessionIDs r) excluded (pd_needsRetry r) (pd_cwdExcluded r)
      (ps_engine (flush_pending ev bulk p)) = (c, eg)" by fastforce
  have "eg_db (ps_engine (collect_snapshot ev bulk r excluded p)) = eg_db eg"
    by (simp add: collect_snapshot_def Let_def w)
  then show ?thesis using keeps_trans [OF keeps_flush [OF P] keeps_source_snapshot [OF w]] by simp
qed

lemma keeps_collect_results:
  assumes P: "\<And>sid. P sid \<Longrightarrow> deletion_seen ev bulk sid"
  shows "keeps_deletions P (eg_db (ps_engine p)) (eg_db (ps_engine (collect_results ev bulk path r excluded p)))"
proof -
  define q where "q = p\<lparr>ps_engine := (if pd_cacheSkip r then clearSkip path (ps_engine p) else ps_engine p),
      ps_stats := (ps_stats p)\<lparr>sy_filesOK := sy_filesOK (ps_stats p) + 1\<rparr>\<rparr>"
  define q1 where "q1 = (if pd_sourceSnapshot r then collect_snapshot ev bulk r excluded q
      else (case pd_incremental r of
              Some inc \<Rightarrow>
                (case engine_writeIncremental ev inc (ps_engine q) of
                   (False, eg) \<Rightarrow> q\<lparr>ps_engine := eg, ps_stats := (ps_stats q)\<lparr>sy_Failed := sy_Failed (ps_stats q) + 1\<rparr>\<rparr>
                 | (True, eg) \<Rightarrow> q\<lparr>ps_engine := eg, ps_stats := (ps_stats q)\<lparr>sy_Synced := sy_Synced (ps_stats q) + 1,
                     sy_messagesIndexed := sy_messagesIndexed (ps_stats q) + length (iu_msgs inc)\<rparr>\<rparr>)
            | None \<Rightarrow> q\<lparr>ps_pending := ps_pending q @ map (\<lambda>pr. \<lparr>pw_result = pr, pw_needsRetry = pd_needsRetry r,
                pw_forceReplace = pd_forceReplace r\<rparr>) (pd_results r)\<rparr>))"
  have res: "collect_results ev bulk path r excluded p = (if length (ps_pending q1) \<ge> batchSize then flush_pending ev bulk q1 else q1)"
    by (simp only: collect_results_def Let_def q_def q1_def)
  have "eg_db (ps_engine q) = eg_db (ps_engine p)" by (simp add: q_def)
  moreover have "keeps_deletions P (eg_db (ps_engine q)) (eg_db (ps_engine q1))"
    unfolding q1_def using keeps_collect_snapshot [OF P]
    by (auto split: option.split prod.split bool.split intro: keeps_incremental)
  ultimately show ?thesis unfolding res using keeps_trans keeps_flush [OF P] by (metis (full_types))
qed

lemma keeps_collect_one:
  assumes P: "\<And>sid. P sid \<Longrightarrow> deletion_seen ev bulk sid"
  shows "keeps_deletions P (eg_db (ps_engine p)) (eg_db (ps_engine (collect_one ev bulk job p)))"
proof -
  obtain path r where job: "job = (path, r)" by fastforce
  have "keeps_deletions P (eg_db (ps_engine p)) (eg_db (ps_engine (collect_results ev bulk path r ex
      (p\<lparr>ps_engine := (ps_engine p)\<lparr>eg_db := st\<rparr>, ps_stats := s\<rparr>))))"
    if "DeleteParserExcludedSessions ok sids (eg_db (ps_engine p)) = Some st" for ok sids st ex s
    using keeps_trans [OF keeps_delete_parser [OF that]]
      keeps_collect_results [where ev = ev and bulk = bulk and P = P, OF P, where p = "p\<lparr>ps_engine := (ps_engine p)\<lparr>eg_db := st\<rparr>, ps_stats := s\<rparr>" and path = path and r = r and excluded = ex] by simp
  then show ?thesis
    by (auto simp: collect_one_def job Let_def keeps_collect_empty keeps_collect_results [OF P] split: option.split intro: keeps_delete_parser)
qed

lemma keeps_collect_fold:
  assumes P: "\<And>sid. P sid \<Longrightarrow> deletion_seen ev bulk sid"
  shows "keeps_deletions P (eg_db (ps_engine p)) (eg_db (ps_engine (fold (collect_one ev bulk) jobs p)))"
proof (induction jobs arbitrary: p)
  case (Cons job jobs)
  show ?case using keeps_trans [OF keeps_collect_one [OF P] Cons.IH] by simp
qed simp

lemma collect_keeps:
  assumes P: "\<And>sid. P sid \<Longrightarrow> deletion_seen ev bulk sid"
  shows "keeps_deletions P (eg_db eg) (eg_db (snd (collectAndBatch ev bulk jobs eg)))"
  using keeps_trans [OF keeps_collect_fold [where P = P and ev = ev and bulk = bulk, OF P, where p = "start_pass (length jobs) eg" and jobs = jobs] keeps_trans [OF keeps_flush [OF P] keeps_link]]
  by (simp add: collectAndBatch_def Let_def start_pass_def)

text \<open>
  C4. A pass does not bring back what the user deleted, whatever the files hold: sessions in the trash stay there,
  whichever statements fail, and an id that was deleted for good gets no row, in a rebuild whichever statements
  fail, in an ordinary pass as long as the lookup of the id in the list of deleted ids is carried out.
\<close>

theorem deletions_respected:
  "keeps_deletions (deletion_seen ev bulk) (eg_db eg) (eg_db (snd (collectAndBatch ev bulk jobs eg)))"
  by (rule collect_keeps)

section \<open>Failed and successful writes\<close>

text \<open>Two rows with the same stat, hash and data version.\<close>

definition same_file :: "('g, 'f) StoredRow \<Rightarrow> ('g, 'f) StoredRow \<Rightarrow> bool" where
  "same_file r r' \<longleftrightarrow> sr_FileSize r' = sr_FileSize r \<and> sr_FileMtime r' = sr_FileMtime r \<and> sr_FileHash r' = sr_FileHash r \<and>
     sr_DataVersion r' = sr_DataVersion r"

lemma same_file_trans [trans]: "same_file a b \<Longrightarrow> same_file b c \<Longrightarrow> same_file a c"
  by (simp add: same_file_def)

lemma same_file_frames:
  "insert_messages ok msgs r = Some r' \<Longrightarrow> same_file r r'"
  "bump_revision ok b r = Some r' \<Longrightarrow> same_file r r'"
  "replaceSessionMessages ok msgs r = Some r' \<Longrightarrow> same_file r r'"
  "replaceSessionUsageEvents ok events r = Some r' \<Longrightarrow> same_file r r'"
proof -
  assume h: "insert_messages ok msgs r = Some r'"
  show "same_file r r'" unfolding insert_messages_row(1) [OF h] by (simp add: same_file_def)
next
  assume h: "bump_revision ok b r = Some r'"
  from bump_revision_row [OF h] show "same_file r r'" by (auto simp: same_file_def)
next
  assume h: "replaceSessionMessages ok msgs r = Some r'"
  from replaceSessionMessages_row(1) [OF h] show "same_file r r'" by (auto simp: same_file_def)
next
  assume h: "replaceSessionUsageEvents ok events r = Some r'"
  from usage_row [OF h] show "same_file r r'" by (auto simp: same_file_def)
qed

lemma on_row_frame:
  assumes "on_row sid f st = Some st'" "map_of (db_rows st) sid = Some r" "\<And>r r'. f r = Some r' \<Longrightarrow> same_file r r'"
  shows "\<exists>r'. map_of (db_rows st') sid = Some r' \<and> same_file r r'"
  using assms by (auto simp: on_row_def)

lemma content_frame:
  assumes "(if rep then ReplaceSessionContent (ev_ok ev) (ev_year ev) sid msgs g f st else write_messages ev sid msgs st) = Some st1"
    "map_of (db_rows st) sid = Some r"
  shows "\<exists>r1. map_of (db_rows st1) sid = Some r1 \<and> same_file r r1"
proof (cases rep)
  case True
  then obtain ra where ra: "replaceSessionMessages (ev_ok ev) (map (\<lambda>m. fst (SanitizeMessage (ev_year ev) m)) msgs) r = Some ra"
    and st1: "st1 = put_row sid (ra\<lparr>sx_Signals := Some g, sx_Findings := Some f\<rparr>) st"
    using assms by (auto simp: ReplaceSessionContent_def Let_def split: if_splits option.splits)
  show ?thesis using same_file_frames(3) [OF ra] by (simp add: st1 same_file_def)
next
  case False
  then have w: "write_messages ev sid msgs st = Some st1" using assms(1) by simp
  show ?thesis
  proof (rule on_row_frame [OF w [unfolded write_messages_def] assms(2)])
    fix a b
    assume "(let new = messagesAfterOrdinal msgs (MaxOrdinal (SessionRow.truncate a));
           new = map (\<lambda>m. fst (SanitizeMessage (ev_year ev) m)) new in
       if new = [] then Some a
       else if \<not> ev_ok ev BeginTx [] \<or> \<not> ev_ok ev Commit [] then None
       else (case insert_messages (ev_ok ev) new a of None \<Rightarrow> None | Some r1 \<Rightarrow> bump_revision (ev_ok ev) True r1)) = Some b"
    then show "same_file a b"
      by (auto simp: Let_def same_file_def [of b b] split: if_splits option.splits
          dest!: same_file_frames(1,2) intro: same_file_trans)
  qed
qed

lemma usage_frame:
  assumes "ReplaceSessionUsageEvents ev sid events st = Some st1" "map_of (db_rows st) sid = Some r"
  shows "\<exists>r1. map_of (db_rows st1) sid = Some r1 \<and> same_file r r1"
  using assms by (auto simp: ReplaceSessionUsageEvents_def split: if_splits intro: on_row_frame same_file_frames(4))

lemma upserted_version:
  "sr_DataVersion (upserted cfg s st) = GetSessionDataVersion st (ds_ID s)"
  by (simp add: upserted_def GetSessionDataVersion_def new_row_def split: option.split)

lemma upsert_row:
  assumes "UpsertSession ok cfg py s st = Inr st1"
  shows "map_of (db_rows st1) (ds_ID s) = Some (upserted cfg (sanitize_session py s) st)"
  using assms by (auto simp: UpsertSession_def Let_def split: if_splits)

text \<open>A failed write leaves the data version of the session as it was.\<close>

lemma failed_content_version:
  assumes "write_content ev pw rep s msgs events st = (False, st')" "map_of (db_rows st) (ds_ID s) = Some r"
  shows "\<exists>r'. map_of (db_rows st') (ds_ID s) = Some r' \<and> same_file r r'"
  using assms(1)
proof (cases rule: write_content_cases)
  case first
  then show ?thesis using assms(2) by (simp add: same_file_def)
next
  case (second st1)
  then show ?thesis using content_frame [OF second(3) assms(2)] by simp
qed simp

lemma write_one_failed:
  assumes run: "write_one ev force pw (c, eg) = (c', eg')" and failed: "wc_failed c' = wc_failed c + 1"
    and prep: "prepareSessionWrite ev pw = Inr (s, msgs, events)"
  shows "GetSessionDataVersion (eg_db eg') (ds_ID s) = GetSessionDataVersion (eg_db eg) (ds_ID s)"
proof (cases "UpsertSession (ev_ok ev) (ev_automation ev) (ev_year ev) s (eg_db eg)")
  case (Inl e)
  then show ?thesis using run failed prep by (auto simp: write_one_def Let_def count_failed_def cacheSkip_def split: if_splits)
next
  case (Inr st1)
  obtain good st2 where w: "write_content ev pw (replaces_messages force pw \<or>
      (GetSessionDataVersion (eg_db eg) (ds_ID s) > 0 \<and> GetSessionDataVersion (eg_db eg) (ds_ID s) < ev_dataVersion ev))
      s msgs events st1 = (good, st2)" by fastforce
  have eg': "eg_db eg' = st2" using run prep Inr w by (auto simp: write_one_def Let_def split: bool.splits)
  have "\<not> good" using run prep Inr w failed by (auto simp: write_one_def Let_def split: bool.splits)
  then have "write_content ev pw (replaces_messages force pw \<or>
      (GetSessionDataVersion (eg_db eg) (ds_ID s) > 0 \<and> GetSessionDataVersion (eg_db eg) (ds_ID s) < ev_dataVersion ev))
      s msgs events st1 = (False, st2)" using w by simp
  from failed_content_version [OF this upsert_row [OF Inr]]
  obtain r' where "map_of (db_rows st2) (ds_ID s) = Some r'" "sr_DataVersion r' = GetSessionDataVersion (eg_db eg) (ds_ID s)"
    by (auto simp: same_file_def upserted_version)
  then show ?thesis by (simp add: eg' GetSessionDataVersion_def)
qed

text \<open>
  A failed write is tried again: when the session was new, or was written by an older parser, the next pass
  does not take the file for up to date, whatever its stat says.
\<close>

theorem failed_write_retried:
  assumes "write_one ev force pw (c, eg) = (c', eg')" "wc_failed c' = wc_failed c + 1"
    "prepareSessionWrite ev pw = Inr (s, msgs, events)" "ds_ID s = ev_idPrefix ev @ sessionID"
    "GetSessionDataVersion (eg_db eg) (ds_ID s) < ev_dataVersion ev"
  shows "\<not> shouldSkipFile ev (eg_db eg') sessionID info"
  using write_one_failed [OF assms(1-3)] assms(4,5)
  by (auto simp: shouldSkipFile_def Let_def split: option.split)


lemma content_written_row:
  assumes w: "write_content ev pw rep s msgs events st = (True, st')" and row: "map_of (db_rows st) (ds_ID s) = Some r"
    and ok: "ev_ok ev SetDataVersion (ds_ID s)"
  shows "\<exists>r'. map_of (db_rows st') (ds_ID s) = Some r' \<and> same_file (r\<lparr>sr_DataVersion := dataVersionForWrite ev pw\<rparr>) r'"
  using w
proof (cases rule: write_content_cases)
  case (good st1 st2 st3)
  obtain r1 where r1: "map_of (db_rows st1) (ds_ID s) = Some r1" "same_file r r1"
    using content_frame [OF good(2) row] by blast
  obtain r2 where r2: "map_of (db_rows st2) (ds_ID s) = Some r2" "same_file r1 r2"
    using usage_frame [OF good(3) r1(1)] by blast
  define r3 where "r3 = r2\<lparr>sr_DataVersion := dataVersionForWrite ev pw\<rparr>"
  have st3: "map_of (db_rows st3) (ds_ID s) = Some r3"
    using good(4) r2(1) ok by (simp add: SetSessionDataVersion_def r3_def)
  have "same_file (r\<lparr>sr_DataVersion := dataVersionForWrite ev pw\<rparr>) r3"
    using r1(2) r2(2) by (simp add: same_file_def r3_def)
  moreover have "\<exists>r'. map_of (db_rows (put_signals ev (ds_ID s) gf st3)) (ds_ID s) = Some r' \<and> same_file r3 r'" for gf
    by (simp add: put_signals_def st3 Let_def same_file_def)
  moreover have "same_file r3 r3" by (simp add: same_file_def)
  ultimately show ?thesis using good(5) st3 same_file_trans by (cases rep) (simp_all, blast+)
qed simp_all

definition file_columns :: "DbSession \<Rightarrow> string \<times> int option \<times> int option \<times> string option" where
  "file_columns s = (ds_ID s, ds_FileSize s, ds_FileMtime s, ds_FileHash s)"

lemma file_columns_simps [simp]:
  "file_columns (sanitize_session py s) = file_columns s"
  "file_columns (set_totals tt s) = file_columns s"
  "file_columns (s\<lparr>s_Project := p\<rparr>) = file_columns s"
  "file_columns (s\<lparr>ds_IsAutomated := b\<rparr>) = file_columns s"
  "file_columns (s\<lparr>ds_MessageCount := n\<rparr>) = file_columns s"
  "file_columns (s\<lparr>ds_UserMessageCount := n\<rparr>) = file_columns s"
  "file_columns (s\<lparr>ds_ParentSessionID := q\<rparr>) = file_columns s"
  "file_columns (s\<lparr>ds_FilePath := q\<rparr>) = file_columns s"
  "file_columns (s\<lparr>ds_ID := i\<rparr>) = (i, snd (file_columns s))"
  by (cases s; simp add: file_columns_def sanitize_session_def set_totals_def Session.defs split: prod.split)+

lemma prepare_file:
  assumes "prepareSessionWrite ev pw = Inr (s, msgs, events)"
  shows "ds_FileSize s = int64Ptr (fi_Size (ps_File (pr_Session (pw_result pw))))"
    "ds_FileMtime s = int64Ptr (fi_Mtime (ps_File (pr_Session (pw_result pw))))"
    "ds_FileHash s = strPtr (pr_Hash (pw_result pw))"
    "ds_ID s = ev_idPrefix ev @ ps_ID (pr_Session (pw_result pw))"
proof -
  have raw: "file_columns (toDBSession ev (pw_result pw)) = (ps_ID (pr_Session (pw_result pw)),
      int64Ptr (fi_Size (ps_File (pr_Session (pw_result pw)))), int64Ptr (fi_Mtime (ps_File (pr_Session (pw_result pw)))),
      strPtr (pr_Hash (pw_result pw)))"
    by (simp add: toDBSession_def Let_def file_columns_def split: prod.split)
  have fst_columns: "fst (file_columns t) = ds_ID t" for t by (simp add: file_columns_def)
  have "file_columns s = (ev_idPrefix ev @ ds_ID (toDBSession ev (pw_result pw)), snd (file_columns (toDBSession ev (pw_result pw))))"
    using assms unfolding prepareSessionWrite_def Let_def validate_rows_def
    by (auto simp: applyRemoteRewrites_def Let_def prod_eq_iff fst_columns split: if_splits prod.splits option.splits)
  then show "ds_FileSize s = int64Ptr (fi_Size (ps_File (pr_Session (pw_result pw))))"
    "ds_FileMtime s = int64Ptr (fi_Mtime (ps_File (pr_Session (pw_result pw))))"
    "ds_FileHash s = strPtr (pr_Hash (pw_result pw))"
    "ds_ID s = ev_idPrefix ev @ ps_ID (pr_Session (pw_result pw))"
    using raw by (simp_all add: file_columns_def)
qed

lemma write_one_row:
  assumes run: "write_one ev force pw (c, eg) = (c', eg')" and written: "wc_sessions c' = wc_sessions c + 1"
    and prep: "prepareSessionWrite ev pw = Inr (s, msgs, events)" and ok: "ev_ok ev SetDataVersion (ds_ID s)"
  shows "\<exists>r. map_of (db_rows (eg_db eg')) (ds_ID s) = Some r \<and> sr_FileSize r = ds_FileSize s \<and> sr_FileMtime r = ds_FileMtime s \<and>
    sr_FileHash r = or_empty (ds_FileHash s) \<and> sr_DataVersion r = dataVersionForWrite ev pw"
proof (cases "UpsertSession (ev_ok ev) (ev_automation ev) (ev_year ev) s (eg_db eg)")
  case (Inl e)
  then show ?thesis using run written prep
    by (auto simp: write_one_def Let_def count_failed_def split: if_splits)
next
  case (Inr st1)
  obtain rep good st2 where w: "write_content ev pw rep s msgs events st1 = (good, st2)"
    and rep: "rep \<longleftrightarrow> replaces_messages force pw \<or>
      (GetSessionDataVersion (eg_db eg) (ds_ID s) > 0 \<and> GetSessionDataVersion (eg_db eg) (ds_ID s) < ev_dataVersion ev)"
    by (metis prod.exhaust)
  have g: good and eg': "eg_db eg' = st2"
    using run written prep Inr w rep by (auto simp: write_one_def Let_def count_failed_def split: bool.splits)
  have "file_columns (sanitize_session (ev_year ev) s) = file_columns s" by simp
  then have cols: "ds_FileSize (sanitize_session (ev_year ev) s) = ds_FileSize s"
    "ds_FileMtime (sanitize_session (ev_year ev) s) = ds_FileMtime s" "ds_FileHash (sanitize_session (ev_year ev) s) = ds_FileHash s"
    by (simp_all add: file_columns_def)
  show ?thesis
    using content_written_row [OF w [unfolded eqTrueI [OF g]] upsert_row [OF Inr] ok] cols
    by (auto simp: eg' same_file_def upserted_def upsert_columns_def)
qed

lemma ptr_round: "or_zero (int64Ptr n) = n" "or_empty (strPtr x) = x"
  by (simp_all add: int64Ptr_def or_zero_def strPtr_def or_empty_def)

text \<open>
  C10. Once a Claude file's main session is written with the stat and the hash the file has, the file is left alone:
  the next pass skips it, also when it compares the hashes, as long as the project of the session is known.
\<close>

theorem written_file_settles:
  assumes "write_one ev force pw (c, eg) = (c', eg')" "wc_sessions c' = wc_sessions c + 1"
    "prepareSessionWrite ev pw = Inr (s, msgs, events)" "ev_ok ev SetDataVersion (ds_ID s)" "\<not> pw_needsRetry pw"
    "ps_ID (pr_Session (pw_result pw)) = trim_suffix (path_base (df_Path file)) ''.jsonl''"
    "fi_Size (ps_File (pr_Session (pw_result pw))) = fs_Size info" "fi_Mtime (ps_File (pr_Session (pw_result pw))) = fs_Mtime info"
    "ev_prefixHash ev (df_Path file) (fs_Size info) = Some (pr_Hash (pw_result pw))"
    "project_known (eg_db eg') (ds_ID s)"
  shows "processClaude ev (eg_db eg') file info auditSameStat = zero_processed\<lparr>pd_skip := True\<rparr>"
proof -
  let ?sid = "trim_suffix (path_base (df_Path file)) ''.jsonl''"
  obtain r where r: "map_of (db_rows (eg_db eg')) (ev_idPrefix ev @ ?sid) = Some r" "or_zero (sr_FileSize r) = fs_Size info"
    "or_zero (sr_FileMtime r) = fs_Mtime info" "sr_FileHash r = pr_Hash (pw_result pw)" "sr_DataVersion r = ev_dataVersion ev"
    using write_one_row [OF assms(1-4)] prepare_file [OF assms(3)] assms(5-8) by (auto simp: ptr_round dataVersionForWrite_def)
  have "shouldSkipFile ev (eg_db eg') ?sid info"
    using r by (simp add: shouldSkipFile_def GetSessionFileInfo_def GetSessionDataVersion_def)
  moreover have "\<not> claudeContentChanged ev (eg_db eg') (ev_idPrefix ev @ ?sid) (df_Path file) (fs_Size info)"
    using r assms(9) by (simp add: claudeContentChanged_def GetSessionFileHash_def)
  moreover have "project_known (eg_db eg') (ev_idPrefix ev @ ?sid)"
    using assms(10) prepare_file(4) [OF assms(3)] assms(6) by simp
  ultimately show ?thesis by (simp add: processClaude_def)
qed

section \<open>Runs\<close>

text \<open>
  A file \<open>s.jsonl\<close> with one session of one message; \<open>results\<close> is what the parser reads from it. No remote host, no
  filter, no rewriting; parser version 2.
\<close>

definition demo_parsed :: "int \<Rightarrow> int \<Rightarrow> string \<Rightarrow> string \<Rightarrow> ParseResult" where
  "demo_parsed n mtime sid content =
     \<lparr>pr_Session = zero_session\<lparr>ps_ID := sid, ps_Project := ''p'', ps_Agent := ''claude'', ps_MessageCount := 1,
        ps_UserMessageCount := 1, ps_FirstMessage := content, ps_File := \<lparr>fi_Path = ''s.jsonl'', fi_Size = n, fi_Mtime = mtime\<rparr>\<rparr>,
      pr_Messages = [zero_message\<lparr>ms_Role := ''user'', ms_Content := content\<rparr>]\<rparr>"

definition demo_env_with ::
  "(DbSession \<Rightarrow> Message list \<Rightarrow> 'g \<times> 'f) \<Rightarrow> (Stmt \<Rightarrow> string \<Rightarrow> bool) \<Rightarrow> int \<Rightarrow> int \<Rightarrow> ParseResult list \<Rightarrow> ('g, 'f) EngineEnv" where
  "demo_env_with sig ok n mtime results =
     \<lparr>ev_idPrefix = [], ev_pathRewriter = None, ev_cwdPrefixes = [], ev_conv = demo_cv, ev_automation = demo_config,
      ev_year = (\<lambda>_. None), ev_dataVersion = 2, ev_worktree = (\<lambda>_ _ _. None), ev_signals = sig,
      ev_preserve = (\<lambda>_ _. False), ev_machine = [], ev_ok = ok, ev_update_ok = (\<lambda>_. True), ev_mapping_ok = (\<lambda>_. True),
      ev_link_ok = True, ev_stat = (\<lambda>_. Some \<lparr>fs_Size = n, fs_Mtime = mtime, fs_Inode = 0, fs_Device = 0\<rparr>),
      ev_hash = (\<lambda>_. Some (if n = 4 then ''h4'' else ''h2'')), ev_prefixHash = (\<lambda>_ _. Some (if n = 4 then ''h4'' else ''h2'')),
      ev_readFull = (\<lambda>_ _. Inr (results, [])), ev_readFrom = (\<lambda>_ _ _. Inr ([], 0, 0)), ev_hints = (\<lambda>_. ([], [])),
      ev_cwdProject = (\<lambda>_ _. []), ev_projectName = (\<lambda>p. p), ev_process = (\<lambda>_ _. zero_processed), ev_opencodeDirs = [],
      ev_opencodeStorage = (\<lambda>_. False), ev_archive = None\<rparr>"

definition demo_sync_env :: "(Stmt \<Rightarrow> string \<Rightarrow> bool) \<Rightarrow> int \<Rightarrow> int \<Rightarrow> ParseResult list \<Rightarrow> (unit, unit) EngineEnv" where
  "demo_sync_env = demo_env_with (\<lambda>_ _. ((), ()))"

definition demo_discovered :: DiscoveredFile where
  "demo_discovered = \<lparr>df_Path = ''s.jsonl'', df_Project = ''p'', df_Agent = ''claude''\<rparr>"

definition demo_engine :: "('g, 'f) Engine" where
  "demo_engine = \<lparr>eg_db = \<lparr>db_rows = [], db_excluded = []\<rparr>, eg_skipCache = [], eg_skippedFiles = []\<rparr>"

definition no_insert :: "Stmt \<Rightarrow> string \<Rightarrow> bool" where
  "no_insert s sid \<longleftrightarrow> s \<noteq> InsertMessages"

definition demo_pending :: pendingWrite where
  "demo_pending = \<lparr>pw_result = stamp_file \<lparr>fs_Size = 4, fs_Mtime = 1, fs_Inode = 0, fs_Device = 0\<rparr> (Some ''h4'') (demo_parsed 4 1 ''s'' ''old''),
     pw_needsRetry = False, pw_forceReplace = True\<rparr>"

lemma demo_prepared:
  assumes "\<not> isl (prepareSessionWrite (demo_env_with sig ok 4 1 []) demo_pending)"
  obtains s msgs events where "prepareSessionWrite (demo_env_with sig ok 4 1 []) demo_pending = Inr (s, msgs, events)" "ds_ID s = ''s''"
proof -
  obtain p where p: "prepareSessionWrite (demo_env_with sig ok 4 1 []) demo_pending = Inr p"
    using assms by (cases "prepareSessionWrite (demo_env_with sig ok 4 1 []) demo_pending") auto
  obtain s msgs events where e: "p = (s, msgs, events)" by (cases p)
  have "ds_ID s = ''s''"
    using prepare_file(4) [OF p [unfolded e]] by (simp add: demo_env_with_def demo_pending_def stamp_file_def demo_parsed_def)
  then show ?thesis using that p e by blast
qed

theorem failed_write_retried_witness:
  "\<not> shouldSkipFile (demo_sync_env no_insert 4 1 [])
     (eg_db (snd (write_one (demo_sync_env no_insert 4 1 []) False demo_pending (no_counts, demo_engine)))) ''s'' demo_stat"
proof -
  let ?ev = "demo_sync_env no_insert 4 1 []"
  have "\<not> isl (prepareSessionWrite ?ev demo_pending)" by code_simp
  then obtain s msgs events where prep: "prepareSessionWrite ?ev demo_pending = Inr (s, msgs, events)" and sid: "ds_ID s = ''s''"
    using demo_prepared [of "\<lambda>_ _. ((), ())" no_insert] unfolding demo_sync_env_def by blast
  obtain c eg where run: "write_one ?ev False demo_pending (no_counts, demo_engine) = (c, eg)" by fastforce
  have "wc_failed (fst (write_one ?ev False demo_pending (no_counts, demo_engine))) = wc_failed no_counts + 1" by code_simp
  then have failed: "wc_failed c = wc_failed no_counts + 1" by (simp add: run)
  have "\<not> shouldSkipFile ?ev (eg_db eg) ''s'' demo_stat"
    by (rule failed_write_retried [OF run failed prep])
      (simp_all add: sid demo_sync_env_def demo_env_with_def demo_engine_def GetSessionDataVersion_def)
  then show ?thesis by (simp add: run)
qed

theorem written_file_settles_witness:
  "processClaude (demo_sync_env (\<lambda>_ _. True) 4 1 [])
     (eg_db (snd (write_one (demo_sync_env (\<lambda>_ _. True) 4 1 []) False demo_pending (no_counts, demo_engine))))
     demo_discovered \<lparr>fs_Size = 4, fs_Mtime = 1, fs_Inode = 0, fs_Device = 0\<rparr> True = zero_processed\<lparr>pd_skip := True\<rparr>"
proof -
  let ?ev = "demo_sync_env (\<lambda>_ _. True) 4 1 []"
  have "\<not> isl (prepareSessionWrite ?ev demo_pending)" by code_simp
  then obtain s msgs events where prep: "prepareSessionWrite ?ev demo_pending = Inr (s, msgs, events)" and sid: "ds_ID s = ''s''"
    using demo_prepared [of "\<lambda>_ _. ((), ())" "\<lambda>_ _. True"] unfolding demo_sync_env_def by blast
  obtain c eg where run: "write_one ?ev False demo_pending (no_counts, demo_engine) = (c, eg)" by fastforce
  have "wc_sessions (fst (write_one ?ev False demo_pending (no_counts, demo_engine))) = wc_sessions no_counts + 1" by code_simp
  then have written: "wc_sessions c = wc_sessions no_counts + 1" by (simp add: run)
  have "project_known (eg_db (snd (write_one ?ev False demo_pending (no_counts, demo_engine)))) ''s''" by code_simp
  then have known: "project_known (eg_db eg) (ds_ID s)" by (simp add: run sid)
  have name: "trim_suffix (path_base ''s.jsonl'') ''.jsonl'' = ''s''" by code_simp
  have "processClaude ?ev (eg_db eg) demo_discovered \<lparr>fs_Size = 4, fs_Mtime = 1, fs_Inode = 0, fs_Device = 0\<rparr> True =
      zero_processed\<lparr>pd_skip := True\<rparr>"
    by (rule written_file_settles [OF run written prep _ _ _ _ _ _ known])
      (simp_all add: name demo_sync_env_def demo_env_with_def demo_pending_def demo_discovered_def stamp_file_def demo_parsed_def or_empty_def)
  then show ?thesis by (simp add: run)
qed


section \<open>What a failed write leaves behind\<close>

lemma failed_write_row:
  assumes run: "write_one ev force pw (c, eg) = (c', eg')" and failed: "wc_failed c' = wc_failed c + 1"
    and prep: "prepareSessionWrite ev pw = Inr (s, msgs, events)" and ok: "ev_ok ev Upsert (ds_ID s)"
  shows "\<exists>r. map_of (db_rows (eg_db eg')) (ds_ID s) = Some r \<and> sr_FileSize r = ds_FileSize s \<and> sr_FileMtime r = ds_FileMtime s \<and>
    sr_FileHash r = or_empty (ds_FileHash s) \<and> sr_DataVersion r = GetSessionDataVersion (eg_db eg) (ds_ID s)"
proof (cases "UpsertSession (ev_ok ev) (ev_automation ev) (ev_year ev) s (eg_db eg)")
  case (Inl e)
  have "ds_ID (sanitize_session (ev_year ev) s) = ds_ID s"
    using file_columns_simps(1) [of "ev_year ev" s] by (simp only: file_columns_def prod.inject)
  then have "e \<noteq> StatementFailed" using Inl ok by (auto simp: UpsertSession_def Let_def split: if_splits)
  then show ?thesis using run failed prep Inl by (auto simp: write_one_def Let_def cacheSkip_def split: if_splits)
next
  case (Inr st1)
  obtain rep good st2 where w: "write_content ev pw rep s msgs events st1 = (good, st2)"
    and rep: "rep \<longleftrightarrow> replaces_messages force pw \<or>
      (GetSessionDataVersion (eg_db eg) (ds_ID s) > 0 \<and> GetSessionDataVersion (eg_db eg) (ds_ID s) < ev_dataVersion ev)"
    by (metis prod.exhaust)
  have "\<not> good" and eg': "eg_db eg' = st2"
    using run failed prep Inr w rep by (auto simp: write_one_def Let_def split: bool.splits)
  then have w': "write_content ev pw rep s msgs events st1 = (False, st2)" using w by simp
  have "file_columns (sanitize_session (ev_year ev) s) = file_columns s" by simp
  then have cols: "ds_ID (sanitize_session (ev_year ev) s) = ds_ID s" "ds_FileSize (sanitize_session (ev_year ev) s) = ds_FileSize s"
    "ds_FileMtime (sanitize_session (ev_year ev) s) = ds_FileMtime s" "ds_FileHash (sanitize_session (ev_year ev) s) = ds_FileHash s"
    by (simp_all add: file_columns_def)
  show ?thesis
    using failed_content_version [OF w' upsert_row [OF Inr]] cols
    by (auto simp: eg' same_file_def upserted_version) (simp_all add: upserted_def upsert_columns_def)
qed

text \<open>The messages stay what they were when their insertion fails.\<close>

lemma failed_insert_messages:
  assumes w: "write_content ev pw rep s msgs events st = (False, st')" and row: "map_of (db_rows st) (ds_ID s) = Some r"
    and fails: "\<not> ev_ok ev InsertMessages (sr_ID r)" "msgs \<noteq> []"
  shows "\<exists>r'. map_of (db_rows st') (ds_ID s) = Some r' \<and> sr_Messages r' = sr_Messages r"
  using w
proof (cases rule: write_content_cases)
  case first
  then show ?thesis using row by simp
next
  case (second st1)
  have rep: "\<not> rep"
  proof
    assume rep
    then obtain r1 where "replaceSessionMessages (ev_ok ev) (map (\<lambda>m. fst (SanitizeMessage (ev_year ev) m)) msgs) r = Some r1"
      using second(3) row fails(2) by (auto simp: ReplaceSessionContent_def Let_def split: if_splits option.splits)
    then show False using fails
      by (auto simp: replaceSessionMessages_def insert_messages_def Let_def split: if_splits option.splits)
  qed
  then have "st1 = put_row (ds_ID s) r st"
    using second(3) row fails(1)
    by (auto simp: write_messages_def on_row_def insert_messages_def Let_def split: if_splits)
  then show ?thesis using second(2) by simp
qed simp

lemma failed_insert_kept:
  assumes run: "write_one ev force pw (c, eg) = (c', eg')" and failed: "wc_failed c' = wc_failed c + 1"
    and prep: "prepareSessionWrite ev pw = Inr (s, msgs, events)"
    and row: "map_of (db_rows (eg_db eg)) (ds_ID s) = Some r" "sr_ID r = ds_ID s"
    and fails: "\<not> ev_ok ev InsertMessages (ds_ID s)" "msgs \<noteq> []"
  shows "\<exists>r'. map_of (db_rows (eg_db eg')) (ds_ID s) = Some r' \<and> sr_Messages r' = sr_Messages r"
proof (cases "UpsertSession (ev_ok ev) (ev_automation ev) (ev_year ev) s (eg_db eg)")
  case (Inl e)
  then show ?thesis using run failed prep row by (auto simp: write_one_def Let_def cacheSkip_def split: if_splits)
next
  case (Inr st1)
  obtain rep good st2 where w: "write_content ev pw rep s msgs events st1 = (good, st2)"
    and rep: "rep \<longleftrightarrow> replaces_messages force pw \<or>
      (GetSessionDataVersion (eg_db eg) (ds_ID s) > 0 \<and> GetSessionDataVersion (eg_db eg) (ds_ID s) < ev_dataVersion ev)"
    by (metis prod.exhaust)
  have "\<not> good" and eg': "eg_db eg' = st2"
    using run failed prep Inr w rep by (auto simp: write_one_def Let_def split: bool.splits)
  then have w': "write_content ev pw rep s msgs events st1 = (False, st2)" using w by simp
  have u: "sr_ID (upserted cfg (sanitize_session (ev_year ev) s) (eg_db eg)) = ds_ID s"
    "sr_Messages (upserted cfg (sanitize_session (ev_year ev) s) (eg_db eg)) = sr_Messages r" for cfg
    using row by (simp_all add: upserted_def)
  show ?thesis using failed_insert_messages [OF w' upsert_row [OF Inr]] fails by (simp add: u eg')
qed

text \<open>
  C11. A failed write of a Claude file's main session is not tried again when the session is at the current version:
  the row has taken the stat and the hash of the new file before the messages are written, so the next pass skips the
  file, also when it compares the hashes (the project of the session being known). When it was the insertion of the
  messages that failed, the session is left with the messages it had before.
\<close>

theorem failed_write_forgotten:
  assumes "write_one ev force pw (c, eg) = (c', eg')" "wc_failed c' = wc_failed c + 1"
    "prepareSessionWrite ev pw = Inr (s, msgs, events)" "ev_ok ev Upsert (ds_ID s)"
    "map_of (db_rows (eg_db eg)) (ds_ID s) = Some r" "sr_ID r = ds_ID s" "sr_DataVersion r = ev_dataVersion ev"
    "ps_ID (pr_Session (pw_result pw)) = trim_suffix (path_base (df_Path file)) ''.jsonl''"
    "fi_Size (ps_File (pr_Session (pw_result pw))) = fs_Size info" "fi_Mtime (ps_File (pr_Session (pw_result pw))) = fs_Mtime info"
    "ev_prefixHash ev (df_Path file) (fs_Size info) = Some (pr_Hash (pw_result pw))"
    "project_known (eg_db eg') (ds_ID s)"
  shows "processClaude ev (eg_db eg') file info auditSameStat = zero_processed\<lparr>pd_skip := True\<rparr> \<and>
    (msgs \<noteq> [] \<and> \<not> ev_ok ev InsertMessages (ds_ID s) \<longrightarrow>
      (\<exists>r'. map_of (db_rows (eg_db eg')) (ds_ID s) = Some r' \<and> sr_Messages r' = sr_Messages r))"
proof -
  let ?sid = "trim_suffix (path_base (df_Path file)) ''.jsonl''"
  have "GetSessionDataVersion (eg_db eg) (ds_ID s) = ev_dataVersion ev" using assms(5,7) by (simp add: GetSessionDataVersion_def)
  then obtain r' where "map_of (db_rows (eg_db eg')) (ev_idPrefix ev @ ?sid) = Some r'" "or_zero (sr_FileSize r') = fs_Size info"
    "or_zero (sr_FileMtime r') = fs_Mtime info" "sr_FileHash r' = pr_Hash (pw_result pw)" "sr_DataVersion r' = ev_dataVersion ev"
    using failed_write_row [OF assms(1-4)] prepare_file [OF assms(3)] assms(8-10) by (auto simp: ptr_round)
  then have "shouldSkipFile ev (eg_db eg') ?sid info"
    "\<not> claudeContentChanged ev (eg_db eg') (ev_idPrefix ev @ ?sid) (df_Path file) (fs_Size info)"
    using assms(11) by (simp_all add: shouldSkipFile_def claudeContentChanged_def GetSessionFileInfo_def GetSessionDataVersion_def
      GetSessionFileHash_def)
  moreover have "project_known (eg_db eg') (ev_idPrefix ev @ ?sid)"
    using assms(12) prepare_file(4) [OF assms(3)] assms(8) by simp
  ultimately have "processClaude ev (eg_db eg') file info auditSameStat = zero_processed\<lparr>pd_skip := True\<rparr>"
    by (simp add: processClaude_def)
  then show ?thesis using failed_insert_kept [OF assms(1-3,5,6)] by blast
qed

text \<open>An engine whose session \<open>s\<close> is at the current version with an older message.\<close>

definition demo_stored_engine :: "(unit, unit) Engine" where
  "demo_stored_engine = demo_engine\<lparr>eg_db := \<lparr>db_rows = [(''s'', (new_row ''s'')\<lparr>sr_DataVersion := 2,
     sr_Messages := [demo_message 0 ''u'']\<rparr>)], db_excluded = []\<rparr>\<rparr>"

theorem failed_write_forgotten_witness:
  "let eg = snd (write_one (demo_sync_env no_insert 4 1 []) False demo_pending (no_counts, demo_stored_engine)) in
     pd_skip (processClaude (demo_sync_env no_insert 4 1 []) (eg_db eg) demo_discovered
       \<lparr>fs_Size = 4, fs_Mtime = 1, fs_Inode = 0, fs_Device = 0\<rparr> True) \<and>
     map_option sr_Messages (map_of (db_rows (eg_db eg)) ''s'') = Some [demo_message 0 ''u'']"
proof -
  let ?ev = "demo_sync_env no_insert 4 1 []" and ?info = "\<lparr>fs_Size = 4, fs_Mtime = 1, fs_Inode = 0, fs_Device = 0\<rparr>"
  define r :: "(unit, unit) StoredRow" where "r = (new_row ''s'')\<lparr>sr_DataVersion := 2, sr_Messages := [demo_message 0 ''u'']\<rparr>"
  have "case prepareSessionWrite ?ev demo_pending of Inr (s, msgs, events) \<Rightarrow> msgs \<noteq> [] | Inl _ \<Rightarrow> False" by code_simp
  moreover have "\<not> isl (prepareSessionWrite ?ev demo_pending)" by code_simp
  then obtain s msgs events where prep: "prepareSessionWrite ?ev demo_pending = Inr (s, msgs, events)" and sid: "ds_ID s = ''s''"
    using demo_prepared [of "\<lambda>_ _. ((), ())" no_insert] unfolding demo_sync_env_def by blast
  ultimately have some: "msgs \<noteq> []" by simp
  obtain c eg where run: "write_one ?ev False demo_pending (no_counts, demo_stored_engine) = (c, eg)" by fastforce
  have "wc_failed (fst (write_one ?ev False demo_pending (no_counts, demo_stored_engine))) = wc_failed no_counts + 1" by code_simp
  then have failed: "wc_failed c = wc_failed no_counts + 1" by (simp add: run)
  have "project_known (eg_db (snd (write_one ?ev False demo_pending (no_counts, demo_stored_engine)))) ''s''" by code_simp
  then have known: "project_known (eg_db eg) (ds_ID s)" by (simp add: run sid)
  have name: "trim_suffix (path_base ''s.jsonl'') ''.jsonl'' = ''s''" by code_simp
  have row: "map_of (db_rows (eg_db demo_stored_engine)) (ds_ID s) = Some r" "sr_ID r = ds_ID s" "sr_DataVersion r = ev_dataVersion ?ev"
    by (simp_all add: sid r_def demo_stored_engine_def demo_sync_env_def demo_env_with_def new_row_def)
  have ok: "ev_ok ?ev Upsert (ds_ID s)" "\<not> ev_ok ?ev InsertMessages (ds_ID s)"
    by (simp_all add: demo_sync_env_def demo_env_with_def no_insert_def)
  have "processClaude ?ev (eg_db eg) demo_discovered ?info True = zero_processed\<lparr>pd_skip := True\<rparr> \<and>
      (msgs \<noteq> [] \<and> \<not> ev_ok ?ev InsertMessages (ds_ID s) \<longrightarrow>
        (\<exists>r'. map_of (db_rows (eg_db eg)) (ds_ID s) = Some r' \<and> sr_Messages r' = sr_Messages r))"
    by (rule failed_write_forgotten [OF run failed prep ok(1) row _ _ _ _ known])
      (simp_all add: name demo_sync_env_def demo_env_with_def demo_pending_def demo_discovered_def stamp_file_def demo_parsed_def or_empty_def)
  then show ?thesis using some ok(2) by (auto simp: run sid r_def)
qed

section \<open>The sync of a single session removes nothing\<close>

definition live_ids :: "('g, 'f) SessionDB \<Rightarrow> string set" where
  "live_ids st = dom (map_of (db_rows st))"

lemma live_put [simp]: "live_ids (put_row sid r st) = insert sid (live_ids st)"
  by (simp add: live_ids_def)

lemma live_some: "map_of (db_rows st) sid = Some r \<Longrightarrow> sid \<in> live_ids st"
  by (auto simp: live_ids_def)

lemma live_on_row: "on_row sid f st = Some st' \<Longrightarrow> live_ids st \<subseteq> live_ids st'"
  by (auto simp: on_row_def split: option.splits)

lemma live_signals: "live_ids (put_signals ev sid gf st) = live_ids st"
  by (auto simp: put_signals_def Let_def live_some split: option.split)

lemma live_version: "SetSessionDataVersion ok sid v st = Some st' \<Longrightarrow> live_ids st' = live_ids st"
  by (auto simp: SetSessionDataVersion_def live_some split: if_splits option.splits)

lemma live_content:
  assumes "write_content ev pw rep s msgs events st = (good, st')"
  shows "live_ids st \<subseteq> live_ids st'"
proof -
  have first: "live_ids st \<subseteq> live_ids st1"
    if "(if rep then ReplaceSessionContent (ev_ok ev) (ev_year ev) (ds_ID s) msgs (fst (ev_signals ev s msgs))
          (snd (ev_signals ev s msgs)) st else write_messages ev (ds_ID s) msgs st) = Some st1" for st1
    using that by (cases rep) (auto simp: ReplaceSessionContent_def write_messages_def Let_def dest: live_on_row split: if_splits option.splits)
  show ?thesis using assms
  proof (cases rule: write_content_cases)
    case (good st1 st2 st3)
    have "live_ids st1 \<subseteq> live_ids st2" using good(3) by (auto simp: ReplaceSessionUsageEvents_def dest: live_on_row split: if_splits)
    moreover have "live_ids st3 = live_ids st2" using good(4) by (auto dest: live_version split: option.splits)
    moreover have "live_ids st' = live_ids st3" by (cases rep) (simp_all add: good(5) live_signals)
    ultimately show ?thesis using first [OF good(2)] by blast
  qed (auto dest: first)
qed

lemma live_full:
  assumes "writeSessionFull ev pw eg = (good, eg')"
  shows "live_ids (eg_db eg) \<subseteq> live_ids (eg_db eg')"
proof (cases "prepareSessionWrite ev pw")
  case (Inl reason)
  then show ?thesis using assms by (simp add: writeSessionFull_def)
next
  case (Inr p)
  obtain s msgs events where p: "p = (s, msgs, events)" by (metis prod.exhaust)
  show ?thesis
  proof (cases "UpsertSession (ev_ok ev) (ev_automation ev) (ev_year ev) s (eg_db eg)")
    case (Inl e)
    then show ?thesis using assms Inr p by (auto simp: writeSessionFull_def Let_def cacheSkip_def split: if_splits)
  next
    case up: (Inr st1)
    obtain g st2 where w: "write_content ev pw True s msgs events st1 = (g, st2)" by fastforce
    have "live_ids (eg_db eg) \<subseteq> live_ids st1" using up by (auto simp: UpsertSession_def Let_def split: if_splits)
    then show ?thesis using live_content [OF w] assms Inr p up w by (auto simp: writeSessionFull_def)
  qed
qed

lemma live_results: "write_results ev retry prs eg = (good, eg') \<Longrightarrow> live_ids (eg_db eg) \<subseteq> live_ids (eg_db eg')"
proof (induction prs arbitrary: eg)
  case (Cons pr prs)
  obtain g eg1 where w: "writeSessionFull ev \<lparr>pw_result = pr, pw_needsRetry = retry, pw_forceReplace = False\<rparr> eg = (g, eg1)"
    by fastforce
  show ?case using Cons live_full [OF w] by (cases g) (force simp: w)+
qed simp

lemma live_incremental:
  assumes "engine_writeIncremental ev inc eg = (good, eg')"
  shows "live_ids (eg_db eg) \<subseteq> live_ids (eg_db eg')"
proof -
  have m: "live_ids st \<subseteq> live_ids st'" if "applyWorktreeMapping ev sid st = Some st'" for sid st st'
    using that by (auto simp: applyWorktreeMapping_def split: if_splits option.splits)
  have s: "live_ids (recomputeSignals ev sid st) = live_ids st" for sid st
    by (auto simp: recomputeSignals_def live_signals split: option.split)
  show ?thesis using assms unfolding engine_writeIncremental_def Let_def
    by (auto simp: s split: option.splits prod.splits if_splits dest!: m)
qed

lemma live_link: "live_ids (LinkSubagentSessions ev st) = live_ids st"
  by (auto simp: LinkSubagentSessions_def live_ids_def map_of_keyed split: option.splits)

text \<open>
  C25. The upsert of an ordinary pass fails open: when the lookup in the list of deleted ids fails, its error is
  ignored, and a session the user deleted for good has a row again.
\<close>

theorem unseen_deletion_undone:
  assumes run: "write_one ev force pw (c, eg) = (c', eg')" and prep: "prepareSessionWrite ev pw = Inr (s, msgs, events)"
    and gone: "ds_ID s \<in> set (db_excluded (eg_db eg))" "map_of (db_rows (eg_db eg)) (ds_ID s) = None"
    and ok: "\<not> ev_ok ev CheckExcluded (ds_ID s)" "ev_ok ev Upsert (ds_ID s)"
  shows "map_of (db_rows (eg_db eg')) (ds_ID s) \<noteq> None \<and> ds_ID s \<in> set (db_excluded (eg_db eg'))"
proof -
  have id: "ds_ID (sanitize_session (ev_year ev) s) = ds_ID s" by (rule sanitize_session_ID)
  have "\<not> trashed (eg_db eg) (ds_ID s)" using gone(2) by (simp add: trashed_def)
  then obtain st1 where up: "UpsertSession (ev_ok ev) (ev_automation ev) (ev_year ev) s (eg_db eg) = Inr st1"
    using ok by (simp add: UpsertSession_def Let_def id)
  obtain rep good st2 where w: "write_content ev pw rep s msgs events st1 = (good, st2)" and eg': "eg_db eg' = st2"
    using run prep up by (auto simp: write_one_def Let_def split: prod.splits bool.splits)
  have "ds_ID s \<in> live_ids st1" using upsert_row [OF up] by (rule live_some)
  then have "ds_ID s \<in> live_ids st2" using live_content [OF w] by blast
  moreover have "db_excluded st1 = db_excluded (eg_db eg)" using up by (auto simp: UpsertSession_def Let_def split: if_splits)
  moreover have "db_excluded st2 = db_excluded st1"
    using keeps_write_content [OF w, of "\<lambda>_. False"] by (simp add: keeps_deletions_def)
  ultimately show ?thesis using gone(1) by (auto simp: eg' live_ids_def)
qed

text \<open>An engine whose session \<open>s\<close> was deleted for good, and a database that does not answer the lookup.\<close>

definition demo_deleted_engine :: "(unit, unit) Engine" where
  "demo_deleted_engine = demo_engine\<lparr>eg_db := \<lparr>db_rows = [], db_excluded = [''s'']\<rparr>\<rparr>"

definition no_lookup :: "Stmt \<Rightarrow> string \<Rightarrow> bool" where
  "no_lookup s sid \<longleftrightarrow> s \<noteq> CheckExcluded"

theorem unseen_deletion_undone_witness:
  "map_of (db_rows (eg_db (snd (write_one (demo_sync_env no_lookup 4 1 []) False demo_pending (no_counts, demo_deleted_engine))))) ''s'' \<noteq> None"
proof -
  let ?ev = "demo_sync_env no_lookup 4 1 []"
  have "\<not> isl (prepareSessionWrite ?ev demo_pending)" by code_simp
  then obtain s msgs events where prep: "prepareSessionWrite ?ev demo_pending = Inr (s, msgs, events)" and sid: "ds_ID s = ''s''"
    using demo_prepared [of "\<lambda>_ _. ((), ())" no_lookup] unfolding demo_sync_env_def by blast
  obtain c eg where run: "write_one ?ev False demo_pending (no_counts, demo_deleted_engine) = (c, eg)" by fastforce
  have "map_of (db_rows (eg_db eg)) (ds_ID s) \<noteq> None \<and> ds_ID s \<in> set (db_excluded (eg_db eg))"
    by (rule unseen_deletion_undone [OF run prep])
      (simp_all add: sid demo_deleted_engine_def demo_sync_env_def demo_env_with_def no_lookup_def)
  then show ?thesis by (simp add: run sid)
qed

text \<open>
  The sync of a single session removes no session: also the stale forks of its file, which a pass over the
  file removes, are still there afterwards.
\<close>

theorem single_sync_keeps_stale:
  "dom (map_of (db_rows (eg_db eg))) \<subseteq>
     dom (map_of (db_rows (eg_db (snd (SyncSingleClaude ev path parentDir sessionID eg)))))"
proof -
  obtain good eg' where run: "SyncSingleClaude ev path parentDir sessionID eg = (good, eg')" by fastforce
  have clear: "eg_db (if b then clearSkip path eg else eg) = eg_db eg" for b by (simp add: clearSkip_def)
  have "live_ids (eg_db eg) \<subseteq> live_ids (eg_db eg')"
    using run unfolding SyncSingleClaude_def Let_def
    by (auto simp: cacheSkip_def clear live_link split: if_splits option.splits prod.splits bool.splits
      dest!: live_incremental live_results)
  then show ?thesis by (simp add: run live_ids_def)
qed

end
