(* ===== verification/Signal_Compute.thy ===== *)
theory Signal_Compute
  imports Sync_Write Secrets Signals_Tool Signals_Context Signals_Score
begin

text \<open>
  What the engine derives from the messages of a session: its quality signals
  (\<open>internal/sync/signal_compute.go\<close>), which feed the functions of \<^theory_text>\<open>Signals_Tool\<close>, \<^theory_text>\<open>Signals_Context\<close> and
  \<^theory_text>\<open>Signals_Score\<close>, and its secret findings (\<open>internal/sync/secret_scan.go\<close>) by the scanner of
  \<^theory_text>\<open>Secrets\<close>; then the way back from a stored finding to its text (\<open>internal/db/secret_findings.go\<close>,
  \<open>internal/service/direct.go\<close>). \<open>SignalEnv\<close> holds the clock, the reader and writer of times, the iteration order
  of a map, and the rules of the scanner with their versions.
\<close>

section \<open>Signals\<close>

record SessionSignalUpdate =
  su_ToolFailureSignalCount :: nat
  su_ToolRetryCount :: nat
  su_EditChurnCount :: nat
  su_ConsecutiveFailureMax :: nat
  su_Outcome :: string
  su_OutcomeConfidence :: string
  su_EndedWithRole :: string
  su_FinalFailureStreak :: nat
  su_SignalsPendingSince :: "string option"
  su_CompactionCount :: nat
  su_MidTaskCompactionCount :: nat
  su_ContextPressureMax :: "rat option"
  su_HealthScore :: "int option"
  su_HealthGrade :: "string option"
  su_HasToolCalls :: bool
  su_HasContextData :: bool
  su_SecretLeakCount :: nat
  su_SecretsRulesVersion :: string

record SignalEnv =
  se_now :: time
  se_parse :: "string \<Rightarrow> time"
  se_format :: "time \<Rightarrow> string"
  se_order :: "(string \<times> int) list \<Rightarrow> (string \<times> int) list"
  se_rules :: "rule list"
  se_deny :: bool
  se_fixture :: "string \<Rightarrow> bool"
  se_definiteVersion :: string
  se_fullVersion :: string

definition call_row :: "Message \<Rightarrow> nat \<times> ToolCall \<Rightarrow> ToolCallRow" where
  "call_row m itc =
     (case itc of (i, tc) \<Rightarrow>
        \<lparr>ToolName = tc_ToolName tc, Category = tc_Category tc, InputJSON = tc_InputJSON tc,
         ResultContent = tc_ResultContent tc, MessageOrdinal = m_Ordinal m, CallIndex = int i,
         EventStatus = (if tc_ResultEvents tc \<noteq> [] then tre_Status (last (tc_ResultEvents tc)) else [])\<rparr>)"

definition extractToolCallRows :: "Message list \<Rightarrow> ToolCallRow list" where
  "extractToolCallRows msgs = concat (map (\<lambda>m. map (call_row m) (enumerate 0 (m_ToolCalls m))) msgs)"

definition extractContextTokens :: "Message list \<Rightarrow> ContextTokenRow list" where
  "extractContextTokens msgs =
     map (\<lambda>m. \<lparr>ContextTokens = m_ContextTokens m, HasContextTokens = m_HasContextTokens m\<rparr>)
       (filter (\<lambda>m. m_Role m = ''assistant'') msgs)"

definition extractCompactBoundaryOrdinals :: "Message list \<Rightarrow> int list" where
  "extractCompactBoundaryOrdinals msgs = map m_Ordinal (filter m_IsCompactBoundary msgs)"

text \<open>
  The most common model: how often each model occurs and where it occurs first, and the choice over the entries of the
  first map in the order in which the map is walked.
\<close>

definition model_step :: "nat \<times> Message \<Rightarrow> (string, int) gomap \<times> (string, nat) gomap \<Rightarrow> (string, int) gomap \<times> (string, nat) gomap" where
  "model_step im acc =
     (case (im, acc) of ((i, m), (counts, firstSeen)) \<Rightarrow>
        if m_Role m \<noteq> ''assistant'' \<or> m_Model m = [] then (counts, firstSeen)
        else (AList.update (m_Model m) ((case map_of counts (m_Model m) of Some n \<Rightarrow> n | None \<Rightarrow> 0) + 1) counts,
              if map_of firstSeen (m_Model m) = None then AList.update (m_Model m) i firstSeen else firstSeen))"

definition first_of :: "(string, nat) gomap \<Rightarrow> string \<Rightarrow> nat" where
  "first_of firstSeen model = (case map_of firstSeen model of Some i \<Rightarrow> i | None \<Rightarrow> 0)"

definition best_step :: "(string, nat) gomap \<Rightarrow> string \<times> int \<Rightarrow> string \<times> int \<Rightarrow> string \<times> int" where
  "best_step firstSeen entry acc =
     (case (entry, acc) of ((model, n), (best, bestCount)) \<Rightarrow>
        if n > bestCount then (model, n)
        else if n = bestCount \<and> first_of firstSeen model < first_of firstSeen best then (model, bestCount)
        else (best, bestCount))"

definition extractMostCommonModel :: "((string \<times> int) list \<Rightarrow> (string \<times> int) list) \<Rightarrow> Message list \<Rightarrow> string" where
  "extractMostCommonModel order msgs =
     (case fold model_step (enumerate 0 msgs) ([], []) of
        (counts, firstSeen) \<Rightarrow> fst (fold (best_step firstSeen) (order counts) ([], -1)))"

definition extractLastMessageRole :: "Message list \<Rightarrow> string \<times> string" where
  "extractLastMessageRole msgs =
     (case find (\<lambda>m. \<not> m_IsSystem m) (rev msgs) of None \<Rightarrow> ([], []) | Some m \<Rightarrow> (m_Role m, m_Content m))"

definition computeFinalStreak :: "ToolCallRow list \<Rightarrow> nat" where
  "computeFinalStreak calls = length (takeWhile IsFailure (rev calls))"

definition computeSignalsFromMessages :: "SignalEnv \<Rightarrow> DbSession \<Rightarrow> Message list \<Rightarrow> SessionSignalUpdate" where
  "computeSignalsFromMessages se sess msgs =
     (let toolRows = extractToolCallRows msgs;
          ctxTokens = extractContextTokens msgs;
          boundaries = extractCompactBoundaryOrdinals msgs;
          model = extractMostCommonModel (se_order se) msgs;
          (lastRole, lastContent) = extractLastMessageRole msgs;
          toolHealth = ComputeToolHealth toolRows;
          ctxPressure = ComputeContextPressure ctxTokens (ds_PeakContextTokens sess) model;
          compactionCount = (if boundaries \<noteq> [] then length boundaries else cpr_CompactionCount ctxPressure);
          midTaskCount = CountMidTaskCompactions boundaries
            (map (\<lambda>t. \<lparr>tco_MessageOrdinal = MessageOrdinal t, tco_ToolName = ToolName t\<rparr>) toolRows);
          finalStreak = computeFinalStreak toolRows;
          lastActivity = (case s_EndedAt sess of None \<Rightarrow> 0 | Some t \<Rightarrow> se_parse se t);
          outcomeResult = ClassifyOutcome (se_now se)
            \<lparr>oi_IsAutomated = ds_IsAutomated sess, oi_MessageCount = ds_MessageCount sess, oi_EndedWithRole = lastRole,
             oi_FinalFailureStreak = int finalStreak, oi_LastAssistantText = lastContent, oi_LastActivity = lastActivity\<rparr>;
          hasContextData = (ds_HasPeakContextTokens sess \<or> list_ex HasContextTokens ctxTokens);
          scoreResult = ComputeHealthScore
            \<lparr>si_Outcome = or_Outcome outcomeResult, si_OutcomeConfidence = or_Confidence outcomeResult,
             si_HasToolCalls = (toolRows \<noteq> []), si_FailureSignalCount = int (ths_FailureSignalCount toolHealth),
             si_RetryCount = int (ths_RetryCount toolHealth), si_EditChurnCount = int (ths_EditChurnCount toolHealth),
             si_ConsecutiveFailMax = int (ths_ConsecutiveFailureMax toolHealth), si_HasContextData = hasContextData,
             si_CompactionCount = int compactionCount, si_MidTaskCompactionCount = int midTaskCount,
             si_PressureMax = cpr_PressureMax ctxPressure\<rparr>
      in \<lparr>su_ToolFailureSignalCount = ths_FailureSignalCount toolHealth, su_ToolRetryCount = ths_RetryCount toolHealth,
          su_EditChurnCount = ths_EditChurnCount toolHealth, su_ConsecutiveFailureMax = ths_ConsecutiveFailureMax toolHealth,
          su_Outcome = or_Outcome outcomeResult, su_OutcomeConfidence = or_Confidence outcomeResult,
          su_EndedWithRole = lastRole, su_FinalFailureStreak = finalStreak,
          su_SignalsPendingSince = (if or_IsRecent outcomeResult then Some (se_format se (se_now se)) else None),
          su_CompactionCount = compactionCount, su_MidTaskCompactionCount = midTaskCount,
          su_ContextPressureMax = cpr_PressureMax ctxPressure, su_HealthScore = sr_Score scoreResult,
          su_HealthGrade = (if sr_Grade scoreResult \<noteq> [] then Some (sr_Grade scoreResult) else None),
          su_HasToolCalls = (toolRows \<noteq> []), su_HasContextData = hasContextData, su_SecretLeakCount = 0,
          su_SecretsRulesVersion = []\<rparr>)"

section \<open>Secret findings\<close>

record SecretFinding =
  sf_SessionID :: string
  sf_RuleName :: string
  sf_Confidence :: string
  sf_LocationKind :: string
  sf_MessageOrdinal :: int
  sf_CallIndex :: "nat option"
  sf_EventIndex :: "nat option"
  sf_MatchStart :: nat
  sf_MatchEnd :: nat
  sf_MatchIndex :: nat
  sf_RedactedMatch :: string

definition findings_at :: "Message \<Rightarrow> string \<Rightarrow> nat option \<Rightarrow> nat option \<Rightarrow> Match list \<Rightarrow> SecretFinding list" where
  "findings_at msg loc call event matches =
     map (\<lambda>m. \<lparr>sf_SessionID = m_SessionID msg, sf_RuleName = ma_Rule m, sf_Confidence = ma_Confidence m, sf_LocationKind = loc,
       sf_MessageOrdinal = m_Ordinal msg, sf_CallIndex = call, sf_EventIndex = event, sf_MatchStart = ma_Start m,
       sf_MatchEnd = ma_End m, sf_MatchIndex = ma_Index m, sf_RedactedMatch = ma_Redacted m\<rparr>) matches"

definition call_findings :: "(string \<Rightarrow> Match list) \<Rightarrow> Message \<Rightarrow> nat \<times> ToolCall \<Rightarrow> SecretFinding list" where
  "call_findings scan msg itc =
     (case itc of (i, tc) \<Rightarrow>
        findings_at msg ''tool_input'' (Some i) None (scan (tc_InputJSON tc)) @
        (if tc_ResultEvents tc \<noteq> []
         then concat (map (\<lambda>(j, ev). findings_at msg ''tool_result_event'' (Some i) (Some j) (scan (tre_Content ev)))
                (enumerate 0 (tc_ResultEvents tc)))
         else findings_at msg ''tool_result'' (Some i) None (scan (tc_ResultContent tc))))"

definition message_findings :: "(string \<Rightarrow> Match list) \<Rightarrow> Message \<Rightarrow> SecretFinding list" where
  "message_findings scan msg =
     findings_at msg ''message'' None None (scan (m_Content msg)) @
     concat (map (call_findings scan msg) (enumerate 0 (m_ToolCalls msg)))"

definition scanSecretsFromMessages :: "(string \<Rightarrow> Match list) \<Rightarrow> Message list \<Rightarrow> SecretFinding list \<times> nat" where
  "scanSecretsFromMessages scan msgs =
     (let findings = concat (map (message_findings scan) msgs)
      in (findings, length (filter (\<lambda>f. sf_Confidence f = ConfidenceDefinite) findings)))"

definition computeSignalsAndSecrets :: "SignalEnv \<Rightarrow> DbSession \<Rightarrow> Message list \<Rightarrow> SessionSignalUpdate \<times> SecretFinding list" where
  "computeSignalsAndSecrets se s msgs =
     (case scanSecretsFromMessages (ScanDefinite (se_rules se) (se_deny se) (se_fixture se)) msgs of
        (findings, leak) \<Rightarrow>
          ((computeSignalsFromMessages se s msgs)\<lparr>su_SecretLeakCount := leak, su_SecretsRulesVersion := se_definiteVersion se\<rparr>,
           findings))"

section \<open>From a stored finding to its text\<close>

text \<open>How a message comes back from the database: the events are numbered by position, and empty fields of an event are filled in.\<close>

definition load_event :: "ToolCall \<Rightarrow> nat \<times> ToolResultEvent \<Rightarrow> ToolResultEvent" where
  "load_event tc iev =
     (case iev of (i, ev) \<Rightarrow>
        ev\<lparr>tre_EventIndex := int i,
           tre_ContentLength := (if tre_ContentLength ev = 0 then int (length (tre_Content ev)) else tre_ContentLength ev),
           tre_ToolUseID := (if tre_ToolUseID ev = [] then tc_ToolUseID tc else tre_ToolUseID ev),
           tre_SubagentSessionID := (if tre_SubagentSessionID ev = [] then tc_SubagentSessionID tc else tre_SubagentSessionID ev)\<rparr>)"

definition load_call :: "ToolCall \<Rightarrow> ToolCall" where
  "load_call tc = tc\<lparr>tc_ResultEvents := map (load_event tc) (enumerate 0 (tc_ResultEvents tc))\<rparr>"

definition load_message :: "Message \<Rightarrow> Message" where
  "load_message m = m\<lparr>m_ToolCalls := map load_call (m_ToolCalls m)\<rparr>"

definition toolCallAt :: "ToolCall list \<Rightarrow> nat option \<Rightarrow> ToolCall option" where
  "toolCallAt calls idx = (case idx of None \<Rightarrow> None | Some i \<Rightarrow> if i \<ge> length calls then None else Some (calls ! i))"

definition resultEventContent :: "ToolResultEvent list \<Rightarrow> nat option \<Rightarrow> string option" where
  "resultEventContent events idx =
     (case idx of None \<Rightarrow> None | Some i \<Rightarrow> map_option tre_Content (find (\<lambda>ev. tre_EventIndex ev = int i) events))"

definition toolCallSource :: "ToolCall list \<Rightarrow> SecretFinding \<Rightarrow> string option" where
  "toolCallSource calls f =
     (case toolCallAt calls (sf_CallIndex f) of
        None \<Rightarrow> None
      | Some tc \<Rightarrow>
          if sf_LocationKind f = ''tool_input'' then Some (tc_InputJSON tc)
          else if sf_LocationKind f = ''tool_result''
            then (if tc_ResultEvents tc \<noteq> [] then None else Some (tc_ResultContent tc))
          else if sf_LocationKind f = ''tool_result_event'' then resultEventContent (tc_ResultEvents tc) (sf_EventIndex f)
          else None)"

definition FindingSourceFromMessages :: "Message list \<Rightarrow> SecretFinding \<Rightarrow> string option" where
  "FindingSourceFromMessages msgs f =
     (case find (\<lambda>m. m_Ordinal m = sf_MessageOrdinal f) msgs of
        None \<Rightarrow> None
      | Some msg \<Rightarrow>
          if sf_LocationKind f = ''message'' then Some (m_Content msg) else toolCallSource (m_ToolCalls msg) f)"

definition Verify :: "(string \<Rightarrow> Match list) \<Rightarrow> string \<Rightarrow> string \<Rightarrow> nat \<Rightarrow> nat \<Rightarrow> bool" where
  "Verify scan ruleName source start fin \<longleftrightarrow>
     \<not> (fin > length source \<or> start \<ge> fin) \<and>
     list_ex (\<lambda>m. ma_Rule m = ruleName \<and> ma_Start m = start \<and> ma_End m = fin) (scan source)"

text \<open>\<open>revealFinding\<close>; \<open>None\<close> is the marker that the source has changed.\<close>

definition revealFinding :: "SignalEnv \<Rightarrow> Message list \<Rightarrow> SecretFinding \<Rightarrow> string option" where
  "revealFinding se msgs f =
     (case FindingSourceFromMessages msgs f of
        None \<Rightarrow> None
      | Some src \<Rightarrow>
          if Verify (Scan (se_rules se) (se_deny se) (se_fixture se)) (sf_RuleName f) src (sf_MatchStart f) (sf_MatchEnd f)
          then Some (slice src (sf_MatchStart f) (sf_MatchEnd f)) else None)"

text \<open>The explicit scan of one session with all rules: the row, the numbers of findings and of definite ones.\<close>

definition zero_update :: SessionSignalUpdate where
  "zero_update = \<lparr>su_ToolFailureSignalCount = 0, su_ToolRetryCount = 0, su_EditChurnCount = 0, su_ConsecutiveFailureMax = 0,
     su_Outcome = ''unknown'', su_OutcomeConfidence = ''low'', su_EndedWithRole = [], su_FinalFailureStreak = 0,
     su_SignalsPendingSince = None, su_CompactionCount = 0, su_MidTaskCompactionCount = 0, su_ContextPressureMax = None,
     su_HealthScore = None, su_HealthGrade = None, su_HasToolCalls = False, su_HasContextData = False, su_SecretLeakCount = 0,
     su_SecretsRulesVersion = []\<rparr>"

definition scanOneSession ::
  "SignalEnv \<Rightarrow> bool \<Rightarrow> string \<Rightarrow> (SessionSignalUpdate, SecretFinding list) SessionDB \<Rightarrow>
   (nat \<times> nat) option \<times> (SessionSignalUpdate, SecretFinding list) SessionDB" where
  "scanOneSession se persist_ok sid st =
     (case map_of (db_rows st) sid of
        None \<Rightarrow> (None, st)
      | Some r \<Rightarrow>
          (case scanSecretsFromMessages (Scan (se_rules se) (se_deny se) (se_fixture se)) (map load_message (sr_Messages r)) of
             (findings, leak) \<Rightarrow>
               if \<not> persist_ok then (None, st)
               else (Some (length findings, leak),
                 put_row sid (r\<lparr>sx_Findings := Some findings,
                   sx_Signals := Some ((case sx_Signals r of Some u \<Rightarrow> u | None \<Rightarrow> zero_update)
                     \<lparr>su_SecretLeakCount := leak, su_SecretsRulesVersion := se_fullVersion se\<rparr>)\<rparr>) st)))"

section \<open>Findings can be revealed\<close>

definition finding_of :: "SecretFinding \<Rightarrow> Match \<Rightarrow> bool" where
  "finding_of f m \<longleftrightarrow> sf_RuleName f = ma_Rule m \<and> sf_Confidence f = ma_Confidence m \<and> sf_MatchStart f = ma_Start m \<and>
     sf_MatchEnd f = ma_End m \<and> sf_MatchIndex f = ma_Index m \<and> sf_RedactedMatch f = ma_Redacted m"

lemma findings_at_mem:
  assumes "f \<in> set (findings_at msg loc call event matches)"
  shows "\<exists>m \<in> set matches. finding_of f m" "sf_LocationKind f = loc" "sf_MessageOrdinal f = m_Ordinal msg"
    "sf_CallIndex f = call" "sf_EventIndex f = event"
  using assms by (auto simp: findings_at_def finding_of_def)

lemma find_event:
  assumes "j < length evs"
  shows "find (\<lambda>ev. tre_EventIndex ev = int j) (map (load_event tc) (enumerate 0 evs)) = Some (load_event tc (j, evs ! j))"
  unfolding find_Some_iff
  by (rule exI [of _ j]) (use assms in \<open>auto simp: nth_enumerate_eq load_event_def\<close>)

lemma load_event_content: "tre_Content (load_event tc (j, ev)) = tre_Content ev"
  by (simp add: load_event_def)

lemma load_call_simps [simp]:
  "tc_InputJSON (load_call tc) = tc_InputJSON tc" "tc_ResultContent (load_call tc) = tc_ResultContent tc"
  "tc_ResultEvents (load_call tc) = map (load_event tc) (enumerate 0 (tc_ResultEvents tc))"
  by (simp_all add: load_call_def)

lemma load_message_simps [simp]:
  "m_Ordinal (load_message m) = m_Ordinal m" "m_Content (load_message m) = m_Content m"
  "m_ToolCalls (load_message m) = map load_call (m_ToolCalls m)"
  by (simp_all add: load_message_def)

lemma call_source:
  assumes f: "f \<in> set (call_findings scan msg (i, tc))" and i: "i < length calls" "tc = calls ! i"
  shows "\<exists>body. toolCallSource (map load_call calls) f = Some body \<and> (\<exists>m \<in> set (scan body). finding_of f m) \<and>
    sf_LocationKind f \<noteq> ''message'' \<and> sf_MessageOrdinal f = m_Ordinal msg"
proof -
  have at: "toolCallAt (map load_call calls) (Some i) = Some (load_call tc)" using i by (simp add: toolCallAt_def)
  consider (inp) "f \<in> set (findings_at msg ''tool_input'' (Some i) None (scan (tc_InputJSON tc)))"
    | (result) "tc_ResultEvents tc = []" "f \<in> set (findings_at msg ''tool_result'' (Some i) None (scan (tc_ResultContent tc)))"
    | (event) j ev where "(j, ev) \<in> set (enumerate 0 (tc_ResultEvents tc))"
        "f \<in> set (findings_at msg ''tool_result_event'' (Some i) (Some j) (scan (tre_Content ev)))"
    using f by (auto simp: call_findings_def split: if_splits)
  then show ?thesis
  proof cases
    case inp
    note f = findings_at_mem [OF inp]
    then show ?thesis by (auto simp: toolCallSource_def at)
  next
    case result
    note f = findings_at_mem [OF result(2)]
    then show ?thesis by (auto simp: toolCallSource_def at result(1))
  next
    case event
    note f = findings_at_mem [OF event(2)]
    have j: "j < length (tc_ResultEvents tc)" "ev = tc_ResultEvents tc ! j"
      using event(1) by (auto simp: in_set_enumerate_eq)
    have "toolCallSource (map load_call calls) f = Some (tre_Content ev)"
      using f j by (simp add: toolCallSource_def at resultEventContent_def find_event load_event_content)
    then show ?thesis using f by auto
  qed
qed

lemma finding_source:
  assumes f: "f \<in> set (fst (scanSecretsFromMessages scan msgs))" and d: "distinct (map m_Ordinal msgs)"
  shows "\<exists>body. FindingSourceFromMessages (map load_message msgs) f = Some body \<and> (\<exists>m \<in> set (scan body). finding_of f m)"
proof -
  obtain msg where msg: "msg \<in> set msgs" "f \<in> set (message_findings scan msg)"
    using f by (auto simp: scanSecretsFromMessages_def Let_def)
  have at: "find (\<lambda>m. m_Ordinal m = m_Ordinal msg) (map load_message msgs) = Some (load_message msg)"
    using find_by_ordinal [of "map load_message msgs" "load_message msg"] d msg(1) by (simp add: comp_def)
  show ?thesis
  proof (cases "f \<in> set (findings_at msg ''message'' None None (scan (m_Content msg)))")
    case True
    note f = findings_at_mem [OF True]
    then show ?thesis by (auto simp: FindingSourceFromMessages_def at)
  next
    case False
    then obtain i tc where itc: "(i, tc) \<in> set (enumerate 0 (m_ToolCalls msg))" "f \<in> set (call_findings scan msg (i, tc))"
      using msg(2) by (auto simp: message_findings_def)
    have "i < length (m_ToolCalls msg)" "tc = m_ToolCalls msg ! i" using itc(1) by (auto simp: in_set_enumerate_eq)
    from call_source [OF itc(2) this] show ?thesis by (auto simp: FindingSourceFromMessages_def at)
  qed
qed

text \<open>What a regular expression engine promises of its matches: they are not empty and lie in the text.\<close>

definition spans_ok :: "rule list \<Rightarrow> bool" where
  "spans_ok rules \<longleftrightarrow> (\<forall>body. \<forall>m \<in> set (scanRaw rules body). ma_Start m < ma_End m \<and> ma_End m \<le> length body)"

lemma unindexed_fields:
  "unindexed m = unindexed m' \<Longrightarrow> ma_Rule m = ma_Rule m' \<and> ma_Start m = ma_Start m' \<and> ma_End m = ma_End m'"
  by (cases m; cases m') (simp add: unindexed_def)

lemma Scan_raw:
  assumes "m \<in> set (Scan rules deny fx body)"
  shows "unindexed m \<in> set (scanRaw rules body)"
proof -
  have "unindexed m \<in> set (map unindexed (Scan rules deny fx body))" using assms by simp
  then obtain m' where "m' \<in> set (scanRaw rules body)" "unindexed m = unindexed m'"
    unfolding Scan_def Let_def number_unindexed by auto
  then show ?thesis using scanRaw_index by metis
qed

lemma either_in_Scan:
  assumes "m \<in> set (scan body)" "scan \<in> {Scan rules deny fx, ScanDefinite rules deny fx}"
  shows "\<exists>m' \<in> set (Scan rules deny fx body). unindexed m' = unindexed m"
proof (cases "scan = Scan rules deny fx")
  case False
  then have "unindexed m \<in> set (map unindexed (ScanDefinite rules deny fx body))" using assms by auto
  then show ?thesis unfolding ScanDefinite_exact by auto
qed (use assms in auto)

lemma reveal_match:
  assumes spans: "spans_ok (se_rules se)" and d: "distinct (map m_Ordinal msgs)"
    and scan: "scan \<in> {Scan (se_rules se) (se_deny se) (se_fixture se), ScanDefinite (se_rules se) (se_deny se) (se_fixture se)}"
    and f: "f \<in> set (fst (scanSecretsFromMessages scan msgs))"
  shows "\<exists>body. (\<exists>m \<in> set (scan body). finding_of f m) \<and>
    revealFinding se (map load_message msgs) f = Some (slice body (sf_MatchStart f) (sf_MatchEnd f))"
proof -
  obtain body m where src: "FindingSourceFromMessages (map load_message msgs) f = Some body"
    and m: "m \<in> set (scan body)" "finding_of f m"
    using finding_source [OF f d] by blast
  obtain m' where m': "m' \<in> set (Scan (se_rules se) (se_deny se) (se_fixture se) body)" "unindexed m' = unindexed m"
    using either_in_Scan [OF m(1) scan] by blast
  have "ma_Start (unindexed m') < ma_End (unindexed m') \<and> ma_End (unindexed m') \<le> length body"
    using spans Scan_raw [OF m'(1)] by (auto simp: spans_ok_def)
  then have "Verify (Scan (se_rules se) (se_deny se) (se_fixture se)) (sf_RuleName f) body (sf_MatchStart f) (sf_MatchEnd f)"
    using m' unindexed_fields [OF m'(2)] m(2)
    by (auto simp: Verify_def list_ex_iff finding_of_def unindexed_def)
  then show ?thesis using src m by (auto simp: revealFinding_def)
qed

text \<open>
  C13. Every secret that a scan reports can be shown again: from the messages as they come back from the database, the
  coordinates of a finding lead to the scanned text, the rule is still found there, and the value is the match.
\<close>

theorem findings_revealed:
  assumes "spans_ok (se_rules se)" "distinct (map m_Ordinal msgs)"
    "scan \<in> {Scan (se_rules se) (se_deny se) (se_fixture se), ScanDefinite (se_rules se) (se_deny se) (se_fixture se)}"
    "f \<in> set (fst (scanSecretsFromMessages scan msgs))"
  shows "\<exists>body. (\<exists>m \<in> set (scan body). finding_of f m) \<and>
    revealFinding se (map load_message msgs) f = Some (slice body (sf_MatchStart f) (sf_MatchEnd f))"
  using reveal_match [OF assms] .

section \<open>The choice of the model\<close>

definition models_ok :: "nat \<Rightarrow> (string, int) gomap \<times> (string, nat) gomap \<Rightarrow> bool" where
  "models_ok i acc \<longleftrightarrow>
     distinct (map fst (fst acc)) \<and> (\<forall>k \<in> fst ` set (fst acc). map_of (snd acc) k \<noteq> None) \<and>
     (\<forall>k j. map_of (snd acc) k = Some j \<longrightarrow> j < i \<and> (\<forall>k'. map_of (snd acc) k' = Some j \<longrightarrow> k' = k))"

lemma models_ok_step:
  assumes "models_ok i acc"
  shows "models_ok (Suc i) (model_step (i, m) acc)"
proof -
  obtain counts firstSeen where acc: "acc = (counts, firstSeen)" by fastforce
  show ?thesis
  proof (cases "m_Role m \<noteq> ''assistant'' \<or> m_Model m = []")
    case True
    then show ?thesis using assms by (auto simp: acc model_step_def models_ok_def intro: less_SucI)
  next
    case False
    let ?k = "m_Model m"
    define counts' where "counts' = AList.update ?k ((case map_of counts ?k of Some n \<Rightarrow> n | None \<Rightarrow> 0) + 1) counts"
    define first' where "first' = (if map_of firstSeen ?k = None then AList.update ?k i firstSeen else firstSeen)"
    have step: "model_step (i, m) acc = (counts', first')"
      using False by (simp add: model_step_def acc counts'_def first'_def)
    have keys: "fst ` set counts' = insert ?k (fst ` set counts)"
      by (simp add: counts'_def dom_map_of_conv_image_fst [symmetric] update_conv')
    have first': "map_of first' k = (if k = ?k \<and> map_of firstSeen ?k = None then Some i else map_of firstSeen k)" for k
      by (simp add: first'_def update_conv')
    have "distinct (map fst counts')" using assms by (simp add: models_ok_def acc counts'_def distinct_update)
    moreover have "\<forall>k \<in> fst ` set counts'. map_of first' k \<noteq> None"
      using assms unfolding keys first' by (auto simp: models_ok_def acc)
    moreover have "\<forall>k j. map_of first' k = Some j \<longrightarrow> j < Suc i \<and> (\<forall>k'. map_of first' k' = Some j \<longrightarrow> k' = k)"
      using assms unfolding first' by (auto simp: models_ok_def acc intro: less_SucI split: if_splits)
    ultimately show ?thesis unfolding step by (simp add: models_ok_def)
  qed
qed

lemma models_ok_fold: "models_ok i acc \<Longrightarrow> models_ok (i + length msgs) (fold model_step (enumerate i msgs) acc)"
proof (induction msgs arbitrary: i acc)
  case (Cons m msgs)
  show ?case using Cons.IH [OF models_ok_step [OF Cons.prems]] by simp
qed simp

text \<open>The entry that is chosen of two: the more frequent one, of equally frequent ones the earlier.\<close>

definition better :: "(string, nat) gomap \<Rightarrow> string \<times> int \<Rightarrow> string \<times> int \<Rightarrow> bool" where
  "better firstSeen a b \<longleftrightarrow> snd a > snd b \<or> snd a = snd b \<and> first_of firstSeen (fst a) < first_of firstSeen (fst b)"

lemma best_step_better: "best_step firstSeen a x = (if better firstSeen a x then a else x)"
  by (cases a; cases x) (simp add: best_step_def better_def)

lemma better_asym: "better fs a b \<Longrightarrow> \<not> better fs b a"
  by (auto simp: better_def)

lemma better_trans: "better fs a b \<Longrightarrow> better fs b c \<Longrightarrow> better fs a c"
  by (auto simp: better_def)

lemma better_total: "\<not> better fs a b \<Longrightarrow> \<not> better fs b a \<Longrightarrow> first_of fs (fst a) = first_of fs (fst b)"
  by (auto simp: better_def)

lemma best_step_commute:
  assumes "first_of fs (fst a) = first_of fs (fst b) \<longrightarrow> a = b"
  shows "best_step fs a (best_step fs b x) = best_step fs b (best_step fs a x)"
proof (cases "better fs a x"; cases "better fs b x")
  assume "better fs a x" "better fs b x"
  then show ?thesis using assms better_total [of fs a b] better_asym [of fs a b] by (auto simp: best_step_better)
next
  assume "better fs a x" "\<not> better fs b x"
  then show ?thesis using better_trans [of fs b a x] by (auto simp: best_step_better)
next
  assume "\<not> better fs a x" "better fs b x"
  then show ?thesis using better_trans [of fs a b x] by (auto simp: best_step_better)
qed (simp add: best_step_better)

lemma extractMostCommonModel_order:
  assumes "mset (order (fst (fold model_step (enumerate 0 msgs) ([], [])))) = mset (fst (fold model_step (enumerate 0 msgs) ([], [])))"
  shows "extractMostCommonModel order msgs = extractMostCommonModel (\<lambda>m. m) msgs"
proof -
  obtain counts firstSeen where acc: "fold model_step (enumerate 0 msgs) ([], []) = (counts, firstSeen)" by fastforce
  have ok: "models_ok (0 + length msgs) (counts, firstSeen)"
    using models_ok_fold [of 0 "([], [])" msgs] acc by (simp add: models_ok_def)
  have inj: "a = b" if mem: "a \<in> set counts" "b \<in> set counts" and first: "first_of firstSeen (fst a) = first_of firstSeen (fst b)" for a b
  proof -
    obtain i j where ij: "map_of firstSeen (fst a) = Some i" "map_of firstSeen (fst b) = Some j"
      using ok mem by (fastforce simp: models_ok_def)
    then have "fst a = fst b" using ok first by (auto simp: models_ok_def first_of_def)
    moreover have "distinct (map fst counts)" using ok by (simp add: models_ok_def)
    ultimately show ?thesis using mem by (metis map_of_is_SomeI option.inject prod.collapse prod_eqI)
  qed
  have perm: "mset (order counts) = mset counts" using assms by (simp add: acc)
  have "fold (best_step firstSeen) (order counts) = fold (best_step firstSeen) counts"
  proof (rule fold_multiset_equiv [OF _ perm])
    fix a b
    assume "a \<in> set (order counts)" "b \<in> set (order counts)"
    then have "a \<in> set counts" "b \<in> set counts" using perm by (metis set_mset_mset)+
    then show "best_step firstSeen a \<circ> best_step firstSeen b = best_step firstSeen b \<circ> best_step firstSeen a"
      using inj [of a b] best_step_commute [of firstSeen a b] by (simp add: fun_eq_iff)
  qed
  then show ?thesis by (simp add: extractMostCommonModel_def acc)
qed

text \<open>
  The signals of a session do not depend on the order in which the map of models is walked: ties between models are
  broken by their first occurrence.
\<close>

theorem signals_order_independent:
  assumes "\<And>m. mset (se_order se m) = mset m"
  shows "computeSignalsFromMessages se sess msgs = computeSignalsFromMessages (se\<lparr>se_order := (\<lambda>m. m)\<rparr>) sess msgs"
proof -
  have "extractMostCommonModel (se_order se) msgs = extractMostCommonModel (\<lambda>m. m) msgs"
    by (rule extractMostCommonModel_order) (rule assms)
  then show ?thesis by (cases se) (simp only: computeSignalsFromMessages_def SignalEnv.select_convs SignalEnv.update_convs)
qed

section \<open>What a full write stores\<close>

lemma replaced_row:
  assumes "ReplaceSessionContent ok py sid msgs g f st = Some st'" "map_of (db_rows st) sid = Some r"
  shows "\<exists>r'. map_of (db_rows st') sid = Some r' \<and> sr_Messages r' = map (\<lambda>m. fst (SanitizeMessage py m)) msgs \<and>
    distinct (map m_Ordinal (sr_Messages r')) \<and> sx_Signals r' = Some g \<and> sx_Findings r' = Some f"
proof -
  obtain r1 where r1: "replaceSessionMessages ok (map (\<lambda>m. fst (SanitizeMessage py m)) msgs) r = Some r1"
    and st': "st' = put_row sid (r1\<lparr>sx_Signals := Some g, sx_Findings := Some f\<rparr>) st"
    using assms by (auto simp: ReplaceSessionContent_def Let_def split: if_splits option.splits)
  show ?thesis using replaceSessionMessages_row [OF r1] by (auto simp: st' comp_def)
qed

lemma content_stored:
  assumes w: "write_content ev pw True s msgs events st = (True, st')" and row: "map_of (db_rows st) (ds_ID s) = Some r"
  shows "\<exists>r'. map_of (db_rows st') (ds_ID s) = Some r' \<and> sr_Messages r' = map (\<lambda>m. fst (SanitizeMessage (ev_year ev) m)) msgs \<and>
    distinct (map m_Ordinal (sr_Messages r')) \<and> sx_Signals r' = Some (fst (ev_signals ev s msgs)) \<and>
    sx_Findings r' = Some (snd (ev_signals ev s msgs))"
  using w
proof (cases rule: write_content_cases)
  case (good st1 st2 st3)
  obtain r1 where r1: "map_of (db_rows st1) (ds_ID s) = Some r1"
    "sr_Messages r1 = map (\<lambda>m. fst (SanitizeMessage (ev_year ev) m)) msgs" "distinct (map m_Ordinal (sr_Messages r1))"
    "sx_Signals r1 = Some (fst (ev_signals ev s msgs))" "sx_Findings r1 = Some (snd (ev_signals ev s msgs))"
    using replaced_row [OF good(2) [simplified] row] by blast
  obtain es where st2: "st2 = put_row (ds_ID s) (r1\<lparr>sx_UsageEvents := es\<rparr>) st1"
    using good(3) r1(1) by (auto simp: ReplaceSessionUsageEvents_def on_row_def dest!: usage_row split: if_splits)
  have "\<exists>v. map_of (db_rows st3) (ds_ID s) = Some (r1\<lparr>sx_UsageEvents := es, sr_DataVersion := v\<rparr>)"
  proof (cases "ev_ok ev SetDataVersion (ds_ID s)")
    case True
    then show ?thesis using good(4) by (simp add: st2 SetSessionDataVersion_def) blast
  next
    case False
    then have "map_of (db_rows st3) (ds_ID s) = Some (r1\<lparr>sx_UsageEvents := es, sr_DataVersion := sr_DataVersion r1\<rparr>)"
      using good(4) by (simp add: st2 SetSessionDataVersion_def)
    then show ?thesis by blast
  qed
  then show ?thesis using good(5) r1 by auto
qed simp_all

lemma prepared_sane:
  assumes "prepareSessionWrite ev pw = Inr (s, msgs, events)"
  shows "map (\<lambda>m. fst (SanitizeMessage (ev_year ev) m)) msgs = msgs"
proof -
  obtain raw where "msgs = map (\<lambda>m. fst (SanitizeMessage (ev_year ev) m)) raw"
    using assms unfolding prepareSessionWrite_def Let_def validate_rows_def
    by (auto split: if_splits prod.splits)
  then show ?thesis by (simp add: message_san.san_idem)
qed

text \<open>
  C12. After a successful full write by an engine that computes signals as here, the database is consistent: the stored
  signals are those of the stored messages, the leak count is the number of stored findings, and each of these can
  be revealed from the stored messages.
\<close>

theorem stored_findings_revealed:
  assumes run: "write_one ev force pw (c, eg) = (c', eg')" and written: "wc_sessions c' = wc_sessions c + 1"
    and prep: "prepareSessionWrite ev pw = Inr (s, msgs, events)" and rep: "replaces_messages force pw"
    and sig: "ev_signals ev = computeSignalsAndSecrets se" and spans: "spans_ok (se_rules se)"
  shows "\<exists>r update findings. map_of (db_rows (eg_db eg')) (ds_ID s) = Some r \<and> sx_Signals r = Some update \<and>
    sx_Findings r = Some findings \<and> (update, findings) = computeSignalsAndSecrets se s (sr_Messages r) \<and>
    su_SecretLeakCount update = length findings \<and>
    list_all (\<lambda>f. revealFinding se (map load_message (sr_Messages r)) f \<noteq> None) findings"
proof -
  obtain st1 where up: "UpsertSession (ev_ok ev) (ev_automation ev) (ev_year ev) s (eg_db eg) = Inr st1"
    and w: "write_content ev pw True s msgs events st1 = (True, eg_db eg')"
    using run written prep rep
    by (auto simp: write_one_def Let_def count_failed_def cacheSkip_def split: sum.splits if_splits prod.splits bool.splits)
  obtain r where r: "map_of (db_rows (eg_db eg')) (ds_ID s) = Some r" "sr_Messages r = msgs"
    "distinct (map m_Ordinal msgs)" "sx_Signals r = Some (fst (computeSignalsAndSecrets se s msgs))"
    "sx_Findings r = Some (snd (computeSignalsAndSecrets se s msgs))"
    using content_stored [OF w upsert_row(1) [OF up]] prepared_sane [OF prep] sig by auto
  let ?scan = "ScanDefinite (se_rules se) (se_deny se) (se_fixture se)"
  obtain findings leak where scan: "scanSecretsFromMessages ?scan msgs = (findings, leak)" by fastforce
  have definite: "sf_Confidence f = ConfidenceDefinite" if f: "f \<in> set findings" for f
  proof -
    obtain body m where m: "m \<in> set (?scan body)" "finding_of f m" using finding_source [of f ?scan msgs] f scan r(3) by auto
    have "unindexed m \<in> set (map unindexed (?scan body))" using m(1) by simp
    then have "definite (unindexed m)" unfolding ScanDefinite_exact by simp
    then show ?thesis using m(2) by (simp add: definite_def finding_of_def unindexed_def)
  qed
  have "leak = length findings"
    using scan definite by (auto simp: scanSecretsFromMessages_def Let_def filter_id_conv)
  moreover have "list_all (\<lambda>f. revealFinding se (map load_message msgs) f \<noteq> None) findings"
    unfolding list_all_iff using reveal_match [OF spans r(3), of ?scan] scan by auto
  ultimately show ?thesis using r scan by (auto simp: computeSignalsAndSecrets_def)
qed

section \<open>Runs\<close>

text \<open>One rule for keys at the start of a text, an engine that computes signals with it, and a session that holds such a key.\<close>

definition demo_key_rule :: rule where
  "demo_key_rule =
     \<lparr>rl_name = ''aws'', rl_confidence = ConfidenceDefinite, rl_prefilters = [''AKIA''],
      rl_find = (\<lambda>s. if has_prefix s ''AKIA'' then [[Some (0, 4)]] else []), rl_group = 0, rl_validate = None, rl_mask = (\<lambda>_. ''***'')\<rparr>"

definition demo_signal_env :: SignalEnv where
  "demo_signal_env = \<lparr>se_now = 0, se_parse = (\<lambda>_. 0), se_format = (\<lambda>_. ''t''), se_order = rev, se_rules = [demo_key_rule],
     se_deny = True, se_fixture = (\<lambda>_. False), se_definiteVersion = ''d'', se_fullVersion = ''f''\<rparr>"

lemma demo_spans: "spans_ok (se_rules demo_signal_env)"
  by (auto simp: spans_ok_def demo_signal_env_def scanRaw_def scanRulesRaw_def sort_matches_def rule_matches_def match_at_def
      demo_key_rule_def Let_def has_prefix_iff split: if_splits)

definition demo_secret_message :: Message where
  "demo_secret_message = (demo_message 0 ''u'')\<lparr>m_Content := ''AKIA x''\<rparr>"

definition demo_finding :: SecretFinding where
  "demo_finding = \<lparr>sf_SessionID = ''s'', sf_RuleName = ''aws'', sf_Confidence = ConfidenceDefinite, sf_LocationKind = ''message'',
     sf_MessageOrdinal = 0, sf_CallIndex = None, sf_EventIndex = None, sf_MatchStart = 0, sf_MatchEnd = 4, sf_MatchIndex = 0,
     sf_RedactedMatch = ''***''\<rparr>"

theorem findings_revealed_witness:
  "revealFinding demo_signal_env (map load_message [demo_secret_message]) demo_finding \<noteq> None"
proof -
  let ?scan = "ScanDefinite (se_rules demo_signal_env) (se_deny demo_signal_env) (se_fixture demo_signal_env)"
  have "fst (scanSecretsFromMessages ?scan [demo_secret_message]) = [demo_finding]" by code_simp
  then have f: "demo_finding \<in> set (fst (scanSecretsFromMessages ?scan [demo_secret_message]))" by simp
  have "distinct (map m_Ordinal [demo_secret_message])" by simp
  from findings_revealed [OF demo_spans this _ f] show ?thesis by auto
qed

theorem signals_order_independent_witness:
  "computeSignalsFromMessages demo_signal_env (demo_db_session ''s'') [demo_secret_message] =
     computeSignalsFromMessages (demo_signal_env\<lparr>se_order := (\<lambda>m. m)\<rparr>) (demo_db_session ''s'') [demo_secret_message]"
  by (rule signals_order_independent) (simp add: demo_signal_env_def)

definition demo_secret_env :: "(SessionSignalUpdate, SecretFinding list) EngineEnv" where
  "demo_secret_env = demo_env_with (computeSignalsAndSecrets demo_signal_env) (\<lambda>_ _. True) 4 1 []"

definition demo_secret_pending :: pendingWrite where
  "demo_secret_pending = \<lparr>pw_result = stamp_file \<lparr>fs_Size = 4, fs_Mtime = 1, fs_Inode = 0, fs_Device = 0\<rparr> (Some ''h4'')
     (demo_parsed 4 1 ''s'' ''AKIA x''), pw_needsRetry = False, pw_forceReplace = True\<rparr>"

definition demo_secret_run :: "WriteCounts \<times> (SessionSignalUpdate, SecretFinding list) Engine" where
  "demo_secret_run = write_one demo_secret_env False demo_secret_pending (no_counts, demo_engine)"

theorem stored_findings_revealed_witness:
  "\<exists>r findings. map_of (db_rows (eg_db (snd demo_secret_run))) ''s'' = Some r \<and> sx_Findings r = Some findings \<and>
     list_all (\<lambda>f. revealFinding demo_signal_env (map load_message (sr_Messages r)) f \<noteq> None) findings"
proof -
  have "\<not> isl (prepareSessionWrite demo_secret_env demo_secret_pending)" by code_simp
  then obtain s msgs events where prep: "prepareSessionWrite demo_secret_env demo_secret_pending = Inr (s, msgs, events)"
    by (cases "prepareSessionWrite demo_secret_env demo_secret_pending") auto
  have sid: "ds_ID s = ''s''"
    using prepare_file(4) [OF prep]
    by (simp add: demo_secret_env_def demo_env_with_def demo_secret_pending_def stamp_file_def demo_parsed_def)
  obtain c eg where run: "write_one demo_secret_env False demo_secret_pending (no_counts, demo_engine) = (c, eg)" by fastforce
  have "wc_sessions (fst demo_secret_run) = wc_sessions no_counts + 1" by code_simp
  then have written: "wc_sessions c = wc_sessions no_counts + 1" by (simp add: demo_secret_run_def run)
  have "replaces_messages False demo_secret_pending" by (simp add: replaces_messages_def demo_secret_pending_def)
  moreover have "ev_signals demo_secret_env = computeSignalsAndSecrets demo_signal_env"
    by (simp add: demo_secret_env_def demo_env_with_def)
  ultimately show ?thesis
    using stored_findings_revealed [OF run written prep _ _ demo_spans] by (auto simp: sid demo_secret_run_def run)
qed

end
