(* ===== verification/Session_Trash.thy ===== *)
theory Session_Trash
  imports Sync_Write
begin

text \<open>
  What a user does to stored sessions (\<open>internal/db/sessions.go\<close>, \<open>internal/db/starred.go\<close>): moving to the
  trash and back, deleting for good, emptying the trash, renaming, starring; and how these interact with the
  passes of the engine. \<open>Library\<close> is the engine with the list of stars, which lose the sessions whose rows are
  deleted (\<open>ON DELETE CASCADE\<close>). Each operation is one transaction; \<open>good\<close> says whether it is carried out, an
  operation that is not leaves the database as it was (\<open>None\<close>).
\<close>

section \<open>Operations\<close>

text \<open>An update of the row of a session if it meets a condition, with the number of rows it affects.\<close>

definition update_row ::
  "(('g, 'f) StoredRow \<Rightarrow> bool) \<Rightarrow> (('g, 'f) StoredRow \<Rightarrow> ('g, 'f) StoredRow) \<Rightarrow> string \<Rightarrow> ('g, 'f) SessionDB \<Rightarrow> nat \<times> ('g, 'f) SessionDB"
where
  "update_row P f sid st =
     (case map_of (db_rows st) sid of
        None \<Rightarrow> (0, st)
      | Some r \<Rightarrow> if P r then (1, put_row sid (f r) st) else (0, st))"

definition SoftDeleteSession :: "bool \<Rightarrow> string \<Rightarrow> ('g, 'f) SessionDB \<Rightarrow> ('g, 'f) SessionDB option" where
  "SoftDeleteSession good sid st =
     (if good then Some (snd (update_row (\<lambda>r. \<not> sr_Deleted r) (\<lambda>r. r\<lparr>sr_Deleted := True\<rparr>) sid st)) else None)"

definition RestoreSession :: "bool \<Rightarrow> string \<Rightarrow> ('g, 'f) SessionDB \<Rightarrow> (nat \<times> ('g, 'f) SessionDB) option" where
  "RestoreSession good sid st =
     (if good then Some (update_row sr_Deleted (\<lambda>r. r\<lparr>sr_Deleted := False\<rparr>) sid st) else None)"

definition RenameSession :: "bool \<Rightarrow> string \<Rightarrow> string option \<Rightarrow> ('g, 'f) SessionDB \<Rightarrow> ('g, 'f) SessionDB option" where
  "RenameSession good sid name st =
     (if good then Some (snd (update_row (\<lambda>r. \<not> sr_Deleted r) (\<lambda>r. r\<lparr>sx_DisplayName := name\<rparr>) sid st)) else None)"

definition RefreshSessionName :: "bool \<Rightarrow> string \<Rightarrow> string option \<Rightarrow> ('g, 'f) SessionDB \<Rightarrow> ('g, 'f) SessionDB option" where
  "RefreshSessionName good sid name st =
     (if good
      then Some (snd (update_row (\<lambda>r. \<not> sr_Deleted r) (\<lambda>r. r\<lparr>sx_SessionName := map_option SanitizeUTF8 name\<rparr>) sid st))
      else None)"

text \<open>Rows whose id meets a condition are deleted; \<open>INSERT OR IGNORE INTO excluded_sessions\<close>.\<close>

definition delete_rows :: "(string \<Rightarrow> bool) \<Rightarrow> ('g, 'f) SessionDB \<Rightarrow> ('g, 'f) SessionDB" where
  "delete_rows P st = st\<lparr>db_rows := filter (\<lambda>(k, r). \<not> P k) (db_rows st)\<rparr>"

definition exclude_ids :: "string list \<Rightarrow> ('g, 'f) SessionDB \<Rightarrow> ('g, 'f) SessionDB" where
  "exclude_ids sids st = st\<lparr>db_excluded := db_excluded st @ filter (\<lambda>sid. sid \<notin> set (db_excluded st)) sids\<rparr>"

definition DeleteSession :: "bool \<Rightarrow> string \<Rightarrow> ('g, 'f) SessionDB \<Rightarrow> ('g, 'f) SessionDB option" where
  "DeleteSession good sid st =
     (if \<not> good then None
      else if map_of (db_rows st) sid = None then Some st
      else Some (exclude_ids [sid] (delete_rows (\<lambda>k. k = sid) st)))"

definition DeleteSessionIfTrashed :: "bool \<Rightarrow> string \<Rightarrow> ('g, 'f) SessionDB \<Rightarrow> (nat \<times> ('g, 'f) SessionDB) option" where
  "DeleteSessionIfTrashed good sid st =
     (if \<not> good then None
      else if \<not> trashed st sid then Some (0, st)
      else Some (1, exclude_ids [sid] (delete_rows (\<lambda>k. k = sid) st)))"

definition EmptyTrash :: "bool \<Rightarrow> ('g, 'f) SessionDB \<Rightarrow> (nat \<times> ('g, 'f) SessionDB) option" where
  "EmptyTrash good st =
     (let sids = map fst (filter (\<lambda>(k, r). sr_Deleted r) (db_rows st)) in
      if good then Some (length sids, delete_rows (\<lambda>k. k \<in> set sids) (exclude_ids sids st))
      else None)"

function in_chunks :: "nat \<Rightarrow> 'a list \<Rightarrow> 'a list list" where
  "in_chunks n xs = (if xs = [] \<or> n = 0 then [] else take n xs # in_chunks n (drop n xs))"
  by pat_completeness auto
termination by (relation "measure (length \<circ> snd)") auto

declare in_chunks.simps [simp del]

definition deleteBatchSize :: nat where "deleteBatchSize = 500"

definition delete_batch :: "string list \<Rightarrow> nat \<times> ('g, 'f) SessionDB \<Rightarrow> nat \<times> ('g, 'f) SessionDB" where
  "delete_batch batch acc =
     (case acc of (n, st) \<Rightarrow>
        let found = filter (\<lambda>k. k \<in> set batch) (map fst (db_rows st)) in
        (n + length found, delete_rows (\<lambda>k. k \<in> set batch) (exclude_ids found st)))"

definition DeleteSessions :: "bool \<Rightarrow> string list \<Rightarrow> ('g, 'f) SessionDB \<Rightarrow> (nat \<times> ('g, 'f) SessionDB) option" where
  "DeleteSessions good sids st =
     (if sids = [] then Some (0, st)
      else if \<not> good then None
      else Some (fold delete_batch (in_chunks deleteBatchSize sids) (0, st)))"

definition PurgeExcludedSessions :: "bool \<Rightarrow> ('g, 'f) SessionDB \<Rightarrow> ('g, 'f) SessionDB option" where
  "PurgeExcludedSessions good st = (if good then Some (delete_rows (\<lambda>k. k \<in> set (db_excluded st)) st) else None)"

definition ResetAllMtimes :: "bool \<Rightarrow> ('g, 'f) SessionDB \<Rightarrow> ('g, 'f) SessionDB option" where
  "ResetAllMtimes good st =
     (if good then Some (st\<lparr>db_rows := map (\<lambda>(k, r). (k, r\<lparr>sr_FileMtime := Some 0\<rparr>)) (db_rows st)\<rparr>) else None)"

section \<open>Stars\<close>

record ('g, 'f) Library =
  lb_engine :: "('g, 'f) Engine"
  lb_stars :: "string list"

abbreviation lb_db :: "('g, 'f) Library \<Rightarrow> ('g, 'f) SessionDB" where
  "lb_db l \<equiv> eg_db (lb_engine l)"

text \<open>Starring: whether the session exists; nothing happens when it is starred already.\<close>

definition StarSession :: "string \<Rightarrow> ('g, 'f) Library \<Rightarrow> bool \<times> ('g, 'f) Library" where
  "StarSession sid l =
     (let exists = (map_of (db_rows (lb_db l)) sid \<noteq> None) in
      (exists, if exists \<and> sid \<notin> set (lb_stars l) then l\<lparr>lb_stars := sid # lb_stars l\<rparr> else l))"

definition UnstarSession :: "string \<Rightarrow> ('g, 'f) Library \<Rightarrow> ('g, 'f) Library" where
  "UnstarSession sid l = l\<lparr>lb_stars := filter (\<lambda>k. k \<noteq> sid) (lb_stars l)\<rparr>"

definition BulkStarSessions :: "string list \<Rightarrow> ('g, 'f) Library \<Rightarrow> ('g, 'f) Library" where
  "BulkStarSessions sids l = fold (\<lambda>sid l. snd (StarSession sid l)) sids l"

text \<open>A new engine state, with the stars of deleted rows gone.\<close>

definition with_engine :: "('g, 'f) Engine \<Rightarrow> ('g, 'f) Library \<Rightarrow> ('g, 'f) Library" where
  "with_engine eg l = l\<lparr>lb_engine := eg, lb_stars := filter (\<lambda>sid. map_of (db_rows (eg_db eg)) sid \<noteq> None) (lb_stars l)\<rparr>"

definition with_db :: "('g, 'f) SessionDB \<Rightarrow> ('g, 'f) Library \<Rightarrow> ('g, 'f) Library" where
  "with_db st l = with_engine ((lb_engine l)\<lparr>eg_db := st\<rparr>) l"

section \<open>Users and passes\<close>

text \<open>
  Anything a user does or the engine does with any files, environment and failures; except that for the ids that
  satisfy \<open>P\<close> the lookups in the list of deleted ids are carried out.
\<close>

inductive lib_step :: "(string \<Rightarrow> bool) \<Rightarrow> ('g, 'f) Library \<Rightarrow> ('g, 'f) Library \<Rightarrow> bool" for P where
  soft_delete: "SoftDeleteSession good sid (lb_db l) = Some st \<Longrightarrow> lib_step P l (with_db st l)"
| restore: "RestoreSession good sid (lb_db l) = Some (n, st) \<Longrightarrow> lib_step P l (with_db st l)"
| rename: "RenameSession good sid name (lb_db l) = Some st \<Longrightarrow> lib_step P l (with_db st l)"
| refresh_name: "RefreshSessionName good sid name (lb_db l) = Some st \<Longrightarrow> lib_step P l (with_db st l)"
| delete: "DeleteSession good sid (lb_db l) = Some st \<Longrightarrow> lib_step P l (with_db st l)"
| delete_trashed: "DeleteSessionIfTrashed good sid (lb_db l) = Some (n, st) \<Longrightarrow> lib_step P l (with_db st l)"
| delete_many: "DeleteSessions good sids (lb_db l) = Some (n, st) \<Longrightarrow> lib_step P l (with_db st l)"
| empty_trash: "EmptyTrash good (lb_db l) = Some (n, st) \<Longrightarrow> lib_step P l (with_db st l)"
| purge: "PurgeExcludedSessions good (lb_db l) = Some st \<Longrightarrow> lib_step P l (with_db st l)"
| reset_mtimes: "ResetAllMtimes good (lb_db l) = Some st \<Longrightarrow> lib_step P l (with_db st l)"
| star: "lib_step P l (snd (StarSession sid l))"
| unstar: "lib_step P l (UnstarSession sid l)"
| bulk_star: "lib_step P l (BulkStarSessions sids l)"
| a_pass: "\<forall>sid. P sid \<longrightarrow> deletion_seen ev bulk sid \<Longrightarrow>
    lib_step P l (with_engine (snd (collectAndBatch ev bulk jobs (lb_engine l))) l)"
| single: "\<forall>sid. P sid \<longrightarrow> deletion_seen ev False sid \<Longrightarrow>
    lib_step P l (with_engine (snd (SyncSingleClaude ev path dir sid (lb_engine l))) l)"
| signals: "lib_step P l (with_db (recomputeSignals ev sid (lb_db l)) l)"

section \<open>Deleted for good\<close>

lemma delete_rows_map: "map_of (db_rows (delete_rows P st)) sid = (if P sid then None else map_of (db_rows st) sid)"
proof -
  have "map_of (filter (\<lambda>(k, r). \<not> P k) xs) sid = (if P sid then None else map_of xs sid)" for xs :: "(string \<times> ('a, 'b) StoredRow) list"
    by (induction xs) auto
  then show ?thesis by (simp add: delete_rows_def)
qed

lemma delete_rows_excluded [simp]: "db_excluded (delete_rows P st) = db_excluded st"
  by (simp add: delete_rows_def)

lemma exclude_ids_simps [simp]:
  "db_rows (exclude_ids sids st) = db_rows st" "set (db_excluded (exclude_ids sids st)) = set (db_excluded st) \<union> set sids"
  by (auto simp: exclude_ids_def)

definition no_ghosts :: "(string \<Rightarrow> bool) \<Rightarrow> ('g, 'f) SessionDB \<Rightarrow> bool" where
  "no_ghosts P st \<longleftrightarrow> (\<forall>sid \<in> set (db_excluded st). P sid \<longrightarrow> map_of (db_rows st) sid = None)"

text \<open>No id deleted for good has a row, the list of these ids only grows.\<close>

definition holds_deletions :: "(string \<Rightarrow> bool) \<Rightarrow> ('g, 'f) SessionDB \<Rightarrow> ('g, 'f) SessionDB \<Rightarrow> bool" where
  "holds_deletions P st st' \<longleftrightarrow> set (db_excluded st) \<subseteq> set (db_excluded st') \<and> (no_ghosts P st \<longrightarrow> no_ghosts P st')"

lemma holds_refl [simp]: "holds_deletions P st st"
  by (simp add: holds_deletions_def)

lemma holds_keeps: "keeps_deletions P st st' \<Longrightarrow> holds_deletions P st st'"
  by (auto simp: holds_deletions_def keeps_deletions_def no_ghosts_def)

lemma holds_update: "holds_deletions P st (snd (update_row Q f sid st))"
  by (auto simp: holds_deletions_def no_ghosts_def update_row_def split: option.split)

lemma holds_delete: "holds_deletions P st (exclude_ids [sid] (delete_rows (\<lambda>k. k = sid) st))"
  by (auto simp: holds_deletions_def no_ghosts_def delete_rows_map)

lemma holds_delete_many: "holds_deletions P st (delete_rows (\<lambda>k. k \<in> set sids) (exclude_ids found st))"
  if "set found \<subseteq> set sids"
  using that by (auto simp: holds_deletions_def no_ghosts_def delete_rows_map)

lemma holds_trans: "holds_deletions P a b \<Longrightarrow> holds_deletions P b c \<Longrightarrow> holds_deletions P a c"
  by (auto simp: holds_deletions_def)

lemma holds_batches: "holds_deletions P st (snd (fold delete_batch cs (n, st)))"
proof (induction cs arbitrary: n st)
  case (Cons c cs)
  let ?found = "filter (\<lambda>k. k \<in> set c) (map fst (db_rows st))"
  have "holds_deletions P st (delete_rows (\<lambda>k. k \<in> set c) (exclude_ids ?found st))" by (rule holds_delete_many) auto
  from holds_trans [OF this Cons.IH] show ?case by (simp add: delete_batch_def Let_def)
qed simp

lemma map_of_map_value: "map_of (map (\<lambda>(k, r). (k, f r)) xs) sid = map_option f (map_of xs sid)"
  by (induction xs) auto

lemma keeps_full:
  assumes "writeSessionFull ev pw eg = (good, eg')" and P: "\<And>sid. P sid \<Longrightarrow> ev_ok ev CheckExcluded sid"
  shows "keeps_deletions P (eg_db eg) (eg_db eg')"
proof (cases "prepareSessionWrite ev pw")
  case (Inl reason)
  then show ?thesis using assms by (simp add: writeSessionFull_def)
next
  case (Inr p)
  obtain s msgs events where p: "p = (s, msgs, events)" by (metis prod.exhaust)
  show ?thesis
  proof (cases "UpsertSession (ev_ok ev) (ev_automation ev) (ev_year ev) s (eg_db eg)")
    case (Inl e)
    then show ?thesis using assms Inr p by (auto simp: writeSessionFull_def Let_def cacheSkip_def split: if_splits)
  next
    case up: (Inr st1)
    obtain g st2 where w: "write_content ev pw True s msgs events st1 = (g, st2)" by fastforce
    have "eg_db eg' = st2" using assms Inr p up w by (auto simp: writeSessionFull_def)
    then show ?thesis using keeps_trans [OF keeps_upsert [OF up P] keeps_write_content [OF w]] by simp
  qed
qed

lemma keeps_results:
  assumes P: "\<And>sid. P sid \<Longrightarrow> ev_ok ev CheckExcluded sid"
  shows "write_results ev retry prs eg = (good, eg') \<Longrightarrow> keeps_deletions P (eg_db eg) (eg_db eg')"
proof (induction prs arbitrary: eg)
  case (Cons pr prs)
  obtain g eg1 where w: "writeSessionFull ev \<lparr>pw_result = pr, pw_needsRetry = retry, pw_forceReplace = False\<rparr> eg = (g, eg1)"
    by fastforce
  have k: "keeps_deletions P (eg_db eg) (eg_db eg1)" by (rule keeps_full [OF w P])
  show ?case
  proof (cases g)
    case True
    have "keeps_deletions P (eg_db eg1) (eg_db eg')" by (rule Cons.IH) (use Cons.prems True in \<open>simp add: w\<close>)
    then show ?thesis by (rule keeps_trans [OF k])
  qed (use k Cons.prems in \<open>simp add: w\<close>)
qed simp

lemma keeps_then_link: "keeps_deletions P a b \<Longrightarrow> keeps_deletions P a (LinkSubagentSessions ev b)"
  by (rule keeps_trans [OF _ keeps_link])

lemma keeps_single:
  assumes P: "\<And>sid. P sid \<Longrightarrow> ev_ok ev CheckExcluded sid"
  shows "keeps_deletions P (eg_db eg) (eg_db (snd (SyncSingleClaude ev path dir sid eg)))"
proof -
  obtain good eg' where run: "SyncSingleClaude ev path dir sid eg = (good, eg')" by fastforce
  have results: "keeps_deletions P (eg_db eg0) (eg_db eg1)" if "write_results ev retry prs eg0 = (g, eg1)" for retry prs eg0 g eg1
    by (rule keeps_results [OF P that])
  have clear: "eg_db (clearSkip path eg) = eg_db eg" by (simp add: clearSkip_def)
  have "keeps_deletions P (eg_db eg) (eg_db eg')"
    using run unfolding SyncSingleClaude_def Let_def
    by (auto simp: cacheSkip_def clear split: if_splits option.splits prod.splits bool.splits
      dest!: keeps_incremental [where P = P] results intro: keeps_then_link)
  then show ?thesis by (simp add: run)
qed

lemma with_engine_simps [simp]:
  "lb_engine (with_engine eg l) = eg" "lb_db (with_db st l) = st"
  by (simp_all add: with_engine_def with_db_def)

lemma star_db [simp]: "lb_engine (snd (StarSession sid l)) = lb_engine l"
  by (simp add: StarSession_def Let_def)

lemma bulk_star_db [simp]: "lb_engine (BulkStarSessions sids l) = lb_engine l"
  unfolding BulkStarSessions_def by (induction sids arbitrary: l) simp_all

lemma step_holds:
  assumes "lib_step P l l'"
  shows "holds_deletions P (lb_db l) (lb_db l')"
  using assms
proof cases
  case soft_delete
  then show ?thesis using holds_update by (auto simp: SoftDeleteSession_def split: if_splits)
next
  case (restore good sid n st)
  then have "update_row sr_Deleted (\<lambda>r. r\<lparr>sr_Deleted := False\<rparr>) sid (lb_db l) = (n, st)"
    by (simp add: RestoreSession_def split: if_splits)
  then show ?thesis
    using restore(1) holds_update [of P "lb_db l" sr_Deleted "\<lambda>r. r\<lparr>sr_Deleted := False\<rparr>" sid] by simp
next
  case rename
  then show ?thesis using holds_update by (auto simp: RenameSession_def split: if_splits)
next
  case refresh_name
  then show ?thesis using holds_update by (auto simp: RefreshSessionName_def split: if_splits)
next
  case delete
  then show ?thesis using holds_delete by (auto simp: DeleteSession_def split: if_splits)
next
  case delete_trashed
  then show ?thesis using holds_delete by (auto simp: DeleteSessionIfTrashed_def split: if_splits)
next
  case (delete_many good sids n st)
  then show ?thesis using holds_batches [of P "lb_db l" "in_chunks deleteBatchSize sids" 0]
    by (auto simp: DeleteSessions_def split: if_splits)
next
  case (empty_trash good n st)
  let ?sids = "map fst (filter (\<lambda>(k, r). sr_Deleted r) (db_rows (lb_db l)))"
  have "st = delete_rows (\<lambda>k. k \<in> set ?sids) (exclude_ids ?sids (lb_db l))"
    using empty_trash(2) unfolding EmptyTrash_def Let_def by (auto split: if_splits)
  then show ?thesis using holds_delete_many [where found = ?sids and sids = ?sids and st = "lb_db l" and P = P] by (simp only: empty_trash(1) with_engine_simps subset_refl)
next
  case purge
  then show ?thesis by (auto simp: PurgeExcludedSessions_def holds_deletions_def no_ghosts_def delete_rows_map split: if_splits)
next
  case reset_mtimes
  then show ?thesis by (auto simp: ResetAllMtimes_def holds_deletions_def no_ghosts_def map_of_map_value split: if_splits)
next
  case (a_pass ev bulk jobs)
  have "keeps_deletions P (lb_db l) (eg_db (snd (collectAndBatch ev bulk jobs (lb_engine l))))"
    by (rule collect_keeps) (use a_pass(2) in blast)
  then show ?thesis using holds_keeps a_pass(1) by simp
next
  case (single ev path dir sid)
  have "keeps_deletions P (lb_db l) (eg_db (snd (SyncSingleClaude ev path dir sid (lb_engine l))))"
    by (rule keeps_single) (use single(2) in \<open>simp add: deletion_seen_def\<close>)
  then show ?thesis using holds_keeps single(1) by simp
next
  case signals
  then show ?thesis using holds_keeps [OF keeps_recompute] by simp
qed (simp_all add: UnstarSession_def)

text \<open>The stars refer to sessions that exist, each once.\<close>

definition stars_ok :: "('g, 'f) Library \<Rightarrow> bool" where
  "stars_ok l \<longleftrightarrow> distinct (lb_stars l) \<and> (\<forall>sid \<in> set (lb_stars l). map_of (db_rows (lb_db l)) sid \<noteq> None)"

lemma stars_engine: "stars_ok l \<Longrightarrow> stars_ok (with_engine eg l)"
  by (auto simp: stars_ok_def with_engine_def)

lemma stars_db: "stars_ok l \<Longrightarrow> stars_ok (with_db st l)"
  by (simp add: with_db_def stars_engine)

lemma stars_star: "stars_ok l \<Longrightarrow> stars_ok (snd (StarSession sid l))"
  by (auto simp: stars_ok_def StarSession_def Let_def)

lemma stars_bulk: "stars_ok l \<Longrightarrow> stars_ok (BulkStarSessions sids l)"
  unfolding BulkStarSessions_def by (induction sids arbitrary: l) (simp_all add: stars_star)

lemma step_stars: "lib_step P l l' \<Longrightarrow> stars_ok l \<Longrightarrow> stars_ok l'"
  by (cases rule: lib_step.cases)
    (auto intro: stars_engine stars_db stars_star stars_bulk simp: UnstarSession_def stars_ok_def [of "l\<lparr>lb_stars := _\<rparr>"] stars_ok_def [of l])

definition library_ok :: "(string \<Rightarrow> bool) \<Rightarrow> string set \<Rightarrow> ('g, 'f) Library \<Rightarrow> bool" where
  "library_ok P gone l \<longleftrightarrow> no_ghosts P (lb_db l) \<and> gone \<subseteq> set (db_excluded (lb_db l)) \<and> stars_ok l"

interpretation library: step_machine "library_ok P gone" "lib_step P" "library_ok P gone" for P gone
proof unfold_locales
  show "library_ok P gone t" if "library_ok P gone s" "lib_step P s t" for s t :: "('a, 'b) Library"
    using that step_holds [OF that(2)] step_stars [OF that(2)] by (auto simp: library_ok_def holds_deletions_def)
qed

text \<open>
  C5. Whatever users and passes do in whatever order: a session deleted for good never has a row again, as long as the
  lookups of its id in the list of deleted ids are carried out, whichever other statements fail; its id is never
  forgotten, and every star belongs to a session that exists.
\<close>

theorem deleted_for_good:
  assumes "(lib_step P)\<^sup>*\<^sup>* l l'" "no_ghosts P (lb_db l)" "stars_ok l"
  shows "(\<forall>sid \<in> set (db_excluded (lb_db l)). sid \<in> set (db_excluded (lb_db l')) \<and>
      (P sid \<longrightarrow> map_of (db_rows (lb_db l')) sid = None)) \<and>
    no_ghosts P (lb_db l') \<and> stars_ok l'"
  using library.inv_steps [OF assms(1), of "set (db_excluded (lb_db l))"] assms(2,3)
  by (auto simp: library_ok_def no_ghosts_def)

section \<open>Deleting many\<close>

lemma in_chunks_concat: "n > 0 \<Longrightarrow> concat (in_chunks n xs) = xs"
proof (induction n xs rule: in_chunks.induct)
  case (1 n xs)
  show ?case
  proof (cases "xs = []")
    case True
    have "in_chunks n xs = []" by (subst in_chunks.simps) (simp add: True)
    then show ?thesis by (simp add: True)
  next
    case False
    have "in_chunks n xs = take n xs # in_chunks n (drop n xs)" by (subst in_chunks.simps) (use False 1 in simp)
    then show ?thesis using 1 False by simp
  qed
qed

lemma delete_batches:
  assumes "distinct (map fst (db_rows st))"
  shows "case fold delete_batch cs (n, st) of (n', st') \<Rightarrow>
    n' = n + length (filter (\<lambda>k. k \<in> set (concat cs)) (map fst (db_rows st))) \<and>
    db_rows st' = filter (\<lambda>(k, r). k \<notin> set (concat cs)) (db_rows st) \<and>
    set (db_excluded st') = set (db_excluded st) \<union> (set (concat cs) \<inter> fst ` set (db_rows st))"
  using assms
proof (induction cs arbitrary: n st)
  case (Cons c cs)
  let ?found = "filter (\<lambda>k. k \<in> set c) (map fst (db_rows st))"
  define st1 where "st1 = delete_rows (\<lambda>k. k \<in> set c) (exclude_ids ?found st)"
  have rows: "db_rows st1 = filter (\<lambda>(k, r). k \<notin> set c) (db_rows st)"
    and keys: "map fst (db_rows st1) = filter (\<lambda>k. k \<notin> set c) (map fst (db_rows st))"
    by (simp_all add: st1_def delete_rows_def filter_map comp_def case_prod_beta')
  have excl: "set (db_excluded st1) = set (db_excluded st) \<union> (set c \<inter> fst ` set (db_rows st))"
    by (auto simp: st1_def)
  have d: "distinct (map fst (db_rows st1))" using Cons.prems by (simp add: keys)
  have count: "length (filter (\<lambda>k. k \<in> set c) xs) + length (filter (\<lambda>k. k \<in> A) (filter (\<lambda>k. k \<notin> set c) xs)) =
      length (filter (\<lambda>k. k \<in> set c \<or> k \<in> A) xs)" for xs :: "string list" and A
    by (induction xs) auto
  obtain n' st' where run: "fold delete_batch cs (n + length ?found, st1) = (n', st')" by fastforce
  have step: "fold delete_batch (c # cs) (n, st) = (n', st')"
    using run by (simp add: delete_batch_def Let_def st1_def)
  have ih: "n' = n + length ?found + length (filter (\<lambda>k. k \<in> set (concat cs)) (map fst (db_rows st1)))"
    "db_rows st' = filter (\<lambda>(k, r). k \<notin> set (concat cs)) (db_rows st1)"
    "set (db_excluded st') = set (db_excluded st1) \<union> (set (concat cs) \<inter> fst ` set (db_rows st1))"
    using Cons.IH [OF d, of "n + length ?found"] run by simp_all
  have "fst ` set (db_rows st1) = fst ` set (db_rows st) - set c"
    using arg_cong [OF keys, of set] by auto
  then have "set (db_excluded st') = set (db_excluded st) \<union> (set (concat (c # cs)) \<inter> fst ` set (db_rows st))"
    using ih(3) excl by auto
  moreover have "n' = n + length (filter (\<lambda>k. k \<in> set (concat (c # cs))) (map fst (db_rows st)))"
    using ih(1) count [of "map fst (db_rows st)" "set (concat cs)"] unfolding keys by (simp only: concat.simps set_append Un_iff)
  moreover have "db_rows st' = filter (\<lambda>(k, r). k \<notin> set (concat (c # cs))) (db_rows st)"
    using ih(2) unfolding rows by (simp add: case_prod_beta')
  ultimately show ?case unfolding step by simp
qed simp

text \<open>
  Deleting many sessions is exact however the ids are split into batches: exactly the named sessions that exist
  are deleted, counted once each even when they are named twice, and recorded as deleted for good.
\<close>

theorem DeleteSessions_exact:
  assumes "distinct (map fst (db_rows st))"
  shows "\<exists>n st'. DeleteSessions True sids st = Some (n, st') \<and>
    n = length (filter (\<lambda>k. k \<in> set sids) (map fst (db_rows st))) \<and>
    db_rows st' = filter (\<lambda>(k, r). k \<notin> set sids) (db_rows st) \<and>
    set (db_excluded st') = set (db_excluded st) \<union> (set sids \<inter> fst ` set (db_rows st))"
proof (cases "sids = []")
  case False
  have "concat (in_chunks deleteBatchSize sids) = sids" by (simp add: in_chunks_concat deleteBatchSize_def)
  then show ?thesis
    using delete_batches [OF assms, where cs = "in_chunks deleteBatchSize sids" and n = 0] False
    by (auto simp: DeleteSessions_def split: prod.splits)
qed (simp add: DeleteSessions_def)

section \<open>Restoring\<close>

text \<open>Moving a session to the trash and back changes nothing.\<close>

theorem trash_and_back:
  assumes "map_of (db_rows st) sid = Some r" "\<not> sr_Deleted r" "SoftDeleteSession True sid st = Some st1"
  shows "\<exists>st2. RestoreSession True sid st1 = Some (1, st2) \<and> map_of (db_rows st2) = map_of (db_rows st) \<and>
    db_excluded st2 = db_excluded st"
  using assms by (auto simp: SoftDeleteSession_def RestoreSession_def update_row_def fun_eq_iff)

text \<open>
  C6. A session restored from the trash can stay behind its file: when the file changed while the session was in the
  trash, the pass looked up the trash, refused the session and noted the file's time in the skip cache; nothing removes this note
  when the session is restored, so that the next pass skips the file, and the session keeps its old messages.
\<close>

theorem restored_stays_stale:
  assumes run: "write_one ev force pw (c, eg) = (c', eg')" and prep: "prepareSessionWrite ev pw = Inr (s, msgs, events)"
    and trash: "trashed (eg_db eg) (ds_ID s)" "ev_ok ev CheckTrashed (ds_ID s)" and restored: "RestoreSession True (ds_ID s) (eg_db eg') = Some (n, st)"
    and path: "fi_Path (ps_File (pr_Session (pw_result pw))) = df_Path file" "df_Path file \<noteq> []"
    and info: "ev_stat ev (df_Path file) = Some info" "fi_Mtime (ps_File (pr_Session (pw_result pw))) = fs_Mtime info"
    and agent: "df_Agent file = ''claude''"
  shows "n = 1 \<and> map_option sr_Messages (map_of (db_rows st) (ds_ID s)) = map_option sr_Messages (map_of (db_rows (eg_db eg)) (ds_ID s)) \<and>
    pd_skip (processFileWithPolicy ev (eg'\<lparr>eg_db := st\<rparr>) file auditSameStat)"
proof -
  have id: "ds_ID (sanitize_session (ev_year ev) s) = ds_ID s" by (rule sanitize_session_ID)
  have "UpsertSession (ev_ok ev) (ev_automation ev) (ev_year ev) s (eg_db eg) \<in> {Inl ErrSessionExcluded, Inl ErrSessionTrashed}"
    using trash unfolding UpsertSession_def Let_def id by simp
  then have eg': "eg' = cacheSkip (df_Path file) (fs_Mtime info) eg"
    using run prep path info(2) by (auto simp: write_one_def Let_def split: if_splits)
  have db: "eg_db eg' = eg_db eg" by (simp add: eg' cacheSkip_def)
  obtain r where r: "map_of (db_rows (eg_db eg)) (ds_ID s) = Some r" "sr_Deleted r"
    using trash(1) by (auto simp: trashed_def split: option.splits)
  have "n = 1" "st = put_row (ds_ID s) (r\<lparr>sr_Deleted := False\<rparr>) (eg_db eg)"
    using restored r by (auto simp: RestoreSession_def update_row_def db)
  moreover have "map_of (eg_skipCache (eg'\<lparr>eg_db := st\<rparr>)) (df_Path file) = Some (fs_Mtime info)"
    by (simp add: eg' cacheSkip_def update_conv')
  moreover have "shouldCacheSkip ev file" by (simp add: shouldCacheSkip_def Let_def agent)
  ultimately show ?thesis using r(1) info(1) by (simp add: processFileWithPolicy_def Let_def)
qed

section \<open>Runs\<close>

text \<open>A library whose session \<open>s\<close> was deleted for good, and an engine with \<open>s\<close> in the trash.\<close>

definition demo_library :: "(unit, unit) Library" where
  "demo_library = \<lparr>lb_engine = demo_engine\<lparr>eg_db := \<lparr>db_rows = [(''x'', new_row ''x'')], db_excluded = [''s'']\<rparr>\<rparr>, lb_stars = [''x'']\<rparr>"

theorem deleted_for_good_witness:
  "map_of (db_rows (lb_db (with_engine (snd (collectAndBatch (demo_sync_env (\<lambda>_ _. True) 4 1 []) False
      [(''s.jsonl'', zero_processed\<lparr>pd_results := [pw_result demo_pending]\<rparr>)] (lb_engine demo_library))) demo_library))) ''s'' = None"
proof -
  let ?l = "with_engine (snd (collectAndBatch (demo_sync_env (\<lambda>_ _. True) 4 1 []) False
      [(''s.jsonl'', zero_processed\<lparr>pd_results := [pw_result demo_pending]\<rparr>)] (lb_engine demo_library))) demo_library"
  have step: "(lib_step (\<lambda>_. True))\<^sup>*\<^sup>* demo_library ?l"
    by (rule r_into_rtranclp) (rule a_pass, simp add: deletion_seen_def demo_sync_env_def demo_env_with_def)
  have ok: "no_ghosts (\<lambda>_. True) (lb_db demo_library)" "stars_ok demo_library"
    by (simp_all add: no_ghosts_def stars_ok_def demo_library_def)
  have "''s'' \<in> set (db_excluded (lb_db demo_library))" by (simp add: demo_library_def)
  then show ?thesis using deleted_for_good [OF step ok] by blast
qed

theorem DeleteSessions_exact_witness:
  "\<exists>n st'. DeleteSessions True [''x'', ''x'', ''y''] (lb_db demo_library) = Some (n, st') \<and> n = 1 \<and> db_rows st' = []"
proof -
  have "distinct (map fst (db_rows (lb_db demo_library)))" by (simp add: demo_library_def)
  from DeleteSessions_exact [OF this, of "[''x'', ''x'', ''y'']"] show ?thesis by (auto simp: demo_library_def)
qed

theorem trash_and_back_witness:
  "\<exists>st1 st2. SoftDeleteSession True ''x'' (lb_db demo_library) = Some st1 \<and> RestoreSession True ''x'' st1 = Some (1, st2) \<and>
     map_of (db_rows st2) = map_of (db_rows (lb_db demo_library))"
proof -
  have x: "map_of (db_rows (lb_db demo_library)) ''x'' = Some (new_row ''x'')" "\<not> sr_Deleted (new_row ''x'')"
    by (simp_all add: demo_library_def new_row_def)
  obtain st1 where st1: "SoftDeleteSession True ''x'' (lb_db demo_library) = Some st1" by (simp add: SoftDeleteSession_def)
  from trash_and_back [OF x st1] st1 show ?thesis by blast
qed

definition demo_trash_engine :: "(unit, unit) Engine" where
  "demo_trash_engine = demo_engine\<lparr>eg_db := \<lparr>db_rows = [(''s'', (new_row ''s'')\<lparr>sr_Deleted := True,
     sr_Messages := [demo_message 0 ''u'']\<rparr>)], db_excluded = []\<rparr>\<rparr>"

theorem restored_stays_stale_witness:
  "case RestoreSession True ''s'' (eg_db (snd (write_one (demo_sync_env (\<lambda>_ _. True) 4 1 []) False demo_pending (no_counts, demo_trash_engine)))) of
     None \<Rightarrow> False
   | Some (n, st) \<Rightarrow> n = 1 \<and> pd_skip (processFileWithPolicy (demo_sync_env (\<lambda>_ _. True) 4 1 [])
       ((snd (write_one (demo_sync_env (\<lambda>_ _. True) 4 1 []) False demo_pending (no_counts, demo_trash_engine)))\<lparr>eg_db := st\<rparr>)
       demo_discovered False)"
proof -
  let ?ev = "demo_sync_env (\<lambda>_ _. True) 4 1 []"
  have "\<not> isl (prepareSessionWrite ?ev demo_pending)" by code_simp
  then obtain s msgs events where prep: "prepareSessionWrite ?ev demo_pending = Inr (s, msgs, events)" and sid: "ds_ID s = ''s''"
    using demo_prepared [of "\<lambda>_ _. ((), ())" "\<lambda>_ _. True"] unfolding demo_sync_env_def by blast
  obtain c eg where run: "write_one ?ev False demo_pending (no_counts, demo_trash_engine) = (c, eg)" by fastforce
  have trash: "trashed (eg_db demo_trash_engine) (ds_ID s)" "ev_ok ?ev CheckTrashed (ds_ID s)"
    by (simp_all add: sid demo_trash_engine_def trashed_def demo_sync_env_def demo_env_with_def)
  obtain n st where restored: "RestoreSession True (ds_ID s) (eg_db eg) = Some (n, st)"
    by (simp add: RestoreSession_def) (metis prod.exhaust)
  have "n = 1 \<and> pd_skip (processFileWithPolicy ?ev (eg\<lparr>eg_db := st\<rparr>) demo_discovered False)"
    using restored_stays_stale [OF run prep trash restored, of demo_discovered "\<lparr>fs_Size = 4, fs_Mtime = 1, fs_Inode = 0, fs_Device = 0\<rparr>"]
    by (simp add: demo_sync_env_def demo_env_with_def demo_pending_def demo_discovered_def stamp_file_def demo_parsed_def)
  then show ?thesis using restored by (simp add: run sid)
qed

end
