(* ===== verification/Spec2Isabelle.thy ===== *)
theory Spec2Isabelle
  imports Prelude Signals_Tool Signals_Context Signals_Score Message_Scope Utf8 Validate Transcript_Diff
    Fingerprint Broadcaster TTL_Cache Flight_Lock Controller Backup_Sync Backup_Worker Decisions Timing
    Synthesize Secrets Pricing Termination_Status Extract_Candidate Line_Reader Memory_Editor Memory_Ledger
    Frontmatter Memory_Files Memory_Sync Memory_Server Gjson Tool_Content Claude_Messages Claude_Chunks
    Claude_Dag Claude_Session Claude_Reread Automation Sync_Pairing Sync_Incremental Grouping Daily_Usage
    Signals_Analytics Speed Session_Store Sync_Source Sync_Write Signal_Compute
    Session_Trash
begin

text \<open>
  A verification library for agentsview: a Go server that collects the sessions of coding agents, stores
  them in SQLite, mirrors them, and serves timelines, usage, quality signals and memory notes. Modelled is
  the logic the program owns, translated function by function from the Go sources under
  \<open>src/\<close>; the bytes of text are Isabelle characters, and every text function works on bytes as Go's do.

  Parts and their theories (each opens with its own text on state and operations):

  \<^item> Prelude. Go's string functions on byte lists, association maps, and the locales the components
    share: a state machine with an invariant (\<open>step_machine\<close>), an equality test (\<open>equality_test\<close>), a
    clamp (\<open>clamping\<close>), and encodings that can be read back (\<open>prefix_code\<close>, \<open>stream_code\<close>).
  \<^item> Claude transcripts. \<open>Gjson\<close> holds the JSON values a line is read to; \<open>Tool_Content\<close>
    (\<open>parser/content.go\<close>, \<open>taxonomy.go\<close>) reads content blocks, tool calls and results;
    \<open>Claude_Messages\<close>, \<open>Claude_Chunks\<close>, \<open>Claude_Dag\<close>, \<open>Claude_Session\<close> (all \<open>parser/claude.go\<close>) turn
    entries into messages, merge the lines of a streamed response, split the tree of entries into sessions
    at its forks, and compose these to the full and the incremental reader of a transcript;
    \<open>Claude_Reread\<close> shows when the two readers agree on a file that has grown.
  \<^item> From transcripts to rows. \<open>Sync_Pairing\<close> (\<open>sync/engine.go\<close>) converts parsed messages to rows and
    pairs tool results with their calls; \<open>Sync_Incremental\<close> (\<open>sync/engine.go\<close>, \<open>db/sessions.go\<close>) guards,
    counts and writes what an incremental read found; \<open>Automation\<close> (\<open>db/automated.go\<close>,
    \<open>classifier_hash.go\<close>) recognises sessions no person started.
  \<^item> The sync engine. \<open>Session_Store\<close> (\<open>db/session_batch.go\<close>, \<open>sessions.go\<close>, \<open>messages.go\<close>) is the table of
    sessions with their messages, pins and usage events, and its writes: one session, a batch with a savepoint for
    each, the snapshot of a source; \<open>Sync_Source\<close> (\<open>sync/engine.go\<close>) decides which files are read and reads
    them with the parser; \<open>Sync_Write\<close> (\<open>sync/engine.go\<close>) prepares rows, writes them one by one, in bulk or
    as a snapshot, and collects a whole pass; \<open>Signal_Compute\<close> (\<open>sync/signal_compute.go\<close>,
    \<open>secret_scan.go\<close>, \<open>db/secret_findings.go\<close>) is what the writes store beside the messages, computed
    with the theories of the analysis below and the scanner of \<open>Secrets\<close>; \<open>Session_Trash\<close>
    (\<open>db/sessions.go\<close>, \<open>starred.go\<close>) is what users do to the sessions between the passes.
  \<^item> Reading and storing sessions. \<open>Line_Reader\<close> (\<open>internal/parser/linereader.go\<close>) reads JSONL
    incrementally and resumes at an offset; \<open>Termination_Status\<close> (\<open>parser/termination.go\<close>) decides how a
    session ended; \<open>Utf8\<close>, \<open>Validate\<close> (\<open>internal/db\<close>) sanitise rows before they are stored;
    \<open>Transcript_Diff\<close> and \<open>Fingerprint\<close> (\<open>internal/sync\<close>, \<open>internal/db\<close>) decide whether a transcript changed.
  \<^item> Analysis. \<open>Signals_Tool\<close>, \<open>Signals_Context\<close>, \<open>Signals_Score\<close> (\<open>internal/signals\<close>) grade a session;
    \<open>Timing\<close> (\<open>internal/db/timing.go\<close>) attributes its time; \<open>Message_Scope\<close> streams the rows of a filter;
    \<open>Grouping\<close> holds what groups of rows have in common; \<open>Daily_Usage\<close> (\<open>db/usage.go\<close>) adds up tokens and
    cost by day, \<open>Signals_Analytics\<close> (\<open>db/analytics.go\<close>) the signals of many sessions, \<open>Speed\<close>
    (\<open>db/speed.go\<close>, \<open>analytics.go\<close>) measures output speed and response times;
    \<open>Pricing\<close> (\<open>internal/pricing\<close>) finds a model's price; \<open>Secrets\<close> (\<open>internal/secrets\<close>) finds and redacts
    secrets.
  \<^item> Serving. \<open>Broadcaster\<close> pushes events to subscribers, \<open>TTL_Cache\<close> caches usage answers,
    \<open>Memory_Server\<close> holds the memory routes (\<open>internal/server\<close>).
  \<^item> Memory notes. \<open>Extract_Candidate\<close> (\<open>internal/extract\<close>) accepts candidates from a session, after the
    scan of \<open>Secrets\<close>; \<open>Decisions\<close>, \<open>Flight_Lock\<close>, \<open>Controller\<close> (\<open>internal/consolidate\<close>) consolidate them
    one run at a time; \<open>Synthesize\<close> (\<open>internal/synthesize\<close>) clusters notes into canonical ones;
    \<open>Frontmatter\<close>, \<open>Memory_Files\<close>, \<open>Memory_Ledger\<close>, \<open>Memory_Sync\<close> (\<open>internal/memory\<close>, \<open>internal/db\<close>) edit
    notes on disk and in the ledger and mirror them into the table; \<open>Backup_Sync\<close>, \<open>Backup_Worker\<close>
    (\<open>internal/backup\<close>) copy the sources and push them to a private remote.

  State is explicit: a record per component, an operation returns the new state. Components whose
  behaviour depends on interleaving (\<open>Broadcaster\<close>, \<open>Flight_Lock\<close>, \<open>Controller\<close>, \<open>Session_Trash\<close>) are step relations over
  such states, and their properties are invariants of all reachable states. Errors are values of a sum,
  an option or a status. Go integers are integers where a bound keeps them small, and words where the
  width matters (\<open>Memory_Sync\<close>, \<open>Fingerprint\<close>). Floating-point costs and rates are rationals: where a statement equates
  costs it holds of the code up to the rounding of its additions, and the properties about sums of usage are about
  tokens only. Where Go walks a
  map, the order is an argument or the result is proved not to depend on it. The database is an association map of
  rows; which of its statements succeed is an argument (\<open>ok\<close>, by the kind of statement and the session), so that
  theorems about writes cover every failure; where the code ignores the error of a lookup and goes on (the upsert
  of an ordinary pass), so does the model. Two statements of one kind for one session succeed or fail together in
  one pass. The processes around the lock start, end and crash at any moment, and every system call is a step.

  Interfaces are locales, interpreted on the model's own definitions by the theory that provides them:
  the invariant arguments (\<open>step_machine\<close>: channels and limiter of the broadcaster, the lock, the
  controller, deletions of users between passes), \<open>sanitizer\<close> for the row validators, \<open>equality_test\<close> for the transcript comparison,
  \<open>prefix_code\<close> for the hashed fields, \<open>stream_code\<close> for the hashed matchers, \<open>ttl_store\<close> for the cache, \<open>usage_number\<close> for the quantities a day adds up, and \<open>memory_editor\<close>, the Go interface
  behind which the handlers reach the file writer and the ledger editor; the handlers' own editor is a
  third interpretation, proved from those two.

  Lemma groups: every component has the functional behaviour of its operations on all branches, then its
  invariant or its equivalence with a short specification (for instance \<open>Line_Reader\<close>: reading in steps
  equals reading at once; \<open>Message_Scope\<close>: the reducer refines a filter; \<open>Fingerprint\<close>: the hashed bytes
  determine the rows), then the properties, each with its witness. Where the code falls short of its
  own documentation a lemma shows the concrete behaviour, such as \<open>stale_reclaim_race\<close>, \<open>exit_reclaim_race\<close>,
  \<open>unseen_deletion_undone\<close>, \<open>queued_command_order_differs\<close>, \<open>project_not_scanned\<close>,
  \<open>chunk_run_hides_forks\<close>, \<open>boundary_fork_missed\<close>, \<open>split_batch_loses_result\<close>, \<open>failed_update_duplicates\<close>,
  \<open>failed_write_forgotten\<close>, \<open>restored_stays_stale\<close>, \<open>vanished_pin_moves\<close>, \<open>single_sync_keeps_stale\<close>,
  \<open>outage_makes_vector_stale\<close>, \<open>ledger_edit_not_mirrored\<close>, \<open>feedback_hides_header\<close>.

  Bounds and fuel: loops are structural or carry a termination proof (runes, the truncation for the
  embedding provider, balanced-brace scanning, the runs of a streamed response). Only the two walks over the
  tree of a transcript (\<open>walkBranch\<close>, \<open>countUserTurns\<close>) take fuel, since they need not end when uuids repeat
  (\<open>duplicate_uuid_diverges\<close>); \<open>None\<close> is a walk that has not returned. With distinct uuids and one root the
  number of entries is enough (\<open>dagBranches_returns\<close>, \<open>countUserTurns_exact\<close>). The line limit of the reader and
  of the index builder, the token budget of embeddings and the plausibility limits are the constants of
  the code.

  Parameters stand for what is not under \<open>src/\<close>: SHA-256, JSON and YAML decoders (for transcripts the
  record \<open>Parser\<close>: validity, value, time and editing of a line; for rows the record \<open>Conv\<close>), regular
  expressions of secret rules, git and gh, the python index builder, embedding and language models, the
  clock, and the price catalogue. A hypothesis about one of them is stated with the property that uses it.

  Not modelled: the transcript formats of the agents other than Claude, discovery, watching, worker pools and the
  swap of databases in a rebuild of the sync engine, SQL text and the PostgreSQL and DuckDB mirrors (their meaning is the database's), HTTP routing,
  configuration, the command line, subprocesses and network clients, which only pass values on.
\<close>

text \<open>
  C31. What the model wrote is free of secrets. The text of an accepted candidate that was scanned is the four answers of
  the model in which it is free (summary, evidence, implication, reason), trimmed; when none of its matches was
  excused as a known fixture, it holds no match of any rule, candidate rules included, so that redacting it changes
  nothing. Of the other fields the category is one of the nine of the code, and the rest comes from the session and
  the clock; these are not scanned.
\<close>

theorem accepted_candidate_is_redacted:
  assumes "NewCandidate order (Scan rules deny is_fixture) marshal digest inp sess rs now = Inr c"
    and "list_all (\<lambda>m. \<not> denied deny is_fixture (candidateSecretText c) m) (scanRaw rules (candidateSecretText c))"
  shows "scanRaw rules (candidateSecretText c) = [] \<and> Redact rules (candidateSecretText c) = candidateSecretText c \<and>
    candidateSecretText c = str_join [newline] [c_Summary c, c_Evidence c, c_Implication c, c_Why c] \<and>
    [c_Summary c, c_Evidence c, c_Implication c, c_Why c] =
      map trim_space [l_Summary inp, l_Evidence inp, l_Implication inp, l_Why inp] \<and>
    (c_Category c, c_ProblemType c) \<in> set problemTypeForCategory \<and>
    c_OriginSession c = originSession (s_ID sess) \<and> (c_OriginProject c, c_Scope c) = originScope sess \<and>
    c_SourcePlatform c = (if to_lower (trim_space (s_Agent sess)) = [] then ''agentsview'' else to_lower (trim_space (s_Agent sess))) \<and>
    c_SourceRoles c = sourceRoles rs \<and> c_CreatedAt c = now"
proof -
  have none: "scanRaw rules (candidateSecretText c) = []"
    using NewCandidate_scanned [OF assms(1)] assms(2) by (rule Scan_empty_raw)
  obtain pt where pt: "map_of problemTypeForCategory (normalizeCategory (l_Category inp)) = Some pt"
    and c: "c = (built inp sess rs now pt)\<lparr>c_ID := CandidateID marshal digest (built inp sess rs now pt)\<rparr>"
    using assms(1) by (auto simp: NewCandidate_built split: option.splits)
  have "(normalizeCategory (l_Category inp), pt) \<in> set problemTypeForCategory" using pt by (rule map_of_SomeD)
  then show ?thesis using none by (simp add: Redact_def redactSpans_def c built_def candidateSecretText_def)
qed

text \<open>A rule with a literal anchor, and the answer of \<^theory_text>\<open>Extract_Candidate\<close> that does not hold it.\<close>

definition anchored_rule :: rule where
  "anchored_rule =
     \<lparr>rl_name = ''aws'', rl_confidence = ConfidenceDefinite, rl_prefilters = [''AKIA''],
      rl_find = (\<lambda>_. [[Some (0, 4)]]), rl_group = 0, rl_validate = None, rl_mask = (\<lambda>_. ''***'')\<rparr>"

definition anchored_candidate :: Candidate where
  "anchored_candidate =
     \<lparr>c_Summary = ''a'', c_Evidence = ''b'', c_Implication = ''c'', c_Category = ''decision'',
      c_ProblemType = ''decision'', c_OriginSession = ''x-y'', c_OriginProject = ''p'', c_Scope = ''project'',
      c_SourcePlatform = ''claude'', c_SourceRoles = [''user''], c_Why = ''d'', c_CreatedAt = ''t'', c_ID = ''j''\<rparr>"

lemma anchored_accepted:
  "NewCandidate rev (Scan [anchored_rule] True (\<lambda>_. False)) (\<lambda>_. Some ''j'') (\<lambda>s. s) demo_answer demo_session
     [''User''] ''t'' = Inr anchored_candidate"
  by code_simp

theorem accepted_candidate_is_redacted_witness:
  "Redact [anchored_rule] (candidateSecretText anchored_candidate) = candidateSecretText anchored_candidate"
proof -
  have "list_all (\<lambda>m. \<not> denied True (\<lambda>_. False) (candidateSecretText anchored_candidate) m)
      (scanRaw [anchored_rule] (candidateSecretText anchored_candidate))"
    by (simp add: denied_def list_all_iff)
  with accepted_candidate_is_redacted [OF anchored_accepted] show ?thesis by blast
qed

text \<open>The project of the session is written to the candidate and not scanned.\<close>

definition keyed_session :: "Extract_Candidate.Session" where
  "keyed_session = demo_session\<lparr>Extract_Candidate.s_Project := ''AKIA''\<rparr>"

theorem project_not_scanned:
  "case NewCandidate rev (Scan [anchored_rule] True (\<lambda>_. False)) (\<lambda>_. Some ''j'') (\<lambda>s. s) demo_answer keyed_session [''User''] ''t'' of
     Inl _ \<Rightarrow> False
   | Inr c \<Rightarrow> c_OriginProject c = ''AKIA'' \<and> scanRaw [anchored_rule] (c_OriginProject c) \<noteq> []"
  by code_simp

end
